(* ===== verification/Prelude.thy ===== *)
theory Prelude
  imports Main "HOL-Library.Word"
begin

text \<open>
  What the components share: the collections their automation is declared into, the Rust
  integer types as words, and the generic lemmas on lists and maps that Rust's \<open>Vec\<close> and
  \<open>HashMap\<close> operations need.
\<close>

unbundle bit_operations_syntax

section \<open>Collections\<close>

named_theorems mask_simps \<open>numerals of the bit masks and flags\<close>
named_theorems desc_simps \<open>accessors of property descriptors\<close>
named_theorems shape_simps \<open>entries of shapes after a transition\<close>

section \<open>Rust's integer types\<close>

type_synonym u8 = "8 word"
type_synonym u16 = "16 word"
type_synonym u32 = "32 word"
type_synonym u64 = "64 word"

text \<open>
  An \<open>i32\<close> is the same 32 bits read as two's complement by \<open>sint\<close>.
\<close>

type_synonym i32 = "32 word"

definition i32_min :: int where
  "i32_min = - 2147483648"

definition i32_max :: int where
  "i32_max = 2147483647"

text \<open>A fallible computation that may panic: \<open>None\<close> is the panic.\<close>

type_synonym 'a panics = "'a option"

section \<open>Vectors\<close>

text \<open>\<open>Vec::remove\<close> and \<open>Vec::insert\<close>; both panic out of range.\<close>

definition vec_remove :: "'a list \<Rightarrow> nat \<Rightarrow> 'a list panics" where
  "vec_remove xs i = (if i < length xs then Some (take i xs @ drop (Suc i) xs) else None)"

definition vec_insert :: "'a list \<Rightarrow> nat \<Rightarrow> 'a \<Rightarrow> 'a list panics" where
  "vec_insert xs i x = (if i \<le> length xs then Some (take i xs @ x # drop i xs) else None)"

text \<open>Indexing \<open>vec[i]\<close> and \<open>vec[i] = x\<close>, which panic out of range, and \<open>vec.get(i)\<close>.\<close>

definition vec_get :: "'a list \<Rightarrow> nat \<Rightarrow> 'a option" where
  "vec_get xs i = (if i < length xs then Some (xs ! i) else None)"

definition vec_set :: "'a list \<Rightarrow> nat \<Rightarrow> 'a \<Rightarrow> 'a list panics" where
  "vec_set xs i x = (if i < length xs then Some (xs[i := x]) else None)"

lemma vec_get_Some [simp]: "vec_get xs i = Some x \<longleftrightarrow> i < length xs \<and> xs ! i = x"
  by (simp add: vec_get_def)

lemma vec_get_None [simp]: "vec_get xs i = None \<longleftrightarrow> length xs \<le> i"
  by (simp add: vec_get_def)

lemma vec_set_Some [simp]: "vec_set xs i x = Some ys \<longleftrightarrow> i < length xs \<and> ys = xs[i := x]"
  by (auto simp: vec_set_def)

lemma vec_remove_Some [simp]:
  "vec_remove xs i = Some ys \<longleftrightarrow> i < length xs \<and> ys = take i xs @ drop (Suc i) xs"
  by (auto simp: vec_remove_def)

lemma vec_insert_Some [simp]:
  "vec_insert xs i x = Some ys \<longleftrightarrow> i \<le> length xs \<and> ys = take i xs @ x # drop i xs"
  by (auto simp: vec_insert_def)

section \<open>Association lists\<close>

lemma map_of_append_fresh:
  "k \<notin> fst ` set xs \<Longrightarrow> map_of (xs @ [(k, v)]) k = Some v"
  by (induction xs) auto

lemma map_of_append_other:
  "k' \<noteq> k \<Longrightarrow> map_of (xs @ [(k, v)]) k' = map_of xs k'"
  by (induction xs) auto

lemma map_of_nth_distinct:
  assumes "distinct (map fst xs)" and "i < length xs"
  shows "map_of xs (fst (xs ! i)) = Some (snd (xs ! i))"
proof -
  have "(fst (xs ! i), snd (xs ! i)) \<in> set xs"
    using assms(2) by simp
  then show ?thesis
    using assms(1) by (rule map_of_is_SomeI [rotated])
qed

lemma map_of_Some_nth:
  assumes "map_of xs k = Some v"
  obtains i where "i < length xs" and "xs ! i = (k, v)"
proof -
  from assms have "(k, v) \<in> set xs" by (rule map_of_SomeD)
  then show thesis using that by (auto simp: in_set_conv_nth)
qed

lemma distinct_fst_nth_eq:
  assumes "distinct (map fst xs)" "i < length xs" "j < length xs" "fst (xs ! i) = fst (xs ! j)"
  shows "i = j"
  using assms by (metis length_map nth_eq_iff_index_eq nth_map)

end
