(* ===== verification/Float64.thy ===== *)
theory Float64
  imports Prelude
begin

text \<open>
  IEEE-754 doubles as their 64 bits, with the operations of Rust's \<open>f64\<close> that the engine's
  value representation uses: \<open>is_nan\<close>, \<open>==\<close>, \<open>signum\<close>, \<open>f64::from(i32)\<close> and the
  saturating cast \<open>as i32\<close>. The main result is that the conversion from \<open>i32\<close> is exact:
  it is inverted by the cast, it is never NaN and never a negative zero.
\<close>

type_synonym f64 = "64 word"

definition f64_exponent :: "f64 \<Rightarrow> nat" where
  "f64_exponent b = (unat b div 2 ^ 52) mod 2048"

definition f64_fraction :: "f64 \<Rightarrow> nat" where
  "f64_fraction b = unat b mod 2 ^ 52"

definition f64_negative :: "f64 \<Rightarrow> bool" where
  "f64_negative b \<longleftrightarrow> 2 ^ 63 \<le> unat b"

definition f64_is_nan :: "f64 \<Rightarrow> bool" where
  "f64_is_nan b \<longleftrightarrow> f64_exponent b = 2047 \<and> f64_fraction b \<noteq> 0"

definition f64_is_zero :: "f64 \<Rightarrow> bool" where
  "f64_is_zero b \<longleftrightarrow> f64_exponent b = 0 \<and> f64_fraction b = 0"

text \<open>\<open>x == y\<close>: no NaN equals anything, both zeros are equal, otherwise the bits decide.\<close>

definition f64_eq :: "f64 \<Rightarrow> f64 \<Rightarrow> bool" where
  "f64_eq a b \<longleftrightarrow> \<not> f64_is_nan a \<and> \<not> f64_is_nan b \<and> (a = b \<or> f64_is_zero a \<and> f64_is_zero b)"

definition f64_NAN :: f64 where
  "f64_NAN = 0x7FF8000000000000"

definition f64_signum :: "f64 \<Rightarrow> f64" where
  "f64_signum b =
     (if f64_is_nan b then f64_NAN
      else if f64_negative b then 0xBFF0000000000000 else 0x3FF0000000000000)"

section \<open>Conversions between \<open>i32\<close> and \<open>f64\<close>\<close>

fun ilog2 :: "nat \<Rightarrow> nat" where
  "ilog2 n = (if n < 2 then 0 else Suc (ilog2 (n div 2)))"

declare ilog2.simps [simp del]

definition f64_encode :: "bool \<Rightarrow> nat \<Rightarrow> nat" where
  "f64_encode neg m =
     (if neg then 2 ^ 63 else 0) + (1023 + ilog2 m) * 2 ^ 52 + (m * 2 ^ (52 - ilog2 m) - 2 ^ 52)"

definition f64_of_i32 :: "i32 \<Rightarrow> f64" where
  "f64_of_i32 n =
     (if n = 0 then 0 else word_of_nat (f64_encode (sint n < 0) (nat \<bar>sint n\<bar>)))"

text \<open>The integer part of the magnitude; infinities have a magnitude beyond every bound.\<close>

definition f64_magnitude :: "f64 \<Rightarrow> nat" where
  "f64_magnitude b =
     (if f64_exponent b < 1023 then 0
      else (2 ^ 52 + f64_fraction b) * 2 ^ (f64_exponent b - 1023) div 2 ^ 52)"

definition f64_as_i32 :: "f64 \<Rightarrow> i32" where
  "f64_as_i32 b =
     (if f64_is_nan b then 0
      else word_of_int
        (max i32_min (min i32_max
          (if f64_negative b then - int (f64_magnitude b) else int (f64_magnitude b)))))"

lemma ilog2_bounds: "0 < n \<Longrightarrow> 2 ^ ilog2 n \<le> n \<and> n < 2 ^ Suc (ilog2 n)"
proof (induction n rule: ilog2.induct)
  case (1 n)
  show ?case
  proof (cases "n < 2")
    case True
    with 1 show ?thesis by (simp add: ilog2.simps)
  next
    case False
    with 1 have "2 ^ ilog2 (n div 2) \<le> n div 2 \<and> n div 2 < 2 ^ Suc (ilog2 (n div 2))" by simp
    with False show ?thesis by (auto simp: ilog2.simps [of n])
  qed
qed

lemma ilog2_less: "n < 2 ^ k \<Longrightarrow> 0 < n \<Longrightarrow> ilog2 n < k"
proof (rule ccontr)
  assume n: "n < 2 ^ k" "0 < n" and "\<not> ilog2 n < k"
  then have "(2::nat) ^ k \<le> 2 ^ ilog2 n" by simp
  with ilog2_bounds [OF n(2)] n(1) show False by linarith
qed

lemma f64_scaled_bounds:
  assumes "0 < m" and "m < 2 ^ 52"
  shows "2 ^ 52 \<le> m * 2 ^ (52 - ilog2 m)" and "m * 2 ^ (52 - ilog2 m) < 2 ^ 53"
proof -
  let ?e = "ilog2 m"
  have e: "?e \<le> 52" using ilog2_less [OF assms(2,1)] by simp
  have b: "2 ^ ?e \<le> m" "m < 2 ^ Suc ?e" using ilog2_bounds [OF assms(1)] by auto
  have p: "(2::nat) ^ ?e * 2 ^ (52 - ?e) = 2 ^ 52"
    using e by (simp add: power_add [symmetric])
  show "2 ^ 52 \<le> m * 2 ^ (52 - ?e)"
    using mult_le_mono1 [OF b(1), of "2 ^ (52 - ?e)"] p by simp
  have "m * 2 ^ (52 - ?e) < 2 ^ Suc ?e * 2 ^ (52 - ?e)"
    using b(2) by simp
  also have "\<dots> = 2 * 2 ^ 52" using p by simp
  finally show "m * 2 ^ (52 - ?e) < 2 ^ 53" by simp
qed

lemma mult_add_div_mod:
  fixes f d q :: nat
  assumes "f < d"
  shows "(q * d + f) mod d = f" and "(q * d + f) div d = q"
  using assms by simp_all

lemma sign_mod:
  fixes x :: nat
  shows "x < 2048 \<Longrightarrow> ((if neg then 2048 else 0) + x) mod 2048 = x"
  by simp

lemma f64_encode_fields:
  assumes m: "0 < m" "m < 2 ^ 52"
  shows "f64_encode neg m < 2 ^ 64"
    and "f64_encode neg m div 2 ^ 52 mod 2048 = 1023 + ilog2 m"
    and "f64_encode neg m mod 2 ^ 52 = m * 2 ^ (52 - ilog2 m) - 2 ^ 52"
    and "2 ^ 63 \<le> f64_encode neg m \<longleftrightarrow> neg"
proof -
  let ?f = "m * 2 ^ (52 - ilog2 m) - 2 ^ 52"
  have f: "?f < 2 ^ 52" using f64_scaled_bounds [OF m] by simp
  have e: "ilog2 m < 52" using ilog2_less m by simp
  have enc: "f64_encode neg m = ((if neg then 2048 else 0) + (1023 + ilog2 m)) * 2 ^ 52 + ?f"
    by (simp add: f64_encode_def algebra_simps)
  show "f64_encode neg m mod 2 ^ 52 = ?f"
    unfolding enc by (rule mult_add_div_mod(1) [OF f])
  have d: "f64_encode neg m div 2 ^ 52 = (if neg then 2048 else 0) + (1023 + ilog2 m)"
    unfolding enc by (rule mult_add_div_mod(2) [OF f])
  have "((if neg then 2048 else 0) + (1023 + ilog2 m)) mod 2048 = 1023 + ilog2 m"
    by (rule sign_mod) (use e in simp)
  with d show "f64_encode neg m div 2 ^ 52 mod 2048 = 1023 + ilog2 m" by simp
  show "f64_encode neg m < 2 ^ 64" unfolding enc using f e by (cases neg) auto
  show "2 ^ 63 \<le> f64_encode neg m \<longleftrightarrow> neg" unfolding enc using f e by (cases neg) auto
qed

lemma sint_i32_bounds: "- 2147483648 \<le> sint (n :: i32)" "sint (n :: i32) < 2147483648"
  using sint_ge [of n] sint_lt [of n] by simp_all

lemma i32_magnitude:
  assumes "(n :: i32) \<noteq> 0"
  shows "0 < nat \<bar>sint n\<bar>" and "nat \<bar>sint n\<bar> < 2 ^ 52"
  using assms sint_i32_bounds [of n] by (auto simp: signed_eq_0_iff)

lemma f64_of_i32_fields:
  assumes n: "(n :: i32) \<noteq> 0"
  shows "f64_exponent (f64_of_i32 n) = 1023 + ilog2 (nat \<bar>sint n\<bar>)"
    and "f64_fraction (f64_of_i32 n) = nat \<bar>sint n\<bar> * 2 ^ (52 - ilog2 (nat \<bar>sint n\<bar>)) - 2 ^ 52"
    and "f64_negative (f64_of_i32 n) \<longleftrightarrow> sint n < 0"
proof -
  note m = i32_magnitude [OF n]
  note enc = f64_encode_fields [OF m]
  have u: "unat (f64_of_i32 n) = f64_encode (sint n < 0) (nat \<bar>sint n\<bar>)"
    using n enc(1) by (simp add: f64_of_i32_def unat_of_nat)
  show "f64_exponent (f64_of_i32 n) = 1023 + ilog2 (nat \<bar>sint n\<bar>)"
    by (simp only: f64_exponent_def u enc(2))
  show "f64_fraction (f64_of_i32 n) = nat \<bar>sint n\<bar> * 2 ^ (52 - ilog2 (nat \<bar>sint n\<bar>)) - 2 ^ 52"
    by (simp only: f64_fraction_def u enc(3))
  show "f64_negative (f64_of_i32 n) \<longleftrightarrow> sint n < 0"
    by (simp only: f64_negative_def u enc(4))
qed

lemma f64_zero_fields [simp]:
  "f64_exponent 0 = 0" "f64_fraction 0 = 0" "\<not> f64_negative 0" "\<not> f64_is_nan 0"
  by (simp_all add: f64_exponent_def f64_fraction_def f64_negative_def f64_is_nan_def)

lemma f64_of_i32_0 [simp]: "f64_of_i32 0 = 0"
  by (simp add: f64_of_i32_def)

lemma f64_of_i32_not_nan [simp]: "\<not> f64_is_nan (f64_of_i32 n)"
proof (cases "n = 0")
  case False
  have "ilog2 (nat \<bar>sint n\<bar>) < 52" using ilog2_less i32_magnitude [OF False] by blast
  with f64_of_i32_fields(1) [OF False] show ?thesis by (simp add: f64_is_nan_def)
qed simp

lemma f64_magnitude_of_i32: "f64_magnitude (f64_of_i32 n) = nat \<bar>sint n\<bar>"
proof (cases "n = 0")
  case False
  let ?m = "nat \<bar>sint n\<bar>"
  note m = i32_magnitude [OF False]
  have le: "2 ^ 52 \<le> ?m * 2 ^ (52 - ilog2 ?m)" by (rule f64_scaled_bounds(1) [OF m])
  have e: "ilog2 ?m \<le> 52" using ilog2_less m by (simp add: less_imp_le)
  have "f64_magnitude (f64_of_i32 n) = ?m * 2 ^ (52 - ilog2 ?m) * 2 ^ ilog2 ?m div 2 ^ 52"
    using le by (simp add: f64_magnitude_def f64_of_i32_fields [OF False])
  also have "?m * 2 ^ (52 - ilog2 ?m) * 2 ^ ilog2 ?m = ?m * (2 ^ (52 - ilog2 ?m + ilog2 ?m))"
    by (simp only: power_add mult.assoc)
  also have "\<dots> = ?m * 2 ^ 52" using e by simp
  finally show ?thesis by simp
qed (simp add: f64_magnitude_def)

lemma f64_as_i32_of_i32 [simp]: "f64_as_i32 (f64_of_i32 n) = n"
proof -
  have neg: "f64_negative (f64_of_i32 n) \<longleftrightarrow> sint n < 0"
    by (cases "n = 0") (simp_all add: f64_of_i32_fields)
  have sgn: "(if f64_negative (f64_of_i32 n) then - int (nat \<bar>sint n\<bar>) else int (nat \<bar>sint n\<bar>)) = sint n"
    by (simp add: neg)
  have "max i32_min (min i32_max (sint n)) = sint n"
    using sint_i32_bounds [of n] by (simp add: i32_min_def i32_max_def)
  then show ?thesis
    unfolding f64_as_i32_def f64_magnitude_of_i32 sgn by simp
qed

lemma f64_of_i32_inject [simp]: "f64_of_i32 m = f64_of_i32 n \<longleftrightarrow> m = n"
  by (metis f64_as_i32_of_i32)

lemma f64_of_i32_zero_iff [simp]: "f64_is_zero (f64_of_i32 n) \<longleftrightarrow> n = 0"
proof (cases "n = 0")
  case False
  then show ?thesis by (simp add: f64_is_zero_def f64_of_i32_fields)
qed (simp add: f64_is_zero_def)

lemma f64_eq_of_i32 [simp]: "f64_eq (f64_of_i32 m) (f64_of_i32 n) \<longleftrightarrow> m = n"
  by (auto simp: f64_eq_def)

lemma f64_eq_refl: "f64_eq a a \<longleftrightarrow> \<not> f64_is_nan a"
  by (auto simp: f64_eq_def)

lemma f64_eq_sym: "f64_eq a b \<longleftrightarrow> f64_eq b a"
  by (auto simp: f64_eq_def)

lemma f64_eq_trans: "f64_eq a b \<Longrightarrow> f64_eq b c \<Longrightarrow> f64_eq a c"
  by (auto simp: f64_eq_def)

lemma f64_zero_bits: "f64_is_zero b \<Longrightarrow> b = 0 \<or> b = 0x8000000000000000"
proof -
  assume "f64_is_zero b"
  then have z: "unat b div 2 ^ 52 mod 2048 = 0" "unat b mod 2 ^ 52 = 0"
    by (simp_all add: f64_is_zero_def f64_exponent_def f64_fraction_def)
  have b: "unat b < 2 ^ 64" using unsigned_less [of b, where ?'a = nat] by simp
  from z(2) obtain q where q: "unat b = q * 2 ^ 52" by (metis mod_0_imp_dvd dvd_def mult.commute)
  with b have "q < 2 ^ 12" by simp
  moreover from z(1) q have "q mod 2048 = 0" by simp
  then obtain r where r: "q = 2048 * r" by (metis mod_0_imp_dvd dvd_def)
  ultimately have "r = 0 \<or> r = 1" by auto
  with r have "q = 0 \<or> q = 2048" by auto
  with q have "unat b = 0 \<or> unat b = 2 ^ 63" by auto
  then show ?thesis
  proof
    assume "unat b = 0"
    then show ?thesis by (simp add: unsigned_eq_0_iff)
  next
    assume "unat b = 2 ^ 63"
    then have "unat b = unat (0x8000000000000000 :: 64 word)" by simp
    then show ?thesis by (intro disjI2) (simp only: word_unat_eq_iff)
  qed
qed

lemma f64_signum_negative:
  "\<not> f64_is_nan a \<Longrightarrow> \<not> f64_is_nan b \<Longrightarrow>
     f64_signum a = f64_signum b \<longleftrightarrow> (f64_negative a \<longleftrightarrow> f64_negative b)"
  by (simp add: f64_signum_def)

end
