(* ===== verification/NanBox.thy ===== *)
theory NanBox
  imports Float64
begin

text \<open>
  The NaN-boxed representation of a JavaScript value
  (\<open>core/engine/src/value/inner/nan_boxed.rs\<close>): the bit masks and tags of its module
  \<open>bits\<close>, the constructors of \<open>NanBoxedValue\<close>, its type tests and its decoding into
  \<open>JsVariant\<close>. A box is its 64-bit value; the pointers of strings, symbols, objects and
  big integers are 64-bit addresses, and \<open>tag_pointer\<close> panics (\<open>None\<close>) on one that does
  not fit 48 bits.
\<close>

section \<open>Masks and tags\<close>

definition MASK_NAN :: u64 where [mask_simps]: "MASK_NAN = 0x7FF0000000000000"
definition MASK_KIND :: u64 where [mask_simps]: "MASK_KIND = MASK_NAN OR 0xF000000000000"

definition TAG_INF :: u64 where [mask_simps]: "TAG_INF = 0x0000000000000"
definition TAG_NAN :: u64 where [mask_simps]: "TAG_NAN = 0x8000000000000"
definition TAG_INT32 :: u64 where [mask_simps]: "TAG_INT32 = 0x9000000000000"
definition TAG_BOOLEAN :: u64 where [mask_simps]: "TAG_BOOLEAN = 0xA000000000000"
definition TAG_OTHER :: u64 where [mask_simps]: "TAG_OTHER = 0xB000000000000"
definition TAG_OBJECT :: u64 where [mask_simps]: "TAG_OBJECT = 0xC000000000000"
definition TAG_STRING :: u64 where [mask_simps]: "TAG_STRING = 0xD000000000000"
definition TAG_SYMBOL :: u64 where [mask_simps]: "TAG_SYMBOL = 0xE000000000000"
definition TAG_BIGINT :: u64 where [mask_simps]: "TAG_BIGINT = 0xF000000000000"

definition MASK_INT32 :: u64 where [mask_simps]: "MASK_INT32 = MASK_NAN OR TAG_INT32"
definition MASK_BOOLEAN :: u64 where [mask_simps]: "MASK_BOOLEAN = MASK_NAN OR TAG_BOOLEAN"
definition MASK_OTHER :: u64 where [mask_simps]: "MASK_OTHER = MASK_NAN OR TAG_OTHER"
definition MASK_OBJECT :: u64 where [mask_simps]: "MASK_OBJECT = MASK_NAN OR TAG_OBJECT"
definition MASK_STRING :: u64 where [mask_simps]: "MASK_STRING = MASK_NAN OR TAG_STRING"
definition MASK_SYMBOL :: u64 where [mask_simps]: "MASK_SYMBOL = MASK_NAN OR TAG_SYMBOL"
definition MASK_BIGINT :: u64 where [mask_simps]: "MASK_BIGINT = MASK_NAN OR TAG_BIGINT"

definition MASK_INT32_VALUE :: u64 where [mask_simps]: "MASK_INT32_VALUE = 0xFFFFFFFF"
definition MASK_POINTER_VALUE :: u64 where [mask_simps]: "MASK_POINTER_VALUE = 0x0000FFFFFFFFFFFF"
definition MASK_BOOLEAN_VALUE :: u64 where [mask_simps]: "MASK_BOOLEAN_VALUE = 1"

definition VALUE_NULL :: u64 where [mask_simps]: "VALUE_NULL = MASK_OTHER"
definition VALUE_UNDEFINED :: u64 where [mask_simps]: "VALUE_UNDEFINED = MASK_OTHER OR 1"
definition VALUE_FALSE :: u64 where [mask_simps]: "VALUE_FALSE = MASK_BOOLEAN"
definition VALUE_TRUE :: u64 where [mask_simps]: "VALUE_TRUE = MASK_BOOLEAN OR 1"
definition VALUE_NEGATIVE_ZERO :: u64 where [mask_simps]: "VALUE_NEGATIVE_ZERO = 0x8000000000000000"

section \<open>The operations of module \<open>bits\<close>\<close>

definition bits_is_bool :: "u64 \<Rightarrow> bool" where
  "bits_is_bool value \<longleftrightarrow> value AND MASK_KIND = MASK_BOOLEAN"

definition bits_is_float :: "u64 \<Rightarrow> bool" where
  "bits_is_float value \<longleftrightarrow>
     value AND MASK_NAN \<noteq> MASK_NAN
     \<or> value AND MASK_KIND = MASK_NAN OR TAG_INF
     \<or> value AND MASK_KIND = MASK_NAN OR TAG_NAN"

definition bits_is_negative_zero :: "u64 \<Rightarrow> bool" where
  "bits_is_negative_zero value \<longleftrightarrow> value = VALUE_NEGATIVE_ZERO"

definition bits_is_integer32 :: "u64 \<Rightarrow> bool" where
  "bits_is_integer32 value \<longleftrightarrow> value AND MASK_KIND = MASK_INT32"

definition bits_is_bigint :: "u64 \<Rightarrow> bool" where
  "bits_is_bigint value \<longleftrightarrow> value AND MASK_KIND = MASK_BIGINT"

definition bits_is_object :: "u64 \<Rightarrow> bool" where
  "bits_is_object value \<longleftrightarrow> value AND MASK_KIND = MASK_OBJECT"

definition bits_is_symbol :: "u64 \<Rightarrow> bool" where
  "bits_is_symbol value \<longleftrightarrow> value AND MASK_KIND = MASK_SYMBOL"

definition bits_is_string :: "u64 \<Rightarrow> bool" where
  "bits_is_string value \<longleftrightarrow> value AND MASK_KIND = MASK_STRING"

definition bits_tag_f64 :: "f64 \<Rightarrow> u64" where
  "bits_tag_f64 value = (if f64_is_nan value then f64_NAN else value)"

text \<open>\<open>value as u64\<close> on an \<open>i32\<close> sign-extends; \<open>value as i32\<close> on a \<open>u64\<close> truncates.\<close>

definition bits_tag_i32 :: "i32 \<Rightarrow> u64" where
  "bits_tag_i32 value = scast value AND MASK_INT32_VALUE OR MASK_INT32"

definition bits_untag_i32 :: "u64 \<Rightarrow> i32" where
  "bits_untag_i32 value = ucast value"

definition bits_tag_bool :: "bool \<Rightarrow> u64" where
  "bits_tag_bool value = of_bool value OR MASK_BOOLEAN"

definition bits_untag_bool :: "u64 \<Rightarrow> bool" where
  "bits_untag_bool value \<longleftrightarrow> value AND MASK_BOOLEAN_VALUE \<noteq> 0"

definition bits_tag_pointer :: "u64 \<Rightarrow> u64 \<Rightarrow> u64 panics" where
  "bits_tag_pointer value type_mask =
     (let value_masked = value AND MASK_POINTER_VALUE in
      if value_masked \<noteq> value then None else Some (value_masked OR type_mask))"

definition bits_untag_pointer :: "u64 \<Rightarrow> u64" where
  "bits_untag_pointer value = value AND MASK_POINTER_VALUE"

section \<open>\<open>NanBoxedValue\<close>\<close>

type_synonym nan_boxed = u64

datatype nb_variant =
    NB_Null | NB_Undefined | NB_Boolean bool | NB_String u64 | NB_Float64 f64
  | NB_Integer32 i32 | NB_BigInt u64 | NB_Object u64 | NB_Symbol u64

datatype js_type =
  TUndefined | TNull | TBoolean | TNumber | TString | TSymbol | TBigInt | TObject

definition nb_null :: nan_boxed where "nb_null = VALUE_NULL"
definition nb_undefined :: nan_boxed where "nb_undefined = VALUE_UNDEFINED"
definition nb_float64 :: "f64 \<Rightarrow> nan_boxed" where "nb_float64 v = bits_tag_f64 v"
definition nb_integer32 :: "i32 \<Rightarrow> nan_boxed" where "nb_integer32 v = bits_tag_i32 v"
definition nb_boolean :: "bool \<Rightarrow> nan_boxed" where "nb_boolean v = bits_tag_bool v"
definition nb_bigint :: "u64 \<Rightarrow> nan_boxed panics" where "nb_bigint p = bits_tag_pointer p MASK_BIGINT"
definition nb_object :: "u64 \<Rightarrow> nan_boxed panics" where "nb_object p = bits_tag_pointer p MASK_OBJECT"
definition nb_symbol :: "u64 \<Rightarrow> nan_boxed panics" where "nb_symbol p = bits_tag_pointer p MASK_SYMBOL"
definition nb_string :: "u64 \<Rightarrow> nan_boxed panics" where "nb_string p = bits_tag_pointer p MASK_STRING"

definition nb_is_undefined :: "nan_boxed \<Rightarrow> bool" where
  "nb_is_undefined v \<longleftrightarrow> v = VALUE_UNDEFINED"

definition nb_is_null :: "nan_boxed \<Rightarrow> bool" where
  "nb_is_null v \<longleftrightarrow> v = VALUE_NULL"

definition nb_is_null_or_undefined :: "nan_boxed \<Rightarrow> bool" where
  "nb_is_null_or_undefined v \<longleftrightarrow> v AND MASK_KIND = MASK_OTHER"

definition nb_get_type :: "nan_boxed \<Rightarrow> js_type" where
  "nb_get_type v =
     (let kind = v AND MASK_KIND in
      if kind = MASK_OBJECT then TObject
      else if kind = MASK_STRING then TString
      else if kind = MASK_SYMBOL then TSymbol
      else if kind = MASK_BIGINT then TBigInt
      else if kind = MASK_BOOLEAN then TBoolean
      else if kind = MASK_OTHER then (if v = VALUE_NULL then TNull else TUndefined)
      else TNumber)"

definition nb_as_float64 :: "nan_boxed \<Rightarrow> f64 option" where
  "nb_as_float64 v = (if bits_is_float v then Some v else None)"

definition nb_as_integer32 :: "nan_boxed \<Rightarrow> i32 option" where
  "nb_as_integer32 v = (if bits_is_integer32 v then Some (bits_untag_i32 v) else None)"

definition nb_as_bool :: "nan_boxed \<Rightarrow> bool option" where
  "nb_as_bool v =
     (if v = VALUE_FALSE then Some False else if v = VALUE_TRUE then Some True else None)"

definition nb_as_bigint :: "nan_boxed \<Rightarrow> u64 option" where
  "nb_as_bigint v = (if bits_is_bigint v then Some (bits_untag_pointer v) else None)"

definition nb_as_object :: "nan_boxed \<Rightarrow> u64 option" where
  "nb_as_object v = (if bits_is_object v then Some (bits_untag_pointer v) else None)"

definition nb_as_symbol :: "nan_boxed \<Rightarrow> u64 option" where
  "nb_as_symbol v = (if bits_is_symbol v then Some (bits_untag_pointer v) else None)"

definition nb_as_string :: "nan_boxed \<Rightarrow> u64 option" where
  "nb_as_string v = (if bits_is_string v then Some (bits_untag_pointer v) else None)"

text \<open>
  \<open>to_boolean\<close> looks behind the string and big-integer pointers; what it reads there
  (\<open>is_empty\<close>, \<open>is_zero\<close>) are arguments. The default build has no \<open>annex-b\<close> feature.
\<close>

definition nb_to_boolean :: "(u64 \<Rightarrow> bool) \<Rightarrow> (u64 \<Rightarrow> bool) \<Rightarrow> nan_boxed \<Rightarrow> bool" where
  "nb_to_boolean string_is_empty bigint_is_zero v =
     (let kind = v AND MASK_KIND in
      if kind = MASK_SYMBOL then True
      else if kind = MASK_OBJECT then True
      else if kind = MASK_OTHER then False
      else if kind = MASK_INT32 then bits_untag_i32 v \<noteq> 0
      else if kind = MASK_BOOLEAN then bits_untag_bool v
      else if kind = MASK_STRING then \<not> string_is_empty (bits_untag_pointer v)
      else if kind = MASK_BIGINT then \<not> bigint_is_zero (bits_untag_pointer v)
      else \<not> f64_eq v 0 \<and> \<not> f64_is_nan v)"

definition nb_as_variant :: "nan_boxed \<Rightarrow> nb_variant" where
  "nb_as_variant v =
     (let kind = v AND MASK_KIND in
      if kind = MASK_OBJECT then NB_Object (bits_untag_pointer v)
      else if kind = MASK_STRING then NB_String (bits_untag_pointer v)
      else if kind = MASK_SYMBOL then NB_Symbol (bits_untag_pointer v)
      else if kind = MASK_BIGINT then NB_BigInt (bits_untag_pointer v)
      else if kind = MASK_INT32 then NB_Integer32 (bits_untag_i32 v)
      else if kind = MASK_BOOLEAN then NB_Boolean (bits_untag_bool v)
      else if kind = MASK_OTHER then (if v = VALUE_NULL then NB_Null else NB_Undefined)
      else NB_Float64 v)"

text \<open>The constructor of each variant (\<open>From<JsVariant> for JsValue\<close>).\<close>

fun nb_from_variant :: "nb_variant \<Rightarrow> nan_boxed panics" where
  "nb_from_variant NB_Null = Some nb_null"
| "nb_from_variant NB_Undefined = Some nb_undefined"
| "nb_from_variant (NB_Boolean b) = Some (nb_boolean b)"
| "nb_from_variant (NB_String p) = nb_string p"
| "nb_from_variant (NB_Float64 f) = Some (nb_float64 f)"
| "nb_from_variant (NB_Integer32 i) = Some (nb_integer32 i)"
| "nb_from_variant (NB_BigInt p) = nb_bigint p"
| "nb_from_variant (NB_Object p) = nb_object p"
| "nb_from_variant (NB_Symbol p) = nb_symbol p"


section \<open>Tagged pointers\<close>

text \<open>
  What a pointer tag promises: it is made of kind bits only, so it neither touches nor is
  touched by the 48 payload bits. Tagging and untagging are proved once, for every tag.
\<close>

lemma kind_payload_disjoint: "MASK_KIND AND MASK_POINTER_VALUE = 0"
  by (simp add: mask_simps)

locale nan_tag =
  fixes type_mask :: u64
  assumes mask_in_kind: "type_mask AND MASK_KIND = type_mask"
begin

lemma mask_no_payload: "type_mask AND MASK_POINTER_VALUE = 0"
proof -
  have "type_mask AND MASK_POINTER_VALUE = type_mask AND (MASK_KIND AND MASK_POINTER_VALUE)"
    using mask_in_kind by (metis and.assoc)
  then show ?thesis by (simp add: kind_payload_disjoint)
qed

lemma tag_kind:
  assumes "bits_tag_pointer p type_mask = Some w"
  shows "w AND MASK_KIND = type_mask"
proof -
  from assms have p: "p AND MASK_POINTER_VALUE = p" and w: "w = p OR type_mask"
    by (auto simp: bits_tag_pointer_def Let_def split: if_splits)
  have "p AND MASK_KIND = p AND (MASK_KIND AND MASK_POINTER_VALUE)"
    using p by (metis and.assoc and.commute)
  then have "p AND MASK_KIND = 0" by (simp add: kind_payload_disjoint)
  then show ?thesis by (simp add: w and.commute [of _ MASK_KIND] bit.conj_disj_distrib
        mask_in_kind [unfolded and.commute [of _ MASK_KIND]])
qed

lemma untag_tag:
  assumes "bits_tag_pointer p type_mask = Some w"
  shows "bits_untag_pointer w = p"
proof -
  from assms have p: "p AND MASK_POINTER_VALUE = p" and w: "w = p OR type_mask"
    by (auto simp: bits_tag_pointer_def Let_def split: if_splits)
  show ?thesis
    by (simp add: bits_untag_pointer_def w bit.conj_disj_distrib2 p mask_no_payload)
qed

end

interpretation tag_object: nan_tag MASK_OBJECT
  by unfold_locales (simp add: mask_simps)

interpretation tag_string: nan_tag MASK_STRING
  by unfold_locales (simp add: mask_simps)

interpretation tag_symbol: nan_tag MASK_SYMBOL
  by unfold_locales (simp add: mask_simps)

interpretation tag_bigint: nan_tag MASK_BIGINT
  by unfold_locales (simp add: mask_simps)

lemmas tag_pointer_kinds =
  tag_object.tag_kind tag_string.tag_kind tag_symbol.tag_kind tag_bigint.tag_kind

lemmas tag_pointer_untags =
  tag_object.untag_tag tag_string.untag_tag tag_symbol.untag_tag tag_bigint.untag_tag

text \<open>A pointer is accepted exactly when it fits 48 bits.\<close>

lemma pointer_fits_48: "p AND MASK_POINTER_VALUE = p \<longleftrightarrow> unat p < 2 ^ 48"
proof -
  have "MASK_POINTER_VALUE = mask 48"
    by (simp add: mask_simps mask_eq_exp_minus_1)
  then have "p AND MASK_POINTER_VALUE = take_bit 48 p"
    by (simp add: take_bit_eq_mask)
  moreover have "take_bit 48 p = p \<longleftrightarrow> unat p < 2 ^ 48"
  proof -
    have "take_bit 48 p = p \<longleftrightarrow> take_bit 48 (unat p) = unat p"
      by (metis unsigned_take_bit_eq word_unat_eq_iff)
    then show ?thesis by (simp add: take_bit_nat_eq_self_iff)
  qed
  ultimately show ?thesis by simp
qed

lemma tag_pointer_total: "(\<exists>w. bits_tag_pointer p m = Some w) \<longleftrightarrow> unat p < 2 ^ 48"
  by (auto simp: bits_tag_pointer_def Let_def pointer_fits_48)

section \<open>Integers, booleans and floats\<close>

lemma i32_bits: "ucast ((scast (v :: i32) :: u64) AND mask 32) = v"
proof (rule bit_word_eqI)
  fix n assume n: "n < LENGTH(32)"
  then have "31 \<le> n \<longleftrightarrow> n = 31" by auto
  with n show "bit (ucast ((scast v :: u64) AND mask 32) :: i32) n = bit v n"
    by (auto simp: bit_simps min_def)
qed

lemma ucast_or: "(ucast (x OR y :: u64) :: i32) = ucast x OR ucast y"
  by (rule bit_word_eqI) (auto simp: bit_simps)

lemma untag_tag_i32 [simp]: "bits_untag_i32 (bits_tag_i32 v) = v"
proof -
  have m: "MASK_INT32_VALUE = mask 32" by (simp add: mask_simps mask_eq_exp_minus_1)
  have z: "(ucast MASK_INT32 :: i32) = 0" by (simp add: mask_simps)
  show ?thesis
    unfolding bits_untag_i32_def bits_tag_i32_def ucast_or m i32_bits z by simp
qed

lemma tag_i32_kind [simp]: "bits_tag_i32 v AND MASK_KIND = MASK_INT32"
proof -
  have "MASK_INT32_VALUE AND MASK_KIND = 0" "MASK_INT32 AND MASK_KIND = MASK_INT32"
    by (simp_all add: mask_simps)
  then show ?thesis
    by (simp add: bits_tag_i32_def bit.conj_disj_distrib2 and.assoc)
qed

lemma tag_bool_simps [simp]:
  "bits_tag_bool b AND MASK_KIND = MASK_BOOLEAN" "bits_untag_bool (bits_tag_bool b) = b"
  by (cases b; simp add: bits_tag_bool_def bits_untag_bool_def mask_simps)+

lemma value_kinds [simp]:
  "VALUE_NULL AND MASK_KIND = MASK_OTHER" "VALUE_UNDEFINED AND MASK_KIND = MASK_OTHER"
  by (simp_all add: mask_simps)

lemma null_not_undefined [simp]: "VALUE_NULL \<noteq> VALUE_UNDEFINED" "VALUE_UNDEFINED \<noteq> VALUE_NULL"
  by (simp_all add: mask_simps)

lemma masks_distinct:
  "distinct [MASK_INT32, MASK_BOOLEAN, MASK_OTHER, MASK_OBJECT, MASK_STRING, MASK_SYMBOL, MASK_BIGINT]"
  by (simp add: mask_simps)

text \<open>The kind bits in terms of the exponent and fraction of a double.\<close>

lemma unat_kind: "unat (v AND MASK_KIND) = (unat v div 2 ^ 48 mod 2 ^ 15) * 2 ^ 48"
proof -
  have m: "MASK_KIND = push_bit 48 (mask 15)"
    by (simp add: mask_simps mask_eq_exp_minus_1 push_bit_eq_mult)
  have "v AND MASK_KIND = push_bit 48 (take_bit 15 (drop_bit 48 v))"
    unfolding m by (rule bit_word_eqI) (auto simp: bit_simps)
  then have "unat (v AND MASK_KIND) = unat (push_bit 48 (take_bit 15 (drop_bit 48 v)))"
    by simp
  also have "\<dots> = push_bit 48 (take_bit 15 (drop_bit 48 (unat v)))"
    by (rule bit_eqI) (auto simp: bit_simps dest: bit_imp_le_length)
  finally show ?thesis
    by (simp add: push_bit_eq_mult take_bit_eq_mod drop_bit_eq_div)
qed

lemma kind_fields:
  assumes "v AND MASK_KIND = word_of_nat (t * 2 ^ 48)" and t: "t < 2 ^ 15"
  shows "f64_exponent v = t div 16" and "unat v mod 2 ^ 52 div 2 ^ 48 = t mod 16"
proof -
  have "t * 2 ^ 48 < 2 ^ 64" using t by simp
  then have "unat (word_of_nat (t * 2 ^ 48) :: u64) = t * 2 ^ 48"
    by (simp add: unat_of_nat del: of_nat_mult)
  with assms unat_kind [of v] have k: "unat v div 2 ^ 48 mod 2 ^ 15 = t" by simp
  have d: "unat v div 2 ^ 52 = unat v div 2 ^ 48 div 16"
    by (simp add: div_mult2_eq [symmetric])
  have m: "w mod (2 ^ 15) = 16 * (w div 16 mod 2048) + w mod 16" for w :: nat
    using mod_mult2_eq [of w 16 2048] by simp
  show "f64_exponent v = t div 16"
    unfolding f64_exponent_def d k [symmetric] m by simp
  have "unat v mod 2 ^ 52 = 2 ^ 48 * (unat v div 2 ^ 48 mod 16) + unat v mod 2 ^ 48"
    using mod_mult2_eq [of "unat v" "2 ^ 48" 16] by simp
  then show "unat v mod 2 ^ 52 div 2 ^ 48 = t mod 16"
    unfolding k [symmetric] m by simp
qed

text \<open>A double that carries one of the seven value tags is a NaN with a payload.\<close>

lemma kind_is_nan:
  assumes "v AND MASK_KIND = word_of_nat (t * 2 ^ 48)" and t: "t \<in> {0x7FF9 .. 0x7FFF}"
  shows "f64_is_nan v"
proof -
  from kind_fields [OF assms(1)] t have e: "f64_exponent v = t div 16"
    and f: "unat v mod 2 ^ 52 div 2 ^ 48 = t mod 16" by simp_all
  obtain r where r: "t = 2047 * 16 + r" "0 < r" "r < 16"
    using t by (auto intro: that [of "t - 0x7FF0"])
  have "t div 16 = 2047" "t mod 16 \<noteq> 0"
    unfolding r(1) mult_add_div_mod [OF r(3)] using r(2) by simp_all
  with e f show ?thesis by (auto simp: f64_is_nan_def f64_fraction_def)
qed

lemma tagged_is_nan:
  assumes "v AND MASK_KIND \<in> {MASK_INT32, MASK_BOOLEAN, MASK_OTHER, MASK_OBJECT, MASK_STRING, MASK_SYMBOL, MASK_BIGINT}"
  shows "f64_is_nan v"
proof -
  have "v AND MASK_KIND = MASK_INT32 \<Longrightarrow> f64_is_nan v"
    "v AND MASK_KIND = MASK_BOOLEAN \<Longrightarrow> f64_is_nan v"
    "v AND MASK_KIND = MASK_OTHER \<Longrightarrow> f64_is_nan v"
    "v AND MASK_KIND = MASK_OBJECT \<Longrightarrow> f64_is_nan v"
    "v AND MASK_KIND = MASK_STRING \<Longrightarrow> f64_is_nan v"
    "v AND MASK_KIND = MASK_SYMBOL \<Longrightarrow> f64_is_nan v"
    "v AND MASK_KIND = MASK_BIGINT \<Longrightarrow> f64_is_nan v"
    using kind_is_nan [of v "0x7FF9"] kind_is_nan [of v "0x7FFA"] kind_is_nan [of v "0x7FFB"]
      kind_is_nan [of v "0x7FFC"] kind_is_nan [of v "0x7FFD"] kind_is_nan [of v "0x7FFE"]
      kind_is_nan [of v "0x7FFF"]
    by (simp_all add: mask_simps)
  with assms show ?thesis by blast
qed

lemma tag_f64_kind:
  "bits_tag_f64 f AND MASK_KIND \<notin> {MASK_INT32, MASK_BOOLEAN, MASK_OTHER, MASK_OBJECT, MASK_STRING, MASK_SYMBOL, MASK_BIGINT}"
proof (cases "f64_is_nan f")
  case True
  then show ?thesis by (simp add: bits_tag_f64_def f64_NAN_def mask_simps)
next
  case False
  then show ?thesis using tagged_is_nan [of f] by (auto simp: bits_tag_f64_def)
qed

section \<open>Encoding and decoding are inverse\<close>

fun nb_canonical :: "nb_variant \<Rightarrow> nb_variant" where
  "nb_canonical (NB_Float64 f) = NB_Float64 (if f64_is_nan f then f64_NAN else f)"
| "nb_canonical v = v"

fun nb_pointer :: "nb_variant \<Rightarrow> u64 option" where
  "nb_pointer (NB_String p) = Some p"
| "nb_pointer (NB_BigInt p) = Some p"
| "nb_pointer (NB_Object p) = Some p"
| "nb_pointer (NB_Symbol p) = Some p"
| "nb_pointer _ = None"

fun nb_variant_type :: "nb_variant \<Rightarrow> js_type" where
  "nb_variant_type NB_Null = TNull"
| "nb_variant_type NB_Undefined = TUndefined"
| "nb_variant_type (NB_Boolean _) = TBoolean"
| "nb_variant_type (NB_String _) = TString"
| "nb_variant_type (NB_Float64 _) = TNumber"
| "nb_variant_type (NB_Integer32 _) = TNumber"
| "nb_variant_type (NB_BigInt _) = TBigInt"
| "nb_variant_type (NB_Object _) = TObject"
| "nb_variant_type (NB_Symbol _) = TSymbol"

lemma nb_from_variant_kind:
  assumes "nb_from_variant v = Some w"
  shows "case v of
      NB_Null \<Rightarrow> w = VALUE_NULL | NB_Undefined \<Rightarrow> w = VALUE_UNDEFINED
    | NB_Boolean b \<Rightarrow> w = bits_tag_bool b | NB_Integer32 i \<Rightarrow> w = bits_tag_i32 i
    | NB_Float64 f \<Rightarrow> w = bits_tag_f64 f
    | NB_String p \<Rightarrow> w AND MASK_KIND = MASK_STRING \<and> bits_untag_pointer w = p
    | NB_BigInt p \<Rightarrow> w AND MASK_KIND = MASK_BIGINT \<and> bits_untag_pointer w = p
    | NB_Object p \<Rightarrow> w AND MASK_KIND = MASK_OBJECT \<and> bits_untag_pointer w = p
    | NB_Symbol p \<Rightarrow> w AND MASK_KIND = MASK_SYMBOL \<and> bits_untag_pointer w = p"
  using assms tag_pointer_kinds tag_pointer_untags
  by (cases v)
     (auto simp: nb_null_def nb_undefined_def nb_boolean_def nb_integer32_def nb_float64_def
        nb_string_def nb_bigint_def nb_object_def nb_symbol_def)

lemma nb_roundtrip:
  assumes "nb_from_variant v = Some w"
  shows "nb_as_variant w = nb_canonical v"
proof (cases v)
  case (NB_Float64 f)
  then have w: "w = bits_tag_f64 f" using nb_from_variant_kind [OF assms] by simp
  show ?thesis
    unfolding NB_Float64 w using tag_f64_kind [of f]
    by (simp add: nb_as_variant_def Let_def) (simp add: bits_tag_f64_def)
qed (use nb_from_variant_kind [OF assms] masks_distinct in
      \<open>auto simp: nb_as_variant_def Let_def\<close>)

lemma nb_encodes_iff:
  "(\<exists>w. nb_from_variant v = Some w) \<longleftrightarrow> (\<forall>p. nb_pointer v = Some p \<longrightarrow> unat p < 2 ^ 48)"
  by (cases v)
     (auto simp: tag_pointer_total nb_string_def nb_bigint_def nb_object_def nb_symbol_def)

text \<open>\<open>get_type\<close> reads only the tag; it agrees with the decoded variant on all \<open>2\<^sup>6\<^sup>4\<close> patterns.\<close>

lemma nb_get_type_as_variant: "nb_get_type w = nb_variant_type (nb_as_variant w)"
  using masks_distinct by (auto simp: nb_get_type_def nb_as_variant_def Let_def)

section \<open>Properties\<close>

text \<open>C36
  Boxing is a round trip on every variant, and its one failure is the panic on a pointer of more
  than 48 bits: otherwise decoding gives back the variant, a NaN in its canonical bits, and
  \<open>get_type\<close>, which reads only the tag, gives the type of the variant that was boxed.
\<close>
theorem nan_box_roundtrip:
  "case nb_from_variant v of
     None \<Rightarrow> (\<exists>p. nb_pointer v = Some p \<and> 2 ^ 48 \<le> unat p)
   | Some w \<Rightarrow> nb_as_variant w = nb_canonical v \<and> nb_get_type w = nb_variant_type v"
proof (cases "nb_from_variant v")
  case None
  then show ?thesis using nb_encodes_iff [of v] by (auto simp: not_less)
next
  case (Some w)
  moreover have "nb_variant_type (nb_canonical v) = nb_variant_type v" by (cases v) simp_all
  ultimately show ?thesis using nb_roundtrip [OF Some] nb_get_type_as_variant [of w] by simp
qed

text \<open>
  \<open>get_type\<close> agrees with the decoded variant on every bit pattern, also on one that no
  constructor makes.
\<close>
theorem get_type_agrees: "nb_get_type w = nb_variant_type (nb_as_variant w)"
  by (rule nb_get_type_as_variant)

end
