(* ===== verification/JsValue.thy ===== *)
theory JsValue
  imports NanBox
begin

text \<open>
  JavaScript values as their decoded variants (\<open>core/engine/src/value/variant.rs\<close>), and
  the equality relations on them: \<open>strict_equals\<close>, \<open>same_value\<close>, \<open>same_value_zero\<close>
  (\<open>value/equality.rs\<close>), the number comparisons they use (\<open>builtins/number/mod.rs\<close>) and
  what the \<open>Hash\<close> implementation feeds to the hasher (\<open>value/hash.rs\<close>). A string is its
  UTF-16 code units, a big integer an \<open>int\<close>, a symbol its identity and an object the address
  of its box, which is what \<open>JsObject::equals\<close> compares.
\<close>

type_synonym js_string = "u16 list"
type_synonym js_symbol = nat
type_synonym obj_addr = nat

datatype js_value =
    VNull
  | VUndefined
  | VBoolean bool
  | VString js_string
  | VFloat64 f64
  | VInteger32 i32
  | VBigInt int
  | VObject obj_addr
  | VSymbol js_symbol

fun get_type :: "js_value \<Rightarrow> js_type" where
  "get_type VNull = TNull"
| "get_type VUndefined = TUndefined"
| "get_type (VBoolean _) = TBoolean"
| "get_type (VString _) = TString"
| "get_type (VFloat64 _) = TNumber"
| "get_type (VInteger32 _) = TNumber"
| "get_type (VBigInt _) = TBigInt"
| "get_type (VObject _) = TObject"
| "get_type (VSymbol _) = TSymbol"

fun is_object :: "js_value \<Rightarrow> bool" where
  "is_object (VObject _) = True"
| "is_object _ = False"

fun is_number :: "js_value \<Rightarrow> bool" where
  "is_number (VInteger32 _) = True"
| "is_number (VFloat64 _) = True"
| "is_number _ = False"

fun as_number :: "js_value \<Rightarrow> f64 option" where
  "as_number (VInteger32 i) = Some (f64_of_i32 i)"
| "as_number (VFloat64 f) = Some f"
| "as_number _ = None"

text \<open>\<open>as_i32\<close>: an integer, or a float whose bits are those of an integer (so not \<open>-0.0\<close>).\<close>

fun as_i32 :: "js_value \<Rightarrow> i32 option" where
  "as_i32 (VInteger32 i) = Some i"
| "as_i32 (VFloat64 rational) =
     (let int_val = f64_as_i32 rational in
      if rational = f64_of_i32 int_val then Some int_val else None)"
| "as_i32 _ = None"

section \<open>Number comparisons\<close>

definition number_equal :: "f64 \<Rightarrow> f64 \<Rightarrow> bool" where
  "number_equal x y = f64_eq x y"

definition number_same_value :: "f64 \<Rightarrow> f64 \<Rightarrow> bool" where
  "number_same_value a b \<longleftrightarrow>
     (if f64_is_nan a \<and> f64_is_nan b then True
      else f64_eq a b \<and> f64_eq (f64_signum a) (f64_signum b))"

definition number_same_value_zero :: "f64 \<Rightarrow> f64 \<Rightarrow> bool" where
  "number_same_value_zero x y \<longleftrightarrow>
     (if f64_is_nan x \<and> f64_is_nan y then True else f64_eq x y)"

section \<open>Equality of values\<close>

fun same_value_non_numeric :: "js_value \<Rightarrow> js_value \<Rightarrow> bool" where
  "same_value_non_numeric VNull VNull = True"
| "same_value_non_numeric VUndefined VUndefined = True"
| "same_value_non_numeric (VString x) (VString y) = (x = y)"
| "same_value_non_numeric (VBoolean x) (VBoolean y) = (x = y)"
| "same_value_non_numeric (VObject x) (VObject y) = (x = y)"
| "same_value_non_numeric (VSymbol x) (VSymbol y) = (x = y)"
| "same_value_non_numeric _ _ = False"

definition strict_equals :: "js_value \<Rightarrow> js_value \<Rightarrow> bool" where
  "strict_equals self other =
     (case self of
        VObject this \<Rightarrow> (case other of VObject that \<Rightarrow> this = that | _ \<Rightarrow> False)
      | _ \<Rightarrow>
          if is_object other then False
          else if get_type self \<noteq> get_type other then False
          else
            (case (self, other) of
               (VBigInt x, VBigInt y) \<Rightarrow> x = y
             | (VFloat64 x, VFloat64 y) \<Rightarrow> number_equal x y
             | (VFloat64 x, VInteger32 y) \<Rightarrow> number_equal x (f64_of_i32 y)
             | (VInteger32 x, VFloat64 y) \<Rightarrow> number_equal (f64_of_i32 x) y
             | (VInteger32 x, VInteger32 y) \<Rightarrow> x = y
             | (VNull, VNull) \<Rightarrow> True
             | _ \<Rightarrow> same_value_non_numeric self other))"

definition same_value :: "js_value \<Rightarrow> js_value \<Rightarrow> bool" where
  "same_value x y =
     (if get_type x \<noteq> get_type y then False
      else
        (case (x, y) of
           (VBigInt x, VBigInt y) \<Rightarrow> x = y
         | (VFloat64 x, VFloat64 y) \<Rightarrow> number_same_value x y
         | (VFloat64 x, VInteger32 y) \<Rightarrow> number_same_value x (f64_of_i32 y)
         | (VInteger32 x, VFloat64 y) \<Rightarrow> number_same_value (f64_of_i32 x) y
         | (VInteger32 x, VInteger32 y) \<Rightarrow> x = y
         | _ \<Rightarrow> same_value_non_numeric x y))"

definition same_value_zero :: "js_value \<Rightarrow> js_value \<Rightarrow> bool" where
  "same_value_zero x y =
     (if get_type x \<noteq> get_type y then False
      else
        (case (x, y) of
           (VBigInt x, VBigInt y) \<Rightarrow> x = y
         | (VFloat64 x, VFloat64 y) \<Rightarrow> number_same_value_zero x y
         | (VFloat64 x, VInteger32 y) \<Rightarrow> number_same_value_zero x (f64_of_i32 y)
         | (VInteger32 x, VFloat64 y) \<Rightarrow> number_same_value_zero (f64_of_i32 x) y
         | (VInteger32 x, VInteger32 y) \<Rightarrow> x = y
         | _ \<Rightarrow> same_value_non_numeric x y))"

text \<open>What \<open>Hash\<close> feeds to the hasher: the payload, a number always as the bits of its double.\<close>

datatype hash_input =
    HashUndefined
  | HashNull
  | HashString js_string
  | HashBoolean bool
  | HashBits u64
  | HashBigInt int
  | HashSymbol js_symbol
  | HashObject obj_addr

fun hash_value :: "js_value \<Rightarrow> hash_input" where
  "hash_value VUndefined = HashUndefined"
| "hash_value VNull = HashNull"
| "hash_value (VString string) = HashString string"
| "hash_value (VBoolean boolean) = HashBoolean boolean"
| "hash_value (VInteger32 integer) = HashBits (f64_of_i32 integer)"
| "hash_value (VBigInt bigint) = HashBigInt bigint"
| "hash_value (VFloat64 rational) = HashBits rational"
| "hash_value (VSymbol symbol) = HashSymbol symbol"
| "hash_value (VObject object) = HashObject object"

section \<open>The relations in a normal form\<close>

text \<open>
  The language value a variant denotes, the representation of a number forgotten: the bits of
  its double, with one NaN. \<open>same_value\<close> is equality of these.
\<close>

datatype language_value = LNumber f64 | LOther js_value

fun lang_value :: "js_value \<Rightarrow> language_value" where
  "lang_value (VInteger32 i) = LNumber (f64_of_i32 i)"
| "lang_value (VFloat64 f) = LNumber (if f64_is_nan f then f64_NAN else f)"
| "lang_value v = LOther v"

lemma f64_NAN_is_nan [simp]: "f64_is_nan f64_NAN"
  by (simp add: f64_NAN_def f64_is_nan_def f64_exponent_def f64_fraction_def)

lemma f64_signum_not_nan [simp]:
  "\<not> f64_is_nan 0xBFF0000000000000" "\<not> f64_is_nan 0x3FF0000000000000"
  "\<not> f64_is_zero 0xBFF0000000000000" "\<not> f64_is_zero 0x3FF0000000000000"
  by (simp_all add: f64_is_nan_def f64_is_zero_def f64_exponent_def f64_fraction_def)

lemma number_same_value_bits:
  "number_same_value a b \<longleftrightarrow> f64_is_nan a \<and> f64_is_nan b \<or> \<not> f64_is_nan a \<and> a = b"
proof -
  have s: "f64_eq (f64_signum a) (f64_signum b) \<longleftrightarrow> (f64_negative a \<longleftrightarrow> f64_negative b)"
    if "\<not> f64_is_nan a" "\<not> f64_is_nan b"
    using that by (simp add: f64_eq_def f64_signum_def)
  have "f64_is_zero a \<Longrightarrow> f64_is_zero b \<Longrightarrow> f64_negative a = f64_negative b \<Longrightarrow> a = b"
    using f64_zero_bits [of a] f64_zero_bits [of b] by (auto simp: f64_negative_def)
  with s show ?thesis by (auto simp: number_same_value_def f64_eq_def)
qed

lemma f64_of_i32_not_NAN [simp]: "f64_of_i32 i \<noteq> f64_NAN" "f64_NAN \<noteq> f64_of_i32 i"
  using f64_of_i32_not_nan [of i] f64_NAN_is_nan by metis+

lemma number_same_value_i32 [simp]:
  "number_same_value (f64_of_i32 i) f \<longleftrightarrow> f64_of_i32 i = f"
  "number_same_value f (f64_of_i32 i) \<longleftrightarrow> f = f64_of_i32 i"
  by (auto simp: number_same_value_bits)

lemma same_value_lang: "same_value x y \<longleftrightarrow> lang_value x = lang_value y"
  by (cases x; cases y) (auto simp: same_value_def number_same_value_bits)

lemma same_value_refl [simp, intro]: "same_value x x"
  by (simp add: same_value_lang)

lemma same_value_sym: "same_value x y \<Longrightarrow> same_value y x"
  by (simp add: same_value_lang)

lemma same_value_trans [trans]: "same_value x y \<Longrightarrow> same_value y z \<Longrightarrow> same_value x z"
  by (simp add: same_value_lang)

text \<open>\<open>same_value_zero\<close> forgets the sign of a zero as well.\<close>

fun zero_value :: "js_value \<Rightarrow> language_value" where
  "zero_value (VInteger32 i) = LNumber (f64_of_i32 i)"
| "zero_value (VFloat64 f) =
     LNumber (if f64_is_nan f then f64_NAN else if f64_is_zero f then 0 else f)"
| "zero_value v = LOther v"

lemma f64_zero_eq: "f64_is_zero 0"
  by (simp add: f64_is_zero_def)

lemma f64_NAN_nonzero [simp]: "0 \<noteq> f64_NAN" "f64_NAN \<noteq> 0"
  by (simp_all add: f64_NAN_def)

lemma f64_of_i32_eq_0 [simp]: "f64_of_i32 i = 0 \<longleftrightarrow> i = 0" "0 = f64_of_i32 i \<longleftrightarrow> i = 0"
  using f64_of_i32_inject [of i 0] by auto

lemma number_same_value_zero_iff:
  "number_same_value_zero a b \<longleftrightarrow>
     f64_is_nan a \<and> f64_is_nan b \<or>
     \<not> f64_is_nan a \<and> \<not> f64_is_nan b \<and> (a = b \<or> f64_is_zero a \<and> f64_is_zero b)"
  by (auto simp: number_same_value_zero_def f64_eq_def)

lemma same_value_zero_normal: "same_value_zero x y \<longleftrightarrow> zero_value x = zero_value y"
  by (cases x; cases y)
     (auto simp: same_value_zero_def number_same_value_zero_iff f64_zero_eq
       dest: f64_of_i32_zero_iff [THEN iffD1] split: if_splits)

text \<open>The value is a NaN; the only value that is not strictly equal to itself.\<close>

fun is_nan_value :: "js_value \<Rightarrow> bool" where
  "is_nan_value (VFloat64 f) = f64_is_nan f"
| "is_nan_value _ = False"

lemma strict_equals_zero: "strict_equals x y \<longleftrightarrow> same_value_zero x y \<and> \<not> is_nan_value x"
  by (cases x; cases y)
     (auto simp: strict_equals_def same_value_zero_def number_same_value_zero_iff
        number_equal_def f64_eq_def)

text \<open>\<open>as_i32\<close> finds an integer exactly when the value is the same value as one.\<close>

lemma as_i32_same_value: "as_i32 v = Some i \<longleftrightarrow> same_value v (VInteger32 i)"
  by (cases v) (auto simp: same_value_lang Let_def split: if_splits, metis f64_of_i32_not_nan)

lemma as_i32_float_inverse:
  "as_i32 v = Some i \<Longrightarrow> as_number v = Some (f64_of_i32 i)"
  by (cases v) (auto simp: Let_def split: if_splits)

lemma as_number_same_value: "as_number v = Some f \<Longrightarrow> same_value (VFloat64 f) v"
  by (cases v) (auto simp: same_value_lang)

section \<open>Properties\<close>

text \<open>
  The three equalities of \<open>value/equality.rs\<close>, case by case on representations, are: equality of
  language values (so an equivalence in which \<open>Integer32 1\<close> and \<open>Float64 1.0\<close> are one value);
  the same with the two zeros identified; and the latter without NaN.
\<close>
theorem equality_relations:
  "(same_value x y \<longleftrightarrow> lang_value x = lang_value y) \<and>
   (same_value_zero x y \<longleftrightarrow> zero_value x = zero_value y) \<and>
   (strict_equals x y \<longleftrightarrow> same_value_zero x y \<and> \<not> is_nan_value x)"
  using same_value_lang same_value_zero_normal strict_equals_zero by blast

text \<open>
  What boxing guarantees of a value: the one NaN, and the float that hashes an integer is the
  integer's own.
\<close>

fun canonical_value :: "js_value \<Rightarrow> bool" where
  "canonical_value (VFloat64 f) = (f64_is_nan f \<longrightarrow> f = f64_NAN)"
| "canonical_value _ = True"

lemma hash_value_lang: "canonical_value v \<Longrightarrow> hash_value v = hash_value w \<longleftrightarrow> lang_value v = lang_value w"
  if "canonical_value w" for w
  using that by (cases v; cases w) auto

text \<open>
  On values with the canonical NaN, which is all that boxing makes, the hash input distinguishes
  exactly the values that \<open>same_value\<close> does.
\<close>
theorem hash_iff_same_value:
  assumes "canonical_value x" "canonical_value y"
  shows "hash_value x = hash_value y \<longleftrightarrow> same_value x y"
  using hash_value_lang [OF assms(2,1)] by (simp add: same_value_lang)

theorem hash_iff_same_value_witness:
  "hash_value (VInteger32 1) = hash_value (VFloat64 0x3FF0000000000000) \<longleftrightarrow>
   same_value (VInteger32 1) (VFloat64 0x3FF0000000000000)"
  by (rule hash_iff_same_value)
    (simp_all add: f64_is_nan_def f64_exponent_def f64_fraction_def)

text \<open>
  The contract of \<open>Hash\<close> with \<open>Eq\<close> (equal keys have equal hashes) fails at the zeros:
  \<open>JsValue\<close> compares by \<open>same_value_zero\<close> but hashes the bits.
\<close>
theorem hash_differs_on_equal_zeros:
  "same_value_zero (VInteger32 0) (VFloat64 0x8000000000000000) \<and>
   hash_value (VInteger32 0) \<noteq> hash_value (VFloat64 0x8000000000000000)"
  using f64_of_i32_eq_0 (1) [of 0]
  by (simp add: same_value_zero_normal f64_is_nan_def f64_is_zero_def f64_exponent_def f64_fraction_def)

end
