(* ===== verification/Slot.thy ===== *)
theory Slot
  imports Prelude
begin

text \<open>
  Attribute flags (\<open>property/attribute/mod.rs\<close>) and storage slots with their attributes
  (\<open>object/shape/slot.rs\<close>). A \<open>bitflags\<close> struct is its \<open>u8\<close>; its operations \<open>contains\<close>,
  \<open>set\<close> and the bit operators are those of the integer. Flags are truncated to the declared
  ones by \<open>!\<close>, which no use below can observe.
\<close>

section \<open>Operations of a \<open>bitflags\<close> struct\<close>

definition flags_contains :: "u8 \<Rightarrow> u8 \<Rightarrow> bool" where
  "flags_contains self other \<longleftrightarrow> self AND other = other"

definition flags_set :: "u8 \<Rightarrow> u8 \<Rightarrow> bool \<Rightarrow> u8" where
  "flags_set self other value = (if value then self OR other else self AND NOT other)"

section \<open>\<open>Attribute\<close>\<close>

definition ATTR_WRITABLE :: u8 where [mask_simps]: "ATTR_WRITABLE = 0b00000001"
definition ATTR_ENUMERABLE :: u8 where [mask_simps]: "ATTR_ENUMERABLE = 0b00000010"
definition ATTR_CONFIGURABLE :: u8 where [mask_simps]: "ATTR_CONFIGURABLE = 0b00000100"
definition ATTR_READONLY :: u8 where [mask_simps]: "ATTR_READONLY = 0"
definition ATTR_NON_ENUMERABLE :: u8 where [mask_simps]: "ATTR_NON_ENUMERABLE = 0"
definition ATTR_PERMANENT :: u8 where [mask_simps]: "ATTR_PERMANENT = 0"

definition attr_clear :: "u8 \<Rightarrow> u8" where
  "attr_clear self = 0"

definition attr_set_writable :: "u8 \<Rightarrow> bool \<Rightarrow> u8" where
  "attr_set_writable self value =
     (if value then self OR ATTR_WRITABLE else self OR (self AND NOT ATTR_WRITABLE))"

definition attr_writable :: "u8 \<Rightarrow> bool" where
  "attr_writable self = flags_contains self ATTR_WRITABLE"

definition attr_set_enumerable :: "u8 \<Rightarrow> bool \<Rightarrow> u8" where
  "attr_set_enumerable self value =
     (if value then self OR ATTR_ENUMERABLE else self OR (self AND NOT ATTR_ENUMERABLE))"

definition attr_enumerable :: "u8 \<Rightarrow> bool" where
  "attr_enumerable self = flags_contains self ATTR_ENUMERABLE"

definition attr_set_configurable :: "u8 \<Rightarrow> bool \<Rightarrow> u8" where
  "attr_set_configurable self value =
     (if value then self OR ATTR_CONFIGURABLE else self OR (self AND NOT ATTR_CONFIGURABLE))"

definition attr_configurable :: "u8 \<Rightarrow> bool" where
  "attr_configurable self = flags_contains self ATTR_CONFIGURABLE"

definition attr_default :: u8 where
  "attr_default = (ATTR_READONLY OR ATTR_NON_ENUMERABLE) OR ATTR_PERMANENT"

lemma or_and_not_absorb: "x OR (x AND NOT y) = (x :: 'a::len word)"
  by (rule bit_word_eqI) (auto simp: bit_simps)

section \<open>\<open>SlotAttributes\<close>\<close>

definition SLOT_WRITABLE :: u8 where [mask_simps]: "SLOT_WRITABLE = 0b00000001"
definition SLOT_ENUMERABLE :: u8 where [mask_simps]: "SLOT_ENUMERABLE = 0b00000010"
definition SLOT_CONFIGURABLE :: u8 where [mask_simps]: "SLOT_CONFIGURABLE = 0b00000100"
definition SLOT_GET :: u8 where [mask_simps]: "SLOT_GET = 0b00001000"
definition SLOT_SET :: u8 where [mask_simps]: "SLOT_SET = 0b00010000"
definition SLOT_INLINE_CACHE_BITS :: u8 where [mask_simps]: "SLOT_INLINE_CACHE_BITS = 0b11100000"
definition SLOT_PROTOTYPE :: u8 where [mask_simps]: "SLOT_PROTOTYPE = 0b00100000"
definition SLOT_FOUND :: u8 where [mask_simps]: "SLOT_FOUND = 0b01000000"
definition SLOT_NOT_CACHEABLE :: u8 where [mask_simps]: "SLOT_NOT_CACHEABLE = 0b10000000"

type_synonym slot_attributes = u8

definition is_accessor_attributes :: "slot_attributes \<Rightarrow> bool" where
  "is_accessor_attributes a \<longleftrightarrow> flags_contains a SLOT_GET \<or> flags_contains a SLOT_SET"

definition has_get :: "slot_attributes \<Rightarrow> bool" where
  "has_get a = flags_contains a SLOT_GET"

definition has_set :: "slot_attributes \<Rightarrow> bool" where
  "has_set a = flags_contains a SLOT_SET"

definition width_match :: "slot_attributes \<Rightarrow> slot_attributes \<Rightarrow> bool" where
  "width_match self other \<longleftrightarrow> is_accessor_attributes self = is_accessor_attributes other"

definition attributes_width :: "slot_attributes \<Rightarrow> nat" where
  "attributes_width a = 1 + (if is_accessor_attributes a then 1 else 0)"

definition attributes_is_cacheable :: "slot_attributes \<Rightarrow> bool" where
  "attributes_is_cacheable a \<longleftrightarrow> \<not> flags_contains a SLOT_NOT_CACHEABLE \<and> flags_contains a SLOT_FOUND"

section \<open>\<open>Slot\<close>\<close>

record slot =
  sl_index :: u32
  sl_attributes :: slot_attributes

definition slot_new :: slot where
  "slot_new = \<lparr>sl_index = 0, sl_attributes = 0\<rparr>"

definition slot_is_cacheable :: "slot \<Rightarrow> bool" where
  "slot_is_cacheable s = attributes_is_cacheable (sl_attributes s)"

definition slot_width :: "slot \<Rightarrow> nat" where
  "slot_width s = attributes_width (sl_attributes s)"

definition slot_from_previous :: "slot option \<Rightarrow> slot_attributes \<Rightarrow> slot" where
  "slot_from_previous previous_slot new_attributes =
     (case previous_slot of
        None \<Rightarrow> \<lparr>sl_index = 0, sl_attributes = new_attributes\<rparr>
      | Some p \<Rightarrow>
          \<lparr>sl_index = sl_index p + word_of_nat (slot_width p), sl_attributes = new_attributes\<rparr>)"

definition set_not_cacheable_if_already_prototype :: "slot \<Rightarrow> slot" where
  "set_not_cacheable_if_already_prototype s =
     s\<lparr>sl_attributes := sl_attributes s OR push_bit 2 (sl_attributes s AND SLOT_PROTOTYPE)\<rparr>"

lemma and_exp: "a AND push_bit n 1 = (if bit a n then push_bit n 1 else (0 :: 'a::len word))"
  by (rule bit_word_eqI) (auto simp: bit_simps)

lemma and_flag: "a AND 32 = (if bit a 5 then 32 else (0 :: u8))"
  using and_exp [of a 5] by (simp add: push_bit_eq_mult)

text \<open>The comment's reading of \<open>set_not_cacheable_if_already_prototype\<close>, with a branch.\<close>

lemma set_not_cacheable_spec:
  "set_not_cacheable_if_already_prototype s =
     (if flags_contains (sl_attributes s) SLOT_PROTOTYPE
      then s\<lparr>sl_attributes := sl_attributes s OR SLOT_NOT_CACHEABLE\<rparr> else s)"
proof (cases "bit (sl_attributes s) 5")
  case True
  then have "sl_attributes s AND SLOT_PROTOTYPE = SLOT_PROTOTYPE"
    by (simp add: and_flag mask_simps)
  then show ?thesis
    by (simp add: set_not_cacheable_if_already_prototype_def flags_contains_def)
      (simp add: mask_simps push_bit_eq_mult)
next
  case False
  then have "sl_attributes s AND SLOT_PROTOTYPE = 0"
    by (simp add: and_flag mask_simps)
  then show ?thesis
    by (simp add: set_not_cacheable_if_already_prototype_def flags_contains_def)
      (simp add: mask_simps)
qed

lemma attributes_width_bounds: "1 \<le> attributes_width a" "attributes_width a \<le> 2"
  by (simp_all add: attributes_width_def)

lemma attributes_width_match: "width_match a b \<longleftrightarrow> attributes_width a = attributes_width b"
  by (simp add: width_match_def attributes_width_def)

section \<open>Layout of consecutive slots\<close>

text \<open>
  The slots of a property table, in order, are laid out without gaps: each starts where the
  previous one ends. \<open>slots_layout\<close> is that reference layout, for a list of attributes.
\<close>

definition widths :: "slot_attributes list \<Rightarrow> nat" where
  "widths as = sum_list (map attributes_width as)"

fun slots_layout :: "nat \<Rightarrow> slot_attributes list \<Rightarrow> slot list" where
  "slots_layout n [] = []"
| "slots_layout n (a # as) =
     \<lparr>sl_index = word_of_nat n, sl_attributes = a\<rparr> # slots_layout (n + attributes_width a) as"

lemma widths_simps [simp]:
  "widths [] = 0" "widths (a # as) = attributes_width a + widths as"
  "widths (as @ bs) = widths as + widths bs"
  by (simp_all add: widths_def)

lemma widths_ge_length: "length as \<le> widths as"
  by (induction as) (auto intro: order_trans [OF _ add_le_mono] simp: attributes_width_def)

lemma length_slots_layout [simp]: "length (slots_layout n as) = length as"
  by (induction n as rule: slots_layout.induct) auto

lemma attributes_slots_layout [simp]: "map sl_attributes (slots_layout n as) = as"
  by (induction n as rule: slots_layout.induct) auto

lemma nth_slots_layout:
  "i < length as \<Longrightarrow>
     slots_layout n as ! i =
       \<lparr>sl_index = word_of_nat (n + widths (take i as)), sl_attributes = as ! i\<rparr>"
  by (induction n as arbitrary: i rule: slots_layout.induct)
     (auto simp: nth_Cons' take_Cons' add.assoc)

lemma slots_layout_append:
  "slots_layout n (as @ bs) = slots_layout n as @ slots_layout (n + widths as) bs"
  by (induction n as rule: slots_layout.induct) (auto simp: add.assoc)

lemma take_slots_layout: "take k (slots_layout n as) = slots_layout n (take k as)"
  by (induction n as arbitrary: k rule: slots_layout.induct) (auto simp: take_Cons' )

lemma slot_from_previous_layout:
  "slot_from_previous
     (if as = [] then None else Some (last (slots_layout 0 as))) a =
   \<lparr>sl_index = word_of_nat (widths as), sl_attributes = a\<rparr>"
proof (cases as rule: rev_cases)
  case (snoc bs b)
  then show ?thesis
    by (simp add: slots_layout_append slot_from_previous_def slot_width_def)
qed (simp add: slot_from_previous_def)

lemma widths_take_Suc:
  "i < length as \<Longrightarrow> widths (take (Suc i) as) = widths (take i as) + attributes_width (as ! i)"
  by (simp add: take_Suc_conv_app_nth)

lemma widths_take_le: "widths (take i as) \<le> widths as"
  by (metis append_take_drop_id le_add1 widths_simps(3))

lemma widths_take_mono: "i \<le> j \<Longrightarrow> widths (take i as) \<le> widths (take j as)"
  by (metis min.absorb1 take_take widths_take_le)

lemma widths_end_le: "i < length as \<Longrightarrow> widths (take i as) + attributes_width (as ! i) \<le> widths as"
  using widths_take_le [of "Suc i" as] by (simp add: widths_take_Suc)

lemma widths_disjoint:
  "i < j \<Longrightarrow> j < length as \<Longrightarrow> widths (take i as) + attributes_width (as ! i) \<le> widths (take j as)"
  using widths_take_mono [of "Suc i" j as] by (simp add: widths_take_Suc)

lemma widths_update:
  "i < length as \<Longrightarrow> attributes_width b = attributes_width (as ! i) \<Longrightarrow> widths (as[i := b]) = widths as"
  by (induction as arbitrary: i) (auto split: nat.splits)

section \<open>Properties\<close>

text \<open>
  The branchless \<open>set_not_cacheable_if_already_prototype\<close> is the branch its comment describes:
  a slot found on a prototype already is marked not cacheable, another is kept.
\<close>
theorem set_not_cacheable_branch:
  "set_not_cacheable_if_already_prototype s =
     (if flags_contains (sl_attributes s) SLOT_PROTOTYPE
      then s\<lparr>sl_attributes := sl_attributes s OR SLOT_NOT_CACHEABLE\<rparr> else s)"
  by (rule set_not_cacheable_spec)

text \<open>
  The setters of \<open>Attribute\<close> do not clear: given \<open>false\<close>, they leave the flags as they were,
  because they \<open>or\<close> the cleared flags into the old ones.
\<close>
theorem attr_set_false_noop:
  "attr_set_writable a False = a \<and> attr_set_enumerable a False = a \<and> attr_set_configurable a False = a"
  by (simp add: attr_set_writable_def attr_set_enumerable_def attr_set_configurable_def or_and_not_absorb)

end
