(* ===== verification/Property.thy ===== *)
theory Property
  imports JsValue Slot
begin

text \<open>
  Property descriptors (\<open>core/engine/src/property/mod.rs\<close>): the
  descriptor with its optional fields, its builder, its two ways of filling in defaults,
  \<open>fill_with\<close>, which panics on incompatible descriptors, and the attributes stored with a
  slot.
\<close>

section \<open>Descriptors\<close>

datatype descriptor_kind =
    Data (kd_value: "js_value option") (kd_writable: "bool option")
  | Accessor (kd_get: "js_value option") (kd_set: "js_value option")
  | Generic

record property_descriptor =
  pd_enumerable :: "bool option"
  pd_configurable :: "bool option"
  pd_kind :: descriptor_kind

definition is_accessor_descriptor :: "property_descriptor \<Rightarrow> bool" where
  "is_accessor_descriptor d = (case pd_kind d of Accessor _ _ \<Rightarrow> True | _ \<Rightarrow> False)"

definition is_data_descriptor :: "property_descriptor \<Rightarrow> bool" where
  "is_data_descriptor d = (case pd_kind d of Data _ _ \<Rightarrow> True | _ \<Rightarrow> False)"

definition is_generic_descriptor :: "property_descriptor \<Rightarrow> bool" where
  "is_generic_descriptor d = (case pd_kind d of Generic \<Rightarrow> True | _ \<Rightarrow> False)"

definition is_empty_descriptor :: "property_descriptor \<Rightarrow> bool" where
  "is_empty_descriptor d \<longleftrightarrow>
     is_generic_descriptor d \<and> pd_enumerable d = None \<and> pd_configurable d = None"

definition pd_writable :: "property_descriptor \<Rightarrow> bool option" where
  "pd_writable d = (case pd_kind d of Data _ w \<Rightarrow> w | _ \<Rightarrow> None)"

definition pd_value :: "property_descriptor \<Rightarrow> js_value option" where
  "pd_value d = (case pd_kind d of Data v _ \<Rightarrow> v | _ \<Rightarrow> None)"

definition pd_get :: "property_descriptor \<Rightarrow> js_value option" where
  "pd_get d = (case pd_kind d of Accessor g _ \<Rightarrow> g | _ \<Rightarrow> None)"

definition pd_set :: "property_descriptor \<Rightarrow> js_value option" where
  "pd_set d = (case pd_kind d of Accessor _ s \<Rightarrow> s | _ \<Rightarrow> None)"

text \<open>\<open>or\<close> of an option, and an optional field set to a default when it is absent.\<close>

definition option_or :: "'a option \<Rightarrow> 'a option \<Rightarrow> 'a option" where
  "option_or a b = (case a of None \<Rightarrow> b | Some _ \<Rightarrow> a)"

definition into_accessor_defaulted :: "property_descriptor \<Rightarrow> property_descriptor" where
  "into_accessor_defaulted d =
     d\<lparr>pd_kind := (case pd_kind d of
           Accessor g s \<Rightarrow>
             Accessor (option_or g (Some VUndefined)) (option_or s (Some VUndefined))
         | _ \<Rightarrow> Accessor (Some VUndefined) (Some VUndefined)),
       pd_configurable := option_or (pd_configurable d) (Some False),
       pd_enumerable := option_or (pd_enumerable d) (Some False)\<rparr>"

definition into_data_defaulted :: "property_descriptor \<Rightarrow> property_descriptor" where
  "into_data_defaulted d =
     d\<lparr>pd_kind := (case pd_kind d of
           Data value writable \<Rightarrow>
             Data (option_or value (Some VUndefined)) (option_or writable (Some False))
         | _ \<Rightarrow> Data (Some VUndefined) (Some False)),
       pd_configurable := option_or (pd_configurable d) (Some False),
       pd_enumerable := option_or (pd_enumerable d) (Some False)\<rparr>"

text \<open>\<open>fill_with\<close>: the present fields of \<open>desc\<close> replace those of \<open>self\<close>.\<close>

definition fill_with :: "property_descriptor \<Rightarrow> property_descriptor \<Rightarrow> property_descriptor panics" where
  "fill_with self desc =
     map_option
       (\<lambda>kind. self\<lparr>pd_kind := kind,
                    pd_enumerable := option_or (pd_enumerable desc) (pd_enumerable self),
                    pd_configurable := option_or (pd_configurable desc) (pd_configurable self)\<rparr>)
       (case (pd_kind self, pd_kind desc) of
          (Data value writable, Data desc_value desc_writable) \<Rightarrow>
            Some (Data (option_or desc_value value) (option_or desc_writable writable))
        | (Accessor g s, Accessor desc_get desc_set) \<Rightarrow>
            Some (Accessor (option_or desc_get g) (option_or desc_set s))
        | (_, Generic) \<Rightarrow> Some (pd_kind self)
        | _ \<Rightarrow> None)"

text \<open>\<open>to_slot_attributes\<close> panics through \<open>expect_*\<close> where a field is absent.\<close>

definition to_slot_attributes :: "property_descriptor \<Rightarrow> slot_attributes panics" where
  "to_slot_attributes d =
     (case (pd_configurable d, pd_enumerable d) of
        (Some c, Some e) \<Rightarrow>
          (let a = flags_set (flags_set 0 SLOT_CONFIGURABLE c) SLOT_ENUMERABLE e in
           if is_data_descriptor d then map_option (flags_set a SLOT_WRITABLE) (pd_writable d)
           else Some (flags_set (flags_set a SLOT_GET (pd_get d \<noteq> None)) SLOT_SET (pd_set d \<noteq> None)))
      | _ \<Rightarrow> None)"

section \<open>The builder\<close>

definition pd_default :: property_descriptor where
  "pd_default = \<lparr>pd_enumerable = None, pd_configurable = None, pd_kind = Generic\<rparr>"

definition build_value :: "js_value \<Rightarrow> property_descriptor \<Rightarrow> property_descriptor" where
  "build_value value d =
     d\<lparr>pd_kind := (case pd_kind d of Data _ w \<Rightarrow> Data (Some value) w | _ \<Rightarrow> Data (Some value) None)\<rparr>"

definition build_writable :: "bool \<Rightarrow> property_descriptor \<Rightarrow> property_descriptor" where
  "build_writable writable d =
     d\<lparr>pd_kind := (case pd_kind d of
         Data v _ \<Rightarrow> Data v (Some writable) | _ \<Rightarrow> Data None (Some writable))\<rparr>"

definition build_get :: "js_value \<Rightarrow> property_descriptor \<Rightarrow> property_descriptor" where
  "build_get getter d =
     d\<lparr>pd_kind := (case pd_kind d of
         Accessor _ s \<Rightarrow> Accessor (Some getter) s | _ \<Rightarrow> Accessor (Some getter) None)\<rparr>"

definition build_set :: "js_value \<Rightarrow> property_descriptor \<Rightarrow> property_descriptor" where
  "build_set setter d =
     d\<lparr>pd_kind := (case pd_kind d of
         Accessor g _ \<Rightarrow> Accessor g (Some setter) | _ \<Rightarrow> Accessor None (Some setter))\<rparr>"

definition build_enumerable :: "bool \<Rightarrow> property_descriptor \<Rightarrow> property_descriptor" where
  "build_enumerable enumerable d = d\<lparr>pd_enumerable := Some enumerable\<rparr>"

definition build_configurable :: "bool \<Rightarrow> property_descriptor \<Rightarrow> property_descriptor" where
  "build_configurable configurable d = d\<lparr>pd_configurable := Some configurable\<rparr>"

definition maybe_enumerable :: "bool option \<Rightarrow> property_descriptor \<Rightarrow> property_descriptor" where
  "maybe_enumerable x d = (case x of Some b \<Rightarrow> build_enumerable b d | None \<Rightarrow> d)"

definition maybe_configurable :: "bool option \<Rightarrow> property_descriptor \<Rightarrow> property_descriptor" where
  "maybe_configurable x d = (case x of Some b \<Rightarrow> build_configurable b d | None \<Rightarrow> d)"

definition maybe_value :: "js_value option \<Rightarrow> property_descriptor \<Rightarrow> property_descriptor" where
  "maybe_value x d = (case x of Some v \<Rightarrow> build_value v d | None \<Rightarrow> d)"

definition maybe_writable :: "bool option \<Rightarrow> property_descriptor \<Rightarrow> property_descriptor" where
  "maybe_writable x d = (case x of Some b \<Rightarrow> build_writable b d | None \<Rightarrow> d)"

definition maybe_get :: "js_value option \<Rightarrow> property_descriptor \<Rightarrow> property_descriptor" where
  "maybe_get x d = (case x of Some v \<Rightarrow> build_get v d | None \<Rightarrow> d)"

definition maybe_set :: "js_value option \<Rightarrow> property_descriptor \<Rightarrow> property_descriptor" where
  "maybe_set x d = (case x of Some v \<Rightarrow> build_set v d | None \<Rightarrow> d)"

definition complete_with_defaults :: "property_descriptor \<Rightarrow> property_descriptor" where
  "complete_with_defaults d =
     d\<lparr>pd_kind := (case pd_kind d of
           Generic \<Rightarrow> Data (Some VUndefined) (Some False)
         | Data value writable \<Rightarrow>
             Data (option_or value (Some VUndefined)) (option_or writable (Some False))
         | Accessor g s \<Rightarrow>
             Accessor (option_or g (Some VUndefined)) (option_or s (Some VUndefined))),
       pd_configurable := option_or (pd_configurable d) (Some False),
       pd_enumerable := option_or (pd_enumerable d) (Some False)\<rparr>"

definition complete_property_descriptor :: "property_descriptor \<Rightarrow> property_descriptor" where
  "complete_property_descriptor d = complete_with_defaults d"

text \<open>The descriptors the engine's fast paths build: a data property with all its attributes.\<close>

definition data_property :: "js_value \<Rightarrow> bool \<Rightarrow> bool \<Rightarrow> bool \<Rightarrow> property_descriptor" where
  "data_property value writable enumerable configurable =
     build_configurable configurable (build_enumerable enumerable
       (build_writable writable (build_value value pd_default)))"

section \<open>Facts on descriptors\<close>

lemmas desc_defs [desc_simps] =
  is_accessor_descriptor_def is_data_descriptor_def is_generic_descriptor_def
  is_empty_descriptor_def pd_writable_def pd_value_def pd_get_def pd_set_def option_or_def

lemmas build_defs [desc_simps] =
  build_value_def build_writable_def build_get_def build_set_def build_enumerable_def
  build_configurable_def maybe_enumerable_def maybe_configurable_def maybe_value_def
  maybe_writable_def maybe_get_def maybe_set_def pd_default_def data_property_def

text \<open>A descriptor with every field of its kind, as \<open>[[GetOwnProperty]]\<close> must return.\<close>

definition fully_populated :: "property_descriptor \<Rightarrow> bool" where
  "fully_populated d \<longleftrightarrow>
     pd_enumerable d \<noteq> None \<and> pd_configurable d \<noteq> None \<and>
     (case pd_kind d of
        Data v w \<Rightarrow> v \<noteq> None \<and> w \<noteq> None
      | Accessor g s \<Rightarrow> g \<noteq> None \<and> s \<noteq> None
      | Generic \<Rightarrow> False)"

lemma option_or_simps [simp]:
  "option_or (Some x) b = Some x" "option_or None b = b" "option_or a None = a"
  by (simp_all add: option_or_def split: option.split)

lemma option_or_assoc [simp]: "option_or (option_or a b) c = option_or a (option_or b c)"
  by (cases a) auto

lemma option_or_eq_None [simp]: "option_or a b = None \<longleftrightarrow> a = None \<and> b = None"
  by (cases a) auto

lemma option_or_Some_ex [simp]: "\<exists>y. option_or a (Some b) = Some y"
  by (cases a) auto

lemma fully_populated_data_property [simp]: "fully_populated (data_property v w e c)"
  by (simp add: fully_populated_def desc_simps)

lemma data_property_fields [simp]:
  "pd_enumerable (data_property v w e c) = Some e"
  "pd_configurable (data_property v w e c) = Some c"
  "pd_kind (data_property v w e c) = Data (Some v) (Some w)"
  by (simp_all add: desc_simps)

lemma fully_populated_complete: "fully_populated (complete_with_defaults d)"
  by (cases "pd_kind d") (auto simp: fully_populated_def complete_with_defaults_def)

lemma complete_fully_populated:
  assumes "fully_populated d" shows "complete_with_defaults d = d"
  using assms
  by (cases "pd_kind d") (auto simp: fully_populated_def complete_with_defaults_def)

text \<open>\<open>fill_with\<close> panics exactly when the kinds are incompatible.\<close>

definition kinds_compatible :: "property_descriptor \<Rightarrow> property_descriptor \<Rightarrow> bool" where
  "kinds_compatible self desc \<longleftrightarrow>
     is_generic_descriptor desc \<or>
     is_data_descriptor self \<and> is_data_descriptor desc \<or>
     is_accessor_descriptor self \<and> is_accessor_descriptor desc"

lemma fill_with_panics_iff: "fill_with self desc = None \<longleftrightarrow> \<not> kinds_compatible self desc"
  by (cases "pd_kind self"; cases "pd_kind desc")
     (auto simp: fill_with_def kinds_compatible_def desc_simps)

lemma fill_with_fields:
  assumes "fill_with self desc = Some d"
  shows "pd_enumerable d = option_or (pd_enumerable desc) (pd_enumerable self)"
    and "pd_configurable d = option_or (pd_configurable desc) (pd_configurable self)"
    and "pd_value d = option_or (pd_value desc) (pd_value self)"
    and "pd_writable d = option_or (pd_writable desc) (pd_writable self)"
    and "pd_get d = option_or (pd_get desc) (pd_get self)"
    and "pd_set d = option_or (pd_set desc) (pd_set self)"
    and "is_data_descriptor d = is_data_descriptor self"
    and "is_accessor_descriptor d = is_accessor_descriptor self"
  using assms
  by (cases "pd_kind self"; cases "pd_kind desc"; auto simp: fill_with_def desc_simps)+

lemma fill_with_fully_populated:
  "fully_populated self \<Longrightarrow> fill_with self desc = Some d \<Longrightarrow> fully_populated d"
  by (cases "pd_kind self"; cases "pd_kind desc")
     (auto simp: fill_with_def fully_populated_def)

section \<open>Slot attributes of a descriptor\<close>

lemma flags_contains_set:
  "flags_contains (flags_set a SLOT_WRITABLE b) SLOT_WRITABLE = b"
  "flags_contains (flags_set a SLOT_ENUMERABLE b) SLOT_ENUMERABLE = b"
  "flags_contains (flags_set a SLOT_CONFIGURABLE b) SLOT_CONFIGURABLE = b"
  "flags_contains (flags_set a SLOT_GET b) SLOT_GET = b"
  "flags_contains (flags_set a SLOT_SET b) SLOT_SET = b"
  by (cases b; simp add: flags_contains_def flags_set_def bit.conj_disj_distrib2 and.assoc mask_simps)+

text \<open>Every combination of attributes is kept by the flags and read back.\<close>

lemma to_slot_attributes_data:
  assumes "is_data_descriptor d" "pd_enumerable d = Some e" "pd_configurable d = Some c"
    "pd_writable d = Some w" "to_slot_attributes d = Some a"
  shows "\<not> is_accessor_attributes a" "flags_contains a SLOT_WRITABLE = w"
    "flags_contains a SLOT_ENUMERABLE = e" "flags_contains a SLOT_CONFIGURABLE = c"
  using assms
  by (cases e; cases c; cases w; auto simp: to_slot_attributes_def is_accessor_attributes_def
        flags_contains_def flags_set_def mask_simps)+

lemma to_slot_attributes_accessor:
  assumes "is_accessor_descriptor d" "pd_enumerable d = Some e" "pd_configurable d = Some c"
    "to_slot_attributes d = Some a"
  shows "has_get a = (pd_get d \<noteq> None)" "has_set a = (pd_set d \<noteq> None)"
    "flags_contains a SLOT_ENUMERABLE = e" "flags_contains a SLOT_CONFIGURABLE = c"
  using assms
  by (cases e; cases c; cases "pd_get d"; cases "pd_set d"; auto simp: to_slot_attributes_def
        has_get_def has_set_def is_data_descriptor_def is_accessor_descriptor_def Let_def
        flags_contains_def flags_set_def mask_simps split: descriptor_kind.splits)+

lemma to_slot_attributes_total:
  "fully_populated d \<Longrightarrow> \<exists>a. to_slot_attributes d = Some a"
  by (cases "pd_kind d")
     (auto simp: fully_populated_def to_slot_attributes_def desc_simps Let_def)

section \<open>Properties\<close>

text \<open>
  \<open>fill_with\<close> panics exactly when a data descriptor meets an accessor descriptor or a generic
  one is filled with either; otherwise each field is the new one if present and else the old.
\<close>
theorem fill_with_exact:
  "case fill_with self desc of
     None \<Rightarrow> \<not> kinds_compatible self desc
   | Some d \<Rightarrow> kinds_compatible self desc \<and>
       pd_enumerable d = option_or (pd_enumerable desc) (pd_enumerable self) \<and>
       pd_configurable d = option_or (pd_configurable desc) (pd_configurable self) \<and>
       pd_value d = option_or (pd_value desc) (pd_value self) \<and>
       pd_writable d = option_or (pd_writable desc) (pd_writable self) \<and>
       pd_get d = option_or (pd_get desc) (pd_get self) \<and>
       pd_set d = option_or (pd_set desc) (pd_set self)"
  using fill_with_panics_iff [of self desc] fill_with_fields [of self desc]
  by (cases "fill_with self desc") auto

text \<open>
  Completing a descriptor and writing its flags to a slot loses nothing: the flags of the slot,
  read back, are the attributes of the descriptor, and its width is two exactly for an accessor.
\<close>
theorem slot_attributes_roundtrip:
  "case to_slot_attributes (complete_with_defaults d) of
     None \<Rightarrow> False
   | Some a \<Rightarrow>
       Some (flags_contains a SLOT_ENUMERABLE) = pd_enumerable (complete_with_defaults d) \<and>
       Some (flags_contains a SLOT_CONFIGURABLE) = pd_configurable (complete_with_defaults d) \<and>
       (if is_accessor_descriptor d then attributes_width a = 2 \<and> has_get a \<and> has_set a
        else attributes_width a = 1 \<and>
          Some (flags_contains a SLOT_WRITABLE) = pd_writable (complete_with_defaults d))"
proof -
  let ?d = "complete_with_defaults d"
  have f: "fully_populated ?d" by (rule fully_populated_complete)
  then obtain a e c where a: "to_slot_attributes ?d = Some a"
    and e: "pd_enumerable ?d = Some e" "pd_configurable ?d = Some c"
    using to_slot_attributes_total [of ?d] by (auto simp: fully_populated_def)
  show ?thesis
  proof (cases "is_accessor_descriptor d")
    case True
    then have "is_accessor_descriptor ?d" "pd_get ?d \<noteq> None" "pd_set ?d \<noteq> None"
      by (auto simp: complete_with_defaults_def desc_simps split: descriptor_kind.splits option.splits)
    with to_slot_attributes_accessor [OF this(1) e a] True show ?thesis
      by (simp add: a e attributes_width_def is_accessor_attributes_def has_get_def)
  next
    case False
    then have "is_data_descriptor ?d" "pd_writable ?d \<noteq> None"
      by (auto simp: complete_with_defaults_def desc_simps split: descriptor_kind.splits option.splits)
    then obtain w where w: "is_data_descriptor ?d" "pd_writable ?d = Some w" by auto
    from to_slot_attributes_data [OF w(1) e w(2) a] False w show ?thesis
      by (simp add: a e attributes_width_def)
  qed
qed

end
