(* ===== verification/PropertyKey.thy ===== *)
theory PropertyKey
  imports JsValue
begin

text \<open>
  Property keys (\<open>core/engine/src/property/mod.rs\<close>, \<open>property/nonmaxu32.rs\<close>): a string that
  is a canonical array index becomes an index key, every other string stays a string. The
  theorem of this file is that \<open>parse_u32_index\<close> recognises exactly the decimal numerals of
  the numbers below \<open>2\<^sup>3\<^sup>2 - 1\<close>, without a leading zero, and never overflows.
\<close>

section \<open>Property keys\<close>

datatype property_key =
    PKString js_string
  | PKSymbol js_symbol
  | PKIndex u32

definition u32_MAX :: u32 where
  "u32_MAX = 0xFFFFFFFF"

definition nonmax_new :: "u32 \<Rightarrow> u32 option" where
  "nonmax_new inner = (if inner = u32_MAX then None else Some inner)"

definition MAX_CHAR_COUNT :: nat where
  "MAX_CHAR_COUNT = 10"

definition CHAR_ZERO :: u16 where
  "CHAR_ZERO = 48"

definition CHAR_NINE :: u16 where
  "CHAR_NINE = 57"

definition to_digit :: "u16 \<Rightarrow> u32 option" where
  "to_digit c = (if CHAR_ZERO \<le> c \<and> c \<le> CHAR_NINE then Some (ucast (c - CHAR_ZERO)) else None)"

definition checked_mul_u32 :: "u32 \<Rightarrow> u32 \<Rightarrow> u32 option" where
  "checked_mul_u32 a b = (if unat a * unat b < 2 ^ 32 then Some (a * b) else None)"

definition checked_add_u32 :: "u32 \<Rightarrow> u32 \<Rightarrow> u32 option" where
  "checked_add_u32 a b = (if unat a + unat b < 2 ^ 32 then Some (a + b) else None)"

fun parse_checked :: "u32 \<Rightarrow> u16 list \<Rightarrow> u32 option" where
  "parse_checked result [] = Some result"
| "parse_checked result (c # input) =
     (case checked_mul_u32 result 10 of
        None \<Rightarrow> None
      | Some m \<Rightarrow>
          (case to_digit c of
             None \<Rightarrow> None
           | Some d \<Rightarrow>
               (case checked_add_u32 m d of
                  None \<Rightarrow> None
                | Some r \<Rightarrow> parse_checked r input)))"

fun parse_unchecked :: "u32 \<Rightarrow> u16 list \<Rightarrow> u32 option" where
  "parse_unchecked result [] = Some result"
| "parse_unchecked result (c # input) =
     (case to_digit c of
        None \<Rightarrow> None
      | Some d \<Rightarrow> parse_unchecked (result * 10 + d) input)"

definition parse_u32_index :: "u16 list \<Rightarrow> u32 option" where
  "parse_u32_index input =
     (let len = length input in
      if len > MAX_CHAR_COUNT then None
      else
        (case input of
           [] \<Rightarrow> None
         | byte # rest \<Rightarrow>
             if byte = CHAR_ZERO then (if len = 1 then Some 0 else None)
             else
               (case to_digit byte of
                  None \<Rightarrow> None
                | Some result \<Rightarrow>
                    if len = MAX_CHAR_COUNT
                    then Option.bind (parse_checked result rest) nonmax_new
                    else parse_unchecked result rest)))"

definition property_key_of_string :: "js_string \<Rightarrow> property_key" where
  "property_key_of_string s =
     (case parse_u32_index s of None \<Rightarrow> PKString s | Some i \<Rightarrow> PKIndex i)"

definition property_key_of_symbol :: "js_symbol \<Rightarrow> property_key" where
  "property_key_of_symbol s = PKSymbol s"

text \<open>
  The conversions of integers; \<open>itoa\<close> is the decimal formatting of the \<open>itoa\<close> package.
  \<open>u32::try_from\<close> fails outside of \<open>0 .. 2\<^sup>3\<^sup>2 - 1\<close>.
\<close>

definition property_key_of_u32 :: "(int \<Rightarrow> js_string) \<Rightarrow> u32 \<Rightarrow> property_key" where
  "property_key_of_u32 itoa value =
     (case nonmax_new value of None \<Rightarrow> PKString (itoa (uint value)) | Some i \<Rightarrow> PKIndex i)"

definition property_key_of_int :: "(int \<Rightarrow> js_string) \<Rightarrow> int \<Rightarrow> property_key" where
  "property_key_of_int itoa value =
     (case (if 0 \<le> value \<and> value < 2 ^ 32 then nonmax_new (word_of_int value) else None) of
        None \<Rightarrow> PKString (itoa value)
      | Some i \<Rightarrow> PKIndex i)"

definition property_key_of_i32 :: "(int \<Rightarrow> js_string) \<Rightarrow> i32 \<Rightarrow> property_key" where
  "property_key_of_i32 itoa value =
     (if 0 \<le> sint value then PKIndex value else PKString (itoa (sint value)))"

text \<open>
  \<open>From<PropertyKey> for JsValue\<close>: an index becomes its decimal string.
\<close>

fun js_value_of_owned_key :: "(int \<Rightarrow> js_string) \<Rightarrow> property_key \<Rightarrow> js_value" where
  "js_value_of_owned_key itoa (PKString s) = VString s"
| "js_value_of_owned_key itoa (PKSymbol s) = VSymbol s"
| "js_value_of_owned_key itoa (PKIndex i) = VString (itoa (uint i))"

fun is_symbol_key :: "property_key \<Rightarrow> bool" where
  "is_symbol_key (PKSymbol _) = True"
| "is_symbol_key _ = False"

fun is_string_key :: "property_key \<Rightarrow> bool" where
  "is_string_key (PKString _) = True"
| "is_string_key _ = False"


section \<open>Reference: decimal numerals\<close>

text \<open>The value of a digit string, on numbers without a width; \<open>None\<close> on another character.\<close>

fun decimal_value :: "nat \<Rightarrow> u16 list \<Rightarrow> nat option" where
  "decimal_value r [] = Some r"
| "decimal_value r (c # cs) =
     (if 48 \<le> unat c \<and> unat c \<le> 57 then decimal_value (r * 10 + (unat c - 48)) cs else None)"

fun decimal :: "nat \<Rightarrow> u16 list" where
  "decimal n =
     (if n < 10 then [word_of_nat (48 + n)] else decimal (n div 10) @ [word_of_nat (48 + n mod 10)])"

declare decimal.simps [simp del]

text \<open>The decimal formatting of an integer, as the \<open>itoa\<close> package documents it.\<close>

definition decimal_int :: "int \<Rightarrow> js_string" where
  "decimal_int i = (if i < 0 then 45 # decimal (nat (- i)) else decimal (nat i))"

lemma to_digit_iff: "to_digit c = Some d \<longleftrightarrow> 48 \<le> unat c \<and> unat c \<le> 57 \<and> d = word_of_nat (unat c - 48)"
proof -
  have "48 \<le> unat c \<Longrightarrow> unat (c - 48) = unat c - 48"
    by (simp add: unat_sub word_le_nat_alt)
  moreover have "ucast (c - 48) = (word_of_nat (unat (c - 48)) :: u32)" by simp
  ultimately have "48 \<le> unat c \<Longrightarrow> ucast (c - 48) = (word_of_nat (unat c - 48) :: u32)"
    by metis
  then show ?thesis
    by (auto simp: to_digit_def CHAR_ZERO_def CHAR_NINE_def word_le_nat_alt)
qed

lemma to_digit_None: "to_digit c = None \<longleftrightarrow> \<not> (48 \<le> unat c \<and> unat c \<le> 57)"
  using to_digit_iff [of c] by (cases "to_digit c") auto

lemma digit_step: "(r :: nat) < m \<Longrightarrow> d \<le> 9 \<Longrightarrow> r * 10 + d < 10 * m"
  by linarith

lemma digit_small: "unat (c :: u16) - 48 < 2 ^ 32"
proof -
  have "unat c < 2 ^ 16" using unsigned_less [of c, where ?'a = nat] by simp
  then show ?thesis by simp
qed

lemma digit_below_10: "x \<le> 57 \<Longrightarrow> x - 48 < (10 :: nat)"
  by simp

lemma unat_small_add: "r < 2 ^ 32 \<Longrightarrow> unat (word_of_nat r :: u32) = r"
  by (simp add: unat_of_nat)

lemma decimal_value_ge: "decimal_value r cs = Some n \<Longrightarrow> r \<le> n"
  by (induction r cs rule: decimal_value.induct) (force split: if_splits)+

lemma parse_checked_value:
  assumes "r < 2 ^ 32"
  shows "parse_checked (word_of_nat r) cs =
    (case decimal_value r cs of
       Some n \<Rightarrow> if n < 2 ^ 32 then Some (word_of_nat n) else None | None \<Rightarrow> None)"
  using assms
proof (induction cs arbitrary: r)
  case (Cons c cs)
  have u: "unat (word_of_nat r :: u32) = r" using Cons.prems by (rule unat_small_add)
  show ?case
  proof (cases "48 \<le> unat c \<and> unat c \<le> 57")
    case False
    then have "to_digit c = None" by (simp add: to_digit_None)
    with False show ?thesis by (auto split: option.split)
  next
    case True
    let ?d = "unat c - 48"
    let ?n = "r * 10 + ?d"
    have d: "to_digit c = Some (word_of_nat ?d)" using True by (simp add: to_digit_iff)
    have ud: "unat (word_of_nat ?d :: u32) = ?d"
      by (rule unat_small_add) (rule digit_small)
    have big: "\<not> ?n < 2 ^ 32 \<Longrightarrow> (case decimal_value ?n cs of
        Some n \<Rightarrow> if n < 2 ^ 32 then Some (word_of_nat n) else None | None \<Rightarrow> None) = (None :: u32 option)"
      using decimal_value_ge [of ?n cs] by (auto split: option.splits)
    show ?thesis
    proof (cases "r * 10 < 2 ^ 32")
      case False
      then have "checked_mul_u32 (word_of_nat r) 10 = None"
        by (simp add: checked_mul_u32_def u)
      moreover have "\<not> ?n < 2 ^ 32" using False by (meson le_add1 le_less_trans)
      ultimately show ?thesis using True big by simp
    next
      case rt: True
      then have m: "checked_mul_u32 (word_of_nat r) 10 = Some (word_of_nat (r * 10))"
        by (simp add: checked_mul_u32_def u)
      have um: "unat (word_of_nat (r * 10) :: u32) = r * 10" using rt by (rule unat_small_add)
      have a: "checked_add_u32 (word_of_nat (r * 10)) (word_of_nat ?d) =
          (if ?n < 2 ^ 32 then Some (word_of_nat ?n) else None)"
        by (simp only: checked_add_u32_def um ud of_nat_add)
      show ?thesis
        unfolding parse_checked.simps m option.case d a
        using Cons.IH [of ?n] True big by simp
    qed
  qed
qed simp

lemma decimal_value_less:
  assumes "r < 10 ^ k" and "decimal_value r cs = Some n"
  shows "n < 10 ^ (length cs + k)"
  using assms
proof (induction cs arbitrary: r k)
  case (Cons c cs)
  let ?n = "r * 10 + (unat c - 48)"
  have c: "48 \<le> unat c \<and> unat c \<le> 57" "decimal_value ?n cs = Some n"
    using Cons.prems(2) by (auto split: if_splits)
  have "?n < 10 ^ Suc k"
    unfolding power_Suc by (rule digit_step) (use Cons.prems(1) c(1) in auto)
  from Cons.IH [OF this c(2)] show ?case by simp
qed simp

lemma parse_unchecked_value:
  "parse_unchecked (word_of_nat r) cs = map_option word_of_nat (decimal_value r cs)"
proof (induction cs arbitrary: r)
  case (Cons c cs)
  show ?case
  proof (cases "48 \<le> unat c \<and> unat c \<le> 57")
    case True
    then have d: "to_digit c = Some (word_of_nat (unat c - 48))" by (simp add: to_digit_iff)
    have w: "word_of_nat r * 10 + word_of_nat (unat c - 48) =
        (word_of_nat (r * 10 + (unat c - 48)) :: u32)"
      by (simp only: of_nat_add of_nat_mult of_nat_numeral)
    show ?thesis
      unfolding parse_unchecked.simps d option.case w Cons.IH using True by simp
  next
    case False
    then have "to_digit c = None" by (simp add: to_digit_None)
    with False show ?thesis by auto
  qed
qed simp

section \<open>Decimal numerals are read back\<close>

lemma decimal_value_snoc:
  "decimal_value r (cs @ [c]) =
     Option.bind (decimal_value r cs)
       (\<lambda>n. if 48 \<le> unat c \<and> unat c \<le> 57 then Some (n * 10 + (unat c - 48)) else None)"
  by (induction r cs rule: decimal_value.induct) auto

lemma unat_digit: "d < 10 \<Longrightarrow> unat (word_of_nat (48 + d) :: u16) = 48 + d"
  by (simp add: unat_of_nat del: of_nat_add)

lemma decimal_value_decimal: "decimal_value 0 (decimal n) = Some n"
proof (induction n rule: decimal.induct)
  case (1 n)
  show ?case
  proof (cases "n < 10")
    case True
    then show ?thesis using unat_digit [OF True] by (simp add: decimal.simps [of n])
  next
    case False
    have d: "unat (word_of_nat (48 + n mod 10) :: u16) = 48 + n mod 10"
      by (rule unat_digit) simp
    have m: "n mod 10 < 10" by simp
    have "decimal_value 0 (decimal n) = Some (n div 10 * 10 + n mod 10)"
      using 1 [OF False] False d m by (subst decimal.simps) (simp add: decimal_value_snoc del: of_nat_add)
    then show ?thesis by simp
  qed
qed

lemma decimal_nonempty [simp]: "decimal n \<noteq> []"
  by (simp add: decimal.simps [of n])

lemma decimal_head: "0 < n \<Longrightarrow> unat (hd (decimal n)) \<noteq> 48"
proof (induction n rule: decimal.induct)
  case (1 n)
  show ?case
  proof (cases "n < 10")
    case True
    then show ?thesis using unat_digit [OF True] 1(2) by (simp add: decimal.simps [of n])
  next
    case False
    then show ?thesis using 1(1) by (subst decimal.simps) simp
  qed
qed

text \<open>A digit string without a leading zero is the numeral of its value.\<close>

lemma decimal_unique:
  assumes "decimal_value 0 cs = Some n" and "cs \<noteq> []" and "unat (hd cs) \<noteq> 48"
  shows "decimal n = cs \<and> 0 < n"
  using assms
proof (induction cs arbitrary: n rule: rev_induct)
  case (snoc c cs)
  from snoc.prems(1) obtain m where m: "decimal_value 0 cs = Some m"
    and c: "48 \<le> unat c" "unat c \<le> 57" and n: "n = m * 10 + (unat c - 48)"
    by (auto simp: decimal_value_snoc bind_eq_Some_conv split: if_splits)
  define d where "d = unat c - 48"
  have d: "d < 10" "unat c = 48 + d" "n = m * 10 + d" using c n by (simp_all add: d_def)
  have w: "word_of_nat (48 + d) = c" by (simp only: d(2) [symmetric] of_nat_unat ucast_id)
  show ?case
  proof (cases "cs = []")
    case True
    with m have "m = 0" by simp
    moreover have "0 < d" using snoc.prems(3) True d(2) by simp
    ultimately show ?thesis using d(1,3) w True by (simp add: decimal.simps [of d])
  next
    case False
    with snoc.IH [OF m] snoc.prems(3) have ih: "decimal m = cs" "0 < m" by auto
    have "\<not> n < 10" "n div 10 = m" "n mod 10 = d" using d ih(2) by auto
    then show ?thesis using w ih by (subst decimal.simps) simp
  qed
qed simp

lemma length_decimal: "0 < k \<Longrightarrow> n < 10 ^ k \<Longrightarrow> length (decimal n) \<le> k"
proof (induction n arbitrary: k rule: decimal.induct)
  case (1 n)
  show ?case
  proof (cases "n < 10")
    case True
    then show ?thesis using 1(2) by (simp add: decimal.simps [of n])
  next
    case False
    obtain j where j: "k = Suc j" using 1(2) by (cases k) auto
    with False 1(3) have "0 < j" by (cases j) auto
    moreover have "n div 10 < 10 ^ j" using 1(3) j by simp
    ultimately show ?thesis
      using 1(1) [OF False, of j] False j by (subst decimal.simps) simp
  qed
qed

section \<open>\<open>parse_u32_index\<close> recognises canonical indices\<close>

lemma parse_u32_index_nonzero:
  assumes "unat c \<noteq> 48"
  shows "parse_u32_index (c # cs) =
    (case decimal_value 0 (c # cs) of
       Some n \<Rightarrow> if length (c # cs) \<le> 10 \<and> n < 2 ^ 32 - 1 then Some (word_of_nat n) else None
     | None \<Rightarrow> None)"
proof -
  have z: "c \<noteq> CHAR_ZERO" using assms by (auto simp: CHAR_ZERO_def)
  show ?thesis
  proof (cases "48 \<le> unat c \<and> unat c \<le> 57")
    case False
    then have "to_digit c = None" by (simp add: to_digit_None)
    with False z show ?thesis by (auto simp: parse_u32_index_def Let_def)
  next
    case True
    let ?d = "unat c - 48"
    have d: "to_digit c = Some (word_of_nat ?d)" using True by (simp add: to_digit_iff)
    have small: "?d < 2 ^ 32" by (rule digit_small)
    have dv: "decimal_value 0 (c # cs) = decimal_value ?d cs" using True by simp
    have max: "nonmax_new (word_of_nat n) = (if n < 2 ^ 32 - 1 then Some (word_of_nat n) else None)"
      if "n < 2 ^ 32" for n
      using unat_small_add [OF that] that
      by (auto simp: nonmax_new_def u32_MAX_def word_unat_eq_iff)
    show ?thesis
    proof (cases "length (c # cs) < 10")
      case len: True
      have "n < 10 ^ 9" if "decimal_value ?d cs = Some n" for n
      proof -
        have "?d < 10 ^ 1" unfolding power_one_right using True by (blast intro: digit_below_10)
        from decimal_value_less [OF this that] have "n < 10 ^ (length cs + 1)" .
        also have "(10 :: nat) ^ (length cs + 1) \<le> 10 ^ 9"
          using len by (intro power_increasing) auto
        finally show ?thesis .
      qed
      then show ?thesis
        unfolding parse_u32_index_def dv using len z d
        by (auto simp: parse_unchecked_value MAX_CHAR_COUNT_def Let_def simp del: of_nat_diff
            split: option.splits dest: less_trans)
    next
      case False
      then show ?thesis
        unfolding parse_u32_index_def dv using z d max
        by (auto simp: parse_checked_value [OF small] MAX_CHAR_COUNT_def Let_def
            simp del: of_nat_diff split: option.splits)
    qed
  qed
qed

lemma parse_u32_index_decimal:
  "parse_u32_index s = Some i \<longleftrightarrow> s = decimal (unat i) \<and> i \<noteq> u32_MAX"
proof (cases s)
  case Nil
  have "[] \<noteq> decimal (unat i)" using decimal_nonempty [of "unat i"] by metis
  with Nil show ?thesis by (simp add: parse_u32_index_def Let_def)
next
  case (Cons c cs)
  have i: "unat i < 2 ^ 32" using unsigned_less [of i, where ?'a = nat] by simp
  have mx: "i \<noteq> u32_MAX \<longleftrightarrow> unat i < 2 ^ 32 - 1"
    using i by (auto simp: u32_MAX_def word_unat_eq_iff)
  show ?thesis
  proof (cases "unat c = 48")
    case True
    then have c: "c = CHAR_ZERO" by (simp add: CHAR_ZERO_def word_unat_eq_iff)
    have p: "parse_u32_index s = (if cs = [] then Some 0 else None)"
      using Cons c by (auto simp: parse_u32_index_def Let_def MAX_CHAR_COUNT_def)
    have "s = decimal (unat i) \<longleftrightarrow> i = 0 \<and> cs = []"
    proof
      assume "s = decimal (unat i)"
      with Cons True decimal_head [of "unat i"] have "i = 0"
        by (metis gr0I list.sel(1) unsigned_eq_0_iff)
      with \<open>s = decimal (unat i)\<close> Cons show "i = 0 \<and> cs = []" by (simp add: decimal.simps)
    next
      assume "i = 0 \<and> cs = []"
      then show "s = decimal (unat i)" using Cons c by (simp add: decimal.simps CHAR_ZERO_def)
    qed
    with p show ?thesis by (auto simp: u32_MAX_def)
  next
    case False
    have eq: "s = decimal (unat i) \<longleftrightarrow> decimal_value 0 s = Some (unat i)"
      using decimal_unique [of s "unat i"] decimal_value_decimal [of "unat i"] Cons False
      by (metis list.discI list.sel(1))
    have len: "decimal_value 0 s = Some (unat i) \<Longrightarrow> length s \<le> 10"
      unfolding eq [symmetric] using i by (auto intro!: length_decimal)
    have w: "word_of_nat n = i \<longleftrightarrow> n = unat i" if "n < 2 ^ 32 - 1" for n
      using unat_small_add [of n] that by auto
    have "parse_u32_index s =
      (case decimal_value 0 s of
         Some n \<Rightarrow> if length s \<le> 10 \<and> n < 2 ^ 32 - 1 then Some (word_of_nat n) else None
       | None \<Rightarrow> None)"
      unfolding Cons by (rule parse_u32_index_nonzero [OF False])
    with len w show ?thesis
      unfolding mx eq by (cases "decimal_value 0 s") auto
  qed
qed

section \<open>Properties\<close>

text \<open>C35
  \<open>parse_u32_index\<close>, with its unchecked loop for up to nine digits and its checked one for ten,
  accepts exactly the canonical decimal numerals of the numbers below \<open>2\<^sup>3\<^sup>2 - 1\<close>, and gives the
  number: no leading zero, no overflow, not \<open>u32::MAX\<close>.
\<close>
theorem parse_u32_index_exact:
  "parse_u32_index s = Some i \<longleftrightarrow> s = decimal (unat i) \<and> i \<noteq> u32_MAX"
  by (rule parse_u32_index_decimal)

lemma property_key_of_decimal:
  "property_key_of_string (decimal (unat i)) = (if i = u32_MAX then PKString (decimal (unat i)) else PKIndex i)"
proof -
  have "parse_u32_index (decimal (unat i)) = (if i = u32_MAX then None else Some i)"
  proof (cases "parse_u32_index (decimal (unat i))")
    case None
    then show ?thesis using parse_u32_index_decimal [of "decimal (unat i)" i] by auto
  next
    case (Some j)
    then have "decimal (unat i) = decimal (unat j)" "j \<noteq> u32_MAX"
      using parse_u32_index_decimal [of "decimal (unat i)" j] by auto
    then have "unat i = unat j"
      by (metis decimal_value_decimal option.inject)
    with \<open>j \<noteq> u32_MAX\<close> Some show ?thesis by (simp add: word_unat_eq_iff)
  qed
  then show ?thesis by (simp only: property_key_of_string_def split: if_split) (simp only: option.case, blast)
qed

lemma decimal_int_u32: "decimal_int (uint i) = decimal (unat i)"
  by (simp add: decimal_int_def)

text \<open>
  A key does not depend on how it is written: converting a \<open>u32\<close> gives the key that its decimal
  string gives, an index below \<open>u32::MAX\<close> and a string at \<open>u32::MAX\<close>.
\<close>
theorem property_key_of_u32_string:
  "property_key_of_u32 decimal_int i = property_key_of_string (decimal (unat i))"
  unfolding property_key_of_decimal
  by (simp only: property_key_of_u32_def nonmax_new_def decimal_int_u32) simp

end
