(* ===== verification/PropertyTable.thy ===== *)
theory PropertyTable
  imports Property PropertyKey "HOL-Library.Monad_Syntax"
begin

text \<open>
  The ordered property table of a shape (\<open>object/shape/property_table.rs\<close>): the hash map
  from a key to its position and slot, and the vector of the entries in insertion order. A
  table is specified by its list of keys with attributes; \<open>table_of\<close> is the table that list
  determines, its slots laid out without gaps, and each operation is shown to act on the list.
  Positions and counts (\<open>u32\<close>) are numbers: a table has fewer entries than its storage has
  values, and the layout of the storage keeps the width of \<open>u32\<close>.
\<close>

record ptable =
  pt_map :: "property_key \<Rightarrow> (nat \<times> slot) option"
  pt_keys :: "(property_key \<times> slot) list"

definition ptable_empty :: ptable where
  "ptable_empty = \<lparr>pt_map = (\<lambda>_. None), pt_keys = []\<rparr>"

definition keys_cloned_n :: "ptable \<Rightarrow> nat \<Rightarrow> property_key list" where
  "keys_cloned_n self n =
     filter is_string_key (map fst (take n (pt_keys self))) @
     filter is_symbol_key (map fst (take n (pt_keys self)))"

definition ptable_keys :: "ptable \<Rightarrow> property_key list" where
  "ptable_keys self = keys_cloned_n self (length (pt_keys self))"

text \<open>\<open>clone_count\<close> rebuilds the map while it copies the first \<open>n\<close> entries.\<close>

fun clone_loop ::
  "nat \<Rightarrow> (property_key \<times> slot) list \<Rightarrow> (property_key \<Rightarrow> (nat \<times> slot) option) \<Rightarrow>
     (property_key \<Rightarrow> (nat \<times> slot) option)" where
  "clone_loop index [] m = m"
| "clone_loop index ((key, slot) # rest) m = clone_loop (Suc index) rest (m(key \<mapsto> (index, slot)))"

definition clone_count :: "ptable \<Rightarrow> nat \<Rightarrow> ptable" where
  "clone_count self n =
     \<lparr>pt_map = clone_loop 0 (take n (pt_keys self)) (\<lambda>_. None), pt_keys = take n (pt_keys self)\<rparr>"

definition ptable_insert :: "ptable \<Rightarrow> property_key \<Rightarrow> slot_attributes \<Rightarrow> ptable" where
  "ptable_insert self key attributes =
     (let slot = slot_from_previous
                   (if pt_keys self = [] then None else Some (snd (last (pt_keys self)))) attributes;
          index = length (pt_keys self) in
      \<lparr>pt_map = (pt_map self)(key \<mapsto> (index, slot)), pt_keys = pt_keys self @ [(key, slot)]\<rparr>)"

text \<open>\<open>set_attributes_at_index\<close>: \<open>unreachable!\<close> when the property is absent.\<close>

definition set_attributes_at_index ::
  "ptable \<Rightarrow> property_key \<Rightarrow> slot_attributes \<Rightarrow> ptable panics" where
  "set_attributes_at_index self key property_attributes =
     (case pt_map self key of
        None \<Rightarrow> None
      | Some (index, slot) \<Rightarrow>
          if index < length (pt_keys self) then
            Some \<lparr>pt_map = (pt_map self)(key \<mapsto> (index, slot\<lparr>sl_attributes := property_attributes\<rparr>)),
                  pt_keys = (pt_keys self)[index :=
                    (fst (pt_keys self ! index),
                     (snd (pt_keys self ! index))\<lparr>sl_attributes := property_attributes\<rparr>)]\<rparr>
          else None)"

definition ptable_get_expect :: "ptable \<Rightarrow> property_key \<Rightarrow> slot panics" where
  "ptable_get_expect self key = map_option snd (pt_map self key)"

section \<open>Specification by the list of entries\<close>

type_synonym entries = "(property_key \<times> slot_attributes) list"

definition table_entries :: "ptable \<Rightarrow> entries" where
  "table_entries t = map (\<lambda>(k, s). (k, sl_attributes s)) (pt_keys t)"

definition slots_of :: "entries \<Rightarrow> (property_key \<times> slot) list" where
  "slots_of es = zip (map fst es) (slots_layout 0 (map snd es))"

text \<open>The position of a key.\<close>

fun position :: "property_key \<Rightarrow> entries \<Rightarrow> nat option" where
  "position k [] = None"
| "position k ((k', a) # es) = (if k = k' then Some 0 else map_option Suc (position k es))"

definition slot_at :: "entries \<Rightarrow> nat \<Rightarrow> slot" where
  "slot_at es i =
     \<lparr>sl_index = word_of_nat (widths (map snd (take i es))), sl_attributes = snd (es ! i)\<rparr>"

definition lookup_spec :: "entries \<Rightarrow> property_key \<Rightarrow> slot option" where
  "lookup_spec es k = map_option (slot_at es) (position k es)"

definition map_spec :: "entries \<Rightarrow> property_key \<Rightarrow> (nat \<times> slot) option" where
  "map_spec es k = map_option (\<lambda>i. (i, slot_at es i)) (position k es)"

definition table_of :: "entries \<Rightarrow> ptable" where
  "table_of es = \<lparr>pt_map = map_spec es, pt_keys = slots_of es\<rparr>"

definition distinct_keys :: "entries \<Rightarrow> bool" where
  "distinct_keys es = distinct (map fst es)"

text \<open>A table is well formed when it is the table of its entries.\<close>

definition ptable_wf :: "ptable \<Rightarrow> bool" where
  "ptable_wf t \<longleftrightarrow> distinct_keys (table_entries t) \<and> t = table_of (table_entries t)"

section \<open>Positions\<close>

lemma position_None: "position k es = None \<longleftrightarrow> k \<notin> fst ` set es"
  by (induction k es rule: position.induct) auto

lemma position_Some_nth: "position k es = Some i \<Longrightarrow> i < length es \<and> fst (es ! i) = k"
  by (induction k es arbitrary: i rule: position.induct) (auto split: if_splits)

lemma position_nth:
  "distinct_keys es \<Longrightarrow> i < length es \<Longrightarrow> position (fst (es ! i)) es = Some i"
proof (induction es arbitrary: i)
  case (Cons e es)
  then show ?case
    by (cases i; cases e) (auto simp: distinct_keys_def dest: nth_mem)
qed simp

lemma position_append:
  "position k (es @ fs) =
     (case position k es of Some i \<Rightarrow> Some i | None \<Rightarrow> map_option ((+) (length es)) (position k fs))"
  by (cases "position k fs"; induction k es rule: position.induct) (auto split: option.splits)

lemma position_take:
  "position k (take n es) =
     (case position k es of Some i \<Rightarrow> if i < n then Some i else None | None \<Rightarrow> None)"
proof (induction k es arbitrary: n rule: position.induct)
  case (2 k k' a es)
  then show ?case by (cases n) (auto split: option.splits)
qed simp

lemma position_map_snd: "map fst fs = map fst es \<Longrightarrow> position k fs = position k es"
proof (induction es arbitrary: fs)
  case (Cons e es)
  then obtain f gs where f: "fs = f # gs" "fst f = fst e" and g: "map fst gs = map fst es"
    by (cases fs) auto
  from Cons.IH [OF g] f show ?case by (cases e; cases f) simp
qed simp

lemma position_update [simp]: "i < length es \<Longrightarrow> position k (es[i := (fst (es ! i), a)]) = position k es"
  by (rule position_map_snd) (simp add: map_update list_update_same_conv)

text \<open>What the layout of a table depends on: its keys, in order, and the width of each.\<close>

definition key_widths :: "entries \<Rightarrow> (property_key \<times> nat) list" where
  "key_widths es = map (\<lambda>(k, a). (k, attributes_width a)) es"

lemma key_widths_simps [simp]:
  "key_widths [] = []" "key_widths ((k, a) # es) = (k, attributes_width a) # key_widths es"
  "key_widths (es @ fs) = key_widths es @ key_widths fs" "length (key_widths es) = length es"
  "map fst (key_widths es) = map fst es" "fst ` set (key_widths es) = fst ` set es"
  "key_widths (rev es) = rev (key_widths es)" "key_widths (take n es) = take n (key_widths es)"
  by (simp_all add: key_widths_def rev_map take_map comp_def split_def image_image)

lemma key_widths_keys: "key_widths es = key_widths fs \<Longrightarrow> map fst es = map fst fs"
  by (metis key_widths_simps(5))

lemma key_widths_update: "key_widths (es[i := (k, a)]) = (key_widths es)[i := (k, attributes_width a)]"
  by (simp add: key_widths_def map_update)

lemma key_widths_filter: "key_widths (filter (\<lambda>e. fst e \<noteq> k) es) = filter (\<lambda>q. fst q \<noteq> k) (key_widths es)"
  by (induction es) (auto simp: key_widths_def)

lemma key_widths_same:
  assumes "i < length es" "width_match (snd (es ! i)) a"
  shows "key_widths (es[i := (fst (es ! i), a)]) = key_widths es"
  using assms by (simp add: key_widths_def map_update attributes_width_match split_def list_update_same_conv)

lemma widths_key_widths: "widths (map snd es) = sum_list (map snd (key_widths es))"
  by (simp add: widths_def key_widths_def comp_def split_def)

lemma map_fst_update:
  "i < length es \<Longrightarrow> fst (es ! i) = k \<Longrightarrow> map fst (es[i := (k, a)]) = map fst es"
  by (metis fst_conv length_map list_update_id map_update nth_map)

lemma position_update' [simp]: "position k es = Some i \<Longrightarrow> position k' (es[i := (k, a)]) = position k' es"
  by (rule position_map_snd) (simp add: map_fst_update position_Some_nth)

section \<open>Slots of the entries\<close>

lemma length_slots_of [simp]: "length (slots_of es) = length es"
  by (simp add: slots_of_def)

lemma nth_slots_of: "i < length es \<Longrightarrow> slots_of es ! i = (fst (es ! i), slot_at es i)"
  by (simp add: slots_of_def nth_slots_layout slot_at_def take_map)

lemma fst_slots_of [simp]: "map fst (slots_of es) = map fst es"
  by (simp add: slots_of_def)

lemma slots_of_Nil [simp]: "slots_of [] = []"
  by (simp add: slots_of_def)

lemma slots_of_eq_Nil [simp]: "slots_of es = [] \<longleftrightarrow> es = []"
  using length_slots_of [of es] by (metis length_0_conv)

lemma slot_at_attributes [simp]: "sl_attributes (slot_at es i) = snd (es ! i)"
  by (simp add: slot_at_def)

lemma slot_at_append [simp]: "i < length es \<Longrightarrow> slot_at (es @ fs) i = slot_at es i"
  by (simp add: slot_at_def nth_append)

lemma slot_at_take: "i < n \<Longrightarrow> i < length es \<Longrightarrow> slot_at (take n es) i = slot_at es i"
  by (simp add: slot_at_def min_def)

lemma slots_of_append:
  "slots_of (es @ fs) = slots_of es @ zip (map fst fs) (slots_layout (widths (map snd es)) (map snd fs))"
  by (simp add: slots_of_def slots_layout_append)

lemma slots_of_snoc:
  "slots_of (es @ [(k, a)]) =
     slots_of es @ [(k, \<lparr>sl_index = word_of_nat (widths (map snd es)), sl_attributes = a\<rparr>)]"
  by (simp add: slots_of_append)

lemma take_slots_of: "take n (slots_of es) = slots_of (take n es)"
  by (simp add: slots_of_def take_zip take_map take_slots_layout)

lemma table_entries_slots [simp]: "map (\<lambda>(k, s). (k, sl_attributes s)) (slots_of es) = es"
  by (rule nth_equalityI) (auto simp: nth_slots_of split: prod.splits)

lemma table_entries_of [simp]: "table_entries (table_of es) = es"
  by (simp add: table_entries_def table_of_def)

lemma table_of_wf [simp]: "ptable_wf (table_of es) \<longleftrightarrow> distinct_keys es"
  by (simp add: ptable_wf_def)

lemma ptable_wfE:
  assumes "ptable_wf t"
  obtains es where "t = table_of es" and "distinct_keys es" and "table_entries t = es"
  using assms that [of "table_entries t"] unfolding ptable_wf_def by blast

lemma table_of_simps [simp]:
  "pt_map (table_of es) = map_spec es" "pt_keys (table_of es) = slots_of es"
  by (simp_all add: table_of_def)

lemma previous_slot_eq:
  "slot_from_previous (if es = [] then None else Some (snd (last (slots_of es)))) a =
     \<lparr>sl_index = word_of_nat (widths (map snd es)), sl_attributes = a\<rparr>"
proof (cases es rule: rev_cases)
  case (snoc fs f)
  then show ?thesis
    by (cases f) (simp add: slots_of_snoc slot_from_previous_def slot_width_def)
qed (simp add: slot_from_previous_def)

section \<open>The operations act on the entries\<close>

lemma map_spec_snoc:
  assumes "k \<notin> fst ` set es"
  shows "map_spec (es @ [(k, a)]) =
    (map_spec es)(k \<mapsto> (length es, \<lparr>sl_index = word_of_nat (widths (map snd es)), sl_attributes = a\<rparr>))"
proof
  fix k'
  show "map_spec (es @ [(k, a)]) k' =
    ((map_spec es)(k \<mapsto> (length es, \<lparr>sl_index = word_of_nat (widths (map snd es)), sl_attributes = a\<rparr>))) k'"
    using assms position_Some_nth [of k' es]
    by (auto simp: map_spec_def position_append position_None [THEN iffD2] slot_at_def nth_append
        split: option.splits)
qed

lemma ptable_empty_table: "ptable_empty = table_of []"
  by (simp add: ptable_empty_def table_of_def map_spec_def fun_eq_iff)

lemma ptable_insert_table:
  assumes "k \<notin> fst ` set es"
  shows "ptable_insert (table_of es) k a = table_of (es @ [(k, a)])"
  unfolding ptable_insert_def Let_def table_of_simps slots_of_eq_Nil previous_slot_eq
  using assms by (simp add: map_spec_snoc slots_of_snoc table_of_def)

lemma clone_loop_spec:
  assumes "distinct_keys (es @ fs)"
  shows "clone_loop (length es) (drop (length es) (slots_of (es @ fs))) (map_spec es) = map_spec (es @ fs)"
  using assms
proof (induction fs arbitrary: es)
  case (Cons f fs)
  obtain k a where f: "f = (k, a)" by (cases f)
  let ?s = "\<lparr>sl_index = word_of_nat (widths (map snd es)), sl_attributes = a\<rparr>"
  have k: "k \<notin> fst ` set es" using Cons.prems f by (auto simp: distinct_keys_def)
  have i: "length es < length (es @ f # fs)" by simp
  have "drop (length es) (slots_of (es @ f # fs)) =
      slots_of (es @ f # fs) ! length es # drop (Suc (length es)) (slots_of (es @ f # fs))"
    by (subst Cons_nth_drop_Suc [symmetric]) simp_all
  also have "slots_of (es @ f # fs) ! length es = (k, ?s)"
    by (subst nth_slots_of) (auto simp: slot_at_def f)
  finally have d: "drop (length es) (slots_of (es @ f # fs)) =
      (k, ?s) # drop (Suc (length es)) (slots_of (es @ f # fs))" .
  have "clone_loop (length (es @ [f])) (drop (length (es @ [f])) (slots_of ((es @ [f]) @ fs)))
      (map_spec (es @ [f])) = map_spec ((es @ [f]) @ fs)"
    by (rule Cons.IH) (use Cons.prems in simp)
  then show ?case unfolding d by (simp add: f map_spec_snoc [OF k])
qed simp

lemma clone_count_table:
  assumes "distinct_keys es"
  shows "clone_count (table_of es) n = table_of (take n es)"
proof -
  have "distinct_keys (take n es)" using assms by (simp add: distinct_keys_def take_map [symmetric])
  with clone_loop_spec [of "[]" "take n es"]
  have "clone_loop 0 (slots_of (take n es)) (map_spec []) = map_spec (take n es)" by simp
  moreover have "map_spec [] = (\<lambda>_. None)" by (simp add: map_spec_def fun_eq_iff)
  ultimately show ?thesis by (simp add: clone_count_def table_of_def take_slots_of)
qed

text \<open>An update of one property's attributes that keeps its width moves no slot.\<close>

lemma slot_at_update_same_width:
  assumes "i < length es" "width_match (snd (es ! i)) a"
  shows "slot_at (es[i := (k, a)]) j =
    (if j = i then (slot_at es i)\<lparr>sl_attributes := a\<rparr> else slot_at es j)"
proof (cases "i < j")
  case True
  have "widths (map snd (take j (es[i := (k, a)]))) = widths ((map snd (take j es))[i := a])"
    by (simp add: take_update_swap map_update)
  also have "\<dots> = widths (map snd (take j es))"
    using assms True by (intro widths_update) (auto simp: attributes_width_match)
  finally show ?thesis using True by (simp add: slot_at_def)
next
  case False
  then have "take j (es[i := (k, a)]) = take j es" by simp
  then show ?thesis using assms(1) by (auto simp: slot_at_def)
qed

lemma map_spec_update:
  assumes "distinct_keys es" "i < length es" "width_match (snd (es ! i)) a"
  shows "map_spec (es[i := (fst (es ! i), a)]) =
    (map_spec es)(fst (es ! i) \<mapsto> (i, (slot_at es i)\<lparr>sl_attributes := a\<rparr>))"
proof
  fix k
  show "map_spec (es[i := (fst (es ! i), a)]) k =
    ((map_spec es)(fst (es ! i) \<mapsto> (i, (slot_at es i)\<lparr>sl_attributes := a\<rparr>))) k"
    using assms position_nth [OF assms(1,2)] position_Some_nth [of k es]
    by (cases "position k es")
       (auto simp: map_spec_def slot_at_update_same_width)
qed

lemma slots_of_update:
  assumes "i < length es" "width_match (snd (es ! i)) a"
  shows "slots_of (es[i := (fst (es ! i), a)]) =
    (slots_of es)[i := (fst (es ! i), (slot_at es i)\<lparr>sl_attributes := a\<rparr>)]"
  using assms
  by (intro nth_equalityI)
     (auto simp: nth_slots_of nth_list_update slot_at_update_same_width)

lemma set_attributes_at_index_table:
  assumes "distinct_keys es" "position k es = Some i" "width_match (snd (es ! i)) a"
  shows "set_attributes_at_index (table_of es) k a = Some (table_of (es[i := (k, a)]))"
proof -
  have i: "i < length es" "fst (es ! i) = k" using position_Some_nth [OF assms(2)] by auto
  show ?thesis
    using map_spec_update [OF assms(1) i(1) assms(3)] slots_of_update [OF i(1) assms(3)] i assms(2)
    by (simp add: set_attributes_at_index_def map_spec_def [of es k] nth_slots_of table_of_def)
qed

lemma keys_cloned_n_table:
  "keys_cloned_n (table_of es) n =
     filter is_string_key (map fst (take n es)) @ filter is_symbol_key (map fst (take n es))"
  by (simp add: keys_cloned_n_def take_slots_of)

lemma map_spec_lookup: "map_option snd (map_spec es k) = lookup_spec es k"
  by (simp add: map_spec_def lookup_spec_def option.map_comp comp_def)

lemma lookup_spec_take:
  "lookup_spec (take n es) k =
     (case map_spec es k of Some (i, s) \<Rightarrow> if i < n then Some s else None | None \<Rightarrow> None)"
  using position_Some_nth [of k es]
  by (auto simp: lookup_spec_def map_spec_def position_take slot_at_take split: option.splits)

lemma lookup_spec_Some:
  "lookup_spec es k = Some s \<longleftrightarrow> (\<exists>i. position k es = Some i \<and> s = slot_at es i)"
  by (auto simp: lookup_spec_def)

lemma lookup_spec_None: "lookup_spec es k = None \<longleftrightarrow> k \<notin> fst ` set es"
  by (simp add: lookup_spec_def position_None)

lemma lookup_spec_snoc:
  "k \<notin> fst ` set es \<Longrightarrow>
   lookup_spec (es @ [(k, a)]) k' =
     (if k' = k then Some \<lparr>sl_index = word_of_nat (widths (map snd es)), sl_attributes = a\<rparr>
      else lookup_spec es k')"
  by (simp add: map_spec_lookup [symmetric] map_spec_snoc)

end
