(* ===== verification/ShapeHeap.thy ===== *)
theory ShapeHeap
  imports PropertyTable
begin

text \<open>
  The store of shapes. Shapes are garbage-collected boxes that objects, other shapes and weak
  caches refer to, and the property table of a shared shape is reference counted and shared
  between shapes, so the boxes are kept in an explicit store: property tables, shared shapes
  and unique shapes by address. Every box gets a fresh address. A weak reference can be
  upgraded until its target is collected; which targets a collection takes is decided by the
  collector at allocations, and is a schedule of the store (\<open>sh_collector\<close>) that every theorem
  leaves arbitrary. The file also holds the forward-transition caches
  (\<open>object/shape/shared_shape/forward_transition.rs\<close>).
\<close>

section \<open>Forward transitions\<close>

type_synonym shape_addr = nat
type_synonym js_prototype = "obj_addr option"

record transition_key =
  tk_property_key :: property_key
  tk_attributes :: slot_attributes

record 'k transition_map =
  tm_map :: "'k \<Rightarrow> shape_addr option"
  tm_insertion_count_since_prune :: u8

definition tm_default :: "'k transition_map" where
  "tm_default = \<lparr>tm_map = (\<lambda>_. None), tm_insertion_count_since_prune = 0\<rparr>"

definition get_and_increment_count :: "'k transition_map \<Rightarrow> u8 \<times> 'k transition_map" where
  "get_and_increment_count self =
     (let result = tm_insertion_count_since_prune self in
      (result, self\<lparr>tm_insertion_count_since_prune := result + 1\<rparr>))"

text \<open>\<open>map.retain(|_, v| v.is_upgradable())\<close>\<close>

definition tm_retain :: "(shape_addr \<Rightarrow> bool) \<Rightarrow> 'k transition_map \<Rightarrow> 'k transition_map" where
  "tm_retain upgradable self =
     self\<lparr>tm_map := (\<lambda>k. case tm_map self k of
        Some v \<Rightarrow> if upgradable v then Some v else None | None \<Rightarrow> None)\<rparr>"

definition tm_insert ::
  "(shape_addr \<Rightarrow> bool) \<Rightarrow> 'k \<Rightarrow> shape_addr \<Rightarrow> 'k transition_map option \<Rightarrow> 'k transition_map option" where
  "tm_insert upgradable key value this =
     (let transitions = (case this of None \<Rightarrow> tm_default | Some m \<Rightarrow> m);
          (count, transitions) = get_and_increment_count transitions;
          transitions = (if count = 255 then tm_retain upgradable transitions else transitions) in
      Some (transitions\<lparr>tm_map := (tm_map transitions)(key \<mapsto> value)\<rparr>))"

definition tm_prune :: "(shape_addr \<Rightarrow> bool) \<Rightarrow> 'k transition_map option \<Rightarrow> 'k transition_map option" where
  "tm_prune upgradable this =
     map_option (\<lambda>t. tm_retain upgradable (t\<lparr>tm_insertion_count_since_prune := 0\<rparr>)) this"

definition tm_get :: "'k transition_map option \<Rightarrow> 'k \<Rightarrow> shape_addr option" where
  "tm_get this key = (case this of None \<Rightarrow> None | Some m \<Rightarrow> tm_map m key)"

record forward_transition =
  ft_properties :: "transition_key transition_map option"
  ft_prototypes :: "js_prototype transition_map option"

definition ft_default :: forward_transition where
  "ft_default = \<lparr>ft_properties = None, ft_prototypes = None\<rparr>"

definition ft_insert_property ::
  "(shape_addr \<Rightarrow> bool) \<Rightarrow> transition_key \<Rightarrow> shape_addr \<Rightarrow> forward_transition \<Rightarrow> forward_transition" where
  "ft_insert_property upgradable key value self =
     self\<lparr>ft_properties := tm_insert upgradable key value (ft_properties self)\<rparr>"

definition ft_insert_prototype ::
  "(shape_addr \<Rightarrow> bool) \<Rightarrow> js_prototype \<Rightarrow> shape_addr \<Rightarrow> forward_transition \<Rightarrow> forward_transition" where
  "ft_insert_prototype upgradable key value self =
     self\<lparr>ft_prototypes := tm_insert upgradable key value (ft_prototypes self)\<rparr>"

definition ft_get_property :: "forward_transition \<Rightarrow> transition_key \<Rightarrow> shape_addr option" where
  "ft_get_property self key = tm_get (ft_properties self) key"

definition ft_get_prototype :: "forward_transition \<Rightarrow> js_prototype \<Rightarrow> shape_addr option" where
  "ft_get_prototype self key = tm_get (ft_prototypes self) key"

definition ft_prune_property_transitions ::
  "(shape_addr \<Rightarrow> bool) \<Rightarrow> forward_transition \<Rightarrow> forward_transition" where
  "ft_prune_property_transitions upgradable self =
     self\<lparr>ft_properties := tm_prune upgradable (ft_properties self)\<rparr>"

definition ft_prune_prototype_transitions ::
  "(shape_addr \<Rightarrow> bool) \<Rightarrow> forward_transition \<Rightarrow> forward_transition" where
  "ft_prune_prototype_transitions upgradable self =
     self\<lparr>ft_prototypes := tm_prune upgradable (ft_prototypes self)\<rparr>"

text \<open>A cache only forgets entries and gains the one inserted.\<close>

lemma tm_get_insert:
  "tm_get (tm_insert up k v m) k' = Some b \<Longrightarrow> k' = k \<and> b = v \<or> tm_get m k' = Some b"
  by (cases m)
     (auto simp: tm_insert_def tm_get_def Let_def get_and_increment_count_def tm_default_def
        tm_retain_def split: if_splits option.splits)

lemma tm_get_insert_same [simp]: "tm_get (tm_insert up k v m) k = Some v"
  by (cases m) (auto simp: tm_insert_def tm_get_def Let_def get_and_increment_count_def)

lemma tm_get_prune: "tm_get (tm_prune up m) k = Some b \<Longrightarrow> tm_get m k = Some b \<and> up b"
  by (cases m) (auto simp: tm_prune_def tm_get_def tm_retain_def split: if_splits option.splits)

lemmas ft_defs = ft_insert_property_def ft_insert_prototype_def ft_get_property_def
  ft_get_prototype_def ft_prune_property_transitions_def ft_prune_prototype_transitions_def

section \<open>The store\<close>

record shared_shape =
  ss_forward :: forward_transition
  ss_property_count :: nat
  ss_prototype :: js_prototype
  ss_table :: nat
  ss_previous :: "shape_addr option"
  ss_transition_count :: u16
  ss_flags :: u8

record unique_shape =
  us_table :: ptable
  us_prototype :: js_prototype

record shape_heap =
  sh_tables :: "nat \<Rightarrow> ptable option"
  sh_shared :: "shape_addr \<Rightarrow> shared_shape option"
  sh_unique :: "shape_addr \<Rightarrow> unique_shape option"
  sh_next :: nat
  sh_collected :: "shape_addr \<Rightarrow> bool"
  sh_collector :: "nat \<Rightarrow> shape_addr \<Rightarrow> bool"

definition sh_empty :: "(nat \<Rightarrow> shape_addr \<Rightarrow> bool) \<Rightarrow> shape_heap" where
  "sh_empty collector =
     \<lparr>sh_tables = (\<lambda>_. None), sh_shared = (\<lambda>_. None), sh_unique = (\<lambda>_. None),
      sh_next = 0, sh_collected = (\<lambda>_. False), sh_collector = collector\<rparr>"

text \<open>\<open>Gc::new\<close> may collect before it returns the new box; \<open>Rc::new\<close> does not.\<close>

definition gc_collect :: "shape_heap \<Rightarrow> shape_heap" where
  "gc_collect h = h\<lparr>sh_collected := (\<lambda>a. sh_collected h a \<or> sh_collector h (sh_next h) a)\<rparr>"

definition alloc_table :: "ptable \<Rightarrow> shape_heap \<Rightarrow> nat \<times> shape_heap" where
  "alloc_table t h =
     (sh_next h, h\<lparr>sh_tables := (sh_tables h)(sh_next h \<mapsto> t), sh_next := Suc (sh_next h)\<rparr>)"

definition alloc_shared :: "shared_shape \<Rightarrow> shape_heap \<Rightarrow> shape_addr \<times> shape_heap" where
  "alloc_shared s h =
     (sh_next h,
      (gc_collect h)\<lparr>sh_shared := (sh_shared h)(sh_next h \<mapsto> s), sh_next := Suc (sh_next h)\<rparr>)"

definition alloc_unique :: "unique_shape \<Rightarrow> shape_heap \<Rightarrow> shape_addr \<times> shape_heap" where
  "alloc_unique u h =
     (sh_next h,
      (gc_collect h)\<lparr>sh_unique := (sh_unique h)(sh_next h \<mapsto> u), sh_next := Suc (sh_next h)\<rparr>)"

definition weak_upgrade :: "shape_heap \<Rightarrow> shape_addr \<Rightarrow> shape_addr option" where
  "weak_upgrade h a = (if sh_collected h a then None else Some a)"

definition is_upgradable :: "shape_heap \<Rightarrow> shape_addr \<Rightarrow> bool" where
  "is_upgradable h a \<longleftrightarrow> \<not> sh_collected h a"

definition update_table :: "nat \<Rightarrow> ptable \<Rightarrow> shape_heap \<Rightarrow> shape_heap" where
  "update_table t T h = h\<lparr>sh_tables := (sh_tables h)(t \<mapsto> T)\<rparr>"

definition update_unique :: "shape_addr \<Rightarrow> unique_shape \<Rightarrow> shape_heap \<Rightarrow> shape_heap" where
  "update_unique a u h = h\<lparr>sh_unique := (sh_unique h)(a \<mapsto> u)\<rparr>"

text \<open>A change of the forward transitions of a shared shape, which is behind a \<open>GcRefCell\<close>.\<close>

definition update_forward ::
  "shape_addr \<Rightarrow> (forward_transition \<Rightarrow> forward_transition) \<Rightarrow> shape_heap \<Rightarrow> shape_heap" where
  "update_forward a f h =
     h\<lparr>sh_shared := (sh_shared h)(a := map_option (\<lambda>s. s\<lparr>ss_forward := f (ss_forward s)\<rparr>) (sh_shared h a))\<rparr>"

end
