(* ===== verification/SharedShape.thy ===== *)
theory SharedShape
  imports ShapeHeap
begin

text \<open>
  Shared shapes (\<open>object/shape/shared_shape/mod.rs\<close>): the transitions that insert a property,
  change attributes, change the prototype and remove a property, with the rollback of the
  transition chain that the last two need. The rollback gathers the transitions to replay in
  an \<open>IndexMap\<close> of the \<open>indexmap\<close> package, whose operations are an argument of the model.
\<close>

section \<open>Flags\<close>

definition INSERT_PROPERTY_TRANSITION_TYPE :: u8 where [mask_simps]: "INSERT_PROPERTY_TRANSITION_TYPE = 0"
definition CONFIGURE_PROPERTY_TRANSITION_TYPE :: u8 where [mask_simps]: "CONFIGURE_PROPERTY_TRANSITION_TYPE = 1"
definition PROTOTYPE_TRANSITION_TYPE :: u8 where [mask_simps]: "PROTOTYPE_TRANSITION_TYPE = 2"
definition TRANSITION_TYPE :: u8 where [mask_simps]: "TRANSITION_TYPE = 3"

definition insert_property_transition_from :: "u8 \<Rightarrow> u8" where
  "insert_property_transition_from previous =
     (previous AND NOT TRANSITION_TYPE) OR INSERT_PROPERTY_TRANSITION_TYPE"

definition configure_property_transition_from :: "u8 \<Rightarrow> u8" where
  "configure_property_transition_from previous =
     (previous AND NOT TRANSITION_TYPE) OR CONFIGURE_PROPERTY_TRANSITION_TYPE"

definition prototype_transition_from :: "u8 \<Rightarrow> u8" where
  "prototype_transition_from previous =
     (previous AND NOT TRANSITION_TYPE) OR PROTOTYPE_TRANSITION_TYPE"

definition is_insert_transition_type :: "u8 \<Rightarrow> bool" where
  "is_insert_transition_type self \<longleftrightarrow> self AND TRANSITION_TYPE = INSERT_PROPERTY_TRANSITION_TYPE"

definition is_prototype_transition_type :: "u8 \<Rightarrow> bool" where
  "is_prototype_transition_type self \<longleftrightarrow> self AND TRANSITION_TYPE = PROTOTYPE_TRANSITION_TYPE"

section \<open>The \<open>IndexMap\<close> of the rollback\<close>

text \<open>
  \<open>IndexMap::default\<close>, \<open>entry(k).or_insert(v)\<close> and iteration; the documented behaviour is that
  \<open>or_insert\<close> appends an absent key and leaves a present one, and iteration is in that order.
\<close>

record 'm index_map_ops =
  im_default :: 'm
  im_entry_or_insert :: "'m \<Rightarrow> property_key \<Rightarrow> slot_attributes \<Rightarrow> 'm"
  im_iter :: "'m \<Rightarrow> entries"

definition index_map_laws :: "'m index_map_ops \<Rightarrow> bool" where
  "index_map_laws im \<longleftrightarrow>
     im_iter im (im_default im) = [] \<and>
     (\<forall>m k v. im_iter im (im_entry_or_insert im m k v) =
        (if k \<in> fst ` set (im_iter im m) then im_iter im m else im_iter im m @ [(k, v)]))"

definition list_index_map :: "entries index_map_ops" where
  "list_index_map =
     \<lparr>im_default = [], im_entry_or_insert = (\<lambda>m k v. if k \<in> fst ` set m then m else m @ [(k, v)]),
      im_iter = (\<lambda>m. m)\<rparr>"

lemma list_index_map_laws: "index_map_laws list_index_map"
  by (simp add: index_map_laws_def list_index_map_def)

section \<open>Operations\<close>

definition shared_root :: "shape_heap \<Rightarrow> shape_addr \<times> shape_heap" where
  "shared_root h =
     (let (t, h) = alloc_table ptable_empty h in
      alloc_shared
        \<lparr>ss_forward = ft_default, ss_property_count = 0, ss_prototype = None, ss_table = t,
         ss_previous = None, ss_transition_count = 0, ss_flags = 0\<rparr> h)"

definition shared_property_index :: "shared_shape \<Rightarrow> nat" where
  "shared_property_index s = ss_property_count s - 1"

definition shared_property :: "shape_heap \<Rightarrow> shape_addr \<Rightarrow> (property_key \<times> slot) panics" where
  "shared_property h a =
     do {
       s \<leftarrow> sh_shared h a;
       t \<leftarrow> sh_tables h (ss_table s);
       vec_get (pt_keys t) (shared_property_index s)
     }"

definition shared_has_prototype :: "shape_heap \<Rightarrow> shape_addr \<Rightarrow> obj_addr \<Rightarrow> bool panics" where
  "shared_has_prototype h a prototype =
     map_option (\<lambda>s. ss_prototype s = Some prototype) (sh_shared h a)"

definition add_property_deep_clone_if_needed ::
  "shape_heap \<Rightarrow> nat \<Rightarrow> property_key \<Rightarrow> slot_attributes \<Rightarrow> nat \<Rightarrow> (nat \<times> shape_heap) panics" where
  "add_property_deep_clone_if_needed h self key attributes property_count =
     do {
       inner \<leftarrow> sh_tables h self;
       if property_count = length (pt_keys inner) \<and> pt_map inner key = None
       then Some (self, update_table self (ptable_insert inner key attributes) h)
       else Some (alloc_table (ptable_insert (clone_count inner property_count) key attributes) h)
     }"

definition shared_new_prototype ::
  "shape_heap \<Rightarrow> shape_addr \<Rightarrow> js_prototype \<Rightarrow> (shape_addr \<times> shape_heap) panics" where
  "shared_new_prototype h self prototype =
     do {
       s \<leftarrow> sh_shared h self;
       let (new_shape, h) = alloc_shared
         \<lparr>ss_forward = ft_default, ss_property_count = ss_property_count s,
          ss_prototype = prototype, ss_table = ss_table s, ss_previous = Some self,
          ss_transition_count = ss_transition_count s + 1,
          ss_flags = prototype_transition_from (ss_flags s)\<rparr> h;
       Some (new_shape,
         update_forward self (ft_insert_prototype (is_upgradable h) prototype new_shape) h)
     }"

definition shared_change_prototype_transition ::
  "shape_heap \<Rightarrow> shape_addr \<Rightarrow> js_prototype \<Rightarrow> (shape_addr \<times> shape_heap) panics" where
  "shared_change_prototype_transition h self prototype =
     do {
       s \<leftarrow> sh_shared h self;
       case ft_get_prototype (ss_forward s) prototype of
         Some shape \<Rightarrow>
           (case weak_upgrade h shape of
              Some inner \<Rightarrow> Some (inner, h)
            | None \<Rightarrow> shared_new_prototype
                (update_forward self (ft_prune_prototype_transitions (is_upgradable h)) h) self prototype)
       | None \<Rightarrow> shared_new_prototype h self prototype
     }"

definition shared_new_property ::
  "shape_heap \<Rightarrow> shape_addr \<Rightarrow> transition_key \<Rightarrow> (shape_addr \<times> shape_heap) panics" where
  "shared_new_property h self key =
     do {
       s \<leftarrow> sh_shared h self;
       (property_table, h) \<leftarrow> add_property_deep_clone_if_needed h (ss_table s)
         (tk_property_key key) (tk_attributes key) (ss_property_count s);
       let (new_shape, h) = alloc_shared
         \<lparr>ss_forward = ft_default, ss_property_count = ss_property_count s + 1,
          ss_prototype = ss_prototype s, ss_table = property_table, ss_previous = Some self,
          ss_transition_count = ss_transition_count s + 1,
          ss_flags = insert_property_transition_from (ss_flags s)\<rparr> h;
       Some (new_shape, update_forward self (ft_insert_property (is_upgradable h) key new_shape) h)
     }"

definition shared_insert_property_transition ::
  "shape_heap \<Rightarrow> shape_addr \<Rightarrow> transition_key \<Rightarrow> (shape_addr \<times> shape_heap) panics" where
  "shared_insert_property_transition h self key =
     do {
       s \<leftarrow> sh_shared h self;
       case ft_get_property (ss_forward s) key of
         Some shape \<Rightarrow>
           (case weak_upgrade h shape of
              Some inner \<Rightarrow> Some (inner, h)
            | None \<Rightarrow> shared_new_property
                (update_forward self (ft_prune_property_transitions (is_upgradable h)) h) self key)
       | None \<Rightarrow> shared_new_property h self key
     }"

text \<open>
  \<open>rollback_before\<close>. The loop follows the chain of previous shapes; \<open>fuel\<close> bounds it and
  running out is \<open>None\<close>, as is \<open>unreachable!\<close> at the end of the chain. The address of a shape
  is fuel enough, since each shape is older than the shapes made from it.
\<close>

fun rollback_loop ::
  "'m index_map_ops \<Rightarrow> shape_heap \<Rightarrow> property_key \<Rightarrow> nat \<Rightarrow> shape_addr option \<Rightarrow>
     js_prototype option \<Rightarrow> 'm \<Rightarrow> (shape_addr \<times> js_prototype option \<times> 'm) panics" where
  "rollback_loop im h key 0 current prototype transitions = None"
| "rollback_loop im h key (Suc fuel) current prototype transitions =
     (case current of
        None \<Rightarrow> None
      | Some current_shape \<Rightarrow>
          do {
            s \<leftarrow> sh_shared h current_shape;
            if is_prototype_transition_type (ss_flags s) then
              rollback_loop im h key fuel (ss_previous s)
                (if prototype = None then Some (ss_prototype s) else prototype) transitions
            else do {
              (current_property_key, slot) \<leftarrow> shared_property h current_shape;
              if is_insert_transition_type (ss_flags s) \<and> current_property_key = key then
                Some (case ss_previous s of Some base \<Rightarrow> base | None \<Rightarrow> current_shape,
                  prototype, transitions)
              else
                rollback_loop im h key fuel (ss_previous s) prototype
                  (if current_property_key \<noteq> key
                   then im_entry_or_insert im transitions current_property_key (sl_attributes slot)
                   else transitions)
            }
          })"

definition rollback_before ::
  "'m index_map_ops \<Rightarrow> shape_heap \<Rightarrow> shape_addr \<Rightarrow> property_key \<Rightarrow>
     (shape_addr \<times> js_prototype option \<times> 'm) panics" where
  "rollback_before im h self key = rollback_loop im h key (Suc self) (Some self) None (im_default im)"

text \<open>The loop that replays transitions on a base shape.\<close>

fun replay_transitions ::
  "shape_heap \<Rightarrow> shape_addr \<Rightarrow> entries \<Rightarrow> (shape_addr \<times> shape_heap) panics" where
  "replay_transitions h base [] = Some (base, h)"
| "replay_transitions h base ((property_key, attributes) # rest) =
     do {
       (base, h) \<leftarrow> shared_insert_property_transition h base
         \<lparr>tk_property_key = property_key, tk_attributes = attributes\<rparr>;
       replay_transitions h base rest
     }"

definition shared_remove_property_transition ::
  "'m index_map_ops \<Rightarrow> shape_heap \<Rightarrow> shape_addr \<Rightarrow> property_key \<Rightarrow> (shape_addr \<times> shape_heap) panics" where
  "shared_remove_property_transition im h self key =
     do {
       (base, prototype, transitions) \<leftarrow> rollback_before im h self key;
       (base, h) \<leftarrow> (case prototype of
          Some p \<Rightarrow> shared_change_prototype_transition h base p | None \<Rightarrow> Some (base, h));
       replay_transitions h base (rev (im_iter im transitions))
     }"

datatype change_transition_action = Nothing | Remove | Insert

definition change_action :: "slot \<Rightarrow> slot_attributes \<Rightarrow> change_transition_action" where
  "change_action slot attributes =
     (if width_match (sl_attributes slot) attributes then Nothing
      else if is_accessor_attributes (sl_attributes slot) then Remove else Insert)"

definition shared_configure ::
  "shape_heap \<Rightarrow> shape_addr \<Rightarrow> transition_key \<Rightarrow> (shape_addr \<times> shape_heap) panics" where
  "shared_configure h self key =
     do {
       s \<leftarrow> sh_shared h self;
       inner \<leftarrow> sh_tables h (ss_table s);
       property_table \<leftarrow> set_attributes_at_index inner (tk_property_key key) (tk_attributes key);
       let (t, h) = alloc_table property_table h;
       let (shape, h) = alloc_shared
         \<lparr>ss_forward = ft_default, ss_property_count = ss_property_count s,
          ss_prototype = ss_prototype s, ss_table = t, ss_previous = Some self,
          ss_transition_count = ss_transition_count s + 1,
          ss_flags = configure_property_transition_from (ss_flags s)\<rparr> h;
       Some (shape, update_forward self (ft_insert_property (is_upgradable h) key shape) h)
     }"

definition shared_reinsert ::
  "'m index_map_ops \<Rightarrow> shape_heap \<Rightarrow> shape_addr \<Rightarrow> transition_key \<Rightarrow> (shape_addr \<times> shape_heap) panics" where
  "shared_reinsert im h self key =
     do {
       (base, prototype, transitions) \<leftarrow> rollback_before im h self (tk_property_key key);
       (base, h) \<leftarrow> (case prototype of
          Some p \<Rightarrow> shared_change_prototype_transition h base p | None \<Rightarrow> Some (base, h));
       (base, h) \<leftarrow> shared_insert_property_transition h base key;
       replay_transitions h base (rev (im_iter im transitions))
     }"

definition shared_change_attributes_miss ::
  "'m index_map_ops \<Rightarrow> shape_heap \<Rightarrow> shape_addr \<Rightarrow> transition_key \<Rightarrow> slot \<Rightarrow>
     (shape_addr \<times> shape_heap) panics" where
  "shared_change_attributes_miss im h self key slot =
     (if width_match (sl_attributes slot) (tk_attributes key) then shared_configure h self key
      else shared_reinsert im h self key)"

definition shared_change_attributes_transition ::
  "'m index_map_ops \<Rightarrow> shape_heap \<Rightarrow> shape_addr \<Rightarrow> transition_key \<Rightarrow>
     (shape_addr \<times> change_transition_action \<times> shape_heap) panics" where
  "shared_change_attributes_transition im h self key =
     do {
       s \<leftarrow> sh_shared h self;
       t \<leftarrow> sh_tables h (ss_table s);
       slot \<leftarrow> ptable_get_expect t (tk_property_key key);
       (shape, h) \<leftarrow>
         (case ft_get_property (ss_forward s) key of
            Some shape \<Rightarrow>
              (case weak_upgrade h shape of
                 Some inner \<Rightarrow> Some (inner, h)
               | None \<Rightarrow> shared_change_attributes_miss im
                   (update_forward self (ft_prune_property_transitions (is_upgradable h)) h) self key slot)
          | None \<Rightarrow> shared_change_attributes_miss im h self key slot);
       Some (shape, change_action slot (tk_attributes key), h)
     }"

definition shared_lookup :: "shape_heap \<Rightarrow> shape_addr \<Rightarrow> property_key \<Rightarrow> slot option panics" where
  "shared_lookup h self key =
     do {
       s \<leftarrow> sh_shared h self;
       if ss_property_count s = 0 then Some None
       else do {
         t \<leftarrow> sh_tables h (ss_table s);
         Some (case pt_map t key of
            Some (property_table_index, slot) \<Rightarrow>
              if property_table_index < ss_property_count s then Some slot else None
          | None \<Rightarrow> None)
       }
     }"

definition shared_keys :: "shape_heap \<Rightarrow> shape_addr \<Rightarrow> property_key list panics" where
  "shared_keys h self =
     do {
       s \<leftarrow> sh_shared h self;
       t \<leftarrow> sh_tables h (ss_table s);
       Some (keys_cloned_n t (ss_property_count s))
     }"

definition shared_to_unique :: "shape_heap \<Rightarrow> shape_addr \<Rightarrow> (shape_addr \<times> shape_heap) panics" where
  "shared_to_unique h self =
     do {
       s \<leftarrow> sh_shared h self;
       t \<leftarrow> sh_tables h (ss_table s);
       Some (alloc_unique \<lparr>us_table = clone_count t (ss_property_count s), us_prototype = ss_prototype s\<rparr> h)
     }"

end
