(* ===== verification/ShapeInvariant.thy ===== *)
theory ShapeInvariant
  imports SharedShape
begin

text \<open>
  The invariant of the store of shapes. What a shared shape means is its list of entries (the
  prefix of its table it owns) and its prototype; both are fixed when the shape is made, however
  its table is extended through other shapes later. The invariant relates each shape to the one
  it was made from and each cached transition to its target, in terms of these views.
\<close>

section \<open>Views\<close>

definition shared_entries :: "shape_heap \<Rightarrow> shape_addr \<Rightarrow> entries" where
  "shared_entries h a =
     (case sh_shared h a of
        None \<Rightarrow> []
      | Some s \<Rightarrow>
          (case sh_tables h (ss_table s) of
             None \<Rightarrow> []
           | Some t \<Rightarrow> take (ss_property_count s) (table_entries t)))"

definition shared_proto :: "shape_heap \<Rightarrow> shape_addr \<Rightarrow> js_prototype" where
  "shared_proto h a = (case sh_shared h a of None \<Rightarrow> None | Some s \<Rightarrow> ss_prototype s)"

text \<open>What a property transition does to the entries.\<close>

definition put_entry :: "entries \<Rightarrow> property_key \<Rightarrow> slot_attributes \<Rightarrow> entries" where
  "put_entry es k a = (case position k es of None \<Rightarrow> es @ [(k, a)] | Some i \<Rightarrow> es[i := (k, a)])"

text \<open>A shape without its caches, which are the only mutable part of it.\<close>

definition ss_static :: "shared_shape \<Rightarrow> shared_shape" where
  "ss_static s = s\<lparr>ss_forward := ft_default\<rparr>"

lemma ss_static_simps [simp]:
  "ss_static (s\<lparr>ss_forward := f\<rparr>) = ss_static s"
  by (simp add: ss_static_def)

lemma ss_static_eqD:
  assumes "ss_static s' = ss_static s"
  shows "ss_property_count s' = ss_property_count s" "ss_prototype s' = ss_prototype s"
    "ss_table s' = ss_table s" "ss_previous s' = ss_previous s"
    "ss_transition_count s' = ss_transition_count s" "ss_flags s' = ss_flags s"
  using assms by (cases s; cases s'; simp add: ss_static_def)+

section \<open>The invariant\<close>

definition chain_ok :: "shape_heap \<Rightarrow> shape_addr \<Rightarrow> shared_shape \<Rightarrow> bool" where
  "chain_ok h a s \<longleftrightarrow>
     (case ss_previous s of
        None \<Rightarrow> shared_entries h a = [] \<and> is_insert_transition_type (ss_flags s)
      | Some p \<Rightarrow>
          p < a \<and> sh_shared h p \<noteq> None \<and>
          (if is_prototype_transition_type (ss_flags s) then
             shared_entries h a = shared_entries h p
           else if is_insert_transition_type (ss_flags s) then
             (\<exists>k at. k \<notin> fst ` set (shared_entries h p) \<and>
                shared_entries h a = shared_entries h p @ [(k, at)]) \<and>
             shared_proto h a = shared_proto h p
           else
             (\<exists>i at. i < length (shared_entries h p) \<and> width_match (snd (shared_entries h p ! i)) at \<and>
                shared_entries h a = (shared_entries h p)[i := (fst (shared_entries h p ! i), at)]) \<and>
             shared_proto h a = shared_proto h p))"

definition cache_ok :: "shape_heap \<Rightarrow> shape_addr \<Rightarrow> forward_transition \<Rightarrow> bool" where
  "cache_ok h a f \<longleftrightarrow>
     (\<forall>k b. ft_get_property f k = Some b \<longrightarrow>
        sh_shared h b \<noteq> None \<and> shared_proto h b = shared_proto h a \<and>
        shared_entries h b = put_entry (shared_entries h a) (tk_property_key k) (tk_attributes k)) \<and>
     (\<forall>p b. ft_get_prototype f p = Some b \<longrightarrow>
        sh_shared h b \<noteq> None \<and> shared_proto h b = p \<and> shared_entries h b = shared_entries h a)"

definition table_counted :: "shape_heap \<Rightarrow> shared_shape \<Rightarrow> bool" where
  "table_counted h s \<longleftrightarrow>
     (\<exists>t. sh_tables h (ss_table s) = Some t \<and> ss_property_count s \<le> length (pt_keys t))"

definition shapes_wf :: "shape_heap \<Rightarrow> bool" where
  "shapes_wf h \<longleftrightarrow>
     (\<forall>t T. sh_tables h t = Some T \<longrightarrow> t < sh_next h \<and> ptable_wf T) \<and>
     (\<forall>u U. sh_unique h u = Some U \<longrightarrow> u < sh_next h \<and> ptable_wf (us_table U)) \<and>
     (\<forall>a s. sh_shared h a = Some s \<longrightarrow>
        a < sh_next h \<and> table_counted h s \<and> chain_ok h a s \<and> cache_ok h a (ss_forward s))"

text \<open>
  \<open>shapes_ext h h'\<close>: nothing that exists in \<open>h\<close> is observably different in \<open>h'\<close>: every shared
  shape has the same entries, prototype and place in its chain, every unique shape is as it was.
\<close>

definition shapes_ext :: "shape_heap \<Rightarrow> shape_heap \<Rightarrow> bool" where
  "shapes_ext h h' \<longleftrightarrow>
     sh_next h \<le> sh_next h' \<and>
     (\<forall>a s. sh_shared h a = Some s \<longrightarrow>
        (\<exists>s'. sh_shared h' a = Some s' \<and> ss_static s' = ss_static s) \<and>
        shared_entries h' a = shared_entries h a) \<and>
     (\<forall>u U. sh_unique h u = Some U \<longrightarrow> sh_unique h' u = Some U)"

lemma shapes_ext_refl [simp, intro]: "shapes_ext h h"
  by (simp add: shapes_ext_def)

lemma shapes_ext_trans [trans]: "shapes_ext h h' \<Longrightarrow> shapes_ext h' h'' \<Longrightarrow> shapes_ext h h''"
  unfolding shapes_ext_def by (metis (no_types, lifting) le_trans)

lemma shapes_extD:
  assumes "shapes_ext h h'" "sh_shared h a = Some s"
  obtains s' where "sh_shared h' a = Some s'" "ss_static s' = ss_static s"
    "shared_entries h' a = shared_entries h a" "shared_proto h' a = shared_proto h a"
  using assms ss_static_eqD(2) unfolding shapes_ext_def shared_proto_def
  by (metis (no_types, lifting) option.case(2))

lemma shapes_ext_views:
  assumes "shapes_ext h h'" "sh_shared h a \<noteq> None"
  shows "sh_shared h' a \<noteq> None" "shared_entries h' a = shared_entries h a"
    "shared_proto h' a = shared_proto h a"
  using assms by (auto elim!: shapes_extD)

lemma chain_ok_ext:
  assumes e: "shapes_ext h h'" and s: "sh_shared h a = Some s" "chain_ok h a s"
    and st: "ss_static s' = ss_static s"
  shows "chain_ok h' a s'"
proof -
  note st = ss_static_eqD [OF st]
  have a: "shared_entries h' a = shared_entries h a" "shared_proto h' a = shared_proto h a"
    using shapes_ext_views [OF e] s(1) by auto
  show ?thesis
  proof (cases "ss_previous s")
    case None
    with s(2) show ?thesis by (simp add: chain_ok_def st a)
  next
    case (Some p)
    with s(2) have p: "sh_shared h p \<noteq> None" by (simp add: chain_ok_def)
    show ?thesis
      using s(2) unfolding chain_ok_def st a Some option.case shapes_ext_views(2,3) [OF e p]
      using shapes_ext_views(1) [OF e p] by blast
  qed
qed

lemma cache_ok_ext:
  assumes e: "shapes_ext h h'" and a: "sh_shared h a \<noteq> None" and c: "cache_ok h a f"
  shows "cache_ok h' a f"
proof -
  note v = shapes_ext_views [OF e]
  show ?thesis
    unfolding cache_ok_def v(2,3) [OF a]
  proof (intro conjI allI impI)
    fix k b assume "ft_get_property f k = Some b"
    with c have b: "sh_shared h b \<noteq> None" "shared_proto h b = shared_proto h a"
      "shared_entries h b = put_entry (shared_entries h a) (tk_property_key k) (tk_attributes k)"
      by (simp_all add: cache_ok_def)
    from b(2,3) v [OF b(1)] show "sh_shared h' b \<noteq> None" "shared_proto h' b = shared_proto h a"
      "shared_entries h' b = put_entry (shared_entries h a) (tk_property_key k) (tk_attributes k)"
      by simp_all
  next
    fix p b assume "ft_get_prototype f p = Some b"
    with c have b: "sh_shared h b \<noteq> None" "shared_proto h b = p"
      "shared_entries h b = shared_entries h a"
      by (simp_all add: cache_ok_def)
    from b(2,3) v [OF b(1)] show "sh_shared h' b \<noteq> None" "shared_proto h' b = p"
      "shared_entries h' b = shared_entries h a"
      by simp_all
  qed
qed

section \<open>Updates that keep the invariant\<close>

lemma update_forward_entries [simp]:
  "shared_entries (update_forward a f h) b = shared_entries h b"
  "shared_proto (update_forward a f h) b = shared_proto h b"
  by (auto simp: shared_entries_def shared_proto_def update_forward_def split: option.split)

lemma update_forward_fields [simp]:
  "sh_tables (update_forward a f h) = sh_tables h" "sh_unique (update_forward a f h) = sh_unique h"
  "sh_next (update_forward a f h) = sh_next h" "sh_collected (update_forward a f h) = sh_collected h"
  by (simp_all add: update_forward_def)

lemma update_forward_shared:
  "sh_shared (update_forward a f h) b =
     (if b = a then map_option (\<lambda>s. s\<lparr>ss_forward := f (ss_forward s)\<rparr>) (sh_shared h a) else sh_shared h b)"
  by (simp add: update_forward_def)

lemma update_forward_ext [simp]: "shapes_ext h (update_forward a f h)"
  by (auto simp: shapes_ext_def update_forward_shared)

lemma update_forward_wf:
  assumes wf: "shapes_wf h" and s: "sh_shared h a = Some s"
    and c: "cache_ok h a (f (ss_forward s))"
  shows "shapes_wf (update_forward a f h)"
proof -
  let ?h = "update_forward a f h"
  have c': "cache_ok ?h a (f (ss_forward s))"
    by (rule cache_ok_ext [OF update_forward_ext _ c]) (simp add: s)
  { fix b s' assume b: "sh_shared ?h b = Some s'"
    then obtain s0 where s0: "sh_shared h b = Some s0" and st: "ss_static s' = ss_static s0"
      and fw: "ss_forward s' = (if b = a then f (ss_forward s) else ss_forward s0)"
      using s by (auto simp: update_forward_shared split: if_splits)
    have wf0: "b < sh_next h" "table_counted h s0" "chain_ok h b s0" "cache_ok h b (ss_forward s0)"
      using wf s0 by (auto simp: shapes_wf_def)
    have "chain_ok ?h b s'" by (rule chain_ok_ext [OF update_forward_ext s0 wf0(3) st])
    moreover have "cache_ok ?h b (ss_forward s')"
      using c' cache_ok_ext [OF update_forward_ext _ wf0(4)] s0 by (simp add: fw)
    moreover have "table_counted ?h s'"
      using wf0(2) by (simp add: table_counted_def ss_static_eqD [OF st])
    ultimately have "b < sh_next ?h \<and> table_counted ?h s' \<and> chain_ok ?h b s' \<and> cache_ok ?h b (ss_forward s')"
      using wf0(1) by simp
  }
  then show ?thesis using wf by (simp add: shapes_wf_def)
qed

text \<open>A prune only forgets cached transitions.\<close>

lemma cache_ok_prune:
  assumes "cache_ok h a f"
  shows "cache_ok h a (ft_prune_property_transitions up f)"
    and "cache_ok h a (ft_prune_prototype_transitions up f)"
  using assms by (auto simp: cache_ok_def ft_defs dest!: tm_get_prune)

lemma cache_ok_insert_property:
  assumes "cache_ok h a f" and "sh_shared h b \<noteq> None" "shared_proto h b = shared_proto h a"
    "shared_entries h b = put_entry (shared_entries h a) (tk_property_key k) (tk_attributes k)"
  shows "cache_ok h a (ft_insert_property up k b f)"
  using assms by (auto simp: cache_ok_def ft_defs dest!: tm_get_insert)

lemma cache_ok_insert_prototype:
  assumes "cache_ok h a f" and "sh_shared h b \<noteq> None" "shared_proto h b = p"
    "shared_entries h b = shared_entries h a"
  shows "cache_ok h a (ft_insert_prototype up p b f)"
  using assms by (auto simp: cache_ok_def ft_defs dest!: tm_get_insert)

lemma cache_ok_default [simp]: "cache_ok h a ft_default"
  by (simp add: cache_ok_def ft_defs ft_default_def tm_get_def)

text \<open>A store that extends another and adds at most one shared shape, itself in order.\<close>

lemma shapes_wf_ext:
  assumes wf: "shapes_wf h" and ext: "shapes_ext h h'"
    and tables: "\<And>t T. sh_tables h' t = Some T \<Longrightarrow> t < sh_next h' \<and> ptable_wf T"
    and unique: "\<And>u U. sh_unique h' u = Some U \<Longrightarrow> u < sh_next h' \<and> ptable_wf (us_table U)"
    and old: "\<And>a s. sh_shared h a = Some s \<Longrightarrow> sh_shared h' a = Some s \<and> table_counted h' s"
    and new: "\<And>a s. sh_shared h' a = Some s \<Longrightarrow> sh_shared h a = None \<Longrightarrow>
        a < sh_next h' \<and> table_counted h' s \<and> chain_ok h' a s \<and> cache_ok h' a (ss_forward s)"
  shows "shapes_wf h'"
proof -
  { fix a s assume a: "sh_shared h' a = Some s"
    have "a < sh_next h' \<and> table_counted h' s \<and> chain_ok h' a s \<and> cache_ok h' a (ss_forward s)"
    proof (cases "sh_shared h a")
      case None
      with new a show ?thesis by blast
    next
      case (Some s0)
      with old [OF Some] a have s: "s0 = s" "table_counted h' s" by auto
      have w: "a < sh_next h" "chain_ok h a s" "cache_ok h a (ss_forward s)"
        using wf Some s(1) by (auto simp: shapes_wf_def)
      have "sh_next h \<le> sh_next h'" using ext by (simp add: shapes_ext_def)
      then show ?thesis
        using w s chain_ok_ext [OF ext _ w(2)] cache_ok_ext [OF ext _ w(3)] Some by auto
    qed
  }
  then show ?thesis using tables unique unfolding shapes_wf_def by blast
qed

lemma shapes_wfD:
  assumes "shapes_wf h"
  shows "sh_tables h t = Some T \<Longrightarrow> t < sh_next h \<and> ptable_wf T"
    and "sh_unique h u = Some U \<Longrightarrow> u < sh_next h \<and> ptable_wf (us_table U)"
    and "sh_shared h a = Some s \<Longrightarrow> a < sh_next h"
    and "sh_shared h a = Some s \<Longrightarrow> table_counted h s"
    and "sh_shared h a = Some s \<Longrightarrow> chain_ok h a s"
    and "sh_shared h a = Some s \<Longrightarrow> cache_ok h a (ss_forward s)"
  using assms by (auto simp: shapes_wf_def)

lemma fresh_addr:
  assumes "shapes_wf h"
  shows "sh_tables h (sh_next h) = None" "sh_unique h (sh_next h) = None" "sh_shared h (sh_next h) = None"
  using assms unfolding shapes_wf_def
  by (metis less_irrefl option.exhaust)+

lemma table_entries_length [simp]: "length (table_entries t) = length (pt_keys t)"
  by (simp add: table_entries_def)

text \<open>Appending to a table leaves every shape's entries alone: each owns a prefix.\<close>

lemma update_table_ext:
  assumes wf: "shapes_wf h" and t: "sh_tables h t = Some T"
    and T': "table_entries T' = table_entries T @ fs"
  shows "shapes_ext h (update_table t T' h)"
proof -
  have "shared_entries (update_table t T' h) a = shared_entries h a" if s: "sh_shared h a = Some s" for a s
  proof -
    obtain T0 where T0: "sh_tables h (ss_table s) = Some T0" "ss_property_count s \<le> length (pt_keys T0)"
      using shapes_wfD(4) [OF wf s] by (auto simp: table_counted_def)
    show ?thesis
      using T0 t T' s by (cases "ss_table s = t") (auto simp: shared_entries_def update_table_def)
  qed
  then show ?thesis by (simp add: shapes_ext_def update_table_def)
qed

lemma update_table_wf:
  assumes wf: "shapes_wf h" and t: "sh_tables h t = Some T"
    and T': "table_entries T' = table_entries T @ fs" "ptable_wf T'"
  shows "shapes_wf (update_table t T' h)"
proof (rule shapes_wf_ext [OF wf update_table_ext [OF wf t T'(1)]])
  fix a s assume s: "sh_shared h a = Some s"
  have "length (pt_keys T') = length (pt_keys T) + length fs"
    using arg_cong [OF T'(1), of length] by simp
  then show "sh_shared (update_table t T' h) a = Some s \<and> table_counted (update_table t T' h) s"
    using shapes_wfD(4) [OF wf s] t s by (auto simp: table_counted_def update_table_def)
qed (use shapes_wfD(1,2) [OF wf] t T'(2) in \<open>auto simp: update_table_def split: if_splits\<close>)

lemma alloc_table_ext:
  assumes wf: "shapes_wf h" and a: "alloc_table T h = (t, h')"
  shows "shapes_ext h h'"
proof -
  have t: "t = sh_next h" and h': "sh_tables h' = (sh_tables h)(t \<mapsto> T)" "sh_shared h' = sh_shared h"
    "sh_unique h' = sh_unique h" "sh_next h' = Suc (sh_next h)"
    using a by (auto simp: alloc_table_def)
  have "shared_entries h' a = shared_entries h a" if s: "sh_shared h a = Some s" for a s
    using shapes_wfD(4) [OF wf s] fresh_addr(1) [OF wf] s
    by (auto simp: shared_entries_def h' t table_counted_def)
  then show ?thesis by (simp add: shapes_ext_def h')
qed

lemma alloc_table_wf:
  assumes wf: "shapes_wf h" and a: "alloc_table T h = (t, h')" and T: "ptable_wf T"
  shows "shapes_wf h'"
proof (rule shapes_wf_ext [OF wf alloc_table_ext [OF wf a]])
  fix a s assume s: "sh_shared h a = Some s"
  show "sh_shared h' a = Some s \<and> table_counted h' s"
    using shapes_wfD(4) [OF wf s] fresh_addr(1) [OF wf] s a
    by (auto simp: table_counted_def alloc_table_def)
next
  fix u U assume "sh_unique h' u = Some U"
  then show "u < sh_next h' \<and> ptable_wf (us_table U)"
    using shapes_wfD(2) [OF wf] a by (auto simp: alloc_table_def less_Suc_eq)
qed (use shapes_wfD(1) [OF wf] a T in
      \<open>auto simp: alloc_table_def less_Suc_eq split: if_splits\<close>)

lemma alloc_shared_fields:
  assumes "alloc_shared s h = (a, h')"
  shows "a = sh_next h" "sh_shared h' = (sh_shared h)(sh_next h \<mapsto> s)" "sh_tables h' = sh_tables h"
    "sh_unique h' = sh_unique h" "sh_next h' = Suc (sh_next h)"
  using assms by (auto simp: alloc_shared_def gc_collect_def)

lemma alloc_shared_ext:
  assumes wf: "shapes_wf h" and a: "alloc_shared s h = (a, h')"
  shows "shapes_ext h h'"
  using fresh_addr(3) [OF wf]
  by (auto simp: shapes_ext_def alloc_shared_fields [OF a] shared_entries_def)

lemma alloc_shared_views:
  assumes a: "alloc_shared s h = (a, h')" and t: "sh_tables h (ss_table s) = Some T"
  shows "sh_shared h' a = Some s" "shared_proto h' a = ss_prototype s"
    "shared_entries h' a = take (ss_property_count s) (table_entries T)"
  using t by (auto simp: alloc_shared_fields [OF a] shared_entries_def shared_proto_def)

lemma alloc_shared_wf:
  assumes wf: "shapes_wf h" and a: "alloc_shared s h = (a, h')"
    and t: "table_counted h s" and f: "ss_forward s = ft_default" and c: "chain_ok h' a s"
  shows "shapes_wf h'"
proof (rule shapes_wf_ext [OF wf alloc_shared_ext [OF wf a]])
  fix b s' assume "sh_shared h' b = Some s'" "sh_shared h b = None"
  then have "b = sh_next h" "s' = s" by (auto simp: alloc_shared_fields [OF a] split: if_splits)
  then show "b < sh_next h' \<and> table_counted h' s' \<and> chain_ok h' b s' \<and> cache_ok h' b (ss_forward s')"
    using t c f by (simp add: alloc_shared_fields [OF a] table_counted_def)
next
  fix b s' assume s: "sh_shared h b = Some s'"
  show "sh_shared h' b = Some s' \<and> table_counted h' s'"
    using shapes_wfD(3,4) [OF wf s] s by (auto simp: alloc_shared_fields [OF a] table_counted_def)
qed (use shapes_wfD(1,2) [OF wf] in
      \<open>auto simp: alloc_shared_fields [OF a] less_Suc_eq\<close>)

lemma alloc_unique_fields:
  assumes "alloc_unique U h = (a, h')"
  shows "a = sh_next h" "sh_unique h' = (sh_unique h)(sh_next h \<mapsto> U)" "sh_tables h' = sh_tables h"
    "sh_shared h' = sh_shared h" "sh_next h' = Suc (sh_next h)"
  using assms by (auto simp: alloc_unique_def gc_collect_def)

lemma alloc_unique_ext:
  assumes wf: "shapes_wf h" and a: "alloc_unique U h = (a, h')"
  shows "shapes_ext h h'"
  using fresh_addr(2) [OF wf]
  by (auto simp: shapes_ext_def alloc_unique_fields [OF a] shared_entries_def)

lemma alloc_unique_wf:
  assumes wf: "shapes_wf h" and a: "alloc_unique U h = (a, h')" and U: "ptable_wf (us_table U)"
  shows "shapes_wf h'"
proof (rule shapes_wf_ext [OF wf alloc_unique_ext [OF wf a]])
  fix b s assume s: "sh_shared h b = Some s"
  show "sh_shared h' b = Some s \<and> table_counted h' s"
    using shapes_wfD(4) [OF wf s] s by (auto simp: alloc_unique_fields [OF a] table_counted_def)
qed (use shapes_wfD(1,2) [OF wf] U in
      \<open>auto simp: alloc_unique_fields [OF a] less_Suc_eq split: if_splits\<close>)

text \<open>A unique shape is changed in place: the shared shapes and the other unique ones are not.\<close>

lemma update_unique_wf:
  assumes wf: "shapes_wf h" and u: "sh_unique h u \<noteq> None" and U: "ptable_wf (us_table U)"
  shows "shapes_wf (update_unique u U h)"
proof -
  have sh: "shared_entries (update_unique u U h) a = shared_entries h a"
    "shared_proto (update_unique u U h) a = shared_proto h a" for a
    by (auto simp: shared_entries_def shared_proto_def update_unique_def split: option.split)
  have f: "sh_shared (update_unique u U h) = sh_shared h" "sh_tables (update_unique u U h) = sh_tables h"
    by (simp_all add: update_unique_def)
  have c: "chain_ok (update_unique u U h) a s = chain_ok h a s"
    "cache_ok (update_unique u U h) a f = cache_ok h a f"
    "table_counted (update_unique u U h) s = table_counted h s" for a s f
    unfolding chain_ok_def cache_ok_def sh table_counted_def f by (rule refl)+
  show ?thesis
    using wf u U unfolding shapes_wf_def c
    by (auto simp: update_unique_def split: if_splits)
qed

lemma shapes_wf_empty: "shapes_wf (sh_empty collector)"
  by (simp add: shapes_wf_def sh_empty_def)

end
