(* ===== verification/SharedShapeFacts.thy ===== *)
theory SharedShapeFacts
  imports ShapeInvariant
begin

text \<open>
  Correctness of the transitions of shared shapes against their views: each transition returns
  (it does not reach \<open>unreachable!\<close> or run out of fuel), keeps the invariant, leaves every
  existing shape as it was, and gives a shape with the specified entries and prototype.
\<close>

section \<open>Results of a transition\<close>

definition shared_step ::
  "shape_heap \<Rightarrow> shape_heap \<Rightarrow> shape_addr \<Rightarrow> entries \<Rightarrow> js_prototype \<Rightarrow> bool" where
  "shared_step h h' b es p \<longleftrightarrow>
     shapes_wf h' \<and> shapes_ext h h' \<and> sh_shared h' b \<noteq> None \<and>
     shared_entries h' b = es \<and> shared_proto h' b = p"

lemma shared_stepD:
  assumes "shared_step h h' b es p"
  shows "shapes_wf h'" "shapes_ext h h'" "sh_shared h' b \<noteq> None" "shared_entries h' b = es"
    "shared_proto h' b = p"
  using assms by (auto simp: shared_step_def)

lemma shared_step_trans:
  "shapes_ext h h' \<Longrightarrow> shared_step h' h'' b es p \<Longrightarrow> shared_step h h'' b es p"
  by (auto simp: shared_step_def intro: shapes_ext_trans)

lemma flags_types:
  "is_insert_transition_type (insert_property_transition_from f)"
  "\<not> is_prototype_transition_type (insert_property_transition_from f)"
  "\<not> is_insert_transition_type (configure_property_transition_from f)"
  "\<not> is_prototype_transition_type (configure_property_transition_from f)"
  "\<not> is_insert_transition_type (prototype_transition_from f)"
  "is_prototype_transition_type (prototype_transition_from f)"
proof -
  have a: "(f AND NOT x OR y) AND x = y AND x" for x y :: u8
    by (rule bit_word_eqI) (auto simp: bit_simps)
  show "is_insert_transition_type (insert_property_transition_from f)"
    "\<not> is_prototype_transition_type (insert_property_transition_from f)"
    "\<not> is_insert_transition_type (configure_property_transition_from f)"
    "\<not> is_prototype_transition_type (configure_property_transition_from f)"
    "\<not> is_insert_transition_type (prototype_transition_from f)"
    "is_prototype_transition_type (prototype_transition_from f)"
    unfolding is_insert_transition_type_def is_prototype_transition_type_def
      insert_property_transition_from_def configure_property_transition_from_def
      prototype_transition_from_def a
    by (simp_all add: mask_simps)
qed

lemma types_exclusive: "is_prototype_transition_type f \<Longrightarrow> \<not> is_insert_transition_type f"
  by (simp add: is_insert_transition_type_def is_prototype_transition_type_def mask_simps)

text \<open>The table of a shape, its entries a prefix of it.\<close>

lemma shared_tableE:
  assumes wf: "shapes_wf h" and s: "sh_shared h a = Some s"
  obtains es n where "sh_tables h (ss_table s) = Some (table_of es)" "distinct_keys es"
    "ss_property_count s = n" "n \<le> length es" "shared_entries h a = take n es"
proof -
  obtain T where T: "sh_tables h (ss_table s) = Some T" "ss_property_count s \<le> length (pt_keys T)"
    using shapes_wfD(4) [OF wf s] by (auto simp: table_counted_def)
  from shapes_wfD(1) [OF wf T(1)] obtain es where "T = table_of es" "distinct_keys es"
    by (auto elim: ptable_wfE)
  with that T s show thesis by (simp add: shared_entries_def)
qed

lemma distinct_keys_take: "distinct_keys es \<Longrightarrow> distinct_keys (take n es)"
  by (simp add: distinct_keys_def take_map [symmetric])

lemma shared_entries_distinct:
  assumes "shapes_wf h" "sh_shared h a \<noteq> None" shows "distinct_keys (shared_entries h a)"
  using assms by (auto elim!: shared_tableE [OF assms(1)] simp: distinct_keys_take)

lemma shared_entries_length:
  assumes "shapes_wf h" "sh_shared h a = Some s"
  shows "length (shared_entries h a) = ss_property_count s"
  using assms by (auto elim!: shared_tableE)

lemma put_entry_new: "k \<notin> fst ` set es \<Longrightarrow> put_entry es k a = es @ [(k, a)]"
  by (simp add: put_entry_def position_None [THEN iffD2])

lemma put_entry_old: "position k es = Some i \<Longrightarrow> put_entry es k a = es[i := (k, a)]"
  by (simp add: put_entry_def)

section \<open>Lookup, keys and conversion\<close>

lemma shared_lookup_spec:
  assumes wf: "shapes_wf h" and s: "sh_shared h a \<noteq> None"
  shows "shared_lookup h a k = Some (lookup_spec (shared_entries h a) k)"
proof -
  obtain s where s: "sh_shared h a = Some s" using assms(2) by auto
  from shared_tableE [OF wf s] obtain es where
    es: "sh_tables h (ss_table s) = Some (table_of es)" "shared_entries h a = take (ss_property_count s) es"
    by metis
  show ?thesis
    by (auto simp: shared_lookup_def s es lookup_spec_take lookup_spec_None [THEN iffD2]
        split: option.split)
qed

lemma shared_keys_spec:
  assumes wf: "shapes_wf h" and s: "sh_shared h a \<noteq> None"
  shows "shared_keys h a =
    Some (filter is_string_key (map fst (shared_entries h a)) @
          filter is_symbol_key (map fst (shared_entries h a)))"
proof -
  obtain s where s: "sh_shared h a = Some s" using assms(2) by auto
  from shared_tableE [OF wf s] obtain es where
    es: "sh_tables h (ss_table s) = Some (table_of es)" "shared_entries h a = take (ss_property_count s) es"
    by metis
  show ?thesis by (simp add: shared_keys_def s es keys_cloned_n_table)
qed

lemma shared_to_unique_spec:
  assumes wf: "shapes_wf h" and s: "sh_shared h a \<noteq> None"
  obtains u h' where "shared_to_unique h a = Some (u, h')" "shapes_wf h'" "shapes_ext h h'"
    "sh_unique h' u = Some \<lparr>us_table = table_of (shared_entries h a), us_prototype = shared_proto h a\<rparr>"
    "u = sh_next h"
proof -
  obtain s where s: "sh_shared h a = Some s" using assms(2) by auto
  from shared_tableE [OF wf s] obtain es where
    es: "sh_tables h (ss_table s) = Some (table_of es)" "distinct_keys es"
      "shared_entries h a = take (ss_property_count s) es"
    by metis
  let ?U = "\<lparr>us_table = table_of (shared_entries h a), us_prototype = ss_prototype s\<rparr>"
  obtain u h' where a: "alloc_unique ?U h = (u, h')" by fastforce
  have "shared_to_unique h a = Some (u, h')"
    using a by (simp add: shared_to_unique_def s es clone_count_table)
  moreover have "ptable_wf (us_table ?U)" using es by (simp add: distinct_keys_take)
  ultimately show thesis
    using that alloc_unique_wf [OF wf a] alloc_unique_ext [OF wf a] s
    by (simp add: alloc_unique_fields [OF a] shared_proto_def)
qed

section \<open>Change of prototype\<close>

lemma shared_new_prototype_step:
  assumes wf: "shapes_wf h" and s: "sh_shared h a \<noteq> None"
  shows "\<exists>b h'. shared_new_prototype h a p = Some (b, h') \<and> shared_step h h' b (shared_entries h a) p"
proof -
  obtain s where s: "sh_shared h a = Some s" using assms(2) by auto
  let ?n = "\<lparr>ss_forward = ft_default, ss_property_count = ss_property_count s, ss_prototype = p,
      ss_table = ss_table s, ss_previous = Some a, ss_transition_count = ss_transition_count s + 1,
      ss_flags = prototype_transition_from (ss_flags s)\<rparr>"
  obtain b h1 where b: "alloc_shared ?n h = (b, h1)" by fastforce
  from shared_tableE [OF wf s] obtain es where
    es: "sh_tables h (ss_table s) = Some (table_of es)" "ss_property_count s \<le> length es"
      "shared_entries h a = take (ss_property_count s) es"
    by metis
  note ext = alloc_shared_ext [OF wf b]
  have v: "sh_shared h1 b = Some ?n" "shared_proto h1 b = p" "shared_entries h1 b = shared_entries h a"
    using alloc_shared_views [OF b] es by simp_all
  have c: "chain_ok h1 b ?n"
    using shapes_wfD(3) [OF wf s] alloc_shared_fields(1) [OF b] v shapes_ext_views [OF ext, of a] s
    by (simp add: chain_ok_def flags_types)
  have wf1: "shapes_wf h1"
    by (rule alloc_shared_wf [OF wf b _ _ c]) (use es in \<open>simp_all add: table_counted_def\<close>)
  obtain s1 where s1: "sh_shared h1 a = Some s1" using shapes_ext_views(1) [OF ext] s by auto
  have ok: "cache_ok h1 a (ft_insert_prototype (is_upgradable h1) p b (ss_forward s1))"
    using shapes_wfD(6) [OF wf1 s1] v shapes_ext_views(2) [OF ext, of a] s
    by (intro cache_ok_insert_prototype) auto
  let ?h2 = "update_forward a (ft_insert_prototype (is_upgradable h1) p b) h1"
  have "shared_step h ?h2 b (shared_entries h a) p"
    using update_forward_wf [where f = "ft_insert_prototype (is_upgradable h1) p b", OF wf1 s1 ok] shapes_ext_trans [OF ext update_forward_ext] v
      shapes_ext_views(1) [OF update_forward_ext [of h1]]
    by (simp add: shared_step_def)
  then show ?thesis using b by (auto simp: shared_new_prototype_def s)
qed

lemma shared_change_prototype_step:
  assumes wf: "shapes_wf h" and s: "sh_shared h a \<noteq> None"
  shows "\<exists>b h'. shared_change_prototype_transition h a p = Some (b, h') \<and>
    shared_step h h' b (shared_entries h a) p"
proof -
  obtain s where s: "sh_shared h a = Some s" using assms(2) by auto
  show ?thesis
  proof (cases "ft_get_prototype (ss_forward s) p")
    case None
    then show ?thesis
      using shared_new_prototype_step [OF wf assms(2)]
      by (simp add: shared_change_prototype_transition_def s)
  next
    case (Some b)
    have c: "cache_ok h a (ss_forward s)" by (rule shapes_wfD(6) [OF wf s])
    show ?thesis
    proof (cases "sh_collected h b")
      case False
      with Some c wf show ?thesis
        by (auto simp: shared_change_prototype_transition_def s weak_upgrade_def cache_ok_def shared_step_def)
    next
      case True
      let ?h = "update_forward a (ft_prune_prototype_transitions (is_upgradable h)) h"
      have "shapes_wf ?h" by (rule update_forward_wf [OF wf s]) (rule cache_ok_prune(2) [OF c])
      moreover have "sh_shared ?h a \<noteq> None" using s by (simp add: update_forward_shared)
      ultimately obtain b' h' where "shared_new_prototype ?h a p = Some (b', h')"
        "shared_step ?h h' b' (shared_entries h a) p"
        using shared_new_prototype_step [of ?h a p] by auto
      then show ?thesis
        using Some True shared_step_trans [OF update_forward_ext]
        by (auto simp: shared_change_prototype_transition_def s weak_upgrade_def)
    qed
  qed
qed

section \<open>Insertion of a property\<close>

lemma add_property_step:
  assumes wf: "shapes_wf h" and t: "sh_tables h t = Some (table_of es)" and d: "distinct_keys es"
    and n: "n \<le> length es" and k: "k \<notin> fst ` set (take n es)"
  shows "\<exists>t' h'. add_property_deep_clone_if_needed h t k at n = Some (t', h') \<and>
    shapes_wf h' \<and> shapes_ext h h' \<and> sh_shared h' = sh_shared h \<and> sh_next h \<le> sh_next h' \<and>
    sh_tables h' t' = Some (table_of (take n es @ [(k, at)]))"
proof (cases "n = length es \<and> map_spec es k = None")
  case True
  then have k: "k \<notin> fst ` set es" by (simp add: map_spec_def position_None)
  let ?T = "table_of (es @ [(k, at)])"
  have T: "table_entries ?T = table_entries (table_of es) @ [(k, at)]" "ptable_wf ?T"
    using d k by (auto simp: distinct_keys_def)
  have "add_property_deep_clone_if_needed h t k at n = Some (t, update_table t ?T h)"
    using True by (simp add: add_property_deep_clone_if_needed_def t ptable_insert_table [OF k])
  then show ?thesis
    using update_table_wf [OF wf t T] update_table_ext [OF wf t T(1)] True
    by (simp add: update_table_def)
next
  case False
  let ?T = "table_of (take n es @ [(k, at)])"
  have T: "ptable_wf ?T"
    using distinct_keys_take [OF d, of n] k by (auto simp: distinct_keys_def)
  obtain t' h' where a: "alloc_table ?T h = (t', h')" by fastforce
  have "add_property_deep_clone_if_needed h t k at n = Some (t', h')"
    using False a
    by (auto simp: add_property_deep_clone_if_needed_def t clone_count_table [OF d] ptable_insert_table [OF k])
  then show ?thesis
    using alloc_table_wf [OF wf a T] alloc_table_ext [OF wf a] a by (auto simp: alloc_table_def)
qed

lemma shared_new_property_step:
  assumes wf: "shapes_wf h" and "sh_shared h a \<noteq> None"
    and k: "tk_property_key k \<notin> fst ` set (shared_entries h a)"
  shows "\<exists>b h'. shared_new_property h a k = Some (b, h') \<and>
    shared_step h h' b (shared_entries h a @ [(tk_property_key k, tk_attributes k)]) (shared_proto h a)"
proof -
  obtain s where s: "sh_shared h a = Some s" using assms(2) by auto
  from shared_tableE [OF wf s] obtain es where
    es: "sh_tables h (ss_table s) = Some (table_of es)" "distinct_keys es"
      "ss_property_count s \<le> length es" "shared_entries h a = take (ss_property_count s) es"
    by metis
  let ?es = "shared_entries h a @ [(tk_property_key k, tk_attributes k)]"
  from add_property_step [OF wf es(1-3)] k [unfolded es(4)] obtain t h0 where
    t: "add_property_deep_clone_if_needed h (ss_table s) (tk_property_key k) (tk_attributes k)
          (ss_property_count s) = Some (t, h0)"
    and wf0: "shapes_wf h0" and e0: "shapes_ext h h0" and sh0: "sh_shared h0 = sh_shared h"
    and t0: "sh_tables h0 t = Some (table_of ?es)"
    unfolding es(4) by blast
  let ?n = "\<lparr>ss_forward = ft_default, ss_property_count = ss_property_count s + 1,
      ss_prototype = ss_prototype s, ss_table = t, ss_previous = Some a,
      ss_transition_count = ss_transition_count s + 1,
      ss_flags = insert_property_transition_from (ss_flags s)\<rparr>"
  obtain b h1 where b: "alloc_shared ?n h0 = (b, h1)" by fastforce
  note ext = alloc_shared_ext [OF wf0 b]
  note ext' = shapes_ext_trans [OF e0 ext]
  have len: "length ?es = ss_property_count s + 1" using es by simp
  have v: "sh_shared h1 b = Some ?n" "shared_proto h1 b = shared_proto h a" "shared_entries h1 b = ?es"
    using alloc_shared_views [OF b] t0 s len by (simp_all add: shared_proto_def)
  have va: "shared_entries h1 a = shared_entries h a" "shared_proto h1 a = shared_proto h a" "sh_shared h1 a \<noteq> None"
    using shapes_ext_views [OF ext', of a] s by auto
  have "a < b" using shapes_wfD(3) [OF wf0, of a] alloc_shared_fields(1) [OF b] s sh0 by simp
  then have c: "chain_ok h1 b ?n"
    using v va k by (simp add: chain_ok_def flags_types)
  have wf1: "shapes_wf h1"
    by (rule alloc_shared_wf [OF wf0 b _ _ c]) (use t0 len in \<open>simp_all add: table_counted_def\<close>)
  obtain s1 where s1: "sh_shared h1 a = Some s1" using va by auto
  have ok: "cache_ok h1 a (ft_insert_property (is_upgradable h1) k b (ss_forward s1))"
    using shapes_wfD(6) [OF wf1 s1] v va k
    by (intro cache_ok_insert_property) (auto simp: put_entry_new)
  let ?h2 = "update_forward a (ft_insert_property (is_upgradable h1) k b) h1"
  have "shared_step h ?h2 b ?es (shared_proto h a)"
    using update_forward_wf [where f = "ft_insert_property (is_upgradable h1) k b", OF wf1 s1 ok]
      shapes_ext_trans [OF ext' update_forward_ext] v
      shapes_ext_views(1) [OF update_forward_ext [of h1]]
    by (simp add: shared_step_def)
  then show ?thesis using b t by (auto simp: shared_new_property_def s)
qed

lemma shared_insert_property_step:
  assumes wf: "shapes_wf h" and "sh_shared h a \<noteq> None"
    and k: "tk_property_key k \<notin> fst ` set (shared_entries h a)"
  shows "\<exists>b h'. shared_insert_property_transition h a k = Some (b, h') \<and>
    shared_step h h' b (shared_entries h a @ [(tk_property_key k, tk_attributes k)]) (shared_proto h a)"
proof -
  obtain s where s: "sh_shared h a = Some s" using assms(2) by auto
  show ?thesis
  proof (cases "ft_get_property (ss_forward s) k")
    case None
    then show ?thesis
      using shared_new_property_step [OF assms]
      by (simp add: shared_insert_property_transition_def s)
  next
    case (Some b)
    have c: "cache_ok h a (ss_forward s)" by (rule shapes_wfD(6) [OF wf s])
    show ?thesis
    proof (cases "sh_collected h b")
      case False
      with Some c wf k show ?thesis
        by (auto simp: shared_insert_property_transition_def s weak_upgrade_def cache_ok_def
            shared_step_def put_entry_new)
    next
      case True
      let ?h = "update_forward a (ft_prune_property_transitions (is_upgradable h)) h"
      have "shapes_wf ?h" by (rule update_forward_wf [OF wf s]) (rule cache_ok_prune(1) [OF c])
      moreover have "sh_shared ?h a \<noteq> None" using s by (simp add: update_forward_shared)
      ultimately obtain b' h' where "shared_new_property ?h a k = Some (b', h')"
        "shared_step ?h h' b' (shared_entries h a @ [(tk_property_key k, tk_attributes k)]) (shared_proto h a)"
        using shared_new_property_step [of ?h a k] k by auto
      then show ?thesis
        using Some True shared_step_trans [OF update_forward_ext]
        by (auto simp: shared_insert_property_transition_def s weak_upgrade_def)
    qed
  qed
qed

lemma replay_transitions_step:
  assumes "shapes_wf h" "sh_shared h a \<noteq> None" "distinct_keys (shared_entries h a @ xs)"
  shows "\<exists>b h'. replay_transitions h a xs = Some (b, h') \<and>
    shared_step h h' b (shared_entries h a @ xs) (shared_proto h a)"
  using assms
proof (induction h a xs rule: replay_transitions.induct)
  case (1 h a)
  then show ?case by (auto simp: shared_step_def)
next
  case (2 h a k at rest)
  let ?k = "\<lparr>tk_property_key = k, tk_attributes = at\<rparr>"
  have "tk_property_key ?k \<notin> fst ` set (shared_entries h a)"
    using 2(4) by (auto simp: distinct_keys_def)
  from shared_insert_property_step [OF 2(2,3) this] obtain b h1 where
    b: "shared_insert_property_transition h a ?k = Some (b, h1)"
    and st: "shared_step h h1 b (shared_entries h a @ [(k, at)]) (shared_proto h a)"
    by auto
  note D = shared_stepD [OF st]
  have "distinct_keys (shared_entries h1 b @ rest)" using 2(4) D(4) by simp
  from 2(1) [OF b refl D(1,3) this] obtain c h' where
    "replay_transitions h1 b rest = Some (c, h')"
    "shared_step h1 h' c (shared_entries h1 b @ rest) (shared_proto h1 b)" by blast
  then show ?case
    using b D shared_step_trans [OF D(2)] by simp
qed

section \<open>Change of attributes that keeps the width\<close>

lemma shared_configure_step:
  assumes wf: "shapes_wf h" and "sh_shared h a \<noteq> None"
    and k: "position (tk_property_key k) (shared_entries h a) = Some i"
    and w: "width_match (snd (shared_entries h a ! i)) (tk_attributes k)"
  shows "\<exists>b h'. shared_configure h a k = Some (b, h') \<and>
    shared_step h h' b ((shared_entries h a)[i := (tk_property_key k, tk_attributes k)]) (shared_proto h a)"
proof -
  obtain s where s: "sh_shared h a = Some s" using assms(2) by auto
  from shared_tableE [OF wf s] obtain es where
    es: "sh_tables h (ss_table s) = Some (table_of es)" "distinct_keys es"
      "ss_property_count s \<le> length es" "shared_entries h a = take (ss_property_count s) es"
    by metis
  let ?k = "tk_property_key k" and ?a = "tk_attributes k"
  let ?es = "es[i := (?k, ?a)]"
  have i: "i < ss_property_count s" "position ?k es = Some i" "fst (es ! i) = ?k"
    using k position_Some_nth [of ?k es i] unfolding es(4) by (auto simp: position_take split: option.splits if_splits)
  have w': "width_match (snd (es ! i)) ?a" using w i by (simp add: es(4))
  have set: "set_attributes_at_index (table_of es) ?k ?a = Some (table_of ?es)"
    by (rule set_attributes_at_index_table [OF es(2) i(2) w'])
  have d: "distinct_keys ?es"
    using es(2,3) i by (simp add: distinct_keys_def map_fst_update)
  obtain t h0 where t: "alloc_table (table_of ?es) h = (t, h0)" by fastforce
  have wf0: "shapes_wf h0" and e0: "shapes_ext h h0"
    using alloc_table_wf [OF wf t] alloc_table_ext [OF wf t] d by simp_all
  have t0: "sh_tables h0 t = Some (table_of ?es)" and sh0: "sh_shared h0 = sh_shared h" "sh_next h < sh_next h0"
    using t by (auto simp: alloc_table_def)
  let ?n = "\<lparr>ss_forward = ft_default, ss_property_count = ss_property_count s,
      ss_prototype = ss_prototype s, ss_table = t, ss_previous = Some a,
      ss_transition_count = ss_transition_count s + 1,
      ss_flags = configure_property_transition_from (ss_flags s)\<rparr>"
  obtain b h1 where b: "alloc_shared ?n h0 = (b, h1)" by fastforce
  note ext = alloc_shared_ext [OF wf0 b]
  note ext' = shapes_ext_trans [OF e0 ext]
  let ?r = "(shared_entries h a)[i := (?k, ?a)]"
  have v: "sh_shared h1 b = Some ?n" "shared_proto h1 b = shared_proto h a" "shared_entries h1 b = ?r"
    using alloc_shared_views [OF b] t0 s by (simp_all add: shared_proto_def es(4) take_update_swap)
  have va: "shared_entries h1 a = shared_entries h a" "shared_proto h1 a = shared_proto h a" "sh_shared h1 a \<noteq> None"
    using shapes_ext_views [OF ext', of a] s by auto
  have il: "i < length (shared_entries h a)" "fst (shared_entries h a ! i) = ?k"
    using i es by simp_all
  have x: "\<exists>i at. i < length (shared_entries h a) \<and> width_match (snd (shared_entries h a ! i)) at \<and>
      ?r = (shared_entries h a)[i := (fst (shared_entries h a ! i), at)]"
    using il w by (intro exI [of _ i] exI [of _ ?a]) simp
  have "a < b" using shapes_wfD(3) [OF wf0, of a] alloc_shared_fields(1) [OF b] s sh0 by simp
  then have c: "chain_ok h1 b ?n"
    using v va x by (simp add: chain_ok_def flags_types)
  have wf1: "shapes_wf h1"
    by (rule alloc_shared_wf [OF wf0 b _ _ c]) (use t0 es in \<open>simp_all add: table_counted_def\<close>)
  obtain s1 where s1: "sh_shared h1 a = Some s1" using va by auto
  have ok: "cache_ok h1 a (ft_insert_property (is_upgradable h1) k b (ss_forward s1))"
    using shapes_wfD(6) [OF wf1 s1] v va k
    by (intro cache_ok_insert_property) (auto simp: put_entry_old)
  let ?h2 = "update_forward a (ft_insert_property (is_upgradable h1) k b) h1"
  have "shared_step h ?h2 b ?r (shared_proto h a)"
    using update_forward_wf [where f = "ft_insert_property (is_upgradable h1) k b", OF wf1 s1 ok]
      shapes_ext_trans [OF ext' update_forward_ext] v
      shapes_ext_views(1) [OF update_forward_ext [of h1]]
    by (simp add: shared_step_def)
  then show ?thesis using b t by (auto simp: shared_configure_def s es(1) set)
qed

section \<open>Rollback\<close>

text \<open>
  A chain is clean down to the insertion of a key when every change of attributes on it was made
  to the property that was the last one then: what \<open>rollback_before\<close> reads at a shape is the
  last property of its table.
\<close>

inductive clean_chain :: "shape_heap \<Rightarrow> property_key \<Rightarrow> shape_addr \<Rightarrow> bool" for h k where
  clean_insertion: "sh_shared h a = Some s \<Longrightarrow> is_insert_transition_type (ss_flags s) \<Longrightarrow>
    shared_entries h a = es @ [(k, at)] \<Longrightarrow> clean_chain h k a"
| clean_insert: "sh_shared h a = Some s \<Longrightarrow> is_insert_transition_type (ss_flags s) \<Longrightarrow>
    ss_previous s = Some p \<Longrightarrow> clean_chain h k p \<Longrightarrow> clean_chain h k a"
| clean_prototype: "sh_shared h a = Some s \<Longrightarrow> is_prototype_transition_type (ss_flags s) \<Longrightarrow>
    ss_previous s = Some p \<Longrightarrow> clean_chain h k p \<Longrightarrow> clean_chain h k a"
| clean_configure: "sh_shared h a = Some s \<Longrightarrow> ss_previous s = Some p \<Longrightarrow>
    shared_entries h a = es @ [(z, at)] \<Longrightarrow> shared_entries h p = es @ [(z, at')] \<Longrightarrow>
    clean_chain h k p \<Longrightarrow> clean_chain h k a"

inductive_cases clean_chainE: "clean_chain h k a"

lemma clean_chain_allocated: "clean_chain h k a \<Longrightarrow> sh_shared h a \<noteq> None"
  by (auto elim: clean_chainE)

lemma clean_chain_ext: "clean_chain h k a \<Longrightarrow> shapes_ext h h' \<Longrightarrow> clean_chain h' k a"
proof (induction rule: clean_chain.induct)
  case (clean_insertion a s es at)
  obtain s' where s': "sh_shared h' a = Some s'" "ss_static s' = ss_static s"
    "shared_entries h' a = shared_entries h a"
    using shapes_extD [OF clean_insertion(4,1)] by blast
  note eq = ss_static_eqD(4,6) [OF s'(2)]
  show ?case
    by (rule clean_chain.clean_insertion [OF s'(1)]) (use clean_insertion(2,3) s'(3) eq in simp_all)
next
  case (clean_insert a s p)
  obtain s' where s': "sh_shared h' a = Some s'" "ss_static s' = ss_static s"
    "shared_entries h' a = shared_entries h a"
    using shapes_extD [OF clean_insert(6,1)] by blast
  note eq = ss_static_eqD(4,6) [OF s'(2)]
  show ?case
    by (rule clean_chain.clean_insert [OF s'(1)]) (use clean_insert(2,3,5,6) eq in simp_all)
next
  case (clean_prototype a s p)
  obtain s' where s': "sh_shared h' a = Some s'" "ss_static s' = ss_static s"
    "shared_entries h' a = shared_entries h a"
    using shapes_extD [OF clean_prototype(6,1)] by blast
  note eq = ss_static_eqD(4,6) [OF s'(2)]
  show ?case
    by (rule clean_chain.clean_prototype [OF s'(1)]) (use clean_prototype(2,3,5,6) eq in simp_all)
next
  case (clean_configure a s p es z at at')
  obtain s' where s': "sh_shared h' a = Some s'" "ss_static s' = ss_static s"
    "shared_entries h' a = shared_entries h a"
    using shapes_extD [OF clean_configure(7,1)] by blast
  note eq = ss_static_eqD(4,6) [OF s'(2)]
  have p: "shared_entries h' p = es @ [(z, at')]"
    using shapes_ext_views(2) [OF clean_configure(7) clean_chain_allocated] clean_configure(4,5) by simp
  show ?case
    by (rule clean_chain.clean_configure [OF s'(1)]) (use clean_configure(2,3,6,7) s'(3) p eq in simp_all)
qed

text \<open>What the loop reads at a shape is the last of its entries.\<close>

lemma shared_property_last:
  assumes wf: "shapes_wf h" and s: "sh_shared h a = Some s" and e: "shared_entries h a = es @ [(z, at)]"
  shows "\<exists>sl. shared_property h a = Some (z, sl) \<and> sl_attributes sl = at"
proof -
  from shared_tableE [OF wf s] obtain fs where
    fs: "sh_tables h (ss_table s) = Some (table_of fs)" "ss_property_count s \<le> length fs"
      "shared_entries h a = take (ss_property_count s) fs"
    by metis
  let ?i = "length es"
  have n: "ss_property_count s = Suc ?i" using arg_cong [OF e, of length] fs by simp
  have "fs ! ?i = take (Suc ?i) fs ! ?i" by simp
  also have "take (Suc ?i) fs = es @ [(z, at)]" using e fs n by simp
  finally have i: "fs ! ?i = (z, at)" "?i < length fs" using fs n by simp_all
  then show ?thesis
    by (simp add: shared_property_def s fs(1) shared_property_index_def n vec_get_def nth_slots_of)
qed

definition unseen :: "entries \<Rightarrow> entries \<Rightarrow> entries" where
  "unseen m xs = filter (\<lambda>x. fst x \<notin> fst ` set m) xs"

text \<open>
  The loop returns, at a base whose keys are those inserted before the key, with the keys
  inserted after it gathered latest first; on a clean chain with their present attributes.
\<close>

definition rolled_back ::
  "'m index_map_ops \<Rightarrow> shape_heap \<Rightarrow> property_key \<Rightarrow> shape_addr \<Rightarrow> js_prototype option \<Rightarrow> 'm \<Rightarrow>
     shape_addr \<Rightarrow> js_prototype option \<Rightarrow> 'm \<Rightarrow> bool" where
  "rolled_back im h k a pr m base pr' m' \<longleftrightarrow>
     sh_shared h base \<noteq> None \<and>
     (\<exists>w ks. key_widths (shared_entries h a) = key_widths (shared_entries h base) @ (k, w) # ks \<and>
        key_widths (im_iter im m') =
          key_widths (im_iter im m) @ filter (\<lambda>q. fst q \<notin> fst ` set (im_iter im m)) (rev ks)) \<and>
     (if pr = None then (case pr' of None \<Rightarrow> shared_proto h base = shared_proto h a | Some q \<Rightarrow> q = shared_proto h a)
      else pr' = pr) \<and>
     (clean_chain h k a \<longrightarrow>
        (\<exists>at F. shared_entries h a = shared_entries h base @ (k, at) # F \<and>
           im_iter im m' = im_iter im m @ unseen (im_iter im m) (rev F)))"

lemma rolled_backI:
  assumes "sh_shared h base \<noteq> None"
    and "key_widths (shared_entries h a) = key_widths (shared_entries h base) @ (k, w) # ks"
    and "key_widths (im_iter im m') =
      key_widths (im_iter im m) @ filter (\<lambda>q. fst q \<notin> fst ` set (im_iter im m)) (rev ks)"
    and "if pr = None then (case pr' of None \<Rightarrow> shared_proto h base = shared_proto h a | Some q \<Rightarrow> q = shared_proto h a)
      else pr' = pr"
    and "clean_chain h k a \<Longrightarrow>
        \<exists>at F. shared_entries h a = shared_entries h base @ (k, at) # F \<and>
           im_iter im m' = im_iter im m @ unseen (im_iter im m) (rev F)"
  shows "rolled_back im h k a pr m base pr' m'"
  unfolding rolled_back_def using assms by blast

lemma rolled_backD:
  assumes "rolled_back im h k a pr m base pr' m'"
  shows "sh_shared h base \<noteq> None"
    and "if pr = None then (case pr' of None \<Rightarrow> shared_proto h base = shared_proto h a | Some q \<Rightarrow> q = shared_proto h a)
      else pr' = pr"
    and "clean_chain h k a \<Longrightarrow>
        \<exists>at F. shared_entries h a = shared_entries h base @ (k, at) # F \<and>
           im_iter im m' = im_iter im m @ unseen (im_iter im m) (rev F)"
  using assms unfolding rolled_back_def by blast+

definition or_insert :: "entries \<Rightarrow> property_key \<Rightarrow> slot_attributes \<Rightarrow> entries" where
  "or_insert m k v = (if k \<in> fst ` set m then m else m @ [(k, v)])"

lemma or_insert_keys:
  "z \<notin> fst ` set xs \<Longrightarrow>
   key_widths (or_insert m z v) @ filter (\<lambda>q. fst q \<notin> fst ` set (or_insert m z v)) xs =
   key_widths m @ filter (\<lambda>q. fst q \<notin> fst ` set m) ((z, attributes_width v) # xs)"
  by (auto simp: or_insert_def intro!: filter_cong)

lemma or_insert_keys':
  "filter (\<lambda>q. fst q \<notin> fst ` set (or_insert m z v)) ((z, w) # xs) =
   filter (\<lambda>q. fst q \<notin> fst ` set (or_insert m z v)) xs"
  by (auto simp: or_insert_def)

lemma or_insert_unseen:
  "z \<notin> fst ` set xs \<Longrightarrow>
   or_insert m z v @ unseen (or_insert m z v) xs = m @ unseen m ((z, v) # xs)"
  by (auto simp: or_insert_def unseen_def intro!: filter_cong)

lemma unseen_seen: "unseen (or_insert m z v) ((z, v') # xs) = unseen (or_insert m z v) xs"
  by (auto simp: or_insert_def unseen_def)

lemma im_iter_or_insert:
  "index_map_laws im \<Longrightarrow> im_iter im (im_entry_or_insert im m q v) = or_insert (im_iter im m) q v"
  by (simp add: index_map_laws_def or_insert_def)

lemma rolled_back_prototype:
  assumes s: "sh_shared h a = Some s" "is_prototype_transition_type (ss_flags s)"
    and p: "ss_previous s = Some p" "shared_entries h a = shared_entries h p"
    and r: "rolled_back im h k p (if pr = None then Some (ss_prototype s) else pr) m base pr' m'"
  shows "rolled_back im h k a pr m base pr' m'"
proof -
  have "clean_chain h k p" if "clean_chain h k a"
    using that by (cases rule: clean_chain.cases) (use s p types_exclusive [OF s(2)] in auto)
  then show ?thesis
    using r s(1) unfolding rolled_back_def p(2)
    by (cases pr) (auto simp: shared_proto_def split: if_splits)
qed

lemma rolled_back_insertion:
  assumes "sh_shared h p \<noteq> None" "shared_entries h a = shared_entries h p @ [(k, at)]"
    and "shared_proto h a = shared_proto h p"
  shows "rolled_back im h k a pr m p pr m"
  using assms by (auto simp: rolled_back_def unseen_def)

lemma rolled_back_insert:
  assumes im: "index_map_laws im" and s: "sh_shared h a = Some s" "is_insert_transition_type (ss_flags s)"
    and p: "ss_previous s = Some p" "shared_entries h a = shared_entries h p @ [(z, at)]"
      "shared_proto h a = shared_proto h p"
    and z: "z \<noteq> k" and d: "distinct_keys (shared_entries h a)"
    and r: "rolled_back im h k p pr (im_entry_or_insert im m z at) base pr' m'"
  shows "rolled_back im h k a pr m base pr' m'"
proof -
  have c: "clean_chain h k p" if "clean_chain h k a"
    using that by (cases rule: clean_chain.cases)
      (use s p z types_exclusive in \<open>auto dest: clean_chain.intros\<close>)
  have it: "im_iter im (im_entry_or_insert im m z at) = or_insert (im_iter im m) z at"
    by (rule im_iter_or_insert [OF im])
  from r obtain w ks where ks: "key_widths (shared_entries h p) = key_widths (shared_entries h base) @ (k, w) # ks"
    "key_widths (im_iter im m') = key_widths (or_insert (im_iter im m) z at) @
       filter (\<lambda>q. fst q \<notin> fst ` set (or_insert (im_iter im m) z at)) (rev ks)"
    unfolding rolled_back_def it by blast
  have "z \<notin> fst ` set (key_widths (shared_entries h p))" using d p(2) by (auto simp: distinct_keys_def)
  then have zk: "z \<notin> fst ` set ks" unfolding ks(1) by auto
  have keys: "key_widths (shared_entries h a) = key_widths (shared_entries h base) @ (k, w) # (ks @ [(z, attributes_width at)])"
    "key_widths (im_iter im m') = key_widths (im_iter im m) @
       filter (\<lambda>q. fst q \<notin> fst ` set (im_iter im m)) (rev (ks @ [(z, attributes_width at)]))"
    using ks or_insert_keys [of z "rev ks" "im_iter im m" at] zk p(2) by simp_all
  have "\<exists>at F. shared_entries h a = shared_entries h base @ (k, at) # F \<and>
      im_iter im m' = im_iter im m @ unseen (im_iter im m) (rev F)" if cl: "clean_chain h k a"
  proof -
    obtain ak F where F: "shared_entries h p = shared_entries h base @ (k, ak) # F"
      "im_iter im m' = or_insert (im_iter im m) z at @ unseen (or_insert (im_iter im m) z at) (rev F)"
      using rolled_backD(3) [OF r c [OF cl]] unfolding it by blast
    have "z \<notin> fst ` set (rev F)" using d p(2) F(1) by (auto simp: distinct_keys_def)
    from or_insert_unseen [OF this, of "im_iter im m" at] F
    show ?thesis unfolding p(2) by (intro exI [of _ ak] exI [of _ "F @ [(z, at)]"]) simp
  qed
  then show ?thesis
    by (rule rolled_backI [OF rolled_backD(1) [OF r] keys rolled_backD(2) [OF r, folded p(3)]])
qed

lemma rolled_back_configure:
  assumes im: "index_map_laws im" and s: "sh_shared h a = Some s"
      "\<not> is_insert_transition_type (ss_flags s)" "\<not> is_prototype_transition_type (ss_flags s)"
    and p: "ss_previous s = Some p" "key_widths (shared_entries h a) = key_widths (shared_entries h p)"
      "shared_proto h a = shared_proto h p"
    and z: "shared_entries h a = es @ [(z, at)]" and d: "distinct_keys (shared_entries h a)"
    and r: "rolled_back im h k p pr (if z \<noteq> k then im_entry_or_insert im m z at else m) base pr' m'"
  shows "rolled_back im h k a pr m base pr' m'"
proof -
  let ?M = "im_iter im m"
  let ?M1 = "if z \<noteq> k then or_insert ?M z at else ?M"
  have it: "im_iter im (if z \<noteq> k then im_entry_or_insert im m z at else m) = ?M1"
    by (simp add: im_iter_or_insert [OF im])
  from r obtain w ks where ks: "key_widths (shared_entries h p) = key_widths (shared_entries h base) @ (k, w) # ks"
    "key_widths (im_iter im m') = key_widths ?M1 @ filter (\<lambda>q. fst q \<notin> fst ` set ?M1) (rev ks)"
    unfolding rolled_back_def it by blast
  have e: "key_widths es @ [(z, attributes_width at)] = key_widths (shared_entries h base) @ (k, w) # ks"
    using p(2) z ks(1) by simp
  have dk: "distinct (map fst es @ [z])" using d z by (simp add: distinct_keys_def)
  have keys: "key_widths (im_iter im m') = key_widths ?M @ filter (\<lambda>q. fst q \<notin> fst ` set ?M) (rev ks)"
  proof (cases "z = k")
    case False
    with e obtain ks' where k': "ks = ks' @ [(z, attributes_width at)]" by (cases ks rule: rev_cases) auto
    have "fst ` set ks' \<subseteq> fst ` set (key_widths es)" using e k' by auto
    then have "z \<notin> fst ` set (rev ks')" using dk by auto
    from or_insert_keys [OF this, of ?M at] or_insert_keys' [of ?M z at "attributes_width at" "rev ks'"] False ks(2)
    show ?thesis by (simp add: k')
  qed (use ks(2) in simp)
  have "\<exists>ak F. shared_entries h a = shared_entries h base @ (k, ak) # F \<and>
      im_iter im m' = ?M @ unseen ?M (rev F)" if "clean_chain h k a"
  proof -
    from that obtain at' where c: "clean_chain h k p" "shared_entries h p = es @ [(z, at')]"
      by (cases rule: clean_chain.cases) (use s p z in auto)
    obtain ak F where F: "shared_entries h p = shared_entries h base @ (k, ak) # F"
      "im_iter im m' = ?M1 @ unseen ?M1 (rev F)"
      using rolled_backD(3) [OF r c(1)] unfolding it by blast
    have eq: "es @ [(z, at')] = shared_entries h base @ (k, ak) # F" using c(2) F(1) by simp
    show ?thesis
    proof (cases F rule: rev_cases)
      case Nil
      with eq have "es = shared_entries h base" "z = k" by auto
      then show ?thesis using z F(2) Nil by (auto simp: unseen_def)
    next
      case (snoc F' f)
      with eq have f: "f = (z, at')" "es = shared_entries h base @ (k, ak) # F'" by auto
      then have zn: "z \<noteq> k" "z \<notin> fst ` set (rev F')" using dk by auto
      have "im_iter im m' = ?M @ unseen ?M ((z, at) # rev F')"
        using F(2) or_insert_unseen [OF zn(2), of ?M at] unseen_seen [of ?M z at at' "rev F'"] zn(1)
        by (simp add: snoc f(1))
      then show ?thesis
        unfolding z f(2) by (intro exI [of _ ak] exI [of _ "F' @ [(z, at)]"]) simp
    qed
  qed
  moreover have "key_widths (shared_entries h a) = key_widths (shared_entries h base) @ (k, w) # ks"
    using p(2) ks(1) by simp
  ultimately show ?thesis
    by (intro rolled_backI [OF rolled_backD(1) [OF r] _ keys rolled_backD(2) [OF r, folded p(3)]])
qed

lemma rollback_loop_step:
  assumes wf: "shapes_wf h" and im: "index_map_laws im"
    and "sh_shared h a \<noteq> None" "k \<in> fst ` set (shared_entries h a)" "a < fuel"
  shows "\<exists>base pr' m'. rollback_loop im h k fuel (Some a) pr m = Some (base, pr', m') \<and>
    rolled_back im h k a pr m base pr' m'"
  using assms(3-)
proof (induction fuel arbitrary: a pr m)
  case (Suc fuel)
  obtain s where s: "sh_shared h a = Some s" using Suc.prems(1) by auto
  have ch: "chain_ok h a s" by (rule shapes_wfD(5) [OF wf s])
  obtain p where p: "ss_previous s = Some p"
    using ch Suc.prems(2) by (auto simp: chain_ok_def split: option.splits)
  have pd: "sh_shared h p \<noteq> None" "p < fuel"
    using ch p Suc.prems(3) by (auto simp: chain_ok_def)
  note d = shared_entries_distinct [OF wf Suc.prems(1)]
  note loop = rollback_loop.simps(2) option.case s
  from Suc.prems(2) obtain es z at where E: "shared_entries h a = es @ [(z, at)]"
    by (cases "shared_entries h a" rule: rev_cases) auto
  from shared_property_last [OF wf s E] obtain sl where
    sl: "shared_property h a = Some (z, sl)" "sl_attributes sl = at" by blast
  consider "is_prototype_transition_type (ss_flags s)"
    | "\<not> is_prototype_transition_type (ss_flags s)" "is_insert_transition_type (ss_flags s)"
    | "\<not> is_prototype_transition_type (ss_flags s)" "\<not> is_insert_transition_type (ss_flags s)"
    by blast
  then show ?case
  proof cases
    case 1
    let ?pr = "if pr = None then Some (ss_prototype s) else pr"
    have E': "shared_entries h a = shared_entries h p" using ch p 1 by (simp add: chain_ok_def)
    from Suc.IH [OF pd(1) _ pd(2), of ?pr m] Suc.prems(2) E' obtain base pr' m' where
      r: "rollback_loop im h k fuel (Some p) ?pr m = Some (base, pr', m')"
      "rolled_back im h k p ?pr m base pr' m'" by auto
    from rolled_back_prototype [OF s 1 p E' r(2)] r(1) 1 p show ?thesis by (simp add: loop)
  next
    case 2
    then obtain z' at' where E': "shared_entries h a = shared_entries h p @ [(z', at')]"
      and pr: "shared_proto h a = shared_proto h p"
      using ch p by (auto simp: chain_ok_def)
    have z': "z' = z" "at' = at" "es = shared_entries h p" using E E' by auto
    show ?thesis
    proof (cases "z = k")
      case True
      with rolled_back_insertion [OF pd(1), of a k at im pr m] E' pr z' 2 sl p show ?thesis
        by (simp add: loop)
    next
      case False
      with Suc.prems(2) E' z' have "k \<in> fst ` set (shared_entries h p)" by auto
      from Suc.IH [OF pd(1) this pd(2), of pr "im_entry_or_insert im m z at"] obtain base pr' m' where
        r: "rollback_loop im h k fuel (Some p) pr (im_entry_or_insert im m z at) = Some (base, pr', m')"
        "rolled_back im h k p pr (im_entry_or_insert im m z at) base pr' m'" by auto
      from rolled_back_insert [OF im s 2(2) p E' [unfolded z'(1,2)] pr False d r(2)] r(1) 2 p sl False
      show ?thesis by (simp add: loop)
    qed
  next
    case 3
    let ?m = "if z \<noteq> k then im_entry_or_insert im m z at else m"
    have E': "key_widths (shared_entries h a) = key_widths (shared_entries h p)"
      and pr: "shared_proto h a = shared_proto h p"
      using ch p 3 by (auto simp: chain_ok_def key_widths_same)
    have "k \<in> fst ` set (shared_entries h p)"
      using Suc.prems(2) arg_cong [OF key_widths_keys [OF E'], of set] by simp
    from Suc.IH [OF pd(1) this pd(2), of pr ?m] obtain base pr' m' where
      r: "rollback_loop im h k fuel (Some p) pr ?m = Some (base, pr', m')"
      "rolled_back im h k p pr ?m base pr' m'" by blast
    from rolled_back_configure [OF im s 3(2,1) p E' pr E d r(2)] r(1) 3 p sl
    show ?thesis by (cases "z = k") (simp_all add: loop)
  qed
qed simp

text \<open>The rollback and the prototype transition after it, as the removal and the reinsertion do them.\<close>

definition rollback_to_base ::
  "'m index_map_ops \<Rightarrow> shape_heap \<Rightarrow> shape_addr \<Rightarrow> property_key \<Rightarrow> (entries \<times> shape_addr \<times> shape_heap) option" where
  "rollback_to_base im h a k =
     do {
       (base, prototype, transitions) \<leftarrow> rollback_before im h a k;
       (base, h) \<leftarrow> (case prototype of
          Some p \<Rightarrow> shared_change_prototype_transition h base p | None \<Rightarrow> Some (base, h));
       Some (rev (im_iter im transitions), base, h)
     }"

lemma shared_remove_via_base:
  "shared_remove_property_transition im h a k =
     do { (xs, base, h) \<leftarrow> rollback_to_base im h a k; replay_transitions h base xs }"
  by (auto simp: shared_remove_property_transition_def rollback_to_base_def split: bind_splits option.splits)

lemma shared_reinsert_via_base:
  "shared_reinsert im h a k =
     do {
       (xs, base, h) \<leftarrow> rollback_to_base im h a (tk_property_key k);
       (base, h) \<leftarrow> shared_insert_property_transition h base k;
       replay_transitions h base xs
     }"
  by (auto simp: shared_reinsert_def rollback_to_base_def split: bind_splits option.splits)

lemma rollback_to_base_step:
  assumes wf: "shapes_wf h" and im: "index_map_laws im"
    and a: "sh_shared h a \<noteq> None" and k: "k \<in> fst ` set (shared_entries h a)"
  obtains xs base h' es w where "rollback_to_base im h a k = Some (xs, base, h')"
    "shared_step h h' base es (shared_proto h a)"
    "key_widths (shared_entries h a) = key_widths es @ (k, w) # key_widths xs"
    "clean_chain h k a \<Longrightarrow> \<exists>at. shared_entries h a = es @ (k, at) # xs"
proof -
  from rollback_loop_step [OF wf im a k, of "Suc a" None "im_default im"] obtain base pr m where
    r: "rollback_before im h a k = Some (base, pr, m)" "rolled_back im h k a None (im_default im) base pr m"
    by (auto simp: rollback_before_def)
  let ?xs = "rev (im_iter im m)"
  have d: "im_iter im (im_default im) = []" using im by (simp add: index_map_laws_def)
  obtain w ks where ks: "key_widths (shared_entries h a) = key_widths (shared_entries h base) @ (k, w) # ks"
    "key_widths (im_iter im m) = rev ks"
    using r(2) unfolding rolled_back_def d by auto
  have keys: "key_widths (shared_entries h a) = key_widths (shared_entries h base) @ (k, w) # key_widths ?xs"
    using ks by simp
  have cl: "\<exists>at. shared_entries h a = shared_entries h base @ (k, at) # ?xs" if "clean_chain h k a"
    using rolled_backD(3) [OF r(2) that] unfolding d by (auto simp: unseen_def)
  note b = rolled_backD(1) [OF r(2)]
  show thesis
  proof (cases pr)
    case None
    then have "rollback_to_base im h a k = Some (?xs, base, h)" by (simp add: rollback_to_base_def r(1))
    moreover have "shared_step h h base (shared_entries h base) (shared_proto h a)"
      using None rolled_backD(2) [OF r(2)] b wf by (simp add: shared_step_def)
    ultimately show thesis using that keys cl by blast
  next
    case (Some q)
    then have q: "q = shared_proto h a" using rolled_backD(2) [OF r(2)] by simp
    from shared_change_prototype_step [OF wf b, of q] obtain base' h' where
      c: "shared_change_prototype_transition h base q = Some (base', h')"
      "shared_step h h' base' (shared_entries h base) q" by blast
    have "rollback_to_base im h a k = Some (?xs, base', h')"
      using Some by (simp add: rollback_to_base_def r(1) c(1))
    with that c(2) q keys cl show thesis by blast
  qed
qed

lemma filter_neq: "k \<notin> fst ` set ys \<Longrightarrow> filter (\<lambda>q. fst q \<noteq> k) ys = ys"
  by (induction ys) auto

section \<open>Removal, and a change of attributes that changes the width\<close>

lemma shared_remove_step:
  assumes wf: "shapes_wf h" and im: "index_map_laws im"
    and a: "sh_shared h a \<noteq> None" and k: "k \<in> fst ` set (shared_entries h a)"
  shows "\<exists>b h' es. shared_remove_property_transition im h a k = Some (b, h') \<and>
    shared_step h h' b es (shared_proto h a) \<and>
    key_widths es = filter (\<lambda>q. fst q \<noteq> k) (key_widths (shared_entries h a)) \<and>
    (clean_chain h k a \<longrightarrow> es = filter (\<lambda>e. fst e \<noteq> k) (shared_entries h a))"
proof -
  from rollback_to_base_step [OF assms] obtain xs base h1 es w where
    r: "rollback_to_base im h a k = Some (xs, base, h1)" "shared_step h h1 base es (shared_proto h a)"
    and kw: "key_widths (shared_entries h a) = key_widths es @ (k, w) # key_widths xs"
    and cl: "clean_chain h k a \<Longrightarrow> \<exists>at. shared_entries h a = es @ (k, at) # xs" by blast
  note D = shared_stepD [OF r(2)]
  have keys: "map fst (shared_entries h a) = map fst es @ k # map fst xs"
    using arg_cong [OF kw, of "map fst"] by simp
  have dist: "distinct (map fst es @ k # map fst xs)"
    using shared_entries_distinct [OF wf a] keys by (simp add: distinct_keys_def)
  then have "distinct_keys (shared_entries h1 base @ xs)" by (simp add: D(4) distinct_keys_def)
  from replay_transitions_step [OF D(1,3) this] obtain b h' where
    b: "replay_transitions h1 base xs = Some (b, h')" "shared_step h1 h' b (es @ xs) (shared_proto h a)"
    by (auto simp: D(4,5))
  have "k \<notin> fst ` set (key_widths es)" "k \<notin> fst ` set (key_widths xs)" using dist by auto
  then have f: "filter (\<lambda>q. fst q \<noteq> k) (key_widths (shared_entries h a)) = key_widths (es @ xs)"
    unfolding kw by (simp add: filter_neq)
  have "es @ xs = filter (\<lambda>e. fst e \<noteq> k) (shared_entries h a)" if "clean_chain h k a"
  proof -
    from cl [OF that] obtain at where "shared_entries h a = es @ (k, at) # xs" by blast
    moreover have "\<forall>e \<in> set es. fst e \<noteq> k" "\<forall>e \<in> set xs. fst e \<noteq> k" using dist by auto
    ultimately show ?thesis by (simp add: filter_id_conv)
  qed
  then show ?thesis
    using r(1) b shared_step_trans [OF D(2) b(2)] f by (auto simp: shared_remove_via_base)
qed

lemma shared_reinsert_step:
  assumes wf: "shapes_wf h" and im: "index_map_laws im"
    and a: "sh_shared h a \<noteq> None" and k: "position (tk_property_key k) (shared_entries h a) = Some i"
  shows "\<exists>b h' es. shared_reinsert im h a k = Some (b, h') \<and>
    shared_step h h' b es (shared_proto h a) \<and>
    key_widths es = (key_widths (shared_entries h a))[i := (tk_property_key k, attributes_width (tk_attributes k))] \<and>
    es ! i = (tk_property_key k, tk_attributes k) \<and>
    (clean_chain h (tk_property_key k) a \<longrightarrow>
       es = (shared_entries h a)[i := (tk_property_key k, tk_attributes k)])"
proof -
  let ?k = "tk_property_key k" and ?e = "(tk_property_key k, tk_attributes k)"
  have mem: "?k \<in> fst ` set (shared_entries h a)"
    using k position_None [of ?k "shared_entries h a"] by auto
  from rollback_to_base_step [OF wf im a mem] obtain xs base h1 es w where
    r: "rollback_to_base im h a ?k = Some (xs, base, h1)" "shared_step h h1 base es (shared_proto h a)"
    and kw: "key_widths (shared_entries h a) = key_widths es @ (?k, w) # key_widths xs"
    and cl: "clean_chain h ?k a \<Longrightarrow> \<exists>at. shared_entries h a = es @ (?k, at) # xs" by blast
  note D = shared_stepD [OF r(2)]
  have keys: "map fst (shared_entries h a) = map fst es @ ?k # map fst xs"
    using arg_cong [OF kw, of "map fst"] by simp
  have dist: "distinct (map fst es @ ?k # map fst xs)"
    using shared_entries_distinct [OF wf a] keys by (simp add: distinct_keys_def)
  have nk: "?k \<notin> fst ` set (shared_entries h1 base)" using dist by (simp add: D(4))
  from shared_insert_property_step [OF D(1,3) nk] obtain b2 h2 where
    b2: "shared_insert_property_transition h1 base k = Some (b2, h2)"
    "shared_step h1 h2 b2 (es @ [?e]) (shared_proto h a)" by (auto simp: D(4,5))
  note D2 = shared_stepD [OF b2(2)]
  have "distinct_keys (shared_entries h2 b2 @ xs)" using dist by (simp add: D2(4) distinct_keys_def)
  from replay_transitions_step [OF D2(1,3) this] obtain b h' where
    b: "replay_transitions h2 b2 xs = Some (b, h')" "shared_step h2 h' b (es @ ?e # xs) (shared_proto h a)"
    by (auto simp: D2(4,5))
  have i: "i = length es"
  proof -
    have p: "i < length (shared_entries h a)" "map fst (shared_entries h a) ! i = ?k"
      using position_Some_nth [OF k] by auto
    have "length (shared_entries h a) = length es + 1 + length xs"
      using arg_cong [OF keys, of length] by simp
    with p show ?thesis
      using nth_eq_iff_index_eq [OF dist, of i "length es"] unfolding keys by (simp add: nth_append)
  qed
  have "es @ ?e # xs = (shared_entries h a)[i := ?e]" if "clean_chain h ?k a"
    using cl [OF that] i by auto
  moreover have "(es @ ?e # xs) ! i = ?e"
    "key_widths (es @ ?e # xs) = (key_widths (shared_entries h a))[i := (?k, attributes_width (tk_attributes k))]"
    using i kw by (simp_all add: nth_append list_update_append)
  ultimately show ?thesis
    using r(1) b2(1) b shared_step_trans [OF shapes_ext_trans [OF D(2) D2(2)] b(2)]
    by (auto simp: shared_reinsert_via_base)
qed

section \<open>Change of attributes\<close>

lemma change_action_slot_at: "change_action (slot_at es i) a = change_action (slot_at fs i) a"
  if "snd (es ! i) = snd (fs ! i)"
  using that by (simp add: change_action_def)

lemma shared_change_attributes_miss_step:
  assumes wf: "shapes_wf h" and im: "index_map_laws im" and a: "sh_shared h a \<noteq> None"
    and k: "position (tk_property_key k) (shared_entries h a) = Some i"
    and sl: "sl_attributes slot = snd (shared_entries h a ! i)"
  shows "\<exists>b h' es. shared_change_attributes_miss im h a k slot = Some (b, h') \<and>
    shared_step h h' b es (shared_proto h a) \<and>
    key_widths es = (key_widths (shared_entries h a))[i := (tk_property_key k, attributes_width (tk_attributes k))] \<and>
    es ! i = (tk_property_key k, tk_attributes k) \<and>
    (width_match (snd (shared_entries h a ! i)) (tk_attributes k) \<or> clean_chain h (tk_property_key k) a \<longrightarrow>
       es = (shared_entries h a)[i := (tk_property_key k, tk_attributes k)])"
proof (cases "width_match (snd (shared_entries h a ! i)) (tk_attributes k)")
  case True
  from shared_configure_step [OF wf a k True] position_Some_nth [OF k] show ?thesis
    by (auto simp: shared_change_attributes_miss_def sl True key_widths_update)
next
  case False
  with shared_reinsert_step [OF wf im a k] show ?thesis
    by (auto simp: shared_change_attributes_miss_def sl)
qed

lemma shared_change_attributes_step:
  assumes wf: "shapes_wf h" and im: "index_map_laws im" and "sh_shared h a \<noteq> None"
    and k: "position (tk_property_key k) (shared_entries h a) = Some i"
  shows "\<exists>b h' es. shared_change_attributes_transition im h a k =
      Some (b, change_action (slot_at (shared_entries h a) i) (tk_attributes k), h') \<and>
    shared_step h h' b es (shared_proto h a) \<and>
    key_widths es = (key_widths (shared_entries h a))[i := (tk_property_key k, attributes_width (tk_attributes k))] \<and>
    es ! i = (tk_property_key k, tk_attributes k) \<and>
    (width_match (snd (shared_entries h a ! i)) (tk_attributes k) \<or> clean_chain h (tk_property_key k) a \<longrightarrow>
       es = (shared_entries h a)[i := (tk_property_key k, tk_attributes k)])"
proof -
  obtain s where s: "sh_shared h a = Some s" using assms(3) by auto
  from shared_tableE [OF wf s] obtain fs where
    fs: "sh_tables h (ss_table s) = Some (table_of fs)" "ss_property_count s \<le> length fs"
      "shared_entries h a = take (ss_property_count s) fs"
    by metis
  let ?k = "tk_property_key k" and ?at = "tk_attributes k"
  have i: "position ?k fs = Some i" "i < ss_property_count s"
    using k unfolding fs(3) by (auto simp: position_take split: option.splits if_splits)
  let ?slot = "slot_at fs i"
  have get: "ptable_get_expect (table_of fs) ?k = Some ?slot"
    by (simp add: ptable_get_expect_def map_spec_def i(1))
  have sl: "sl_attributes ?slot = snd (shared_entries h a ! i)" using i by (simp add: fs(3))
  have act: "change_action ?slot ?at = change_action (slot_at (shared_entries h a) i) ?at"
    by (rule change_action_slot_at) (use i in \<open>simp add: fs(3)\<close>)
  note def = shared_change_attributes_transition_def s fs(1) get act
  note miss = shared_change_attributes_miss_step [OF wf im assms(3) k sl]
  show ?thesis
  proof (cases "ft_get_property (ss_forward s) k")
    case None
    with miss show ?thesis by (auto simp: def)
  next
    case (Some b)
    have c: "cache_ok h a (ss_forward s)" by (rule shapes_wfD(6) [OF wf s])
    show ?thesis
    proof (cases "sh_collected h b")
      case False
      have "shared_step h h b ((shared_entries h a)[i := (?k, ?at)]) (shared_proto h a)"
        using Some c wf by (auto simp: cache_ok_def shared_step_def put_entry_old [OF k])
      with False Some show ?thesis
        using position_Some_nth [OF k] by (auto simp: def weak_upgrade_def key_widths_update)
    next
      case True
      let ?h = "update_forward a (ft_prune_property_transitions (is_upgradable h)) h"
      have wf': "shapes_wf ?h" by (rule update_forward_wf [OF wf s]) (rule cache_ok_prune(1) [OF c])
      have a': "sh_shared ?h a \<noteq> None" using s by (simp add: update_forward_shared)
      have cl: "clean_chain ?h ?k a" if "clean_chain h ?k a"
        by (rule clean_chain_ext [OF that update_forward_ext])
      from shared_change_attributes_miss_step [OF wf' im a', of k i ?slot] k sl obtain b' h' es where
        r: "shared_change_attributes_miss im ?h a k ?slot = Some (b', h')"
          "shared_step ?h h' b' es (shared_proto h a)"
          "key_widths es = (key_widths (shared_entries h a))[i := (?k, attributes_width ?at)]"
          "es ! i = (?k, ?at)"
          "width_match (snd (shared_entries h a ! i)) ?at \<or> clean_chain ?h ?k a \<longrightarrow>
             es = (shared_entries h a)[i := (?k, ?at)]"
        by auto
      then show ?thesis
        using Some True cl shared_step_trans [OF update_forward_ext r(2)]
        by (auto simp: def weak_upgrade_def)
    qed
  qed
qed

end
