(* ===== verification/UniqueShape.thy ===== *)
theory UniqueShape
  imports SharedShapeFacts
begin

text \<open>
  Unique shapes (\<open>object/shape/unique_shape.rs\<close>). A property is inserted in place; the other
  transitions move the table into a fresh shape and leave the old one empty, so that what is
  keyed on its address (an inline cache) misses. The loops that lay the slots out again are
  shown to produce the table of the changed list of entries.
\<close>

section \<open>Operations\<close>

definition us_taken :: "js_prototype \<Rightarrow> unique_shape" where
  "us_taken prototype = \<lparr>us_table = ptable_empty, us_prototype = prototype\<rparr>"

definition unique_insert_property_transition ::
  "shape_heap \<Rightarrow> shape_addr \<Rightarrow> transition_key \<Rightarrow> (shape_addr \<times> shape_heap) panics" where
  "unique_insert_property_transition h self key =
     do {
       s \<leftarrow> sh_unique h self;
       Some (self, update_unique self
         (s\<lparr>us_table := ptable_insert (us_table s) (tk_property_key key) (tk_attributes key)\<rparr>) h)
     }"

text \<open>
  The loop of the removal: each later entry gets the slot after the previous one and its new
  position, in the vector and in the map. \<open>unreachable!\<close> when the map lacks a key.
\<close>

fun update_slot_positions ::
  "slot option \<Rightarrow> nat \<Rightarrow> (property_key \<times> slot) list \<Rightarrow> (property_key \<Rightarrow> (nat \<times> slot) option) \<Rightarrow>
     ((property_key \<times> slot) list \<times> (property_key \<Rightarrow> (nat \<times> slot) option)) panics" where
  "update_slot_positions previous_slot index [] m = Some ([], m)"
| "update_slot_positions previous_slot index ((key, slot) # rest) m =
     (let slot = slot_from_previous previous_slot (sl_attributes slot) in
      case m key of
        None \<Rightarrow> None
      | Some _ \<Rightarrow>
          do {
            (rest, m) \<leftarrow> update_slot_positions (Some slot) (Suc index) rest (m(key \<mapsto> (index, slot)));
            Some ((key, slot) # rest, m)
          })"

text \<open>The loop of the attribute change: the positions stay.\<close>

fun update_slots ::
  "slot \<Rightarrow> (property_key \<times> slot) list \<Rightarrow> (property_key \<Rightarrow> (nat \<times> slot) option) \<Rightarrow>
     ((property_key \<times> slot) list \<times> (property_key \<Rightarrow> (nat \<times> slot) option)) panics" where
  "update_slots previous_slot [] m = Some ([], m)"
| "update_slots previous_slot ((key, slot) # rest) m =
     (let slot = slot_from_previous (Some previous_slot) (sl_attributes slot) in
      case m key of
        None \<Rightarrow> None
      | Some (index, _) \<Rightarrow>
          do {
            (rest, m) \<leftarrow> update_slots slot rest (m(key \<mapsto> (index, slot)));
            Some ((key, slot) # rest, m)
          })"

definition unique_remove_table :: "ptable \<Rightarrow> property_key \<Rightarrow> nat \<Rightarrow> ptable panics" where
  "unique_remove_table t key index =
     do {
       let m = (pt_map t)(key := None);
       keys \<leftarrow> vec_remove (pt_keys t) index;
       if index \<noteq> length keys then do {
         let previous_slot = (if index = 0 then None else map_option snd (vec_get keys (index - 1)));
         (rest, m) \<leftarrow> update_slot_positions previous_slot index (drop index keys) m;
         Some \<lparr>pt_map = m, pt_keys = take index keys @ rest\<rparr>
       }
       else Some \<lparr>pt_map = m, pt_keys = keys\<rparr>
     }"

definition unique_remove_property_transition ::
  "shape_heap \<Rightarrow> shape_addr \<Rightarrow> property_key \<Rightarrow> (shape_addr \<times> shape_heap) panics" where
  "unique_remove_property_transition h self key =
     do {
       s \<leftarrow> sh_unique h self;
       case pt_map (us_table s) key of
         None \<Rightarrow> Some (self, h)
       | Some (index, _) \<Rightarrow>
           do {
             property_table \<leftarrow> unique_remove_table (us_table s) key index;
             Some (alloc_unique \<lparr>us_table = property_table, us_prototype = us_prototype s\<rparr>
               (update_unique self (us_taken None) h))
           }
     }"

definition unique_lookup :: "shape_heap \<Rightarrow> shape_addr \<Rightarrow> property_key \<Rightarrow> slot option panics" where
  "unique_lookup h self key = map_option (\<lambda>s. map_option snd (pt_map (us_table s) key)) (sh_unique h self)"

definition set_key_attributes ::
  "(property_key \<times> slot) list \<Rightarrow> nat \<Rightarrow> slot_attributes \<Rightarrow> (property_key \<times> slot) list panics" where
  "set_key_attributes keys index attributes =
     do {
       (key, slot) \<leftarrow> vec_get keys index;
       vec_set keys index (key, slot\<lparr>sl_attributes := attributes\<rparr>)
     }"

definition unique_change_table ::
  "ptable \<Rightarrow> property_key \<Rightarrow> slot_attributes \<Rightarrow> (ptable \<times> change_transition_action) panics" where
  "unique_change_table t key attributes =
     do {
       (index, slot) \<leftarrow> pt_map t key;
       let m = (pt_map t)(key \<mapsto> (index, slot\<lparr>sl_attributes := attributes\<rparr>));
       keys \<leftarrow> set_key_attributes (pt_keys t) index attributes;
       if width_match (sl_attributes slot) attributes then
         Some (\<lparr>pt_map = m, pt_keys = keys\<rparr>, Nothing)
       else do {
         let action = (if is_accessor_attributes attributes then Insert else Remove);
         (rest, m) \<leftarrow> update_slots (slot\<lparr>sl_attributes := attributes\<rparr>) (drop (Suc index) keys) m;
         Some (\<lparr>pt_map = m, pt_keys = take (Suc index) keys @ rest\<rparr>, action)
       }
     }"

definition unique_change_attributes_transition ::
  "shape_heap \<Rightarrow> shape_addr \<Rightarrow> transition_key \<Rightarrow>
     (shape_addr \<times> change_transition_action \<times> shape_heap) panics" where
  "unique_change_attributes_transition h self key =
     do {
       s \<leftarrow> sh_unique h self;
       (property_table, action) \<leftarrow> unique_change_table (us_table s) (tk_property_key key) (tk_attributes key);
       let (shape, h) = alloc_unique \<lparr>us_table = property_table, us_prototype = us_prototype s\<rparr>
         (update_unique self (us_taken None) h);
       Some (shape, action, h)
     }"

definition unique_change_prototype_transition ::
  "shape_heap \<Rightarrow> shape_addr \<Rightarrow> js_prototype \<Rightarrow> (shape_addr \<times> shape_heap) panics" where
  "unique_change_prototype_transition h self prototype =
     do {
       s \<leftarrow> sh_unique h self;
       Some (alloc_unique \<lparr>us_table = us_table s, us_prototype = prototype\<rparr>
         (update_unique self (us_taken (us_prototype s)) h))
     }"

definition unique_override_internal ::
  "shape_heap \<Rightarrow> shape_addr \<Rightarrow> ptable \<Rightarrow> js_prototype \<Rightarrow> shape_heap panics" where
  "unique_override_internal h self property_table prototype =
     do {
       s \<leftarrow> sh_unique h self;
       Some (update_unique self \<lparr>us_table = property_table, us_prototype = prototype\<rparr> h)
     }"

definition unique_keys :: "shape_heap \<Rightarrow> shape_addr \<Rightarrow> property_key list panics" where
  "unique_keys h self = map_option (\<lambda>s. ptable_keys (us_table s)) (sh_unique h self)"

section \<open>The loops lay out the entries\<close>

lemma option_bind_Some: "Option.bind (Some x) f = f x"
  by simp

lemma drop_slots_of_append:
  "drop (length pre) (slots_of (pre @ (k, a) # post)) =
     (k, \<lparr>sl_index = word_of_nat (widths (map snd pre)), sl_attributes = a\<rparr>) #
     drop (length (pre @ [(k, a)])) (slots_of ((pre @ [(k, a)]) @ post))"
proof -
  have "drop (length pre) (slots_of (pre @ (k, a) # post)) =
      slots_of (pre @ (k, a) # post) ! length pre # drop (Suc (length pre)) (slots_of (pre @ (k, a) # post))"
    by (subst Cons_nth_drop_Suc) simp_all
  also have "slots_of (pre @ (k, a) # post) ! length pre =
      (k, \<lparr>sl_index = word_of_nat (widths (map snd pre)), sl_attributes = a\<rparr>)"
    by (subst nth_slots_of) (simp_all add: slot_at_def nth_append)
  finally show ?thesis by simp
qed

definition patched ::
  "(property_key \<Rightarrow> (nat \<times> slot) option) \<Rightarrow> entries \<Rightarrow> entries \<Rightarrow> property_key \<Rightarrow> (nat \<times> slot) option" where
  "patched m post es = (\<lambda>k. if k \<in> fst ` set post then map_spec es k else m k)"

lemma map_spec_middle:
  assumes "distinct_keys (pre @ (k, a) # post)"
  shows "map_spec (pre @ (k, a) # post) k =
    Some (length pre, \<lparr>sl_index = word_of_nat (widths (map snd pre)), sl_attributes = a\<rparr>)"
proof -
  have "position k (pre @ (k, a) # post) = Some (length pre)"
    using assms position_nth [OF assms, of "length pre"] by (simp add: nth_append)
  then show ?thesis by (simp add: map_spec_def slot_at_def nth_append)
qed

lemma patched_step:
  assumes "distinct_keys (pre @ (k, a) # post)"
  shows "patched (m(k \<mapsto> (length pre, \<lparr>sl_index = word_of_nat (widths (map snd pre)), sl_attributes = a\<rparr>)))
      post (pre @ (k, a) # post) = patched m ((k, a) # post) (pre @ (k, a) # post)"
  using map_spec_middle [OF assms] assms by (auto simp: patched_def fun_eq_iff distinct_keys_def)

lemma update_slot_positions_spec:
  assumes "distinct_keys (pre @ post)" "\<forall>x \<in> set post. m (fst x) \<noteq> None"
    and "map (\<lambda>(k, s). (k, sl_attributes s)) xs = post"
  shows "update_slot_positions (if pre = [] then None else Some (snd (last (slots_of pre)))) (length pre) xs m =
    Some (drop (length pre) (slots_of (pre @ post)), patched m post (pre @ post))"
  using assms
proof (induction post arbitrary: pre m xs)
  case (Cons x post)
  obtain k a where x: "x = (k, a)" by (cases x)
  then obtain s ys where xs: "xs = (k, s) # ys" "sl_attributes s = a"
    "map (\<lambda>(k, s). (k, sl_attributes s)) ys = post" using Cons.prems(3) by (cases xs) auto
  let ?s = "\<lparr>sl_index = word_of_nat (widths (map snd pre)), sl_attributes = a\<rparr>"
  obtain v where v: "m k = Some v" using Cons.prems(2) x by auto
  have c: "(if pre @ [(k, a)] = [] then None else Some (snd (last (slots_of (pre @ [(k, a)]))))) = Some ?s"
    by (simp add: slots_of_snoc)
  have dd: "distinct_keys ((pre @ [(k, a)]) @ post)" using Cons.prems(1) x by simp
  have mm: "\<forall>x \<in> set post. (m(k \<mapsto> (length pre, ?s))) (fst x) \<noteq> None" using Cons.prems(2) by simp
  have len: "length (pre @ [(k, a)]) = Suc (length pre)" by simp
  have "update_slot_positions (Some ?s) (Suc (length pre)) ys (m(k \<mapsto> (length pre, ?s))) =
      Some (drop (length (pre @ [(k, a)])) (slots_of ((pre @ [(k, a)]) @ post)),
        patched (m(k \<mapsto> (length pre, ?s))) post ((pre @ [(k, a)]) @ post))"
    using Cons.IH [OF dd mm xs(3)] unfolding c len .
  moreover have "patched (m(k \<mapsto> (length pre, ?s))) post ((pre @ [(k, a)]) @ post) =
      patched m (x # post) (pre @ x # post)"
    using patched_step [of pre k a post m] Cons.prems(1) x by simp
  ultimately show ?case
    unfolding xs(1) update_slot_positions.simps Let_def xs(2) previous_slot_eq v option.case
    by (simp add: x drop_slots_of_append)
qed (simp add: patched_def)

lemma update_slots_spec:
  assumes "distinct_keys (pre @ post)" "pre \<noteq> []"
    and "\<forall>i < length post. \<exists>s. m (fst (post ! i)) = Some (length pre + i, s)"
    and "map (\<lambda>(k, s). (k, sl_attributes s)) xs = post"
  shows "update_slots (snd (last (slots_of pre))) xs m =
    Some (drop (length pre) (slots_of (pre @ post)), patched m post (pre @ post))"
  using assms
proof (induction post arbitrary: pre m xs)
  case (Cons x post)
  obtain k a where x: "x = (k, a)" by (cases x)
  then obtain s ys where xs: "xs = (k, s) # ys" "sl_attributes s = a"
    "map (\<lambda>(k, s). (k, sl_attributes s)) ys = post" using Cons.prems(4) by (cases xs) auto
  let ?s = "\<lparr>sl_index = word_of_nat (widths (map snd pre)), sl_attributes = a\<rparr>"
  obtain v where v: "m k = Some (length pre, v)" using Cons.prems(3) x by (metis add_0_right fst_conv length_greater_0_conv list.distinct(1) nth_Cons_0)
  have p: "slot_from_previous (Some (snd (last (slots_of pre)))) a = ?s"
    using previous_slot_eq [of pre a] Cons.prems(2) by simp
  have l: "snd (last (slots_of (pre @ [(k, a)]))) = ?s" by (simp add: slots_of_snoc)
  have dd: "distinct_keys ((pre @ [(k, a)]) @ post)" using Cons.prems(1) x by simp
  have m: "\<forall>i < length post. \<exists>s. (m(k \<mapsto> (length pre, ?s))) (fst (post ! i)) = Some (length (pre @ [(k, a)]) + i, s)"
  proof (intro allI impI)
    fix i assume i: "i < length post"
    then have "fst (post ! i) \<noteq> k"
      using Cons.prems(1) x nth_mem [OF i] by (force simp: distinct_keys_def)
    moreover have "\<exists>s. m (fst ((x # post) ! Suc i)) = Some (length pre + Suc i, s)"
      using Cons.prems(3) i by (metis Suc_less_eq length_Cons)
    ultimately show "\<exists>s. (m(k \<mapsto> (length pre, ?s))) (fst (post ! i)) = Some (length (pre @ [(k, a)]) + i, s)"
      by simp
  qed
  have "update_slots ?s ys (m(k \<mapsto> (length pre, ?s))) =
      Some (drop (length (pre @ [(k, a)])) (slots_of ((pre @ [(k, a)]) @ post)),
        patched (m(k \<mapsto> (length pre, ?s))) post ((pre @ [(k, a)]) @ post))"
    using Cons.IH [of "pre @ [(k, a)]" "m(k \<mapsto> (length pre, ?s))", OF dd _ m xs(3)] unfolding l
    by (simp only: append_is_Nil_conv not_Cons_self2 list.distinct simp_thms)
  moreover have "patched (m(k \<mapsto> (length pre, ?s))) post ((pre @ [(k, a)]) @ post) =
      patched m (x # post) (pre @ x # post)"
    using patched_step [of pre k a post m] Cons.prems(1) x by simp
  ultimately show ?case
    unfolding xs(1) update_slots.simps Let_def xs(2) p v option.case prod.case
    by (simp add: x drop_slots_of_append)
qed (simp add: patched_def)

section \<open>The tables after a removal and an attribute change\<close>

lemma map_spec_prefix: "k \<in> fst ` set pre \<Longrightarrow> map_spec (pre @ post) k = map_spec pre k"
  using position_None [of k pre] position_Some_nth [of k pre]
  by (auto simp: map_spec_def position_append split: option.split)

lemma map_spec_absent: "k \<notin> fst ` set es \<Longrightarrow> map_spec es k = None"
  by (simp add: map_spec_def position_None)

lemma unique_remove_table_spec:
  assumes d: "distinct_keys (pre @ (k, a) # post)"
  shows "unique_remove_table (table_of (pre @ (k, a) # post)) k (length pre) = Some (table_of (pre @ post))"
proof -
  let ?es = "pre @ (k, a) # post"
  let ?i = "length pre"
  let ?tail = "drop (Suc ?i) (slots_of ?es)"
  let ?keys = "slots_of pre @ ?tail"
  have d': "distinct_keys (pre @ post)" using d by (simp add: distinct_keys_def)
  have t: "take ?i (slots_of ?es) = slots_of pre" by (simp add: take_slots_of)
  have rm: "vec_remove (slots_of ?es) ?i = Some ?keys" by (simp add: t)
  have ent: "map (\<lambda>(k, s). (k, sl_attributes s)) ?tail = post"
    by (simp add: drop_map [symmetric])
  have prev: "(if ?i = 0 then None else map_option snd (vec_get ?keys (?i - 1))) =
      (if pre = [] then None else Some (snd (last (slots_of pre))))"
    by (cases pre rule: rev_cases) (auto simp: vec_get_def nth_append slots_of_snoc split: prod.splits)
  let ?m = "(map_spec ?es)(k := None)"
  have some: "\<forall>x \<in> set post. ?m (fst x) \<noteq> None"
  proof
    fix x assume x: "x \<in> set post"
    then have "fst x \<noteq> k" using d by (auto simp: distinct_keys_def)
    moreover have "position (fst x) ?es \<noteq> None" using x by (simp add: position_None)
    ultimately show "?m (fst x) \<noteq> None" by (simp add: map_spec_def)
  qed
  have m: "patched ?m post (pre @ post) = map_spec (pre @ post)"
  proof
    fix q
    consider "q \<in> fst ` set post" | "q = k" | "q \<in> fst ` set pre" | "q \<notin> fst ` set ?es" by auto
    then show "patched ?m post (pre @ post) q = map_spec (pre @ post) q"
    proof cases
      case 2
      with d have "k \<notin> fst ` set (pre @ post)" by (auto simp: distinct_keys_def)
      with 2 map_spec_absent [of k "pre @ post"] show ?thesis by (auto simp: patched_def)
    next
      case 3
      with d have "q \<notin> fst ` set post" "q \<noteq> k" by (auto simp: distinct_keys_def)
      with 3 show ?thesis by (simp add: patched_def map_spec_prefix)
    next
      case 4
      then show ?thesis by (auto simp: patched_def map_spec_absent)
    qed (simp add: patched_def)
  qed
  have us: "update_slot_positions (if pre = [] then None else Some (snd (last (slots_of pre)))) ?i ?tail ?m =
      Some (drop ?i (slots_of (pre @ post)), map_spec (pre @ post))"
    using update_slot_positions_spec [OF d' some ent] by (simp only: m)
  have cat: "slots_of pre @ drop ?i (slots_of (pre @ post)) = slots_of (pre @ post)"
    using append_take_drop_id [of ?i "slots_of (pre @ post)"] by (simp add: take_slots_of)
  show ?thesis
  proof (cases "post = []")
    case True
    then have "?m = map_spec pre" "?keys = slots_of pre" using m by (auto simp: patched_def fun_eq_iff)
    then show ?thesis
      unfolding unique_remove_table_def table_of_simps rm Let_def option_bind_Some
      by (simp add: True table_of_def)
  next
    case False
    then have "?i \<noteq> length ?keys" by simp
    then show ?thesis
      unfolding unique_remove_table_def table_of_simps rm Let_def option_bind_Some prev
      using us cat by (simp add: table_of_def)
  qed
qed

lemma unique_change_table_spec:
  assumes d: "distinct_keys (pre @ (k, a) # post)"
  shows "unique_change_table (table_of (pre @ (k, a) # post)) k b =
    Some (table_of (pre @ (k, b) # post),
      change_action (slot_at (pre @ (k, a) # post) (length pre)) b)"
proof -
  let ?es = "pre @ (k, a) # post" and ?fs = "pre @ (k, b) # post"
  let ?i = "length pre"
  let ?s = "\<lparr>sl_index = word_of_nat (widths (map snd pre)), sl_attributes = a\<rparr>"
  let ?s' = "\<lparr>sl_index = word_of_nat (widths (map snd pre)), sl_attributes = b\<rparr>"
  have i: "?i < length ?es" "?es ! ?i = (k, a)" "?es[?i := (k, b)] = ?fs" by simp_all
  have d': "distinct_keys ?fs" using d by (simp add: distinct_keys_def)
  have sl: "slot_at ?es ?i = ?s" by (simp add: slot_at_def)
  have get: "map_spec ?es k = Some (?i, ?s)" by (rule map_spec_middle [OF d])
  have nth: "slots_of ?es ! ?i = (k, ?s)" by (simp add: nth_slots_of sl)
  have keys: "set_key_attributes (slots_of ?es) ?i b = Some ((slots_of ?es)[?i := (k, ?s')])"
    by (simp add: set_key_attributes_def vec_get_def vec_set_def nth)
  show ?thesis
  proof (cases "width_match a b")
    case True
    have "width_match (snd (?es ! ?i)) b" using True by simp
    from map_spec_update [OF d i(1) this] slots_of_update [OF i(1) this]
    have "(map_spec ?es)(k \<mapsto> (?i, ?s')) = map_spec ?fs" "(slots_of ?es)[?i := (k, ?s')] = slots_of ?fs"
      by (simp_all add: sl)
    then show ?thesis
      by (simp add: unique_change_table_def get keys True change_action_def table_of_def)
  next
    case False
    let ?keys = "(slots_of ?es)[?i := (k, ?s')]"
    let ?m = "(map_spec ?es)(k \<mapsto> (?i, ?s'))"
    let ?pre = "pre @ [(k, b)]"
    have dk: "drop (Suc ?i) ?keys = drop (Suc ?i) (slots_of ?es)" by simp
    have ent: "map (\<lambda>(k, s). (k, sl_attributes s)) (drop (Suc ?i) ?keys) = post"
      by (simp add: drop_map [symmetric])
    have tk: "take (Suc ?i) ?keys = slots_of ?pre"
      by (simp add: take_Suc_conv_app_nth take_slots_of slots_of_snoc)
    have idx: "\<forall>j < length post. \<exists>s. ?m (fst (post ! j)) = Some (length ?pre + j, s)"
    proof (intro allI impI)
      fix j assume j: "j < length post"
      have e: "?es ! (Suc ?i + j) = post ! j" by (simp add: nth_append)
      have "position (fst (?es ! (Suc ?i + j))) ?es = Some (Suc ?i + j)"
        by (rule position_nth [OF d]) (use j in simp)
      moreover have "fst (post ! j) \<noteq> k" using d nth_mem [OF j] by (force simp: distinct_keys_def)
      ultimately show "\<exists>s. ?m (fst (post ! j)) = Some (length ?pre + j, s)"
        unfolding e by (simp add: map_spec_def)
    qed
    have m: "patched ?m post (?pre @ post) = map_spec ?fs"
    proof
      fix q
      consider "q \<in> fst ` set post" | "q = k" | "q \<in> fst ` set pre" | "q \<notin> fst ` set ?es" by auto
      then show "patched ?m post (?pre @ post) q = map_spec ?fs q"
      proof cases
        case 2
        with d have "q \<notin> fst ` set post" by (auto simp: distinct_keys_def)
        then show ?thesis using 2 map_spec_middle [OF d'] by (simp add: patched_def)
      next
        case 3
        with d have "q \<notin> fst ` set post" "q \<noteq> k" by (auto simp: distinct_keys_def)
        with 3 show ?thesis by (simp add: patched_def map_spec_prefix)
      next
        case 4
        then show ?thesis by (auto simp: patched_def map_spec_absent)
      qed (simp add: patched_def)
    qed
    have l: "snd (last (slots_of ?pre)) = ?s'" by (simp add: slots_of_snoc)
    have dp: "distinct_keys (?pre @ post)" "?pre \<noteq> []" using d' by simp_all
    have us: "update_slots ?s' (drop (Suc ?i) ?keys) ?m = Some (drop (length ?pre) (slots_of ?fs), map_spec ?fs)"
      using update_slots_spec [of ?pre post ?m, OF dp idx ent] unfolding l m by simp
    have cat: "slots_of ?pre @ drop (length ?pre) (slots_of ?fs) = slots_of ?fs"
      using append_take_drop_id [of "length ?pre" "slots_of ?fs"] by (simp add: take_slots_of)
    have act: "(if is_accessor_attributes b then Insert else Remove) = change_action ?s b"
      using False by (auto simp: change_action_def width_match_def)
    show ?thesis
      unfolding unique_change_table_def table_of_simps get option_bind_Some prod.case Let_def
        slot.simps keys sl
      using us cat tk False act by (simp add: table_of_def)
  qed
qed

end
