(* ===== verification/Shape.thy ===== *)
theory Shape
  imports UniqueShape
begin

text \<open>
  The shape of an object (\<open>object/shape/mod.rs\<close>): a unique or a shared shape, and the
  transitions on either, which turn a shared shape that has seen too many transitions into a
  unique one. The interface of a store of shapes is the locale \<open>shape_store\<close>, met by shared
  shapes, by unique shapes and by the two together.
\<close>

section \<open>The interface\<close>

locale shape_store =
  fixes valid :: "'h \<Rightarrow> 's \<Rightarrow> bool"
    and ents :: "'h \<Rightarrow> 's \<Rightarrow> entries"
    and lookup :: "'h \<Rightarrow> 's \<Rightarrow> property_key \<Rightarrow> slot option panics"
    and insert_property :: "'h \<Rightarrow> 's \<Rightarrow> transition_key \<Rightarrow> ('s \<times> 'h) panics"
  assumes ents_distinct: "valid h s \<Longrightarrow> distinct_keys (ents h s)"
    and lookup_ents: "valid h s \<Longrightarrow> lookup h s k = Some (lookup_spec (ents h s) k)"
    and insert_ents: "valid h s \<Longrightarrow> tk_property_key t \<notin> fst ` set (ents h s) \<Longrightarrow>
      \<exists>s' h'. insert_property h s t = Some (s', h') \<and> valid h' s' \<and>
        ents h' s' = ents h s @ [(tk_property_key t, tk_attributes t)]"
begin

lemma absent_lookup: "valid h s \<Longrightarrow> lookup h s k = Some None \<longleftrightarrow> k \<notin> fst ` set (ents h s)"
  by (simp add: lookup_ents lookup_spec_None)

lemma lookup_after_insert:
  assumes "valid h s" "lookup h s (tk_property_key t) = Some None" "insert_property h s t = Some (s', h')"
  shows "lookup h' s' k =
    (if k = tk_property_key t
     then Some (Some \<lparr>sl_index = word_of_nat (widths (map snd (ents h s))), sl_attributes = tk_attributes t\<rparr>)
     else lookup h s k)"
proof -
  have k: "tk_property_key t \<notin> fst ` set (ents h s)" using assms(1,2) by (simp add: absent_lookup)
  from insert_ents [OF assms(1) this] assms(3) have "valid h' s'"
    "ents h' s' = ents h s @ [(tk_property_key t, tk_attributes t)]" by auto
  then show ?thesis by (simp add: lookup_ents assms(1) lookup_spec_snoc [OF k])
qed

text \<open>Slots of different properties do not overlap, as long as the layout fits \<open>u32\<close>.\<close>

lemma slots_disjoint:
  assumes v: "valid h s" and w: "widths (map snd (ents h s)) \<le> 2 ^ 32"
    and k: "lookup h s k = Some (Some x)" "lookup h s k' = Some (Some y)" "k \<noteq> k'"
  shows "unat (sl_index x) + slot_width x \<le> unat (sl_index y) \<or>
    unat (sl_index y) + slot_width y \<le> unat (sl_index x)"
proof -
  let ?as = "map snd (ents h s)"
  from k v obtain i j where i: "position k (ents h s) = Some i" "x = slot_at (ents h s) i"
    and j: "position k' (ents h s) = Some j" "y = slot_at (ents h s) j"
    by (auto simp: lookup_ents lookup_spec_Some)
  have l: "i < length (ents h s)" "j < length (ents h s)" "i \<noteq> j"
    using position_Some_nth [OF i(1)] position_Some_nth [OF j(1)] k(3) by auto
  have u: "unat (sl_index (slot_at (ents h s) n)) = widths (take n ?as)"
    "slot_width (slot_at (ents h s) n) = attributes_width (?as ! n)" if "n < length (ents h s)" for n
  proof -
    have "widths (take n ?as) + attributes_width (?as ! n) \<le> widths ?as"
      by (rule widths_end_le) (use that in simp)
    then have "widths (take n ?as) < 2 ^ 32" using w attributes_width_bounds(1) [of "?as ! n"] by linarith
    then show "unat (sl_index (slot_at (ents h s) n)) = widths (take n ?as)"
      by (simp add: slot_at_def take_map unat_of_nat)
    show "slot_width (slot_at (ents h s) n) = attributes_width (?as ! n)"
      using that by (simp add: slot_width_def)
  qed
  show ?thesis
    using l widths_disjoint [of i j ?as] widths_disjoint [of j i ?as]
    unfolding i j u(1) [OF l(1)] u(1) [OF l(2)] u(2) [OF l(1)] u(2) [OF l(2)]
    by (cases "i < j") auto
qed

end

section \<open>Unique shapes\<close>

lemma filter_fst_neq: "k \<notin> fst ` set xs \<Longrightarrow> filter (\<lambda>e. fst e \<noteq> k) xs = xs"
  by (induction xs) auto

definition unique_entries :: "shape_heap \<Rightarrow> shape_addr \<Rightarrow> entries" where
  "unique_entries h u = (case sh_unique h u of None \<Rightarrow> [] | Some s \<Rightarrow> table_entries (us_table s))"

definition unique_proto :: "shape_heap \<Rightarrow> shape_addr \<Rightarrow> js_prototype" where
  "unique_proto h u = (case sh_unique h u of None \<Rightarrow> None | Some s \<Rightarrow> us_prototype s)"

text \<open>Everything but one unique shape is as it was.\<close>

definition unique_step ::
  "shape_heap \<Rightarrow> shape_heap \<Rightarrow> shape_addr \<Rightarrow> shape_addr \<Rightarrow> entries \<Rightarrow> js_prototype \<Rightarrow> bool" where
  "unique_step h h' u v es p \<longleftrightarrow>
     shapes_wf h' \<and> sh_next h \<le> sh_next h' \<and> sh_shared h' = sh_shared h \<and> sh_tables h' = sh_tables h \<and>
     (\<forall>w U. w \<noteq> u \<longrightarrow> sh_unique h w = Some U \<longrightarrow> sh_unique h' w = Some U) \<and>
     sh_unique h' v \<noteq> None \<and> unique_entries h' v = es \<and> unique_proto h' v = p"

lemma unique_tableE:
  assumes "shapes_wf h" "sh_unique h u = Some s"
  obtains es where "us_table s = table_of es" "distinct_keys es" "unique_entries h u = es"
    "unique_proto h u = us_prototype s"
proof -
  have "ptable_wf (us_table s)" using shapes_wfD(2) [OF assms] by simp
  then show thesis
    by (rule ptable_wfE) (use that assms(2) in \<open>simp add: unique_entries_def unique_proto_def\<close>)
qed

lemma unique_entries_distinct:
  assumes "shapes_wf h" "sh_unique h u \<noteq> None" shows "distinct_keys (unique_entries h u)"
proof -
  obtain s where "sh_unique h u = Some s" using assms(2) by auto
  from unique_tableE [OF assms(1) this] show ?thesis by metis
qed

lemma unique_lookup_spec:
  assumes "shapes_wf h" "sh_unique h u \<noteq> None"
  shows "unique_lookup h u k = Some (lookup_spec (unique_entries h u) k)"
proof -
  obtain s where s: "sh_unique h u = Some s" using assms(2) by auto
  from unique_tableE [OF assms(1) s] show ?thesis
    by (metis map_spec_lookup option.simps(9) s table_of_simps(1) unique_lookup_def)
qed

lemma unique_keys_spec:
  assumes "shapes_wf h" "sh_unique h u \<noteq> None"
  shows "unique_keys h u =
    Some (filter is_string_key (map fst (unique_entries h u)) @
          filter is_symbol_key (map fst (unique_entries h u)))"
proof -
  obtain s where s: "sh_unique h u = Some s" using assms(2) by auto
  from unique_tableE [OF assms(1) s] obtain es where "us_table s = table_of es" "unique_entries h u = es"
    by metis
  then show ?thesis by (simp add: unique_keys_def s ptable_keys_def keys_cloned_n_table)
qed

lemma unique_insert_step:
  assumes wf: "shapes_wf h" and "sh_unique h u \<noteq> None"
    and k: "tk_property_key t \<notin> fst ` set (unique_entries h u)"
  shows "\<exists>h'. unique_insert_property_transition h u t = Some (u, h') \<and>
    unique_step h h' u u (unique_entries h u @ [(tk_property_key t, tk_attributes t)]) (unique_proto h u)"
proof -
  obtain s where s: "sh_unique h u = Some s" using assms(2) by auto
  from unique_tableE [OF wf s] obtain es where es: "us_table s = table_of es" "distinct_keys es"
    "unique_entries h u = es" "unique_proto h u = us_prototype s" by metis
  let ?U = "s\<lparr>us_table := table_of (es @ [(tk_property_key t, tk_attributes t)])\<rparr>"
  have "unique_insert_property_transition h u t = Some (u, update_unique u ?U h)"
    using k by (simp add: unique_insert_property_transition_def s es ptable_insert_table)
  moreover have "shapes_wf (update_unique u ?U h)"
    by (rule update_unique_wf [OF wf assms(2)]) (use es(2,3) k in \<open>auto simp: distinct_keys_def\<close>)
  ultimately show ?thesis
    using es by (auto simp: unique_step_def unique_entries_def unique_proto_def update_unique_def)
qed

text \<open>A table moved to a fresh shape.\<close>

lemma unique_move_step:
  assumes wf: "shapes_wf h" and s: "sh_unique h u = Some s" and d: "distinct_keys es"
    and a: "alloc_unique \<lparr>us_table = table_of es, us_prototype = p\<rparr> (update_unique u (us_taken q) h) = (v, h')"
  shows "unique_step h h' u v es p" and "v = sh_next h"
proof -
  have u: "u < sh_next h" using shapes_wfD(2) [OF wf s] by simp
  have wf1: "shapes_wf (update_unique u (us_taken q) h)"
    by (rule update_unique_wf [OF wf]) (use s in \<open>simp_all add: us_taken_def ptable_empty_table distinct_keys_def\<close>)
  have n: "sh_next (update_unique u (us_taken q) h) = sh_next h" by (simp add: update_unique_def)
  note f = alloc_unique_fields [OF a, unfolded n]
  show v: "v = sh_next h" by (rule f(1))
  have "shapes_wf h'" by (rule alloc_unique_wf [OF wf1 a]) (use d in simp)
  moreover have "sh_unique h' w = Some U" if "w \<noteq> u" "sh_unique h w = Some U" for w U
    using that shapes_wfD(2) [OF wf that(2)] by (auto simp: f update_unique_def)
  ultimately show "unique_step h h' u v es p"
    unfolding unique_step_def
    by (auto simp: f update_unique_def unique_entries_def unique_proto_def)
qed

lemma unique_remove_step:
  assumes wf: "shapes_wf h" and "sh_unique h u \<noteq> None" and k: "k \<in> fst ` set (unique_entries h u)"
  shows "\<exists>h'. unique_remove_property_transition h u k = Some (sh_next h, h') \<and>
    unique_step h h' u (sh_next h) (filter (\<lambda>e. fst e \<noteq> k) (unique_entries h u)) (unique_proto h u)"
proof -
  obtain s where s: "sh_unique h u = Some s" using assms(2) by auto
  from unique_tableE [OF wf s] obtain es where es: "us_table s = table_of es" "distinct_keys es"
    "unique_entries h u = es" "unique_proto h u = us_prototype s" by metis
  from k es(3) obtain pre a post where e: "es = pre @ (k, a) # post"
    by (auto dest!: split_list)
  have g: "map_spec es k = Some (length pre, slot_at es (length pre))"
    using map_spec_middle [of pre k a post] es(2) unfolding e by (simp add: slot_at_def)
  have rm: "unique_remove_table (table_of es) k (length pre) = Some (table_of (pre @ post))"
    unfolding e by (rule unique_remove_table_spec) (use es(2) e in simp)
  have d: "distinct_keys (pre @ post)" using es(2) e by (simp add: distinct_keys_def)
  have fl: "filter (\<lambda>e. fst e \<noteq> k) es = pre @ post"
    using es(2) unfolding e by (simp add: distinct_keys_def filter_fst_neq)
  obtain v h' where a: "alloc_unique \<lparr>us_table = table_of (pre @ post), us_prototype = us_prototype s\<rparr>
      (update_unique u (us_taken None) h) = (v, h')" by fastforce
  from unique_move_step [OF wf s d a] a show ?thesis
    by (auto simp: unique_remove_property_transition_def s es(1) g rm es(3,4) fl)
qed

lemma unique_remove_absent:
  assumes wf: "shapes_wf h" and "sh_unique h u \<noteq> None" and k: "k \<notin> fst ` set (unique_entries h u)"
  shows "unique_remove_property_transition h u k = Some (u, h)"
proof -
  obtain s where s: "sh_unique h u = Some s" using assms(2) by auto
  from unique_tableE [OF wf s] obtain es where "us_table s = table_of es" "unique_entries h u = es" by metis
  with k show ?thesis by (simp add: unique_remove_property_transition_def s map_spec_absent)
qed

lemma unique_change_attributes_step:
  assumes wf: "shapes_wf h" and "sh_unique h u \<noteq> None"
    and k: "position (tk_property_key t) (unique_entries h u) = Some i"
  shows "\<exists>h'. unique_change_attributes_transition h u t =
      Some (sh_next h, change_action (slot_at (unique_entries h u) i) (tk_attributes t), h') \<and>
    unique_step h h' u (sh_next h)
      ((unique_entries h u)[i := (tk_property_key t, tk_attributes t)]) (unique_proto h u)"
proof -
  let ?k = "tk_property_key t" and ?b = "tk_attributes t"
  obtain s where s: "sh_unique h u = Some s" using assms(2) by auto
  from unique_tableE [OF wf s] obtain es where es: "us_table s = table_of es" "distinct_keys es"
    "unique_entries h u = es" "unique_proto h u = us_prototype s" by metis
  have i: "i < length es" "fst (es ! i) = ?k" using position_Some_nth k es(3) by auto
  define pre a post where "pre = take i es" and "a = snd (es ! i)" and "post = drop (Suc i) es"
  have "es ! i = (?k, snd (es ! i))" using i(2) by (metis prod.collapse)
  then have e: "es = pre @ (?k, a) # post" and len: "length pre = i"
    using i(1) id_take_nth_drop [OF i(1)] by (simp_all add: pre_def a_def post_def)
  have up: "es[i := (?k, ?b)] = pre @ (?k, ?b) # post" unfolding e len [symmetric] by simp
  have ch: "unique_change_table (table_of es) ?k ?b = Some (table_of (es[i := (?k, ?b)]), change_action (slot_at es i) ?b)"
    using unique_change_table_spec [of pre ?k a post ?b] es(2) unfolding up e len [symmetric] by simp
  have d: "distinct_keys (es[i := (?k, ?b)])" using es(2) i by (simp add: distinct_keys_def map_fst_update)
  obtain v h' where a: "alloc_unique \<lparr>us_table = table_of (es[i := (?k, ?b)]), us_prototype = us_prototype s\<rparr>
      (update_unique u (us_taken None) h) = (v, h')" by fastforce
  from unique_move_step [OF wf s d a] a show ?thesis
    by (auto simp: unique_change_attributes_transition_def s es(1) ch es(3,4))
qed

lemma unique_change_prototype_step:
  assumes wf: "shapes_wf h" and "sh_unique h u \<noteq> None"
  shows "\<exists>h'. unique_change_prototype_transition h u p = Some (sh_next h, h') \<and>
    unique_step h h' u (sh_next h) (unique_entries h u) p"
proof -
  obtain s where s: "sh_unique h u = Some s" using assms(2) by auto
  from unique_tableE [OF wf s] obtain es where es: "us_table s = table_of es" "distinct_keys es"
    "unique_entries h u = es" by metis
  obtain v h' where a: "alloc_unique \<lparr>us_table = table_of es, us_prototype = p\<rparr>
      (update_unique u (us_taken (us_prototype s)) h) = (v, h')" by fastforce
  from unique_move_step [OF wf s es(2) a] a show ?thesis
    by (auto simp: unique_change_prototype_transition_def s es(1,3))
qed

interpretation shared_store: shape_store "\<lambda>h a. shapes_wf h \<and> sh_shared h a \<noteq> None"
  shared_entries shared_lookup shared_insert_property_transition
proof unfold_locales
  fix h a and t :: transition_key
  assume "shapes_wf h \<and> sh_shared h a \<noteq> None" "tk_property_key t \<notin> fst ` set (shared_entries h a)"
  then show "\<exists>s' h'. shared_insert_property_transition h a t = Some (s', h') \<and>
      (shapes_wf h' \<and> sh_shared h' s' \<noteq> None) \<and>
      shared_entries h' s' = shared_entries h a @ [(tk_property_key t, tk_attributes t)]"
    using shared_insert_property_step [of h a t] by (auto simp: shared_step_def)
qed (auto simp: shared_entries_distinct shared_lookup_spec)

interpretation unique_store: shape_store "\<lambda>h u. shapes_wf h \<and> sh_unique h u \<noteq> None"
  unique_entries unique_lookup unique_insert_property_transition
proof unfold_locales
  fix h u and t :: transition_key
  assume "shapes_wf h \<and> sh_unique h u \<noteq> None" "tk_property_key t \<notin> fst ` set (unique_entries h u)"
  then show "\<exists>s' h'. unique_insert_property_transition h u t = Some (s', h') \<and>
      (shapes_wf h' \<and> sh_unique h' s' \<noteq> None) \<and>
      unique_entries h' s' = unique_entries h u @ [(tk_property_key t, tk_attributes t)]"
    using unique_insert_step [of h u t] by (auto simp: unique_step_def)
qed (auto simp: unique_entries_distinct unique_lookup_spec)

section \<open>Shapes\<close>

datatype shape = Unique shape_addr | Shared shape_addr

definition TRANSITION_COUNT_MAX :: u16 where
  "TRANSITION_COUNT_MAX = 1024"

text \<open>What the transitions do with the shared shape they get.\<close>

definition limit_transitions :: "shape_addr \<Rightarrow> shape_heap \<Rightarrow> (shape \<times> shape_heap) panics" where
  "limit_transitions a h =
     do {
       s \<leftarrow> sh_shared h a;
       if TRANSITION_COUNT_MAX \<le> ss_transition_count s
       then map_option (\<lambda>(u, h). (Unique u, h)) (shared_to_unique h a)
       else Some (Shared a, h)
     }"

fun shape_insert_property_transition ::
  "shape_heap \<Rightarrow> shape \<Rightarrow> transition_key \<Rightarrow> (shape \<times> shape_heap) panics" where
  "shape_insert_property_transition h (Shared a) key =
     do { (a, h) \<leftarrow> shared_insert_property_transition h a key; limit_transitions a h }"
| "shape_insert_property_transition h (Unique u) key =
     map_option (\<lambda>(u, h). (Unique u, h)) (unique_insert_property_transition h u key)"

fun shape_change_attributes_transition ::
  "'m index_map_ops \<Rightarrow> shape_heap \<Rightarrow> shape \<Rightarrow> transition_key \<Rightarrow>
     (shape \<times> change_transition_action \<times> shape_heap) panics" where
  "shape_change_attributes_transition im h (Shared a) key =
     do {
       (a, action, h) \<leftarrow> shared_change_attributes_transition im h a key;
       (shape, h) \<leftarrow> limit_transitions a h;
       Some (shape, action, h)
     }"
| "shape_change_attributes_transition im h (Unique u) key =
     map_option (\<lambda>(u, action, h). (Unique u, action, h)) (unique_change_attributes_transition h u key)"

fun shape_remove_property_transition ::
  "'m index_map_ops \<Rightarrow> shape_heap \<Rightarrow> shape \<Rightarrow> property_key \<Rightarrow> (shape \<times> shape_heap) panics" where
  "shape_remove_property_transition im h (Shared a) key =
     do { (a, h) \<leftarrow> shared_remove_property_transition im h a key; limit_transitions a h }"
| "shape_remove_property_transition im h (Unique u) key =
     map_option (\<lambda>(u, h). (Unique u, h)) (unique_remove_property_transition h u key)"

fun shape_change_prototype_transition ::
  "shape_heap \<Rightarrow> shape \<Rightarrow> js_prototype \<Rightarrow> (shape \<times> shape_heap) panics" where
  "shape_change_prototype_transition h (Shared a) prototype =
     do { (a, h) \<leftarrow> shared_change_prototype_transition h a prototype; limit_transitions a h }"
| "shape_change_prototype_transition h (Unique u) prototype =
     map_option (\<lambda>(u, h). (Unique u, h)) (unique_change_prototype_transition h u prototype)"

fun shape_prototype :: "shape_heap \<Rightarrow> shape \<Rightarrow> js_prototype panics" where
  "shape_prototype h (Shared a) = map_option ss_prototype (sh_shared h a)"
| "shape_prototype h (Unique u) = map_option us_prototype (sh_unique h u)"

fun shape_lookup :: "shape_heap \<Rightarrow> shape \<Rightarrow> property_key \<Rightarrow> slot option panics" where
  "shape_lookup h (Shared a) key = shared_lookup h a key"
| "shape_lookup h (Unique u) key = unique_lookup h u key"

fun shape_keys :: "shape_heap \<Rightarrow> shape \<Rightarrow> property_key list panics" where
  "shape_keys h (Shared a) = shared_keys h a"
| "shape_keys h (Unique u) = unique_keys h u"

section \<open>Transitions of shapes\<close>

fun shape_valid :: "shape_heap \<Rightarrow> shape \<Rightarrow> bool" where
  "shape_valid h (Shared a) = (sh_shared h a \<noteq> None)"
| "shape_valid h (Unique u) = (sh_unique h u \<noteq> None)"

fun shape_entries :: "shape_heap \<Rightarrow> shape \<Rightarrow> entries" where
  "shape_entries h (Shared a) = shared_entries h a"
| "shape_entries h (Unique u) = unique_entries h u"

fun shape_proto :: "shape_heap \<Rightarrow> shape \<Rightarrow> js_prototype" where
  "shape_proto h (Shared a) = shared_proto h a"
| "shape_proto h (Unique u) = unique_proto h u"

fun shape_clean :: "shape_heap \<Rightarrow> property_key \<Rightarrow> shape \<Rightarrow> bool" where
  "shape_clean h k (Shared a) = clean_chain h k a"
| "shape_clean h k (Unique u) = True"

text \<open>
  \<open>shape_step h h' s s' es p\<close>: from \<open>s\<close> a transition made \<open>s'\<close>, with entries \<open>es\<close> and prototype
  \<open>p\<close>. Every shape but \<open>s\<close>, if that is unique, keeps its meaning, and a unique \<open>s'\<close> is \<open>s\<close> or a
  fresh one: no two objects come to share a unique shape.
\<close>

definition shape_step ::
  "shape_heap \<Rightarrow> shape_heap \<Rightarrow> shape \<Rightarrow> shape \<Rightarrow> entries \<Rightarrow> js_prototype \<Rightarrow> bool" where
  "shape_step h h' s s' es p \<longleftrightarrow>
     shapes_wf h' \<and> shape_valid h' s' \<and> shape_entries h' s' = es \<and> shape_proto h' s' = p \<and>
     (\<forall>r. shape_valid h r \<longrightarrow> (\<forall>u. r = Unique u \<longrightarrow> r \<noteq> s) \<longrightarrow>
        shape_valid h' r \<and> shape_entries h' r = shape_entries h r \<and> shape_proto h' r = shape_proto h r) \<and>
     (\<forall>u. s' = Unique u \<longrightarrow> s' = s \<or> \<not> shape_valid h s')"

lemma shape_stepD:
  assumes "shape_step h h' s s' es p"
  shows "shapes_wf h'" "shape_valid h' s'" "shape_entries h' s' = es" "shape_proto h' s' = p"
    and "shape_valid h r \<Longrightarrow> \<forall>u. r = Unique u \<longrightarrow> r \<noteq> s \<Longrightarrow>
      shape_valid h' r \<and> shape_entries h' r = shape_entries h r \<and> shape_proto h' r = shape_proto h r"
    and "s' = Unique u \<Longrightarrow> s' = s \<or> \<not> shape_valid h s'"
  using assms unfolding shape_step_def by blast+

lemma shapes_ext_shape:
  assumes "shapes_ext h h'" "shape_valid h r"
  shows "shape_valid h' r \<and> shape_entries h' r = shape_entries h r \<and> shape_proto h' r = shape_proto h r"
proof (cases r)
  case (Unique u)
  then have "sh_unique h' u = sh_unique h u" using assms by (auto simp: shapes_ext_def)
  with assms(2) Unique show ?thesis by (simp add: unique_entries_def unique_proto_def)
next
  case (Shared a)
  then show ?thesis using shapes_ext_views [OF assms(1), of a] assms(2) by simp
qed

lemma limit_transitions_step:
  assumes "shared_step h h' b es p"
  shows "\<exists>s' h''. limit_transitions b h' = Some (s', h'') \<and> shape_step h h'' (Shared a) s' es p"
proof -
  note D = shared_stepD [OF assms]
  obtain s where s: "sh_shared h' b = Some s" using D(3) by auto
  show ?thesis
  proof (cases "TRANSITION_COUNT_MAX \<le> ss_transition_count s")
    case True
    from shared_to_unique_spec [OF D(1,3)] obtain u h'' where
      u: "shared_to_unique h' b = Some (u, h'')" "shapes_wf h''" "shapes_ext h' h''"
        "sh_unique h'' u = Some \<lparr>us_table = table_of (shared_entries h' b), us_prototype = shared_proto h' b\<rparr>"
        "u = sh_next h'"
      by blast
    have "sh_unique h u = None"
    proof (rule ccontr)
      assume "sh_unique h u \<noteq> None"
      then have "sh_unique h' u \<noteq> None" using D(2) by (auto simp: shapes_ext_def)
      then show False using fresh_addr(2) [OF D(1)] u(5) by simp
    qed
    then have "shape_step h h'' (Shared a) (Unique u) es p"
      using u shapes_ext_shape [OF shapes_ext_trans [OF D(2) u(3)]]
      by (auto simp: shape_step_def unique_entries_def unique_proto_def D(4,5))
    with u(1) show ?thesis by (simp add: limit_transitions_def s True)
  next
    case False
    have "shape_step h h' (Shared a) (Shared b) es p"
      using D shapes_ext_shape [OF D(2)] by (auto simp: shape_step_def)
    with False show ?thesis by (simp add: limit_transitions_def s)
  qed
qed

lemma unique_step_shape:
  assumes "unique_step h h' u v es p" "v = u \<or> sh_unique h v = None"
  shows "shape_step h h' (Unique u) (Unique v) es p"
proof -
  have v: "shape_valid h' r \<and> shape_entries h' r = shape_entries h r \<and> shape_proto h' r = shape_proto h r"
    if r: "shape_valid h r" "\<forall>w. r = Unique w \<longrightarrow> r \<noteq> Unique u" for r
  proof (cases r)
    case (Unique w)
    then obtain U where "sh_unique h w = Some U" "sh_unique h' w = Some U"
      using assms(1) r by (auto simp: unique_step_def)
    with Unique show ?thesis by (simp add: unique_entries_def unique_proto_def)
  next
    case (Shared a)
    with assms(1) r(1) show ?thesis by (auto simp: unique_step_def shared_entries_def shared_proto_def)
  qed
  show ?thesis
    unfolding shape_step_def using assms v by (auto simp: unique_step_def)
qed

lemma shape_insert_step:
  assumes wf: "shapes_wf h" and s: "shape_valid h s"
    and k: "tk_property_key t \<notin> fst ` set (shape_entries h s)"
  shows "\<exists>s' h'. shape_insert_property_transition h s t = Some (s', h') \<and>
    shape_step h h' s s' (shape_entries h s @ [(tk_property_key t, tk_attributes t)]) (shape_proto h s)"
proof (cases s)
  case (Shared a)
  from shared_insert_property_step [OF wf, of a t] s k Shared obtain b h1 where
    b: "shared_insert_property_transition h a t = Some (b, h1)"
      "shared_step h h1 b (shared_entries h a @ [(tk_property_key t, tk_attributes t)]) (shared_proto h a)"
    by auto
  from limit_transitions_step [OF b(2), of a] b(1) Shared show ?thesis by auto
next
  case (Unique u)
  from unique_insert_step [OF wf, of u t] s k Unique obtain h' where
    "unique_insert_property_transition h u t = Some (u, h')"
    "unique_step h h' u u (unique_entries h u @ [(tk_property_key t, tk_attributes t)]) (unique_proto h u)"
    by auto
  with unique_step_shape [OF this(2)] Unique show ?thesis by auto
qed

lemma shape_change_prototype_step:
  assumes wf: "shapes_wf h" and s: "shape_valid h s"
  shows "\<exists>s' h'. shape_change_prototype_transition h s p = Some (s', h') \<and>
    shape_step h h' s s' (shape_entries h s) p"
proof (cases s)
  case (Shared a)
  from shared_change_prototype_step [OF wf, of a p] s Shared obtain b h1 where
    b: "shared_change_prototype_transition h a p = Some (b, h1)"
      "shared_step h h1 b (shared_entries h a) p" by auto
  from limit_transitions_step [OF b(2), of a] b(1) Shared show ?thesis by auto
next
  case (Unique u)
  from unique_change_prototype_step [OF wf, of u p] s Unique obtain h' where
    "unique_change_prototype_transition h u p = Some (sh_next h, h')"
    "unique_step h h' u (sh_next h) (unique_entries h u) p" by auto
  with unique_step_shape [OF this(2)] fresh_addr(2) [OF wf] Unique show ?thesis by auto
qed

lemma shape_remove_step:
  assumes wf: "shapes_wf h" and im: "index_map_laws im" and s: "shape_valid h s"
    and k: "k \<in> fst ` set (shape_entries h s)"
  shows "\<exists>s' h' es. shape_remove_property_transition im h s k = Some (s', h') \<and>
    shape_step h h' s s' es (shape_proto h s) \<and>
    key_widths es = filter (\<lambda>q. fst q \<noteq> k) (key_widths (shape_entries h s)) \<and>
    (shape_clean h k s \<longrightarrow> es = filter (\<lambda>e. fst e \<noteq> k) (shape_entries h s))"
proof (cases s)
  case (Shared a)
  from shared_remove_step [OF wf im, of a k] s k Shared obtain b h1 es where
    b: "shared_remove_property_transition im h a k = Some (b, h1)"
      "shared_step h h1 b es (shared_proto h a)"
      "key_widths es = filter (\<lambda>q. fst q \<noteq> k) (key_widths (shared_entries h a))"
      "clean_chain h k a \<longrightarrow> es = filter (\<lambda>e. fst e \<noteq> k) (shared_entries h a)"
    by auto
  from limit_transitions_step [OF b(2), of a] b Shared show ?thesis by auto
next
  case (Unique u)
  let ?es = "filter (\<lambda>e. fst e \<noteq> k) (unique_entries h u)"
  from unique_remove_step [OF wf, of u k] s k Unique obtain h' where
    h': "unique_remove_property_transition h u k = Some (sh_next h, h')"
    "unique_step h h' u (sh_next h) ?es (unique_proto h u)"
    by auto
  have "key_widths ?es = filter (\<lambda>q. fst q \<noteq> k) (key_widths (unique_entries h u))"
    by (rule key_widths_filter)
  with h' unique_step_shape [OF h'(2)] fresh_addr(2) [OF wf] Unique show ?thesis by auto
qed

lemma shape_change_attributes_step:
  assumes wf: "shapes_wf h" and im: "index_map_laws im" and s: "shape_valid h s"
    and k: "position (tk_property_key t) (shape_entries h s) = Some i"
  shows "\<exists>s' h' es. shape_change_attributes_transition im h s t =
      Some (s', change_action (slot_at (shape_entries h s) i) (tk_attributes t), h') \<and>
    shape_step h h' s s' es (shape_proto h s) \<and>
    key_widths es = (key_widths (shape_entries h s))[i := (tk_property_key t, attributes_width (tk_attributes t))] \<and>
    es ! i = (tk_property_key t, tk_attributes t) \<and>
    (width_match (snd (shape_entries h s ! i)) (tk_attributes t) \<or> shape_clean h (tk_property_key t) s \<longrightarrow>
       es = (shape_entries h s)[i := (tk_property_key t, tk_attributes t)])"
proof (cases s)
  case (Shared a)
  from shared_change_attributes_step [OF wf im, of a t i] s k Shared obtain b h1 es where
    b: "shared_change_attributes_transition im h a t =
        Some (b, change_action (slot_at (shared_entries h a) i) (tk_attributes t), h1)"
      "shared_step h h1 b es (shared_proto h a)"
      "key_widths es = (key_widths (shared_entries h a))[i := (tk_property_key t, attributes_width (tk_attributes t))]"
      "es ! i = (tk_property_key t, tk_attributes t)"
      "width_match (snd (shared_entries h a ! i)) (tk_attributes t) \<or> clean_chain h (tk_property_key t) a \<longrightarrow>
         es = (shared_entries h a)[i := (tk_property_key t, tk_attributes t)]"
    by auto
  from limit_transitions_step [OF b(2), of a] b Shared show ?thesis by auto
next
  case (Unique u)
  let ?es = "(unique_entries h u)[i := (tk_property_key t, tk_attributes t)]"
  from unique_change_attributes_step [OF wf, of u t i] s k Unique obtain h' where
    h': "unique_change_attributes_transition h u t =
        Some (sh_next h, change_action (slot_at (unique_entries h u) i) (tk_attributes t), h')"
      "unique_step h h' u (sh_next h) ?es (unique_proto h u)"
    by auto
  with unique_step_shape [OF h'(2)] fresh_addr(2) [OF wf] position_Some_nth [of _ "unique_entries h u" i] k Unique
  show ?thesis by (auto simp: key_widths_update)
qed

lemma shape_lookup_spec:
  assumes "shapes_wf h" "shape_valid h s"
  shows "shape_lookup h s k = Some (lookup_spec (shape_entries h s) k)"
  using assms by (cases s) (simp_all add: shared_lookup_spec unique_lookup_spec)

lemma shape_keys_spec:
  assumes "shapes_wf h" "shape_valid h s"
  shows "shape_keys h s =
    Some (filter is_string_key (map fst (shape_entries h s)) @
          filter is_symbol_key (map fst (shape_entries h s)))"
  using assms by (cases s) (simp_all add: shared_keys_spec unique_keys_spec)

lemma shape_prototype_spec:
  assumes "shape_valid h s" shows "shape_prototype h s = Some (shape_proto h s)"
  using assms by (cases s) (auto simp: shared_proto_def unique_proto_def)

lemma shape_entries_distinct:
  assumes "shapes_wf h" "shape_valid h s" shows "distinct_keys (shape_entries h s)"
  using assms by (cases s) (simp_all add: shared_entries_distinct unique_entries_distinct)

interpretation shapes: shape_store "\<lambda>h s. shapes_wf h \<and> shape_valid h s"
  shape_entries shape_lookup shape_insert_property_transition
proof unfold_locales
  fix h s and t :: transition_key
  assume "shapes_wf h \<and> shape_valid h s" "tk_property_key t \<notin> fst ` set (shape_entries h s)"
  then show "\<exists>s' h'. shape_insert_property_transition h s t = Some (s', h') \<and>
      (shapes_wf h' \<and> shape_valid h' s') \<and>
      shape_entries h' s' = shape_entries h s @ [(tk_property_key t, tk_attributes t)]"
    using shape_insert_step [of h s t] by (auto simp: shape_step_def)
qed (auto simp: shape_entries_distinct shape_lookup_spec)

end
