(* ===== verification/ShapeProperties.thy ===== *)
theory ShapeProperties
  imports Shape
begin

text \<open>
  The properties of shapes: what a transition does to the shape it is made from, to the shape it
  makes and to every other shape of the store. The examples start from the root shape.
\<close>

section \<open>The root shape\<close>

definition root_shape :: "shape \<times> shape_heap" where
  "root_shape = apfst Shared (shared_root (sh_empty (\<lambda>_ _. False)))"

lemma shared_root_wf:
  assumes wf: "shapes_wf h" and r: "shared_root h = (a, h')"
  shows "shapes_wf h'" "sh_shared h' a \<noteq> None" "shared_entries h' a = []"
proof -
  obtain t h1 where t: "alloc_table ptable_empty h = (t, h1)" by fastforce
  let ?s = "\<lparr>ss_forward = ft_default, ss_property_count = 0, ss_prototype = None, ss_table = t,
    ss_previous = None, ss_transition_count = 0, ss_flags = 0\<rparr>"
  have wf1: "shapes_wf h1"
    by (rule alloc_table_wf [OF wf t]) (simp add: ptable_empty_table distinct_keys_def)
  have T: "sh_tables h1 t = Some ptable_empty" using t by (auto simp: alloc_table_def)
  have a: "alloc_shared ?s h1 = (a, h')" using r t by (simp add: shared_root_def)
  have T': "sh_tables h1 (ss_table ?s) = Some ptable_empty" using T by simp
  note v = alloc_shared_views [OF a T']
  show "sh_shared h' a \<noteq> None" "shared_entries h' a = []" using v by simp_all
  show "shapes_wf h'"
    by (rule alloc_shared_wf [OF wf1 a]) (use T v in \<open>simp_all add: table_counted_def chain_ok_def
        is_insert_transition_type_def is_prototype_transition_type_def mask_simps\<close>)
qed

lemma root_shape_wf:
  "shapes_wf (snd root_shape)" "shape_valid (snd root_shape) (fst root_shape)"
  "shape_entries (snd root_shape) (fst root_shape) = []"
  using shared_root_wf [OF shapes_wf_empty, of "\<lambda>_ _. False"] prod.collapse
  by (simp_all add: root_shape_def apfst_def map_prod_def split: prod.splits)

definition tkey :: "property_key \<Rightarrow> slot_attributes \<Rightarrow> transition_key" where
  "tkey k a = \<lparr>tk_property_key = k, tk_attributes = a\<rparr>"

lemma tkey_simps [simp]: "tk_property_key (tkey k a) = k" "tk_attributes (tkey k a) = a"
  by (simp_all add: tkey_def)

text \<open>The root shape with one property, for the witnesses.\<close>

lemma one_property_shape:
  obtains s h where "shapes_wf h" "shape_valid h s" "shape_entries h s = [(PKIndex 1, 7)]"
proof -
  from shape_insert_step [OF root_shape_wf(1,2), of "tkey (PKIndex 1) 7"] root_shape_wf(3)
  show thesis using that by (auto simp: shape_step_def)
qed

lemma shape_step_others:
  assumes "shapes_wf h" "shape_step h h' s s' es p" "shape_valid h r" "\<forall>u. r = Unique u \<longrightarrow> r \<noteq> s"
  shows "shape_lookup h' r k = shape_lookup h r k"
  using shape_stepD(1) [OF assms(2)] shape_stepD(5) [OF assms(2-4)] assms(1,3)
  by (simp add: shape_lookup_spec)

section \<open>Transitions\<close>

text \<open>
  Adding a property that a shape lacks never panics and gives a shape in which the property has
  the slot after the last one and every other lookup is unchanged. No other shape is affected,
  although shapes share tables and caches: only a unique shape is changed in place, and then it is
  the one the transition started from.
\<close>
theorem shape_insert_lookup:
  assumes "shapes_wf h" "shape_valid h s" "shape_lookup h s (tk_property_key t) = Some None"
  shows "\<exists>s' h'. shape_insert_property_transition h s t = Some (s', h') \<and> shapes_wf h' \<and> shape_valid h' s' \<and>
    (\<forall>k. shape_lookup h' s' k =
       (if k = tk_property_key t
        then Some (Some \<lparr>sl_index = word_of_nat (widths (map snd (shape_entries h s))), sl_attributes = tk_attributes t\<rparr>)
        else shape_lookup h s k)) \<and>
    (\<forall>r k. shape_valid h r \<longrightarrow> (\<forall>u. r = Unique u \<longrightarrow> r \<noteq> s) \<longrightarrow> shape_lookup h' r k = shape_lookup h r k)"
proof -
  have k: "tk_property_key t \<notin> fst ` set (shape_entries h s)"
    using assms shapes.absent_lookup [of h s] by auto
  from shape_insert_step [OF assms(1,2) k] obtain s' h' where i:
    "shape_insert_property_transition h s t = Some (s', h')"
    "shape_step h h' s s' (shape_entries h s @ [(tk_property_key t, tk_attributes t)]) (shape_proto h s)" by blast
  then show ?thesis
    using shapes.lookup_after_insert [of h s t s' h'] assms shape_stepD(1,2) [OF i(2)]
      shape_step_others [OF assms(1) i(2)]
    by auto
qed

theorem shape_insert_lookup_witness:
  "\<exists>h s s' h'. shape_insert_property_transition h s (tkey (PKIndex 2) 7) = Some (s', h') \<and>
     shape_lookup h' s' (PKIndex 2) = Some (Some \<lparr>sl_index = 1, sl_attributes = 7\<rparr>)"
proof -
  obtain s h where s: "shapes_wf h" "shape_valid h s" "shape_entries h s = [(PKIndex 1, 7)]"
    by (rule one_property_shape)
  have l: "shape_lookup h s (tk_property_key (tkey (PKIndex 2) 7)) = Some None"
    using s by (simp add: shape_lookup_spec lookup_spec_def)
  from shape_insert_lookup [OF s(1,2) l] obtain s' h' where
    i: "shape_insert_property_transition h s (tkey (PKIndex 2) 7) = Some (s', h')"
    and l': "\<forall>k. shape_lookup h' s' k = (if k = PKIndex 2
        then Some (Some \<lparr>sl_index = word_of_nat (widths (map snd (shape_entries h s))), sl_attributes = 7\<rparr>)
        else shape_lookup h s k)" by auto
  have "shape_lookup h' s' (PKIndex 2) = Some (Some \<lparr>sl_index = 1, sl_attributes = 7\<rparr>)"
    unfolding l' [rule_format] s(3)
    by (simp add: attributes_width_def is_accessor_attributes_def flags_contains_def mask_simps)
  with i show ?thesis by blast
qed

text \<open>
  In every shape, the storage of two properties does not overlap: with \<open>width\<close> one for a value and
  two for an accessor pair, their slots are disjoint intervals, while the layout fits \<open>u32\<close>.
\<close>
theorem shape_slots_disjoint:
  assumes "shapes_wf h" "shape_valid h s" "widths (map snd (shape_entries h s)) \<le> 2 ^ 32"
    and "shape_lookup h s k = Some (Some x)" "shape_lookup h s k' = Some (Some y)" "k \<noteq> k'"
  shows "unat (sl_index x) + slot_width x \<le> unat (sl_index y) \<or>
    unat (sl_index y) + slot_width y \<le> unat (sl_index x)"
  using shapes.slots_disjoint [of h s k x k' y] assms by blast

lemma two_property_shape:
  obtains s h where "shapes_wf h" "shape_valid h s" "shape_entries h s = [(PKIndex 1, 24), (PKIndex 2, 7)]"
proof -
  from shape_insert_step [OF root_shape_wf(1,2), of "tkey (PKIndex 1) 24"] root_shape_wf(3)
  obtain s h where s: "shapes_wf h" "shape_valid h s" "shape_entries h s = [(PKIndex 1, 24)]"
    by (auto simp: shape_step_def)
  from shape_insert_step [OF s(1,2), of "tkey (PKIndex 2) 7"] s(3) show thesis
    using that by (auto simp: shape_step_def)
qed

theorem shape_slots_disjoint_witness:
  "\<exists>h s x y. shape_lookup h s (PKIndex 1) = Some (Some x) \<and> shape_lookup h s (PKIndex 2) = Some (Some y) \<and>
     (unat (sl_index x) + slot_width x \<le> unat (sl_index y) \<or> unat (sl_index y) + slot_width y \<le> unat (sl_index x))"
proof -
  obtain s h where s: "shapes_wf h" "shape_valid h s" "shape_entries h s = [(PKIndex 1, 24), (PKIndex 2, 7)]"
    by (rule two_property_shape)
  have w: "widths (map snd (shape_entries h s)) \<le> 2 ^ 32"
    using s(3) attributes_width_bounds(2) [of 24] attributes_width_bounds(2) [of 7] by simp
  have l: "\<exists>x. shape_lookup h s (PKIndex 1) = Some (Some x)" "\<exists>x. shape_lookup h s (PKIndex 2) = Some (Some x)"
    using s by (simp_all add: shape_lookup_spec lookup_spec_def)
  then obtain x y where "shape_lookup h s (PKIndex 1) = Some (Some x)" "shape_lookup h s (PKIndex 2) = Some (Some y)"
    by blast
  with shape_slots_disjoint [OF s(1,2) w this] show ?thesis by auto
qed

text \<open>
  Removing a property never panics and never runs out of the chain of transitions it rolls back;
  the result has the remaining keys in their order and with their widths, and no other shape changes. The attributes of
  the remaining properties survive when the chain since the insertion of the property has no
  attribute change of a property that is not the last (\<open>shape_clean\<close>; always for unique shapes).
\<close>
theorem shape_remove_keys:
  assumes "shapes_wf h" "index_map_laws im" "shape_valid h s" "k \<in> fst ` set (shape_entries h s)"
  shows "\<exists>s' h'. shape_remove_property_transition im h s k = Some (s', h') \<and> shapes_wf h' \<and> shape_valid h' s' \<and>
    shape_lookup h' s' k = Some None \<and>
    key_widths (shape_entries h' s') = filter (\<lambda>q. fst q \<noteq> k) (key_widths (shape_entries h s)) \<and>
    (shape_clean h k s \<longrightarrow> shape_entries h' s' = filter (\<lambda>e. fst e \<noteq> k) (shape_entries h s)) \<and>
    (\<forall>r k. shape_valid h r \<longrightarrow> (\<forall>u. r = Unique u \<longrightarrow> r \<noteq> s) \<longrightarrow> shape_lookup h' r k = shape_lookup h r k)"
proof -
  from shape_remove_step [OF assms] obtain s' h' es where i:
    "shape_remove_property_transition im h s k = Some (s', h')" "shape_step h h' s s' es (shape_proto h s)"
    "key_widths es = filter (\<lambda>q. fst q \<noteq> k) (key_widths (shape_entries h s))"
    "shape_clean h k s \<longrightarrow> es = filter (\<lambda>e. fst e \<noteq> k) (shape_entries h s)" by blast
  note d = shape_stepD [OF i(2)]
  have "k \<notin> fst ` set (key_widths es)" unfolding i(3) by auto
  then have "shape_lookup h' s' k = Some None"
    using d by (simp add: shape_lookup_spec lookup_spec_None image_iff)
  with i d shape_step_others [OF assms(1) i(2)] show ?thesis by auto
qed

theorem shape_remove_keys_witness:
  "\<exists>h s s' h'. shape_remove_property_transition list_index_map h s (PKIndex 1) = Some (s', h') \<and>
     map fst (shape_entries h s) = [PKIndex 1, PKIndex 2] \<and> map fst (shape_entries h' s') = [PKIndex 2]"
proof -
  obtain s h where s: "shapes_wf h" "shape_valid h s" "shape_entries h s = [(PKIndex 1, 24), (PKIndex 2, 7)]"
    by (rule two_property_shape)
  have "PKIndex 1 \<in> fst ` set (shape_entries h s)" using s(3) by simp
  from shape_remove_keys [OF s(1) list_index_map_laws s(2) this] obtain s' h' where
    r': "shape_remove_property_transition list_index_map h s (PKIndex 1) = Some (s', h')"
    and r: "key_widths (shape_entries h' s') = filter (\<lambda>q. fst q \<noteq> PKIndex 1) (key_widths (shape_entries h s))" by blast
  moreover have "map fst (shape_entries h' s') = [PKIndex 2]"
    using arg_cong [OF r, of "map fst"] by (simp add: s(3))
  moreover have "map fst (shape_entries h s) = [PKIndex 1, PKIndex 2]" by (simp add: s(3))
  ultimately show ?thesis using r' by (intro exI conjI)
qed

text \<open>
  Changing the attributes of a property never panics; the property gets the new attributes, the
  keys keep their order and the others their widths, the reported action is the one the widths call for, and no other shape
  changes. The attributes of the others survive unless the width changes on a chain that is not
  \<open>shape_clean\<close>.
\<close>
theorem shape_change_attributes_entries:
  assumes "shapes_wf h" "index_map_laws im" "shape_valid h s"
    and "position (tk_property_key t) (shape_entries h s) = Some i"
  shows "\<exists>s' h'. shape_change_attributes_transition im h s t =
      Some (s', change_action (slot_at (shape_entries h s) i) (tk_attributes t), h') \<and>
    shapes_wf h' \<and> shape_valid h' s' \<and>
    key_widths (shape_entries h' s') =
      (key_widths (shape_entries h s))[i := (tk_property_key t, attributes_width (tk_attributes t))] \<and>
    shape_entries h' s' ! i = (tk_property_key t, tk_attributes t) \<and>
    (width_match (snd (shape_entries h s ! i)) (tk_attributes t) \<or> shape_clean h (tk_property_key t) s \<longrightarrow>
       shape_entries h' s' = (shape_entries h s)[i := (tk_property_key t, tk_attributes t)]) \<and>
    (\<forall>r k. shape_valid h r \<longrightarrow> (\<forall>u. r = Unique u \<longrightarrow> r \<noteq> s) \<longrightarrow> shape_lookup h' r k = shape_lookup h r k)"
proof -
  from shape_change_attributes_step [OF assms] obtain s' h' es where i:
    "shape_change_attributes_transition im h s t =
       Some (s', change_action (slot_at (shape_entries h s) i) (tk_attributes t), h')"
    "shape_step h h' s s' es (shape_proto h s)"
    "key_widths es = (key_widths (shape_entries h s))[i := (tk_property_key t, attributes_width (tk_attributes t))]"
    "es ! i = (tk_property_key t, tk_attributes t)"
    "width_match (snd (shape_entries h s ! i)) (tk_attributes t) \<or> shape_clean h (tk_property_key t) s \<longrightarrow>
       es = (shape_entries h s)[i := (tk_property_key t, tk_attributes t)]" by blast
  from i(1,3-5) shape_stepD(1-3) [OF i(2)] shape_step_others [OF assms(1) i(2)] show ?thesis
    by metis
qed

theorem shape_change_attributes_entries_witness:
  "\<exists>h s s' action h'. shape_change_attributes_transition list_index_map h s (tkey (PKIndex 2) 0) = Some (s', action, h') \<and>
     shape_entries h' s' ! 1 = (PKIndex 2, 0)"
proof -
  obtain s h where s: "shapes_wf h" "shape_valid h s" "shape_entries h s = [(PKIndex 1, 24), (PKIndex 2, 7)]"
    by (rule two_property_shape)
  have "position (tk_property_key (tkey (PKIndex 2) 0)) (shape_entries h s) = Some 1" using s(3) by simp
  from shape_change_attributes_entries [OF s(1) list_index_map_laws s(2) this] show ?thesis
    unfolding tkey_simps by blast
qed

text \<open>
  Changing the prototype never panics, keeps every property at its slot, and gives the new
  prototype to the resulting shape only.
\<close>
theorem shape_change_prototype_only:
  assumes "shapes_wf h" "shape_valid h s"
  shows "\<exists>s' h'. shape_change_prototype_transition h s p = Some (s', h') \<and> shapes_wf h' \<and>
    shape_prototype h' s' = Some p \<and> (\<forall>k. shape_lookup h' s' k = shape_lookup h s k) \<and>
    (\<forall>r. shape_valid h r \<longrightarrow> (\<forall>u. r = Unique u \<longrightarrow> r \<noteq> s) \<longrightarrow> shape_prototype h' r = shape_prototype h r)"
proof -
  from shape_change_prototype_step [OF assms, of p] obtain s' h' where i:
    "shape_change_prototype_transition h s p = Some (s', h')" "shape_step h h' s s' (shape_entries h s) p" by blast
  note d = shape_stepD [OF i(2)]
  have "\<forall>k. shape_lookup h' s' k = shape_lookup h s k" using d assms by (simp add: shape_lookup_spec)
  with i(1) d show ?thesis using shape_prototype_spec by auto
qed

theorem shape_change_prototype_only_witness:
  "\<exists>s' h'. shape_change_prototype_transition (snd root_shape) (fst root_shape) (Some 5) = Some (s', h') \<and>
     shape_prototype h' s' = Some (Some 5)"
  using shape_change_prototype_only [OF root_shape_wf(1,2), of "Some 5"] by blast

section \<open>An attribute change that is lost\<close>

text \<open>
  On one object: \<open>a\<close> and \<open>b\<close> are added with all attributes, \<open>a\<close> is made not writable, \<open>b\<close> is
  removed. The rollback reads the last property of each shape it passes, so it takes the change of
  \<open>a\<close> for one of \<open>b\<close> and drops it.
\<close>

definition lost_configuration :: "property_key \<Rightarrow> property_key \<Rightarrow> (slot option \<times> slot option) panics" where
  "lost_configuration a b =
     do {
       let (s, h) = root_shape;
       (s, h) \<leftarrow> shape_insert_property_transition h s (tkey a 7);
       (s, h) \<leftarrow> shape_insert_property_transition h s (tkey b 7);
       (s, _, h) \<leftarrow> shape_change_attributes_transition list_index_map h s (tkey a 6);
       before_removal \<leftarrow> shape_lookup h s a;
       (s, h) \<leftarrow> shape_remove_property_transition list_index_map h s b;
       after_removal \<leftarrow> shape_lookup h s a;
       Some (before_removal, after_removal)
     }"

lemmas transition_defs = shared_insert_property_transition_def shared_new_property_def
  add_property_deep_clone_if_needed_def ptable_insert_def update_table_def update_forward_def ft_defs
  alloc_shared_def alloc_table_def gc_collect_def tm_insert_def tm_get_def tm_default_def
  get_and_increment_count_def Let_def weak_upgrade_def limit_transitions_def TRANSITION_COUNT_MAX_def
  ft_default_def ptable_empty_def insert_property_transition_from_def slot_from_previous_def
  slot_width_def attributes_width_def is_accessor_attributes_def flags_contains_def
  shared_change_attributes_transition_def shared_change_attributes_miss_def shared_configure_def
  ptable_get_expect_def set_attributes_at_index_def change_action_def width_match_def
  configure_property_transition_from_def shared_remove_property_transition_def rollback_before_def
  list_index_map_def is_prototype_transition_type_def is_insert_transition_type_def
  shared_property_def shared_property_index_def vec_get_def shared_lookup_def root_shape_def
  shared_root_def sh_empty_def tkey_def

lemma u16_1024_le: "\<not> (1024 :: u16) \<le> 1"
  by (simp add: word_le_nat_alt)

text \<open>
  The attributes of a remaining property do not always survive a removal: after \<open>a\<close> was made not
  writable (flags 6), removing \<open>b\<close> makes \<open>a\<close> writable again (flags 7).
\<close>
theorem removal_loses_configuration:
  "lost_configuration (PKString [97]) (PKString [98]) =
     Some (Some \<lparr>sl_index = 0, sl_attributes = 6\<rparr>, Some \<lparr>sl_index = 0, sl_attributes = 7\<rparr>)"
  by (simp add: lost_configuration_def transition_defs mask_simps u16_1024_le)

end
