(* ===== verification/IndexedProperties.thy ===== *)
theory IndexedProperties
  imports Property PropertyKey
begin

text \<open>
  The storage of index keys (\<open>IndexedProperties\<close> in \<open>object/property_map.rs\<close>): vectors of
  integers, doubles or values for a contiguous run from 0, and hash maps once there is a hole or
  an attribute that a vector cannot hold. The representation changes as needed; the theorems say
  that what is stored does not: the descriptor found under a key is the one inserted, up to the
  representation of a number, under every transition between the six representations.

  A key is a \<open>u32\<close> that is not \<open>u32::MAX\<close>. A hash map is a partial function; where the code
  enumerates one, the order is not specified and only the set of its keys is used.
\<close>

section \<open>Representation\<close>

datatype indexed_properties =
    DenseI32 "i32 list"
  | DenseF64 "f64 list"
  | DenseElement "js_value list"
  | DenseReadOnlyElement "js_value list"
  | SparseElement "u32 \<Rightarrow> js_value option"
  | SparseProperty "u32 \<Rightarrow> property_descriptor option"

definition indexed_default :: indexed_properties where
  "indexed_default = DenseI32 []"

definition from_dense_js_value :: "js_value list \<Rightarrow> indexed_properties" where
  "from_dense_js_value elements = (if elements = [] then indexed_default else DenseElement elements)"

text \<open>\<open>JsValue::from(i32)\<close> and \<open>JsValue::from(f64)\<close>, which keeps one NaN.\<close>

definition value_of_i32 :: "i32 \<Rightarrow> js_value" where
  "value_of_i32 i = VInteger32 i"

definition value_of_f64 :: "f64 \<Rightarrow> js_value" where
  "value_of_f64 f = VFloat64 (bits_tag_f64 f)"

text \<open>\<open>vec.len() as u32\<close>\<close>

abbreviation len_u32 :: "'a list \<Rightarrow> u32" where
  "len_u32 xs \<equiv> word_of_nat (length xs)"

definition unwrap_or_false :: "bool option \<Rightarrow> bool" where
  "unwrap_or_false b = (case b of None \<Rightarrow> False | Some b \<Rightarrow> b)"

definition property_simple_value :: "property_descriptor \<Rightarrow> js_value option" where
  "property_simple_value property =
     (if unwrap_or_false (pd_writable property) \<and> unwrap_or_false (pd_enumerable property)
         \<and> unwrap_or_false (pd_configurable property)
      then pd_value property else None)"

definition property_readonly_value :: "property_descriptor \<Rightarrow> js_value option" where
  "property_readonly_value property =
     (if \<not> unwrap_or_false (pd_writable property) \<and> unwrap_or_false (pd_enumerable property)
         \<and> unwrap_or_false (pd_configurable property) \<and> is_data_descriptor property
      then pd_value property else None)"

definition simple_descriptor :: "js_value \<Rightarrow> property_descriptor" where
  "simple_descriptor value = build_value value (build_configurable True (build_enumerable True
     (build_writable True pd_default)))"

definition readonly_descriptor :: "js_value \<Rightarrow> property_descriptor" where
  "readonly_descriptor value = build_value value (build_configurable True (build_enumerable True
     (build_writable False pd_default)))"

fun indexed_get :: "indexed_properties \<Rightarrow> u32 \<Rightarrow> property_descriptor option" where
  "indexed_get (DenseI32 vec) key = map_option (simple_descriptor \<circ> value_of_i32) (vec_get vec (unat key))"
| "indexed_get (DenseF64 vec) key = map_option (simple_descriptor \<circ> value_of_f64) (vec_get vec (unat key))"
| "indexed_get (DenseElement vec) key = map_option simple_descriptor (vec_get vec (unat key))"
| "indexed_get (DenseReadOnlyElement vec) key = map_option readonly_descriptor (vec_get vec (unat key))"
| "indexed_get (SparseElement m) key = map_option simple_descriptor (m key)"
| "indexed_get (SparseProperty m) key = m key"

section \<open>Conversion to sparse storage\<close>

text \<open>\<open>into_iter().enumerate().map(|(index, value)| (index as u32, f(value))).collect()\<close>\<close>

fun collect_indexed :: "nat \<Rightarrow> ('a \<Rightarrow> 'b) \<Rightarrow> 'a list \<Rightarrow> (u32 \<Rightarrow> 'b option) \<Rightarrow> u32 \<Rightarrow> 'b option" where
  "collect_indexed index f [] m = m"
| "collect_indexed index f (value # rest) m =
     collect_indexed (Suc index) f rest (m(word_of_nat index \<mapsto> f value))"

definition convert_dense_to_sparse :: "('a \<Rightarrow> js_value) \<Rightarrow> 'a list \<Rightarrow> u32 \<Rightarrow> property_descriptor option" where
  "convert_dense_to_sparse into vec = collect_indexed 0 (simple_descriptor \<circ> into) vec (\<lambda>_. None)"

definition convert_dense_to_sparse_values :: "('a \<Rightarrow> js_value) \<Rightarrow> 'a list \<Rightarrow> u32 \<Rightarrow> js_value option" where
  "convert_dense_to_sparse_values into vec = collect_indexed 0 into vec (\<lambda>_. None)"

definition convert_readonly_dense_to_sparse :: "js_value list \<Rightarrow> u32 \<Rightarrow> property_descriptor option" where
  "convert_readonly_dense_to_sparse vec = collect_indexed 0 readonly_descriptor vec (\<lambda>_. None)"

fun sparse_descriptors :: "indexed_properties \<Rightarrow> u32 \<Rightarrow> property_descriptor option" where
  "sparse_descriptors (DenseI32 vec) = convert_dense_to_sparse value_of_i32 vec"
| "sparse_descriptors (DenseF64 vec) = convert_dense_to_sparse value_of_f64 vec"
| "sparse_descriptors (DenseElement vec) = convert_dense_to_sparse (\<lambda>v. v) vec"
| "sparse_descriptors (DenseReadOnlyElement vec) = convert_readonly_dense_to_sparse vec"
| "sparse_descriptors (SparseElement m) = (\<lambda>index. map_option simple_descriptor (m index))"
| "sparse_descriptors (SparseProperty m) = m"

definition convert_to_sparse_and_insert ::
  "indexed_properties \<Rightarrow> u32 \<Rightarrow> property_descriptor \<Rightarrow> bool \<times> indexed_properties" where
  "convert_to_sparse_and_insert self key property =
     (let descriptors = sparse_descriptors self in
      (descriptors key \<noteq> None, SparseProperty (descriptors(key \<mapsto> property))))"

section \<open>Insertion\<close>

text \<open>The two ends of every dense branch: push one past the end, or overwrite.\<close>

definition dense_put :: "'a list \<Rightarrow> u32 \<Rightarrow> 'a \<Rightarrow> bool \<times> 'a list" where
  "dense_put vec key x =
     (if key = len_u32 vec then (False, vec @ [x]) else (True, vec[unat key := x]))"

definition indexed_insert ::
  "indexed_properties \<Rightarrow> u32 \<Rightarrow> property_descriptor \<Rightarrow> bool \<times> indexed_properties" where
  "indexed_insert self key property =
     (case property_readonly_value property of
        Some value \<Rightarrow>
          (case self of
             DenseI32 vec \<Rightarrow>
               if vec = [] \<and> key = 0 then (False, DenseReadOnlyElement [value])
               else convert_to_sparse_and_insert self key property
           | DenseReadOnlyElement vec \<Rightarrow>
               if key \<le> len_u32 vec
               then apsnd DenseReadOnlyElement (dense_put vec key value)
               else convert_to_sparse_and_insert self key property
           | _ \<Rightarrow> convert_to_sparse_and_insert self key property)
      | None \<Rightarrow>
          (case property_simple_value property of
             None \<Rightarrow> convert_to_sparse_and_insert self key property
           | Some value \<Rightarrow>
               (case self of
                  DenseI32 vec \<Rightarrow>
                    if key \<le> len_u32 vec then
                      (case as_i32 value of
                         Some val \<Rightarrow> apsnd DenseI32 (dense_put vec key val)
                       | None \<Rightarrow>
                           (case as_number value of
                              Some num \<Rightarrow> apsnd DenseF64 (dense_put (map f64_of_i32 vec) key num)
                            | None \<Rightarrow> apsnd DenseElement (dense_put (map value_of_i32 vec) key value)))
                    else
                      (let values = convert_dense_to_sparse_values value_of_i32 vec in
                       (values key \<noteq> None, SparseElement (values(key \<mapsto> value))))
                | DenseF64 vec \<Rightarrow>
                    if key \<le> len_u32 vec then
                      (case as_number value of
                         Some num \<Rightarrow> apsnd DenseF64 (dense_put vec key num)
                       | None \<Rightarrow> apsnd DenseElement (dense_put (map value_of_f64 vec) key value))
                    else
                      (let values = convert_dense_to_sparse_values value_of_f64 vec in
                       (values key \<noteq> None, SparseElement (values(key \<mapsto> value))))
                | DenseElement vec \<Rightarrow>
                    if key \<le> len_u32 vec then apsnd DenseElement (dense_put vec key value)
                    else
                      (let values = convert_dense_to_sparse_values (\<lambda>v. v) vec in
                       (values key \<noteq> None, SparseElement (values(key \<mapsto> value))))
                | DenseReadOnlyElement _ \<Rightarrow> convert_to_sparse_and_insert self key property
                | SparseElement m \<Rightarrow> (m key \<noteq> None, SparseElement (m(key \<mapsto> value)))
                | SparseProperty m \<Rightarrow> (m key \<noteq> None, SparseProperty (m(key \<mapsto> simple_descriptor value))))))"

section \<open>Removal\<close>

fun convert_to_sparse_and_remove :: "indexed_properties \<Rightarrow> u32 \<Rightarrow> bool \<times> indexed_properties" where
  "convert_to_sparse_and_remove (DenseI32 vec) key =
     (let d = convert_dense_to_sparse_values value_of_i32 vec in (d key \<noteq> None, SparseElement (d(key := None))))"
| "convert_to_sparse_and_remove (DenseF64 vec) key =
     (let d = convert_dense_to_sparse_values value_of_f64 vec in (d key \<noteq> None, SparseElement (d(key := None))))"
| "convert_to_sparse_and_remove (DenseElement vec) key =
     (let d = convert_dense_to_sparse_values (\<lambda>v. v) vec in (d key \<noteq> None, SparseElement (d(key := None))))"
| "convert_to_sparse_and_remove (DenseReadOnlyElement vec) key =
     (let d = convert_readonly_dense_to_sparse vec in (d key \<noteq> None, SparseProperty (d(key := None))))"
| "convert_to_sparse_and_remove (SparseProperty m) key = (m key \<noteq> None, SparseProperty (m(key := None)))"
| "convert_to_sparse_and_remove (SparseElement m) key = (m key \<noteq> None, SparseElement (m(key := None)))"

text \<open>\<open>vec.pop()\<close> is \<open>butlast\<close>.\<close>

definition dense_remove ::
  "('a list \<Rightarrow> indexed_properties) \<Rightarrow> 'a list \<Rightarrow> u32 \<Rightarrow> bool \<times> indexed_properties" where
  "dense_remove rep vec key =
     (if key + 1 = len_u32 vec then (True, rep (butlast vec))
      else if len_u32 vec \<le> key then (False, rep vec)
      else convert_to_sparse_and_remove (rep vec) key)"

fun indexed_remove :: "indexed_properties \<Rightarrow> u32 \<Rightarrow> bool \<times> indexed_properties" where
  "indexed_remove (DenseI32 vec) key = dense_remove DenseI32 vec key"
| "indexed_remove (DenseF64 vec) key = dense_remove DenseF64 vec key"
| "indexed_remove (DenseElement vec) key = dense_remove DenseElement vec key"
| "indexed_remove (DenseReadOnlyElement vec) key = dense_remove DenseReadOnlyElement vec key"
| "indexed_remove (SparseElement m) key = (m key \<noteq> None, SparseElement (m(key := None)))"
| "indexed_remove (SparseProperty m) key = (m key \<noteq> None, SparseProperty (m(key := None)))"

section \<open>Other operations\<close>

fun indexed_contains_key :: "indexed_properties \<Rightarrow> u32 \<Rightarrow> bool" where
  "indexed_contains_key (DenseI32 vec) key = (key < len_u32 vec)"
| "indexed_contains_key (DenseF64 vec) key = (key < len_u32 vec)"
| "indexed_contains_key (DenseElement vec) key = (key < len_u32 vec)"
| "indexed_contains_key (DenseReadOnlyElement vec) key = (key < len_u32 vec)"
| "indexed_contains_key (SparseElement m) key = (m key \<noteq> None)"
| "indexed_contains_key (SparseProperty m) key = (m key \<noteq> None)"

fun push_dense :: "indexed_properties \<Rightarrow> js_value \<Rightarrow> bool \<times> indexed_properties" where
  "push_dense (DenseI32 vec) value =
     (True,
      case as_i32 value of
        Some i \<Rightarrow> DenseI32 (vec @ [i])
      | None \<Rightarrow>
          (case as_number value of
             Some n \<Rightarrow> DenseF64 (map f64_of_i32 vec @ [n])
           | None \<Rightarrow> DenseElement (map value_of_i32 vec @ [value])))"
| "push_dense (DenseF64 vec) value =
     (True,
      case as_number value of
        Some n \<Rightarrow> DenseF64 (vec @ [n])
      | None \<Rightarrow> DenseElement (map value_of_f64 vec @ [value]))"
| "push_dense (DenseElement vec) value = (True, DenseElement (vec @ [value]))"
| "push_dense self value = (False, self)"

fun transform_to_sparse :: "indexed_properties \<Rightarrow> indexed_properties" where
  "transform_to_sparse (DenseI32 v) = SparseElement (collect_indexed 0 value_of_i32 v (\<lambda>_. None))"
| "transform_to_sparse (DenseF64 v) = SparseElement (collect_indexed 0 value_of_f64 v (\<lambda>_. None))"
| "transform_to_sparse (DenseElement v) = SparseElement (collect_indexed 0 (\<lambda>v. v) v (\<lambda>_. None))"
| "transform_to_sparse (DenseReadOnlyElement v) = SparseProperty (collect_indexed 0 readonly_descriptor v (\<lambda>_. None))"
| "transform_to_sparse self = self"

text \<open>\<open>keys\<close>: a range for the dense representations, the keys of the map for the others.\<close>

fun indexed_key_set :: "indexed_properties \<Rightarrow> u32 set" where
  "indexed_key_set (DenseI32 vec) = {k. k < len_u32 vec}"
| "indexed_key_set (DenseF64 vec) = {k. k < len_u32 vec}"
| "indexed_key_set (DenseElement vec) = {k. k < len_u32 vec}"
| "indexed_key_set (DenseReadOnlyElement vec) = {k. k < len_u32 vec}"
| "indexed_key_set (SparseElement m) = dom m"
| "indexed_key_set (SparseProperty m) = dom m"

text \<open>\<open>PropertyMap::get_indexed_data_property\<close>\<close>

fun get_indexed_data_property :: "indexed_properties \<Rightarrow> u32 \<Rightarrow> js_value option" where
  "get_indexed_data_property (DenseI32 properties) index = map_option value_of_i32 (vec_get properties (unat index))"
| "get_indexed_data_property (DenseF64 properties) index = map_option value_of_f64 (vec_get properties (unat index))"
| "get_indexed_data_property (DenseElement properties) index = vec_get properties (unat index)"
| "get_indexed_data_property (DenseReadOnlyElement properties) index = vec_get properties (unat index)"
| "get_indexed_data_property (SparseElement properties) index = properties index"
| "get_indexed_data_property (SparseProperty properties) index =
     (case properties index of
        None \<Rightarrow> None
      | Some descriptor \<Rightarrow>
          if is_accessor_descriptor descriptor then None
          else Some (case pd_value descriptor of None \<Rightarrow> VUndefined | Some v \<Rightarrow> v))"

text \<open>\<open>PropertyMap::wrapping_sum_contiguous_i32\<close>: \<open>+\<close> on words wraps.\<close>

fun wrapping_sum_contiguous_i32 :: "indexed_properties \<Rightarrow> u32 \<Rightarrow> u32 \<Rightarrow> i32 \<Rightarrow> i32 option" where
  "wrapping_sum_contiguous_i32 (DenseI32 values) start stop initial =
     (if start \<le> stop \<and> unat stop \<le> length values
      then Some (foldl (+) initial (take (unat stop - unat start) (drop (unat start) values)))
      else None)"
| "wrapping_sum_contiguous_i32 _ start stop initial = None"

text \<open>\<open>PropertyMap::set_dense_property\<close>\<close>

fun set_dense_property :: "indexed_properties \<Rightarrow> u32 \<Rightarrow> js_value \<Rightarrow> bool \<times> indexed_properties" where
  "set_dense_property (DenseI32 properties) index value =
     (if unat index < length properties then
        (True,
         case value of
           VInteger32 n \<Rightarrow> DenseI32 (properties[unat index := n])
         | VFloat64 n \<Rightarrow>
             if n = f64_of_i32 (f64_as_i32 n) then DenseI32 (properties[unat index := f64_as_i32 n])
             else DenseF64 ((map f64_of_i32 properties)[unat index := n])
         | _ \<Rightarrow> DenseElement ((map value_of_i32 properties)[unat index := value]))
      else (False, DenseI32 properties))"
| "set_dense_property (DenseF64 properties) index value =
     (if unat index < length properties then
        (True,
         case as_number value of
           Some n \<Rightarrow> DenseF64 (properties[unat index := n])
         | None \<Rightarrow> DenseElement ((map value_of_f64 properties)[unat index := value]))
      else (False, DenseF64 properties))"
| "set_dense_property (DenseElement properties) index value =
     (if unat index < length properties then (True, DenseElement (properties[unat index := value]))
      else (False, DenseElement properties))"
| "set_dense_property self index value = (False, self)"

fun to_dense_indexed_properties :: "indexed_properties \<Rightarrow> js_value list option" where
  "to_dense_indexed_properties (DenseI32 properties) = Some (map value_of_i32 properties)"
| "to_dense_indexed_properties (DenseF64 properties) = Some (map value_of_f64 properties)"
| "to_dense_indexed_properties (DenseElement properties) = Some properties"
| "to_dense_indexed_properties _ = None"

section \<open>Search\<close>

text \<open>
  \<open>PropertyMap::index_of_contiguous_own_data\<close>: \<open>Inr (found, scanned)\<close> when the range was own
  data up to the match or the end, \<open>Inl (index, scanned)\<close> at the first index that was not. The
  boxed vectors are scanned by \<open>scan_slice\<close>, the others by \<open>scan_range\<close>. Slicing with
  \<open>start > scan_end\<close> panics.
\<close>

fun scan_slice :: "js_value \<Rightarrow> u32 \<Rightarrow> js_value list \<Rightarrow> nat \<Rightarrow> nat \<Rightarrow> (u32 \<times> nat) + nat" where
  "scan_slice search start [] offset scanned = Inr scanned"
| "scan_slice search start (value # rest) offset scanned =
     (if strict_equals search value then Inl (start + word_of_nat offset, Suc scanned)
      else scan_slice search start rest (Suc offset) (Suc scanned))"

fun scan_range ::
  "(u32 \<Rightarrow> js_value option) \<Rightarrow> js_value \<Rightarrow> u32 list \<Rightarrow> nat \<Rightarrow> (u32 \<times> nat) + (u32 option \<times> nat)" where
  "scan_range value_at search [] scanned = Inr (None, scanned)"
| "scan_range value_at search (index # rest) scanned =
     (case value_at index of
        None \<Rightarrow> Inl (index, scanned)
      | Some value \<Rightarrow>
          if strict_equals search value then Inr (Some index, Suc scanned)
          else scan_range value_at search rest (Suc scanned))"

definition index_range :: "u32 \<Rightarrow> u32 \<Rightarrow> u32 list" where
  "index_range start stop = map word_of_nat [unat start ..< unat stop]"

definition scan_dense_elements ::
  "js_value list \<Rightarrow> u32 \<Rightarrow> u32 \<Rightarrow> js_value \<Rightarrow> ((u32 \<times> nat) + (u32 option \<times> nat)) panics" where
  "scan_dense_elements values start stop search =
     (if start = stop then Some (Inr (None, 0))
      else
        (let dense_len = (if length values < 2 ^ 32 then len_u32 values else u32_MAX) in
         if dense_len \<le> start then Some (Inl (start, 0))
         else
           (let scan_end = min stop dense_len in
            if scan_end < start then None
            else
              Some (case scan_slice search start
                      (take (unat scan_end - unat start) (drop (unat start) values)) 0 0 of
                 Inl (i, scanned) \<Rightarrow> Inr (Some i, scanned)
               | Inr scanned \<Rightarrow>
                   if scan_end < stop then Inl (scan_end, scanned) else Inr (None, scanned)))))"

definition index_of_contiguous_own_data ::
  "indexed_properties \<Rightarrow> u32 \<Rightarrow> u32 \<Rightarrow> js_value \<Rightarrow> ((u32 \<times> nat) + (u32 option \<times> nat)) panics" where
  "index_of_contiguous_own_data self start stop search =
     (case self of
        DenseElement values \<Rightarrow> scan_dense_elements values start stop search
      | DenseReadOnlyElement values \<Rightarrow> scan_dense_elements values start stop search
      | _ \<Rightarrow> Some (scan_range (get_indexed_data_property self) search (index_range start stop) 0))"

section \<open>What is stored\<close>

text \<open>A descriptor with the representation of a number forgotten.\<close>

datatype language_kind =
    LData "language_value option" "bool option"
  | LAccessor "js_value option" "js_value option"
  | LGeneric

fun lang_kind :: "descriptor_kind \<Rightarrow> language_kind" where
  "lang_kind (Data v w) = LData (map_option lang_value v) w"
| "lang_kind (Accessor g s) = LAccessor g s"
| "lang_kind Generic = LGeneric"

definition desc_lang :: "property_descriptor \<Rightarrow> bool option \<times> bool option \<times> language_kind" where
  "desc_lang d = (pd_enumerable d, pd_configurable d, lang_kind (pd_kind d))"

definition indexed_view ::
  "indexed_properties \<Rightarrow> u32 \<Rightarrow> (bool option \<times> bool option \<times> language_kind) option" where
  "indexed_view ip = (\<lambda>k. map_option desc_lang (indexed_get ip k))"

fun indexed_wf :: "indexed_properties \<Rightarrow> bool" where
  "indexed_wf (DenseI32 vec) = (length vec < 2 ^ 32)"
| "indexed_wf (DenseF64 vec) = (length vec < 2 ^ 32)"
| "indexed_wf (DenseElement vec) = (length vec < 2 ^ 32)"
| "indexed_wf (DenseReadOnlyElement vec) = (length vec < 2 ^ 32)"
| "indexed_wf (SparseElement m) = finite (dom m)"
| "indexed_wf (SparseProperty m) = finite (dom m)"

abbreviation dense_view :: "('a \<Rightarrow> 'b) \<Rightarrow> 'a list \<Rightarrow> u32 \<Rightarrow> 'b option" where
  "dense_view f vec \<equiv> (\<lambda>k. map_option f (vec_get vec (unat k)))"

lemma dense_view_apply:
  "map_option f (vec_get vec i) = (if i < length vec then Some (f (vec ! i)) else None)"
  by (simp add: vec_get_def)

lemma len_u32_less: "length vec < 2 ^ 32 \<Longrightarrow> key < len_u32 vec \<longleftrightarrow> unat key < length vec"
  by (simp add: word_less_nat_alt unat_of_nat)

lemma len_u32_le: "length vec < 2 ^ 32 \<Longrightarrow> key \<le> len_u32 vec \<longleftrightarrow> unat key \<le> length vec"
  by (simp add: word_le_nat_alt unat_of_nat)

lemma len_u32_eq: "length vec < 2 ^ 32 \<Longrightarrow> key = len_u32 vec \<longleftrightarrow> unat key = length vec"
  by (metis of_nat_unat unat_small_add ucast_id)

lemma unat_not_max: "key \<noteq> u32_MAX \<longleftrightarrow> Suc (unat key) < 2 ^ 32"
proof -
  have "unat key < 2 ^ 32" using unsigned_less [of key, where ?'a = nat] by simp
  then show ?thesis by (auto simp: u32_MAX_def word_unat_eq_iff)
qed

lemma collect_indexed_apply:
  assumes "i + length vec \<le> 2 ^ 32"
  shows "collect_indexed i f vec m k =
    (if i \<le> unat k \<and> unat k < i + length vec then Some (f (vec ! (unat k - i))) else m k)"
  using assms
proof (induction vec arbitrary: i m)
  case (Cons x vec)
  have "i < 2 ^ 32" using Cons.prems by simp
  then have e: "k = word_of_nat i \<longleftrightarrow> unat k = i" by (metis of_nat_unat unat_small_add ucast_id)
  show ?case
    using Cons by (auto simp: e nth_Cons' Suc_diff_le)
qed auto

lemma collect_indexed_dense:
  "length vec < 2 ^ 32 \<Longrightarrow> collect_indexed 0 f vec (\<lambda>_. None) = dense_view f vec"
  by (auto simp: collect_indexed_apply dense_view_apply)

lemma finite_dense_view: "finite (dom (dense_view f vec))"
  by (rule finite_subset [of _ UNIV]) simp_all

lemma finite_u32_map: "finite (dom (m :: u32 \<Rightarrow> 'a option))"
  by (rule finite_subset [of _ UNIV]) simp_all

lemma dense_put_view:
  assumes "length vec < 2 ^ 32" "key \<le> len_u32 vec"
  shows "dense_view f (snd (dense_put vec key x)) = (dense_view f vec)(key \<mapsto> f x)"
    and "fst (dense_put vec key x) \<longleftrightarrow> dense_view f vec key \<noteq> None"
    and "key \<noteq> u32_MAX \<Longrightarrow> length (snd (dense_put vec key x)) < 2 ^ 32"
proof -
  have k: "unat key \<le> length vec" using assms by (simp add: len_u32_le)
  note e = len_u32_eq [OF assms(1), of key]
  show "dense_view f (snd (dense_put vec key x)) = (dense_view f vec)(key \<mapsto> f x)"
  proof
    fix q
    have "q = key \<longleftrightarrow> unat q = unat key" by (simp add: word_unat_eq_iff)
    then show "dense_view f (snd (dense_put vec key x)) q = ((dense_view f vec)(key \<mapsto> f x)) q"
      using k by (auto simp: dense_put_def e dense_view_apply nth_append nth_list_update)
  qed
  show "fst (dense_put vec key x) \<longleftrightarrow> dense_view f vec key \<noteq> None"
    using k by (simp add: dense_put_def e dense_view_apply)
  assume "key \<noteq> u32_MAX"
  then show "length (snd (dense_put vec key x)) < 2 ^ 32"
    using k assms(1) unat_not_max [of key] by (auto simp: dense_put_def e)
qed

section \<open>Views of the representations\<close>

lemma desc_lang_simple: "desc_lang (simple_descriptor v) = (Some True, Some True, LData (Some (lang_value v)) (Some True))"
  by (simp add: desc_lang_def simple_descriptor_def desc_simps)

lemma desc_lang_readonly: "desc_lang (readonly_descriptor v) = (Some True, Some True, LData (Some (lang_value v)) (Some False))"
  by (simp add: desc_lang_def readonly_descriptor_def desc_simps)

lemma lang_value_of [simp]:
  "lang_value (value_of_i32 i) = LNumber (f64_of_i32 i)"
  "lang_value (value_of_f64 f) = lang_value (VFloat64 f)"
  by (simp_all add: value_of_i32_def value_of_f64_def bits_tag_f64_def)

lemma lang_value_as_i32: "as_i32 v = Some i \<Longrightarrow> LNumber (f64_of_i32 i) = lang_value v"
  using as_i32_same_value [of v i] by (simp add: same_value_lang)

lemma lang_value_as_number: "as_number v = Some f \<Longrightarrow> lang_value (VFloat64 f) = lang_value v"
  using as_number_same_value [of v f] by (simp add: same_value_lang)

definition simple_lang :: "language_value \<Rightarrow> bool option \<times> bool option \<times> language_kind" where
  "simple_lang v = (Some True, Some True, LData (Some v) (Some True))"

lemma indexed_view_simps:
  "indexed_view (DenseI32 is) = dense_view (simple_lang \<circ> LNumber \<circ> f64_of_i32) is"
  "indexed_view (DenseF64 fs) = dense_view (simple_lang \<circ> lang_value \<circ> VFloat64) fs"
  "indexed_view (DenseElement vec) = dense_view (simple_lang \<circ> lang_value) vec"
  "indexed_view (DenseReadOnlyElement vec) = dense_view (desc_lang \<circ> readonly_descriptor) vec"
  "indexed_view (SparseElement e) = (\<lambda>k. map_option (simple_lang \<circ> lang_value) (e k))"
  "indexed_view (SparseProperty m) = (\<lambda>k. map_option desc_lang (m k))"
  by (simp_all add: indexed_view_def fun_eq_iff option.map_comp comp_def desc_lang_simple simple_lang_def)

lemma dense_view_map: "dense_view f (map g vec) = dense_view (f \<circ> g) vec"
  by (simp add: dense_view_apply fun_eq_iff)

lemma sparse_descriptors_view:
  "indexed_wf ip \<Longrightarrow> indexed_view (SparseProperty (sparse_descriptors ip)) = indexed_view ip"
  by (cases ip)
     (simp_all add: indexed_view_simps convert_dense_to_sparse_def convert_readonly_dense_to_sparse_def
        collect_indexed_dense option.map_comp comp_def desc_lang_simple simple_lang_def)

lemma sparse_property_update:
  "indexed_view (SparseProperty (m(k \<mapsto> d))) = (indexed_view (SparseProperty m))(k \<mapsto> desc_lang d)"
  "indexed_view (SparseElement (e(k \<mapsto> v))) = (indexed_view (SparseElement e))(k \<mapsto> simple_lang (lang_value v))"
  "indexed_view (SparseProperty (m(k := None))) = (indexed_view (SparseProperty m))(k := None)"
  "indexed_view (SparseElement (e(k := None))) = (indexed_view (SparseElement e))(k := None)"
  by (simp_all add: indexed_view_simps fun_eq_iff)

text \<open>\<open>indexed_step ip ip' f\<close>: the representation \<open>ip'\<close> is in order and stores \<open>f\<close>.\<close>

lemma convert_to_sparse_and_insert_view:
  assumes "indexed_wf ip"
  shows "indexed_view (snd (convert_to_sparse_and_insert ip k d)) = (indexed_view ip)(k \<mapsto> desc_lang d)"
    and "fst (convert_to_sparse_and_insert ip k d) \<longleftrightarrow> indexed_view ip k \<noteq> None"
    and "indexed_wf (snd (convert_to_sparse_and_insert ip k d))"
proof -
  note v = sparse_descriptors_view [OF assms]
  show "indexed_view (snd (convert_to_sparse_and_insert ip k d)) = (indexed_view ip)(k \<mapsto> desc_lang d)"
    by (simp add: convert_to_sparse_and_insert_def Let_def sparse_property_update v)
  show "fst (convert_to_sparse_and_insert ip k d) \<longleftrightarrow> indexed_view ip k \<noteq> None"
  proof -
    have "indexed_view ip k \<noteq> None \<longleftrightarrow> sparse_descriptors ip k \<noteq> None"
      by (subst v [symmetric]) (simp add: indexed_view_simps del: not_None_eq)
    then show ?thesis by (simp add: convert_to_sparse_and_insert_def Let_def del: not_None_eq)
  qed
  show "indexed_wf (snd (convert_to_sparse_and_insert ip k d))"
    by (simp add: convert_to_sparse_and_insert_def Let_def finite_u32_map)
qed

section \<open>Insertion stores the descriptor\<close>

text \<open>\<open>stores r ip f b\<close>: the result \<open>r\<close> of an operation answers \<open>b\<close>, is in order and stores \<open>f\<close>.\<close>

definition stores ::
  "bool \<times> indexed_properties \<Rightarrow> (u32 \<Rightarrow> (bool option \<times> bool option \<times> language_kind) option) \<Rightarrow> bool \<Rightarrow> bool" where
  "stores r f b \<longleftrightarrow> (fst r \<longleftrightarrow> b) \<and> indexed_wf (snd r) \<and> indexed_view (snd r) = f"

lemma stores_sparse_insert:
  "indexed_wf ip \<Longrightarrow> stores (convert_to_sparse_and_insert ip k d)
     ((indexed_view ip)(k \<mapsto> desc_lang d)) (indexed_view ip k \<noteq> None)"
  using convert_to_sparse_and_insert_view [of ip k d] by (simp add: stores_def)

lemma stores_dense_put:
  assumes "\<And>v. indexed_view (rep v) = dense_view f v" "\<And>v. indexed_wf (rep v) \<longleftrightarrow> length v < 2 ^ 32"
    and "length vec < 2 ^ 32" "key \<le> len_u32 vec" "key \<noteq> u32_MAX"
    and "dense_view f vec = old" "f x = d"
  shows "stores (apsnd rep (dense_put vec key x)) (old(key \<mapsto> d)) (old key \<noteq> None)"
  using dense_put_view(1,2) [OF assms(3,4), where f = f and x = x]
    dense_put_view(3) [OF assms(3,4), where x = x] assms(1,2,5-7)
  unfolding stores_def fst_apsnd snd_apsnd by metis

lemma dense_view_None: "dense_view f vec k \<noteq> None \<longleftrightarrow> dense_view g vec k \<noteq> None"
  by (simp add: dense_view_apply)

lemma stores_hole:
  assumes "length vec < 2 ^ 32" "dense_view (simple_lang \<circ> lang_value \<circ> into) vec = old"
  shows "stores (let values = convert_dense_to_sparse_values into vec in
      (values key \<noteq> None, SparseElement (values(key \<mapsto> value))))
    (old(key \<mapsto> simple_lang (lang_value value))) (old key \<noteq> None)"
proof -
  have c: "convert_dense_to_sparse_values into vec = dense_view into vec"
    by (simp add: convert_dense_to_sparse_values_def collect_indexed_dense [OF assms(1)])
  have w: "indexed_view (SparseElement (dense_view into vec)) = old"
    unfolding assms(2) [symmetric] by (simp add: indexed_view_simps option.map_comp comp_assoc)
  have "dense_view into vec key \<noteq> None \<longleftrightarrow> old key \<noteq> None"
    unfolding assms(2) [symmetric] by (rule dense_view_None)
  then show ?thesis
    unfolding stores_def Let_def c fst_conv snd_conv sparse_property_update w
    by (simp add: finite_u32_map del: not_None_eq)
qed

lemma simple_value_lang:
  assumes "property_simple_value d = Some v"
  shows "desc_lang d = simple_lang (lang_value v)"
  using assms
  by (cases "pd_kind d")
     (auto simp: property_simple_value_def unwrap_or_false_def desc_simps desc_lang_def simple_lang_def
        split: if_splits option.splits)

lemma readonly_value_lang:
  assumes "property_readonly_value d = Some v" "fully_populated d"
  shows "desc_lang d = desc_lang (readonly_descriptor v)"
  using assms
  by (cases "pd_kind d")
     (auto simp: property_readonly_value_def unwrap_or_false_def desc_simps desc_lang_def
        readonly_descriptor_def fully_populated_def split: if_splits option.splits)

lemma stores_readonly_insert:
  assumes v: "property_readonly_value d = Some v" and d: "fully_populated d"
    and wf: "indexed_wf ip" and k: "k \<noteq> u32_MAX"
  shows "stores (indexed_insert ip k d) ((indexed_view ip)(k \<mapsto> desc_lang d)) (indexed_view ip k \<noteq> None)"
proof -
  note r = readonly_value_lang [OF v d]
  note sparse = stores_sparse_insert [OF wf, of k d]
  show ?thesis
  proof (cases ip)
    case (DenseI32 vec)
    show ?thesis
    proof (cases "vec = [] \<and> k = 0")
      case True
      have "indexed_view (DenseReadOnlyElement [v]) = (indexed_view (DenseI32 []))(0 \<mapsto> desc_lang d)"
        by (auto simp: indexed_view_simps dense_view_apply r fun_eq_iff unsigned_eq_0_iff)
      then show ?thesis
        using True by (simp add: DenseI32 indexed_insert_def v stores_def)
          (simp add: indexed_view_simps dense_view_apply)
    qed (use sparse in \<open>auto simp: DenseI32 indexed_insert_def v\<close>)
  next
    case (DenseReadOnlyElement vec)
    show ?thesis
    proof (cases "k \<le> len_u32 vec")
      case True
      have "stores (apsnd DenseReadOnlyElement (dense_put vec k v))
        ((indexed_view ip)(k \<mapsto> desc_lang d)) (indexed_view ip k \<noteq> None)"
        by (rule stores_dense_put [OF indexed_view_simps(4) indexed_wf.simps(4)])
          (use True k wf r in \<open>simp_all add: DenseReadOnlyElement indexed_view_simps\<close>)
      with True show ?thesis by (simp add: DenseReadOnlyElement indexed_insert_def v)
    qed (use sparse in \<open>simp add: DenseReadOnlyElement indexed_insert_def v\<close>)
  qed (use sparse in \<open>simp_all add: indexed_insert_def v\<close>)
qed

lemma stores_simple_insert:
  assumes n: "property_readonly_value d = None" and v: "property_simple_value d = Some v"
    and wf: "indexed_wf ip" and k: "k \<noteq> u32_MAX"
  shows "stores (indexed_insert ip k d) ((indexed_view ip)(k \<mapsto> desc_lang d)) (indexed_view ip k \<noteq> None)"
proof -
  note r = simple_value_lang [OF v]
  show ?thesis
  proof (cases ip)
    case (DenseI32 vec)
    note defs = DenseI32 indexed_insert_def n v
    have len: "length vec < 2 ^ 32" using wf by (simp add: DenseI32)
    show ?thesis
    proof (cases "k \<le> len_u32 vec")
      case True
      then have put: "k \<le> len_u32 (map g vec)" for g :: "i32 \<Rightarrow> 'b" by simp
      consider i where "as_i32 v = Some i" | f where "as_i32 v = None" "as_number v = Some f"
        | "as_i32 v = None" "as_number v = None" by (cases "as_i32 v"; cases "as_number v") auto
      then show ?thesis
      proof cases
        case (1 i)
        have "stores (apsnd DenseI32 (dense_put vec k i))
          ((indexed_view ip)(k \<mapsto> desc_lang d)) (indexed_view ip k \<noteq> None)"
          by (rule stores_dense_put [OF indexed_view_simps(1) indexed_wf.simps(1) len True k])
            (simp_all add: DenseI32 indexed_view_simps r lang_value_as_i32 [OF 1])
        with True 1 show ?thesis by (simp add: defs)
      next
        case (2 f)
        have "stores (apsnd DenseF64 (dense_put (map f64_of_i32 vec) k f))
          ((indexed_view ip)(k \<mapsto> desc_lang d)) (indexed_view ip k \<noteq> None)"
          by (rule stores_dense_put [OF indexed_view_simps(2) indexed_wf.simps(2) _ put k])
            (use len in \<open>simp_all add: DenseI32 indexed_view_simps dense_view_map r comp_def
                lang_value_as_number [OF 2(2), simplified]\<close>)
        with True 2 show ?thesis by (simp add: defs)
      next
        case 3
        have "stores (apsnd DenseElement (dense_put (map value_of_i32 vec) k v))
          ((indexed_view ip)(k \<mapsto> desc_lang d)) (indexed_view ip k \<noteq> None)"
          by (rule stores_dense_put [OF indexed_view_simps(3) indexed_wf.simps(3) _ put k])
            (use len in \<open>simp_all add: DenseI32 indexed_view_simps dense_view_map r comp_def\<close>)
        with True 3 show ?thesis by (simp add: defs)
      qed
    next
      case False
      have "stores (let values = convert_dense_to_sparse_values value_of_i32 vec in
          (values k \<noteq> None, SparseElement (values(k \<mapsto> v))))
        ((indexed_view ip)(k \<mapsto> desc_lang d)) (indexed_view ip k \<noteq> None)"
        unfolding r by (rule stores_hole [OF len]) (simp add: DenseI32 indexed_view_simps comp_def)
      with False show ?thesis by (simp add: defs)
    qed
  next
    case (DenseF64 vec)
    note defs = DenseF64 indexed_insert_def n v
    have len: "length vec < 2 ^ 32" using wf by (simp add: DenseF64)
    show ?thesis
    proof (cases "k \<le> len_u32 vec")
      case True
      then have put: "k \<le> len_u32 (map g vec)" for g :: "f64 \<Rightarrow> 'b" by simp
      show ?thesis
      proof (cases "as_number v")
        case (Some f)
        have "stores (apsnd DenseF64 (dense_put vec k f))
          ((indexed_view ip)(k \<mapsto> desc_lang d)) (indexed_view ip k \<noteq> None)"
          by (rule stores_dense_put [OF indexed_view_simps(2) indexed_wf.simps(2) len True k])
            (simp_all add: DenseF64 indexed_view_simps r lang_value_as_number [OF Some, simplified])
        with True Some show ?thesis by (simp add: defs)
      next
        case None
        have "stores (apsnd DenseElement (dense_put (map value_of_f64 vec) k v))
          ((indexed_view ip)(k \<mapsto> desc_lang d)) (indexed_view ip k \<noteq> None)"
          by (rule stores_dense_put [OF indexed_view_simps(3) indexed_wf.simps(3) _ put k])
            (use len in \<open>simp_all add: DenseF64 indexed_view_simps dense_view_map r comp_def\<close>)
        with True None show ?thesis by (simp add: defs)
      qed
    next
      case False
      have "stores (let values = convert_dense_to_sparse_values value_of_f64 vec in
          (values k \<noteq> None, SparseElement (values(k \<mapsto> v))))
        ((indexed_view ip)(k \<mapsto> desc_lang d)) (indexed_view ip k \<noteq> None)"
        unfolding r by (rule stores_hole [OF len]) (simp add: DenseF64 indexed_view_simps comp_def)
      with False show ?thesis by (simp add: defs)
    qed
  next
    case (DenseElement vec)
    note defs = DenseElement indexed_insert_def n v
    have len: "length vec < 2 ^ 32" using wf by (simp add: DenseElement)
    show ?thesis
    proof (cases "k \<le> len_u32 vec")
      case True
      have "stores (apsnd DenseElement (dense_put vec k v))
        ((indexed_view ip)(k \<mapsto> desc_lang d)) (indexed_view ip k \<noteq> None)"
        by (rule stores_dense_put [OF indexed_view_simps(3) indexed_wf.simps(3) len True k])
          (simp_all add: DenseElement indexed_view_simps r)
      with True show ?thesis by (simp add: defs)
    next
      case False
      have "stores (let values = convert_dense_to_sparse_values (\<lambda>v. v) vec in
          (values k \<noteq> None, SparseElement (values(k \<mapsto> v))))
        ((indexed_view ip)(k \<mapsto> desc_lang d)) (indexed_view ip k \<noteq> None)"
        unfolding r by (rule stores_hole [OF len]) (simp add: DenseElement indexed_view_simps comp_def)
      with False show ?thesis by (simp add: defs)
    qed
  next
    case (DenseReadOnlyElement vec)
    with stores_sparse_insert [OF wf, of k d] show ?thesis by (simp add: indexed_insert_def n v)
  next
    case (SparseElement m)
    have "stores (m k \<noteq> None, SparseElement (m(k \<mapsto> v)))
      ((indexed_view ip)(k \<mapsto> desc_lang d)) (indexed_view ip k \<noteq> None)"
      unfolding stores_def fst_conv snd_conv sparse_property_update r
      by (simp add: SparseElement finite_u32_map indexed_view_simps del: not_None_eq)
    then show ?thesis by (simp add: SparseElement indexed_insert_def n v)
  next
    case (SparseProperty m)
    have "desc_lang (simple_descriptor v) = desc_lang d"
      by (simp add: r desc_lang_simple simple_lang_def)
    then have "stores (m k \<noteq> None, SparseProperty (m(k \<mapsto> simple_descriptor v)))
      ((indexed_view ip)(k \<mapsto> desc_lang d)) (indexed_view ip k \<noteq> None)"
      unfolding stores_def fst_conv snd_conv sparse_property_update
      by (simp add: SparseProperty finite_u32_map indexed_view_simps del: not_None_eq)
    then show ?thesis by (simp add: SparseProperty indexed_insert_def n v)
  qed
qed

lemma stores_indexed_insert:
  assumes "indexed_wf ip" "k \<noteq> u32_MAX" "fully_populated d"
  shows "stores (indexed_insert ip k d) ((indexed_view ip)(k \<mapsto> desc_lang d)) (indexed_view ip k \<noteq> None)"
proof (cases "property_readonly_value d")
  case None
  show ?thesis
  proof (cases "property_simple_value d")
    case n2: None
    with None stores_sparse_insert [OF assms(1), of k d] show ?thesis
      by (simp add: indexed_insert_def)
  qed (use stores_simple_insert [OF None _ assms(1,2)] in blast)
qed (use stores_readonly_insert [OF _ assms(3,1,2)] in blast)

section \<open>Removal, membership and the other operations\<close>

lemma dense_view_butlast:
  assumes "unat k + 1 = length vec"
  shows "dense_view f (butlast vec) = (dense_view f vec)(k := None)"
proof
  fix q
  have "q = k \<longleftrightarrow> unat q = unat k" by (simp add: word_unat_eq_iff)
  then show "dense_view f (butlast vec) q = ((dense_view f vec)(k := None)) q"
    using assms by (auto simp: dense_view_apply nth_butlast)
qed

lemma unat_succ: "k \<noteq> u32_MAX \<Longrightarrow> unat (k + 1) = Suc (unat k)"
  using unat_not_max [of k] by (simp add: unat_word_ariths)

lemma stores_dense_remove:
  assumes rep: "\<And>v. indexed_view (rep v) = dense_view f v" "\<And>v. indexed_wf (rep v) \<longleftrightarrow> length v < 2 ^ 32"
    and len: "length vec < 2 ^ 32" and k: "k \<noteq> u32_MAX"
    and sparse: "stores (convert_to_sparse_and_remove (rep vec) k) ((dense_view f vec)(k := None))
      (dense_view f vec k \<noteq> None)"
  shows "stores (dense_remove rep vec k) ((dense_view f vec)(k := None)) (dense_view f vec k \<noteq> None)"
proof -
  have e: "k + 1 = len_u32 vec \<longleftrightarrow> Suc (unat k) = length vec"
    by (simp add: len_u32_eq [OF len] unat_succ [OF k])
  have le: "len_u32 vec \<le> k \<longleftrightarrow> length vec \<le> unat k"
    using len_u32_less [OF len, of k] by (auto simp: not_less [symmetric])
  consider "Suc (unat k) = length vec" | "Suc (unat k) \<noteq> length vec" "length vec \<le> unat k"
    | "Suc (unat k) \<noteq> length vec" "\<not> length vec \<le> unat k" by blast
  then show ?thesis
  proof cases
    case 1
    then show ?thesis
      using len by (simp add: dense_remove_def e stores_def rep dense_view_butlast)
  next
    case 2
    then have "dense_view f vec k = None" by (simp add: dense_view_apply)
    then have "(dense_view f vec)(k := None) = dense_view f vec" by (simp add: fun_upd_idem)
    with 2 len show ?thesis
      by (simp add: dense_remove_def e le stores_def rep)
  next
    case 3
    with sparse show ?thesis by (simp add: dense_remove_def e le)
  qed
qed

lemma stores_sparse_remove:
  assumes "length vec < 2 ^ 32" "dense_view (simple_lang \<circ> lang_value \<circ> into) vec = old"
  shows "stores (let d = convert_dense_to_sparse_values into vec in
      (d k \<noteq> None, SparseElement (d(k := None)))) (old(k := None)) (old k \<noteq> None)"
proof -
  have c: "convert_dense_to_sparse_values into vec = dense_view into vec"
    by (simp add: convert_dense_to_sparse_values_def collect_indexed_dense [OF assms(1)])
  have w: "indexed_view (SparseElement (dense_view into vec)) = old"
    unfolding assms(2) [symmetric] by (simp add: indexed_view_simps option.map_comp comp_assoc)
  have "dense_view into vec k \<noteq> None \<longleftrightarrow> old k \<noteq> None"
    unfolding assms(2) [symmetric] by (rule dense_view_None)
  then show ?thesis
    unfolding stores_def Let_def c fst_conv snd_conv sparse_property_update w
    by (simp add: finite_u32_map del: not_None_eq)
qed

lemma stores_indexed_remove:
  assumes wf: "indexed_wf ip" and k: "k \<noteq> u32_MAX"
  shows "stores (indexed_remove ip k) ((indexed_view ip)(k := None)) (indexed_view ip k \<noteq> None)"
proof (cases ip)
  case (DenseI32 vec)
  have len: "length vec < 2 ^ 32" using wf by (simp add: DenseI32)
  have "stores (convert_to_sparse_and_remove (DenseI32 vec) k)
      ((dense_view (simple_lang \<circ> LNumber \<circ> f64_of_i32) vec)(k := None))
      (dense_view (simple_lang \<circ> LNumber \<circ> f64_of_i32) vec k \<noteq> None)"
    unfolding convert_to_sparse_and_remove.simps
    by (rule stores_sparse_remove [OF len]) (simp add: comp_def)
  then show ?thesis
    unfolding DenseI32 indexed_view_simps indexed_remove.simps
    by (rule stores_dense_remove [OF indexed_view_simps(1) indexed_wf.simps(1) len k])
next
  case (DenseF64 vec)
  have len: "length vec < 2 ^ 32" using wf by (simp add: DenseF64)
  have "stores (convert_to_sparse_and_remove (DenseF64 vec) k)
      ((dense_view (simple_lang \<circ> lang_value \<circ> VFloat64) vec)(k := None))
      (dense_view (simple_lang \<circ> lang_value \<circ> VFloat64) vec k \<noteq> None)"
    unfolding convert_to_sparse_and_remove.simps
    by (rule stores_sparse_remove [OF len]) (simp add: comp_def)
  then show ?thesis
    unfolding DenseF64 indexed_view_simps indexed_remove.simps
    by (rule stores_dense_remove [OF indexed_view_simps(2) indexed_wf.simps(2) len k])
next
  case (DenseElement vec)
  have len: "length vec < 2 ^ 32" using wf by (simp add: DenseElement)
  have "stores (convert_to_sparse_and_remove (DenseElement vec) k)
      ((dense_view (simple_lang \<circ> lang_value) vec)(k := None))
      (dense_view (simple_lang \<circ> lang_value) vec k \<noteq> None)"
    unfolding convert_to_sparse_and_remove.simps
    by (rule stores_sparse_remove [OF len]) (simp add: comp_def)
  then show ?thesis
    unfolding DenseElement indexed_view_simps indexed_remove.simps
    by (rule stores_dense_remove [OF indexed_view_simps(3) indexed_wf.simps(3) len k])
next
  case (DenseReadOnlyElement vec)
  have len: "length vec < 2 ^ 32" using wf by (simp add: DenseReadOnlyElement)
  have c: "convert_readonly_dense_to_sparse vec = dense_view readonly_descriptor vec"
    by (simp add: convert_readonly_dense_to_sparse_def collect_indexed_dense [OF len])
  have "stores (convert_to_sparse_and_remove (DenseReadOnlyElement vec) k)
      ((dense_view (desc_lang \<circ> readonly_descriptor) vec)(k := None))
      (dense_view (desc_lang \<circ> readonly_descriptor) vec k \<noteq> None)"
    unfolding convert_to_sparse_and_remove.simps Let_def c stores_def fst_conv snd_conv sparse_property_update
    by (simp add: finite_u32_map indexed_view_simps option.map_comp)
  then show ?thesis
    unfolding DenseReadOnlyElement indexed_view_simps indexed_remove.simps
    by (rule stores_dense_remove [OF indexed_view_simps(4) indexed_wf.simps(4) len k])
next
  case (SparseElement m)
  then show ?thesis
    unfolding stores_def SparseElement indexed_remove.simps fst_conv snd_conv sparse_property_update
    by (simp add: finite_u32_map indexed_view_simps del: not_None_eq)
next
  case (SparseProperty m)
  then show ?thesis
    unfolding stores_def SparseProperty indexed_remove.simps fst_conv snd_conv sparse_property_update
    by (simp add: finite_u32_map indexed_view_simps del: not_None_eq)
qed

lemma indexed_contains_key_view:
  "indexed_wf ip \<Longrightarrow> indexed_contains_key ip k \<longleftrightarrow> indexed_get ip k \<noteq> None"
  by (cases ip) (simp_all add: len_u32_less dense_view_apply del: not_None_eq)

lemma indexed_view_None: "indexed_view ip k = None \<longleftrightarrow> indexed_get ip k = None"
  by (simp add: indexed_view_def)

lemma indexed_key_set_view: "indexed_wf ip \<Longrightarrow> indexed_key_set ip = dom (indexed_get ip)"
  by (cases ip) (auto simp: len_u32_less dense_view_apply dom_def vec_get_def split: if_splits)

lemma transform_to_sparse_view:
  "indexed_wf ip \<Longrightarrow> indexed_view (transform_to_sparse ip) = indexed_view ip"
  by (cases ip)
     (simp_all add: indexed_view_simps collect_indexed_dense option.map_comp comp_def)

lemma transform_to_sparse_wf: "indexed_wf ip \<Longrightarrow> indexed_wf (transform_to_sparse ip)"
  by (cases ip) (simp_all add: finite_u32_map)

text \<open>The length of a dense representation that can be written.\<close>

fun dense_length :: "indexed_properties \<Rightarrow> nat option" where
  "dense_length (DenseI32 vec) = Some (length vec)"
| "dense_length (DenseF64 vec) = Some (length vec)"
| "dense_length (DenseElement vec) = Some (length vec)"
| "dense_length _ = None"

lemma dense_view_snoc:
  assumes "length vec < 2 ^ 32"
  shows "dense_view f (vec @ [x]) = (dense_view f vec)(len_u32 vec \<mapsto> f x)"
  using len_u32_eq [OF assms] by (auto simp: dense_view_apply fun_eq_iff nth_append)

lemma push_dense_view:
  assumes "indexed_wf ip" "dense_length ip = Some n"
  shows "fst (push_dense ip v)"
    and "indexed_view (snd (push_dense ip v)) = (indexed_view ip)(word_of_nat n \<mapsto> simple_lang (lang_value v))"
  using assms lang_value_as_i32 [of v] lang_value_as_number [of v]
  by (cases ip; force simp: indexed_view_simps dense_view_snoc dense_view_map comp_def
        split: option.split)+

lemma set_dense_property_view:
  assumes "indexed_wf ip" "dense_length ip = Some n" "unat k < n"
  shows "stores (set_dense_property ip k v) ((indexed_view ip)(k \<mapsto> simple_lang (lang_value v))) True"
proof -
  have up: "dense_view f (vec[unat k := x]) = (dense_view f vec)(k \<mapsto> f x)" if "unat k < length vec"
    for f :: "'a \<Rightarrow> 'b" and vec x
    using that by (auto simp: dense_view_apply fun_eq_iff nth_list_update word_unat_eq_iff)
  have i: "n = f64_of_i32 (f64_as_i32 n) \<Longrightarrow> LNumber (f64_of_i32 (f64_as_i32 n)) = lang_value (VFloat64 n)" for n
    using lang_value_as_i32 [of "VFloat64 n"] by (simp add: Let_def)
  show ?thesis
  proof (cases ip)
    case (DenseI32 vec)
    with assms show ?thesis
      using i by (cases v)
        (auto simp: stores_def indexed_view_simps up dense_view_map comp_def simp del: map_update
          lang_value.simps(2) split: if_splits)
  next
    case (DenseF64 vec)
    with assms lang_value_as_number [of v] show ?thesis
      by (cases "as_number v")
        (auto simp: stores_def indexed_view_simps up dense_view_map comp_def simp del: map_update)
  next
    case (DenseElement vec)
    with assms show ?thesis by (simp add: stores_def indexed_view_simps up)
  qed (use assms in simp_all)
qed

text \<open>The fast read of a data value agrees with \<open>get\<close>.\<close>

lemma get_indexed_data_property_get:
  "get_indexed_data_property ip k =
     (case indexed_get ip k of
        None \<Rightarrow> None
      | Some d \<Rightarrow> if is_accessor_descriptor d then None
          else Some (case pd_value d of None \<Rightarrow> VUndefined | Some v \<Rightarrow> v))"
  by (cases ip)
     (auto simp: simple_descriptor_def readonly_descriptor_def desc_simps vec_get_def split: option.split)

section \<open>The search of a boxed vector is the indexed search\<close>

lemma scan_range_append:
  "scan_range at search (xs @ ys) n =
     (case scan_range at search xs n of Inr (None, n') \<Rightarrow> scan_range at search ys n' | r \<Rightarrow> r)"
  by (induction at search xs n rule: scan_range.induct) (auto split: option.split)

lemma scan_slice_range:
  assumes "a + length vs \<le> length values" "vs = take (length vs) (drop a values)"
    "length values < 2 ^ 32" "unat start \<le> a"
  shows "scan_range (\<lambda>i. vec_get values (unat i)) search (map word_of_nat [a ..< a + length vs]) n =
    (case scan_slice search start vs (a - unat start) n of
       Inl (i, m) \<Rightarrow> Inr (Some i, m) | Inr m \<Rightarrow> Inr (None, m))"
  using assms
proof (induction vs arbitrary: a n)
  case (Cons v vs)
  have a: "a < length values" using Cons.prems(1) by simp
  then have d: "drop a values = values ! a # drop (Suc a) values" by (simp add: Cons_nth_drop_Suc)
  have v: "v = values ! a" "vs = take (length vs) (drop (Suc a) values)"
    using Cons.prems(2) unfolding d by simp_all
  have ua: "unat (word_of_nat a :: u32) = a" using a Cons.prems(3) by (intro unat_small_add) simp
  have st: "start + word_of_nat (a - unat start) = word_of_nat a"
    using Cons.prems(4) by (metis le_add_diff_inverse of_nat_add of_nat_unat ucast_id)
  have r: "[a ..< a + length (v # vs)] = a # [Suc a ..< Suc a + length vs]"
    by (subst upt_conv_Cons) simp_all
  have suc: "Suc a - unat start = Suc (a - unat start)" using Cons.prems(4) by simp
  have g: "vec_get values (unat (word_of_nat a :: u32)) = Some v"
    using a v(1) ua by simp
  have ih: "scan_range (\<lambda>i. vec_get values (unat i)) search (map word_of_nat [Suc a ..< Suc a + length vs]) (Suc n) =
      (case scan_slice search start vs (Suc (a - unat start)) (Suc n) of
         Inl (i, m) \<Rightarrow> Inr (Some i, m) | Inr m \<Rightarrow> Inr (None, m))"
    using Cons.IH [of "Suc a" "Suc n"] Cons.prems v(2) unfolding suc by simp
  show ?case
    unfolding r list.map scan_range.simps g option.case scan_slice.simps st ih by simp
qed simp

lemma upt_append: "a \<le> m \<Longrightarrow> m \<le> b \<Longrightarrow> [a ..< m] @ [m ..< b] = [a ..< b]"
  by (metis le_add_diff_inverse upt_add_eq_append)

lemma scan_dense_elements_range:
  assumes len: "length values < 2 ^ 32" and le: "start \<le> stop"
  shows "scan_dense_elements values start stop search =
    Some (scan_range (\<lambda>i. vec_get values (unat i)) search (index_range start stop) 0)"
proof -
  let ?at = "\<lambda>i. vec_get values (unat i)"
  note def = scan_dense_elements_def Let_def
  have l: "(if length values < 2 ^ 32 then len_u32 values else u32_MAX) = len_u32 values" using len by simp
  have ul: "unat (len_u32 values) = length values" using len by (rule unat_small_add)
  have us: "unat start \<le> unat stop" using le by (simp add: word_le_nat_alt)
  have ut: "unat stop < 2 ^ 32" using unsigned_less [of stop, where ?'a = nat] by simp
  have hd: "index_range x stop = x # map word_of_nat [Suc (unat x) ..< unat stop]" if "x < stop" for x
    using that by (simp add: index_range_def word_less_nat_alt upt_conv_Cons)
  consider "start = stop" | "start < stop" "length values \<le> unat start" | "start < stop" "unat start < length values"
    using le by (metis linorder_not_less order_le_less)
  then show ?thesis
  proof cases
    case 1
    then show ?thesis by (simp add: def index_range_def)
  next
    case 2
    then have "?at start = None" "len_u32 values \<le> start"
      using ul by (simp_all add: word_le_nat_alt)
    with 2 show ?thesis unfolding def l by (auto simp: hd vec_get_def)
  next
    case 3
    let ?e = "min stop (len_u32 values)"
    have ue: "unat ?e = min (unat stop) (length values)"
      using ul by (auto simp: min_def word_le_nat_alt)
    let ?vs = "take (unat ?e - unat start) (drop (unat start) values)"
    have lv: "unat start + length ?vs = unat ?e" using 3 us ue by (simp add: word_less_nat_alt)
    have sl: "scan_range ?at search (map word_of_nat [unat start ..< unat ?e]) 0 =
        (case scan_slice search start ?vs 0 0 of Inl (i, m) \<Rightarrow> Inr (Some i, m) | Inr m \<Rightarrow> Inr (None, m))"
      using scan_slice_range [of "unat start" ?vs "values" start search 0] lv ue len by simp
    have split: "index_range start stop =
        map word_of_nat [unat start ..< unat ?e] @ map word_of_nat [unat ?e ..< unat stop]"
      unfolding index_range_def map_append [symmetric]
      by (subst upt_append) (use us ue 3(2) in simp_all)
    have tail: "scan_range ?at search (map word_of_nat [unat ?e ..< unat stop]) m =
        (if ?e < stop then Inl (?e, m) else Inr (None, m))" for m
    proof (cases "?e < stop")
      case True
      then have e: "?e = len_u32 values" by (auto simp: min_def split: if_splits)
      have "unat ?e < unat stop" using True by (simp only: word_less_nat_alt)
      then have "map word_of_nat [unat ?e ..< unat stop] = ?e # map word_of_nat [Suc (unat ?e) ..< unat stop]"
        by (subst upt_conv_Cons) simp_all
      moreover have "?at ?e = None" unfolding e ul by (simp add: vec_get_def)
      ultimately show ?thesis using True by (simp only: scan_range.simps option.case if_True)
    qed (simp add: word_less_nat_alt)
    have c: "\<not> len_u32 values \<le> start" "\<not> ?e < start" "start \<noteq> stop"
      using 3 ul ue us by (auto simp: word_le_nat_alt word_less_nat_alt)
    show ?thesis
      unfolding def l split scan_range_append sl using c tail
      by (simp split: sum.split)
  qed
qed

lemma index_of_contiguous_range:
  assumes "indexed_wf ip" "start \<le> stop"
  shows "index_of_contiguous_own_data ip start stop search =
    Some (scan_range (get_indexed_data_property ip) search (index_range start stop) 0)"
  using assms scan_dense_elements_range
  by (cases ip) (simp_all add: index_of_contiguous_own_data_def get_indexed_data_property.simps [abs_def])

section \<open>Properties\<close>

text \<open>C32
  Whatever the representation was and becomes, inserting a descriptor under an index stores it
  there, up to the representation of a number, keeps all other indices and reports whether there
  was a descriptor before. The new representation is again in order.
\<close>
theorem indexed_insert_stores:
  assumes "indexed_wf ip" "k \<noteq> u32_MAX" "fully_populated d"
  shows "(fst (indexed_insert ip k d) \<longleftrightarrow> indexed_get ip k \<noteq> None) \<and>
    indexed_wf (snd (indexed_insert ip k d)) \<and>
    indexed_view (snd (indexed_insert ip k d)) = (indexed_view ip)(k \<mapsto> desc_lang d)"
  using stores_indexed_insert [OF assms] by (simp add: stores_def indexed_view_None)

theorem indexed_insert_stores_witness:
  "indexed_view (snd (indexed_insert (DenseI32 [1]) 1 (data_property (VString []) True True False))) =
     (indexed_view (DenseI32 [1]))(1 \<mapsto> desc_lang (data_property (VString []) True True False))"
  using indexed_insert_stores [of "DenseI32 [1]" 1 "data_property (VString []) True True False"]
  by (simp add: u32_MAX_def)

text \<open>
  Removing an index removes it and nothing else, and reports whether it was there; popping the last
  element of a vector and converting to a map give the same contents.
\<close>
theorem indexed_remove_removes:
  assumes "indexed_wf ip" "k \<noteq> u32_MAX"
  shows "(fst (indexed_remove ip k) \<longleftrightarrow> indexed_get ip k \<noteq> None) \<and>
    indexed_wf (snd (indexed_remove ip k)) \<and>
    indexed_view (snd (indexed_remove ip k)) = (indexed_view ip)(k := None)"
  using stores_indexed_remove [OF assms] by (simp add: stores_def indexed_view_None)

theorem indexed_remove_removes_witness:
  "indexed_view (snd (indexed_remove (DenseF64 [0, 1, 2]) 1)) = (indexed_view (DenseF64 [0, 1, 2]))(1 := None)"
  using indexed_remove_removes [of "DenseF64 [0, 1, 2]" 1] by (simp add: u32_MAX_def)

text \<open>
  The fast paths agree with \<open>get\<close>: \<open>contains_key\<close>, the keys that are iterated, the read of a data
  value, and the contents after \<open>transform_to_sparse\<close>.
\<close>
theorem indexed_fast_paths_agree:
  assumes "indexed_wf ip"
  shows "(indexed_contains_key ip k \<longleftrightarrow> indexed_get ip k \<noteq> None) \<and>
    indexed_key_set ip = dom (indexed_get ip) \<and>
    get_indexed_data_property ip k =
      (case indexed_get ip k of
         None \<Rightarrow> None
       | Some d \<Rightarrow> if is_accessor_descriptor d then None
           else Some (case pd_value d of None \<Rightarrow> VUndefined | Some v \<Rightarrow> v)) \<and>
    indexed_view (transform_to_sparse ip) = indexed_view ip"
  using indexed_contains_key_view [OF assms] indexed_key_set_view [OF assms]
    get_indexed_data_property_get [of ip k] transform_to_sparse_view [OF assms] by blast

theorem indexed_fast_paths_agree_witness:
  "indexed_contains_key (DenseI32 [4, 5]) 1 \<longleftrightarrow> indexed_get (DenseI32 [4, 5]) 1 \<noteq> None"
  using indexed_fast_paths_agree [of "DenseI32 [4, 5]" 1] by (simp del: not_None_eq)

text \<open>
  The search for a value in a range, which on boxed vectors slices and scans without reading
  through \<open>get_indexed_data_property\<close>, has the result and the count of scanned elements of the scan
  that reads each index in turn; it panics on no range that is in order.
\<close>
theorem index_search_equivalent:
  assumes "indexed_wf ip" "start \<le> stop"
  shows "index_of_contiguous_own_data ip start stop search =
    Some (scan_range (get_indexed_data_property ip) search (index_range start stop) 0)"
  by (rule index_of_contiguous_range [OF assms])

theorem index_search_equivalent_witness:
  "index_of_contiguous_own_data (DenseElement [VNull, VUndefined]) 0 2 VUndefined =
     Some (scan_range (get_indexed_data_property (DenseElement [VNull, VUndefined])) VUndefined (index_range 0 2) 0)"
  by (rule index_search_equivalent) simp_all

text \<open>
  A boxed vector that is searched from an index beyond the end of the range panics when the index
  is in the vector, where every other representation finds nothing.
\<close>
theorem index_search_reversed_panics:
  "index_of_contiguous_own_data (DenseElement [VNull, VNull]) 1 0 VNull = None \<and>
   index_of_contiguous_own_data (DenseI32 [0, 0]) 1 0 VNull = Some (Inr (None, 0))"
  by (simp add: index_of_contiguous_own_data_def scan_dense_elements_def Let_def index_range_def
      word_le_nat_alt word_less_nat_alt min_def)

text \<open>
  The write to an existing index of a dense vector stores the value, whatever representation that
  takes, and the push appends it.
\<close>
theorem dense_write_stores:
  assumes "indexed_wf ip" "dense_length ip = Some n" "unat k < n"
  shows "fst (set_dense_property ip k v) \<and> fst (push_dense ip v) \<and>
    indexed_view (snd (set_dense_property ip k v)) = (indexed_view ip)(k \<mapsto> simple_lang (lang_value v)) \<and>
    indexed_view (snd (push_dense ip v)) = (indexed_view ip)(word_of_nat n \<mapsto> simple_lang (lang_value v))"
  using set_dense_property_view [OF assms] push_dense_view [OF assms(1,2)] by (simp add: stores_def)

theorem dense_write_stores_witness:
  "indexed_view (snd (set_dense_property (DenseI32 [4, 5]) 1 (VString [97]))) =
     (indexed_view (DenseI32 [4, 5]))(1 \<mapsto> simple_lang (lang_value (VString [97])))"
  using dense_write_stores [of "DenseI32 [4, 5]" 2 1 "VString [97]"] by (simp del: fun_upd_apply)

end
