(* ===== verification/PropertyMap.thy ===== *)
theory PropertyMap
  imports ShapeProperties IndexedProperties
begin

text \<open>
  The properties of an object (\<open>PropertyMap\<close> in \<open>object/property_map.rs\<close>): the indexed
  properties, and for string and symbol keys a shape with a vector of the values that the slots of
  the shape index. The operations take and return the store of shapes; \<open>None\<close> is a panic, of an
  index out of range, of \<open>expect_value\<close> or of a transition.
\<close>

section \<open>State\<close>

record property_map =
  pm_indexed :: indexed_properties
  pm_shape :: shape
  pm_storage :: "js_value list"

definition property_map_new :: "shape \<Rightarrow> indexed_properties \<Rightarrow> property_map" where
  "property_map_new shape indexed_properties =
     \<lparr>pm_indexed = indexed_properties, pm_shape = shape, pm_storage = []\<rparr>"

definition from_prototype_unique_shape :: "shape_heap \<Rightarrow> js_prototype \<Rightarrow> property_map \<times> shape_heap" where
  "from_prototype_unique_shape h prototype =
     (let (u, h) = alloc_unique \<lparr>us_table = ptable_empty, us_prototype = prototype\<rparr> h in
      (\<lparr>pm_indexed = indexed_default, pm_shape = Unique u, pm_storage = []\<rparr>, h))"

definition from_prototype_with_shared_shape ::
  "shape_heap \<Rightarrow> shape_addr \<Rightarrow> js_prototype \<Rightarrow> (property_map \<times> shape_heap) panics" where
  "from_prototype_with_shared_shape h root prototype =
     do {
       (a, h) \<leftarrow> shared_change_prototype_transition h root prototype;
       Some (\<lparr>pm_indexed = indexed_default, pm_shape = Shared a, pm_storage = []\<rparr>, h)
     }"

section \<open>Reading\<close>

definition get_storage :: "js_value list \<Rightarrow> slot \<Rightarrow> property_descriptor panics" where
  "get_storage storage slot =
     (let index = unat (sl_index slot);
          attributes = sl_attributes slot;
          builder = build_enumerable (flags_contains attributes SLOT_ENUMERABLE)
            (build_configurable (flags_contains attributes SLOT_CONFIGURABLE) pd_default) in
      if is_accessor_attributes attributes then
        do {
          builder \<leftarrow>
            (if has_get attributes
             then do { v \<leftarrow> vec_get storage index; Some (build_get v builder) } else Some builder);
          if has_set attributes
          then do { v \<leftarrow> vec_get storage (index + 1); Some (build_set v builder) } else Some builder
        }
      else
        do {
          v \<leftarrow> vec_get storage index;
          Some (build_value v (build_writable (flags_contains attributes SLOT_WRITABLE) builder))
        })"

definition pm_get :: "shape_heap \<Rightarrow> property_map \<Rightarrow> property_key \<Rightarrow> property_descriptor option panics" where
  "pm_get h self key =
     (case key of
        PKIndex index \<Rightarrow> Some (indexed_get (pm_indexed self) index)
      | _ \<Rightarrow>
          do {
            found \<leftarrow> shape_lookup h (pm_shape self) key;
            case found of
              Some slot \<Rightarrow> map_option Some (get_storage (pm_storage self) slot)
            | None \<Rightarrow> Some None
          })"

definition pm_get_with_slot ::
  "shape_heap \<Rightarrow> property_map \<Rightarrow> property_key \<Rightarrow> slot \<Rightarrow> (property_descriptor option \<times> slot) panics" where
  "pm_get_with_slot h self key out_slot =
     (case key of
        PKIndex index \<Rightarrow> Some (indexed_get (pm_indexed self) index, out_slot)
      | _ \<Rightarrow>
          do {
            found \<leftarrow> shape_lookup h (pm_shape self) key;
            case found of
              Some slot \<Rightarrow>
                do {
                  d \<leftarrow> get_storage (pm_storage self) slot;
                  Some (Some d,
                    \<lparr>sl_index = sl_index slot,
                     sl_attributes = ((sl_attributes out_slot AND SLOT_INLINE_CACHE_BITS)
                       OR sl_attributes slot) OR SLOT_FOUND\<rparr>)
                }
            | None \<Rightarrow> Some (None, out_slot)
          })"

definition get_own_named_data_property_value ::
  "shape_heap \<Rightarrow> property_map \<Rightarrow> property_key \<Rightarrow> js_value option panics" where
  "get_own_named_data_property_value h self key =
     (case key of
        PKIndex _ \<Rightarrow> Some None
      | _ \<Rightarrow>
          do {
            found \<leftarrow> shape_lookup h (pm_shape self) key;
            case found of
              None \<Rightarrow> Some None
            | Some slot \<Rightarrow>
                if is_accessor_attributes (sl_attributes slot) then Some None
                else Some (vec_get (pm_storage self) (unat (sl_index slot)))
          })"

definition pm_contains_key :: "shape_heap \<Rightarrow> property_map \<Rightarrow> property_key \<Rightarrow> bool panics" where
  "pm_contains_key h self key =
     (case key of
        PKIndex index \<Rightarrow> Some (indexed_contains_key (pm_indexed self) index)
      | _ \<Rightarrow> map_option (\<lambda>found. found \<noteq> None) (shape_lookup h (pm_shape self) key))"

section \<open>Writing\<close>

definition unwrap_or_undefined :: "js_value option \<Rightarrow> js_value" where
  "unwrap_or_undefined v = (case v of None \<Rightarrow> VUndefined | Some v \<Rightarrow> v)"

definition apply_storage_action :: "change_transition_action \<Rightarrow> nat \<Rightarrow> js_value list \<Rightarrow> js_value list panics" where
  "apply_storage_action action index storage =
     (case action of
        Nothing \<Rightarrow> Some storage
      | Remove \<Rightarrow> vec_remove storage (index + 1)
      | Insert \<Rightarrow> vec_insert storage index VUndefined)"

text \<open>The values of an existing property are overwritten in place.\<close>

definition write_storage ::
  "slot_attributes \<Rightarrow> property_descriptor \<Rightarrow> nat \<Rightarrow> js_value list \<Rightarrow> js_value list panics" where
  "write_storage attributes property index storage =
     (if is_accessor_attributes attributes then
        do {
          storage \<leftarrow>
            (if has_get attributes
             then vec_set storage index (unwrap_or_undefined (pd_get property)) else Some storage);
          if has_set attributes
          then vec_set storage (index + 1) (unwrap_or_undefined (pd_set property)) else Some storage
        }
      else do { v \<leftarrow> pd_value property; vec_set storage index v })"

definition push_storage :: "slot_attributes \<Rightarrow> property_descriptor \<Rightarrow> js_value list \<Rightarrow> js_value list" where
  "push_storage attributes property storage =
     (if is_accessor_attributes attributes
      then storage @ [unwrap_or_undefined (pd_get property)] @ [unwrap_or_undefined (pd_set property)]
      else storage @ [unwrap_or_undefined (pd_value property)])"

definition kept_cache_bits :: "slot \<Rightarrow> u32 \<Rightarrow> slot_attributes \<Rightarrow> slot" where
  "kept_cache_bits out_slot index attributes =
     \<lparr>sl_index = index,
      sl_attributes = (sl_attributes out_slot AND SLOT_INLINE_CACHE_BITS) OR attributes\<rparr>"

definition pm_insert_with_slot ::
  "'m index_map_ops \<Rightarrow> shape_heap \<Rightarrow> property_map \<Rightarrow> property_key \<Rightarrow> property_descriptor \<Rightarrow> slot \<Rightarrow>
     (bool \<times> property_map \<times> slot \<times> shape_heap) panics" where
  "pm_insert_with_slot im h self key property out_slot =
     (case key of
        PKIndex index \<Rightarrow>
          (let (existed, ip) = indexed_insert (pm_indexed self) index property in
           Some (existed, self\<lparr>pm_indexed := ip\<rparr>, out_slot, h))
      | _ \<Rightarrow>
          do {
            attributes \<leftarrow> to_slot_attributes property;
            found \<leftarrow> shape_lookup h (pm_shape self) key;
            let tk = \<lparr>tk_property_key = key, tk_attributes = attributes\<rparr>;
            case found of
              Some slot \<Rightarrow>
                do {
                  let index = unat (sl_index slot);
                  (shape, storage, h) \<leftarrow>
                    (if sl_attributes slot \<noteq> attributes then
                       do {
                         (shape, action, h) \<leftarrow> shape_change_attributes_transition im h (pm_shape self) tk;
                         storage \<leftarrow> apply_storage_action action index (pm_storage self);
                         Some (shape, storage, h)
                       }
                     else Some (pm_shape self, pm_storage self, h));
                  storage \<leftarrow> write_storage attributes property index storage;
                  Some (True, self\<lparr>pm_shape := shape, pm_storage := storage\<rparr>,
                    kept_cache_bits out_slot (sl_index slot) attributes, h)
                }
            | None \<Rightarrow>
                do {
                  (shape, h) \<leftarrow> shape_insert_property_transition h (pm_shape self) tk;
                  Some (False,
                    self\<lparr>pm_shape := shape, pm_storage := push_storage attributes property (pm_storage self)\<rparr>,
                    kept_cache_bits out_slot (word_of_nat (length (pm_storage self))) attributes, h)
                }
          })"

definition pm_insert ::
  "'m index_map_ops \<Rightarrow> shape_heap \<Rightarrow> property_map \<Rightarrow> property_key \<Rightarrow> property_descriptor \<Rightarrow>
     (bool \<times> property_map \<times> shape_heap) panics" where
  "pm_insert im h self key property =
     do {
       (existed, self, _, h) \<leftarrow> pm_insert_with_slot im h self key property slot_new;
       Some (existed, self, h)
     }"

definition pm_remove ::
  "'m index_map_ops \<Rightarrow> shape_heap \<Rightarrow> property_map \<Rightarrow> property_key \<Rightarrow>
     (bool \<times> property_map \<times> shape_heap) panics" where
  "pm_remove im h self key =
     (case key of
        PKIndex index \<Rightarrow>
          (let (existed, ip) = indexed_remove (pm_indexed self) index in
           Some (existed, self\<lparr>pm_indexed := ip\<rparr>, h))
      | _ \<Rightarrow>
          do {
            found \<leftarrow> shape_lookup h (pm_shape self) key;
            case found of
              None \<Rightarrow> Some (False, self, h)
            | Some slot \<Rightarrow>
                do {
                  let index = unat (sl_index slot);
                  storage \<leftarrow>
                    (if is_accessor_attributes (sl_attributes slot)
                     then vec_remove (pm_storage self) (index + 1) else Some (pm_storage self));
                  storage \<leftarrow> vec_remove storage index;
                  (shape, h) \<leftarrow> shape_remove_property_transition im h (pm_shape self) key;
                  Some (True, self\<lparr>pm_shape := shape, pm_storage := storage\<rparr>, h)
                }
          })"

definition override_indexed_properties :: "js_value list \<Rightarrow> property_map \<Rightarrow> property_map" where
  "override_indexed_properties properties self = self\<lparr>pm_indexed := DenseElement properties\<rparr>"

end
