(* ===== verification/JsResult.thy ===== *)
theory JsResult
  imports JsValue
begin

text \<open>
  Computations of the engine that may call user code: a \<open>JsResult\<close> and a new state of the world
  (the \<open>Context\<close> and the heap), or no result when the computation does not return. A loop over user
  code is a \<open>partial_function (option)\<close>, so that its not returning is a value of the model.
\<close>

datatype js_error = TypeError | RangeError | EngineError | Thrown js_value

type_synonym ('w, 'a) run = "'w \<Rightarrow> ((js_error + 'a) \<times> 'w) option"

definition run_return :: "'a \<Rightarrow> ('w, 'a) run" where
  "run_return a w = Some (Inr a, w)"

definition run_throw :: "js_error \<Rightarrow> ('w, 'a) run" where
  "run_throw e w = Some (Inl e, w)"

text \<open>Rust's \<open>?\<close>.\<close>

definition run_bind :: "('w, 'a) run \<Rightarrow> ('a \<Rightarrow> ('w, 'b) run) \<Rightarrow> ('w, 'b) run" where
  "run_bind m f w =
     Option.bind (m w) (\<lambda>rw. case fst rw of Inl e \<Rightarrow> Some (Inl e, snd rw) | Inr a \<Rightarrow> f a (snd rw))"

text \<open>A result that needs no state, and a panic, which is no result as not returning is.\<close>

definition run_lift :: "js_error + 'a \<Rightarrow> ('w, 'a) run" where
  "run_lift r w = Some (r, w)"

definition run_unwrap :: "'a option \<Rightarrow> ('w, 'a) run" where
  "run_unwrap r w = (case r of None \<Rightarrow> None | Some a \<Rightarrow> Some (Inr a, w))"

text \<open>Reading and replacing a part of the world.\<close>

definition run_gets :: "('w \<Rightarrow> 'a) \<Rightarrow> ('w, 'a) run" where
  "run_gets f w = Some (Inr (f w), w)"

definition run_modify :: "('w \<Rightarrow> 'w) \<Rightarrow> ('w, unit) run" where
  "run_modify f w = Some (Inr (), f w)"

lemma run_bind_mono [partial_function_mono]:
  assumes "\<And>w. mono_option (\<lambda>f. B f w)" and "\<And>a w. mono_option (\<lambda>f. C a f w)"
  shows "mono_option (\<lambda>f. run_bind (B f) (\<lambda>a. C a f) w)"
proof -
  have "mono_option (\<lambda>f. case fst rw of Inl e \<Rightarrow> Some (Inl e, snd rw) | Inr a \<Rightarrow> C a f (snd rw))" for rw
    using assms(2) by (cases "fst rw") (auto simp: monotone_def flat_ord_def fun_ord_def)
  then show ?thesis unfolding run_bind_def using assms(1) by (intro bind_mono)
qed

named_theorems run_simps \<open>evaluation of computations\<close>

lemma run_evaluate [run_simps]:
  "run_return a w = Some (Inr a, w)" "run_throw e w = Some (Inl e, w)"
  "run_gets g w = Some (Inr (g w), w)" "run_modify h w = Some (Inr (), h w)"
  by (simp_all add: run_return_def run_throw_def run_gets_def run_modify_def)

lemma run_bind_cases [run_simps]:
  "m w = Some (Inr a, w') \<Longrightarrow> run_bind m f w = f a w'"
  "m w = Some (Inl e, w') \<Longrightarrow> run_bind m f w = Some (Inl e, w')"
  "m w = None \<Longrightarrow> run_bind m f w = None"
  by (simp_all add: run_bind_def)

lemma run_bind_pure [run_simps]:
  "run_bind (run_return a) f w = f a w" "run_bind (run_throw e) f w = Some (Inl e, w)"
  "run_bind (run_gets g) f w = f (g w) w" "run_bind (run_modify h) f w = f () (h w)"
  by (simp_all add: run_bind_def run_return_def run_throw_def run_gets_def run_modify_def)

lemma run_bind_Some:
  "run_bind m f w = Some (r, w') \<longleftrightarrow>
     (\<exists>e. m w = Some (Inl e, w') \<and> r = Inl e) \<or> (\<exists>a w1. m w = Some (Inr a, w1) \<and> f a w1 = Some (r, w'))"
  by (cases "m w") (auto simp: run_bind_def split: sum.splits)

lemma run_bind_assoc: "run_bind (run_bind m f) g = run_bind m (\<lambda>a. run_bind (f a) g)"
proof
  fix w show "run_bind (run_bind m f) g w = run_bind m (\<lambda>a. run_bind (f a) g) w"
    by (cases "m w") (auto simp: run_bind_def split: sum.splits)
qed

text \<open>A computation without effect that returns a value.\<close>

definition pure_run :: "('w, 'a) run \<Rightarrow> 'a \<Rightarrow> bool" where
  "pure_run m a \<longleftrightarrow> (\<forall>w. m w = Some (Inr a, w))"

lemma pure_run_bind: "pure_run m a \<Longrightarrow> run_bind m f w = f a w"
  by (simp add: pure_run_def run_bind_def)

end
