(* ===== verification/ConversionFacts.thy ===== *)
theory ConversionFacts
  imports Conversions
begin

text \<open>
  The integer conversions of \<open>Conversions\<close> against the integer part \<open>f64_trunc\<close> of the number, and
  the bounds of \<open>to_length\<close> and \<open>to_index\<close>.
\<close>

section \<open>The fields of the bits\<close>

lemma unat64_less: "unat (x :: 64 word) < 2 ^ 64"
  using unsigned_less [of x, where ?'a = nat] by simp

lemma significand_bits: "unat (x AND SIGNIFICAND_MASK) = f64_fraction x"
proof -
  have m: "SIGNIFICAND_MASK = mask 52" by (simp add: SIGNIFICAND_MASK_def mask_eq_exp_minus_1)
  have "unat (take_bit 52 x) = take_bit 52 (unat x)" by (rule unsigned_take_bit_eq)
  then show ?thesis by (simp only: m take_bit_eq_mask [symmetric] take_bit_eq_mod f64_fraction_def)
qed

lemma exponent_bits: "unat (drop_bit 52 (x AND EXPONENT_MASK)) = f64_exponent x"
proof -
  have m: "drop_bit 52 EXPONENT_MASK = (mask 11 :: 64 word)"
    by (simp add: EXPONENT_MASK_def mask_eq_exp_minus_1)
  have "drop_bit 52 (x AND EXPONENT_MASK) = take_bit 11 (drop_bit 52 x)"
    by (simp add: m take_bit_eq_mask)
  then have "unat (drop_bit 52 (x AND EXPONENT_MASK)) = take_bit 11 (drop_bit 52 (unat x))"
    using unat64_less [of x] by (simp add: unsigned_take_bit_eq unsigned_drop_bit_eq take_bit_nat_eq_self)
  then show ?thesis by (simp add: take_bit_eq_mod drop_bit_eq_div f64_exponent_def)
qed

lemma is_denormal_exponent: "is_denormal x \<longleftrightarrow> f64_exponent x = 0"
proof -
  have m: "EXPONENT_MASK = push_bit 52 (mask 11 :: 64 word)"
    by (simp add: EXPONENT_MASK_def mask_eq_exp_minus_1 push_bit_eq_mult)
  have "x AND EXPONENT_MASK = push_bit 52 (drop_bit 52 (x AND EXPONENT_MASK))"
    unfolding m by (rule bit_word_eqI) (auto simp: bit_simps)
  then have "x AND EXPONENT_MASK = 0 \<longleftrightarrow> drop_bit 52 (x AND EXPONENT_MASK) = 0"
    by (metis drop_bit_of_0 push_bit_of_0)
  then show ?thesis
    unfolding is_denormal_def exponent_bits [symmetric] by (simp add: unsigned_eq_0_iff)
qed

lemma bit_SIGN_MASK: "bit SIGN_MASK n \<longleftrightarrow> n = 63"
proof -
  have "SIGN_MASK = 2 ^ 63" by (simp add: SIGN_MASK_def)
  then have "bit SIGN_MASK n \<longleftrightarrow> bit (2 ^ 63 :: 64 word) n" by (rule arg_cong)
  then show ?thesis by (simp only: bit_exp_iff) auto
qed

lemma sign_bits: "x AND SIGN_MASK = 0 \<longleftrightarrow> \<not> f64_negative x"
proof -
  note m = bit_SIGN_MASK
  have "x AND SIGN_MASK = 0 \<longleftrightarrow> \<not> bit x 63"
    using m by (auto simp: bit_eq_iff [of "x AND SIGN_MASK"] bit_and_iff dest: spec [where x = 63])
  also have "\<dots> \<longleftrightarrow> \<not> odd (unat x div 2 ^ 63)"
    using bit_unsigned_iff [of x 63, where ?'a = nat] by (simp add: bit_iff_odd [of "unat x"])
  also have "\<dots> \<longleftrightarrow> unat x < 2 ^ 63"
  proof -
    have "unat x < 2 ^ 64" using unsigned_less [of x, where ?'a = nat] by simp
    then have "unat x div 2 ^ 63 < 2" by (simp add: div_less_iff_less_mult)
    then show ?thesis by (cases "unat x div 2 ^ 63") (auto simp: div_eq_0_iff less_Suc_eq)
  qed
  finally show ?thesis by (simp add: f64_negative_def not_le)
qed

lemma f64_field_bounds: "f64_exponent x < 2048" "f64_fraction x < 2 ^ 52"
  by (simp_all add: f64_exponent_def f64_fraction_def)

lemma significand_value:
  "f64_exponent x \<noteq> 0 \<Longrightarrow> unat (significand x) = 2 ^ 52 + f64_fraction x"
proof -
  assume "f64_exponent x \<noteq> 0"
  then have "significand x = (x AND SIGNIFICAND_MASK) + HIDDEN_BIT"
    by (simp add: significand_def Let_def is_denormal_exponent)
  moreover have "unat (x AND SIGNIFICAND_MASK) + unat HIDDEN_BIT < 2 ^ LENGTH(64)"
    using f64_field_bounds(2) [of x] by (simp add: significand_bits HIDDEN_BIT_def)
  ultimately show ?thesis
    by (simp only: unat_add_lem) (simp add: significand_bits HIDDEN_BIT_def)
qed

lemma int32_exponent_value:
  "f64_exponent x \<noteq> 0 \<Longrightarrow> int32_exponent x = int (f64_exponent x) - 1075"
  unfolding int32_exponent_def is_denormal_exponent PHYSICAL_SIGNIFICAND_SIZE_def EXPONENT_BIAS_def
    uint_nat exponent_bits by simp

section \<open>\<open>f64_to_int32\<close> truncates\<close>

lemma f64_trunc_of_i32: "f64_trunc (f64_of_i32 i) = sint i"
  using f64_magnitude_of_i32 [of i] by (cases "i = 0") (simp_all add: f64_trunc_def f64_of_i32_fields)

lemma f64_trunc_zero: "f64_is_zero x \<Longrightarrow> f64_trunc x = 0"
  by (simp add: f64_trunc_def f64_magnitude_def f64_is_zero_def)

lemma int32_fast_path:
  assumes "f64_eq (f64_of_i32 (f64_as_i32 x)) x"
  shows "f64_as_i32 x = word_of_int (f64_trunc x)"
proof (cases "f64_is_zero x")
  case True
  with assms have "f64_as_i32 x = 0" by (metis f64_eq_def f64_of_i32_zero_iff)
  with True show ?thesis by (simp add: f64_trunc_zero)
next
  case False
  with assms have "x = f64_of_i32 (f64_as_i32 x)" by (auto simp: f64_eq_def)
  then have "f64_trunc x = sint (f64_as_i32 x)" by (metis f64_trunc_of_i32)
  then show ?thesis by simp
qed

text \<open>The magnitude by the three ranges of the exponent.\<close>

lemma div_cancel_factor:
  fixes n p q r :: nat
  shows "p * q = r \<Longrightarrow> 0 < q \<Longrightarrow> n * q div r = n div p"
  by auto

lemma f64_magnitude_small:
  "1023 \<le> f64_exponent x \<Longrightarrow> f64_exponent x < 1075 \<Longrightarrow>
     f64_magnitude x = (2 ^ 52 + f64_fraction x) div 2 ^ (1075 - f64_exponent x)"
proof -
  assume e: "1023 \<le> f64_exponent x" "f64_exponent x < 1075"
  then have "2 ^ (1075 - f64_exponent x) * 2 ^ (f64_exponent x - 1023) = (2::nat) ^ 52"
    by (simp only: power_add [symmetric]) simp
  moreover have "f64_magnitude x = (2 ^ 52 + f64_fraction x) * 2 ^ (f64_exponent x - 1023) div 2 ^ 52"
    using e by (simp add: f64_magnitude_def)
  ultimately show ?thesis by (simp only: div_cancel_factor) (simp add: div_cancel_factor)
qed

lemma f64_magnitude_large:
  "1075 \<le> f64_exponent x \<Longrightarrow>
     f64_magnitude x = (2 ^ 52 + f64_fraction x) * 2 ^ (f64_exponent x - 1075)"
proof -
  assume e: "1075 \<le> f64_exponent x"
  then have "(2::nat) ^ (f64_exponent x - 1023) = 2 ^ (f64_exponent x - 1075) * 2 ^ 52"
    by (simp only: power_add [symmetric]) simp
  with e show ?thesis by (simp only: f64_magnitude_def) simp
qed

lemma int32_sign_value: "sint (int32_sign x) = (if f64_negative x then - 1 else 1)"
  by (simp add: int32_sign_def sign_bits)

lemma ucast_word_of_int64: "(ucast (word_of_int n :: 64 word) :: 32 word) = word_of_int n"
  by (rule bit_word_eqI) (simp add: bit_ucast_iff bit_word_of_int_iff)

lemma ucast_signed_product:
  "(ucast (int32_sign x * w) :: 32 word) =
     word_of_int ((if f64_negative x then - 1 else 1) * int (unat w))"
proof -
  have "int32_sign x * w = word_of_int ((if f64_negative x then - 1 else 1) * int (unat w))"
    by (simp add: int32_sign_def sign_bits)
  then show ?thesis by (simp only: ucast_word_of_int64)
qed

lemma int32_shift_right:
  assumes "1023 \<le> f64_exponent x" "f64_exponent x < 1075"
  shows "unat (drop_bit (1075 - f64_exponent x) (significand x)) = f64_magnitude x"
proof -
  have "unat (drop_bit n (w :: 64 word)) = unat w div 2 ^ n" for n w
    using unat64_less [of w] by (simp only: unsigned_drop_bit_eq) (simp add: take_bit_nat_eq_self drop_bit_eq_div)
  then show ?thesis using assms f64_magnitude_small [OF assms] by (simp only: significand_value)
qed

lemma int32_shift_left:
  assumes "1075 \<le> f64_exponent x"
  shows "unat (push_bit (f64_exponent x - 1075) (significand x) AND 0xFFFFFFFF) = f64_magnitude x mod 2 ^ 32"
proof -
  let ?w = "push_bit (f64_exponent x - 1075) (significand x)"
  have m: "(0xFFFFFFFF :: 64 word) = mask 32" by (simp add: mask_eq_exp_minus_1)
  have "unat ?w = take_bit 64 (f64_magnitude x)"
    using assms by (simp only: unsigned_push_bit_eq)
      (simp add: significand_value push_bit_eq_mult f64_magnitude_large)
  moreover have "unat (take_bit 32 ?w) = take_bit 32 (unat ?w)" by (rule unsigned_take_bit_eq)
  moreover have "take_bit 32 (take_bit 64 n) = n mod 2 ^ 32" for n :: nat
    by (simp only: take_bit_take_bit) (simp add: take_bit_eq_mod)
  ultimately show ?thesis by (simp only: m take_bit_eq_mask [symmetric])
qed

lemma word32_cong: "m mod 2 ^ 32 = n mod 2 ^ 32 \<Longrightarrow> (word_of_int m :: 32 word) = word_of_int n"
  by (simp add: word_of_int_eq_iff take_bit_eq_mod)

lemma f64_to_int32_truncates':
  "f64_to_int32 x = (if f64_is_nan x \<or> f64_is_infinite x then 0 else word_of_int (f64_trunc x))"
proof -
  let ?fast = "\<not> f64_is_nan x \<and> \<not> f64_is_infinite x \<and> f64_le x (f64_of_i32 2147483647) \<and>
    f64_le (f64_of_i32 2147483648) x \<and> f64_eq (f64_of_i32 (f64_as_i32 x)) x"
  let ?s = "if f64_negative x then - 1 else 1 :: int"
  have special: "f64_is_nan x \<or> f64_is_infinite x \<longleftrightarrow> f64_exponent x = 2047"
    by (auto simp: f64_is_nan_def f64_is_infinite_def)
  have trunc: "f64_trunc x = ?s * int (f64_magnitude x)" by (simp add: f64_trunc_def)
  show ?thesis
  proof (cases ?fast)
    case True
    then show ?thesis using int32_fast_path by (simp add: f64_to_int32_def)
  next
    case slow: False
    consider "f64_exponent x < 1023" | "1023 \<le> f64_exponent x" "f64_exponent x < 1075"
      | "1075 \<le> f64_exponent x" "f64_exponent x \<le> 1106" | "1106 < f64_exponent x" by linarith
    then show ?thesis
    proof cases
      case 1
      then have "f64_trunc x = 0" "f64_exponent x \<noteq> 2047" by (simp_all add: trunc f64_magnitude_def)
      moreover have "int32_exponent x \<le> - SIGNIFICAND_SIZE"
        using 1 int32_exponent_value [of x]
        by (cases "f64_exponent x = 0") (auto simp: int32_exponent_def is_denormal_exponent SIGNIFICAND_SIZE_def
            DENORMAL_EXPONENT_def EXPONENT_BIAS_def)
      ultimately show ?thesis
        using special by (simp only: f64_to_int32_def slow if_False Let_def SIGNIFICAND_SIZE_def) simp
    next
      case 2
      then have e: "int32_exponent x = int (f64_exponent x) - 1075" by (simp add: int32_exponent_value)
      have "f64_to_int32 x = ucast (int32_sign x * drop_bit (1075 - f64_exponent x) (significand x))"
        using 2 by (simp only: f64_to_int32_def slow if_False Let_def e SIGNIFICAND_SIZE_def)
          (simp add: nat_diff_distrib')
      also have "\<dots> = word_of_int (f64_trunc x)"
        by (simp only: ucast_signed_product int32_shift_right [OF 2] trunc)
      finally show ?thesis using 2 special by simp
    next
      case 3
      then have e: "int32_exponent x = int (f64_exponent x) - 1075" by (simp add: int32_exponent_value)
      have "f64_to_int32 x =
          ucast (int32_sign x * (push_bit (f64_exponent x - 1075) (significand x) AND 0xFFFFFFFF))"
        using 3 by (simp only: f64_to_int32_def slow if_False Let_def e SIGNIFICAND_SIZE_def)
          (simp add: nat_diff_distrib')
      also have "\<dots> = word_of_int (?s * int (f64_magnitude x mod 2 ^ 32))"
        by (simp only: ucast_signed_product int32_shift_left [OF 3(1)])
      also have "\<dots> = word_of_int (f64_trunc x)"
        unfolding trunc by (rule word32_cong) (simp only: of_nat_mod mod_mult_right_eq of_nat_power of_nat_numeral)
      finally show ?thesis using 3 special by simp
    next
      case 4
      then have e: "int32_exponent x = int (f64_exponent x) - 1075" by (simp add: int32_exponent_value)
      have z: "f64_to_int32 x = 0"
        using 4 by (simp only: f64_to_int32_def slow if_False Let_def e SIGNIFICAND_SIZE_def) simp
      have "2 ^ 32 dvd f64_magnitude x"
        using 4 by (simp only: f64_magnitude_large) (intro dvd_mult le_imp_power_dvd, simp)
      then obtain q where q: "f64_magnitude x = 2 ^ 32 * q" by (rule dvdE)
      have "(word_of_int (f64_trunc x) :: 32 word) = word_of_int 0"
        unfolding trunc q by (rule word32_cong) auto
      with z show ?thesis by simp
    qed
  qed
qed

section \<open>The narrow conversions\<close>

lemma sint_f64_as_i64:
  "\<not> f64_is_nan x \<Longrightarrow> sint (f64_as_i64 x) = max (- (2 ^ 63)) (min (2 ^ 63 - 1) (f64_trunc x))"
proof -
  assume n: "\<not> f64_is_nan x"
  have sat: "sint (word_of_int m :: 64 word) = m" if "- (2 ^ 63) \<le> m" "m \<le> 2 ^ 63 - 1" for m :: int
    using that by (simp add: int_word_sint)
  show ?thesis using n by (simp only: f64_as_i64_def if_False) (rule sat; simp)
qed

lemma smod_cong: "0 < m \<Longrightarrow> (a smod m) mod m = a mod (m :: int)"
proof -
  assume m: "0 < m"
  have "(sgn a * (\<bar>a\<bar> mod m)) mod m = (sgn a * \<bar>a\<bar>) mod m" by (rule mod_mult_right_eq)
  then show ?thesis using m by (simp add: signed_modulo_int_def mult.commute [of "sgn a"] abs_mult_sgn)
qed

lemma word_cong: "m mod 2 ^ LENGTH('a) = n mod 2 ^ LENGTH('a) \<Longrightarrow> (word_of_int m :: 'a::len word) = word_of_int n"
  by (simp add: word_of_int_eq_iff take_bit_eq_mod)

lemma narrow_special: "f64_is_zero x \<Longrightarrow> f64_trunc x = 0"
  by (rule f64_trunc_zero)

lemma narrow_rem:
  assumes "\<not> f64_is_nan x" "\<bar>f64_trunc x\<bar> < 2 ^ 63"
  shows "i64_rem (f64_as_i64 x) m = f64_trunc x smod m"
proof -
  have "max (- (2 ^ 63)) (min (2 ^ 63 - 1) (f64_trunc x)) = f64_trunc x" using assms(2) by simp
  then show ?thesis by (simp only: i64_rem_def sint_f64_as_i64 [OF assms(1)])
qed

lemma narrow_word:
  "(word_of_int (t smod 2 ^ LENGTH('a)) :: 'a::len word) = word_of_int t"
  by (rule word_cong) (rule smod_cong, simp)

lemma narrow_wrap: "(word_of_int (a - 2 ^ LENGTH('a)) :: 'a::len word) = word_of_int a"
  by (rule word_cong) simp

text \<open>
  The conversions to 8 and 16 bits are the integer part of the number modulo the width, for
  numbers whose integer part fits an \<open>i64\<close>.
\<close>
theorem narrow_conversions:
  assumes "\<not> f64_is_nan x" "\<not> f64_is_infinite x" "\<bar>f64_trunc x\<bar> < 2 ^ 63"
  shows "f64_to_int8 x = word_of_int (f64_trunc x) \<and> f64_to_uint8 x = word_of_int (f64_trunc x) \<and>
    f64_to_int16 x = word_of_int (f64_trunc x) \<and> f64_to_uint16 x = word_of_int (f64_trunc x)"
proof -
  note r = narrow_rem [OF assms(1,3)]
  let ?t = "f64_trunc x"
  have len: "LENGTH(8) = 8" "LENGTH(16) = 16" by simp_all
  have "(word_of_int (?t smod 2 ^ 8) :: 8 word) = word_of_int ?t"
    "(word_of_int (?t smod 2 ^ 16) :: 16 word) = word_of_int ?t"
    "(word_of_int (?t smod 2 ^ 8 - 2 ^ 8) :: 8 word) = word_of_int ?t"
    "(word_of_int (?t smod 2 ^ 16 - 2 ^ 16) :: 16 word) = word_of_int ?t"
    using narrow_word [of ?t, where ?'a = 8] narrow_word [of ?t, where ?'a = 16]
      narrow_wrap [of "?t smod 2 ^ 8", where ?'a = 8] narrow_wrap [of "?t smod 2 ^ 16", where ?'a = 16]
    by (simp_all only: len)
  note w = this
  then show ?thesis
    using assms(1,2)
    by (auto simp only: f64_to_int8_def f64_to_uint8_def f64_to_int16_def f64_to_uint16_def r Let_def w f64_trunc_zero
        word_of_int_0 split: if_splits)
qed

theorem narrow_conversions_witness: "f64_to_int8 (f64_of_i32 (- 129)) = 127"
proof -
  have "f64_trunc (f64_of_i32 (- 129)) = - 129" by (simp add: f64_trunc_of_i32)
  moreover have "\<not> f64_is_infinite (f64_of_i32 (- 129))"
    by (simp add: f64_is_infinite_def f64_of_i32_fields ilog2.simps)
  ultimately show ?thesis using narrow_conversions [of "f64_of_i32 (- 129)"] by simp
qed

text \<open>
  Beyond the \<open>i64\<close> range the narrow conversions are not the integer modulo the width: the cast to
  \<open>i64\<close> saturates, so \<open>2 ** 63\<close> becomes -1 as an \<open>Int8\<close>, where the 32-bit conversion gives 0.
\<close>
theorem narrow_conversion_saturates:
  "f64_to_int8 0x43E0000000000000 = - 1 \<and> f64_to_uint16 0x43E0000000000000 = 65535 \<and>
   f64_trunc 0x43E0000000000000 = 2 ^ 63 \<and> (word_of_int (2 ^ 63) :: 8 word) = 0 \<and>
   f64_to_int32 0x43E0000000000000 = 0"
proof -
  have t: "f64_trunc 0x43E0000000000000 = 2 ^ 63" "\<not> f64_is_nan 0x43E0000000000000"
    "\<not> f64_is_infinite 0x43E0000000000000" "\<not> f64_is_zero 0x43E0000000000000"
    by (simp_all add: f64_trunc_def f64_magnitude_def f64_negative_def f64_exponent_def f64_fraction_def
        f64_is_nan_def f64_is_infinite_def f64_is_zero_def)
  then have "f64_as_i64 0x43E0000000000000 = 0x7FFFFFFFFFFFFFFF" by (simp add: f64_as_i64_def)
  with t show ?thesis
    by (simp add: f64_to_int8_def f64_to_uint16_def i64_rem_def signed_modulo_int_def f64_to_int32_truncates')
qed

text \<open>C37
  \<open>f64_to_int32\<close>, which shifts and masks the bits of the number, is \<open>ToInt32\<close>: the integer part
  modulo \<open>2 ^ 32\<close> for every finite number, and zero for the others.
\<close>
theorem f64_to_int32_truncates:
  "f64_to_int32 x = (if f64_is_nan x \<or> f64_is_infinite x then 0 else word_of_int (f64_trunc x))"
  by (rule f64_to_int32_truncates')

section \<open>\<open>to_length\<close> and \<open>to_index\<close>\<close>

text \<open>The integer that \<open>ToIntegerOrInfinity\<close> stands for, infinities being beyond every \<open>i64\<close>.\<close>

definition integer_value :: "f64 \<Rightarrow> int" where
  "integer_value x = (if f64_is_nan x then 0 else f64_trunc x)"

lemma infinity_trunc: "f64_trunc f64_INFINITY = 2 ^ 1024" "f64_trunc f64_NEG_INFINITY = - (2 ^ 1024)"
  by (simp_all add: f64_trunc_def f64_magnitude_def f64_negative_def f64_exponent_def f64_fraction_def
      f64_INFINITY_def f64_NEG_INFINITY_def)

lemma infinity_bits:
  "f64_eq x f64_INFINITY \<Longrightarrow> x = f64_INFINITY" "f64_eq x f64_NEG_INFINITY \<Longrightarrow> x = f64_NEG_INFINITY"
  "\<not> f64_is_nan f64_INFINITY" "\<not> f64_is_nan f64_NEG_INFINITY"
  by (auto simp: f64_eq_def f64_is_zero_def f64_INFINITY_def f64_NEG_INFINITY_def f64_exponent_def
      f64_is_nan_def f64_fraction_def)

lemma sint_MAX_SAFE: "sint MAX_SAFE_INTEGER = 2 ^ 53 - 1" "sint (0 :: i64) = 0"
  by (simp_all add: MAX_SAFE_INTEGER_def)

lemma sint_saturated: "sint (word_of_int (max (- (2 ^ 63)) (min (2 ^ 63 - 1) m)) :: 64 word) = max (- (2 ^ 63)) (min (2 ^ 63 - 1) m)"
proof -
  have "sint (word_of_int m :: 64 word) = m" if "- (2 ^ 63) \<le> m" "m \<le> 2 ^ 63 - 1" for m :: int
    using that by (simp add: int_word_sint)
  then show ?thesis by simp
qed

lemma integer_or_infinity_cases:
  obtains (fin) i where "integer_or_infinity_of_f64 x = Integer i"
      "sint i = max (- (2 ^ 63)) (min (2 ^ 63 - 1) (integer_value x))"
    | (pos) "integer_or_infinity_of_f64 x = PositiveInfinity" "2 ^ 63 \<le> integer_value x"
    | (neg) "integer_or_infinity_of_f64 x = NegativeInfinity" "integer_value x < - (2 ^ 63)"
proof -
  consider "f64_is_nan x \<or> f64_eq x 0" | "x = f64_INFINITY" | "x = f64_NEG_INFINITY"
    | "\<not> f64_is_nan x" "\<not> f64_eq x 0" "\<not> f64_eq x f64_INFINITY" "\<not> f64_eq x f64_NEG_INFINITY"
    using infinity_bits by blast
  then show thesis
  proof cases
    case 1
    then have "integer_value x = 0"
      by (auto simp: integer_value_def f64_eq_def f64_trunc_zero f64_is_zero_def f64_trunc_def f64_magnitude_def)
    with 1 show ?thesis by (intro fin [of 0]) (simp_all add: integer_or_infinity_of_f64_def)
  next
    case 2
    have "\<not> f64_eq f64_INFINITY 0" "f64_eq f64_INFINITY f64_INFINITY"
      by (simp_all add: f64_eq_def f64_INFINITY_def f64_is_nan_def f64_is_zero_def f64_exponent_def f64_fraction_def)
    with 2 show ?thesis using infinity_bits(3) infinity_trunc(1)
      by (intro pos) (simp_all add: integer_or_infinity_of_f64_def integer_value_def)
  next
    case 3
    have "\<not> f64_eq f64_NEG_INFINITY 0" "\<not> f64_eq f64_NEG_INFINITY f64_INFINITY" "f64_eq f64_NEG_INFINITY f64_NEG_INFINITY"
      by (simp_all add: f64_eq_def f64_INFINITY_def f64_NEG_INFINITY_def f64_is_nan_def f64_is_zero_def
          f64_exponent_def f64_fraction_def)
    with 3 show ?thesis using infinity_bits(4) infinity_trunc(2)
      by (intro neg) (simp_all add: integer_or_infinity_of_f64_def integer_value_def)
  next
    case 4
    then show ?thesis
      by (intro fin [of "f64_as_i64 x"]) (simp_all add: integer_or_infinity_of_f64_def integer_value_def sint_f64_as_i64)
  qed
qed

lemma clamped_length:
  "clamp_finite (integer_or_infinity_of_f64 x) 0 MAX_SAFE_INTEGER =
     Some (word_of_int (max 0 (min (2 ^ 53 - 1) (integer_value x))))" (is "?clamp = Some (word_of_int ?c)")
  "integer_eq_i64 (integer_or_infinity_of_f64 x) (word_of_int (max 0 (min (2 ^ 53 - 1) (integer_value x)))) \<longleftrightarrow>
     0 \<le> integer_value x \<and> integer_value x \<le> 2 ^ 53 - 1"
proof -
  have M: "MAX_SAFE_INTEGER = word_of_int (2 ^ 53 - 1)" by (simp add: MAX_SAFE_INTEGER_def)
  have c: "sint (word_of_int ?c :: 64 word) = ?c" by (simp add: int_word_sint max_def min_def)
  have "?clamp = Some (word_of_int ?c) \<and>
    (integer_eq_i64 (integer_or_infinity_of_f64 x) (word_of_int ?c) \<longleftrightarrow> 0 \<le> integer_value x \<and> integer_value x \<le> 2 ^ 53 - 1)"
  proof (cases x rule: integer_or_infinity_cases)
    case (fin i)
    have eq: "i = word_of_int ?c \<longleftrightarrow> sint i = ?c" using c by (metis signed_word_eqI)
    consider "integer_value x < 0" | "2 ^ 53 - 1 < integer_value x" | "0 \<le> integer_value x" "integer_value x \<le> 2 ^ 53 - 1"
      by linarith
    then show ?thesis
    proof cases
      case 1
      then have "?c = 0" "sint i < 0" using fin(2) by simp_all
      with 1 fin(1) eq show ?thesis by (simp add: clamp_finite_def sint_MAX_SAFE)
    next
      case 2
      then have "?c = 2 ^ 53 - 1" "2 ^ 53 - 1 < sint i" using fin(2) by simp_all
      with 2 fin(1) eq show ?thesis by (simp add: clamp_finite_def sint_MAX_SAFE M)
    next
      case 3
      then have "?c = integer_value x" "sint i = integer_value x" using fin(2) by simp_all
      with 3 fin(1) eq show ?thesis by (simp add: clamp_finite_def sint_MAX_SAFE)
    qed
  qed (simp_all add: clamp_finite_def sint_MAX_SAFE M)
  then show "?clamp = Some (word_of_int ?c)"
    "integer_eq_i64 (integer_or_infinity_of_f64 x) (word_of_int ?c) \<longleftrightarrow> 0 \<le> integer_value x \<and> integer_value x \<le> 2 ^ 53 - 1"
    by blast+
qed

lemma unat_length: "unat (word_of_int (max 0 (min (2 ^ 53 - 1) m)) :: 64 word) = nat (max 0 (min (2 ^ 53 - 1) m))"
  by (simp add: unat_eq_nat_uint uint_word_of_int max_def min_def)

text \<open>C38
  When the number of a value is known, \<open>to_length\<close> clamps its integer between zero and
  \<open>2 ** 53 - 1\<close>, and \<open>to_index\<close> accepts exactly the integers in that interval; neither panics, and
  no result exceeds the bound.
\<close>
theorem to_length_and_index:
  assumes "to_number C v w = Some (Inr x, w')"
  shows "to_length C v w = Some (Inr (word_of_int (max 0 (min (2 ^ 53 - 1) (integer_value x)))), w') \<and>
    (v \<noteq> VUndefined \<longrightarrow> to_index C v w =
       (if 0 \<le> integer_value x \<and> integer_value x \<le> 2 ^ 53 - 1
        then Some (Inr (word_of_int (integer_value x)), w') else Some (Inl RangeError, w'))) \<and>
    (to_length C v w = Some (Inr n, w'') \<longrightarrow> unat n < 2 ^ 53)"
proof -
  have i: "to_integer_or_infinity C v w = Some (Inr (integer_or_infinity_of_f64 x), w')"
    using assms by (simp add: to_integer_or_infinity_def run_simps)
  have l: "to_length C v w = Some (Inr (word_of_int (max 0 (min (2 ^ 53 - 1) (integer_value x)))), w')"
    using i clamped_length(1) by (simp add: to_length_def run_simps run_unwrap_def)
  moreover have "n = word_of_int (max 0 (min (2 ^ 53 - 1) (integer_value x))) \<Longrightarrow> unat n < 2 ^ 53"
    by (simp only: unat_length) simp
  moreover have "to_index C v w =
       (if 0 \<le> integer_value x \<and> integer_value x \<le> 2 ^ 53 - 1
        then Some (Inr (word_of_int (integer_value x)), w') else Some (Inl RangeError, w'))" if "v \<noteq> VUndefined"
  proof -
    have "run_unwrap (clamp_finite (integer_or_infinity_of_f64 x) 0 MAX_SAFE_INTEGER) w' =
        Some (Inr (word_of_int (max 0 (min (2 ^ 53 - 1) (integer_value x)))), w')"
      using clamped_length(1) [of x] by (simp add: run_unwrap_def)
    then show ?thesis
      using i that clamped_length(2) [of x] by (auto simp: to_index_def run_simps)
  qed
  ultimately show ?thesis by auto
qed

definition no_objects :: "unit conversions" where
  "no_objects = \<lparr>cv_to_primitive = (\<lambda>_ _. run_throw TypeError), cv_string_to_number = (\<lambda>_. 0), cv_is_htmldda = (\<lambda>_. False)\<rparr>"

theorem to_length_and_index_witness: "to_index no_objects (VInteger32 (- 1)) () = Some (Inl RangeError, ())"
proof -
  have "to_number no_objects (VInteger32 (- 1)) () = Some (Inr (f64_of_i32 (- 1)), ())"
    by (simp add: to_number.simps run_simps)
  moreover have "integer_value (f64_of_i32 (- 1)) = - 1" by (simp add: integer_value_def f64_trunc_of_i32)
  ultimately show ?thesis using to_length_and_index [of no_objects "VInteger32 (- 1)" "()" "f64_of_i32 (- 1)" "()"]
    by simp
qed

end
