(* ===== verification/F64Arith.thy ===== *)
theory F64Arith
  imports ConversionFacts
begin

text \<open>
  Arithmetic of doubles: the exact result of the operands, rounded to the nearest double with ties
  to the even one, and the special cases of IEEE 754. The main result is that the operations on
  integers are exact, which is what lets the engine represent small numbers as \<open>i32\<close>.
\<close>

section \<open>Rounding\<close>

text \<open>
  The double nearest to the positive ratio \<open>n / d\<close>. \<open>f64_log\<close> is the binary logarithm of the ratio,
  \<open>e\<close> the exponent of the unit in the last place, never below that of the denormals, and \<open>q\<close> the
  ratio in those units; the fields of the result are read off \<open>q\<close>, whose carry moves into the
  exponent.
\<close>

definition pow2_ratio :: "int \<Rightarrow> nat \<Rightarrow> nat \<Rightarrow> nat \<times> nat" where
  "pow2_ratio e n d = (if 0 \<le> e then (n, d * 2 ^ nat e) else (n * 2 ^ nat (- e), d))"

definition f64_log :: "nat \<Rightarrow> nat \<Rightarrow> int" where
  "f64_log n d =
     (let a = int (ilog2 n) - int (ilog2 d); (n', d') = pow2_ratio a n d
      in if d' \<le> n' then a else a - 1)"

definition f64_of_bits :: "bool \<Rightarrow> nat \<Rightarrow> f64" where
  "f64_of_bits neg b = word_of_nat ((if neg then 2 ^ 63 else 0) + min b (2047 * 2 ^ 52))"

definition f64_round :: "bool \<Rightarrow> nat \<Rightarrow> nat \<Rightarrow> f64" where
  "f64_round neg n d =
     (if n = 0 then f64_of_bits neg 0
      else
        let e = max (f64_log n d - 52) (- 1074); (n', d') = pow2_ratio e n d;
          q = n' div d'; r = n' mod d';
          q = (if d' < 2 * r \<or> d' = 2 * r \<and> odd q then q + 1 else q)
        in f64_of_bits neg (nat (e + 1074) * 2 ^ 52 + q))"

text \<open>\<open>n * 2 ^ e\<close>.\<close>

definition f64_scale :: "bool \<Rightarrow> nat \<Rightarrow> int \<Rightarrow> f64" where
  "f64_scale neg n e = (case pow2_ratio (- e) n 1 of (n', d') \<Rightarrow> f64_round neg n' d')"

text \<open>A finite double is \<open>f64_mantissa * 2 ^ f64_shift\<close> with its sign.\<close>

definition f64_mantissa :: "f64 \<Rightarrow> nat" where
  "f64_mantissa b = (if f64_exponent b = 0 then f64_fraction b else 2 ^ 52 + f64_fraction b)"

definition f64_shift :: "f64 \<Rightarrow> int" where
  "f64_shift b = (if f64_exponent b = 0 then - 1074 else int (f64_exponent b) - 1075)"

definition f64_signed :: "bool \<Rightarrow> nat \<Rightarrow> int" where
  "f64_signed neg m = (if neg then - int m else int m)"

definition f64_zero :: "bool \<Rightarrow> f64" where
  "f64_zero neg = (if neg then 0x8000000000000000 else 0)"

definition f64_infinity :: "bool \<Rightarrow> f64" where
  "f64_infinity neg = (if neg then f64_NEG_INFINITY else f64_INFINITY)"

section \<open>Operations\<close>

definition f64_neg :: "f64 \<Rightarrow> f64" where
  "f64_neg b = b XOR 0x8000000000000000"

definition f64_add :: "f64 \<Rightarrow> f64 \<Rightarrow> f64" where
  "f64_add a b =
     (if f64_is_nan a \<or> f64_is_nan b then f64_NAN
      else if f64_is_infinite a then
        (if f64_is_infinite b \<and> f64_negative a \<noteq> f64_negative b then f64_NAN else a)
      else if f64_is_infinite b then b
      else
        let e = min (f64_shift a) (f64_shift b);
          s = f64_signed (f64_negative a) (f64_mantissa a) * 2 ^ nat (f64_shift a - e) +
              f64_signed (f64_negative b) (f64_mantissa b) * 2 ^ nat (f64_shift b - e)
        in if s = 0 then f64_zero (f64_negative a \<and> f64_negative b)
           else f64_scale (s < 0) (nat \<bar>s\<bar>) e)"

definition f64_sub :: "f64 \<Rightarrow> f64 \<Rightarrow> f64" where
  "f64_sub a b = (if f64_is_nan b then f64_NAN else f64_add a (f64_neg b))"

definition f64_mul :: "f64 \<Rightarrow> f64 \<Rightarrow> f64" where
  "f64_mul a b =
     (let neg = (f64_negative a \<noteq> f64_negative b) in
      if f64_is_nan a \<or> f64_is_nan b then f64_NAN
      else if f64_is_infinite a then (if f64_is_zero b then f64_NAN else f64_infinity neg)
      else if f64_is_infinite b then (if f64_is_zero a then f64_NAN else f64_infinity neg)
      else f64_scale neg (f64_mantissa a * f64_mantissa b) (f64_shift a + f64_shift b))"

definition f64_div :: "f64 \<Rightarrow> f64 \<Rightarrow> f64" where
  "f64_div a b =
     (let neg = (f64_negative a \<noteq> f64_negative b) in
      if f64_is_nan a \<or> f64_is_nan b then f64_NAN
      else if f64_is_infinite a then (if f64_is_infinite b then f64_NAN else f64_infinity neg)
      else if f64_is_infinite b then f64_zero neg
      else if f64_is_zero b then (if f64_is_zero a then f64_NAN else f64_infinity neg)
      else case pow2_ratio (f64_shift b - f64_shift a) (f64_mantissa a) (f64_mantissa b) of
        (n, d) \<Rightarrow> f64_round neg n d)"

text \<open>\<open>x % y\<close> of doubles is exact and has the sign of \<open>x\<close>.\<close>

definition f64_rem :: "f64 \<Rightarrow> f64 \<Rightarrow> f64" where
  "f64_rem a b =
     (if f64_is_nan a \<or> f64_is_nan b \<or> f64_is_infinite a \<or> f64_is_zero b then f64_NAN
      else if f64_is_infinite b then a
      else
        let e = min (f64_shift a) (f64_shift b)
        in f64_scale (f64_negative a)
          ((f64_mantissa a * 2 ^ nat (f64_shift a - e)) mod (f64_mantissa b * 2 ^ nat (f64_shift b - e))) e)"

text \<open>\<open>abs\<close>, \<open>copysign\<close> and \<open>trunc\<close>; an integer part below \<open>2 ^ 53\<close> is exact.\<close>

definition f64_abs :: "f64 \<Rightarrow> f64" where
  "f64_abs b = b AND 0x7FFFFFFFFFFFFFFF"

definition f64_copysign :: "f64 \<Rightarrow> f64 \<Rightarrow> f64" where
  "f64_copysign a b = f64_abs a OR (b AND 0x8000000000000000)"

definition f64_of_int :: "int \<Rightarrow> f64" where
  "f64_of_int n = f64_scale (n < 0) (nat \<bar>n\<bar>) 0"

section \<open>Exactness\<close>

lemma ilog2_unique: "2 ^ k \<le> n \<Longrightarrow> n < 2 ^ Suc k \<Longrightarrow> ilog2 n = k"
proof -
  assume k: "2 ^ k \<le> n" "n < 2 ^ Suc k"
  then have n: "0 < n" by (cases n) simp_all
  have "ilog2 n < Suc k" using ilog2_less [OF k(2) n] .
  moreover have "k < Suc (ilog2 n)"
  proof -
    have "n < 2 ^ Suc (ilog2 n)" using ilog2_bounds [OF n] by simp
    then have "(2::nat) ^ k < 2 ^ Suc (ilog2 n)" using k(1) by linarith
    then show ?thesis by (rule power_less_imp_less_exp [rotated]) simp
  qed
  ultimately show ?thesis by simp
qed

lemma ilog2_mult_bounds:
  assumes "0 < m" "0 < d"
  shows "ilog2 m + ilog2 d \<le> ilog2 (m * d)" "ilog2 (m * d) \<le> Suc (ilog2 m + ilog2 d)"
proof -
  have md: "0 < m * d" using assms by simp
  note bm = ilog2_bounds [OF assms(1)] and bd = ilog2_bounds [OF assms(2)] and b = ilog2_bounds [OF md]
  have "2 ^ (ilog2 m + ilog2 d) \<le> m * d"
    using mult_le_mono [of "2 ^ ilog2 m" m "2 ^ ilog2 d" d] bm bd by (simp add: power_add)
  then have "(2::nat) ^ (ilog2 m + ilog2 d) < 2 ^ Suc (ilog2 (m * d))" using b by linarith
  then have "ilog2 m + ilog2 d < Suc (ilog2 (m * d))" by (rule power_less_imp_less_exp [rotated]) simp
  then show "ilog2 m + ilog2 d \<le> ilog2 (m * d)" by simp
  have "m * d < 2 ^ Suc (ilog2 m) * 2 ^ Suc (ilog2 d)"
    using mult_strict_mono [of m "2 ^ Suc (ilog2 m)" d "2 ^ Suc (ilog2 d)"] bm bd assms by simp
  then have "2 ^ ilog2 (m * d) < (2::nat) ^ (Suc (ilog2 m) + Suc (ilog2 d))"
    using b by (simp add: power_add) 
  then have "ilog2 (m * d) < Suc (ilog2 m) + Suc (ilog2 d)" by (rule power_less_imp_less_exp [rotated]) simp
  then show "ilog2 (m * d) \<le> Suc (ilog2 m + ilog2 d)" by simp
qed

lemma f64_log_exact:
  assumes "0 < m" "0 < d"
  shows "f64_log (m * d) d = int (ilog2 m)"
proof -
  note b = ilog2_mult_bounds [OF assms] and bm = ilog2_bounds [OF assms(1)]
  consider "ilog2 (m * d) = ilog2 m + ilog2 d" | "ilog2 (m * d) = Suc (ilog2 m + ilog2 d)" using b by linarith
  then show ?thesis
  proof cases
    case 1
    then have "int (ilog2 (m * d)) - int (ilog2 d) = int (ilog2 m)" by simp
    then show ?thesis using bm assms by (simp add: f64_log_def pow2_ratio_def)
  next
    case 2
    then have "int (ilog2 (m * d)) - int (ilog2 d) = int (Suc (ilog2 m))" by simp
    moreover have "nat (1 + int (ilog2 m)) = Suc (ilog2 m)" by simp
    ultimately show ?thesis using bm assms by (simp add: f64_log_def pow2_ratio_def)
  qed
qed

lemma f64_round_exact:
  assumes "0 < m" "m < 2 ^ 52" "0 < d"
  shows "f64_round neg (m * d) d = word_of_nat (f64_encode neg m)"
proof -
  have l: "ilog2 m < 52" using ilog2_less assms by blast
  let ?q = "m * 2 ^ (52 - ilog2 m)"
  note q = f64_scaled_bounds [OF assms(1,2)]
  have e: "max (f64_log (m * d) d - 52) (- 1074) = int (ilog2 m) - 52" "int (ilog2 m) - 52 < 0"
    using l by (simp_all add: f64_log_exact [OF assms(1,3)])
  have r: "pow2_ratio (int (ilog2 m) - 52) (m * d) d = (?q * d, d)"
    using l by (simp add: pow2_ratio_def nat_diff_distrib' mult.commute mult.left_commute)
  have bits: "nat (int (ilog2 m) - 52 + 1074) * 2 ^ 52 + ?q = (1023 + ilog2 m) * 2 ^ 52 + (?q - 2 ^ 52)"
  proof -
    have n: "nat (int (ilog2 m) - 52 + 1074) = 1022 + ilog2 m" by simp
    have carry: "2 ^ 52 \<le> k \<Longrightarrow> (1022 + l) * 2 ^ 52 + k = (1023 + l) * 2 ^ 52 + (k - 2 ^ 52)" for k l :: nat
      by (simp add: add_mult_distrib)
    show ?thesis unfolding n by (rule carry [OF q(1)])
  qed
  have "(1023 + ilog2 m) * 2 ^ 52 + (?q - 2 ^ 52) \<le> 2047 * 2 ^ 52"
  proof -
    have "(1023 + ilog2 m) * 2 ^ 52 \<le> 1075 * 2 ^ 52" using l by simp
    with q show ?thesis by simp
  qed
  then have m: "min ((1023 + ilog2 m) * 2 ^ 52 + (?q - 2 ^ 52)) (2047 * 2 ^ 52) = (1023 + ilog2 m) * 2 ^ 52 + (?q - 2 ^ 52)"
    by (rule min_absorb1)
  have nz: "m * d \<noteq> 0" "\<not> (d < 2 * (?q * d mod d) \<or> d = 2 * (?q * d mod d) \<and> odd ?q)" "?q * d div d = ?q"
    using assms by simp_all
  have "f64_round neg (m * d) d = f64_of_bits neg (nat (int (ilog2 m) - 52 + 1074) * 2 ^ 52 + ?q)"
    by (simp only: f64_round_def nz if_False e(1) r Let_def prod.case)
  then show ?thesis
    by (simp only: bits f64_of_bits_def m f64_encode_def add.assoc)
qed

lemma f64_scale_exact:
  assumes "0 < m" "m < 2 ^ 52"
  shows "f64_scale neg (m * 2 ^ k) (- int k) = word_of_nat (f64_encode neg m)"
  using f64_round_exact [OF assms, of "2 ^ k"] f64_round_exact [OF assms, of 1]
  by (cases "k = 0") (simp_all add: f64_scale_def pow2_ratio_def)

text \<open>The mantissa and the shift of an \<open>i32\<close>.\<close>

lemma f64_i32_parts:
  assumes "(n :: i32) \<noteq> 0"
  defines "k \<equiv> 52 - ilog2 (nat \<bar>sint n\<bar>)"
  shows "f64_mantissa (f64_of_i32 n) = nat \<bar>sint n\<bar> * 2 ^ k" "f64_shift (f64_of_i32 n) = - int k"
proof -
  note m = i32_magnitude [OF assms(1)] and f = f64_of_i32_fields [OF assms(1)]
  have l: "ilog2 (nat \<bar>sint n\<bar>) < 52" using ilog2_less m by blast
  have "2 ^ 52 \<le> nat \<bar>sint n\<bar> * 2 ^ k" using f64_scaled_bounds(1) [OF m] by (simp add: k_def)
  then show "f64_mantissa (f64_of_i32 n) = nat \<bar>sint n\<bar> * 2 ^ k"
    by (simp add: f64_mantissa_def f k_def [symmetric])
  show "f64_shift (f64_of_i32 n) = - int k" using l by (simp add: f64_shift_def f k_def)
qed

lemma f64_zero_parts: "f64_mantissa 0 = 0" "f64_shift 0 = - 1074"
  by (simp_all add: f64_mantissa_def f64_shift_def)

lemma f64_i32_finite: "\<not> f64_is_infinite (f64_of_i32 n)" "\<not> f64_is_nan (f64_of_i32 n)"
proof -
  show "\<not> f64_is_nan (f64_of_i32 n)" by simp
  show "\<not> f64_is_infinite (f64_of_i32 n)"
  proof (cases "n = 0")
    case False
    have "ilog2 (nat \<bar>sint n\<bar>) < 52" using ilog2_less i32_magnitude [OF False] by blast
    with f64_of_i32_fields(1) [OF False] show ?thesis by (simp add: f64_is_infinite_def)
  qed (simp add: f64_is_infinite_def)
qed

lemma f64_i32_negative: "f64_negative (f64_of_i32 n) \<longleftrightarrow> sint n < 0"
  by (cases "n = 0") (simp_all add: f64_of_i32_fields)

text \<open>Both cases: a common shift at which the mantissa is the integer itself.\<close>

lemma f64_i32_value:
  obtains k where "f64_signed (f64_negative (f64_of_i32 n)) (f64_mantissa (f64_of_i32 n)) = sint n * 2 ^ k"
    and "f64_mantissa (f64_of_i32 n) = nat \<bar>sint n\<bar> * 2 ^ k" and "f64_shift (f64_of_i32 n) = - int k"
proof (cases "n = 0")
  case True
  show ?thesis by (rule that [of 1074]) (simp_all add: True f64_zero_parts f64_signed_def)
next
  case False
  show ?thesis
    by (rule that [of "52 - ilog2 (nat \<bar>sint n\<bar>)"])
      (simp_all add: f64_i32_parts [OF False] f64_i32_negative f64_signed_def)
qed

lemma f64_of_i32_int:
  assumes "i \<noteq> 0" "- (2 ^ 31) \<le> i" "i < 2 ^ 31"
  shows "f64_of_i32 (word_of_int i) = word_of_nat (f64_encode (i < 0) (nat \<bar>i\<bar>))"
proof -
  have "sint (word_of_int i :: i32) = i" using assms by (simp add: int_word_sint)
  moreover have "(word_of_int i :: i32) \<noteq> 0" using calculation assms(1) by auto
  ultimately show ?thesis by (simp add: f64_of_i32_def)
qed

lemma i32_result_scale:
  assumes "i \<noteq> 0" "- (2 ^ 31) \<le> i" "i < 2 ^ 31"
  shows "f64_scale (i < 0) (nat \<bar>i\<bar> * 2 ^ k) (- int k) = f64_of_i32 (word_of_int i)"
proof -
  have "0 < nat \<bar>i\<bar>" "nat \<bar>i\<bar> < 2 ^ 52" using assms by auto
  then show ?thesis by (simp only: f64_scale_exact f64_of_i32_int [OF assms])
qed

text \<open>A finite double whose value is the integer \<open>i\<close>.\<close>

definition f64_is_int :: "f64 \<Rightarrow> int \<Rightarrow> bool" where
  "f64_is_int a i \<longleftrightarrow> \<not> f64_is_nan a \<and> \<not> f64_is_infinite a \<and>
     (\<exists>k. f64_signed (f64_negative a) (f64_mantissa a) = i * 2 ^ k \<and> f64_shift a = - int k)"

lemma f64_is_int_i32: "f64_is_int (f64_of_i32 n) (sint n)"
proof -
  obtain k where "f64_signed (f64_negative (f64_of_i32 n)) (f64_mantissa (f64_of_i32 n)) = sint n * 2 ^ k"
    "f64_shift (f64_of_i32 n) = - int k" by (rule f64_i32_value)
  then have "\<exists>k. f64_signed (f64_negative (f64_of_i32 n)) (f64_mantissa (f64_of_i32 n)) = sint n * 2 ^ k \<and>
      f64_shift (f64_of_i32 n) = - int k" by blast
  then show ?thesis by (simp only: f64_is_int_def f64_i32_finite simp_thms)
qed

lemma scale_common: "j \<le> k \<Longrightarrow> a * 2 ^ j * 2 ^ nat (- int j - - int k) = (a * 2 ^ k :: int)"
proof -
  assume j: "j \<le> k"
  have "nat (- int j - - int k) = k - j" by simp
  with j have "(2::int) ^ j * 2 ^ nat (- int j - - int k) = 2 ^ k"
    by (simp only: power_add [symmetric] le_add_diff_inverse)
  then show ?thesis by (simp only: mult.assoc)
qed

lemma f64_add_int:
  assumes "f64_is_int a i" "f64_is_int b j" "- (2 ^ 31) \<le> i + j" "i + j < 2 ^ 31"
    and "i + j = 0 \<Longrightarrow> \<not> (f64_negative a \<and> f64_negative b)"
  shows "f64_add a b = f64_of_i32 (word_of_int (i + j))"
proof -
  from assms(1) obtain ka where a: "\<not> f64_is_nan a" "\<not> f64_is_infinite a"
    "f64_signed (f64_negative a) (f64_mantissa a) = i * 2 ^ ka" "f64_shift a = - int ka" by (auto simp: f64_is_int_def)
  from assms(2) obtain kb where b: "\<not> f64_is_nan b" "\<not> f64_is_infinite b"
    "f64_signed (f64_negative b) (f64_mantissa b) = j * 2 ^ kb" "f64_shift b = - int kb" by (auto simp: f64_is_int_def)
  let ?k = "max ka kb" and ?i = "i + j"
  have e: "min (- int ka) (- int kb) = - int ?k" by simp
  have p: "i * 2 ^ ka * 2 ^ nat (- int ka - - int ?k) + j * 2 ^ kb * 2 ^ nat (- int kb - - int ?k) = ?i * 2 ^ ?k"
    by (simp only: scale_common max.cobounded1 max.cobounded2 distrib_right)
  have "f64_add a b =
      (if ?i * 2 ^ ?k = 0 then f64_zero (f64_negative a \<and> f64_negative b)
       else f64_scale (?i * 2 ^ ?k < 0) (nat \<bar>?i * 2 ^ ?k\<bar>) (- int ?k))"
    by (simp only: f64_add_def a b if_False Let_def e p simp_thms)
  also have "\<dots> = f64_of_i32 (word_of_int ?i)"
  proof (cases "?i = 0")
    case True
    with assms(5) show ?thesis by (auto simp: f64_zero_def)
  next
    case False
    have "?i * 2 ^ ?k < 0 \<longleftrightarrow> ?i < 0" "nat \<bar>?i * 2 ^ ?k\<bar> = nat \<bar>?i\<bar> * 2 ^ ?k"
      by (simp_all add: mult_less_0_iff abs_mult nat_mult_distrib nat_power_eq)
    then show ?thesis using False i32_result_scale [OF False assms(3,4), of ?k] by simp
  qed
  finally show ?thesis .
qed

lemma f64_add_i32:
  assumes "- (2 ^ 31) \<le> sint x + sint y" "sint x + sint y < 2 ^ 31"
  shows "f64_add (f64_of_i32 x) (f64_of_i32 y) = f64_of_i32 (x + y)"
  using f64_add_int [OF f64_is_int_i32 f64_is_int_i32 assms] by (simp add: f64_i32_negative)

lemma and_xor_right: "(b XOR s) AND m = (b AND m) XOR (s AND m)" for b s m :: "64 word"
  by (rule bit_word_eqI) (auto simp: bit_simps)

lemma f64_neg_fields:
  "f64_exponent (f64_neg b) = f64_exponent b" "f64_fraction (f64_neg b) = f64_fraction b"
  "f64_negative (f64_neg b) \<longleftrightarrow> \<not> f64_negative b"
proof -
  have "f64_neg b AND EXPONENT_MASK = b AND EXPONENT_MASK" "f64_neg b AND SIGNIFICAND_MASK = b AND SIGNIFICAND_MASK"
    by (simp_all add: f64_neg_def and_xor_right EXPONENT_MASK_def SIGNIFICAND_MASK_def)
  then show "f64_exponent (f64_neg b) = f64_exponent b" "f64_fraction (f64_neg b) = f64_fraction b"
    by (simp_all only: exponent_bits [symmetric] significand_bits [symmetric])
  have n: "b AND SIGN_MASK = (if bit b 63 then SIGN_MASK else 0)" for b
    by (rule bit_word_eqI) (auto simp: bit_simps bit_SIGN_MASK)
  have "bit (f64_neg b) 63 \<longleftrightarrow> \<not> bit b 63"
    using bit_SIGN_MASK [of 63] by (simp add: f64_neg_def bit_xor_iff SIGN_MASK_def)
  moreover have "SIGN_MASK \<noteq> 0" by (simp add: SIGN_MASK_def)
  ultimately show "f64_negative (f64_neg b) \<longleftrightarrow> \<not> f64_negative b"
    using sign_bits [of b] sign_bits [of "f64_neg b"] by (simp add: n split: if_splits)
qed

lemma f64_neg_special:
  "f64_is_nan (f64_neg b) = f64_is_nan b" "f64_is_infinite (f64_neg b) = f64_is_infinite b"
  "f64_mantissa (f64_neg b) = f64_mantissa b" "f64_shift (f64_neg b) = f64_shift b"
  by (simp_all only: f64_is_nan_def f64_is_infinite_def f64_mantissa_def f64_shift_def f64_neg_fields)

lemma f64_is_int_neg: "f64_is_int b j \<Longrightarrow> f64_is_int (f64_neg b) (- j)"
proof -
  have flip: "f64_signed (\<not> neg) m = - f64_signed neg m" for neg m by (simp add: f64_signed_def)
  assume "f64_is_int b j"
  then obtain k where k: "\<not> f64_is_nan b" "\<not> f64_is_infinite b"
    "f64_signed (f64_negative b) (f64_mantissa b) = j * 2 ^ k" "f64_shift b = - int k" by (auto simp: f64_is_int_def)
  then have "f64_signed (f64_negative (f64_neg b)) (f64_mantissa (f64_neg b)) = - j * 2 ^ k"
    by (simp add: f64_neg_fields f64_neg_special flip)
  with k show ?thesis by (auto simp: f64_is_int_def f64_neg_special)
qed

lemma f64_sub_i32:
  assumes "- (2 ^ 31) \<le> sint x - sint y" "sint x - sint y < 2 ^ 31"
  shows "f64_sub (f64_of_i32 x) (f64_of_i32 y) = f64_of_i32 (x - y)"
  using f64_add_int [OF f64_is_int_i32 f64_is_int_neg [OF f64_is_int_i32], of x y] assms
  by (auto simp: f64_sub_def f64_i32_finite f64_neg_fields f64_i32_negative)

text \<open>A product of integers; its zero is negative when one of them is.\<close>

lemma f64_mul_i32:
  assumes "- (2 ^ 31) \<le> sint x * sint y" "sint x * sint y < 2 ^ 31"
  shows "f64_mul (f64_of_i32 x) (f64_of_i32 y) =
    (if sint x * sint y = 0 then f64_zero (min (sint x) (sint y) < 0) else f64_of_i32 (x * y))"
proof -
  obtain kx where kx: "f64_mantissa (f64_of_i32 x) = nat \<bar>sint x\<bar> * 2 ^ kx" "f64_shift (f64_of_i32 x) = - int kx"
    by (rule f64_i32_value)
  obtain ky where ky: "f64_mantissa (f64_of_i32 y) = nat \<bar>sint y\<bar> * 2 ^ ky" "f64_shift (f64_of_i32 y) = - int ky"
    by (rule f64_i32_value)
  let ?i = "sint x * sint y" and ?neg = "(sint x < 0) \<noteq> (sint y < 0)"
  have m: "nat \<bar>sint x\<bar> * 2 ^ kx * (nat \<bar>sint y\<bar> * 2 ^ ky) = nat \<bar>?i\<bar> * 2 ^ (kx + ky)"
    by (simp add: abs_mult nat_mult_distrib power_add)
  have s: "- int kx + - int ky = - int (kx + ky)" by simp
  have "f64_mul (f64_of_i32 x) (f64_of_i32 y) = f64_scale ?neg (nat \<bar>?i\<bar> * 2 ^ (kx + ky)) (- int (kx + ky))"
    by (simp only: f64_mul_def Let_def f64_i32_finite if_False kx ky m s f64_i32_negative simp_thms)
  also have "\<dots> = (if ?i = 0 then f64_zero (min (sint x) (sint y) < 0) else f64_of_i32 (x * y))"
  proof (cases "?i = 0")
    case True
    have z: "f64_scale neg 0 e = f64_zero neg" for neg e
      by (auto simp: f64_scale_def pow2_ratio_def f64_round_def f64_of_bits_def f64_zero_def)
    show ?thesis using True by (auto simp: z min_def)
  next
    case False
    have n: "?neg \<longleftrightarrow> ?i < 0" using False by (auto simp: mult_less_0_iff)
    have w: "x * y = word_of_int ?i" by simp
    show ?thesis using False by (simp only: n i32_result_scale [OF False assms] w if_False)
  qed
  finally show ?thesis .
qed

text \<open>An exact quotient.\<close>

lemma f64_div_i32:
  assumes "sint y \<noteq> 0" "sint x = sint y * q" "q \<noteq> 0" "- (2 ^ 31) \<le> q" "q < 2 ^ 31"
  shows "f64_div (f64_of_i32 x) (f64_of_i32 y) = f64_of_i32 (word_of_int q)"
proof -
  obtain kx where kx: "f64_mantissa (f64_of_i32 x) = nat \<bar>sint x\<bar> * 2 ^ kx" "f64_shift (f64_of_i32 x) = - int kx"
    by (rule f64_i32_value)
  obtain ky where ky: "f64_mantissa (f64_of_i32 y) = nat \<bar>sint y\<bar> * 2 ^ ky" "f64_shift (f64_of_i32 y) = - int ky"
    by (rule f64_i32_value)
  have x: "nat \<bar>sint x\<bar> = nat \<bar>q\<bar> * nat \<bar>sint y\<bar>" by (simp add: assms(2) abs_mult nat_mult_distrib)
  have nz: "\<not> f64_is_zero (f64_of_i32 y)" using assms(1) by auto
  have n: "((sint x < 0) = (\<not> sint y < 0)) = (q < 0)" using assms(1,3) by (auto simp: assms(2) mult_less_0_iff)
  obtain d where d: "0 < d" "pow2_ratio (- int ky - - int kx) (nat \<bar>sint x\<bar> * 2 ^ kx) (nat \<bar>sint y\<bar> * 2 ^ ky) = (nat \<bar>q\<bar> * d, d)"
  proof (cases "ky \<le> kx")
    case True
    then have k: "nat (- int ky - - int kx) = kx - ky" "0 \<le> - int ky - - int kx" "kx = ky + (kx - ky)" by simp_all
    have "nat \<bar>sint y\<bar> * 2 ^ ky * 2 ^ (kx - ky) = nat \<bar>sint y\<bar> * 2 ^ kx"
      using True by (simp add: mult.assoc power_add [symmetric])
    with k assms(1) show ?thesis by (intro that [of "nat \<bar>sint y\<bar> * 2 ^ kx"]) (simp_all add: pow2_ratio_def x)
  next
    case False
    then have k: "nat (- (- int ky - - int kx)) = ky - kx" "\<not> 0 \<le> - int ky - - int kx" by simp_all
    have "nat \<bar>sint x\<bar> * 2 ^ kx * 2 ^ (ky - kx) = nat \<bar>q\<bar> * (nat \<bar>sint y\<bar> * 2 ^ ky)"
      using False by (simp add: x mult.assoc power_add [symmetric])
    with k assms(1) show ?thesis by (intro that [of "nat \<bar>sint y\<bar> * 2 ^ ky"]) (simp_all add: pow2_ratio_def)
  qed
  have q: "0 < nat \<bar>q\<bar>" "nat \<bar>q\<bar> < 2 ^ 52" using assms(3-5) by auto
  have "f64_div (f64_of_i32 x) (f64_of_i32 y) = f64_round (q < 0) (nat \<bar>q\<bar> * d) d"
    by (simp only: f64_div_def Let_def f64_i32_finite nz if_False kx ky f64_i32_negative n d(2) prod.case simp_thms)
  also have "\<dots> = f64_of_i32 (word_of_int q)"
    by (simp only: f64_round_exact [OF q d(1)] f64_of_i32_int [OF assms(3-5)])
  finally show ?thesis .
qed

end
