(* ===== verification/ValueOperations.thy ===== *)
theory ValueOperations
  imports F64Arith
begin

text \<open>
  The operators on values (\<open>value/operations.rs\<close>, \<open>bigint.rs\<close>): the methods with their fast paths for
  equal and mixed number representations and the slow path through \<open>to_numeric\<close>, and the operations
  that the bytecode handlers try first. A panic is no result. Powers of doubles, the text of a value
  and the parser of integers are arguments.
\<close>

record 'w operators = "'w conversions" +
  op_powi :: "f64 \<Rightarrow> i32 \<Rightarrow> f64"
  op_powf :: "f64 \<Rightarrow> f64 \<Rightarrow> f64"
  op_to_string :: "js_value \<Rightarrow> ('w, js_string) run"
  op_parse_bigint :: "js_string \<Rightarrow> int option"

abbreviation op_conv :: "('w, 'x) operators_scheme \<Rightarrow> 'w conversions" where
  "op_conv C \<equiv> conversions.truncate C"

definition to_primitive :: "('w, 'x) conversions_scheme \<Rightarrow> js_value \<Rightarrow> preferred_type \<Rightarrow> ('w, js_value) run" where
  "to_primitive C v preferred =
     (case v of VObject a \<Rightarrow> cv_to_primitive C a preferred | _ \<Rightarrow> run_return v)"

datatype numeric = NNumber f64 | NBigInt int

definition to_numeric :: "('w, 'x) operators_scheme \<Rightarrow> js_value \<Rightarrow> ('w, numeric) run" where
  "to_numeric C v =
     run_bind (to_primitive C v PreferNumber) (\<lambda>primitive.
       case primitive of
         VBigInt n \<Rightarrow> run_return (NBigInt n)
       | _ \<Rightarrow> run_bind (to_number (op_conv C) primitive) (\<lambda>number. run_return (NNumber number)))"

section \<open>Integers of arbitrary size\<close>

definition bigint_bits :: "int \<Rightarrow> nat" where
  "bigint_bits x = (if x = 0 then 0 else Suc (ilog2 (nat \<bar>x\<bar>)))"

definition f64_floor_positive :: "f64 \<Rightarrow> f64" where
  "f64_floor_positive b = (if 1075 \<le> f64_exponent b then b else f64_of_int (f64_trunc b))"

definition bigint_pow :: "int \<Rightarrow> int \<Rightarrow> js_error + int" where
  "bigint_pow x y =
     (if y < 0 then Inl RangeError
      else
        let num_bits = f64_add (f64_floor_positive (f64_mul (f64_of_int (int (bigint_bits x))) (f64_of_int y))) f64_one in
        if f64_less (f64_of_int 1000000000) num_bits then Inl RangeError
        else Inr (x ^ nat y))"

definition bigint_to_i32 :: "int \<Rightarrow> int option" where
  "bigint_to_i32 y = (if - (2 ^ 31) \<le> y \<and> y < 2 ^ 31 then Some y else None)"

definition bigint_shift_right :: "int \<Rightarrow> int \<Rightarrow> js_error + int" where
  "bigint_shift_right x y =
     (case bigint_to_i32 y of
        Some n \<Rightarrow> if 0 < n then Inr (drop_bit (nat n) x) else Inr (push_bit (nat \<bar>n\<bar>) x)
      | None \<Rightarrow> if x < 0 \<and> 0 < y then Inr (- 1) else if 0 < y then Inr 0 else Inl RangeError)"

definition bigint_shift_left :: "int \<Rightarrow> int \<Rightarrow> js_error + int" where
  "bigint_shift_left x y =
     (case bigint_to_i32 y of
        Some n \<Rightarrow> if 0 < n then Inr (push_bit (nat n) x) else Inr (drop_bit (nat \<bar>n\<bar>) x)
      | None \<Rightarrow> if x < 0 \<and> y < 0 then Inr (- 1) else if y < 0 then Inr 0 else Inl RangeError)"

definition bigint_div :: "int \<Rightarrow> int \<Rightarrow> js_error + int" where
  "bigint_div x y = (if y = 0 then Inl RangeError else Inr (x sdiv y))"

definition bigint_rem :: "int \<Rightarrow> int \<Rightarrow> js_error + int" where
  "bigint_rem x y = (if y = 0 then Inl RangeError else Inr (x smod y))"

text \<open>\<open>JsBigInt::try_from(f64)\<close>: the integer, when there is no fraction.\<close>

definition bigint_try_from :: "f64 \<Rightarrow> int option" where
  "bigint_try_from n =
     (if f64_is_nan n \<or> f64_is_infinite n then None
      else if f64_exponent n < 1023 then (if f64_is_zero n then Some 0 else None)
      else if f64_exponent n < 1075 \<and> (2 ^ 52 + f64_fraction n) mod 2 ^ (1075 - f64_exponent n) \<noteq> 0 then None
      else Some (f64_trunc n))"

section \<open>Operations on \<open>i32\<close>\<close>

definition checked_i32 :: "int \<Rightarrow> i32 option" where
  "checked_i32 n = (if - (2 ^ 31) \<le> n \<and> n < 2 ^ 31 then Some (word_of_int n) else None)"

definition i32_or :: "i32 option \<Rightarrow> f64 \<Rightarrow> js_value" where
  "i32_or r f = (case r of Some n \<Rightarrow> VInteger32 n | None \<Rightarrow> VFloat64 f)"

definition i32_add :: "i32 \<Rightarrow> i32 \<Rightarrow> js_value" where
  "i32_add x y = i32_or (checked_i32 (sint x + sint y)) (f64_add (f64_of_i32 x) (f64_of_i32 y))"

definition i32_sub :: "i32 \<Rightarrow> i32 \<Rightarrow> js_value" where
  "i32_sub x y = i32_or (checked_i32 (sint x - sint y)) (f64_sub (f64_of_i32 x) (f64_of_i32 y))"

definition i32_mul :: "i32 \<Rightarrow> i32 \<Rightarrow> js_value" where
  "i32_mul x y =
     i32_or (case checked_i32 (sint x * sint y) of
         Some v \<Rightarrow> if v \<noteq> 0 \<or> 0 \<le> min (sint x) (sint y) then Some v else None
       | None \<Rightarrow> None)
       (f64_mul (f64_of_i32 x) (f64_of_i32 y))"

definition i32_div :: "i32 \<Rightarrow> i32 \<Rightarrow> js_value" where
  "i32_div x y =
     i32_or (case (if y = 0 then None else checked_i32 (sint x sdiv sint y)) of
         Some d \<Rightarrow> if y * d = x then Some d else None
       | None \<Rightarrow> None)
       (f64_div (f64_of_i32 x) (f64_of_i32 y))"

text \<open>\<open>x % y\<close> panics for the one quotient that overflows.\<close>

definition i32_rem :: "i32 \<Rightarrow> i32 \<Rightarrow> js_value panics" where
  "i32_rem x y =
     (if y = 0 then Some (VFloat64 f64_NAN)
      else if x = 0x80000000 \<and> y = - 1 then None
      else let rem = word_of_int (sint x smod sint y) :: i32 in
        Some (if rem = 0 \<and> sint x < 0 then VFloat64 0x8000000000000000 else VInteger32 rem))"

definition i32_pow :: "('w, 'x) operators_scheme \<Rightarrow> i32 \<Rightarrow> i32 \<Rightarrow> js_value" where
  "i32_pow C x y =
     i32_or (if 0 \<le> sint y then checked_i32 (sint x ^ unat y) else None) (op_powi C (f64_of_i32 x) y)"

definition wrapping_shl :: "i32 \<Rightarrow> u32 \<Rightarrow> i32" where
  "wrapping_shl x y = push_bit (unat y mod 32) x"

definition wrapping_shr :: "i32 \<Rightarrow> u32 \<Rightarrow> i32" where
  "wrapping_shr x y = signed_drop_bit (unat y mod 32) x"

definition wrapping_shr_u32 :: "u32 \<Rightarrow> u32 \<Rightarrow> u32" where
  "wrapping_shr_u32 x y = drop_bit (unat y mod 32) x"

text \<open>\<open>JsValue::new\<close> of a \<open>u32\<close>.\<close>

definition value_of_u32 :: "u32 \<Rightarrow> js_value" where
  "value_of_u32 n = (if 0 \<le> sint n then VInteger32 n else VFloat64 (f64_of_int (uint n)))"

section \<open>The operators\<close>

text \<open>The slow path: both operands to numbers, left one first.\<close>

definition numeric_slow ::
    "('w, 'x) operators_scheme \<Rightarrow> (f64 \<Rightarrow> f64 \<Rightarrow> js_value) \<Rightarrow> (int \<Rightarrow> int \<Rightarrow> js_error + int) \<Rightarrow>
     js_value \<Rightarrow> js_value \<Rightarrow> ('w, js_value) run" where
  "numeric_slow C nn bb self other =
     run_bind (to_numeric C self) (\<lambda>x.
     run_bind (to_numeric C other) (\<lambda>y.
       case (x, y) of
         (NNumber a, NNumber b) \<Rightarrow> run_return (nn a b)
       | (NBigInt a, NBigInt b) \<Rightarrow> run_bind (run_lift (bb a b)) (\<lambda>n. run_return (VBigInt n))
       | _ \<Rightarrow> run_throw TypeError))"

text \<open>
  The match on the two variants that the methods share: \<open>ii\<close>, \<open>ff\<close>, \<open>fi\<close> and \<open>if'\<close> are the arms for
  the number representations.
\<close>

definition binary_op ::
    "(i32 \<Rightarrow> i32 \<Rightarrow> js_value panics) \<Rightarrow> (f64 \<Rightarrow> f64 \<Rightarrow> js_value) \<Rightarrow> (f64 \<Rightarrow> i32 \<Rightarrow> js_value) \<Rightarrow>
     (i32 \<Rightarrow> f64 \<Rightarrow> js_value) \<Rightarrow> (int \<Rightarrow> int \<Rightarrow> js_error + int) \<Rightarrow> (js_value \<Rightarrow> js_value \<Rightarrow> ('w, js_value) run) \<Rightarrow>
     js_value \<Rightarrow> js_value \<Rightarrow> ('w, js_value) run" where
  "binary_op ii ff fi if' bb slow self other =
     (case (self, other) of
        (VInteger32 x, VInteger32 y) \<Rightarrow> run_unwrap (ii x y)
      | (VFloat64 x, VFloat64 y) \<Rightarrow> run_return (ff x y)
      | (VInteger32 x, VFloat64 y) \<Rightarrow> run_return (if' x y)
      | (VFloat64 x, VInteger32 y) \<Rightarrow> run_return (fi x y)
      | (VBigInt x, VBigInt y) \<Rightarrow> run_bind (run_lift (bb x y)) (\<lambda>n. run_return (VBigInt n))
      | _ \<Rightarrow> slow self other)"

text \<open>The arms of an operation on doubles, an \<open>i32\<close> being converted first.\<close>

definition float_op ::
    "('w, 'x) operators_scheme \<Rightarrow> (i32 \<Rightarrow> i32 \<Rightarrow> js_value panics) \<Rightarrow> (f64 \<Rightarrow> f64 \<Rightarrow> js_value) \<Rightarrow> (f64 \<Rightarrow> f64 \<Rightarrow> js_value) \<Rightarrow>
     (int \<Rightarrow> int \<Rightarrow> js_error + int) \<Rightarrow> js_value \<Rightarrow> js_value \<Rightarrow> ('w, js_value) run" where
  "float_op C ii ff nn bb =
     binary_op ii ff (\<lambda>x y. ff x (f64_of_i32 y)) (\<lambda>x y. ff (f64_of_i32 x) y) bb (numeric_slow C nn bb)"

definition value_sub :: "('w, 'x) operators_scheme \<Rightarrow> js_value \<Rightarrow> js_value \<Rightarrow> ('w, js_value) run" where
  "value_sub C = float_op C (\<lambda>x y. Some (i32_sub x y)) (\<lambda>x y. VFloat64 (f64_sub x y)) (\<lambda>x y. VFloat64 (f64_sub x y))
     (\<lambda>x y. Inr (x - y))"

definition value_mul :: "('w, 'x) operators_scheme \<Rightarrow> js_value \<Rightarrow> js_value \<Rightarrow> ('w, js_value) run" where
  "value_mul C = float_op C (\<lambda>x y. Some (i32_mul x y)) (\<lambda>x y. VFloat64 (f64_mul x y)) (\<lambda>x y. VFloat64 (f64_mul x y))
     (\<lambda>x y. Inr (x * y))"

definition value_div :: "('w, 'x) operators_scheme \<Rightarrow> js_value \<Rightarrow> js_value \<Rightarrow> ('w, js_value) run" where
  "value_div C = float_op C (\<lambda>x y. Some (i32_div x y)) (\<lambda>x y. VFloat64 (f64_div x y)) (\<lambda>x y. VFloat64 (f64_div x y))
     bigint_div"

definition value_rem :: "('w, 'x) operators_scheme \<Rightarrow> js_value \<Rightarrow> js_value \<Rightarrow> ('w, js_value) run" where
  "value_rem C = float_op C i32_rem (\<lambda>x y. VFloat64 (f64_copysign (f64_rem x y) x)) (\<lambda>x y. VFloat64 (f64_rem x y)) bigint_rem"

definition float_pow :: "('w, 'x) operators_scheme \<Rightarrow> f64 \<Rightarrow> f64 \<Rightarrow> js_value" where
  "float_pow C x y =
     (if f64_eq (f64_abs x) f64_one \<and> f64_is_infinite y then VFloat64 f64_NAN else VFloat64 (op_powf C x y))"

definition value_pow :: "('w, 'x) operators_scheme \<Rightarrow> js_value \<Rightarrow> js_value \<Rightarrow> ('w, js_value) run" where
  "value_pow C =
     binary_op (\<lambda>x y. Some (i32_pow C x y)) (float_pow C) (\<lambda>x y. VFloat64 (op_powi C x y))
       (\<lambda>x y. if (x = 1 \<or> x = - 1) \<and> f64_is_infinite y then VFloat64 f64_NAN else VFloat64 (op_powf C (f64_of_i32 x) y))
       bigint_pow (numeric_slow C (float_pow C) bigint_pow)"

text \<open>The bitwise operators: every number through \<open>f64_to_int32\<close>.\<close>

definition int32_op ::
    "('w, 'x) operators_scheme \<Rightarrow> (i32 \<Rightarrow> i32 \<Rightarrow> js_value) \<Rightarrow> (int \<Rightarrow> int \<Rightarrow> js_error + int) \<Rightarrow>
     js_value \<Rightarrow> js_value \<Rightarrow> ('w, js_value) run" where
  "int32_op C f bb =
     binary_op (\<lambda>x y. Some (f x y)) (\<lambda>x y. f (f64_to_int32 x) (f64_to_int32 y)) (\<lambda>x y. f (f64_to_int32 x) y)
       (\<lambda>x y. f x (f64_to_int32 y)) bb (numeric_slow C (\<lambda>x y. f (f64_to_int32 x) (f64_to_int32 y)) bb)"

definition value_bitand :: "('w, 'x) operators_scheme \<Rightarrow> js_value \<Rightarrow> js_value \<Rightarrow> ('w, js_value) run" where
  "value_bitand C = int32_op C (\<lambda>x y. VInteger32 (x AND y)) (\<lambda>x y. Inr (x AND y))"

definition value_bitor :: "('w, 'x) operators_scheme \<Rightarrow> js_value \<Rightarrow> js_value \<Rightarrow> ('w, js_value) run" where
  "value_bitor C = int32_op C (\<lambda>x y. VInteger32 (x OR y)) (\<lambda>x y. Inr (x OR y))"

definition value_bitxor :: "('w, 'x) operators_scheme \<Rightarrow> js_value \<Rightarrow> js_value \<Rightarrow> ('w, js_value) run" where
  "value_bitxor C = int32_op C (\<lambda>x y. VInteger32 (x XOR y)) (\<lambda>x y. Inr (x XOR y))"

definition value_shl :: "('w, 'x) operators_scheme \<Rightarrow> js_value \<Rightarrow> js_value \<Rightarrow> ('w, js_value) run" where
  "value_shl C = int32_op C (\<lambda>x y. VInteger32 (wrapping_shl x y)) bigint_shift_left"

definition value_shr :: "('w, 'x) operators_scheme \<Rightarrow> js_value \<Rightarrow> js_value \<Rightarrow> ('w, js_value) run" where
  "value_shr C = int32_op C (\<lambda>x y. VInteger32 (wrapping_shr x y)) bigint_shift_right"

text \<open>\<open>>>>\<close> has no arm for two \<open>BigInt\<close>s; they reach the slow path, which throws.\<close>

definition value_ushr :: "('w, 'x) operators_scheme \<Rightarrow> js_value \<Rightarrow> js_value \<Rightarrow> ('w, js_value) run" where
  "value_ushr C = int32_op C (\<lambda>x y. value_of_u32 (wrapping_shr_u32 x y)) (\<lambda>_ _. Inl TypeError)"

text \<open>\<open>+\<close> also concatenates, and converts objects without a preferred type.\<close>

definition value_add :: "('w, 'x) operators_scheme \<Rightarrow> js_value \<Rightarrow> js_value \<Rightarrow> ('w, js_value) run" where
  "value_add C self other =
     (case (self, other) of
        (VString x, VString y) \<Rightarrow> run_return (VString (x @ y))
      | _ \<Rightarrow>
        binary_op (\<lambda>x y. Some (i32_add x y)) (\<lambda>x y. VFloat64 (f64_add x y)) (\<lambda>x y. VFloat64 (f64_add x (f64_of_i32 y)))
          (\<lambda>x y. VFloat64 (f64_add (f64_of_i32 x) y)) (\<lambda>x y. Inr (x + y))
          (\<lambda>self other.
             run_bind (to_primitive C self PreferDefault) (\<lambda>x.
             run_bind (to_primitive C other PreferDefault) (\<lambda>y.
               case (x, y) of
                 (VString x, _) \<Rightarrow> run_bind (op_to_string C y) (\<lambda>y. run_return (VString (x @ y)))
               | (_, VString y) \<Rightarrow> run_bind (op_to_string C x) (\<lambda>x. run_return (VString (x @ y)))
               | _ \<Rightarrow> numeric_slow C (\<lambda>x y. VFloat64 (f64_add x y)) (\<lambda>x y. Inr (x + y)) x y)))
          self other)"

definition value_neg :: "('w, 'x) operators_scheme \<Rightarrow> js_value \<Rightarrow> ('w, js_value) run" where
  "value_neg C self =
     (case self of
        VSymbol _ \<Rightarrow> run_return (VFloat64 f64_NAN)
      | VUndefined \<Rightarrow> run_return (VFloat64 f64_NAN)
      | VObject _ \<Rightarrow>
          (\<lambda>w. map_option (\<lambda>(r, w). (Inr (VFloat64 (case r of Inl _ \<Rightarrow> f64_NAN | Inr n \<Rightarrow> f64_neg n)), w))
            (run_bind (to_primitive C self PreferNumber) (\<lambda>primitive.
               case primitive of VBigInt n \<Rightarrow> run_return (f64_of_int n) | _ \<Rightarrow> to_number (op_conv C) primitive) w))
      | VString str \<Rightarrow> run_return (VFloat64 (f64_neg (cv_string_to_number C str)))
      | VFloat64 num \<Rightarrow> run_return (VFloat64 (f64_neg num))
      | VBoolean b \<Rightarrow> run_return (if b then VInteger32 (- 1) else VFloat64 0x8000000000000000)
      | VNull \<Rightarrow> run_return (VFloat64 0x8000000000000000)
      | VInteger32 num \<Rightarrow> run_return (if num = 0 then VFloat64 0x8000000000000000 else VInteger32 (- num))
      | VBigInt x \<Rightarrow> run_return (VBigInt (- x)))"

definition value_not :: "('w, 'x) operators_scheme \<Rightarrow> js_value \<Rightarrow> bool" where
  "value_not C self \<longleftrightarrow> \<not> to_boolean (op_conv C) self"

section \<open>Relations\<close>

datatype relation_result = RelTrue | RelFalse | RelUndefined

definition relation_of_bool :: "bool \<Rightarrow> relation_result" where
  "relation_of_bool b = (if b then RelTrue else RelFalse)"

text \<open>\<open>Number::less_than\<close>, case by case.\<close>

definition less_than :: "f64 \<Rightarrow> f64 \<Rightarrow> relation_result" where
  "less_than x y =
     (if f64_is_nan x \<or> f64_is_nan y then RelUndefined
      else if f64_eq x y \<or> f64_eq x 0 \<and> f64_eq y 0x8000000000000000 \<or> f64_eq x 0x8000000000000000 \<and> f64_eq y 0 then RelFalse
      else if f64_is_infinite x \<and> \<not> f64_negative x then RelFalse
      else if f64_is_infinite y \<and> \<not> f64_negative y then RelTrue
      else if f64_is_infinite x \<and> f64_negative x then RelTrue
      else if f64_is_infinite y \<and> f64_negative y then RelFalse
      else relation_of_bool (f64_less x y))"

text \<open>Strings are compared by code units.\<close>

fun js_string_less :: "js_string \<Rightarrow> js_string \<Rightarrow> bool" where
  "js_string_less _ [] = False"
| "js_string_less [] (_ # _) = True"
| "js_string_less (x # xs) (y # ys) = (x < y \<or> x = y \<and> js_string_less xs ys)"

definition numeric_relation :: "numeric \<Rightarrow> numeric \<Rightarrow> relation_result" where
  "numeric_relation px py =
     (case (px, py) of
        (NNumber x, NNumber y) \<Rightarrow> less_than x y
      | (NBigInt x, NBigInt y) \<Rightarrow> relation_of_bool (x < y)
      | (NBigInt x, NNumber y) \<Rightarrow>
          if f64_is_nan y then RelUndefined
          else if f64_is_infinite y then relation_of_bool (\<not> f64_negative y)
          else (case bigint_try_from y of
              Some y \<Rightarrow> relation_of_bool (x < y)
            | None \<Rightarrow> relation_of_bool (f64_less (f64_of_int x) y))
      | (NNumber x, NBigInt y) \<Rightarrow>
          if f64_is_nan x then RelUndefined
          else if f64_is_infinite x then relation_of_bool (f64_negative x)
          else (case bigint_try_from x of
              Some x \<Rightarrow> relation_of_bool (x < y)
            | None \<Rightarrow> relation_of_bool (f64_less x (f64_of_int y))))"

definition primitive_relation ::
    "('w, 'x) operators_scheme \<Rightarrow> js_value \<Rightarrow> js_value \<Rightarrow> ('w, relation_result) run" where
  "primitive_relation C px py =
     (case (px, py) of
        (VString x, VString y) \<Rightarrow> run_return (relation_of_bool (js_string_less x y))
      | (VBigInt x, VString y) \<Rightarrow>
          run_return (case op_parse_bigint C y of None \<Rightarrow> RelUndefined | Some y \<Rightarrow> relation_of_bool (x < y))
      | (VString x, VBigInt y) \<Rightarrow>
          run_return (case op_parse_bigint C x of None \<Rightarrow> RelUndefined | Some x \<Rightarrow> relation_of_bool (x < y))
      | _ \<Rightarrow>
          run_bind (to_numeric C px) (\<lambda>x. run_bind (to_numeric C py) (\<lambda>y. run_return (numeric_relation x y))))"

definition abstract_relation ::
    "('w, 'x) operators_scheme \<Rightarrow> js_value \<Rightarrow> js_value \<Rightarrow> bool \<Rightarrow> ('w, relation_result) run" where
  "abstract_relation C self other left_first =
     (case (self, other) of
        (VInteger32 x, VInteger32 y) \<Rightarrow> run_return (relation_of_bool (sint x < sint y))
      | (VInteger32 x, VFloat64 y) \<Rightarrow> run_return (less_than (f64_of_i32 x) y)
      | (VFloat64 x, VInteger32 y) \<Rightarrow> run_return (less_than x (f64_of_i32 y))
      | (VFloat64 x, VFloat64 y) \<Rightarrow> run_return (less_than x y)
      | (VBigInt x, VBigInt y) \<Rightarrow> run_return (relation_of_bool (x < y))
      | _ \<Rightarrow>
        if left_first then
          run_bind (to_primitive C self PreferNumber) (\<lambda>px.
          run_bind (to_primitive C other PreferNumber) (\<lambda>py. primitive_relation C px py))
        else
          run_bind (to_primitive C other PreferNumber) (\<lambda>py.
          run_bind (to_primitive C self PreferNumber) (\<lambda>px. primitive_relation C px py)))"

definition value_lt :: "('w, 'x) operators_scheme \<Rightarrow> js_value \<Rightarrow> js_value \<Rightarrow> ('w, bool) run" where
  "value_lt C self other = run_bind (abstract_relation C self other True) (\<lambda>r. run_return (r = RelTrue))"

definition value_le :: "('w, 'x) operators_scheme \<Rightarrow> js_value \<Rightarrow> js_value \<Rightarrow> ('w, bool) run" where
  "value_le C self other = run_bind (abstract_relation C other self False) (\<lambda>r. run_return (r = RelFalse))"

definition value_gt :: "('w, 'x) operators_scheme \<Rightarrow> js_value \<Rightarrow> js_value \<Rightarrow> ('w, bool) run" where
  "value_gt C self other = run_bind (abstract_relation C other self False) (\<lambda>r. run_return (r = RelTrue))"

definition value_ge :: "('w, 'x) operators_scheme \<Rightarrow> js_value \<Rightarrow> js_value \<Rightarrow> ('w, bool) run" where
  "value_ge C self other = run_bind (abstract_relation C self other True) (\<lambda>r. run_return (r = RelFalse))"

section \<open>The operations tried first by the handlers\<close>

fun as_integer32 :: "js_value \<Rightarrow> i32 option" where
  "as_integer32 (VInteger32 i) = Some i"
| "as_integer32 _ = None"

fun as_number_cheap :: "js_value \<Rightarrow> f64 option" where
  "as_number_cheap (VInteger32 i) = Some (f64_of_i32 i)"
| "as_number_cheap (VFloat64 f) = Some f"
| "as_number_cheap _ = None"

text \<open>Two \<open>i32\<close> by \<open>ii\<close>, otherwise two numbers by \<open>ff\<close>; an inner \<open>None\<close> is not a pair of numbers, an outer one a panic.\<close>

definition fast_op ::
    "(i32 \<Rightarrow> i32 \<Rightarrow> 'a panics) \<Rightarrow> (f64 \<Rightarrow> f64 \<Rightarrow> 'a) \<Rightarrow> js_value \<Rightarrow> js_value \<Rightarrow> 'a option panics" where
  "fast_op ii ff self other =
     (case (as_integer32 self, as_integer32 other) of
        (Some x, Some y) \<Rightarrow> map_option Some (ii x y)
      | _ \<Rightarrow> (case (as_number_cheap self, as_number_cheap other) of
          (Some x, Some y) \<Rightarrow> Some (Some (ff x y))
        | _ \<Rightarrow> Some None))"

definition add_fast :: "js_value \<Rightarrow> js_value \<Rightarrow> js_value option panics" where
  "add_fast = fast_op (\<lambda>x y. Some (i32_add x y)) (\<lambda>x y. VFloat64 (f64_add x y))"

definition sub_fast :: "js_value \<Rightarrow> js_value \<Rightarrow> js_value option panics" where
  "sub_fast = fast_op (\<lambda>x y. Some (i32_sub x y)) (\<lambda>x y. VFloat64 (f64_sub x y))"

definition mul_fast :: "js_value \<Rightarrow> js_value \<Rightarrow> js_value option panics" where
  "mul_fast = fast_op (\<lambda>x y. Some (i32_mul x y)) (\<lambda>x y. VFloat64 (f64_mul x y))"

definition div_fast :: "js_value \<Rightarrow> js_value \<Rightarrow> js_value option panics" where
  "div_fast = fast_op (\<lambda>x y. Some (i32_div x y)) (\<lambda>x y. VFloat64 (f64_div x y))"

definition rem_fast :: "js_value \<Rightarrow> js_value \<Rightarrow> js_value option panics" where
  "rem_fast = fast_op i32_rem (\<lambda>x y. VFloat64 (f64_copysign (f64_rem x y) x))"

definition pow_fast :: "('w, 'x) operators_scheme \<Rightarrow> js_value \<Rightarrow> js_value \<Rightarrow> js_value option panics" where
  "pow_fast C = fast_op (\<lambda>x y. Some (i32_pow C x y)) (float_pow C)"

text \<open>The bitwise ones take \<open>i32\<close> only.\<close>

definition fast_int_op :: "(i32 \<Rightarrow> i32 \<Rightarrow> js_value) \<Rightarrow> js_value \<Rightarrow> js_value \<Rightarrow> js_value option" where
  "fast_int_op f self other =
     (case (as_integer32 self, as_integer32 other) of (Some x, Some y) \<Rightarrow> Some (f x y) | _ \<Rightarrow> None)"

definition bitand_fast :: "js_value \<Rightarrow> js_value \<Rightarrow> js_value option" where
  "bitand_fast = fast_int_op (\<lambda>x y. VInteger32 (x AND y))"

definition bitor_fast :: "js_value \<Rightarrow> js_value \<Rightarrow> js_value option" where
  "bitor_fast = fast_int_op (\<lambda>x y. VInteger32 (x OR y))"

definition bitxor_fast :: "js_value \<Rightarrow> js_value \<Rightarrow> js_value option" where
  "bitxor_fast = fast_int_op (\<lambda>x y. VInteger32 (x XOR y))"

definition shl_fast :: "js_value \<Rightarrow> js_value \<Rightarrow> js_value option" where
  "shl_fast = fast_int_op (\<lambda>x y. VInteger32 (wrapping_shl x y))"

definition shr_fast :: "js_value \<Rightarrow> js_value \<Rightarrow> js_value option" where
  "shr_fast = fast_int_op (\<lambda>x y. VInteger32 (wrapping_shr x y))"

definition ushr_fast :: "js_value \<Rightarrow> js_value \<Rightarrow> js_value option" where
  "ushr_fast = fast_int_op (\<lambda>x y. value_of_u32 (wrapping_shr_u32 x y))"

definition lt_fast :: "js_value \<Rightarrow> js_value \<Rightarrow> bool option panics" where
  "lt_fast = fast_op (\<lambda>x y. Some (sint x < sint y)) f64_less"

definition le_fast :: "js_value \<Rightarrow> js_value \<Rightarrow> bool option panics" where
  "le_fast = fast_op (\<lambda>x y. Some (sint x \<le> sint y)) f64_le"

definition gt_fast :: "js_value \<Rightarrow> js_value \<Rightarrow> bool option panics" where
  "gt_fast = fast_op (\<lambda>x y. Some (sint y < sint x)) (\<lambda>x y. f64_less y x)"

definition ge_fast :: "js_value \<Rightarrow> js_value \<Rightarrow> bool option panics" where
  "ge_fast = fast_op (\<lambda>x y. Some (sint y \<le> sint x)) (\<lambda>x y. f64_le y x)"

definition equals_fast :: "js_value \<Rightarrow> js_value \<Rightarrow> js_value option panics" where
  "equals_fast = fast_op (\<lambda>x y. Some (VBoolean (x = y))) (\<lambda>x y. VBoolean (f64_eq x y))"

definition not_equals_fast :: "js_value \<Rightarrow> js_value \<Rightarrow> js_value option panics" where
  "not_equals_fast = fast_op (\<lambda>x y. Some (VBoolean (x \<noteq> y))) (\<lambda>x y. VBoolean (\<not> f64_eq x y))"

end
