(* ===== verification/Objects.thy ===== *)
theory Objects
  imports PropertyMap ValueOperations
begin

text \<open>
  The heap of objects (\<open>object/mod.rs\<close>, \<open>object/jsobject.rs\<close>). A \<open>JsObject\<close> is the address of an
  object; an object holds its property map, the extensible flag, its private elements, its data and
  the table of internal methods it dispatches on. The tables of exotic objects other than strings,
  arrays and immutable prototypes are an argument. A computation runs on a world that contains the objects
  and the store of shapes and may contain more; a borrow of an address without an object is a panic.
\<close>

section \<open>Objects\<close>

record private_name =
  pn_description :: js_string
  pn_id :: nat

datatype private_element =
    PrivateField js_value
  | PrivateMethod obj_addr
  | PrivateAccessor "obj_addr option" "obj_addr option"

text \<open>The tables of internal methods are told apart by address.\<close>

datatype vtable = OrdinaryMethods | ImmutablePrototypeMethods | StringMethods | ArrayMethods | OtherMethods nat

datatype object_data = StringData js_string | OtherData nat

record js_object =
  ob_properties :: property_map
  ob_extensible :: bool
  ob_private_elements :: "(private_name \<times> private_element) list"
  ob_data :: object_data
  ob_vtable :: vtable

record object_world =
  ow_objects :: "obj_addr \<Rightarrow> js_object option"
  ow_shapes :: shape_heap

text \<open>
  \<open>InternalMethodPropertyContext\<close>: a context with the slot that the internal methods report to
  inline caches.
\<close>

type_synonym 'w property_context = "'w \<times> slot"

text \<open>
  A struct of internal methods written \<open>..ORDINARY_INTERNAL_METHODS\<close> overrides some fields; \<open>None\<close>
  is the ordinary method.
\<close>

record 'w exotic_methods =
  ex_get_prototype_of :: "(obj_addr \<Rightarrow> ('w, js_prototype) run) option"
  ex_set_prototype_of :: "(obj_addr \<Rightarrow> js_prototype \<Rightarrow> ('w, bool) run) option"
  ex_is_extensible :: "(obj_addr \<Rightarrow> ('w, bool) run) option"
  ex_prevent_extensions :: "(obj_addr \<Rightarrow> ('w, bool) run) option"
  ex_get_own_property ::
    "(obj_addr \<Rightarrow> property_key \<Rightarrow> ('w property_context, property_descriptor option) run) option"
  ex_define_own_property ::
    "(obj_addr \<Rightarrow> property_key \<Rightarrow> property_descriptor \<Rightarrow> ('w property_context, bool) run) option"
  ex_has_property :: "(obj_addr \<Rightarrow> property_key \<Rightarrow> ('w property_context, bool) run) option"
  ex_try_get :: "(obj_addr \<Rightarrow> property_key \<Rightarrow> js_value \<Rightarrow> ('w property_context, js_value option) run) option"
  ex_get :: "(obj_addr \<Rightarrow> property_key \<Rightarrow> js_value \<Rightarrow> ('w property_context, js_value) run) option"
  ex_set :: "(obj_addr \<Rightarrow> property_key \<Rightarrow> js_value \<Rightarrow> js_value \<Rightarrow> ('w property_context, bool) run) option"
  ex_delete :: "(obj_addr \<Rightarrow> property_key \<Rightarrow> ('w property_context, bool) run) option"
  ex_own_property_keys :: "(obj_addr \<Rightarrow> ('w, property_key list) run) option"

text \<open>
  What the object model is given: the map of transitions, the calls of functions, the exotic methods,
  the conversions of values and the shape of the template for arrays.
\<close>

record ('w, 'm) engine =
  en_index_map :: "'m index_map_ops"
  en_call :: "obj_addr \<Rightarrow> js_value \<Rightarrow> js_value list \<Rightarrow> ('w, js_value) run"
  en_callable :: "'w \<Rightarrow> obj_addr \<Rightarrow> bool"
  en_exotic :: "nat \<Rightarrow> 'w exotic_methods"
  en_itoa :: "int \<Rightarrow> js_string"
  en_conversions :: "'w conversions"
  en_array_shape :: shape

definition overriding :: "('w, 'm, 'x) engine_scheme \<Rightarrow> vtable \<Rightarrow> ('w exotic_methods \<Rightarrow> 'f option) \<Rightarrow> 'f option" where
  "overriding E v method = (case v of OtherMethods n \<Rightarrow> method (en_exotic E n) | _ \<Rightarrow> None)"

lemma overriding_simps [simp]:
  "overriding E OrdinaryMethods m = None" "overriding E ImmutablePrototypeMethods m = None"
  "overriding E StringMethods m = None" "overriding E ArrayMethods m = None" "overriding E (OtherMethods n) m = m (en_exotic E n)"
  by (simp_all add: overriding_def)

section \<open>Contexts\<close>

text \<open>A context and one with a slot: running in the context inside, and with a new slot around.\<close>

definition in_context :: "('w, 'a) run \<Rightarrow> ('w property_context, 'a) run" where
  "in_context m c = map_option (\<lambda>(r, w). (r, (w, snd c))) (m (fst c))"

definition property_context_new :: "('w property_context, 'a) run \<Rightarrow> ('w, 'a) run" where
  "property_context_new m w = map_option (\<lambda>(r, c). (r, fst c)) (m (w, slot_new))"

definition slot_modify :: "(slot \<Rightarrow> slot) \<Rightarrow> ('w property_context, unit) run" where
  "slot_modify f = run_modify (\<lambda>(w, s). (w, f s))"

lemma in_context_Some [run_simps]:
  "m w = Some (r, w') \<Longrightarrow> in_context m (w, s) = Some (r, (w', s))"
  by (simp add: in_context_def)

lemma property_context_new_Some [run_simps]:
  "m (w, slot_new) = Some (r, (w', s)) \<Longrightarrow> property_context_new m w = Some (r, w')"
  by (simp add: property_context_new_def)

lemma slot_modify_run [run_simps]: "slot_modify f (w, s) = Some (Inr (), (w, f s))"
  by (simp add: slot_modify_def run_modify_def)

lemma run_unwrap_bind [run_simps]: "run_bind (run_unwrap (Some x)) f w = f x w"
  by (simp add: run_bind_def run_unwrap_def)

lemma in_context_bind:
  "m w = Some (Inr x, w') \<Longrightarrow> run_bind (in_context m) f (w, s) = f x (w', s)"
  by (simp add: run_bind_def in_context_def)

lemma slot_modify_bind [run_simps]: "run_bind (slot_modify f) g (w, s) = g () (w, f s)"
  by (simp add: run_bind_def slot_modify_run)

lemma map_option_bind: "map_option g x = Option.bind x (\<lambda>y. Some (g y))"
  by (cases x) simp_all

lemma in_context_mono [partial_function_mono]:
  "(\<And>w. mono_option (\<lambda>f. B f w)) \<Longrightarrow> mono_option (\<lambda>f. in_context (B f) c)"
  unfolding in_context_def map_option_bind by (intro bind_mono) (auto intro: option.const_mono)

section \<open>Reading and writing objects\<close>

definition object_borrow :: "obj_addr \<Rightarrow> ('x object_world_scheme, js_object) run" where
  "object_borrow obj w = map_option (\<lambda>ob. (Inr ob, w)) (ow_objects w obj)"

definition object_write :: "obj_addr \<Rightarrow> js_object \<Rightarrow> ('x object_world_scheme, unit) run" where
  "object_write obj ob = run_modify (\<lambda>w. w\<lparr>ow_objects := (ow_objects w)(obj \<mapsto> ob)\<rparr>)"

lemma object_borrow_run [run_simps]: "ow_objects w obj = Some ob \<Longrightarrow> object_borrow obj w = Some (Inr ob, w)"
  by (simp add: object_borrow_def)

lemma object_borrow_bind [run_simps]:
  "ow_objects w obj = Some ob \<Longrightarrow> run_bind (object_borrow obj) f w = f ob w"
  by (simp add: run_bind_def object_borrow_def)

text \<open>A function of the store of shapes that may panic.\<close>

definition with_shapes :: "(shape_heap \<Rightarrow> 'a panics) \<Rightarrow> ('x object_world_scheme, 'a) run" where
  "with_shapes f w = map_option (\<lambda>a. (Inr a, w)) (f (ow_shapes w))"

lemma with_shapes_bind [run_simps]:
  "f (ow_shapes w) = Some a \<Longrightarrow> run_bind (with_shapes f) g w = g a w"
  by (simp add: run_bind_def with_shapes_def)

lemma with_shapes_run [run_simps]: "f (ow_shapes w) = Some a \<Longrightarrow> with_shapes f w = Some (Inr a, w)"
  by (simp add: with_shapes_def)

text \<open>The world after an object and the store of shapes were changed.\<close>

definition put_properties ::
  "obj_addr \<Rightarrow> js_object \<Rightarrow> property_map \<Rightarrow> shape_heap \<Rightarrow> 'x object_world_scheme \<Rightarrow> 'x object_world_scheme" where
  "put_properties obj ob pm h w =
     w\<lparr>ow_objects := (ow_objects w)(obj \<mapsto> ob\<lparr>ob_properties := pm\<rparr>), ow_shapes := h\<rparr>"

definition object_shape :: "js_object \<Rightarrow> shape" where
  "object_shape ob = pm_shape (ob_properties ob)"

definition object_prototype :: "obj_addr \<Rightarrow> ('x object_world_scheme, js_prototype) run" where
  "object_prototype obj =
     run_bind (object_borrow obj) (\<lambda>ob. with_shapes (\<lambda>h. shape_prototype h (object_shape ob)))"

definition object_extensible :: "obj_addr \<Rightarrow> ('x object_world_scheme, bool) run" where
  "object_extensible obj = run_bind (object_borrow obj) (\<lambda>ob. run_return (ob_extensible ob))"

definition object_set_prototype :: "obj_addr \<Rightarrow> js_prototype \<Rightarrow> ('x object_world_scheme, bool) run" where
  "object_set_prototype obj prototype =
     run_bind (object_borrow obj) (\<lambda>ob.
       if ob_extensible ob then
         run_bind (with_shapes (\<lambda>h. shape_change_prototype_transition h (object_shape ob) prototype)) (\<lambda>(s, h).
         run_bind (run_modify (put_properties obj ob ((ob_properties ob)\<lparr>pm_shape := s\<rparr>) h)) (\<lambda>_.
         run_return True))
       else
         run_bind (object_prototype obj) (\<lambda>current. run_return (current = prototype)))"

text \<open>\<open>insert_with_slot\<close> on the properties of a borrowed object, \<open>Object::insert\<close> and \<open>Object::remove\<close>.\<close>

definition object_insert_with_slot ::
  "('w, 'm, 'e) engine_scheme \<Rightarrow> obj_addr \<Rightarrow> property_key \<Rightarrow> property_descriptor \<Rightarrow>
     ('x object_world_scheme property_context, bool) run" where
  "object_insert_with_slot E obj key property c =
     (case ow_objects (fst c) obj of
        None \<Rightarrow> None
      | Some ob \<Rightarrow>
          map_option (\<lambda>(existed, pm, slot, h). (Inr existed, (put_properties obj ob pm h (fst c), slot)))
            (pm_insert_with_slot (en_index_map E) (ow_shapes (fst c)) (ob_properties ob) key property (snd c)))"

definition object_insert ::
  "('w, 'm, 'e) engine_scheme \<Rightarrow> obj_addr \<Rightarrow> property_key \<Rightarrow> property_descriptor \<Rightarrow> ('x object_world_scheme, bool) run" where
  "object_insert E obj key property w =
     (case ow_objects w obj of
        None \<Rightarrow> None
      | Some ob \<Rightarrow>
          map_option (\<lambda>(existed, pm, h). (Inr existed, put_properties obj ob pm h w))
            (pm_insert (en_index_map E) (ow_shapes w) (ob_properties ob) key property))"

definition object_remove ::
  "('w, 'm, 'e) engine_scheme \<Rightarrow> obj_addr \<Rightarrow> property_key \<Rightarrow> ('x object_world_scheme, bool) run" where
  "object_remove E obj key w =
     (case ow_objects w obj of
        None \<Rightarrow> None
      | Some ob \<Rightarrow>
          map_option (\<lambda>(existed, pm, h). (Inr existed, put_properties obj ob pm h w))
            (pm_remove (en_index_map E) (ow_shapes w) (ob_properties ob) key))"

text \<open>Direct reads and writes of the storage, \<open>properties().storage[index]\<close>.\<close>

definition object_load :: "obj_addr \<Rightarrow> nat \<Rightarrow> ('x object_world_scheme, js_value) run" where
  "object_load obj index =
     run_bind (object_borrow obj) (\<lambda>ob. run_unwrap (vec_get (pm_storage (ob_properties ob)) index))"

definition object_store :: "obj_addr \<Rightarrow> nat \<Rightarrow> js_value \<Rightarrow> ('x object_world_scheme, unit) run" where
  "object_store obj index value =
     run_bind (object_borrow obj) (\<lambda>ob.
     run_bind (run_unwrap (vec_set (pm_storage (ob_properties ob)) index value)) (\<lambda>storage.
       object_write obj (ob\<lparr>ob_properties := (ob_properties ob)\<lparr>pm_storage := storage\<rparr>\<rparr>)))"

text \<open>\<open>append_private_element\<close>: the halves of an accessor are put together.\<close>

fun merge_private_accessor ::
  "(private_name \<times> private_element) list \<Rightarrow> private_name \<Rightarrow> obj_addr option \<Rightarrow> obj_addr option \<Rightarrow>
     (private_name \<times> private_element) list option" where
  "merge_private_accessor [] name getter setter = None"
| "merge_private_accessor ((key, value) # es) name getter setter =
     (case value of
        PrivateAccessor existing_getter existing_setter \<Rightarrow>
          if name = key
          then Some ((key, PrivateAccessor (option_or existing_getter getter) (option_or existing_setter setter)) # es)
          else map_option ((#) (key, value)) (merge_private_accessor es name getter setter)
      | _ \<Rightarrow> map_option ((#) (key, value)) (merge_private_accessor es name getter setter))"

definition append_private_element :: "private_name \<Rightarrow> private_element \<Rightarrow> js_object \<Rightarrow> js_object" where
  "append_private_element name element ob =
     (case (case element of
          PrivateAccessor getter setter \<Rightarrow> merge_private_accessor (ob_private_elements ob) name getter setter
        | _ \<Rightarrow> None) of
        Some es \<Rightarrow> ob\<lparr>ob_private_elements := es\<rparr>
      | None \<Rightarrow> ob\<lparr>ob_private_elements := ob_private_elements ob @ [(name, element)]\<rparr>)"

end
