(* ===== verification/InternalMethods.thy ===== *)
theory InternalMethods
  imports Objects
begin

text \<open>
  The internal methods of objects (\<open>object/internal_methods\<close>): the dispatch on the table of an
  object, the ordinary methods, those of strings and of immutable prototypes, and
  \<open>ValidateAndApplyPropertyDescriptor\<close>. A method that goes up the prototype chain is a
  \<open>partial_function (option)\<close>: on a cyclic chain, which proxies can make, it does not return.
\<close>

section \<open>Prototype and extensibility\<close>

definition ordinary_get_prototype_of :: "obj_addr \<Rightarrow> ('x object_world_scheme, js_prototype) run" where
  "ordinary_get_prototype_of obj = object_prototype obj"

definition get_prototype_of ::
  "('x object_world_scheme, 'm, 'e) engine_scheme \<Rightarrow> obj_addr \<Rightarrow> ('x object_world_scheme, js_prototype) run" where
  "get_prototype_of E obj =
     run_bind (object_borrow obj) (\<lambda>ob.
       case overriding E (ob_vtable ob) ex_get_prototype_of of
         Some method \<Rightarrow> method obj
       | None \<Rightarrow> ordinary_get_prototype_of obj)"

text \<open>The loop of \<open>ordinary_set_prototype_of\<close>: whether \<open>obj\<close> is found, following ordinary prototypes only.\<close>

partial_function (option) prototype_chain_contains ::
  "('x object_world_scheme, 'm, 'e) engine_scheme \<Rightarrow> obj_addr \<Rightarrow> js_prototype \<Rightarrow> ('x object_world_scheme, bool) run" where
  "prototype_chain_contains E obj p w =
     (case p of
        None \<Rightarrow> run_return False w
      | Some proto \<Rightarrow>
          if proto = obj then run_return True w
          else
            run_bind (object_borrow proto) (\<lambda>ob w.
              if overriding E (ob_vtable ob) ex_get_prototype_of \<noteq> None then run_return False w
              else run_bind (object_prototype proto) (\<lambda>p w. prototype_chain_contains E obj p w) w) w)"

definition ordinary_set_prototype_of ::
  "('x object_world_scheme, 'm, 'e) engine_scheme \<Rightarrow> obj_addr \<Rightarrow> js_prototype \<Rightarrow> ('x object_world_scheme, bool) run" where
  "ordinary_set_prototype_of E obj val =
     run_bind (object_prototype obj) (\<lambda>current.
       if val = current then run_return True
       else
         run_bind (object_extensible obj) (\<lambda>extensible.
           if \<not> extensible then run_return False
           else
             run_bind (prototype_chain_contains E obj val) (\<lambda>found.
               if found then run_return False
               else run_bind (object_set_prototype obj val) (\<lambda>_. run_return True))))"

definition immutable_prototype_exotic_set_prototype_of ::
  "('x object_world_scheme, 'm, 'e) engine_scheme \<Rightarrow> obj_addr \<Rightarrow> js_prototype \<Rightarrow> ('x object_world_scheme, bool) run" where
  "immutable_prototype_exotic_set_prototype_of E obj val =
     run_bind (get_prototype_of E obj) (\<lambda>current. run_return (val = current))"

definition set_prototype_of ::
  "('x object_world_scheme, 'm, 'e) engine_scheme \<Rightarrow> obj_addr \<Rightarrow> js_prototype \<Rightarrow> ('x object_world_scheme, bool) run" where
  "set_prototype_of E obj val =
     run_bind (object_borrow obj) (\<lambda>ob.
       case overriding E (ob_vtable ob) ex_set_prototype_of of
         Some method \<Rightarrow> method obj val
       | None \<Rightarrow>
           if ob_vtable ob = ImmutablePrototypeMethods then immutable_prototype_exotic_set_prototype_of E obj val
           else ordinary_set_prototype_of E obj val)"

definition ordinary_is_extensible :: "obj_addr \<Rightarrow> ('x object_world_scheme, bool) run" where
  "ordinary_is_extensible obj = run_bind (object_borrow obj) (\<lambda>ob. run_return (ob_extensible ob))"

definition is_extensible ::
  "('x object_world_scheme, 'm, 'e) engine_scheme \<Rightarrow> obj_addr \<Rightarrow> ('x object_world_scheme, bool) run" where
  "is_extensible E obj =
     run_bind (object_borrow obj) (\<lambda>ob.
       case overriding E (ob_vtable ob) ex_is_extensible of
         Some method \<Rightarrow> method obj
       | None \<Rightarrow> ordinary_is_extensible obj)"

definition ordinary_prevent_extensions :: "obj_addr \<Rightarrow> ('x object_world_scheme, bool) run" where
  "ordinary_prevent_extensions obj =
     run_bind (object_borrow obj) (\<lambda>ob.
     run_bind (object_write obj (ob\<lparr>ob_extensible := False\<rparr>)) (\<lambda>_. run_return True))"

definition prevent_extensions ::
  "('x object_world_scheme, 'm, 'e) engine_scheme \<Rightarrow> obj_addr \<Rightarrow> ('x object_world_scheme, bool) run" where
  "prevent_extensions E obj =
     run_bind (object_borrow obj) (\<lambda>ob.
       case overriding E (ob_vtable ob) ex_prevent_extensions of
         Some method \<Rightarrow> method obj
       | None \<Rightarrow> ordinary_prevent_extensions obj)"

section \<open>Own properties\<close>

definition ordinary_get_own_property ::
  "obj_addr \<Rightarrow> property_key \<Rightarrow> ('x object_world_scheme property_context, property_descriptor option) run" where
  "ordinary_get_own_property obj key c =
     (case ow_objects (fst c) obj of
        None \<Rightarrow> None
      | Some ob \<Rightarrow>
          map_option (\<lambda>(desc, slot). (Inr desc, (fst c, slot)))
            (pm_get_with_slot (ow_shapes (fst c)) (ob_properties ob) key (snd c)))"

text \<open>\<open>StringGetOwnProperty\<close>; the inner option is the property, \<open>None\<close> outside is the failed downcast.\<close>

definition string_get_own_property :: "js_object \<Rightarrow> property_key \<Rightarrow> property_descriptor option panics" where
  "string_get_own_property ob key =
     (case key of
        PKIndex index \<Rightarrow>
          (case ob_data ob of
             StringData string \<Rightarrow>
               Some (map_option
                 (\<lambda>u. build_configurable False (build_enumerable True
                    (build_writable False (build_value (VString [u]) pd_default))))
                 (vec_get string (unat index)))
           | OtherData _ \<Rightarrow> None)
      | _ \<Rightarrow> Some None)"

definition string_exotic_get_own_property ::
  "obj_addr \<Rightarrow> property_key \<Rightarrow> ('x object_world_scheme property_context, property_descriptor option) run" where
  "string_exotic_get_own_property obj key =
     run_bind (ordinary_get_own_property obj key) (\<lambda>desc.
       if desc \<noteq> None then run_return desc
       else run_bind (in_context (object_borrow obj)) (\<lambda>ob. run_unwrap (string_get_own_property ob key)))"

definition get_own_property ::
  "('x object_world_scheme, 'm, 'e) engine_scheme \<Rightarrow> obj_addr \<Rightarrow> property_key \<Rightarrow>
     ('x object_world_scheme property_context, property_descriptor option) run" where
  "get_own_property E obj key =
     run_bind (in_context (object_borrow obj)) (\<lambda>ob.
       case overriding E (ob_vtable ob) ex_get_own_property of
         Some method \<Rightarrow> method obj key
       | None \<Rightarrow>
           if ob_vtable ob = StringMethods then string_exotic_get_own_property obj key
           else ordinary_get_own_property obj key)"

section \<open>\<open>ValidateAndApplyPropertyDescriptor\<close>\<close>

text \<open>
  The validation of \<open>desc\<close> against the current property: an answer, or the current property, of the
  kind that step 9 fills in. \<open>None\<close> is the panic of an absent field.
\<close>

datatype validation = Answer bool | Fill property_descriptor

definition validate_change :: "bool \<Rightarrow> property_descriptor \<Rightarrow> property_descriptor \<Rightarrow> validation panics" where
  "validate_change has_object desc current =
     (if is_empty_descriptor desc then Some (Answer True)
      else do {
        configurable \<leftarrow> pd_configurable current;
        if \<not> configurable \<and> pd_configurable desc = Some True then Some (Answer False)
        else do {
          differs \<leftarrow> (case pd_enumerable desc of
              Some desc_enum \<Rightarrow>
                if configurable then Some False else map_option (\<lambda>e. desc_enum \<noteq> e) (pd_enumerable current)
            | None \<Rightarrow> Some False);
          if differs then Some (Answer False)
          else if is_generic_descriptor desc then Some (Fill current)
          else if is_data_descriptor current \<noteq> is_data_descriptor desc then
            if \<not> configurable then Some (Answer False)
            else if has_object then
              Some (Fill (if is_data_descriptor current then into_accessor_defaulted current
                else into_data_defaulted current))
            else Some (Fill current)
          else if is_data_descriptor current \<and> is_data_descriptor desc then
            do {
              fixed \<leftarrow> (if configurable then Some False else map_option Not (pd_writable current));
              if \<not> fixed then Some (Fill current)
              else if pd_writable desc = Some True then Some (Answer False)
              else (case pd_value desc of
                  None \<Rightarrow> Some (Answer True)
                | Some v \<Rightarrow> map_option (\<lambda>cv. Answer (same_value v cv)) (pd_value current))
            }
          else if \<not> configurable then
            do {
              set_differs \<leftarrow> (case pd_set desc of
                  None \<Rightarrow> Some False
                | Some s \<Rightarrow> map_option (\<lambda>cs. \<not> same_value s cs) (pd_set current));
              if set_differs then Some (Answer False)
              else (case pd_get desc of
                  None \<Rightarrow> Some (Answer True)
                | Some g \<Rightarrow> map_option (\<lambda>cg. Answer (same_value g cg)) (pd_get current))
            }
          else Some (Fill current)
        }
      })"

definition validate_and_apply_property_descriptor ::
  "('w, 'm, 'e) engine_scheme \<Rightarrow> (obj_addr \<times> property_key) option \<Rightarrow> bool \<Rightarrow> property_descriptor \<Rightarrow>
     property_descriptor option \<Rightarrow> ('x object_world_scheme property_context, bool) run" where
  "validate_and_apply_property_descriptor E obj_and_key extensible desc current =
     (case current of
        None \<Rightarrow>
          if \<not> extensible then run_return False
          else (case obj_and_key of
              None \<Rightarrow> run_return True
            | Some (obj, key) \<Rightarrow>
                run_bind (object_insert_with_slot E obj key
                    (if is_generic_descriptor desc \<or> is_data_descriptor desc then into_data_defaulted desc
                     else into_accessor_defaulted desc))
                  (\<lambda>_. run_return True))
      | Some current \<Rightarrow>
          run_bind (run_unwrap (validate_change (obj_and_key \<noteq> None) desc current)) (\<lambda>v.
            case v of
              Answer b \<Rightarrow> run_return b
            | Fill current \<Rightarrow>
                (case obj_and_key of
                   None \<Rightarrow> run_return True
                 | Some (obj, key) \<Rightarrow>
                     run_bind (run_unwrap (fill_with current desc)) (\<lambda>current.
                     run_bind (object_insert_with_slot E obj key current) (\<lambda>_.
                     run_bind (slot_modify (\<lambda>s. s\<lparr>sl_attributes := sl_attributes s OR SLOT_FOUND\<rparr>)) (\<lambda>_.
                       run_return True))))))"

definition is_compatible_property_descriptor ::
  "('x object_world_scheme, 'm, 'e) engine_scheme \<Rightarrow> bool \<Rightarrow> property_descriptor \<Rightarrow> property_descriptor option \<Rightarrow>
     ('x object_world_scheme, bool) run" where
  "is_compatible_property_descriptor E extensible desc current =
     property_context_new (validate_and_apply_property_descriptor E None extensible desc current)"

definition ordinary_define_own_property ::
  "('x object_world_scheme, 'm, 'e) engine_scheme \<Rightarrow> obj_addr \<Rightarrow> property_key \<Rightarrow> property_descriptor \<Rightarrow>
     ('x object_world_scheme property_context, bool) run" where
  "ordinary_define_own_property E obj key desc =
     run_bind (get_own_property E obj key) (\<lambda>current.
     run_bind (in_context (is_extensible E obj)) (\<lambda>extensible.
       validate_and_apply_property_descriptor E (Some (obj, key)) extensible desc current))"

definition string_exotic_define_own_property ::
  "('x object_world_scheme, 'm, 'e) engine_scheme \<Rightarrow> obj_addr \<Rightarrow> property_key \<Rightarrow> property_descriptor \<Rightarrow>
     ('x object_world_scheme property_context, bool) run" where
  "string_exotic_define_own_property E obj key desc =
     run_bind (in_context (object_borrow obj)) (\<lambda>ob.
     run_bind (run_unwrap (string_get_own_property ob key)) (\<lambda>string_desc.
       if string_desc \<noteq> None then
         in_context (is_compatible_property_descriptor E (ob_extensible ob) desc string_desc)
       else ordinary_define_own_property E obj key desc))"

definition ordinary_delete ::
  "('x object_world_scheme, 'm, 'e) engine_scheme \<Rightarrow> obj_addr \<Rightarrow> property_key \<Rightarrow>
     ('x object_world_scheme property_context, bool) run" where
  "ordinary_delete E obj key =
     run_bind (get_own_property E obj key) (\<lambda>desc.
       case desc of
         None \<Rightarrow> run_return True
       | Some desc \<Rightarrow>
           run_bind (run_unwrap (pd_configurable desc)) (\<lambda>configurable.
             if configurable then
               run_bind (in_context (object_remove E obj key)) (\<lambda>_. run_return True)
             else run_return False))"

definition delete_property ::
  "('x object_world_scheme, 'm, 'e) engine_scheme \<Rightarrow> obj_addr \<Rightarrow> property_key \<Rightarrow>
     ('x object_world_scheme property_context, bool) run" where
  "delete_property E obj key =
     run_bind (in_context (object_borrow obj)) (\<lambda>ob.
       case overriding E (ob_vtable ob) ex_delete of
         Some method \<Rightarrow> method obj key
       | None \<Rightarrow> ordinary_delete E obj key)"

text \<open>The indices, in order.\<close>

definition index_property_keys :: "property_map \<Rightarrow> u32 list" where
  "index_property_keys pm = sorted_list_of_set (indexed_key_set (pm_indexed pm))"

section \<open>Arrays\<close>

text \<open>
  The methods of arrays (\<open>builtins/array/mod.rs\<close>). A debug assertion is no code; \<open>js_expect\<close> turns an
  exception into an error of the engine.
\<close>

definition length_string :: js_string where
  "length_string = [108, 101, 110, 103, 116, 104]"

abbreviation length_key :: property_key where
  "length_key \<equiv> PKString length_string"

definition run_expect :: "('w, 'a) run \<Rightarrow> ('w, 'a) run" where
  "run_expect m w = map_option (\<lambda>(r, w). (case r of Inl _ \<Rightarrow> Inl EngineError | Inr a \<Rightarrow> Inr a, w)) (m w)"

definition build_maybe :: "('a \<Rightarrow> property_descriptor \<Rightarrow> property_descriptor) \<Rightarrow> 'a option \<Rightarrow>
    property_descriptor \<Rightarrow> property_descriptor" where
  "build_maybe build field d = (case field of None \<Rightarrow> d | Some v \<Rightarrow> build v d)"

definition length_descriptor :: "u32 \<Rightarrow> property_descriptor \<Rightarrow> property_descriptor" where
  "length_descriptor n desc =
     build_maybe build_configurable (pd_configurable desc) (build_maybe build_enumerable (pd_enumerable desc)
       (build_maybe build_writable (pd_writable desc) (build_value (value_of_u32 n) pd_default)))"

text \<open>The deletion of the elements past the new length, in descending order.\<close>

fun array_delete_loop ::
  "('x object_world_scheme, 'm, 'e) engine_scheme \<Rightarrow> obj_addr \<Rightarrow> bool \<Rightarrow> property_descriptor \<Rightarrow> u32 list \<Rightarrow>
     ('x object_world_scheme property_context, bool) run" where
  "array_delete_loop E obj new_writable new_len_desc [] = run_return True"
| "array_delete_loop E obj new_writable new_len_desc (index # keys) =
     run_bind (delete_property E obj (property_key_of_u32 (en_itoa E) index)) (\<lambda>deleted.
       if \<not> deleted then
         (let new_len_desc = build_value (value_of_u32 (index + 1)) new_len_desc;
              new_len_desc = (if new_writable then new_len_desc else build_writable False new_len_desc) in
          run_bind (run_expect (ordinary_define_own_property E obj length_key new_len_desc)) (\<lambda>_. run_return False))
       else array_delete_loop E obj new_writable new_len_desc keys)"

definition array_shrink ::
  "('x object_world_scheme, 'm, 'e) engine_scheme \<Rightarrow> obj_addr \<Rightarrow> u32 \<Rightarrow> property_descriptor \<Rightarrow>
     ('x object_world_scheme property_context, bool) run" where
  "array_shrink E obj new_len new_len_desc =
     (let new_writable = (case pd_writable new_len_desc of None \<Rightarrow> True | Some b \<Rightarrow> b);
          new_len_desc = (if new_writable then new_len_desc else build_writable True new_len_desc) in
      run_bind (run_expect (ordinary_define_own_property E obj length_key new_len_desc)) (\<lambda>succeeded.
        if \<not> succeeded then run_return False
        else
          run_bind (in_context (object_borrow obj)) (\<lambda>ob.
          run_bind (array_delete_loop E obj new_writable new_len_desc
              (rev (filter (\<lambda>idx. new_len \<le> idx \<and> idx < u32_MAX) (index_property_keys (ob_properties ob))))) (\<lambda>all.
            if \<not> all then run_return False
            else if new_writable then run_return True
            else
              run_bind (run_expect (ordinary_define_own_property E obj length_key (build_writable False pd_default)))
                (\<lambda>_. run_return True)))))"

definition array_set_length ::
  "('x object_world_scheme, 'm, 'e) engine_scheme \<Rightarrow> obj_addr \<Rightarrow> property_descriptor \<Rightarrow>
     ('x object_world_scheme property_context, bool) run" where
  "array_set_length E obj desc =
     (case pd_value desc of
        None \<Rightarrow> ordinary_define_own_property E obj length_key desc
      | Some new_len_val \<Rightarrow>
          run_bind (in_context (to_u32 (en_conversions E) new_len_val)) (\<lambda>new_len.
          run_bind (in_context (to_number (en_conversions E) new_len_val)) (\<lambda>number_len.
            if \<not> f64_eq (f64_of_int (uint new_len)) number_len then run_throw RangeError
            else
              run_bind (ordinary_get_own_property obj length_key) (\<lambda>old_len_desc.
              run_bind (run_unwrap old_len_desc) (\<lambda>old_len_desc.
              run_bind (run_unwrap (pd_value old_len_desc)) (\<lambda>old_len.
              run_bind (in_context (to_u32 (en_conversions E) old_len)) (\<lambda>old_len.
                if old_len \<le> new_len then
                  ordinary_define_own_property E obj length_key (length_descriptor new_len desc)
                else
                  run_bind (run_unwrap (pd_writable old_len_desc)) (\<lambda>writable.
                    if \<not> writable then run_return False
                    else array_shrink E obj new_len (length_descriptor new_len desc)))))))))"

text \<open>An element at \<open>index\<close>: the short way for an array with the shape of the template, and the full one.\<close>

definition array_define_fast ::
  "('x object_world_scheme, 'm, 'e) engine_scheme \<Rightarrow> obj_addr \<Rightarrow> property_key \<Rightarrow> u32 \<Rightarrow> property_descriptor \<Rightarrow>
     ('x object_world_scheme property_context, bool) run" where
  "array_define_fast E obj key new_len desc =
     run_bind (ordinary_define_own_property E obj key desc) (\<lambda>succeeded.
       if succeeded then
         run_bind (in_context (object_store obj 0 (value_of_u32 new_len))) (\<lambda>_. run_return True)
       else run_return False)"

definition array_define_element ::
  "('x object_world_scheme, 'm, 'e) engine_scheme \<Rightarrow> obj_addr \<Rightarrow> property_key \<Rightarrow> u32 \<Rightarrow> property_descriptor \<Rightarrow>
     ('x object_world_scheme property_context, bool) run" where
  "array_define_element E obj key index desc =
     run_bind (ordinary_get_own_property obj length_key) (\<lambda>old_len_desc.
     run_bind (run_unwrap old_len_desc) (\<lambda>old_len_desc.
     run_bind (run_unwrap (pd_value old_len_desc)) (\<lambda>old_len.
     run_bind (run_expect (in_context (to_u32 (en_conversions E) old_len))) (\<lambda>old_len.
     run_bind (if old_len \<le> index then run_unwrap (pd_writable old_len_desc) else run_return True) (\<lambda>writable.
       if \<not> writable then run_return False
       else
         run_bind (ordinary_define_own_property E obj key desc) (\<lambda>succeeded.
           if succeeded then
             run_bind (if old_len \<le> index then
                 run_bind (ordinary_define_own_property E obj length_key (length_descriptor (index + 1) old_len_desc))
                   (\<lambda>_. run_return ())
               else run_return ()) (\<lambda>_. run_return True)
           else run_return False))))))"

definition array_exotic_define_own_property ::
  "('x object_world_scheme, 'm, 'e) engine_scheme \<Rightarrow> obj_addr \<Rightarrow> property_key \<Rightarrow> property_descriptor \<Rightarrow>
     ('x object_world_scheme property_context, bool) run" where
  "array_exotic_define_own_property E obj key desc =
     (case key of
        PKString s \<Rightarrow>
          if s = length_string then array_set_length E obj desc else ordinary_define_own_property E obj key desc
      | PKIndex index \<Rightarrow>
          let new_len = index + 1 in
          run_bind (in_context (object_borrow obj)) (\<lambda>ob.
            if uint new_len < 2 ^ 32 - 1 \<and> object_shape ob = en_array_shape E then
              run_bind (in_context (object_load obj 0)) (\<lambda>old_len.
              run_bind (in_context (to_u32 (en_conversions E) old_len)) (\<lambda>old_len.
                if old_len \<le> new_len then array_define_fast E obj key new_len desc
                else array_define_element E obj key index desc))
            else array_define_element E obj key index desc)
      | PKSymbol _ \<Rightarrow> ordinary_define_own_property E obj key desc)"

section \<open>Defining and keys\<close>

definition define_own_property ::
  "('x object_world_scheme, 'm, 'e) engine_scheme \<Rightarrow> obj_addr \<Rightarrow> property_key \<Rightarrow> property_descriptor \<Rightarrow>
     ('x object_world_scheme property_context, bool) run" where
  "define_own_property E obj key desc =
     run_bind (in_context (object_borrow obj)) (\<lambda>ob.
       case overriding E (ob_vtable ob) ex_define_own_property of
         Some method \<Rightarrow> method obj key desc
       | None \<Rightarrow>
           if ob_vtable ob = StringMethods then string_exotic_define_own_property E obj key desc
           else if ob_vtable ob = ArrayMethods then array_exotic_define_own_property E obj key desc
           else ordinary_define_own_property E obj key desc)"

text \<open>The own keys: indices in order, then strings and symbols in order of creation.\<close>

definition ordinary_own_property_keys ::
  "('w, 'm, 'e) engine_scheme \<Rightarrow> obj_addr \<Rightarrow> ('x object_world_scheme, property_key list) run" where
  "ordinary_own_property_keys E obj =
     run_bind (object_borrow obj) (\<lambda>ob.
     run_bind (with_shapes (\<lambda>h. shape_keys h (object_shape ob))) (\<lambda>keys.
       run_return (map (property_key_of_u32 (en_itoa E)) (index_property_keys (ob_properties ob)) @ keys)))"

definition string_exotic_own_property_keys ::
  "('w, 'm, 'e) engine_scheme \<Rightarrow> obj_addr \<Rightarrow> ('x object_world_scheme, property_key list) run" where
  "string_exotic_own_property_keys E obj =
     run_bind (object_borrow obj) (\<lambda>ob.
       case ob_data ob of
         OtherData _ \<Rightarrow> run_throw EngineError
       | StringData string \<Rightarrow>
           run_bind (with_shapes (\<lambda>h. shape_keys h (object_shape ob))) (\<lambda>keys.
             run_return
               (map (\<lambda>i. property_key_of_int (en_itoa E) (int i)) [0 ..< length string] @
                map (property_key_of_u32 (en_itoa E))
                  (filter (\<lambda>i. length string \<le> unat i) (index_property_keys (ob_properties ob))) @
                keys)))"

definition own_property_keys ::
  "('x object_world_scheme, 'm, 'e) engine_scheme \<Rightarrow> obj_addr \<Rightarrow> ('x object_world_scheme, property_key list) run" where
  "own_property_keys E obj =
     run_bind (object_borrow obj) (\<lambda>ob.
       case overriding E (ob_vtable ob) ex_own_property_keys of
         Some method \<Rightarrow> method obj
       | None \<Rightarrow>
           if ob_vtable ob = StringMethods then string_exotic_own_property_keys E obj
           else ordinary_own_property_keys E obj)"

section \<open>Along the prototype chain\<close>

text \<open>What every step up the chain does to the slot.\<close>

definition mark_prototype :: "('w property_context, unit) run" where
  "mark_prototype =
     slot_modify (\<lambda>s. let s = set_not_cacheable_if_already_prototype s in
       s\<lparr>sl_attributes := sl_attributes s OR SLOT_PROTOTYPE\<rparr>)"

text \<open>\<open>JsValue::call\<close>\<close>

definition value_call ::
  "('w, 'm, 'e) engine_scheme \<Rightarrow> js_value \<Rightarrow> js_value \<Rightarrow> js_value list \<Rightarrow> ('w, js_value) run" where
  "value_call E f this args = (case f of VObject o' \<Rightarrow> en_call E o' this args | _ \<Rightarrow> run_throw TypeError)"

partial_function (option) has_property ::
  "('x object_world_scheme, 'm, 'e) engine_scheme \<Rightarrow> obj_addr \<Rightarrow> property_key \<Rightarrow>
     ('x object_world_scheme property_context, bool) run" where
  "has_property E obj key c =
     run_bind (in_context (object_borrow obj)) (\<lambda>ob c.
       case overriding E (ob_vtable ob) ex_has_property of
         Some method \<Rightarrow> method obj key c
       | None \<Rightarrow>
           run_bind (get_own_property E obj key) (\<lambda>desc c.
             if desc \<noteq> None then run_return True c
             else
               run_bind (in_context (get_prototype_of E obj)) (\<lambda>parent c.
               run_bind mark_prototype (\<lambda>_ c.
                 case parent of
                   None \<Rightarrow> run_return False c
                 | Some parent \<Rightarrow> has_property E parent key c) c) c) c) c"

text \<open>What reading an existing property gives: its value, or the result of its getter.\<close>

definition read_descriptor ::
  "('w, 'm, 'e) engine_scheme \<Rightarrow> property_descriptor \<Rightarrow> js_value \<Rightarrow> ('w property_context, js_value) run" where
  "read_descriptor E desc receiver =
     (case pd_kind desc of
        Data (Some value) _ \<Rightarrow> run_return value
      | Accessor (Some g) _ \<Rightarrow>
          if g \<noteq> VUndefined then in_context (value_call E g receiver []) else run_return VUndefined
      | _ \<Rightarrow> run_return VUndefined)"

partial_function (option) get ::
  "('x object_world_scheme, 'm, 'e) engine_scheme \<Rightarrow> obj_addr \<Rightarrow> property_key \<Rightarrow> js_value \<Rightarrow>
     ('x object_world_scheme property_context, js_value) run" where
  "get E obj key receiver c =
     run_bind (in_context (object_borrow obj)) (\<lambda>ob c.
       case overriding E (ob_vtable ob) ex_get of
         Some method \<Rightarrow> method obj key receiver c
       | None \<Rightarrow>
           run_bind (get_own_property E obj key) (\<lambda>desc c.
             case desc of
               None \<Rightarrow>
                 run_bind (in_context (get_prototype_of E obj)) (\<lambda>parent c.
                   case parent of
                     Some parent \<Rightarrow> run_bind mark_prototype (\<lambda>_ c. get E parent key receiver c) c
                   | None \<Rightarrow> run_return VUndefined c) c
             | Some desc \<Rightarrow> read_descriptor E desc receiver c) c) c"

partial_function (option) try_get ::
  "('x object_world_scheme, 'm, 'e) engine_scheme \<Rightarrow> obj_addr \<Rightarrow> property_key \<Rightarrow> js_value \<Rightarrow>
     ('x object_world_scheme property_context, js_value option) run" where
  "try_get E obj key receiver c =
     run_bind (in_context (object_borrow obj)) (\<lambda>ob c.
       case overriding E (ob_vtable ob) ex_try_get of
         Some method \<Rightarrow> method obj key receiver c
       | None \<Rightarrow>
           run_bind (get_own_property E obj key) (\<lambda>desc c.
             case desc of
               None \<Rightarrow>
                 run_bind (in_context (get_prototype_of E obj)) (\<lambda>parent c.
                   case parent of
                     Some parent \<Rightarrow> run_bind mark_prototype (\<lambda>_ c. try_get E parent key receiver c) c
                   | None \<Rightarrow> run_return None c) c
             | Some desc \<Rightarrow> run_bind (read_descriptor E desc receiver) (\<lambda>v. run_return (Some v)) c) c) c"

text \<open>\<open>create_data_property_with_slot\<close> of \<open>object/operations.rs\<close>\<close>

definition create_data_property_with_slot ::
  "('x object_world_scheme, 'm, 'e) engine_scheme \<Rightarrow> obj_addr \<Rightarrow> property_key \<Rightarrow> js_value \<Rightarrow>
     ('x object_world_scheme property_context, bool) run" where
  "create_data_property_with_slot E obj key value =
     define_own_property E obj key
       (build_configurable True (build_enumerable True (build_writable True (build_value value pd_default))))"

text \<open>
  \<open>OrdinarySetWithOwnDescriptor\<close> from step 3 on: \<open>own_desc\<close> is the property found or the default,
  \<open>has_own_desc\<close> whether it was found on \<open>obj\<close> itself.
\<close>

definition ordinary_set_data ::
  "('x object_world_scheme, 'm, 'e) engine_scheme \<Rightarrow> obj_addr \<Rightarrow> property_key \<Rightarrow> js_value \<Rightarrow> js_value \<Rightarrow>
     bool \<Rightarrow> property_descriptor \<Rightarrow> ('x object_world_scheme property_context, bool) run" where
  "ordinary_set_data E obj key value receiver has_own_desc own_desc =
     run_bind (run_unwrap (pd_writable own_desc)) (\<lambda>writable.
       if \<not> writable then run_return False
       else (case receiver of
           VObject receiver \<Rightarrow>
             let obj_is_receiver = (obj = receiver) in
             run_bind (slot_modify (\<lambda>s.
                 s\<lparr>sl_attributes := flags_set (sl_attributes s) SLOT_NOT_CACHEABLE (\<not> obj_is_receiver)\<rparr>)) (\<lambda>_.
             run_bind (if has_own_desc \<and> obj_is_receiver then run_return (Some own_desc)
                 else get_own_property E receiver key) (\<lambda>existing_descriptor.
               case existing_descriptor of
                 Some existing_desc \<Rightarrow>
                   if is_accessor_descriptor existing_desc then run_return False
                   else
                     run_bind (run_unwrap (pd_writable existing_desc)) (\<lambda>writable.
                       if \<not> writable then run_return False
                       else define_own_property E receiver key (build_value value pd_default))
               | None \<Rightarrow> create_data_property_with_slot E receiver key value))
         | _ \<Rightarrow> run_return False))"

definition ordinary_set_accessor ::
  "('w, 'm, 'e) engine_scheme \<Rightarrow> js_value \<Rightarrow> js_value \<Rightarrow> property_descriptor \<Rightarrow> ('w property_context, bool) run" where
  "ordinary_set_accessor E value receiver own_desc =
     (case pd_set own_desc of
        Some s \<Rightarrow>
          if s \<noteq> VUndefined then
            run_bind (in_context (value_call E s receiver [value])) (\<lambda>_. run_return True)
          else run_return False
      | None \<Rightarrow> run_return False)"

definition ordinary_set_with_own_descriptor ::
  "('x object_world_scheme, 'm, 'e) engine_scheme \<Rightarrow> obj_addr \<Rightarrow> property_key \<Rightarrow> js_value \<Rightarrow> js_value \<Rightarrow>
     bool \<Rightarrow> property_descriptor \<Rightarrow> ('x object_world_scheme property_context, bool) run" where
  "ordinary_set_with_own_descriptor E obj key value receiver has_own_desc own_desc =
     (if is_data_descriptor own_desc then ordinary_set_data E obj key value receiver has_own_desc own_desc
      else ordinary_set_accessor E value receiver own_desc)"

partial_function (option) set_property ::
  "('x object_world_scheme, 'm, 'e) engine_scheme \<Rightarrow> obj_addr \<Rightarrow> property_key \<Rightarrow> js_value \<Rightarrow> js_value \<Rightarrow>
     ('x object_world_scheme property_context, bool) run" where
  "set_property E obj key value receiver c =
     run_bind (in_context (object_borrow obj)) (\<lambda>ob c.
       case overriding E (ob_vtable ob) ex_set of
         Some method \<Rightarrow> method obj key value receiver c
       | None \<Rightarrow>
           run_bind (get_own_property E obj key) (\<lambda>desc c.
             case desc of
               Some own_desc \<Rightarrow> ordinary_set_with_own_descriptor E obj key value receiver True own_desc c
             | None \<Rightarrow>
                 run_bind (in_context (get_prototype_of E obj)) (\<lambda>parent c.
                   case parent of
                     Some parent \<Rightarrow>
                       run_bind mark_prototype (\<lambda>_ c. set_property E parent key value receiver c) c
                   | None \<Rightarrow>
                       run_bind (slot_modify (\<lambda>s.
                           s\<lparr>sl_attributes := sl_attributes s AND NOT (SLOT_PROTOTYPE OR SLOT_NOT_CACHEABLE)\<rparr>))
                         (\<lambda>_ c. ordinary_set_with_own_descriptor E obj key value receiver False
                            (build_configurable True (build_enumerable True
                               (build_writable True (build_value VUndefined pd_default)))) c) c) c) c) c"

end
