(* ===== verification/InlineCache.thy ===== *)
theory InlineCache
  imports InternalMethods
begin

text \<open>
  Inline caches and the opcodes that use them (\<open>vm/inline_cache/mod.rs\<close>, \<open>vm/opcode/get/property.rs\<close>,
  \<open>vm/opcode/set/property.rs\<close>). The address of the cached shape is the shape, since the model reuses no
  address; its weak reference can be upgraded until the shape is collected. The world has the caches
  of the code that runs. An opcode is given the contents of its registers and gives back what it puts
  into the destination.
\<close>

section \<open>Caches\<close>

definition PIC_CAPACITY :: nat where
  "PIC_CAPACITY = 4"

datatype indexed_kind = KindDenseI32 | KindDenseF64 | KindDenseElement | KindSparseData

record element_ic_entry =
  ei_shape :: shape
  ei_indexed_kind :: indexed_kind

type_synonym element_ic = "element_ic_entry option"

record cache_entry =
  ce_shape :: shape
  ce_prototype_shape :: "shape option"
  ce_slot :: slot

record inline_cache =
  ic_name :: js_string
  ic_entries :: "cache_entry list"
  ic_megamorphic :: bool

record vm_world = object_world +
  vw_ic :: "inline_cache list"
  vw_element_ic :: "element_ic list"
  vw_strict :: bool

fun shape_upgradable :: "shape_heap \<Rightarrow> shape \<Rightarrow> bool" where
  "shape_upgradable h (Unique a) = is_upgradable h a"
| "shape_upgradable h (Shared a) = is_upgradable h a"

definition element_ic_matches :: "shape_heap \<Rightarrow> element_ic \<Rightarrow> shape \<Rightarrow> indexed_kind option" where
  "element_ic_matches h self shape =
     (case self of
        None \<Rightarrow> None
      | Some entry \<Rightarrow>
          if ei_shape entry = shape \<and> shape_upgradable h (ei_shape entry) then Some (ei_indexed_kind entry) else None)"

definition element_ic_seed :: "shape \<Rightarrow> indexed_kind \<Rightarrow> element_ic" where
  "element_ic_seed shape kind = Some \<lparr>ei_shape = shape, ei_indexed_kind = kind\<rparr>"

text \<open>The prototype of a shape is borrowed: an address without an object is a panic.\<close>

definition prototype_object :: "'x object_world_scheme \<Rightarrow> shape \<Rightarrow> js_object option panics" where
  "prototype_object w shape =
     Option.bind (shape_prototype (ow_shapes w) shape)
       (\<lambda>p. case p of None \<Rightarrow> Some None | Some prototype \<Rightarrow> map_option Some (ow_objects w prototype))"

definition cache_entry_matches :: "'x object_world_scheme \<Rightarrow> cache_entry \<Rightarrow> shape \<Rightarrow> bool panics" where
  "cache_entry_matches w self shape =
     (if ce_shape self \<noteq> shape \<or> \<not> shape_upgradable (ow_shapes w) (ce_shape self) then Some False
      else
        (case ce_prototype_shape self of
           None \<Rightarrow> Some True
         | Some expected \<Rightarrow>
             map_option
               (\<lambda>p. case p of
                  None \<Rightarrow> False
                | Some prototype \<Rightarrow> expected = object_shape prototype \<and> shape_upgradable (ow_shapes w) expected)
               (prototype_object w shape)))"

definition ic_set :: "'x object_world_scheme \<Rightarrow> inline_cache \<Rightarrow> shape \<Rightarrow> slot \<Rightarrow> inline_cache panics" where
  "ic_set w self shape slot =
     (if ic_megamorphic self then Some self
      else
        let entries = filter (\<lambda>entry. shape_upgradable (ow_shapes w) (ce_shape entry)) (ic_entries self);
            self = self\<lparr>ic_entries := entries\<rparr>;
            push = (\<lambda>prototype_shape.
              if length entries < PIC_CAPACITY then
                self\<lparr>ic_entries := entries @ [\<lparr>ce_shape = shape, ce_prototype_shape = prototype_shape, ce_slot = slot\<rparr>]\<rparr>
              else self\<lparr>ic_megamorphic := True, ic_entries := []\<rparr>) in
        if flags_contains (sl_attributes slot) SLOT_PROTOTYPE then
          map_option
            (\<lambda>p. case p of None \<Rightarrow> self | Some prototype \<Rightarrow> push (Some (object_shape prototype)))
            (prototype_object w shape)
        else Some (push None))"

fun ic_find :: "'x object_world_scheme \<Rightarrow> cache_entry list \<Rightarrow> shape \<Rightarrow> slot option panics" where
  "ic_find w [] shape = Some None"
| "ic_find w (entry # entries) shape =
     Option.bind (cache_entry_matches w entry shape)
       (\<lambda>m. if m then Some (Some (ce_slot entry)) else ic_find w entries shape)"

definition ic_get :: "'x object_world_scheme \<Rightarrow> inline_cache \<Rightarrow> shape \<Rightarrow> slot option panics" where
  "ic_get w self shape = (if ic_megamorphic self then Some None else ic_find w (ic_entries self) shape)"

text \<open>The caches of the code that runs; an index past them is a panic.\<close>

definition vm_ic :: "nat \<Rightarrow> ('x vm_world_scheme, inline_cache) run" where
  "vm_ic i w = run_unwrap (vec_get (vw_ic w) i) w"

definition vm_ic_lookup :: "nat \<Rightarrow> shape \<Rightarrow> ('x vm_world_scheme, slot option) run" where
  "vm_ic_lookup i shape = run_bind (vm_ic i) (\<lambda>ic w. run_unwrap (ic_get w ic shape) w)"

definition vm_ic_set :: "nat \<Rightarrow> shape \<Rightarrow> slot \<Rightarrow> ('x vm_world_scheme, unit) run" where
  "vm_ic_set i shape slot =
     run_bind (vm_ic i) (\<lambda>ic w.
       run_bind (run_unwrap (ic_set w ic shape slot)) (\<lambda>ic.
         run_modify (\<lambda>w. w\<lparr>vw_ic := (vw_ic w)[i := ic]\<rparr>)) w)"

section \<open>Base and box of a value\<close>

text \<open>
  What the opcodes are given besides: for each type of primitives the prototype, the shape of the
  template and the data of its boxes, the addresses of new objects, and the formatting of numbers and bigints.
\<close>

record primitive_intrinsics =
  pi_prototype :: obj_addr
  pi_template :: shape

record ('w, 'm) vm_engine = "('w, 'm) engine" +
  ve_boolean :: primitive_intrinsics
  ve_number :: primitive_intrinsics
  ve_string :: primitive_intrinsics
  ve_symbol :: primitive_intrinsics
  ve_bigint :: primitive_intrinsics
  ve_data :: "js_value \<Rightarrow> object_data"
  ve_allocate :: "'w \<Rightarrow> obj_addr"
  ve_number_to_string :: "f64 \<Rightarrow> js_string"
  ve_bigint_to_string :: "int \<Rightarrow> js_string"

definition primitive_kind :: "('w, 'm, 'e) vm_engine_scheme \<Rightarrow> js_value \<Rightarrow> primitive_intrinsics option" where
  "primitive_kind E v =
     (case v of
        VBoolean _ \<Rightarrow> Some (ve_boolean E)
      | VInteger32 _ \<Rightarrow> Some (ve_number E)
      | VFloat64 _ \<Rightarrow> Some (ve_number E)
      | VString _ \<Rightarrow> Some (ve_string E)
      | VSymbol _ \<Rightarrow> Some (ve_symbol E)
      | VBigInt _ \<Rightarrow> Some (ve_bigint E)
      | _ \<Rightarrow> None)"

definition base_class :: "('w, 'm, 'e) vm_engine_scheme \<Rightarrow> js_value \<Rightarrow> ('w, obj_addr) run" where
  "base_class E v =
     (case v of
        VObject o' \<Rightarrow> run_return o'
      | _ \<Rightarrow> (case primitive_kind E v of None \<Rightarrow> run_throw TypeError | Some k \<Rightarrow> run_return (pi_prototype k)))"

text \<open>\<open>JsValue::from\<close> of a \<open>usize\<close>\<close>

definition value_of_usize :: "nat \<Rightarrow> js_value" where
  "value_of_usize n = (if n < 2 ^ 31 then VInteger32 (word_of_nat n) else VFloat64 (f64_of_int (int n)))"

text \<open>\<open>ObjectTemplate::create\<close>\<close>

definition template_create ::
  "('x object_world_scheme, 'm, 'e) vm_engine_scheme \<Rightarrow> shape \<Rightarrow> object_data \<Rightarrow> vtable \<Rightarrow> js_value list \<Rightarrow>
     ('x object_world_scheme, obj_addr) run" where
  "template_create E shape data internal_methods storage w =
     (let a = ve_allocate E w;
          ob = \<lparr>ob_properties = (property_map_new shape indexed_default)\<lparr>pm_storage := storage\<rparr>, ob_extensible = True,
            ob_private_elements = [], ob_data = data, ob_vtable = internal_methods\<rparr> in
      run_bind (object_write a ob) (\<lambda>_. run_return a) w)"

definition to_object ::
  "('x object_world_scheme, 'm, 'e) vm_engine_scheme \<Rightarrow> js_value \<Rightarrow> ('x object_world_scheme, obj_addr) run" where
  "to_object E v =
     (case v of
        VObject o' \<Rightarrow> run_return o'
      | VString s \<Rightarrow>
          template_create E (pi_template (ve_string E)) (StringData s) StringMethods [value_of_usize (length s)]
      | _ \<Rightarrow>
          (case primitive_kind E v of
             None \<Rightarrow> run_throw TypeError
           | Some k \<Rightarrow> template_create E (pi_template k) (ve_data E v) OrdinaryMethods []))"

section \<open>Reading by name\<close>

text \<open>The object that a cached slot is in, and the element of its storage.\<close>

definition cached_holder :: "obj_addr \<Rightarrow> js_object \<Rightarrow> slot \<Rightarrow> ('x object_world_scheme, obj_addr option) run" where
  "cached_holder obj ob slot =
     (if flags_contains (sl_attributes slot) SLOT_PROTOTYPE
      then with_shapes (\<lambda>h. shape_prototype h (object_shape ob))
      else run_return (Some obj))"

definition try_ic_read_no_getter :: "js_value \<Rightarrow> nat \<Rightarrow> ('x vm_world_scheme, js_value option) run" where
  "try_ic_read_no_getter source ic_index =
     (case source of
        VObject obj \<Rightarrow>
          run_bind (object_borrow obj) (\<lambda>ob.
          run_bind (vm_ic_lookup ic_index (object_shape ob)) (\<lambda>found.
            case found of
              None \<Rightarrow> run_return None
            | Some slot \<Rightarrow>
                if has_get (sl_attributes slot) then run_return None
                else
                  run_bind (cached_holder obj ob slot) (\<lambda>holder.
                    case holder of
                      None \<Rightarrow> run_return None
                    | Some holder \<Rightarrow>
                        run_bind (object_load holder (unat (sl_index slot))) (\<lambda>result. run_return (Some result)))))
      | _ \<Rightarrow> run_return None)"

definition is_array :: "obj_addr \<Rightarrow> ('x object_world_scheme, bool) run" where
  "is_array obj = run_bind (object_borrow obj) (\<lambda>ob. run_return (ob_vtable ob = ArrayMethods))"

text \<open>The hit: the value in the slot, or what its getter gives.\<close>

definition get_by_name_hit ::
  "('x vm_world_scheme, 'm, 'e) vm_engine_scheme \<Rightarrow> obj_addr \<Rightarrow> js_object \<Rightarrow> slot \<Rightarrow> js_value \<Rightarrow>
     ('x vm_world_scheme, js_value) run" where
  "get_by_name_hit E obj ob slot receiver =
     run_bind (cached_holder obj ob slot) (\<lambda>holder.
     run_bind (run_unwrap holder) (\<lambda>holder.
     run_bind (object_load holder (unat (sl_index slot))) (\<lambda>result.
       case result of
         VObject getter \<Rightarrow> if has_get (sl_attributes slot) then en_call E getter receiver [] else run_return result
       | _ \<Rightarrow> run_return result)))"

text \<open>The miss: \<open>[[Get]]\<close>, and the cache is given the shape at lookup when the slot can be cached.\<close>

definition get_by_name_miss ::
  "('x vm_world_scheme, 'm, 'e) vm_engine_scheme \<Rightarrow> js_value \<Rightarrow> js_value \<Rightarrow> nat \<Rightarrow> ('x vm_world_scheme, js_value) run" where
  "get_by_name_miss E source receiver index =
     run_bind (base_class E source) (\<lambda>object.
     run_bind (vm_ic index) (\<lambda>ic.
     run_bind (if ic_megamorphic ic then run_return None
         else run_bind (object_borrow object) (\<lambda>ob. run_return (Some (object_shape ob)))) (\<lambda>lookup_shape.
       property_context_new (
         run_bind (get E object (property_key_of_string (ic_name ic)) receiver) (\<lambda>result.
         run_bind (run_gets snd) (\<lambda>slot.
           case lookup_shape of
             None \<Rightarrow> run_return result
           | Some shape \<Rightarrow>
               if slot_is_cacheable slot
               then run_bind (in_context (vm_ic_set index shape slot)) (\<lambda>_. run_return result)
               else run_return result))))))"

definition get_by_name ::
  "('x vm_world_scheme, 'm, 'e) vm_engine_scheme \<Rightarrow> bool \<Rightarrow> js_value \<Rightarrow> js_value \<Rightarrow> nat \<Rightarrow>
     ('x vm_world_scheme, js_value) run" where
  "get_by_name E of_length source receiver index =
     (let by_cache = (\<lambda>obj.
          run_bind (object_borrow obj) (\<lambda>ob.
          run_bind (vm_ic_lookup index (object_shape ob)) (\<lambda>found.
            case found of
              Some slot \<Rightarrow> get_by_name_hit E obj ob slot receiver
            | None \<Rightarrow> get_by_name_miss E source receiver index))) in
      case source of
        VObject obj \<Rightarrow>
          if of_length then
            run_bind (is_array obj) (\<lambda>array. if array then object_load obj 0 else by_cache obj)
          else by_cache obj
      | VString string \<Rightarrow>
          if of_length then run_return (value_of_u32 (word_of_nat (length string)))
          else get_by_name_miss E source receiver index
      | _ \<Rightarrow> get_by_name_miss E source receiver index)"

text \<open>The opcodes: a read without a getter first, then everything.\<close>

definition read_by_name_op ::
  "('x vm_world_scheme, 'm, 'e) vm_engine_scheme \<Rightarrow> bool \<Rightarrow> js_value \<Rightarrow> js_value \<Rightarrow> nat \<Rightarrow>
     ('x vm_world_scheme, js_value) run" where
  "read_by_name_op E of_length receiver object index =
     run_bind (try_ic_read_no_getter object index) (\<lambda>result.
       case result of Some result \<Rightarrow> run_return result | None \<Rightarrow> get_by_name E of_length object receiver index)"

definition get_length_property ::
  "('x vm_world_scheme, 'm, 'e) vm_engine_scheme \<Rightarrow> js_value \<Rightarrow> nat \<Rightarrow> ('x vm_world_scheme, js_value) run" where
  "get_length_property E object index = read_by_name_op E True object object index"

definition get_property_by_name ::
  "('x vm_world_scheme, 'm, 'e) vm_engine_scheme \<Rightarrow> js_value \<Rightarrow> nat \<Rightarrow> ('x vm_world_scheme, js_value) run" where
  "get_property_by_name E object index = read_by_name_op E False object object index"

definition get_property_by_name_with_this ::
  "('x vm_world_scheme, 'm, 'e) vm_engine_scheme \<Rightarrow> js_value \<Rightarrow> js_value \<Rightarrow> nat \<Rightarrow> ('x vm_world_scheme, js_value) run" where
  "get_property_by_name_with_this E receiver value index = read_by_name_op E False receiver value index"

section \<open>Writing by name\<close>

definition try_ic_write_no_setter :: "js_value \<Rightarrow> js_value \<Rightarrow> nat \<Rightarrow> ('x vm_world_scheme, bool) run" where
  "try_ic_write_no_setter target value ic_index =
     (case target of
        VObject obj \<Rightarrow>
          run_bind (object_borrow obj) (\<lambda>ob.
          run_bind (vm_ic_lookup ic_index (object_shape ob)) (\<lambda>found.
            case found of
              None \<Rightarrow> run_return False
            | Some slot \<Rightarrow>
                if is_accessor_attributes (sl_attributes slot) then run_return False
                else
                  run_bind (cached_holder obj ob slot) (\<lambda>holder.
                    case holder of
                      None \<Rightarrow> run_return False
                    | Some holder \<Rightarrow>
                        run_bind (object_store holder (unat (sl_index slot)) value) (\<lambda>_. run_return True))))
      | _ \<Rightarrow> run_return False)"

text \<open>The hit, on an object: the value is stored, or given to the setter.\<close>

definition set_by_name_hit ::
  "('x vm_world_scheme, 'm, 'e) vm_engine_scheme \<Rightarrow> obj_addr \<Rightarrow> js_object \<Rightarrow> slot \<Rightarrow> js_value \<Rightarrow> js_value \<Rightarrow>
     ('x vm_world_scheme, unit) run" where
  "set_by_name_hit E obj ob slot value receiver =
     run_bind (cached_holder obj ob slot) (\<lambda>holder.
     run_bind (run_unwrap holder) (\<lambda>holder.
       if is_accessor_attributes (sl_attributes slot) then
         run_bind (object_load holder (unat (sl_index slot) + 1)) (\<lambda>result.
           case result of
             VObject setter \<Rightarrow>
               if has_set (sl_attributes slot)
               then run_bind (en_call E setter receiver [value]) (\<lambda>_. run_return ())
               else run_return ()
           | _ \<Rightarrow> run_return ())
       else object_store holder (unat (sl_index slot)) value))"

definition set_by_name_miss ::
  "('x vm_world_scheme, 'm, 'e) vm_engine_scheme \<Rightarrow> obj_addr \<Rightarrow> js_value \<Rightarrow> js_value \<Rightarrow> nat \<Rightarrow>
     ('x vm_world_scheme, unit) run" where
  "set_by_name_miss E object value receiver index =
     run_bind (vm_ic index) (\<lambda>ic.
       property_context_new (
         run_bind (set_property E object (property_key_of_string (ic_name ic)) value receiver) (\<lambda>succeeded.
         run_bind (in_context (run_gets vw_strict)) (\<lambda>strict.
           if \<not> succeeded \<and> strict then run_throw TypeError
           else
             run_bind (run_gets snd) (\<lambda>slot.
               if succeeded \<and> slot_is_cacheable slot then
                 run_bind (in_context (object_borrow object)) (\<lambda>ob.
                   in_context (vm_ic_set index (object_shape ob) slot))
               else run_return ())))))"

definition set_by_name ::
  "('x vm_world_scheme, 'm, 'e) vm_engine_scheme \<Rightarrow> js_value \<Rightarrow> js_value \<Rightarrow> js_value \<Rightarrow> nat \<Rightarrow>
     ('x vm_world_scheme, unit) run" where
  "set_by_name E value value_object receiver index =
     run_bind (to_object E value_object) (\<lambda>object.
     run_bind (object_borrow object) (\<lambda>ob.
     run_bind (vm_ic_lookup index (object_shape ob)) (\<lambda>found.
       case found of
         Some slot \<Rightarrow> set_by_name_hit E object ob slot value receiver
       | None \<Rightarrow> set_by_name_miss E object value receiver index)))"

definition write_by_name_op ::
  "('x vm_world_scheme, 'm, 'e) vm_engine_scheme \<Rightarrow> js_value \<Rightarrow> js_value \<Rightarrow> js_value \<Rightarrow> nat \<Rightarrow>
     ('x vm_world_scheme, unit) run" where
  "write_by_name_op E value receiver object index =
     run_bind (try_ic_write_no_setter object value index) (\<lambda>written.
       if written then run_return () else set_by_name E value object receiver index)"

definition set_property_by_name ::
  "('x vm_world_scheme, 'm, 'e) vm_engine_scheme \<Rightarrow> js_value \<Rightarrow> js_value \<Rightarrow> nat \<Rightarrow> ('x vm_world_scheme, unit) run" where
  "set_property_by_name E value object index = write_by_name_op E value object object index"

definition set_property_by_name_with_this ::
  "('x vm_world_scheme, 'm, 'e) vm_engine_scheme \<Rightarrow> js_value \<Rightarrow> js_value \<Rightarrow> js_value \<Rightarrow> nat \<Rightarrow>
     ('x vm_world_scheme, unit) run" where
  "set_property_by_name_with_this E value receiver object index = write_by_name_op E value receiver object index"

end
