(* ===== verification/PropertyMapFacts.thy ===== *)
theory PropertyMapFacts
  imports PropertyMap "HOL-Library.AList"
begin

text \<open>
  The storage of a property map is the concatenation of the values of its properties, in the order
  of its shape. \<open>contents\<close> cuts it up again; on it an insertion appends or replaces one element, a
  removal drops one, and reading is reading the element. The shape and the vector are changed by
  different code, so that they fit is the invariant \<open>pm_wf\<close>.
\<close>

section \<open>The layout of the storage\<close>

fun contents :: "(property_key \<times> nat) list \<Rightarrow> js_value list \<Rightarrow> (property_key \<times> js_value list) list" where
  "contents [] st = []"
| "contents ((k, w) # kws) st = (k, take w st) # contents kws (drop w st)"

abbreviation layout_size :: "(property_key \<times> nat) list \<Rightarrow> nat" where
  "layout_size kws \<equiv> sum_list (map snd kws)"

lemma contents_append:
  "length s1 = layout_size pre \<Longrightarrow> contents (pre @ post) (s1 @ s2) = contents pre s1 @ contents post s2"
proof (induction pre arbitrary: s1)
  case (Cons kw pre)
  obtain k w where kw: "kw = (k, w)" by fastforce
  have "length (drop w s1) = layout_size pre" "w \<le> length s1" using Cons.prems kw by simp_all
  with Cons.IH [of "drop w s1"] show ?case by (simp add: kw)
qed simp

lemma contents_keys [simp]: "map fst (contents kws st) = map fst kws"
  by (induction kws st rule: contents.induct) auto

lemma length_contents [simp]: "length (contents kws st) = length kws"
  by (induction kws st rule: contents.induct) auto

lemma contents_single [simp]: "length vs = w \<Longrightarrow> contents [(k, w)] vs = [(k, vs)]"
  by simp

lemma contents_Cons: "length vs = snd kw \<Longrightarrow> contents (kw # kws) (vs @ st) = (fst kw, vs) # contents kws st"
  by (cases kw) simp

lemma contents_middle:
  assumes "i < length kws" "length s1 = layout_size (take i kws)" "length vs = snd (kws ! i)"
  shows "contents kws (s1 @ vs @ s2) =
    contents (take i kws) s1 @ (fst (kws ! i), vs) # contents (drop (Suc i) kws) s2"
proof -
  have "contents (take i kws @ kws ! i # drop (Suc i) kws) (s1 @ vs @ s2) =
      contents (take i kws) s1 @ contents (kws ! i # drop (Suc i) kws) (vs @ s2)"
    by (rule contents_append [OF assms(2)])
  then show ?thesis
    using id_take_nth_drop [OF assms(1)] contents_Cons [OF assms(3)] by simp
qed

text \<open>A storage that fits, cut at one property.\<close>

lemma layout_size_split:
  "i < length kws \<Longrightarrow> layout_size kws = layout_size (take i kws) + snd (kws ! i) + layout_size (drop (Suc i) kws)"
  by (subst id_take_nth_drop, assumption) simp

lemma storage_cut:
  assumes "i < length kws" "length st = layout_size kws"
  obtains s1 vs s2 where "st = s1 @ vs @ s2" "length s1 = layout_size (take i kws)"
    "length vs = snd (kws ! i)" "snd (contents kws st ! i) = vs"
proof -
  let ?a = "layout_size (take i kws)" and ?w = "snd (kws ! i)"
  define s1 vs s2 where "s1 = take ?a st" and "vs = take ?w (drop ?a st)" and "s2 = drop ?w (drop ?a st)"
  have st: "st = s1 @ vs @ s2" unfolding s1_def vs_def s2_def append_take_drop_id ..
  have len: "length s1 = ?a" "length vs = ?w"
    using assms(2) layout_size_split [OF assms(1)] by (simp_all add: s1_def vs_def)
  have "snd (contents kws st ! i) = vs"
    using contents_middle [OF assms(1) len, of s2] assms(1) by (simp add: st nth_append)
  with that st len show thesis by blast
qed

text \<open>One property replaced, and one removed.\<close>

lemma contents_replace:
  assumes "i < length kws" "length s1 = layout_size (take i kws)" "length vs = snd (kws ! i)" "length vs' = w"
  shows "contents (kws[i := (k, w)]) (s1 @ vs' @ s2) = (contents kws (s1 @ vs @ s2))[i := (k, vs')]"
proof -
  have "contents (kws[i := (k, w)]) (s1 @ vs' @ s2) =
      contents (take i kws) s1 @ (k, vs') # contents (drop (Suc i) kws) s2"
    using contents_middle [of i "kws[i := (k, w)]" s1 vs' s2] assms by simp
  then show ?thesis
    using contents_middle [OF assms(1-3), of s2] assms(1) by (simp add: list_update_append)
qed

lemma contents_remove:
  assumes "i < length kws" "length s1 = layout_size (take i kws)" "length vs = snd (kws ! i)"
  shows "contents (take i kws @ drop (Suc i) kws) (s1 @ s2) =
    take i (contents kws (s1 @ vs @ s2)) @ drop (Suc i) (contents kws (s1 @ vs @ s2))"
  using contents_middle [OF assms, of s2] assms contents_append [OF assms(2), of "drop (Suc i) kws" s2]
  by simp

lemma layout_size_update:
  "i < length kws \<Longrightarrow> layout_size (kws[i := (k, w)]) + snd (kws ! i) = layout_size kws + w"
  by (induction kws arbitrary: i) (auto split: nat.splits)

section \<open>The descriptor of a property\<close>

definition descriptor_of :: "slot_attributes \<Rightarrow> js_value list \<Rightarrow> property_descriptor" where
  "descriptor_of a vs =
     \<lparr>pd_enumerable = Some (flags_contains a SLOT_ENUMERABLE),
      pd_configurable = Some (flags_contains a SLOT_CONFIGURABLE),
      pd_kind =
        (if is_accessor_attributes a
         then Accessor (if has_get a then Some (vs ! 0) else None) (if has_set a then Some (vs ! 1) else None)
         else Data (Some (vs ! 0)) (Some (flags_contains a SLOT_WRITABLE)))\<rparr>"

definition values_of :: "property_descriptor \<Rightarrow> js_value list" where
  "values_of d =
     (case pd_kind d of
        Accessor g s \<Rightarrow> [unwrap_or_undefined g, unwrap_or_undefined s]
      | Data v _ \<Rightarrow> [unwrap_or_undefined v]
      | Generic \<Rightarrow> [VUndefined])"

lemma get_storage_cut:
  assumes "unat (sl_index slot) = length s1" "length vs = attributes_width (sl_attributes slot)"
  shows "get_storage (s1 @ vs @ s2) slot = Some (descriptor_of (sl_attributes slot) vs)"
  using assms
  by (auto simp: get_storage_def descriptor_of_def Let_def vec_get_def nth_append attributes_width_def
      desc_simps is_accessor_attributes_def has_get_def has_set_def)

lemma slot_attributes_populated:
  assumes "fully_populated d" "to_slot_attributes d = Some a"
  shows "is_accessor_attributes a = is_accessor_descriptor d"
    and "is_accessor_descriptor d \<Longrightarrow> has_get a \<and> has_set a"
    and "length (values_of d) = attributes_width a"
    and "descriptor_of a (values_of d) = d"
proof -
  obtain e c where ec: "pd_enumerable d = Some e" "pd_configurable d = Some c"
    using assms(1) by (auto simp: fully_populated_def)
  have "is_accessor_attributes a = is_accessor_descriptor d \<and>
    (is_accessor_descriptor d \<longrightarrow> has_get a \<and> has_set a) \<and>
    length (values_of d) = attributes_width a \<and> descriptor_of a (values_of d) = d"
  proof (cases "pd_kind d")
    case (Data v w)
    then obtain v' w' where vw: "v = Some v'" "w = Some w'"
      using assms(1) by (auto simp: fully_populated_def)
    have "is_data_descriptor d" "pd_writable d = Some w'" using Data vw by (simp_all add: desc_simps)
    note f = to_slot_attributes_data [OF this(1) ec this(2) assms(2)]
    with Data vw ec show ?thesis
      by (simp add: values_of_def descriptor_of_def attributes_width_def is_accessor_descriptor_def
          unwrap_or_undefined_def)
  next
    case (Accessor g s)
    then obtain g' s' where gs: "g = Some g'" "s = Some s'"
      using assms(1) by (auto simp: fully_populated_def)
    have i: "is_accessor_descriptor d" using Accessor by (simp add: desc_simps)
    note f = to_slot_attributes_accessor [OF i ec assms(2)]
    have "has_get a" "has_set a" using f Accessor gs by (simp_all add: pd_get_def pd_set_def)
    with f Accessor gs ec i show ?thesis
      by (simp add: values_of_def descriptor_of_def attributes_width_def is_accessor_attributes_def
          has_get_def unwrap_or_undefined_def)
  qed (use assms(1) in \<open>simp add: fully_populated_def\<close>)
  then show "is_accessor_attributes a = is_accessor_descriptor d"
    and "is_accessor_descriptor d \<Longrightarrow> has_get a \<and> has_set a"
    and "length (values_of d) = attributes_width a"
    and "descriptor_of a (values_of d) = d" by blast+
qed

text \<open>The action for the change of width and the write, together, replace the values.\<close>

lemma storage_action_write:
  assumes d: "fully_populated d" "to_slot_attributes d = Some a"
    and st: "length vs = attributes_width (sl_attributes slot)"
  shows "\<exists>st'. (if sl_attributes slot \<noteq> a then apply_storage_action (change_action slot a) (length s1) (s1 @ vs @ s2)
      else Some (s1 @ vs @ s2)) = Some st' \<and>
    write_storage a d (length s1) st' = Some (s1 @ values_of d @ s2)"
proof -
  note f = slot_attributes_populated [OF d]
  have "\<exists>st'. (if sl_attributes slot \<noteq> a then apply_storage_action (change_action slot a) (length s1) (s1 @ vs @ s2)
      else Some (s1 @ vs @ s2)) = Some st' \<and> (\<exists>ws. st' = s1 @ ws @ s2 \<and> length ws = attributes_width a)"
  proof (cases "width_match (sl_attributes slot) a")
    case True
    then show ?thesis
      using st by (auto simp: change_action_def apply_storage_action_def attributes_width_match)
  next
    case False
    then have ne: "sl_attributes slot \<noteq> a" by (auto simp: width_match_def)
    show ?thesis
    proof (cases "is_accessor_attributes (sl_attributes slot)")
      case True
      with st obtain x y where vs: "vs = [x, y]"
        by (auto simp: attributes_width_def numeral_2_eq_2 length_Suc_conv)
      with True False ne show ?thesis
        by (auto simp: change_action_def apply_storage_action_def attributes_width_def width_match_def)
    next
      case acc: False
      with st obtain x where vs: "vs = [x]" by (auto simp: attributes_width_def length_Suc_conv)
      have "s1 @ VUndefined # x # s2 = s1 @ [VUndefined, x] @ s2" by simp
      with acc False ne vs show ?thesis
        by (auto simp: change_action_def apply_storage_action_def attributes_width_def width_match_def
            intro!: exI [of _ "[VUndefined, x]"])
    qed
  qed
  then obtain ws where ws: "(if sl_attributes slot \<noteq> a
        then apply_storage_action (change_action slot a) (length s1) (s1 @ vs @ s2)
      else Some (s1 @ vs @ s2)) = Some (s1 @ ws @ s2)" "length ws = attributes_width a" by blast
  have "write_storage a d (length s1) (s1 @ ws @ s2) = Some (s1 @ values_of d @ s2)"
  proof (cases "is_accessor_descriptor d")
    case True
    with ws(2) f(1) obtain x y where "ws = [x, y]"
      by (auto simp: attributes_width_def numeral_2_eq_2 length_Suc_conv)
    with True f(1,2) show ?thesis
      by (auto simp: write_storage_def vec_set_def values_of_def is_accessor_descriptor_def pd_get_def pd_set_def
          list_update_append split: descriptor_kind.splits)
  next
    case False
    with ws(2) f(1) obtain x where "ws = [x]" by (auto simp: attributes_width_def length_Suc_conv)
    with False f(1) d(1) show ?thesis
      by (auto simp: write_storage_def vec_set_def values_of_def is_accessor_descriptor_def pd_value_def
          fully_populated_def list_update_append unwrap_or_undefined_def split: descriptor_kind.splits)
  qed
  with ws(1) show ?thesis by blast
qed

lemma push_storage_values:
  assumes "fully_populated d" "to_slot_attributes d = Some a"
  shows "push_storage a d st = st @ values_of d"
  using slot_attributes_populated(1) [OF assms] assms(1)
  by (auto simp: push_storage_def values_of_def is_accessor_descriptor_def pd_get_def pd_set_def pd_value_def
      fully_populated_def split: descriptor_kind.splits)

section \<open>The properties a map holds\<close>

definition named :: "entries \<Rightarrow> (property_key \<times> js_value list) list \<Rightarrow> (property_key \<times> property_descriptor) list" where
  "named es cs = map2 (\<lambda>e c. (fst e, descriptor_of (snd e) (snd c))) es cs"

definition pm_entries :: "shape_heap \<Rightarrow> property_map \<Rightarrow> entries" where
  "pm_entries h pm = shape_entries h (pm_shape pm)"

definition pm_contents :: "shape_heap \<Rightarrow> property_map \<Rightarrow> (property_key \<times> js_value list) list" where
  "pm_contents h pm = contents (key_widths (pm_entries h pm)) (pm_storage pm)"

definition pm_named :: "shape_heap \<Rightarrow> property_map \<Rightarrow> (property_key \<times> property_descriptor) list" where
  "pm_named h pm = named (pm_entries h pm) (pm_contents h pm)"

definition pm_wf :: "shape_heap \<Rightarrow> property_map \<Rightarrow> bool" where
  "pm_wf h pm \<longleftrightarrow>
     shapes_wf h \<and> shape_valid h (pm_shape pm) \<and> indexed_wf (pm_indexed pm) \<and>
     length (pm_storage pm) = layout_size (key_widths (pm_entries h pm)) \<and> length (pm_storage pm) \<le> 2 ^ 32"

fun is_index_key :: "property_key \<Rightarrow> bool" where
  "is_index_key (PKIndex _) = True"
| "is_index_key _ = False"

lemma map_of_named:
  "length cs = length es \<Longrightarrow>
   map_of (named es cs) k = map_option (\<lambda>i. descriptor_of (snd (es ! i)) (snd (cs ! i))) (position k es)"
  unfolding named_def
  by (induction es cs rule: list_induct2') (auto simp: option.map_comp comp_def split: option.split)

lemma named_keys: "length cs = length es \<Longrightarrow> map fst (named es cs) = map fst es"
  unfolding named_def by (induction cs es rule: list_induct2) auto

lemma pm_contents_length [simp]: "length (pm_contents h pm) = length (pm_entries h pm)"
  by (simp add: pm_contents_def)

lemma pm_named_keys [simp]: "map fst (pm_named h pm) = map fst (pm_entries h pm)"
  by (simp add: pm_named_def named_keys)

lemma pm_named_length [simp]: "length (pm_named h pm) = length (pm_entries h pm)"
  using pm_named_keys [of h pm] by (metis length_map)

lemma pm_named_nth: "i < length (pm_entries h pm) \<Longrightarrow> fst (pm_named h pm ! i) = fst (pm_entries h pm ! i)"
  using pm_named_keys [of h pm] pm_named_length [of h pm] by (metis nth_map)

lemma pm_entries_distinct: "pm_wf h pm \<Longrightarrow> distinct_keys (pm_entries h pm)"
  by (simp add: pm_wf_def pm_entries_def shape_entries_distinct)

text \<open>A property and its slot cut the storage.\<close>

lemma pm_cut:
  assumes "pm_wf h pm" "position k (pm_entries h pm) = Some i"
  obtains s1 vs s2 where "pm_storage pm = s1 @ vs @ s2"
    "length s1 = layout_size (take i (key_widths (pm_entries h pm)))"
    "length vs = snd (key_widths (pm_entries h pm) ! i)" "length vs = attributes_width (snd (pm_entries h pm ! i))"
    "unat (sl_index (slot_at (pm_entries h pm) i)) = length s1" "snd (pm_contents h pm ! i) = vs"
proof -
  let ?es = "pm_entries h pm"
  have i: "i < length ?es" "fst (?es ! i) = k" using position_Some_nth [OF assms(2)] by simp_all
  have w: "snd (key_widths ?es ! i) = attributes_width (snd (?es ! i))"
    using i(1) by (simp add: key_widths_def split_def)
  have st: "length (pm_storage pm) = layout_size (key_widths ?es)" "length (pm_storage pm) \<le> 2 ^ 32"
    using assms(1) by (simp_all add: pm_wf_def)
  obtain s1 vs s2 where c: "pm_storage pm = s1 @ vs @ s2" "length s1 = layout_size (take i (key_widths ?es))"
    "length vs = snd (key_widths ?es ! i)" "snd (pm_contents h pm ! i) = vs"
    using storage_cut [of i "key_widths ?es" "pm_storage pm"] i(1) st(1) by (auto simp: pm_contents_def)
  have "length s1 < 2 ^ 32"
    using c(1,3) w st(2) attributes_width_bounds(1) [of "snd (?es ! i)"] by simp
  then have "unat (sl_index (slot_at ?es i)) = length s1"
    unfolding slot_at_def by (simp add: widths_key_widths c(2) unat_small_add)
  with that c w show thesis by simp
qed

lemma pm_lookup:
  assumes "pm_wf h pm"
  shows "shape_lookup h (pm_shape pm) k = Some (map_option (slot_at (pm_entries h pm)) (position k (pm_entries h pm)))"
  using assms by (simp add: pm_wf_def shape_lookup_spec lookup_spec_def pm_entries_def)

lemma pm_get_spec:
  assumes wf: "pm_wf h pm" and k: "\<not> is_index_key k"
  shows "pm_get h pm k = Some (map_of (pm_named h pm) k)"
proof (cases "position k (pm_entries h pm)")
  case None
  with pm_lookup [OF wf, of k] k show ?thesis
    by (cases k) (simp_all add: pm_get_def pm_named_def map_of_named)
next
  case (Some i)
  obtain s1 vs s2 where c: "pm_storage pm = s1 @ vs @ s2" "length vs = attributes_width (snd (pm_entries h pm ! i))"
    "unat (sl_index (slot_at (pm_entries h pm) i)) = length s1" "snd (pm_contents h pm ! i) = vs"
    using pm_cut [OF wf Some] by metis
  have "get_storage (pm_storage pm) (slot_at (pm_entries h pm) i) = Some (descriptor_of (snd (pm_entries h pm ! i)) vs)"
    unfolding c(1) using get_storage_cut [OF c(3)] c(2) by simp
  with Some pm_lookup [OF wf, of k] k c(4) show ?thesis
    by (cases k) (simp_all add: pm_get_def pm_named_def map_of_named)
qed

section \<open>Updates of ordered associations\<close>

lemma alist_update_absent: "k \<notin> fst ` set xs \<Longrightarrow> AList.update k v xs = xs @ [(k, v)]"
  by (induction xs) auto

lemma alist_update_nth:
  "distinct (map fst xs) \<Longrightarrow> i < length xs \<Longrightarrow> fst (xs ! i) = k \<Longrightarrow> AList.update k v xs = xs[i := (k, v)]"
proof (induction xs arbitrary: i)
  case (Cons x xs)
  then show ?case by (cases i; cases x) (auto dest!: nth_mem)
qed simp

lemma alist_delete_filter: "AList.delete k xs = filter (\<lambda>e. fst e \<noteq> k) xs"
  by (induction xs) auto

lemma filter_key_nth:
  assumes "distinct (map fst xs)" "i < length xs" "fst (xs ! i) = k"
  shows "filter (\<lambda>e. fst e \<noteq> k) xs = take i xs @ drop (Suc i) xs"
proof -
  have x: "xs = take i xs @ xs ! i # drop (Suc i) xs" using assms(2) by (rule id_take_nth_drop)
  have "distinct (map fst (take i xs @ xs ! i # drop (Suc i) xs))" using assms(1) x by simp
  then have "k \<notin> fst ` set (take i xs)" "k \<notin> fst ` set (drop (Suc i) xs)"
    using assms(3) by auto
  then show ?thesis
    by (subst x) (use assms(3) in \<open>simp add: filter_neq del: append_take_drop_id\<close>)
qed

lemma named_append: "length cs = length es \<Longrightarrow> named (es @ fs) (cs @ ds) = named es cs @ named fs ds"
  by (simp add: named_def)

lemma named_update:
  "named (es[i := e]) (cs[i := c]) = (named es cs)[i := (fst e, descriptor_of (snd e) (snd c))]"
  by (simp add: named_def zip_update map_update)

lemma named_drop_nth:
  "length cs = length es \<Longrightarrow>
   named (take i es @ drop (Suc i) es) (take i cs @ drop (Suc i) cs) =
   take i (named es cs) @ drop (Suc i) (named es cs)"
  by (subst named_append) (simp_all add: named_def take_map drop_map take_zip drop_zip)

section \<open>Insertion and removal of named properties\<close>

lemma shape_step_refl:
  "shapes_wf h \<Longrightarrow> shape_valid h s \<Longrightarrow> shape_step h h s s (shape_entries h s) (shape_proto h s)"
  by (simp add: shape_step_def)

text \<open>
  \<open>pm_step h h' pm pm'\<close>: the map is in order, its indexed properties are as they were, and the
  shape moved by a transition, so that other objects are not affected.
\<close>

definition pm_step :: "shape_heap \<Rightarrow> shape_heap \<Rightarrow> property_map \<Rightarrow> property_map \<Rightarrow> bool" where
  "pm_step h h' pm pm' \<longleftrightarrow>
     pm_wf h' pm' \<and> pm_indexed pm' = pm_indexed pm \<and>
     shape_step h h' (pm_shape pm) (pm_shape pm') (pm_entries h' pm') (shape_proto h (pm_shape pm))"

text \<open>An object with another shape, or the same one when that is shared, reads as before.\<close>

lemma pm_step_others:
  assumes "pm_step h h' pm pm'" "pm_wf h q" "\<forall>u. pm_shape q = Unique u \<longrightarrow> pm_shape q \<noteq> pm_shape pm"
  shows "pm_wf h' q" "pm_named h' q = pm_named h q"
  using assms shape_stepD(1) shape_stepD(5) [of h h' "pm_shape pm" "pm_shape pm'" _ _ "pm_shape q"]
  by (auto simp: pm_step_def pm_wf_def pm_named_def pm_contents_def pm_entries_def)

text \<open>
  The condition under which the other properties keep their attributes: no change of width, or
  a shape on which the rollback is exact.
\<close>

definition insert_faithful :: "shape_heap \<Rightarrow> property_map \<Rightarrow> property_key \<Rightarrow> property_descriptor \<Rightarrow> bool" where
  "insert_faithful h pm k d \<longleftrightarrow>
     (case position k (pm_entries h pm) of
        None \<Rightarrow> True
      | Some i \<Rightarrow> attributes_width (snd (pm_entries h pm ! i)) = length (values_of d) \<or> shape_clean h k (pm_shape pm))"

lemma pm_insert_unfold:
  assumes "\<not> is_index_key k" "to_slot_attributes d = Some a" "pm_wf h pm"
  shows "pm_insert_with_slot im h pm k d out_slot =
    (case map_option (slot_at (pm_entries h pm)) (position k (pm_entries h pm)) of
       Some slot \<Rightarrow>
         do {
           let index = unat (sl_index slot);
           (shape, storage, h) \<leftarrow>
             (if sl_attributes slot \<noteq> a then
                do {
                  (shape, action, h) \<leftarrow> shape_change_attributes_transition im h (pm_shape pm) (tkey k a);
                  storage \<leftarrow> apply_storage_action action index (pm_storage pm);
                  Some (shape, storage, h)
                }
              else Some (pm_shape pm, pm_storage pm, h));
           storage \<leftarrow> write_storage a d index storage;
           Some (True, pm\<lparr>pm_shape := shape, pm_storage := storage\<rparr>,
             kept_cache_bits out_slot (sl_index slot) a, h)
         }
     | None \<Rightarrow>
         do {
           (shape, h) \<leftarrow> shape_insert_property_transition h (pm_shape pm) (tkey k a);
           Some (False, pm\<lparr>pm_shape := shape, pm_storage := push_storage a d (pm_storage pm)\<rparr>,
             kept_cache_bits out_slot (word_of_nat (length (pm_storage pm))) a, h)
         })"
  using assms pm_lookup [OF assms(3), of k]
  by (cases k) (simp_all add: pm_insert_with_slot_def tkey_def Let_def split: option.split)

definition inserted ::
  "shape_heap \<Rightarrow> property_map \<Rightarrow> property_key \<Rightarrow> property_descriptor \<Rightarrow> slot \<Rightarrow>
     property_map \<Rightarrow> slot \<Rightarrow> shape_heap \<Rightarrow> bool" where
  "inserted h pm k d out_slot pm' out' h' \<longleftrightarrow>
     pm_step h h' pm pm' \<and>
     map fst (pm_named h' pm') = map fst (AList.update k d (pm_named h pm)) \<and>
     map_of (pm_named h' pm') k = Some d \<and>
     (insert_faithful h pm k d \<longrightarrow> pm_named h' pm' = AList.update k d (pm_named h pm)) \<and>
     (\<exists>slot. shape_lookup h' (pm_shape pm') k = Some (Some slot) \<and> sl_index out' = sl_index slot \<and>
        sl_attributes out' = (sl_attributes out_slot AND SLOT_INLINE_CACHE_BITS) OR sl_attributes slot)"

lemma pm_insert_new:
  assumes wf: "pm_wf h pm" and k: "\<not> is_index_key k" "k \<notin> fst ` set (pm_entries h pm)"
    and d: "fully_populated d" and room: "length (pm_storage pm) + 2 \<le> 2 ^ 32"
  shows "\<exists>pm' out' h'. pm_insert_with_slot im h pm k d out_slot = Some (False, pm', out', h') \<and>
    inserted h pm k d out_slot pm' out' h'"
proof -
  let ?es = "pm_entries h pm"
  obtain a where a: "to_slot_attributes d = Some a" using to_slot_attributes_total [OF d] by auto
  note f = slot_attributes_populated [OF d a]
  have sw: "shapes_wf h" "shape_valid h (pm_shape pm)" using wf by (simp_all add: pm_wf_def)
  have "tk_property_key (tkey k a) \<notin> fst ` set (shape_entries h (pm_shape pm))"
    using k(2) by (simp add: pm_entries_def)
  from shape_insert_step [OF sw this] obtain s' h' where t:
    "shape_insert_property_transition h (pm_shape pm) (tkey k a) = Some (s', h')"
    "shape_step h h' (pm_shape pm) s' (?es @ [(k, a)]) (shape_proto h (pm_shape pm))"
    by (auto simp: pm_entries_def)
  let ?pm = "pm\<lparr>pm_shape := s', pm_storage := pm_storage pm @ values_of d\<rparr>"
  let ?out = "kept_cache_bits out_slot (word_of_nat (length (pm_storage pm))) a"
  have st: "length (pm_storage pm) = layout_size (key_widths ?es)" using wf by (simp add: pm_wf_def)
  have es': "pm_entries h' ?pm = ?es @ [(k, a)]" using shape_stepD(3) [OF t(2)] by (simp add: pm_entries_def)
  have cs': "pm_contents h' ?pm = pm_contents h pm @ [(k, values_of d)]"
    using contents_append [OF st, of "[(k, attributes_width a)]" "values_of d"] f(3)
    by (simp add: pm_contents_def es')
  have n: "pm_named h' ?pm = pm_named h pm @ [(k, d)]"
    unfolding pm_named_def es' cs' by (subst named_append) (simp_all add: named_def f(4))
  have u: "AList.update k d (pm_named h pm) = pm_named h pm @ [(k, d)]"
  proof (rule alist_update_absent)
    show "k \<notin> fst ` set (pm_named h pm)"
      using k(2) pm_named_keys [of h pm] by (metis set_map)
  qed
  have m: "map_of (pm_named h' ?pm) k = Some d"
    using k(2) pm_named_keys [of h pm] unfolding n by (intro map_of_append_fresh) (metis set_map)
  have wf': "pm_wf h' ?pm"
    using wf room st f(3) attributes_width_bounds(2) [of a] shape_stepD(1,2) [OF t(2)]
    by (simp add: pm_wf_def es' del: shape_valid.simps)
  have step: "pm_step h h' pm ?pm"
    using wf' t(2) by (simp add: pm_step_def es')
  have "\<exists>slot. shape_lookup h' s' k = Some (Some slot) \<and> sl_index ?out = sl_index slot \<and>
      sl_attributes ?out = (sl_attributes out_slot AND SLOT_INLINE_CACHE_BITS) OR sl_attributes slot"
    using pm_lookup [OF wf', of k] k(2) st
    by (simp add: es' position_append position_None [THEN iffD2] kept_cache_bits_def slot_at_def widths_key_widths)
  then have "inserted h pm k d out_slot ?pm ?out h'"
    using step n u m by (simp add: inserted_def)
  moreover have "pm_insert_with_slot im h pm k d out_slot = Some (False, ?pm, ?out, h')"
    using k by (simp add: pm_insert_unfold [OF k(1) a wf] position_None [THEN iffD2] t(1)
        push_storage_values [OF d a])
  ultimately show ?thesis by blast
qed

text \<open>A transition that changed the attributes of the property at \<open>i\<close>, and its values replaced.\<close>

lemma pm_update_inserted:
  assumes wf: "pm_wf h pm" and i: "position k (pm_entries h pm) = Some i"
    and d: "fully_populated d" "to_slot_attributes d = Some a" and room: "length (pm_storage pm) + 2 \<le> 2 ^ 32"
    and st: "pm_storage pm = s1 @ vs @ s2" "length s1 = layout_size (take i (key_widths (pm_entries h pm)))"
      "length vs = snd (key_widths (pm_entries h pm) ! i)"
    and t: "shape_step h h' (pm_shape pm) s' es' (shape_proto h (pm_shape pm))"
      "key_widths es' = (key_widths (pm_entries h pm))[i := (k, attributes_width a)]" "es' ! i = (k, a)"
      "insert_faithful h pm k d \<Longrightarrow> es' = (pm_entries h pm)[i := (k, a)]"
  shows "inserted h pm k d out_slot (pm\<lparr>pm_shape := s', pm_storage := s1 @ values_of d @ s2\<rparr>)
    (kept_cache_bits out_slot (sl_index (slot_at (pm_entries h pm) i)) a) h'"
proof -
  let ?es = "pm_entries h pm" and ?pm = "pm\<lparr>pm_shape := s', pm_storage := s1 @ values_of d @ s2\<rparr>"
  note f = slot_attributes_populated [OF d]
  have il: "i < length ?es" "fst (?es ! i) = k" using position_Some_nth [OF i] by simp_all
  then have iw: "i < length (key_widths ?es)" by simp
  have es': "pm_entries h' ?pm = es'" using shape_stepD(3) [OF t(1)] by (simp add: pm_entries_def)
  have keys: "map fst es' = map fst ?es"
    using arg_cong [OF t(2), of "map fst"] il by (simp add: map_update list_update_same_conv)
  have pos: "position k es' = Some i" using position_map_snd [OF keys, of k] i by simp
  have len: "length es' = length ?es" using arg_cong [OF keys, of length] by simp
  have cs: "pm_contents h' ?pm = (pm_contents h pm)[i := (k, values_of d)]"
    using contents_replace [OF iw st(2,3) f(3)] by (simp add: pm_contents_def es' t(2) st(1))
  have dn: "distinct (map fst (pm_named h pm))" using pm_entries_distinct [OF wf] by (simp add: distinct_keys_def)
  have ln: "length (pm_named h pm) = length ?es" by simp
  have kn: "fst (pm_named h pm ! i) = k"
    using pm_named_nth [of i h pm] il by simp
  have u: "AList.update k d (pm_named h pm) = (pm_named h pm)[i := (k, d)]"
    by (rule alist_update_nth [OF dn]) (use il ln kn in simp_all)
  have n: "pm_named h' ?pm = AList.update k d (pm_named h pm)" if "insert_faithful h pm k d"
    unfolding pm_named_def es' cs t(4) [OF that] u [unfolded pm_named_def] named_update by (simp add: f(4))
  have m: "map_of (pm_named h' ?pm) k = Some d"
    using il len by (simp add: pm_named_def map_of_named es' pos cs t(3) f(4))
  have ku: "map fst (pm_named h' ?pm) = map fst (AList.update k d (pm_named h pm))"
    using keys il ln kn by (simp add: es' u map_update) (metis list_update_id length_map nth_map)
  have "length (s1 @ values_of d @ s2) = layout_size (key_widths es')"
    using layout_size_update [OF iw, of k "attributes_width a"] wf st f(3) by (simp add: pm_wf_def t(2))
  moreover have "length (s1 @ values_of d @ s2) \<le> 2 ^ 32"
    using room st attributes_width_bounds(2) [of a] f(3) by simp
  ultimately have wf': "pm_wf h' ?pm"
    using wf shape_stepD(1,2) [OF t(1)] unfolding pm_wf_def es' by simp
  have "pm_step h h' pm ?pm" using wf' t(1) by (simp add: pm_step_def es')
  moreover have "key_widths (take i es') = key_widths (take i ?es)" using t(2) by simp
  then have "widths (map snd (take i es')) = widths (map snd (take i ?es))"
    unfolding widths_key_widths by simp
  then have "shape_lookup h' s' k = Some (Some \<lparr>sl_index = sl_index (slot_at ?es i), sl_attributes = a\<rparr>)"
    using pm_lookup [OF wf', of k] by (simp add: es' pos slot_at_def t(3))
  ultimately show ?thesis using n m ku by (simp add: inserted_def kept_cache_bits_def)
qed

lemma pm_insert_existing:
  assumes wf: "pm_wf h pm" and im: "index_map_laws im"
    and k: "\<not> is_index_key k" "position k (pm_entries h pm) = Some i"
    and d: "fully_populated d" and room: "length (pm_storage pm) + 2 \<le> 2 ^ 32"
  shows "\<exists>pm' out' h'. pm_insert_with_slot im h pm k d out_slot = Some (True, pm', out', h') \<and>
    inserted h pm k d out_slot pm' out' h'"
proof -
  let ?es = "pm_entries h pm" and ?slot = "slot_at (pm_entries h pm) i"
  obtain a where a: "to_slot_attributes d = Some a" using to_slot_attributes_total [OF d] by auto
  note f = slot_attributes_populated [OF d a]
  have sw: "shapes_wf h" "shape_valid h (pm_shape pm)" using wf by (simp_all add: pm_wf_def)
  have i: "i < length ?es" "fst (?es ! i) = k" using position_Some_nth [OF k(2)] by simp_all
  obtain s1 vs s2 where c: "pm_storage pm = s1 @ vs @ s2" "length s1 = layout_size (take i (key_widths ?es))"
    "length vs = snd (key_widths ?es ! i)" "length vs = attributes_width (snd (?es ! i))"
    "unat (sl_index ?slot) = length s1"
    using pm_cut [OF wf k(2)] by metis
  obtain st' where st': "(if sl_attributes ?slot \<noteq> a then apply_storage_action (change_action ?slot a) (length s1) (pm_storage pm)
      else Some (pm_storage pm)) = Some st'" "write_storage a d (length s1) st' = Some (s1 @ values_of d @ s2)"
    using storage_action_write [OF d a, of vs ?slot s1 s2] c(4) unfolding c(1) slot_at_attributes by blast
  note unf = pm_insert_unfold [OF k(1) a wf, of im out_slot]
  show ?thesis
  proof (cases "snd (?es ! i) = a")
    case True
    then have e: "?es ! i = (k, a)" using i(2) by (metis prod.collapse)
    then have kw: "key_widths ?es = (key_widths ?es)[i := (k, attributes_width a)]"
      using key_widths_update [of ?es i k a] by (metis list_update_id)
    have es: "?es = ?es[i := (k, a)]" using e by (metis list_update_id)
    have "shape_step h h (pm_shape pm) (pm_shape pm) ?es (shape_proto h (pm_shape pm))"
      using shape_step_refl [OF sw] by (simp add: pm_entries_def)
    from pm_update_inserted [OF wf k(2) d a room c(1-3) this kw e es] st' True c(5) k(2) show ?thesis
      by (auto simp: unf Let_def)
  next
    case False
    have k': "position (tk_property_key (tkey k a)) (shape_entries h (pm_shape pm)) = Some i"
      using k(2) by (simp add: pm_entries_def)
    from shape_change_attributes_step [OF sw(1) im sw(2) k'] obtain s' h' es where
      t: "shape_change_attributes_transition im h (pm_shape pm) (tkey k a) = Some (s', change_action ?slot a, h')"
        "shape_step h h' (pm_shape pm) s' es (shape_proto h (pm_shape pm))"
        "key_widths es = (key_widths ?es)[i := (k, attributes_width a)]" "es ! i = (k, a)"
        "width_match (snd (?es ! i)) a \<or> shape_clean h k (pm_shape pm) \<longrightarrow> es = ?es[i := (k, a)]"
      by (auto simp: pm_entries_def)
    have fa: "es = ?es[i := (k, a)]" if "insert_faithful h pm k d"
      using that t(5) k(2) f(3) by (simp add: insert_faithful_def attributes_width_match)
    from pm_update_inserted [OF wf k(2) d a room c(1-3) t(2-4) fa] st' False c(5) k(2) t(1) show ?thesis
      by (auto simp: unf Let_def)
  qed
qed

lemma pm_insert_step:
  assumes "pm_wf h pm" "index_map_laws im" "\<not> is_index_key k" "fully_populated d"
    and "length (pm_storage pm) + 2 \<le> 2 ^ 32"
  shows "\<exists>pm' out' h'. pm_insert_with_slot im h pm k d out_slot =
      Some (k \<in> fst ` set (pm_named h pm), pm', out', h') \<and> inserted h pm k d out_slot pm' out' h'"
proof -
  have k: "fst ` set (pm_named h pm) = fst ` set (pm_entries h pm)"
    using pm_named_keys [of h pm] by (metis set_map)
  show ?thesis
  proof (cases "position k (pm_entries h pm)")
    case None
    then have "k \<notin> fst ` set (pm_entries h pm)" by (simp add: position_None)
    with pm_insert_new [OF assms(1,3) this assms(4,5)] k show ?thesis by simp
  next
    case (Some i)
    then have "k \<in> fst ` set (pm_entries h pm)" using position_None [of k "pm_entries h pm"] by auto
    with pm_insert_existing [OF assms(1,2,3) Some assms(4,5)] k show ?thesis by simp
  qed
qed

definition removed :: "shape_heap \<Rightarrow> property_map \<Rightarrow> property_key \<Rightarrow> property_map \<Rightarrow> shape_heap \<Rightarrow> bool" where
  "removed h pm k pm' h' \<longleftrightarrow>
     pm_step h h' pm pm' \<and>
     map fst (pm_named h' pm') = map fst (AList.delete k (pm_named h pm)) \<and>
     (shape_clean h k (pm_shape pm) \<longrightarrow> pm_named h' pm' = AList.delete k (pm_named h pm))"

lemma pm_remove_step:
  assumes wf: "pm_wf h pm" and im: "index_map_laws im" and k: "\<not> is_index_key k"
  shows "\<exists>pm' h'. pm_remove im h pm k = Some (k \<in> fst ` set (pm_named h pm), pm', h') \<and> removed h pm k pm' h'"
proof -
  let ?es = "pm_entries h pm" and ?n = "pm_named h pm"
  have kn: "fst ` set ?n = fst ` set ?es" using pm_named_keys [of h pm] by (metis set_map)
  have sw: "shapes_wf h" "shape_valid h (pm_shape pm)" using wf by (simp_all add: pm_wf_def)
  note look = pm_lookup [OF wf, of k]
  show ?thesis
  proof (cases "position k ?es")
    case None
    then have nk: "k \<notin> fst ` set ?n" by (simp add: position_None kn)
    then have "AList.delete k ?n = ?n" by (simp add: AList.delete_id)
    moreover have "pm_step h h pm pm"
      using wf shape_step_refl [OF sw] by (simp add: pm_step_def pm_entries_def)
    ultimately show ?thesis
      using None look k nk by (cases k) (auto simp: pm_remove_def removed_def)
  next
    case (Some i)
    have i: "i < length ?es" "fst (?es ! i) = k" using position_Some_nth [OF Some] by simp_all
    then have km: "k \<in> fst ` set (shape_entries h (pm_shape pm))" by (auto simp: pm_entries_def)
    then have kin: "k \<in> fst ` set ?n" by (simp add: kn pm_entries_def)
    obtain s1 vs s2 where c: "pm_storage pm = s1 @ vs @ s2" "length s1 = layout_size (take i (key_widths ?es))"
      "length vs = snd (key_widths ?es ! i)" "length vs = attributes_width (snd (?es ! i))"
      "unat (sl_index (slot_at ?es i)) = length s1"
      using pm_cut [OF wf Some] by metis
    from shape_remove_step [OF sw(1) im sw(2) km] obtain s' h' es where t:
      "shape_remove_property_transition im h (pm_shape pm) k = Some (s', h')"
      "shape_step h h' (pm_shape pm) s' es (shape_proto h (pm_shape pm))"
      "key_widths es = filter (\<lambda>q. fst q \<noteq> k) (key_widths ?es)"
      "shape_clean h k (pm_shape pm) \<longrightarrow> es = filter (\<lambda>e. fst e \<noteq> k) ?es"
      by (auto simp: pm_entries_def)
    let ?pm = "pm\<lparr>pm_shape := s', pm_storage := s1 @ s2\<rparr>"
    have dk: "distinct (map fst ?es)" using pm_entries_distinct [OF wf] by (simp add: distinct_keys_def)
    have iw: "i < length (key_widths ?es)" "fst (key_widths ?es ! i) = k"
      using i by (simp_all add: key_widths_def split_def)
    have kw: "key_widths es = take i (key_widths ?es) @ drop (Suc i) (key_widths ?es)"
      using filter_key_nth [OF _ iw] dk t(3) by simp
    have es': "pm_entries h' ?pm = es" using shape_stepD(3) [OF t(2)] by (simp add: pm_entries_def)
    have cs: "pm_contents h' ?pm = take i (pm_contents h pm) @ drop (Suc i) (pm_contents h pm)"
      using contents_remove [OF iw(1) c(2,3), of s2] by (simp add: pm_contents_def es' kw c(1))
    have rm: "(do { st \<leftarrow> (if is_accessor_attributes (snd (?es ! i)) then vec_remove (pm_storage pm) (length s1 + 1)
        else Some (pm_storage pm)); vec_remove st (length s1) }) = Some (s1 @ s2)"
    proof (cases "is_accessor_attributes (snd (?es ! i))")
      case True
      with c(4) obtain x y where "vs = [x, y]" by (auto simp: attributes_width_def numeral_2_eq_2 length_Suc_conv)
      with True c(1) show ?thesis by (simp add: vec_remove_def)
    next
      case False
      with c(4) obtain x where "vs = [x]" by (auto simp: attributes_width_def length_Suc_conv)
      with False c(1) show ?thesis by (simp add: vec_remove_def)
    qed
    have run: "pm_remove im h pm k = Some (True, ?pm, h')"
    proof -
      have "pm_remove im h pm k =
          do { st \<leftarrow> (do { st \<leftarrow> (if is_accessor_attributes (snd (?es ! i)) then vec_remove (pm_storage pm) (length s1 + 1)
            else Some (pm_storage pm)); vec_remove st (length s1) });
            (s', h') \<leftarrow> shape_remove_property_transition im h (pm_shape pm) k;
            Some (True, pm\<lparr>pm_shape := s', pm_storage := st\<rparr>, h') }"
        using look Some k c(5) by (cases k) (simp_all add: pm_remove_def Let_def)
      then show ?thesis unfolding rm by (simp add: t(1))
    qed
    have ln: "length ?n = length ?es" by simp
    have "distinct (map fst ?n)" "i < length ?n" "fst (?n ! i) = k"
      using dk i ln pm_named_nth [of i h pm] by simp_all
    then have del: "AList.delete k ?n = take i ?n @ drop (Suc i) ?n"
      by (simp add: alist_delete_filter filter_key_nth)
    have n: "pm_named h' ?pm = AList.delete k ?n" if "shape_clean h k (pm_shape pm)"
    proof -
      have "es = take i ?es @ drop (Suc i) ?es" using t(4) that filter_key_nth [OF dk i] by simp
      then show ?thesis unfolding pm_named_def es' cs del [unfolded pm_named_def] by (simp add: named_drop_nth)
    qed
    have keys: "map fst (pm_named h' ?pm) = map fst (AList.delete k ?n)"
      using arg_cong [OF kw, of "map fst"] pm_named_keys [of h pm]
      by (simp add: es' del flip: take_map drop_map)
    have "pm_wf h' ?pm"
      using wf shape_stepD(1,2) [OF t(2)] c(1-3) layout_size_split [OF iw(1)]
      by (simp add: pm_wf_def es' kw)
    then have "pm_step h h' pm ?pm" using t(2) by (simp add: pm_step_def es')
    with n keys have "removed h pm k ?pm h'" by (simp add: removed_def)
    with run kin show ?thesis by auto
  qed
qed

section \<open>Fresh maps\<close>

lemma unique_map_wf:
  assumes wf: "shapes_wf h" and r: "from_prototype_unique_shape h p = (pm, h')"
  shows "pm_wf h' pm" "pm_named h' pm = []" "pm_storage pm = []"
proof -
  obtain u where a: "alloc_unique \<lparr>us_table = ptable_empty, us_prototype = p\<rparr> h = (u, h')"
    and pm: "pm = \<lparr>pm_indexed = indexed_default, pm_shape = Unique u, pm_storage = []\<rparr>"
    using r by (auto simp: from_prototype_unique_shape_def Let_def split: prod.splits)
  have e: "pm_entries h' pm = []"
    using alloc_unique_fields [OF a]
    by (simp add: pm_entries_def pm unique_entries_def ptable_empty_table)
  have "shapes_wf h'"
    by (rule alloc_unique_wf [OF wf a]) (simp add: ptable_empty_table distinct_keys_def)
  then show "pm_wf h' pm" "pm_named h' pm = []" "pm_storage pm = []"
    using alloc_unique_fields [OF a] e
    by (simp_all add: pm_wf_def pm pm_named_def pm_contents_def named_def indexed_default_def)
qed

lemma shared_map_wf:
  assumes wf: "shapes_wf h" and s: "sh_shared h a \<noteq> None" "shared_entries h a = []"
  shows "\<exists>pm h'. from_prototype_with_shared_shape h a p = Some (pm, h') \<and> pm_wf h' pm \<and> pm_named h' pm = [] \<and>
    shape_prototype h' (pm_shape pm) = Some p"
proof -
  from shared_change_prototype_step [OF wf s(1), of p] obtain b h' where
    c: "shared_change_prototype_transition h a p = Some (b, h')" "shared_step h h' b (shared_entries h a) p" by blast
  note D = shared_stepD [OF c(2)]
  let ?pm = "\<lparr>pm_indexed = indexed_default, pm_shape = Shared b, pm_storage = []\<rparr>"
  have e: "pm_entries h' ?pm = []" using D(4) s(2) by (simp add: pm_entries_def)
  have "pm_wf h' ?pm" "pm_named h' ?pm = []" "shape_prototype h' (pm_shape ?pm) = Some p"
    using D e by (auto simp: pm_wf_def pm_named_def pm_contents_def named_def indexed_default_def shared_proto_def)
  with c(1) show ?thesis by (simp add: from_prototype_with_shared_shape_def)
qed

definition empty_map :: "property_map \<times> shape_heap" where
  "empty_map = from_prototype_unique_shape (sh_empty (\<lambda>_ _. False)) None"

lemma empty_map_wf:
  "pm_wf (snd empty_map) (fst empty_map)" "pm_named (snd empty_map) (fst empty_map) = []"
  "pm_storage (fst empty_map) = []"
  using unique_map_wf [OF shapes_wf_empty, of "\<lambda>_ _. False" None "fst empty_map" "snd empty_map"]
  by (simp_all add: empty_map_def)

section \<open>Properties\<close>

lemma pm_get_named:
  "pm_wf h pm \<Longrightarrow>
   pm_get h pm k = (case k of PKIndex i \<Rightarrow> Some (indexed_get (pm_indexed pm) i) | _ \<Rightarrow> Some (map_of (pm_named h pm) k))"
  by (cases k) (simp_all add: pm_get_spec, simp add: pm_get_def)

lemma pm_others_get:
  assumes "pm_step h h' pm pm'" "pm_wf h q" "\<forall>u. pm_shape q = Unique u \<longrightarrow> pm_shape q \<noteq> pm_shape pm"
  shows "pm_wf h' q \<and> (\<forall>k. pm_get h' q k = pm_get h q k)"
  using pm_step_others [OF assms] assms(2) by (simp add: pm_get_named split: property_key.split)

text \<open>C30
  Inserting a property under a string or symbol key never panics: the vector of values is kept in
  step with the shape. The property read back is the one inserted; the others are unchanged, with
  the exception of a change of width on a shape whose rollback is not exact, and the keys keep
  their order with a new one last. Maps of other objects read as before.
\<close>
theorem property_map_insert:
  assumes "pm_wf h pm" "index_map_laws im" "\<not> is_index_key k" "fully_populated d"
    and "length (pm_storage pm) + 2 \<le> 2 ^ 32"
  shows "\<exists>pm' h'. pm_insert im h pm k d = Some (pm_get h pm k \<noteq> Some None, pm', h') \<and> pm_wf h' pm' \<and>
    pm_get h' pm' k = Some (Some d) \<and>
    map fst (pm_named h' pm') = map fst (AList.update k d (pm_named h pm)) \<and>
    (insert_faithful h pm k d \<longrightarrow> (\<forall>k'. k' \<noteq> k \<longrightarrow> pm_get h' pm' k' = pm_get h pm k')) \<and>
    (\<forall>q. pm_wf h q \<longrightarrow> (\<forall>u. pm_shape q = Unique u \<longrightarrow> pm_shape q \<noteq> pm_shape pm) \<longrightarrow>
       pm_wf h' q \<and> (\<forall>k. pm_get h' q k = pm_get h q k))"
proof -
  from pm_insert_step [OF assms, of slot_new] obtain pm' out' h' where i:
    "pm_insert_with_slot im h pm k d slot_new = Some (k \<in> fst ` set (pm_named h pm), pm', out', h')"
    "inserted h pm k d slot_new pm' out' h'" by blast
  from i(2) have s: "pm_step h h' pm pm'"
    "map fst (pm_named h' pm') = map fst (AList.update k d (pm_named h pm))"
    "map_of (pm_named h' pm') k = Some d"
    "insert_faithful h pm k d \<longrightarrow> pm_named h' pm' = AList.update k d (pm_named h pm)"
    by (simp_all add: inserted_def)
  have wf': "pm_wf h' pm'" and ip: "pm_indexed pm' = pm_indexed pm" using s(1) by (simp_all add: pm_step_def)
  have ex: "k \<in> fst ` set (pm_named h pm) \<longleftrightarrow> pm_get h pm k \<noteq> Some None"
    unfolding pm_get_spec [OF assms(1,3)] by (simp add: map_of_eq_None_iff del: not_None_eq)
  have keep: "pm_get h' pm' k' = pm_get h pm k'" if "insert_faithful h pm k d" "k' \<noteq> k" for k'
    using that s(4) by (cases k') (simp_all add: pm_get_named [OF wf'] pm_get_named [OF assms(1)] ip update_conv)
  have run: "pm_insert im h pm k d = Some (pm_get h pm k \<noteq> Some None, pm', h')"
    using i(1) by (simp add: pm_insert_def ex)
  have got: "pm_get h' pm' k = Some (Some d)" using s(3) by (simp add: pm_get_spec [OF wf' assms(3)])
  show ?thesis using run wf' got s(2) keep pm_others_get [OF s(1)] by blast
qed

theorem property_map_insert_witness:
  "\<exists>pm' h'. pm_insert list_index_map (snd empty_map) (fst empty_map) (PKString [97]) (data_property VNull True False True) =
      Some (False, pm', h') \<and> pm_get h' pm' (PKString [97]) = Some (Some (data_property VNull True False True))"
proof -
  have "pm_get (snd empty_map) (fst empty_map) (PKString [97]) = Some None"
    by (simp add: pm_get_named empty_map_wf)
  with property_map_insert [OF empty_map_wf(1) list_index_map_laws,
      of "PKString [97]" "data_property VNull True False True"] empty_map_wf(3)
  show ?thesis by auto
qed

text \<open>
  The slot that the insertion reports for inline caches is the slot of the property in the new
  shape, and reading the storage at it gives the inserted descriptor; the cache bits of the old
  slot are kept.
\<close>
theorem property_map_insert_slot:
  assumes "pm_wf h pm" "index_map_laws im" "\<not> is_index_key k" "fully_populated d"
    and "length (pm_storage pm) + 2 \<le> 2 ^ 32"
  shows "\<exists>existed pm' out' h' slot. pm_insert_with_slot im h pm k d out_slot = Some (existed, pm', out', h') \<and>
    shape_lookup h' (pm_shape pm') k = Some (Some slot) \<and> sl_index out' = sl_index slot \<and>
    sl_attributes out' = (sl_attributes out_slot AND SLOT_INLINE_CACHE_BITS) OR sl_attributes slot \<and>
    get_storage (pm_storage pm') slot = Some d"
proof -
  from pm_insert_step [OF assms, of out_slot] obtain pm' out' h' slot where i:
    "pm_insert_with_slot im h pm k d out_slot = Some (k \<in> fst ` set (pm_named h pm), pm', out', h')"
    "pm_wf h' pm'" "map_of (pm_named h' pm') k = Some d"
    "shape_lookup h' (pm_shape pm') k = Some (Some slot)" "sl_index out' = sl_index slot"
    "sl_attributes out' = (sl_attributes out_slot AND SLOT_INLINE_CACHE_BITS) OR sl_attributes slot"
    by (auto simp: inserted_def pm_step_def)
  have "pm_get h' pm' k = Some (Some d)" using i(2,3) by (simp add: pm_get_spec [OF i(2) assms(3)])
  then have "get_storage (pm_storage pm') slot = Some d"
    using i(4) assms(3) by (cases k) (auto simp: pm_get_def)
  with i show ?thesis by blast
qed

theorem property_map_insert_slot_witness:
  "\<exists>existed pm' out' h' slot. pm_insert_with_slot list_index_map (snd empty_map) (fst empty_map) (PKString [97])
      (data_property VNull True False True) slot_new = Some (existed, pm', out', h') \<and>
    get_storage (pm_storage pm') slot = Some (data_property VNull True False True)"
  using property_map_insert_slot [OF empty_map_wf(1) list_index_map_laws,
      of "PKString [97]" "data_property VNull True False True" slot_new] empty_map_wf(3)
  by auto

text \<open>C31
  Removing a property under a string or symbol key never panics and removes it, with its one or two
  values, whether or not it was the last; the other keys keep their order, and on a shape whose
  rollback is exact the other properties read as before. Maps of other objects read as before.
\<close>
theorem property_map_remove:
  assumes "pm_wf h pm" "index_map_laws im" "\<not> is_index_key k"
  shows "\<exists>pm' h'. pm_remove im h pm k = Some (pm_get h pm k \<noteq> Some None, pm', h') \<and> pm_wf h' pm' \<and>
    pm_get h' pm' k = Some None \<and>
    map fst (pm_named h' pm') = removeAll k (map fst (pm_named h pm)) \<and>
    (shape_clean h k (pm_shape pm) \<longrightarrow> (\<forall>k'. k' \<noteq> k \<longrightarrow> pm_get h' pm' k' = pm_get h pm k')) \<and>
    (\<forall>q. pm_wf h q \<longrightarrow> (\<forall>u. pm_shape q = Unique u \<longrightarrow> pm_shape q \<noteq> pm_shape pm) \<longrightarrow>
       pm_wf h' q \<and> (\<forall>k. pm_get h' q k = pm_get h q k))"
proof -
  from pm_remove_step [OF assms] obtain pm' h' where r:
    "pm_remove im h pm k = Some (k \<in> fst ` set (pm_named h pm), pm', h')" "pm_step h h' pm pm'"
    "map fst (pm_named h' pm') = map fst (AList.delete k (pm_named h pm))"
    "shape_clean h k (pm_shape pm) \<longrightarrow> pm_named h' pm' = AList.delete k (pm_named h pm)"
    by (auto simp: removed_def)
  have wf': "pm_wf h' pm'" and ip: "pm_indexed pm' = pm_indexed pm" using r(2) by (simp_all add: pm_step_def)
  have ex: "k \<in> fst ` set (pm_named h pm) \<longleftrightarrow> pm_get h pm k \<noteq> Some None"
    unfolding pm_get_spec [OF assms(1,3)] by (simp add: map_of_eq_None_iff del: not_None_eq)
  have "k \<notin> fst ` set (pm_named h' pm')"
    unfolding set_map [symmetric] r(3) by (simp add: delete_keys del: set_map)
  then have gone: "pm_get h' pm' k = Some None"
    by (simp add: pm_get_spec [OF wf' assms(3)] map_of_eq_None_iff)
  have keep: "pm_get h' pm' k' = pm_get h pm k'" if "shape_clean h k (pm_shape pm)" "k' \<noteq> k" for k'
    using that r(4) by (cases k') (simp_all add: pm_get_named [OF wf'] pm_get_named [OF assms(1)] ip)
  show ?thesis using r(1,3) wf' gone keep pm_others_get [OF r(2)] ex by (simp add: delete_keys)
qed

theorem property_map_remove_witness:
  "\<exists>pm' h'. pm_remove list_index_map (snd empty_map) (fst empty_map) (PKSymbol 3) = Some (False, pm', h')"
proof -
  have "pm_get (snd empty_map) (fst empty_map) (PKSymbol 3) = Some None"
    by (simp add: pm_get_named empty_map_wf)
  with property_map_remove [OF empty_map_wf(1) list_index_map_laws, of "PKSymbol 3"] show ?thesis by auto
qed

text \<open>
  The invariant of property maps is met by the constructors, from any store of shapes, with an
  empty map of the given prototype.
\<close>
theorem property_map_constructors:
  assumes "shapes_wf h"
  shows "pm_wf (snd (from_prototype_unique_shape h p)) (fst (from_prototype_unique_shape h p)) \<and>
    (\<forall>a. shape_valid h (Shared a) \<longrightarrow> shape_entries h (Shared a) = [] \<longrightarrow>
      (\<exists>pm h'. from_prototype_with_shared_shape h a p = Some (pm, h') \<and> pm_wf h' pm \<and>
         shape_prototype h' (pm_shape pm) = Some p))"
  using unique_map_wf(1) [OF assms, of p] shared_map_wf [OF assms] by (metis prod.collapse shape_entries.simps(1) shape_valid.simps(1))

theorem property_map_constructors_witness:
  "pm_wf (snd (from_prototype_unique_shape (sh_empty (\<lambda>_ _. False)) (Some 1)))
     (fst (from_prototype_unique_shape (sh_empty (\<lambda>_ _. False)) (Some 1)))"
  using property_map_constructors [OF shapes_wf_empty] by blast

end
