(* ===== verification/InternalMethodFacts.thy ===== *)
theory InternalMethodFacts
  imports InternalMethods PropertyMapFacts
begin

text \<open>
  The objects that the engine reaches are in order (\<open>world_wf\<close>), and their methods are those of
  ordinary, immutable prototype, string or array objects (\<open>plain\<close>). Then the internal methods do not panic,
  reading is a search along the prototype chain, and defining a property is the compatible change of
  one property.
\<close>

section \<open>The invariant\<close>

definition object_wf :: "shape_heap \<Rightarrow> js_object \<Rightarrow> bool" where
  "object_wf h ob \<longleftrightarrow>
     pm_wf h (ob_properties ob) \<and>
     (\<forall>i d. indexed_get (pm_indexed (ob_properties ob)) i = Some d \<longrightarrow> fully_populated d) \<and>
     (ob_vtable ob = StringMethods \<longrightarrow> (\<exists>s. ob_data ob = StringData s))"

definition object_proto :: "'x object_world_scheme \<Rightarrow> js_object \<Rightarrow> js_prototype" where
  "object_proto w ob = shape_proto (ow_shapes w) (object_shape ob)"

definition world_wf :: "'x object_world_scheme \<Rightarrow> bool" where
  "world_wf w \<longleftrightarrow>
     (\<forall>a ob. ow_objects w a = Some ob \<longrightarrow> object_wf (ow_shapes w) ob) \<and>
     (\<forall>a b oa ob u. ow_objects w a = Some oa \<longrightarrow> ow_objects w b = Some ob \<longrightarrow>
        object_shape oa = Unique u \<longrightarrow> object_shape ob = Unique u \<longrightarrow> a = b) \<and>
     (\<forall>a ob p. ow_objects w a = Some ob \<longrightarrow> object_proto w ob = Some p \<longrightarrow> ow_objects w p \<noteq> None)"

definition plain :: "'x object_world_scheme \<Rightarrow> bool" where
  "plain w \<longleftrightarrow> (\<forall>a ob n. ow_objects w a = Some ob \<longrightarrow> ob_vtable ob \<noteq> OtherMethods n)"

lemma world_wfD:
  assumes "world_wf w" "ow_objects w a = Some ob"
  shows "object_wf (ow_shapes w) ob" "pm_wf (ow_shapes w) (ob_properties ob)"
    "shape_valid (ow_shapes w) (object_shape ob)" "shapes_wf (ow_shapes w)"
proof -
  show "object_wf (ow_shapes w) ob" using assms by (simp add: world_wf_def)
  then show "pm_wf (ow_shapes w) (ob_properties ob)" by (simp add: object_wf_def)
  then show "shape_valid (ow_shapes w) (object_shape ob)" "shapes_wf (ow_shapes w)"
    by (simp_all add: pm_wf_def object_shape_def)
qed

lemma not_overriding [simp]: "plain w \<Longrightarrow> ow_objects w a = Some ob \<Longrightarrow> overriding E (ob_vtable ob) m = None"
  by (cases "ob_vtable ob") (auto simp: plain_def overriding_def)

text \<open>The properties of an object: those it stores, and the characters of a string.\<close>

definition stored_property :: "'x object_world_scheme \<Rightarrow> obj_addr \<Rightarrow> property_key \<Rightarrow> property_descriptor option" where
  "stored_property w a key =
     (case ow_objects w a of
        None \<Rightarrow> None
      | Some ob \<Rightarrow> Option.bind (pm_get (ow_shapes w) (ob_properties ob) key) id)"

definition own_property :: "'x object_world_scheme \<Rightarrow> obj_addr \<Rightarrow> property_key \<Rightarrow> property_descriptor option" where
  "own_property w a key =
     (case stored_property w a key of
        Some d \<Rightarrow> Some d
      | None \<Rightarrow>
          (case ow_objects w a of
             Some ob \<Rightarrow> if ob_vtable ob = StringMethods then Option.bind (string_get_own_property ob key) id else None
           | None \<Rightarrow> None))"

text \<open>The slot that a lookup reports.\<close>

definition own_slot :: "'x object_world_scheme \<Rightarrow> obj_addr \<Rightarrow> property_key \<Rightarrow> slot \<Rightarrow> slot" where
  "own_slot w a key s =
     (case ow_objects w a of
        None \<Rightarrow> s
      | Some ob \<Rightarrow>
          if is_index_key key then s
          else (case shape_lookup (ow_shapes w) (object_shape ob) key of
              Some (Some slot) \<Rightarrow>
                \<lparr>sl_index = sl_index slot,
                 sl_attributes = ((sl_attributes s AND SLOT_INLINE_CACHE_BITS) OR sl_attributes slot) OR SLOT_FOUND\<rparr>
            | _ \<Rightarrow> s))"

lemma pm_get_total: "pm_wf h pm \<Longrightarrow> \<exists>r. pm_get h pm key = Some r"
  by (auto simp: pm_get_named split: property_key.split)

lemma pm_get_with_slot_eq:
  assumes "pm_wf h pm"
  shows "pm_get_with_slot h pm key s =
    map_option (\<lambda>r. (r, if is_index_key key then s
       else (case shape_lookup h (pm_shape pm) key of
              Some (Some slot) \<Rightarrow>
                \<lparr>sl_index = sl_index slot,
                 sl_attributes = ((sl_attributes s AND SLOT_INLINE_CACHE_BITS) OR sl_attributes slot) OR SLOT_FOUND\<rparr>
            | _ \<Rightarrow> s))) (pm_get h pm key)"
  by (cases key)
    (auto simp: pm_get_with_slot_def pm_get_def pm_lookup [OF assms] map_option_bind split: option.split)

lemma ordinary_get_own_property_run [run_simps]:
  assumes "world_wf w" "ow_objects w a = Some ob"
  shows "ordinary_get_own_property a key (w, s) = Some (Inr (stored_property w a key), (w, own_slot w a key s))"
proof -
  obtain r where "pm_get (ow_shapes w) (ob_properties ob) key = Some r"
    using pm_get_total [OF world_wfD(2) [OF assms]] by blast
  then show ?thesis
    by (simp add: ordinary_get_own_property_def stored_property_def own_slot_def object_shape_def assms(2)
        pm_get_with_slot_eq [OF world_wfD(2) [OF assms]])
qed

lemma string_get_own_property_total:
  "object_wf h ob \<Longrightarrow> ob_vtable ob = StringMethods \<Longrightarrow> \<exists>r. string_get_own_property ob key = Some r"
  by (auto simp: object_wf_def string_get_own_property_def split: property_key.split)

lemma get_own_property_run [run_simps]:
  assumes "world_wf w" "plain w" "ow_objects w a = Some ob"
  shows "get_own_property E a key (w, s) = Some (Inr (own_property w a key), (w, own_slot w a key s))"
proof (cases "ob_vtable ob = StringMethods")
  case True
  obtain r where "string_get_own_property ob key = Some r"
    using string_get_own_property_total [OF world_wfD(1) [OF assms(1,3)] True] by blast
  with True assms show ?thesis
    by (simp add: get_own_property_def run_simps string_exotic_get_own_property_def own_property_def run_unwrap_def
        split: option.split)
next
  case False
  with assms show ?thesis
    by (simp add: get_own_property_def run_simps own_property_def split: option.split)
qed

lemma get_prototype_of_run [run_simps]:
  assumes "world_wf w" "plain w" "ow_objects w a = Some ob"
  shows "get_prototype_of E a w = Some (Inr (object_proto w ob), w)"
  using assms world_wfD(3) [OF assms(1,3)]
  by (simp add: get_prototype_of_def ordinary_get_prototype_of_def object_prototype_def run_simps
      shape_prototype_spec object_proto_def)

lemma object_prototype_run [run_simps]:
  assumes "world_wf w" "ow_objects w a = Some ob"
  shows "object_prototype a w = Some (Inr (object_proto w ob), w)"
  using assms world_wfD(3) [OF assms]
  by (simp add: object_prototype_def run_simps shape_prototype_spec object_proto_def)

lemma is_extensible_run [run_simps]:
  assumes "plain w" "ow_objects w a = Some ob"
  shows "is_extensible E a w = Some (Inr (ob_extensible ob), w)"
  using assms by (simp add: is_extensible_def ordinary_is_extensible_def run_simps)

lemma method_binds:
  assumes "world_wf w" "plain w" "ow_objects w a = Some ob"
  shows "run_bind (get_own_property E a key) f (w, s) = f (own_property w a key) (w, own_slot w a key s)"
    "run_bind (in_context (get_prototype_of E a)) g (w, s) = g (object_proto w ob) (w, s)"
    "run_bind (get_prototype_of E a) g' w = g' (object_proto w ob) w"
    "run_bind (in_context (is_extensible E a)) h (w, s) = h (ob_extensible ob) (w, s)"
    "run_bind (is_extensible E a) h' w = h' (ob_extensible ob) w"
    "run_bind (in_context (object_borrow a)) b (w, s) = b ob (w, s)"
  using assms by (simp_all add: run_bind_def run_simps in_context_def)

section \<open>Validation of a change\<close>

text \<open>
  The changes that the standard allows of a property \<open>current\<close>: all of a configurable one; of
  another no change of attributes or kind, except that a writable data property may become
  read-only, and a value or a function may only be set to itself.
\<close>

definition same_field :: "js_value option \<Rightarrow> js_value option \<Rightarrow> bool" where
  "same_field new old \<longleftrightarrow> (case new of None \<Rightarrow> True | Some v \<Rightarrow> same_value v (the old))"

definition allowed_change :: "property_descriptor \<Rightarrow> property_descriptor \<Rightarrow> bool" where
  "allowed_change current desc \<longleftrightarrow>
     is_empty_descriptor desc \<or> pd_configurable current = Some True \<or>
     pd_configurable desc \<noteq> Some True \<and> (pd_enumerable desc = None \<or> pd_enumerable desc = pd_enumerable current) \<and>
     (is_generic_descriptor desc \<or>
      is_data_descriptor desc \<and> is_data_descriptor current \<and>
        (pd_writable current = Some True \<or> pd_writable desc \<noteq> Some True \<and> same_field (pd_value desc) (pd_value current)) \<or>
      is_accessor_descriptor desc \<and> is_accessor_descriptor current \<and>
        same_field (pd_set desc) (pd_set current) \<and> same_field (pd_get desc) (pd_get current))"

text \<open>Whether an allowed change is only confirmed, with nothing written.\<close>

definition unchanged :: "property_descriptor \<Rightarrow> property_descriptor \<Rightarrow> bool" where
  "unchanged current desc \<longleftrightarrow>
     is_empty_descriptor desc \<or>
     pd_configurable current = Some False \<and>
     (is_data_descriptor desc \<and> is_data_descriptor current \<and> pd_writable current = Some False \<or>
      is_accessor_descriptor desc \<and> is_accessor_descriptor current)"

text \<open>The property after the change: fields of \<open>desc\<close> where present, of the old property if of the same kind.\<close>

definition converted :: "property_descriptor \<Rightarrow> property_descriptor \<Rightarrow> property_descriptor" where
  "converted current desc =
     (if is_generic_descriptor desc \<or> is_data_descriptor current = is_data_descriptor desc then current
      else if is_data_descriptor current then into_accessor_defaulted current
      else into_data_defaulted current)"

definition merged :: "property_descriptor \<Rightarrow> property_descriptor \<Rightarrow> property_descriptor" where
  "merged current desc = the (fill_with (converted current desc) desc)"

lemma populated_cases:
  assumes "fully_populated d"
  obtains e c v w where "d = \<lparr>pd_enumerable = Some e, pd_configurable = Some c, pd_kind = Data (Some v) (Some w)\<rparr>"
  | e c g s where "d = \<lparr>pd_enumerable = Some e, pd_configurable = Some c, pd_kind = Accessor (Some g) (Some s)\<rparr>"
  using assms by (cases d; cases "pd_kind d") (auto simp: fully_populated_def)

lemma validate_change_spec:
  assumes "fully_populated current"
  shows "validate_change True desc current =
    Some (if \<not> allowed_change current desc then Answer False
      else if unchanged current desc then Answer True
      else Fill (converted current desc))"
  using assms
  by (rule populated_cases; cases "pd_kind desc"; cases "pd_enumerable desc")
    (auto simp: validate_change_def allowed_change_def unchanged_def converted_def desc_simps same_field_def
      split: option.splits)

lemma merged_fill:
  assumes "fully_populated current"
  shows "fill_with (converted current desc) desc = Some (merged current desc)" and "fully_populated (merged current desc)"
proof -
  have f: "fully_populated (converted current desc)"
    using assms by (rule populated_cases)
      (auto simp: converted_def into_accessor_defaulted_def into_data_defaulted_def fully_populated_def desc_simps)
  have "kinds_compatible (converted current desc) desc"
    using assms by (rule populated_cases; cases "pd_kind desc")
      (auto simp: converted_def kinds_compatible_def into_accessor_defaulted_def into_data_defaulted_def desc_simps)
  then show m: "fill_with (converted current desc) desc = Some (merged current desc)"
    using fill_with_panics_iff [of "converted current desc" desc] by (auto simp: merged_def)
  show "fully_populated (merged current desc)" by (rule fill_with_fully_populated [OF f m])
qed

text \<open>What a new property is.\<close>

definition created :: "property_descriptor \<Rightarrow> property_descriptor" where
  "created desc =
     (if is_generic_descriptor desc \<or> is_data_descriptor desc then into_data_defaulted desc
      else into_accessor_defaulted desc)"

lemma created_complete: "created desc = complete_with_defaults desc"
  by (cases "pd_kind desc")
    (simp_all add: created_def complete_with_defaults_def into_accessor_defaulted_def into_data_defaulted_def
      is_generic_descriptor_def is_data_descriptor_def)

lemma created_populated: "fully_populated (created desc)"
  unfolding created_complete by (rule fully_populated_complete)

section \<open>Changes of one object\<close>

definition proto_of :: "'x object_world_scheme \<Rightarrow> obj_addr \<Rightarrow> js_prototype" where
  "proto_of w a = (case ow_objects w a of None \<Rightarrow> None | Some ob \<Rightarrow> object_proto w ob)"

text \<open>
  \<open>frame w a w'\<close>: from \<open>w\<close> to \<open>w'\<close> only the object \<open>a\<close> changed, the shared shapes are as they were,
  and everything is in order.
\<close>

definition shared_kept :: "shape_heap \<Rightarrow> shape_heap \<Rightarrow> bool" where
  "shared_kept h h' \<longleftrightarrow>
     (\<forall>s. shape_valid h (Shared s) \<longrightarrow> shape_valid h' (Shared s) \<and>
        shape_entries h' (Shared s) = shape_entries h (Shared s) \<and> shape_proto h' (Shared s) = shape_proto h (Shared s))"

lemma shared_kept_refl [simp]: "shared_kept h h"
  by (simp add: shared_kept_def)

lemma shared_kept_trans: "shared_kept g h \<Longrightarrow> shared_kept h k \<Longrightarrow> shared_kept g k"
  by (simp add: shared_kept_def del: shape_valid.simps shape_entries.simps shape_proto.simps)

definition frame :: "'x object_world_scheme \<Rightarrow> obj_addr \<Rightarrow> 'x object_world_scheme \<Rightarrow> bool" where
  "frame w a w' \<longleftrightarrow>
     world_wf w' \<and> dom (ow_objects w') = dom (ow_objects w) \<and> shared_kept (ow_shapes w) (ow_shapes w') \<and>
     (\<forall>b. b \<noteq> a \<longrightarrow> ow_objects w' b = ow_objects w b \<and> proto_of w' b = proto_of w b \<and>
        (\<forall>key. stored_property w' b key = stored_property w b key))"

lemma frame_refl: "world_wf w \<Longrightarrow> frame w a w"
  by (simp add: frame_def)

lemma frame_trans: "frame w a w' \<Longrightarrow> frame w' a w'' \<Longrightarrow> frame w a w''"
  using shared_kept_trans by (auto simp: frame_def)

lemma shape_step_map:
  assumes s: "shape_step h h' r r' es p" and q: "pm_wf h q" "\<forall>u. pm_shape q = Unique u \<longrightarrow> pm_shape q \<noteq> r"
  shows "pm_wf h' q" "pm_named h' q = pm_named h q" "shape_proto h' (pm_shape q) = shape_proto h (pm_shape q)"
    "shape_valid h (pm_shape q)" "shape_valid h' (pm_shape q)"
    "\<And>k. pm_get h' q k = pm_get h q k"
proof -
  have v: "shape_valid h (pm_shape q)" using q(1) by (simp add: pm_wf_def)
  then have k: "shape_valid h' (pm_shape q) \<and> shape_entries h' (pm_shape q) = shape_entries h (pm_shape q) \<and>
      shape_proto h' (pm_shape q) = shape_proto h (pm_shape q)"
    using shape_stepD(5) [OF s] q(2) by blast
  then show wf: "pm_wf h' q" and n: "pm_named h' q = pm_named h q"
    using q(1) shape_stepD(1) [OF s] by (simp_all add: pm_wf_def pm_named_def pm_contents_def pm_entries_def)
  show "shape_proto h' (pm_shape q) = shape_proto h (pm_shape q)" "shape_valid h (pm_shape q)"
    "shape_valid h' (pm_shape q)" using k v by simp_all
  show "pm_get h' q k = pm_get h q k" for k
    by (simp add: pm_get_named [OF wf] pm_get_named [OF q(1)] n split: property_key.split)
qed

lemma put_properties_frame:
  assumes wf: "world_wf w" and a: "ow_objects w a = Some ob"
    and s: "shape_step (ow_shapes w) h' (object_shape ob) (pm_shape pm) es p"
    and ob: "object_wf h' (ob\<lparr>ob_properties := pm\<rparr>)"
    and p: "\<And>q. p = Some q \<Longrightarrow> ow_objects w q \<noteq> None"
  shows "frame w a (put_properties a ob pm h' w)" and "proto_of (put_properties a ob pm h' w) a = p"
proof -
  let ?w = "put_properties a ob pm h' w"
  have other: "pm_wf h' (ob_properties oq)" "shape_proto h' (object_shape oq) = shape_proto (ow_shapes w) (object_shape oq)"
    "\<And>k. pm_get h' (ob_properties oq) k = pm_get (ow_shapes w) (ob_properties oq) k"
    "shape_valid (ow_shapes w) (object_shape oq)"
    if q: "q \<noteq> a" "ow_objects w q = Some oq" for q oq
  proof -
    have u: "\<forall>u. pm_shape (ob_properties oq) = Unique u \<longrightarrow> pm_shape (ob_properties oq) \<noteq> object_shape ob"
      using wf a q by (metis object_shape_def world_wf_def)
    note m = shape_step_map [OF s world_wfD(2) [OF wf q(2)] u]
    show "pm_wf h' (ob_properties oq)" "\<And>k. pm_get h' (ob_properties oq) k = pm_get (ow_shapes w) (ob_properties oq) k"
      by (rule m(1), rule m(6))
    show "shape_proto h' (object_shape oq) = shape_proto (ow_shapes w) (object_shape oq)"
      "shape_valid (ow_shapes w) (object_shape oq)" using m by (simp_all add: object_shape_def)
  qed
  have owf: "object_wf h' oq" if "q \<noteq> a" "ow_objects w q = Some oq" for q oq
    using world_wfD(1) [OF wf that(2)] other(1) [OF that] by (simp add: object_wf_def)
  have un: "b = c" if "ow_objects ?w b = Some ob1" "ow_objects ?w c = Some ob2"
      "object_shape ob1 = Unique u" "object_shape ob2 = Unique u" for b c ob1 ob2 u
  proof -
    have new: False if "q \<noteq> a" "ow_objects w q = Some oq" "object_shape oq = Unique u" "pm_shape pm = Unique u" for q oq
      using shape_stepD(6) [OF s that(4)] other(4) [OF that(1,2)] that wf a unfolding world_wf_def by metis
    show ?thesis
    proof (cases "b = a"; cases "c = a")
      assume "b = a" "c \<noteq> a" then show ?thesis using that new [of c ob2] by (auto simp: put_properties_def object_shape_def)
    next
      assume "b \<noteq> a" "c = a" then show ?thesis using that new [of b ob1] by (auto simp: put_properties_def object_shape_def)
    next
      assume "b \<noteq> a" "c \<noteq> a"
      then show ?thesis using that wf unfolding world_wf_def put_properties_def by (simp add: fun_upd_apply)
    qed simp
  qed
  have pr: "object_proto ?w oq = object_proto w oq" if "q \<noteq> a" "ow_objects w q = Some oq" for q oq
    using other(2) [OF that] by (simp add: object_proto_def put_properties_def)
  have pa: "object_proto ?w (ob\<lparr>ob_properties := pm\<rparr>) = p"
    using shape_stepD(4) [OF s] by (simp add: object_proto_def put_properties_def object_shape_def)
  show "proto_of ?w a = p" using pa by (simp add: proto_of_def put_properties_def)
  have dm: "dom (ow_objects ?w) = dom (ow_objects w)" using a by (auto simp: put_properties_def)
  have ex: "ow_objects ?w q \<noteq> None" if "ow_objects ?w b = Some oq" "object_proto ?w oq = Some q" for b oq q
  proof -
    have "ow_objects w q \<noteq> None"
    proof (cases "b = a")
      case True
      with that pa p show ?thesis by (simp add: put_properties_def)
    next
      case False
      then have "ow_objects w b = Some oq" using that(1) by (simp add: put_properties_def)
      with pr [OF False this] that(2) wf show ?thesis unfolding world_wf_def by metis
    qed
    then show ?thesis using dm by (auto simp: put_properties_def)
  qed
  have "world_wf ?w"
    unfolding world_wf_def
  proof (intro conjI allI impI)
    fix b oq assume "ow_objects ?w b = Some oq"
    then show "object_wf (ow_shapes ?w) oq"
      using ob owf [of b oq] by (cases "b = a") (auto simp: put_properties_def)
  qed (use un ex in blast)+
  moreover have "shared_kept (ow_shapes w) (ow_shapes ?w)"
    unfolding shared_kept_def using shape_stepD(5) [OF s] by (auto simp: put_properties_def simp del: shape_valid.simps shape_entries.simps shape_proto.simps)
  ultimately show "frame w a ?w"
    unfolding frame_def using dm pr other(3)
    by (auto simp: proto_of_def stored_property_def put_properties_def split: option.split)
qed

text \<open>What is seen of a property: its descriptor with the representation of numbers forgotten.\<close>

definition property_view ::
  "'x object_world_scheme \<Rightarrow> obj_addr \<Rightarrow> property_key \<Rightarrow> (bool option \<times> bool option \<times> language_kind) option" where
  "property_view w a key = map_option desc_lang (stored_property w a key)"

lemma desc_lang_populated: "desc_lang d = desc_lang e \<Longrightarrow> fully_populated d = fully_populated e"
  by (cases "pd_kind d"; cases "pd_kind e") (auto simp: desc_lang_def fully_populated_def map_option_case split: option.splits)

text \<open>The size of the storage, from what the properties are.\<close>

definition view_width :: "(bool option \<times> bool option \<times> language_kind) option \<Rightarrow> nat" where
  "view_width v = (case v of Some (_, _, LAccessor _ _) \<Rightarrow> 2 | _ \<Rightarrow> 1)"

lemma view_width_descriptor: "view_width (Some (desc_lang (descriptor_of at vs))) = attributes_width at"
  by (simp add: view_width_def desc_lang_def descriptor_of_def attributes_width_def)

lemma storage_size:
  assumes "pm_wf h pm"
  shows "length (pm_storage pm) =
    (\<Sum>k\<in>fst ` set (pm_named h pm). view_width (map_option desc_lang (map_of (pm_named h pm) k)))"
proof -
  let ?n = "pm_named h pm" and ?es = "pm_entries h pm"
  let ?f = "\<lambda>k. view_width (map_option desc_lang (map_of ?n k))"
  have d: "distinct (map fst ?n)" using pm_entries_distinct [OF assms] by (simp add: distinct_keys_def)
  have "map ?f (map fst ?n) = map snd (key_widths ?es)"
  proof (rule nth_equalityI)
    fix i assume "i < length (map ?f (map fst ?n))"
    then have i: "i < length ?es" by (simp del: pm_named_keys)
    then have "map_of ?n (fst (?n ! i)) = Some (snd (?n ! i))"
      using d by (intro map_of_is_SomeI) simp_all
    moreover have "snd (?n ! i) = descriptor_of (snd (?es ! i)) (snd (pm_contents h pm ! i))"
      using i by (simp add: pm_named_def named_def)
    moreover have "map ?f (map fst ?n) ! i = ?f (fst (?n ! i))" using i by (simp del: pm_named_keys)
    ultimately show "map ?f (map fst ?n) ! i = map snd (key_widths ?es) ! i"
      using i by (simp add: view_width_descriptor key_widths_def split_def del: pm_named_keys)
  qed (simp add: key_widths_def del: pm_named_keys)
  moreover have "length (pm_storage pm) = sum_list (map snd (key_widths ?es))"
    using assms by (simp add: pm_wf_def)
  ultimately have "length (pm_storage pm) = sum_list (map ?f (map fst ?n))" by (simp only:)
  also have "\<dots> = sum ?f (set (map fst ?n))" using d by (rule sum_list_distinct_conv_sum_set)
  finally show ?thesis by (simp only: set_map)
qed

text \<open>
  \<open>changed w a key v w'\<close>: the property \<open>key\<close> of \<open>a\<close> became \<open>v\<close>; nothing else of \<open>a\<close> changed but,
  when the shape was not rolled back faithfully, the attributes of its other named properties. A
  change of an element, and a faithful one that keeps the width of the property, keeps the size of
  the storage.
\<close>

definition changed ::
  "'x object_world_scheme \<Rightarrow> obj_addr \<Rightarrow> property_key \<Rightarrow>
     (bool option \<times> bool option \<times> language_kind) option \<Rightarrow> bool \<Rightarrow> 'x object_world_scheme \<Rightarrow> bool" where
  "changed w a key v faithful w' \<longleftrightarrow>
     frame w a w' \<and> proto_of w' a = proto_of w a \<and> property_view w' a key = v \<and>
     (\<forall>k. k \<noteq> key \<longrightarrow> (stored_property w' a k = None) = (stored_property w a k = None)) \<and>
     (faithful \<longrightarrow> (\<forall>k. k \<noteq> key \<longrightarrow> property_view w' a k = property_view w a k)) \<and>
     (\<forall>ob. ow_objects w a = Some ob \<longrightarrow> (\<exists>pm. ow_objects w' a = Some (ob\<lparr>ob_properties := pm\<rparr>) \<and>
        (is_index_key key \<or>
         faithful \<and> v \<noteq> None \<and> property_view w a key \<noteq> None \<and> view_width v = view_width (property_view w a key) \<longrightarrow>
           length (pm_storage pm) = length (pm_storage (ob_properties ob)))))"

definition faithful_insert :: "'x object_world_scheme \<Rightarrow> obj_addr \<Rightarrow> property_key \<Rightarrow> property_descriptor \<Rightarrow> bool" where
  "faithful_insert w a key d \<longleftrightarrow>
     (\<forall>ob. ow_objects w a = Some ob \<longrightarrow> is_index_key key \<or> insert_faithful (ow_shapes w) (ob_properties ob) key d)"

definition faithful_remove :: "'x object_world_scheme \<Rightarrow> obj_addr \<Rightarrow> property_key \<Rightarrow> bool" where
  "faithful_remove w a key \<longleftrightarrow>
     (\<forall>ob. ow_objects w a = Some ob \<longrightarrow> is_index_key key \<or> shape_clean (ow_shapes w) key (object_shape ob))"

definition room :: "'x object_world_scheme \<Rightarrow> obj_addr \<Rightarrow> bool" where
  "room w a \<longleftrightarrow> (\<forall>ob. ow_objects w a = Some ob \<longrightarrow> length (pm_storage (ob_properties ob)) + 2 \<le> 2 ^ 32)"

lemma stored_property_put:
  "stored_property (put_properties a ob pm h w) a k = Option.bind (pm_get h pm k) id"
  by (simp add: stored_property_def put_properties_def)

lemma stored_property_index:
  "ow_objects w a = Some ob \<Longrightarrow> stored_property w a (PKIndex i) = indexed_get (pm_indexed (ob_properties ob)) i"
  by (simp add: stored_property_def pm_get_def)

lemma stored_property_named:
  assumes "world_wf w" "ow_objects w a = Some ob" "\<not> is_index_key k"
  shows "stored_property w a k = map_of (pm_named (ow_shapes w) (ob_properties ob)) k"
  using pm_get_spec [OF world_wfD(2) [OF assms(1,2)] assms(3)] assms(2) by (simp add: stored_property_def)

text \<open>A change of the indexed properties only.\<close>

lemma changed_indexed:
  assumes wf: "world_wf w" and a: "ow_objects w a = Some ob"
    and st: "stores (b, ip) ((indexed_view (pm_indexed (ob_properties ob)))(i := v)) b'"
    and v: "\<And>d. v = Some d \<Longrightarrow> \<exists>d'. d = desc_lang d' \<and> fully_populated d'"
  shows "changed w a (PKIndex i) v f (put_properties a ob ((ob_properties ob)\<lparr>pm_indexed := ip\<rparr>) (ow_shapes w) w)"
proof -
  let ?pm = "(ob_properties ob)\<lparr>pm_indexed := ip\<rparr>"
  let ?w = "put_properties a ob ?pm (ow_shapes w) w"
  have view: "indexed_view ip = (indexed_view (pm_indexed (ob_properties ob)))(i := v)" and ip: "indexed_wf ip"
    using st by (simp_all add: stores_def)
  have pop: "fully_populated d" if "indexed_get ip k = Some d" for k d
  proof (cases "k = i")
    case True
    then have "v = Some (desc_lang d)" using fun_cong [OF view, of k] that by (simp add: indexed_view_def)
    then obtain d' where "desc_lang d = desc_lang d'" "fully_populated d'" using v by blast
    then show ?thesis using desc_lang_populated [of d d'] by simp
  next
    case False
    then obtain d' where d': "indexed_get (pm_indexed (ob_properties ob)) k = Some d'" "desc_lang d = desc_lang d'"
      using fun_cong [OF view, of k] \<open>indexed_get ip k = Some d\<close>
      by (cases "indexed_get (pm_indexed (ob_properties ob)) k") (auto simp: indexed_view_def)
    have "fully_populated d'" using world_wfD(1) [OF wf a] d'(1) by (simp add: object_wf_def)
    then show ?thesis using desc_lang_populated [OF d'(2)] by simp
  qed
  have pw: "pm_wf (ow_shapes w) ?pm"
    using world_wfD(2) [OF wf a] ip by (simp add: pm_wf_def pm_entries_def)
  then have "object_wf (ow_shapes w) (ob\<lparr>ob_properties := ?pm\<rparr>)"
    using pop world_wfD(1) [OF wf a] by (simp add: object_wf_def)
  moreover have "shape_step (ow_shapes w) (ow_shapes w) (object_shape ob) (pm_shape ?pm)
      (shape_entries (ow_shapes w) (object_shape ob)) (object_proto w ob)"
    using shape_step_refl [OF world_wfD(4,3) [OF wf a]] by (simp add: object_shape_def object_proto_def)
  moreover have "ow_objects w q \<noteq> None" if "object_proto w ob = Some q" for q
    using wf a that unfolding world_wf_def by blast
  ultimately have fr: "frame w a ?w" "proto_of ?w a = object_proto w ob"
    using put_properties_frame [OF wf a] by blast+
  have n: "pm_named (ow_shapes w) ?pm = pm_named (ow_shapes w) (ob_properties ob)"
    by (simp add: pm_named_def pm_contents_def pm_entries_def)
  have get: "property_view ?w a k = (if k = PKIndex i then v else property_view w a k)" for k
  proof (cases k)
    case (PKIndex j)
    then show ?thesis
      using fun_cong [OF view, of j] a
      by (simp add: property_view_def stored_property_put stored_property_index pm_get_def indexed_view_def)
  qed (use n pw in \<open>simp_all add: property_view_def stored_property_put stored_property_named [OF wf a] pm_get_spec\<close>)
  then have "(stored_property ?w a k = None) = (stored_property w a k = None)" if "k \<noteq> PKIndex i" for k
    using that by (metis property_view_def map_option_is_None)
  then show ?thesis
    using fr get a by (auto simp: changed_def proto_of_def put_properties_def)
qed

lemma changed_named:
  assumes wf: "world_wf w" and a: "ow_objects w a = Some ob" and k: "\<not> is_index_key key"
    and s: "pm_step (ow_shapes w) h (ob_properties ob) pm"
    and keys: "fst ` set (pm_named h pm) - {key} = fst ` set (pm_named (ow_shapes w) (ob_properties ob)) - {key}"
    and val: "map_option desc_lang (map_of (pm_named h pm) key) = v"
    and f: "f \<Longrightarrow> \<forall>k. k \<noteq> key \<longrightarrow> map_of (pm_named h pm) k = map_of (pm_named (ow_shapes w) (ob_properties ob)) k"
  shows "changed w a key v f (put_properties a ob pm h w)"
proof -
  let ?w = "put_properties a ob pm h w"
  have pw: "pm_wf h pm" and ip: "pm_indexed pm = pm_indexed (ob_properties ob)"
    and sh: "shape_step (ow_shapes w) h (object_shape ob) (pm_shape pm) (pm_entries h pm) (object_proto w ob)"
    using s by (simp_all add: pm_step_def object_shape_def object_proto_def)
  have "object_wf h (ob\<lparr>ob_properties := pm\<rparr>)"
    using pw ip world_wfD(1) [OF wf a] by (simp add: object_wf_def)
  moreover have "ow_objects w q \<noteq> None" if "object_proto w ob = Some q" for q
    using wf a that unfolding world_wf_def by blast
  ultimately have fr: "frame w a ?w" "proto_of ?w a = object_proto w ob"
    using put_properties_frame [OF wf a sh] by blast+
  have named: "stored_property ?w a k = map_of (pm_named h pm) k" if "\<not> is_index_key k" for k
    using that by (simp add: stored_property_put pm_get_spec [OF pw])
  have old: "stored_property w a k = map_of (pm_named (ow_shapes w) (ob_properties ob)) k" if "\<not> is_index_key k" for k
    using that by (rule stored_property_named [OF wf a])
  have index: "stored_property ?w a (PKIndex i) = stored_property w a (PKIndex i)" for i
    by (simp add: stored_property_put stored_property_index [OF a] pm_get_def ip)
  have c1: "(stored_property ?w a k' = None) = (stored_property w a k' = None)" if "k' \<noteq> key" for k'
  proof (cases "is_index_key k'")
    case True with index show ?thesis by (cases k') simp_all
  next
    case False
    have "k' \<in> fst ` set (pm_named h pm) \<longleftrightarrow> k' \<in> fst ` set (pm_named (ow_shapes w) (ob_properties ob))"
      using keys that by blast
    then show ?thesis by (simp add: named [OF False] old [OF False] map_of_eq_None_iff)
  qed
  have c2: "property_view ?w a k' = property_view w a k'" if "f" "k' \<noteq> key" for k'
  proof (cases "is_index_key k'")
    case True with index show ?thesis by (cases k') (simp_all add: property_view_def)
  next
    case False with f that show ?thesis by (simp add: property_view_def named old)
  qed
  have c3: "property_view ?w a key = v" using val by (simp add: property_view_def named [OF k])
  have c4: "length (pm_storage pm) = length (pm_storage (ob_properties ob))"
    if l: "f" "v \<noteq> None" "property_view w a key \<noteq> None" "view_width v = view_width (property_view w a key)"
  proof -
    let ?n = "pm_named (ow_shapes w) (ob_properties ob)" and ?n' = "pm_named h pm"
    obtain x y where "map_of ?n key = Some x" "map_of ?n' key = Some y"
      using l val by (auto simp: property_view_def old [OF k])
    then have "key \<in> fst ` set ?n" "key \<in> fst ` set ?n'"
      by (auto dest: map_of_SomeD intro: image_eqI [where x = "(key, _)"] simp del: pm_named_keys)
    then have "fst ` set ?n' = fst ` set ?n" using keys insert_Diff by metis
    moreover have "view_width (map_option desc_lang (map_of ?n' x)) = view_width (map_option desc_lang (map_of ?n x))" for x
      using l f val by (cases "x = key") (simp_all add: property_view_def old [OF k])
    ultimately show ?thesis by (simp add: storage_size [OF pw] storage_size [OF world_wfD(2) [OF wf a]])
  qed
  have c5: "ow_objects ?w a = Some (ob\<lparr>ob_properties := pm\<rparr>)" "proto_of w a = object_proto w ob"
    using a by (simp_all add: put_properties_def proto_of_def)
  show ?thesis
    unfolding changed_def
  proof (intro conjI allI impI)
    show "frame w a ?w" "proto_of ?w a = proto_of w a" using fr c5(2) by simp_all
    show "property_view ?w a key = v" by (rule c3)
    show "(stored_property ?w a k = None) = (stored_property w a k = None)" if "k \<noteq> key" for k by (rule c1 [OF that])
    show "property_view ?w a k = property_view w a k" if "f" "k \<noteq> key" for k by (rule c2 [OF that])
    show "\<exists>pm. ow_objects ?w a = Some (ob'\<lparr>ob_properties := pm\<rparr>) \<and>
        (is_index_key key \<or>
         f \<and> v \<noteq> None \<and> property_view w a key \<noteq> None \<and> view_width v = view_width (property_view w a key) \<longrightarrow>
         length (pm_storage pm) = length (pm_storage (ob_properties ob')))" if "ow_objects w a = Some ob'" for ob'
    proof -
      have e: "ob' = ob" using that a by simp
      show ?thesis
        unfolding e
      proof (intro exI [of _ pm] conjI impI)
        show "ow_objects ?w a = Some (ob\<lparr>ob_properties := pm\<rparr>)" by (rule c5(1))
        assume "is_index_key key \<or> f \<and> v \<noteq> None \<and> property_view w a key \<noteq> None \<and>
          view_width v = view_width (property_view w a key)"
        with k have "f" "v \<noteq> None" "property_view w a key \<noteq> None" "view_width v = view_width (property_view w a key)"
          by simp_all
        then show "length (pm_storage pm) = length (pm_storage (ob_properties ob))" by (rule c4)
      qed
    qed
  qed
qed

definition valid_key :: "property_key \<Rightarrow> bool" where
  "valid_key key \<longleftrightarrow> key \<noteq> PKIndex u32_MAX"

text \<open>The slot \<open>s'\<close> is that of the named property \<open>key\<close>, with the cache bits of \<open>s\<close>.\<close>

definition slot_of ::
  "'x object_world_scheme \<Rightarrow> obj_addr \<Rightarrow> property_key \<Rightarrow> slot \<Rightarrow> slot \<Rightarrow> bool" where
  "slot_of w a key s s' \<longleftrightarrow>
     (\<exists>ob slot. ow_objects w a = Some ob \<and> shape_lookup (ow_shapes w) (object_shape ob) key = Some (Some slot) \<and>
        sl_index s' = sl_index slot \<and>
        sl_attributes s' = (sl_attributes s AND SLOT_INLINE_CACHE_BITS) OR sl_attributes slot)"

lemma world_insert:
  assumes wf: "world_wf w" and im: "index_map_laws (en_index_map E)" and a: "ow_objects w a = Some ob"
    and k: "valid_key key" and d: "fully_populated d" and r: "is_index_key key \<or> room w a"
  shows "\<exists>existed w' s'. object_insert_with_slot E a key d (w, s) = Some (Inr existed, (w', s')) \<and>
    changed w a key (Some (desc_lang d)) (faithful_insert w a key d) w' \<and>
    (if is_index_key key then s' = s else slot_of w' a key s s' \<and> stored_property w' a key = Some d)"
proof (cases "is_index_key key")
  case True
  then obtain i where i: "key = PKIndex i" by (cases key) auto
  obtain b ip where r: "indexed_insert (pm_indexed (ob_properties ob)) i d = (b, ip)" by fastforce
  have "stores (b, ip) ((indexed_view (pm_indexed (ob_properties ob)))(i := Some (desc_lang d)))
      (indexed_view (pm_indexed (ob_properties ob)) i \<noteq> None)"
    using stores_indexed_insert [of "pm_indexed (ob_properties ob)" i d] world_wfD(2) [OF wf a] k d r i
    by (simp add: pm_wf_def valid_key_def)
  from changed_indexed [OF wf a this] d
  have "changed w a key (Some (desc_lang d)) (faithful_insert w a key d)
      (put_properties a ob ((ob_properties ob)\<lparr>pm_indexed := ip\<rparr>) (ow_shapes w) w)"
    using i by auto
  then show ?thesis
    using True by (auto simp: object_insert_with_slot_def a i r pm_insert_with_slot_def)
next
  case False
  have "length (pm_storage (ob_properties ob)) + 2 \<le> 2 ^ 32" using r False a by (simp add: room_def)
  from pm_insert_step [OF world_wfD(2) [OF wf a] im False d this, of s] obtain pm s' h where
    i: "pm_insert_with_slot (en_index_map E) (ow_shapes w) (ob_properties ob) key d s =
        Some (key \<in> fst ` set (pm_named (ow_shapes w) (ob_properties ob)), pm, s', h)"
      "inserted (ow_shapes w) (ob_properties ob) key d s pm s' h" by blast
  let ?n = "pm_named (ow_shapes w) (ob_properties ob)" and ?w = "put_properties a ob pm h w"
  have n: "map fst (pm_named h pm) = map fst (AList.update key d ?n)" "map_of (pm_named h pm) key = Some d"
    "pm_step (ow_shapes w) h (ob_properties ob) pm"
    "insert_faithful (ow_shapes w) (ob_properties ob) key d \<longrightarrow> pm_named h pm = AList.update key d ?n"
    using i(2) by (simp_all add: inserted_def)
  have "fst ` set (pm_named h pm) = fst ` set (AList.update key d ?n)" unfolding set_map [symmetric] n(1) ..
  then have "fst ` set (pm_named h pm) = insert key (fst ` set ?n)" by (simp add: dom_update)
  then have "changed w a key (Some (desc_lang d)) (faithful_insert w a key d) ?w"
    by (intro changed_named [OF wf a False n(3)])
      (use n a False in \<open>auto simp: faithful_insert_def update_conv\<close>)
  moreover have "slot_of ?w a key s s'"
    using i(2) by (auto simp: inserted_def slot_of_def put_properties_def object_shape_def)
  moreover have "stored_property ?w a key = Some d"
    using n(2,3) False by (simp add: stored_property_put pm_step_def pm_get_spec)
  ultimately show ?thesis
    using False by (simp add: object_insert_with_slot_def a i(1))
qed

lemma world_remove:
  assumes wf: "world_wf w" and im: "index_map_laws (en_index_map E)" and a: "ow_objects w a = Some ob"
    and k: "valid_key key"
  shows "\<exists>existed w'. object_remove E a key w = Some (Inr existed, w') \<and>
    changed w a key None (faithful_remove w a key) w'"
proof (cases "is_index_key key")
  case True
  then obtain i where i: "key = PKIndex i" by (cases key) auto
  obtain b ip where r: "indexed_remove (pm_indexed (ob_properties ob)) i = (b, ip)" by fastforce
  have "stores (b, ip) ((indexed_view (pm_indexed (ob_properties ob)))(i := None))
      (indexed_view (pm_indexed (ob_properties ob)) i \<noteq> None)"
    using stores_indexed_remove [of "pm_indexed (ob_properties ob)" i] world_wfD(2) [OF wf a] k r i
    by (simp add: pm_wf_def valid_key_def)
  from changed_indexed [OF wf a this]
  have "changed w a key None (faithful_remove w a key)
      (put_properties a ob ((ob_properties ob)\<lparr>pm_indexed := ip\<rparr>) (ow_shapes w) w)"
    using i by auto
  then show ?thesis by (auto simp: object_remove_def a i r pm_remove_def)
next
  case False
  from pm_remove_step [OF world_wfD(2) [OF wf a] im False] obtain pm h where
    i: "pm_remove (en_index_map E) (ow_shapes w) (ob_properties ob) key =
        Some (key \<in> fst ` set (pm_named (ow_shapes w) (ob_properties ob)), pm, h)"
      "removed (ow_shapes w) (ob_properties ob) key pm h" by blast
  let ?n = "pm_named (ow_shapes w) (ob_properties ob)" and ?w = "put_properties a ob pm h w"
  have n: "map fst (pm_named h pm) = map fst (AList.delete key ?n)"
    "pm_step (ow_shapes w) h (ob_properties ob) pm"
    "shape_clean (ow_shapes w) key (pm_shape (ob_properties ob)) \<longrightarrow> pm_named h pm = AList.delete key ?n"
    using i(2) by (simp_all add: removed_def)
  have "fst ` set (pm_named h pm) = fst ` set (AList.delete key ?n)" unfolding set_map [symmetric] n(1) ..
  also have "\<dots> = fst ` set ?n - {key}"
    using arg_cong [OF delete_keys [of key ?n], of set] by (simp del: pm_named_keys)
  finally have keys: "fst ` set (pm_named h pm) = fst ` set ?n - {key}" .
  then have "map_of (pm_named h pm) key = None" by (simp add: map_of_eq_None_iff)
  then have "changed w a key None (faithful_remove w a key) ?w"
    by (intro changed_named [OF wf a False n(2)])
      (use n(3) a False keys in \<open>auto simp: faithful_remove_def object_shape_def delete_conv\<close>)
  then show ?thesis by (simp add: object_remove_def a i(1))
qed

section \<open>Defining and deleting\<close>

text \<open>
  The outcome of defining \<open>desc\<close>: the answer, and when it is yes the world in which the property is
  what the standard asks for.
\<close>

definition define_result ::
  "'x object_world_scheme \<Rightarrow> obj_addr \<Rightarrow> property_key \<Rightarrow> property_descriptor \<Rightarrow> bool \<Rightarrow> 'x object_world_scheme \<Rightarrow> bool" where
  "define_result w a key desc b w' \<longleftrightarrow>
     (case own_property w a key of
        None \<Rightarrow>
          (b \<longleftrightarrow> (\<exists>ob. ow_objects w a = Some ob \<and> ob_extensible ob)) \<and>
          (if b then changed w a key (Some (desc_lang (created desc))) (faithful_insert w a key (created desc)) w'
           else w' = w)
      | Some c \<Rightarrow>
          (b \<longleftrightarrow> allowed_change c desc) \<and>
          (if b \<and> \<not> unchanged c desc then
             changed w a key (Some (desc_lang (merged c desc))) (faithful_insert w a key (merged c desc)) w'
           else w' = w))"

lemma own_property_ordinary:
  "ow_objects w a = Some ob \<Longrightarrow> ob_vtable ob \<noteq> StringMethods \<Longrightarrow> own_property w a key = stored_property w a key"
  by (simp add: own_property_def split: option.split)

text \<open>
  Where the slot goes: for a named property that is written, it is that property's, marked found
  when the property was there.
\<close>

definition define_slot ::
  "'x object_world_scheme \<Rightarrow> obj_addr \<Rightarrow> property_key \<Rightarrow> slot \<Rightarrow> 'x object_world_scheme \<Rightarrow> slot \<Rightarrow> bool" where
  "define_slot w a key s w' s' \<longleftrightarrow>
     (\<exists>s1. (if is_index_key key then s1 = s else slot_of w' a key (own_slot w a key s) s1) \<and>
        s' = (if own_property w a key = None then s1 else s1\<lparr>sl_attributes := sl_attributes s1 OR SLOT_FOUND\<rparr>))"

lemma own_slot_index: "is_index_key key \<Longrightarrow> own_slot w a key s = s"
  by (simp add: own_slot_def split: option.split)

lemma ordinary_define_run:
  assumes wf: "world_wf w" "plain w" and im: "index_map_laws (en_index_map E)" and a: "ow_objects w a = Some ob"
    and k: "valid_key key" "is_index_key key \<or> room w a"
    and pop: "\<And>c. own_property w a key = Some c \<Longrightarrow> fully_populated c"
  shows "\<exists>b w' s'. ordinary_define_own_property E a key desc (w, s) = Some (Inr b, (w', s')) \<and>
    define_result w a key desc b w' \<and> (w' = w \<or> define_slot w a key s w' s')"
proof (cases "own_property w a key")
  case None
  note run = method_binds [OF wf a]
  show ?thesis
  proof (cases "ob_extensible ob")
    case True
    from world_insert [OF wf(1) im a k(1) created_populated k(2), of desc "own_slot w a key s"] obtain e w' s' where
      i: "object_insert_with_slot E a key (created desc) (w, own_slot w a key s) = Some (Inr e, (w', s'))"
      "changed w a key (Some (desc_lang (created desc))) (faithful_insert w a key (created desc)) w'"
      "if is_index_key key then s' = own_slot w a key s else slot_of w' a key (own_slot w a key s) s'"
      by (auto split: if_splits)
    have "define_slot w a key s w' s'" using i(3) None by (auto simp: define_slot_def own_slot_index)
    then show ?thesis
      using i(1,2) None True
      by (auto simp: ordinary_define_own_property_def run validate_and_apply_property_descriptor_def created_def [symmetric]
          run_bind_cases(1) run_return_def define_result_def a)
  next
    case False
    with None show ?thesis
      by (auto simp add: ordinary_define_own_property_def run validate_and_apply_property_descriptor_def run_return_def
          define_result_def a)
  qed
next
  case (Some c)
  note p = pop [OF Some] and run = method_binds [OF wf a]
  show ?thesis
  proof (cases "allowed_change c desc \<and> \<not> unchanged c desc")
    case True
    from world_insert [OF wf(1) im a k(1) merged_fill(2) [OF p] k(2), of desc "own_slot w a key s"] obtain e w' s' where
      i: "object_insert_with_slot E a key (merged c desc) (w, own_slot w a key s) = Some (Inr e, (w', s'))"
      "changed w a key (Some (desc_lang (merged c desc))) (faithful_insert w a key (merged c desc)) w'"
      "if is_index_key key then s' = own_slot w a key s else slot_of w' a key (own_slot w a key s) s'"
      by (auto split: if_splits)
    have "define_slot w a key s w' (s'\<lparr>sl_attributes := sl_attributes s' OR SLOT_FOUND\<rparr>)"
      using i(3) Some by (auto simp: define_slot_def own_slot_index intro!: exI [of _ s'])
    then show ?thesis
      using i(1,2) Some True
      by (auto simp: ordinary_define_own_property_def run validate_and_apply_property_descriptor_def
          validate_change_spec [OF p] merged_fill(1) [OF p] run_unwrap_bind run_bind_cases(1) slot_modify_bind
          run_return_def define_result_def)
  next
    case False
    then show ?thesis
      using Some
      by (auto simp: ordinary_define_own_property_def run validate_and_apply_property_descriptor_def
          validate_change_spec [OF p] run_unwrap_bind run_return_def define_result_def)
  qed
qed

text \<open>\<open>array_key ob key\<close>: the object is an array, which treats the key in its own way.\<close>

definition array_key :: "js_object \<Rightarrow> property_key \<Rightarrow> bool" where
  "array_key ob key \<longleftrightarrow> ob_vtable ob = ArrayMethods \<and> (is_index_key key \<or> key = length_key)"

lemma define_own_property_ordinary:
  assumes "plain w" "ow_objects w a = Some ob" "ob_vtable ob \<noteq> StringMethods" "\<not> array_key ob key"
  shows "define_own_property E a key desc (w, s) = ordinary_define_own_property E a key desc (w, s)"
  using assms
  by (cases key) (simp_all add: define_own_property_def array_exotic_define_own_property_def array_key_def run_simps)

lemma delete_run:
  assumes wf: "world_wf w" "plain w" and im: "index_map_laws (en_index_map E)" and a: "ow_objects w a = Some ob"
    and k: "valid_key key"
    and pop: "\<And>c. own_property w a key = Some c \<Longrightarrow> pd_configurable c \<noteq> None"
  shows "\<exists>b w' s'. delete_property E a key (w, s) = Some (Inr b, (w', s')) \<and>
    (case own_property w a key of
       None \<Rightarrow> b \<and> w' = w
     | Some c \<Rightarrow> (b \<longleftrightarrow> pd_configurable c = Some True) \<and>
         (if b then changed w a key None (faithful_remove w a key) w' else w' = w))"
proof -
  have d: "delete_property E a key (w, s) = ordinary_delete E a key (w, s)"
    using wf a by (simp add: delete_property_def run_simps)
  note run = method_binds [OF wf a]
  show ?thesis
  proof (cases "own_property w a key")
    case None
    then show ?thesis by (auto simp: d ordinary_delete_def run run_return_def)
  next
    case (Some c)
    then obtain b where b: "pd_configurable c = Some b" using pop by blast
    from world_remove [OF wf(1) im a k] obtain e w' where
      r: "object_remove E a key w = Some (Inr e, w')" "changed w a key None (faithful_remove w a key) w'" by blast
    show ?thesis
      using Some b r
      by (cases b) (auto simp: d ordinary_delete_def run run_unwrap_bind in_context_bind run_return_def)
  qed
qed

end
