(* ===== verification/SlotAccess.thy ===== *)
theory SlotAccess
  imports InternalMethodFacts
begin

text \<open>
  Access to the storage of an object by slot, as arrays and inline caches do it, and two facts that
  repeated changes of one object need: a change that keeps the kind of a property is faithful, and
  the size of the storage is a function of what the properties are.
\<close>

section \<open>Changes that keep the kind\<close>

lemma faithful_same_kind:
  assumes w: "world_wf w" and s: "stored_property w a k = Some c" and d: "fully_populated d"
    and eq: "is_data_descriptor c = is_data_descriptor d"
  shows "faithful_insert w a k d"
  unfolding faithful_insert_def
proof (intro allI impI)
  fix ob assume a: "ow_objects w a = Some ob"
  show "is_index_key k \<or> insert_faithful (ow_shapes w) (ob_properties ob) k d"
  proof (cases "is_index_key k")
    case False
    let ?es = "pm_entries (ow_shapes w) (ob_properties ob)"
    from s have "map_of (pm_named (ow_shapes w) (ob_properties ob)) k = Some c"
      by (simp add: stored_property_named [OF w a False])
    then obtain i vs where i: "position k ?es = Some i" "c = descriptor_of (snd (?es ! i)) vs"
      unfolding pm_named_def by (subst (asm) map_of_named) (auto simp: pm_contents_def key_widths_def)
    have "attributes_width (snd (?es ! i)) = length (values_of d)"
      using i(2) eq d
      by (cases "pd_kind d") (auto simp: descriptor_of_def values_of_def attributes_width_def is_data_descriptor_def
          fully_populated_def split: if_splits descriptor_kind.splits)
    with i(1) show ?thesis by (simp add: insert_faithful_def)
  qed simp
qed

text \<open>The room for a property is not touched by a change that keeps its width.\<close>

lemma changed_room:
  assumes "changed w a key v f w'" "ow_objects w a = Some ob"
    and "is_index_key key \<or>
      f \<and> v \<noteq> None \<and> property_view w a key \<noteq> None \<and> view_width v = view_width (property_view w a key)"
  shows "room w' a \<longleftrightarrow> room w a"
proof -
  from assms obtain pm where "ow_objects w' a = Some (ob\<lparr>ob_properties := pm\<rparr>)"
    "length (pm_storage pm) = length (pm_storage (ob_properties ob))" unfolding changed_def by blast
  then show ?thesis using assms(2) by (simp add: room_def)
qed

section \<open>Values in the storage\<close>

text \<open>A slot of a data property, and the element of the storage it stands for.\<close>

lemma pm_write_slot:
  assumes wf: "pm_wf h pm" and i: "position k (pm_entries h pm) = Some i"
    and d: "\<not> is_accessor_attributes (snd (pm_entries h pm ! i))"
  defines "j \<equiv> unat (sl_index (slot_at (pm_entries h pm) i))" and "a \<equiv> snd (pm_entries h pm ! i)"
  shows "j < length (pm_storage pm)"
    and "map_of (pm_named h pm) k = Some (descriptor_of a [pm_storage pm ! j])"
    and "pm_wf h (pm\<lparr>pm_storage := (pm_storage pm)[j := v]\<rparr>)"
    and "pm_named h (pm\<lparr>pm_storage := (pm_storage pm)[j := v]\<rparr>) = AList.update k (descriptor_of a [v]) (pm_named h pm)"
proof -
  let ?es = "pm_entries h pm" and ?pm = "pm\<lparr>pm_storage := (pm_storage pm)[j := v]\<rparr>"
  have il: "i < length ?es" "fst (?es ! i) = k" using position_Some_nth [OF i] by simp_all
  then have iw: "i < length (key_widths ?es)" by simp
  have aw: "attributes_width a = 1" using d by (simp add: attributes_width_def a_def)
  obtain s1 vs s2 where c: "pm_storage pm = s1 @ vs @ s2" "length s1 = layout_size (take i (key_widths ?es))"
    "length vs = snd (key_widths ?es ! i)" "length vs = attributes_width a" "j = length s1" "snd (pm_contents h pm ! i) = vs"
    using pm_cut [OF wf i] unfolding j_def a_def by metis
  obtain x where x: "vs = [x]" using c(4) aw by (auto simp: length_Suc_conv)
  show "j < length (pm_storage pm)" using c x by simp
  have es: "pm_entries h ?pm = ?es" by (simp add: pm_entries_def)
  show "pm_wf h ?pm" using wf by (simp add: pm_wf_def es)
  have "pm_storage pm ! j = x" unfolding c(1,5) x by simp
  then show "map_of (pm_named h pm) k = Some (descriptor_of a [pm_storage pm ! j])"
    using i c(6) x by (simp add: pm_named_def map_of_named a_def)
  have "(pm_storage pm)[j := v] = s1 @ [v] @ s2" unfolding c(1,5) x by (simp add: list_update_append)
  then have st: "pm_storage ?pm = s1 @ [v] @ s2" by simp
  have e: "?es[i := (k, a)] = ?es" using il by (metis a_def list_update_id prod.collapse)
  then have kw: "key_widths ?es = (key_widths ?es)[i := (k, attributes_width a)]"
    using key_widths_update [of ?es i k a] by simp
  have "contents (key_widths ?es) (s1 @ [v] @ s2) = (pm_contents h pm)[i := (k, [v])]"
    using contents_replace [OF iw c(2,3), of "[v]" "attributes_width a" k s2] aw
    unfolding kw [symmetric] by (simp add: pm_contents_def c(1))
  then have cs: "pm_contents h ?pm = (pm_contents h pm)[i := (k, [v])]"
    unfolding pm_contents_def es st .
  have dn: "distinct (map fst (pm_named h pm))" using pm_entries_distinct [OF wf] by (simp add: distinct_keys_def)
  have ln: "length (pm_named h pm) = length ?es" by simp
  have kn: "fst (pm_named h pm ! i) = k" using pm_named_nth [of i h pm] il by simp
  have u: "AList.update k (descriptor_of a [v]) (pm_named h pm) = (pm_named h pm)[i := (k, descriptor_of a [v])]"
    by (rule alist_update_nth [OF dn]) (use il ln kn in simp_all)
  have "pm_named h ?pm = named (?es[i := (k, a)]) ((pm_contents h pm)[i := (k, [v])])"
    unfolding pm_named_def es cs e ..
  then show "pm_named h ?pm = AList.update k (descriptor_of a [v]) (pm_named h pm)"
    unfolding u named_update by (simp add: pm_named_def)
qed

text \<open>\<open>data_slot w a key slot\<close>: the slot is where the object \<open>a\<close> keeps the value of its data property \<open>key\<close>.\<close>

definition data_slot :: "'x object_world_scheme \<Rightarrow> obj_addr \<Rightarrow> property_key \<Rightarrow> slot \<Rightarrow> bool" where
  "data_slot w a key slot \<longleftrightarrow>
     (\<exists>ob. ow_objects w a = Some ob \<and> shape_lookup (ow_shapes w) (object_shape ob) key = Some (Some slot)) \<and>
     \<not> is_accessor_attributes (sl_attributes slot)"

lemma data_slot_load:
  assumes w: "world_wf w" and s: "data_slot w a key slot" and k: "\<not> is_index_key key"
  shows "\<exists>v. object_load a (unat (sl_index slot)) w = Some (Inr v, w) \<and>
    stored_property w a key = Some (descriptor_of (sl_attributes slot) [v])"
proof -
  from s obtain ob where a: "ow_objects w a = Some ob" "shape_lookup (ow_shapes w) (object_shape ob) key = Some (Some slot)"
    "\<not> is_accessor_attributes (sl_attributes slot)" by (auto simp: data_slot_def)
  note pw = world_wfD(2) [OF w a(1)]
  obtain i where i: "position key (pm_entries (ow_shapes w) (ob_properties ob)) = Some i"
    "slot = slot_at (pm_entries (ow_shapes w) (ob_properties ob)) i"
    using a(2) pm_lookup [OF pw, of key] by (auto simp: object_shape_def)
  have "\<not> is_accessor_attributes (snd (pm_entries (ow_shapes w) (ob_properties ob) ! i))" using a(3) i(2) by simp
  from pm_write_slot(1,2) [OF pw i(1) this] show ?thesis
    unfolding stored_property_named [OF w a(1) k] i(2)
    by (simp add: object_load_def run_simps a(1) run_unwrap_def vec_get_def)
qed

lemma data_slot_store:
  assumes w: "world_wf w" and s: "data_slot w a key slot" and k: "\<not> is_index_key key"
  shows "\<exists>w'. object_store a (unat (sl_index slot)) v w = Some (Inr (), w') \<and>
    changed w a key (Some (desc_lang (descriptor_of (sl_attributes slot) [v]))) True w' \<and> data_slot w' a key slot \<and>
    stored_property w' a key = Some (descriptor_of (sl_attributes slot) [v]) \<and> ow_shapes w' = ow_shapes w"
proof -
  from s obtain ob where a: "ow_objects w a = Some ob" "shape_lookup (ow_shapes w) (object_shape ob) key = Some (Some slot)"
    "\<not> is_accessor_attributes (sl_attributes slot)" by (auto simp: data_slot_def)
  let ?pm = "ob_properties ob" and ?h = "ow_shapes w" and ?j = "unat (sl_index slot)"
  note pw = world_wfD(2) [OF w a(1)]
  obtain i where i: "position key (pm_entries ?h ?pm) = Some i" "slot = slot_at (pm_entries ?h ?pm) i"
    using a(2) pm_lookup [OF pw, of key] by (auto simp: object_shape_def)
  have d: "\<not> is_accessor_attributes (snd (pm_entries ?h ?pm ! i))" using a(3) i(2) by simp
  let ?pm' = "?pm\<lparr>pm_storage := (pm_storage ?pm)[?j := v]\<rparr>" and ?d = "descriptor_of (sl_attributes slot) [v]"
  note p = pm_write_slot(1,2) [OF pw i(1) d, folded i(2)] pm_write_slot(3,4) [OF pw i(1) d, of v, folded i(2)]
  have at: "snd (pm_entries ?h ?pm ! i) = sl_attributes slot" by (simp add: i(2))
  have pn: "pm_named ?h ?pm' = AList.update key ?d (pm_named ?h ?pm)" using p(4) by (simp add: at)
  have sw: "shapes_wf ?h" "shape_valid ?h (pm_shape ?pm)" using pw by (simp_all add: pm_wf_def)
  have step: "pm_step ?h ?h ?pm ?pm'"
    using p(3) shape_step_refl [OF sw] by (simp add: pm_step_def pm_entries_def)
  have "key \<in> fst ` set (pm_named ?h ?pm)" using p(2) by (force dest: map_of_SomeD)
  then have "changed w a key (Some (desc_lang ?d)) True (put_properties a ob ?pm' ?h w)"
    by (intro changed_named [OF w a(1) k step]) (auto simp: pn dom_update update_conv simp del: pm_named_keys)
  moreover have "object_store a ?j v w = Some (Inr (), put_properties a ob ?pm' ?h w)"
    using p(1) by (simp add: object_store_def run_simps a(1) run_unwrap_def vec_set_def object_write_def put_properties_def)
  moreover have "data_slot (put_properties a ob ?pm' ?h w) a key slot"
    using a by (simp add: data_slot_def put_properties_def object_shape_def)
  moreover have "stored_property (put_properties a ob ?pm' ?h w) a key = Some ?d"
    using k by (simp add: stored_property_put pm_get_spec [OF p(3)] pn update_conv)
  ultimately show ?thesis by (auto simp: put_properties_def)
qed

end
