(* ===== verification/PrototypeChain.thy ===== *)
theory PrototypeChain
  imports InternalMethodFacts
begin

text \<open>
  Prototypes: setting one keeps the chains finite, and reading a property searches the chain. Where
  the chain is finite the reading methods return, and \<open>try_get\<close> is \<open>has_property\<close> followed by \<open>get\<close>.
\<close>

section \<open>The order of prototypes\<close>

definition proto_order :: "'x object_world_scheme \<Rightarrow> (obj_addr \<times> obj_addr) set" where
  "proto_order w = {(p, a). proto_of w a = Some p}"

lemma proto_of_object: "ow_objects w a = Some ob \<Longrightarrow> proto_of w a = object_proto w ob"
  by (simp add: proto_of_def)

lemma proto_exists:
  assumes "world_wf w" "proto_of w a = Some p"
  obtains ob where "ow_objects w p = Some ob"
proof -
  obtain oa where "ow_objects w a = Some oa" "object_proto w oa = Some p"
    using assms(2) by (auto simp: proto_of_def split: option.splits)
  then show thesis using assms(1) that unfolding world_wf_def by blast
qed

lemma prototype_chain_contains_run:
  assumes w: "world_wf w" "plain w" and f: "wf (proto_order w)" and p: "ow_objects w p \<noteq> None"
  shows "prototype_chain_contains E obj (Some p) w = Some (Inr ((obj, p) \<in> (proto_order w)\<^sup>*), w)"
  using p
proof (induction p rule: wf_induct_rule [OF f])
  case (1 p)
  obtain ob where ob: "ow_objects w p = Some ob" using 1(2) by auto
  show ?case
  proof (cases "p = obj")
    case True
    then show ?thesis by (subst prototype_chain_contains.simps) (simp add: run_return_def)
  next
    case False
    have run: "prototype_chain_contains E obj (Some p) w = prototype_chain_contains E obj (proto_of w p) w"
      using False w ob
      by (subst prototype_chain_contains.simps) (simp add: run_simps proto_of_object)
    show ?thesis
    proof (cases "proto_of w p")
      case None
      have "(obj, p) \<notin> (proto_order w)\<^sup>*"
        using False None by (auto elim: rtranclE simp: proto_order_def)
      with None show ?thesis
        unfolding run None by (subst prototype_chain_contains.simps) (simp add: run_return_def)
    next
      case (Some q)
      then have e: "(q, p) \<in> proto_order w" by (simp add: proto_order_def)
      obtain oq where "ow_objects w q = Some oq" using proto_exists [OF w(1) Some] .
      with 1(1) [OF e] have "prototype_chain_contains E obj (Some q) w = Some (Inr ((obj, q) \<in> (proto_order w)\<^sup>*), w)"
        by simp
      moreover have "(obj, p) \<in> (proto_order w)\<^sup>* \<longleftrightarrow> (obj, q) \<in> (proto_order w)\<^sup>*"
        using False Some e by (auto elim: rtranclE simp: proto_order_def intro: rtrancl_into_rtrancl)
      ultimately show ?thesis by (simp add: run Some)
    qed
  qed
qed

section \<open>Setting the prototype, preventing extensions\<close>

lemma object_set_prototype_run:
  assumes wf: "world_wf w" and a: "ow_objects w a = Some ob" "ob_extensible ob"
    and v: "\<And>q. val = Some q \<Longrightarrow> ow_objects w q \<noteq> None"
  shows "\<exists>w'. object_set_prototype a val w = Some (Inr True, w') \<and> frame w a w' \<and> proto_of w' a = val \<and>
    (\<forall>key. stored_property w' a key = stored_property w a key) \<and>
    (\<exists>pm. ow_objects w' a = Some (ob\<lparr>ob_properties := pm\<rparr>))"
proof -
  let ?h = "ow_shapes w"
  from shape_change_prototype_step [OF world_wfD(4,3) [OF wf a(1)], of val] obtain s h where
    c: "shape_change_prototype_transition ?h (object_shape ob) val = Some (s, h)"
      "shape_step ?h h (object_shape ob) s (shape_entries ?h (object_shape ob)) val" by blast
  let ?pm = "(ob_properties ob)\<lparr>pm_shape := s\<rparr>" and ?w = "put_properties a ob ((ob_properties ob)\<lparr>pm_shape := s\<rparr>) h w"
  note D = shape_stepD [OF c(2)]
  have es: "pm_entries h ?pm = pm_entries ?h (ob_properties ob)"
    using D(3) by (simp add: pm_entries_def object_shape_def)
  have pw: "pm_wf h ?pm" using world_wfD(2) [OF wf a(1)] D(1,2) es by (simp add: pm_wf_def)
  then have "object_wf h (ob\<lparr>ob_properties := ?pm\<rparr>)"
    using world_wfD(1) [OF wf a(1)] by (simp add: object_wf_def)
  moreover have "shape_step ?h h (object_shape ob) (pm_shape ?pm) (shape_entries ?h (object_shape ob)) val"
    using c(2) by simp
  ultimately have fr: "frame w a ?w" "proto_of ?w a = val"
    using put_properties_frame [OF wf a(1) _ _ v] by blast+
  have n: "pm_named h ?pm = pm_named ?h (ob_properties ob)"
    using es by (simp add: pm_named_def pm_contents_def)
  have "stored_property ?w a key = stored_property w a key" for key
  proof (cases key)
    case (PKIndex i)
    then show ?thesis by (simp add: stored_property_put stored_property_index [OF a(1)] pm_get_def)
  qed (simp_all add: stored_property_put stored_property_named [OF wf a(1)] pm_get_spec [OF pw] n)
  moreover have "object_set_prototype a val w = Some (Inr True, ?w)"
    using a c(1) by (simp add: object_set_prototype_def run_simps)
  ultimately show ?thesis using fr a(1) by (auto simp: put_properties_def)
qed

text \<open>The chains stay finite: the new edge does not close a cycle.\<close>

lemma proto_order_frame:
  assumes f: "frame w a w'" and p: "proto_of w' a = Some q" and wf: "wf (proto_order w)"
    and n: "(a, q) \<notin> (proto_order w)\<^sup>*"
  shows "wf (proto_order w')"
proof -
  have "proto_order w' \<subseteq> insert (q, a) (proto_order w)"
    using f p by (auto simp: proto_order_def frame_def) (metis option.inject)+
  moreover have "wf (insert (q, a) (proto_order w))" using wf n by (simp add: wf_insert)
  ultimately show ?thesis by (rule wf_subset [rotated])
qed

lemma proto_order_frame_none:
  assumes f: "frame w a w'" and p: "proto_of w' a = None" and wf: "wf (proto_order w)"
  shows "wf (proto_order w')"
proof (rule wf_subset [OF wf])
  show "proto_order w' \<subseteq> proto_order w"
    using f p by (auto simp: proto_order_def frame_def) (metis option.distinct(1))
qed

lemma proto_order_same:
  assumes "frame w a w'" "proto_of w' a = proto_of w a"
  shows "proto_order w' = proto_order w"
proof -
  have "proto_of w' b = proto_of w b" for b using assms by (cases "b = a") (auto simp: frame_def)
  then show ?thesis by (simp add: proto_order_def)
qed

definition prototype_set ::
  "'x object_world_scheme \<Rightarrow> obj_addr \<Rightarrow> js_prototype \<Rightarrow> bool \<Rightarrow> 'x object_world_scheme \<Rightarrow> bool" where
  "prototype_set w a val b w' \<longleftrightarrow>
     frame w a w' \<and> wf (proto_order w') \<and>
     (b \<longleftrightarrow> proto_of w a = val \<or>
       (\<exists>ob. ow_objects w a = Some ob \<and> ob_extensible ob) \<and> (\<forall>q. val = Some q \<longrightarrow> (a, q) \<notin> (proto_order w)\<^sup>*)) \<and>
     (if b then proto_of w' a = val else w' = w) \<and> (proto_of w a = val \<longrightarrow> w' = w) \<and>
     (\<forall>key. stored_property w' a key = stored_property w a key) \<and>
     (\<forall>ob. ow_objects w a = Some ob \<longrightarrow> (\<exists>pm. ow_objects w' a = Some (ob\<lparr>ob_properties := pm\<rparr>)))"

lemma prototype_set_kept:
  assumes "world_wf w" "wf (proto_order w)"
    and "b \<longleftrightarrow> proto_of w a = val"
    and "b \<or> \<not> ((\<exists>ob. ow_objects w a = Some ob \<and> ob_extensible ob) \<and> (\<forall>q. val = Some q \<longrightarrow> (a, q) \<notin> (proto_order w)\<^sup>*))"
  shows "prototype_set w a val b w"
proof -
  have "\<exists>pm. ow_objects w a = Some (ob\<lparr>ob_properties := pm\<rparr>)" if "ow_objects w a = Some ob" for ob
    using that by (intro exI [of _ "ob_properties ob"]) simp
  then show ?thesis using assms by (auto simp: prototype_set_def frame_refl)
qed

lemma ordinary_set_prototype_run:
  assumes w: "world_wf w" "plain w" "wf (proto_order w)" and a: "ow_objects w a = Some ob"
    and v: "\<And>q. val = Some q \<Longrightarrow> ow_objects w q \<noteq> None"
  shows "\<exists>b w'. ordinary_set_prototype_of E a val w = Some (Inr b, w') \<and> prototype_set w a val b w'"
proof (cases "proto_of w a = val")
  case True
  then have "ordinary_set_prototype_of E a val w = Some (Inr True, w)"
    using w a by (simp add: ordinary_set_prototype_of_def run_simps proto_of_object)
  moreover have "prototype_set w a val True w" by (rule prototype_set_kept) (use w True in simp_all)
  ultimately show ?thesis by blast
next
  case ne: False
  show ?thesis
  proof (cases "ob_extensible ob")
    case False
    then have "ordinary_set_prototype_of E a val w = Some (Inr False, w)"
      using w a ne by (auto simp: ordinary_set_prototype_of_def run_simps proto_of_object object_extensible_def)
    moreover have "prototype_set w a val False w" by (rule prototype_set_kept) (use w a ne False in simp_all)
    ultimately show ?thesis by blast
  next
    case True
    let ?found = "\<exists>q. val = Some q \<and> (a, q) \<in> (proto_order w)\<^sup>*"
    have c: "prototype_chain_contains E a val w = Some (Inr ?found, w)"
    proof (cases val)
      case None
      then show ?thesis by (subst prototype_chain_contains.simps) (simp add: run_return_def)
    qed (use prototype_chain_contains_run [OF w(1,2,3)] v in auto)
    have run: "ordinary_set_prototype_of E a val w =
        (if ?found then Some (Inr False, w) else run_bind (object_set_prototype a val) (\<lambda>_. run_return True) w)"
      using w a ne True c
      by (auto simp: ordinary_set_prototype_of_def run_simps proto_of_object object_extensible_def)
    show ?thesis
    proof (cases ?found)
      case True
      moreover have "prototype_set w a val False w" by (rule prototype_set_kept) (use w a ne True in auto)
      ultimately show ?thesis using run by (simp only: if_True) blast
    next
      case False
      from object_set_prototype_run [OF w(1) a True v] obtain w' where
        s: "object_set_prototype a val w = Some (Inr True, w')" "frame w a w'" "proto_of w' a = val"
          "\<forall>key. stored_property w' a key = stored_property w a key" "\<exists>pm. ow_objects w' a = Some (ob\<lparr>ob_properties := pm\<rparr>)"
        by blast
      have "wf (proto_order w')"
      proof (cases val)
        case None
        then show ?thesis using proto_order_frame_none [OF s(2) _ w(3)] s(3) by simp
      next
        case (Some q)
        then show ?thesis using proto_order_frame [OF s(2) _ w(3)] s(3) False by auto
      qed
      then have "prototype_set w a val True w'" using s ne a True False by (auto simp: prototype_set_def)
      moreover have "ordinary_set_prototype_of E a val w = Some (Inr True, w')"
        using run False s(1) by (simp add: run_simps)
      ultimately show ?thesis by blast
    qed
  qed
qed

section \<open>Reading along the chain\<close>

definition marked :: "slot \<Rightarrow> slot" where
  "marked s = (let s = set_not_cacheable_if_already_prototype s in
     s\<lparr>sl_attributes := sl_attributes s OR SLOT_PROTOTYPE\<rparr>)"

lemma mark_prototype_bind [run_simps]: "run_bind mark_prototype f (w, s) = f () (w, marked s)"
  by (simp add: mark_prototype_def slot_modify_bind marked_def Let_def)

text \<open>
  \<open>inherits w key a s r s'\<close>: the first object on the chain of \<open>a\<close> with an own property \<open>key\<close> has \<open>r\<close>,
  or none has and \<open>r\<close> is \<open>None\<close>; the slot goes from \<open>s\<close> to \<open>s'\<close>.
\<close>

inductive inherits ::
  "'x object_world_scheme \<Rightarrow> property_key \<Rightarrow> obj_addr \<Rightarrow> slot \<Rightarrow> property_descriptor option \<Rightarrow> slot \<Rightarrow> bool"
  for w key where
  own: "own_property w a key = Some d \<Longrightarrow> inherits w key a s (Some d) (own_slot w a key s)"
| root: "own_property w a key = None \<Longrightarrow> proto_of w a = None \<Longrightarrow> inherits w key a s None (own_slot w a key s)"
| up: "own_property w a key = None \<Longrightarrow> proto_of w a = Some p \<Longrightarrow>
    inherits w key p (marked (own_slot w a key s)) r s' \<Longrightarrow> inherits w key a s r s'"

inductive_cases inheritsE: "inherits w key a s r s'"

inductive_simps inherits_own: "inherits w key a s (Some d) s'"

lemma inherits_total:
  assumes w: "world_wf w" and f: "wf (proto_order w)"
  shows "\<exists>r s'. inherits w key a s r s'"
proof (induction a arbitrary: s rule: wf_induct_rule [OF f])
  case (1 a)
  show ?case
  proof (cases "own_property w a key")
    case None
    show ?thesis
    proof (cases "proto_of w a")
      case (Some p)
      then have "(p, a) \<in> proto_order w" by (simp add: proto_order_def)
      from 1 [OF this] up [OF None Some] show ?thesis by blast
    qed (use root [OF None] in blast)
  qed (use own in blast)
qed

lemma inherits_unique: "inherits w key a s r s' \<Longrightarrow> inherits w key a s q t \<Longrightarrow> r = q \<and> s' = t"
proof (induction arbitrary: q t rule: inherits.induct)
  case (up a p s r s')
  note hyps = up.hyps(1,2) and IH = up.IH
  from up.prems show ?case
  proof (cases rule: inherits.cases)
    case (up p')
    then have "p' = p" using hyps by simp
    then show ?thesis using up(3) IH by blast
  qed (use hyps in simp_all)
next
  case (own a d s)
  from own(2,1) show ?case by (cases rule: inherits.cases) simp_all
next
  case (root a s)
  from root(3,1,2) show ?case by (cases rule: inherits.cases) simp_all
qed

lemma get_inherits:
  assumes "world_wf w" "plain w" "inherits w key a s r s'" "ow_objects w a \<noteq> None"
  shows "get E a key receiver (w, s) =
    (case r of None \<Rightarrow> Some (Inr VUndefined, (w, s')) | Some d \<Rightarrow> read_descriptor E d receiver (w, s'))"
  using assms(3,4)
proof (induction rule: inherits.induct)
  case (own a d s)
  then obtain ob where a: "ow_objects w a = Some ob" by auto
  show ?case
    by (subst get.simps) (use own a assms(1,2) in \<open>simp add: method_binds [OF assms(1,2) a]\<close>)
next
  case (root a s)
  then obtain ob where a: "ow_objects w a = Some ob" by auto
  show ?case
    by (subst get.simps)
      (use root a assms(1,2) in \<open>simp add: method_binds [OF assms(1,2) a] proto_of_object run_return_def\<close>)
next
  case (up a p s r s')
  then obtain ob where a: "ow_objects w a = Some ob" by (auto simp: proto_of_def split: option.splits)
  have "ow_objects w p \<noteq> None" using proto_exists [OF assms(1) up(2)] by blast
  with up show ?case
    by (subst get.simps)
      (use a assms(1,2) in \<open>simp add: method_binds [OF assms(1,2) a] proto_of_object mark_prototype_bind\<close>)
qed

lemma try_get_inherits:
  assumes "world_wf w" "plain w" "inherits w key a s r s'" "ow_objects w a \<noteq> None"
  shows "try_get E a key receiver (w, s) =
    (case r of None \<Rightarrow> Some (Inr None, (w, s'))
     | Some d \<Rightarrow> run_bind (read_descriptor E d receiver) (\<lambda>v. run_return (Some v)) (w, s'))"
  using assms(3,4)
proof (induction rule: inherits.induct)
  case (own a d s)
  then obtain ob where a: "ow_objects w a = Some ob" by auto
  show ?case
    by (subst try_get.simps) (use own a assms(1,2) in \<open>simp add: method_binds [OF assms(1,2) a]\<close>)
next
  case (root a s)
  then obtain ob where a: "ow_objects w a = Some ob" by auto
  show ?case
    by (subst try_get.simps)
      (use root a assms(1,2) in \<open>simp add: method_binds [OF assms(1,2) a] proto_of_object run_return_def\<close>)
next
  case (up a p s r s')
  then obtain ob where a: "ow_objects w a = Some ob" by (auto simp: proto_of_def split: option.splits)
  have "ow_objects w p \<noteq> None" using proto_exists [OF assms(1) up(2)] by blast
  with up show ?case
    by (subst try_get.simps)
      (use a assms(1,2) in \<open>simp add: method_binds [OF assms(1,2) a] proto_of_object mark_prototype_bind\<close>)
qed

lemma has_property_inherits:
  assumes "world_wf w" "plain w" "inherits w key a s r s'" "ow_objects w a \<noteq> None"
  shows "\<exists>s''. has_property E a key (w, s) = Some (Inr (r \<noteq> None), (w, s''))"
  using assms(3,4)
proof (induction rule: inherits.induct)
  case (own a d s)
  then obtain ob where a: "ow_objects w a = Some ob" by auto
  show ?case
    by (subst has_property.simps) (use own a assms(1,2) in \<open>simp add: method_binds [OF assms(1,2) a] run_return_def\<close>)
next
  case (root a s)
  then obtain ob where a: "ow_objects w a = Some ob" by auto
  show ?case
    by (subst has_property.simps)
      (use root a assms(1,2) in \<open>simp add: method_binds [OF assms(1,2) a] proto_of_object mark_prototype_bind run_return_def\<close>)
next
  case (up a p s r s')
  then obtain ob where a: "ow_objects w a = Some ob" by (auto simp: proto_of_def split: option.splits)
  have "ow_objects w p \<noteq> None" using proto_exists [OF assms(1) up(2)] by blast
  with up show ?case
    by (subst has_property.simps)
      (use a assms(1,2) in \<open>simp add: method_binds [OF assms(1,2) a] proto_of_object mark_prototype_bind\<close>)
qed

end
