(* ===== verification/ObjectInvariants.thy ===== *)
theory ObjectInvariants
  imports PrototypeChain
begin

text \<open>
  What the methods that change an object do and what they keep of the invariants that the standard
  demands of the essential internal methods.
\<close>

section \<open>The methods that change an object\<close>

lemma string_character_compatible:
  assumes "string_get_own_property ob key = Some (Some d)"
  shows "\<exists>b. validate_and_apply_property_descriptor E None extensible desc (Some d) c = Some (Inr b, c)"
proof -
  obtain v where d: "pd_enumerable d = Some True" "pd_configurable d = Some False" "pd_kind d = Data (Some v) (Some False)"
    using assms by (auto simp: string_get_own_property_def desc_simps split: property_key.splits object_data.splits)
  have "validate_change False desc d \<noteq> None"
    using d by (cases "pd_kind desc"; cases "pd_enumerable desc")
      (auto simp: validate_change_def desc_simps split: option.splits)
  then obtain v where v: "validate_change False desc d = Some v" by auto
  show ?thesis
    by (cases v) (auto simp: validate_and_apply_property_descriptor_def v run_unwrap_bind run_return_def)
qed

lemma define_own_property_run:
  assumes w: "world_wf w" "plain w" and im: "index_map_laws (en_index_map E)" and a: "ow_objects w a = Some ob"
    and na: "\<not> array_key ob key"
    and k: "valid_key key" "is_index_key key \<or> room w a"
    and pop: "\<And>c. own_property w a key = Some c \<Longrightarrow> fully_populated c"
  shows "\<exists>b w' s'. define_own_property E a key desc (w, s) = Some (Inr b, (w', s')) \<and>
    (w' = w \<or> define_result w a key desc b w' \<and> own_property w a key = stored_property w a key) \<and>
    (ob_vtable ob \<noteq> StringMethods \<longrightarrow> define_result w a key desc b w') \<and>
    (w' = w \<or> define_slot w a key s w' s')"
proof (cases "ob_vtable ob = StringMethods")
  case False
  from ordinary_define_run [OF w im a k pop, of desc s] False show ?thesis
    by (simp add: define_own_property_ordinary [OF w(2) a False na] own_property_ordinary [OF a False]) blast
next
  case True
  obtain r where r: "string_get_own_property ob key = Some r"
    using string_get_own_property_total [OF world_wfD(1) [OF w(1) a] True] by blast
  have d: "define_own_property E a key desc (w, s) = string_exotic_define_own_property E a key desc (w, s)"
    using True w a by (simp add: define_own_property_def run_simps)
  show ?thesis
  proof (cases r)
    case None
    then have "own_property w a key = stored_property w a key" using a r by (simp add: own_property_def split: option.split)
    with ordinary_define_run [OF w im a k pop, of desc s] show ?thesis
      using True by (simp add: d string_exotic_define_own_property_def method_binds [OF w a] r None run_unwrap_bind) blast
  next
    case (Some c)
    from string_character_compatible [of ob key c E "ob_extensible ob" desc "(w, slot_new)"] r Some obtain b where
      "validate_and_apply_property_descriptor E None (ob_extensible ob) desc (Some c) (w, slot_new) = Some (Inr b, (w, slot_new))"
      by auto
    then show ?thesis
      using True by (simp add: d string_exotic_define_own_property_def method_binds [OF w a] r Some run_unwrap_bind
          is_compatible_property_descriptor_def in_context_def property_context_new_def)
  qed
qed

lemma set_prototype_run:
  assumes w: "world_wf w" "plain w" "wf (proto_order w)" and a: "ow_objects w a = Some ob"
    and v: "\<And>q. val = Some q \<Longrightarrow> ow_objects w q \<noteq> None"
  shows "\<exists>b w'. set_prototype_of E a val w = Some (Inr b, w') \<and> (w' = w \<or> prototype_set w a val b w') \<and>
    (ob_vtable ob \<noteq> ImmutablePrototypeMethods \<longrightarrow> prototype_set w a val b w')"
proof (cases "ob_vtable ob = ImmutablePrototypeMethods")
  case True
  with w a show ?thesis
    by (simp add: set_prototype_of_def run_simps immutable_prototype_exotic_set_prototype_of_def)
next
  case False
  then have "set_prototype_of E a val w = ordinary_set_prototype_of E a val w"
    using w a by (simp add: set_prototype_of_def run_simps)
  with ordinary_set_prototype_run [OF w a v] show ?thesis by metis
qed

lemma prevent_extensions_run:
  assumes "plain w" "ow_objects w a = Some ob"
  shows "prevent_extensions E a w =
    Some (Inr True, w\<lparr>ow_objects := (ow_objects w)(a \<mapsto> ob\<lparr>ob_extensible := False\<rparr>)\<rparr>)"
  using assms by (simp add: prevent_extensions_def ordinary_prevent_extensions_def object_write_def run_simps)

text \<open>What a step does, without the methods.\<close>

definition world_ok :: "'x object_world_scheme \<Rightarrow> bool" where
  "world_ok w \<longleftrightarrow> world_wf w \<and> plain w \<and> wf (proto_order w)"

lemma frame_plain:
  assumes "frame w a w'" "plain w" "ow_objects w a = Some ob" "ow_objects w' a = Some (ob\<lparr>ob_properties := pm\<rparr>)"
  shows "plain w'"
  unfolding plain_def
proof (intro allI impI)
  fix b ob' n assume b: "ow_objects w' b = Some ob'"
  show "ob_vtable ob' \<noteq> OtherMethods n"
  proof (cases "b = a")
    case True with b assms show ?thesis by (auto simp: plain_def)
  next
    case False
    then have "ow_objects w b = Some ob'" using b assms(1) by (simp add: frame_def)
    with assms(2) show ?thesis by (simp add: plain_def)
  qed
qed

lemma changed_ok:
  assumes ok: "world_ok w" and c: "changed w a key v f w'" and a: "ow_objects w a = Some ob"
  shows "world_ok w'" "\<exists>pm. ow_objects w' a = Some (ob\<lparr>ob_properties := pm\<rparr>)"
proof -
  have fr: "frame w a w'" "proto_of w' a = proto_of w a" using c by (simp_all add: changed_def)
  from c a obtain pm where pm: "ow_objects w' a = Some (ob\<lparr>ob_properties := pm\<rparr>)" unfolding changed_def by blast
  then show "\<exists>pm. ow_objects w' a = Some (ob\<lparr>ob_properties := pm\<rparr>)" by blast
  show "world_ok w'"
    using ok fr(1) frame_plain [OF fr(1) _ a pm] proto_order_same [OF fr] by (simp add: world_ok_def frame_def)
qed

section \<open>What a step may do to an object\<close>

text \<open>
  The promises on a property: one that is not configurable stays, with its attributes, and if it
  is not writable or an accessor, with its value or functions.
\<close>

type_synonym property_as_seen = "bool option \<times> bool option \<times> language_kind"

fun kind_kept :: "language_kind \<Rightarrow> language_kind \<Rightarrow> bool" where
  "kind_kept (LData v (Some True)) k' = (\<exists>v' b. k' = LData v' (Some b))"
| "kind_kept k k' = (k' = k)"

definition property_kept :: "property_as_seen option \<Rightarrow> property_as_seen option \<Rightarrow> bool" where
  "property_kept old new \<longleftrightarrow>
     (\<forall>e k. old = Some (e, Some False, k) \<longrightarrow> (\<exists>k'. new = Some (e, Some False, k') \<and> kind_kept k k'))"

lemma kind_kept_refl [simp]: "kind_kept k k"
  by (cases "(k, k)" rule: kind_kept.cases) auto

lemma kind_kept_trans: "kind_kept k k' \<Longrightarrow> kind_kept k' k'' \<Longrightarrow> kind_kept k k''"
proof (induction k k' rule: kind_kept.induct)
  case (1 v k')
  then obtain v' b where "k' = LData v' (Some b)" by auto
  with 1 show ?case by (cases b) auto
qed auto

lemma property_kept_refl [simp]: "property_kept v v"
  by (simp add: property_kept_def)

lemma property_kept_trans:
  assumes "property_kept u v" "property_kept v w" shows "property_kept u w"
  unfolding property_kept_def
proof (intro allI impI)
  fix e k assume "u = Some (e, Some False, k)"
  then obtain k' where k': "v = Some (e, Some False, k')" "kind_kept k k'" using assms(1) unfolding property_kept_def by blast
  then obtain k'' where "w = Some (e, Some False, k'')" "kind_kept k' k''" using assms(2) unfolding property_kept_def by blast
  with kind_kept_trans [OF k'(2)] show "\<exists>k'. w = Some (e, Some False, k') \<and> kind_kept k k'" by blast
qed

text \<open>
  The promises on an object: what it is stays; when it is not extensible, it stays so, keeps its
  prototype and gets no property.
\<close>

definition object_kept :: "'x object_world_scheme \<Rightarrow> 'x object_world_scheme \<Rightarrow> obj_addr \<Rightarrow> bool" where
  "object_kept w w' a \<longleftrightarrow>
     (\<forall>ob. ow_objects w a = Some ob \<longrightarrow>
        (\<exists>ob'. ow_objects w' a = Some ob' \<and> ob_vtable ob' = ob_vtable ob \<and> ob_data ob' = ob_data ob \<and>
           (\<not> ob_extensible ob \<longrightarrow> \<not> ob_extensible ob' \<and> proto_of w' a = proto_of w a \<and>
              (\<forall>key. stored_property w a key = None \<longrightarrow> stored_property w' a key = None))))"

lemma object_kept_same: "ow_objects w' a = ow_objects w a \<Longrightarrow> proto_of w' a = proto_of w a \<Longrightarrow>
    \<forall>key. stored_property w' a key = stored_property w a key \<Longrightarrow> object_kept w w' a"
  by (simp add: object_kept_def)

lemma object_kept_refl [simp]: "object_kept w w a"
  by (simp add: object_kept_same)

lemma object_kept_trans:
  assumes "object_kept u v a" "object_kept v w a" shows "object_kept u w a"
  unfolding object_kept_def
proof (intro allI impI)
  fix ob assume ob: "ow_objects u a = Some ob"
  from assms(1) ob obtain ob1 where o1: "ow_objects v a = Some ob1" "ob_vtable ob1 = ob_vtable ob" "ob_data ob1 = ob_data ob"
    "\<not> ob_extensible ob \<longrightarrow> \<not> ob_extensible ob1 \<and> proto_of v a = proto_of u a \<and>
      (\<forall>key. stored_property u a key = None \<longrightarrow> stored_property v a key = None)"
    unfolding object_kept_def by blast
  from assms(2) o1(1) obtain ob2 where o2: "ow_objects w a = Some ob2" "ob_vtable ob2 = ob_vtable ob1" "ob_data ob2 = ob_data ob1"
    "\<not> ob_extensible ob1 \<longrightarrow> \<not> ob_extensible ob2 \<and> proto_of w a = proto_of v a \<and>
      (\<forall>key. stored_property v a key = None \<longrightarrow> stored_property w a key = None)"
    unfolding object_kept_def by blast
  from o1 o2 show "\<exists>ob'. ow_objects w a = Some ob' \<and> ob_vtable ob' = ob_vtable ob \<and> ob_data ob' = ob_data ob \<and>
      (\<not> ob_extensible ob \<longrightarrow> \<not> ob_extensible ob' \<and> proto_of w a = proto_of u a \<and>
         (\<forall>key. stored_property u a key = None \<longrightarrow> stored_property w a key = None))"
    by auto
qed

lemma frame_kept: "frame w a w' \<Longrightarrow> b \<noteq> a \<Longrightarrow> object_kept w w' b"
  by (rule object_kept_same) (simp_all add: frame_def)

lemma frame_views: "frame w a w' \<Longrightarrow> b \<noteq> a \<Longrightarrow> property_view w' b key = property_view w b key"
  by (simp add: frame_def property_view_def)

text \<open>
  \<open>step_result f w w'\<close>: everything is in order, all objects keep their promises, and after a
  faithful step all properties do.
\<close>

definition step_result :: "bool \<Rightarrow> 'x object_world_scheme \<Rightarrow> 'x object_world_scheme \<Rightarrow> bool" where
  "step_result f w w' \<longleftrightarrow>
     world_ok w' \<and> shared_kept (ow_shapes w) (ow_shapes w') \<and> (\<forall>a. object_kept w w' a) \<and>
     (f \<longrightarrow> (\<forall>a key. property_kept (property_view w a key) (property_view w' a key)))"

lemma step_result_refl: "world_ok w \<Longrightarrow> step_result f w w"
  by (simp add: step_result_def)

lemma changed_result:
  assumes ok: "world_ok w" and a: "ow_objects w a = Some ob" and c: "changed w a key v f w'"
    and x: "ob_extensible ob \<or> stored_property w a key \<noteq> None"
    and p: "property_kept (property_view w a key) v"
  shows "step_result f w w'"
proof -
  from changed_ok [OF ok c a] obtain pm where ok': "world_ok w'" and pm: "ow_objects w' a = Some (ob\<lparr>ob_properties := pm\<rparr>)"
    by blast
  have fr: "frame w a w'" "proto_of w' a = proto_of w a" "property_view w' a key = v"
    "\<And>k. k \<noteq> key \<Longrightarrow> stored_property w' a k = None \<longleftrightarrow> stored_property w a k = None"
    "\<And>k. f \<Longrightarrow> k \<noteq> key \<Longrightarrow> property_view w' a k = property_view w a k"
    using c by (auto simp: changed_def)
  have "stored_property w' a k = None" if "\<not> ob_extensible ob" "stored_property w a k = None" for k
    using that x fr(4) [of k] by (cases "k = key") auto
  then have "object_kept w w' a" using a pm fr(2) by (simp add: object_kept_def)
  then have "object_kept w w' b" for b using frame_kept [OF fr(1)] by (cases "b = a") auto
  moreover have "property_kept (property_view w b k) (property_view w' b k)" if "f" for b k
    using that p fr(3,5) frame_views [OF fr(1), of b k] by (cases "b = a"; cases "k = key") auto
  ultimately show ?thesis using ok' fr(1) by (simp add: step_result_def frame_def)
qed

lemma merged_kept:
  assumes "fully_populated c" "allowed_change c desc" "\<not> unchanged c desc"
  shows "property_kept (Some (desc_lang c)) (Some (desc_lang (merged c desc)))"
  by (rule populated_cases [OF assms(1)]; insert assms(2,3); cases desc; cases "pd_kind desc")
    (auto simp: property_kept_def allowed_change_def unchanged_def merged_def converted_def fill_with_def desc_lang_def
      desc_simps split: option.splits)

lemma changed_weaken: "changed w a key v g w' \<Longrightarrow> (f \<Longrightarrow> g) \<Longrightarrow> changed w a key v f w'"
  by (auto simp: changed_def)

text \<open>A new property never needs a rollback.\<close>

lemma faithful_absent:
  assumes "world_wf w" "stored_property w a key = None"
  shows "faithful_insert w a key d"
  unfolding faithful_insert_def
proof (intro allI impI)
  fix ob
  assume a: "ow_objects w a = Some ob"
  have "insert_faithful (ow_shapes w) (ob_properties ob) key d" if "\<not> is_index_key key"
  proof -
    have "pm_get (ow_shapes w) (ob_properties ob) key = Some (map_of (pm_named (ow_shapes w) (ob_properties ob)) key)"
      using pm_get_spec [OF world_wfD(2) [OF assms(1) a] that] .
    then have "key \<notin> fst ` set (pm_named (ow_shapes w) (ob_properties ob))"
      using assms(2) a by (simp add: stored_property_def map_of_eq_None_iff)
    then have "key \<notin> fst ` set (pm_entries (ow_shapes w) (ob_properties ob))"
      by (simp flip: set_map)
    then show ?thesis by (simp add: insert_faithful_def position_None [THEN iffD2])
  qed
  then show "is_index_key key \<or> insert_faithful (ow_shapes w) (ob_properties ob) key d" by blast
qed

lemma define_step_result:
  assumes ok: "world_ok w" and a: "ow_objects w a = Some ob"
    and d: "define_result w a key desc b w'" "own_property w a key = stored_property w a key"
    and pop: "\<And>c. own_property w a key = Some c \<Longrightarrow> fully_populated c"
    and f: "\<And>c. f \<Longrightarrow> w' \<noteq> w \<Longrightarrow> own_property w a key = Some c \<Longrightarrow> faithful_insert w a key (merged c desc)"
  shows "step_result f w w'"
proof (cases "w' = w")
  case False
  show ?thesis
  proof (cases "own_property w a key")
    case None
    then have "changed w a key (Some (desc_lang (created desc))) (faithful_insert w a key (created desc)) w'"
      using False d(1) by (simp add: define_result_def split: if_splits)
    moreover have "ob_extensible ob" using None False d(1) a by (simp add: define_result_def split: if_splits)
    moreover have "faithful_insert w a key (created desc)"
      by (rule faithful_absent) (use ok None d(2) in \<open>simp_all add: world_ok_def\<close>)
    ultimately show ?thesis
      using changed_result [OF ok a changed_weaken] None d(2) by (simp add: property_view_def property_kept_def)
  next
    case (Some c)
    then have c: "allowed_change c desc" "\<not> unchanged c desc"
      "changed w a key (Some (desc_lang (merged c desc))) (faithful_insert w a key (merged c desc)) w'"
      using False d(1) by (simp_all add: define_result_def split: if_splits)
    from changed_result [OF ok a changed_weaken [OF c(3)]] show ?thesis
      using f False Some d(2) merged_kept [OF pop [OF Some]] c(1,2) by (simp add: property_view_def)
  qed
qed (use step_result_refl [OF ok] in simp)

lemma prototype_step_result:
  assumes ok: "world_ok w" and a: "ow_objects w a = Some ob" and p: "prototype_set w a val b w'"
  shows "step_result f w w'"
proof -
  have fr: "frame w a w'" "wf (proto_order w')" "\<forall>key. stored_property w' a key = stored_property w a key"
    "ow_objects w a = Some ob \<Longrightarrow> \<exists>pm. ow_objects w' a = Some (ob\<lparr>ob_properties := pm\<rparr>)"
    and x: "\<not> ob_extensible ob \<Longrightarrow> proto_of w' a = proto_of w a"
    using p a by (auto simp: prototype_set_def split: if_splits)
  from fr(4) a obtain pm where pm: "ow_objects w' a = Some (ob\<lparr>ob_properties := pm\<rparr>)" by blast
  have "world_ok w'"
    using ok fr frame_plain [OF fr(1) _ a pm] by (simp add: world_ok_def frame_def)
  moreover have "object_kept w w' b" for b
    using a pm x fr(3) frame_kept [OF fr(1), of b] by (cases "b = a") (auto simp: object_kept_def)
  moreover have "property_view w' b key = property_view w b key" for b key
    using fr(3) frame_views [OF fr(1), of b key] by (cases "b = a") (auto simp: property_view_def)
  ultimately show ?thesis using fr(1) by (simp add: step_result_def frame_def)
qed

lemma prevent_step_result:
  assumes ok: "world_ok w" and a: "ow_objects w a = Some ob"
  shows "step_result f w (w\<lparr>ow_objects := (ow_objects w)(a \<mapsto> ob\<lparr>ob_extensible := False\<rparr>)\<rparr>)"
proof -
  let ?w = "w\<lparr>ow_objects := (ow_objects w)(a \<mapsto> ob\<lparr>ob_extensible := False\<rparr>)\<rparr>"
  have st: "stored_property ?w b key = stored_property w b key" and pr: "proto_of ?w b = proto_of w b" for b key
    using a by (simp_all add: stored_property_def proto_of_def object_proto_def object_shape_def split: option.split)
  have "world_wf ?w"
    using ok a unfolding world_ok_def world_wf_def
    by (auto simp: object_wf_def object_shape_def object_proto_def split: if_splits)
  moreover have "plain ?w" using ok a by (auto simp: world_ok_def plain_def)
  moreover have "proto_order ?w = proto_order w" by (simp add: proto_order_def pr)
  ultimately have "world_ok ?w" using ok by (simp add: world_ok_def)
  moreover have "object_kept w ?w b" for b
    using a by (auto simp: object_kept_def st pr)
  ultimately show ?thesis by (simp add: step_result_def property_view_def st)
qed

lemma step_result_trans: "step_result f u v \<Longrightarrow> step_result f v w \<Longrightarrow> step_result f u w"
  using object_kept_trans property_kept_trans shared_kept_trans unfolding step_result_def by blast

lemma delete_step_result:
  assumes im: "index_map_laws (en_index_map E)" and ok: "world_ok w" and a: "ow_objects w a = Some ob" and k: "valid_key key"
    and pop: "\<And>c. own_property w a key = Some c \<Longrightarrow> fully_populated c"
    and d: "delete_property E a key (w, s) = Some (Inr b, (w', s'))"
    and f: "f \<Longrightarrow> w' \<noteq> w \<Longrightarrow> faithful_remove w a key"
  shows "step_result f w w'"
proof (cases "w' = w")
  case new: False
  have w: "world_wf w" "plain w" using ok by (simp_all add: world_ok_def)
  have "\<And>c. own_property w a key = Some c \<Longrightarrow> pd_configurable c \<noteq> None"
    using pop by (auto simp: fully_populated_def)
  from delete_run [OF w im a k this, of s] d
  have r: "case own_property w a key of None \<Rightarrow> b \<and> w' = w
      | Some c \<Rightarrow> (b \<longleftrightarrow> pd_configurable c = Some True) \<and>
         (if b then changed w a key None (faithful_remove w a key) w' else w' = w)" by auto
  show ?thesis
  proof (cases "\<exists>c. own_property w a key = Some c \<and> pd_configurable c = Some True")
    case True
    then obtain c where c: "own_property w a key = Some c" "pd_configurable c = Some True" by blast
    then have ch: "changed w a key None (faithful_remove w a key) w'" using r by simp
    have st: "stored_property w a key = Some c"
      using c a by (auto simp: own_property_def string_get_own_property_def desc_simps
          split: option.splits if_splits property_key.splits object_data.splits)
    show ?thesis
      by (rule changed_result [OF ok a changed_weaken [OF ch]])
        (use f new st c in \<open>simp_all add: property_view_def property_kept_def desc_lang_def\<close>)
  next
    case False
    then have "w' = w" using r by (auto split: option.splits if_splits)
    then show ?thesis using step_result_refl [OF ok] by simp
  qed
qed (use step_result_refl [OF ok] in simp)

end
