(* ===== verification/ValueOperationFacts.thy ===== *)
theory ValueOperationFacts
  imports ValueOperations
begin

text \<open>
  The operators on \<open>i32\<close> against those on doubles, and the operations tried first against the
  methods they stand for.
\<close>

section \<open>Integers as doubles\<close>

lemma f64_of_i32_double_zero: "f64_zero False = 0" "f64_zero True = 0x8000000000000000"
  by (simp_all add: f64_zero_def)

lemma checked_i32_value: "checked_i32 n = Some v \<longleftrightarrow> - (2 ^ 31) \<le> n \<and> n < 2 ^ 31 \<and> v = word_of_int n"
  by (auto simp: checked_i32_def)

lemma sint_i32: "- (2 ^ 31) \<le> n \<Longrightarrow> n < 2 ^ 31 \<Longrightarrow> sint (word_of_int n :: i32) = n"
  by (simp add: int_word_sint)

lemma i32_or_number: "as_number (i32_or r f) = (case r of Some n \<Rightarrow> Some (f64_of_i32 n) | None \<Rightarrow> Some f)"
  by (simp add: i32_or_def split: option.split)

lemma i32_add_number: "as_number (i32_add x y) = Some (f64_add (f64_of_i32 x) (f64_of_i32 y))"
  using f64_add_i32 [of x y] by (auto simp: i32_add_def i32_or_number checked_i32_value split: option.split)

lemma i32_sub_number: "as_number (i32_sub x y) = Some (f64_sub (f64_of_i32 x) (f64_of_i32 y))"
  using f64_sub_i32 [of x y] by (auto simp: i32_sub_def i32_or_number checked_i32_value split: option.split)

lemma i32_mul_number: "as_number (i32_mul x y) = Some (f64_mul (f64_of_i32 x) (f64_of_i32 y))"
proof (cases "checked_i32 (sint x * sint y)")
  case None
  then show ?thesis by (simp add: i32_mul_def i32_or_number)
next
  case (Some v)
  then have r: "- (2 ^ 31) \<le> sint x * sint y" "sint x * sint y < 2 ^ 31" and v: "v = word_of_int (sint x * sint y)"
    by (simp_all add: checked_i32_value)
  have "sint v = sint x * sint y" unfolding v by (rule sint_i32 [OF r])
  then have z: "v = 0 \<longleftrightarrow> sint x * sint y = 0" by (metis signed_0 signed_eq_0_iff)
  have "v = x * y" by (simp add: v)
  then show ?thesis
    using f64_mul_i32 [OF r] Some z by (auto simp: i32_mul_def i32_or_number f64_zero_def)
qed

lemma f64_zero_finite: "\<not> f64_is_infinite 0" "f64_is_zero 0"
  by (simp_all add: f64_is_infinite_def f64_is_zero_def)

lemma f64_negative_zero: "f64_negative (f64_zero neg) = neg"
  by (simp add: f64_zero_def f64_negative_def)

lemma f64_round_zero: "f64_round neg 0 d = f64_zero neg"
  by (simp add: f64_round_def f64_of_bits_def f64_zero_def)

lemma f64_div_zero: "0 < sint y \<Longrightarrow> f64_div 0 (f64_of_i32 y) = 0"
proof -
  assume y: "0 < sint y"
  then have "y \<noteq> 0" by auto
  with y show ?thesis
    by (simp add: f64_div_def f64_i32_finite f64_i32_negative f64_zero_parts f64_zero_finite pow2_ratio_def
        f64_round_zero f64_of_i32_double_zero split: prod.split)
qed

lemma i32_div_number:
  assumes "\<not> (x = 0 \<and> sint y < 0)"
  shows "as_number (i32_div x y) = Some (f64_div (f64_of_i32 x) (f64_of_i32 y))"
proof (cases "y \<noteq> 0 \<and> (\<exists>d. checked_i32 (sint x sdiv sint y) = Some d \<and> y * d = x)")
  case False
  then show ?thesis by (auto simp: i32_div_def i32_or_number split: option.split)
next
  case True
  let ?q = "sint x sdiv sint y"
  from True obtain d where y: "sint y \<noteq> 0" and q: "- (2 ^ 31) \<le> ?q" "?q < 2 ^ 31" and d: "d = word_of_int ?q" "y * d = x"
    by (auto simp: checked_i32_value signed_eq_0_iff)
  have res: "as_number (i32_div x y) = Some (f64_of_i32 d)"
    using True d by (auto simp: i32_div_def i32_or_number checked_i32_def split: if_splits)
  have prod: "sint y * ?q + sint x smod sint y = sint x" by (rule mult_sdiv_smod_eq)
  show ?thesis
  proof (cases "?q = 0")
    case True
    then have "d = 0" using d(1) by simp
    with d(2) have "x = 0" by simp
    with assms y have "0 < sint y" by simp
    with \<open>x = 0\<close> \<open>d = 0\<close> res show ?thesis by (simp add: f64_div_zero)
  next
    case False
    let ?r = "sint x smod sint y"
    have "(word_of_int ?r :: i32) = x - y * d"
      using arg_cong [OF prod, of "word_of_int :: int \<Rightarrow> i32"] by (simp add: d(1) algebra_simps)
    then have "(word_of_int ?r :: i32) = word_of_int 0" using d(2) by simp
    then have "?r mod 2 ^ 32 = 0" by (simp only: word_of_int_eq_iff take_bit_eq_mod) simp
    moreover have "\<bar>?r\<bar> < \<bar>sint y\<bar>" using y by (simp add: signed_modulo_int_def abs_mult)
    moreover have "\<bar>sint y\<bar> \<le> 2 ^ 31" using sint_i32_bounds [of y] by simp
    ultimately have "?r = 0" by (auto simp: dvd_eq_mod_eq_0 [symmetric] dest: zdvd_imp_le dvd_imp_le_int)
    with prod have "sint x = sint y * ?q" by simp
    then show ?thesis
      using f64_div_i32 [OF y _ False q] res d(1) by simp
  qed
qed

lemma negative_bit: "f64_negative b \<longleftrightarrow> bit b 63"
proof -
  have "b AND SIGN_MASK = (if bit b 63 then SIGN_MASK else 0)"
    by (rule bit_word_eqI) (auto simp: bit_simps bit_SIGN_MASK)
  moreover have "SIGN_MASK \<noteq> 0" by (simp add: SIGN_MASK_def)
  ultimately show ?thesis using sign_bits [of b] by (auto split: if_splits)
qed

lemma f64_copysign_same: "(f64_negative a \<longleftrightarrow> f64_negative b) \<Longrightarrow> f64_copysign a b = a"
proof -
  assume s: "f64_negative a \<longleftrightarrow> f64_negative b"
  have m: "(0x7FFFFFFFFFFFFFFF :: 64 word) = NOT SIGN_MASK" "(0x8000000000000000 :: 64 word) = SIGN_MASK"
    by (simp_all add: SIGN_MASK_def)
  show ?thesis unfolding f64_copysign_def f64_abs_def m
    by (rule bit_word_eqI) (use s in \<open>auto simp: bit_simps bit_SIGN_MASK negative_bit\<close>)
qed

lemma smod_sign: "b \<noteq> 0 \<Longrightarrow> a smod b \<noteq> 0 \<Longrightarrow> (a smod b < 0) = (a < (0::int))"
proof -
  assume b: "b \<noteq> 0" and nz: "a smod b \<noteq> 0"
  have r: "a smod b = sgn a * (\<bar>a\<bar> mod \<bar>b\<bar>)" by (simp add: signed_modulo_int_def)
  have "0 \<le> \<bar>a\<bar> mod \<bar>b\<bar>" using b by simp
  then have "0 < \<bar>a\<bar> mod \<bar>b\<bar>" using nz r by (simp add: less_le)
  then show ?thesis by (simp add: r mult_less_0_iff sgn_if)
qed

lemma scale_common_nat: "j \<le> k \<Longrightarrow> a * 2 ^ j * 2 ^ nat (- int j - - int k) = (a * 2 ^ k :: nat)"
proof -
  assume j: "j \<le> k"
  have "nat (- int j - - int k) = k - j" by simp
  with j have "(2::nat) ^ j * 2 ^ nat (- int j - - int k) = 2 ^ k"
    by (simp only: power_add [symmetric] le_add_diff_inverse)
  then show ?thesis by (simp only: mult.assoc)
qed

lemma f64_rem_i32:
  assumes "y \<noteq> 0"
  shows "f64_rem (f64_of_i32 x) (f64_of_i32 y) =
    (if sint x smod sint y = 0 then f64_zero (sint x < 0) else f64_of_i32 (word_of_int (sint x smod sint y)))"
proof -
  obtain kx where kx: "f64_mantissa (f64_of_i32 x) = nat \<bar>sint x\<bar> * 2 ^ kx" "f64_shift (f64_of_i32 x) = - int kx"
    by (rule f64_i32_value)
  obtain ky where ky: "f64_mantissa (f64_of_i32 y) = nat \<bar>sint y\<bar> * 2 ^ ky" "f64_shift (f64_of_i32 y) = - int ky"
    by (rule f64_i32_value)
  have y: "sint y \<noteq> 0" using assms by (simp add: signed_eq_0_iff)
  let ?k = "max kx ky" and ?r = "sint x smod sint y"
  have e: "min (- int kx) (- int ky) = - int ?k" by simp
  have m: "(nat \<bar>sint x\<bar> * 2 ^ kx * 2 ^ nat (- int kx - - int ?k)) mod (nat \<bar>sint y\<bar> * 2 ^ ky * 2 ^ nat (- int ky - - int ?k)) =
      (nat \<bar>sint x\<bar> mod nat \<bar>sint y\<bar>) * 2 ^ ?k"
    by (simp only: scale_common_nat max.cobounded1 max.cobounded2 mult_mod_left)
  have r: "nat \<bar>sint x\<bar> mod nat \<bar>sint y\<bar> = nat \<bar>?r\<bar>"
    using y by (cases "sint x = 0") (simp_all add: signed_modulo_int_def abs_mult abs_sgn_eq nat_mod_distrib)
  have nz: "\<not> f64_is_zero (f64_of_i32 y)" using assms by simp
  have "f64_rem (f64_of_i32 x) (f64_of_i32 y) = f64_scale (sint x < 0) (nat \<bar>?r\<bar> * 2 ^ ?k) (- int ?k)"
    by (simp only: f64_rem_def f64_i32_finite nz if_False simp_thms Let_def kx ky e m r f64_i32_negative)
  also have "\<dots> = (if ?r = 0 then f64_zero (sint x < 0) else f64_of_i32 (word_of_int ?r))"
  proof (cases "?r = 0")
    case True
    then show ?thesis by (simp add: f64_scale_def pow2_ratio_def f64_round_zero split: prod.split)
  next
    case False
    have "\<bar>?r\<bar> < \<bar>sint y\<bar>" using y by (simp add: signed_modulo_int_def abs_mult sgn_if)
    then have "- (2 ^ 31) \<le> ?r" "?r < 2 ^ 31" using sint_i32_bounds [of y] by auto
    moreover have "(sint x < 0) = (?r < 0)"
      using smod_sign [OF y False] by simp
    ultimately show ?thesis using False i32_result_scale [OF False, of ?k] by simp
  qed
  finally show ?thesis .
qed

lemma i32_rem_number:
  assumes "i32_rem x y = Some r"
  shows "as_number r = Some (f64_copysign (f64_rem (f64_of_i32 x) (f64_of_i32 y)) (f64_of_i32 x)) \<or>
    y = 0 \<and> as_number r = Some f64_NAN"
proof (cases "y = 0")
  case True
  with assms show ?thesis by (auto simp: i32_rem_def)
next
  case False
  let ?r = "sint x smod sint y"
  have y: "sint y \<noteq> 0" using False by (simp add: signed_eq_0_iff)
  have "\<bar>?r\<bar> < \<bar>sint y\<bar>" using y by (simp add: signed_modulo_int_def abs_mult sgn_if)
  then have b: "- (2 ^ 31) \<le> ?r" "?r < 2 ^ 31" using sint_i32_bounds [of y] by auto
  have z: "(word_of_int ?r :: i32) = 0 \<longleftrightarrow> ?r = 0" using sint_i32 [OF b] by (metis signed_0 word_of_int_0)
  have r: "r = (if ?r = 0 \<and> sint x < 0 then VFloat64 0x8000000000000000 else VInteger32 (word_of_int ?r))"
    using assms False z by (auto simp: i32_rem_def Let_def split: if_splits)
  have "f64_negative (f64_rem (f64_of_i32 x) (f64_of_i32 y)) \<longleftrightarrow> f64_negative (f64_of_i32 x)"
  proof (cases "?r = 0")
    case True
    then show ?thesis by (simp add: f64_rem_i32 [OF False] f64_i32_negative f64_negative_zero)
  next
    case nz: False
    have "(?r < 0) = (sint x < 0)"
      by (rule smod_sign [OF y nz])
    then show ?thesis using nz by (simp add: f64_rem_i32 [OF False] f64_i32_negative sint_i32 [OF b])
  qed
  then show ?thesis using r by (auto simp: f64_copysign_same f64_rem_i32 [OF False] f64_zero_def)
qed

section \<open>Comparisons\<close>

lemma less_rank_eq: "f64_rank a = f64_rank b \<Longrightarrow> a = b \<or> f64_is_zero a \<and> f64_is_zero b"
proof -
  have z: "c = 0 \<or> c = 0x8000000000000000" if "f64_rank c = 0" for c :: f64
  proof -
    from that have "uint c = 0 \<or> uint c = 2 ^ 63" by (auto simp: f64_rank_def split: if_splits)
    then show ?thesis
    proof
      assume "uint c = 2 ^ 63"
      then have "uint c = uint (0x8000000000000000 :: f64)" by simp
      then show ?thesis by (simp only: word_uint_eq_iff simp_thms)
    qed (simp add: unsigned_eq_0_iff)
  qed
  have n: "f64_negative c \<longleftrightarrow> 2 ^ 63 \<le> uint c" for c :: f64
  proof -
    have "f64_negative c \<longleftrightarrow> int (2 ^ 63) \<le> int (unat c)" unfolding f64_negative_def by (rule of_nat_le_iff [symmetric])
    then show ?thesis by (simp only: uint_nat) simp
  qed
  assume eq: "f64_rank a = f64_rank b"
  show ?thesis
  proof (cases "f64_rank a = 0")
    case True
    with eq z [of a] z [of b] show ?thesis
      by (auto simp: f64_is_zero_def f64_exponent_def f64_fraction_def)
  next
    case False
    have u: "uint c = (if 0 < f64_rank c then f64_rank c else 2 ^ 63 - f64_rank c)" if "f64_rank c \<noteq> 0" for c
      using that n [of c] by (simp add: f64_rank_def order.strict_iff_order [of 0 "uint c"] split: if_splits)
    have "uint a = uint b" using u [of a] u [of b] eq False by simp
    then show ?thesis by (simp add: word_uint_eq_iff)
  qed
qed

lemma f64_rank_zero: "f64_is_zero a \<Longrightarrow> f64_rank a = 0"
  using f64_zero_bits [of a] by (auto simp: f64_rank_def f64_negative_def)

lemma f64_eq_rank: "f64_eq a b \<longleftrightarrow> \<not> f64_is_nan a \<and> \<not> f64_is_nan b \<and> f64_rank a = f64_rank b"
  using less_rank_eq [of a b] f64_rank_zero [of a] f64_rank_zero [of b] by (auto simp: f64_eq_def)

text \<open>Every number lies between the infinities.\<close>

lemma f64_rank_bounds:
  assumes "\<not> f64_is_nan b"
  shows "- 0x7FF0000000000000 \<le> f64_rank b" "f64_rank b \<le> 0x7FF0000000000000"
    and "f64_is_infinite b \<Longrightarrow> f64_rank b = (if f64_negative b then - 0x7FF0000000000000 else 0x7FF0000000000000)"
proof -
  let ?u = "unat b"
  have u: "?u < 2 ^ 64" by (rule unat64_less)
  have split: "?u = (if f64_negative b then 2 ^ 63 else 0) + f64_exponent b * 2 ^ 52 + f64_fraction b"
  proof -
    have "?u = ?u div 2 ^ 52 * 2 ^ 52 + f64_fraction b" by (simp add: f64_fraction_def)
    moreover have "?u div 2 ^ 52 = (if f64_negative b then 2048 else 0) + f64_exponent b"
    proof -
      have q: "?u div 2 ^ 52 < 4096" using u by (simp add: div_less_iff_less_mult)
      have "f64_negative b \<longleftrightarrow> 2048 \<le> ?u div 2 ^ 52"
        by (simp add: f64_negative_def less_eq_div_iff_mult_less_eq)
      then show ?thesis using q by (auto simp: f64_exponent_def mod_if le_mod_geq)
    qed
    ultimately show ?thesis by (auto simp: algebra_simps)
  qed
  have rank: "f64_rank b = (if f64_negative b then - 1 else 1) * int (f64_exponent b * 2 ^ 52 + f64_fraction b)"
    unfolding f64_rank_def uint_nat split by simp
  have m: "f64_exponent b * 2 ^ 52 + f64_fraction b \<le> 2047 * 2 ^ 52"
  proof (cases "f64_exponent b = 2047")
    case True
    with assms show ?thesis by (simp add: f64_is_nan_def)
  next
    case False
    then have "f64_exponent b \<le> 2046" using f64_field_bounds(1) [of b] by simp
    then have "f64_exponent b * 2 ^ 52 \<le> 2046 * 2 ^ 52" by simp
    with f64_field_bounds(2) [of b] show ?thesis by simp
  qed
  then have "int (f64_exponent b * 2 ^ 52 + f64_fraction b) \<le> 0x7FF0000000000000" by simp
  then show "- 0x7FF0000000000000 \<le> f64_rank b" "f64_rank b \<le> 0x7FF0000000000000"
    by (auto simp only: rank split: if_splits) simp_all
  show "f64_is_infinite b \<Longrightarrow> f64_rank b = (if f64_negative b then - 0x7FF0000000000000 else 0x7FF0000000000000)"
    by (simp add: rank f64_is_infinite_def)
qed

lemma less_than_rank:
  "less_than x y = (if f64_is_nan x \<or> f64_is_nan y then RelUndefined else relation_of_bool (f64_less x y))"
proof (cases "f64_is_nan x \<or> f64_is_nan y")
  case True
  then show ?thesis by (simp add: less_than_def)
next
  case False
  then have n: "\<not> f64_is_nan x" "\<not> f64_is_nan y" by simp_all
  have z: "f64_eq x 0 \<and> f64_eq y 0x8000000000000000 \<or> f64_eq x 0x8000000000000000 \<and> f64_eq y 0 \<Longrightarrow> f64_rank x = f64_rank y"
    by (auto simp: f64_eq_rank f64_rank_def f64_negative_def split: if_splits)
  show ?thesis
    using n z f64_rank_bounds [OF n(1)] f64_rank_bounds [OF n(2)]
    by (auto simp: less_than_def f64_eq_rank [of x y] f64_less_def relation_of_bool_def)
qed

section \<open>Properties\<close>

text \<open>C34
  Arithmetic on \<open>i32\<close> is the arithmetic of doubles on the same numbers, bit for bit and with the sign
  of zero: the overflow checks and the test for a negative zero in the product are exactly what is
  needed. There are two exceptions: zero divided by a negative number is the positive zero, and the
  remainder of the smallest \<open>i32\<close> by minus one panics; every other remainder returns.
\<close>
theorem integers_are_doubles:
  "as_number (i32_add x y) = Some (f64_add (f64_of_i32 x) (f64_of_i32 y)) \<and>
   as_number (i32_sub x y) = Some (f64_sub (f64_of_i32 x) (f64_of_i32 y)) \<and>
   as_number (i32_mul x y) = Some (f64_mul (f64_of_i32 x) (f64_of_i32 y)) \<and>
   as_number (i32_div x y) =
     Some (if x = 0 \<and> sint y < 0 then 0 else f64_div (f64_of_i32 x) (f64_of_i32 y)) \<and>
   map_option as_number (i32_rem x y) =
     (if x = 0x80000000 \<and> y = - 1 then None
      else Some (Some (if y = 0 then f64_NAN
                       else f64_copysign (f64_rem (f64_of_i32 x) (f64_of_i32 y)) (f64_of_i32 x))))"
proof -
  have "map_option as_number (i32_rem x y) =
     (if x = 0x80000000 \<and> y = - 1 then None
      else Some (Some (if y = 0 then f64_NAN
                       else f64_copysign (f64_rem (f64_of_i32 x) (f64_of_i32 y)) (f64_of_i32 x))))"
  proof (cases "i32_rem x y")
    case None
    then show ?thesis by (auto simp: i32_rem_def Let_def split: if_splits)
  next
    case (Some r)
    then have "\<not> (x = 0x80000000 \<and> y = - 1)" by (auto simp: i32_rem_def)
    moreover have "as_number r = Some (if y = 0 then f64_NAN
        else f64_copysign (f64_rem (f64_of_i32 x) (f64_of_i32 y)) (f64_of_i32 x))"
      using i32_rem_number [OF Some] Some by (auto simp: i32_rem_def)
    ultimately show ?thesis using Some by simp
  qed
  moreover have "as_number (i32_div x y) = Some (if x = 0 \<and> sint y < 0 then 0 else f64_div (f64_of_i32 x) (f64_of_i32 y))"
  proof (cases "x = 0 \<and> sint y < 0")
    case True
    then show ?thesis by (auto simp: i32_div_def checked_i32_def i32_or_def)
  qed (use i32_div_number [of x y] in auto)
  ultimately show ?thesis using i32_add_number i32_sub_number i32_mul_number by simp
qed

theorem integers_are_doubles_witness:
  "as_number (i32_div 6 (- 3)) = Some (f64_div (f64_of_i32 6) (f64_of_i32 (- 3))) \<and> i32_rem 0x80000000 (- 1) = None"
  using integers_are_doubles [of 6 "- 3"] integers_are_doubles [of "0x80000000" "- 1"] by simp

text \<open>
  Zero divided by a negative integer is the integer zero, where the quotient of the doubles is the
  negative zero.
\<close>
theorem division_loses_negative_zero:
  "sint y < 0 \<Longrightarrow> value_div C (VInteger32 0) (VInteger32 y) w = Some (Inr (VInteger32 0), w) \<and>
     div_fast (VInteger32 0) (VInteger32 y) = Some (Some (VInteger32 0)) \<and>
     f64_div (f64_of_i32 0) (f64_of_i32 y) = 0x8000000000000000"
proof -
  assume y: "sint y < 0"
  then have nz: "y \<noteq> 0" by auto
  have d: "i32_div 0 y = VInteger32 0" using nz by (simp add: i32_div_def checked_i32_def i32_or_def)
  have "f64_div 0 (f64_of_i32 y) = 0x8000000000000000"
    using y nz by (simp add: f64_div_def f64_i32_finite f64_i32_negative f64_zero_parts f64_zero_finite pow2_ratio_def
        f64_round_zero f64_of_i32_double_zero split: prod.split)
  with d show ?thesis
    by (simp add: value_div_def float_op_def binary_op_def run_unwrap_def div_fast_def fast_op_def)
qed

definition plain_operators :: "unit operators" where
  "plain_operators =
     \<lparr>cv_to_primitive = (\<lambda>_ _. run_throw TypeError), cv_string_to_number = (\<lambda>_. 0), cv_is_htmldda = (\<lambda>_. False),
      op_powi = (\<lambda>x _. x), op_powf = (\<lambda>x _. x), op_to_string = (\<lambda>_. run_return []), op_parse_bigint = (\<lambda>_. None)\<rparr>"

theorem division_loses_negative_zero_witness:
  "value_div plain_operators (VInteger32 0) (VInteger32 (- 1)) () = Some (Inr (VInteger32 0), ())"
  using division_loses_negative_zero [of "- 1" plain_operators "()"] by simp

text \<open>
  The remainder of two integers panics in exactly one case: the smallest \<open>i32\<close> by minus one.
\<close>
theorem remainder_panics:
  "value_rem C (VInteger32 x) (VInteger32 y) w = None \<longleftrightarrow> x = 0x80000000 \<and> y = - 1"
  by (auto simp: value_rem_def float_op_def binary_op_def run_unwrap_def i32_rem_def Let_def split: option.split)

text \<open>
  A fast operation agrees with its method on two values: a panic is a panic, a result the same
  result without effect, and declining says nothing.
\<close>

definition agrees :: "'a option panics \<Rightarrow> ('w, 'a) run \<Rightarrow> bool" where
  "agrees fast method \<longleftrightarrow>
     (\<forall>w. case fast of
        None \<Rightarrow> method w = None
      | Some None \<Rightarrow> True
      | Some (Some r) \<Rightarrow> method w = Some (Inr r, w))"

lemma agrees_float_op: "agrees (fast_op ii ff x y) (float_op C ii ff nn bb x y)"
  by (cases x; cases y)
    (simp_all add: agrees_def fast_op_def float_op_def binary_op_def run_unwrap_def run_return_def split: option.split)

lemma agrees_int32_op: "agrees (Some (fast_int_op f x y)) (int32_op C f bb x y)"
  by (cases x; cases y) (simp_all add: agrees_def fast_int_op_def int32_op_def binary_op_def run_unwrap_def)

lemma agrees_add: "agrees (add_fast x y) (value_add C x y)"
  by (cases x; cases y)
    (simp_all add: agrees_def add_fast_def fast_op_def value_add_def binary_op_def run_unwrap_def run_return_def)

lemma agrees_relation:
  assumes "\<And>a b. ii a b = Some (sint a < sint b)"
  shows "agrees (fast_op ii f64_less x y) (value_lt C x y)"
  by (cases x; cases y)
    (simp_all add: agrees_def fast_op_def assms value_lt_def abstract_relation_def run_simps less_than_rank
      relation_of_bool_def f64_less_def)

lemma f64_le_less: "f64_le x y \<longleftrightarrow> \<not> f64_is_nan x \<and> \<not> f64_is_nan y \<and> \<not> f64_less y x"
  by (auto simp: f64_le_def f64_less_def)

lemma agrees_comparisons:
  "agrees (lt_fast x y) (value_lt C x y)" "agrees (le_fast x y) (value_le C x y)"
  "agrees (gt_fast x y) (value_gt C x y)" "agrees (ge_fast x y) (value_ge C x y)"
  by (cases x; cases y; simp add: agrees_def lt_fast_def le_fast_def gt_fast_def ge_fast_def fast_op_def value_lt_def value_le_def
      value_gt_def value_ge_def abstract_relation_def run_simps less_than_rank relation_of_bool_def f64_less_def
      f64_le_def linorder_not_less)+

lemma agrees_pow: "agrees (pow_fast C (VInteger32 a) (VInteger32 b)) (value_pow C (VInteger32 a) (VInteger32 b))"
  "agrees (pow_fast C (VFloat64 f) (VFloat64 g)) (value_pow C (VFloat64 f) (VFloat64 g))"
  by (simp_all add: agrees_def pow_fast_def fast_op_def value_pow_def binary_op_def run_unwrap_def run_return_def)

text \<open>
  What the bytecode handlers try first is the method: where an operation on numbers gives a result,
  the method gives the same one without effect, and where it panics so does the method. This holds
  of all operators but \<open>**\<close> with operands of mixed representation.
\<close>
theorem fast_paths_agree:
  "agrees (add_fast x y) (value_add C x y) \<and> agrees (sub_fast x y) (value_sub C x y) \<and>
   agrees (mul_fast x y) (value_mul C x y) \<and> agrees (div_fast x y) (value_div C x y) \<and>
   agrees (rem_fast x y) (value_rem C x y) \<and>
   agrees (pow_fast C (VInteger32 a) (VInteger32 b)) (value_pow C (VInteger32 a) (VInteger32 b)) \<and>
   agrees (pow_fast C (VFloat64 f) (VFloat64 g)) (value_pow C (VFloat64 f) (VFloat64 g)) \<and>
   agrees (Some (bitand_fast x y)) (value_bitand C x y) \<and> agrees (Some (bitor_fast x y)) (value_bitor C x y) \<and>
   agrees (Some (bitxor_fast x y)) (value_bitxor C x y) \<and> agrees (Some (shl_fast x y)) (value_shl C x y) \<and>
   agrees (Some (shr_fast x y)) (value_shr C x y) \<and> agrees (Some (ushr_fast x y)) (value_ushr C x y) \<and>
   agrees (lt_fast x y) (value_lt C x y) \<and> agrees (le_fast x y) (value_le C x y) \<and>
   agrees (gt_fast x y) (value_gt C x y) \<and> agrees (ge_fast x y) (value_ge C x y)"
  by (simp add: agrees_add agrees_comparisons agrees_pow agrees_float_op agrees_int32_op
      sub_fast_def value_sub_def mul_fast_def value_mul_def div_fast_def value_div_def rem_fast_def value_rem_def
      bitand_fast_def value_bitand_def bitor_fast_def value_bitor_def bitxor_fast_def value_bitxor_def
      shl_fast_def value_shl_def shr_fast_def value_shr_def ushr_fast_def value_ushr_def)

text \<open>
  Negation of an object never throws: an error of the user's conversion is swallowed and the result
  is NaN; and the negation of the smallest \<open>i32\<close> is itself.
\<close>
theorem negation_swallows_errors:
  "cv_to_primitive plain_operators a PreferNumber () = Some (Inl TypeError, ()) \<and>
   value_neg plain_operators (VObject a) () = Some (Inr (VFloat64 f64_NAN), ()) \<and>
   value_neg plain_operators (VInteger32 0x80000000) () = Some (Inr (VInteger32 0x80000000), ())"
  by (simp add: value_neg_def to_primitive_def run_bind_def run_return_def run_throw_def plain_operators_def)

section \<open>The types of results\<close>

lemma to_numeric_kind:
  assumes "to_numeric C v w = Some (Inr r, w')" "get_type v \<noteq> TObject"
  shows "(\<exists>n. r = NBigInt n) \<longleftrightarrow> get_type v = TBigInt"
  using assms
  by (cases v) (auto simp: to_numeric_def to_primitive_def run_bind_Some run_evaluate)

lemma numeric_slow_type:
  assumes "numeric_slow C nn bb x y w = Some (Inr v, w')" "get_type x \<noteq> TObject" "get_type y \<noteq> TObject"
    "\<And>a b. get_type (nn a b) = TNumber"
  shows "get_type v = (if get_type x = TBigInt \<and> get_type y = TBigInt then TBigInt else TNumber)"
proof -
  obtain a w1 where a: "to_numeric C x w = Some (Inr a, w1)"
    using assms(1) by (auto simp: numeric_slow_def run_bind_Some)
  moreover from this obtain b w2 where b: "to_numeric C y w1 = Some (Inr b, w2)"
    using assms(1) by (auto simp: numeric_slow_def run_bind_Some)
  ultimately show ?thesis
    using assms(1,4) to_numeric_kind [OF a assms(2)] to_numeric_kind [OF b assms(3)]
    by (cases a; cases b) (auto simp: numeric_slow_def run_bind_Some run_evaluate run_lift_def)
qed

lemma binary_op_type:
  assumes run: "binary_op ii ff fi if' bb (numeric_slow C nn bb) x y w = Some (Inr v, w')"
    and xy: "get_type x \<noteq> TObject" "get_type y \<noteq> TObject"
    and "\<And>a b c. ii a b = Some c \<Longrightarrow> get_type c = TNumber" "\<And>a b. get_type (ff a b) = TNumber"
    "\<And>a b. get_type (fi a b) = TNumber" "\<And>a b. get_type (if' a b) = TNumber" "\<And>a b. get_type (nn a b) = TNumber"
  shows "get_type v = (if get_type x = TBigInt \<and> get_type y = TBigInt then TBigInt else TNumber)"
  using run xy assms(4-7) numeric_slow_type [OF _ xy assms(8)]
  by (cases x; cases y)
    (auto simp: binary_op_def run_evaluate run_unwrap_def run_bind_Some run_lift_def split: option.splits)

lemma integer_results [simp]:
  "get_type (i32_or r f) = TNumber" "get_type (i32_add a b) = TNumber" "get_type (i32_sub a b) = TNumber"
  "get_type (i32_mul a b) = TNumber" "get_type (i32_div a b) = TNumber" "get_type (i32_pow C a b) = TNumber"
  "get_type (float_pow C f g) = TNumber" "get_type (value_of_u32 n) = TNumber"
  "i32_rem a b = Some v \<Longrightarrow> get_type v = TNumber"
  by (auto simp: i32_or_def i32_add_def i32_sub_def i32_mul_def i32_div_def i32_pow_def float_pow_def value_of_u32_def
      i32_rem_def Let_def split: option.splits if_splits)

lemma operator_type:
  assumes op: "op \<in> {value_sub C, value_mul C, value_div C, value_rem C, value_pow C, value_bitand C, value_bitor C,
      value_bitxor C, value_shl C, value_shr C, value_ushr C}"
    and run: "op x y w = Some (Inr v, w')" and xy: "get_type x \<noteq> TObject" "get_type y \<noteq> TObject"
  shows "get_type v = (if get_type x = TBigInt \<and> get_type y = TBigInt then TBigInt else TNumber)"
proof -
  from op obtain ii ff fi if' nn bb where f: "op = binary_op ii ff fi if' bb (numeric_slow C nn bb)"
    and t: "\<And>a b c. ii a b = Some c \<Longrightarrow> get_type c = TNumber" "\<And>a b. get_type (ff a b) = TNumber"
    "\<And>a b. get_type (fi a b) = TNumber" "\<And>a b. get_type (if' a b) = TNumber" "\<And>a b. get_type (nn a b) = TNumber"
    unfolding value_sub_def value_mul_def value_div_def value_rem_def value_pow_def value_bitand_def value_bitor_def
      value_bitxor_def value_shl_def value_shr_def value_ushr_def float_op_def int32_op_def
    by (elim insertE emptyE) (rule that, assumption, auto)+
  show ?thesis
    by (rule binary_op_type [OF run [unfolded f] xy t])
qed

lemma value_add_cases:
  assumes "get_type x \<noteq> TObject" "get_type y \<noteq> TObject"
  shows "value_add C x y =
    (case x of
       VString s \<Rightarrow>
         (case y of VString t \<Rightarrow> run_return (VString (s @ t))
          | _ \<Rightarrow> run_bind (op_to_string C y) (\<lambda>t. run_return (VString (s @ t))))
     | _ \<Rightarrow>
         (case y of VString t \<Rightarrow> run_bind (op_to_string C x) (\<lambda>s. run_return (VString (s @ t)))
          | _ \<Rightarrow> float_op C (\<lambda>x y. Some (i32_add x y)) (\<lambda>x y. VFloat64 (f64_add x y)) (\<lambda>x y. VFloat64 (f64_add x y))
              (\<lambda>x y. Inr (x + y)) x y))"
proof -
  have bind: "run_bind (run_return a) f = f a" for a :: js_value and f :: "js_value \<Rightarrow> ('a, js_value) run"
    by (simp add: fun_eq_iff run_bind_def run_return_def)
  have prim: "to_primitive C v p = run_return v" if "get_type v \<noteq> TObject" for v p
    using that by (cases v) (simp_all add: to_primitive_def)
  show ?thesis
    using assms by (cases x; cases y) (simp_all add: value_add_def float_op_def binary_op_def prim bind)
qed

lemma value_add_number:
  assumes "get_type x \<noteq> TObject" "get_type y \<noteq> TObject" "\<not> (get_type x = TString \<or> get_type y = TString)"
  shows "value_add C x y = float_op C (\<lambda>x y. Some (i32_add x y)) (\<lambda>x y. VFloat64 (f64_add x y))
    (\<lambda>x y. VFloat64 (f64_add x y)) (\<lambda>x y. Inr (x + y)) x y"
  using assms(3) unfolding value_add_cases [OF assms(1,2)] by (cases x; cases y) simp_all

lemma value_add_string:
  assumes "get_type x \<noteq> TObject" "get_type y \<noteq> TObject" "get_type x = TString \<or> get_type y = TString"
    "value_add C x y w = Some (Inr v, w')"
  shows "get_type v = TString"
proof -
  have s: "get_type v = TString" if "run_bind m (\<lambda>t. run_return (VString (f t))) w = Some (Inr v, w')" for m f
    using that by (auto simp: run_bind_Some run_evaluate)
  show ?thesis
    using assms(3,4) unfolding value_add_cases [OF assms(1,2)]
    by (cases x; cases y) (auto simp: s run_evaluate)
qed

text \<open>C33
  The types of the results of operators on operands that are no objects: a \<open>BigInt\<close> exactly for two
  \<open>BigInt\<close>s and else a number, never a mixture; \<open>+\<close> gives a string when one operand is a string.
\<close>
theorem operator_types:
  assumes "get_type x \<noteq> TObject" "get_type y \<noteq> TObject"
  shows "(\<forall>op \<in> {value_sub C, value_mul C, value_div C, value_rem C, value_pow C, value_bitand C, value_bitor C,
        value_bitxor C, value_shl C, value_shr C, value_ushr C}. \<forall>v. op x y w = Some (Inr v, w') \<longrightarrow>
      get_type v = (if get_type x = TBigInt \<and> get_type y = TBigInt then TBigInt else TNumber)) \<and>
    (\<forall>v. value_add C x y w = Some (Inr v, w') \<longrightarrow>
      get_type v = (if get_type x = TString \<or> get_type y = TString then TString
        else if get_type x = TBigInt \<and> get_type y = TBigInt then TBigInt else TNumber))"
proof (intro conjI ballI allI impI)
  fix op v assume "op \<in> {value_sub C, value_mul C, value_div C, value_rem C, value_pow C, value_bitand C, value_bitor C,
        value_bitxor C, value_shl C, value_shr C, value_ushr C}" "op x y w = Some (Inr v, w')"
  then show "get_type v = (if get_type x = TBigInt \<and> get_type y = TBigInt then TBigInt else TNumber)"
    using assms by (rule operator_type)
next
  fix v assume run: "value_add C x y w = Some (Inr v, w')"
  have num: "get_type v = (if get_type x = TBigInt \<and> get_type y = TBigInt then TBigInt else TNumber)"
    if "float_op C (\<lambda>x y. Some (i32_add x y)) (\<lambda>x y. VFloat64 (f64_add x y)) (\<lambda>x y. VFloat64 (f64_add x y))
      (\<lambda>x y. Inr (x + y)) x y w = Some (Inr v, w')"
    using that unfolding float_op_def by (rule binary_op_type) (use assms in simp_all)
  show "get_type v = (if get_type x = TString \<or> get_type y = TString then TString
        else if get_type x = TBigInt \<and> get_type y = TBigInt then TBigInt else TNumber)"
  proof (cases "get_type x = TString \<or> get_type y = TString")
    case True
    then show ?thesis using value_add_string [OF assms True run] by simp
  next
    case False
    then show ?thesis using num [OF run [unfolded value_add_number [OF assms False]]] by simp
  qed
qed

theorem operator_types_witness:
  "\<exists>v. value_add plain_operators (VString [1]) (VString [2]) () = Some (Inr v, ()) \<and> get_type v = TString"
proof -
  have "value_add plain_operators (VString [1]) (VString [2]) () = Some (Inr (VString [1, 2]), ())"
    by (simp add: value_add_def run_return_def)
  then show ?thesis
    using operator_types [of "VString [1]" "VString [2]" plain_operators "()" "()"] by auto
qed

end
