(* ===== verification/ArrayFacts.thy ===== *)
theory ArrayFacts
  imports ObjectInvariants SlotAccess ValueOperationFacts
begin

text \<open>
  Arrays: every index is below the length. A definition of an element or of the length is a sequence
  of ordinary definitions and deletions, each of which keeps this and the invariants of objects;
  the length that remains is the one asked for, or ends after an element that cannot be deleted.
\<close>

section \<open>The numbers of 32 bits\<close>

definition number_u32 :: "u32 \<Rightarrow> f64" where
  "number_u32 n = f64_of_int (uint n)"

lemma f64_of_int_fields:
  assumes m: "0 < m" "m < 2 ^ 52"
  shows "f64_exponent (f64_of_int (int m)) = 1023 + ilog2 m"
    and "f64_fraction (f64_of_int (int m)) = m * 2 ^ (52 - ilog2 m) - 2 ^ 52"
    and "\<not> f64_negative (f64_of_int (int m))"
proof -
  note enc = f64_encode_fields [OF m, of False]
  have "f64_of_int (int m) = word_of_nat (f64_encode False m)"
    using f64_scale_exact [OF m, of False 0] by (simp add: f64_of_int_def)
  then have u: "unat (f64_of_int (int m)) = f64_encode False m"
    using enc(1) by (simp add: unat_of_nat)
  show "f64_exponent (f64_of_int (int m)) = 1023 + ilog2 m" by (simp only: f64_exponent_def u enc(2))
  show "f64_fraction (f64_of_int (int m)) = m * 2 ^ (52 - ilog2 m) - 2 ^ 52" by (simp only: f64_fraction_def u enc(3))
  show "\<not> f64_negative (f64_of_int (int m))" by (simp only: f64_negative_def u enc(4) not_False_eq_True)
qed

lemma number_u32_0 [simp]: "number_u32 0 = 0"
  by (simp add: number_u32_def f64_of_int_def f64_scale_def pow2_ratio_def f64_round_def f64_of_bits_def)

lemma number_u32_finite: "\<not> f64_is_nan (number_u32 n)" "\<not> f64_is_infinite (number_u32 n)" "f64_trunc (number_u32 n) = uint n"
proof -
  have "\<not> f64_is_nan (number_u32 n) \<and> \<not> f64_is_infinite (number_u32 n) \<and> f64_trunc (number_u32 n) = uint n"
  proof (cases "n = 0")
    case False
    then have m: "0 < unat n" "unat n < 2 ^ 52"
      using unsigned_less [of n, where ?'a = nat] by (simp_all add: unat_gt_0)
    let ?m = "unat n"
    have f: "f64_exponent (number_u32 n) = 1023 + ilog2 ?m"
      "f64_fraction (number_u32 n) = ?m * 2 ^ (52 - ilog2 ?m) - 2 ^ 52" "\<not> f64_negative (number_u32 n)"
      using f64_of_int_fields [OF m] by (simp_all add: number_u32_def)
    have e: "ilog2 ?m < 52" using ilog2_less m by blast
    have le: "2 ^ 52 \<le> ?m * 2 ^ (52 - ilog2 ?m)" by (rule f64_scaled_bounds(1) [OF m])
    have "f64_magnitude (number_u32 n) = ?m * 2 ^ (52 - ilog2 ?m) * 2 ^ ilog2 ?m div 2 ^ 52"
      using le by (simp add: f64_magnitude_def f)
    also have "?m * 2 ^ (52 - ilog2 ?m) * 2 ^ ilog2 ?m = ?m * (2 ^ (52 - ilog2 ?m + ilog2 ?m))"
      by (simp only: power_add mult.assoc)
    also have "\<dots> = ?m * 2 ^ 52" using e by simp
    finally have "f64_magnitude (number_u32 n) = ?m" by simp
    then show ?thesis using e by (simp add: f64_trunc_def f64_is_nan_def f64_is_infinite_def f)
  qed (simp add: f64_is_infinite_def f64_trunc_def f64_magnitude_def)
  then show "\<not> f64_is_nan (number_u32 n)" "\<not> f64_is_infinite (number_u32 n)" "f64_trunc (number_u32 n) = uint n"
    by blast+
qed

lemma f64_to_uint32_number [simp]: "f64_to_uint32 (number_u32 n) = n"
  by (simp add: f64_to_uint32_def f64_to_int32_truncates' number_u32_finite)

lemma number_u32_inject [simp]: "number_u32 m = number_u32 n \<longleftrightarrow> m = n"
  by (metis f64_to_uint32_number)

lemma f64_to_uint32_of_i32: "f64_to_uint32 (f64_of_i32 i) = i"
  by (simp add: f64_to_uint32_def f64_to_int32_truncates' f64_i32_finite f64_trunc_of_i32)

lemma number_u32_of_i32: "0 \<le> sint n \<Longrightarrow> number_u32 n = f64_of_i32 n"
proof (cases "n = 0")
  case False
  assume "0 \<le> sint n"
  then have u: "uint n = sint n" using sint_i32_bounds [of n]
    by (simp add: uint_sint take_bit_int_eq_self_iff)
  have m: "0 < nat (sint n)" "nat (sint n) < 2 ^ 52" using i32_magnitude [OF False] \<open>0 \<le> sint n\<close> by simp_all
  show ?thesis
    using f64_scale_exact [OF m, of False 0] False \<open>0 \<le> sint n\<close> u
    by (simp add: number_u32_def f64_of_int_def f64_of_i32_def)
qed simp

lemma lang_value_u32 [simp]: "lang_value (value_of_u32 n) = LNumber (number_u32 n)"
  by (simp add: value_of_u32_def number_u32_of_i32 number_u32_finite(1) flip: number_u32_def)

text \<open>A number converts without an effect.\<close>

lemma to_u32_number:
  assumes "to_number C v w = Some (Inr x, w)"
  shows "to_u32 C v w = Some (Inr (f64_to_uint32 x), w)"
  using assms by (cases v) (auto simp: to_u32_def run_simps f64_to_uint32_of_i32 to_number.simps run_return_def)

lemma to_u32_error: "to_number C v w = Some (Inl e, w) \<Longrightarrow> to_u32 C v w = Some (Inl e, w)"
  by (cases v) (auto simp: to_u32_def run_simps to_number.simps run_return_def)

lemma to_number_lang:
  assumes "lang_value v = LNumber m" "\<not> f64_is_nan m"
  shows "to_number C v w = Some (Inr m, w)" and "to_u32 C v w = Some (Inr (f64_to_uint32 m), w)"
proof -
  have v: "(\<exists>i. v = VInteger32 i \<and> m = f64_of_i32 i) \<or> v = VFloat64 m"
    using assms by (cases v) (auto split: if_splits)
  then show "to_number C v w = Some (Inr m, w)"
    by (subst to_number.simps) (auto simp: run_return_def)
  then show "to_u32 C v w = Some (Inr (f64_to_uint32 m), w)" by (rule to_u32_number)
qed

text \<open>The conversion of a primitive has no effect.\<close>

lemma to_number_primitive:
  assumes "\<And>a. v \<noteq> VObject a"
  obtains r where "to_number C v w = Some (r, w)"
  using assms by (cases v) (auto simp: to_number.simps run_return_def run_throw_def)

section \<open>The length\<close>

definition length_view :: "u32 \<Rightarrow> bool \<Rightarrow> property_as_seen" where
  "length_view n b = (Some False, Some False, LData (Some (LNumber (number_u32 n))) (Some b))"

definition array_at :: "'x object_world_scheme \<Rightarrow> obj_addr \<Rightarrow> u32 \<Rightarrow> bool \<Rightarrow> bool" where
  "array_at w a n b \<longleftrightarrow>
     (\<exists>ob. ow_objects w a = Some ob \<and> ob_vtable ob = ArrayMethods) \<and>
     property_view w a length_key = Some (length_view n b) \<and>
     (\<forall>i. stored_property w a (PKIndex i) \<noteq> None \<longrightarrow> i < n) \<and>
     (\<forall>k c. stored_property w a k = Some c \<longrightarrow> fully_populated c)"

lemma length_view_inject [simp]: "length_view n b = length_view m c \<longleftrightarrow> n = m \<and> b = c"
  by (simp add: length_view_def)

lemma length_stored:
  assumes "property_view w a length_key = Some (length_view n b)"
  obtains v where "lang_value v = LNumber (number_u32 n)"
    "stored_property w a length_key = Some \<lparr>pd_enumerable = Some False, pd_configurable = Some False, pd_kind = Data (Some v) (Some b)\<rparr>"
proof -
  obtain d where d: "stored_property w a length_key = Some d" "desc_lang d = length_view n b"
    using assms by (auto simp: property_view_def)
  then have "lang_kind (pd_kind d) = LData (Some (LNumber (number_u32 n))) (Some b)"
    by (simp add: desc_lang_def length_view_def)
  then obtain v where "pd_kind d = Data (Some v) (Some b)" "lang_value v = LNumber (number_u32 n)"
    by (cases "pd_kind d") auto
  with d that show thesis by (cases d) (simp add: desc_lang_def length_view_def)
qed

text \<open>\<open>array_step w a w'\<close>: the array \<open>a\<close> was changed, and the invariants of objects are kept.\<close>

definition array_step :: "'x object_world_scheme \<Rightarrow> obj_addr \<Rightarrow> 'x object_world_scheme \<Rightarrow> bool" where
  "array_step w a w' \<longleftrightarrow>
     step_result True w w' \<and> frame w a w' \<and> (room w' a \<longleftrightarrow> room w a) \<and>
     (\<exists>ob pm. ow_objects w a = Some ob \<and> ob_vtable ob = ArrayMethods \<and> ow_objects w' a = Some (ob\<lparr>ob_properties := pm\<rparr>))"

lemma array_step_refl: "world_ok w \<Longrightarrow> ow_objects w a = Some ob \<Longrightarrow> ob_vtable ob = ArrayMethods \<Longrightarrow> array_step w a w"
  unfolding array_step_def
  by (intro conjI exI [of _ ob] exI [of _ "ob_properties ob"]) (simp_all add: step_result_refl frame_refl world_ok_def)

lemma array_step_trans:
  assumes "array_step u a v" "array_step v a w" shows "array_step u a w"
proof -
  from assms obtain ob pm pm' where o: "ow_objects u a = Some ob" "ob_vtable ob = ArrayMethods"
    "ow_objects w a = Some (ob\<lparr>ob_properties := pm'\<rparr>)" unfolding array_step_def by force
  have "step_result True u w" using assms step_result_trans unfolding array_step_def by blast
  moreover have "frame u a w" using assms frame_trans unfolding array_step_def by blast
  moreover have "room w a \<longleftrightarrow> room u a" using assms unfolding array_step_def by blast
  ultimately show ?thesis using o unfolding array_step_def by blast
qed

lemma array_stepD:
  assumes "array_step w a w'"
  shows "world_ok w'" "world_wf w'" "plain w'" "room w' a \<longleftrightarrow> room w a"
    and "\<exists>ob. ow_objects w' a = Some ob \<and> ob_vtable ob = ArrayMethods"
  using assms by (auto simp: array_step_def step_result_def world_ok_def)

lemma changed_array_step:
  assumes ok: "world_ok w" and a: "ow_objects w a = Some ob" "ob_vtable ob = ArrayMethods" and c: "changed w a key v True w'"
    and x: "ob_extensible ob \<or> stored_property w a key \<noteq> None" and p: "property_kept (property_view w a key) v"
    and r: "is_index_key key \<or> v \<noteq> None \<and> property_view w a key \<noteq> None \<and> view_width v = view_width (property_view w a key)"
  shows "array_step w a w'"
proof -
  have "room w' a \<longleftrightarrow> room w a" using changed_room [OF c a(1)] r by blast
  moreover have "frame w a w'" using c by (simp add: changed_def)
  moreover have "\<exists>pm. ow_objects w' a = Some (ob\<lparr>ob_properties := pm\<rparr>)" using changed_ok(2) [OF ok c a(1)] .
  ultimately show ?thesis
    using changed_result [OF ok a(1) c x p] a unfolding array_step_def by blast
qed

lemma world_wfD_ok: "world_ok w \<Longrightarrow> world_wf w"
  by (simp add: world_ok_def)

text \<open>When the length may be redefined: \<open>m\<close> is the number that the descriptor has for a value.\<close>

definition length_change_allowed :: "u32 \<Rightarrow> bool \<Rightarrow> property_descriptor \<Rightarrow> u32 \<Rightarrow> bool" where
  "length_change_allowed n b desc m \<longleftrightarrow>
     is_empty_descriptor desc \<or>
     pd_configurable desc \<noteq> Some True \<and> pd_enumerable desc \<noteq> Some True \<and>
     (is_generic_descriptor desc \<or>
      is_data_descriptor desc \<and> (b \<or> pd_writable desc \<noteq> Some True \<and> (pd_value desc \<noteq> None \<longrightarrow> m = n)))"

abbreviation length_descriptor_at :: "js_value \<Rightarrow> bool \<Rightarrow> property_descriptor" where
  "length_descriptor_at x b \<equiv> \<lparr>pd_enumerable = Some False, pd_configurable = Some False, pd_kind = Data (Some x) (Some b)\<rparr>"

lemma length_allowed_change:
  assumes "lang_value x = LNumber (number_u32 n)" "\<And>v. pd_value desc = Some v \<Longrightarrow> lang_value v = LNumber (number_u32 m)"
  shows "allowed_change (length_descriptor_at x b) desc \<longleftrightarrow> length_change_allowed n b desc m"
proof -
  have "same_field (pd_value desc) (Some x) \<longleftrightarrow> (pd_value desc \<noteq> None \<longrightarrow> m = n)"
    using assms by (auto simp: same_field_def same_value_lang split: option.split)
  moreover have "pd_enumerable desc = None \<or> pd_enumerable desc = Some False \<longleftrightarrow> pd_enumerable desc \<noteq> Some True"
    by (cases "pd_enumerable desc") auto
  ultimately show ?thesis
    by (simp add: allowed_change_def length_change_allowed_def desc_simps is_accessor_descriptor_def)
qed

lemma length_merged:
  assumes "length_change_allowed n b desc m"
  shows "merged (length_descriptor_at x b) desc =
    length_descriptor_at (case pd_value desc of None \<Rightarrow> x | Some v \<Rightarrow> v) (case pd_writable desc of None \<Rightarrow> b | Some y \<Rightarrow> y)"
  using assms
  by (cases desc; cases "pd_kind desc")
    (auto simp: length_change_allowed_def merged_def converted_def fill_with_def desc_simps split: option.splits)

lemma length_unchanged:
  assumes "length_change_allowed n b desc m" "unchanged (length_descriptor_at x b) desc"
  shows "is_empty_descriptor desc \<or> \<not> b"
  using assms by (auto simp: length_change_allowed_def unchanged_def desc_simps split: descriptor_kind.splits)

lemma length_define_run:
  assumes ok: "world_ok w" and im: "index_map_laws (en_index_map E)"
    and a: "ow_objects w a = Some ob" "ob_vtable ob = ArrayMethods" and r: "room w a"
    and l: "property_view w a length_key = Some (length_view n b)"
    and v: "\<And>v. pd_value desc = Some v \<Longrightarrow> lang_value v = LNumber (number_u32 m)"
  shows "\<exists>w' s'. ordinary_define_own_property E a length_key desc (w, s) =
      Some (Inr (length_change_allowed n b desc m), (w', s')) \<and> array_step w a w' \<and>
    property_view w' a length_key =
      Some (if length_change_allowed n b desc m
        then length_view (if b \<and> pd_value desc \<noteq> None then m else n) (b \<and> pd_writable desc \<noteq> Some False)
        else length_view n b) \<and>
    (\<not> length_change_allowed n b desc m \<longrightarrow> w' = w) \<and>
    (\<forall>k. k \<noteq> length_key \<longrightarrow> property_view w' a k = property_view w a k)"
proof -
  have w: "world_wf w" "plain w" using ok by (simp_all add: world_ok_def)
  obtain x where x: "lang_value x = LNumber (number_u32 n)" "stored_property w a length_key = Some (length_descriptor_at x b)"
    using length_stored [OF l] by metis
  have own: "own_property w a length_key = stored_property w a length_key"
    using own_property_ordinary [OF a(1)] a(2) by simp
  have pop: "fully_populated c" if "own_property w a length_key = Some c" for c
    using that own x(2) by (auto simp: fully_populated_def)
  have k: "valid_key length_key" "is_index_key length_key \<or> room w a" using r by (simp_all add: valid_key_def)
  from ordinary_define_run [OF w im a(1) k pop, of desc s] obtain q w' s' where
    run: "ordinary_define_own_property E a length_key desc (w, s) = Some (Inr q, (w', s'))"
      "define_result w a length_key desc q w'" by blast
  let ?c = "length_descriptor_at x b" and ?ok = "length_change_allowed n b desc m"
  have q: "q \<longleftrightarrow> ?ok"
    "if ?ok \<and> \<not> unchanged ?c desc
     then changed w a length_key (Some (desc_lang (merged ?c desc))) (faithful_insert w a length_key (merged ?c desc)) w'
     else w' = w"
    using run(2) length_allowed_change [OF x(1) v, where b = b and desc = desc] by (simp_all add: define_result_def own x(2) split: if_splits)
  show ?thesis
  proof (cases "?ok \<and> \<not> unchanged ?c desc")
    case True
    then have m: "merged ?c desc = length_descriptor_at (case pd_value desc of None \<Rightarrow> x | Some v \<Rightarrow> v)
        (case pd_writable desc of None \<Rightarrow> b | Some y \<Rightarrow> y)" (is "_ = length_descriptor_at ?x ?b")
      using length_merged by blast
    have "faithful_insert w a length_key (merged ?c desc)"
      by (rule faithful_same_kind [OF w(1) x(2)]) (simp_all add: m fully_populated_def is_data_descriptor_def)
    with q(2) True have c: "changed w a length_key (Some (desc_lang (merged ?c desc))) True w'" by simp
    have xv: "lang_value ?x = LNumber (number_u32 (if pd_value desc \<noteq> None then m else n))"
      using x(1) v by (simp split: option.split)
    then have view: "desc_lang (merged ?c desc) = length_view (if pd_value desc \<noteq> None then m else n) ?b"
      by (simp add: m desc_lang_def length_view_def)
    have nb: "(if b \<and> pd_value desc \<noteq> None then m else n) = (if pd_value desc \<noteq> None then m else n)"
      "(b \<and> pd_writable desc \<noteq> Some False) = ?b"
      using True by (auto simp: length_change_allowed_def unchanged_def desc_simps split: option.splits descriptor_kind.splits)
    have "array_step w a w'"
    proof (rule changed_array_step [OF ok a c])
      show "property_kept (property_view w a length_key) (Some (desc_lang (merged ?c desc)))"
        using merged_kept [of ?c desc] True length_allowed_change [OF x(1) v, where b = b and desc = desc] pop own x(2)
        by (simp add: property_view_def)
    qed (simp_all add: x(2) l view, simp add: length_view_def view_width_def)
    moreover have "property_view w' a length_key = Some (length_view (if pd_value desc \<noteq> None then m else n) ?b)"
      "\<forall>k. k \<noteq> length_key \<longrightarrow> property_view w' a k = property_view w a k"
      using c unfolding view by (auto simp: changed_def)
    ultimately show ?thesis using run(1) q(1) True unfolding nb by simp
  next
    case False
    then have w': "w' = w" using q(2) by auto
    have e: "is_empty_descriptor desc \<or> \<not> b" if "?ok"
      using length_unchanged [OF that] False that by blast
    have "n = (if b \<and> pd_value desc \<noteq> None then m else n) \<and> b = (b \<and> pd_writable desc \<noteq> Some False)" if "?ok"
      using e [OF that]
      by (auto simp: is_empty_descriptor_def is_generic_descriptor_def pd_value_def pd_writable_def split: descriptor_kind.splits)
    then show ?thesis
      using run(1) q(1) w' l array_step_refl [OF ok a] by auto
  qed
qed

end
