(* ===== verification/ArrayDefine.thy ===== *)
theory ArrayDefine
  imports ArrayFacts
begin

text \<open>
  What \<open>[[DefineOwnProperty]]\<close> of an array does to its elements and its length.
\<close>

section \<open>Indices\<close>

lemma index_property_keys_set:
  assumes "pm_wf h pm"
  shows "set (index_property_keys pm) = {i. indexed_get (pm_indexed pm) i \<noteq> None}" "sorted_wrt (<) (index_property_keys pm)"
proof -
  from assms have "indexed_wf (pm_indexed pm)" by (simp add: pm_wf_def)
  then show "set (index_property_keys pm) = {i. indexed_get (pm_indexed pm) i \<noteq> None}"
    using assms by (simp add: index_property_keys_def indexed_key_set_view pm_wf_def dom_def)
  show "sorted_wrt (<) (index_property_keys pm)"
    by (simp add: index_property_keys_def strict_sorted_iff)
qed

lemma property_view_populated:
  assumes "property_view w a k = property_view v b k'" "\<And>c. stored_property v b k' = Some c \<Longrightarrow> fully_populated c"
    "stored_property w a k = Some d"
  shows "fully_populated d"
proof -
  from assms(1,3) obtain c where "stored_property v b k' = Some c" "desc_lang c = desc_lang d"
    by (cases "stored_property v b k'") (auto simp: property_view_def)
  with assms(2) show ?thesis using desc_lang_populated by blast
qed

text \<open>An element is defined: the other properties stay.\<close>

lemma element_define_run:
  assumes ok: "world_ok w" and im: "index_map_laws (en_index_map E)"
    and a: "ow_objects w a = Some ob" "ob_vtable ob = ArrayMethods" and i: "i \<noteq> u32_MAX"
    and pop: "\<And>c. stored_property w a (PKIndex i) = Some c \<Longrightarrow> fully_populated c"
  shows "\<exists>b w' s'. ordinary_define_own_property E a (PKIndex i) desc (w, s) = Some (Inr b, (w', s')) \<and>
    array_step w a w' \<and> define_result w a (PKIndex i) desc b w' \<and>
    (\<forall>k. k \<noteq> PKIndex i \<longrightarrow> property_view w' a k = property_view w a k) \<and>
    (if b then property_view w' a (PKIndex i) \<noteq> None else w' = w) \<and>
    (\<forall>c. stored_property w' a (PKIndex i) = Some c \<longrightarrow> fully_populated c)"
proof -
  let ?k = "PKIndex i"
  have w: "world_wf w" "plain w" using ok by (simp_all add: world_ok_def)
  have own: "own_property w a ?k = stored_property w a ?k" using own_property_ordinary [OF a(1)] a(2) by simp
  have k: "valid_key ?k" "is_index_key ?k \<or> room w a" using i by (simp_all add: valid_key_def)
  from ordinary_define_run [OF w im a(1) k, of desc s] pop obtain b w' s' where
    run: "ordinary_define_own_property E a ?k desc (w, s) = Some (Inr b, (w', s'))" "define_result w a ?k desc b w'"
    unfolding own by blast
  have "array_step w a w' \<and> (\<forall>k. k \<noteq> ?k \<longrightarrow> property_view w' a k = property_view w a k) \<and>
      (if b then property_view w' a ?k \<noteq> None else w' = w) \<and>
      (\<forall>c. stored_property w' a ?k = Some c \<longrightarrow> fully_populated c)"
  proof (cases "\<exists>d. fully_populated d \<and> changed w a ?k (Some (desc_lang d)) True w' \<and> (ob_extensible ob \<or> stored_property w a ?k \<noteq> None) \<and>
      property_kept (property_view w a ?k) (Some (desc_lang d)) \<and> b")
    case True
    then obtain d where c: "changed w a ?k (Some (desc_lang d)) True w'" "ob_extensible ob \<or> stored_property w a ?k \<noteq> None"
      "property_kept (property_view w a ?k) (Some (desc_lang d))" "b" "fully_populated d" by blast
    have "array_step w a w'" by (rule changed_array_step [OF ok a c(1-3)]) simp
    moreover have v: "property_view w' a ?k = Some (desc_lang d)" using c(1) by (simp add: changed_def)
    moreover have "fully_populated e" if "stored_property w' a ?k = Some e" for e
      using v that c(5) desc_lang_populated [of e d] by (simp add: property_view_def)
    ultimately show ?thesis using c(1,4) by (auto simp: changed_def)
  next
    case False
    have f: "faithful_insert w a ?k d" for d by (simp add: faithful_insert_def)
    have nf: "\<not> (fully_populated d \<and> changed w a ?k (Some (desc_lang d)) True w' \<and>
      (ob_extensible ob \<or> stored_property w a ?k \<noteq> None) \<and>
      property_kept (property_view w a ?k) (Some (desc_lang d)) \<and> b)" for d using False by blast
    have "w' = w \<and> (b \<longrightarrow> stored_property w a ?k \<noteq> None)"
    proof (cases "stored_property w a ?k")
      case None
      with nf [of "created desc"] created_populated run(2) f a(1) show ?thesis
        unfolding define_result_def own by (auto simp: property_kept_def property_view_def split: if_splits)
    next
      case (Some c)
      with nf [of "merged c desc"] merged_fill(2) [OF pop [OF Some]] run(2) f merged_kept [OF pop [OF Some]] show ?thesis
        unfolding define_result_def own by (auto simp: property_view_def split: if_splits)
    qed
    then show ?thesis using array_step_refl [OF ok a] pop by (auto simp: property_view_def)
  qed
  with run show ?thesis by blast
qed

text \<open>An element is deleted.\<close>

lemma element_delete_run:
  assumes ok: "world_ok w" and im: "index_map_laws (en_index_map E)"
    and a: "ow_objects w a = Some ob" "ob_vtable ob = ArrayMethods" and i: "i \<noteq> u32_MAX"
    and p: "stored_property w a (PKIndex i) = Some c" "fully_populated c"
  shows "\<exists>w' s'. delete_property E a (PKIndex i) (w, s) = Some (Inr (pd_configurable c = Some True), (w', s')) \<and>
    (if pd_configurable c = Some True
     then array_step w a w' \<and> property_view w' a (PKIndex i) = None \<and>
       (\<forall>k. k \<noteq> PKIndex i \<longrightarrow> property_view w' a k = property_view w a k)
     else w' = w)"
proof -
  let ?k = "PKIndex i"
  have w: "world_wf w" "plain w" using ok by (simp_all add: world_ok_def)
  have own: "own_property w a ?k = Some c" using own_property_ordinary [OF a(1)] a(2) p(1) by simp
  have k: "valid_key ?k" using i by (simp add: valid_key_def)
  from delete_run [OF w im a(1) k, of s] own p(2) obtain w' s' where
    run: "delete_property E a ?k (w, s) = Some (Inr (pd_configurable c = Some True), (w', s'))"
      "if pd_configurable c = Some True then changed w a ?k None (faithful_remove w a ?k) w' else w' = w"
    by (auto simp: fully_populated_def)
  have "faithful_remove w a ?k" by (simp add: faithful_remove_def)
  moreover have "array_step w a w'" if "changed w a ?k None True w'" "pd_configurable c = Some True"
    by (rule changed_array_step [OF ok a that(1)]) (use p that(2) in \<open>simp_all add: property_kept_def property_view_def desc_lang_def\<close>)
  ultimately show ?thesis using run by (auto simp: changed_def)
qed

section \<open>The loop over the elements past the new length\<close>

definition element_fixed :: "'x object_world_scheme \<Rightarrow> obj_addr \<Rightarrow> u32 \<Rightarrow> bool" where
  "element_fixed w a i \<longleftrightarrow> (\<exists>c. stored_property w a (PKIndex i) = Some c \<and> pd_configurable c \<noteq> Some True)"

lemma element_fixed_view:
  fixes w w' :: "'x object_world_scheme"
  shows "property_view w' a (PKIndex i) = property_view w a (PKIndex i) \<Longrightarrow> element_fixed w' a i = element_fixed w a i"
proof -
  have "element_fixed v a i \<longleftrightarrow> (\<exists>e x k. property_view v a (PKIndex i) = Some (e, x, k) \<and> x \<noteq> Some True)"
    for v :: "'x object_world_scheme"
    by (cases "stored_property v a (PKIndex i)") (auto simp: element_fixed_def property_view_def desc_lang_def)
  then show "property_view w' a (PKIndex i) = property_view w a (PKIndex i) \<Longrightarrow> ?thesis" by simp
qed

text \<open>
  The loop over \<open>keys\<close> ends at the first element that cannot be deleted, when there is one: the
  length is then that of an array that ends with it.
\<close>

lemma array_delete_loop_run:
  assumes im: "index_map_laws (en_index_map E)" and ok: "world_ok w"
    and a: "ow_objects w a = Some ob" "ob_vtable ob = ArrayMethods" and r: "room w a"
    and keys: "sorted_wrt (>) keys" "\<And>i. i \<in> set keys \<Longrightarrow> i \<noteq> u32_MAX \<and> stored_property w a (PKIndex i) \<noteq> None"
    and pop: "\<forall>i c. stored_property w a (PKIndex i) = Some c \<longrightarrow> fully_populated c"
    and l: "property_view w a length_key = Some (length_view n True)"
    and d: "is_data_descriptor desc" "pd_configurable desc \<noteq> Some True" "pd_enumerable desc \<noteq> Some True"
      "pd_writable desc \<noteq> Some False"
  shows "\<exists>w' s'. array_delete_loop E a nw desc keys (w, s) =
      Some (Inr (find (element_fixed w a) keys = None), (w', s')) \<and> array_step w a w' \<and>
    property_view w' a length_key =
      Some (case find (element_fixed w a) keys of None \<Rightarrow> length_view n True | Some j \<Rightarrow> length_view (j + 1) nw) \<and>
    (\<forall>k. k \<noteq> length_key \<longrightarrow> property_view w' a k =
       (if k \<in> PKIndex ` set (takeWhile (\<lambda>j. \<not> element_fixed w a j) keys) then None else property_view w a k))"
  using ok a r keys pop l
proof (induction keys arbitrary: w s ob)
  case Nil
  then show ?case using array_step_refl by (auto simp: run_return_def)
next
  case (Cons i keys)
  obtain c where c: "stored_property w a (PKIndex i) = Some c" "fully_populated c" "i \<noteq> u32_MAX"
    using Cons.prems(6) [of i] Cons.prems(7) by auto
  then have key: "property_key_of_u32 (en_itoa E) i = PKIndex i" by (simp add: property_key_of_u32_def nonmax_new_def)
  have fx: "element_fixed w a i \<longleftrightarrow> pd_configurable c \<noteq> Some True" using c(1) by (simp add: element_fixed_def)
  from element_delete_run [OF Cons.prems(1) im Cons.prems(2,3) c(3,1,2), of s] obtain w1 s1 where
    del: "delete_property E a (PKIndex i) (w, s) = Some (Inr (pd_configurable c = Some True), (w1, s1))"
      "if pd_configurable c = Some True
     then array_step w a w1 \<and> property_view w1 a (PKIndex i) = None \<and>
       (\<forall>k. k \<noteq> PKIndex i \<longrightarrow> property_view w1 a k = property_view w a k)
     else w1 = w" by blast
  show ?case
  proof (cases "pd_configurable c = Some True")
    case False
    let ?d = "if nw then build_value (value_of_u32 (i + 1)) desc else build_writable False (build_value (value_of_u32 (i + 1)) desc)"
    have pd: "pd_value ?d = Some (value_of_u32 (i + 1))" "pd_writable ?d = (if nw then pd_writable desc else Some False)"
      "is_data_descriptor ?d" "pd_configurable ?d = pd_configurable desc" "pd_enumerable ?d = pd_enumerable desc"
      using d(1) by (cases "pd_kind desc"; simp add: desc_simps build_value_def build_writable_def)+
    have al: "length_change_allowed n True ?d (i + 1)" using d pd by (simp add: length_change_allowed_def)
    from length_define_run [OF Cons.prems(1) im Cons.prems(2-4,8), of ?d "i + 1" s1] pd(1) al obtain w2 s2 where
      df: "ordinary_define_own_property E a length_key ?d (w, s1) = Some (Inr True, (w2, s2))" "array_step w a w2"
      "property_view w2 a length_key = Some (length_view (i + 1) (pd_writable ?d \<noteq> Some False))"
      "\<forall>k. k \<noteq> length_key \<longrightarrow> property_view w2 a k = property_view w a k" by auto
    have "(pd_writable ?d \<noteq> Some False) = nw" using d(4) unfolding pd(2) by auto
    with False df del fx show ?thesis
      by (auto simp: key run_bind_cases(1) run_expect_def run_return_def)
  next
    case True
    then have del': "array_step w a w1" "property_view w1 a (PKIndex i) = None"
      "\<And>k. k \<noteq> PKIndex i \<Longrightarrow> property_view w1 a k = property_view w a k" using del(2) by auto
    from array_stepD [OF del'(1)] obtain ob1 where o1: "world_ok w1" "room w1 a = room w a"
      "ow_objects w1 a = Some ob1" "ob_vtable ob1 = ArrayMethods" by blast
    have ne: "j \<noteq> i" if "j \<in> set keys" for j using Cons.prems(5) that by auto
    have fx1: "element_fixed w1 a j = element_fixed w a j" if "j \<in> set keys" for j
      using ne [OF that] del'(3) by (intro element_fixed_view) simp
    have p1: "fully_populated e" if "stored_property w1 a (PKIndex j) = Some e" for j e
    proof (cases "j = i")
      case False
      with property_view_populated [OF del'(3) _ that] Cons.prems(7) show ?thesis by simp
    qed (use del'(2) that in \<open>simp add: property_view_def\<close>)
    have st1: "j \<noteq> u32_MAX \<and> stored_property w1 a (PKIndex j) \<noteq> None" if "j \<in> set keys" for j
      using Cons.prems(6) [of j] del'(3) [of "PKIndex j"] ne [OF that] that by (auto simp: property_view_def)
    have fd: "find (element_fixed w1 a) keys = find (element_fixed w a) keys"
      "takeWhile (\<lambda>j. \<not> element_fixed w1 a j) keys = takeWhile (\<lambda>j. \<not> element_fixed w a j) keys"
      using fx1 by (auto intro: find_cong takeWhile_cong)
    have nl: "length_key \<noteq> PKIndex i" by simp
    have r1: "room w1 a" and so: "sorted_wrt (>) keys" and l1: "property_view w1 a length_key = Some (length_view n True)"
      using Cons.prems(4,5,8) o1(2) del'(3) [OF nl] by simp_all
    from p1 have pa: "\<forall>j e. stored_property w1 a (PKIndex j) = Some e \<longrightarrow> fully_populated e" by blast
    from Cons.IH [OF o1(1,3,4) r1 so st1 pa l1, of s1]
    obtain w2 s2 where run: "array_delete_loop E a nw desc keys (w1, s1) =
        Some (Inr (find (element_fixed w a) keys = None), (w2, s2))" "array_step w1 a w2"
      "property_view w2 a length_key =
        Some (case find (element_fixed w a) keys of None \<Rightarrow> length_view n True | Some j \<Rightarrow> length_view (j + 1) nw)"
      "\<forall>k. k \<noteq> length_key \<longrightarrow> property_view w2 a k =
        (if k \<in> PKIndex ` set (takeWhile (\<lambda>j. \<not> element_fixed w a j) keys) then None else property_view w1 a k)"
      unfolding fd by blast
    have "array_delete_loop E a nw desc (i # keys) (w, s) =
        Some (Inr (find (element_fixed w a) (i # keys) = None), (w2, s2))"
      using True run(1) del(1) fx by (simp add: key run_bind_cases(1))
    moreover have "array_step w a w2" using del'(1) run(2) by (rule array_step_trans)
    ultimately show ?thesis using True fx run(3,4) del'(2,3) by auto
  qed
qed

text \<open>What is found, and what is before it, in a descending list.\<close>

lemma find_descending:
  fixes keys :: "u32 list"
  assumes "sorted_wrt (>) keys"
  shows "case find P keys of
      None \<Rightarrow> (\<forall>i \<in> set keys. \<not> P i) \<and> takeWhile (\<lambda>j. \<not> P j) keys = keys
    | Some j \<Rightarrow> j \<in> set keys \<and> P j \<and> set (takeWhile (\<lambda>j. \<not> P j) keys) = {i \<in> set keys. j < i} \<and>
        (\<forall>i \<in> set keys. j < i \<longrightarrow> \<not> P i)"
  using assms
  by (induction keys) (auto split: option.splits)

text \<open>
  \<open>shrunk w a l m\<close>: \<open>m\<close> is where the deletion of the elements from \<open>l\<close> on ends.
\<close>

definition shrunk :: "'x object_world_scheme \<Rightarrow> obj_addr \<Rightarrow> u32 \<Rightarrow> u32 \<Rightarrow> bool" where
  "shrunk w a l m \<longleftrightarrow>
     l \<le> m \<and> (\<forall>i. m \<le> i \<longrightarrow> \<not> element_fixed w a i) \<and> (m \<noteq> l \<longrightarrow> element_fixed w a (m - 1))"

definition element_keys :: "js_object \<Rightarrow> u32 \<Rightarrow> u32 list" where
  "element_keys ob l = rev (filter (\<lambda>i. l \<le> i \<and> i < u32_MAX) (index_property_keys (ob_properties ob)))"

lemma element_keys:
  assumes "world_wf w" "ow_objects w a = Some ob"
  shows "sorted_wrt (>) (element_keys ob l)"
    and "set (element_keys ob l) = {i. l \<le> i \<and> i < u32_MAX \<and> stored_property w a (PKIndex i) \<noteq> None}"
  using index_property_keys_set [OF world_wfD(2) [OF assms]] stored_property_index [OF assms(2)]
  by (auto simp: element_keys_def sorted_wrt_rev sorted_wrt_filter)

lemma u32_succ:
  assumes "j \<noteq> u32_MAX" shows "unat (j + 1) = Suc (unat j)"
proof -
  have "unat j \<noteq> 2 ^ 32 - 1" using assms by (auto simp: u32_MAX_def word_unat_eq_iff)
  moreover have "unat j < 2 ^ 32" using unsigned_less [of j, where ?'a = nat] by simp
  ultimately show ?thesis by (simp add: unat_word_ariths)
qed

lemma u32_succ_le:
  assumes "j \<noteq> u32_MAX" shows "j + 1 \<le> i \<longleftrightarrow> j < i" "i < j + 1 \<longleftrightarrow> i \<le> j" "j + 1 - 1 = j"
  using u32_succ [OF assms] by (auto simp: word_le_nat_alt word_less_nat_alt)

lemma less_u32_MAX: "i < n \<Longrightarrow> i < u32_MAX"
  using unsigned_less [of n, where ?'a = nat] by (simp add: word_less_nat_alt u32_MAX_def)

lemma shrunk_find:
  assumes w: "world_wf w" "ow_objects w a = Some ob" and m: "\<And>i. stored_property w a (PKIndex i) \<noteq> None \<Longrightarrow> i < n"
    and e: "e = (case find (element_fixed w a) (element_keys ob l) of None \<Rightarrow> l | Some j \<Rightarrow> j + 1)"
  shows "shrunk w a l e" and "find (element_fixed w a) (element_keys ob l) = None \<longleftrightarrow> e = l"
    and "i \<in> set (takeWhile (\<lambda>j. \<not> element_fixed w a j) (element_keys ob l)) \<longleftrightarrow>
      e \<le> i \<and> stored_property w a (PKIndex i) \<noteq> None"
proof -
  note ks = element_keys [OF w, of l]
  have lt: "i < u32_MAX" if "stored_property w a (PKIndex i) \<noteq> None" for i using m [OF that] by (rule less_u32_MAX)
  have fx: "stored_property w a (PKIndex i) \<noteq> None" if "element_fixed w a i" for i
    using that by (auto simp: element_fixed_def)
  have ks': "set (element_keys ob l) = {i. l \<le> i \<and> stored_property w a (PKIndex i) \<noteq> None}" using ks(2) lt by auto
  note fd = find_descending [OF ks(1), of "element_fixed w a"]
  have "shrunk w a l e \<and> (find (element_fixed w a) (element_keys ob l) = None \<longleftrightarrow> e = l) \<and>
    set (takeWhile (\<lambda>j. \<not> element_fixed w a j) (element_keys ob l)) =
      {i. e \<le> i \<and> stored_property w a (PKIndex i) \<noteq> None}"
  proof (cases "find (element_fixed w a) (element_keys ob l)")
    case None
    then have "e = l" using e by simp
    have t: "takeWhile (\<lambda>j. \<not> element_fixed w a j) (element_keys ob l) = element_keys ob l"
      "\<forall>i \<in> set (element_keys ob l). \<not> element_fixed w a i"
      using fd unfolding None option.case by blast+
    show ?thesis unfolding t(1) ks' using t(2) None fx \<open>e = l\<close> by (auto simp: shrunk_def ks')
  next
    case (Some j)
    with fd have j: "l \<le> j" "element_fixed w a j" "\<And>i. l \<le> i \<Longrightarrow> j < i \<Longrightarrow> \<not> element_fixed w a i"
      "set (takeWhile (\<lambda>j. \<not> element_fixed w a j) (element_keys ob l)) =
        {i. l \<le> i \<and> stored_property w a (PKIndex i) \<noteq> None \<and> j < i}"
      unfolding ks' using fx by auto
    have "j < u32_MAX" using lt [OF fx [OF j(2)]] .
    then have n: "j \<noteq> u32_MAX" by simp
    have e': "e = j + 1" using Some e by simp
    have "l < e" unfolding e' using u32_succ_le(2) [OF n] j(1) by simp
    moreover have "l \<le> i" if "j < i" for i using that j(1) by (meson le_less_trans less_imp_le)
    ultimately show ?thesis
      using Some j u32_succ_le [OF n] unfolding e' shrunk_def by auto
  qed
  then show "shrunk w a l e" "find (element_fixed w a) (element_keys ob l) = None \<longleftrightarrow> e = l"
    "i \<in> set (takeWhile (\<lambda>j. \<not> element_fixed w a j) (element_keys ob l)) \<longleftrightarrow>
      e \<le> i \<and> stored_property w a (PKIndex i) \<noteq> None" by blast+
qed

section \<open>The length is set\<close>

text \<open>\<open>elements_cut w a m w'\<close>: the elements of \<open>a\<close> from \<open>m\<close> on are gone, and only they.\<close>

definition elements_cut :: "'x object_world_scheme \<Rightarrow> obj_addr \<Rightarrow> u32 \<Rightarrow> 'x object_world_scheme \<Rightarrow> bool" where
  "elements_cut w a m w' \<longleftrightarrow>
     (\<forall>k. k \<noteq> length_key \<longrightarrow>
        property_view w' a k = (if \<exists>i. k = PKIndex i \<and> m \<le> i then None else property_view w a k))"

lemma array_atI:
  assumes "array_step w a w'" "property_view w' a length_key = Some (length_view n b)"
    and "\<And>k c. k \<noteq> length_key \<Longrightarrow> stored_property w' a k = Some c \<Longrightarrow> fully_populated c"
    and "\<And>i. property_view w' a (PKIndex i) \<noteq> None \<Longrightarrow> i < n"
  shows "array_at w' a n b"
proof -
  have "fully_populated c" if c: "stored_property w' a k = Some c" for k c
  proof (cases "k = length_key")
    case True
    obtain v where "stored_property w' a length_key = Some (length_descriptor_at v b)"
      using length_stored [OF assms(2)] by metis
    with True c have "c = length_descriptor_at v b" by simp
    then show ?thesis by (simp add: fully_populated_def)
  qed (use assms(3) c in blast)
  moreover have "i < n" if "stored_property w' a (PKIndex i) \<noteq> None" for i
    using assms(4) [of i] that by (simp add: property_view_def)
  ultimately show ?thesis using array_stepD(5) [OF assms(1)] assms(2) unfolding array_at_def by blast
qed

lemma view_kept_populated:
  assumes "property_view w' a k = None \<or> property_view w' a k = property_view w a k"
    "\<And>c. stored_property w a k = Some c \<Longrightarrow> fully_populated c" "stored_property w' a k = Some c"
  shows "fully_populated c"
proof -
  have "property_view w' a k = property_view w a k" using assms(1,3) by (auto simp: property_view_def)
  from property_view_populated [OF this assms(2,3)] show ?thesis .
qed

lemma array_shrink_run:
  assumes im: "index_map_laws (en_index_map E)" and ok: "world_ok w" and at: "array_at w a n True" and r: "room w a"
    and d: "is_data_descriptor desc" "pd_value desc = Some (value_of_u32 l)"
  shows "\<exists>q w' s'. array_shrink E a l desc (w, s) = Some (Inr q, (w', s')) \<and> array_step w a w' \<and>
    (if pd_configurable desc \<noteq> Some True \<and> pd_enumerable desc \<noteq> Some True then
       \<exists>m. shrunk w a l m \<and> q = (m = l) \<and> elements_cut w a m w' \<and>
         property_view w' a length_key = Some (length_view m (pd_writable desc \<noteq> Some False))
     else \<not> q \<and> w' = w)"
proof -
  let ?nw = "pd_writable desc \<noteq> Some False"
  let ?d = "if ?nw then desc else build_writable True desc"
  obtain ob where a: "ow_objects w a = Some ob" "ob_vtable ob = ArrayMethods" using at by (auto simp: array_at_def)
  have lv: "property_view w a length_key = Some (length_view n True)"
    and lt: "\<And>i. stored_property w a (PKIndex i) \<noteq> None \<Longrightarrow> i < n"
    and pop: "\<And>k c. stored_property w a k = Some c \<Longrightarrow> fully_populated c" using at by (auto simp: array_at_def)
  have nw: "(case pd_writable desc of None \<Rightarrow> True | Some b \<Rightarrow> b) = ?nw" by (auto split: option.split)
  have pd: "pd_value ?d = Some (value_of_u32 l)" "pd_writable ?d \<noteq> Some False" "is_data_descriptor ?d"
    "pd_configurable ?d = pd_configurable desc" "pd_enumerable ?d = pd_enumerable desc"
    using d by (cases "pd_kind desc"; simp add: desc_simps build_writable_def)+
  let ?al = "pd_configurable desc \<noteq> Some True \<and> pd_enumerable desc \<noteq> Some True"
  have al: "length_change_allowed n True ?d l \<longleftrightarrow> ?al"
    using pd by (auto simp: length_change_allowed_def desc_simps split: descriptor_kind.splits)
  from length_define_run [OF ok im a r lv, of ?d l s] pd(1,2) obtain w1 s1 where
    df: "ordinary_define_own_property E a length_key ?d (w, s) = Some (Inr ?al, (w1, s1))" "array_step w a w1"
      "property_view w1 a length_key = Some (if ?al then length_view l True else length_view n True)"
      "\<not> ?al \<Longrightarrow> w1 = w" "\<And>k. k \<noteq> length_key \<Longrightarrow> property_view w1 a k = property_view w a k"
    unfolding al by auto
  have sh: "array_shrink E a l desc (w, s) = run_bind (run_expect (ordinary_define_own_property E a length_key ?d)) (\<lambda>succeeded.
        if \<not> succeeded then run_return False
        else
          run_bind (in_context (object_borrow a)) (\<lambda>ob.
          run_bind (array_delete_loop E a ?nw ?d (element_keys ob l)) (\<lambda>all.
            if \<not> all then run_return False
            else if ?nw then run_return True
            else
              run_bind (run_expect (ordinary_define_own_property E a length_key (build_writable False pd_default)))
                (\<lambda>_. run_return True)))) (w, s)"
    unfolding array_shrink_def nw Let_def element_keys_def ..
  show ?thesis
  proof (cases ?al)
    case False
    then show ?thesis
      using df by (auto simp: sh run_bind_cases(1) run_expect_def run_return_def)
  next
    case True
    from array_stepD [OF df(2)] obtain ob1 where o1: "world_ok w1" "room w1 a" "ow_objects w1 a = Some ob1"
      "ob_vtable ob1 = ArrayMethods" using r by blast
    have st1: "(stored_property w1 a (PKIndex i) = None) = (stored_property w a (PKIndex i) = None)"
      and fx1: "element_fixed w1 a i = element_fixed w a i" for i
      using df(5) [of "PKIndex i"] element_fixed_view [of w1 a i w] by (auto simp: property_view_def)
    have lt1: "i < n" if "stored_property w1 a (PKIndex i) \<noteq> None" for i by (rule lt) (use that st1 in simp)
    have pop1: "\<forall>i c. stored_property w1 a (PKIndex i) = Some c \<longrightarrow> fully_populated c"
      using property_view_populated [OF df(5)] pop by blast
    define m where "m = (case find (element_fixed w1 a) (element_keys ob1 l) of None \<Rightarrow> l | Some j \<Rightarrow> j + 1)"
    note sf = shrunk_find [OF world_wfD_ok [OF o1(1)] o1(3) lt1 m_def]
    have ks: "sorted_wrt (>) (element_keys ob1 l)"
      "\<And>i. i \<in> set (element_keys ob1 l) \<Longrightarrow> i \<noteq> u32_MAX \<and> stored_property w1 a (PKIndex i) \<noteq> None"
      using element_keys [OF world_wfD_ok [OF o1(1)] o1(3), of l] by auto
    have tw: "k \<in> PKIndex ` set (takeWhile (\<lambda>j. \<not> element_fixed w1 a j) (element_keys ob1 l)) \<longleftrightarrow>
      (\<exists>i. k = PKIndex i \<and> m \<le> i \<and> stored_property w1 a (PKIndex i) \<noteq> None)" for k using sf(3) by auto
    have fd: "(case find (element_fixed w1 a) (element_keys ob1 l) of None \<Rightarrow> length_view l True
        | Some j \<Rightarrow> length_view (j + 1) ?nw) = (if m = l then length_view l True else length_view m ?nw)"
      using sf(2) unfolding m_def by (cases "find (element_fixed w1 a) (element_keys ob1 l)") simp_all
    have l1: "property_view w1 a length_key = Some (length_view l True)" using df(3) True by simp
    from array_delete_loop_run [OF im o1(1,3,4,2) ks pop1 l1 pd(3), of ?nw s1] pd(2,4,5) True obtain w2 s2 where
      lp: "array_delete_loop E a ?nw ?d (element_keys ob1 l) (w1, s1) = Some (Inr (m = l), (w2, s2))" "array_step w1 a w2"
        "property_view w2 a length_key = Some (if m = l then length_view l True else length_view m ?nw)"
        "\<And>k. k \<noteq> length_key \<Longrightarrow> property_view w2 a k =
           (if \<exists>i. k = PKIndex i \<and> m \<le> i \<and> stored_property w1 a (PKIndex i) \<noteq> None then None else property_view w1 a k)"
      unfolding tw fd by (auto simp: sf(2))
    from array_stepD [OF lp(2)] obtain ob2 where o2: "world_ok w2" "room w2 a" "ow_objects w2 a = Some ob2"
      "ob_vtable ob2 = ArrayMethods" using o1(2) by blast
    have "\<exists>w3 s3. array_shrink E a l desc (w, s) = Some (Inr (m = l), (w3, s3)) \<and> array_step w2 a w3 \<and>
      property_view w3 a length_key = Some (length_view m ?nw) \<and>
      (\<forall>k. k \<noteq> length_key \<longrightarrow> property_view w3 a k = property_view w2 a k)"
    proof (cases "m = l \<and> \<not> ?nw")
      case False
      then show ?thesis
        using df(1) True lp(1,3) array_step_refl [OF o2(1,3,4)]
        by (auto simp: sh run_bind_cases(1) run_expect_def run_return_def in_context_bind object_borrow_run o1(3))
    next
      case fz: True
      let ?f = "build_writable False pd_default"
      have f: "pd_value ?f = None" "pd_writable ?f = Some False" "length_change_allowed l True ?f l"
        by (simp_all add: length_change_allowed_def desc_simps build_writable_def pd_default_def)
      have l2: "property_view w2 a length_key = Some (length_view l True)" using lp(3) fz by simp
      from length_define_run [OF o2(1) im o2(3,4,2) l2, of ?f l s2] f obtain w3 s3 where
        "ordinary_define_own_property E a length_key ?f (w2, s2) = Some (Inr True, (w3, s3))" "array_step w2 a w3"
        "property_view w3 a length_key = Some (length_view l False)"
        "\<forall>k. k \<noteq> length_key \<longrightarrow> property_view w3 a k = property_view w2 a k" by auto
      then show ?thesis
        using df(1) True lp(1) fz
        by (auto simp: sh run_bind_cases(1) run_expect_def run_return_def in_context_bind object_borrow_run o1(3))
    qed
    then obtain w3 s3 where w3: "array_shrink E a l desc (w, s) = Some (Inr (m = l), (w3, s3))" "array_step w2 a w3"
      "property_view w3 a length_key = Some (length_view m ?nw)"
      "\<And>k. k \<noteq> length_key \<Longrightarrow> property_view w3 a k = property_view w2 a k" by blast
    have "array_step w a w3" using array_step_trans df(2) lp(2) w3(2) by blast
    moreover have "shrunk w a l m" using sf(1) fx1 by (simp add: shrunk_def)
    moreover have "elements_cut w a m w3"
      unfolding elements_cut_def using w3(4) lp(4) df(5) st1 by (auto simp: property_view_def)
    ultimately show ?thesis using w3(1,3) True by auto
  qed
qed

text \<open>\<open>ArraySetLength\<close>: the length \<open>l\<close> is asked for of an array whose length \<open>n\<close> is writable when \<open>b\<close>.\<close>

definition length_settable :: "u32 \<Rightarrow> bool \<Rightarrow> property_descriptor \<Rightarrow> u32 \<Rightarrow> bool" where
  "length_settable n b desc l \<longleftrightarrow>
     pd_configurable desc \<noteq> Some True \<and> pd_enumerable desc \<noteq> Some True \<and> (b \<or> pd_writable desc \<noteq> Some True \<and> l = n)"

lemma length_descriptor_fields:
  "pd_value (length_descriptor l desc) = Some (value_of_u32 l)" "is_data_descriptor (length_descriptor l desc)"
  "pd_configurable (length_descriptor l desc) = pd_configurable desc"
  "pd_enumerable (length_descriptor l desc) = pd_enumerable desc"
  "pd_writable (length_descriptor l desc) = pd_writable desc"
  by (simp_all add: length_descriptor_def build_maybe_def desc_simps build_value_def build_writable_def
      build_enumerable_def build_configurable_def pd_default_def split: option.split)

lemma length_descriptor_at_fields: "pd_value (length_descriptor_at y b) = Some y" "pd_writable (length_descriptor_at y b) = Some b"
  by (simp_all add: desc_simps)

lemma length_descriptor_allowed:
  "length_change_allowed n b (length_descriptor l desc) l \<longleftrightarrow> length_settable n b desc l"
  using length_descriptor_fields [of l desc]
  by (auto simp: length_change_allowed_def length_settable_def desc_simps split: descriptor_kind.splits)

lemma shrunk_above:
  assumes "array_at w a n b" "n \<le> l" shows "shrunk w a l l"
  using assms by (force simp: array_at_def shrunk_def element_fixed_def)

lemma array_set_length_error:
  assumes "pd_value desc = Some v" "to_number (en_conversions E) v w = Some (Inl e, w)"
  shows "array_set_length E a desc (w, s) = Some (Inl e, (w, s))"
  by (simp add: array_set_length_def assms(1) in_context_def run_bind_def to_u32_error [OF assms(2)])

lemma array_set_length_run:
  assumes im: "index_map_laws (en_index_map E)" and ok: "world_ok w" and at: "array_at w a n b" and r: "room w a"
    and v: "pd_value desc = Some v" "to_number (en_conversions E) v w = Some (Inr x, w)"
  defines "l \<equiv> f64_to_uint32 x"
  shows "if f64_eq (number_u32 l) x then
      \<exists>q w' s'. array_set_length E a desc (w, s) = Some (Inr q, (w', s')) \<and> array_step w a w' \<and>
        (if length_settable n b desc l then
           \<exists>m. shrunk w a l m \<and> q = (m = l) \<and> elements_cut w a m w' \<and> array_at w' a m (b \<and> pd_writable desc \<noteq> Some False)
         else \<not> q \<and> w' = w)
    else array_set_length E a desc (w, s) = Some (Inl RangeError, (w, s))"
proof -
  obtain ob where a: "ow_objects w a = Some ob" "ob_vtable ob = ArrayMethods" using at by (auto simp: array_at_def)
  have lv: "property_view w a length_key = Some (length_view n b)"
    and lt: "\<And>i. stored_property w a (PKIndex i) \<noteq> None \<Longrightarrow> i < n"
    and pop: "\<And>k c. stored_property w a k = Some c \<Longrightarrow> fully_populated c" using at by (auto simp: array_at_def)
  obtain y where y: "lang_value y = LNumber (number_u32 n)" "stored_property w a length_key = Some (length_descriptor_at y b)"
    using length_stored [OF lv] by metis
  have own: "ordinary_get_own_property a length_key (w, s) = Some (Inr (Some (length_descriptor_at y b)), (w, own_slot w a length_key s))"
    using ordinary_get_own_property_run [OF world_wfD_ok [OF ok] a(1)] y(2) by simp
  let ?D = "length_descriptor l desc"
  note D = length_descriptor_fields [of l desc] length_descriptor_allowed [of n b l desc]
  note cv = v(2) to_u32_number [OF v(2), folded l_def]
    to_number_lang [OF y(1) number_u32_finite(1), of "en_conversions E" w]
  let ?s = "own_slot w a length_key s"
  have start: "array_set_length E a desc (w, s) = (if \<not> f64_eq (number_u32 l) x then Some (Inl RangeError, (w, s))
      else if n \<le> l then ordinary_define_own_property E a length_key ?D (w, ?s)
      else if \<not> b then Some (Inr False, (w, ?s)) else array_shrink E a l ?D (w, ?s))"
    by (simp add: array_set_length_def v(1) in_context_bind cv run_bind_cases(1) own length_descriptor_at_fields run_unwrap_bind run_throw_def run_return_def number_u32_def [symmetric])
  show ?thesis
  proof (cases "f64_eq (number_u32 l) x")
    case eq: True
    show ?thesis
    proof (cases "n \<le> l")
      case True
      from length_define_run [OF ok im a r lv, of ?D l ?s] D(1) obtain w' s' where
        run: "ordinary_define_own_property E a length_key ?D (w, ?s) = Some (Inr (length_settable n b desc l), (w', s'))"
          "array_step w a w'" "\<not> length_settable n b desc l \<longrightarrow> w' = w"
          "\<And>k. k \<noteq> length_key \<Longrightarrow> property_view w' a k = property_view w a k"
          "length_settable n b desc l \<longrightarrow> property_view w' a length_key =
             Some (length_view (if b then l else n) (b \<and> pd_writable desc \<noteq> Some False))"
        unfolding D(5,6) by auto
      have "elements_cut w a l w'" using run(4) lt True by (force simp: elements_cut_def property_view_def)
      moreover have "array_at w' a l (b \<and> pd_writable desc \<noteq> Some False)" if "length_settable n b desc l"
      proof (rule array_atI [OF run(2)])
        show "property_view w' a length_key = Some (length_view l (b \<and> pd_writable desc \<noteq> Some False))"
          using run(5) that by (auto simp: length_settable_def)
        show "i < l" if "property_view w' a (PKIndex i) \<noteq> None" for i
          using run(4) [of "PKIndex i"] that lt [of i] True by (auto simp: property_view_def)
        show "fully_populated c" if "k \<noteq> length_key" "stored_property w' a k = Some c" for k c
          using view_kept_populated [of w' a k w c] run(4) [OF that(1)] pop that(2) by metis
      qed
      ultimately show ?thesis using eq True run(1-3) shrunk_above [OF at True] start by auto
    next
      case lt': False
      show ?thesis
      proof (cases "b")
        case False
        then show ?thesis
          using eq lt' start array_step_refl [OF ok a] by (auto simp: length_settable_def)
      next
        case True
        have at': "array_at w a n True" using at True by simp
        from array_shrink_run [OF im ok at' r D(2,1), of ?s] obtain q w' s' where
          run: "array_shrink E a l ?D (w, ?s) = Some (Inr q, (w', s'))" "array_step w a w'"
            "if length_settable n b desc l then \<exists>m. shrunk w a l m \<and> q = (m = l) \<and> elements_cut w a m w' \<and>
               property_view w' a length_key = Some (length_view m (pd_writable desc \<noteq> Some False))
             else \<not> q \<and> w' = w"
          unfolding D(3-5) using True by (auto simp: length_settable_def)
        have am: "array_at w' a m (pd_writable desc \<noteq> Some False)" if m: "elements_cut w a m w'"
          "property_view w' a length_key = Some (length_view m (pd_writable desc \<noteq> Some False))" for m
        proof (rule array_atI [OF run(2) m(2)])
          show "fully_populated c" if "k \<noteq> length_key" "stored_property w' a k = Some c" for k c
            using view_kept_populated [of w' a k w c] pop m(1) that unfolding elements_cut_def by metis
        qed (use m(1) in \<open>auto simp: elements_cut_def split: if_splits\<close>)
        have "if length_settable n b desc l
           then \<exists>m. shrunk w a l m \<and> q = (m = l) \<and> elements_cut w a m w' \<and> array_at w' a m (pd_writable desc \<noteq> Some False)
           else \<not> q \<and> w' = w" using run(3) am by (cases "length_settable n b desc l") (simp_all, blast)
        then show ?thesis using eq lt' True start run(1,2) by auto
      qed
    qed
  qed (simp add: start)
qed

section \<open>An element is set\<close>

text \<open>
  \<open>element_defined w a n b i desc q w'\<close>: the element \<open>i\<close> of an array of length \<open>n\<close> was defined as
  that of an ordinary object, and the length grew to hold it; \<open>q\<close> is the answer.
\<close>

definition element_defined ::
  "'x object_world_scheme \<Rightarrow> obj_addr \<Rightarrow> u32 \<Rightarrow> bool \<Rightarrow> u32 \<Rightarrow> property_descriptor \<Rightarrow> bool \<Rightarrow>
     'x object_world_scheme \<Rightarrow> bool" where
  "element_defined w a n b i desc q w' \<longleftrightarrow>
     (if n \<le> i \<and> \<not> b then \<not> q \<and> w' = w
      else
        (\<exists>w1. define_result w a (PKIndex i) desc q w1 \<and>
           (\<forall>k. k \<noteq> length_key \<longrightarrow> property_view w' a k = property_view w1 a k)) \<and>
        (\<not> q \<longrightarrow> w' = w) \<and> array_at w' a (if q \<and> n \<le> i then i + 1 else n) b)"

lemma element_defined_array:
  "element_defined w a n b i desc q w' \<Longrightarrow> array_at w a n b \<Longrightarrow> \<exists>m. array_at w' a m b"
  by (auto simp: element_defined_def split: if_splits)

lemma array_define_element_run:
  assumes im: "index_map_laws (en_index_map E)" and ok: "world_ok w" and at: "array_at w a n b" and r: "room w a"
    and i: "i \<noteq> u32_MAX"
  shows "\<exists>q w' s'. array_define_element E a (PKIndex i) i desc (w, s) = Some (Inr q, (w', s')) \<and> array_step w a w' \<and>
    element_defined w a n b i desc q w'"
proof -
  obtain ob where a: "ow_objects w a = Some ob" "ob_vtable ob = ArrayMethods" using at by (auto simp: array_at_def)
  have lv: "property_view w a length_key = Some (length_view n b)"
    and lt: "\<And>j. stored_property w a (PKIndex j) \<noteq> None \<Longrightarrow> j < n"
    and pop: "\<And>k c. stored_property w a k = Some c \<Longrightarrow> fully_populated c" using at by (auto simp: array_at_def)
  obtain y where y: "lang_value y = LNumber (number_u32 n)" "stored_property w a length_key = Some (length_descriptor_at y b)"
    using length_stored [OF lv] by metis
  let ?s = "own_slot w a length_key s" and ?c = "length_descriptor_at y b"
  have own: "ordinary_get_own_property a length_key (w, s) = Some (Inr (Some ?c), (w, ?s))"
    using ordinary_get_own_property_run [OF world_wfD_ok [OF ok] a(1)] y(2) by simp
  note cv = to_number_lang [OF y(1) number_u32_finite(1), of "en_conversions E" w]
  have ex: "run_bind (run_expect (in_context (to_u32 (en_conversions E) y))) f (w, t) = f n (w, t)" for f t
    by (simp add: run_bind_def run_expect_def in_context_def cv)
  have start: "array_define_element E a (PKIndex i) i desc (w, s) = (if n \<le> i \<and> \<not> b then Some (Inr False, (w, ?s))
      else run_bind (ordinary_define_own_property E a (PKIndex i) desc) (\<lambda>succeeded.
          if succeeded then
            run_bind (if n \<le> i then
                run_bind (ordinary_define_own_property E a length_key (length_descriptor (i + 1) ?c)) (\<lambda>_. run_return ())
              else run_return ()) (\<lambda>_. run_return True)
          else run_return False) (w, ?s))"
    by (auto simp: array_define_element_def ex run_bind_cases(1) own length_descriptor_at_fields run_unwrap_bind
        run_simps run_return_def [where a = False])
  show ?thesis
  proof (cases "n \<le> i \<and> \<not> b")
    case True
    then show ?thesis using start array_step_refl [OF ok a] by (auto simp: element_defined_def)
  next
    case False
    from element_define_run [OF ok im a i, of desc ?s] pop [of "PKIndex i"] obtain q w1 s1 where
      df: "ordinary_define_own_property E a (PKIndex i) desc (w, ?s) = Some (Inr q, (w1, s1))" "array_step w a w1"
        "define_result w a (PKIndex i) desc q w1" "\<forall>k. k \<noteq> PKIndex i \<longrightarrow> property_view w1 a k = property_view w a k"
        "if q then property_view w1 a (PKIndex i) \<noteq> None else w1 = w"
        "\<forall>c. stored_property w1 a (PKIndex i) = Some c \<longrightarrow> fully_populated c" by blast
    have df4: "property_view w1 a k = property_view w a k" if "k \<noteq> PKIndex i" for k using df(4) that by blast
    have df5: "w1 = w" if "\<not> q" using df(5) that by simp
    have l1: "property_view w1 a length_key = Some (length_view n b)" using df(4) lv by simp
    have pop1: "fully_populated c" if "stored_property w1 a k = Some c" for k c
      using property_view_populated [OF df4 pop that] df(6) that by (cases "k = PKIndex i") auto
    have in1: "j = i \<or> j < n" if "property_view w1 a (PKIndex j) \<noteq> None" for j
    proof (cases "j = i")
      case False
      then have "property_view w a (PKIndex j) \<noteq> None" using that df4 [of "PKIndex j"] by simp
      then show ?thesis using lt by (simp add: property_view_def)
    qed simp
    show ?thesis
    proof (cases "q \<and> n \<le> i")
      case True
      let ?D = "length_descriptor (i + 1) ?c"
      note D = length_descriptor_fields [of "i + 1" ?c]
      from False True have b: "b" by blast
      have al: "length_change_allowed n b ?D (i + 1)"
        by (simp add: length_descriptor_allowed length_settable_def b)
      from array_stepD [OF df(2)] r obtain ob1 where o1: "world_ok w1" "room w1 a" "ow_objects w1 a = Some ob1"
        "ob_vtable ob1 = ArrayMethods" by blast
      from length_define_run [OF o1(1) im o1(3,4,2) l1, of ?D "i + 1" s1] D(1) al obtain w2 s2 where
        dl: "ordinary_define_own_property E a length_key ?D (w1, s1) = Some (Inr True, (w2, s2))" "array_step w1 a w2"
          "property_view w2 a length_key = Some (length_view (i + 1) b)"
          "\<And>k. k \<noteq> length_key \<Longrightarrow> property_view w2 a k = property_view w1 a k"
        using b by (auto simp: length_descriptor_fields(5) length_descriptor_at_fields)
      have st: "array_step w a w2" using array_step_trans df(2) dl(2) by blast
      have "array_at w2 a (i + 1) b"
      proof (rule array_atI [OF dl(2,3)])
        show "j < i + 1" if "property_view w2 a (PKIndex j) \<noteq> None" for j
        proof -
          have "j = i \<or> j < n" using that in1 dl(4) [of "PKIndex j"] by simp
          then show ?thesis using True unfolding u32_succ_le(2) [OF i] by auto
        qed
        show "fully_populated c" if "k \<noteq> length_key" "stored_property w2 a k = Some c" for k c
          using property_view_populated [OF dl(4) [OF that(1)] _ that(2)] pop1 by metis
      qed
      then have "element_defined w a n b i desc q w2"
        using True b df(3) dl(4) unfolding element_defined_def by auto
      then show ?thesis using start df(1) dl(1) st True b by (auto simp: run_bind_cases(1) run_return_def)
    next
      case nq: False
      have "array_at w1 a n b"
      proof (cases "q")
        case True
        with nq have "i < n" by simp
        with in1 show ?thesis by (intro array_atI [OF df(2) l1 pop1]) auto
      qed (use at df5 in simp)
      then have "element_defined w a n b i desc q w1"
        using False nq df(3) df5 unfolding element_defined_def by auto
      moreover have "array_define_element E a (PKIndex i) i desc (w, s) = Some (Inr q, (w1, s1))"
        using start False df(1) nq by (auto simp: run_bind_cases(1) run_return_def)
      ultimately show ?thesis using df(2) by blast
    qed
  qed
qed

text \<open>A definition of an element leaves the shape of the array as it is.\<close>

lemma element_insert_shape:
  assumes "object_insert_with_slot E a (PKIndex i) d (w, s) = Some (r, (w', s'))" "data_slot w a key slot"
  shows "data_slot w' a key slot"
proof -
  obtain ob where ob: "ow_objects w a = Some ob" using assms(2) by (auto simp: data_slot_def)
  obtain b ip where "indexed_insert (pm_indexed (ob_properties ob)) i d = (b, ip)" by fastforce
  with assms ob show ?thesis
    by (auto simp: object_insert_with_slot_def pm_insert_with_slot_def data_slot_def put_properties_def object_shape_def)
qed

lemma element_define_shape:
  assumes w: "world_wf w" "plain w" and d: "ordinary_define_own_property E a (PKIndex i) desc (w, s) = Some (r, (w', s'))"
    and sl: "data_slot w a key slot"
  shows "data_slot w' a key slot"
proof -
  obtain ob where ob: "ow_objects w a = Some ob" using sl by (auto simp: data_slot_def)
  note ins = element_insert_shape [OF _ sl]
  from d obtain current s1 where "validate_and_apply_property_descriptor E (Some (a, PKIndex i)) (ob_extensible ob) desc current (w, s1) =
      Some (r, (w', s'))"
    by (simp add: ordinary_define_own_property_def method_binds [OF w ob])
  then show ?thesis
    using sl
    by (auto simp: validate_and_apply_property_descriptor_def run_bind_def run_return_def run_unwrap_def slot_modify_run
        split: option.splits sum.splits prod.splits if_splits validation.splits Option.bind_splits dest: ins)
qed

text \<open>The template for arrays: the length is in the first element of the storage.\<close>

definition array_template :: "('w, 'm, 'e) engine_scheme \<Rightarrow> shape_heap \<Rightarrow> bool" where
  "array_template E h \<longleftrightarrow>
     shape_lookup h (en_array_shape E) length_key = Some (Some \<lparr>sl_index = 0, sl_attributes = SLOT_WRITABLE\<rparr>)"

abbreviation array_length_slot :: slot where
  "array_length_slot \<equiv> \<lparr>sl_index = 0, sl_attributes = SLOT_WRITABLE\<rparr>"

lemma array_length_slot_data: "\<not> is_accessor_attributes SLOT_WRITABLE"
    "descriptor_of SLOT_WRITABLE [v] = length_descriptor_at v True"
  by (simp_all add: descriptor_of_def is_accessor_attributes_def mask_simps flags_contains_def)

lemma array_template_slot:
  "array_template E (ow_shapes w) \<Longrightarrow> ow_objects w a = Some ob \<Longrightarrow> object_shape ob = en_array_shape E \<Longrightarrow>
    data_slot w a length_key array_length_slot"
  by (simp add: array_template_def data_slot_def array_length_slot_data)

lemma array_define_fast_run:
  assumes im: "index_map_laws (en_index_map E)" and ok: "world_ok w" and at: "array_at w a n b"
    and i: "i \<noteq> u32_MAX" "n \<le> i + 1" and sl: "data_slot w a length_key array_length_slot"
  shows "\<exists>q w' s'. array_define_fast E a (PKIndex i) (i + 1) desc (w, s) = Some (Inr q, (w', s')) \<and> array_step w a w' \<and>
    element_defined w a n b i desc q w'"
proof -
  obtain ob where a: "ow_objects w a = Some ob" "ob_vtable ob = ArrayMethods" using at by (auto simp: array_at_def)
  have lv: "property_view w a length_key = Some (length_view n b)"
    and lt: "\<And>j. stored_property w a (PKIndex j) \<noteq> None \<Longrightarrow> j < n"
    and pop: "\<And>k c. stored_property w a k = Some c \<Longrightarrow> fully_populated c" using at by (auto simp: array_at_def)
  have w: "world_wf w" "plain w" using ok by (simp_all add: world_ok_def)
  from data_slot_load [OF w(1) sl] lv have b: "b"
    by (auto simp: property_view_def array_length_slot_data desc_lang_def length_view_def)
  from element_define_run [OF ok im a i(1), of desc s] pop [of "PKIndex i"] obtain q w1 s1 where
    df: "ordinary_define_own_property E a (PKIndex i) desc (w, s) = Some (Inr q, (w1, s1))" "array_step w a w1"
      "define_result w a (PKIndex i) desc q w1" "\<forall>k. k \<noteq> PKIndex i \<longrightarrow> property_view w1 a k = property_view w a k"
      "if q then property_view w1 a (PKIndex i) \<noteq> None else w1 = w"
      "\<forall>c. stored_property w1 a (PKIndex i) = Some c \<longrightarrow> fully_populated c" by blast
  show ?thesis
  proof (cases "q")
    case False
    then show ?thesis
      using df at b by (auto simp: array_define_fast_def run_bind_cases(1) run_return_def element_defined_def)
  next
    case True
    have sl1: "data_slot w1 a length_key array_length_slot" by (rule element_define_shape [OF w df(1) sl])
    from array_stepD [OF df(2)] obtain ob1 where o1: "world_ok w1" "world_wf w1" "ow_objects w1 a = Some ob1"
      "ob_vtable ob1 = ArrayMethods" by blast
    from data_slot_store [OF o1(2) sl1, of "value_of_u32 (i + 1)"] obtain w2 where
      st: "object_store a 0 (value_of_u32 (i + 1)) w1 = Some (Inr (), w2)"
        "changed w1 a length_key (Some (desc_lang (length_descriptor_at (value_of_u32 (i + 1)) True))) True w2"
      by (auto simp: array_length_slot_data)
    have view: "desc_lang (length_descriptor_at (value_of_u32 (i + 1)) True) = length_view (i + 1) True"
      by (simp add: desc_lang_def length_view_def)
    have l1: "property_view w1 a length_key = Some (length_view n True)" using df(4) lv b by simp
    have as: "array_step w1 a w2"
      by (rule changed_array_step [OF o1(1,3,4) st(2)])
        (use l1 in \<open>auto simp: view property_kept_def length_view_def view_width_def property_view_def\<close>)
    have v2: "property_view w2 a length_key = Some (length_view (i + 1) b)"
      "\<And>k. k \<noteq> length_key \<Longrightarrow> property_view w2 a k = property_view w1 a k"
      using st(2) b unfolding view by (auto simp: changed_def)
    have "array_at w2 a (i + 1) b"
    proof (rule array_atI [OF as v2(1)])
      show "j < i + 1" if "property_view w2 a (PKIndex j) \<noteq> None" for j
      proof (cases "j = i")
        case False
        then have "property_view w a (PKIndex j) \<noteq> None" using that v2(2) [of "PKIndex j"] df(4) by simp
        then have "stored_property w a (PKIndex j) \<noteq> None" by (simp add: property_view_def)
        then show ?thesis using lt i(2) by (meson less_le_trans)
      qed (simp add: u32_succ_le [OF i(1)])
      show "fully_populated c" if "k \<noteq> length_key" "stored_property w2 a k = Some c" for k c
      proof (cases "k = PKIndex i")
        case True
        then show ?thesis using property_view_populated [OF v2(2) [OF that(1)] _ that(2)] df(6) by simp
      next
        case False
        then have "property_view w2 a k = property_view w a k" using v2(2) that(1) df(4) by simp
        then show ?thesis using property_view_populated [OF _ _ that(2)] pop by metis
      qed
    qed
    moreover have "(if n \<le> i then i + 1 else n) = i + 1"
      using i(2) u32_succ_le(1) [OF i(1), of n] by (cases "n \<le> i") (simp_all add: not_le)
    ultimately have "element_defined w a n b i desc q w2"
      using True b df(3) v2(2) unfolding element_defined_def by auto
    then show ?thesis
      using True df(1) st(1) array_step_trans [OF df(2) as]
      by (auto simp: array_define_fast_def run_bind_cases(1) run_return_def in_context_bind)
  qed
qed

section \<open>The method of arrays\<close>

lemma array_define_run:
  assumes "plain w" "ow_objects w a = Some ob" "ob_vtable ob = ArrayMethods"
  shows "define_own_property E a key desc (w, s) = array_exotic_define_own_property E a key desc (w, s)"
  using assms by (simp add: define_own_property_def run_simps)

lemma define_length_run:
  assumes "world_ok w" "array_at w a n b"
  shows "define_own_property E a length_key desc (w, s) = array_set_length E a desc (w, s)"
proof -
  obtain ob where a: "ow_objects w a = Some ob" "ob_vtable ob = ArrayMethods" using assms(2) by (auto simp: array_at_def)
  have "plain w" using assms(1) by (simp add: world_ok_def)
  from array_define_run [OF this a, of E length_key desc s] show ?thesis
    by (simp add: array_exotic_define_own_property_def)
qed

text \<open>The two ways to define an element have the same result.\<close>

lemma define_element_run:
  assumes im: "index_map_laws (en_index_map E)" and ok: "world_ok w" and at: "array_at w a n b" and r: "room w a"
    and i: "i \<noteq> u32_MAX" and t: "array_template E (ow_shapes w)"
  shows "\<exists>q w' s'. define_own_property E a (PKIndex i) desc (w, s) = Some (Inr q, (w', s')) \<and> array_step w a w' \<and>
    element_defined w a n b i desc q w'"
proof -
  obtain ob where a: "ow_objects w a = Some ob" "ob_vtable ob = ArrayMethods" using at by (auto simp: array_at_def)
  have w: "world_wf w" "plain w" using ok by (simp_all add: world_ok_def)
  note d = array_define_run [OF w(2) a, of E "PKIndex i" desc s]
  note slow = array_define_element_run [OF im ok at r i]
  show ?thesis
  proof (cases "uint (i + 1) < 2 ^ 32 - 1 \<and> object_shape ob = en_array_shape E")
    case False
    then have "define_own_property E a (PKIndex i) desc (w, s) = array_define_element E a (PKIndex i) i desc (w, s)"
      by (auto simp: d array_exotic_define_own_property_def in_context_bind object_borrow_run a(1) Let_def)
    with slow [of desc s] show ?thesis by simp
  next
    case True
    then have sl: "data_slot w a length_key array_length_slot" using array_template_slot [OF t a(1)] by blast
    from data_slot_load [OF w(1) sl] obtain v where v: "object_load a 0 w = Some (Inr v, w)"
      "stored_property w a length_key = Some (length_descriptor_at v True)" by (auto simp: array_length_slot_data)
    with at have lv: "lang_value v = LNumber (number_u32 n)"
      by (auto simp: array_at_def property_view_def desc_lang_def length_view_def)
    have "define_own_property E a (PKIndex i) desc (w, s) =
        (if n \<le> i + 1 then array_define_fast E a (PKIndex i) (i + 1) desc (w, s)
         else array_define_element E a (PKIndex i) i desc (w, s))"
      using True by (simp add: d array_exotic_define_own_property_def in_context_bind object_borrow_run a(1) Let_def v(1)
          to_number_lang [OF lv number_u32_finite(1)])
    then show ?thesis using slow [of desc s] array_define_fast_run [OF im ok at i _ sl, of desc s] by auto
  qed
qed

text \<open>The length that may be asked for: a number, when there is a value.\<close>

definition pure_length :: "('x object_world_scheme, 'm, 'e) engine_scheme \<Rightarrow> 'x object_world_scheme \<Rightarrow> property_descriptor \<Rightarrow> bool" where
  "pure_length E w desc \<longleftrightarrow> (\<forall>v. pd_value desc = Some v \<longrightarrow> (\<exists>r. to_number (en_conversions E) v w = Some (r, w)))"

lemma define_array_run:
  assumes im: "index_map_laws (en_index_map E)" and ok: "world_ok w" and at: "array_at w a n b" and r: "room w a"
    and k: "valid_key key" "is_index_key key \<or> key = length_key \<and> pure_length E w desc"
    and t: "array_template E (ow_shapes w)"
  shows "\<exists>q w' s'. define_own_property E a key desc (w, s) = Some (q, (w', s')) \<and> array_step w a w' \<and>
    (\<exists>n' b'. array_at w' a n' b' \<and> (b' \<longrightarrow> b))"
proof -
  obtain ob where a: "ow_objects w a = Some ob" "ob_vtable ob = ArrayMethods" using at by (auto simp: array_at_def)
  have lv: "property_view w a length_key = Some (length_view n b)"
    and lt: "\<And>j. stored_property w a (PKIndex j) \<noteq> None \<Longrightarrow> j < n"
    and pop: "\<And>k c. stored_property w a k = Some c \<Longrightarrow> fully_populated c" using at by (auto simp: array_at_def)
  note same = array_step_refl [OF ok a] at
  show ?thesis
  proof (cases key)
    case (PKIndex i)
    with k have "i \<noteq> u32_MAX" by (simp add: valid_key_def)
    from define_element_run [OF im ok at r this t, of desc s] show ?thesis
      unfolding PKIndex element_defined_def using at by (auto split: if_splits)
  next
    case (PKString str)
    with k have key: "key = length_key" "pure_length E w desc" by auto
    note d = define_length_run [OF ok at, of E desc s]
    show ?thesis
    proof (cases "pd_value desc")
      case None
      from length_define_run [OF ok im a r lv, of desc n s] None obtain w' s' where
        run: "ordinary_define_own_property E a length_key desc (w, s) = Some (Inr (length_change_allowed n b desc n), (w', s'))"
          "array_step w a w'" "\<forall>k. k \<noteq> length_key \<longrightarrow> property_view w' a k = property_view w a k"
          "property_view w' a length_key = Some (length_view n
            (if length_change_allowed n b desc n then b \<and> pd_writable desc \<noteq> Some False else b))" by (auto split: if_splits)
      have "array_at w' a n (if length_change_allowed n b desc n then b \<and> pd_writable desc \<noteq> Some False else b)"
      proof (rule array_atI [OF run(2,4)])
        show "fully_populated c" if "k \<noteq> length_key" "stored_property w' a k = Some c" for k c
          using property_view_populated [OF _ _ that(2)] run(3) that(1) pop by metis
        show "i < n" if "property_view w' a (PKIndex i) \<noteq> None" for i
        proof -
          have "property_view w a (PKIndex i) \<noteq> None" using that run(3) by simp
          then show ?thesis using lt [of i] by (simp add: property_view_def)
        qed
      qed
      then show ?thesis using run(1,2) unfolding key(1) d by (auto simp: array_set_length_def None split: if_splits)
    next
      case (Some v)
      with key(2) obtain c where c: "to_number (en_conversions E) v w = Some (c, w)" by (auto simp: pure_length_def)
      show ?thesis
      proof (cases c)
        case (Inl e)
        from array_set_length_error [OF Some c [unfolded Inl], of a s] show ?thesis
          unfolding key(1) d using same by auto
      next
        case (Inr x)
        from array_set_length_run [OF im ok at r Some c [unfolded Inr], of s] show ?thesis
          unfolding key(1) d using same by (auto split: if_splits)
      qed
    qed
  qed (use k in auto)
qed

end
