(* ===== verification/ObjectSteps.thy ===== *)
theory ObjectSteps
  imports ArrayDefine
begin

text \<open>
  The steps that the methods of objects take, and what every step keeps of the invariants of objects
  and of arrays.
\<close>

text \<open>
  \<open>object_step E f w w'\<close>: a method of an object was called and returned; \<open>f\<close> tells that the call
  did not run into the defect of the rollback: either it changed nothing, or it did not take a property
  away or change its width on a shared shape where, since that property was added, the attributes
  of a property that was not the last were changed (\<open>faithful_insert\<close>, \<open>faithful_remove\<close>). Arrays whose elements or length are defined have a length,
  and the value asked for as the length converts to a number, or fails to, without effect, as every
  primitive does.
\<close>

inductive object_step ::
  "('x object_world_scheme, 'm, 'e) engine_scheme \<Rightarrow> bool \<Rightarrow> 'x object_world_scheme \<Rightarrow> 'x object_world_scheme \<Rightarrow> bool"
  for E where
  defining: "ow_objects w a = Some ob \<Longrightarrow> \<not> array_key ob key \<Longrightarrow> valid_key key \<Longrightarrow> is_index_key key \<or> room w a \<Longrightarrow>
    (\<And>c. own_property w a key = Some c \<Longrightarrow> fully_populated c) \<Longrightarrow>
    define_own_property E a key desc (w, s) = Some (Inr b, (w', s')) \<Longrightarrow>
    (\<And>c. f \<Longrightarrow> w' \<noteq> w \<Longrightarrow> own_property w a key = Some c \<Longrightarrow> faithful_insert w a key (merged c desc)) \<Longrightarrow>
    object_step E f w w'"
| defining_in_array: "array_at w a n b \<Longrightarrow> room w a \<Longrightarrow> array_template E (ow_shapes w) \<Longrightarrow> valid_key key \<Longrightarrow>
    is_index_key key \<or> key = length_key \<and> pure_length E w desc \<Longrightarrow>
    define_own_property E a key desc (w, s) = Some (r, (w', s')) \<Longrightarrow> object_step E f w w'"
| deleting: "ow_objects w a = Some ob \<Longrightarrow> valid_key key \<Longrightarrow>
    (\<And>c. own_property w a key = Some c \<Longrightarrow> fully_populated c) \<Longrightarrow>
    delete_property E a key (w, s) = Some (Inr b, (w', s')) \<Longrightarrow>
    (f \<Longrightarrow> w' \<noteq> w \<Longrightarrow> faithful_remove w a key) \<Longrightarrow> object_step E f w w'"
| setting_prototype: "ow_objects w a = Some ob \<Longrightarrow> (\<And>q. val = Some q \<Longrightarrow> ow_objects w q \<noteq> None) \<Longrightarrow>
    set_prototype_of E a val w = Some (Inr b, w') \<Longrightarrow> object_step E f w w'"
| preventing: "ow_objects w a = Some ob \<Longrightarrow> prevent_extensions E a w = Some (Inr b, w') \<Longrightarrow> object_step E f w w'"

lemma object_step_result:
  assumes im: "index_map_laws (en_index_map E)" and s: "object_step E f w w'" and ok: "world_ok w"
  shows "step_result f w w'"
  using s ok
proof (induction rule: object_step.induct)
  case (defining w a ob key desc s b w' s' f)
  note a = defining.hyps(1)
  have w: "world_wf w" "plain w" using defining.prems by (simp_all add: world_ok_def)
  from define_own_property_run [OF w im a defining.hyps(2-5), of desc s] defining.hyps(6)
  have "w' = w \<or> define_result w a key desc b w' \<and> own_property w a key = stored_property w a key" by auto
  then show ?case
    using define_step_result [OF defining.prems a _ _ defining.hyps(5) defining.hyps(7)]
      step_result_refl [OF defining.prems] by blast
next
  case (defining_in_array w a n b key desc s r w' s' f)
  from define_array_run [OF im defining_in_array.prems defining_in_array.hyps(1,2,4,5,3), of s] defining_in_array.hyps(6)
  have "step_result True w w'" by (auto simp: array_step_def)
  then show ?case by (simp add: step_result_def)
next
  case (deleting w a ob key s b w' s' f)
  show ?case
    by (rule delete_step_result [OF im deleting.prems deleting.hyps(1-4)]) (use deleting.hyps(5) in blast)+
next
  case (setting_prototype w a ob val b w' f)
  note a = setting_prototype.hyps(1)
  have w: "world_wf w" "plain w" "wf (proto_order w)" using setting_prototype.prems by (simp_all add: world_ok_def)
  from set_prototype_run [where E = E and val = val, OF w a setting_prototype.hyps(2)] setting_prototype.hyps(3)
  have "w' = w \<or> prototype_set w a val b w'" by auto
  then show ?case
    using prototype_step_result [OF setting_prototype.prems a] step_result_refl [OF setting_prototype.prems] by blast
next
  case (preventing w a ob b w' f)
  have "plain w" using preventing.prems by (simp add: world_ok_def)
  with prevent_extensions_run [OF this preventing.hyps(1), of E] preventing.hyps(2)
    prevent_step_result [OF preventing.prems preventing.hyps(1)]
  show ?case by simp
qed

end
