(* ===== verification/InlineCacheFacts.thy ===== *)
theory InlineCacheFacts
  imports InlineCache SlotAccess ObjectSteps
begin

text \<open>
  What inline caches promise: an entry that matches leads to the slot of the property that a lookup
  would find, so that a hit gives what \<open>[[Get]]\<close> does.
\<close>

lemma run_bind_return: "run_bind (run_return a) f w = f a w"
  by (simp add: run_bind_def run_return_def)

section \<open>The storage behind a slot\<close>

lemma own_property_named:
  "\<not> is_index_key key \<Longrightarrow> own_property w a key = stored_property w a key"
  by (auto simp: own_property_def string_get_own_property_def split: option.split property_key.split)

lemma lookup_stored:
  assumes w: "world_wf w" and a: "ow_objects w a = Some ob" and k: "\<not> is_index_key key"
    and l: "shape_lookup (ow_shapes w) (object_shape ob) key = Some r"
  shows "case r of None \<Rightarrow> stored_property w a key = None
    | Some sl \<Rightarrow> \<exists>vs. stored_property w a key = Some (descriptor_of (sl_attributes sl) vs) \<and>
        length vs = attributes_width (sl_attributes sl) \<and>
        (\<forall>i < length vs. object_load a (unat (sl_index sl) + i) w = Some (Inr (vs ! i), w))"
proof -
  let ?es = "pm_entries (ow_shapes w) (ob_properties ob)"
  note pw = world_wfD(2) [OF w a]
  have r: "r = map_option (slot_at ?es) (position key ?es)"
    using l pm_lookup [OF pw, of key] by (simp add: object_shape_def)
  have n: "stored_property w a key = map_of (pm_named (ow_shapes w) (ob_properties ob)) key"
    by (rule stored_property_named [OF w a k])
  show ?thesis
  proof (cases "position key ?es")
    case None
    then have "key \<notin> fst ` set ?es" by (simp add: position_None)
    then have "key \<notin> fst ` set (pm_named (ow_shapes w) (ob_properties ob))"
      using pm_named_keys [of "ow_shapes w" "ob_properties ob"] by (metis set_map)
    then show ?thesis using None r n by (simp add: map_of_eq_None_iff)
  next
    case (Some i)
    obtain s1 vs s2 where c: "pm_storage (ob_properties ob) = s1 @ vs @ s2" "length vs = attributes_width (snd (?es ! i))"
      "unat (sl_index (slot_at ?es i)) = length s1" "snd (pm_contents (ow_shapes w) (ob_properties ob) ! i) = vs"
      using pm_cut [OF pw Some] by metis
    have "map_of (pm_named (ow_shapes w) (ob_properties ob)) key = Some (descriptor_of (snd (?es ! i)) vs)"
      using Some c(4) by (simp add: pm_named_def map_of_named)
    moreover have "object_load a (length s1 + j) w = Some (Inr (vs ! j), w)" if "j < length vs" for j
      using that by (simp add: object_load_def run_simps a run_unwrap_def vec_get_def c(1) nth_append)
    ultimately show ?thesis
      using r Some n c(2,3) by auto
  qed
qed

section \<open>Entries that are right\<close>

text \<open>Two slots that differ at most in the bits for caches.\<close>

definition same_slot :: "slot \<Rightarrow> slot \<Rightarrow> bool" where
  "same_slot s t \<longleftrightarrow>
     sl_index s = sl_index t \<and> sl_attributes s OR SLOT_INLINE_CACHE_BITS = sl_attributes t OR SLOT_INLINE_CACHE_BITS"

lemma same_slot_flags:
  assumes "same_slot s t"
  shows "is_accessor_attributes (sl_attributes s) = is_accessor_attributes (sl_attributes t)"
    "has_get (sl_attributes s) = has_get (sl_attributes t)" "has_set (sl_attributes s) = has_set (sl_attributes t)"
    "flags_contains (sl_attributes s) SLOT_WRITABLE = flags_contains (sl_attributes t) SLOT_WRITABLE"
proof -
  have b: "flags_contains x f = flags_contains (x OR SLOT_INLINE_CACHE_BITS) f" if "f AND SLOT_INLINE_CACHE_BITS = 0" for x f :: u8
  proof -
    have "(x OR SLOT_INLINE_CACHE_BITS) AND f = (x AND f) OR (SLOT_INLINE_CACHE_BITS AND f)" by (rule bit.conj_disj_distrib2)
    then have "(x OR SLOT_INLINE_CACHE_BITS) AND f = x AND f" using that by (simp add: and.commute)
    then show ?thesis by (simp add: flags_contains_def)
  qed
  have f: "flags_contains (sl_attributes s) f = flags_contains (sl_attributes t) f" if "f AND SLOT_INLINE_CACHE_BITS = 0" for f
    using b [OF that, of "sl_attributes s"] b [OF that, of "sl_attributes t"] assms by (simp add: same_slot_def)
  show "has_get (sl_attributes s) = has_get (sl_attributes t)" "has_set (sl_attributes s) = has_set (sl_attributes t)"
    "flags_contains (sl_attributes s) SLOT_WRITABLE = flags_contains (sl_attributes t) SLOT_WRITABLE"
    "is_accessor_attributes (sl_attributes s) = is_accessor_attributes (sl_attributes t)"
    by (simp_all add: has_get_def has_set_def is_accessor_attributes_def f mask_simps)
qed

definition leads_to :: "shape_heap \<Rightarrow> shape \<Rightarrow> property_key \<Rightarrow> slot \<Rightarrow> bool" where
  "leads_to h shape key slot \<longleftrightarrow> (\<exists>sl. shape_lookup h shape key = Some (Some sl) \<and> same_slot slot sl)"

definition entry_sound :: "shape_heap \<Rightarrow> property_key \<Rightarrow> cache_entry \<Rightarrow> bool" where
  "entry_sound h key e \<longleftrightarrow>
     \<not> is_index_key key \<and> shape_valid h (ce_shape e) \<and>
     (flags_contains (sl_attributes (ce_slot e)) SLOT_PROTOTYPE \<longleftrightarrow> ce_prototype_shape e \<noteq> None) \<and>
     (case ce_prototype_shape e of
        None \<Rightarrow> leads_to h (ce_shape e) key (ce_slot e)
      | Some p \<Rightarrow> shape_valid h p \<and> shape_lookup h (ce_shape e) key = Some None \<and> leads_to h p key (ce_slot e))"

definition cache_sound :: "shape_heap \<Rightarrow> inline_cache \<Rightarrow> bool" where
  "cache_sound h ic \<longleftrightarrow> (\<forall>e \<in> set (ic_entries ic). entry_sound h (property_key_of_string (ic_name ic)) e)"

text \<open>A lookup in the cache does not panic, and finds an entry that matches.\<close>

lemma prototype_object_total:
  assumes "world_wf w" "ow_objects w a = Some ob"
  shows "prototype_object w (object_shape ob) =
    Some (Option.bind (object_proto w ob) (ow_objects w))"
proof -
  have p: "shape_prototype (ow_shapes w) (object_shape ob) = Some (object_proto w ob)"
    using world_wfD(3) [OF assms] by (simp add: shape_prototype_spec object_proto_def)
  show ?thesis
  proof (cases "object_proto w ob")
    case (Some q)
    with assms obtain oq where "ow_objects w q = Some oq" unfolding world_wf_def by blast
    with Some p show ?thesis by (simp add: prototype_object_def)
  qed (simp add: prototype_object_def p)
qed

lemma cache_entry_matches_total:
  assumes "world_wf w" "ow_objects w a = Some ob"
  shows "\<exists>m. cache_entry_matches w e (object_shape ob) = Some m"
  using prototype_object_total [OF assms] by (auto simp: cache_entry_matches_def split: option.split)

lemma ic_get_total:
  assumes "world_wf w" "ow_objects w a = Some ob"
  shows "\<exists>r. ic_get w ic (object_shape ob) = Some r"
proof -
  have "\<exists>r. ic_find w es (object_shape ob) = Some r" for es
  proof (induction es)
    case (Cons e es)
    with cache_entry_matches_total [OF assms, of e] show ?case by auto
  qed simp
  then show ?thesis by (simp add: ic_get_def)
qed

lemma ic_get_matches:
  assumes "ic_get w ic shape = Some (Some slot)"
  shows "\<exists>e \<in> set (ic_entries ic). cache_entry_matches w e shape = Some True \<and> ce_slot e = slot"
proof -
  have "\<exists>e \<in> set es. cache_entry_matches w e shape = Some True \<and> ce_slot e = slot"
    if "ic_find w es shape = Some (Some slot)" for es
    using that by (induction es) (auto split: if_splits bind_splits)
  then show ?thesis using assms by (simp add: ic_get_def split: if_splits)
qed

text \<open>
  \<open>resolves w a key slot b d\<close>: the slot is that of the property \<open>d\<close> of the object \<open>b\<close>, which a lookup
  on \<open>a\<close> finds.
\<close>

definition resolves ::
  "'x object_world_scheme \<Rightarrow> obj_addr \<Rightarrow> property_key \<Rightarrow> slot \<Rightarrow> obj_addr \<Rightarrow> property_descriptor \<Rightarrow> bool" where
  "resolves w a key slot b d \<longleftrightarrow>
     (\<exists>sl vs. same_slot slot sl \<and> d = descriptor_of (sl_attributes sl) vs \<and>
        length vs = attributes_width (sl_attributes sl) \<and>
        (\<forall>i < length vs. object_load b (unat (sl_index slot) + i) w = Some (Inr (vs ! i), w))) \<and>
     (\<forall>s. \<exists>s'. inherits w key a s (Some d) s')"

text \<open>What an entry that matches leads to: a property of the object or, when it has none, of its prototype.\<close>

lemma hit_found:
  assumes w: "world_wf w" and a: "ow_objects w a = Some ob" and c: "cache_sound (ow_shapes w) ic"
    and h: "ic_get w ic (object_shape ob) = Some (Some slot)" and key: "key = property_key_of_string (ic_name ic)"
  shows "\<exists>b ob' sl. cached_holder a ob slot w = Some (Inr (Some b), w) \<and> \<not> is_index_key key \<and>
    ow_objects w b = Some ob' \<and> shape_lookup (ow_shapes w) (object_shape ob') key = Some (Some sl) \<and> same_slot slot sl \<and>
    (b = a \<or> own_property w a key = None \<and> proto_of w a = Some b)"
proof -
  from ic_get_matches [OF h] c key obtain e where
    e: "cache_entry_matches w e (object_shape ob) = Some True" "ce_slot e = slot" "entry_sound (ow_shapes w) key e"
    by (auto simp: cache_sound_def)
  then have sh: "ce_shape e = object_shape ob" by (auto simp: cache_entry_matches_def split: if_splits)
  have k: "\<not> is_index_key key" using e(3) by (simp add: entry_sound_def)
  show ?thesis
  proof (cases "ce_prototype_shape e")
    case None
    with e sh obtain sl where sl: "shape_lookup (ow_shapes w) (object_shape ob) key = Some (Some sl)" "same_slot slot sl"
      and p: "\<not> flags_contains (sl_attributes slot) SLOT_PROTOTYPE" by (auto simp: entry_sound_def leads_to_def)
    have "cached_holder a ob slot w = Some (Inr (Some a), w)"
      using p by (simp add: cached_holder_def run_return_def)
    with sl k a show ?thesis by blast
  next
    case (Some ps)
    with e sh obtain sl where no: "shape_lookup (ow_shapes w) (object_shape ob) key = Some None"
      and sl: "shape_lookup (ow_shapes w) ps key = Some (Some sl)" "same_slot slot sl"
      and p: "flags_contains (sl_attributes slot) SLOT_PROTOTYPE" by (auto simp: entry_sound_def leads_to_def)
    from e(1) Some prototype_object_total [OF w a] obtain b where
      b: "object_proto w ob = Some b" "\<exists>ob'. ow_objects w b = Some ob' \<and> object_shape ob' = ps"
      by (auto simp: cache_entry_matches_def split: if_splits option.splits bind_splits)
    have "own_property w a key = None" using lookup_stored [OF w a k no] by (simp add: own_property_named [OF k])
    moreover have "cached_holder a ob slot w = Some (Inr (Some b), w)"
      using p b(1) world_wfD(3) [OF w a] by (simp add: cached_holder_def run_simps shape_prototype_spec object_proto_def)
    ultimately show ?thesis using b sl k proto_of_object [OF a] by auto
  qed
qed

lemma hit_resolves:
  assumes w: "world_wf w" and a: "ow_objects w a = Some ob" and c: "cache_sound (ow_shapes w) ic"
    and h: "ic_get w ic (object_shape ob) = Some (Some slot)" and key: "key = property_key_of_string (ic_name ic)"
  shows "\<exists>b d. cached_holder a ob slot w = Some (Inr (Some b), w) \<and> resolves w a key slot b d"
proof -
  from hit_found [OF assms] obtain b ob' sl where
    b: "cached_holder a ob slot w = Some (Inr (Some b), w)" "\<not> is_index_key key" "ow_objects w b = Some ob'"
      "shape_lookup (ow_shapes w) (object_shape ob') key = Some (Some sl)" "same_slot slot sl"
      "b = a \<or> own_property w a key = None \<and> proto_of w a = Some b" by blast
  from lookup_stored [OF w b(3,2,4)] obtain vs where
    vs: "stored_property w b key = Some (descriptor_of (sl_attributes sl) vs)" "length vs = attributes_width (sl_attributes sl)"
      "\<forall>i < length vs. object_load b (unat (sl_index sl) + i) w = Some (Inr (vs ! i), w)" by auto
  let ?d = "descriptor_of (sl_attributes sl) vs"
  have o: "own_property w b key = Some ?d" using vs(1) by (simp add: own_property_named [OF b(2)])
  have "\<exists>s'. inherits w key a s (Some ?d) s'" for s
    using inherits.own [OF o] inherits.up [of w a key b] b(6) by metis
  then have "resolves w a key slot b ?d"
    unfolding resolves_def using b(5) vs(2,3) by (intro conjI exI [of _ sl] exI [of _ vs]) (auto simp: same_slot_def)
  with b(1) show ?thesis by blast
qed

section \<open>Hits\<close>

text \<open>An accessor has a getter, which is a function or undefined, as \<open>ToPropertyDescriptor\<close> demands.\<close>

definition accessor_ok :: "property_descriptor \<Rightarrow> bool" where
  "accessor_ok d \<longleftrightarrow>
     (\<forall>g s. pd_kind d = Accessor g s \<longrightarrow> g = Some VUndefined \<or> (\<exists>f. g = Some (VObject f)))"

lemma property_context_new_eq: "property_context_new m w = map_option (\<lambda>(r, c). (r, fst c)) (m (w, slot_new))"
  by (simp add: property_context_new_def)

lemma get_resolves:
  assumes "world_wf w" "plain w" "ow_objects w a \<noteq> None" "resolves w a key slot b d"
  shows "property_context_new (get E a key receiver) w =
    (case pd_kind d of
       Data (Some value) _ \<Rightarrow> Some (Inr value, w)
     | Accessor (Some g) _ \<Rightarrow> if g \<noteq> VUndefined then value_call E g receiver [] w else Some (Inr VUndefined, w)
     | _ \<Rightarrow> Some (Inr VUndefined, w))"
proof -
  from assms(4) obtain s' where "inherits w key a slot_new (Some d) s'" by (auto simp: resolves_def)
  from get_inherits [OF assms(1,2) this assms(3)]
  have "get E a key receiver (w, slot_new) = read_descriptor E d receiver (w, s')" by simp
  then show ?thesis
    by (simp add: property_context_new_eq read_descriptor_def run_return_def in_context_def option.map_comp o_def
        split_def option.map_ident split: descriptor_kind.split option.split)
qed

lemma get_by_name_hit_run:
  assumes w: "world_wf w" "plain w" and a: "ow_objects w a = Some ob" and r: "resolves w a key slot b d"
    and h: "cached_holder a ob slot w = Some (Inr (Some b), w)" and acc: "accessor_ok d"
  shows "get_by_name_hit E a ob slot receiver w = property_context_new (get E a key receiver) w"
proof -
  from r obtain sl vs where sl: "same_slot slot sl" "d = descriptor_of (sl_attributes sl) vs"
    "length vs = attributes_width (sl_attributes sl)"
    "\<And>i. i < length vs \<Longrightarrow> object_load b (unat (sl_index slot) + i) w = Some (Inr (vs ! i), w)"
    by (auto simp: resolves_def)
  have "0 < length vs" using sl(3) by (simp add: attributes_width_def)
  from sl(4) [OF this] have ld: "object_load b (unat (sl_index slot)) w = Some (Inr (vs ! 0), w)" by simp
  note fl = same_slot_flags [OF sl(1)]
  have ah: "ow_objects w a \<noteq> None" using a by simp
  note gr = get_resolves [OF w ah r, of E receiver]
  have hit: "get_by_name_hit E a ob slot receiver w =
      (case vs ! 0 of
         VObject getter \<Rightarrow> if has_get (sl_attributes slot) then en_call E getter receiver [] w else Some (Inr (vs ! 0), w)
       | _ \<Rightarrow> Some (Inr (vs ! 0), w))"
    by (simp add: get_by_name_hit_def run_bind_cases(1) h ld run_unwrap_bind run_return_def split: js_value.split)
  show ?thesis
  proof (cases "is_accessor_attributes (sl_attributes sl)")
    case False
    then have "\<not> has_get (sl_attributes slot)" using fl by (simp add: is_accessor_attributes_def has_get_def)
    then show ?thesis using False unfolding hit gr sl(2) by (auto simp: descriptor_of_def split: js_value.split)
  next
    case True
    then have g: "has_get (sl_attributes sl)" "vs ! 0 = VUndefined \<or> (\<exists>f. vs ! 0 = VObject f)"
      using acc by (auto simp: accessor_ok_def sl(2) descriptor_of_def split: if_splits)
    then show ?thesis using True fl unfolding hit gr sl(2) by (auto simp: descriptor_of_def value_call_def)
  qed
qed

text \<open>The short way first is the same.\<close>

lemma try_ic_read_run:
  assumes w: "world_wf w" "plain w" and a: "ow_objects w a = Some ob" and i: "vec_get (vw_ic w) i = Some ic"
    and c: "cache_sound (ow_shapes w) ic"
  defines "key \<equiv> property_key_of_string (ic_name ic)"
  assumes acc: "\<forall>s d s'. inherits w key a s (Some d) s' \<longrightarrow> accessor_ok d"
  shows "case ic_get w ic (object_shape ob) of
      Some None \<Rightarrow> try_ic_read_no_getter (VObject a) i w = Some (Inr None, w) \<and>
        get_by_name E False (VObject a) receiver i w = get_by_name_miss E (VObject a) receiver i w
    | Some (Some slot) \<Rightarrow>
        (try_ic_read_no_getter (VObject a) i w = Some (Inr None, w) \<or>
         (\<exists>v. try_ic_read_no_getter (VObject a) i w = Some (Inr (Some v), w) \<and>
            property_context_new (get E a key receiver) w = Some (Inr v, w))) \<and>
        get_by_name E False (VObject a) receiver i w = property_context_new (get E a key receiver) w
    | None \<Rightarrow> False"
proof -
  have lk: "vm_ic_lookup i (object_shape ob) w = Some (Inr found, w)" if "ic_get w ic (object_shape ob) = Some found" for found
    using that i by (auto simp: vm_ic_lookup_def vm_ic_def run_bind_def run_unwrap_def vec_get_def)
  obtain found where f: "ic_get w ic (object_shape ob) = Some found" using ic_get_total [OF w(1) a] by blast
  show ?thesis
  proof (cases found)
    case None
    with lk [OF f] a f show ?thesis
      by (simp add: try_ic_read_no_getter_def get_by_name_def object_borrow_bind run_bind_cases(1) run_return_def)
  next
    case (Some slot)
    with f have h: "ic_get w ic (object_shape ob) = Some (Some slot)" by simp
    from hit_resolves [OF w(1) a c h] obtain b d where
      b: "cached_holder a ob slot w = Some (Inr (Some b), w)" "resolves w a key slot b d" by (auto simp: key_def)
    then obtain s' where "inherits w key a slot_new (Some d) s'" by (auto simp: resolves_def)
    then have d: "accessor_ok d" using acc by blast
    note hit = get_by_name_hit_run [OF w a b(2,1) d, of E receiver]
    from b(2) obtain sl vs where sl: "same_slot slot sl" "d = descriptor_of (sl_attributes sl) vs"
      "length vs = attributes_width (sl_attributes sl)"
      "\<And>i. i < length vs \<Longrightarrow> object_load b (unat (sl_index slot) + i) w = Some (Inr (vs ! i), w)"
      by (auto simp: resolves_def)
    have "0 < length vs" using sl(3) by (simp add: attributes_width_def)
    from sl(4) [OF this] have ld: "object_load b (unat (sl_index slot)) w = Some (Inr (vs ! 0), w)" by simp
    have t: "try_ic_read_no_getter (VObject a) i w =
        (if has_get (sl_attributes slot) then Some (Inr None, w) else Some (Inr (Some (vs ! 0)), w))"
      by (simp add: try_ic_read_no_getter_def object_borrow_bind [of w] a run_bind_cases(1) lk [OF h] b(1) ld run_return_def)
    have "property_context_new (get E a key receiver) w = Some (Inr (vs ! 0), w)" if "\<not> has_get (sl_attributes slot)"
      unfolding hit [symmetric] using that
      by (simp add: get_by_name_hit_def run_bind_cases(1) b(1) ld run_unwrap_bind run_return_def split: js_value.split)
    moreover have "get_by_name E False (VObject a) receiver i w = property_context_new (get E a key receiver) w"
      unfolding hit [symmetric] by (simp add: get_by_name_def object_borrow_bind a run_bind_cases(1) lk [OF h])
    ultimately show ?thesis using h t by auto
  qed
qed

section \<open>Slots that may be cached\<close>

text \<open>The slots of shapes have none of the bits for caches, which \<open>to_slot_attributes\<close> does not set.\<close>

definition clean_slots :: "shape_heap \<Rightarrow> bool" where
  "clean_slots h \<longleftrightarrow>
     (\<forall>s key sl. shape_valid h s \<longrightarrow> shape_lookup h s key = Some (Some sl) \<longrightarrow> sl_attributes sl AND SLOT_INLINE_CACHE_BITS = 0)"

lemma to_slot_attributes_clean: "to_slot_attributes d = Some a \<Longrightarrow> a AND SLOT_INLINE_CACHE_BITS = 0"
  by (auto simp: to_slot_attributes_def flags_set_def mask_simps split: option.splits if_splits)

lemma flag_bits:
  fixes a :: u8
  shows "flags_contains a SLOT_PROTOTYPE = bit a 5" "flags_contains a SLOT_FOUND = bit a 6"
    "flags_contains a SLOT_NOT_CACHEABLE = bit a 7"
  using and_exp [of a 5] and_exp [of a 6] and_exp [of a 7]
  by (simp_all add: flags_contains_def mask_simps push_bit_eq_mult)

lemma cache_bit_numbers:
  "bit SLOT_INLINE_CACHE_BITS n \<longleftrightarrow> n = 5 \<or> n = 6 \<or> n = 7" "bit SLOT_FOUND n \<longleftrightarrow> n = 6" "bit SLOT_PROTOTYPE n \<longleftrightarrow> n = 5"
proof -
  have e: "SLOT_INLINE_CACHE_BITS = push_bit 5 (mask 3)" "SLOT_FOUND = push_bit 6 1" "SLOT_PROTOTYPE = push_bit 5 1"
    by (simp_all add: mask_simps mask_eq_exp_minus_1 push_bit_eq_mult)
  show "bit SLOT_INLINE_CACHE_BITS n \<longleftrightarrow> n = 5 \<or> n = 6 \<or> n = 7" "bit SLOT_FOUND n \<longleftrightarrow> n = 6" "bit SLOT_PROTOTYPE n \<longleftrightarrow> n = 5"
    unfolding e by (auto simp: bit_push_bit_iff bit_mask_iff bit_1_iff simp del: push_bit_of_1)
qed

lemma marked_bits:
  "bit (sl_attributes (marked s)) 5" "bit (sl_attributes (marked s)) 6 = bit (sl_attributes s) 6"
  "bit (sl_attributes (marked s)) 7 \<longleftrightarrow> bit (sl_attributes s) 7 \<or> bit (sl_attributes s) 5"
  by (simp_all add: marked_def set_not_cacheable_if_already_prototype_def bit_or_iff bit_push_bit_iff bit_and_iff cache_bit_numbers)

lemma own_slot_cases:
  assumes w: "world_wf w" and c: "clean_slots (ow_shapes w)" and a: "ow_objects w a = Some ob"
  shows "own_property w a key = None \<Longrightarrow> own_slot w a key s = s"
    and "is_index_key key \<Longrightarrow> own_slot w a key s = s"
    and "\<not> is_index_key key \<Longrightarrow> own_property w a key = Some d \<Longrightarrow>
      leads_to (ow_shapes w) (object_shape ob) key (own_slot w a key s) \<and>
      bit (sl_attributes (own_slot w a key s)) 5 = bit (sl_attributes s) 5 \<and>
      bit (sl_attributes (own_slot w a key s)) 7 = bit (sl_attributes s) 7"
proof -
  obtain r where l: "shape_lookup (ow_shapes w) (object_shape ob) key = Some r"
    using world_wfD(3) [OF w a] pm_lookup [OF world_wfD(2) [OF w a], of key] by (auto simp: object_shape_def)
  show i: "is_index_key key \<Longrightarrow> own_slot w a key s = s" by (simp add: own_slot_index)
  show "own_slot w a key s = s" if "own_property w a key = None"
  proof (cases "is_index_key key")
    case False
    with that have "stored_property w a key = None" by (simp add: own_property_named)
    with lookup_stored [OF w a False l] have "r = None" by (auto split: option.splits)
    then show ?thesis using l a by (simp add: own_slot_def)
  qed (rule i)
  assume k: "\<not> is_index_key key" "own_property w a key = Some d"
  then have "stored_property w a key = Some d" by (simp add: own_property_named)
  with lookup_stored [OF w a k(1) l] obtain sl where sl: "r = Some sl" by (auto split: option.splits)
  have cl: "sl_attributes sl AND SLOT_INLINE_CACHE_BITS = 0"
    using c l sl world_wfD(3) [OF w a] unfolding clean_slots_def by blast
  have bits: "\<not> bit (sl_attributes sl) n" if "bit SLOT_INLINE_CACHE_BITS n" for n
    using cl that by (metis bit_and_iff bit_0_eq bot_apply bot_bool_def)
  have o: "own_slot w a key s =
      \<lparr>sl_index = sl_index sl, sl_attributes = ((sl_attributes s AND SLOT_INLINE_CACHE_BITS) OR sl_attributes sl) OR SLOT_FOUND\<rparr>"
    using l sl k(1) a by (simp add: own_slot_def)
  have "same_slot (own_slot w a key s) sl"
    unfolding same_slot_def o
    by (auto intro!: bit_word_eqI simp: bit_or_iff bit_and_iff cache_bit_numbers)
  then show "leads_to (ow_shapes w) (object_shape ob) key (own_slot w a key s) \<and>
      bit (sl_attributes (own_slot w a key s)) 5 = bit (sl_attributes s) 5 \<and>
      bit (sl_attributes (own_slot w a key s)) 7 = bit (sl_attributes s) 7"
    using l sl bits [of 5] bits [of 7] unfolding leads_to_def o
    by (auto simp: bit_or_iff bit_and_iff cache_bit_numbers)
qed

text \<open>Past the second object the slot cannot be cached, and without a property neither.\<close>

lemma inherits_bits:
  assumes w: "world_wf w" and c: "clean_slots (ow_shapes w)" and i: "inherits w key a s r s'" and a: "ow_objects w a \<noteq> None"
  shows "bit (sl_attributes s) 7 \<Longrightarrow> bit (sl_attributes s') 7"
    and "bit (sl_attributes s) 5 \<Longrightarrow> own_property w a key = None \<Longrightarrow> bit (sl_attributes s') 6 \<Longrightarrow> proto_of w a \<noteq> None \<Longrightarrow>
      bit (sl_attributes s') 7"
    and "is_index_key key \<or> r = None \<Longrightarrow> bit (sl_attributes s') 6 = bit (sl_attributes s) 6"
proof -
  have "(bit (sl_attributes s) 7 \<longrightarrow> bit (sl_attributes s') 7) \<and>
    (bit (sl_attributes s) 5 \<and> own_property w a key = None \<and> bit (sl_attributes s') 6 \<and> proto_of w a \<noteq> None \<longrightarrow>
      bit (sl_attributes s') 7) \<and>
    (is_index_key key \<or> r = None \<longrightarrow> bit (sl_attributes s') 6 = bit (sl_attributes s) 6)"
    using i a
  proof (induction rule: inherits.induct)
    case (own a d s)
    then obtain ob where a: "ow_objects w a = Some ob" by auto
    from own_slot_cases [OF w c a] own.hyps show ?case by (cases "is_index_key key") auto
  next
    case (root a s)
    then obtain ob where a: "ow_objects w a = Some ob" by auto
    from own_slot_cases(1) [OF w c a root.hyps(1)] root.hyps show ?case by simp
  next
    case (up a p s r s')
    then obtain ob where a: "ow_objects w a = Some ob" by auto
    have "ow_objects w p \<noteq> None" using proto_exists [OF w up.hyps(2)] by blast
    with up own_slot_cases(1) [OF w c a up.hyps(1)] show ?case by (simp add: marked_bits)
  qed
  then show "bit (sl_attributes s) 7 \<Longrightarrow> bit (sl_attributes s') 7"
    and "bit (sl_attributes s) 5 \<Longrightarrow> own_property w a key = None \<Longrightarrow> bit (sl_attributes s') 6 \<Longrightarrow> proto_of w a \<noteq> None \<Longrightarrow>
      bit (sl_attributes s') 7"
    and "is_index_key key \<or> r = None \<Longrightarrow> bit (sl_attributes s') 6 = bit (sl_attributes s) 6" by blast+
qed

lemma cacheable_leads:
  assumes w: "world_wf w" and c: "clean_slots (ow_shapes w)" and a: "ow_objects w a = Some ob"
    and i: "inherits w key a slot_new r s'" and ca: "slot_is_cacheable s'"
  shows "\<not> is_index_key key \<and>
    (if flags_contains (sl_attributes s') SLOT_PROTOTYPE
     then shape_lookup (ow_shapes w) (object_shape ob) key = Some None \<and>
       (\<exists>p op. object_proto w ob = Some p \<and> ow_objects w p = Some op \<and> leads_to (ow_shapes w) (object_shape op) key s')
     else leads_to (ow_shapes w) (object_shape ob) key s')"
proof -
  have ca': "\<not> bit (sl_attributes s') 7" "bit (sl_attributes s') 6"
    using ca by (simp_all add: slot_is_cacheable_def attributes_is_cacheable_def flag_bits)
  have ah: "ow_objects w a \<noteq> None" using a by simp
  have k: "\<not> is_index_key key" "r \<noteq> None"
    using inherits_bits(3) [OF w c i ah] ca' by (auto simp: slot_new_def)
  from i show ?thesis
  proof (cases rule: inherits.cases)
    case (own d)
    from own_slot_cases(3) [OF w c a k(1) own(3), of slot_new] own(2) k show ?thesis
      by (simp add: flag_bits slot_new_def)
  next
    case (up p)
    note s0 = own_slot_cases(1) [OF w c a up(1), of slot_new]
    obtain op where op: "ow_objects w p = Some op" using proto_exists [OF w up(2)] by blast
    then have oph: "ow_objects w p \<noteq> None" by simp
    have i2: "inherits w key p (marked slot_new) r s'" using up(3) s0 by simp
    have no: "shape_lookup (ow_shapes w) (object_shape ob) key = Some None"
    proof -
      obtain q where l: "shape_lookup (ow_shapes w) (object_shape ob) key = Some q"
        using pm_lookup [OF world_wfD(2) [OF w a], of key] by (auto simp: object_shape_def)
      with lookup_stored [OF w a k(1) l] up(1) show ?thesis by (auto simp: own_property_named [OF k(1)] split: option.splits)
    qed
    have "own_property w p key \<noteq> None"
    proof
      assume n: "own_property w p key = None"
      from i2 n k(2) have "proto_of w p \<noteq> None" by (cases rule: inherits.cases) auto
      from inherits_bits(2) [OF w c i2 oph marked_bits(1) n ca'(2) this] ca'(1) show False by simp
    qed
    with i2 obtain d where d: "own_property w p key = Some d" "s' = own_slot w p key (marked slot_new)"
      by (cases rule: inherits.cases) auto
    from own_slot_cases(3) [OF w c op k(1) d(1), of "marked slot_new", folded d(2)]
    have "leads_to (ow_shapes w) (object_shape op) key s'" "bit (sl_attributes s') 5" by (simp_all add: marked_bits)
    then show ?thesis using k no op up(2) proto_of_object [OF a] by (auto simp: flag_bits)
  qed (use k in simp)
qed

section \<open>Misses\<close>

text \<open>\<open>seeded\<close>: a cache into which an entry may have been put.\<close>

lemma ic_set_sound:
  assumes w: "world_wf w" and c: "clean_slots (ow_shapes w)" and a: "ow_objects w a = Some ob"
    and i: "inherits w (property_key_of_string (ic_name ic)) a slot_new r s'" and ca: "slot_is_cacheable s'"
    and cs: "cache_sound (ow_shapes w) ic" and s: "ic_set w ic (object_shape ob) s' = Some ic'"
  shows "cache_sound (ow_shapes w) ic' \<and> ic_name ic' = ic_name ic"
proof -
  let ?key = "property_key_of_string (ic_name ic)" and ?p = "flags_contains (sl_attributes s') SLOT_PROTOTYPE"
  note l = cacheable_leads [OF w c a i ca]
  have new: "entry_sound (ow_shapes w) ?key
      \<lparr>ce_shape = object_shape ob, ce_prototype_shape = p, ce_slot = s'\<rparr>"
    if "case p of None \<Rightarrow> \<not> ?p | Some q \<Rightarrow> ?p \<and>
      (\<exists>x op. object_proto w ob = Some x \<and> ow_objects w x = Some op \<and> object_shape op = q)" for p
    using l that world_wfD(3) [OF w] a by (auto simp: entry_sound_def split: option.splits if_splits)
  have old: "cache_sound (ow_shapes w) (ic\<lparr>ic_entries := filter P (ic_entries ic)\<rparr>)" for P
    using cs by (simp add: cache_sound_def)
  have po: "prototype_object w (object_shape ob) = Some (Option.bind (object_proto w ob) (ow_objects w))"
    by (rule prototype_object_total [OF w a])
  show ?thesis
  proof (cases "ic_megamorphic ic \<or> \<not> length (filter (\<lambda>entry. shape_upgradable (ow_shapes w) (ce_shape entry)) (ic_entries ic)) < PIC_CAPACITY")
    case True
    then show ?thesis using s cs old by (auto simp: ic_set_def Let_def cache_sound_def split: if_splits option.splits)
  next
    case False
    show ?thesis
    proof (cases "?p")
      case True
      with l obtain x op where x: "object_proto w ob = Some x" "ow_objects w x = Some op" by auto
      with s False True po new [of "Some (object_shape op)"] cs show ?thesis
        by (auto simp: ic_set_def Let_def cache_sound_def)
    next
      case np: False
      with s False new [of None] cs show ?thesis by (auto simp: ic_set_def Let_def cache_sound_def)
    qed
  qed
qed

lemma ic_set_total:
  assumes "prototype_object w shape \<noteq> None"
  shows "\<exists>ic'. ic_set w ic shape slot = Some ic'"
  using assms by (auto simp: ic_set_def Let_def)

text \<open>What the calls of functions are relied on to keep.\<close>

definition calls_keep :: "('x vm_world_scheme, 'm, 'e) vm_engine_scheme \<Rightarrow> bool" where
  "calls_keep E \<longleftrightarrow>
     (\<forall>f this args w r w'. world_ok w \<longrightarrow> en_call E f this args w = Some (r, w') \<longrightarrow>
        length (vw_ic w') = length (vw_ic w) \<and>
        (\<forall>s. prototype_object w s \<noteq> None \<longrightarrow> prototype_object w' s \<noteq> None))"

definition forget_caches :: "((js_error + 'a) \<times> 'x vm_world_scheme) option \<Rightarrow> ((js_error + 'a) \<times> 'x vm_world_scheme) option" where
  "forget_caches m = map_option (\<lambda>(r, w). (r, w\<lparr>vw_ic := []\<rparr>)) m"

lemma vm_ic_run:
  "i < length (vw_ic w) \<Longrightarrow> vm_ic i w = Some (Inr (vw_ic w ! i), w)"
  by (simp add: vm_ic_def run_unwrap_def vec_get_def)

lemma vm_ic_set_run:
  assumes "i < length (vw_ic w)" "ic_set w (vw_ic w ! i) shape slot = Some ic'"
  shows "vm_ic_set i shape slot w = Some (Inr (), w\<lparr>vw_ic := (vw_ic w)[i := ic']\<rparr>)"
  using assms by (simp add: vm_ic_set_def run_bind_cases(1) vm_ic_run run_unwrap_bind run_modify_def)

text \<open>
  After a miss: \<open>[[Get]]\<close> came to \<open>m\<close>, with the slot \<open>s'\<close>, and perhaps an entry was put in.
\<close>

lemma get_by_name_miss_run:
  fixes w :: "'x vm_world_scheme" and E :: "('x vm_world_scheme, 'm, 'e) vm_engine_scheme"
  assumes w: "world_ok w" and a: "ow_objects w a = Some ob" and i: "i < length (vw_ic w)"
    and E: "calls_keep E" and key: "key = property_key_of_string (ic_name (vw_ic w ! i))"
    and inh: "inherits w key a slot_new r s'"
  shows "forget_caches (get_by_name_miss E (VObject a) receiver i w) =
      forget_caches (property_context_new (get E a key receiver) w)"
    and "\<not> (\<exists>d g s. r = Some d \<and> pd_kind d = Accessor g s) \<Longrightarrow>
      \<exists>v w'. get_by_name_miss E (VObject a) receiver i w = Some (Inr v, w') \<and>
        property_context_new (get E a key receiver) w = Some (Inr v, w) \<and>
        (w' = w \<or> slot_is_cacheable s' \<and>
          (\<exists>ic'. ic_set w (vw_ic w ! i) (object_shape ob) s' = Some ic' \<and> w' = w\<lparr>vw_ic := (vw_ic w)[i := ic']\<rparr>))"
proof -
  have ww: "world_wf w" "plain w" using w by (simp_all add: world_ok_def)
  have ah: "ow_objects w a \<noteq> None" using a by simp
  let ?ic = "vw_ic w ! i"
  define g where "g = (case r of None \<Rightarrow> Some (Inr VUndefined, w, s') | Some d \<Rightarrow> read_descriptor E d receiver (w, s'))"
  have get: "get E a key receiver (w, slot_new) = g"
    using get_inherits [OF ww inh ah, of E receiver] by (simp add: g_def)
  define F :: "js_value \<Rightarrow> ('x vm_world_scheme property_context, js_value) run" where "F v = (\<lambda>(w1, s1). if \<not> ic_megamorphic ?ic \<and> slot_is_cacheable s1 then
      run_bind (in_context (vm_ic_set i (object_shape ob) s1)) (\<lambda>_. run_return v) (w1, s1)
    else Some (Inr v, (w1, s1)))" for v
  have F: "ic_megamorphic ?ic \<Longrightarrow> run_bind (run_gets snd) (\<lambda>slot. run_return v) = F v"
    "\<not> ic_megamorphic ?ic \<Longrightarrow> run_bind (run_gets snd) (\<lambda>slot. if slot_is_cacheable slot
       then run_bind (in_context (vm_ic_set i (object_shape ob) slot)) (\<lambda>_. run_return v) else run_return v) = F v" for v
    by (auto simp: F_def run_simps fun_eq_iff)
  have miss: "get_by_name_miss E (VObject a) receiver i w =
      property_context_new (run_bind (get E a key receiver) F) w"
  proof -
    let ?L = "if ic_megamorphic ?ic then None else Some (object_shape ob)"
    have L: "run_bind (if ic_megamorphic ?ic then run_return None
         else run_bind (object_borrow a) (\<lambda>ob. run_return (Some (object_shape ob)))) f w = f ?L w"
      for f :: "shape option \<Rightarrow> ('x vm_world_scheme, js_value) run"
      by (simp add: run_bind_def run_return_def object_borrow_def a)
    have "get_by_name_miss E (VObject a) receiver i w =
        property_context_new (run_bind (get E a key receiver) (\<lambda>v. run_bind (run_gets snd) (\<lambda>slot. case ?L of
             None \<Rightarrow> run_return v
           | Some shape \<Rightarrow>
               if slot_is_cacheable slot then run_bind (in_context (vm_ic_set i shape slot)) (\<lambda>_. run_return v)
               else run_return v))) w"
      unfolding get_by_name_miss_def base_class_def js_value.case run_bind_return run_bind_cases(1) [of "vm_ic i", OF vm_ic_run [OF i]] L key ..
    then show ?thesis by (cases "ic_megamorphic ?ic") (simp_all add: F)
  qed
  have bnd: "run_bind (get E a key receiver) F (w, slot_new) =
      Option.bind g (\<lambda>(r, c). case r of Inl e \<Rightarrow> Some (Inl e, c) | Inr v \<Rightarrow> F v c)"
    by (simp add: run_bind_def get split_def)
  have po: "prototype_object w (object_shape ob) \<noteq> None" using prototype_object_total [OF ww(1) a] by simp
  have Fv: "\<exists>w2. F v (w1, s1) = Some (Inr v, (w2, s1)) \<and> (w2 = w1 \<or> slot_is_cacheable s1 \<and>
      (\<exists>ic'. ic_set w1 (vw_ic w1 ! i) (object_shape ob) s1 = Some ic' \<and> w2 = w1\<lparr>vw_ic := (vw_ic w1)[i := ic']\<rparr>))"
    if l: "length (vw_ic w1) = length (vw_ic w)" "prototype_object w1 (object_shape ob) \<noteq> None" for v w1 s1
  proof (cases "\<not> ic_megamorphic ?ic \<and> slot_is_cacheable s1")
    case True
    obtain ic' where ic: "ic_set w1 (vw_ic w1 ! i) (object_shape ob) s1 = Some ic'"
      using ic_set_total [OF l(2)] by blast
    have "vm_ic_set i (object_shape ob) s1 w1 = Some (Inr (), w1\<lparr>vw_ic := (vw_ic w1)[i := ic']\<rparr>)"
      by (rule vm_ic_set_run) (use i l(1) ic in simp_all)
    then show ?thesis using True ic by (simp add: F_def in_context_bind run_return_def)
  qed (auto simp: F_def)
  have gk: "length (vw_ic w1) = length (vw_ic w) \<and> prototype_object w1 (object_shape ob) \<noteq> None"
    if "g = Some (q, (w1, s1))" for q w1 s1
  proof -
    have "w1 = w \<or> (\<exists>f this args r. en_call E f this args w = Some (r, w1))"
      using that
      by (auto simp: g_def read_descriptor_def run_return_def in_context_def value_call_def run_throw_def
          split: option.splits descriptor_kind.splits if_splits js_value.splits)
    then show ?thesis using E w po unfolding calls_keep_def by blast
  qed
  have new: "property_context_new (get E a key receiver) w = map_option (\<lambda>(r, c). (r, fst c)) g"
    by (simp add: property_context_new_eq get)
  have miss': "get_by_name_miss E (VObject a) receiver i w = map_option (\<lambda>(r, c). (r, fst c))
      (Option.bind g (\<lambda>(r, c). case r of Inl e \<Rightarrow> Some (Inl e, c) | Inr v \<Rightarrow> F v c))"
    by (simp only: miss property_context_new_eq bnd)
  show "forget_caches (get_by_name_miss E (VObject a) receiver i w) =
      forget_caches (property_context_new (get E a key receiver) w)"
  proof (cases g)
    case None
    then show ?thesis unfolding miss' new by simp
  next
    case (Some x)
    obtain q w1 s1 where x: "g = Some (q, (w1, s1))" using Some by (cases x) auto
    show ?thesis
    proof (cases q)
      case (Inl e)
      then show ?thesis unfolding miss' new x by simp
    next
      case (Inr v)
      from Fv [of w1 v s1] gk [OF x] obtain w2 where
        "F v (w1, s1) = Some (Inr v, (w2, s1))" "w2\<lparr>vw_ic := []\<rparr> = w1\<lparr>vw_ic := []\<rparr>" by auto
      then show ?thesis unfolding miss' new x Inr by (simp add: forget_caches_def)
    qed
  qed
  show "\<exists>v w'. get_by_name_miss E (VObject a) receiver i w = Some (Inr v, w') \<and>
        property_context_new (get E a key receiver) w = Some (Inr v, w) \<and>
        (w' = w \<or> slot_is_cacheable s' \<and>
          (\<exists>ic'. ic_set w (vw_ic w ! i) (object_shape ob) s' = Some ic' \<and> w' = w\<lparr>vw_ic := (vw_ic w)[i := ic']\<rparr>))"
    if "\<not> (\<exists>d g s. r = Some d \<and> pd_kind d = Accessor g s)"
  proof -
    have "\<exists>v. g = Some (Inr v, (w, s'))"
    proof (cases r)
      case (Some d)
      with that show ?thesis
        by (cases "pd_kind d") (auto simp: g_def read_descriptor_def run_return_def split: option.split)
    qed (simp add: g_def)
    then obtain v where x: "g = Some (Inr v, (w, s'))" by blast
    from Fv [of w v s'] gk [OF x] show ?thesis unfolding miss' new x by auto
  qed
qed

end
