(* ===== verification/ObjectProperties.thy ===== *)
theory ObjectProperties
  imports ObjectSteps
begin

text \<open>
  Properties of the internal methods, on objects with the methods of ordinary, immutable prototype
  or string objects; two objects, the second with the first for its prototype, are the witnesses.
\<close>

section \<open>Two objects\<close>

definition demo_object :: "property_map \<Rightarrow> js_object" where
  "demo_object pm =
     \<lparr>ob_properties = pm, ob_extensible = True, ob_private_elements = [], ob_data = OtherData 0, ob_vtable = OrdinaryMethods\<rparr>"

definition demo_map :: "property_map \<times> shape_heap" where
  "demo_map = from_prototype_unique_shape (snd empty_map) (Some 0)"

definition demo_world :: object_world where
  "demo_world =
     \<lparr>ow_objects = [0 \<mapsto> demo_object (fst empty_map), 1 \<mapsto> demo_object (fst demo_map)], ow_shapes = snd demo_map\<rparr>"

definition demo_engine :: "('x object_world_scheme, entries) engine" where
  "demo_engine =
     \<lparr>en_index_map = list_index_map, en_call = (\<lambda>_ _ _. run_return VUndefined), en_callable = (\<lambda>_ _. True),
      en_exotic = (\<lambda>_. \<lparr>ex_get_prototype_of = None, ex_set_prototype_of = None, ex_is_extensible = None,
        ex_prevent_extensions = None, ex_get_own_property = None, ex_define_own_property = None,
        ex_has_property = None, ex_try_get = None, ex_get = None, ex_set = None, ex_delete = None,
        ex_own_property_keys = None\<rparr>),
      en_itoa = (\<lambda>_. []),
      en_conversions = \<lparr>cv_to_primitive = (\<lambda>_ _. run_return VUndefined), cv_string_to_number = (\<lambda>_. 0), cv_is_htmldda = (\<lambda>_. False)\<rparr>,
      en_array_shape = Unique 0\<rparr>"

lemma demo_index_map [simp]: "index_map_laws (en_index_map demo_engine)"
  by (simp add: demo_engine_def list_index_map_laws)

lemmas demo_defs = demo_map_def empty_map_def from_prototype_unique_shape_def alloc_unique_def gc_collect_def
  sh_empty_def ptable_empty_def indexed_default_def

lemma demo_shapes:
  "pm_shape (fst empty_map) = Unique 0" "pm_shape (fst demo_map) = Unique 1"
  "unique_proto (snd demo_map) 0 = None" "unique_proto (snd demo_map) (Suc 0) = Some 0"
  "unique_entries (snd demo_map) 0 = []" "shape_valid (snd demo_map) (Unique 0)"
  "pm_storage (fst empty_map) = []" "pm_storage (fst demo_map) = []"
  "pm_indexed (fst empty_map) = indexed_default" "pm_indexed (fst demo_map) = indexed_default"
  by (simp_all add: demo_defs unique_proto_def unique_entries_def table_entries_def)

lemma demo_maps_wf: "pm_wf (snd demo_map) (fst demo_map)" "pm_wf (snd demo_map) (fst empty_map)"
proof -
  have wf0: "pm_wf (snd empty_map) (fst empty_map)" by (rule empty_map_wf(1))
  then have "shapes_wf (snd empty_map)" by (simp add: pm_wf_def)
  from unique_map_wf(1) [OF this, of "Some 0" "fst demo_map" "snd demo_map"]
  show w: "pm_wf (snd demo_map) (fst demo_map)" by (simp add: demo_map_def)
  show "pm_wf (snd demo_map) (fst empty_map)"
    using w by (simp add: pm_wf_def pm_entries_def demo_shapes key_widths_def indexed_default_def del: shape_valid.simps)
qed

lemma demo_world_ok: "world_ok demo_world"
proof -
  have p: "object_proto demo_world (demo_object (fst empty_map)) = None"
    "object_proto demo_world (demo_object (fst demo_map)) = Some 0"
    by (simp_all add: object_proto_def demo_world_def object_shape_def demo_object_def demo_shapes)
  have g: "indexed_get indexed_default i = None" for i by (simp add: indexed_default_def vec_get_def)
  have "world_wf demo_world"
    unfolding world_wf_def using demo_maps_wf p g
    by (auto simp: demo_world_def object_wf_def demo_object_def object_shape_def demo_shapes split: if_splits)
  moreover have "plain demo_world" by (auto simp: plain_def demo_world_def demo_object_def split: if_splits)
  moreover have "proto_of demo_world a = (if a = 1 then Some 0 else None)" for a
    using p by (auto simp: proto_of_def demo_world_def)
  then have "proto_order demo_world = {(0, 1)}" by (auto simp: proto_order_def split: if_splits)
  then have "wf (proto_order demo_world)" by (simp add: wf_insert)
  ultimately show ?thesis by (simp add: world_ok_def)
qed

section \<open>Own keys\<close>

lemma own_property_keys_run:
  assumes wf: "world_wf w" "plain w" and a: "ow_objects w a = Some ob" and o: "ob_vtable ob \<noteq> StringMethods"
  shows "own_property_keys E a w =
    Some (Inr (map (property_key_of_u32 (en_itoa E)) (index_property_keys (ob_properties ob)) @
        filter is_string_key (map fst (pm_entries (ow_shapes w) (ob_properties ob))) @
        filter is_symbol_key (map fst (pm_entries (ow_shapes w) (ob_properties ob)))), w)"
  using wf a o shape_keys_spec [OF world_wfD(4,3) [OF wf(1) a]]
  by (simp add: own_property_keys_def ordinary_own_property_keys_def run_simps pm_entries_def object_shape_def)

lemma filter_string_keys:
  assumes "distinct ks"
  shows "\<exists>ss. filter is_string_key ks = map PKString ss \<and> distinct ss \<and> (\<forall>s. s \<in> set ss \<longleftrightarrow> PKString s \<in> set ks)"
  using assms
proof (induction ks)
  case (Cons k ks)
  then obtain ss where ss: "filter is_string_key ks = map PKString ss" "distinct ss" "\<forall>s. s \<in> set ss \<longleftrightarrow> PKString s \<in> set ks"
    by auto
  show ?case
  proof (cases k)
    case (PKString s)
    with ss Cons.prems show ?thesis by (intro exI [of _ "s # ss"]) auto
  qed (use ss in auto)
qed simp

lemma filter_symbol_keys:
  assumes "distinct ks"
  shows "\<exists>ys. filter is_symbol_key ks = map PKSymbol ys \<and> distinct ys \<and> (\<forall>y. y \<in> set ys \<longleftrightarrow> PKSymbol y \<in> set ks)"
  using assms
proof (induction ks)
  case (Cons k ks)
  then obtain ys where ys: "filter is_symbol_key ks = map PKSymbol ys" "distinct ys" "\<forall>y. y \<in> set ys \<longleftrightarrow> PKSymbol y \<in> set ks"
    by auto
  show ?case
  proof (cases k)
    case (PKSymbol y)
    with ys Cons.prems show ?thesis by (intro exI [of _ "y # ys"]) auto
  qed (use ys in auto)
qed simp

section \<open>Properties\<close>

text \<open>A new property of an ordinary object.\<close>

lemma define_absent_run:
  assumes "world_ok w" "index_map_laws (en_index_map E)" "ow_objects w a = Some ob" "ob_vtable ob \<noteq> StringMethods"
    and "\<not> array_key ob key" "valid_key key" "is_index_key key \<or> room w a" "own_property w a key = None" "ob_extensible ob"
  shows "\<exists>w' s'. define_own_property E a key desc (w, s) = Some (Inr True, (w', s')) \<and>
    changed w a key (Some (desc_lang (complete_with_defaults desc))) True w'"
proof -
  have w: "world_wf w" "plain w" using assms(1) by (simp_all add: world_ok_def)
  have "stored_property w a key = None" using own_property_ordinary [OF assms(3,4)] assms(8) by simp
  then have "faithful_insert w a key d" for d by (rule faithful_absent [OF w(1)])
  with define_own_property_run [OF w assms(2,3,5-7), of desc s] assms(3,4,8,9) show ?thesis
    by (auto simp: define_result_def created_complete)
qed

text \<open>C1
  \<open>[[DefineOwnProperty]]\<close> of objects other than String objects, for keys that are no element or length of an
  array. When the property is complete if there is one, as all are but an accessor built with one of
  its functions only (on which the code can panic, \<open>getter_only_accessor_panics\<close>), and the storage has room,
  the call returns, and answers yes exactly when the standard allows the change. A refused or void
  change leaves everything as it was; an allowed one makes the property what the descriptor says
  over what it was. No other object changes, no other property of the object appears or goes; the
  others keep attributes and values too, but for one case: the change alters the width of the
  property on a shape whose rollback is not exact (\<open>faithful_insert\<close>).
\<close>
theorem define_own_property_spec:
  assumes "world_ok w" "index_map_laws (en_index_map E)" "ow_objects w a = Some ob" "ob_vtable ob \<noteq> StringMethods"
    and "\<not> array_key ob key" "valid_key key" "is_index_key key \<or> room w a" "\<And>c. own_property w a key = Some c \<Longrightarrow> fully_populated c"
  shows "\<exists>b w' s'. define_own_property E a key desc (w, s) = Some (Inr b, (w', s')) \<and>
    (case own_property w a key of
       None \<Rightarrow>
         (b \<longleftrightarrow> ob_extensible ob) \<and>
         (if b then changed w a key (Some (desc_lang (complete_with_defaults desc)))
            (faithful_insert w a key (complete_with_defaults desc)) w' else w' = w)
     | Some c \<Rightarrow>
         (b \<longleftrightarrow> allowed_change c desc) \<and>
         (if b \<and> \<not> unchanged c desc then
            changed w a key (Some (desc_lang (merged c desc))) (faithful_insert w a key (merged c desc)) w'
          else w' = w))"
proof -
  have w: "world_wf w" "plain w" using assms(1) by (simp_all add: world_ok_def)
  from define_own_property_run [OF w assms(2,3,5-8), of desc s] assms(4) obtain b w' s' where
    "define_own_property E a key desc (w, s) = Some (Inr b, (w', s'))" "define_result w a key desc b w'" by blast
  then show ?thesis
    using assms(3) by (auto simp: define_result_def created_complete split: option.split)
qed

lemma demo_object_0:
  "ow_objects demo_world 0 = Some (demo_object (fst empty_map))" "own_property demo_world 0 (PKString s) = None"
  "ob_extensible (demo_object pm)" "ob_vtable (demo_object pm) = OrdinaryMethods" "room demo_world 0"
proof -
  have s: "stored_property demo_world 0 (PKString s) = None"
    using demo_maps_wf(2) demo_shapes
    by (simp add: stored_property_def demo_world_def demo_object_def pm_get_spec map_of_eq_None_iff)
      (simp add: pm_named_def named_def pm_entries_def)
  show "ow_objects demo_world 0 = Some (demo_object (fst empty_map))" by (simp add: demo_world_def)
  with s show "own_property demo_world 0 (PKString s) = None" by (simp add: own_property_def demo_object_def)
  show "room demo_world 0" by (simp add: room_def demo_world_def demo_object_def demo_shapes)
qed (simp_all add: demo_object_def)

theorem define_own_property_spec_witness:
  "\<exists>w' s'. define_own_property demo_engine 0 (PKString [97]) (data_property VNull True True True) (demo_world, slot_new) =
      Some (Inr True, (w', s')) \<and>
    property_view w' 0 (PKString [97]) = Some (desc_lang (complete_with_defaults (data_property VNull True True True)))"
proof -
  from define_own_property_spec [of demo_world demo_engine 0 _ "PKString [97]" "data_property VNull True True True" slot_new]
  show ?thesis
    by (auto simp: demo_world_ok demo_object_0 valid_key_def changed_def array_key_def)
qed

text \<open>C2
  Over any sequence of calls of the methods that change objects everything stays in order: the
  shapes fit the values, no two objects share a unique shape and the prototype chains are finite. An
  object that is not extensible stays so, keeps its prototype and gets no new property.
\<close>
theorem essential_invariants:
  assumes "index_map_laws (en_index_map E)" "(\<lambda>w w'. \<exists>f. object_step E f w w')\<^sup>*\<^sup>* w w'" "world_ok w"
  shows "world_ok w' \<and> (\<forall>a ob. ow_objects w a = Some ob \<and> \<not> ob_extensible ob \<longrightarrow>
    (\<exists>ob'. ow_objects w' a = Some ob' \<and> \<not> ob_extensible ob' \<and> proto_of w' a = proto_of w a \<and>
       (\<forall>key. stored_property w a key = None \<longrightarrow> stored_property w' a key = None)))"
proof -
  have "world_ok w' \<and> (\<forall>a. object_kept w w' a)"
    using assms(2)
  proof (induction rule: rtranclp_induct)
    case base
    then show ?case using assms(3) by simp
  next
    case (step w1 w2)
    then obtain f where "object_step E f w1 w2" by blast
    from object_step_result [OF assms(1) this] step.IH have "step_result f w1 w2" by blast
    with step.IH object_kept_trans show ?case unfolding step_result_def by blast
  qed
  then show ?thesis unfolding object_kept_def by blast
qed

definition sealed_world :: object_world where
  "sealed_world =
     demo_world\<lparr>ow_objects := (ow_objects demo_world)(0 \<mapsto> demo_object (fst empty_map)\<lparr>ob_extensible := False\<rparr>)\<rparr>"

lemma demo_prevent: "object_step demo_engine True demo_world sealed_world"
  using prevent_extensions_run [of demo_world 0 "demo_object (fst empty_map)" demo_engine] demo_world_ok demo_object_0
  by (intro object_step.preventing [where a = 0, OF _]) (simp_all add: world_ok_def sealed_world_def)

theorem essential_invariants_witness: "world_ok sealed_world"
  using essential_invariants [of demo_engine demo_world sealed_world] demo_prevent demo_world_ok by auto

text \<open>C3
  A property that is not configurable keeps its promises over any sequence of calls in which none
  runs into the defect of the rollback (\<open>object_step E True\<close>: no property is deleted, or changes its
  width, on a shared shape where, since that property was added, the attributes of one that was not
  the last were changed): it stays, with its attributes; an accessor keeps its functions, and a data property that is not writable its value.
  Without that condition the code breaks it, as \<open>removal_loses_configuration\<close> shows.
\<close>
theorem fixed_properties_stay:
  assumes "index_map_laws (en_index_map E)" "(object_step E True)\<^sup>*\<^sup>* w w'" "world_ok w"
    and "property_view w a key = Some (e, Some False, k)"
  shows "\<exists>k'. property_view w' a key = Some (e, Some False, k') \<and>
    (case k of LData v (Some True) \<Rightarrow> (\<exists>v' b. k' = LData v' (Some b)) | _ \<Rightarrow> k' = k)"
proof -
  have "world_ok w' \<and> property_kept (property_view w a key) (property_view w' a key)"
    using assms(2)
  proof (induction rule: rtranclp_induct)
    case base
    then show ?case using assms(3) by simp
  next
    case (step w1 w2)
    then have "step_result True w1 w2" using object_step_result [OF assms(1)] by blast
    with step.IH property_kept_trans show ?case unfolding step_result_def by blast
  qed
  then obtain k' where "property_view w' a key = Some (e, Some False, k')" "kind_kept k k'"
    using assms(4) unfolding property_kept_def by blast
  then show ?thesis by (cases "(k, k')" rule: kind_kept.cases) auto
qed

lemma demo_fixed:
  obtains w :: object_world and pm where "world_ok w" "ow_objects w 0 = Some (demo_object pm)"
    "property_view w 0 (PKString [97]) = Some (Some True, Some False, LData (Some (lang_value VNull)) (Some False))"
    "own_property w 0 (PKIndex 0) = None"
proof -
  let ?d = "data_property VNull False True False"
  from define_absent_run [OF demo_world_ok demo_index_map demo_object_0(1), of "PKString [97]" ?d slot_new]
  obtain w where c: "changed demo_world 0 (PKString [97]) (Some (desc_lang (complete_with_defaults ?d))) True w"
    by (auto simp: demo_object_0 valid_key_def array_key_def)
  have v: "property_view w 0 (PKString [97]) = Some (Some True, Some False, LData (Some (lang_value VNull)) (Some False))"
    using c by (simp add: changed_def desc_lang_def complete_with_defaults_def)
  obtain pm where "ow_objects w 0 = Some (demo_object (fst empty_map)\<lparr>ob_properties := pm\<rparr>)"
    using c demo_object_0(1) by (auto simp: changed_def)
  then have o: "ow_objects w 0 = Some (demo_object pm)" by (simp add: demo_object_def)
  have "stored_property demo_world 0 (PKIndex 0) = None"
    by (simp add: stored_property_index demo_world_def) (simp add: demo_object_def demo_shapes indexed_default_def vec_get_def)
  then have "stored_property w 0 (PKIndex 0) = None" using c by (simp add: changed_def)
  then have "own_property w 0 (PKIndex 0) = None" using own_property_ordinary [OF o] by (simp add: demo_object_def)
  with v o show thesis using that changed_ok(1) [OF demo_world_ok c demo_object_0(1)] by blast
qed

lemma demo_key: "valid_key (PKString str)"
  by (simp add: valid_key_def)

lemma fixed_own:
  fixes w :: object_world
  assumes "property_view w 0 key = Some (Some True, Some False, LData (Some v) (Some False))"
    and "ow_objects w 0 = Some ob" "ob_vtable ob \<noteq> StringMethods"
  obtains c where "own_property w 0 key = Some c" "pd_configurable c = Some False" "fully_populated c"
proof -
  obtain c where c: "stored_property w 0 key = Some c" "desc_lang c = (Some True, Some False, LData (Some v) (Some False))"
    using assms(1) by (auto simp: property_view_def)
  have "fully_populated c" using c(2) by (cases "pd_kind c") (auto simp: desc_lang_def fully_populated_def)
  with c that show thesis using own_property_ordinary [OF assms(2,3)] by (simp add: desc_lang_def)
qed

theorem fixed_properties_stay_witness:
  "\<exists>(w :: object_world) w' s'. (object_step demo_engine True)\<^sup>*\<^sup>* w w' \<and>
     property_view w 0 (PKIndex 0) = None \<and> property_view w' 0 (PKIndex 0) \<noteq> None \<and>
     delete_property demo_engine 0 (PKString [97]) (w', slot_new) = Some (Inr False, (w', s')) \<and>
     property_view w' 0 (PKString [97]) = Some (Some True, Some False, LData (Some (lang_value VNull)) (Some False))"
proof -
  let ?v = "Some (Some True, Some False, LData (Some (lang_value VNull)) (Some False))"
  obtain w :: object_world and pm where w: "world_ok w" "ow_objects w 0 = Some (demo_object pm)"
    "property_view w 0 (PKString [97]) = ?v" "own_property w 0 (PKIndex 0) = None"
    by (rule demo_fixed) blast
  have none: "property_view w 0 (PKIndex 0) = None"
    using w(4) own_property_ordinary [OF w(2)] by (simp add: demo_object_def property_view_def)
  let ?d = "data_property VNull True True True"
  have k: "ob_vtable (demo_object pm) \<noteq> StringMethods" "\<not> array_key (demo_object pm) (PKIndex 0)" "valid_key (PKIndex 0)"
    "is_index_key (PKIndex 0) \<or> room w 0" "ob_extensible (demo_object pm)"
    by (simp_all add: demo_object_def array_key_def valid_key_def u32_MAX_def)
  from define_absent_run [OF w(1) demo_index_map w(2) k(1-4) w(4) k(5), of ?d slot_new] obtain w1 s1 where
    d: "define_own_property demo_engine 0 (PKIndex 0) ?d (w, slot_new) = Some (Inr True, (w1, s1))"
      "changed w 0 (PKIndex 0) (Some (desc_lang (complete_with_defaults ?d))) True w1" by blast
  have "object_step demo_engine True w w1"
    by (rule object_step.defining [OF w(2) k(2-4) _ d(1)]) (use w(4) in simp_all)
  moreover obtain pm1 where o1: "ow_objects w1 0 = Some (demo_object pm1)"
    using d(2) w(2) by (auto simp: changed_def demo_object_def)
  moreover have ok1: "world_ok w1" using changed_ok(1) [OF w(1) d(2) w(2)] .
  moreover have v1: "property_view w1 0 (PKString [97]) = ?v" using d(2) w(3) by (simp add: changed_def)
  moreover obtain c where c: "own_property w1 0 (PKString [97]) = Some c" "pd_configurable c = Some False" "fully_populated c"
    by (rule fixed_own [OF v1 o1]) (simp_all add: demo_object_def)
  moreover have pc: "pd_configurable d \<noteq> None" if "own_property w1 0 (PKString [97]) = Some d" for d
    using c that by simp
  moreover have wf1: "world_wf w1" "plain w1" using ok1 by (simp_all add: world_ok_def)
  moreover have "\<exists>s'. delete_property demo_engine 0 (PKString [97]) (w1, slot_new) = Some (Inr False, (w1, s'))"
    using delete_run [OF wf1 demo_index_map o1 demo_key [of "[97]"] pc, of slot_new] c by auto
  then obtain s' where del: "delete_property demo_engine 0 (PKString [97]) (w1, slot_new) = Some (Inr False, (w1, s'))" by blast
  moreover have "object_step demo_engine True w1 w1"
    by (rule object_step.deleting [OF o1 _ _ del]) (use c in \<open>simp_all add: valid_key_def\<close>)
  ultimately have s: "(object_step demo_engine True)\<^sup>*\<^sup>* w w1"
    by (meson converse_rtranclp_into_rtranclp r_into_rtranclp)
  have "property_view w1 0 (PKIndex 0) \<noteq> None" using d(2) by (simp add: changed_def)
  moreover have "property_view w1 0 (PKString [97]) = ?v"
    using fixed_properties_stay [OF demo_index_map s w(1,3)] by auto
  ultimately show ?thesis using s none del by blast
qed

text \<open>C13
  Reading a property searches the prototype chain, which is finite, so it ends: it gives the value
  or the result of the getter of the first object that has the property, with the receiver first
  given, or \<open>undefined\<close>. Nothing else happens.
\<close>
theorem get_searches_chain:
  assumes "world_ok w" "ow_objects w a \<noteq> None"
  shows "\<exists>r s'. inherits w key a s r s' \<and>
    get E a key receiver (w, s) =
      (case r of None \<Rightarrow> Some (Inr VUndefined, (w, s')) | Some d \<Rightarrow> read_descriptor E d receiver (w, s'))"
proof -
  have w: "world_wf w" "plain w" "wf (proto_order w)" using assms(1) by (simp_all add: world_ok_def)
  obtain r s' where i: "inherits w key a s r s'" using inherits_total [OF w(1,3)] by blast
  from get_inherits [OF w(1,2) i assms(2)] i show ?thesis by blast
qed

lemma demo_object_1: "ow_objects demo_world 1 \<noteq> None"
  by (simp add: demo_world_def)

theorem get_searches_chain_witness:
  "\<exists>r s'. inherits demo_world (PKString [97]) 1 slot_new r s' \<and>
    get demo_engine 1 (PKString [97]) VNull (demo_world, slot_new) =
      (case r of None \<Rightarrow> Some (Inr VUndefined, (demo_world, s')) | Some d \<Rightarrow> read_descriptor demo_engine d VNull (demo_world, s'))"
  by (rule get_searches_chain [OF demo_world_ok demo_object_1])

text \<open>
  The combined operation \<open>try_get\<close> is \<open>has_property\<close> followed by \<open>get\<close> when there is the property.
\<close>
theorem try_get_is_has_and_get:
  assumes "world_ok w" "ow_objects w a \<noteq> None"
  shows "\<exists>has s1 s2. has_property E a key (w, s) = Some (Inr has, (w, s1)) \<and>
    try_get E a key receiver (w, s) =
      (if has then run_bind (get E a key receiver) (\<lambda>v. run_return (Some v)) (w, s) else Some (Inr None, (w, s2)))"
proof -
  have w: "world_wf w" "plain w" "wf (proto_order w)" using assms(1) by (simp_all add: world_ok_def)
  obtain r s' where i: "inherits w key a s r s'" using inherits_total [OF w(1,3)] by blast
  from has_property_inherits [OF w(1,2) i assms(2), of E] obtain s1 where
    h: "has_property E a key (w, s) = Some (Inr (r \<noteq> None), (w, s1))" by blast
  have "try_get E a key receiver (w, s) =
      (if r \<noteq> None then run_bind (get E a key receiver) (\<lambda>v. run_return (Some v)) (w, s) else Some (Inr None, (w, s')))"
    unfolding try_get_inherits [OF w(1,2) i assms(2)]
    using get_inherits [OF w(1,2) i assms(2), of E receiver] by (simp add: run_bind_def split: option.split)
  with h show ?thesis by blast
qed

theorem try_get_is_has_and_get_witness:
  "\<exists>has s1 s2. has_property demo_engine 1 (PKString [97]) (demo_world, slot_new) = Some (Inr has, (demo_world, s1)) \<and>
    try_get demo_engine 1 (PKString [97]) VNull (demo_world, slot_new) =
      (if has then run_bind (get demo_engine 1 (PKString [97]) VNull) (\<lambda>v. run_return (Some v)) (demo_world, slot_new)
       else Some (Inr None, (demo_world, s2)))"
  by (rule try_get_is_has_and_get [OF demo_world_ok demo_object_1])

text \<open>C18
  Setting the prototype of an ordinary object succeeds exactly when it is the old one, or the object
  is extensible and not on the chain of the new one, which keeps all chains finite; it changes no
  property of any object and no prototype of another.
\<close>
theorem set_prototype_of_spec:
  assumes "world_ok w" "ow_objects w a = Some ob" "ob_vtable ob \<noteq> ImmutablePrototypeMethods"
    and "\<And>q. val = Some q \<Longrightarrow> ow_objects w q \<noteq> None"
  shows "\<exists>b w'. set_prototype_of E a val w = Some (Inr b, w') \<and> world_ok w' \<and>
    (b \<longleftrightarrow> proto_of w a = val \<or> ob_extensible ob \<and> (\<forall>q. val = Some q \<longrightarrow> (a, q) \<notin> (proto_order w)\<^sup>*)) \<and>
    (\<forall>c. proto_of w' c = (if b \<and> c = a then val else proto_of w c)) \<and>
    (\<forall>c key. stored_property w' c key = stored_property w c key)"
proof -
  have w: "world_wf w" "plain w" "wf (proto_order w)" using assms(1) by (simp_all add: world_ok_def)
  from set_prototype_run [where E = E and val = val, OF w assms(2,4)] assms(3) obtain b w' where
    s: "set_prototype_of E a val w = Some (Inr b, w')" "prototype_set w a val b w'" by blast
  from prototype_step_result [OF assms(1,2) s(2), of False] have "world_ok w'" by (simp add: step_result_def)
  moreover have fr: "frame w a w'" using s(2) by (simp add: prototype_set_def)
  moreover have "stored_property w' c key = stored_property w c key" for c key
    using s(2) fr by (cases "c = a") (auto simp: prototype_set_def frame_def)
  moreover have "proto_of w' c = (if b \<and> c = a then val else proto_of w c)" for c
    using s(2) fr by (cases "c = a") (auto simp: prototype_set_def frame_def split: if_splits)
  moreover have "b \<longleftrightarrow> proto_of w a = val \<or> ob_extensible ob \<and> (\<forall>q. val = Some q \<longrightarrow> (a, q) \<notin> (proto_order w)\<^sup>*)"
    using s(2) assms(2) by (auto simp: prototype_set_def)
  ultimately show ?thesis using s(1) by blast
qed

lemma demo_protos: "proto_of demo_world 0 = None" "(0, 1) \<in> proto_order demo_world"
  by (simp_all add: proto_of_def proto_order_def demo_world_def object_proto_def object_shape_def demo_object_def demo_shapes)

theorem set_prototype_of_spec_witness:
  "\<exists>w'. set_prototype_of demo_engine 0 (Some 1) demo_world = Some (Inr False, w') \<and> proto_of w' 0 = None"
  using set_prototype_of_spec [where E = demo_engine and val = "Some 1", OF demo_world_ok demo_object_0(1)]
    demo_object_1 demo_protos demo_object_0(4) by fastforce

text \<open>C19
  The own keys are exactly the keys of the own properties, each once: indices in ascending order,
  then strings, then symbols.
\<close>
theorem own_property_keys_spec:
  assumes "world_ok w" "ow_objects w a = Some ob" "ob_vtable ob \<noteq> StringMethods"
    and "stored_property w a (PKIndex u32_MAX) = None"
  shows "\<exists>is ss ys. own_property_keys E a w = Some (Inr (map PKIndex is @ map PKString ss @ map PKSymbol ys), w) \<and>
    sorted_wrt (<) is \<and> distinct ss \<and> distinct ys \<and>
    (\<forall>i. i \<in> set is \<longleftrightarrow> own_property w a (PKIndex i) \<noteq> None) \<and>
    (\<forall>s. s \<in> set ss \<longleftrightarrow> own_property w a (PKString s) \<noteq> None) \<and>
    (\<forall>y. y \<in> set ys \<longleftrightarrow> own_property w a (PKSymbol y) \<noteq> None)"
proof -
  have w: "world_wf w" "plain w" using assms(1) by (simp_all add: world_ok_def)
  let ?pm = "ob_properties ob" and ?es = "map fst (pm_entries (ow_shapes w) (ob_properties ob))"
  let ?is = "index_property_keys ?pm"
  have o: "own_property w a k = stored_property w a k" for k by (rule own_property_ordinary [OF assms(2,3)])
  have i: "i \<in> set ?is \<longleftrightarrow> own_property w a (PKIndex i) \<noteq> None" for i
    by (simp add: o index_property_keys_set [OF world_wfD(2) [OF w(1) assms(2)]] stored_property_index [OF assms(2)])
  then have "u32_MAX \<notin> set ?is" using assms(4) o by simp
  then have m: "map (property_key_of_u32 (en_itoa E)) ?is = map PKIndex ?is"
    by (intro map_cong refl) (auto simp: property_key_of_u32_def nonmax_new_def)
  have d: "distinct ?es" using pm_entries_distinct [OF world_wfD(2) [OF w(1) assms(2)]] by (simp add: distinct_keys_def)
  have n: "k \<in> set ?es \<longleftrightarrow> own_property w a k \<noteq> None" if "\<not> is_index_key k" for k
  proof -
    have "k \<in> set (map fst (pm_named (ow_shapes w) ?pm)) \<longleftrightarrow> own_property w a k \<noteq> None"
      unfolding o stored_property_named [OF w(1) assms(2) that] by (auto simp: map_of_eq_None_iff simp del: pm_named_keys)
    then show ?thesis by simp
  qed
  from filter_string_keys [OF d] filter_symbol_keys [OF d] obtain ss ys where
    "filter is_string_key ?es = map PKString ss" "distinct ss" "\<forall>s. s \<in> set ss \<longleftrightarrow> PKString s \<in> set ?es"
    "filter is_symbol_key ?es = map PKSymbol ys" "distinct ys" "\<forall>y. y \<in> set ys \<longleftrightarrow> PKSymbol y \<in> set ?es"
    by blast
  then show ?thesis
    using own_property_keys_run [OF w assms(2,3), of E] m i n index_property_keys_set(2) [OF world_wfD(2) [OF w(1) assms(2)]]
    by (intro exI [of _ ?is] exI [of _ ss] exI [of _ ys]) simp
qed

theorem own_property_keys_spec_witness:
  "\<exists>is ss ys. own_property_keys demo_engine 0 demo_world = Some (Inr (map PKIndex is @ map PKString ss @ map PKSymbol ys), demo_world)"
proof -
  have "stored_property demo_world 0 (PKIndex u32_MAX) = None"
    using stored_property_index [OF demo_object_0(1)] by (simp add: demo_object_def demo_shapes indexed_default_def vec_get_def)
  from own_property_keys_spec [OF demo_world_ok demo_object_0(1) _ this, of demo_engine] demo_object_0(4)
  show ?thesis by auto
qed

text \<open>C20
  \<open>[[Delete]]\<close>, of a property that is complete when there is one, answers yes exactly when there is no
  such property or it is configurable. Then the property is gone, no other appears or goes and no
  other object changes; the other properties keep their attributes and values when the rollback of
  the shape is exact (\<open>faithful_remove\<close>), and only their presence when it is not. A refused
  deletion changes nothing.
\<close>
theorem delete_property_spec:
  assumes "world_ok w" "index_map_laws (en_index_map E)" "ow_objects w a = Some ob" "valid_key key"
    and "\<And>c. own_property w a key = Some c \<Longrightarrow> fully_populated c"
  shows "\<exists>b w' s'. delete_property E a key (w, s) = Some (Inr b, (w', s')) \<and>
    (b \<longleftrightarrow> (\<forall>c. own_property w a key = Some c \<longrightarrow> pd_configurable c = Some True)) \<and>
    (if b \<and> own_property w a key \<noteq> None then changed w a key None (faithful_remove w a key) w' else w' = w)"
proof -
  have w: "world_wf w" "plain w" using assms(1) by (simp_all add: world_ok_def)
  have "\<And>c. own_property w a key = Some c \<Longrightarrow> pd_configurable c \<noteq> None"
    using assms(5) by (auto simp: fully_populated_def)
  from delete_run [OF w assms(2,3,4) this, of s] obtain b w' s' where
    "delete_property E a key (w, s) = Some (Inr b, (w', s'))"
    "case own_property w a key of None \<Rightarrow> b \<and> w' = w
     | Some c \<Rightarrow> (b \<longleftrightarrow> pd_configurable c = Some True) \<and>
         (if b then changed w a key None (faithful_remove w a key) w' else w' = w)" by blast
  then show ?thesis by (intro exI [of _ b] exI [of _ w'] exI [of _ s']) (auto split: option.splits)
qed

theorem delete_property_spec_witness:
  "\<exists>w :: object_world. \<exists>s'. own_property w 0 (PKString [97]) \<noteq> None \<and>
     delete_property demo_engine 0 (PKString [97]) (w, slot_new) = Some (Inr False, (w, s'))"
proof -
  obtain w :: object_world and pm where w: "world_ok w" "ow_objects w 0 = Some (demo_object pm)"
    "property_view w 0 (PKString [97]) = Some (Some True, Some False, LData (Some (lang_value VNull)) (Some False))"
    by (rule demo_fixed) blast
  obtain c where c: "own_property w 0 (PKString [97]) = Some c" "pd_configurable c = Some False" "fully_populated c"
    by (rule fixed_own [OF w(3,2)]) (simp_all add: demo_object_def)
  with delete_property_spec [OF w(1) demo_index_map w(2), of "PKString [97]" slot_new] show ?thesis
    by (auto simp: valid_key_def)
qed

text \<open>
  A slot with only the getter flag, as the builders of built-in objects make for an accessor without
  setter, reads back as a descriptor without the field; once it is not configurable, defining a
  setter on it panics in \<open>expect_set\<close>.
\<close>
theorem getter_only_accessor_panics:
  "\<exists>d. get_storage [g, x] \<lparr>sl_index = 0, sl_attributes = SLOT_GET OR SLOT_CONFIGURABLE\<rparr> = Some d \<and>
     (\<exists>d'. fill_with (converted d (build_configurable False pd_default)) (build_configurable False pd_default) = Some d' \<and>
        validate_and_apply_property_descriptor E (Some (a, key)) extensible (build_set VUndefined pd_default) (Some d') c = None)"
  by (simp add: get_storage_def is_accessor_attributes_def has_get_def has_set_def flags_contains_def mask_simps vec_get_def
      converted_def fill_with_def validate_and_apply_property_descriptor_def validate_change_def run_bind_def run_unwrap_def
      desc_simps Let_def)

end
