(* ===== verification/ArrayProperties.thy ===== *)
theory ArrayProperties
  imports ObjectProperties
begin

text \<open>
  Properties of arrays: what defining an element or the length does, and that every index stays below
  the length. An array with no element is the witness.
\<close>

section \<open>Arrays stay arrays\<close>

lemma array_at_frame: "frame w a w' \<Longrightarrow> b \<noteq> a \<Longrightarrow> array_at w b n c \<Longrightarrow> array_at w' b n c"
  by (simp add: array_at_def frame_def property_view_def)

lemma array_at_same:
  assumes "array_at w a n b" "\<exists>ob. ow_objects w' a = Some ob \<and> ob_vtable ob = ArrayMethods"
    "\<And>k. stored_property w' a k = stored_property w a k"
  shows "array_at w' a n b"
  using assms by (simp add: array_at_def property_view_def)

text \<open>A change of a property that is neither an element nor the length, or the deletion of an element.\<close>

lemma array_at_changed:
  assumes at: "array_at w a n b" and c: "changed w a key v True w'"
    and k: "v = None \<and> key \<noteq> length_key \<or> \<not> is_index_key key \<and> key \<noteq> length_key"
    and p: "\<And>d. v = Some (desc_lang d) \<Longrightarrow> fully_populated d"
  shows "array_at w' a n b"
proof -
  from at obtain ob where ob: "ow_objects w a = Some ob" "ob_vtable ob = ArrayMethods" by (auto simp: array_at_def)
  with c obtain pm where ob': "ow_objects w' a = Some (ob\<lparr>ob_properties := pm\<rparr>)" unfolding changed_def by blast
  have v: "property_view w' a key = v" "\<And>k. k \<noteq> key \<Longrightarrow> property_view w' a k = property_view w a k"
    using c by (auto simp: changed_def)
  have pop: "fully_populated e" if e: "stored_property w' a k = Some e" for k e
  proof (cases "k = key")
    case True
    with v(1) e have "v = Some (desc_lang e)" by (simp add: property_view_def)
    then show ?thesis by (rule p)
  next
    case False
    from property_view_populated [OF v(2) [OF False] _ e] at show ?thesis by (auto simp: array_at_def)
  qed
  have el: "i < n" if "stored_property w' a (PKIndex i) \<noteq> None" for i
  proof -
    have "property_view w' a (PKIndex i) \<noteq> None" using that by (simp add: property_view_def)
    moreover from this have "key \<noteq> PKIndex i" using v(1) k by auto
    ultimately have "property_view w a (PKIndex i) \<noteq> None" using v(2) [of "PKIndex i"] by simp
    then show ?thesis using at by (simp add: array_at_def property_view_def)
  qed
  have "property_view w' a length_key = property_view w a length_key" using v(2) k by metis
  then show ?thesis using at ob' ob(2) pop el unfolding array_at_def by auto
qed

lemma array_at_step:
  assumes im: "index_map_laws (en_index_map E)" and s: "object_step E True w w'" and ok: "world_ok w"
    and at: "array_at w a n b"
  shows "\<exists>n' b'. array_at w' a n' b' \<and> (b' \<longrightarrow> b)"
  using s
proof (cases rule: object_step.cases)
  case (defining c ob key desc s q s')
  have w: "world_wf w" "plain w" using ok by (simp_all add: world_ok_def)
  from define_own_property_run [OF w im defining(1-5), of desc s] defining(6)
  have r: "w' = w \<or> define_result w c key desc q w' \<and> own_property w c key = stored_property w c key" by auto
  have d: "w' = w \<or> (\<exists>d. fully_populated d \<and> changed w c key (Some (desc_lang d)) True w')"
  proof (cases "own_property w c key")
    case None
    then have "w' = w \<or> faithful_insert w c key (created desc)"
      using r faithful_absent [OF w(1), of c key "created desc"] by auto
    with None r created_populated show ?thesis unfolding define_result_def by (auto split: if_splits)
  next
    case (Some d)
    then have "w' = w \<or> faithful_insert w c key (merged d desc)" using defining(7) by blast
    with Some r merged_fill(2) [OF defining(5) [OF Some]] show ?thesis
      unfolding define_result_def by (auto split: if_splits)
  qed
  show ?thesis
  proof (cases "c = a")
    case True
    with at defining(1,2) have k: "\<not> is_index_key key" "key \<noteq> length_key" by (auto simp: array_at_def array_key_def)
    from d consider "w' = w" | d where "fully_populated d" "changed w a key (Some (desc_lang d)) True w'" using True by blast
    then show ?thesis
    proof cases
      case 2
      have "array_at w' a n b"
        by (rule array_at_changed [OF at 2(2)]) (use k 2(1) desc_lang_populated in blast)+
      then show ?thesis by blast
    qed (use at in blast)
  next
    case False
    with d have "w' = w \<or> frame w c w'" by (auto simp: changed_def)
    with False at array_at_frame show ?thesis by metis
  qed
next
  case (defining_in_array c m e key desc s r s')
  show ?thesis
  proof (cases "c = a")
    case True
    from define_array_run [OF im ok at, of key desc s] defining_in_array True show ?thesis by auto
  next
    case False
    from define_array_run [OF im ok defining_in_array(1,2,4,5,3), of s] defining_in_array(6)
    have "frame w c w'" by (auto simp: array_step_def)
    with False at array_at_frame show ?thesis by metis
  qed
next
  case (deleting c ob key s q s')
  have w: "world_wf w" "plain w" using ok by (simp_all add: world_ok_def)
  have "\<And>d. own_property w c key = Some d \<Longrightarrow> pd_configurable d \<noteq> None"
    using deleting(3) by (auto simp: fully_populated_def)
  moreover have "w' = w \<or> faithful_remove w c key" using deleting(5) by blast
  ultimately have d: "w' = w \<or> changed w c key None True w' \<and> (\<exists>d. own_property w c key = Some d \<and> pd_configurable d = Some True)"
    using delete_run [OF w im deleting(1,2), of s] deleting(4) by (auto split: option.splits if_splits)
  show ?thesis
  proof (cases "c = a \<and> w' \<noteq> w")
    case True
    with d obtain x where x: "changed w a key None True w'" "own_property w a key = Some x" "pd_configurable x = Some True" by blast
    from at obtain ob' where o: "ow_objects w a = Some ob'" "ob_vtable ob' = ArrayMethods"
      "property_view w a length_key = Some (length_view n b)" by (auto simp: array_at_def)
    have "stored_property w a key = Some x" using x(2) o own_property_ordinary [OF o(1)] by simp
    then have "key \<noteq> length_key"
      using x(3) o(3) by (auto simp: property_view_def desc_lang_def length_view_def)
    with array_at_changed [OF at x(1)] show ?thesis by blast
  next
    case False
    with d have "w' = w \<or> c \<noteq> a \<and> frame w c w'" by (auto simp: changed_def)
    with at array_at_frame show ?thesis by metis
  qed
next
  case (setting_prototype c ob val q)
  have w: "world_wf w" "plain w" "wf (proto_order w)" using ok by (simp_all add: world_ok_def)
  from set_prototype_run [where E = E and val = val, OF w setting_prototype(1,2)] setting_prototype(3)
  have p: "w' = w \<or> prototype_set w c val q w'" by auto
  have "array_at w' a n b" if p: "prototype_set w c val q w'"
  proof (cases "c = a")
    case True
    from at obtain ob' where "ow_objects w a = Some ob'" "ob_vtable ob' = ArrayMethods" by (auto simp: array_at_def)
    with p True show ?thesis by (intro array_at_same [OF at]) (auto simp: prototype_set_def split: if_splits)
  next
    case False
    with p at array_at_frame show ?thesis unfolding prototype_set_def by metis
  qed
  with p at show ?thesis by blast
next
  case (preventing c ob q)
  have "plain w" using ok by (simp add: world_ok_def)
  with prevent_extensions_run [OF this preventing(1), of E] preventing(2)
  have w': "w' = w\<lparr>ow_objects := (ow_objects w)(c \<mapsto> ob\<lparr>ob_extensible := False\<rparr>)\<rparr>" by simp
  have "array_at w' a n b"
    by (rule array_at_same [OF at])
      (use at preventing(1) in \<open>auto simp: w' array_at_def stored_property_def split: option.split\<close>)
  then show ?thesis by blast
qed

section \<open>An array\<close>

definition demo_array :: "property_map \<Rightarrow> js_object" where
  "demo_array pm =
     \<lparr>ob_properties = pm, ob_extensible = True, ob_private_elements = [], ob_data = OtherData 0, ob_vtable = ArrayMethods\<rparr>"

text \<open>A map with nothing but a length, in a heap with its shape only.\<close>

definition length_only :: "shape_heap \<Rightarrow> property_map \<Rightarrow> bool" where
  "length_only h pm \<longleftrightarrow>
     pm_wf h pm \<and> pm_named h pm = [(length_key, length_descriptor_at (VInteger32 0) True)] \<and>
     shape_lookup h (pm_shape pm) length_key = Some (Some array_length_slot) \<and>
     pm_indexed pm = indexed_default \<and> length (pm_storage pm) = 1 \<and> shape_proto h (pm_shape pm) = None \<and>
     (\<forall>s. shape_valid h s \<longrightarrow> s = pm_shape pm) \<and> pm_shape pm = Unique 0 \<and> is_upgradable h 0"

lemma length_onlyD:
  assumes "length_only h pm"
  shows "pm_wf h pm" "pm_named h pm = [(length_key, length_descriptor_at (VInteger32 0) True)]"
    "shape_lookup h (pm_shape pm) length_key = Some (Some array_length_slot)" "pm_indexed pm = indexed_default"
    "length (pm_storage pm) = 1" "shape_proto h (pm_shape pm) = None" "shape_valid h s \<Longrightarrow> s = pm_shape pm"
    "pm_shape pm = Unique 0" "is_upgradable h 0"
  using assms unfolding length_only_def by blast+

lemma demo_array_properties: obtains h pm where "length_only h pm"
proof -
  let ?d = "length_descriptor_at (VInteger32 0) True" and ?h = "snd empty_map" and ?pm = "fst empty_map"
  have wf: "pm_wf ?h ?pm" by (rule empty_map_wf(1))
  have e: "pm_entries ?h ?pm = []" by (simp add: demo_defs pm_entries_def unique_entries_def table_entries_def)
  have "fully_populated ?d" by (auto simp: fully_populated_def)
  from pm_insert_step [OF wf list_index_map_laws _ this, of length_key slot_new] obtain pm s h where
    i: "pm_insert_with_slot list_index_map ?h ?pm length_key ?d slot_new = Some (False, pm, s, h)"
      "inserted ?h ?pm length_key ?d slot_new pm s h" "pm_named ?h ?pm = []"
    by (auto simp: e pm_named_def named_def demo_shapes)
  have st: "pm_step ?h h ?pm pm" "pm_named h pm = [(length_key, ?d)]"
    using i(2,3) by (simp_all add: inserted_def insert_faithful_def e)
  note ev = demo_defs pm_insert_with_slot_def unique_insert_property_transition_def unique_lookup_def Let_def
    to_slot_attributes_def desc_simps update_unique_def ptable_insert_def push_storage_def unique_proto_def mask_simps us_taken_def
    slot_from_previous_def flags_set_def is_accessor_attributes_def flags_contains_def
  have "shape_lookup h (pm_shape pm) length_key = Some (Some array_length_slot) \<and>
      length (pm_storage pm) = 1 \<and> shape_proto h (pm_shape pm) = None \<and> pm_shape pm = Unique 0 \<and> is_upgradable h 0"
    using i(1) by (auto simp: ev is_upgradable_def)
  moreover have "shape_valid h s \<Longrightarrow> s = pm_shape pm" for s
    using i(1) by (cases s) (auto simp: ev split: if_splits)
  moreover have "pm_wf h pm" "pm_indexed pm = indexed_default" using st by (auto simp: pm_step_def demo_shapes)
  ultimately show thesis
    using st(2) that unfolding length_only_def by blast
qed

lemma length_only_ok:
  assumes pm: "length_only (ow_shapes w) (ob_properties ob)" and o: "ow_objects w = [0 \<mapsto> ob]"
    and v: "ob_vtable ob = OrdinaryMethods \<or> ob_vtable ob = ArrayMethods"
  shows "world_ok w" "plain w" "room w 0"
    "stored_property w 0 k = (if k = length_key then Some (length_descriptor_at (VInteger32 0) True) else None)"
proof -
  note pmD = length_onlyD(1-6) [OF pm]
  have g: "indexed_get indexed_default i = None" for i by (simp add: indexed_default_def vec_get_def)
  have pr: "proto_of w a = None" for a
    using pmD by (simp add: proto_of_def object_proto_def object_shape_def o)
  have "world_wf w"
    using pmD v by (auto simp: world_wf_def object_wf_def g object_proto_def object_shape_def o split: if_splits)
  moreover show "plain w" using v by (auto simp: plain_def o split: if_splits)
  moreover have "wf (proto_order w)" by (simp add: proto_order_def pr)
  ultimately show "world_ok w" by (simp_all add: world_ok_def)
  have "stored_property w 0 (PKIndex i) = None" for i
    using pmD by (simp add: stored_property_def pm_get_def g o)
  then show "stored_property w 0 k = (if k = length_key then Some (length_descriptor_at (VInteger32 0) True) else None)"
    using pmD pm_get_spec [of "ow_shapes w" "ob_properties ob" k] by (cases k) (auto simp: stored_property_def o)
  show "room w 0" using pmD by (simp add: room_def o)
qed

lemma length_only_array:
  assumes "length_only (ow_shapes w) (ob_properties ob)" "ow_objects w = [0 \<mapsto> ob]" "ob_vtable ob = ArrayMethods"
  shows "array_at w 0 0 True"
proof -
  note nm = length_only_ok(4) [OF assms(1,2)]
  show ?thesis
    unfolding array_at_def property_view_def nm [OF disjI2 [OF assms(3)]]
    by (auto simp: desc_lang_def length_view_def fully_populated_def assms(2,3) split: if_splits)
qed

lemma demo_array_world:
  obtains w :: object_world and E :: "(object_world, entries) engine" and pm
  where "world_ok w" "array_at w 0 0 True" "room w 0" "array_template E (ow_shapes w)"
    "index_map_laws (en_index_map E)" "ow_objects w = [0 \<mapsto> demo_array pm]" "plain w"
proof -
  obtain h pm where pm: "length_only h pm" by (rule demo_array_properties)
  let ?w = "\<lparr>ow_objects = [0 \<mapsto> demo_array pm], ow_shapes = h\<rparr>" and ?E = "demo_engine\<lparr>en_array_shape := pm_shape pm\<rparr>"
  have "array_template ?E h" "index_map_laws (en_index_map ?E)"
    using length_onlyD(3) [OF pm] by (simp_all add: array_template_def)
  then show thesis 
    using that [of ?w ?E pm] length_only_ok [of ?w "demo_array pm"] length_only_array [of ?w "demo_array pm"] pm
    by (simp add: demo_array_def)
qed

section \<open>Properties\<close>

text \<open>C15
  Over any sequence of calls of the methods that change objects, on this array and on others, in which
  none runs into the defect of the rollback (\<open>object_step E True\<close>: no named property is deleted, or
  changes its width, on a shared shape where, since that property was added, the attributes of one
  that was not the last were changed) and lengths are asked for by values that convert without effect, an array stays one: it has a length
  that is not enumerable and not configurable, every element has an index below the length, and a
  length that is not writable never becomes writable.
\<close>
theorem arrays_stay_arrays:
  assumes "index_map_laws (en_index_map E)" "(object_step E True)\<^sup>*\<^sup>* w w'" "world_ok w" "array_at w a n b"
  shows "\<exists>n' b'. array_at w' a n' b' \<and> (b' \<longrightarrow> b)"
proof -
  have "world_ok w' \<and> (\<exists>n' b'. array_at w' a n' b' \<and> (b' \<longrightarrow> b))"
    using assms(2)
  proof (induction rule: rtranclp_induct)
    case base
    then show ?case using assms(3,4) by blast
  next
    case (step w1 w2)
    then show ?case
      using object_step_result [OF assms(1)] array_at_step [OF assms(1)] unfolding step_result_def by meson
  qed
  then show ?thesis by blast
qed

theorem arrays_stay_arrays_witness:
  "\<exists>(E :: (object_world, entries) engine) w w1 w2 n. (object_step E True)\<^sup>*\<^sup>* w w1 \<and> (object_step E True)\<^sup>*\<^sup>* w1 w2 \<and>
     w2 \<noteq> w1 \<and> array_at w 0 0 True \<and> array_at w1 0 5 False \<and> array_at w2 0 n False"
proof -
  obtain w :: object_world and E :: "(object_world, entries) engine" and pm where
    w: "world_ok w" "array_at w 0 0 True" "room w 0" "array_template E (ow_shapes w)" "index_map_laws (en_index_map E)"
      "ow_objects w = [0 \<mapsto> demo_array pm]"
    by (rule demo_array_world) blast
  let ?d = "data_property (VInteger32 5) False False False"
  have v: "pd_value ?d = Some (VInteger32 5)" "to_number (en_conversions E) (VInteger32 5) w = Some (Inr (f64_of_i32 5), w)"
    by (simp_all add: desc_simps to_number.simps run_return_def)
  have l: "f64_eq (number_u32 5) (f64_of_i32 5)" "f64_to_uint32 (f64_of_i32 5) = 5" "length_settable 0 True ?d 5"
    by (simp_all add: number_u32_of_i32 f64_i32_finite f64_to_uint32_of_i32 f64_eq_def length_settable_def desc_simps)
  have dw: "pd_writable ?d = Some False" by (simp add: desc_simps)
  from array_set_length_run [OF w(5,1,2,3) v, of slot_new] l dw obtain q w1 s1 m where
    r: "define_own_property E 0 length_key ?d (w, slot_new) = Some (Inr q, (w1, s1))" "shrunk w 0 5 m" "array_at w1 0 m False"
      "array_step w 0 w1" by (auto simp: define_length_run [OF w(1,2)])
  have "\<not> element_fixed w 0 i" for i using w(2) by (auto simp: array_at_def element_fixed_def)
  then have m: "m = 5" using r(2) by (auto simp: shrunk_def)
  have "valid_key length_key" "length_key = length_key \<and> pure_length E w ?d"
    using v by (auto simp: pure_length_def valid_key_def)
  then have s1: "object_step E True w w1" by (intro object_step.defining_in_array [OF w(2-4) _ _ r(1)]) auto
  have ok1: "world_ok w1" using object_step_result [OF w(5) s1 w(1)] by (simp add: step_result_def)
  obtain ob where o: "ow_objects w1 0 = Some ob" using r(3) by (auto simp: array_at_def)
  let ?w = "w1\<lparr>ow_objects := (ow_objects w1)(0 \<mapsto> ob\<lparr>ob_extensible := False\<rparr>)\<rparr>"
  have e: "ob_extensible ob" using r(4) w(6) o by (auto simp: array_step_def demo_array_def)
  have "plain w1" using ok1 by (simp add: world_ok_def)
  then have s2: "(object_step E True)\<^sup>*\<^sup>* w1 ?w"
    by (intro r_into_rtranclp object_step.preventing [OF o]) (simp add: prevent_extensions_run [OF _ o])
  have "ow_objects ?w 0 \<noteq> ow_objects w1 0" using o e by (cases ob) simp
  then have "?w \<noteq> w1" by metis
  with arrays_stay_arrays [OF w(5) s2 ok1 r(3)] s1 s2 w(2) r(3) m show ?thesis by (metis (full_types) r_into_rtranclp)
qed

text \<open>C16
  Defining the length of an array with a value whose conversion to a number \<open>c\<close> has no effect, as that of
  every primitive: an error of the conversion, the TypeError of symbols and BigInts, is thrown, and
  a RangeError when the number is not an integer from 0 below \<open>2 ^ 32\<close>, NaN included; both change
  nothing. Otherwise it is refused, changing nothing, when the descriptor asks for what the
  length may not become. When not, the elements are deleted from the end down to the length \<open>l\<close>
  asked for or to the last one that cannot be deleted; what remains is the length \<open>m\<close>, and the
  answer tells whether it is the one asked for. All else stays.
\<close>
theorem array_set_length_spec:
  assumes "index_map_laws (en_index_map E)" "world_ok w" "array_at w a n b" "room w a"
    and "pd_value desc = Some v" "to_number (en_conversions E) v w = Some (c, w)"
  shows "case c of
      Inl e \<Rightarrow> define_own_property E a length_key desc (w, s) = Some (Inl e, (w, s))
    | Inr x \<Rightarrow>
        (let l = f64_to_uint32 x in
         if f64_eq (number_u32 l) x then
           \<exists>q w' s'. define_own_property E a length_key desc (w, s) = Some (Inr q, (w', s')) \<and> step_result True w w' \<and>
             frame w a w' \<and>
             (if length_settable n b desc l then
                \<exists>m. shrunk w a l m \<and> q = (m = l) \<and> elements_cut w a m w' \<and>
                  array_at w' a m (b \<and> pd_writable desc \<noteq> Some False)
              else \<not> q \<and> w' = w)
         else define_own_property E a length_key desc (w, s) = Some (Inl RangeError, (w, s)))"
proof (cases c)
  case (Inl e)
  then show ?thesis
    using array_set_length_error [OF assms(5)] assms(6) by (simp add: define_length_run [OF assms(2,3)])
next
  case (Inr x)
  from array_set_length_run [OF assms(1-5) assms(6) [unfolded Inr], of s] Inr show ?thesis
    unfolding define_length_run [OF assms(2,3)] array_step_def Let_def by (auto split: if_splits)
qed

theorem array_set_length_spec_witness:
  "\<exists>(E :: (object_world, entries) engine) w w' s'.
     define_own_property E 0 length_key (data_property (VInteger32 5) True False False) (w, slot_new) = Some (Inr True, (w', s')) \<and>
     array_at w 0 0 True \<and> array_at w' 0 5 True \<and>
     define_own_property E 0 length_key (data_property VUndefined True False False) (w, slot_new) = Some (Inl RangeError, (w, slot_new)) \<and>
     define_own_property E 0 length_key (data_property (VBigInt 5) True False False) (w, slot_new) = Some (Inl TypeError, (w, slot_new))"
proof -
  obtain w :: object_world and E :: "(object_world, entries) engine" and pm where
    w: "world_ok w" "array_at w 0 0 True" "room w 0" "index_map_laws (en_index_map E)"
    by (rule demo_array_world) blast
  let ?d = "\<lambda>v. data_property v True False False"
  have d: "pd_value (?d v) = Some v" "length_settable 0 True (?d v) 5" "pd_writable (?d v) \<noteq> Some False" for v
    by (simp_all add: length_settable_def desc_simps)
  note spec = array_set_length_spec [OF w(4,1,2,3) d(1), of _ _ slot_new]
  have c: "to_number (en_conversions E) (VInteger32 5) w = Some (Inr (f64_of_i32 5), w)"
    "to_number (en_conversions E) VUndefined w = Some (Inr f64_NAN, w)"
    "to_number (en_conversions E) (VBigInt 5) w = Some (Inl TypeError, w)"
    by (simp_all add: to_number.simps run_return_def run_throw_def)
  have "f64_eq (number_u32 5) (f64_of_i32 5)" "f64_to_uint32 (f64_of_i32 5) = 5"
    by (simp_all add: number_u32_of_i32 f64_i32_finite f64_to_uint32_of_i32 f64_eq_def)
  with spec [OF c(1)] d(2,3) obtain q w' s' m where
    r: "define_own_property E 0 length_key (?d (VInteger32 5)) (w, slot_new) = Some (Inr q, (w', s'))" "shrunk w 0 5 m" "q = (m = 5)"
      "array_at w' 0 m True" by (auto simp: Let_def)
  have "\<not> element_fixed w 0 i" for i using w(2) by (auto simp: array_at_def element_fixed_def)
  then have "m = 5" using r(2) by (auto simp: shrunk_def)
  then have "define_own_property E 0 length_key (?d (VInteger32 5)) (w, slot_new) = Some (Inr True, (w', s'))" "array_at w' 0 5 True"
    using r by simp_all
  with w(2) spec [OF c(2)] spec [OF c(3)] show ?thesis by (auto simp: f64_eq_def Let_def)
qed

text \<open>C17
  Defining an element of an array, by the short way for arrays with the template shape or by the full
  one, does to the element what defining it in an ordinary object would do, and makes the length one
  more than the index when it was not more. It is refused, changing nothing, when the length would have
  to grow and is not writable.
\<close>
theorem array_element_spec:
  assumes "index_map_laws (en_index_map E)" "world_ok w" "array_at w a n b" "room w a"
    and "i \<noteq> u32_MAX" "array_template E (ow_shapes w)"
  shows "\<exists>q w' s'. define_own_property E a (PKIndex i) desc (w, s) = Some (Inr q, (w', s')) \<and>
    step_result True w w' \<and> frame w a w' \<and>
    (if n \<le> i \<and> \<not> b then \<not> q \<and> w' = w
     else
       (\<exists>w1. define_result w a (PKIndex i) desc q w1 \<and>
          (\<forall>k. k \<noteq> length_key \<longrightarrow> property_view w' a k = property_view w1 a k)) \<and>
       (\<not> q \<longrightarrow> w' = w) \<and> array_at w' a (if q \<and> n \<le> i then i + 1 else n) b)"
  using define_element_run [OF assms, of desc s] unfolding array_step_def element_defined_def by blast

theorem array_element_spec_witness:
  "\<exists>(E :: (object_world, entries) engine) w w' s'.
     define_own_property E 0 (PKIndex 3) (data_property VNull True True True) (w, slot_new) = Some (Inr True, (w', s')) \<and>
     array_at w 0 0 True \<and> array_at w' 0 4 True"
proof -
  obtain w :: object_world and E :: "(object_world, entries) engine" and pm where
    w: "world_ok w" "array_at w 0 0 True" "room w 0" "array_template E (ow_shapes w)" "index_map_laws (en_index_map E)"
      "ow_objects w = [0 \<mapsto> demo_array pm]"
    by (rule demo_array_world) blast
  let ?d = "data_property VNull True True True"
  have i: "3 \<noteq> u32_MAX" by (simp add: u32_MAX_def)
  have o: "ow_objects w 0 = Some (demo_array pm)" "own_property w 0 (PKIndex 3) = None" "ob_extensible (demo_array pm)"
    using w(2) by (auto simp: w(6) own_property_ordinary demo_array_def array_at_def)
  from array_element_spec [OF w(5,1,2,3) i w(4), of ?d slot_new] obtain q w1 w' s' where
    r: "define_own_property E 0 (PKIndex 3) ?d (w, slot_new) = Some (Inr q, (w', s'))" "define_result w 0 (PKIndex 3) ?d q w1"
      "array_at w' 0 (if q then 3 + 1 else 0) True" by auto
  have "q" using r(2) o by (simp add: define_result_def)
  with r w(2) show ?thesis by auto
qed

end
