(* ===== verification/InlineCacheProperties.thy ===== *)
theory InlineCacheProperties
  imports InlineCacheFacts ArrayProperties
begin

text \<open>
  Properties of the inline caches: a read through a cache is \<open>[[Get]]\<close>, caches stay right, and the
  cases in which they do not.
\<close>

section \<open>Reading through a cache\<close>

lemma length_name: "property_key_of_string length_string = length_key"
  by (simp add: length_string_def property_key_of_string_def parse_u32_index_def MAX_CHAR_COUNT_def CHAR_ZERO_def CHAR_NINE_def to_digit_def)

lemma array_length_first:
  assumes w: "world_wf w" "plain w" and a: "ow_objects w a = Some ob"
    and s: "data_slot w a length_key sl" "sl_index sl = 0"
  shows "\<exists>v. object_load a 0 w = Some (Inr v, w) \<and> property_context_new (get E a length_key receiver) w = Some (Inr v, w)"
proof -
  have k: "\<not> is_index_key length_key" by simp
  from data_slot_load [OF w(1) s(1) k] s(2) obtain v where
    v: "object_load a 0 w = Some (Inr v, w)" "stored_property w a length_key = Some (descriptor_of (sl_attributes sl) [v])" by auto
  have "own_property w a length_key = Some (descriptor_of (sl_attributes sl) [v])" using v(2) by (simp add: own_property_named)
  note inh = inherits.own [OF this, of slot_new]
  have "ow_objects w a \<noteq> None" using a by simp
  from get_inherits [OF w inh this, of E receiver] s(1)
  have "get E a length_key receiver (w, slot_new) = Some (Inr v, (w, own_slot w a length_key slot_new))"
    by (simp add: read_descriptor_def descriptor_of_def data_slot_def run_return_def)
  then show ?thesis using v(1) by (simp add: property_context_new_eq)
qed

section \<open>An array and a cache\<close>

definition demo_vm_engine :: "('x vm_world_scheme, entries) vm_engine" where
  "demo_vm_engine = engine.extend demo_engine
     (let i = \<lparr>pi_prototype = 0, pi_template = Unique 0\<rparr> in
      vm_engine.fields i i i i i (\<lambda>_. OtherData 0) (\<lambda>_. 0) (\<lambda>_. []) (\<lambda>_. []))"

definition length_cache :: inline_cache where
  "length_cache =
     \<lparr>ic_name = length_string,
      ic_entries = [\<lparr>ce_shape = Unique 0, ce_prototype_shape = None, ce_slot = array_length_slot\<rparr>],
      ic_megamorphic = False\<rparr>"

definition demo_vm :: "shape_heap \<Rightarrow> js_object \<Rightarrow> vm_world" where
  "demo_vm h ob =
     \<lparr>ow_objects = [0 \<mapsto> ob], ow_shapes = h, vw_ic = [length_cache],
      vw_element_ic = [element_ic_seed (Unique 0) KindDenseI32], vw_strict = True\<rparr>"

lemma demo_vm_engine [simp]:
  "index_map_laws (en_index_map demo_vm_engine)" "en_call demo_vm_engine f this args w = Some (Inr VUndefined, w)"
  by (simp_all add: demo_vm_engine_def engine.defs vm_engine.defs Let_def demo_engine_def list_index_map_laws run_return_def)

lemma demo_calls_keep: "calls_keep demo_vm_engine"
  by (simp add: calls_keep_def)

lemma demo_vm_fields [simp]:
  "ow_objects (demo_vm h ob) = [0 \<mapsto> ob]" "ow_shapes (demo_vm h ob) = h" "vw_ic (demo_vm h ob) = [length_cache]"
  "vw_element_ic (demo_vm h ob) = [element_ic_seed (Unique 0) KindDenseI32]"
  by (simp_all add: demo_vm_def)

lemma demo_vm_ok:
  assumes "length_only h (ob_properties ob)" "ob_vtable ob = OrdinaryMethods \<or> ob_vtable ob = ArrayMethods"
  shows "world_ok (demo_vm h ob)" "plain (demo_vm h ob)" "room (demo_vm h ob) 0"
    "ob_vtable ob = ArrayMethods \<Longrightarrow> array_at (demo_vm h ob) 0 0 True"
    "own_property (demo_vm h ob) 0 length_key = Some (length_descriptor_at (VInteger32 0) True)"
  using length_only_ok [of "demo_vm h ob" ob] length_only_array [of "demo_vm h ob" ob] assms
  by (simp_all add: own_property_named)

lemma demo_length:
  assumes "length_only h (ob_properties ob)"
  shows "data_slot (demo_vm h ob) 0 length_key array_length_slot" "sl_index array_length_slot = 0"
    "\<not> is_accessor_attributes (sl_attributes array_length_slot)" "flags_contains (sl_attributes array_length_slot) SLOT_WRITABLE"
    "clean_slots h" "cache_sound h length_cache"
    "ic_get (demo_vm h ob) length_cache (object_shape ob) = Some (Some array_length_slot)"
proof -
  let ?pm = "ob_properties ob"
  note pm = length_onlyD [OF assms]
  show at: "sl_index array_length_slot = 0" "\<not> is_accessor_attributes (sl_attributes array_length_slot)"
    "flags_contains (sl_attributes array_length_slot) SLOT_WRITABLE"
    by (simp_all add: is_accessor_attributes_def flags_contains_def mask_simps)
  show "data_slot (demo_vm h ob) 0 length_key array_length_slot"
    using at pm(3) by (simp add: data_slot_def object_shape_def)
  show "clean_slots h"
    unfolding clean_slots_def
  proof (intro allI impI)
    fix s key sl assume s: "shape_valid h s" "shape_lookup h s key = Some (Some sl)"
    have "position key (pm_entries h ?pm) \<noteq> None" using s pm(7) [OF s(1)] pm_lookup [OF pm(1), of key] by auto
    then have "key \<in> set (map fst (pm_named h ?pm))" using pm_named_keys [of h ?pm] by (simp add: position_None)
    then have "key = length_key" by (simp add: pm(2))
    then show "sl_attributes sl AND SLOT_INLINE_CACHE_BITS = 0"
      using s(2) pm(3) pm(7) [OF s(1)] by (auto simp: mask_simps)
  qed
  have "shape_valid h (pm_shape ?pm)" using pm(1) by (simp add: pm_wf_def)
  then have "entry_sound h length_key \<lparr>ce_shape = pm_shape ?pm, ce_prototype_shape = None, ce_slot = array_length_slot\<rparr>"
    using pm(3) by (simp add: entry_sound_def leads_to_def same_slot_def flags_contains_def mask_simps)
  then show "cache_sound h length_cache"
    using pm(8) by (simp add: cache_sound_def length_cache_def length_name)
  show "ic_get (demo_vm h ob) length_cache (object_shape ob) = Some (Some array_length_slot)"
    using pm(8,9) by (simp add: ic_get_def length_cache_def cache_entry_matches_def object_shape_def)
qed

lemma demo_length_inherits:
  assumes "length_only h (ob_properties ob)" "ob_vtable ob = OrdinaryMethods \<or> ob_vtable ob = ArrayMethods"
    "inherits (demo_vm h ob) length_key 0 s (Some d) s'"
  shows "pd_kind d = Data (Some (VInteger32 0)) (Some True)"
  using demo_vm_ok(5) [OF assms(1,2)] assms(3) by (auto elim: inheritsE)

lemma demo_length_object:
  obtains h and ob :: js_object where "length_only h (ob_properties ob)" "ob_vtable ob = v" "ob_extensible ob"
proof -
  obtain h pm where "length_only h pm" by (rule demo_array_properties)
  then show thesis by (intro that [of h "(demo_array pm)\<lparr>ob_vtable := v\<rparr>"]) (simp_all add: demo_array_def)
qed

text \<open>An object with a shared shape and one property, and a cache for that.\<close>

lemma root_proto: "fst root_shape = Shared a \<Longrightarrow> shared_proto (snd root_shape) a = None"
  by (auto simp: root_shape_def shared_root_def Let_def shared_proto_def alloc_table_def alloc_shared_def gc_collect_def
      sh_empty_def)

lemma demo_shared_world:
  obtains h b and v :: js_value and w :: object_world and ob where
    "world_ok w" "ow_objects w = [0 \<mapsto> ob]" "ob_extensible ob" "ow_shapes w = h" "object_shape ob = Shared b"
    "shape_lookup h (Shared b) length_key = Some (Some array_length_slot)"
proof -
  obtain a where a: "fst root_shape = Shared a" by (cases "shared_root (sh_empty (\<lambda>_ _. False))") (simp add: root_shape_def)
  have r: "sh_shared (snd root_shape) a \<noteq> None" "shared_entries (snd root_shape) a = []"
    using root_shape_wf(2,3) by (simp_all add: a)
  from shared_insert_property_step [OF root_shape_wf(1) r(1), of "tkey length_key 1"] r(2) obtain b h where
    "shared_step (snd root_shape) h b [(length_key, 1)] (shared_proto (snd root_shape) a)" by auto
  note b = shared_stepD [OF this]
  have p: "shared_proto h b = None"
    using b(5) root_proto [OF a] by simp
  let ?pm = "\<lparr>pm_indexed = indexed_default, pm_shape = Shared b, pm_storage = [VNull]\<rparr>"
  let ?w = "\<lparr>ow_objects = [0 \<mapsto> demo_object ?pm], ow_shapes = h\<rparr>"
  have l: "shape_lookup h (Shared b) length_key = Some (Some array_length_slot)"
    using shape_lookup_spec [OF b(1), of "Shared b" length_key] b(3,4)
    by (simp add: lookup_spec_def slot_at_def mask_simps del: shape_lookup.simps)
  have "pm_wf h ?pm"
    using b by (simp add: pm_wf_def pm_entries_def key_widths_def indexed_default_def attributes_width_def
        is_accessor_attributes_def flags_contains_def mask_simps)
  moreover have "proto_of ?w c = None" for c
    by (simp add: proto_of_def object_proto_def demo_object_def object_shape_def p)
  ultimately have "world_ok ?w"
    by (auto simp: world_ok_def world_wf_def object_wf_def demo_object_def object_proto_def object_shape_def plain_def
        proto_order_def p indexed_default_def vec_get_def split: if_splits)
  with l show thesis by (intro that [of ?w "demo_object ?pm" h b]) (simp_all add: demo_object_def object_shape_def)
qed

section \<open>Properties\<close>

text \<open>C21
  Reading a property of an object by name, with or without \<open>length\<close> singled out, is \<open>[[Get]]\<close> with
  the receiver, whatever the cache of the site holds, as long as its entries are right: the same value
  or exception and the same effects, but for the caches.
\<close>
theorem cached_read_is_get:
  fixes E :: "('x vm_world_scheme, 'm, 'e) vm_engine_scheme"
  assumes "world_ok w" "ow_objects w a = Some ob" "i < length (vw_ic w)" "cache_sound (ow_shapes w) (vw_ic w ! i)"
    and "calls_keep E" "key = property_key_of_string (ic_name (vw_ic w ! i))"
    and "\<And>s d s'. inherits w key a s (Some d) s' \<Longrightarrow> accessor_ok d"
    and "of_length \<Longrightarrow> ic_name (vw_ic w ! i) = length_string \<and>
      (ob_vtable ob = ArrayMethods \<longrightarrow> (\<exists>sl. data_slot w a length_key sl \<and> sl_index sl = 0))"
  shows "forget_caches (read_by_name_op E of_length receiver (VObject a) i w) =
    forget_caches (property_context_new (get E a key receiver) w)"
proof -
  have w: "world_wf w" "plain w" "wf (proto_order w)" using assms(1) by (simp_all add: world_ok_def)
  have i: "vec_get (vw_ic w) i = Some (vw_ic w ! i)" using assms(3) by (simp add: vec_get_def)
  have acc: "\<forall>s d s'. inherits w key a s (Some d) s' \<longrightarrow> accessor_ok d" using assms(7) by blast
  note tr = try_ic_read_run [OF w(1,2) assms(2) i assms(4), folded assms(6), OF acc, of E receiver]
  obtain r s' where inh: "inherits w key a slot_new r s'" using inherits_total [OF w(1,3)] by blast
  note miss = get_by_name_miss_run(1) [OF assms(1,2,3,5,6) inh, of receiver]
  have g: "forget_caches (get_by_name E False (VObject a) receiver i w) =
      forget_caches (property_context_new (get E a key receiver) w)"
    using tr miss by (auto split: option.splits)
  have l: "forget_caches (get_by_name E of_length (VObject a) receiver i w) =
      forget_caches (property_context_new (get E a key receiver) w)"
  proof (cases "of_length \<and> ob_vtable ob = ArrayMethods")
    case True
    with assms(8) obtain sl where sl: "data_slot w a length_key sl" "sl_index sl = 0"
      and k: "key = length_key" by (auto simp: assms(6) length_name)
    from array_length_first [OF w(1,2) assms(2) sl, of E receiver] True show ?thesis
      by (auto simp: get_by_name_def k run_bind_cases(1) is_array_def object_borrow_bind assms(2) run_return_def)
  next
    case False
    then have "get_by_name E of_length (VObject a) receiver i w = get_by_name E False (VObject a) receiver i w"
      by (auto simp: get_by_name_def run_bind_cases(1) is_array_def object_borrow_bind assms(2) run_return_def)
    with g show ?thesis by simp
  qed
  obtain q where q: "ic_get w (vw_ic w ! i) (object_shape ob) = Some q" using ic_get_total [OF w(1) assms(2)] by blast
  from tr q have "try_ic_read_no_getter (VObject a) i w = Some (Inr None, w) \<or>
      (\<exists>v. try_ic_read_no_getter (VObject a) i w = Some (Inr (Some v), w) \<and>
         property_context_new (get E a key receiver) w = Some (Inr v, w))"
    by (auto split: option.splits)
  then show ?thesis
    using l by (auto simp: read_by_name_op_def run_bind_cases(1) run_return_def)
qed

theorem cached_read_is_get_witness:
  "\<exists>h ob. ob_vtable ob = ArrayMethods \<and>
     forget_caches (read_by_name_op demo_vm_engine True VNull (VObject 0) 0 (demo_vm h ob)) =
       forget_caches (property_context_new (get demo_vm_engine 0 length_key VNull) (demo_vm h ob))"
proof -
  obtain h and ob :: js_object where ob: "length_only h (ob_properties ob)" "ob_vtable ob = ArrayMethods" by (rule demo_length_object) blast
  note v = disjI2 [OF ob(2), of "ob_vtable ob = OrdinaryMethods"]
  note d = demo_vm_ok [OF ob(1) v] demo_length [OF ob(1)]
  have "forget_caches (read_by_name_op demo_vm_engine True VNull (VObject 0) 0 (demo_vm h ob)) =
      forget_caches (property_context_new (get demo_vm_engine 0 length_key VNull) (demo_vm h ob))"
  proof (rule cached_read_is_get [OF d(1)])
    show "accessor_ok x" if "inherits (demo_vm h ob) length_key 0 s (Some x) s'" for s x s'
      using demo_length_inherits [OF ob(1) v that] by (simp add: accessor_ok_def)
  qed (use d demo_calls_keep in \<open>auto simp: length_name length_cache_def\<close>)
  with ob(2) show ?thesis by blast
qed

text \<open>
  A read of a property that is no accessor leaves every cache of the code with right entries, the new
  one that it may put in included: only a property of the object or of its direct prototype is put
  in, under the shapes it was found with.
\<close>
theorem cached_read_keeps_caches:
  fixes E :: "('x vm_world_scheme, 'm, 'e) vm_engine_scheme"
  assumes "world_ok w" "ow_objects w a = Some ob" "i < length (vw_ic w)"
    and "\<And>j. j < length (vw_ic w) \<Longrightarrow> cache_sound (ow_shapes w) (vw_ic w ! j)"
    and "calls_keep E" "key = property_key_of_string (ic_name (vw_ic w ! i))" "clean_slots (ow_shapes w)"
    and "\<And>s d s' g t. inherits w key a s (Some d) s' \<Longrightarrow> pd_kind d \<noteq> Accessor g t"
  shows "\<exists>v caches. read_by_name_op E False receiver (VObject a) i w = Some (Inr v, w\<lparr>vw_ic := caches\<rparr>) \<and>
    length caches = length (vw_ic w) \<and>
    (\<forall>j < length caches. cache_sound (ow_shapes w) (caches ! j) \<and> ic_name (caches ! j) = ic_name (vw_ic w ! j))"
proof -
  have w: "world_wf w" "plain w" "wf (proto_order w)" using assms(1) by (simp_all add: world_ok_def)
  have i: "vec_get (vw_ic w) i = Some (vw_ic w ! i)" using assms(3) by (simp add: vec_get_def)
  have acc: "\<forall>s d s'. inherits w key a s (Some d) s' \<longrightarrow> accessor_ok d"
    using assms(8) by (simp add: accessor_ok_def)
  note tr = try_ic_read_run [OF w(1,2) assms(2) i assms(4) [OF assms(3)], folded assms(6), OF acc, of E receiver]
  obtain r s' where inh: "inherits w key a slot_new r s'" using inherits_total [OF w(1,3)] by blast
  have na: "\<not> (\<exists>d g s. r = Some d \<and> pd_kind d = Accessor g s)" using assms(8) inh by blast
  from get_by_name_miss_run(2) [OF assms(1,2,3,5,6) inh na, of receiver] obtain v w' where
    m: "get_by_name_miss E (VObject a) receiver i w = Some (Inr v, w')"
      "property_context_new (get E a key receiver) w = Some (Inr v, w)"
      "w' = w \<or> slot_is_cacheable s' \<and>
          (\<exists>ic'. ic_set w (vw_ic w ! i) (object_shape ob) s' = Some ic' \<and> w' = w\<lparr>vw_ic := (vw_ic w)[i := ic']\<rparr>)" by blast
  have kept: "\<exists>caches. w' = w\<lparr>vw_ic := caches\<rparr> \<and> length caches = length (vw_ic w) \<and>
    (\<forall>j < length caches. cache_sound (ow_shapes w) (caches ! j) \<and> ic_name (caches ! j) = ic_name (vw_ic w ! j))"
    using m(3)
  proof
    assume "w' = w"
    then show ?thesis using assms(4) by (intro exI [of _ "vw_ic w"]) simp
  next
    assume "slot_is_cacheable s' \<and>
          (\<exists>ic'. ic_set w (vw_ic w ! i) (object_shape ob) s' = Some ic' \<and> w' = w\<lparr>vw_ic := (vw_ic w)[i := ic']\<rparr>)"
    then obtain ic' where c: "slot_is_cacheable s'" "ic_set w (vw_ic w ! i) (object_shape ob) s' = Some ic'"
      "w' = w\<lparr>vw_ic := (vw_ic w)[i := ic']\<rparr>" by blast
    from ic_set_sound [OF w(1) assms(7,2) inh [unfolded assms(6)] c(1) assms(4) [OF assms(3)] c(2)]
    have "cache_sound (ow_shapes w) ic'" "ic_name ic' = ic_name (vw_ic w ! i)" by blast+
    then have "cache_sound (ow_shapes w) ((vw_ic w)[i := ic'] ! j) \<and> ic_name ((vw_ic w)[i := ic'] ! j) = ic_name (vw_ic w ! j)"
      if "j < length (vw_ic w)" for j
      using assms(4) [OF that] that by (cases "j = i") simp_all
    then show ?thesis using c(3) by (intro exI [of _ "(vw_ic w)[i := ic']"]) simp
  qed
  have same: "\<exists>caches. w = w\<lparr>vw_ic := caches\<rparr> \<and> length caches = length (vw_ic w) \<and>
    (\<forall>j < length caches. cache_sound (ow_shapes w) (caches ! j) \<and> ic_name (caches ! j) = ic_name (vw_ic w ! j))"
    using assms(4) by (intro exI [of _ "vw_ic w"]) simp
  obtain q where q: "ic_get w (vw_ic w ! i) (object_shape ob) = Some q" using ic_get_total [OF w(1) assms(2)] by blast
  have "read_by_name_op E False receiver (VObject a) i w = Some (Inr v, w) \<or>
      read_by_name_op E False receiver (VObject a) i w = Some (Inr v, w')"
    using tr q m(1,2) by (auto simp: read_by_name_op_def run_bind_cases(1) run_return_def split: option.splits)
  then show ?thesis using kept same by metis
qed

theorem cached_read_keeps_caches_witness:
  "\<exists>h ob v caches. ob_vtable ob = ArrayMethods \<and>
     read_by_name_op demo_vm_engine False VNull (VObject 0) 0 (demo_vm h ob) = Some (Inr v, (demo_vm h ob)\<lparr>vw_ic := caches\<rparr>) \<and>
     cache_sound h (caches ! 0)"
proof -
  obtain h and ob :: js_object where ob: "length_only h (ob_properties ob)" "ob_vtable ob = ArrayMethods" by (rule demo_length_object) blast
  note v = disjI2 [OF ob(2), of "ob_vtable ob = OrdinaryMethods"]
  note d = demo_vm_ok [OF ob(1) v] demo_length [OF ob(1)]
  have "\<exists>v caches. read_by_name_op demo_vm_engine False VNull (VObject 0) 0 (demo_vm h ob) =
        Some (Inr v, (demo_vm h ob)\<lparr>vw_ic := caches\<rparr>) \<and> length caches = length (vw_ic (demo_vm h ob)) \<and>
      (\<forall>j < length caches. cache_sound (ow_shapes (demo_vm h ob)) (caches ! j) \<and>
        ic_name (caches ! j) = ic_name (vw_ic (demo_vm h ob) ! j))"
  proof (rule cached_read_keeps_caches [OF d(1) _ _ _ demo_calls_keep])
    show "pd_kind x \<noteq> Accessor g t" if "inherits (demo_vm h ob) length_key 0 s (Some x) s'" for s x s' g t
      using demo_length_inherits [OF ob(1) v that] by simp
  qed (use d in \<open>auto simp: length_name length_cache_def\<close>)
  then obtain v caches where "read_by_name_op demo_vm_engine False VNull (VObject 0) 0 (demo_vm h ob) =
      Some (Inr v, (demo_vm h ob)\<lparr>vw_ic := caches\<rparr>)" "cache_sound h (caches ! 0)" by auto
  with ob(2) show ?thesis by blast
qed

text \<open>C22
  Entries for shared shapes stay right whatever the methods of objects do: a shared shape never changes
  its meaning.
\<close>
theorem shared_entries_stay_right:
  assumes "index_map_laws (en_index_map E)" "(\<lambda>w w'. \<exists>f. object_step E f w w')\<^sup>*\<^sup>* w w'" "world_ok w"
    and "ow_objects w a = Some ob" "cache_sound (ow_shapes w) ic"
    and "\<And>e. e \<in> set (ic_entries ic) \<Longrightarrow> (\<exists>s. ce_shape e = Shared s) \<and> (\<forall>p. ce_prototype_shape e = Some p \<longrightarrow> (\<exists>s. p = Shared s))"
  shows "cache_sound (ow_shapes w') ic"
proof -
  have st: "world_ok w' \<and> shared_kept (ow_shapes w) (ow_shapes w') \<and> object_kept w w' a"
    using assms(2)
  proof (induction rule: rtranclp_induct)
    case base
    then show ?case using assms(3) by simp
  next
    case (step w1 w2)
    then obtain f where "object_step E f w1 w2" by blast
    from object_step_result [OF assms(1) this] step.IH have "step_result f w1 w2" by blast
    with step.IH show ?case using shared_kept_trans object_kept_trans unfolding step_result_def by blast
  qed
  then obtain ob' where "ow_objects w' a = Some ob'" using assms(4) unfolding object_kept_def by blast
  then have wf: "shapes_wf (ow_shapes w)" "shapes_wf (ow_shapes w')"
    using assms(3,4) st world_wfD(4) by (auto simp: world_ok_def)
  have lk: "shape_valid (ow_shapes w') r \<and> shape_lookup (ow_shapes w') r key = shape_lookup (ow_shapes w) r key"
    if "shape_valid (ow_shapes w) r" "r = Shared s" for r s key
    using that st shape_lookup_spec [OF wf(1) that(1)] shape_lookup_spec [OF wf(2), of r]
    unfolding shared_kept_def by (simp del: shape_valid.simps shape_entries.simps shape_lookup.simps)
  show ?thesis
    unfolding cache_sound_def
  proof
    fix e assume e: "e \<in> set (ic_entries ic)"
    let ?key = "property_key_of_string (ic_name ic)"
    from e assms(5) have es: "entry_sound (ow_shapes w) ?key e" by (simp add: cache_sound_def)
    obtain s where s: "ce_shape e = Shared s" using assms(6) [OF e] by blast
    show "entry_sound (ow_shapes w') ?key e"
    proof (cases "ce_prototype_shape e")
      case None
      with es s lk [of "ce_shape e" s] show ?thesis
        by (simp add: entry_sound_def leads_to_def del: shape_valid.simps shape_lookup.simps)
    next
      case (Some p)
      then obtain t where "p = Shared t" using assms(6) [OF e] by blast
      with es Some s lk [of "ce_shape e" s] lk [of p t] show ?thesis
        by (simp add: entry_sound_def leads_to_def del: shape_valid.simps shape_lookup.simps)
    qed
  qed
qed

theorem shared_entries_stay_right_witness:
  "\<exists>(w :: object_world) w' ic ob. object_step demo_engine True w w' \<and> w' \<noteq> w \<and> ow_objects w 0 = Some ob \<and>
     ic_entries ic = [\<lparr>ce_shape = object_shape ob, ce_prototype_shape = None, ce_slot = array_length_slot\<rparr>] \<and>
     cache_sound (ow_shapes w') ic"
proof -
  obtain h b ob and w :: object_world where w: "world_ok w" "ow_objects w = [0 \<mapsto> ob]" "ob_extensible ob" "ow_shapes w = h"
      "object_shape ob = Shared b" "shape_lookup h (Shared b) length_key = Some (Some array_length_slot)"
    by (rule demo_shared_world) blast
  let ?e = "\<lparr>ce_shape = Shared b, ce_prototype_shape = None, ce_slot = array_length_slot\<rparr>"
  let ?ic = "length_cache\<lparr>ic_entries := [?e]\<rparr>" and ?w = "w\<lparr>ow_objects := (ow_objects w)(0 \<mapsto> ob\<lparr>ob_extensible := False\<rparr>)\<rparr>"
  have o: "ow_objects w 0 = Some ob" and p: "plain w" using w(1,2) by (simp_all add: world_ok_def)
  have st: "object_step demo_engine True w ?w"
    by (rule object_step.preventing [OF o]) (simp add: prevent_extensions_run [OF p o])
  then have "\<exists>f. object_step demo_engine f w ?w" by blast
  then have r: "(\<lambda>w w'. \<exists>f. object_step demo_engine f w w')\<^sup>*\<^sup>* w ?w" by blast
  have "shape_valid (ow_shapes w) (Shared b)" using world_wfD(3) w(1,5) o by (metis world_ok_def)
  then have cs: "cache_sound (ow_shapes w) ?ic"
    using w(4,6) by (simp add: cache_sound_def length_cache_def length_name entry_sound_def leads_to_def same_slot_def
        flags_contains_def mask_simps del: shape_lookup.simps shape_valid.simps)
  have "cache_sound (ow_shapes ?w) ?ic"
    by (rule shared_entries_stay_right [OF demo_index_map r w(1) o cs]) (simp_all add: length_cache_def)
  moreover have "ow_objects ?w 0 \<noteq> ow_objects w 0" using o w(3) by (cases ob) simp
  then have "?w \<noteq> w" by metis
  moreover have "ic_entries ?ic = [\<lparr>ce_shape = object_shape ob, ce_prototype_shape = None, ce_slot = array_length_slot\<rparr>]"
    using w(5) by simp
  ultimately show ?thesis using st o by blast
qed

end
