(* ===== verification/OrdinarySet.thy ===== *)
theory OrdinarySet
  imports ObjectProperties
begin

text \<open>
  Assignment: what \<open>[[Set]]\<close> does, from the search on the prototype chain to the change of the receiver.
\<close>

section \<open>The search\<close>

text \<open>What the search ends with: the property found, or one that stands for none, and the slot's marks removed.\<close>


definition default_set_descriptor :: property_descriptor where
  "default_set_descriptor = data_property VUndefined True True True"

definition unmarked :: "slot \<Rightarrow> slot" where
  "unmarked s = s\<lparr>sl_attributes := sl_attributes s AND NOT (SLOT_PROTOTYPE OR SLOT_NOT_CACHEABLE)\<rparr>"

definition set_at ::
  "('x object_world_scheme, 'm, 'e) engine_scheme \<Rightarrow> obj_addr \<Rightarrow> property_key \<Rightarrow> js_value \<Rightarrow> js_value \<Rightarrow>
     property_descriptor option \<Rightarrow> ('x object_world_scheme property_context, bool) run" where
  "set_at E h key v receiver r c =
     (case r of
        Some d \<Rightarrow> ordinary_set_with_own_descriptor E h key v receiver True d c
      | None \<Rightarrow> ordinary_set_with_own_descriptor E h key v receiver False default_set_descriptor (fst c, unmarked (snd c)))"

lemma set_property_inherits:
  assumes "world_wf w" "plain w" "inherits w key a s r s'" "ow_objects w a \<noteq> None"
  shows "\<exists>h. own_property w h key = r \<and> ow_objects w h \<noteq> None \<and>
    set_property E a key v receiver (w, s) = set_at E h key v receiver r (w, s')"
  using assms(3,4)
proof (induction rule: inherits.induct)
  case (own a d s)
  then obtain ob where a: "ow_objects w a = Some ob" by auto
  have "set_property E a key v receiver (w, s) = set_at E a key v receiver (Some d) (w, own_slot w a key s)"
    by (subst set_property.simps) (use own a assms(1,2) in \<open>simp add: method_binds [OF assms(1,2) a] set_at_def\<close>)
  with own a show ?case by blast
next
  case (root a s)
  then obtain ob where a: "ow_objects w a = Some ob" by auto
  have "set_property E a key v receiver (w, s) = set_at E a key v receiver None (w, own_slot w a key s)"
    by (subst set_property.simps)
      (use root a assms(1,2) in \<open>simp add: method_binds [OF assms(1,2) a] proto_of_object slot_modify_bind set_at_def
         unmarked_def default_set_descriptor_def desc_simps\<close>)
  with root a show ?case by blast
next
  case (up a p s r s')
  then obtain ob where a: "ow_objects w a = Some ob" by (auto simp: proto_of_def split: option.splits)
  have "ow_objects w p \<noteq> None" using proto_exists [OF assms(1) up(2)] by blast
  moreover have "set_property E a key v receiver (w, s) = set_property E p key v receiver (w, marked (own_slot w a key s))"
    by (subst set_property.simps)
      (use up(1,2) a assms(1,2) in \<open>simp add: method_binds [OF assms(1,2) a] proto_of_object mark_prototype_bind\<close>)
  ultimately show ?case using up.IH by simp
qed

section \<open>The receiver\<close>

lemma value_change:
  assumes e: "fully_populated e" "is_data_descriptor e" "pd_writable e = Some True"
  shows "allowed_change e (build_value v pd_default)" "\<not> unchanged e (build_value v pd_default)"
    "merged e (build_value v pd_default) = build_value v e" "fully_populated (build_value v e)"
    "is_data_descriptor (build_value v e)"
proof -
  let ?d = "build_value v pd_default"
  have d: "is_data_descriptor ?d" "\<not> is_empty_descriptor ?d" "pd_configurable ?d = None" "pd_enumerable ?d = None"
    by (simp_all add: desc_simps is_empty_descriptor_def)
  show "allowed_change e ?d" "\<not> unchanged e ?d"
    using d e
    by (auto simp: allowed_change_def unchanged_def is_accessor_descriptor_def is_data_descriptor_def split: descriptor_kind.splits)
  obtain n c x where e': "e = \<lparr>pd_enumerable = Some n, pd_configurable = Some c, pd_kind = Data (Some x) (Some True)\<rparr>"
    using e(2,3) by (cases rule: populated_cases [OF e(1)]) (auto simp: is_data_descriptor_def pd_writable_def)
  show "merged e ?d = build_value v e" "fully_populated (build_value v e)" "is_data_descriptor (build_value v e)"
    unfolding e' by (auto simp: merged_def converted_def fill_with_def desc_simps is_data_descriptor_def
        is_generic_descriptor_def fully_populated_def)
qed

lemma define_value_run:
  assumes w: "world_wf w" "plain w" and im: "index_map_laws (en_index_map E)" and a: "ow_objects w a = Some ob"
    and o: "ob_vtable ob \<noteq> StringMethods" "\<not> array_key ob key" and k: "valid_key key" "is_index_key key \<or> room w a"
    and e: "own_property w a key = Some e" "fully_populated e" "is_data_descriptor e" "pd_writable e = Some True"
  shows "\<exists>w' s'. define_own_property E a key (build_value v pd_default) (w, s) = Some (Inr True, (w', s')) \<and>
    changed w a key (Some (desc_lang (build_value v e))) True w'"
proof -
  let ?d = "build_value v pd_default"
  note vc = value_change [OF e(2-4), of v]
  have pop: "\<And>c. own_property w a key = Some c \<Longrightarrow> fully_populated c" using e by simp
  from define_own_property_run [OF w im a o(2) k pop, of ?d s] o(1) obtain b w' s' where
    r: "define_own_property E a key ?d (w, s) = Some (Inr b, (w', s'))" "define_result w a key ?d b w'" by blast
  have "stored_property w a key = Some e" using e(1) own_property_ordinary [OF a o(1)] by simp
  then have "faithful_insert w a key (build_value v e)"
    by (rule faithful_same_kind [OF w(1) _ vc(4)]) (simp add: e(3) vc(5))
  with r vc(1-3) e(1) show ?thesis by (auto simp: define_result_def)
qed

lemma own_property_value:
  assumes "fully_populated d" "is_data_descriptor d"
  shows "pd_writable d \<noteq> None"
  using assms by (auto simp: fully_populated_def is_data_descriptor_def pd_writable_def split: descriptor_kind.splits)

text \<open>The receiver's part: what the assignment does to it once the search has found no obstacle.\<close>

definition assigned ::
  "'x object_world_scheme \<Rightarrow> obj_addr \<Rightarrow> property_key \<Rightarrow> js_value \<Rightarrow> bool \<Rightarrow> 'x object_world_scheme \<Rightarrow> bool" where
  "assigned w c key v b w' \<longleftrightarrow>
     (case own_property w c key of
        None \<Rightarrow>
          (b \<longleftrightarrow> (\<exists>ob. ow_objects w c = Some ob \<and> ob_extensible ob)) \<and>
          (if b then changed w c key (Some (desc_lang (data_property v True True True))) True w' else w' = w)
      | Some e \<Rightarrow>
          (b \<longleftrightarrow> is_data_descriptor e \<and> pd_writable e = Some True) \<and>
          (if b then changed w c key (Some (desc_lang (build_value v e))) True w' else w' = w))"

lemma assign_run:
  assumes w: "world_wf w" "plain w" and im: "index_map_laws (en_index_map E)" and c: "ow_objects w c = Some oc"
    and o: "ob_vtable oc \<noteq> StringMethods" "\<not> array_key oc key" and k: "valid_key key" "is_index_key key \<or> room w c"
    and pop: "\<And>e. own_property w c key = Some e \<Longrightarrow> fully_populated e"
    and h: "is_data_descriptor d" "pd_writable d = Some True" "has \<Longrightarrow> own_property w h key = Some d"
  shows "\<exists>b w' s'. ordinary_set_with_own_descriptor E h key v (VObject c) has d (w, s) = Some (Inr b, (w', s')) \<and>
    assigned w c key v b w'"
proof -
  let ?s = "s\<lparr>sl_attributes := flags_set (sl_attributes s) SLOT_NOT_CACHEABLE (h \<noteq> c)\<rparr>"
  obtain s1 where s1: "run_bind (if has \<and> h = c then run_return (Some d) else get_own_property E c key) f (w, ?s) =
      f (own_property w c key) (w, s1)" for f :: "property_descriptor option \<Rightarrow> ('a object_world_scheme property_context, bool) run"
  proof (cases "has \<and> h = c")
    case True
    then show ?thesis using h(3) by (intro that [of ?s]) (simp add: run_bind_def run_return_def)
  next
    case False
    then show ?thesis
      by (intro that [of "own_slot w c key ?s"]) (simp only: if_not_P [OF False], simp add: run_bind_def get_own_property_run [OF w c])
  qed
  have st: "ordinary_set_with_own_descriptor E h key v (VObject c) has d (w, s) =
      (case own_property w c key of
         Some e \<Rightarrow>
           if is_accessor_descriptor e then Some (Inr False, (w, s1))
           else run_bind (run_unwrap (pd_writable e)) (\<lambda>writable.
                 if \<not> writable then run_return False else define_own_property E c key (build_value v pd_default)) (w, s1)
       | None \<Rightarrow> create_data_property_with_slot E c key v (w, s1))"
    using h(1,2)
    by (simp add: ordinary_set_with_own_descriptor_def ordinary_set_data_def run_unwrap_bind slot_modify_bind Let_def s1
        run_return_def split: option.split)
  show ?thesis
  proof (cases "own_property w c key")
    case None
    have cr: "created (data_property v True True True) = data_property v True True True"
      by (simp add: created_def into_data_defaulted_def desc_simps)
    from define_own_property_run [OF w im c o(2) k pop, of "data_property v True True True" s1] o(1) obtain b w' s' where
      r: "define_own_property E c key (data_property v True True True) (w, s1) = Some (Inr b, (w', s'))"
      and "define_result w c key (data_property v True True True) b w'" by blast
    moreover have "faithful_insert w c key (data_property v True True True)"
      by (rule faithful_absent [OF w(1)]) (use None own_property_ordinary [OF c o(1)] in simp)
    ultimately have "assigned w c key v b w'" unfolding assigned_def define_result_def None cr by auto
    then show ?thesis
      using r None unfolding st by (simp add: create_data_property_with_slot_def data_property_def [symmetric])
  next
    case (Some e)
    show ?thesis
    proof (cases "is_data_descriptor e \<and> pd_writable e = Some True")
      case True
      from define_value_run [OF w im c o k Some pop [OF Some], of v s1] True Some show ?thesis
        unfolding st assigned_def by (auto simp: run_unwrap_bind is_accessor_descriptor_def is_data_descriptor_def split: descriptor_kind.splits)
    next
      case False
      have "is_accessor_descriptor e \<or> \<not> is_accessor_descriptor e \<and> pd_writable e = Some False"
        using pop [OF Some] False
        by (cases rule: populated_cases [OF pop [OF Some]]) (simp_all add: is_accessor_descriptor_def is_data_descriptor_def desc_simps)
      then have "(case own_property w c key of
         Some e \<Rightarrow>
           if is_accessor_descriptor e then Some (Inr False, (w, s1))
           else run_bind (run_unwrap (pd_writable e)) (\<lambda>writable.
                 if \<not> writable then run_return False else define_own_property E c key (build_value v pd_default)) (w, s1)
       | None \<Rightarrow> create_data_property_with_slot E c key v (w, s1)) = Some (Inr False, (w, s1))"
        using Some by (auto simp: run_unwrap_bind run_return_def)
      moreover have "assigned w c key v False w" using Some False by (simp add: assigned_def)
      ultimately show ?thesis unfolding st by blast
    qed
  qed
qed

lemma in_context_return:
  "run_bind (in_context m) (\<lambda>_. run_return x) c = in_context (run_bind m (\<lambda>_. run_return x)) c"
  by (cases "m (fst c)") (auto simp: in_context_def run_bind_def run_return_def split: sum.splits)

lemma no_assignment_run:
  assumes "fully_populated d" "\<not> (is_data_descriptor d \<and> pd_writable d = Some True)"
  shows "ordinary_set_with_own_descriptor E h key v receiver True d (w, s) =
    (if (case pd_set d of None \<Rightarrow> True | Some f \<Rightarrow> f = VUndefined) then Some (Inr False, (w, s))
     else in_context (run_bind (value_call E (the (pd_set d)) receiver [v]) (\<lambda>_. run_return True)) (w, s))"
  using assms
  by (cases rule: populated_cases [OF assms(1)])
    (auto simp: ordinary_set_with_own_descriptor_def ordinary_set_data_def ordinary_set_accessor_def is_data_descriptor_def
        run_unwrap_bind run_return_def pd_writable_def pd_set_def in_context_return)

section \<open>Properties\<close>

text \<open>
  The receivers of the following theorem: every value that is no object, and every object but a String
  object, for a key that is no element or length of an array; with room for a new property.
\<close>

definition receives :: "'x object_world_scheme \<Rightarrow> property_key \<Rightarrow> js_value \<Rightarrow> bool" where
  "receives w key receiver \<longleftrightarrow>
     (case receiver of
        VObject c \<Rightarrow> \<exists>oc. ow_objects w c = Some oc \<and> ob_vtable oc \<noteq> StringMethods \<and> \<not> array_key oc key \<and>
          (is_index_key key \<or> room w c)
      | _ \<Rightarrow> True)"

definition receiver_assigned :: "'x object_world_scheme \<Rightarrow> js_value \<Rightarrow> property_key \<Rightarrow> js_value \<Rightarrow> bool \<Rightarrow> 'x object_world_scheme \<Rightarrow> bool" where
  "receiver_assigned w receiver key v b w' \<longleftrightarrow>
     (case receiver of VObject c \<Rightarrow> assigned w c key v b w' | _ \<Rightarrow> \<not> b \<and> w' = w)"

lemma primitive_assign_run:
  assumes "is_data_descriptor d" "pd_writable d = Some True" "\<not> (\<exists>c. receiver = VObject c)"
  shows "ordinary_set_with_own_descriptor E h key v receiver has d (w, s) = Some (Inr False, (w, s))"
  using assms
  by (cases receiver) (simp_all add: ordinary_set_with_own_descriptor_def ordinary_set_data_def run_unwrap_bind run_return_def)

lemma receiver_assign_run:
  assumes "world_wf w" "plain w" "index_map_laws (en_index_map E)" "valid_key key" "receives w key receiver"
    and "\<And>b d. own_property w b key = Some d \<Longrightarrow> fully_populated d"
    and h: "is_data_descriptor d" "pd_writable d = Some True" "has \<Longrightarrow> own_property w h key = Some d"
  shows "\<exists>b w' s'. ordinary_set_with_own_descriptor E h key v receiver has d (w, s) = Some (Inr b, (w', s')) \<and>
    receiver_assigned w receiver key v b w'"
proof (cases "\<exists>c. receiver = VObject c")
  case True
  then obtain c oc where c: "receiver = VObject c" "ow_objects w c = Some oc" "ob_vtable oc \<noteq> StringMethods"
    "\<not> array_key oc key" "is_index_key key \<or> room w c" using assms(5) by (auto simp: receives_def)
  from assign_run [OF assms(1-3) c(2-4) assms(4) c(5) assms(6) h, where v = v and s = s] show ?thesis
    by (simp add: c(1) receiver_assigned_def)
next
  case False
  then have "receiver_assigned w receiver key v False w" by (cases receiver) (auto simp: receiver_assigned_def)
  with primitive_assign_run [OF h(1,2) False] show ?thesis by blast
qed

text \<open>C14
  Assignment is \<open>OrdinarySet\<close>, when the properties of that key are complete: the first property on the
  chain decides. When it is a writable data property, or there is none, the receiver is given the
  value: as a new property with all attributes when it has none of its own and is extensible, as
  the new value of its own when that is a writable data property, and no other property or object
  changes; otherwise, a receiver that is no object included, the call is refused and changes nothing.
  When it is an accessor with a setter this is called with the receiver; else the call is refused
  and changes nothing. Receivers that are String objects, and elements and length of receivers that
  are arrays, are left out: there a refused call may have deleted elements.
\<close>
theorem set_property_spec:
  assumes "world_ok w" "index_map_laws (en_index_map E)" "ow_objects w a \<noteq> None" "valid_key key" "receives w key receiver"
    and "\<And>b d. own_property w b key = Some d \<Longrightarrow> fully_populated d"
  shows "\<exists>r s. inherits w key a slot_new r s \<and>
    (if (case r of None \<Rightarrow> True | Some d \<Rightarrow> is_data_descriptor d \<and> pd_writable d = Some True) then
       \<exists>b w'. property_context_new (set_property E a key v receiver) w = Some (Inr b, w') \<and>
         receiver_assigned w receiver key v b w'
     else if (case Option.bind r pd_set of None \<Rightarrow> True | Some f \<Rightarrow> f = VUndefined) then
       property_context_new (set_property E a key v receiver) w = Some (Inr False, w)
     else
       property_context_new (set_property E a key v receiver) w =
         run_bind (value_call E (the (Option.bind r pd_set)) receiver [v]) (\<lambda>_. run_return True) w)"
proof -
  have w: "world_wf w" "plain w" "wf (proto_order w)" using assms(1) by (simp_all add: world_ok_def)
  obtain r s where inh: "inherits w key a slot_new r s" using inherits_total [OF w(1,3)] by blast
  from set_property_inherits [OF w(1,2) inh assms(3), of E v receiver] obtain h where
    h: "own_property w h key = r"
      "set_property E a key v receiver (w, slot_new) = set_at E h key v receiver r (w, s)" by blast
  have "if (case r of None \<Rightarrow> True | Some d \<Rightarrow> is_data_descriptor d \<and> pd_writable d = Some True) then
       \<exists>b w'. property_context_new (set_property E a key v receiver) w = Some (Inr b, w') \<and>
         receiver_assigned w receiver key v b w'
     else if (case Option.bind r pd_set of None \<Rightarrow> True | Some f \<Rightarrow> f = VUndefined) then
       property_context_new (set_property E a key v receiver) w = Some (Inr False, w)
     else
       property_context_new (set_property E a key v receiver) w =
         run_bind (value_call E (the (Option.bind r pd_set)) receiver [v]) (\<lambda>_. run_return True) w"
  proof (cases "case r of None \<Rightarrow> True | Some d \<Rightarrow> is_data_descriptor d \<and> pd_writable d = Some True")
    case True
    then obtain d has s1 where d: "set_at E h key v receiver r (w, s) =
        ordinary_set_with_own_descriptor E h key v receiver has d (w, s1)"
        "is_data_descriptor d" "pd_writable d = Some True" "has \<Longrightarrow> own_property w h key = Some d"
      using h(1) by (cases r) (auto simp: set_at_def default_set_descriptor_def desc_simps)
    from receiver_assign_run [OF w(1,2) assms(2,4,5,6) d(2-4), where v = v and s = s1] True show ?thesis
      by (auto simp: property_context_new_def h(2) d(1))
  next
    case False
    then obtain d where d: "r = Some d" "\<not> (is_data_descriptor d \<and> pd_writable d = Some True)" by (cases r) auto
    from no_assignment_run [OF assms(6) [OF h(1) [unfolded d(1)]] d(2), of E h key v receiver w s] d
    show ?thesis
      by (auto simp: property_context_new_def h(2) set_at_def in_context_def option.map_comp o_def split_def option.map_ident)
  qed
  with inh show ?thesis by blast
qed

lemma demo_no_properties: "own_property demo_world b k = None"
proof -
  have e: "pm_entries (snd demo_map) (fst empty_map) = []" "pm_entries (snd demo_map) (fst demo_map) = []"
    by (simp_all add: pm_entries_def demo_shapes) (simp add: demo_defs unique_entries_def table_entries_def)
  have "pm_get (snd demo_map) pm k = Some None" if "pm \<in> {fst empty_map, fst demo_map}" for pm
  proof (cases k)
    case (PKIndex i)
    with that show ?thesis by (auto simp: pm_get_def demo_shapes indexed_default_def vec_get_def)
  qed (use that demo_maps_wf e in \<open>auto simp: pm_get_spec pm_named_def named_def\<close>)
  then have "stored_property demo_world b k = None"
    by (auto simp: stored_property_def demo_world_def demo_object_def)
  then show ?thesis
    by (auto simp: own_property_def demo_world_def demo_object_def split: option.split property_key.split)
qed

theorem set_property_spec_witness:
  "(\<exists>w'. property_context_new (set_property demo_engine 0 (PKString [120]) VNull (VObject 0)) demo_world = Some (Inr True, w') \<and>
     property_view w' 0 (PKString [120]) = Some (desc_lang (data_property VNull True True True))) \<and>
   property_context_new (set_property demo_engine 0 (PKString [120]) VNull (VInteger32 5)) demo_world = Some (Inr False, demo_world)"
proof -
  have none: "r = None" if "inherits demo_world k b s r s'" for k b s r s'
    using that by (induction rule: inherits.induct) (simp_all add: demo_no_properties)
  have r: "receives demo_world (PKString [120]) (VObject 0)" "receives demo_world (PKString [120]) (VInteger32 5)"
    by (simp_all add: receives_def demo_object_0 array_key_def)
  note spec = set_property_spec [of demo_world demo_engine 0 "PKString [120]" _ VNull]
  from spec [OF _ _ _ _ r(1)] spec [OF _ _ _ _ r(2)] show ?thesis
    by (auto simp: demo_world_ok demo_object_0 valid_key_def demo_no_properties receiver_assigned_def assigned_def changed_def dest!: none)
qed

end
