(* ===== verification/InlineCacheWrites.thy ===== *)
theory InlineCacheWrites
  imports InlineCacheProperties OrdinarySet
begin

text \<open>
  Writing through inline caches: an assignment like any other where the cached property may be
  written, but neither the attributes nor the methods of the object are asked again.
\<close>

text \<open>A write through an entry for a data property: the element of the storage is replaced, and nothing is asked.\<close>

lemma write_hit_run:
  assumes w: "world_wf w" and a: "ow_objects w a = Some ob" and i: "i < length (vw_ic w)"
    and c: "cache_sound (ow_shapes w) (vw_ic w ! i)" and key: "key = property_key_of_string (ic_name (vw_ic w ! i))"
    and h: "ic_get w (vw_ic w ! i) (object_shape ob) = Some (Some slot)" "\<not> is_accessor_attributes (sl_attributes slot)"
  shows "\<exists>b sl u w'. write_by_name_op E v receiver (VObject a) i w = Some (Inr (), w') \<and>
    (b = a \<or> own_property w a key = None \<and> proto_of w a = Some b) \<and> \<not> is_index_key key \<and> data_slot w b key sl \<and> same_slot slot sl \<and>
    own_property w b key = Some (descriptor_of (sl_attributes sl) [u]) \<and>
    changed w b key (Some (desc_lang (descriptor_of (sl_attributes sl) [v]))) True w' \<and> ow_shapes w' = ow_shapes w"
proof -
  from hit_found [OF w a c h(1) key] obtain b ob' sl where
    b: "cached_holder a ob slot w = Some (Inr (Some b), w)" "\<not> is_index_key key" "ow_objects w b = Some ob'"
      "shape_lookup (ow_shapes w) (object_shape ob') key = Some (Some sl)" "same_slot slot sl"
      "b = a \<or> own_property w a key = None \<and> proto_of w a = Some b" by blast
  have ds: "data_slot w b key sl" using b(3-5) h(2) same_slot_flags(1) by (auto simp: data_slot_def)
  from data_slot_load [OF w ds b(2)] obtain u where
    u: "own_property w b key = Some (descriptor_of (sl_attributes sl) [u])" by (auto simp: own_property_named [OF b(2)])
  from data_slot_store [OF w ds b(2), of v] obtain w' where
    s: "object_store b (unat (sl_index sl)) v w = Some (Inr (), w')"
      "changed w b key (Some (desc_lang (descriptor_of (sl_attributes sl) [v]))) True w'" "ow_shapes w' = ow_shapes w" by blast
  have lk: "vm_ic_lookup i (object_shape ob) w = Some (Inr (Some slot), w)"
    using h(1) i by (simp add: vm_ic_lookup_def vm_ic_run run_bind_cases(1) run_unwrap_def)
  have ix: "sl_index slot = sl_index sl" using b(5) by (simp add: same_slot_def)
  have "write_by_name_op E v receiver (VObject a) i w = Some (Inr (), w')"
    using h(2) by (simp add: write_by_name_op_def try_ic_write_no_setter_def object_borrow_bind a run_bind_cases(1) lk b(1) s(1) ix
        run_return_def)
  with b ds u s show ?thesis by blast
qed


section \<open>Properties\<close>

text \<open>C23
  A write through a right entry for a writable property of the object itself, which is not the length
  of an array, is the assignment \<open>[[Set]]\<close> to the object: both succeed, and leave every object with
  the same properties.
\<close>
theorem cached_write_is_set:
  fixes E :: "('x vm_world_scheme, 'm, 'e) vm_engine_scheme"
  assumes "world_ok w" "index_map_laws (en_index_map E)" "ow_objects w a = Some ob" "ob_vtable ob \<noteq> StringMethods"
    and "\<not> array_key ob key" "room w a" "i < length (vw_ic w)" "cache_sound (ow_shapes w) (vw_ic w ! i)"
    and "key = property_key_of_string (ic_name (vw_ic w ! i))" "valid_key key" "own_property w a key = Some d" "fully_populated d"
    and "ic_get w (vw_ic w ! i) (object_shape ob) = Some (Some slot)" "\<not> is_accessor_attributes (sl_attributes slot)"
    and "flags_contains (sl_attributes slot) SLOT_WRITABLE"
  shows "\<exists>w1 w2. property_context_new (set_property E a key v (VObject a)) w = Some (Inr True, w1) \<and>
    write_by_name_op E v receiver (VObject a) i w = Some (Inr (), w2) \<and>
    (\<forall>c k. property_view w2 c k = property_view w1 c k)"
proof -
  have w: "world_wf w" "plain w" using assms(1) by (simp_all add: world_ok_def)
  from write_hit_run [OF w(1) assms(3,7-9,13,14), of E v receiver] assms(11) obtain sl u w2 where
    h: "write_by_name_op E v receiver (VObject a) i w = Some (Inr (), w2)" "\<not> is_index_key key" "data_slot w a key sl"
      "same_slot slot sl" "own_property w a key = Some (descriptor_of (sl_attributes sl) [u])"
      "changed w a key (Some (desc_lang (descriptor_of (sl_attributes sl) [v]))) True w2" by auto
  let ?d = "descriptor_of (sl_attributes sl) [u]"
  have d: "is_data_descriptor ?d" "pd_writable ?d = Some True" "build_value v ?d = descriptor_of (sl_attributes sl) [v]"
    using h(3,4) same_slot_flags(4) [OF h(4)] assms(15)
    by (auto simp: data_slot_def descriptor_of_def is_data_descriptor_def pd_writable_def build_value_def)
  note inh = inherits.own [OF h(5), of slot_new]
  have "ow_objects w a \<noteq> None" using assms(3) by simp
  from set_property_inherits [OF w inh this, of E v "VObject a"] obtain g where
    g: "own_property w g key = Some ?d"
      "set_property E a key v (VObject a) (w, slot_new) = set_at E g key v (VObject a) (Some ?d) (w, own_slot w a key slot_new)" by blast
  have "\<exists>b w' s'. ordinary_set_with_own_descriptor E g key v (VObject a) True ?d (w, own_slot w a key slot_new) =
      Some (Inr b, (w', s')) \<and> assigned w a key v b w'"
    by (rule assign_run [OF w assms(2-5,10)]) (use assms(6,11,12) h d g in auto)
  then obtain b w1 where s: "property_context_new (set_property E a key v (VObject a)) w = Some (Inr b, w1)" "assigned w a key v b w1"
    by (auto simp: property_context_new_def g(2) set_at_def)
  have v: "b" "changed w a key (Some (desc_lang (descriptor_of (sl_attributes sl) [v]))) True w1"
    using s(2) d h(5) by (auto simp: assigned_def split: if_splits)
  have "property_view w2 c k = property_view w1 c k" for c k
    using v(2) h(6) by (cases "c = a"; cases "k = key") (auto simp: changed_def frame_def property_view_def)
  with s(1) v(1) h(1) show ?thesis by auto
qed

theorem cached_write_is_set_witness:
  "\<exists>h ob w1 w2. ob_vtable ob = OrdinaryMethods \<and>
     property_context_new (set_property demo_vm_engine 0 length_key VNull (VObject 0)) (demo_vm h ob) = Some (Inr True, w1) \<and>
     write_by_name_op demo_vm_engine VNull VNull (VObject 0) 0 (demo_vm h ob) = Some (Inr (), w2)"
proof -
  obtain h and ob :: js_object where ob: "length_only h (ob_properties ob)" "ob_vtable ob = OrdinaryMethods" by (rule demo_length_object) blast
  note v = disjI1 [OF ob(2), of "ob_vtable ob = ArrayMethods"]
  note d = demo_vm_ok [OF ob(1) v] demo_length [OF ob(1)]
  have f: "fully_populated (length_descriptor_at (VInteger32 0) True)" by (auto simp: fully_populated_def)
  have "\<exists>w1 w2. property_context_new (set_property demo_vm_engine 0 length_key VNull (VObject 0)) (demo_vm h ob) = Some (Inr True, w1) \<and>
      write_by_name_op demo_vm_engine VNull VNull (VObject 0) 0 (demo_vm h ob) = Some (Inr (), w2) \<and>
      (\<forall>c k. property_view w2 c k = property_view w1 c k)"
    by (rule cached_write_is_set [where ob = ob and slot = array_length_slot, OF d(1) _ _ _ _ d(3) _ _ _ _ d(5) f])
      (use d ob in \<open>simp_all add: length_cache_def length_name array_key_def valid_key_def\<close>)
  with ob(2) show ?thesis by blast
qed

text \<open>C24
  A write through an entry for the length of an array is none of the length: no element is deleted,
  nothing is checked, and the length becomes the value, whatever it is. So two assignments
  \<open>a.length = 0\<close> at the same place of the code do not mean the same.
\<close>
theorem cached_length_write_is_unchecked:
  fixes E :: "('x vm_world_scheme, 'm, 'e) vm_engine_scheme"
  assumes "world_ok w" "array_at w a n b" "ow_objects w a = Some ob" "i < length (vw_ic w)"
    and "cache_sound (ow_shapes w) (vw_ic w ! i)" "ic_name (vw_ic w ! i) = length_string"
    and "ic_get w (vw_ic w ! i) (object_shape ob) = Some (Some slot)" "\<not> is_accessor_attributes (sl_attributes slot)"
  shows "\<exists>w'. write_by_name_op E v receiver (VObject a) i w = Some (Inr (), w') \<and>
    property_view w' a length_key = Some (Some False, Some False, LData (Some (lang_value v)) (Some b)) \<and>
    (\<forall>k. k \<noteq> length_key \<longrightarrow> property_view w' a k = property_view w a k)"
proof -
  have w: "world_wf w" using assms(1) by (simp add: world_ok_def)
  have key: "length_key = property_key_of_string (ic_name (vw_ic w ! i))" by (simp add: assms(6) length_name)
  have len: "property_view w a length_key = Some (length_view n b)" using assms(2) by (simp add: array_at_def)
  then have "own_property w a length_key \<noteq> None" by (auto simp: property_view_def own_property_named)
  with write_hit_run [OF w assms(3,4,5) key assms(7,8), of E v receiver] obtain sl u w' where
    h: "write_by_name_op E v receiver (VObject a) i w = Some (Inr (), w')" "data_slot w a length_key sl"
      "own_property w a length_key = Some (descriptor_of (sl_attributes sl) [u])"
      "changed w a length_key (Some (desc_lang (descriptor_of (sl_attributes sl) [v]))) True w'" by auto
  have "desc_lang (descriptor_of (sl_attributes sl) [u]) = length_view n b"
    using len h(3) by (simp add: property_view_def own_property_named)
  then have "desc_lang (descriptor_of (sl_attributes sl) [v]) = (Some False, Some False, LData (Some (lang_value v)) (Some b))"
    using h(2) by (auto simp: desc_lang_def descriptor_of_def length_view_def data_slot_def)
  with h(1,4) show ?thesis by (auto simp: changed_def)
qed

theorem cached_length_write_is_unchecked_witness:
  "\<exists>h ob w'. ob_vtable ob = ArrayMethods \<and> array_at (demo_vm h ob) 0 0 True \<and>
     write_by_name_op demo_vm_engine VNull (VObject 0) (VObject 0) 0 (demo_vm h ob) = Some (Inr (), w') \<and>
     \<not> (\<exists>n b. array_at w' 0 n b)"
proof -
  obtain h and ob :: js_object where ob: "length_only h (ob_properties ob)" "ob_vtable ob = ArrayMethods" by (rule demo_length_object) blast
  note v = disjI2 [OF ob(2), of "ob_vtable ob = OrdinaryMethods"]
  note d = demo_vm_ok(1) [OF ob(1) v] demo_vm_ok(4) [OF ob(1) v ob(2)] demo_length [OF ob(1)]
  have "\<exists>w'. write_by_name_op demo_vm_engine VNull (VObject 0) (VObject 0) 0 (demo_vm h ob) = Some (Inr (), w') \<and>
      property_view w' 0 length_key = Some (Some False, Some False, LData (Some (lang_value VNull)) (Some True)) \<and>
      (\<forall>k. k \<noteq> length_key \<longrightarrow> property_view w' 0 k = property_view (demo_vm h ob) 0 k)"
    by (rule cached_length_write_is_unchecked [where ob = ob and slot = array_length_slot, OF d(1,2)])
      (use d in \<open>simp_all add: length_cache_def\<close>)
  then obtain w' where w': "write_by_name_op demo_vm_engine VNull (VObject 0) (VObject 0) 0 (demo_vm h ob) = Some (Inr (), w')"
    "property_view w' 0 length_key = Some (Some False, Some False, LData (Some (lang_value VNull)) (Some True))" by blast
  have "\<not> array_at w' 0 n b" for n b using w'(2) by (simp add: array_at_def length_view_def)
  with ob(2) d(2) w'(1) show ?thesis by blast
qed

end
