(* ===== verification/PropertyOpcodes.thy ===== *)
theory PropertyOpcodes
  imports InlineCache
begin

text \<open>
  The opcodes that read and write properties by a computed key (\<open>vm/opcode/get/property.rs\<close>,
  \<open>vm/opcode/set/property.rs\<close>), with the caches for elements, and those that define getters and
  setters. An opcode is given the contents of its registers.
\<close>

section \<open>Keys\<close>

definition str_undefined :: js_string where
  "str_undefined = [117, 110, 100, 101, 102, 105, 110, 101, 100]"

definition str_null :: js_string where
  "str_null = [110, 117, 108, 108]"

definition str_true :: js_string where
  "str_true = [116, 114, 117, 101]"

definition str_false :: js_string where
  "str_false = [102, 97, 108, 115, 101]"

text \<open>\<open>ToPropertyKey\<close>\<close>

partial_function (option) to_property_key ::
  "('w, 'm, 'e) vm_engine_scheme \<Rightarrow> js_value \<Rightarrow> ('w, property_key) run" where
  "to_property_key E v w =
     (case v of
        VInteger32 integer \<Rightarrow> run_return (property_key_of_i32 (en_itoa E) integer) w
      | VString string \<Rightarrow> run_return (property_key_of_string string) w
      | VSymbol symbol \<Rightarrow> run_return (property_key_of_symbol symbol) w
      | VFloat64 float \<Rightarrow> run_return (property_key_of_string (ve_number_to_string E float)) w
      | VUndefined \<Rightarrow> run_return (property_key_of_string str_undefined) w
      | VNull \<Rightarrow> run_return (property_key_of_string str_null) w
      | VBoolean b \<Rightarrow> run_return (property_key_of_string (if b then str_true else str_false)) w
      | VBigInt bigint \<Rightarrow> run_return (property_key_of_string (ve_bigint_to_string E bigint)) w
      | VObject o' \<Rightarrow>
          run_bind (cv_to_primitive (en_conversions E) o' PreferString) (\<lambda>p w. to_property_key E p w) w)"

section \<open>Reading by value\<close>

definition uses_ordinary_property_reads :: "('w, 'm, 'e) engine_scheme \<Rightarrow> js_object \<Rightarrow> bool" where
  "uses_ordinary_property_reads E ob \<longleftrightarrow>
     ob_vtable ob \<noteq> StringMethods \<and>
     overriding E (ob_vtable ob) ex_get_own_property = None \<and> overriding E (ob_vtable ob) ex_try_get = None"

fun indexed_properties_read_kind :: "indexed_properties \<Rightarrow> indexed_kind" where
  "indexed_properties_read_kind (DenseI32 _) = KindDenseI32"
| "indexed_properties_read_kind (DenseF64 _) = KindDenseF64"
| "indexed_properties_read_kind (DenseElement _) = KindDenseElement"
| "indexed_properties_read_kind _ = KindSparseData"

definition vm_element_ic :: "nat \<Rightarrow> ('x vm_world_scheme, element_ic) run" where
  "vm_element_ic i w = run_unwrap (vec_get (vw_element_ic w) i) w"

definition vm_element_ic_seed :: "nat \<Rightarrow> shape \<Rightarrow> indexed_kind \<Rightarrow> ('x vm_world_scheme, unit) run" where
  "vm_element_ic_seed i shape kind =
     run_bind (vm_element_ic i) (\<lambda>_.
       run_modify (\<lambda>w. w\<lparr>vw_element_ic := (vw_element_ic w)[i := element_ic_seed shape kind]\<rparr>))"

text \<open>The object in a register whose shape the cache has, for a key that is an integer from 0 on.\<close>

definition element_ic_object ::
  "js_value \<Rightarrow> js_value \<Rightarrow> nat \<Rightarrow> ('x vm_world_scheme, (obj_addr \<times> js_object \<times> u32) option) run" where
  "element_ic_object key object ic_index =
     (case (key, object) of
        (VInteger32 raw_key, VObject obj) \<Rightarrow>
          if 0 \<le> sint raw_key then
            run_bind (object_borrow obj) (\<lambda>ob.
            run_bind (vm_element_ic ic_index) (\<lambda>ic.
            run_bind (run_gets (\<lambda>w. element_ic_matches (ow_shapes w) ic (object_shape ob))) (\<lambda>m.
              run_return (if m \<noteq> None then Some (obj, ob, raw_key) else None))))
          else run_return None
      | _ \<Rightarrow> run_return None)"

definition try_element_read :: "js_value \<Rightarrow> js_value \<Rightarrow> nat \<Rightarrow> ('x vm_world_scheme, js_value option) run" where
  "try_element_read key object ic_index =
     run_bind (element_ic_object key object ic_index) (\<lambda>found.
       run_return (case found of
         None \<Rightarrow> None
       | Some (obj, ob, index) \<Rightarrow> get_indexed_data_property (pm_indexed (ob_properties ob)) index))"

text \<open>The short ways for a converted key: own data elements, and elements and length of a string.\<close>

definition get_by_value_short ::
  "('x vm_world_scheme, 'm, 'e) vm_engine_scheme \<Rightarrow> js_value \<Rightarrow> obj_addr \<Rightarrow> property_key \<Rightarrow> nat \<Rightarrow>
     ('x vm_world_scheme, js_value option) run" where
  "get_by_value_short E base object key ic_index =
     (case key of
        PKIndex index \<Rightarrow>
          run_bind (object_borrow object) (\<lambda>ob.
            if uses_ordinary_property_reads E ob then
              (case get_indexed_data_property (pm_indexed (ob_properties ob)) index of
                 Some element \<Rightarrow>
                   run_bind (vm_element_ic_seed ic_index (object_shape ob)
                     (indexed_properties_read_kind (pm_indexed (ob_properties ob)))) (\<lambda>_. run_return (Some element))
               | None \<Rightarrow> run_return None)
            else
              (case base of
                 VString string \<Rightarrow>
                   run_return (Some (case vec_get string (unat index) of None \<Rightarrow> VUndefined | Some char \<Rightarrow> VString [char]))
               | _ \<Rightarrow> run_return None))
      | PKString name \<Rightarrow>
          (case base of
             VString string \<Rightarrow>
               if name = length_string then run_return (Some (value_of_usize (length string))) else run_return None
           | _ \<Rightarrow> run_return None)
      | _ \<Rightarrow> run_return None)"

text \<open>Gives the contents of the register of the key and of the destination.\<close>

definition get_by_value ::
  "('x vm_world_scheme, 'm, 'e) vm_engine_scheme \<Rightarrow> bool \<Rightarrow> js_value \<Rightarrow> js_value \<Rightarrow> js_value \<Rightarrow> nat \<Rightarrow>
     ('x vm_world_scheme, js_value \<times> js_value) run" where
  "get_by_value E push_key key receiver base ic_index =
     run_bind (try_element_read key base ic_index) (\<lambda>found.
       case found of
         Some element \<Rightarrow> run_return (key, element)
       | None \<Rightarrow>
           run_bind (base_class E base) (\<lambda>object.
           run_bind (to_property_key E key) (\<lambda>key_value.
           run_bind (get_by_value_short E base object key_value ic_index) (\<lambda>short.
           run_bind (case short of
                Some value \<Rightarrow> run_return value
              | None \<Rightarrow> property_context_new (get E object key_value receiver)) (\<lambda>value.
             run_return (if push_key then js_value_of_owned_key (en_itoa E) key_value else key, value))))))"

definition get_property_by_value ::
  "('x vm_world_scheme, 'm, 'e) vm_engine_scheme \<Rightarrow> js_value \<Rightarrow> js_value \<Rightarrow> js_value \<Rightarrow> nat \<Rightarrow>
     ('x vm_world_scheme, js_value \<times> js_value) run" where
  "get_property_by_value E key receiver object ic_index = get_by_value E False key receiver object ic_index"

definition get_property_by_value_push ::
  "('x vm_world_scheme, 'm, 'e) vm_engine_scheme \<Rightarrow> js_value \<Rightarrow> js_value \<Rightarrow> js_value \<Rightarrow> nat \<Rightarrow>
     ('x vm_world_scheme, js_value \<times> js_value) run" where
  "get_property_by_value_push E key receiver object ic_index = get_by_value E True key receiver object ic_index"

section \<open>Writing by value\<close>

fun indexed_properties_write_kind :: "indexed_properties \<Rightarrow> indexed_kind option" where
  "indexed_properties_write_kind (DenseI32 _) = Some KindDenseI32"
| "indexed_properties_write_kind (DenseF64 _) = Some KindDenseF64"
| "indexed_properties_write_kind (DenseElement _) = Some KindDenseElement"
| "indexed_properties_write_kind _ = None"

text \<open>Whether the element was there and is written.\<close>

definition write_dense_element :: "obj_addr \<Rightarrow> js_object \<Rightarrow> u32 \<Rightarrow> js_value \<Rightarrow> ('x object_world_scheme, js_object option) run" where
  "write_dense_element obj ob index value =
     (case set_dense_property (pm_indexed (ob_properties ob)) index value of
        (True, indexed) \<Rightarrow>
          let ob = ob\<lparr>ob_properties := (ob_properties ob)\<lparr>pm_indexed := indexed\<rparr>\<rparr> in
          run_bind (object_write obj ob) (\<lambda>_. run_return (Some ob))
      | (False, _) \<Rightarrow> run_return None)"

definition try_element_write :: "js_value \<Rightarrow> js_value \<Rightarrow> js_value \<Rightarrow> nat \<Rightarrow> ('x vm_world_scheme, bool) run" where
  "try_element_write value key object ic_index =
     run_bind (element_ic_object key object ic_index) (\<lambda>found.
       case found of
         Some (obj, ob, index) \<Rightarrow>
           if ob_extensible ob
           then run_bind (write_dense_element obj ob index value) (\<lambda>written. run_return (written \<noteq> None))
           else run_return False
       | None \<Rightarrow> run_return False)"

definition set_array_element ::
  "js_value \<Rightarrow> property_key \<Rightarrow> obj_addr \<Rightarrow> nat \<Rightarrow> ('x vm_world_scheme, bool) run" where
  "set_array_element value key object ic_index =
     run_bind (is_array object) (\<lambda>array.
       case key of
         PKIndex index \<Rightarrow>
           if array then
             run_bind (object_borrow object) (\<lambda>ob.
               if \<not> ob_extensible ob then run_return False
               else
                 run_bind (write_dense_element object ob index value) (\<lambda>written.
                   case written of
                     None \<Rightarrow> run_return False
                   | Some ob \<Rightarrow>
                       (case indexed_properties_write_kind (pm_indexed (ob_properties ob)) of
                          Some kind \<Rightarrow> run_bind (vm_element_ic_seed ic_index (object_shape ob) kind) (\<lambda>_. run_return True)
                        | None \<Rightarrow> run_return True)))
           else run_return False
       | _ \<Rightarrow> run_return False)"

definition set_property_by_value ::
  "('x vm_world_scheme, 'm, 'e) vm_engine_scheme \<Rightarrow> js_value \<Rightarrow> js_value \<Rightarrow> js_value \<Rightarrow> js_value \<Rightarrow> nat \<Rightarrow>
     ('x vm_world_scheme, unit) run" where
  "set_property_by_value E value key receiver object ic_index =
     run_bind (try_element_write value key object ic_index) (\<lambda>written.
       if written then run_return ()
       else
         run_bind (to_object E object) (\<lambda>object.
         run_bind (to_property_key E key) (\<lambda>key.
         run_bind (set_array_element value key object ic_index) (\<lambda>written.
           if written then run_return ()
           else
             run_bind (property_context_new (set_property E object key value receiver)) (\<lambda>succeeded.
             run_bind (run_gets vw_strict) (\<lambda>strict.
               if \<not> succeeded \<and> strict then run_throw TypeError else run_return ()))))))"

section \<open>Getters and setters\<close>

text \<open>What is defined: the other function stays.\<close>

definition define_getter ::
  "('x object_world_scheme, 'm, 'e) vm_engine_scheme \<Rightarrow> obj_addr \<Rightarrow> property_key \<Rightarrow> js_value \<Rightarrow>
     ('x object_world_scheme, unit) run" where
  "define_getter E object name value =
     run_bind (property_context_new (get_own_property E object name)) (\<lambda>desc.
     run_bind (property_context_new (define_own_property E object name
       (build_configurable True (build_enumerable True
         (maybe_set (Option.bind desc pd_set) (maybe_get (Some value) pd_default)))))) (\<lambda>_. run_return ()))"

definition define_setter ::
  "('x object_world_scheme, 'm, 'e) vm_engine_scheme \<Rightarrow> obj_addr \<Rightarrow> property_key \<Rightarrow> js_value \<Rightarrow>
     ('x object_world_scheme, unit) run" where
  "define_setter E object name value =
     run_bind (property_context_new (get_own_property E object name)) (\<lambda>desc.
     run_bind (property_context_new (define_own_property E object name
       (build_configurable True (build_enumerable True
         (maybe_get (Option.bind desc pd_get) (maybe_set (Some value) pd_default)))))) (\<lambda>_. run_return ()))"

text \<open>By name: \<open>name\<close> is the string constant of the code.\<close>

definition set_property_getter_by_name ::
  "('x object_world_scheme, 'm, 'e) vm_engine_scheme \<Rightarrow> js_value \<Rightarrow> js_value \<Rightarrow> js_string \<Rightarrow>
     ('x object_world_scheme, unit) run" where
  "set_property_getter_by_name E object value name =
     run_bind (to_object E object) (\<lambda>object. define_getter E object (property_key_of_string name) value)"

definition set_property_setter_by_name ::
  "('x object_world_scheme, 'm, 'e) vm_engine_scheme \<Rightarrow> js_value \<Rightarrow> js_value \<Rightarrow> js_string \<Rightarrow>
     ('x object_world_scheme, unit) run" where
  "set_property_setter_by_name E object value name =
     run_bind (to_object E object) (\<lambda>object. define_setter E object (property_key_of_string name) value)"

definition set_property_getter_by_value ::
  "('x object_world_scheme, 'm, 'e) vm_engine_scheme \<Rightarrow> js_value \<Rightarrow> js_value \<Rightarrow> js_value \<Rightarrow>
     ('x object_world_scheme, unit) run" where
  "set_property_getter_by_value E value key object =
     run_bind (to_object E object) (\<lambda>object.
     run_bind (to_property_key E key) (\<lambda>name. define_getter E object name value))"

definition set_property_setter_by_value ::
  "('x object_world_scheme, 'm, 'e) vm_engine_scheme \<Rightarrow> js_value \<Rightarrow> js_value \<Rightarrow> js_value \<Rightarrow>
     ('x object_world_scheme, unit) run" where
  "set_property_setter_by_value E value key object =
     run_bind (to_object E object) (\<lambda>object.
     run_bind (to_property_key E key) (\<lambda>name. define_setter E object name value))"

end
