(* ===== verification/PropertyOpcodeProperties.thy ===== *)
theory PropertyOpcodeProperties
  imports InlineCacheWrites PropertyOpcodes
begin

text \<open>
  The opcodes for computed keys: what their caches and short ways give is \<open>[[Get]]\<close> and \<open>[[Set]]\<close>.
\<close>

section \<open>Assignments to an own data property\<close>

lemma set_own_data:
  assumes w: "world_wf w" "plain w" and a: "ow_objects w a = Some ob"
    and d: "own_property w a key = Some d" "is_data_descriptor d" "pd_writable d = Some True"
  shows "\<exists>s'. set_property E a key v (VObject a) (w, s) = define_own_property E a key (build_value v pd_default) (w, s')"
proof -
  have "\<not> is_accessor_descriptor d" using d(2) by (auto simp: is_data_descriptor_def is_accessor_descriptor_def split: descriptor_kind.splits)
  then have "set_property E a key v (VObject a) (w, s) = define_own_property E a key (build_value v pd_default)
      (w, (own_slot w a key s)\<lparr>sl_attributes := flags_set (sl_attributes (own_slot w a key s)) SLOT_NOT_CACHEABLE False\<rparr>)"
    by (subst set_property.simps)
      (use d a w in \<open>simp add: method_binds [OF w a] ordinary_set_with_own_descriptor_def ordinary_set_data_def run_unwrap_bind
        slot_modify_bind Let_def run_bind_return\<close>)
  then show ?thesis by blast
qed

text \<open>\<open>updated w a key x w'\<close>: the property \<open>key\<close> of \<open>a\<close> looks like \<open>x\<close>, and the rest as before.\<close>

definition updated ::
  "'x object_world_scheme \<Rightarrow> obj_addr \<Rightarrow> property_key \<Rightarrow> property_as_seen option \<Rightarrow> 'x object_world_scheme \<Rightarrow> bool" where
  "updated w a key x w' \<longleftrightarrow> frame w a w' \<and> (\<forall>k. property_view w' a k = (if k = key then x else property_view w a k))"

lemma changed_updated: "changed w a key x True w' \<Longrightarrow> updated w a key x w'"
  by (auto simp: changed_def updated_def)

lemma updated_same:
  assumes "updated w a key x w1" "updated w a key x w2"
  shows "property_view w1 c k = property_view w2 c k"
  using assms frame_views [of w a w1 c k] frame_views [of w a w2 c k] by (cases "c = a") (simp_all add: updated_def)

lemma array_value_run:
  assumes im: "index_map_laws (en_index_map E)" and ok: "world_ok w" and at: "array_at w a n b" and r: "room w a"
    and i: "i \<noteq> u32_MAX" and t: "array_template E (ow_shapes w)"
    and e: "own_property w a (PKIndex i) = Some e" "is_data_descriptor e" "pd_writable e = Some True"
  shows "\<exists>w' s'. define_own_property E a (PKIndex i) (build_value v pd_default) (w, s) = Some (Inr True, (w', s')) \<and>
    updated w a (PKIndex i) (Some (desc_lang (build_value v e))) w'"
proof -
  let ?d = "build_value v pd_default"
  have st: "stored_property w a (PKIndex i) = Some e"
    using at e(1) own_property_ordinary [where a = a and w = w] by (auto simp: array_at_def)
  then have le: "\<not> n \<le> i" and pop: "fully_populated e" using at by (auto simp: array_at_def)
  note vc = value_change [OF pop e(2,3), of v]
  from define_element_run [OF im ok at r i t, of ?d s] le obtain q w' s' w1 where
    d: "define_own_property E a (PKIndex i) ?d (w, s) = Some (Inr q, (w', s'))" "array_step w a w'"
      "define_result w a (PKIndex i) ?d q w1" "\<forall>k. k \<noteq> length_key \<longrightarrow> property_view w' a k = property_view w1 a k"
      "array_at w' a n b" by (auto simp: element_defined_def)
  have w: "world_wf w" using ok by (simp add: world_ok_def)
  have "faithful_insert w a (PKIndex i) (build_value v e)"
    by (rule faithful_same_kind [OF w st vc(4)]) (simp add: e(2) vc(5))
  then have q: "q" "changed w a (PKIndex i) (Some (desc_lang (build_value v e))) True w1"
    using d(3) e(1) vc(1-3) by (auto simp: define_result_def)
  have "property_view w' a length_key = property_view w a length_key" using at d(5) by (simp add: array_at_def)
  then have "property_view w' a k = (if k = PKIndex i then Some (desc_lang (build_value v e)) else property_view w a k)" for k
    using d(4) changed_updated [OF q(2)] by (cases "k = length_key") (simp_all add: updated_def)
  then have "updated w a (PKIndex i) (Some (desc_lang (build_value v e))) w'"
    using d(2) unfolding array_step_def updated_def by blast
  with d(1) q(1) show ?thesis by auto
qed

section \<open>The caches for elements\<close>

lemma element_ic_object_run:
  assumes "ow_objects w a = Some ob" "i < length (vw_element_ic w)"
  shows "element_ic_object (VInteger32 n) (VObject a) i w =
    Some (Inr (if 0 \<le> sint n \<and> element_ic_matches (ow_shapes w) (vw_element_ic w ! i) (object_shape ob) \<noteq> None
               then Some (a, ob, n) else None), w)"
  using assms by (simp add: element_ic_object_def object_borrow_bind vm_element_ic_def run_unwrap_def vec_get_def
      run_bind_cases(1) run_gets_def run_return_def)

lemma vm_element_ic_seed_run:
  "i < length (vw_element_ic w) \<Longrightarrow>
   vm_element_ic_seed i s k w = Some (Inr (), w\<lparr>vw_element_ic := (vw_element_ic w)[i := element_ic_seed s k]\<rparr>)"
  by (simp add: vm_element_ic_seed_def vm_element_ic_def run_unwrap_def vec_get_def run_bind_cases(1) run_modify_def)

text \<open>An own data element is what \<open>[[Get]]\<close> gives.\<close>

lemma get_own_element:
  assumes w: "world_wf w" "plain w" and a: "ow_objects w a = Some ob"
    and e: "get_indexed_data_property (pm_indexed (ob_properties ob)) n = Some x"
  shows "property_context_new (get E a (PKIndex n) receiver) w = Some (Inr x, w)"
proof -
  from e obtain d where d: "stored_property w a (PKIndex n) = Some d" "\<not> is_accessor_descriptor d"
    "x = (case pd_value d of None \<Rightarrow> VUndefined | Some v \<Rightarrow> v)"
    by (auto simp: stored_property_index [OF a] get_indexed_data_property_get split: option.splits if_splits)
  then have "own_property w a (PKIndex n) = Some d" by (simp add: own_property_def)
  note inh = inherits.own [OF this, of slot_new]
  have "ow_objects w a \<noteq> None" using a by simp
  from get_inherits [OF w inh this, of E receiver] d(2,3) show ?thesis
    by (cases "pd_kind d")
      (auto simp: property_context_new_def read_descriptor_def is_accessor_descriptor_def run_return_def pd_value_def split: option.split)
qed

lemma dense_element:
  assumes "dense_length ip = Some m" "unat n < m"
  shows "\<exists>u. indexed_get ip n = Some (simple_descriptor u)"
  using assms by (cases ip) (auto simp: vec_get_def)

lemma write_dense_element_run:
  assumes w: "world_wf w" and a: "ow_objects w a = Some ob"
    and d: "dense_length (pm_indexed (ob_properties ob)) = Some m" "unat n < m"
  shows "\<exists>ob' w'. write_dense_element a ob n v w = Some (Inr (Some ob'), w') \<and> object_shape ob' = object_shape ob \<and>
    changed w a (PKIndex n) (Some (simple_lang (lang_value v))) True w' \<and> (\<exists>f. w' = ow_objects_update f w)"
proof -
  obtain b ip where r: "set_dense_property (pm_indexed (ob_properties ob)) n v = (b, ip)" by fastforce
  have "indexed_wf (pm_indexed (ob_properties ob))" using world_wfD(2) [OF w a] by (simp add: pm_wf_def)
  from set_dense_property_view [OF this d, of v] r
  have st: "stores (b, ip) ((indexed_view (pm_indexed (ob_properties ob)))(n \<mapsto> simple_lang (lang_value v))) True" by simp
  let ?ob = "ob\<lparr>ob_properties := (ob_properties ob)\<lparr>pm_indexed := ip\<rparr>\<rparr>"
  have "changed w a (PKIndex n) (Some (simple_lang (lang_value v))) True
      (put_properties a ob ((ob_properties ob)\<lparr>pm_indexed := ip\<rparr>) (ow_shapes w) w)"
  proof (rule changed_indexed [OF w a st])
    show "\<exists>d'. d = desc_lang d' \<and> fully_populated d'" if "Some (simple_lang (lang_value v)) = Some d" for d
      using that by (intro exI [of _ "simple_descriptor v"]) (auto simp: simple_lang_def desc_lang_def simple_descriptor_def desc_simps fully_populated_def)
  qed
  moreover have "put_properties a ob ((ob_properties ob)\<lparr>pm_indexed := ip\<rparr>) (ow_shapes w) w =
      ow_objects_update (\<lambda>m. m(a \<mapsto> ?ob)) w" by (simp add: put_properties_def)
  moreover have "write_dense_element a ob n v w = Some (Inr (Some ?ob), ow_objects_update (\<lambda>m. m(a \<mapsto> ?ob)) w)"
    using st r by (simp add: write_dense_element_def stores_def object_write_def run_simps run_return_def Let_def)
  ultimately show ?thesis by (auto simp: object_shape_def)
qed

definition forget_element_caches ::
  "((js_error + 'a) \<times> 'x vm_world_scheme) option \<Rightarrow> ((js_error + 'a) \<times> 'x vm_world_scheme) option" where
  "forget_element_caches m = map_option (\<lambda>(r, w). (r, w\<lparr>vw_element_ic := []\<rparr>)) m"

section \<open>Properties\<close>

text \<open>C25
  Reading an element of an object by an integer key, with the cache for elements, the short way for own
  data elements or neither, is \<open>[[Get]]\<close>: the same value or exception and the same effects, but
  for the caches, whatever is in them. The caches are hints only.
\<close>
theorem element_read_is_get:
  fixes E :: "('x vm_world_scheme, 'm, 'e) vm_engine_scheme"
  assumes "world_ok w" "ow_objects w a = Some ob" "i < length (vw_element_ic w)" "0 \<le> sint n"
  shows "forget_element_caches (run_bind (get_by_value E push (VInteger32 n) receiver (VObject a) i) (\<lambda>r. run_return (snd r)) w) =
    forget_element_caches (property_context_new (get E a (PKIndex n) receiver) w)"
proof -
  have w: "world_wf w" "plain w" using assms(1) by (simp_all add: world_ok_def)
  let ?g = "get_indexed_data_property (pm_indexed (ob_properties ob)) n"
    and ?hit = "element_ic_matches (ow_shapes w) (vw_element_ic w ! i) (object_shape ob) \<noteq> None"
  note eo = element_ic_object_run [OF assms(2,3), of n]
  have key: "to_property_key E (VInteger32 n) w' = Some (Inr (PKIndex n), w')" for w'
    by (subst to_property_key.simps) (use assms(4) in \<open>simp add: property_key_of_i32_def run_return_def\<close>)
  have tr: "try_element_read (VInteger32 n) (VObject a) i w = Some (Inr (if ?hit then ?g else None), w)"
    using assms(4) by (simp add: try_element_read_def run_bind_cases(1) eo run_return_def)
  show ?thesis
  proof (cases ?g)
    case (Some x)
    note g = get_own_element [OF w assms(2) Some, of E receiver]
    have "get_by_value_short E (VObject a) a (PKIndex n) i w =
        Some (Inr (Some x), w\<lparr>vw_element_ic := (vw_element_ic w)[i := element_ic_seed (object_shape ob)
          (indexed_properties_read_kind (pm_indexed (ob_properties ob)))]\<rparr>) \<or>
      get_by_value_short E (VObject a) a (PKIndex n) i w = Some (Inr None, w)"
      by (simp add: get_by_value_short_def object_borrow_bind assms(2) Some run_bind_cases(1) vm_element_ic_seed_run assms(3) run_return_def)
    then obtain k w' where "get_by_value E push (VInteger32 n) receiver (VObject a) i w = Some (Inr (k, x), w')"
      "w'\<lparr>vw_element_ic := []\<rparr> = w\<lparr>vw_element_ic := []\<rparr>"
      using tr g Some by (cases ?hit) (auto simp: get_by_value_def run_bind_cases(1) base_class_def run_bind_return key run_return_def)
    then show ?thesis by (simp add: g run_bind_cases(1) run_return_def forget_element_caches_def)
  next
    case None
    have "get_by_value_short E (VObject a) a (PKIndex n) i w = Some (Inr None, w)"
      by (simp add: get_by_value_short_def object_borrow_bind assms(2) None run_return_def)
    moreover have "try_element_read (VInteger32 n) (VObject a) i w = Some (Inr None, w)" using tr None by simp
    ultimately have "get_by_value E push (VInteger32 n) receiver (VObject a) i w =
        run_bind (property_context_new (get E a (PKIndex n) receiver))
          (\<lambda>v. run_return (if push then js_value_of_owned_key (en_itoa E) (PKIndex n) else VInteger32 n, v)) w"
      by (simp add: get_by_value_def run_bind_cases(1) base_class_def run_bind_return key)
    then show ?thesis
      by (cases "property_context_new (get E a (PKIndex n) receiver) w")
        (auto simp: run_return_def forget_element_caches_def run_bind_def split: sum.splits)
  qed
qed

theorem element_read_is_get_witness:
  "\<exists>h ob. ob_vtable ob = ArrayMethods \<and>
     forget_element_caches (run_bind (get_by_value demo_vm_engine True (VInteger32 3) VNull (VObject 0) 0)
       (\<lambda>r. run_return (snd r)) (demo_vm h ob)) =
     forget_element_caches (property_context_new (get demo_vm_engine 0 (PKIndex 3) VNull) (demo_vm h ob))"
proof -
  obtain h and ob :: js_object where ob: "length_only h (ob_properties ob)" "ob_vtable ob = ArrayMethods"
    by (rule demo_length_object) blast
  note v = disjI2 [OF ob(2), of "ob_vtable ob = OrdinaryMethods"]
  from element_read_is_get [OF demo_vm_ok(1) [OF ob(1) v], of 0 ob 0 3 demo_vm_engine True VNull] ob(2) show ?thesis by auto
qed

text \<open>C26
  Writing an element that is there, of an extensible object whose elements are dense, by the cache for
  elements or by the short way for arrays, is the assignment \<open>[[Set]]\<close> to the object: both succeed,
  and leave every object with the same properties.
\<close>
theorem element_write_is_set:
  fixes E :: "('x vm_world_scheme, 'm, 'e) vm_engine_scheme"
  assumes "world_ok w" "index_map_laws (en_index_map E)" "ow_objects w a = Some ob" "i < length (vw_element_ic w)"
    and "0 \<le> sint n" "ob_extensible ob" "dense_length (pm_indexed (ob_properties ob)) = Some m" "unat n < m"
    and "ob_vtable ob = ArrayMethods \<and> (\<exists>l b. array_at w a l b) \<and> room w a \<and> array_template E (ow_shapes w) \<or>
      ob_vtable ob \<notin> {ArrayMethods, StringMethods} \<and>
      element_ic_matches (ow_shapes w) (vw_element_ic w ! i) (object_shape ob) \<noteq> None"
  shows "\<exists>w1 w2. property_context_new (set_property E a (PKIndex n) v (VObject a)) w = Some (Inr True, w1) \<and>
    set_property_by_value E v (VInteger32 n) receiver (VObject a) i w = Some (Inr (), w2) \<and>
    (\<forall>c k. property_view w2 c k = property_view w1 c k)"
proof -
  have w: "world_wf w" "plain w" using assms(1) by (simp_all add: world_ok_def)
  let ?hit = "element_ic_matches (ow_shapes w) (vw_element_ic w ! i) (object_shape ob) \<noteq> None"
  let ?x = "Some (simple_lang (lang_value v))"
  obtain u where "indexed_get (pm_indexed (ob_properties ob)) n = Some (simple_descriptor u)"
    using dense_element [OF assms(7,8)] by blast
  then have e: "own_property w a (PKIndex n) = Some (simple_descriptor u)"
    by (simp add: own_property_def stored_property_index [OF assms(3)])
  have sd: "is_data_descriptor (simple_descriptor u)" "pd_writable (simple_descriptor u) = Some True"
    "fully_populated (simple_descriptor u)" "desc_lang (build_value v (simple_descriptor u)) = simple_lang (lang_value v)"
    by (auto simp: simple_descriptor_def desc_simps fully_populated_def simple_lang_def desc_lang_def)
  have n: "n \<noteq> u32_MAX" using assms(5) by (auto simp: u32_MAX_def)
  obtain s where s: "set_property E a (PKIndex n) v (VObject a) (w, slot_new) =
      define_own_property E a (PKIndex n) (build_value v pd_default) (w, s)"
    using set_own_data [OF w assms(3) e sd(1,2)] by blast
  obtain w1 s' where w1: "define_own_property E a (PKIndex n) (build_value v pd_default) (w, s) = Some (Inr True, (w1, s'))"
      "updated w a (PKIndex n) ?x w1"
  proof (cases "ob_vtable ob = ArrayMethods")
    case True
    with assms(9) obtain l b where "array_at w a l b" "room w a" "array_template E (ow_shapes w)" by auto
    from array_value_run [OF assms(2,1) this(1,2) n this(3) e sd(1,2), of v s] sd(4) that show thesis by auto
  next
    case False
    have "valid_key (PKIndex n)" using n by (simp add: valid_key_def)
    with define_value_run [OF w assms(2,3) _ _ this _ e sd(3,1,2), of v s] sd(4) False assms(9) that show thesis
      by (auto simp: array_key_def dest!: changed_updated)
  qed
  obtain ob' w2 f where w2: "write_dense_element a ob n v w = Some (Inr (Some ob'), w2)" "object_shape ob' = object_shape ob"
      "changed w a (PKIndex n) ?x True w2" "w2 = ow_objects_update f w"
    using write_dense_element_run [OF w(1) assms(3,7,8), of v] by blast
  have sa: "\<exists>es. set_array_element v (PKIndex n) a i w = Some (Inr True, w2\<lparr>vw_element_ic := es\<rparr>)" if "ob_vtable ob = ArrayMethods"
  proof -
    have "is_array a w = Some (Inr True, w)" using that by (simp add: is_array_def object_borrow_bind assms(3) run_return_def)
    moreover have "i < length (vw_element_ic w2)" using assms(4) w2(4) by simp
    ultimately show ?thesis
      using assms(6) w2(1)
      by (simp add: set_array_element_def run_bind_cases(1) object_borrow_bind assms(3) run_return_def vm_element_ic_seed_run
          split: option.split) (metis vm_world.surjective vm_world.update_convs(2))
  qed
  have key: "to_property_key E (VInteger32 n) w' = Some (Inr (PKIndex n), w')" for w'
    by (subst to_property_key.simps) (use assms(5) in \<open>simp add: property_key_of_i32_def run_return_def\<close>)
  have "\<exists>es. set_property_by_value E v (VInteger32 n) receiver (VObject a) i w = Some (Inr (), w2\<lparr>vw_element_ic := es\<rparr>)"
  proof (cases ?hit)
    case True
    then have "try_element_write v (VInteger32 n) (VObject a) i w = Some (Inr True, w2)"
      using assms(5,6) w2(1) by (simp add: try_element_write_def run_bind_cases(1) element_ic_object_run assms(3,4) run_return_def)
    then show ?thesis
      by (intro exI [of _ "vw_element_ic w2"]) (simp add: set_property_by_value_def run_bind_cases(1) run_return_def)
  next
    case False
    then have "try_element_write v (VInteger32 n) (VObject a) i w = Some (Inr False, w)"
      by (simp add: try_element_write_def run_bind_cases(1) element_ic_object_run assms(3,4) run_return_def)
    moreover obtain es where "set_array_element v (PKIndex n) a i w = Some (Inr True, w2\<lparr>vw_element_ic := es\<rparr>)"
      using sa False assms(9) by blast
    ultimately show ?thesis
      by (intro exI [of _ es]) (simp add: set_property_by_value_def run_bind_def to_object_def key run_return_def)
  qed
  then obtain es where "set_property_by_value E v (VInteger32 n) receiver (VObject a) i w = Some (Inr (), w2\<lparr>vw_element_ic := es\<rparr>)" by blast
  moreover have "property_view (w2\<lparr>vw_element_ic := es\<rparr>) c k = property_view w1 c k" for c k
    using updated_same [OF changed_updated [OF w2(3)] w1(2), of c k] by (simp add: property_view_def stored_property_def split: option.splits)
  ultimately show ?thesis using s w1(1) by (auto simp: property_context_new_def)
qed

theorem element_write_is_set_witness:
  "\<exists>(w :: vm_world) w1 w2. property_context_new (set_property demo_vm_engine 0 (PKIndex 0) VNull (VObject 0)) w = Some (Inr True, w1) \<and>
     set_property_by_value demo_vm_engine VNull (VInteger32 0) VNull (VObject 0) 0 w = Some (Inr (), w2)"
proof -
  obtain h and ob :: js_object where ob: "length_only h (ob_properties ob)" "ob_vtable ob = OrdinaryMethods" "ob_extensible ob"
    by (rule demo_length_object) blast
  note v = disjI1 [OF ob(2), of "ob_vtable ob = ArrayMethods"] and pm = length_onlyD [OF ob(1)]
  let ?w = "demo_vm h ob" and ?pm = "(ob_properties ob)\<lparr>pm_indexed := DenseI32 [7]\<rparr>"
  let ?ob = "ob\<lparr>ob_properties := ?pm\<rparr>" and ?w' = "put_properties 0 ob ?pm (ow_shapes ?w) ?w"
  have o: "ow_objects ?w 0 = Some ob" "world_wf ?w" using demo_vm_ok(1) [OF ob(1) v] by (simp_all add: world_ok_def)
  have "indexed_wf indexed_default" "dense_length indexed_default = Some 0" by (simp_all add: indexed_default_def)
  from push_dense_view [OF this, of "VInteger32 7"]
  have "stores (True, DenseI32 [7]) ((indexed_view (pm_indexed (ob_properties ob)))(0 \<mapsto> simple_lang (lang_value (VInteger32 7)))) True"
    by (simp add: stores_def pm(4) indexed_default_def)
  then have "changed ?w 0 (PKIndex 0) (Some (simple_lang (lang_value (VInteger32 7)))) True ?w'"
    by (rule changed_indexed [OF o(2,1)])
      (auto simp: simple_lang_def desc_lang_def simple_descriptor_def desc_simps fully_populated_def
        intro!: exI [of _ "simple_descriptor (VInteger32 7)"])
  from changed_ok(1) [OF demo_vm_ok(1) [OF ob(1) v] this o(1)] have ok: "world_ok ?w'" .
  have "ow_objects ?w' 0 = Some ?ob" "vw_element_ic ?w' = [element_ic_seed (Unique 0) KindDenseI32]" "ow_shapes ?w' = h"
    by (simp_all add: put_properties_def)
  moreover have "object_shape ?ob = Unique 0" using pm(8) by (simp add: object_shape_def)
  ultimately have "\<exists>w1 w2. property_context_new (set_property demo_vm_engine 0 (PKIndex 0) VNull (VObject 0)) ?w' = Some (Inr True, w1) \<and>
      set_property_by_value demo_vm_engine VNull (VInteger32 0) VNull (VObject 0) 0 ?w' = Some (Inr (), w2) \<and>
      (\<forall>c k. property_view w2 c k = property_view w1 c k)"
    by (intro element_write_is_set [where ob = ?ob and m = 1, OF ok])
      (use ob pm(9) in \<open>simp_all add: element_ic_matches_def element_ic_seed_def\<close>)
  then show ?thesis by blast
qed

end
