(* ===== verification/OrderedCollections.thy ===== *)
theory OrderedCollections
  imports JsValue "HOL-Library.Monad_Syntax"
begin

text \<open>
  The data of \<open>Map\<close> and \<open>Set\<close> objects (\<open>builtins/map/ordered_map.rs\<close>,
  \<open>builtins/set/ordered_set.rs\<close>): an \<open>IndexMap\<close> (or \<open>IndexSet\<close>) of the \<open>indexmap\<close> package, a count
  of the iterations in progress, and a count of the entries that were emptied instead of removed
  because an iteration was in progress. The package's operations are an argument of the
  definitions; \<open>indexmap_laws\<close> is their documented behaviour. An \<open>IndexSet\<close> is an \<open>IndexMap\<close> to the
  unit, as the package defines it.
\<close>

section \<open>Keys\<close>

datatype map_key = MKey js_value | MEmpty nat

fun hash_map_key :: "map_key \<Rightarrow> hash_input + nat" where
  "hash_map_key (MKey v) = Inl (hash_value v)"
| "hash_map_key (MEmpty e) = Inr e"

text \<open>\<open>Equivalent<MapKey> for JsValue\<close>, and the derived \<open>Eq\<close>.\<close>

fun equivalent :: "js_value \<Rightarrow> map_key \<Rightarrow> bool" where
  "equivalent self (MKey v) = same_value_zero v self"
| "equivalent self (MEmpty _) = False"

fun map_key_eq :: "map_key \<Rightarrow> map_key \<Rightarrow> bool" where
  "map_key_eq (MKey v) (MKey w) = same_value_zero v w"
| "map_key_eq (MEmpty a) (MEmpty b) = (a = b)"
| "map_key_eq _ _ = False"

definition canonicalize_keyed_collection_key :: "js_value \<Rightarrow> js_value" where
  "canonicalize_keyed_collection_key value =
     (case as_number value of
        Some n \<Rightarrow> if f64_is_zero n then VInteger32 0 else value
      | None \<Rightarrow> value)"

section \<open>The package\<close>

record ('m, 'v) indexmap =
  ix_new :: 'm
  ix_len :: "'m \<Rightarrow> nat"
  ix_insert :: "'m \<Rightarrow> map_key \<Rightarrow> 'v \<Rightarrow> 'v option \<times> 'm"
  ix_shift_remove :: "'m \<Rightarrow> js_value \<Rightarrow> 'v option \<times> 'm"
  ix_swap_remove :: "'m \<Rightarrow> js_value \<Rightarrow> 'v option \<times> 'm"
  ix_contains_key :: "'m \<Rightarrow> js_value \<Rightarrow> bool"
  ix_get :: "'m \<Rightarrow> js_value \<Rightarrow> 'v option"
  ix_get_index :: "'m \<Rightarrow> nat \<Rightarrow> (map_key \<times> 'v) option"
  ix_clear :: "'m \<Rightarrow> 'm"
  ix_retain :: "(map_key \<Rightarrow> bool) \<Rightarrow> 'm \<Rightarrow> 'm"
  ix_iter :: "'m \<Rightarrow> (map_key \<times> 'v) list"

fun key_index :: "map_key \<Rightarrow> (map_key \<times> 'v) list \<Rightarrow> nat option" where
  "key_index k [] = None"
| "key_index k ((k', v) # xs) = (if map_key_eq k' k then Some 0 else map_option Suc (key_index k xs))"

definition list_put :: "map_key \<Rightarrow> 'v \<Rightarrow> (map_key \<times> 'v) list \<Rightarrow> (map_key \<times> 'v) list" where
  "list_put k v xs = (case key_index k xs of None \<Rightarrow> xs @ [(k, v)] | Some i \<Rightarrow> xs[i := (fst (xs ! i), v)])"

definition list_value :: "map_key \<Rightarrow> (map_key \<times> 'v) list \<Rightarrow> 'v option" where
  "list_value k xs = map_option (\<lambda>i. snd (xs ! i)) (key_index k xs)"

definition list_shift_remove :: "map_key \<Rightarrow> (map_key \<times> 'v) list \<Rightarrow> (map_key \<times> 'v) list" where
  "list_shift_remove k xs = (case key_index k xs of None \<Rightarrow> xs | Some i \<Rightarrow> take i xs @ drop (Suc i) xs)"

definition list_swap_remove :: "map_key \<Rightarrow> (map_key \<times> 'v) list \<Rightarrow> (map_key \<times> 'v) list" where
  "list_swap_remove k xs = (case key_index k xs of None \<Rightarrow> xs | Some i \<Rightarrow> butlast (xs[i := last xs]))"

text \<open>
  A hash table requires of its keys that equal ones have equal hashes. That fails for the two zeros
  and for two NaNs, so the laws are for keys among which it holds: the canonical ones.
\<close>

fun normal_value :: "js_value \<Rightarrow> bool" where
  "normal_value (VFloat64 f) = ((f64_is_nan f \<longrightarrow> f = f64_NAN) \<and> (f64_is_zero f \<longrightarrow> f = 0))"
| "normal_value _ = True"

fun normal_key :: "map_key \<Rightarrow> bool" where
  "normal_key (MKey v) = normal_value v"
| "normal_key (MEmpty _) = True"

definition indexmap_laws :: "('m, 'v) indexmap \<Rightarrow> bool" where
  "indexmap_laws ix \<longleftrightarrow>
     ix_iter ix (ix_new ix) = [] \<and>
     (\<forall>m. ix_iter ix (ix_clear ix m) = [] \<and> ix_len ix m = length (ix_iter ix m)) \<and>
     (\<forall>m i. ix_get_index ix m i = (if i < length (ix_iter ix m) then Some (ix_iter ix m ! i) else None)) \<and>
     (\<forall>m p. ix_iter ix (ix_retain ix p m) = filter (\<lambda>e. p (fst e)) (ix_iter ix m)) \<and>
     (\<forall>m k v. list_all (\<lambda>e. normal_key (fst e)) (ix_iter ix m) \<longrightarrow> normal_key k \<longrightarrow>
        fst (ix_insert ix m k v) = list_value k (ix_iter ix m) \<and>
        ix_iter ix (snd (ix_insert ix m k v)) = list_put k v (ix_iter ix m)) \<and>
     (\<forall>m v. list_all (\<lambda>e. normal_key (fst e)) (ix_iter ix m) \<longrightarrow> normal_value v \<longrightarrow>
        ix_get ix m v = list_value (MKey v) (ix_iter ix m) \<and>
        (ix_contains_key ix m v \<longleftrightarrow> key_index (MKey v) (ix_iter ix m) \<noteq> None) \<and>
        fst (ix_shift_remove ix m v) = list_value (MKey v) (ix_iter ix m) \<and>
        ix_iter ix (snd (ix_shift_remove ix m v)) = list_shift_remove (MKey v) (ix_iter ix m) \<and>
        fst (ix_swap_remove ix m v) = list_value (MKey v) (ix_iter ix m) \<and>
        ix_iter ix (snd (ix_swap_remove ix m v)) = list_swap_remove (MKey v) (ix_iter ix m))"

text \<open>A list is such a map.\<close>

definition list_indexmap :: "((map_key \<times> 'v) list, 'v) indexmap" where
  "list_indexmap =
     \<lparr>ix_new = [], ix_len = length, ix_insert = (\<lambda>m k v. (list_value k m, list_put k v m)),
      ix_shift_remove = (\<lambda>m v. (list_value (MKey v) m, list_shift_remove (MKey v) m)),
      ix_swap_remove = (\<lambda>m v. (list_value (MKey v) m, list_swap_remove (MKey v) m)),
      ix_contains_key = (\<lambda>m v. key_index (MKey v) m \<noteq> None), ix_get = (\<lambda>m v. list_value (MKey v) m),
      ix_get_index = (\<lambda>m i. if i < length m then Some (m ! i) else None),
      ix_clear = (\<lambda>_. []), ix_retain = (\<lambda>p m. filter (\<lambda>e. p (fst e)) m), ix_iter = (\<lambda>m. m)\<rparr>"

lemma list_indexmap_laws: "indexmap_laws list_indexmap"
  by (simp add: indexmap_laws_def list_indexmap_def)

section \<open>\<open>OrderedMap\<close>\<close>

record 'm ordered =
  or_map :: 'm
  or_lock :: u32
  or_empty_count :: nat

definition om_new :: "('m, 'v option) indexmap \<Rightarrow> 'm ordered" where
  "om_new ix = \<lparr>or_map = ix_new ix, or_lock = 0, or_empty_count = 0\<rparr>"

definition om_full_len :: "('m, 'v option) indexmap \<Rightarrow> 'm ordered \<Rightarrow> nat" where
  "om_full_len ix self = ix_len ix (or_map self)"

definition om_len :: "('m, 'v option) indexmap \<Rightarrow> 'm ordered \<Rightarrow> nat" where
  "om_len ix self = ix_len ix (or_map self) - or_empty_count self"

definition om_is_empty :: "('m, 'v option) indexmap \<Rightarrow> 'm ordered \<Rightarrow> bool" where
  "om_is_empty ix self \<longleftrightarrow> om_len ix self = 0"

definition flatten_option :: "'a option option \<Rightarrow> 'a option" where
  "flatten_option x = (case x of None \<Rightarrow> None | Some y \<Rightarrow> y)"

definition om_insert :: "('m, 'v option) indexmap \<Rightarrow> 'm ordered \<Rightarrow> js_value \<Rightarrow> 'v \<Rightarrow> 'v option \<times> 'm ordered" where
  "om_insert ix self key value =
     (let (old, m) = ix_insert ix (or_map self) (MKey key) (Some value) in
      (flatten_option old, self\<lparr>or_map := m\<rparr>))"

definition om_remove :: "('m, 'v option) indexmap \<Rightarrow> 'm ordered \<Rightarrow> js_value \<Rightarrow> 'v option \<times> 'm ordered" where
  "om_remove ix self key =
     (if or_lock self = 0 then
        (let (old, m) = ix_shift_remove ix (or_map self) key in (flatten_option old, self\<lparr>or_map := m\<rparr>))
      else if ix_contains_key ix (or_map self) key then
        (let (_, m) = ix_insert ix (or_map self) (MEmpty (or_empty_count self)) None;
             (old, m) = ix_swap_remove ix m key in
         (flatten_option old, self\<lparr>or_map := m, or_empty_count := or_empty_count self + 1\<rparr>))
      else (None, self))"

definition om_clear :: "('m, 'v option) indexmap \<Rightarrow> 'm ordered \<Rightarrow> 'm ordered" where
  "om_clear ix self = self\<lparr>or_map := ix_clear ix (or_map self), or_empty_count := 0\<rparr>"

definition om_get :: "('m, 'v option) indexmap \<Rightarrow> 'm ordered \<Rightarrow> js_value \<Rightarrow> 'v option" where
  "om_get ix self key = flatten_option (ix_get ix (or_map self) key)"

fun entry_pair :: "map_key \<times> 'v option \<Rightarrow> (js_value \<times> 'v) option" where
  "entry_pair (MKey key, Some value) = Some (key, value)"
| "entry_pair _ = None"

definition om_get_index :: "('m, 'v option) indexmap \<Rightarrow> 'm ordered \<Rightarrow> nat \<Rightarrow> (js_value \<times> 'v) option" where
  "om_get_index ix self index =
     (case ix_get_index ix (or_map self) index of None \<Rightarrow> None | Some e \<Rightarrow> entry_pair e)"

definition om_iter :: "('m, 'v option) indexmap \<Rightarrow> 'm ordered \<Rightarrow> (js_value \<times> 'v) list" where
  "om_iter ix self = List.map_filter entry_pair (ix_iter ix (or_map self))"

definition om_contains_key :: "('m, 'v option) indexmap \<Rightarrow> 'm ordered \<Rightarrow> js_value \<Rightarrow> bool" where
  "om_contains_key ix self key = ix_contains_key ix (or_map self) key"

fun is_live_key :: "map_key \<Rightarrow> bool" where
  "is_live_key (MKey _) = True"
| "is_live_key (MEmpty _) = False"

definition om_lock :: "'m ordered \<Rightarrow> 'm ordered" where
  "om_lock self = self\<lparr>or_lock := or_lock self + 1\<rparr>"

definition om_unlock :: "('m, 'v) indexmap \<Rightarrow> 'm ordered \<Rightarrow> 'm ordered" where
  "om_unlock ix self =
     (let self = self\<lparr>or_lock := or_lock self - 1\<rparr> in
      if or_lock self = 0
      then self\<lparr>or_map := ix_retain ix is_live_key (or_map self), or_empty_count := 0\<rparr>
      else self)"

section \<open>\<open>OrderedSet\<close>\<close>

definition os_new :: "('m, unit) indexmap \<Rightarrow> 'm ordered" where
  "os_new ix = \<lparr>or_map = ix_new ix, or_lock = 0, or_empty_count = 0\<rparr>"

definition os_full_len :: "('m, unit) indexmap \<Rightarrow> 'm ordered \<Rightarrow> nat" where
  "os_full_len ix self = ix_len ix (or_map self)"

definition os_len :: "('m, unit) indexmap \<Rightarrow> 'm ordered \<Rightarrow> nat" where
  "os_len ix self = ix_len ix (or_map self) - or_empty_count self"

definition os_is_empty :: "('m, unit) indexmap \<Rightarrow> 'm ordered \<Rightarrow> bool" where
  "os_is_empty ix self \<longleftrightarrow> ix_len ix (or_map self) = 0"

definition os_add :: "('m, unit) indexmap \<Rightarrow> 'm ordered \<Rightarrow> js_value \<Rightarrow> bool \<times> 'm ordered" where
  "os_add ix self value =
     (let (old, m) = ix_insert ix (or_map self) (MKey value) () in (old = None, self\<lparr>or_map := m\<rparr>))"

definition os_delete :: "('m, unit) indexmap \<Rightarrow> 'm ordered \<Rightarrow> js_value \<Rightarrow> bool \<times> 'm ordered" where
  "os_delete ix self value =
     (if or_lock self = 0 then
        (let (old, m) = ix_shift_remove ix (or_map self) value in (old \<noteq> None, self\<lparr>or_map := m\<rparr>))
      else if ix_contains_key ix (or_map self) value then
        (let (_, m) = ix_insert ix (or_map self) (MEmpty (or_empty_count self)) ();
             (old, m) = ix_swap_remove ix m value in
         (old \<noteq> None, self\<lparr>or_map := m, or_empty_count := or_empty_count self + 1\<rparr>))
      else (False, self))"

definition os_clear :: "('m, unit) indexmap \<Rightarrow> 'm ordered \<Rightarrow> 'm ordered" where
  "os_clear ix self = self\<lparr>or_map := ix_clear ix (or_map self), or_empty_count := 0\<rparr>"

definition os_contains :: "('m, unit) indexmap \<Rightarrow> 'm ordered \<Rightarrow> js_value \<Rightarrow> bool" where
  "os_contains ix self value = ix_contains_key ix (or_map self) value"

fun entry_value :: "map_key \<times> unit \<Rightarrow> js_value option" where
  "entry_value (MKey value, _) = Some value"
| "entry_value (MEmpty _, _) = None"

definition os_get_index :: "('m, unit) indexmap \<Rightarrow> 'm ordered \<Rightarrow> nat \<Rightarrow> js_value option" where
  "os_get_index ix self index =
     (case ix_get_index ix (or_map self) index of None \<Rightarrow> None | Some e \<Rightarrow> entry_value e)"

definition os_iter :: "('m, unit) indexmap \<Rightarrow> 'm ordered \<Rightarrow> js_value list" where
  "os_iter ix self = List.map_filter entry_value (ix_iter ix (or_map self))"

definition os_lock :: "'m ordered \<Rightarrow> 'm ordered" where
  "os_lock self = self\<lparr>or_lock := or_lock self + 1\<rparr>"

definition os_unlock :: "('m, unit) indexmap \<Rightarrow> 'm ordered \<Rightarrow> 'm ordered" where
  "os_unlock ix self =
     (let self = self\<lparr>or_lock := or_lock self - 1\<rparr> in
      if or_lock self = 0
      then self\<lparr>or_map := ix_retain ix is_live_key (or_map self), or_empty_count := 0\<rparr>
      else self)"

end
