(* ===== verification/OrderedFacts.thy ===== *)
theory OrderedFacts
  imports OrderedCollections
begin

text \<open>
  Maps and sets as the sequences that they are to a program: \<open>om_iter\<close> and \<open>os_iter\<close>. Insertion,
  removal and lookup are those of an association list up to \<open>same_value_zero\<close>, whether entries are
  removed or, during an iteration, emptied; and while an iteration is in progress no index moves.
\<close>

section \<open>Association lists of values\<close>

fun put_pair :: "js_value \<Rightarrow> 'v \<Rightarrow> (js_value \<times> 'v) list \<Rightarrow> (js_value \<times> 'v) list" where
  "put_pair k v [] = [(k, v)]"
| "put_pair k v ((k', v') # ps) = (if same_value_zero k' k then (k', v) # ps else (k', v') # put_pair k v ps)"

fun del_pair :: "js_value \<Rightarrow> (js_value \<times> 'v) list \<Rightarrow> (js_value \<times> 'v) list" where
  "del_pair k [] = []"
| "del_pair k ((k', v') # ps) = (if same_value_zero k' k then ps else (k', v') # del_pair k ps)"

fun find_pair :: "js_value \<Rightarrow> (js_value \<times> 'v) list \<Rightarrow> 'v option" where
  "find_pair k [] = None"
| "find_pair k ((k', v') # ps) = (if same_value_zero k' k then Some v' else find_pair k ps)"

section \<open>The list operations by recursion\<close>

lemma key_index_less: "key_index k xs = Some i \<Longrightarrow> i < length xs"
  by (induction k xs arbitrary: i rule: key_index.induct) (auto split: if_splits)

lemma list_put_simps [simp]:
  "list_put k v [] = [(k, v)]"
  "list_put k v ((k', v') # xs) = (if map_key_eq k' k then (k', v) # xs else (k', v') # list_put k v xs)"
  by (auto simp: list_put_def split: option.split)

lemma list_value_simps [simp]:
  "list_value k [] = None"
  "list_value k ((k', v') # xs) = (if map_key_eq k' k then Some v' else list_value k xs)"
  by (auto simp: list_value_def option.map_comp comp_def)

lemma list_shift_remove_simps [simp]:
  "list_shift_remove k [] = []"
  "list_shift_remove k ((k', v') # xs) = (if map_key_eq k' k then xs else (k', v') # list_shift_remove k xs)"
  by (auto simp: list_shift_remove_def split: option.split)

lemma list_value_absent: "key_index k xs = None \<Longrightarrow> list_value k xs = None"
  by (simp add: list_value_def)

text \<open>An entry that is emptied in place: what appending and swapping amounts to.\<close>

fun list_blank :: "map_key \<Rightarrow> map_key \<times> 'v \<Rightarrow> (map_key \<times> 'v) list \<Rightarrow> (map_key \<times> 'v) list" where
  "list_blank k e [] = []"
| "list_blank k e ((k', v') # xs) = (if map_key_eq k' k then e # xs else (k', v') # list_blank k e xs)"

lemma key_index_snoc: "key_index k xs = Some i \<Longrightarrow> key_index k (xs @ ys) = Some i"
  by (induction k xs arbitrary: i rule: key_index.induct) (auto split: if_splits)

lemma list_blank_nth: "key_index k xs = Some i \<Longrightarrow> list_blank k e xs = xs[i := e]"
  by (induction k xs arbitrary: i rule: key_index.induct) (auto split: if_splits)

lemma list_blank_absent: "key_index k xs = None \<Longrightarrow> list_blank k e xs = xs"
  by (induction k xs rule: key_index.induct) (auto split: if_splits)

lemma list_swap_blank:
  assumes "key_index k xs = Some i"
  shows "list_swap_remove k (xs @ [e]) = list_blank k e xs"
  using key_index_less [OF assms]
  by (simp add: list_swap_remove_def key_index_snoc [OF assms] list_blank_nth [OF assms] list_update_append)

lemma list_put_new: "key_index k xs = None \<Longrightarrow> list_put k v xs = xs @ [(k, v)]"
  by (simp add: list_put_def)

lemma list_value_snoc: "key_index k xs \<noteq> None \<Longrightarrow> list_value k (xs @ ys) = list_value k xs"
  by (induction k xs rule: key_index.induct) auto

lemma key_index_None_iff: "key_index k xs = None \<longleftrightarrow> (\<forall>e \<in> set xs. \<not> map_key_eq (fst e) k)"
  by (induction k xs rule: key_index.induct) auto

section \<open>Invariant\<close>

text \<open>
  Every entry with a key has a value, every emptied one has a number below the count, which counts
  them, and only while an iteration is in progress there are any.
\<close>

fun entry_ok :: "('v \<Rightarrow> bool) \<Rightarrow> nat \<Rightarrow> map_key \<times> 'v \<Rightarrow> bool" where
  "entry_ok live n (MKey k, v) = (normal_value k \<and> live v)"
| "entry_ok live n (MEmpty e, v) = (e < n)"

definition ordered_entries_ok :: "('v \<Rightarrow> bool) \<Rightarrow> nat \<Rightarrow> (map_key \<times> 'v) list \<Rightarrow> bool" where
  "ordered_entries_ok live n xs \<longleftrightarrow>
     list_all (entry_ok live n) xs \<and> length (filter (\<lambda>e. \<not> is_live_key (fst e)) xs) = n"

definition ordered_wf :: "('m, 'v) indexmap \<Rightarrow> ('v \<Rightarrow> bool) \<Rightarrow> 'm ordered \<Rightarrow> bool" where
  "ordered_wf ix live self \<longleftrightarrow>
     ordered_entries_ok live (or_empty_count self) (ix_iter ix (or_map self)) \<and>
     (or_lock self = 0 \<longrightarrow> or_empty_count self = 0)"

lemma map_key_eq_live: "map_key_eq k' (MKey k) \<Longrightarrow> is_live_key k'"
  by (cases k') simp_all

lemma ok_put:
  assumes "ordered_entries_ok live n xs" "normal_value k" "live v"
  shows "ordered_entries_ok live n (list_put (MKey k) v xs)"
proof -
  have "length (filter (\<lambda>e. \<not> is_live_key (fst e)) (list_put (MKey k) v xs)) =
      length (filter (\<lambda>e. \<not> is_live_key (fst e)) xs)"
    by (induction xs) (auto dest: map_key_eq_live)
  moreover have "entry_ok live n (k', v)" if "entry_ok live n (k', v')" for k' v'
    using that assms(3) by (cases k') simp_all
  then have "list_all (entry_ok live n) xs \<Longrightarrow> list_all (entry_ok live n) (list_put (MKey k) v xs)"
    using assms(2,3) by (induction xs) auto
  ultimately show ?thesis using assms(1) by (simp add: ordered_entries_ok_def)
qed

lemma ok_shift_remove:
  assumes "ordered_entries_ok live n xs"
  shows "ordered_entries_ok live n (list_shift_remove (MKey k) xs)"
proof -
  have "length (filter (\<lambda>e. \<not> is_live_key (fst e)) (list_shift_remove (MKey k) xs)) =
      length (filter (\<lambda>e. \<not> is_live_key (fst e)) xs)"
    by (induction xs) (auto dest: map_key_eq_live)
  moreover have "list_all (entry_ok live n) xs \<Longrightarrow> list_all (entry_ok live n) (list_shift_remove (MKey k) xs)"
    by (induction xs) auto
  ultimately show ?thesis using assms by (simp add: ordered_entries_ok_def)
qed

lemma entry_ok_Suc: "entry_ok live n e \<Longrightarrow> entry_ok live (Suc n) e"
  by (cases "(live, n, e)" rule: entry_ok.cases) simp_all

lemma ok_blank:
  assumes "ordered_entries_ok live n xs" "key_index (MKey k) xs \<noteq> None"
  shows "ordered_entries_ok live (Suc n) (list_blank (MKey k) (MEmpty n, g) xs)"
proof -
  have "key_index (MKey k) xs \<noteq> None \<Longrightarrow>
      length (filter (\<lambda>e. \<not> is_live_key (fst e)) (list_blank (MKey k) (MEmpty n, g) xs)) =
      Suc (length (filter (\<lambda>e. \<not> is_live_key (fst e)) xs))"
    using map_key_eq_live [of _ k] by (induction xs) auto
  moreover have "list_all P xs \<Longrightarrow> P e \<Longrightarrow> list_all P (list_blank (MKey k) e xs)" for P e
    by (induction xs) auto
  moreover have "list_all (entry_ok live (Suc n)) xs"
    using assms(1) by (auto simp: ordered_entries_ok_def entry_ok_Suc elim!: list.pred_mono_strong)
  ultimately show ?thesis using assms by (simp add: ordered_entries_ok_def)
qed

lemma ok_normal: "ordered_entries_ok live n xs \<Longrightarrow> list_all (\<lambda>e. normal_key (fst e)) xs"
proof -
  have "entry_ok live n e \<Longrightarrow> normal_key (fst e)" for e
    by (cases "(live, n, e)" rule: entry_ok.cases) simp_all
  moreover assume "ordered_entries_ok live n xs"
  ultimately show ?thesis by (auto simp: ordered_entries_ok_def list_all_iff)
qed

lemma ok_fresh: "ordered_entries_ok live n xs \<Longrightarrow> key_index (MEmpty n) xs = None"
proof -
  have "entry_ok live n e \<Longrightarrow> \<not> map_key_eq (fst e) (MEmpty n)" for e
    by (cases "(live, n, e)" rule: entry_ok.cases) simp_all
  moreover assume "ordered_entries_ok live n xs"
  ultimately show ?thesis by (auto simp: ordered_entries_ok_def list_all_iff key_index_None_iff)
qed

lemma ok_retain:
  "ordered_entries_ok live n xs \<Longrightarrow> ordered_entries_ok live 0 (filter (\<lambda>e. is_live_key (fst e)) xs)"
proof -
  have "entry_ok live n e \<Longrightarrow> is_live_key (fst e) \<Longrightarrow> entry_ok live 0 e" for e
    by (cases "(live, n, e)" rule: entry_ok.cases) simp_all
  moreover assume "ordered_entries_ok live n xs"
  ultimately show ?thesis by (auto simp: ordered_entries_ok_def list_all_iff)
qed

lemma ok_nil [simp]: "ordered_entries_ok live 0 []"
  by (simp add: ordered_entries_ok_def)

section \<open>The two removals\<close>

text \<open>\<open>remove\<close> and \<open>delete\<close> are one operation; \<open>g\<close> is the value of an emptied entry.\<close>

definition ordered_remove :: "('m, 'v) indexmap \<Rightarrow> 'v \<Rightarrow> 'm ordered \<Rightarrow> js_value \<Rightarrow> 'v option \<times> 'm ordered" where
  "ordered_remove ix g self key =
     (if or_lock self = 0 then
        (let (old, m) = ix_shift_remove ix (or_map self) key in (old, self\<lparr>or_map := m\<rparr>))
      else if ix_contains_key ix (or_map self) key then
        (let (_, m) = ix_insert ix (or_map self) (MEmpty (or_empty_count self)) g;
             (old, m) = ix_swap_remove ix m key in
         (old, self\<lparr>or_map := m, or_empty_count := or_empty_count self + 1\<rparr>))
      else (None, self))"

lemma om_remove_ordered: "om_remove ix self key = apfst flatten_option (ordered_remove ix None self key)"
  by (auto simp: om_remove_def ordered_remove_def Let_def flatten_option_def split: prod.splits)

lemma os_delete_ordered: "os_delete ix self key = apfst (\<lambda>old. old \<noteq> None) (ordered_remove ix () self key)"
  by (auto simp: os_delete_def ordered_remove_def Let_def split: prod.splits)

abbreviation entries_of :: "('m, 'v) indexmap \<Rightarrow> 'm ordered \<Rightarrow> (map_key \<times> 'v) list" where
  "entries_of ix self \<equiv> ix_iter ix (or_map self)"

lemma indexmap_insert:
  assumes "indexmap_laws ix" "ordered_wf ix live self" "normal_key k"
  shows "fst (ix_insert ix (or_map self) k v) = list_value k (entries_of ix self)"
    "ix_iter ix (snd (ix_insert ix (or_map self) k v)) = list_put k v (entries_of ix self)"
  using assms ok_normal unfolding indexmap_laws_def ordered_wf_def by blast+

lemma indexmap_lookup:
  assumes "indexmap_laws ix" "ordered_wf ix live self" "normal_value v"
  shows "ix_get ix (or_map self) v = list_value (MKey v) (entries_of ix self)"
    "ix_contains_key ix (or_map self) v \<longleftrightarrow> key_index (MKey v) (entries_of ix self) \<noteq> None"
    "fst (ix_shift_remove ix (or_map self) v) = list_value (MKey v) (entries_of ix self)"
    "ix_iter ix (snd (ix_shift_remove ix (or_map self) v)) = list_shift_remove (MKey v) (entries_of ix self)"
  using assms ok_normal unfolding indexmap_laws_def ordered_wf_def by blast+

lemma list_value_None: "list_value k xs = None \<longleftrightarrow> key_index k xs = None"
  by (simp add: list_value_def)

text \<open>What a removal does to the entries, by whether an iteration is in progress.\<close>

lemma ordered_remove_entries:
  assumes laws: "indexmap_laws ix" and wf: "ordered_wf ix live self" and k: "normal_value k"
  shows "fst (ordered_remove ix g self k) = list_value (MKey k) (entries_of ix self)"
    and "entries_of ix (snd (ordered_remove ix g self k)) =
      (if or_lock self = 0 then list_shift_remove (MKey k) (entries_of ix self)
       else list_blank (MKey k) (MEmpty (or_empty_count self), g) (entries_of ix self))"
    and "or_lock (snd (ordered_remove ix g self k)) = or_lock self"
    and "ordered_wf ix live (snd (ordered_remove ix g self k))"
proof -
  let ?xs = "entries_of ix self" and ?n = "or_empty_count self" and ?r = "ordered_remove ix g self k"
  have ok: "ordered_entries_ok live ?n ?xs" using wf by (simp add: ordered_wf_def)
  note l = indexmap_lookup [OF laws wf k]
  have "fst ?r = list_value (MKey k) ?xs \<and>
    entries_of ix (snd ?r) = (if or_lock self = 0 then list_shift_remove (MKey k) ?xs
       else list_blank (MKey k) (MEmpty ?n, g) ?xs) \<and>
    or_lock (snd ?r) = or_lock self \<and> ordered_wf ix live (snd ?r)"
  proof (cases "or_lock self = 0")
    case True
    have "?r = (fst (ix_shift_remove ix (or_map self) k), self\<lparr>or_map := snd (ix_shift_remove ix (or_map self) k)\<rparr>)"
      by (simp add: ordered_remove_def True split_def Let_def)
    with True l wf ok ok_shift_remove [OF ok] show ?thesis by (simp add: ordered_wf_def)
  next
    case locked: False
    show ?thesis
    proof (cases "key_index (MKey k) ?xs")
      case None
      then have "list_blank (MKey k) e ?xs = ?xs" for e by (rule list_blank_absent)
      with None locked l wf show ?thesis by (simp add: ordered_remove_def list_value_absent)
    next
      case (Some i)
      let ?e = "(MEmpty ?n, g)"
      let ?m = "snd (ix_insert ix (or_map self) (MEmpty ?n) g)"
      have m: "ix_iter ix ?m = ?xs @ [?e]"
        using indexmap_insert(2) [OF laws wf, of "MEmpty ?n" g] list_put_new [OF ok_fresh [OF ok]] by simp
      have nm: "list_all (\<lambda>e. normal_key (fst e)) (ix_iter ix ?m)"
        using ok_normal [OF ok] by (simp add: m)
      have sw: "fst (ix_swap_remove ix ?m k) = list_value (MKey k) ?xs"
        "ix_iter ix (snd (ix_swap_remove ix ?m k)) = list_blank (MKey k) ?e ?xs"
        using laws nm k Some list_value_snoc [of "MKey k" ?xs "[?e]"] list_swap_blank [OF Some, of ?e]
        unfolding indexmap_laws_def m [symmetric] by simp_all
      have "?r = (fst (ix_swap_remove ix ?m k),
          self\<lparr>or_map := snd (ix_swap_remove ix ?m k), or_empty_count := ?n + 1\<rparr>)"
        using locked l(2) Some by (simp add: ordered_remove_def split_def Let_def)
      with sw locked ok_blank [OF ok, of k g] Some show ?thesis by (simp add: ordered_wf_def)
    qed
  qed
  then show "fst ?r = list_value (MKey k) ?xs"
    and "entries_of ix (snd ?r) = (if or_lock self = 0 then list_shift_remove (MKey k) ?xs
       else list_blank (MKey k) (MEmpty ?n, g) ?xs)"
    and "or_lock (snd ?r) = or_lock self" and "ordered_wf ix live (snd ?r)" by blast+
qed

section \<open>The operations on the sequence of pairs\<close>

abbreviation has_value :: "'v option \<Rightarrow> bool" where
  "has_value v \<equiv> v \<noteq> None"

abbreviation om_wf :: "('m, 'v option) indexmap \<Rightarrow> 'm ordered \<Rightarrow> bool" where
  "om_wf ix \<equiv> ordered_wf ix has_value"

abbreviation os_wf :: "('m, unit) indexmap \<Rightarrow> 'm ordered \<Rightarrow> bool" where
  "os_wf ix \<equiv> ordered_wf ix (\<lambda>_. True)"

abbreviation pairs :: "(map_key \<times> 'v option) list \<Rightarrow> (js_value \<times> 'v) list" where
  "pairs \<equiv> List.map_filter entry_pair"

lemma entry_ok_live: "entry_ok has_value n (k, v) \<Longrightarrow> map_key_eq k (MKey key) \<Longrightarrow> \<exists>k' v'. k = MKey k' \<and> v = Some v'"
  by (cases k) auto

lemma pairs_put:
  "list_all (entry_ok has_value n) xs \<Longrightarrow> pairs (list_put (MKey k) (Some v) xs) = put_pair k v (pairs xs)"
proof (induction xs)
  case (Cons x xs)
  obtain q w where x: "x = (q, w)" by fastforce
  show ?case using Cons by (cases q; cases w) (auto simp: x map_filter_simps)
qed (simp add: map_filter_simps)

lemma pairs_shift_remove:
  "list_all (entry_ok has_value n) xs \<Longrightarrow> pairs (list_shift_remove (MKey k) xs) = del_pair k (pairs xs)"
proof (induction xs)
  case (Cons x xs)
  obtain q w where x: "x = (q, w)" by fastforce
  show ?case using Cons by (cases q; cases w) (auto simp: x map_filter_simps)
qed (simp add: map_filter_simps)

lemma pairs_blank:
  "list_all (entry_ok has_value n) xs \<Longrightarrow> pairs (list_blank (MKey k) (MEmpty e, g) xs) = del_pair k (pairs xs)"
proof (induction xs)
  case (Cons x xs)
  obtain q w where x: "x = (q, w)" by fastforce
  show ?case using Cons by (cases q; cases w) (auto simp: x map_filter_simps)
qed (simp add: map_filter_simps)

lemma pairs_value:
  "list_all (entry_ok has_value n) xs \<Longrightarrow> flatten_option (list_value (MKey k) xs) = find_pair k (pairs xs)"
proof (induction xs)
  case (Cons x xs)
  obtain q w where x: "x = (q, w)" by fastforce
  show ?case using Cons by (cases q; cases w) (auto simp: x map_filter_simps flatten_option_def)
qed (simp add: map_filter_simps flatten_option_def)

lemma pairs_contains:
  "list_all (entry_ok has_value n) xs \<Longrightarrow> key_index (MKey k) xs \<noteq> None \<longleftrightarrow> find_pair k (pairs xs) \<noteq> None"
proof (induction xs)
  case (Cons x xs)
  obtain q w where x: "x = (q, w)" by fastforce
  show ?case using Cons by (cases q; cases w) (auto simp: x map_filter_simps)
qed (simp add: map_filter_simps)

lemma pairs_length:
  "list_all (entry_ok has_value n) xs \<Longrightarrow>
   length (pairs xs) + length (filter (\<lambda>e. \<not> is_live_key (fst e)) xs) = length xs"
proof (induction xs)
  case (Cons x xs)
  obtain q w where x: "x = (q, w)" by fastforce
  show ?case using Cons by (cases q; cases w) (auto simp: x map_filter_simps)
qed (simp add: map_filter_simps)

lemma pairs_retain: "pairs (filter (\<lambda>e. is_live_key (fst e)) xs) = pairs xs"
proof (induction xs)
  case (Cons x xs)
  obtain q w where x: "x = (q, w)" by fastforce
  show ?case using Cons by (cases q; cases w) (auto simp: x map_filter_simps)
qed (simp add: map_filter_simps)

lemma om_entries:
  "om_wf ix self \<Longrightarrow> list_all (entry_ok has_value (or_empty_count self)) (entries_of ix self)"
  by (simp add: ordered_wf_def ordered_entries_ok_def)

lemma om_insert_iter:
  assumes "indexmap_laws ix" "om_wf ix self" "normal_value k"
  shows "fst (om_insert ix self k v) = find_pair k (om_iter ix self)"
    and "om_iter ix (snd (om_insert ix self k v)) = put_pair k v (om_iter ix self)"
    and "om_wf ix (snd (om_insert ix self k v))"
    and "or_lock (snd (om_insert ix self k v)) = or_lock self"
proof -
  have n: "normal_key (MKey k)" using assms(3) by simp
  note i = indexmap_insert [OF assms(1,2) n, of "Some v"]
  have r: "om_insert ix self k v = (flatten_option (fst (ix_insert ix (or_map self) (MKey k) (Some v))),
      self\<lparr>or_map := snd (ix_insert ix (or_map self) (MKey k) (Some v))\<rparr>)"
    by (simp add: om_insert_def split_def Let_def)
  show "fst (om_insert ix self k v) = find_pair k (om_iter ix self)"
    "om_iter ix (snd (om_insert ix self k v)) = put_pair k v (om_iter ix self)"
    "or_lock (snd (om_insert ix self k v)) = or_lock self"
    using om_entries [OF assms(2)] by (simp_all add: r i om_iter_def pairs_value pairs_put)
  show "om_wf ix (snd (om_insert ix self k v))"
    using assms(2) ok_put [OF _ assms(3), of has_value _ _ "Some v"] by (simp add: r i ordered_wf_def)
qed

lemma om_remove_iter:
  assumes "indexmap_laws ix" "om_wf ix self" "normal_value k"
  shows "fst (om_remove ix self k) = find_pair k (om_iter ix self)"
    and "om_iter ix (snd (om_remove ix self k)) = del_pair k (om_iter ix self)"
    and "om_wf ix (snd (om_remove ix self k))"
    and "or_lock (snd (om_remove ix self k)) = or_lock self"
  using ordered_remove_entries [OF assms, of None] om_entries [OF assms(2)]
  by (simp_all add: om_remove_ordered om_iter_def pairs_value pairs_shift_remove pairs_blank)

lemma om_reads:
  assumes "indexmap_laws ix" "om_wf ix self" "normal_value k"
  shows "om_get ix self k = find_pair k (om_iter ix self)"
    and "om_contains_key ix self k \<longleftrightarrow> find_pair k (om_iter ix self) \<noteq> None"
    and "om_len ix self = length (om_iter ix self)" and "or_empty_count self \<le> om_full_len ix self"
proof -
  note l = indexmap_lookup [OF assms] and e = om_entries [OF assms(2)]
  have len: "ix_len ix m = length (ix_iter ix m)" for m using assms(1) by (simp add: indexmap_laws_def)
  show "om_len ix self = length (om_iter ix self)" "or_empty_count self \<le> om_full_len ix self"
    using pairs_length [OF e] assms(2)
    by (simp_all add: om_len_def om_full_len_def om_iter_def len ordered_wf_def ordered_entries_ok_def)
  show "om_get ix self k = find_pair k (om_iter ix self)"
    using pairs_value [OF e] l(1) by (simp add: om_get_def om_iter_def)
  show "om_contains_key ix self k \<longleftrightarrow> find_pair k (om_iter ix self) \<noteq> None"
    using pairs_contains [OF e] l(2) by (simp add: om_contains_key_def om_iter_def)
qed

lemma om_clear_iter:
  assumes "indexmap_laws ix"
  shows "om_iter ix (om_clear ix self) = []" "om_wf ix (om_clear ix self)"
  using assms by (simp_all add: indexmap_laws_def om_clear_def om_iter_def ordered_wf_def map_filter_simps)

text \<open>During an iteration, a removal leaves every other entry at its index.\<close>

lemma find_nth_blank:
  assumes "key_index (MKey k) xs = Some i"
  shows "list_blank (MKey k) e xs = xs[i := e]" "map_key_eq (fst (xs ! i)) (MKey k)" "i < length xs"
proof -
  show "list_blank (MKey k) e xs = xs[i := e]" "i < length xs"
    using list_blank_nth [OF assms] key_index_less [OF assms] by simp_all
  show "map_key_eq (fst (xs ! i)) (MKey k)"
    using assms by (induction "MKey k" xs arbitrary: i rule: key_index.induct) (auto split: if_splits)
qed

lemma om_locked_remove_index:
  assumes "indexmap_laws ix" "om_wf ix self" "normal_value k" "or_lock self \<noteq> 0"
  shows "om_full_len ix (snd (om_remove ix self k)) = om_full_len ix self"
    and "om_get_index ix (snd (om_remove ix self k)) j =
      (if key_index (MKey k) (entries_of ix self) = Some j then None else om_get_index ix self j)"
proof -
  let ?xs = "entries_of ix self"
  have gi: "ix_get_index ix m i = (if i < length (ix_iter ix m) then Some (ix_iter ix m ! i) else None)" for m i
    using assms(1) by (simp add: indexmap_laws_def)
  have ln: "ix_len ix m = length (ix_iter ix m)" for m using assms(1) by (simp add: indexmap_laws_def)
  have e: "entries_of ix (snd (om_remove ix self k)) =
      list_blank (MKey k) (MEmpty (or_empty_count self), None) ?xs"
    using ordered_remove_entries(2) [OF assms(1-3), of None] assms(4) by (simp add: om_remove_ordered)
  show "om_full_len ix (snd (om_remove ix self k)) = om_full_len ix self"
    by (cases "key_index (MKey k) ?xs") (simp_all add: om_full_len_def ln e list_blank_absent list_blank_nth)
  show "om_get_index ix (snd (om_remove ix self k)) j =
      (if key_index (MKey k) ?xs = Some j then None else om_get_index ix self j)"
  proof (cases "key_index (MKey k) ?xs")
    case (Some i)
    with find_nth_blank [OF Some] show ?thesis
      by (auto simp: om_get_index_def gi e nth_list_update)
  qed (simp add: om_get_index_def gi e list_blank_absent)
qed

lemma om_lock_iter:
  assumes laws: "indexmap_laws ix" and wf: "om_wf ix self"
  shows "om_iter ix (om_lock self) = om_iter ix self" "om_iter ix (om_unlock ix self) = om_iter ix self"
    and "or_lock self \<noteq> - 1 \<Longrightarrow> om_wf ix (om_lock self)"
    and "or_lock self \<noteq> 0 \<Longrightarrow> om_wf ix (om_unlock ix self)"
proof -
  have rt: "ix_iter ix (ix_retain ix p m) = filter (\<lambda>e. p (fst e)) (ix_iter ix m)" for p m
    using laws by (simp add: indexmap_laws_def)
  show "om_iter ix (om_lock self) = om_iter ix self" "om_iter ix (om_unlock ix self) = om_iter ix self"
    by (simp_all add: om_iter_def om_lock_def om_unlock_def Let_def rt pairs_retain)
  show "or_lock self \<noteq> - 1 \<Longrightarrow> om_wf ix (om_lock self)"
    using wf by (auto simp: om_lock_def ordered_wf_def) (metis add_eq_0_iff2)
  show "or_lock self \<noteq> 0 \<Longrightarrow> om_wf ix (om_unlock ix self)"
    using wf ok_retain by (auto simp: om_unlock_def ordered_wf_def Let_def rt)
qed

section \<open>The operations on the sequence of elements\<close>

definition has_elem :: "js_value \<Rightarrow> js_value list \<Rightarrow> bool" where
  "has_elem v xs \<longleftrightarrow> list_ex (\<lambda>e. same_value_zero e v) xs"

definition add_elem :: "js_value \<Rightarrow> js_value list \<Rightarrow> js_value list" where
  "add_elem v xs = (if has_elem v xs then xs else xs @ [v])"

fun del_elem :: "js_value \<Rightarrow> js_value list \<Rightarrow> js_value list" where
  "del_elem v [] = []"
| "del_elem v (e # xs) = (if same_value_zero e v then xs else e # del_elem v xs)"

abbreviation elements :: "(map_key \<times> unit) list \<Rightarrow> js_value list" where
  "elements \<equiv> List.map_filter entry_value"

lemma elements_contains: "key_index (MKey k) xs = None \<longleftrightarrow> \<not> has_elem k (elements xs)"
proof (induction xs)
  case (Cons x xs)
  obtain q where x: "x = (q, ())" by (cases x) auto
  show ?case using Cons by (cases q) (auto simp: x map_filter_simps has_elem_def)
qed (simp add: map_filter_simps has_elem_def)

lemma elements_put: "elements (list_put (MKey k) v xs) = add_elem k (elements xs)"
proof (induction xs)
  case (Cons x xs)
  obtain q where x: "x = (q, ())" by (cases x) auto
  show ?case using Cons by (cases q) (auto simp: x map_filter_simps add_elem_def has_elem_def)
qed (simp add: map_filter_simps add_elem_def has_elem_def)

lemma elements_shift_remove: "elements (list_shift_remove (MKey k) xs) = del_elem k (elements xs)"
proof (induction xs)
  case (Cons x xs)
  obtain q where x: "x = (q, ())" by (cases x) auto
  show ?case using Cons by (cases q) (auto simp: x map_filter_simps)
qed (simp add: map_filter_simps)

lemma elements_blank: "elements (list_blank (MKey k) (MEmpty e, g) xs) = del_elem k (elements xs)"
proof (induction xs)
  case (Cons x xs)
  obtain q where x: "x = (q, ())" by (cases x) auto
  show ?case using Cons by (cases q) (auto simp: x map_filter_simps)
qed (simp add: map_filter_simps)

lemma elements_length:
  "length (elements xs) + length (filter (\<lambda>e. \<not> is_live_key (fst e)) xs) = length xs"
proof (induction xs)
  case (Cons x xs)
  obtain q where x: "x = (q, ())" by (cases x) auto
  show ?case using Cons by (cases q) (auto simp: x map_filter_simps)
qed (simp add: map_filter_simps)

lemma elements_retain: "elements (filter (\<lambda>e. is_live_key (fst e)) xs) = elements xs"
proof (induction xs)
  case (Cons x xs)
  obtain q where x: "x = (q, ())" by (cases x) auto
  show ?case using Cons by (cases q) (auto simp: x map_filter_simps)
qed (simp add: map_filter_simps)

lemma os_add_iter:
  assumes "indexmap_laws ix" "os_wf ix self" "normal_value v"
  shows "fst (os_add ix self v) \<longleftrightarrow> \<not> has_elem v (os_iter ix self)"
    and "os_iter ix (snd (os_add ix self v)) = add_elem v (os_iter ix self)"
    and "os_wf ix (snd (os_add ix self v))"
    and "or_lock (snd (os_add ix self v)) = or_lock self"
proof -
  have n: "normal_key (MKey v)" using assms(3) by simp
  note i = indexmap_insert [OF assms(1,2) n, of "()"]
  have r: "os_add ix self v = (fst (ix_insert ix (or_map self) (MKey v) ()) = None,
      self\<lparr>or_map := snd (ix_insert ix (or_map self) (MKey v) ())\<rparr>)"
    by (simp add: os_add_def split_def Let_def)
  show "fst (os_add ix self v) \<longleftrightarrow> \<not> has_elem v (os_iter ix self)"
    using elements_contains [of v "entries_of ix self"] by (simp add: r i os_iter_def list_value_None)
  show "os_iter ix (snd (os_add ix self v)) = add_elem v (os_iter ix self)"
    "or_lock (snd (os_add ix self v)) = or_lock self"
    by (simp_all add: r i os_iter_def elements_put)
  show "os_wf ix (snd (os_add ix self v))"
    using assms(2) ok_put [OF _ assms(3), of "\<lambda>_. True" _ _ "()"] by (simp add: r i ordered_wf_def)
qed

lemma os_delete_iter:
  assumes "indexmap_laws ix" "os_wf ix self" "normal_value v"
  shows "fst (os_delete ix self v) \<longleftrightarrow> has_elem v (os_iter ix self)"
    and "os_iter ix (snd (os_delete ix self v)) = del_elem v (os_iter ix self)"
    and "os_wf ix (snd (os_delete ix self v))"
    and "or_lock (snd (os_delete ix self v)) = or_lock self"
  using ordered_remove_entries [OF assms, of "()"] elements_contains [of v "entries_of ix self"]
  by (simp_all add: os_delete_ordered os_iter_def elements_shift_remove elements_blank list_value_None del: not_None_eq)

lemma os_contains_iter:
  assumes "indexmap_laws ix" "os_wf ix self" "normal_value v"
  shows "os_contains ix self v \<longleftrightarrow> has_elem v (os_iter ix self)"
  using indexmap_lookup(2) [OF assms] elements_contains [of v "entries_of ix self"]
  by (simp add: os_contains_def os_iter_def)

lemma os_len_iter:
  assumes "indexmap_laws ix" "os_wf ix self"
  shows "os_len ix self = length (os_iter ix self)"
  using elements_length [of "entries_of ix self"] assms
  by (simp add: os_len_def os_iter_def ordered_wf_def ordered_entries_ok_def indexmap_laws_def)

lemma os_new_wf: "indexmap_laws ix \<Longrightarrow> os_wf ix (os_new ix) \<and> os_iter ix (os_new ix) = []"
  by (simp add: indexmap_laws_def ordered_wf_def os_new_def os_iter_def map_filter_simps)

section \<open>Properties\<close>

text \<open>
  A map behaves as an association list up to \<open>same_value_zero\<close> in insertion order, whether or not
  an iteration is in progress, for keys in canonical form: insertion overwrites in place or appends,
  removal removes, both give the old value, and lookup, membership and size read the list. The count
  of emptied entries never exceeds the length.
\<close>
theorem ordered_map_is_association_list:
  assumes "indexmap_laws ix" "om_wf ix self" "normal_value k"
  shows "om_insert ix self k v = (find_pair k (om_iter ix self), snd (om_insert ix self k v)) \<and>
    om_iter ix (snd (om_insert ix self k v)) = put_pair k v (om_iter ix self) \<and>
    om_remove ix self k = (find_pair k (om_iter ix self), snd (om_remove ix self k)) \<and>
    om_iter ix (snd (om_remove ix self k)) = del_pair k (om_iter ix self) \<and>
    om_wf ix (snd (om_insert ix self k v)) \<and> om_wf ix (snd (om_remove ix self k)) \<and>
    om_get ix self k = find_pair k (om_iter ix self) \<and>
    (om_contains_key ix self k \<longleftrightarrow> find_pair k (om_iter ix self) \<noteq> None) \<and>
    om_len ix self = length (om_iter ix self) \<and> or_empty_count self \<le> om_full_len ix self"
  using om_reads [OF assms] om_insert_iter [OF assms, of v] om_remove_iter [OF assms] by (simp add: prod_eq_iff)

lemma om_new_wf: "indexmap_laws ix \<Longrightarrow> om_wf ix (om_new ix)"
  by (simp add: indexmap_laws_def ordered_wf_def om_new_def)

theorem ordered_map_is_association_list_witness:
  "om_iter list_indexmap (snd (om_insert list_indexmap (om_new list_indexmap) (VInteger32 1) VNull)) =
     put_pair (VInteger32 1) VNull (om_iter list_indexmap (om_new list_indexmap))"
  using ordered_map_is_association_list [OF list_indexmap_laws om_new_wf [OF list_indexmap_laws],
      of "VInteger32 1" VNull] by simp

text \<open>
  While an iteration is in progress, a removal moves no entry: the number of indices is unchanged,
  the index of the removed entry reads as empty and every other index reads as before, so the
  iteration neither skips nor repeats an entry.
\<close>
theorem locked_removal_keeps_indices:
  assumes "indexmap_laws ix" "om_wf ix self" "normal_value k" "or_lock self \<noteq> 0"
  shows "om_full_len ix (snd (om_remove ix self k)) = om_full_len ix self \<and>
    om_get_index ix (snd (om_remove ix self k)) j =
      (if key_index (MKey k) (ix_iter ix (or_map self)) = Some j then None else om_get_index ix self j)"
  using om_locked_remove_index [OF assms] by blast

definition two_entries :: "(map_key \<times> js_value option) list ordered" where
  "two_entries = om_lock \<lparr>or_map = [(MKey VNull, Some VUndefined), (MKey (VInteger32 5), Some VNull)],
     or_lock = 0, or_empty_count = 0\<rparr>"

theorem locked_removal_keeps_indices_witness:
  "om_full_len list_indexmap (snd (om_remove list_indexmap two_entries VNull)) = 2 \<and>
   om_get_index list_indexmap (snd (om_remove list_indexmap two_entries VNull)) 1 = Some (VInteger32 5, VNull)"
proof -
  have "om_wf list_indexmap two_entries"
    by (simp add: ordered_wf_def ordered_entries_ok_def two_entries_def om_lock_def list_indexmap_def)
  moreover have "om_full_len list_indexmap two_entries = 2"
    "om_get_index list_indexmap two_entries 1 = Some (VInteger32 5, VNull)" "or_lock two_entries \<noteq> 0"
    "key_index (MKey VNull) (ix_iter list_indexmap (or_map two_entries)) = Some 0"
    by (simp_all add: two_entries_def om_lock_def om_full_len_def om_get_index_def list_indexmap_def
        same_value_zero_def)
  ultimately show ?thesis
    using locked_removal_keeps_indices [OF list_indexmap_laws, of two_entries VNull 1] by simp
qed

text \<open>
  Starting and ending an iteration keep the contents, and the end of the last one drops the emptied
  entries; the counter of iterations must not wrap.
\<close>
theorem lock_unlock_contents:
  assumes "indexmap_laws ix" "om_wf ix self" "or_lock self \<noteq> - 1"
  shows "om_iter ix (om_unlock ix (om_lock self)) = om_iter ix self \<and>
    om_wf ix (om_lock self) \<and> om_wf ix (om_unlock ix (om_lock self)) \<and>
    (or_lock self = 0 \<longrightarrow> om_full_len ix (om_unlock ix (om_lock self)) = length (om_iter ix self))"
proof -
  note a = om_lock_iter [OF assms(1,2)]
  have wl: "om_wf ix (om_lock self)" using a(3) assms(3) by simp
  note b = om_lock_iter [OF assms(1) wl]
  have "or_lock (om_lock self) \<noteq> 0"
    using assms(3) by (auto simp: om_lock_def) (metis add_eq_0_iff2)
  with b(4) have wu: "om_wf ix (om_unlock ix (om_lock self))" by simp
  have it: "om_iter ix (om_unlock ix (om_lock self)) = om_iter ix self" using a(1) b(2) by simp
  have "om_full_len ix (om_unlock ix (om_lock self)) = length (om_iter ix self)" if "or_lock self = 0"
  proof -
    have "or_empty_count (om_unlock ix (om_lock self)) = 0"
      using that by (simp add: om_unlock_def om_lock_def Let_def)
    then show ?thesis
      using pairs_length [OF om_entries [OF wu]] wu it assms(1)
      by (simp add: om_full_len_def om_iter_def ordered_wf_def ordered_entries_ok_def indexmap_laws_def)
  qed
  with it wl wu show ?thesis by blast
qed

theorem lock_unlock_contents_witness:
  "om_iter list_indexmap (om_unlock list_indexmap (om_lock (om_new list_indexmap :: (map_key \<times> js_value option) list ordered))) =
     om_iter list_indexmap (om_new list_indexmap)"
proof -
  have "or_lock (om_new (list_indexmap :: (_, js_value option) indexmap)) \<noteq> - 1" by (simp add: om_new_def)
  with lock_unlock_contents [OF list_indexmap_laws om_new_wf [OF list_indexmap_laws]] show ?thesis by blast
qed

text \<open>
  Canonicalising a key satisfies the contract of \<open>Hash\<close> that the values at large do not: the
  canonical key is the same value up to the sign of zero, and among canonical keys those that
  compare equal are those that hash equally.
\<close>
theorem canonical_keys_hash:
  assumes "canonical_value v" "canonical_value w"
  shows "same_value_zero (canonicalize_keyed_collection_key v) v \<and>
    normal_value (canonicalize_keyed_collection_key v) \<and>
    (same_value_zero v w \<longleftrightarrow>
       hash_value (canonicalize_keyed_collection_key v) = hash_value (canonicalize_keyed_collection_key w))"
proof -
  let ?c = canonicalize_keyed_collection_key
  have z: "f64_of_i32 0 = 0" "\<not> f64_is_nan 0" by (simp_all add: f64_is_nan_def f64_exponent_def)
  have nz: "f64_is_zero f \<Longrightarrow> \<not> f64_is_nan f" for f using f64_zero_bits [of f]
    by (auto simp: f64_is_nan_def f64_exponent_def)
  have c: "same_value_zero (?c u) u \<and> normal_value (?c u) \<and> canonical_value (?c u) \<and>
      zero_value (?c u) = lang_value (?c u)" if "canonical_value u" for u
    using that z nz by (cases u) (auto simp: canonicalize_keyed_collection_key_def same_value_zero_normal)
  have "same_value_zero v w \<longleftrightarrow> zero_value (?c v) = zero_value (?c w)"
    using c [OF assms(1)] c [OF assms(2)] by (auto simp: same_value_zero_normal)
  also have "\<dots> \<longleftrightarrow> hash_value (?c v) = hash_value (?c w)"
    using c [OF assms(1)] c [OF assms(2)] hash_value_lang [of "?c w" "?c v"] by simp
  finally show ?thesis using c [OF assms(1)] by simp
qed

theorem canonical_keys_hash_witness:
  "hash_value (canonicalize_keyed_collection_key (VInteger32 0)) =
     hash_value (canonicalize_keyed_collection_key (VFloat64 0x8000000000000000))"
proof -
  have "same_value_zero (VInteger32 0) (VFloat64 0x8000000000000000)"
    by (simp add: same_value_zero_normal f64_is_nan_def f64_is_zero_def f64_exponent_def f64_fraction_def)
  with canonical_keys_hash [of "VInteger32 0" "VFloat64 0x8000000000000000"] show ?thesis
    by (simp add: f64_is_nan_def f64_exponent_def f64_fraction_def)
qed

text \<open>
  \<open>is_empty\<close> of a set counts emptied entries, unlike \<open>len\<close>: during an iteration, a set whose only
  element was deleted has length zero and is not empty.
\<close>
theorem set_is_empty_counts_emptied:
  "(let self = os_lock (snd (os_add list_indexmap (os_new list_indexmap) VNull));
        self = snd (os_delete list_indexmap self VNull)
    in os_len list_indexmap self = 0 \<and> \<not> os_is_empty list_indexmap self)"
  by (simp add: os_len_def os_is_empty_def os_delete_def os_add_def os_new_def os_lock_def
      list_indexmap_def list_swap_remove_def same_value_zero_def Let_def)

end
