(* ===== verification/SetOperations.thy ===== *)
theory SetOperations
  imports OrderedCollections Conversions
begin

text \<open>
  The methods of \<open>Set.prototype\<close> (\<open>builtins/set/mod.rs\<close>) and the set iterator
  (\<open>builtins/set/set_iterator.rs\<close>). The data of a set object is read from and written to the world;
  property reads, calls and iterators are user code and arguments. A loop reads the set anew at each
  step, as the source borrows it anew, so user code that changes the set during the loop is covered.
\<close>

record ('w, 'm, 'i) set_world =
  sw_ix :: "('m, unit) indexmap"
  sw_conv :: "'w conversions"
  sw_is_set :: "js_value \<Rightarrow> bool"
  sw_data :: "js_value \<Rightarrow> 'w \<Rightarrow> 'm ordered"
  sw_put :: "js_value \<Rightarrow> 'm ordered \<Rightarrow> 'w \<Rightarrow> 'w"
  sw_new_set :: "'m ordered \<Rightarrow> ('w, js_value) run"
  sw_get :: "obj_addr \<Rightarrow> string \<Rightarrow> ('w, js_value) run"
  sw_is_callable :: "obj_addr \<Rightarrow> bool"
  sw_call :: "obj_addr \<Rightarrow> js_value \<Rightarrow> js_value list \<Rightarrow> ('w, js_value) run"
  sw_iterator :: "js_value \<Rightarrow> obj_addr \<Rightarrow> ('w, 'i) run"
  sw_step :: "'i \<Rightarrow> ('w, js_value option) run"
  sw_consume :: "'i \<Rightarrow> ('w, unit) run"
  sw_close :: "'i \<Rightarrow> ('w, unit) run"

definition set_receiver :: "('w, 'm, 'i) set_world \<Rightarrow> js_value \<Rightarrow> ('w, unit) run" where
  "set_receiver W this = (if sw_is_set W this then run_return () else run_throw TypeError)"

section \<open>\<open>GetSetRecord\<close>\<close>

record set_record =
  sr_size :: nat
  sr_has :: obj_addr
  sr_keys :: obj_addr

definition usize_max :: nat where
  "usize_max = 2 ^ 64 - 1"

definition set_size :: "f64 \<Rightarrow> js_error + nat" where
  "set_size num_size =
     (if f64_is_nan num_size then Inl TypeError
      else case integer_or_infinity_of_f64 num_size of
        NegativeInfinity \<Rightarrow> Inl RangeError
      | Integer sz \<Rightarrow> if sint sz < 0 then Inl RangeError else Inr (unat sz)
      | PositiveInfinity \<Rightarrow> Inr usize_max)"

definition as_callable :: "('w, 'm, 'i) set_world \<Rightarrow> js_value \<Rightarrow> js_error + obj_addr" where
  "as_callable W v =
     (case v of VObject a \<Rightarrow> if sw_is_callable W a then Inr a else Inl TypeError | _ \<Rightarrow> Inl TypeError)"

definition get_set_record :: "('w, 'm, 'i) set_world \<Rightarrow> js_value \<Rightarrow> ('w, set_record) run" where
  "get_set_record W obj =
     (case obj of
        VObject a \<Rightarrow>
          run_bind (sw_get W a ''size'') (\<lambda>raw_size.
          run_bind (to_number (sw_conv W) raw_size) (\<lambda>num_size.
          run_bind (run_lift (set_size num_size)) (\<lambda>size.
          run_bind (sw_get W a ''has'') (\<lambda>has.
          run_bind (run_lift (as_callable W has)) (\<lambda>has.
          run_bind (sw_get W a ''keys'') (\<lambda>keys.
          run_bind (run_lift (as_callable W keys)) (\<lambda>keys.
          run_return \<lparr>sr_size = size, sr_has = has, sr_keys = keys\<rparr>)))))))
      | _ \<Rightarrow> run_throw TypeError)"

section \<open>Methods without user code\<close>

definition set_add :: "('w, 'm, 'i) set_world \<Rightarrow> js_value \<Rightarrow> js_value list \<Rightarrow> ('w, js_value) run" where
  "set_add W this args =
     run_bind (set_receiver W this) (\<lambda>_.
       let value = canonicalize_keyed_collection_key (get_or_undefined args 0) in
       run_bind (run_modify (\<lambda>w. sw_put W this (snd (os_add (sw_ix W) (sw_data W this w) value)) w)) (\<lambda>_.
       run_return this))"

definition set_clear :: "('w, 'm, 'i) set_world \<Rightarrow> js_value \<Rightarrow> ('w, js_value) run" where
  "set_clear W this =
     run_bind (set_receiver W this) (\<lambda>_.
     run_bind (run_modify (\<lambda>w. sw_put W this (os_clear (sw_ix W) (sw_data W this w)) w)) (\<lambda>_.
     run_return VUndefined))"

definition set_delete :: "('w, 'm, 'i) set_world \<Rightarrow> js_value \<Rightarrow> js_value list \<Rightarrow> ('w, js_value) run" where
  "set_delete W this args =
     run_bind (set_receiver W this) (\<lambda>_.
       let value = canonicalize_keyed_collection_key (get_or_undefined args 0) in
       run_bind (run_gets (\<lambda>w. fst (os_delete (sw_ix W) (sw_data W this w) value))) (\<lambda>deleted.
       run_bind (run_modify (\<lambda>w. sw_put W this (snd (os_delete (sw_ix W) (sw_data W this w) value)) w)) (\<lambda>_.
       run_return (VBoolean deleted))))"

definition set_has :: "('w, 'm, 'i) set_world \<Rightarrow> js_value \<Rightarrow> js_value list \<Rightarrow> ('w, js_value) run" where
  "set_has W this args =
     run_bind (set_receiver W this) (\<lambda>_.
       let value = canonicalize_keyed_collection_key (get_or_undefined args 0) in
       run_gets (\<lambda>w. VBoolean (os_contains (sw_ix W) (sw_data W this w) value)))"

definition set_size_getter :: "('w, 'm, 'i) set_world \<Rightarrow> js_value \<Rightarrow> ('w, nat) run" where
  "set_size_getter W this =
     run_bind (set_receiver W this) (\<lambda>_. run_gets (\<lambda>w. os_len (sw_ix W) (sw_data W this w)))"

section \<open>\<open>forEach\<close>\<close>

definition element_at :: "('w, 'm, 'i) set_world \<Rightarrow> js_value \<Rightarrow> nat \<Rightarrow> 'w \<Rightarrow> js_value option" where
  "element_at W this index w = os_get_index (sw_ix W) (sw_data W this w) index"

definition full_size :: "('w, 'm, 'i) set_world \<Rightarrow> js_value \<Rightarrow> 'w \<Rightarrow> nat" where
  "full_size W this w = os_full_len (sw_ix W) (sw_data W this w)"

partial_function (option) for_each_loop ::
    "('w, 'm, 'i) set_world \<Rightarrow> js_value \<Rightarrow> (js_value \<Rightarrow> ('w, js_value) run) \<Rightarrow> nat \<Rightarrow> ('w, unit) run" where
  "for_each_loop W this callback index w =
     (if index < full_size W this w then
        (case element_at W this index w of
           Some e \<Rightarrow> run_bind (callback e) (\<lambda>_. for_each_loop W this callback (index + 1)) w
         | None \<Rightarrow> for_each_loop W this callback (index + 1) w)
      else run_return () w)"

text \<open>\<open>SetLock\<close>: it locks the set when created and unlocks it when dropped, on each way out.\<close>

definition with_lock :: "('w, 'm, 'i) set_world \<Rightarrow> js_value \<Rightarrow> ('w, 'a) run \<Rightarrow> ('w, 'a) run" where
  "with_lock W this body w =
     map_option (\<lambda>(r, w1). (r, sw_put W this (os_unlock (sw_ix W) (sw_data W this w1)) w1))
       (body (sw_put W this (os_lock (sw_data W this w)) w))"

definition set_for_each :: "('w, 'm, 'i) set_world \<Rightarrow> js_value \<Rightarrow> js_value list \<Rightarrow> ('w, js_value) run" where
  "set_for_each W this args =
     run_bind (set_receiver W this) (\<lambda>_.
     run_bind (run_lift (as_callable W (get_or_undefined args 0))) (\<lambda>callback_fn.
     with_lock W this (
       run_bind (for_each_loop W this (\<lambda>e. sw_call W callback_fn (get_or_undefined args 1) [e, e, this]) 0)
         (\<lambda>_. run_return VUndefined))))"

text \<open>\<open>for_each_native\<close>, whose \<open>continue\<close> at an empty entry leaves \<open>index\<close> as it is.\<close>

partial_function (option) for_each_native_loop ::
    "('w, 'm, 'i) set_world \<Rightarrow> js_value \<Rightarrow> (js_value \<Rightarrow> ('w, unit) run) \<Rightarrow> nat \<Rightarrow> ('w, unit) run" where
  "for_each_native_loop W this f index w =
     (if index < full_size W this w then
        (case element_at W this index w of
           Some k \<Rightarrow> run_bind (f k) (\<lambda>_. for_each_native_loop W this f (index + 1)) w
         | None \<Rightarrow> for_each_native_loop W this f index w)
      else run_return () w)"

definition set_for_each_native ::
    "('w, 'm, 'i) set_world \<Rightarrow> js_value \<Rightarrow> (js_value \<Rightarrow> ('w, unit) run) \<Rightarrow> ('w, unit) run" where
  "set_for_each_native W this f =
     run_bind (set_receiver W this) (\<lambda>_. with_lock W this (for_each_native_loop W this f 0))"

section \<open>The iterator\<close>

datatype property_name_kind = NameKey | NameValue | NameKeyAndValue

text \<open>The iterator holds its set, with a lock on it, until it is exhausted.\<close>

record set_iterator =
  si_set :: "js_value option"
  si_next_index :: nat
  si_kind :: property_name_kind

definition create_set_iterator ::
    "('w, 'm, 'i) set_world \<Rightarrow> js_value \<Rightarrow> property_name_kind \<Rightarrow> 'w \<Rightarrow> set_iterator \<times> 'w" where
  "create_set_iterator W this kind w =
     (\<lparr>si_set = Some this, si_next_index = 0, si_kind = kind\<rparr>, sw_put W this (os_lock (sw_data W this w)) w)"

text \<open>The loop of \<open>next\<close>: the length is read once, and one element is read past empty entries.\<close>

function next_element :: "('m, unit) indexmap \<Rightarrow> 'm ordered \<Rightarrow> nat \<Rightarrow> js_value option \<times> nat" where
  "next_element ix entries index =
     (let element = os_get_index ix entries index in
      if element \<noteq> None \<or> os_full_len ix entries \<le> index + 1 then (element, index + 1)
      else next_element ix entries (index + 1))"
  by pat_completeness auto

termination by (relation "measure (\<lambda>(ix, entries, index). os_full_len ix entries - index)") auto

declare next_element.simps [simp del]

datatype iter_result = IterDone | IterItem property_name_kind js_value

definition set_iterator_next ::
    "('w, 'm, 'i) set_world \<Rightarrow> set_iterator \<Rightarrow> 'w \<Rightarrow> iter_result \<times> set_iterator \<times> 'w" where
  "set_iterator_next W it w =
     (case si_set it of
        None \<Rightarrow> (IterDone, it, w)
      | Some this \<Rightarrow>
          (case next_element (sw_ix W) (sw_data W this w) (si_next_index it) of
             (Some element, i) \<Rightarrow> (IterItem (si_kind it) element, it\<lparr>si_next_index := i\<rparr>, w)
           | (None, i) \<Rightarrow>
               (IterDone, it\<lparr>si_set := None, si_next_index := i\<rparr>,
                sw_put W this (os_unlock (sw_ix W) (sw_data W this w)) w)))"

section \<open>The set operations\<close>

text \<open>\<open>other_rec.has.call(other, [e])?.to_boolean()\<close>.\<close>

definition in_other :: "('w, 'm, 'i) set_world \<Rightarrow> set_record \<Rightarrow> js_value \<Rightarrow> js_value \<Rightarrow> ('w, bool) run" where
  "in_other W rec other e =
     run_bind (sw_call W (sr_has rec) other [e]) (\<lambda>r. run_return (to_boolean (sw_conv W) r))"

definition contains_now :: "('w, 'm, 'i) set_world \<Rightarrow> js_value \<Rightarrow> js_value \<Rightarrow> 'w \<Rightarrow> bool" where
  "contains_now W this v w = os_contains (sw_ix W) (sw_data W this w) v"

text \<open>\<open>isDisjointFrom\<close>\<close>

partial_function (option) disjoint_has_loop ::
    "('w, 'm, 'i) set_world \<Rightarrow> js_value \<Rightarrow> (js_value \<Rightarrow> ('w, bool) run) \<Rightarrow> nat \<Rightarrow> nat \<Rightarrow> ('w, bool) run" where
  "disjoint_has_loop W this has this_size index w =
     (if index < this_size then
        (case element_at W this index w of
           Some e \<Rightarrow>
             run_bind (has e) (\<lambda>found w.
               if found then run_return False w
               else disjoint_has_loop W this has (full_size W this w) (index + 1) w) w
         | None \<Rightarrow> disjoint_has_loop W this has this_size (index + 1) w)
      else run_return True w)"

partial_function (option) disjoint_keys_loop ::
    "('w, 'm, 'i) set_world \<Rightarrow> js_value \<Rightarrow> 'i \<Rightarrow> ('w, bool) run" where
  "disjoint_keys_loop W this keys_iter w =
     run_bind (sw_step W keys_iter) (\<lambda>next w. case next of
        None \<Rightarrow> run_return True w
      | Some v \<Rightarrow> run_bind (sw_consume W keys_iter) (\<lambda>_ w.
          if contains_now W this (canonicalize_keyed_collection_key v) w
          then run_bind (sw_close W keys_iter) (\<lambda>_. run_return False) w
          else disjoint_keys_loop W this keys_iter w) w) w"

definition is_disjoint_from :: "('w, 'm, 'i) set_world \<Rightarrow> js_value \<Rightarrow> js_value list \<Rightarrow> ('w, bool) run" where
  "is_disjoint_from W this args =
     run_bind (set_receiver W this) (\<lambda>_.
       let other = get_or_undefined args 0 in
       run_bind (get_set_record W other) (\<lambda>other_rec w.
         if os_len (sw_ix W) (sw_data W this w) \<le> sr_size other_rec
         then disjoint_has_loop W this (in_other W other_rec other) (full_size W this w) 0 w
         else run_bind (sw_iterator W other (sr_keys other_rec)) (\<lambda>keys_iter.
                disjoint_keys_loop W this keys_iter) w))"

text \<open>\<open>isSubsetOf\<close>\<close>

partial_function (option) subset_loop ::
    "('w, 'm, 'i) set_world \<Rightarrow> js_value \<Rightarrow> (js_value \<Rightarrow> ('w, bool) run) \<Rightarrow> nat \<Rightarrow> nat \<Rightarrow> ('w, bool) run" where
  "subset_loop W this has this_size index w =
     (if index < this_size then
        (case element_at W this index w of
           Some e \<Rightarrow>
             run_bind (has e) (\<lambda>found w.
               if \<not> found then run_return False w
               else subset_loop W this has (full_size W this w) (index + 1) w) w
         | None \<Rightarrow> subset_loop W this has this_size (index + 1) w)
      else run_return True w)"

definition is_subset_of :: "('w, 'm, 'i) set_world \<Rightarrow> js_value \<Rightarrow> js_value list \<Rightarrow> ('w, bool) run" where
  "is_subset_of W this args =
     run_bind (set_receiver W this) (\<lambda>_.
       let other = get_or_undefined args 0 in
       run_bind (get_set_record W other) (\<lambda>other_rec w.
         if sr_size other_rec < os_len (sw_ix W) (sw_data W this w) then run_return False w
         else subset_loop W this (in_other W other_rec other) (full_size W this w) 0 w))"

text \<open>\<open>isSupersetOf\<close>\<close>

partial_function (option) superset_loop ::
    "('w, 'm, 'i) set_world \<Rightarrow> js_value \<Rightarrow> 'i \<Rightarrow> ('w, bool) run" where
  "superset_loop W this keys_iter w =
     run_bind (sw_step W keys_iter) (\<lambda>next w. case next of
        None \<Rightarrow> run_return True w
      | Some v \<Rightarrow> run_bind (sw_consume W keys_iter) (\<lambda>_ w.
          if \<not> contains_now W this (canonicalize_keyed_collection_key v) w
          then run_bind (sw_close W keys_iter) (\<lambda>_. run_return False) w
          else superset_loop W this keys_iter w) w) w"

definition is_superset_of :: "('w, 'm, 'i) set_world \<Rightarrow> js_value \<Rightarrow> js_value list \<Rightarrow> ('w, bool) run" where
  "is_superset_of W this args =
     run_bind (set_receiver W this) (\<lambda>_.
       let other = get_or_undefined args 0 in
       run_bind (get_set_record W other) (\<lambda>other_rec w.
         if os_len (sw_ix W) (sw_data W this w) < sr_size other_rec then run_return False w
         else run_bind (sw_iterator W other (sr_keys other_rec)) (\<lambda>keys_iter.
                superset_loop W this keys_iter) w))"

text \<open>
  The loops that consume the keys of the other set and update the result: \<open>f v result w\<close> is the new
  result after the canonical key \<open>v\<close>.
\<close>

partial_function (option) keys_loop ::
    "('w, 'm, 'i) set_world \<Rightarrow> 'i \<Rightarrow> (js_value \<Rightarrow> 'm ordered \<Rightarrow> 'w \<Rightarrow> 'm ordered) \<Rightarrow> 'm ordered \<Rightarrow>
     ('w, 'm ordered) run" where
  "keys_loop W keys_iter f result w =
     run_bind (sw_step W keys_iter) (\<lambda>next w. case next of
        None \<Rightarrow> run_return result w
      | Some v \<Rightarrow> run_bind (sw_consume W keys_iter) (\<lambda>_ w.
          keys_loop W keys_iter f (f (canonicalize_keyed_collection_key v) result w) w) w) w"

definition symmetric_difference_step ::
    "('w, 'm, 'i) set_world \<Rightarrow> js_value \<Rightarrow> js_value \<Rightarrow> 'm ordered \<Rightarrow> 'w \<Rightarrow> 'm ordered" where
  "symmetric_difference_step W this v result w =
     (if contains_now W this v w then snd (os_delete (sw_ix W) result v) else snd (os_add (sw_ix W) result v))"

definition union_step :: "('w, 'm, 'i) set_world \<Rightarrow> js_value \<Rightarrow> 'm ordered \<Rightarrow> 'w \<Rightarrow> 'm ordered" where
  "union_step W v result w = snd (os_add (sw_ix W) result v)"

definition intersection_step ::
    "('w, 'm, 'i) set_world \<Rightarrow> js_value \<Rightarrow> js_value \<Rightarrow> 'm ordered \<Rightarrow> 'w \<Rightarrow> 'm ordered" where
  "intersection_step W this v result w =
     (if contains_now W this v w then snd (os_add (sw_ix W) result v) else result)"

definition difference_step :: "('w, 'm, 'i) set_world \<Rightarrow> js_value \<Rightarrow> 'm ordered \<Rightarrow> 'w \<Rightarrow> 'm ordered" where
  "difference_step W v result w = snd (os_delete (sw_ix W) result v)"

definition set_symmetric_difference ::
    "('w, 'm, 'i) set_world \<Rightarrow> js_value \<Rightarrow> js_value list \<Rightarrow> ('w, js_value) run" where
  "set_symmetric_difference W this args =
     run_bind (set_receiver W this) (\<lambda>_.
       let other = get_or_undefined args 0 in
       run_bind (get_set_record W other) (\<lambda>other_rec.
       run_bind (sw_iterator W other (sr_keys other_rec)) (\<lambda>keys_iter.
       run_bind (run_gets (sw_data W this)) (\<lambda>result.
       run_bind (keys_loop W keys_iter (symmetric_difference_step W this) result) (\<lambda>result.
       sw_new_set W result)))))"

definition set_union ::
    "('w, 'm, 'i) set_world \<Rightarrow> js_value \<Rightarrow> js_value list \<Rightarrow> ('w, js_value) run" where
  "set_union W this args =
     run_bind (set_receiver W this) (\<lambda>_.
       let other = get_or_undefined args 0 in
       run_bind (get_set_record W other) (\<lambda>other_rec.
       run_bind (sw_iterator W other (sr_keys other_rec)) (\<lambda>keys_iter.
       run_bind (run_gets (sw_data W this)) (\<lambda>result.
       run_bind (keys_loop W keys_iter (union_step W) result) (\<lambda>result.
       sw_new_set W result)))))"

text \<open>\<open>intersection\<close>: \<open>this_size\<close> is read again only where the element was in both.\<close>

partial_function (option) intersection_loop ::
    "('w, 'm, 'i) set_world \<Rightarrow> js_value \<Rightarrow> (js_value \<Rightarrow> ('w, bool) run) \<Rightarrow> nat \<Rightarrow> nat \<Rightarrow> 'm ordered \<Rightarrow>
     ('w, 'm ordered) run" where
  "intersection_loop W this has this_size index result w =
     (if index < this_size then
        (case element_at W this index w of
           Some e \<Rightarrow>
             run_bind (has e) (\<lambda>found w.
               if found
               then intersection_loop W this has (full_size W this w) (index + 1) (snd (os_add (sw_ix W) result e)) w
               else intersection_loop W this has this_size (index + 1) result w) w
         | None \<Rightarrow> intersection_loop W this has this_size (index + 1) result w)
      else run_return result w)"

definition set_intersection ::
    "('w, 'm, 'i) set_world \<Rightarrow> js_value \<Rightarrow> js_value list \<Rightarrow> ('w, js_value) run" where
  "set_intersection W this args =
     run_bind (set_receiver W this) (\<lambda>_.
       let other = get_or_undefined args 0 in
       run_bind (get_set_record W other) (\<lambda>other_rec.
       run_bind (\<lambda>w.
         if os_len (sw_ix W) (sw_data W this w) \<le> sr_size other_rec
         then intersection_loop W this (in_other W other_rec other) (full_size W this w) 0 (os_new (sw_ix W)) w
         else run_bind (sw_iterator W other (sr_keys other_rec)) (\<lambda>keys_iter.
                keys_loop W keys_iter (intersection_step W this) (os_new (sw_ix W))) w) (\<lambda>result.
       sw_new_set W result)))"

text \<open>\<open>difference\<close>: after a deletion from the copy the index stays where it is.\<close>

partial_function (option) difference_loop ::
    "('w, 'm, 'i) set_world \<Rightarrow> (js_value \<Rightarrow> ('w, bool) run) \<Rightarrow> nat \<Rightarrow> nat \<Rightarrow> 'm ordered \<Rightarrow> ('w, 'm ordered) run" where
  "difference_loop W has this_size index result w =
     (if index < this_size then
        (case os_get_index (sw_ix W) result index of
           Some e \<Rightarrow>
             run_bind (has e) (\<lambda>found w.
               if found then difference_loop W has this_size index (snd (os_delete (sw_ix W) result e)) w
               else difference_loop W has this_size (index + 1) result w) w
         | None \<Rightarrow> difference_loop W has this_size (index + 1) result w)
      else run_return result w)"

definition set_difference ::
    "('w, 'm, 'i) set_world \<Rightarrow> js_value \<Rightarrow> js_value list \<Rightarrow> ('w, js_value) run" where
  "set_difference W this args =
     run_bind (set_receiver W this) (\<lambda>_.
       let other = get_or_undefined args 0 in
       run_bind (get_set_record W other) (\<lambda>other_rec.
       run_bind (run_gets (sw_data W this)) (\<lambda>result.
       run_bind (\<lambda>w.
         if os_len (sw_ix W) result \<le> sr_size other_rec
         then difference_loop W (in_other W other_rec other) (full_size W this w) 0 result w
         else run_bind (sw_iterator W other (sr_keys other_rec)) (\<lambda>keys_iter.
                keys_loop W keys_iter (difference_step W) result) w) (\<lambda>result.
       sw_new_set W result))))"

end
