(* ===== verification/SetFacts.thy ===== *)
theory SetFacts
  imports SetOperations OrderedFacts
begin

text \<open>
  What the methods of \<open>Set.prototype\<close> compute, as operations on the list of elements: for methods of
  the other set without effect, and for iterators that do not touch the set. The last section has
  the runs in which user code changes the set, where the loops depart from the standard.
\<close>

section \<open>Sets of values with an order\<close>

text \<open>What the loops over the keys of the other set rely on.\<close>

locale ordered_elements =
  fixes valid :: "'d \<Rightarrow> bool" and elems :: "'d \<Rightarrow> js_value list"
    and add :: "js_value \<Rightarrow> 'd \<Rightarrow> 'd" and del :: "js_value \<Rightarrow> 'd \<Rightarrow> 'd" and has :: "js_value \<Rightarrow> 'd \<Rightarrow> bool"
  assumes add_law: "valid d \<Longrightarrow> normal_value v \<Longrightarrow> valid (add v d) \<and> elems (add v d) = add_elem v (elems d)"
    and del_law: "valid d \<Longrightarrow> normal_value v \<Longrightarrow> valid (del v d) \<and> elems (del v d) = del_elem v (elems d)"
    and has_law: "valid d \<Longrightarrow> normal_value v \<Longrightarrow> has v d \<longleftrightarrow> has_elem v (elems d)"
begin

lemma fold_step:
  assumes "valid d" "list_all normal_value vs"
    and "\<And>v d. valid d \<Longrightarrow> normal_value v \<Longrightarrow> valid (f v d) \<and> elems (f v d) = g v (elems d)"
  shows "valid (fold f vs d) \<and> elems (fold f vs d) = fold g vs (elems d)"
  using assms(1,2)
proof (induction vs arbitrary: d)
  case (Cons v vs)
  then show ?case using assms(3) [of d v] by simp
qed simp

lemma fold_add:
  "valid d \<Longrightarrow> list_all normal_value vs \<Longrightarrow>
     valid (fold add vs d) \<and> elems (fold add vs d) = fold add_elem vs (elems d)"
  by (rule fold_step) (use add_law in auto)

lemma fold_del:
  "valid d \<Longrightarrow> list_all normal_value vs \<Longrightarrow>
     valid (fold del vs d) \<and> elems (fold del vs d) = fold del_elem vs (elems d)"
  by (rule fold_step) (use del_law in auto)

text \<open>Adding what is in a fixed set, and adding or deleting by membership in a fixed set.\<close>

lemma fold_intersection:
  assumes "valid d" "valid t" "list_all normal_value vs"
  shows "valid (fold (\<lambda>v d. if has v t then add v d else d) vs d) \<and>
    elems (fold (\<lambda>v d. if has v t then add v d else d) vs d) =
      fold (\<lambda>v es. if has_elem v (elems t) then add_elem v es else es) vs (elems d)"
  by (rule fold_step [OF assms(1,3)]) (use add_law has_law assms(2) in auto)

lemma fold_symmetric_difference:
  assumes "valid d" "valid t" "list_all normal_value vs"
  shows "valid (fold (\<lambda>v d. if has v t then del v d else add v d) vs d) \<and>
    elems (fold (\<lambda>v d. if has v t then del v d else add v d) vs d) =
      fold (\<lambda>v es. if has_elem v (elems t) then del_elem v es else add_elem v es) vs (elems d)"
  by (rule fold_step [OF assms(1,3)]) (use add_law del_law has_law assms(2) in auto)

end

interpretation os: ordered_elements "\<lambda>d. indexmap_laws ix \<and> os_wf ix d" "os_iter ix"
    "\<lambda>v d. snd (os_add ix d v)" "\<lambda>v d. snd (os_delete ix d v)" "\<lambda>v d. os_contains ix d v"
  for ix :: "('m, unit) indexmap"
  by unfold_locales (simp_all add: os_add_iter os_delete_iter os_contains_iter)

lemma normal_canonicalized: "canonical_value v \<Longrightarrow> normal_value (canonicalize_keyed_collection_key v)"
  by (cases v) (auto simp: canonicalize_keyed_collection_key_def)

section \<open>The loops over the elements\<close>

definition set_entries :: "('w, 'm, 'i) set_world \<Rightarrow> js_value \<Rightarrow> 'w \<Rightarrow> (map_key \<times> unit) list" where
  "set_entries W this w = ix_iter (sw_ix W) (or_map (sw_data W this w))"

lemma laws_length: "indexmap_laws ix \<Longrightarrow> os_full_len ix d = length (ix_iter ix (or_map d))"
  by (simp add: os_full_len_def indexmap_laws_def)

lemma laws_get_index:
  "indexmap_laws ix \<Longrightarrow> os_get_index ix d i =
     (if i < length (ix_iter ix (or_map d)) then entry_value (ix_iter ix (or_map d) ! i) else None)"
  by (simp add: os_get_index_def indexmap_laws_def)

lemma full_size_entries: "indexmap_laws (sw_ix W) \<Longrightarrow> full_size W this w = length (set_entries W this w)"
  by (simp add: full_size_def set_entries_def laws_length)

lemma element_at_entries:
  "indexmap_laws (sw_ix W) \<Longrightarrow> i < length (set_entries W this w) \<Longrightarrow>
     element_at W this i w = entry_value (set_entries W this w ! i)"
  by (simp add: element_at_def set_entries_def laws_get_index)

lemma elements_drop:
  assumes "i < length xs"
  shows "elements (drop i xs) = (case entry_value (xs ! i) of None \<Rightarrow> [] | Some v \<Rightarrow> [v]) @ elements (drop (Suc i) xs)"
  using assms by (simp add: Cons_nth_drop_Suc [symmetric] map_filter_simps split: option.split)

lemma elements_past: "length xs \<le> i \<Longrightarrow> elements (drop i xs) = []"
  by (simp add: map_filter_simps)

lemma os_iter_entries: "os_iter (sw_ix W) (sw_data W this w) = elements (set_entries W this w)"
  by (simp add: os_iter_def set_entries_def)

text \<open>For a test without effect the loops are the quantifiers over the elements not yet visited.\<close>

lemma subset_loop_all:
  assumes "indexmap_laws (sw_ix W)" "\<And>e. pure_run (has e) (P e)" "n = length (set_entries W this w)"
  shows "subset_loop W this has n i w = Some (Inr (list_all P (elements (drop i (set_entries W this w)))), w)"
proof (induction "n - i" arbitrary: i)
  case 0
  then show ?case using assms(3) by (simp add: subset_loop.simps run_simps elements_past)
next
  case (Suc k)
  then have i: "i < length (set_entries W this w)" and k: "k = n - Suc i" using assms(3) by simp_all
  note ih = Suc(1) [OF k]
  show ?case
    using i ih assms(3)
    by (subst subset_loop.simps)
      (simp add: element_at_entries [OF assms(1)] full_size_entries [OF assms(1)] elements_drop [of i]
        pure_run_bind [OF assms(2)] run_simps split: option.split)
qed

lemma disjoint_has_loop_none:
  assumes "indexmap_laws (sw_ix W)" "\<And>e. pure_run (has e) (P e)" "n = length (set_entries W this w)"
  shows "disjoint_has_loop W this has n i w =
    Some (Inr (list_all (\<lambda>e. \<not> P e) (elements (drop i (set_entries W this w)))), w)"
proof (induction "n - i" arbitrary: i)
  case 0
  then show ?case using assms(3) by (simp add: disjoint_has_loop.simps run_simps elements_past)
next
  case (Suc k)
  then have i: "i < length (set_entries W this w)" and k: "k = n - Suc i" using assms(3) by simp_all
  note ih = Suc(1) [OF k]
  show ?case
    using i ih assms(3)
    by (subst disjoint_has_loop.simps)
      (simp add: element_at_entries [OF assms(1)] full_size_entries [OF assms(1)] elements_drop [of i]
        pure_run_bind [OF assms(2)] run_simps split: option.split)
qed

section \<open>The loops over the keys of the other set\<close>

text \<open>The iterator yields \<open>vs\<close> and then ends, leaving the set as it is.\<close>

fun iterates :: "('w, 'm, 'i) set_world \<Rightarrow> js_value \<Rightarrow> 'i \<Rightarrow> js_value list \<Rightarrow> 'w \<Rightarrow> 'w \<Rightarrow> bool" where
  "iterates W this it [] w w' = (sw_step W it w = Some (Inr None, w') \<and> sw_data W this w' = sw_data W this w)"
| "iterates W this it (v # vs) w w' =
     (\<exists>w1 w2. sw_step W it w = Some (Inr (Some v), w1) \<and> sw_consume W it w1 = Some (Inr (), w2) \<and>
        sw_data W this w2 = sw_data W this w \<and> iterates W this it vs w2 w')"

lemma keys_loop_fold:
  assumes "\<And>v r w. sw_data W this w = t \<Longrightarrow> f v r w = g v r"
    and "iterates W this it vs w w'" and "sw_data W this w = t"
  shows "keys_loop W it f r w = Some (Inr (fold g (map canonicalize_keyed_collection_key vs) r), w') \<and>
    sw_data W this w' = t"
  using assms(2,3)
proof (induction vs arbitrary: r w)
  case Nil
  then show ?case by (simp add: keys_loop.simps run_simps)
next
  case (Cons v vs)
  then obtain w1 w2 where w: "sw_step W it w = Some (Inr (Some v), w1)" "sw_consume W it w1 = Some (Inr (), w2)"
    "sw_data W this w2 = t" "iterates W this it vs w2 w'" by auto
  have "keys_loop W it f r w = keys_loop W it f (f (canonicalize_keyed_collection_key v) r w2) w2"
    using w by (subst keys_loop.simps) (simp add: run_simps)
  with Cons.IH [OF w(4,3)] w(3) show ?case by (simp add: assms(1))
qed

text \<open>The quantifiers over the keys; a loop that stops early closes the iterator.\<close>

lemma superset_loop_all:
  assumes "iterates W this it vs w w'"
    and "list_all (\<lambda>v. os_contains (sw_ix W) (sw_data W this w) (canonicalize_keyed_collection_key v)) vs"
  shows "superset_loop W this it w = Some (Inr True, w')"
  using assms
proof (induction vs arbitrary: w)
  case Nil
  then show ?case by (simp add: superset_loop.simps run_simps)
next
  case (Cons v vs)
  then obtain w1 w2 where w: "sw_step W it w = Some (Inr (Some v), w1)" "sw_consume W it w1 = Some (Inr (), w2)"
    "sw_data W this w2 = sw_data W this w" "iterates W this it vs w2 w'" by auto
  with Cons show ?case
    by (subst superset_loop.simps) (simp add: run_simps contains_now_def)
qed

lemma superset_loop_ex:
  assumes "iterates W this it vs w w'"
    and "\<not> list_all (\<lambda>v. os_contains (sw_ix W) (sw_data W this w) (canonicalize_keyed_collection_key v)) vs"
    and "\<And>w. \<exists>w'. sw_close W it w = Some (Inr (), w')"
  shows "\<exists>w''. superset_loop W this it w = Some (Inr False, w'')"
  using assms(1,2)
proof (induction vs arbitrary: w)
  case (Cons v vs)
  then obtain w1 w2 where w: "sw_step W it w = Some (Inr (Some v), w1)" "sw_consume W it w1 = Some (Inr (), w2)"
    "sw_data W this w2 = sw_data W this w" "iterates W this it vs w2 w'" by auto
  obtain w3 where w3: "sw_close W it w2 = Some (Inr (), w3)" using assms(3) by blast
  show ?case
  proof (cases "os_contains (sw_ix W) (sw_data W this w) (canonicalize_keyed_collection_key v)")
    case True
    with Cons w show ?thesis by (subst superset_loop.simps) (simp add: run_simps contains_now_def)
  next
    case False
    with w w3 show ?thesis by (subst superset_loop.simps) (simp add: run_simps contains_now_def)
  qed
qed simp

section \<open>\<open>forEach\<close>\<close>

text \<open>
  The callbacks in order. A callback that leaves the set as it is may change the rest of the world,
  throw or not return.
\<close>

fun call_each :: "(js_value \<Rightarrow> ('w, 'a) run) \<Rightarrow> js_value list \<Rightarrow> ('w, unit) run" where
  "call_each f [] = run_return ()"
| "call_each f (e # es) = run_bind (f e) (\<lambda>_. call_each f es)"

lemma for_each_loop_calls:
  assumes "indexmap_laws (sw_ix W)"
    and "\<And>e w r w'. sw_data W this w = t \<Longrightarrow> callback e w = Some (r, w') \<Longrightarrow> sw_data W this w' = t"
    and "sw_data W this w = t" and "xs = ix_iter (sw_ix W) (or_map t)"
  shows "for_each_loop W this callback i w = call_each callback (elements (drop i xs)) w"
  using assms(3)
proof (induction "length xs - i" arbitrary: i w)
  case 0
  then show ?case
    using assms(4) by (simp add: for_each_loop.simps full_size_entries [OF assms(1)] set_entries_def elements_past)
next
  case (Suc k)
  then have e: "set_entries W this w = xs" using assms(4) by (simp add: set_entries_def)
  with Suc(2) have i: "i < length (set_entries W this w)" by simp
  have k: "k = length xs - Suc i" using Suc(2) by simp
  show ?case
  proof (cases "entry_value (xs ! i)")
    case None
    with i e Suc(1) [OF k Suc(3)] show ?thesis
      by (subst for_each_loop.simps)
        (simp add: full_size_entries [OF assms(1)] element_at_entries [OF assms(1)] elements_drop)
  next
    case (Some v)
    have "run_bind (callback v) (\<lambda>_. for_each_loop W this callback (i + 1)) w =
        run_bind (callback v) (\<lambda>_. call_each callback (elements (drop (Suc i) xs))) w"
    proof (cases "callback v w")
      case (Some rw)
      obtain r w' where rw: "rw = (r, w')" by fastforce
      with Some assms(2) [OF Suc(3)] have "sw_data W this w' = t" by simp
      with Some rw Suc(1) [OF k] show ?thesis by (cases r) (simp_all add: run_simps)
    qed (simp add: run_simps)
    with Some i e show ?thesis
      by (subst for_each_loop.simps)
        (simp add: full_size_entries [OF assms(1)] element_at_entries [OF assms(1)] elements_drop)
  qed
qed

text \<open>\<open>for_each_native\<close> never leaves an index whose entry is empty.\<close>

lemma for_each_native_stuck:
  assumes "index < full_size W this w" "element_at W this index w = None"
  shows "for_each_native_loop W this f index w = None"
proof (rule ccontr)
  assume "for_each_native_loop W this f index w \<noteq> None"
  then obtain y where y: "for_each_native_loop W this f index w = Some y" by blast
  have "\<not> (index < full_size W this w \<and> element_at W this index w = None)"
    by (rule for_each_native_loop.raw_induct [OF _ y]) (fastforce split: if_splits option.splits)
  with assms show False by blast
qed

section \<open>\<open>intersection\<close> and \<open>difference\<close> by a test\<close>

lemma intersection_loop_fold:
  assumes laws: "indexmap_laws (sw_ix W)" and "\<And>e. pure_run (has e) (P e)" "n = length (set_entries W this w)"
  shows "intersection_loop W this has n i r w =
    Some (Inr (fold (\<lambda>e r. snd (os_add (sw_ix W) r e)) (filter P (elements (drop i (set_entries W this w)))) r), w)"
proof (induction "n - i" arbitrary: i r)
  case 0
  then show ?case using assms(3) by (simp add: intersection_loop.simps run_simps elements_past)
next
  case (Suc k)
  then have i: "i < length (set_entries W this w)" and k: "k = n - Suc i" using assms(3) by simp_all
  note ih = Suc(1) [OF k]
  show ?case
    using i ih assms(3)
    by (subst intersection_loop.simps)
      (simp add: element_at_entries [OF laws] full_size_entries [OF laws] elements_drop [of i]
        pure_run_bind [OF assms(2)] run_simps split: option.split)
qed

lemma entry_value_Some: "entry_value e = Some v \<Longrightarrow> e = (MKey v, ())"
  by (cases e rule: entry_value.cases) auto

text \<open>No two elements are the same value; every set built by the operations is so.\<close>

definition distinct_values :: "js_value list \<Rightarrow> bool" where
  "distinct_values es \<longleftrightarrow> sorted_wrt (\<lambda>a b. \<not> same_value_zero a b) es"

lemma distinct_add_elem: "distinct_values es \<Longrightarrow> distinct_values (add_elem v es)"
  by (auto simp: distinct_values_def add_elem_def has_elem_def sorted_wrt_append list_ex_iff)

lemma del_elem_set: "x \<in> set (del_elem v es) \<Longrightarrow> x \<in> set es"
  by (induction v es rule: del_elem.induct) (auto split: if_splits)

lemma distinct_del_elem: "distinct_values es \<Longrightarrow> distinct_values (del_elem v es)"
  by (induction v es rule: del_elem.induct) (auto simp: distinct_values_def dest: del_elem_set)

lemma fold_add_distinct: "distinct_values (ds @ es) \<Longrightarrow> fold add_elem es ds = ds @ es"
proof (induction es arbitrary: ds)
  case (Cons e es)
  then have "add_elem e ds = ds @ [e]"
    by (auto simp: distinct_values_def add_elem_def has_elem_def sorted_wrt_append list_ex_iff)
  with Cons show ?case by simp
qed simp

lemma elements_normal: "os_wf ix d \<Longrightarrow> list_all normal_value (os_iter ix d)"
proof -
  assume "os_wf ix d"
  then have "\<forall>e \<in> set (entries_of ix d). normal_key (fst e)"
    using ok_normal [of "\<lambda>_. True"] by (auto simp: ordered_wf_def list_all_iff)
  then show ?thesis
    by (fastforce simp: os_iter_def list_all_iff List.map_filter_def dest!: entry_value_Some split: option.splits)
qed

lemma distinct_filter: "distinct_values es \<Longrightarrow> distinct_values (filter P es)"
  by (simp add: distinct_values_def sorted_wrt_filter)

lemma same_value_zero_refl: "same_value_zero v v"
  by (cases v) (simp_all add: same_value_zero_def number_same_value_zero_def f64_eq_refl)

lemma key_index_first:
  "\<not> has_elem v (elements ys) \<Longrightarrow> key_index (MKey v) (ys @ (MKey v, ()) # zs) = Some (length ys)"
proof (induction ys)
  case Nil
  then show ?case by (simp add: same_value_zero_refl)
next
  case (Cons y ys)
  obtain q where y: "y = (q, ())" by (cases y) auto
  show ?case using Cons by (cases q) (auto simp: y map_filter_simps has_elem_def)
qed

lemma elements_append: "elements (xs @ ys) = elements xs @ elements ys"
  by (simp add: List.map_filter_def)

text \<open>
  Deleting the element at an index: what is before stays, and what is behind moves to the index or,
  in a locked copy, stays behind an empty entry.
\<close>

lemma delete_at_index:
  assumes laws: "indexmap_laws ix" and wf: "os_wf ix r" and d: "distinct_values (os_iter ix r)"
    and i: "i < length (entries_of ix r)" and e: "entry_value (entries_of ix r ! i) = Some e"
  defines "xs \<equiv> entries_of ix r" and "ys \<equiv> entries_of ix (snd (os_delete ix r e))"
  shows "elements (take i ys) = elements (take i xs)" "elements (drop i ys) = elements (drop (Suc i) xs)"
    "length ys \<le> length xs"
proof -
  have xs: "xs = take i xs @ (MKey e, ()) # drop (Suc i) xs"
    using id_take_nth_drop [OF i] entry_value_Some [OF e] by (simp add: xs_def)
  then have es: "elements xs = elements (take i xs) @ e # elements (drop (Suc i) xs)"
    by (metis append_Cons append_Nil elements_append entry_value.simps(1) map_filter_simps option.simps(5))
  have "\<not> has_elem e (elements (take i xs))"
    using d es by (auto simp: distinct_values_def os_iter_def xs_def [symmetric] sorted_wrt_append has_elem_def list_ex_iff)
  then have k: "key_index (MKey e) xs = Some i"
    using key_index_first [of e "take i xs" "drop (Suc i) xs"] xs i by (simp add: xs_def)
  have n: "normal_value e"
    using wf i entry_value_Some [OF e] by (auto simp: ordered_wf_def ordered_entries_ok_def list_all_length)
  have ys: "ys = (if or_lock r = 0 then take i xs @ drop (Suc i) xs
      else xs[i := (MEmpty (or_empty_count r), ())])"
    using ordered_remove_entries(2) [OF laws wf n, where g = "()"] k
    by (simp add: ys_def xs_def os_delete_ordered list_shift_remove_def list_blank_nth)
  have li: "i < length xs" using i by (simp add: xs_def)
  show "elements (take i ys) = elements (take i xs)" "elements (drop i ys) = elements (drop (Suc i) xs)"
    "length ys \<le> length xs"
    using li by (auto simp: ys elements_drop)
qed

lemma difference_loop_filter:
  assumes laws: "indexmap_laws (sw_ix W)" and pure: "\<And>e. pure_run (has e) (P e)"
    and "os_wf (sw_ix W) r" "distinct_values (os_iter (sw_ix W) r)"
    and "length (entries_of (sw_ix W) r) \<le> n"
  shows "\<exists>r'. difference_loop W has n i r w = Some (Inr r', w) \<and> os_wf (sw_ix W) r' \<and>
    os_iter (sw_ix W) r' = elements (take i (entries_of (sw_ix W) r)) @
      filter (\<lambda>e. \<not> P e) (elements (drop i (entries_of (sw_ix W) r)))"
  using assms(3-5)
proof (induction "(n - i) + length (elements (drop i (entries_of (sw_ix W) r)))" arbitrary: i r rule: less_induct)
  case less
  let ?ix = "sw_ix W" let ?xs = "entries_of (sw_ix W) r"
  show ?case
  proof (cases "i < n")
    case False
    with less(4) show ?thesis
      by (subst difference_loop.simps) (simp add: run_simps elements_past os_iter_def less(2))
  next
    case i: True
    show ?thesis
    proof (cases "i < length ?xs \<and> entry_value (?xs ! i) \<noteq> None")
      case False
      then have g: "os_get_index ?ix r i = None" by (auto simp: laws_get_index [OF laws])
      have dr: "elements (drop i ?xs) = elements (drop (Suc i) ?xs) \<and> elements (take (Suc i) ?xs) = elements (take i ?xs)"
      proof (cases "i < length ?xs")
        case True
        with False show ?thesis
          by (simp add: elements_drop take_Suc_conv_app_nth elements_append map_filter_simps)
      qed (simp add: elements_past)
      with i have "(n - Suc i) + length (elements (drop (Suc i) ?xs)) < (n - i) + length (elements (drop i ?xs))" by simp
      from less(1) [OF this less(2-4)] show ?thesis
        using i g dr by (subst difference_loop.simps) simp
    next
      case True
      then obtain e where il: "i < length ?xs" and e: "entry_value (?xs ! i) = Some e" by blast
      then have g: "os_get_index ?ix r i = Some e" by (simp add: laws_get_index [OF laws])
      have dr: "elements (drop i ?xs) = e # elements (drop (Suc i) ?xs)" using il e by (simp add: elements_drop)
      show ?thesis
      proof (cases "P e")
        case False
        have tk: "elements (take (Suc i) ?xs) = elements (take i ?xs) @ [e]"
          using il e by (simp add: take_Suc_conv_app_nth elements_append map_filter_simps)
        have "(n - Suc i) + length (elements (drop (Suc i) ?xs)) < (n - i) + length (elements (drop i ?xs))"
          using i dr by simp
        from less(1) [OF this less(2-4)] False show ?thesis
          using i g dr tk by (subst difference_loop.simps) (simp add: pure_run_bind [OF pure])
      next
        case True
        let ?r = "snd (os_delete ?ix r e)"
        note del = delete_at_index [OF laws less(2,3) il e]
        have n: "normal_value e"
          using less(2) il entry_value_Some [OF e] by (auto simp: ordered_wf_def ordered_entries_ok_def list_all_length)
        note it = os_delete_iter [OF laws less(2) n]
        have "(n - i) + length (elements (drop i (entries_of ?ix ?r))) < (n - i) + length (elements (drop i ?xs))"
          using del(2) dr by simp
        from less(1) [OF this it(3)] it(2) distinct_del_elem [OF less(3)] del less(4) True show ?thesis
          using i g dr by (subst difference_loop.simps) (simp add: pure_run_bind [OF pure])
      qed
    qed
  qed
qed

lemma run_bind_const:
  "run_bind m (\<lambda>_. run_return c) u = map_option (\<lambda>(r, w'). (map_sum id (\<lambda>_. c) r, w')) (m u)"
  by (cases "m u") (auto simp: run_bind_def run_return_def split: sum.split)

section \<open>Properties\<close>

text \<open>C40
  \<open>isSubsetOf\<close> and \<open>isDisjointFrom\<close>, when the record of the other set can be read and its \<open>has\<close> is a
  test without effect, are the quantifiers over the elements: \<open>isSubsetOf\<close> after the comparison of the
  sizes, \<open>isDisjointFrom\<close> when the set is not larger than the other. The world is left as reading the
  record left it.
\<close>
theorem set_predicates:
  assumes "indexmap_laws (sw_ix W)" "os_wf (sw_ix W) (sw_data W this w1)" "sw_is_set W this"
    and "get_set_record W other w = Some (Inr rec, w1)" "\<And>e. pure_run (in_other W rec other e) (P e)"
  shows "is_subset_of W this [other] w =
      Some (Inr (length (os_iter (sw_ix W) (sw_data W this w1)) \<le> sr_size rec \<and>
        list_all P (os_iter (sw_ix W) (sw_data W this w1))), w1) \<and>
    (length (os_iter (sw_ix W) (sw_data W this w1)) \<le> sr_size rec \<longrightarrow>
      is_disjoint_from W this [other] w =
        Some (Inr (list_all (\<lambda>e. \<not> P e) (os_iter (sw_ix W) (sw_data W this w1))), w1))"
proof -
  note len = os_len_iter [OF assms(1,2)]
  have sub: "subset_loop W this (in_other W rec other) (full_size W this w1) 0 w1 =
      Some (Inr (list_all P (os_iter (sw_ix W) (sw_data W this w1))), w1)"
    using subset_loop_all [OF assms(1,5) full_size_entries [OF assms(1)], where w = w1 and i = 0]
    by (simp add: os_iter_entries)
  have dis: "disjoint_has_loop W this (in_other W rec other) (full_size W this w1) 0 w1 =
      Some (Inr (list_all (\<lambda>e. \<not> P e) (os_iter (sw_ix W) (sw_data W this w1))), w1)"
    using disjoint_has_loop_none [OF assms(1,5) full_size_entries [OF assms(1)], where w = w1 and i = 0]
    by (simp add: os_iter_entries)
  show ?thesis
    using assms(3,4) sub dis
    by (auto simp: is_subset_of_def is_disjoint_from_def set_receiver_def get_or_undefined_def Let_def
        len run_simps)
qed

text \<open>
  The union, intersection and symmetric difference with the keys of the other set, and the difference
  in both of its branches, have exactly the elements of the operation on lists; for the difference by
  a test, the loop that deletes from the copy it walks over skips and repeats nothing.
\<close>
theorem set_algebra:
  assumes laws: "indexmap_laws (sw_ix W)" and wf: "os_wf (sw_ix W) t" and dat: "sw_data W this w = t"
    and it: "iterates W this it vs w w'" and canon: "list_all canonical_value vs"
    and pure: "\<And>e. pure_run (has e) (P e)" and dist: "distinct_values (os_iter (sw_ix W) t)"
  defines "ks \<equiv> map canonicalize_keyed_collection_key vs" and "es \<equiv> os_iter (sw_ix W) t"
  shows "\<exists>u n s d f g.
    keys_loop W it (union_step W) t w = Some (Inr u, w') \<and> os_iter (sw_ix W) u = fold add_elem ks es \<and>
    keys_loop W it (intersection_step W this) (os_new (sw_ix W)) w = Some (Inr n, w') \<and>
      os_iter (sw_ix W) n = fold (\<lambda>v es'. if has_elem v es then add_elem v es' else es') ks [] \<and>
    keys_loop W it (symmetric_difference_step W this) t w = Some (Inr s, w') \<and>
      os_iter (sw_ix W) s = fold (\<lambda>v es'. if has_elem v es then del_elem v es' else add_elem v es') ks es \<and>
    keys_loop W it (difference_step W) t w = Some (Inr d, w') \<and> os_iter (sw_ix W) d = fold del_elem ks es \<and>
    difference_loop W has (full_size W this w) 0 t w = Some (Inr f, w) \<and>
      os_iter (sw_ix W) f = filter (\<lambda>e. \<not> P e) es \<and>
    intersection_loop W this has (full_size W this w) 0 (os_new (sw_ix W)) w = Some (Inr g, w) \<and>
      os_iter (sw_ix W) g = filter P es"
proof -
  let ?ix = "sw_ix W"
  have nk: "list_all normal_value ks"
    using canon by (auto simp: ks_def list_all_iff normal_canonicalized)
  note new = os_new_wf [OF laws]
  have kl: "keys_loop W it f r w = Some (Inr (fold g ks r), w')"
    if "\<And>v r w. sw_data W this w = t \<Longrightarrow> f v r w = g v r" for f g r
    using keys_loop_fold [OF that it dat] by (simp add: ks_def)
  have v: "indexmap_laws ?ix \<and> os_wf ?ix t" "indexmap_laws ?ix \<and> os_wf ?ix (os_new ?ix)" using laws wf new by auto
  note u = os.fold_add [OF v(1) nk] and n = os.fold_intersection [OF v(2) v(1) nk]
    and s = os.fold_symmetric_difference [OF v(1) v(1) nk] and d = os.fold_del [OF v(1) nk]
  have un: "keys_loop W it (union_step W) t w = Some (Inr (fold (\<lambda>v d. snd (os_add ?ix d v)) ks t), w')"
    by (rule kl) (simp add: union_step_def)
  have int: "keys_loop W it (intersection_step W this) (os_new ?ix) w =
      Some (Inr (fold (\<lambda>v d. if os_contains ?ix t v then snd (os_add ?ix d v) else d) ks (os_new ?ix)), w')"
    by (rule kl) (simp add: intersection_step_def contains_now_def)
  have sym: "keys_loop W it (symmetric_difference_step W this) t w =
      Some (Inr (fold (\<lambda>v d. if os_contains ?ix t v then snd (os_delete ?ix d v) else snd (os_add ?ix d v)) ks t), w')"
    by (rule kl) (simp add: symmetric_difference_step_def contains_now_def)
  have dif: "keys_loop W it (difference_step W) t w = Some (Inr (fold (\<lambda>v d. snd (os_delete ?ix d v)) ks t), w')"
    by (rule kl) (simp add: difference_step_def)
  have full: "full_size W this w = length (entries_of ?ix t)"
    by (simp add: full_size_entries [OF laws] set_entries_def dat)
  obtain f where f: "difference_loop W has (full_size W this w) 0 t w = Some (Inr f, w)"
    "os_iter ?ix f = filter (\<lambda>e. \<not> P e) es"
    using difference_loop_filter [where has = has and P = P, OF laws pure wf dist, where n = "full_size W this w" and i = 0 and w = w] full
    by (auto simp: es_def os_iter_def map_filter_simps)
  have ne: "list_all normal_value (filter P es)"
    using elements_normal [OF wf] by (simp add: es_def list_all_iff)
  have g: "intersection_loop W this has (full_size W this w) 0 (os_new ?ix) w =
      Some (Inr (fold (\<lambda>e r. snd (os_add ?ix r e)) (filter P es) (os_new ?ix)), w)"
    using intersection_loop_fold [where has = has and P = P, OF laws pure full_size_entries [OF laws], where w = w and i = 0]
    by (simp add: es_def os_iter_def set_entries_def dat)
  have "os_iter ?ix (fold (\<lambda>e r. snd (os_add ?ix r e)) (filter P es) (os_new ?ix)) = filter P es"
    using os.fold_add [OF v(2) ne] fold_add_distinct [of "[]" "filter P es"] new dist
    by (simp add: es_def distinct_filter)
  with un int sym dif f g u n s d show ?thesis by (auto simp: es_def new)
qed

text \<open>
  \<open>forEach\<close> calls the callback once for each element, in order, in a set locked for as long as it runs:
  for every callback that leaves the set itself as it is, whatever else it does, throws or fails to
  return.
\<close>
theorem set_for_each_calls:
  assumes "indexmap_laws (sw_ix W)" "sw_is_set W this" "as_callable W fn = Inr c"
    and "\<And>d w. sw_data W this (sw_put W this d w) = d"
    and "\<And>e w r w'. sw_data W this w = os_lock t \<Longrightarrow> sw_call W c arg [e, e, this] w = Some (r, w') \<Longrightarrow>
      sw_data W this w' = os_lock t"
    and "sw_data W this w = t"
  shows "set_for_each W this [fn, arg] w =
    map_option (\<lambda>(r, w'). (map_sum id (\<lambda>_. VUndefined) r, sw_put W this (os_unlock (sw_ix W) (sw_data W this w')) w'))
      (call_each (\<lambda>e. sw_call W c arg [e, e, this]) (os_iter (sw_ix W) t) (sw_put W this (os_lock t) w))"
proof -
  let ?f = "\<lambda>e. sw_call W c arg [e, e, this]" and ?w = "sw_put W this (os_lock t) w"
  have "for_each_loop W this ?f 0 ?w = call_each ?f (elements (drop 0 (entries_of (sw_ix W) (os_lock t)))) ?w"
    by (rule for_each_loop_calls [where t = "os_lock t", OF assms(1) assms(5) assms(4) refl])
  then have "for_each_loop W this ?f 0 ?w = call_each ?f (os_iter (sw_ix W) t) ?w"
    by (simp add: os_iter_def os_lock_def)
  moreover have "set_for_each W this [fn, arg] w =
      with_lock W this (run_bind (for_each_loop W this ?f 0) (\<lambda>_. run_return VUndefined)) w"
    using assms(2,3) by (simp add: set_for_each_def set_receiver_def get_or_undefined_def run_lift_def run_simps)
  ultimately show ?thesis
    by (simp add: with_lock_def assms(6) run_bind_const option.map_comp comp_def case_prod_beta')
qed

text \<open>
  \<open>for_each_native\<close> does not return when it meets an emptied entry: with a lock held from outside, a
  set that had its first element deleted makes it loop for ever, for every callback.
\<close>
theorem for_each_native_does_not_return:
  assumes "sw_is_set W this" "\<And>d w. sw_data W this (sw_put W this d w) = d"
    and "os_get_index (sw_ix W) (sw_data W this w) 0 = None" "0 < os_full_len (sw_ix W) (sw_data W this w)"
  shows "set_for_each_native W this f w = None"
proof -
  let ?w = "sw_put W this (os_lock (sw_data W this w)) w"
  have "for_each_native_loop W this f 0 ?w = None"
    by (rule for_each_native_stuck)
      (use assms in \<open>simp_all add: full_size_def element_at_def os_lock_def os_full_len_def os_get_index_def\<close>)
  then show ?thesis
    using assms(1) by (simp add: set_for_each_native_def set_receiver_def run_simps with_lock_def)
qed

section \<open>Runs\<close>

text \<open>
  A world of one set and a list of pending keys; \<open>call\<close> is what a method of the other set or a
  callback does, whose size is \<open>size\<close>.
\<close>

type_synonym demo_state = "(map_key \<times> unit) list ordered \<times> js_value list"

definition demo :: "(js_value \<Rightarrow> demo_state \<Rightarrow> js_value \<times> demo_state) \<Rightarrow>
    (demo_state, (map_key \<times> unit) list, unit) set_world" where
  "demo call =
     \<lparr>sw_ix = list_indexmap,
      sw_conv = \<lparr>cv_to_primitive = (\<lambda>_ _. run_throw TypeError), cv_string_to_number = (\<lambda>_. 0), cv_is_htmldda = (\<lambda>_. False)\<rparr>,
      sw_is_set = (\<lambda>_. True), sw_data = (\<lambda>_. fst), sw_put = (\<lambda>_ d w. (d, snd w)),
      sw_new_set = (\<lambda>d w. Some (Inr (VObject 0), (d, snd w))),
      sw_get = (\<lambda>_ p. run_return (if p = ''size'' then VFloat64 f64_INFINITY else VObject 1)),
      sw_is_callable = (\<lambda>_. True),
      sw_call = (\<lambda>_ _ args w. Some (Inr (fst (call (hd args) w)), snd (call (hd args) w))),
      sw_iterator = (\<lambda>_ _. run_return ()),
      sw_step = (\<lambda>_ w. case snd w of [] \<Rightarrow> Some (Inr None, w) | v # vs \<Rightarrow> Some (Inr (Some v), (fst w, vs))),
      sw_consume = (\<lambda>_. run_return ()), sw_close = (\<lambda>_. run_return ())\<rparr>"

definition demo_set :: "i32 list \<Rightarrow> (map_key \<times> unit) list ordered" where
  "demo_set ns = \<lparr>or_map = map (\<lambda>n. (MKey (VInteger32 n), ())) ns, or_lock = 0, or_empty_count = 0\<rparr>"

definition demo_rec :: set_record where
  "demo_rec = \<lparr>sr_size = usize_max, sr_has = 1, sr_keys = 1\<rparr>"

lemma infinite_size: "set_size f64_INFINITY = Inr usize_max"
proof -
  have "\<not> f64_eq f64_INFINITY 0" "f64_eq f64_INFINITY f64_INFINITY" "\<not> f64_is_nan f64_INFINITY"
    by (simp_all add: f64_eq_def f64_INFINITY_def f64_is_nan_def f64_is_zero_def f64_exponent_def f64_fraction_def)
  then show ?thesis by (simp add: set_size_def integer_or_infinity_of_f64_def)
qed

lemma demo_record: "get_set_record (demo call) (VObject a) w = Some (Inr demo_rec, w)"
  by (simp add: get_set_record_def demo_def run_simps to_number.simps infinite_size run_lift_def as_callable_def demo_rec_def)

lemma demo_fields [simp]:
  "sw_ix (demo call) = list_indexmap" "sw_is_set (demo call) this" "sw_data (demo call) this w = fst w"
  "sw_put (demo call) this d w = (d, snd w)"
  "sw_call (demo call) c o' args w = Some (Inr (fst (call (hd args) w)), snd (call (hd args) w))"
  by (simp_all add: demo_def)

lemma demo_full_size [simp]: "full_size (demo call) this w = length (or_map (fst w))"
  by (simp add: full_size_def os_full_len_def list_indexmap_def)

lemma demo_element_at [simp]:
  "element_at (demo call) this i w = (if i < length (or_map (fst w)) then entry_value (or_map (fst w) ! i) else None)"
  by (simp add: element_at_def os_get_index_def list_indexmap_def)

lemma demo_in_other: "in_other (demo call) demo_rec other e w = Some (Inr (to_boolean (sw_conv (demo call)) (fst (call e w))), snd (call e w))"
  by (simp add: in_other_def run_simps)

lemma demo_to_boolean [simp]: "to_boolean (sw_conv (demo call)) (VBoolean b) = b"
  by simp

lemma demo_wf:
  "list_all normal_key ks \<Longrightarrow> list_all is_live_key ks \<Longrightarrow>
     os_wf list_indexmap \<lparr>or_map = map (\<lambda>k. (k, ())) ks, or_lock = 0, or_empty_count = 0\<rparr>"
proof -
  assume *: "list_all normal_key ks" "list_all is_live_key ks"
  have "entry_ok (\<lambda>_. True) 0 (k, ())" if "normal_key k" "is_live_key k" for k
    using that by (cases k) simp_all
  with * have "list_all (entry_ok (\<lambda>_. True) 0) (map (\<lambda>k. (k, ())) ks)"
    by (auto simp: list_all_iff)
  moreover have "filter (\<lambda>e. \<not> is_live_key (fst e)) (map (\<lambda>k. (k, ())) ks) = []"
    using *(2) by (simp add: filter_empty_conv list_all_iff)
  ultimately show ?thesis
    by (simp add: ordered_wf_def ordered_entries_ok_def list_indexmap_def del: filter_map)
qed

lemma demo_set_wf: "os_wf list_indexmap (demo_set ns)"
  using demo_wf [of "map (\<lambda>n. MKey (VInteger32 n)) ns"] by (simp add: demo_set_def list_all_iff comp_def)

lemma demo_set_iter: "os_iter list_indexmap (demo_set ns) = map VInteger32 ns"
  by (induction ns) (simp_all add: os_iter_def demo_set_def list_indexmap_def map_filter_simps)

text \<open>The test that holds of every element but one.\<close>

definition demo_test :: "i32 \<Rightarrow> js_value \<Rightarrow> demo_state \<Rightarrow> js_value \<times> demo_state" where
  "demo_test n e w = (VBoolean (e \<noteq> VInteger32 n), w)"

theorem set_predicates_witness:
  "is_subset_of (demo (demo_test 2)) VNull [VObject 7] (demo_set [1, 2], []) = Some (Inr False, (demo_set [1, 2], []))"
proof -
  have "os_wf (sw_ix (demo (demo_test 2))) (sw_data (demo (demo_test 2)) VNull (demo_set [1, 2], []))"
    by (simp add: demo_set_wf)
  moreover have "pure_run (in_other (demo (demo_test 2)) demo_rec (VObject 7) e) (e \<noteq> VInteger32 2)" for e
    by (simp add: pure_run_def demo_in_other demo_test_def)
  ultimately show ?thesis
    using set_predicates [of "demo (demo_test 2)" VNull "(demo_set [1, 2], [])" "VObject 7" "(demo_set [1, 2], [])" demo_rec
        "\<lambda>e. e \<noteq> VInteger32 2"] demo_record [of "demo_test 2" 7]
    by (simp add: demo_set_iter list_indexmap_laws)
qed

theorem set_algebra_witness:
  "\<exists>u. keys_loop (demo (demo_test 2)) () (union_step (demo (demo_test 2))) (demo_set [1, 2]) (demo_set [1, 2], [VInteger32 3])
     = Some (Inr u, (demo_set [1, 2], [])) \<and> os_iter list_indexmap u = [VInteger32 1, VInteger32 2, VInteger32 3]"
proof -
  let ?W = "demo (demo_test 2)"
  have "iterates ?W VNull () [VInteger32 3] (demo_set [1, 2], [VInteger32 3]) (demo_set [1, 2], [])"
    by (simp add: demo_def run_simps)
  moreover have "pure_run (\<lambda>w. Some (Inr (e \<noteq> VInteger32 2), w)) (e \<noteq> VInteger32 2)" for e
    by (simp add: pure_run_def)
  moreover have "distinct_values (os_iter list_indexmap (demo_set [1, 2]))"
    by (simp add: demo_set_iter distinct_values_def same_value_zero_def)
  ultimately have "\<exists>u. keys_loop ?W () (union_step ?W) (demo_set [1, 2]) (demo_set [1, 2], [VInteger32 3]) =
      Some (Inr u, (demo_set [1, 2], [])) \<and>
      os_iter list_indexmap u = fold add_elem (map canonicalize_keyed_collection_key [VInteger32 3]) (map VInteger32 [1, 2])"
    using set_algebra [of ?W "demo_set [1, 2]" VNull "(demo_set [1, 2], [VInteger32 3])" "()" "[VInteger32 3]"
        "(demo_set [1, 2], [])" "\<lambda>e w. Some (Inr (e \<noteq> VInteger32 2), w)" "\<lambda>e. e \<noteq> VInteger32 2"] list_indexmap_laws demo_set_wf
    by (auto simp: demo_set_iter)
  then show ?thesis
    by (simp add: canonicalize_keyed_collection_key_def add_elem_def has_elem_def same_value_zero_def)
qed

theorem set_for_each_calls_witness:
  "set_for_each (demo (demo_test 2)) VNull [VObject 1, VNull] (demo_set [4], []) = Some (Inr VUndefined, (demo_set [4], []))"
proof -
  have "set_for_each (demo (demo_test 2)) VNull [VObject 1, VNull] (demo_set [4], []) =
    map_option (\<lambda>(r, w'). (map_sum id (\<lambda>_. VUndefined) r,
        sw_put (demo (demo_test 2)) VNull (os_unlock (sw_ix (demo (demo_test 2))) (sw_data (demo (demo_test 2)) VNull w')) w'))
      (call_each (\<lambda>e. sw_call (demo (demo_test 2)) 1 VNull [e, e, VNull]) (os_iter (sw_ix (demo (demo_test 2))) (demo_set [4]))
        (sw_put (demo (demo_test 2)) VNull (os_lock (demo_set [4])) (demo_set [4], [])))"
    by (rule set_for_each_calls) (auto simp: list_indexmap_laws as_callable_def demo_test_def demo_def)
  also have "\<dots> = Some (Inr VUndefined, (os_unlock list_indexmap (os_lock (demo_set [4])), []))"
    by (simp add: demo_set_iter run_bind_def demo_test_def run_return_def)
  finally show ?thesis
    by (simp add: os_unlock_def os_lock_def demo_set_def list_indexmap_def)
qed

theorem for_each_native_does_not_return_witness:
  "set_for_each_native (demo (demo_test 2)) VNull (\<lambda>_. run_return ()) (snd (os_delete list_indexmap (os_lock (demo_set [1])) (VInteger32 1)), []) = None"
  by (rule for_each_native_does_not_return)
    (simp_all add: os_delete_def os_lock_def demo_set_def list_indexmap_def list_swap_remove_def same_value_zero_def
      os_get_index_def os_full_len_def)

section \<open>User code that changes the set\<close>

lemma size_rec: "sr_size demo_rec = usize_max" "1 \<le> usize_max" "2 \<le> usize_max" "\<not> usize_max < 2"
  "Suc 0 \<le> usize_max"
  by (simp_all add: demo_rec_def usize_max_def)

text \<open>\<open>has\<close> deletes the element 1 that it is asked about, and holds of it alone.\<close>

definition deleting_test :: "js_value \<Rightarrow> demo_state \<Rightarrow> js_value \<times> demo_state" where
  "deleting_test e w = (VBoolean (e = VInteger32 1), (snd (os_delete list_indexmap (fst w) (VInteger32 1)), snd w))"

text \<open>
  The loops of the set operations hold no lock: a \<open>has\<close> that deletes the element it is asked about makes
  the next one move to its index, and \<open>isSubsetOf\<close> answers true without asking about an element for
  which \<open>has\<close> is false.
\<close>
theorem subset_skips_after_deletion:
  "is_subset_of (demo deleting_test) VNull [VObject 7] (demo_set [1, 2], []) = Some (Inr True, (demo_set [2], [])) \<and>
   (\<forall>w. fst (deleting_test (VInteger32 2) w) = VBoolean False)"
proof -
  have d: "os_delete list_indexmap (demo_set [1, 2]) (VInteger32 1) = (True, demo_set [2])"
    by (simp add: os_delete_def demo_set_def list_indexmap_def same_value_zero_def)
  have l: "os_len list_indexmap (demo_set [1, 2]) = 2" "length (or_map (demo_set [1, 2])) = 2"
    "length (or_map (demo_set [2])) = 1" "or_map (demo_set [1, 2]) ! 0 = (MKey (VInteger32 1), ())"
    by (simp_all add: os_len_def demo_set_def list_indexmap_def)
  let ?h = "in_other (demo deleting_test) demo_rec (VObject 7)"
  have "subset_loop (demo deleting_test) VNull ?h 1 1 (demo_set [2], []) = Some (Inr True, (demo_set [2], []))"
    by (simp add: subset_loop.simps run_simps)
  moreover have "?h (VInteger32 1) (demo_set [1, 2], []) = Some (Inr True, (demo_set [2], []))"
    by (simp add: demo_in_other deleting_test_def d)
  ultimately have "subset_loop (demo deleting_test) VNull ?h 2 0 (demo_set [1, 2], []) = Some (Inr True, (demo_set [2], []))"
    by (subst subset_loop.simps) (simp add: l run_bind_cases(1))
  then show ?thesis
    by (simp add: is_subset_of_def set_receiver_def get_or_undefined_def Let_def run_simps demo_record l
        size_rec deleting_test_def)
qed

text \<open>The callback logs its element; at 1 it clears the set and adds 3.\<close>

definition clearing_callback :: "js_value \<Rightarrow> demo_state \<Rightarrow> js_value \<times> demo_state" where
  "clearing_callback e w =
     (VUndefined, (if e = VInteger32 1 then snd (os_add list_indexmap (os_clear list_indexmap (fst w)) (VInteger32 3)) else fst w,
        e # snd w))"

text \<open>
  \<open>clear\<close> during \<open>forEach\<close> empties the map that the loop indexes, so that an element added afterwards takes
  an index already passed and is never visited, although it is in the set.
\<close>
theorem clear_hides_later_elements:
  "\<exists>d. set_for_each (demo clearing_callback) VNull [VObject 1, VNull] (demo_set [1], []) =
      Some (Inr VUndefined, (d, [VInteger32 1])) \<and> os_iter list_indexmap d = [VInteger32 3]"
proof -
  let ?d = "\<lparr>or_map = [(MKey (VInteger32 3), ())], or_lock = 1, or_empty_count = 0\<rparr> :: (map_key \<times> unit) list ordered"
  have c: "clearing_callback (VInteger32 1) (os_lock (demo_set [1]), []) = (VUndefined, (?d, [VInteger32 1]))"
    by (simp add: clearing_callback_def os_add_def os_clear_def os_lock_def demo_set_def list_indexmap_def)
  let ?f = "\<lambda>e. sw_call (demo clearing_callback) 1 VNull [e, e, VNull]"
  have "for_each_loop (demo clearing_callback) VNull ?f 1 (?d, [VInteger32 1]) = Some (Inr (), (?d, [VInteger32 1]))"
    by (simp add: for_each_loop.simps run_simps)
  moreover have "?f (VInteger32 1) (os_lock (demo_set [1]), []) = Some (Inr VUndefined, (?d, [VInteger32 1]))"
    by (simp add: c)
  moreover have "length (or_map (os_lock (demo_set [1]))) = 1"
    "or_map (os_lock (demo_set [1])) ! 0 = (MKey (VInteger32 1), ())" by (simp_all add: os_lock_def demo_set_def)
  ultimately have "for_each_loop (demo clearing_callback) VNull ?f 0 (os_lock (demo_set [1]), []) =
      Some (Inr (), (?d, [VInteger32 1]))"
    by (subst for_each_loop.simps) (simp add: run_bind_cases(1))
  then show ?thesis
    by (simp add: set_for_each_def set_receiver_def as_callable_def get_or_undefined_def run_lift_def run_simps
        with_lock_def demo_def os_unlock_def list_indexmap_def os_iter_def map_filter_simps)
qed

text \<open>\<open>has\<close> adds 2 when asked about 1, and holds of 2 alone.\<close>

definition growing_test :: "js_value \<Rightarrow> demo_state \<Rightarrow> js_value \<times> demo_state" where
  "growing_test e w =
     (VBoolean (e = VInteger32 2),
      (if e = VInteger32 1 then snd (os_add list_indexmap (fst w) (VInteger32 2)) else fst w, snd w))"

text \<open>
  \<open>intersection\<close> reads the number of elements again only after an element that is in both: one that \<open>has\<close>
  adds while it answers false is not visited, and is missing from the result.
\<close>
theorem intersection_misses_growth:
  "\<exists>d. set_intersection (demo growing_test) VNull [VObject 7] (demo_set [1], []) = Some (Inr (VObject 0), (d, [])) \<and>
     os_iter list_indexmap d = [] \<and>
     fst (snd (growing_test (VInteger32 1) (demo_set [1], []))) = demo_set [1, 2] \<and>
     (\<forall>w. fst (growing_test (VInteger32 2) w) = VBoolean True)"
proof -
  have a: "os_add list_indexmap (demo_set [1]) (VInteger32 2) = (True, demo_set [1, 2])"
    by (simp add: os_add_def demo_set_def list_indexmap_def same_value_zero_def)
  have l: "os_len list_indexmap (demo_set [1]) = 1" "length (or_map (demo_set [1])) = 1"
    "or_map (demo_set [1]) ! 0 = (MKey (VInteger32 1), ())"
    by (simp_all add: os_len_def demo_set_def list_indexmap_def)
  let ?h = "in_other (demo growing_test) demo_rec (VObject 7)"
  have "intersection_loop (demo growing_test) VNull ?h 1 1 (os_new list_indexmap) (demo_set [1, 2], []) =
      Some (Inr (os_new list_indexmap), (demo_set [1, 2], []))"
    by (simp add: intersection_loop.simps run_simps)
  moreover have h: "?h (VInteger32 1) (demo_set [1], []) = Some (Inr False, (demo_set [1, 2], []))"
    by (simp add: demo_in_other growing_test_def a)
  ultimately have "intersection_loop (demo growing_test) VNull ?h 1 0 (os_new list_indexmap) (demo_set [1], []) =
      Some (Inr (os_new list_indexmap), (demo_set [1, 2], []))"
    by (subst intersection_loop.simps) (simp add: l run_bind_cases(1) [where m = "?h (VInteger32 1)", OF h])
  then have "set_intersection (demo growing_test) VNull [VObject 7] (demo_set [1], []) =
      Some (Inr (VObject 0), (os_new list_indexmap, []))"
    by (simp add: set_intersection_def set_receiver_def get_or_undefined_def Let_def run_simps demo_record l
        size_rec run_bind_cases(1)) (simp add: demo_def)
  moreover have "os_iter list_indexmap (os_new list_indexmap) = []"
    by (simp add: os_iter_def os_new_def list_indexmap_def map_filter_simps)
  moreover have "fst (snd (growing_test (VInteger32 1) (demo_set [1], []))) = demo_set [1, 2]"
    "\<forall>w. fst (growing_test (VInteger32 2) w) = VBoolean True"
    by (simp_all add: growing_test_def a)
  ultimately show ?thesis by blast
qed

end
