(* ===== verification/MapOperations.thy ===== *)
theory MapOperations
  imports OrderedFacts Conversions
begin

text \<open>
  The methods of \<open>Map.prototype\<close> on single keys (\<open>builtins/map/mod.rs\<close>), on the data of the map
  object in the world, and what they compute for every key a program can pass: the two zeros are
  one key, kept as the positive one. Calls of user code are an argument.
\<close>

record ('w, 'm) map_world =
  mw_ix :: "('m, js_value option) indexmap"
  mw_is_map :: "js_value \<Rightarrow> bool"
  mw_data :: "js_value \<Rightarrow> 'w \<Rightarrow> 'm ordered"
  mw_put :: "js_value \<Rightarrow> 'm ordered \<Rightarrow> 'w \<Rightarrow> 'w"
  mw_is_callable :: "obj_addr \<Rightarrow> bool"
  mw_call :: "obj_addr \<Rightarrow> js_value \<Rightarrow> js_value list \<Rightarrow> ('w, js_value) run"

text \<open>\<open>RequireInternalSlot\<close>, as each method begins\<close>

definition map_receiver :: "('w, 'm) map_world \<Rightarrow> js_value \<Rightarrow> ('w, unit) run" where
  "map_receiver W this = (if mw_is_map W this then run_return () else run_throw TypeError)"

definition map_insert_now :: "('w, 'm) map_world \<Rightarrow> js_value \<Rightarrow> js_value \<Rightarrow> js_value \<Rightarrow> ('w, unit) run" where
  "map_insert_now W this key value =
     run_modify (\<lambda>w. mw_put W this (snd (om_insert (mw_ix W) (mw_data W this w) key value)) w)"

section \<open>The methods\<close>

definition map_set :: "('w, 'm) map_world \<Rightarrow> js_value \<Rightarrow> js_value list \<Rightarrow> ('w, js_value) run" where
  "map_set W this args =
     (let value = get_or_undefined args 1 in
      run_bind (map_receiver W this) (\<lambda>_.
        let key = canonicalize_keyed_collection_key (get_or_undefined args 0) in
        run_bind (map_insert_now W this key value) (\<lambda>_. run_return this)))"

definition map_get_size :: "('w, 'm) map_world \<Rightarrow> js_value \<Rightarrow> ('w, nat) run" where
  "map_get_size W this =
     run_bind (map_receiver W this) (\<lambda>_. run_gets (\<lambda>w. om_len (mw_ix W) (mw_data W this w)))"

definition map_delete :: "('w, 'm) map_world \<Rightarrow> js_value \<Rightarrow> js_value list \<Rightarrow> ('w, js_value) run" where
  "map_delete W this args =
     run_bind (map_receiver W this) (\<lambda>_.
       let key = canonicalize_keyed_collection_key (get_or_undefined args 0) in
       run_bind (run_gets (\<lambda>w. fst (om_remove (mw_ix W) (mw_data W this w) key))) (\<lambda>old.
       run_bind (run_modify (\<lambda>w. mw_put W this (snd (om_remove (mw_ix W) (mw_data W this w) key)) w)) (\<lambda>_.
       run_return (VBoolean (old \<noteq> None)))))"

definition map_get :: "('w, 'm) map_world \<Rightarrow> js_value \<Rightarrow> js_value list \<Rightarrow> ('w, js_value) run" where
  "map_get W this args =
     run_bind (map_receiver W this) (\<lambda>_.
       let key = canonicalize_keyed_collection_key (get_or_undefined args 0) in
       run_gets (\<lambda>w. case om_get (mw_ix W) (mw_data W this w) key of None \<Rightarrow> VUndefined | Some v \<Rightarrow> v))"

definition map_clear :: "('w, 'm) map_world \<Rightarrow> js_value \<Rightarrow> ('w, js_value) run" where
  "map_clear W this =
     run_bind (map_receiver W this) (\<lambda>_.
     run_bind (run_modify (\<lambda>w. mw_put W this (om_clear (mw_ix W) (mw_data W this w)) w)) (\<lambda>_.
     run_return VUndefined))"

definition map_has :: "('w, 'm) map_world \<Rightarrow> js_value \<Rightarrow> js_value list \<Rightarrow> ('w, js_value) run" where
  "map_has W this args =
     run_bind (map_receiver W this) (\<lambda>_.
       let key = canonicalize_keyed_collection_key (get_or_undefined args 0) in
       run_gets (\<lambda>w. VBoolean (om_contains_key (mw_ix W) (mw_data W this w) key)))"

definition map_get_or_insert :: "('w, 'm) map_world \<Rightarrow> js_value \<Rightarrow> js_value list \<Rightarrow> ('w, js_value) run" where
  "map_get_or_insert W this args =
     (let value = get_or_undefined args 1 in
      run_bind (map_receiver W this) (\<lambda>_.
        let key = canonicalize_keyed_collection_key (get_or_undefined args 0) in
        run_bind (run_gets (\<lambda>w. om_get (mw_ix W) (mw_data W this w) key)) (\<lambda>found.
          case found of
            Some existing \<Rightarrow> run_return existing
          | None \<Rightarrow> run_bind (map_insert_now W this key value) (\<lambda>_. run_return value))))"

definition map_get_or_insert_computed :: "('w, 'm) map_world \<Rightarrow> js_value \<Rightarrow> js_value list \<Rightarrow> ('w, js_value) run" where
  "map_get_or_insert_computed W this args =
     run_bind (map_receiver W this) (\<lambda>_.
       case get_or_undefined args 1 of
         VObject callback_fn \<Rightarrow>
           if mw_is_callable W callback_fn then
             let key = canonicalize_keyed_collection_key (get_or_undefined args 0) in
             run_bind (run_gets (\<lambda>w. om_get (mw_ix W) (mw_data W this w) key)) (\<lambda>found.
               case found of
                 Some existing \<Rightarrow> run_return existing
               | None \<Rightarrow>
                   run_bind (mw_call W callback_fn VUndefined [key]) (\<lambda>value.
                   run_bind (map_insert_now W this key value) (\<lambda>_. run_return value)))
           else run_throw TypeError
       | _ \<Rightarrow> run_throw TypeError)"

section \<open>Keys as they are passed\<close>

lemma canonical_key_normal: "canonical_value v \<Longrightarrow> normal_value (canonicalize_keyed_collection_key v)"
  by (cases v) (auto simp: canonicalize_keyed_collection_key_def)

lemma canonical_key_zero_value: "zero_value (canonicalize_keyed_collection_key v) = zero_value v"
proof -
  have "\<not> f64_is_nan f" if "f64_is_zero f" for f
    using f64_zero_bits [OF that] by (auto simp: f64_is_nan_def f64_exponent_def)
  then show ?thesis by (cases v) (auto simp: canonicalize_keyed_collection_key_def f64_zero_eq)
qed

text \<open>A key and its canonical form are the same to \<open>same_value_zero\<close>, so finding and removing read alike.\<close>

lemma canonical_key_same:
  "same_value_zero u (canonicalize_keyed_collection_key v) \<longleftrightarrow> same_value_zero u v"
  by (simp add: same_value_zero_normal canonical_key_zero_value)

lemma canonical_key_pairs [simp]:
  "find_pair (canonicalize_keyed_collection_key v) ps = find_pair v ps"
  "del_pair (canonicalize_keyed_collection_key v) ps = del_pair v ps"
proof -
  show "find_pair (canonicalize_keyed_collection_key v) ps = find_pair v ps"
    by (induction ps) (auto simp: canonical_key_same)
  show "del_pair (canonicalize_keyed_collection_key v) ps = del_pair v ps"
    by (induction ps) (auto simp: canonical_key_same)
qed

section \<open>What the methods compute\<close>

definition map_pairs :: "('w, 'm) map_world \<Rightarrow> js_value \<Rightarrow> 'w \<Rightarrow> (js_value \<times> js_value) list" where
  "map_pairs W this w = om_iter (mw_ix W) (mw_data W this w)"

text \<open>A world with the map \<open>this\<close>, whose data reads back as put, under the laws of the package.\<close>

definition map_ok :: "('w, 'm) map_world \<Rightarrow> js_value \<Rightarrow> 'w \<Rightarrow> bool" where
  "map_ok W this w \<longleftrightarrow> indexmap_laws (mw_ix W) \<and> mw_is_map W this \<and> (\<forall>d w. mw_data W this (mw_put W this d w) = d) \<and>
     om_wf (mw_ix W) (mw_data W this w)"

text \<open>\<open>map_left W this ps w w'\<close>: only the data of the map was put anew, with the pairs \<open>ps\<close>.\<close>

definition map_left :: "('w, 'm) map_world \<Rightarrow> js_value \<Rightarrow> (js_value \<times> js_value) list \<Rightarrow> 'w \<Rightarrow> 'w \<Rightarrow> bool" where
  "map_left W this ps w w' \<longleftrightarrow> (\<exists>d. w' = mw_put W this d w) \<and> map_ok W this w' \<and> map_pairs W this w' = ps"

lemmas map_method_defs = map_set_def map_get_size_def map_delete_def map_get_def map_clear_def map_has_def
  map_get_or_insert_def map_get_or_insert_computed_def map_insert_now_def map_receiver_def

lemma map_lookup:
  assumes "map_ok W this w" "canonical_value key"
  defines "k \<equiv> canonicalize_keyed_collection_key key"
  shows "om_get (mw_ix W) (mw_data W this w) k = find_pair key (map_pairs W this w)"
    and "om_contains_key (mw_ix W) (mw_data W this w) k \<longleftrightarrow> find_pair key (map_pairs W this w) \<noteq> None"
    and "fst (om_remove (mw_ix W) (mw_data W this w) k) = find_pair key (map_pairs W this w)"
    and "om_len (mw_ix W) (mw_data W this w) = length (map_pairs W this w)"
  using assms om_reads [of "mw_ix W" "mw_data W this w" k] om_remove_iter(1) [of "mw_ix W" "mw_data W this w" k]
    canonical_key_normal [of key]
  by (simp_all add: map_ok_def map_pairs_def k_def)

lemma put_pair_new: "find_pair k ps = None \<Longrightarrow> put_pair k v ps = ps @ [(k, v)]"
  by (induction ps) (auto split: if_splits)

lemma map_left_put:
  assumes "map_ok W this w" "om_wf (mw_ix W) d"
  shows "map_left W this (om_iter (mw_ix W) d) w (mw_put W this d w)"
  using assms by (auto simp: map_left_def map_ok_def map_pairs_def)

lemma map_changes:
  assumes "map_ok W this w" "canonical_value key"
  defines "k \<equiv> canonicalize_keyed_collection_key key" and "data \<equiv> mw_data W this w"
  shows "map_left W this (put_pair k v (map_pairs W this w)) w (mw_put W this (snd (om_insert (mw_ix W) data k v)) w)"
    and "map_left W this (del_pair key (map_pairs W this w)) w (mw_put W this (snd (om_remove (mw_ix W) data k)) w)"
    and "map_left W this [] w (mw_put W this (om_clear (mw_ix W) data) w)"
proof -
  have l: "indexmap_laws (mw_ix W)" "om_wf (mw_ix W) data" "normal_value k"
    using assms by (simp_all add: map_ok_def canonical_key_normal)
  show "map_left W this (put_pair k v (map_pairs W this w)) w (mw_put W this (snd (om_insert (mw_ix W) data k v)) w)"
    using map_left_put [OF assms(1) om_insert_iter(3) [OF l]] om_insert_iter(2) [OF l] by (simp add: map_pairs_def data_def)
  show "map_left W this (del_pair key (map_pairs W this w)) w (mw_put W this (snd (om_remove (mw_ix W) data k)) w)"
    using map_left_put [OF assms(1) om_remove_iter(3) [OF l]] om_remove_iter(2) [OF l] by (simp add: map_pairs_def data_def k_def)
  show "map_left W this [] w (mw_put W this (om_clear (mw_ix W) data) w)"
    using map_left_put [OF assms(1) om_clear_iter(2) [OF l(1)]] om_clear_iter(1) [OF l(1)] by simp
qed

text \<open>C39
  The methods of a \<open>Map\<close> object, for every key that boxing can produce, the negative zero included,
  and whether or not an iteration is in progress, are those of an association list in insertion order
  up to \<open>same_value_zero\<close>: \<open>get\<close>, \<open>has\<close> and \<open>size\<close> read the list, \<open>set\<close> and \<open>getOrInsert\<close>
  overwrite in place or append the key with a zero made positive, \<open>delete\<close> removes and \<open>clear\<close>
  empties. Only the data of the map is put anew.
\<close>
theorem map_methods_are_association_list:
  assumes "map_ok W this w" "canonical_value key"
  shows "map_get W this [key] w = Some (Inr (case find_pair key (map_pairs W this w) of None \<Rightarrow> VUndefined | Some u \<Rightarrow> u), w) \<and>
    map_has W this [key] w = Some (Inr (VBoolean (find_pair key (map_pairs W this w) \<noteq> None)), w) \<and>
    map_get_size W this w = Some (Inr (length (map_pairs W this w)), w) \<and>
    (\<exists>w'. map_set W this [key, v] w = Some (Inr this, w') \<and>
       map_left W this (put_pair (canonicalize_keyed_collection_key key) v (map_pairs W this w)) w w') \<and>
    (\<exists>w'. map_delete W this [key] w = Some (Inr (VBoolean (find_pair key (map_pairs W this w) \<noteq> None)), w') \<and>
       map_left W this (del_pair key (map_pairs W this w)) w w') \<and>
    (\<exists>w'. map_clear W this w = Some (Inr VUndefined, w') \<and> map_left W this [] w w') \<and>
    (case find_pair key (map_pairs W this w) of
       Some u \<Rightarrow> map_get_or_insert W this [key, v] w = Some (Inr u, w)
     | None \<Rightarrow> \<exists>w'. map_get_or_insert W this [key, v] w = Some (Inr v, w') \<and>
         map_left W this (map_pairs W this w @ [(canonicalize_keyed_collection_key key, v)]) w w')"
proof -
  have recv: "mw_is_map W this" using assms(1) by (simp add: map_ok_def)
  have new: "put_pair (canonicalize_keyed_collection_key key) v ps = ps @ [(canonicalize_keyed_collection_key key, v)]"
    if "find_pair key ps = None" for ps
    using put_pair_new [of "canonicalize_keyed_collection_key key"] that by simp
  note r = map_method_defs run_simps run_gets_def run_modify_def get_or_undefined_def Let_def recv map_lookup [OF assms]
  show ?thesis
    using map_changes(1) [OF assms, of v] map_changes(2,3) [OF assms] by (auto simp: r new split: option.split)
qed

text \<open>A world that is one map, and a map that an iteration is reading, with a zero among its keys.\<close>

definition demo_maps :: "((map_key \<times> js_value option) list ordered, (map_key \<times> js_value option) list) map_world" where
  "demo_maps =
     \<lparr>mw_ix = list_indexmap, mw_is_map = (\<lambda>this. this = VObject 0), mw_data = (\<lambda>_ w. w), mw_put = (\<lambda>_ d _. d),
      mw_is_callable = (\<lambda>_. False), mw_call = (\<lambda>_ _ _. run_throw TypeError)\<rparr>"

definition demo_map :: "(map_key \<times> js_value option) list ordered" where
  "demo_map = \<lparr>or_map = [(MKey (VInteger32 0), Some VNull), (MEmpty 0, None), (MKey VNull, Some VUndefined)],
     or_lock = 1, or_empty_count = 1\<rparr>"

lemma demo_map_ok: "map_ok demo_maps (VObject 0) demo_map"
proof -
  have "om_wf list_indexmap demo_map"
    by (simp add: demo_map_def ordered_wf_def ordered_entries_ok_def list_indexmap_def same_value_zero_def)
  then show ?thesis by (simp add: map_ok_def demo_maps_def list_indexmap_laws)
qed

theorem map_methods_are_association_list_witness:
  "map_get demo_maps (VObject 0) [VFloat64 0x8000000000000000] demo_map = Some (Inr VNull, demo_map) \<and>
   (\<exists>w'. map_delete demo_maps (VObject 0) [VFloat64 0x8000000000000000] demo_map = Some (Inr (VBoolean True), w') \<and>
      map_pairs demo_maps (VObject 0) w' = [(VNull, VUndefined)])"
proof -
  have z: "same_value_zero (VInteger32 0) (VFloat64 0x8000000000000000)"
    by (simp add: same_value_zero_normal f64_is_nan_def f64_is_zero_def f64_exponent_def f64_fraction_def)
  have p: "map_pairs demo_maps (VObject 0) demo_map = [(VInteger32 0, VNull), (VNull, VUndefined)]"
    by (simp add: map_pairs_def demo_maps_def demo_map_def om_iter_def list_indexmap_def map_filter_simps)
  have c: "canonical_value (VFloat64 0x8000000000000000)" by (simp add: f64_is_nan_def f64_exponent_def f64_fraction_def)
  from map_methods_are_association_list [OF demo_map_ok c] show ?thesis
    unfolding p by (auto simp: z map_left_def)
qed

text \<open>
  \<open>getOrInsertComputed\<close>: a key that is there has its value and calls nothing; else the callback is
  given the key, and what it returns is put into the map as the callback left it, overwriting what it
  may have put there itself.
\<close>
theorem computed_insertion:
  assumes "map_ok W this w" "canonical_value key" "mw_is_callable W f"
    and "find_pair key (map_pairs W this w) = None"
    and "mw_call W f VUndefined [canonicalize_keyed_collection_key key] w = Some (Inr v, w1)" "map_ok W this w1"
  shows "\<exists>w'. map_get_or_insert_computed W this [key, VObject f] w = Some (Inr v, w') \<and>
    map_left W this (put_pair (canonicalize_keyed_collection_key key) v (map_pairs W this w1)) w1 w'"
proof -
  have recv: "mw_is_map W this" using assms(1) by (simp add: map_ok_def)
  show ?thesis
    using map_changes(1) [OF assms(6,2), of v] assms(3-5)
    by (auto simp: map_method_defs run_simps run_gets_def run_modify_def get_or_undefined_def Let_def recv
        map_lookup [OF assms(1,2)])
qed

text \<open>A receiver that is no map is refused by every method, which changes nothing.\<close>

theorem map_receivers:
  "\<not> mw_is_map W this \<Longrightarrow>
     list_all (\<lambda>m. m w = Some (Inl TypeError, w))
       [map_set W this args, map_delete W this args, map_get W this args, map_clear W this, map_has W this args,
        map_get_or_insert W this args, map_get_or_insert_computed W this args]"
  by (simp add: map_method_defs run_simps run_throw_def Let_def)

end
