(* ===== verification/Iterators.thy ===== *)
theory Iterators
  imports PropertyOpcodes
begin

text \<open>
  Reading and calling properties of a value (\<open>object/operations.rs\<close>) and the iteration protocol
  (\<open>builtins/iterable/mod.rs\<close>). An iterator record is changed in place, also by a call that throws, so
  its methods run on a world together with the record.
\<close>

section \<open>Abstract operations\<close>

definition js_literal :: "string \<Rightarrow> js_string" where
  "js_literal s = map (\<lambda>c. word_of_nat (of_char c)) s"

abbreviation key_literal :: "string \<Rightarrow> property_key" where
  "key_literal s \<equiv> property_key_of_string (js_literal s)"

text \<open>The discriminants of \<open>WellKnown\<close> (\<open>symbol.rs\<close>)\<close>

definition symbol_iterator :: js_symbol where
  "symbol_iterator = 3"

definition symbol_species :: js_symbol where
  "symbol_species = 8"

definition run_try :: "('w, 'a) run \<Rightarrow> ('w, js_error + 'a) run" where
  "run_try m w = map_option (\<lambda>(r, w'). (Inr r, w')) (m w)"

lemma run_try_Some [run_simps]: "m w = Some (r, w') \<Longrightarrow> run_bind (run_try m) f w = f r w'"
  by (simp add: run_bind_def run_try_def)

definition object_get ::
  "('x object_world_scheme, 'm, 'e) engine_scheme \<Rightarrow> obj_addr \<Rightarrow> property_key \<Rightarrow> ('x object_world_scheme, js_value) run" where
  "object_get E obj key = property_context_new (get E obj key (VObject obj))"

definition as_function :: "('w, 'm, 'e) engine_scheme \<Rightarrow> js_value \<Rightarrow> ('w, obj_addr option) run" where
  "as_function E v =
     run_gets (\<lambda>w. case v of VObject o' \<Rightarrow> if en_callable E w o' then Some o' else None | _ \<Rightarrow> None)"

definition get_v ::
  "('x object_world_scheme, 'm, 'e) vm_engine_scheme \<Rightarrow> js_value \<Rightarrow> property_key \<Rightarrow>
     ('x object_world_scheme, js_value) run" where
  "get_v E self key =
     run_bind (to_object E self) (\<lambda>o'. property_context_new (get E o' key self))"

text \<open>The method in the value of a property.\<close>

definition method_of :: "('w, 'm, 'e) engine_scheme \<Rightarrow> js_value \<Rightarrow> ('w, obj_addr option) run" where
  "method_of E func =
     (if func = VUndefined \<or> func = VNull then run_return None
      else
        run_bind (as_function E func) (\<lambda>f.
          case f of None \<Rightarrow> run_throw TypeError | Some f \<Rightarrow> run_return (Some f)))"

definition get_method ::
  "('x object_world_scheme, 'm, 'e) vm_engine_scheme \<Rightarrow> js_value \<Rightarrow> property_key \<Rightarrow>
     ('x object_world_scheme, obj_addr option) run" where
  "get_method E self key = run_bind (get_v E self key) (method_of E)"

definition object_get_method ::
  "('x object_world_scheme, 'm, 'e) engine_scheme \<Rightarrow> obj_addr \<Rightarrow> property_key \<Rightarrow>
     ('x object_world_scheme, obj_addr option) run" where
  "object_get_method E obj key = run_bind (object_get E obj key) (method_of E)"

definition value_invoke ::
  "('x object_world_scheme, 'm, 'e) vm_engine_scheme \<Rightarrow> js_value \<Rightarrow> property_key \<Rightarrow> js_value list \<Rightarrow>
     ('x object_world_scheme, js_value) run" where
  "value_invoke E self key args = run_bind (get_v E self key) (\<lambda>func. value_call E func self args)"

definition object_invoke ::
  "('x object_world_scheme, 'm, 'e) engine_scheme \<Rightarrow> obj_addr \<Rightarrow> property_key \<Rightarrow> js_value list \<Rightarrow>
     ('x object_world_scheme, js_value) run" where
  "object_invoke E obj key args =
     run_bind (object_get E obj key) (\<lambda>func. value_call E func (VObject obj) args)"

text \<open>What this layer is given besides: the data of an ordinary object and the checks of the runtime limits.\<close>

record ('w, 'm) host_engine = "('w, 'm) vm_engine" +
  he_ordinary_data :: object_data
  he_check_runtime_limits :: "('w, unit) run"
  he_consume_loop_iterations :: "nat \<Rightarrow> ('w, unit) run"

section \<open>Iterator records\<close>

record iterator_record =
  ir_iterator :: obj_addr
  ir_next_method :: js_value
  ir_done :: bool
  ir_last_result :: obj_addr

type_synonym ('w, 'a) iterator_run = "('w \<times> iterator_record, 'a) run"

definition in_iterator :: "('w, 'a) run \<Rightarrow> ('w, 'a) iterator_run" where
  "in_iterator m c = map_option (\<lambda>(r, w). (r, (w, snd c))) (m (fst c))"

definition set_iterator :: "(iterator_record \<Rightarrow> iterator_record) \<Rightarrow> ('w, unit) iterator_run" where
  "set_iterator f = run_modify (\<lambda>(w, i). (w, f i))"

text \<open>Making objects (\<open>object/jsobject.rs\<close>); a new object with a prototype and data has a unique shape.\<close>

definition from_proto_and_data ::
  "('x object_world_scheme, 'm, 'e) vm_engine_scheme \<Rightarrow> js_prototype \<Rightarrow> object_data \<Rightarrow> vtable \<Rightarrow>
     ('x object_world_scheme, obj_addr) run" where
  "from_proto_and_data E prototype data internal_methods w =
     (let (pm, h) = from_prototype_unique_shape (ow_shapes w) prototype;
          w = w\<lparr>ow_shapes := h\<rparr>;
          a = ve_allocate E w;
          ob = \<lparr>ob_properties = pm, ob_extensible = True, ob_private_elements = [], ob_data = data,
            ob_vtable = internal_methods\<rparr> in
      run_bind (object_write a ob) (\<lambda>_. run_return a) w)"

definition with_null_proto ::
  "('x object_world_scheme, 'm, 'e) host_engine_scheme \<Rightarrow> ('x object_world_scheme, obj_addr) run" where
  "with_null_proto E = from_proto_and_data E None (he_ordinary_data E) OrdinaryMethods"

definition iterator_record_new ::
  "('x object_world_scheme, 'm, 'e) host_engine_scheme \<Rightarrow> obj_addr \<Rightarrow> js_value \<Rightarrow>
     ('x object_world_scheme, iterator_record) run" where
  "iterator_record_new E iterator next_method =
     run_bind (with_null_proto E) (\<lambda>object.
       run_return \<lparr>ir_iterator = iterator, ir_next_method = next_method, ir_done = False,
         ir_last_result = object\<rparr>)"

text \<open>Results of iterators\<close>

definition iterator_result_from_value :: "js_value \<Rightarrow> js_error + obj_addr" where
  "iterator_result_from_value value = (case value of VObject object \<Rightarrow> Inr object | _ \<Rightarrow> Inl TypeError)"

definition iterator_complete ::
  "('x object_world_scheme, 'm, 'e) engine_scheme \<Rightarrow> obj_addr \<Rightarrow> ('x object_world_scheme, bool) run" where
  "iterator_complete E result =
     run_bind (object_get E result (key_literal ''done'')) (\<lambda>v. run_return (to_boolean (en_conversions E) v))"

definition iterator_value ::
  "('x object_world_scheme, 'm, 'e) engine_scheme \<Rightarrow> obj_addr \<Rightarrow> ('x object_world_scheme, js_value) run" where
  "iterator_value E result = object_get E result (key_literal ''value'')"

definition set_done_on_err :: "('w, 'a) iterator_run \<Rightarrow> ('w, 'a) iterator_run" where
  "set_done_on_err f =
     run_bind (run_try f) (\<lambda>result.
       case result of
         Inl e \<Rightarrow> run_bind (set_iterator (\<lambda>i. i\<lparr>ir_done := True\<rparr>)) (\<lambda>_. run_throw e)
       | Inr a \<Rightarrow> run_return a)"

definition iterator_record_value ::
  "('x object_world_scheme, 'm, 'e) engine_scheme \<Rightarrow> ('x object_world_scheme, js_value) iterator_run" where
  "iterator_record_value E =
     set_done_on_err (\<lambda>(w, i). in_iterator (iterator_value E (ir_last_result i)) (w, i))"

text \<open>The first step of \<open>update_result\<close> and \<open>step\<close>: whether the result is the last one.\<close>

definition take_result ::
  "('x object_world_scheme, 'm, 'e) engine_scheme \<Rightarrow> obj_addr \<Rightarrow> ('x object_world_scheme, unit) iterator_run" where
  "take_result E result =
     run_bind (in_iterator (iterator_complete E result)) (\<lambda>is_done.
       set_iterator (\<lambda>i. i\<lparr>ir_done := is_done, ir_last_result := result\<rparr>))"

definition update_result ::
  "('x object_world_scheme, 'm, 'e) engine_scheme \<Rightarrow> js_value \<Rightarrow> ('x object_world_scheme, unit) iterator_run" where
  "update_result E result =
     set_done_on_err (run_bind (run_lift (iterator_result_from_value result)) (take_result E))"

definition iterator_next ::
  "('x object_world_scheme, 'm, 'e) engine_scheme \<Rightarrow> js_value option \<Rightarrow> ('x object_world_scheme, obj_addr) iterator_run" where
  "iterator_next E value =
     set_done_on_err (\<lambda>(w, i).
       run_bind (in_iterator (value_call E (ir_next_method i) (VObject (ir_iterator i))
           (case value of None \<Rightarrow> [] | Some v \<Rightarrow> [v])))
         (\<lambda>result. run_lift (iterator_result_from_value result)) (w, i))"

definition iterator_step ::
  "('x object_world_scheme, 'm, 'e) engine_scheme \<Rightarrow> ('x object_world_scheme, bool) iterator_run" where
  "iterator_step E =
     set_done_on_err
       (run_bind (iterator_next E None) (\<lambda>result.
        run_bind (take_result E result) (\<lambda>_. run_gets (\<lambda>(w, i). ir_done i))))"

definition step_value ::
  "('x object_world_scheme, 'm, 'e) engine_scheme \<Rightarrow> ('x object_world_scheme, js_value option) iterator_run" where
  "step_value E =
     run_bind (iterator_step E) (\<lambda>is_done.
       if is_done then run_return None
       else run_bind (iterator_record_value E) (\<lambda>v. run_return (Some v)))"

definition iterator_close ::
  "('x object_world_scheme, 'm, 'e) vm_engine_scheme \<Rightarrow> iterator_record \<Rightarrow> js_error + js_value \<Rightarrow>
     ('x object_world_scheme, js_value) run" where
  "iterator_close E self completion =
     run_bind (run_try (object_get_method E (ir_iterator self) (key_literal ''return''))) (\<lambda>inner_result.
       case inner_result of
         Inr None \<Rightarrow> run_lift completion
       | Inl e \<Rightarrow> run_bind (run_lift completion) (\<lambda>_. run_throw e)
       | Inr (Some f) \<Rightarrow>
           run_bind (run_try (en_call E f (VObject (ir_iterator self)) [])) (\<lambda>inner_result.
           run_bind (run_lift completion) (\<lambda>completion.
           run_bind (run_lift inner_result) (\<lambda>inner_result.
             if is_object inner_result then run_return completion else run_throw TypeError))))"

section \<open>\<open>GetIterator\<close>\<close>

definition get_iterator_from_method ::
  "('x object_world_scheme, 'm, 'e) host_engine_scheme \<Rightarrow> js_value \<Rightarrow> obj_addr \<Rightarrow>
     ('x object_world_scheme, iterator_record) run" where
  "get_iterator_from_method E self method =
     run_bind (en_call E method self []) (\<lambda>iterator.
       case iterator of
         VObject iterator_obj \<Rightarrow>
           run_bind (object_get E iterator_obj (key_literal ''next'')) (\<lambda>next_method.
             iterator_record_new E iterator_obj next_method)
       | _ \<Rightarrow> run_throw TypeError)"

text \<open>\<open>get_iterator\<close> with \<open>IteratorHint::Sync\<close>\<close>

definition get_iterator_sync ::
  "('x object_world_scheme, 'm, 'e) host_engine_scheme \<Rightarrow> js_value \<Rightarrow> ('x object_world_scheme, iterator_record) run" where
  "get_iterator_sync E self =
     run_bind (get_method E self (property_key_of_symbol symbol_iterator)) (\<lambda>method.
       case method of
         None \<Rightarrow> run_throw TypeError
       | Some method \<Rightarrow> get_iterator_from_method E self method)"

section \<open>\<open>IteratorToList\<close>\<close>

text \<open>One step is charged to the limit of loops; an exhausted limit closes the iterator.\<close>

definition iterator_consume_loop_iteration ::
  "('x object_world_scheme, 'm, 'e) host_engine_scheme \<Rightarrow> iterator_record \<Rightarrow> ('x object_world_scheme, unit) run" where
  "iterator_consume_loop_iteration E self =
     run_bind (run_try (he_consume_loop_iterations E 1)) (\<lambda>r.
       case r of
         Inr _ \<Rightarrow> run_return ()
       | Inl e \<Rightarrow> run_bind (iterator_close E self (Inl e)) (\<lambda>_. run_unwrap None))"

partial_function (option) try_into_list ::
  "('x object_world_scheme, 'm, 'e) host_engine_scheme \<Rightarrow> (js_value \<Rightarrow> ('x object_world_scheme, 'a) run) \<Rightarrow>
     'a list \<Rightarrow> ('x object_world_scheme, 'a list) iterator_run" where
  "try_into_list E convert vs c =
     run_bind (step_value E) (\<lambda>r c.
       case r of
         None \<Rightarrow> run_return vs c
       | Some v \<Rightarrow>
           run_bind (in_iterator (iterator_consume_loop_iteration E (snd c))) (\<lambda>_ c.
           run_bind (in_iterator (convert v)) (\<lambda>a c. try_into_list E convert (vs @ [a]) c) c) c) c"

definition into_list ::
  "('x object_world_scheme, 'm, 'e) host_engine_scheme \<Rightarrow> iterator_record \<Rightarrow> ('x object_world_scheme, js_value list) run" where
  "into_list E self w = map_option (\<lambda>(r, c). (r, fst c)) (try_into_list E run_return [] (w, self))"

end
