(* ===== verification/Promises.thy ===== *)
theory Promises
  imports Iterators
begin

text \<open>
  Promises (\<open>builtins/promise/mod.rs\<close>): the data of a promise, its reactions, the resolving
  functions, capabilities, and the jobs that the reactions become. The closures of native functions are
  values of a datatype, what they capture and share are cells of the world. The data of promises and of
  native functions is beside the heap of objects, at the addresses of the objects. Hooks of the host are
  the default ones; the calls of the rejection tracker, which by default does nothing, are recorded.
\<close>

section \<open>The state\<close>

datatype promise_state = Pending | Fulfilled js_value | Rejected js_value

fun as_fulfilled :: "promise_state \<Rightarrow> js_value option" where
  "as_fulfilled (Fulfilled v) = Some v"
| "as_fulfilled _ = None"

fun as_rejected :: "promise_state \<Rightarrow> js_value option" where
  "as_rejected (Rejected v) = Some v"
| "as_rejected _ = None"

datatype operation_type = OperationReject | OperationHandle

record resolving_functions =
  rf_resolve :: obj_addr
  rf_reject :: obj_addr

record promise_capability =
  pc_promise :: obj_addr
  pc_functions :: resolving_functions

datatype reaction_type = FulfillReaction | RejectReaction

record reaction_record =
  rr_promise_capability :: "promise_capability option"
  rr_reaction_type :: reaction_type
  rr_handler :: "obj_addr option"

record promise =
  pr_state :: promise_state
  pr_fulfill_reactions :: "reaction_record list"
  pr_reject_reactions :: "reaction_record list"
  pr_handled :: bool

definition promise_new :: promise where
  "promise_new = \<lparr>pr_state = Pending, pr_fulfill_reactions = [], pr_reject_reactions = [], pr_handled = False\<rparr>"

text \<open>
  The jobs by what their closures capture, with the realm they run in, and the closures of the native
  functions. Cells are given by their position.
\<close>

datatype promise_job =
    ReactionJob reaction_record js_value nat
  | ResolveThenableJob obj_addr js_value obj_addr nat

datatype keyed_variant = KeyedAll | KeyedAllSettled

datatype native_closure =
    PromiseConstructor | PromiseSpecies | PromiseThen | PromiseCatch | PromiseFinally
  | PromiseResolve | PromiseReject | PromiseTry | PromiseWithResolvers
  | PromiseAll | PromiseAllSettled | PromiseAny | PromiseRace | PromiseAllKeyed | PromiseAllSettledKeyed
  | CapabilityExecutor nat
  | ResolveFunction nat
  | RejectFunction nat
  | ThenFinally obj_addr obj_addr
  | CatchFinally obj_addr obj_addr
  | ReturnValue js_value
  | ThrowReason js_value
  | AllResolveElement nat nat nat obj_addr nat
  | SettledResolveElement nat nat nat obj_addr nat
  | SettledRejectElement nat nat nat obj_addr nat
  | AnyRejectElement nat nat nat obj_addr nat
  | KeyedResolveElement nat nat keyed_variant nat nat obj_addr nat
  | KeyedRejectElement nat nat keyed_variant nat nat obj_addr nat

record native_function =
  nf_closure :: native_closure
  nf_constructor :: bool
  nf_realm :: "nat option"

record promise_world = object_world +
  pw_promises :: "obj_addr \<Rightarrow> promise option"
  pw_functions :: "obj_addr \<Rightarrow> native_function option"
  pw_resolvers :: "obj_addr option list"
  pw_capabilities :: "(js_value \<times> js_value) list"
  pw_flags :: "bool list"
  pw_values :: "js_value list list"
  pw_keys :: "property_key list list"
  pw_counters :: "i32 list"
  pw_jobs :: "promise_job list"
  pw_tracked :: "(obj_addr \<times> operation_type) list"
  pw_realm :: nat

text \<open>
  What this layer is given: the intrinsics of each realm, calls of constructors, the realm of a
  function, and the objects that errors become.
\<close>

record ('w, 'm) promise_engine = "('w, 'm) host_engine" +
  pe_root_shape :: shape_addr
  pe_function_template :: "nat \<Rightarrow> shape"
  pe_function_data :: object_data
  pe_function_methods :: vtable
  pe_promise_data :: object_data
  pe_array_data :: object_data
  pe_promise_prototype :: "nat \<Rightarrow> obj_addr"
  pe_promise_constructor :: "nat \<Rightarrow> obj_addr"
  pe_object_prototype :: "nat \<Rightarrow> obj_addr"
  pe_resolvers_template :: "nat \<Rightarrow> shape"
  pe_is_constructor :: "'w \<Rightarrow> obj_addr \<Rightarrow> bool"
  pe_construct :: "obj_addr \<Rightarrow> js_value list \<Rightarrow> obj_addr \<Rightarrow> ('w, obj_addr) run"
  pe_function_realm :: "(obj_addr \<Rightarrow> js_object option) \<Rightarrow> nat \<Rightarrow> obj_addr \<Rightarrow> js_error + nat"
  pe_error_object :: "js_error \<Rightarrow> ('w, obj_addr) run"
  pe_aggregate_error :: "js_value list \<Rightarrow> ('w, obj_addr) run"

text \<open>\<open>get_function_realm\<close> reads the object, and the realm of the context for a function without its own.\<close>

definition function_realm ::
  "('w, 'm, 'e) promise_engine_scheme \<Rightarrow> 'x promise_world_scheme \<Rightarrow> obj_addr \<Rightarrow> js_error + nat" where
  "function_realm E w f = pe_function_realm E (ow_objects w) (pw_realm w) f"

text \<open>\<open>JsError::into_opaque\<close>: an error of the engine is not a value.\<close>

definition error_into_opaque :: "('w, 'm, 'e) promise_engine_scheme \<Rightarrow> js_error \<Rightarrow> ('w, js_value) run" where
  "error_into_opaque E e =
     (case e of
        Thrown v \<Rightarrow> run_return v
      | EngineError \<Rightarrow> run_throw EngineError
      | _ \<Rightarrow> run_bind (pe_error_object E e) (\<lambda>o'. run_return (VObject o')))"

section \<open>Cells, functions and promises\<close>

definition promise_borrow :: "obj_addr \<Rightarrow> ('x promise_world_scheme, promise) run" where
  "promise_borrow p w = map_option (\<lambda>pr. (Inr pr, w)) (pw_promises w p)"

definition promise_modify :: "obj_addr \<Rightarrow> (promise \<Rightarrow> promise) \<Rightarrow> ('x promise_world_scheme, unit) run" where
  "promise_modify p f =
     run_bind (promise_borrow p) (\<lambda>pr. run_modify (\<lambda>w. w\<lparr>pw_promises := (pw_promises w)(p \<mapsto> f pr)\<rparr>))"

definition as_promise_object :: "js_value \<Rightarrow> ('x promise_world_scheme, obj_addr option) run" where
  "as_promise_object v =
     run_gets (\<lambda>w. case v of VObject o' \<Rightarrow> if pw_promises w o' = None then None else Some o' | _ \<Rightarrow> None)"

definition new_cell ::
  "('x promise_world_scheme \<Rightarrow> 'a list) \<Rightarrow> (('a list \<Rightarrow> 'a list) \<Rightarrow> 'x promise_world_scheme \<Rightarrow> 'x promise_world_scheme) \<Rightarrow>
     'a \<Rightarrow> ('x promise_world_scheme, nat) run" where
  "new_cell sel upd a w = Some (Inr (length (sel w)), upd (\<lambda>as. as @ [a]) w)"

definition read_cell :: "('x promise_world_scheme \<Rightarrow> 'a list) \<Rightarrow> nat \<Rightarrow> ('x promise_world_scheme, 'a) run" where
  "read_cell sel i w = (if i < length (sel w) then Some (Inr (sel w ! i), w) else None)"

definition write_cell ::
  "('x promise_world_scheme \<Rightarrow> 'a list) \<Rightarrow> (('a list \<Rightarrow> 'a list) \<Rightarrow> 'x promise_world_scheme \<Rightarrow> 'x promise_world_scheme) \<Rightarrow>
     nat \<Rightarrow> 'a \<Rightarrow> ('x promise_world_scheme, unit) run" where
  "write_cell sel upd i a w =
     (if i < length (sel w) then Some (Inr (), upd (\<lambda>as. as[i := a]) w) else None)"

text \<open>\<open>Cell::take\<close> of the promise that a pair of resolving functions shares.\<close>

definition take_promise :: "nat \<Rightarrow> ('x promise_world_scheme, obj_addr option) run" where
  "take_promise i =
     run_bind (read_cell pw_resolvers i) (\<lambda>promise.
     run_bind (write_cell pw_resolvers pw_resolvers_update i None) (\<lambda>_. run_return promise))"

text \<open>\<open>FunctionObjectBuilder\<close>, with the empty name and no constructor.\<close>

definition build_function ::
  "('x promise_world_scheme, 'm, 'e) promise_engine_scheme \<Rightarrow> native_closure \<Rightarrow> nat \<Rightarrow>
     ('x promise_world_scheme, obj_addr) run" where
  "build_function E closure len =
     run_bind (run_gets pw_realm) (\<lambda>realm.
     run_bind (template_create E (pe_function_template E realm) (pe_function_data E) (pe_function_methods E)
         [value_of_usize len, VString []]) (\<lambda>a.
     run_bind (run_modify (\<lambda>w. w\<lparr>pw_functions := (pw_functions w)(a \<mapsto>
         \<lparr>nf_closure = closure, nf_constructor = False, nf_realm = Some realm\<rparr>)\<rparr>)) (\<lambda>_. run_return a)))"

definition enqueue_promise_job :: "promise_job \<Rightarrow> ('x promise_world_scheme, unit) run" where
  "enqueue_promise_job job = run_modify (\<lambda>w. w\<lparr>pw_jobs := pw_jobs w @ [job]\<rparr>)"

definition promise_rejection_tracker :: "obj_addr \<Rightarrow> operation_type \<Rightarrow> ('x promise_world_scheme, unit) run" where
  "promise_rejection_tracker promise operation =
     run_modify (\<lambda>w. w\<lparr>pw_tracked := pw_tracked w @ [(promise, operation)]\<rparr>)"

section \<open>Jobs\<close>

definition new_promise_reaction_job ::
  "('x promise_world_scheme, 'm, 'e) promise_engine_scheme \<Rightarrow> reaction_record \<Rightarrow> js_value \<Rightarrow>
     ('x promise_world_scheme, promise_job) run" where
  "new_promise_reaction_job E reaction argument =
     run_gets (\<lambda>w. ReactionJob reaction argument
       (case rr_handler reaction of
          None \<Rightarrow> pw_realm w
        | Some h \<Rightarrow> (case function_realm E w h of Inr realm \<Rightarrow> realm | Inl _ \<Rightarrow> pw_realm w)))"

definition new_promise_resolve_thenable_job ::
  "('x promise_world_scheme, 'm, 'e) promise_engine_scheme \<Rightarrow> obj_addr \<Rightarrow> js_value \<Rightarrow> obj_addr \<Rightarrow>
     ('x promise_world_scheme, promise_job) run" where
  "new_promise_resolve_thenable_job E promise_to_resolve thenable thn =
     run_gets (\<lambda>w. ResolveThenableJob promise_to_resolve thenable thn
       (case function_realm E w thn of Inr realm \<Rightarrow> realm | Inl _ \<Rightarrow> pw_realm w))"

fun trigger_promise_reactions ::
  "('x promise_world_scheme, 'm, 'e) promise_engine_scheme \<Rightarrow> reaction_record list \<Rightarrow> js_value \<Rightarrow>
     ('x promise_world_scheme, unit) run" where
  "trigger_promise_reactions E [] argument = run_return ()"
| "trigger_promise_reactions E (reaction # reactions) argument =
     run_bind (new_promise_reaction_job E reaction argument) (\<lambda>job.
     run_bind (enqueue_promise_job job) (\<lambda>_.
       trigger_promise_reactions E reactions argument))"

section \<open>Settling and resolving\<close>

definition fulfill_promise ::
  "('x promise_world_scheme, 'm, 'e) promise_engine_scheme \<Rightarrow> obj_addr \<Rightarrow> js_value \<Rightarrow>
     ('x promise_world_scheme, unit) run" where
  "fulfill_promise E promise value =
     run_bind (promise_borrow promise) (\<lambda>pr.
       if pr_state pr \<noteq> Pending then run_unwrap None
       else
         run_bind (promise_modify promise (\<lambda>pr. pr\<lparr>pr_fulfill_reactions := []\<rparr>)) (\<lambda>_.
         run_bind (promise_modify promise (\<lambda>pr. pr\<lparr>pr_reject_reactions := []\<rparr>)) (\<lambda>_.
         run_bind (trigger_promise_reactions E (pr_fulfill_reactions pr) value) (\<lambda>_.
           promise_modify promise (\<lambda>pr. pr\<lparr>pr_state := Fulfilled value\<rparr>)))))"

definition reject_promise ::
  "('x promise_world_scheme, 'm, 'e) promise_engine_scheme \<Rightarrow> obj_addr \<Rightarrow> js_value \<Rightarrow>
     ('x promise_world_scheme, unit) run" where
  "reject_promise E promise reason =
     run_bind (promise_borrow promise) (\<lambda>pr.
       if pr_state pr \<noteq> Pending then run_unwrap None
       else
         run_bind (promise_modify promise (\<lambda>pr. pr\<lparr>pr_reject_reactions := []\<rparr>)) (\<lambda>_.
         run_bind (promise_modify promise (\<lambda>pr. pr\<lparr>pr_fulfill_reactions := []\<rparr>)) (\<lambda>_.
         run_bind (trigger_promise_reactions E (pr_reject_reactions pr) reason) (\<lambda>_.
         run_bind (promise_modify promise (\<lambda>pr. pr\<lparr>pr_state := Rejected reason\<rparr>)) (\<lambda>_.
           if \<not> pr_handled pr then promise_rejection_tracker promise OperationReject
           else run_return ())))))"

text \<open>The closures of the resolving functions, and their making.\<close>

definition resolve_function ::
  "('x promise_world_scheme, 'm, 'e) promise_engine_scheme \<Rightarrow> nat \<Rightarrow> js_value list \<Rightarrow>
     ('x promise_world_scheme, js_value) run" where
  "resolve_function E captures args =
     run_bind (take_promise captures) (\<lambda>promise.
       case promise of
         None \<Rightarrow> run_return VUndefined
       | Some promise \<Rightarrow>
           let resolution = get_or_undefined args 0 in
           if same_value resolution (VObject promise) then
             run_bind (pe_error_object E TypeError) (\<lambda>self_resolution_error.
             run_bind (reject_promise E promise (VObject self_resolution_error)) (\<lambda>_. run_return VUndefined))
           else (case resolution of
               VObject thn \<Rightarrow>
                 run_bind (run_try (object_get E thn (key_literal ''then''))) (\<lambda>then_action.
                   case then_action of
                     Inl e \<Rightarrow>
                       run_bind (error_into_opaque E e) (\<lambda>e.
                       run_bind (reject_promise E promise e) (\<lambda>_. run_return VUndefined))
                   | Inr then_action \<Rightarrow>
                       run_bind (as_function E then_action) (\<lambda>then_action.
                         case then_action of
                           None \<Rightarrow> run_bind (fulfill_promise E promise resolution) (\<lambda>_. run_return VUndefined)
                         | Some then_action \<Rightarrow>
                             run_bind (new_promise_resolve_thenable_job E promise resolution then_action) (\<lambda>job.
                             run_bind (enqueue_promise_job job) (\<lambda>_. run_return VUndefined))))
             | _ \<Rightarrow> run_bind (fulfill_promise E promise resolution) (\<lambda>_. run_return VUndefined)))"

definition reject_function ::
  "('x promise_world_scheme, 'm, 'e) promise_engine_scheme \<Rightarrow> nat \<Rightarrow> js_value list \<Rightarrow>
     ('x promise_world_scheme, js_value) run" where
  "reject_function E captures args =
     run_bind (take_promise captures) (\<lambda>promise.
       case promise of
         None \<Rightarrow> run_return VUndefined
       | Some promise \<Rightarrow>
           run_bind (reject_promise E promise (get_or_undefined args 0)) (\<lambda>_. run_return VUndefined))"

definition create_resolving_functions ::
  "('x promise_world_scheme, 'm, 'e) promise_engine_scheme \<Rightarrow> obj_addr \<Rightarrow>
     ('x promise_world_scheme, resolving_functions) run" where
  "create_resolving_functions E promise =
     run_bind (new_cell pw_resolvers pw_resolvers_update (Some promise)) (\<lambda>cell.
     run_bind (build_function E (ResolveFunction cell) 1) (\<lambda>resolve.
     run_bind (build_function E (RejectFunction cell) 1) (\<lambda>reject.
       run_return \<lparr>rf_resolve = resolve, rf_reject = reject\<rparr>)))"

section \<open>Running jobs\<close>

text \<open>\<open>NativeJob::call\<close> and \<open>swap_realm\<close>: the realm is entered and left, also by an exception.\<close>

definition run_in_realm :: "nat \<Rightarrow> ('x promise_world_scheme, 'a) run \<Rightarrow> ('x promise_world_scheme, 'a) run" where
  "run_in_realm realm m w =
     map_option (\<lambda>(r, w'). (r, w'\<lparr>pw_realm := pw_realm w\<rparr>)) (m (w\<lparr>pw_realm := realm\<rparr>))"

definition run_reaction_job ::
  "('x promise_world_scheme, 'm, 'e) promise_engine_scheme \<Rightarrow> reaction_record \<Rightarrow> js_value \<Rightarrow>
     ('x promise_world_scheme, js_value) run" where
  "run_reaction_job E reaction argument =
     run_bind
       (case rr_handler reaction of
          None \<Rightarrow>
            (case rr_reaction_type reaction of
               FulfillReaction \<Rightarrow> run_return (Inr argument)
             | RejectReaction \<Rightarrow> run_return (Inl argument))
        | Some handler \<Rightarrow>
            run_bind (run_try (en_call E handler VUndefined [argument])) (\<lambda>r.
              case r of
                Inr v \<Rightarrow> run_return (Inr v)
              | Inl e \<Rightarrow> run_bind (error_into_opaque E e) (\<lambda>e. run_return (Inl e))))
       (\<lambda>handler_result.
         case rr_promise_capability reaction of
           None \<Rightarrow>
             (case handler_result of Inl _ \<Rightarrow> run_unwrap None | Inr _ \<Rightarrow> run_return VUndefined)
         | Some capability \<Rightarrow>
             (case handler_result of
                Inl v \<Rightarrow> en_call E (rf_reject (pc_functions capability)) VUndefined [v]
              | Inr v \<Rightarrow> en_call E (rf_resolve (pc_functions capability)) VUndefined [v]))"

definition run_resolve_thenable_job ::
  "('x promise_world_scheme, 'm, 'e) promise_engine_scheme \<Rightarrow> obj_addr \<Rightarrow> js_value \<Rightarrow> obj_addr \<Rightarrow>
     ('x promise_world_scheme, js_value) run" where
  "run_resolve_thenable_job E promise_to_resolve thenable thn =
     run_bind (create_resolving_functions E promise_to_resolve) (\<lambda>resolving_functions.
     run_bind (run_try (en_call E thn thenable
         [VObject (rf_resolve resolving_functions), VObject (rf_reject resolving_functions)])) (\<lambda>then_call_result.
       case then_call_result of
         Inl e \<Rightarrow>
           run_bind (error_into_opaque E e) (\<lambda>value.
             en_call E (rf_reject resolving_functions) VUndefined [value])
       | Inr v \<Rightarrow> run_return v))"

fun job_realm :: "promise_job \<Rightarrow> nat" where
  "job_realm (ReactionJob reaction argument realm) = realm"
| "job_realm (ResolveThenableJob promise thenable thn realm) = realm"

fun run_job_closure ::
  "('x promise_world_scheme, 'm, 'e) promise_engine_scheme \<Rightarrow> promise_job \<Rightarrow>
     ('x promise_world_scheme, js_value) run" where
  "run_job_closure E (ReactionJob reaction argument realm) = run_reaction_job E reaction argument"
| "run_job_closure E (ResolveThenableJob promise thenable thn realm) =
     run_resolve_thenable_job E promise thenable thn"

definition run_promise_job ::
  "('x promise_world_scheme, 'm, 'e) promise_engine_scheme \<Rightarrow> promise_job \<Rightarrow>
     ('x promise_world_scheme, js_value) run" where
  "run_promise_job E job = run_in_realm (job_realm job) (run_job_closure E job)"

section \<open>Making promises\<close>

text \<open>\<open>get_prototype_from_constructor\<close> and \<open>from_proto_and_data_with_shared_shape\<close>\<close>

definition prototype_from_constructor ::
  "('x promise_world_scheme, 'm, 'e) promise_engine_scheme \<Rightarrow> js_value \<Rightarrow> (nat \<Rightarrow> obj_addr) \<Rightarrow>
     ('x promise_world_scheme, obj_addr) run" where
  "prototype_from_constructor E constructor standard =
     (case constructor of
        VObject constructor \<Rightarrow>
          run_bind (object_get E constructor (key_literal ''prototype'')) (\<lambda>v.
            case v of
              VObject proto \<Rightarrow> run_return proto
            | _ \<Rightarrow>
                run_bind (run_gets (\<lambda>w. function_realm E w constructor)) (\<lambda>realm.
                run_bind (run_lift realm) (\<lambda>realm. run_return (standard realm))))
      | _ \<Rightarrow> run_gets (\<lambda>w. standard (pw_realm w)))"

definition from_proto_and_data_with_shared_shape ::
  "('x promise_world_scheme, 'm, 'e) promise_engine_scheme \<Rightarrow> obj_addr \<Rightarrow> object_data \<Rightarrow>
     ('x promise_world_scheme, obj_addr) run" where
  "from_proto_and_data_with_shared_shape E prototype data w =
     (case from_prototype_with_shared_shape (ow_shapes w) (pe_root_shape E) (Some prototype) of
        None \<Rightarrow> None
      | Some (pm, h) \<Rightarrow>
          let w = w\<lparr>ow_shapes := h\<rparr>;
              a = ve_allocate E w;
              ob = \<lparr>ob_properties = pm, ob_extensible = True, ob_private_elements = [], ob_data = data,
                ob_vtable = OrdinaryMethods\<rparr> in
          run_bind (object_write a ob) (\<lambda>_. run_return a) w)"

definition call_function ::
  "('w, 'm, 'e) promise_engine_scheme \<Rightarrow> obj_addr \<Rightarrow> js_value list \<Rightarrow> ('w, js_value) run" where
  "call_function E f args = en_call E f VUndefined args"

definition promise_constructor ::
  "('x promise_world_scheme, 'm, 'e) promise_engine_scheme \<Rightarrow> js_value \<Rightarrow> js_value list \<Rightarrow>
     ('x promise_world_scheme, js_value) run" where
  "promise_constructor E new_target args =
     (if new_target = VUndefined then run_throw TypeError
      else
        run_bind (as_function E (get_or_undefined args 0)) (\<lambda>executor.
          case executor of
            None \<Rightarrow> run_throw TypeError
          | Some executor \<Rightarrow>
              run_bind (prototype_from_constructor E new_target (pe_promise_prototype E)) (\<lambda>prototype.
              run_bind (from_proto_and_data_with_shared_shape E prototype (pe_promise_data E)) (\<lambda>promise.
              run_bind (run_modify (\<lambda>w. w\<lparr>pw_promises := (pw_promises w)(promise \<mapsto> promise_new)\<rparr>)) (\<lambda>_.
              run_bind (create_resolving_functions E promise) (\<lambda>resolving_functions.
              run_bind (run_try (call_function E executor
                  [VObject (rf_resolve resolving_functions), VObject (rf_reject resolving_functions)])) (\<lambda>completion.
              run_bind
                (case completion of
                   Inl e \<Rightarrow>
                     run_bind (error_into_opaque E e) (\<lambda>e.
                     run_bind (call_function E (rf_reject resolving_functions) [e]) (\<lambda>_. run_return ()))
                 | Inr _ \<Rightarrow> run_return ())
                (\<lambda>_. run_return (VObject promise)))))))))"

text \<open>\<open>PromiseCapability::new\<close> and the closure of its executor\<close>

definition capability_executor :: "nat \<Rightarrow> js_value list \<Rightarrow> ('x promise_world_scheme, js_value) run" where
  "capability_executor captures args =
     run_bind (read_cell pw_capabilities captures) (\<lambda>(resolve, reject).
       if resolve \<noteq> VUndefined then run_throw TypeError
       else if reject \<noteq> VUndefined then run_throw TypeError
       else
         run_bind (write_cell pw_capabilities pw_capabilities_update captures
             (get_or_undefined args 0, get_or_undefined args 1)) (\<lambda>_. run_return VUndefined))"

definition promise_capability_new ::
  "('x promise_world_scheme, 'm, 'e) promise_engine_scheme \<Rightarrow> obj_addr \<Rightarrow>
     ('x promise_world_scheme, promise_capability) run" where
  "promise_capability_new E c =
     run_bind (run_gets (\<lambda>w. pe_is_constructor E w c)) (\<lambda>is_constructor.
       if \<not> is_constructor then run_throw TypeError
       else
         run_bind (new_cell pw_capabilities pw_capabilities_update (VUndefined, VUndefined)) (\<lambda>cell.
         run_bind (build_function E (CapabilityExecutor cell) 2) (\<lambda>executor.
         run_bind (pe_construct E c [VObject executor] c) (\<lambda>promise.
         run_bind (read_cell pw_capabilities cell) (\<lambda>(resolve, reject).
         run_bind (as_function E resolve) (\<lambda>resolve.
           case resolve of
             None \<Rightarrow> run_throw TypeError
           | Some resolve \<Rightarrow>
               run_bind (as_function E reject) (\<lambda>reject.
                 case reject of
                   None \<Rightarrow> run_throw TypeError
                 | Some reject \<Rightarrow>
                     run_return \<lparr>pc_promise = promise,
                       pc_functions = \<lparr>rf_resolve = resolve, rf_reject = reject\<rparr>\<rparr>)))))))"

section \<open>\<open>then\<close>\<close>

definition perform_promise_then ::
  "('x promise_world_scheme, 'm, 'e) promise_engine_scheme \<Rightarrow> obj_addr \<Rightarrow> obj_addr option \<Rightarrow> obj_addr option \<Rightarrow>
     promise_capability option \<Rightarrow> ('x promise_world_scheme, unit) run" where
  "perform_promise_then E promise on_fulfilled on_rejected result_capability =
     (let fulfill_reaction = \<lparr>rr_promise_capability = result_capability, rr_reaction_type = FulfillReaction,
            rr_handler = on_fulfilled\<rparr>;
          reject_reaction = \<lparr>rr_promise_capability = result_capability, rr_reaction_type = RejectReaction,
            rr_handler = on_rejected\<rparr> in
      run_bind (promise_borrow promise) (\<lambda>pr.
      run_bind
        (case pr_state pr of
           Pending \<Rightarrow>
             run_bind (promise_modify promise (\<lambda>pr.
                 pr\<lparr>pr_fulfill_reactions := pr_fulfill_reactions pr @ [fulfill_reaction]\<rparr>)) (\<lambda>_.
               promise_modify promise (\<lambda>pr. pr\<lparr>pr_reject_reactions := pr_reject_reactions pr @ [reject_reaction]\<rparr>))
         | Fulfilled v \<Rightarrow>
             run_bind (new_promise_reaction_job E fulfill_reaction v) enqueue_promise_job
         | Rejected reason \<Rightarrow>
             run_bind (if \<not> pr_handled pr then promise_rejection_tracker promise OperationHandle
                 else run_return ()) (\<lambda>_.
             run_bind (new_promise_reaction_job E reject_reaction reason) enqueue_promise_job))
        (\<lambda>_. promise_modify promise (\<lambda>pr. pr\<lparr>pr_handled := True\<rparr>))))"

definition species_constructor ::
  "('x promise_world_scheme, 'm, 'e) promise_engine_scheme \<Rightarrow> obj_addr \<Rightarrow> (nat \<Rightarrow> obj_addr) \<Rightarrow>
     ('x promise_world_scheme, obj_addr) run" where
  "species_constructor E self default_constructor =
     run_bind (object_get E self (key_literal ''constructor'')) (\<lambda>c.
       if c = VUndefined then run_gets (\<lambda>w. default_constructor (pw_realm w))
       else (case c of
           VObject c \<Rightarrow>
             run_bind (object_get E c (property_key_of_symbol symbol_species)) (\<lambda>s.
               if s = VUndefined \<or> s = VNull then run_gets (\<lambda>w. default_constructor (pw_realm w))
               else
                 run_bind (run_gets (\<lambda>w. case s of VObject s \<Rightarrow> if pe_is_constructor E w s then Some s else None | _ \<Rightarrow> None))
                   (\<lambda>s. case s of None \<Rightarrow> run_throw TypeError | Some s \<Rightarrow> run_return s))
         | _ \<Rightarrow> run_throw TypeError))"

definition inner_then ::
  "('x promise_world_scheme, 'm, 'e) promise_engine_scheme \<Rightarrow> obj_addr \<Rightarrow> obj_addr option \<Rightarrow> obj_addr option \<Rightarrow>
     ('x promise_world_scheme, obj_addr) run" where
  "inner_then E promise on_fulfilled on_rejected =
     run_bind (species_constructor E promise (pe_promise_constructor E)) (\<lambda>c.
     run_bind (promise_capability_new E c) (\<lambda>result_capability.
     run_bind (perform_promise_then E promise on_fulfilled on_rejected (Some result_capability)) (\<lambda>_.
       run_return (pc_promise result_capability))))"

definition promise_then ::
  "('x promise_world_scheme, 'm, 'e) promise_engine_scheme \<Rightarrow> js_value \<Rightarrow> js_value list \<Rightarrow>
     ('x promise_world_scheme, js_value) run" where
  "promise_then E this args =
     run_bind (as_promise_object this) (\<lambda>promise.
       case promise of
         None \<Rightarrow> run_throw TypeError
       | Some promise \<Rightarrow>
           run_bind (as_function E (get_or_undefined args 0)) (\<lambda>on_fulfilled.
           run_bind (as_function E (get_or_undefined args 1)) (\<lambda>on_rejected.
           run_bind (inner_then E promise on_fulfilled on_rejected) (\<lambda>p. run_return (VObject p)))))"

end
