(* ===== verification/PromiseMethods.thy ===== *)
theory PromiseMethods
  imports Promises IndexedProperties
begin

text \<open>
  The methods of the \<open>Promise\<close> constructor and of its prototype (\<open>builtins/promise/mod.rs\<close>), with the
  combinators \<open>all\<close>, \<open>allSettled\<close>, \<open>any\<close> and \<open>race\<close> and the closures that these make.
\<close>

section \<open>Static methods\<close>

text \<open>The receiver of a static method.\<close>

definition static_receiver :: "js_value \<Rightarrow> ('w, obj_addr) run" where
  "static_receiver this = (case this of VObject c \<Rightarrow> run_return c | _ \<Rightarrow> run_throw TypeError)"

definition promise_try ::
  "('x promise_world_scheme, 'm, 'e) promise_engine_scheme \<Rightarrow> js_value \<Rightarrow> js_value list \<Rightarrow>
     ('x promise_world_scheme, js_value) run" where
  "promise_try E this args =
     run_bind (static_receiver this) (\<lambda>c.
     run_bind (promise_capability_new E c) (\<lambda>capability.
     run_bind (run_try (value_call E (get_or_undefined args 0) VUndefined (drop 1 args))) (\<lambda>status.
     run_bind
       (case status of
          Inl err \<Rightarrow>
            run_bind (error_into_opaque E err) (\<lambda>v. call_function E (rf_reject (pc_functions capability)) [v])
        | Inr v \<Rightarrow> call_function E (rf_resolve (pc_functions capability)) [v])
       (\<lambda>_. run_return (VObject (pc_promise capability))))))"

definition promise_with_resolvers ::
  "('x promise_world_scheme, 'm, 'e) promise_engine_scheme \<Rightarrow> js_value \<Rightarrow> js_value list \<Rightarrow>
     ('x promise_world_scheme, js_value) run" where
  "promise_with_resolvers E this args =
     run_bind (static_receiver this) (\<lambda>c.
     run_bind (promise_capability_new E c) (\<lambda>capability.
     run_bind (run_gets pw_realm) (\<lambda>realm.
     run_bind (template_create E (pe_resolvers_template E realm) (he_ordinary_data E) OrdinaryMethods
         [VObject (pc_promise capability), VObject (rf_resolve (pc_functions capability)),
          VObject (rf_reject (pc_functions capability))])
       (\<lambda>obj. run_return (VObject obj)))))"

definition promise_reject ::
  "('x promise_world_scheme, 'm, 'e) promise_engine_scheme \<Rightarrow> obj_addr \<Rightarrow> js_error \<Rightarrow>
     ('x promise_world_scheme, obj_addr) run" where
  "promise_reject E c e =
     run_bind (error_into_opaque E e) (\<lambda>e.
     run_bind (promise_capability_new E c) (\<lambda>capability.
     run_bind (call_function E (rf_reject (pc_functions capability)) [e]) (\<lambda>_.
       run_return (pc_promise capability))))"

definition static_reject ::
  "('x promise_world_scheme, 'm, 'e) promise_engine_scheme \<Rightarrow> js_value \<Rightarrow> js_value list \<Rightarrow>
     ('x promise_world_scheme, js_value) run" where
  "static_reject E this args =
     run_bind (static_receiver this) (\<lambda>c.
     run_bind (promise_reject E c (Thrown (get_or_undefined args 0))) (\<lambda>p. run_return (VObject p)))"

definition promise_resolve ::
  "('x promise_world_scheme, 'm, 'e) promise_engine_scheme \<Rightarrow> obj_addr \<Rightarrow> js_value \<Rightarrow>
     ('x promise_world_scheme, obj_addr) run" where
  "promise_resolve E c x =
     (let resolve_new =
            run_bind (promise_capability_new E c) (\<lambda>capability.
            run_bind (call_function E (rf_resolve (pc_functions capability)) [x]) (\<lambda>_.
              run_return (pc_promise capability))) in
      run_bind (as_promise_object x) (\<lambda>promise.
        case promise of
          Some x \<Rightarrow>
            run_bind (object_get E x (key_literal ''constructor'')) (\<lambda>x_constructor.
              if x_constructor = VObject c then run_return x else resolve_new)
        | None \<Rightarrow> resolve_new))"

definition static_resolve ::
  "('x promise_world_scheme, 'm, 'e) promise_engine_scheme \<Rightarrow> js_value \<Rightarrow> js_value list \<Rightarrow>
     ('x promise_world_scheme, js_value) run" where
  "static_resolve E this args =
     run_bind (static_receiver this) (\<lambda>c.
     run_bind (promise_resolve E c (get_or_undefined args 0)) (\<lambda>p. run_return (VObject p)))"

definition get_species :: "js_value \<Rightarrow> ('w, js_value) run" where
  "get_species this = run_return this"

section \<open>\<open>catch\<close> and \<open>finally\<close>\<close>

definition promise_catch ::
  "('x promise_world_scheme, 'm, 'e) promise_engine_scheme \<Rightarrow> js_value \<Rightarrow> js_value list \<Rightarrow>
     ('x promise_world_scheme, js_value) run" where
  "promise_catch E this args =
     value_invoke E this (key_literal ''then'') [VUndefined, get_or_undefined args 0]"

definition then_catch_finally_closures ::
  "('x promise_world_scheme, 'm, 'e) promise_engine_scheme \<Rightarrow> obj_addr \<Rightarrow> obj_addr \<Rightarrow>
     ('x promise_world_scheme, obj_addr \<times> obj_addr) run" where
  "then_catch_finally_closures E c on_finally =
     run_bind (build_function E (ThenFinally on_finally c) 1) (\<lambda>then_finally.
     run_bind (build_function E (CatchFinally on_finally c) 1) (\<lambda>catch_finally.
       run_return (then_finally, catch_finally)))"

definition promise_finally ::
  "('x promise_world_scheme, 'm, 'e) promise_engine_scheme \<Rightarrow> js_value \<Rightarrow> js_value list \<Rightarrow>
     ('x promise_world_scheme, js_value) run" where
  "promise_finally E this args =
     (case this of
        VObject promise \<Rightarrow>
          run_bind (species_constructor E promise (pe_promise_constructor E)) (\<lambda>c.
          run_bind (as_function E (get_or_undefined args 0)) (\<lambda>on_finally.
            case on_finally of
              None \<Rightarrow>
                run_bind (object_get E promise (key_literal ''then'')) (\<lambda>thn.
                  value_call E thn this [get_or_undefined args 0, get_or_undefined args 0])
            | Some on_finally \<Rightarrow>
                run_bind (then_catch_finally_closures E c on_finally) (\<lambda>(then_finally, catch_finally).
                run_bind (object_get E promise (key_literal ''then'')) (\<lambda>thn.
                  value_call E thn this [VObject then_finally, VObject catch_finally]))))
      | _ \<Rightarrow> run_throw TypeError)"

text \<open>The closures that \<open>finally\<close> gives to \<open>then\<close>\<close>

definition then_finally_closure ::
  "('x promise_world_scheme, 'm, 'e) promise_engine_scheme \<Rightarrow> obj_addr \<Rightarrow> obj_addr \<Rightarrow> js_value list \<Rightarrow>
     ('x promise_world_scheme, js_value) run" where
  "then_finally_closure E on_finally c args =
     run_bind (call_function E on_finally []) (\<lambda>result.
     run_bind (promise_resolve E c result) (\<lambda>promise.
     run_bind (build_function E (ReturnValue (get_or_undefined args 0)) 0) (\<lambda>value_thunk.
       object_invoke E promise (key_literal ''then'') [VObject value_thunk])))"

definition catch_finally_closure ::
  "('x promise_world_scheme, 'm, 'e) promise_engine_scheme \<Rightarrow> obj_addr \<Rightarrow> obj_addr \<Rightarrow> js_value list \<Rightarrow>
     ('x promise_world_scheme, js_value) run" where
  "catch_finally_closure E on_finally c args =
     run_bind (call_function E on_finally []) (\<lambda>result.
     run_bind (promise_resolve E c result) (\<lambda>promise.
     run_bind (build_function E (ThrowReason (get_or_undefined args 0)) 0) (\<lambda>thrower.
       object_invoke E promise (key_literal ''then'') [VObject thrower])))"

section \<open>Combinators\<close>

definition get_promise_resolve ::
  "('x promise_world_scheme, 'm, 'e) promise_engine_scheme \<Rightarrow> obj_addr \<Rightarrow> ('x promise_world_scheme, obj_addr) run" where
  "get_promise_resolve E c =
     run_bind (object_get E c (key_literal ''resolve'')) (\<lambda>resolve.
     run_bind (as_function E resolve) (\<lambda>f.
       case f of None \<Rightarrow> run_throw TypeError | Some f \<Rightarrow> run_return f))"

text \<open>The macro \<open>if_abrupt_reject_promise\<close>, whose early return is the branch without \<open>k\<close>.\<close>

definition if_abrupt_reject_promise ::
  "('x promise_world_scheme, 'm, 'e) promise_engine_scheme \<Rightarrow> js_error + 'a \<Rightarrow> promise_capability \<Rightarrow>
     ('a \<Rightarrow> ('x promise_world_scheme, js_value) run) \<Rightarrow> ('x promise_world_scheme, js_value) run" where
  "if_abrupt_reject_promise E result capability k =
     (case result of
        Inl err \<Rightarrow>
          run_bind (error_into_opaque E err) (\<lambda>err.
          run_bind (call_function E (rf_reject (pc_functions capability)) [err]) (\<lambda>_.
            run_return (VObject (pc_promise capability))))
      | Inr v \<Rightarrow> k v)"

text \<open>
  \<open>all\<close>, \<open>all_settled\<close>, \<open>any\<close> and \<open>race\<close>, which differ in what they perform with the iterator; this
  runs with the iterator record and leaves it in the state to be closed in.
\<close>

definition promise_combinator ::
  "('x promise_world_scheme, 'm, 'e) promise_engine_scheme \<Rightarrow>
     (obj_addr \<Rightarrow> promise_capability \<Rightarrow> obj_addr \<Rightarrow> ('x promise_world_scheme, obj_addr) iterator_run) \<Rightarrow>
     js_value \<Rightarrow> js_value list \<Rightarrow> ('x promise_world_scheme, js_value) run" where
  "promise_combinator E perform this args =
     run_bind (static_receiver this) (\<lambda>c.
     run_bind (promise_capability_new E c) (\<lambda>capability.
     run_bind (run_try (get_promise_resolve E c)) (\<lambda>resolve.
     if_abrupt_reject_promise E resolve capability (\<lambda>resolve.
     run_bind (run_try (get_iterator_sync E (get_or_undefined args 0))) (\<lambda>iterator_record.
     if_abrupt_reject_promise E iterator_record capability (\<lambda>iterator_record w.
       case perform c capability resolve (w, iterator_record) of
         None \<Rightarrow> None
       | Some (Inr promise, (w, _)) \<Rightarrow> run_return (VObject promise) w
       | Some (Inl err, (w, iterator_record)) \<Rightarrow>
           run_bind (if \<not> ir_done iterator_record then run_try (iterator_close E iterator_record (Inl err))
               else run_return (Inl err)) (\<lambda>result.
             if_abrupt_reject_promise E result capability run_return) w))))))"

text \<open>The loop over the iterator; the iteration is given the index.\<close>

partial_function (option) combinator_loop ::
  "('x promise_world_scheme, 'm, 'e) promise_engine_scheme \<Rightarrow> (nat \<Rightarrow> js_value \<Rightarrow> ('x promise_world_scheme, unit) run) \<Rightarrow>
     nat \<Rightarrow> ('x promise_world_scheme, unit) iterator_run" where
  "combinator_loop E iteration index c =
     run_bind (step_value E) (\<lambda>next c.
       case next of
         None \<Rightarrow> run_return () c
       | Some v \<Rightarrow>
           run_bind (in_iterator (run_bind (he_consume_loop_iterations E 1) (\<lambda>_. iteration index v)))
             (\<lambda>_ c. combinator_loop E iteration (Suc index) c) c) c"

section \<open>Elements\<close>

definition array_from_list ::
  "('x promise_world_scheme, 'm, 'e) promise_engine_scheme \<Rightarrow> js_value list \<Rightarrow> ('x promise_world_scheme, obj_addr) run" where
  "array_from_list E elements w =
     (let a = ve_allocate E w;
          ob = \<lparr>ob_properties = (property_map_new (en_array_shape E) (from_dense_js_value elements))
                  \<lparr>pm_storage := [value_of_usize (length elements)]\<rparr>, ob_extensible = True,
            ob_private_elements = [], ob_data = pe_array_data E, ob_vtable = ArrayMethods\<rparr> in
      run_bind (object_write a ob) (\<lambda>_. run_return a) w)"

text \<open>\<open>remaining_elements_count\<close> is an \<open>i32\<close>.\<close>

definition add_remaining :: "nat \<Rightarrow> i32 \<Rightarrow> ('x promise_world_scheme, i32) run" where
  "add_remaining counter d =
     run_bind (read_cell pw_counters counter) (\<lambda>n.
     run_bind (write_cell pw_counters pw_counters_update counter (n + d)) (\<lambda>_. run_return (n + d)))"

definition set_value :: "nat \<Rightarrow> nat \<Rightarrow> js_value \<Rightarrow> ('x promise_world_scheme, unit) run" where
  "set_value values index v =
     run_bind (read_cell pw_values values) (\<lambda>vs.
       if index < length vs then write_cell pw_values pw_values_update values (vs[index := v])
       else run_unwrap None)"

definition push_value :: "nat \<Rightarrow> js_value \<Rightarrow> ('x promise_world_scheme, unit) run" where
  "push_value values v =
     run_bind (read_cell pw_values values) (\<lambda>vs. write_cell pw_values pw_values_update values (vs @ [v]))"

text \<open>What the closures of elements share: once, store the value, and finish when none remains.\<close>

definition element_once ::
  "nat \<Rightarrow> ('x promise_world_scheme, js_value) run \<Rightarrow> ('x promise_world_scheme, js_value) run" where
  "element_once already_called m =
     run_bind (read_cell pw_flags already_called) (\<lambda>called.
       if called then run_return VUndefined
       else run_bind (write_cell pw_flags pw_flags_update already_called True) (\<lambda>_. m))"

definition resolve_with_values ::
  "('x promise_world_scheme, 'm, 'e) promise_engine_scheme \<Rightarrow> nat \<Rightarrow> obj_addr \<Rightarrow> ('x promise_world_scheme, js_value) run" where
  "resolve_with_values E values capability_resolve =
     run_bind (read_cell pw_values values) (\<lambda>vs.
     run_bind (array_from_list E vs) (\<lambda>values_array.
       call_function E capability_resolve [VObject values_array]))"

definition all_resolve_element ::
  "('x promise_world_scheme, 'm, 'e) promise_engine_scheme \<Rightarrow> nat \<Rightarrow> nat \<Rightarrow> nat \<Rightarrow> obj_addr \<Rightarrow> nat \<Rightarrow> js_value list \<Rightarrow>
     ('x promise_world_scheme, js_value) run" where
  "all_resolve_element E already_called index values capability_resolve remaining args =
     element_once already_called
       (run_bind (set_value values index (get_or_undefined args 0)) (\<lambda>_.
        run_bind (add_remaining remaining (- 1)) (\<lambda>n.
          if n = 0 then resolve_with_values E values capability_resolve else run_return VUndefined)))"

definition create_data_property_or_throw ::
  "('x object_world_scheme, 'm, 'e) engine_scheme \<Rightarrow> obj_addr \<Rightarrow> property_key \<Rightarrow> js_value \<Rightarrow>
     ('x object_world_scheme, bool) run" where
  "create_data_property_or_throw E obj key v =
     run_bind (property_context_new (create_data_property_with_slot E obj key v)) (\<lambda>success.
       if \<not> success then run_throw TypeError else run_return success)"

text \<open>The objects that tell how an element settled.\<close>

definition settled_object ::
  "('x promise_world_scheme, 'm, 'e) promise_engine_scheme \<Rightarrow> string \<Rightarrow> string \<Rightarrow> js_value \<Rightarrow>
     ('x promise_world_scheme, js_value) run" where
  "settled_object E status field x =
     run_bind (run_gets pw_realm) (\<lambda>realm.
     run_bind (from_proto_and_data E (Some (pe_object_prototype E realm)) (he_ordinary_data E) OrdinaryMethods) (\<lambda>obj.
     run_bind (run_expect (create_data_property_or_throw E obj (key_literal ''status'') (VString (js_literal status)))) (\<lambda>_.
     run_bind (run_expect (create_data_property_or_throw E obj (key_literal field) x)) (\<lambda>_.
       run_return (VObject obj)))))"

text \<open>The closures of \<open>allSettled\<close>, by the status and the name of the property that they give.\<close>

definition settled_element ::
  "('x promise_world_scheme, 'm, 'e) promise_engine_scheme \<Rightarrow> string \<Rightarrow> string \<Rightarrow> nat \<Rightarrow> nat \<Rightarrow> nat \<Rightarrow> obj_addr \<Rightarrow> nat \<Rightarrow>
     js_value list \<Rightarrow> ('x promise_world_scheme, js_value) run" where
  "settled_element E status field already_called index values capability remaining args =
     element_once already_called
       (run_bind (settled_object E status field (get_or_undefined args 0)) (\<lambda>v.
        run_bind (set_value values index v) (\<lambda>_.
        run_bind (add_remaining remaining (- 1)) (\<lambda>n.
          if n = 0 then resolve_with_values E values capability else run_return VUndefined))))"

definition settled_resolve_element ::
  "('x promise_world_scheme, 'm, 'e) promise_engine_scheme \<Rightarrow> nat \<Rightarrow> nat \<Rightarrow> nat \<Rightarrow> obj_addr \<Rightarrow> nat \<Rightarrow> js_value list \<Rightarrow>
     ('x promise_world_scheme, js_value) run" where
  "settled_resolve_element E = settled_element E ''fulfilled'' ''value''"

definition settled_reject_element ::
  "('x promise_world_scheme, 'm, 'e) promise_engine_scheme \<Rightarrow> nat \<Rightarrow> nat \<Rightarrow> nat \<Rightarrow> obj_addr \<Rightarrow> nat \<Rightarrow> js_value list \<Rightarrow>
     ('x promise_world_scheme, js_value) run" where
  "settled_reject_element E = settled_element E ''rejected'' ''reason''"

definition any_reject_element ::
  "('x promise_world_scheme, 'm, 'e) promise_engine_scheme \<Rightarrow> nat \<Rightarrow> nat \<Rightarrow> nat \<Rightarrow> obj_addr \<Rightarrow> nat \<Rightarrow> js_value list \<Rightarrow>
     ('x promise_world_scheme, js_value) run" where
  "any_reject_element E already_called index errors capability_reject remaining args =
     element_once already_called
       (run_bind (set_value errors index (get_or_undefined args 0)) (\<lambda>_.
        run_bind (add_remaining remaining (- 1)) (\<lambda>n.
          if n = 0 then
            run_bind (read_cell pw_values errors) (\<lambda>vs.
            run_bind (pe_aggregate_error E vs) (\<lambda>err.
              call_function E capability_reject [VObject err]))
          else run_return VUndefined)))"

section \<open>Performing the combinators\<close>

text \<open>One element of \<open>all\<close>: the closure for it, and \<open>then\<close> of the promise made of it.\<close>

definition all_iteration ::
  "('x promise_world_scheme, 'm, 'e) promise_engine_scheme \<Rightarrow> obj_addr \<Rightarrow> promise_capability \<Rightarrow> obj_addr \<Rightarrow> nat \<Rightarrow> nat \<Rightarrow>
     nat \<Rightarrow> js_value \<Rightarrow> ('x promise_world_scheme, unit) run" where
  "all_iteration E c capability resolve_f values remaining index v =
     run_bind (push_value values VUndefined) (\<lambda>_.
     run_bind (en_call E resolve_f (VObject c) [v]) (\<lambda>next_promise.
     run_bind (new_cell pw_flags pw_flags_update False) (\<lambda>already_called.
     run_bind (build_function E
         (AllResolveElement already_called index values (rf_resolve (pc_functions capability)) remaining) 1) (\<lambda>on_fulfilled.
     run_bind (add_remaining remaining 1) (\<lambda>_.
     run_bind (value_invoke E next_promise (key_literal ''then'')
         [VObject on_fulfilled, VObject (rf_reject (pc_functions capability))]) (\<lambda>_. run_return ()))))))"

definition settled_iteration ::
  "('x promise_world_scheme, 'm, 'e) promise_engine_scheme \<Rightarrow> obj_addr \<Rightarrow> promise_capability \<Rightarrow> obj_addr \<Rightarrow> nat \<Rightarrow> nat \<Rightarrow>
     nat \<Rightarrow> js_value \<Rightarrow> ('x promise_world_scheme, unit) run" where
  "settled_iteration E c capability resolve_f values remaining index v =
     run_bind (push_value values VUndefined) (\<lambda>_.
     run_bind (en_call E resolve_f (VObject c) [v]) (\<lambda>next_promise.
     run_bind (new_cell pw_flags pw_flags_update False) (\<lambda>already_called.
     run_bind (build_function E
         (SettledResolveElement already_called index values (rf_resolve (pc_functions capability)) remaining) 1) (\<lambda>on_fulfilled.
     run_bind (build_function E
         (SettledRejectElement already_called index values (rf_resolve (pc_functions capability)) remaining) 1) (\<lambda>on_rejected.
     run_bind (add_remaining remaining 1) (\<lambda>_.
     run_bind (value_invoke E next_promise (key_literal ''then'') [VObject on_fulfilled, VObject on_rejected])
       (\<lambda>_. run_return ())))))))"

definition any_iteration ::
  "('x promise_world_scheme, 'm, 'e) promise_engine_scheme \<Rightarrow> obj_addr \<Rightarrow> promise_capability \<Rightarrow> obj_addr \<Rightarrow> nat \<Rightarrow> nat \<Rightarrow>
     nat \<Rightarrow> js_value \<Rightarrow> ('x promise_world_scheme, unit) run" where
  "any_iteration E c capability resolve_f errors remaining index v =
     run_bind (push_value errors VUndefined) (\<lambda>_.
     run_bind (en_call E resolve_f (VObject c) [v]) (\<lambda>next_promise.
     run_bind (new_cell pw_flags pw_flags_update False) (\<lambda>already_called.
     run_bind (build_function E
         (AnyRejectElement already_called index errors (rf_reject (pc_functions capability)) remaining) 1) (\<lambda>on_rejected.
     run_bind (add_remaining remaining 1) (\<lambda>_.
     run_bind (value_invoke E next_promise (key_literal ''then'')
         [VObject (rf_resolve (pc_functions capability)), VObject on_rejected]) (\<lambda>_. run_return ()))))))"

definition race_iteration ::
  "('x promise_world_scheme, 'm, 'e) promise_engine_scheme \<Rightarrow> obj_addr \<Rightarrow> promise_capability \<Rightarrow> obj_addr \<Rightarrow>
     nat \<Rightarrow> js_value \<Rightarrow> ('x promise_world_scheme, unit) run" where
  "race_iteration E c capability resolve_f index v =
     run_bind (en_call E resolve_f (VObject c) [v]) (\<lambda>next_promise.
     run_bind (value_invoke E next_promise (key_literal ''then'')
         [VObject (rf_resolve (pc_functions capability)), VObject (rf_reject (pc_functions capability))])
       (\<lambda>_. run_return ()))"

text \<open>The last steps of \<open>perform_promise_all\<close> and \<open>perform_promise_all_settled\<close>.\<close>

definition finish_all ::
  "('x promise_world_scheme, 'm, 'e) promise_engine_scheme \<Rightarrow> promise_capability \<Rightarrow> nat \<Rightarrow> nat \<Rightarrow>
     ('x promise_world_scheme, obj_addr) run" where
  "finish_all E capability values remaining =
     run_bind (add_remaining remaining (- 1)) (\<lambda>n.
     run_bind (if n = 0 then resolve_with_values E values (rf_resolve (pc_functions capability))
         else run_return VUndefined) (\<lambda>_. run_return (pc_promise capability)))"

definition perform_promise_all ::
  "('x promise_world_scheme, 'm, 'e) promise_engine_scheme \<Rightarrow> obj_addr \<Rightarrow> promise_capability \<Rightarrow> obj_addr \<Rightarrow>
     ('x promise_world_scheme, obj_addr) iterator_run" where
  "perform_promise_all E c capability resolve_f =
     run_bind (in_iterator (new_cell pw_values pw_values_update [])) (\<lambda>values.
     run_bind (in_iterator (new_cell pw_counters pw_counters_update 1)) (\<lambda>remaining.
     run_bind (combinator_loop E (all_iteration E c capability resolve_f values remaining) 0) (\<lambda>_.
       in_iterator (finish_all E capability values remaining))))"

definition perform_promise_all_settled ::
  "('x promise_world_scheme, 'm, 'e) promise_engine_scheme \<Rightarrow> obj_addr \<Rightarrow> promise_capability \<Rightarrow> obj_addr \<Rightarrow>
     ('x promise_world_scheme, obj_addr) iterator_run" where
  "perform_promise_all_settled E c capability resolve_f =
     run_bind (in_iterator (new_cell pw_values pw_values_update [])) (\<lambda>values.
     run_bind (in_iterator (new_cell pw_counters pw_counters_update 1)) (\<lambda>remaining.
     run_bind (combinator_loop E (settled_iteration E c capability resolve_f values remaining) 0) (\<lambda>_.
       in_iterator (finish_all E capability values remaining))))"

definition perform_promise_any ::
  "('x promise_world_scheme, 'm, 'e) promise_engine_scheme \<Rightarrow> obj_addr \<Rightarrow> promise_capability \<Rightarrow> obj_addr \<Rightarrow>
     ('x promise_world_scheme, obj_addr) iterator_run" where
  "perform_promise_any E c capability resolve_f =
     run_bind (in_iterator (new_cell pw_values pw_values_update [])) (\<lambda>errors.
     run_bind (in_iterator (new_cell pw_counters pw_counters_update 1)) (\<lambda>remaining.
     run_bind (combinator_loop E (any_iteration E c capability resolve_f errors remaining) 0) (\<lambda>_.
     run_bind (in_iterator (add_remaining remaining (- 1))) (\<lambda>n.
       if n = 0 then
         run_bind (in_iterator (read_cell pw_values errors)) (\<lambda>vs.
         run_bind (in_iterator (pe_aggregate_error E vs)) (\<lambda>err. run_throw (Thrown (VObject err))))
       else run_return (pc_promise capability)))))"

definition perform_promise_race ::
  "('x promise_world_scheme, 'm, 'e) promise_engine_scheme \<Rightarrow> obj_addr \<Rightarrow> promise_capability \<Rightarrow> obj_addr \<Rightarrow>
     ('x promise_world_scheme, obj_addr) iterator_run" where
  "perform_promise_race E c capability resolve_f =
     run_bind (combinator_loop E (race_iteration E c capability resolve_f) 0) (\<lambda>_.
       run_return (pc_promise capability))"

definition promise_all ::
  "('x promise_world_scheme, 'm, 'e) promise_engine_scheme \<Rightarrow> js_value \<Rightarrow> js_value list \<Rightarrow>
     ('x promise_world_scheme, js_value) run" where
  "promise_all E = promise_combinator E (perform_promise_all E)"

definition promise_all_settled ::
  "('x promise_world_scheme, 'm, 'e) promise_engine_scheme \<Rightarrow> js_value \<Rightarrow> js_value list \<Rightarrow>
     ('x promise_world_scheme, js_value) run" where
  "promise_all_settled E = promise_combinator E (perform_promise_all_settled E)"

definition promise_any ::
  "('x promise_world_scheme, 'm, 'e) promise_engine_scheme \<Rightarrow> js_value \<Rightarrow> js_value list \<Rightarrow>
     ('x promise_world_scheme, js_value) run" where
  "promise_any E = promise_combinator E (perform_promise_any E)"

definition promise_race ::
  "('x promise_world_scheme, 'm, 'e) promise_engine_scheme \<Rightarrow> js_value \<Rightarrow> js_value list \<Rightarrow>
     ('x promise_world_scheme, js_value) run" where
  "promise_race E = promise_combinator E (perform_promise_race E)"

section \<open>Keyed combinators\<close>

text \<open>\<open>Result::expect\<close>: an error is a panic.\<close>

definition run_must :: "('w, 'a) run \<Rightarrow> ('w, 'a) run" where
  "run_must m = run_bind (run_try m) (\<lambda>r. case r of Inl _ \<Rightarrow> run_unwrap None | Inr a \<Rightarrow> run_return a)"

fun create_properties ::
  "('x object_world_scheme, 'm, 'e) engine_scheme \<Rightarrow> obj_addr \<Rightarrow> (property_key \<times> js_value) list \<Rightarrow>
     ('x object_world_scheme, unit) run" where
  "create_properties E obj [] = run_return ()"
| "create_properties E obj ((key, v) # entries) =
     run_bind (run_must (create_data_property_or_throw E obj key v)) (\<lambda>_. create_properties E obj entries)"

definition create_keyed_result_object ::
  "('x promise_world_scheme, 'm, 'e) promise_engine_scheme \<Rightarrow> property_key list \<Rightarrow> js_value list \<Rightarrow>
     ('x promise_world_scheme, obj_addr) run" where
  "create_keyed_result_object E keys values =
     run_bind (from_proto_and_data E None (he_ordinary_data E) OrdinaryMethods) (\<lambda>obj.
     run_bind (create_properties E obj (zip keys values)) (\<lambda>_. run_return obj))"

definition push_key :: "nat \<Rightarrow> property_key \<Rightarrow> ('x promise_world_scheme, unit) run" where
  "push_key keys key =
     run_bind (read_cell pw_keys keys) (\<lambda>ks. write_cell pw_keys pw_keys_update keys (ks @ [key]))"

definition resolve_with_keyed ::
  "('x promise_world_scheme, 'm, 'e) promise_engine_scheme \<Rightarrow> nat \<Rightarrow> nat \<Rightarrow> obj_addr \<Rightarrow> ('x promise_world_scheme, js_value) run" where
  "resolve_with_keyed E keys values capability_resolve =
     run_bind (read_cell pw_keys keys) (\<lambda>ks.
     run_bind (read_cell pw_values values) (\<lambda>vs.
     run_bind (create_keyed_result_object E ks vs) (\<lambda>result.
       call_function E capability_resolve [VObject result])))"

definition keyed_element ::
  "('x promise_world_scheme, 'm, 'e) promise_engine_scheme \<Rightarrow> nat \<Rightarrow> nat \<Rightarrow> nat \<Rightarrow> nat \<Rightarrow> obj_addr \<Rightarrow> nat \<Rightarrow>
     ('x promise_world_scheme, js_value) run \<Rightarrow> ('x promise_world_scheme, js_value) run" where
  "keyed_element E already_called index keys values capability remaining outcome =
     element_once already_called
       (run_bind outcome (\<lambda>v.
        run_bind (set_value values index v) (\<lambda>_.
        run_bind (add_remaining remaining (- 1)) (\<lambda>n.
          if n = 0 then resolve_with_keyed E keys values capability else run_return VUndefined))))"

definition keyed_resolve_element ::
  "('x promise_world_scheme, 'm, 'e) promise_engine_scheme \<Rightarrow> nat \<Rightarrow> nat \<Rightarrow> keyed_variant \<Rightarrow> nat \<Rightarrow> nat \<Rightarrow> obj_addr \<Rightarrow> nat \<Rightarrow>
     js_value list \<Rightarrow> ('x promise_world_scheme, js_value) run" where
  "keyed_resolve_element E already_called index variant keys values capability remaining args =
     keyed_element E already_called index keys values capability remaining
       (if variant = KeyedAll then run_return (get_or_undefined args 0)
        else settled_object E ''fulfilled'' ''value'' (get_or_undefined args 0))"

definition keyed_reject_element ::
  "('x promise_world_scheme, 'm, 'e) promise_engine_scheme \<Rightarrow> nat \<Rightarrow> nat \<Rightarrow> keyed_variant \<Rightarrow> nat \<Rightarrow> nat \<Rightarrow> obj_addr \<Rightarrow> nat \<Rightarrow>
     js_value list \<Rightarrow> ('x promise_world_scheme, js_value) run" where
  "keyed_reject_element E already_called index variant keys values capability remaining args =
     keyed_element E already_called index keys values capability remaining
       (settled_object E ''rejected'' ''reason'' (get_or_undefined args 0))"

text \<open>One enumerable property: its value made a promise, and the closures for it.\<close>

definition keyed_iteration ::
  "('x promise_world_scheme, 'm, 'e) promise_engine_scheme \<Rightarrow> keyed_variant \<Rightarrow> obj_addr \<Rightarrow> obj_addr \<Rightarrow> promise_capability \<Rightarrow>
     obj_addr \<Rightarrow> nat \<Rightarrow> nat \<Rightarrow> nat \<Rightarrow> nat \<Rightarrow> property_key \<Rightarrow> ('x promise_world_scheme, unit) run" where
  "keyed_iteration E variant promises c capability resolve_f keys values remaining index key =
     run_bind (object_get E promises key) (\<lambda>v.
     run_bind (push_key keys key) (\<lambda>_.
     run_bind (push_value values VUndefined) (\<lambda>_.
     run_bind (en_call E resolve_f (VObject c) [v]) (\<lambda>next_promise.
     run_bind (new_cell pw_flags pw_flags_update False) (\<lambda>already_called.
     run_bind (build_function E
         (KeyedResolveElement already_called index variant keys values (rf_resolve (pc_functions capability)) remaining) 1)
       (\<lambda>on_fulfilled.
     run_bind
       (if variant = KeyedAll then run_return (rf_reject (pc_functions capability))
        else build_function E
          (KeyedRejectElement already_called index variant keys values (rf_resolve (pc_functions capability)) remaining) 1)
       (\<lambda>on_rejected.
     run_bind (add_remaining remaining 1) (\<lambda>_.
     run_bind (value_invoke E next_promise (key_literal ''then'') [VObject on_fulfilled, VObject on_rejected])
       (\<lambda>_. run_return ())))))))))"

fun keyed_loop ::
  "('x promise_world_scheme, 'm, 'e) promise_engine_scheme \<Rightarrow> obj_addr \<Rightarrow>
     (nat \<Rightarrow> property_key \<Rightarrow> ('x promise_world_scheme, unit) run) \<Rightarrow> nat \<Rightarrow> property_key list \<Rightarrow>
     ('x promise_world_scheme, unit) run" where
  "keyed_loop E promises iteration index [] = run_return ()"
| "keyed_loop E promises iteration index (key # all_keys) =
     run_bind (property_context_new (get_own_property E promises key)) (\<lambda>desc.
       case desc of
         None \<Rightarrow> keyed_loop E promises iteration index all_keys
       | Some desc \<Rightarrow>
           run_bind (run_unwrap (pd_enumerable desc)) (\<lambda>enumerable.
             if enumerable then
               run_bind (iteration index key) (\<lambda>_. keyed_loop E promises iteration (Suc index) all_keys)
             else keyed_loop E promises iteration index all_keys))"

definition perform_promise_all_keyed ::
  "('x promise_world_scheme, 'm, 'e) promise_engine_scheme \<Rightarrow> keyed_variant \<Rightarrow> obj_addr \<Rightarrow> obj_addr \<Rightarrow> promise_capability \<Rightarrow>
     obj_addr \<Rightarrow> ('x promise_world_scheme, js_value) run" where
  "perform_promise_all_keyed E variant promises c capability resolve_f =
     run_bind (own_property_keys E promises) (\<lambda>all_keys.
     run_bind (new_cell pw_keys pw_keys_update []) (\<lambda>keys.
     run_bind (new_cell pw_values pw_values_update []) (\<lambda>values.
     run_bind (new_cell pw_counters pw_counters_update 1) (\<lambda>remaining.
     run_bind (keyed_loop E promises (keyed_iteration E variant promises c capability resolve_f keys values remaining)
         0 all_keys) (\<lambda>_.
     run_bind (add_remaining remaining (- 1)) (\<lambda>n.
     run_bind (if n = 0 then resolve_with_keyed E keys values (rf_resolve (pc_functions capability))
         else run_return VUndefined) (\<lambda>_. run_return (VObject (pc_promise capability)))))))))"

definition keyed_common ::
  "('x promise_world_scheme, 'm, 'e) promise_engine_scheme \<Rightarrow> js_value \<Rightarrow> js_value list \<Rightarrow> keyed_variant \<Rightarrow>
     ('x promise_world_scheme, js_value) run" where
  "keyed_common E this args variant =
     run_bind (static_receiver this) (\<lambda>c.
     run_bind (promise_capability_new E c) (\<lambda>capability.
     run_bind (run_try (get_promise_resolve E c)) (\<lambda>resolve.
     if_abrupt_reject_promise E resolve capability (\<lambda>resolve.
       case get_or_undefined args 0 of
         VObject promises \<Rightarrow>
           run_bind (run_try (perform_promise_all_keyed E variant promises c capability resolve)) (\<lambda>result.
             if_abrupt_reject_promise E result capability (\<lambda>_. run_return (VObject (pc_promise capability))))
       | _ \<Rightarrow>
           run_bind (pe_error_object E TypeError) (\<lambda>err.
           run_bind (call_function E (rf_reject (pc_functions capability)) [VObject err]) (\<lambda>_.
             run_return (VObject (pc_promise capability))))))))"

definition promise_all_keyed ::
  "('x promise_world_scheme, 'm, 'e) promise_engine_scheme \<Rightarrow> js_value \<Rightarrow> js_value list \<Rightarrow>
     ('x promise_world_scheme, js_value) run" where
  "promise_all_keyed E this args = keyed_common E this args KeyedAll"

definition promise_all_settled_keyed ::
  "('x promise_world_scheme, 'm, 'e) promise_engine_scheme \<Rightarrow> js_value \<Rightarrow> js_value list \<Rightarrow>
     ('x promise_world_scheme, js_value) run" where
  "promise_all_settled_keyed E this args = keyed_common E this args KeyedAllSettled"

section \<open>Native functions\<close>

text \<open>The closure of a native function, run with a receiver (or the new target) and arguments.\<close>

fun native_body ::
  "('x promise_world_scheme, 'm, 'e) promise_engine_scheme \<Rightarrow> native_closure \<Rightarrow> js_value \<Rightarrow> js_value list \<Rightarrow>
     ('x promise_world_scheme, js_value) run" where
  "native_body E PromiseConstructor this args = promise_constructor E this args"
| "native_body E PromiseSpecies this args = get_species this"
| "native_body E PromiseThen this args = promise_then E this args"
| "native_body E PromiseCatch this args = promise_catch E this args"
| "native_body E PromiseFinally this args = promise_finally E this args"
| "native_body E PromiseResolve this args = static_resolve E this args"
| "native_body E PromiseReject this args = static_reject E this args"
| "native_body E PromiseTry this args = promise_try E this args"
| "native_body E PromiseWithResolvers this args = promise_with_resolvers E this args"
| "native_body E PromiseAll this args = promise_all E this args"
| "native_body E PromiseAllSettled this args = promise_all_settled E this args"
| "native_body E PromiseAny this args = promise_any E this args"
| "native_body E PromiseRace this args = promise_race E this args"
| "native_body E PromiseAllKeyed this args = promise_all_keyed E this args"
| "native_body E PromiseAllSettledKeyed this args = promise_all_settled_keyed E this args"
| "native_body E (CapabilityExecutor cell) this args = capability_executor cell args"
| "native_body E (ResolveFunction cell) this args = resolve_function E cell args"
| "native_body E (RejectFunction cell) this args = reject_function E cell args"
| "native_body E (ThenFinally f c) this args = then_finally_closure E f c args"
| "native_body E (CatchFinally f c) this args = catch_finally_closure E f c args"
| "native_body E (ReturnValue v) this args = run_return v"
| "native_body E (ThrowReason v) this args = run_throw (Thrown v)"
| "native_body E (AllResolveElement already index values f n) this args = all_resolve_element E already index values f n args"
| "native_body E (SettledResolveElement already index values f n) this args =
     settled_resolve_element E already index values f n args"
| "native_body E (SettledRejectElement already index values f n) this args =
     settled_reject_element E already index values f n args"
| "native_body E (AnyRejectElement already index values f n) this args = any_reject_element E already index values f n args"
| "native_body E (KeyedResolveElement already index variant keys values f n) this args =
     keyed_resolve_element E already index variant keys values f n args"
| "native_body E (KeyedRejectElement already index variant keys values f n) this args =
     keyed_reject_element E already index variant keys values f n args"

text \<open>\<open>native_function_call\<close> and \<open>native_function_construct\<close> (\<open>native_function/mod.rs\<close>)\<close>

definition native_realm :: "native_function \<Rightarrow> 'x promise_world_scheme \<Rightarrow> nat" where
  "native_realm f w = (case nf_realm f of Some realm \<Rightarrow> realm | None \<Rightarrow> pw_realm w)"

definition native_function_call ::
  "('x promise_world_scheme, 'm, 'e) promise_engine_scheme \<Rightarrow> native_function \<Rightarrow> js_value \<Rightarrow> js_value list \<Rightarrow>
     ('x promise_world_scheme, js_value) run" where
  "native_function_call E f this args =
     run_bind (he_check_runtime_limits E) (\<lambda>_.
     run_bind (run_gets (native_realm f)) (\<lambda>realm.
       run_in_realm realm (native_body E (nf_closure f) (if nf_constructor f then VUndefined else this) args)))"

definition native_function_construct ::
  "('x promise_world_scheme, 'm, 'e) promise_engine_scheme \<Rightarrow> native_function \<Rightarrow> js_value list \<Rightarrow> obj_addr \<Rightarrow>
     ('x promise_world_scheme, obj_addr) run" where
  "native_function_construct E f args new_target =
     run_bind (he_check_runtime_limits E) (\<lambda>_.
     run_bind (run_gets (native_realm f)) (\<lambda>realm.
       run_in_realm realm
         (run_bind (native_body E (nf_closure f) (VObject new_target) args) (\<lambda>v.
            case v of
              VObject o' \<Rightarrow> run_return o'
            | _ \<Rightarrow>
                if \<not> nf_constructor f then run_unwrap None
                else
                  run_bind (prototype_from_constructor E (VObject new_target) (pe_object_prototype E)) (\<lambda>prototype.
                    from_proto_and_data_with_shared_shape E prototype (he_ordinary_data E))))))"

text \<open>
  An engine whose native functions of promises run their closures with the engine \<open>D\<close>, and whose other
  functions are those of \<open>U\<close>; with \<open>engine_at\<close> calls may nest to a depth.
\<close>

definition with_natives ::
  "('x promise_world_scheme, 'm, 'e) promise_engine_scheme \<Rightarrow> ('x promise_world_scheme, 'm, 'e) promise_engine_scheme \<Rightarrow>
     ('x promise_world_scheme, 'm, 'e) promise_engine_scheme" where
  "with_natives U D =
     U\<lparr>en_call := \<lambda>f this args w.
           (case pw_functions w f of
              None \<Rightarrow> en_call U f this args w
            | Some nf \<Rightarrow> native_function_call D nf this args w),
       pe_construct := \<lambda>f args new_target w.
           (case pw_functions w f of
              None \<Rightarrow> pe_construct U f args new_target w
            | Some nf \<Rightarrow>
                if nf_constructor nf then native_function_construct D nf args new_target w
                else run_throw TypeError w)\<rparr>"

fun engine_at ::
  "('x promise_world_scheme, 'm, 'e) promise_engine_scheme \<Rightarrow>
     (('x promise_world_scheme, 'm, 'e) promise_engine_scheme \<Rightarrow> ('x promise_world_scheme, 'm, 'e) promise_engine_scheme) \<Rightarrow>
     nat \<Rightarrow> ('x promise_world_scheme, 'm, 'e) promise_engine_scheme" where
  "engine_at B U 0 = B"
| "engine_at B U (Suc depth) = with_natives (U (engine_at B U depth)) (engine_at B U depth)"

end
