(* ===== verification/JobQueue.thy ===== *)
theory JobQueue
  imports PromiseMethods
begin

text \<open>
  The default executor of jobs (\<open>job.rs\<close>, \<open>SimpleJobExecutor\<close>): the queues of promise jobs, generic jobs
  and clock jobs, the scheduler passes over them and the ways to run them. There are no asynchronous jobs
  here, whose futures belong to another library, nor the cleanup of finalization registries; without them
  the groups of futures stay empty and their polls give nothing. Measurements are left out. The closures
  of the host are names, whose code the engine gives.
\<close>

section \<open>Time\<close>

text \<open>\<open>JsInstant\<close> and \<open>JsDuration\<close> in nanoseconds; a sum above the largest \<open>Duration\<close> panics.\<close>

definition duration_end :: nat where
  "duration_end = 2 ^ 64 * 1000000000"

definition duration_from_millis :: "64 word \<Rightarrow> nat" where
  "duration_from_millis millis = unat millis * 1000000"

definition instant_add :: "nat \<Rightarrow> nat \<Rightarrow> nat option" where
  "instant_add instant duration = (if instant + duration < duration_end then Some (instant + duration) else None)"

section \<open>Jobs\<close>

record 'j native_job =
  nj_f :: 'j
  nj_realm :: "nat option"

datatype 'j callback = NoCallback | HostCallback 'j

record 'j timeout_job =
  tj_timeout :: nat
  tj_job :: "'j native_job option"
  tj_token :: nat

record 'j interval_job =
  ij_interval :: nat
  ij_job :: "'j native_job"
  ij_token :: nat

datatype 'j clock_job = Timeout "'j timeout_job" | Interval "'j interval_job"

datatype 'j job =
    PromiseJob promise_job
  | TimeoutJob "'j timeout_job"
  | IntervalJob "'j interval_job"
  | GenericJob "'j native_job"

text \<open>
  The promise jobs are in \<open>pw_jobs\<close>. The map of clock jobs is a list with ascending instants. A token is a
  cell with callbacks, none when it is revoked.
\<close>

record 'j job_world = promise_world +
  jw_generic_jobs :: "'j native_job list"
  jw_clock_jobs :: "(nat \<times> 'j clock_job list) list"
  jw_tokens :: "'j callback list list"
  jw_stop :: bool

type_synonym ('j, 'x) jworld = "('j, 'x) job_world_scheme"

record ('w, 'm, 'j) job_engine = "('w, 'm) promise_engine" +
  je_native :: "'j \<Rightarrow> ('w, js_value) run"
  je_callback :: "'j \<Rightarrow> 'w \<Rightarrow> 'w option"
  je_now :: "'w \<Rightarrow> nat \<times> 'w"

definition clock_now :: "(('j, 'x) jworld, 'm, 'j, 'e) job_engine_scheme \<Rightarrow> (('j, 'x) jworld, nat) run" where
  "clock_now E w = (case je_now E w of (now, w) \<Rightarrow> Some (Inr now, w))"

definition native_job_call ::
  "(('j, 'x) jworld, 'm, 'j, 'e) job_engine_scheme \<Rightarrow> 'j native_job \<Rightarrow> (('j, 'x) jworld, js_value) run" where
  "native_job_call E job =
     (case nj_realm job of
        Some realm \<Rightarrow> run_in_realm realm (je_native E (nj_f job))
      | None \<Rightarrow> je_native E (nj_f job))"

section \<open>Cancellation tokens\<close>

definition cancellation_token_new :: "(('j, 'x) jworld, nat) run" where
  "cancellation_token_new w =
     Some (Inr (length (jw_tokens w)), w\<lparr>jw_tokens := jw_tokens w @ [[NoCallback]]\<rparr>)"

definition token_take :: "nat \<Rightarrow> (('j, 'x) jworld, 'j callback list) run" where
  "token_take token w =
     (if token < length (jw_tokens w) then Some (Inr (jw_tokens w ! token), w\<lparr>jw_tokens := (jw_tokens w)[token := []]\<rparr>)
      else None)"

fun run_callbacks ::
  "(('j, 'x) jworld, 'm, 'j, 'e) job_engine_scheme \<Rightarrow> 'j callback list \<Rightarrow> (('j, 'x) jworld, unit) run" where
  "run_callbacks E [] = run_return ()"
| "run_callbacks E (NoCallback # cs) = run_callbacks E cs"
| "run_callbacks E (HostCallback f # cs) =
     run_bind (\<lambda>w. map_option (\<lambda>w. (Inr (), w)) (je_callback E f w)) (\<lambda>_. run_callbacks E cs)"

definition token_cancel ::
  "(('j, 'x) jworld, 'm, 'j, 'e) job_engine_scheme \<Rightarrow> nat \<Rightarrow> (('j, 'x) jworld, unit) run" where
  "token_cancel E token = run_bind (token_take token) (run_callbacks E)"

definition token_push_callback :: "nat \<Rightarrow> 'j \<Rightarrow> (('j, 'x) jworld, unit) run" where
  "token_push_callback token f =
     run_bind (token_take token) (\<lambda>cs.
     run_modify (\<lambda>w. w\<lparr>jw_tokens := (jw_tokens w)[token := cs @ [HostCallback f]]\<rparr>))"

definition token_revoke :: "nat \<Rightarrow> (('j, 'x) jworld, unit) run" where
  "token_revoke token = run_bind (token_take token) (\<lambda>_. run_return ())"

definition token_revoked :: "('j, 'x) jworld \<Rightarrow> nat \<Rightarrow> bool" where
  "token_revoked w token = (jw_tokens w ! token = [])"

fun clock_job_token :: "'j clock_job \<Rightarrow> nat" where
  "clock_job_token (Timeout t) = tj_token t"
| "clock_job_token (Interval i) = ij_token i"

definition clock_job_cancelled :: "('j, 'x) jworld \<Rightarrow> 'j clock_job \<Rightarrow> bool" where
  "clock_job_cancelled w job = token_revoked w (clock_job_token job)"

text \<open>\<open>Drop\<close> of clock jobs revokes their tokens.\<close>

fun drop_clock_jobs :: "'j clock_job list \<Rightarrow> (('j, 'x) jworld, unit) run" where
  "drop_clock_jobs [] = run_return ()"
| "drop_clock_jobs (job # jobs) = run_bind (token_revoke (clock_job_token job)) (\<lambda>_. drop_clock_jobs jobs)"

definition timeout_job_new :: "'j native_job \<Rightarrow> 64 word \<Rightarrow> (('j, 'x) jworld, 'j timeout_job) run" where
  "timeout_job_new job timeout_in_millis =
     run_bind cancellation_token_new (\<lambda>token.
       run_return \<lparr>tj_timeout = duration_from_millis timeout_in_millis, tj_job = Some job, tj_token = token\<rparr>)"

definition interval_job_new :: "'j native_job \<Rightarrow> 64 word \<Rightarrow> (('j, 'x) jworld, 'j interval_job) run" where
  "interval_job_new job interval_in_millis =
     run_bind cancellation_token_new (\<lambda>token.
       run_return \<lparr>ij_interval = duration_from_millis interval_in_millis, ij_job = job, ij_token = token\<rparr>)"

definition timeout_job_call ::
  "(('j, 'x) jworld, 'm, 'j, 'e) job_engine_scheme \<Rightarrow> 'j timeout_job \<Rightarrow> (('j, 'x) jworld, js_value) run" where
  "timeout_job_call E t =
     run_bind (run_try (case tj_job t of None \<Rightarrow> run_return VUndefined | Some job \<Rightarrow> native_job_call E job)) (\<lambda>result.
     run_bind (token_revoke (tj_token t)) (\<lambda>_. run_lift result))"

definition interval_job_call ::
  "(('j, 'x) jworld, 'm, 'j, 'e) job_engine_scheme \<Rightarrow> 'j interval_job \<Rightarrow> (('j, 'x) jworld, js_value) run" where
  "interval_job_call E i = native_job_call E (ij_job i)"

section \<open>The queues\<close>

text \<open>\<open>entry(at).or_default().push(job)\<close> of the map of clock jobs\<close>

fun clock_push :: "nat \<Rightarrow> 'c \<Rightarrow> (nat \<times> 'c list) list \<Rightarrow> (nat \<times> 'c list) list" where
  "clock_push at job [] = [(at, [job])]"
| "clock_push at job ((t, jobs) # m) =
     (if at < t then (at, [job]) # (t, jobs) # m
      else if at = t then (t, jobs @ [job]) # m
      else (t, jobs) # clock_push at job m)"

definition push_clock_job :: "nat \<Rightarrow> nat \<Rightarrow> 'j clock_job \<Rightarrow> (('j, 'x) jworld, unit) run" where
  "push_clock_job now delay job =
     run_bind (run_unwrap (instant_add now delay)) (\<lambda>at.
       run_modify (\<lambda>w. w\<lparr>jw_clock_jobs := clock_push at job (jw_clock_jobs w)\<rparr>))"

fun enqueue_job ::
  "(('j, 'x) jworld, 'm, 'j, 'e) job_engine_scheme \<Rightarrow> 'j job \<Rightarrow> (('j, 'x) jworld, unit) run" where
  "enqueue_job E (PromiseJob p) = enqueue_promise_job p"
| "enqueue_job E (TimeoutJob t) = run_bind (clock_now E) (\<lambda>now. push_clock_job now (tj_timeout t) (Timeout t))"
| "enqueue_job E (IntervalJob i) = run_bind (clock_now E) (\<lambda>now. push_clock_job now (ij_interval i) (Interval i))"
| "enqueue_job E (GenericJob g) = run_modify (\<lambda>w. w\<lparr>jw_generic_jobs := jw_generic_jobs w @ [g]\<rparr>)"

definition clear_jobs :: "(('j, 'x) jworld, unit) run" where
  "clear_jobs =
     run_bind (run_gets (\<lambda>w. concat (map snd (jw_clock_jobs w)))) (\<lambda>clock_jobs.
     run_bind (run_modify (\<lambda>w. w\<lparr>pw_jobs := [], jw_clock_jobs := [], jw_generic_jobs := []\<rparr>)) (\<lambda>_.
       drop_clock_jobs clock_jobs))"

definition immediate_jobs_empty :: "('j, 'x) jworld \<Rightarrow> bool" where
  "immediate_jobs_empty w \<longleftrightarrow> pw_jobs w = [] \<and> jw_generic_jobs w = []"

definition queued_jobs_empty :: "('j, 'x) jworld \<Rightarrow> bool" where
  "queued_jobs_empty w \<longleftrightarrow> immediate_jobs_empty w \<and> jw_clock_jobs w = []"

section \<open>A scheduler pass\<close>

text \<open>The jobs that are past due; the others stay, but for the cancelled ones.\<close>

definition take_due_jobs :: "nat \<Rightarrow> (('j, 'x) jworld, 'j clock_job list) run" where
  "take_due_jobs now w =
     (let due = filter (\<lambda>(t, jobs). t < now) (jw_clock_jobs w);
          to_keep = map (\<lambda>(t, jobs). (t, filter (\<lambda>job. \<not> clock_job_cancelled w job) jobs))
            (filter (\<lambda>(t, jobs). \<not> t < now) (jw_clock_jobs w));
          to_keep = filter (\<lambda>(t, jobs). jobs \<noteq> []) to_keep in
      Some (Inr (concat (map snd due)), w\<lparr>jw_clock_jobs := to_keep\<rparr>))"

text \<open>After an error every queue is cleared, and the clock jobs not run yet are dropped.\<close>

definition bail :: "'j clock_job list \<Rightarrow> js_error \<Rightarrow> (('j, 'x) jworld, 'a) run" where
  "bail jobs err =
     run_bind clear_jobs (\<lambda>_. run_bind (drop_clock_jobs jobs) (\<lambda>_. run_throw err))"

fun run_due_jobs ::
  "(('j, 'x) jworld, 'm, 'j, 'e) job_engine_scheme \<Rightarrow> 'j clock_job list \<Rightarrow> (('j, 'x) jworld, unit) run" where
  "run_due_jobs E [] = run_return ()"
| "run_due_jobs E (job # jobs) =
     run_bind (run_gets (\<lambda>w. clock_job_cancelled w job)) (\<lambda>cancelled.
       if cancelled then run_due_jobs E jobs
       else (case job of
           Timeout t \<Rightarrow>
             run_bind (run_try (timeout_job_call E t)) (\<lambda>result.
               case result of
                 Inl err \<Rightarrow> bail jobs err
               | Inr _ \<Rightarrow> run_due_jobs E jobs)
         | Interval i \<Rightarrow>
             run_bind (clock_now E) (\<lambda>now.
             run_bind (run_try (interval_job_call E i)) (\<lambda>result.
               case result of
                 Inl err \<Rightarrow> bail (job # jobs) err
               | Inr _ \<Rightarrow>
                   run_bind (push_clock_job now (ij_interval i) (Interval i)) (\<lambda>_. run_due_jobs E jobs)))))"

definition dispatch_clock_jobs ::
  "(('j, 'x) jworld, 'm, 'j, 'e) job_engine_scheme \<Rightarrow> (('j, 'x) jworld, unit) run" where
  "dispatch_clock_jobs E =
     run_bind (clock_now E) (\<lambda>now.
     run_bind (take_due_jobs now) (\<lambda>jobs_to_run. run_due_jobs E jobs_to_run))"

text \<open>The jobs taken out of a queue, one after the other.\<close>

fun run_batch :: "('k \<Rightarrow> (('j, 'x) jworld, js_value) run) \<Rightarrow> 'k list \<Rightarrow> (('j, 'x) jworld, unit) run" where
  "run_batch call [] = run_return ()"
| "run_batch call (job # jobs) =
     run_bind (run_try (call job)) (\<lambda>result.
       case result of
         Inl err \<Rightarrow> bail [] err
       | Inr _ \<Rightarrow> run_batch call jobs)"

definition take_promise_jobs :: "(('j, 'x) jworld, promise_job list) run" where
  "take_promise_jobs w = Some (Inr (pw_jobs w), w\<lparr>pw_jobs := []\<rparr>)"

definition take_generic_jobs :: "(('j, 'x) jworld, 'j native_job list) run" where
  "take_generic_jobs w = Some (Inr (jw_generic_jobs w), w\<lparr>jw_generic_jobs := []\<rparr>)"

text \<open>One round of the loop; the answer is whether the loop ends.\<close>

definition scheduler_pass ::
  "(('j, 'x) jworld, 'm, 'j, 'e) job_engine_scheme \<Rightarrow> (('j, 'x) jworld, bool) run" where
  "scheduler_pass E =
     run_bind (run_gets jw_stop) (\<lambda>stop.
       if stop then
         run_bind (run_modify (\<lambda>w. w\<lparr>jw_stop := False\<rparr>)) (\<lambda>_.
         run_bind clear_jobs (\<lambda>_. run_return True))
       else
         run_bind (dispatch_clock_jobs E) (\<lambda>_.
         run_bind (run_gets queued_jobs_empty) (\<lambda>empty.
           if empty then run_return True
           else
             run_bind take_promise_jobs (\<lambda>jobs.
             run_bind (run_batch (run_promise_job E) jobs) (\<lambda>_.
             run_bind take_generic_jobs (\<lambda>jobs.
             run_bind (run_batch (native_job_call E) jobs) (\<lambda>_. run_return False)))))))"

section \<open>Running the jobs\<close>

text \<open>\<open>run_jobs\<close>, which returns only when no job is left or at an error\<close>

partial_function (option) run_jobs ::
  "(('j, 'x) jworld, 'm, 'j, 'e) job_engine_scheme \<Rightarrow> (('j, 'x) jworld, unit) run" where
  "run_jobs E w =
     run_bind (scheduler_pass E) (\<lambda>done w. if done then run_return () w else run_jobs E w) w"

text \<open>\<open>run_jobs_until_stalled\<close>, whose loop yields, and is not resumed, when no immediate job is left\<close>

partial_function (option) run_until_stalled ::
  "(('j, 'x) jworld, 'm, 'j, 'e) job_engine_scheme \<Rightarrow> (('j, 'x) jworld, unit) run" where
  "run_until_stalled E w =
     run_bind (scheduler_pass E) (\<lambda>done w.
       if done then run_return () w
       else if immediate_jobs_empty w then run_return () w
       else run_until_stalled E w) w"

datatype job_run_status = Complete | PendingJobs

definition run_jobs_until_stalled ::
  "(('j, 'x) jworld, 'm, 'j, 'e) job_engine_scheme \<Rightarrow> (('j, 'x) jworld, job_run_status) run" where
  "run_jobs_until_stalled E =
     run_bind (run_until_stalled E) (\<lambda>_.
       run_gets (\<lambda>w. if queued_jobs_empty w then Complete else PendingJobs))"

end
