(* ===== verification/EngineKeeps.thy ===== *)
theory EngineKeeps
  imports Iterators
begin

text \<open>
  Relies and guarantees: a computation keeps a relation when every run of it leads from a world to a
  related one. The locale \<open>keeping\<close> lifts this through the combinators of computations, its extension
  \<open>object_keeping\<close>, for relations that allow objects to change, through the object model and the
  iteration protocol, from what calls of functions, exotic methods and conversions keep.
\<close>

definition keeps :: "('w \<Rightarrow> 'w \<Rightarrow> bool) \<Rightarrow> ('w, 'a) run \<Rightarrow> bool" where
  "keeps R m \<longleftrightarrow> (\<forall>w r w'. m w = Some (r, w') \<longrightarrow> R w w')"

text \<open>The same from worlds with a precondition.\<close>

definition keeps_when :: "('w \<Rightarrow> 'w \<Rightarrow> bool) \<Rightarrow> ('w \<Rightarrow> bool) \<Rightarrow> ('w, 'a) run \<Rightarrow> bool" where
  "keeps_when R I m \<longleftrightarrow> (\<forall>w r w'. I w \<longrightarrow> m w = Some (r, w') \<longrightarrow> R w w')"

text \<open>The relation on worlds that carry something along.\<close>

definition on_first :: "('w \<Rightarrow> 'w \<Rightarrow> bool) \<Rightarrow> 'w \<times> 's \<Rightarrow> 'w \<times> 's \<Rightarrow> bool" where
  "on_first R c c' = R (fst c) (fst c')"

named_theorems keeps_intros \<open>computations that keep a relation\<close>

lemma keepsI [intro?]: "(\<And>w r w'. m w = Some (r, w') \<Longrightarrow> R w w') \<Longrightarrow> keeps R m"
  by (auto simp: keeps_def)

lemma keepsD: "keeps R m \<Longrightarrow> m w = Some (r, w') \<Longrightarrow> R w w'"
  by (auto simp: keeps_def)

lemma keeps_option: "(\<And>a. x = Some a \<Longrightarrow> keeps R (f a)) \<Longrightarrow> (x = None \<Longrightarrow> keeps R g) \<Longrightarrow>
    keeps R (case x of None \<Rightarrow> g | Some a \<Rightarrow> f a)"
  by (cases x) auto

lemma keeps_if: "(b \<Longrightarrow> keeps R f) \<Longrightarrow> (\<not> b \<Longrightarrow> keeps R g) \<Longrightarrow> keeps R (if b then f else g)"
  by auto

lemma keeps_value:
  "(\<And>a. x = VObject a \<Longrightarrow> keeps R (f a)) \<Longrightarrow> keeps R g \<Longrightarrow>
    keeps R (case x of VObject a \<Rightarrow> f a | _ \<Rightarrow> g)"
  by (cases x) auto

lemma keeps_sum: "(\<And>a. keeps R (f a)) \<Longrightarrow> (\<And>a. keeps R (g a)) \<Longrightarrow>
    keeps R (case x of Inl a \<Rightarrow> f a | Inr a \<Rightarrow> g a)"
  by (cases x) auto

lemma keeps_prod: "(\<And>a b. keeps R (f a b)) \<Longrightarrow> keeps R (case x of (a, b) \<Rightarrow> f a b)"
  by (cases x) auto

lemma keeps_validation: "(\<And>b. keeps R (f b)) \<Longrightarrow> (\<And>d. keeps R (g d)) \<Longrightarrow>
    keeps R (case x of Answer b \<Rightarrow> f b | Fill d \<Rightarrow> g d)"
  by (cases x) auto

lemmas keeps_cases = keeps_option keeps_if keeps_value keeps_sum keeps_prod keeps_validation

text \<open>The least of what a relation needs: reflexivity and transitivity.\<close>

locale keeping =
  fixes R :: "'w \<Rightarrow> 'w \<Rightarrow> bool"
  assumes refl: "R w w" and trans: "R w w' \<Longrightarrow> R w' w'' \<Longrightarrow> R w w''"
begin

lemma return: "keeps R (run_return a)"
  by (auto simp: keeps_def run_return_def refl)

lemma throw: "keeps R (run_throw e)"
  by (auto simp: keeps_def run_throw_def refl)

lemma lift: "keeps R (run_lift r)"
  by (auto simp: keeps_def run_lift_def refl)

lemma unwrap: "keeps R (run_unwrap r)"
  by (auto simp: keeps_def run_unwrap_def refl split: option.splits)

lemma gets: "keeps R (run_gets f)"
  by (auto simp: keeps_def run_gets_def refl)

lemma bind:
  assumes "keeps R m" "\<And>a. keeps R (f a)"
  shows "keeps R (run_bind m f)"
proof
  fix w r w' assume "run_bind m f w = Some (r, w')"
  then show "R w w'"
    using assms trans unfolding run_bind_Some keeps_def by blast
qed

lemma attempt: "keeps R m \<Longrightarrow> keeps R (run_try m)"
  by (auto simp: keeps_def run_try_def)

lemma expect: "keeps R m \<Longrightarrow> keeps R (run_expect m)"
  by (auto simp: keeps_def run_expect_def split: prod.splits)

lemma trigger:
  "(\<And>x. x \<in> set xs \<Longrightarrow> keeps R (f x)) \<Longrightarrow>
     keeps R (foldr (\<lambda>x m. run_bind (f x) (\<lambda>_. m)) xs (run_return a))"
  by (induction xs) (auto intro: return bind)

lemma bind_when:
  assumes m: "keeps_when R I m" and f: "\<And>a. keeps_when R (J a) (f a)"
    and J: "\<And>w a w'. I w \<Longrightarrow> m w = Some (Inr a, w') \<Longrightarrow> J a w'"
  shows "keeps_when R I (run_bind m f)"
  unfolding keeps_when_def
proof (intro allI impI)
  fix w r w' assume I: "I w" and r: "run_bind m f w = Some (r, w')"
  consider e where "m w = Some (Inl e, w')" | a w1 where "m w = Some (Inr a, w1)" "f a w1 = Some (r, w')"
    using r by (auto simp: run_bind_Some)
  then show "R w w'"
  proof cases
    case 1
    then show ?thesis using m I by (auto simp: keeps_when_def)
  next
    case 2
    then have "R w w1" "R w1 w'" using m f J I unfolding keeps_when_def by blast+
    then show ?thesis by (rule trans)
  qed
qed

lemmas basic = return throw lift unwrap gets bind attempt expect keeps_cases

end

text \<open>A relation on worlds is one on worlds with a slot or an iterator record.\<close>

lemma on_first_keeping: "keeping R \<Longrightarrow> keeping (on_first R)"
  unfolding keeping_def on_first_def by blast

lemma keeps_imp_when: "keeps R m \<Longrightarrow> keeps_when R I m"
  by (auto simp: keeps_def keeps_when_def)

lemma in_iterator_when:
  "keeps_when R I m \<Longrightarrow> keeps_when (on_first R) (\<lambda>c. I (fst c)) (in_iterator m)"
  by (auto simp: keeps_when_def in_iterator_def on_first_def)

lemma in_iterator_run: "in_iterator m (w, i) = Some (r, c) \<longleftrightarrow> (\<exists>w'. m w = Some (r, w') \<and> c = (w', i))"
  by (auto simp: in_iterator_def)

lemma in_context_keeps: "keeps R m \<Longrightarrow> keeps (on_first R) (in_context m)"
  by (auto simp: keeps_def in_context_def on_first_def)

lemma in_iterator_keeps: "keeps R m \<Longrightarrow> keeps (on_first R) (in_iterator m)"
  by (auto simp: keeps_def in_iterator_def on_first_def)

lemma property_context_new_keeps: "keeps (on_first R) m \<Longrightarrow> keeps R (property_context_new m)"
  by (fastforce simp: keeps_def property_context_new_def on_first_def)

lemma slot_modify_keeps: "keeping R \<Longrightarrow> keeps (on_first R) (slot_modify f)"
  by (auto simp: keeps_def slot_modify_run on_first_def keeping_def)

lemma set_iterator_keeps: "keeping R \<Longrightarrow> keeps (on_first R) (set_iterator f)"
  by (auto simp: keeps_def set_iterator_def run_modify_def on_first_def keeping_def)

section \<open>What an engine keeps\<close>

definition exotic_keeps :: "('w \<Rightarrow> 'w \<Rightarrow> bool) \<Rightarrow> 'w exotic_methods \<Rightarrow> bool" where
  "exotic_keeps R X \<longleftrightarrow>
     (\<forall>f a. ex_get_prototype_of X = Some f \<longrightarrow> keeps R (f a)) \<and>
     (\<forall>f a. ex_is_extensible X = Some f \<longrightarrow> keeps R (f a)) \<and>
     (\<forall>f a k. ex_get_own_property X = Some f \<longrightarrow> keeps (on_first R) (f a k)) \<and>
     (\<forall>f a k d. ex_define_own_property X = Some f \<longrightarrow> keeps (on_first R) (f a k d)) \<and>
     (\<forall>f a k v. ex_get X = Some f \<longrightarrow> keeps (on_first R) (f a k v)) \<and>
     (\<forall>f a k. ex_delete X = Some f \<longrightarrow> keeps (on_first R) (f a k)) \<and>
     (\<forall>f a. ex_own_property_keys X = Some f \<longrightarrow> keeps R (f a))"

definition engine_keeps :: "('w \<Rightarrow> 'w \<Rightarrow> bool) \<Rightarrow> ('w, 'm, 'e) engine_scheme \<Rightarrow> bool" where
  "engine_keeps R E \<longleftrightarrow>
     (\<forall>f this args. keeps R (en_call E f this args)) \<and>
     (\<forall>a hint. keeps R (cv_to_primitive (en_conversions E) a hint)) \<and>
     (\<forall>n. exotic_keeps R (en_exotic E n))"

locale object_keeping = keeping R for R :: "'x object_world_scheme \<Rightarrow> 'x object_world_scheme \<Rightarrow> bool" +
  assumes objects: "R w (w\<lparr>ow_objects := (ow_objects w)(a \<mapsto> ob)\<rparr>)"
    and shapes: "R w (w\<lparr>ow_shapes := h\<rparr>)"
begin

lemmas ctx = keeping.basic [OF on_first_keeping [OF keeping_axioms]]
lemmas lifted = in_context_keeps in_iterator_keeps property_context_new_keeps
  slot_modify_keeps [OF keeping_axioms] set_iterator_keeps [OF keeping_axioms]

lemma put: "R w (put_properties a ob pm h w)"
  using trans [OF objects [of w a "ob\<lparr>ob_properties := pm\<rparr>"] shapes [of _ h]] by (simp add: put_properties_def)

lemma borrow: "keeps R (object_borrow a)"
  by (auto simp: keeps_def object_borrow_def refl)

lemma store: "keeps R (object_write a ob)"
  by (auto simp: keeps_def object_write_def run_modify_def objects)

lemma shapes_read: "keeps R (with_shapes f)"
  by (auto simp: keeps_def with_shapes_def refl)

lemma call:
  assumes "engine_keeps R E"
  shows "keeps R (en_call E f this args)" "keeps R (value_call E v this args)"
  using assms by (auto simp: engine_keeps_def value_call_def intro!: basic)

lemma insert: "keeps (on_first R) (object_insert_with_slot E a k d)"
  by (auto simp: keeps_def object_insert_with_slot_def on_first_def put split: option.splits prod.splits)

lemma remove: "keeps R (object_remove E a k)"
  by (auto simp: keeps_def object_remove_def put split: option.splits prod.splits)

lemma exotic:
  assumes "engine_keeps R E"
  shows "overriding E v ex_get_prototype_of = Some f1 \<Longrightarrow> keeps R (f1 a)"
    "overriding E v ex_is_extensible = Some f2 \<Longrightarrow> keeps R (f2 a)"
    "overriding E v ex_get_own_property = Some f3 \<Longrightarrow> keeps (on_first R) (f3 a k)"
    "overriding E v ex_define_own_property = Some f4 \<Longrightarrow> keeps (on_first R) (f4 a k d)"
    "overriding E v ex_get = Some f5 \<Longrightarrow> keeps (on_first R) (f5 a k w)"
    "overriding E v ex_delete = Some f6 \<Longrightarrow> keeps (on_first R) (f6 a k)"
    "overriding E v ex_own_property_keys = Some f7 \<Longrightarrow> keeps R (f7 a)"
  using assms by (cases v; fastforce simp: engine_keeps_def exotic_keeps_def)+

lemma prototype_of: "engine_keeps R E \<Longrightarrow> keeps R (get_prototype_of E a)"
  unfolding get_prototype_of_def ordinary_get_prototype_of_def object_prototype_def
  by (intro basic borrow shapes_read) (auto intro: exotic)

lemma extensible: "engine_keeps R E \<Longrightarrow> keeps R (is_extensible E a)"
  unfolding is_extensible_def ordinary_is_extensible_def object_extensible_def
  by (intro basic borrow shapes_read) (auto intro: exotic)

lemma own_keys: "engine_keeps R E \<Longrightarrow> keeps R (own_property_keys E a)"
  unfolding own_property_keys_def ordinary_own_property_keys_def string_exotic_own_property_keys_def
  by (intro basic borrow shapes_read) (auto split: object_data.split intro!: basic borrow shapes_read intro: exotic)

lemma own_property: "engine_keeps R E \<Longrightarrow> keeps (on_first R) (get_own_property E a k)"
proof -
  assume E: "engine_keeps R E"
  have o: "keeps (on_first R) (ordinary_get_own_property a k)"
    by (auto simp: keeps_def ordinary_get_own_property_def on_first_def refl split: option.splits prod.splits)
  then show ?thesis
    unfolding get_own_property_def string_exotic_get_own_property_def
    by (intro ctx lifted borrow) (auto intro: exotic [OF E])
qed

lemma read: "engine_keeps R E \<Longrightarrow> keeps (on_first R) (read_descriptor E d v)"
  unfolding read_descriptor_def
  by (auto split: descriptor_kind.splits option.splits intro: ctx lifted call)

lemma get:
  fixes E :: "('x object_world_scheme, 'm, 'e) engine_scheme"
  assumes "engine_keeps R E"
  shows "keeps (on_first R) (get E a k v)"
proof -
  have "engine_keeps R E \<longrightarrow> on_first R c (snd y)" if "get E a k v c = Some y" for c y
    using that
  proof (rule get.raw_induct [rotated])
    fix get' :: "('x object_world_scheme, 'm, 'e) engine_scheme \<Rightarrow> obj_addr \<Rightarrow> property_key \<Rightarrow> js_value \<Rightarrow>
      ('x object_world_scheme property_context, js_value) run" and E :: "('x object_world_scheme, 'm, 'e) engine_scheme"
      and a k v c y
    assume IH: "\<And>E a k v c y. get' E a k v c = Some y \<Longrightarrow> engine_keeps R E \<longrightarrow> on_first R c (snd y)"
      and body: "run_bind (in_context (object_borrow a)) (\<lambda>ob c.
        case overriding E (ob_vtable ob) ex_get of
          Some method \<Rightarrow> method a k v c
        | None \<Rightarrow>
            run_bind (get_own_property E a k) (\<lambda>desc c.
              case desc of
                None \<Rightarrow>
                  run_bind (in_context (get_prototype_of E a)) (\<lambda>parent c.
                    case parent of
                      Some parent \<Rightarrow> run_bind mark_prototype (\<lambda>_ c. get' E parent k v c) c
                    | None \<Rightarrow> run_return VUndefined c) c
              | Some desc \<Rightarrow> read_descriptor E desc v c) c) c = Some y"
    show "engine_keeps R E \<longrightarrow> on_first R c (snd y)"
    proof
      assume E: "engine_keeps R E"
      have rec: "keeps (on_first R) (get' E b k v)" for b
        using IH E by (fastforce simp: keeps_def)
      have m: "keeps (on_first R) mark_prototype"
        unfolding mark_prototype_def by (rule lifted)
      have up: "keeps (on_first R) (\<lambda>c. case parent of
          Some parent \<Rightarrow> run_bind mark_prototype (\<lambda>_ c. get' E parent k v c) c
        | None \<Rightarrow> run_return VUndefined c)" for parent
        by (cases parent) (auto intro: ctx m rec)
      have own: "keeps (on_first R) (\<lambda>c. case desc of
          None \<Rightarrow> run_bind (in_context (get_prototype_of E a)) (\<lambda>parent c.
              case parent of
                Some parent \<Rightarrow> run_bind mark_prototype (\<lambda>_ c. get' E parent k v c) c
              | None \<Rightarrow> run_return VUndefined c) c
        | Some desc \<Rightarrow> read_descriptor E desc v c)" for desc
        by (cases desc) (auto intro: ctx lifted up prototype_of read E)
      have all: "keeps (on_first R) (\<lambda>c. case overriding E (ob_vtable ob) ex_get of
          Some method \<Rightarrow> method a k v c
        | None \<Rightarrow>
            run_bind (get_own_property E a k) (\<lambda>desc c.
              case desc of
                None \<Rightarrow> run_bind (in_context (get_prototype_of E a)) (\<lambda>parent c.
                    case parent of
                      Some parent \<Rightarrow> run_bind mark_prototype (\<lambda>_ c. get' E parent k v c) c
                    | None \<Rightarrow> run_return VUndefined c) c
              | Some desc \<Rightarrow> read_descriptor E desc v c) c)" for ob
        by (cases "overriding E (ob_vtable ob) ex_get") (auto intro: ctx own own_property exotic E)
      show "on_first R c (snd y)"
        using keepsD [where w = c and r = "fst y" and w' = "snd y", OF ctx(6) [OF in_context_keeps [OF borrow] all]] body
          by simp
    qed
  qed
  then show ?thesis using assms by (fastforce simp: keeps_def)
qed

lemma object_get: "engine_keeps R E \<Longrightarrow> keeps R (object_get E a k)"
  unfolding object_get_def by (intro lifted get)

text \<open>Definitions and deletions of properties\<close>

lemma number:
  assumes "engine_keeps R E"
  shows "keeps R (to_number (en_conversions E) v)"
proof -
  have "(\<forall>a hint. keeps R (cv_to_primitive C a hint)) \<longrightarrow> R w (snd y)" if "to_number C v w = Some y" for C w y
    using that
  proof (rule to_number.raw_induct [rotated])
    fix to_number' :: "'x object_world_scheme conversions \<Rightarrow> js_value \<Rightarrow> ('x object_world_scheme, f64) run" and C v w y
    assume IH: "\<And>C v w y. to_number' C v w = Some y \<Longrightarrow> (\<forall>a hint. keeps R (cv_to_primitive C a hint)) \<longrightarrow> R w (snd y)"
      and body: "(case v of VNull \<Rightarrow> run_return 0 w | VUndefined \<Rightarrow> run_return f64_NAN w
        | VBoolean b \<Rightarrow> run_return (if b then f64_one else 0) w | VString s \<Rightarrow> run_return (cv_string_to_number C s) w
        | VFloat64 number \<Rightarrow> run_return number w | VInteger32 i \<Rightarrow> run_return (f64_of_i32 i) w
        | VSymbol _ \<Rightarrow> run_throw TypeError w | VBigInt _ \<Rightarrow> run_throw TypeError w
        | VObject o' \<Rightarrow> run_bind (cv_to_primitive C o' PreferNumber) (\<lambda>primitive. to_number' C primitive) w) = Some y"
    show "(\<forall>a hint. keeps R (cv_to_primitive C a hint)) \<longrightarrow> R w (snd y)"
    proof
      assume C: "\<forall>a hint. keeps R (cv_to_primitive C a hint)"
      have rec: "keeps R (to_number' C u)" for u
        using IH C by (fastforce simp: keeps_def)
      have "keeps R (run_bind (cv_to_primitive C a PreferNumber) (\<lambda>primitive. to_number' C primitive))" for a
        using C by (intro bind rec) blast
      then show "R w (snd y)"
        using body refl by (cases v; cases y) (auto simp: run_evaluate keeps_def)
    qed
  qed
  then show ?thesis using assms by (fastforce simp: keeps_def engine_keeps_def)
qed

lemma unsigned: "engine_keeps R E \<Longrightarrow> keeps R (to_u32 (en_conversions E) v)"
  unfolding to_u32_def Let_def by (auto split: js_value.split intro!: basic number)

lemma own_slot: "keeps (on_first R) (ordinary_get_own_property a k)"
  by (auto simp: keeps_def ordinary_get_own_property_def on_first_def refl split: option.splits prod.splits)

lemma validate: "keeps (on_first R) (validate_and_apply_property_descriptor E ok ext d c)"
  unfolding validate_and_apply_property_descriptor_def
  by (intro ctx lifted insert)

lemma define_ordinary: "engine_keeps R E \<Longrightarrow> keeps (on_first R) (ordinary_define_own_property E a k d)"
  unfolding ordinary_define_own_property_def by (intro ctx lifted own_property extensible validate)

lemma define_string: "engine_keeps R E \<Longrightarrow> keeps (on_first R) (string_exotic_define_own_property E a k d)"
  unfolding string_exotic_define_own_property_def is_compatible_property_descriptor_def
  by (intro ctx lifted borrow define_ordinary validate)

lemma delete: "engine_keeps R E \<Longrightarrow> keeps (on_first R) (delete_property E a k)"
  unfolding delete_property_def ordinary_delete_def
  by (intro ctx lifted borrow remove own_property) (auto intro: exotic)

lemma delete_loop:
  assumes "engine_keeps R E"
  shows "keeps (on_first R) (array_delete_loop E a b d ks)"
proof (induction ks)
  case Nil
  show ?case by (simp add: ctx(1))
next
  case (Cons i ks)
  show ?case
    unfolding array_delete_loop.simps Let_def by (intro ctx delete define_ordinary assms Cons)
qed

lemma load: "keeps R (object_load a n)"
  unfolding object_load_def by (intro basic borrow)

lemma storage: "keeps R (object_store a n v)"
  unfolding object_store_def by (intro basic borrow store)

lemma shrink: "engine_keeps R E \<Longrightarrow> keeps (on_first R) (array_shrink E a n d)"
  unfolding array_shrink_def Let_def by (intro ctx lifted borrow delete_loop define_ordinary)

lemma set_length: "engine_keeps R E \<Longrightarrow> keeps (on_first R) (array_set_length E a d)"
  unfolding array_set_length_def by (intro ctx lifted number unsigned own_slot shrink define_ordinary)

lemma define_element: "engine_keeps R E \<Longrightarrow> keeps (on_first R) (array_define_element E a k i d)"
  unfolding array_define_element_def by (intro ctx lifted unsigned own_slot define_ordinary)

lemma define_array: "engine_keeps R E \<Longrightarrow> keeps (on_first R) (array_exotic_define_own_property E a k d)"
  unfolding array_exotic_define_own_property_def array_define_fast_def Let_def
  by (cases k; simp only: property_key.case)
    (intro ctx lifted unsigned borrow load storage set_length define_element define_ordinary; assumption)+

lemma define_property: "engine_keeps R E \<Longrightarrow> keeps (on_first R) (define_own_property E a k d)"
  unfolding define_own_property_def
  by (intro ctx lifted borrow define_string define_array define_ordinary) (auto intro: exotic)

text \<open>New objects, values as objects, and methods\<close>

lemma template: "keeps R (template_create E shape d v vs)"
  unfolding template_create_def Let_def keeps_def
  using trans by (auto simp: object_write_def run_bind_pure run_evaluate objects)

lemma to_object: "keeps R (to_object E v)"
  unfolding to_object_def by (auto split: js_value.split option.split intro!: basic template)

lemma new_object: "keeps R (from_proto_and_data E p d v)"
  unfolding from_proto_and_data_def Let_def keeps_def
  using trans [OF shapes objects]
  by (auto simp: object_write_def run_bind_pure run_evaluate split: prod.splits)

lemma callable: "keeps R (as_function E v)"
  unfolding as_function_def by (rule gets)

lemma get_value: "engine_keeps R E \<Longrightarrow> keeps R (get_v E v k)"
  unfolding get_v_def by (intro basic lifted to_object get)

lemma method_found: "keeps R (method_of E v)"
  unfolding method_of_def by (intro basic callable)

lemma get_method:
  "engine_keeps R E \<Longrightarrow> keeps R (get_method E v k)" "engine_keeps R E' \<Longrightarrow> keeps R (object_get_method E' a k)"
  unfolding get_method_def object_get_method_def by (intro basic method_found get_value object_get; simp)+

lemma invoke:
  "engine_keeps R E \<Longrightarrow> keeps R (value_invoke E v k args)" "engine_keeps R E' \<Longrightarrow> keeps R (object_invoke E' a k args)"
  unfolding value_invoke_def object_invoke_def by (intro basic call get_value object_get; simp)+

text \<open>Iterators\<close>

lemma done_on_err: "keeps (on_first R) m \<Longrightarrow> keeps (on_first R) (set_done_on_err m)"
  unfolding set_done_on_err_def by (intro ctx lifted)

lemma with_iterator: "(\<And>i. keeps (on_first R) (m i)) \<Longrightarrow> keeps (on_first R) (\<lambda>(w, i). m i (w, i))"
  by (auto simp: keeps_def)

lemma take_result: "engine_keeps R E \<Longrightarrow> keeps (on_first R) (take_result E a)"
  unfolding take_result_def iterator_complete_def by (intro ctx lifted basic object_get)

lemma step_value: "engine_keeps R E \<Longrightarrow> keeps (on_first R) (step_value E)"
  unfolding step_value_def iterator_step_def iterator_next_def iterator_record_value_def iterator_value_def
  by (intro ctx lifted basic done_on_err with_iterator object_get call take_result)

lemma close: "engine_keeps R E \<Longrightarrow> keeps R (iterator_close E i c)"
  unfolding iterator_close_def
  by (auto split: sum.split option.split intro!: basic get_method call)

lemma iterator: "engine_keeps R E \<Longrightarrow> keeps R (get_iterator_sync E v)"
  unfolding get_iterator_sync_def get_iterator_from_method_def iterator_record_new_def with_null_proto_def
  by (intro basic get_method call object_get new_object)

end

end
