(* ===== verification/PromiseInvariant.thy ===== *)
theory PromiseInvariant
  imports PromiseMethods EngineKeeps "HOL-Library.Sublist"
begin

text \<open>
  What the engine keeps of its promises. A pending promise has at most one owner: a pair of resolving
  functions not used yet, or a job that will make such a pair. Settling is possible for the owner only,
  so the assertions of \<open>fulfill_promise\<close> and \<open>reject_promise\<close> never fail and a settled promise stays as it
  is. \<open>evolves\<close> is the relation between worlds that every part of the engine keeps.
\<close>

section \<open>Well-formed worlds\<close>

definition pending :: "'x promise_world_scheme \<Rightarrow> obj_addr \<Rightarrow> bool" where
  "pending w p \<longleftrightarrow> (\<exists>pr. pw_promises w p = Some pr \<and> pr_state pr = Pending)"

fun job_owns :: "promise_job \<Rightarrow> obj_addr option" where
  "job_owns (ResolveThenableJob p thenable thn realm) = Some p"
| "job_owns (ReactionJob reaction argument realm) = None"

fun somes :: "'a option list \<Rightarrow> 'a list" where
  "somes [] = []"
| "somes (None # xs) = somes xs"
| "somes (Some x # xs) = x # somes xs"

lemma somes_append [simp]: "somes (xs @ ys) = somes xs @ somes ys"
  by (induction xs rule: somes.induct) auto

definition owners :: "'x promise_world_scheme \<Rightarrow> obj_addr list" where
  "owners w = somes (pw_resolvers w) @ somes (map job_owns (pw_jobs w))"

text \<open>The reactions of a promise come in pairs, and only a pending promise has some.\<close>

definition reaction_pair :: "reaction_record \<Rightarrow> reaction_record \<Rightarrow> bool" where
  "reaction_pair f r \<longleftrightarrow>
     rr_reaction_type f = FulfillReaction \<and> rr_reaction_type r = RejectReaction \<and>
     rr_promise_capability f = rr_promise_capability r"

definition promise_ok :: "promise \<Rightarrow> bool" where
  "promise_ok pr \<longleftrightarrow>
     (if pr_state pr = Pending then list_all2 reaction_pair (pr_fulfill_reactions pr) (pr_reject_reactions pr)
      else pr_fulfill_reactions pr = [] \<and> pr_reject_reactions pr = [])"

text \<open>The cells that a closure shares exist.\<close>

fun element_ok :: "'x promise_world_scheme \<Rightarrow> nat \<Rightarrow> nat \<Rightarrow> nat \<Rightarrow> nat \<Rightarrow> bool" where
  "element_ok w already index values remaining \<longleftrightarrow>
     already < length (pw_flags w) \<and> values < length (pw_values w) \<and> index < length (pw_values w ! values) \<and>
     remaining < length (pw_counters w)"

fun closure_ok :: "'x promise_world_scheme \<Rightarrow> native_closure \<Rightarrow> bool" where
  "closure_ok w (CapabilityExecutor cell) = (cell < length (pw_capabilities w))"
| "closure_ok w (ResolveFunction cell) = (cell < length (pw_resolvers w))"
| "closure_ok w (RejectFunction cell) = (cell < length (pw_resolvers w))"
| "closure_ok w (AllResolveElement already index values f remaining) = element_ok w already index values remaining"
| "closure_ok w (SettledResolveElement already index values f remaining) = element_ok w already index values remaining"
| "closure_ok w (SettledRejectElement already index values f remaining) = element_ok w already index values remaining"
| "closure_ok w (AnyRejectElement already index values f remaining) = element_ok w already index values remaining"
| "closure_ok w (KeyedResolveElement already index variant keys values f remaining) =
     (keys < length (pw_keys w) \<and> element_ok w already index values remaining)"
| "closure_ok w (KeyedRejectElement already index variant keys values f remaining) =
     (keys < length (pw_keys w) \<and> element_ok w already index values remaining)"
| "closure_ok w _ = True"

definition promise_wf :: "'x promise_world_scheme \<Rightarrow> bool" where
  "promise_wf w \<longleftrightarrow>
     distinct (owners w) \<and> (\<forall>p \<in> set (owners w). pending w p) \<and>
     (\<forall>p pr. pw_promises w p = Some pr \<longrightarrow> promise_ok pr) \<and>
     (\<forall>a f. pw_functions w a = Some f \<longrightarrow> closure_ok w (nf_closure f)) \<and>
     dom (pw_promises w) \<subseteq> dom (ow_objects w) \<and> dom (pw_functions w) \<subseteq> dom (ow_objects w) \<and>
     finite (dom (ow_objects w))"

section \<open>Evolution\<close>

text \<open>\<open>P\<close> are the promises that the running code owns itself and may settle or give away.\<close>

definition settled_stay :: "'x promise_world_scheme \<Rightarrow> 'x promise_world_scheme \<Rightarrow> bool" where
  "settled_stay w w' \<longleftrightarrow>
     (\<forall>p pr. pw_promises w p = Some pr \<longrightarrow>
       (\<exists>pr'. pw_promises w' p = Some pr' \<and> (pr_state pr \<noteq> Pending \<longrightarrow> pr_state pr' = pr_state pr) \<and>
         (pr_handled pr \<longrightarrow> pr_handled pr')))"

definition unowned_wait :: "obj_addr set \<Rightarrow> 'x promise_world_scheme \<Rightarrow> 'x promise_world_scheme \<Rightarrow> bool" where
  "unowned_wait P w w' \<longleftrightarrow>
     (\<forall>p. pending w p \<longrightarrow> p \<notin> set (owners w) \<longrightarrow> p \<notin> P \<longrightarrow> pending w' p \<and> p \<notin> set (owners w'))"

definition cells_stay :: "'x promise_world_scheme \<Rightarrow> 'x promise_world_scheme \<Rightarrow> bool" where
  "cells_stay w w' \<longleftrightarrow>
     length (pw_resolvers w) \<le> length (pw_resolvers w') \<and>
     (\<forall>i < length (pw_resolvers w). pw_resolvers w ! i = None \<longrightarrow> pw_resolvers w' ! i = None) \<and>
     length (pw_capabilities w) \<le> length (pw_capabilities w') \<and>
     length (pw_flags w) \<le> length (pw_flags w') \<and>
     (\<forall>i < length (pw_flags w). pw_flags w ! i \<longrightarrow> pw_flags w' ! i) \<and>
     length (pw_values w) \<le> length (pw_values w') \<and>
     (\<forall>i < length (pw_values w). length (pw_values w ! i) \<le> length (pw_values w' ! i)) \<and>
     length (pw_counters w) \<le> length (pw_counters w') \<and>
     length (pw_keys w) \<le> length (pw_keys w')"

definition evolves_by :: "obj_addr set \<Rightarrow> 'x promise_world_scheme \<Rightarrow> 'x promise_world_scheme \<Rightarrow> bool" where
  "evolves_by P w w' \<longleftrightarrow>
     (promise_wf w \<longrightarrow>
       promise_wf w' \<and> settled_stay w w' \<and> unowned_wait P w w' \<and> cells_stay w w' \<and>
       pw_functions w \<subseteq>\<^sub>m pw_functions w' \<and> prefix (pw_jobs w) (pw_jobs w') \<and>
       dom (ow_objects w) \<subseteq> dom (ow_objects w') \<and> pw_realm w' = pw_realm w)"

abbreviation evolves :: "'x promise_world_scheme \<Rightarrow> 'x promise_world_scheme \<Rightarrow> bool" where
  "evolves \<equiv> evolves_by {}"

lemma element_ok_stays: "element_ok w a i v n \<Longrightarrow> cells_stay w w' \<Longrightarrow> element_ok w' a i v n"
  by (auto simp: cells_stay_def intro: less_le_trans)

lemma cells_grow:
  "cells_stay w w' \<Longrightarrow> n < length (pw_resolvers w) \<Longrightarrow> n < length (pw_resolvers w')"
  "cells_stay w w' \<Longrightarrow> n < length (pw_capabilities w) \<Longrightarrow> n < length (pw_capabilities w')"
  "cells_stay w w' \<Longrightarrow> n < length (pw_keys w) \<Longrightarrow> n < length (pw_keys w')"
  by (simp_all add: cells_stay_def)

lemma closure_ok_stays: "closure_ok w c \<Longrightarrow> cells_stay w w' \<Longrightarrow> closure_ok w' c"
  by (cases c) (auto simp only: closure_ok.simps intro: element_ok_stays cells_grow)

lemma settled_stay_refl: "settled_stay w w"
  by (simp add: settled_stay_def)

lemma settled_stayD:
  "settled_stay w w' \<Longrightarrow> pw_promises w p = Some pr \<Longrightarrow>
     \<exists>pr'. pw_promises w' p = Some pr' \<and> (pr_state pr \<noteq> Pending \<longrightarrow> pr_state pr' = pr_state pr) \<and>
       (pr_handled pr \<longrightarrow> pr_handled pr')"
  by (simp add: settled_stay_def)

lemma settled_stay_trans: "settled_stay w w' \<Longrightarrow> settled_stay w' w'' \<Longrightarrow> settled_stay w w''"
  unfolding settled_stay_def [of w w''] by (auto dest!: settled_stayD)

lemma cells_stay_refl: "cells_stay w w"
  by (simp add: cells_stay_def)

lemma cells_stayD:
  assumes "cells_stay w w'"
  shows "length (pw_resolvers w) \<le> length (pw_resolvers w')" "length (pw_capabilities w) \<le> length (pw_capabilities w')"
    "length (pw_flags w) \<le> length (pw_flags w')" "length (pw_values w) \<le> length (pw_values w')"
    "length (pw_counters w) \<le> length (pw_counters w')"
    "i < length (pw_resolvers w) \<Longrightarrow> pw_resolvers w ! i = None \<Longrightarrow> pw_resolvers w' ! i = None"
    "i < length (pw_flags w) \<Longrightarrow> pw_flags w ! i \<Longrightarrow> pw_flags w' ! i"
    "i < length (pw_values w) \<Longrightarrow> length (pw_values w ! i) \<le> length (pw_values w' ! i)"
    "length (pw_keys w) \<le> length (pw_keys w')"
  using assms by (simp_all add: cells_stay_def)

lemma cells_stay_trans:
  assumes a: "cells_stay w w'" and b: "cells_stay w' w''"
  shows "cells_stay w w''"
  unfolding cells_stay_def [of w w'']
  using cells_stayD [OF a] cells_stayD [OF b] by (simp add: order_trans [OF cells_stayD(8) [OF a] cells_stayD(8) [OF b]])

lemma unowned_wait_refl: "unowned_wait P w w"
  by (simp add: unowned_wait_def)

lemma unowned_wait_trans: "unowned_wait P w w' \<Longrightarrow> unowned_wait Q w' w'' \<Longrightarrow> unowned_wait (P \<union> Q) w w''"
  unfolding unowned_wait_def by blast

lemma evolves_by_refl: "evolves_by P w w"
  by (simp add: evolves_by_def settled_stay_refl cells_stay_refl unowned_wait_refl)

lemma evolves_by_trans:
  assumes a: "evolves_by P w w'" and b: "evolves_by Q w' w''"
  shows "evolves_by (P \<union> Q) w w''"
proof (cases "promise_wf w")
  case True
  note A = a [unfolded evolves_by_def, rule_format, OF True]
  then have "promise_wf w'" by simp
  note B = b [unfolded evolves_by_def, rule_format, OF this]
  have "settled_stay w w''" "unowned_wait (P \<union> Q) w w''" "cells_stay w w''" "pw_functions w \<subseteq>\<^sub>m pw_functions w''"
    "prefix (pw_jobs w) (pw_jobs w'')"
    using A B by (auto intro: settled_stay_trans unowned_wait_trans cells_stay_trans map_le_trans prefix_order.trans)
  then show ?thesis using A B by (auto simp: evolves_by_def)
qed (simp add: evolves_by_def)

lemma evolves_by_step [trans]: "evolves_by P w w' \<Longrightarrow> evolves_by P w' w'' \<Longrightarrow> evolves_by P w w''"
  using evolves_by_trans [of P w w' P w''] by simp

text \<open>Code that owns a promise because it took it from an owner of the world, or because it is new.\<close>

lemma evolves_by_owned:
  assumes "evolves_by P w w'" "\<And>p. p \<in> P \<Longrightarrow> promise_wf w \<Longrightarrow> pending w p \<Longrightarrow> p \<in> set (owners w)"
  shows "evolves w w'"
  using assms by (auto simp: evolves_by_def unowned_wait_def)

lemma evolves_by_mono: "evolves_by P w w' \<Longrightarrow> P \<subseteq> Q \<Longrightarrow> evolves_by Q w w'"
  by (auto simp: evolves_by_def unowned_wait_def)

lemma evolves_objects:
  assumes "object_world.more w' = object_world.more w" "dom (ow_objects w) \<subseteq> dom (ow_objects w')"
    "finite (dom (ow_objects w)) \<Longrightarrow> finite (dom (ow_objects w'))"
  shows "evolves_by P w w'"
proof -
  have s: "pw_promises w' = pw_promises w" "pw_functions w' = pw_functions w" "pw_resolvers w' = pw_resolvers w"
    "pw_capabilities w' = pw_capabilities w" "pw_flags w' = pw_flags w" "pw_values w' = pw_values w"
    "pw_counters w' = pw_counters w" "pw_keys w' = pw_keys w" "pw_jobs w' = pw_jobs w" "pw_realm w' = pw_realm w"
    using assms(1) by (cases w; cases w'; simp)+
  then have o: "owners w' = owners w" "\<And>p. pending w' p = pending w p"
    by (simp_all add: owners_def pending_def)
  have c: "cells_stay w w'"
    using s by (simp add: cells_stay_def)
  then have k: "closure_ok w x \<Longrightarrow> closure_ok w' x" for x
    using closure_ok_stays by blast
  have "promise_wf w'" if "promise_wf w"
    using that k assms(3) subset_trans [OF _ assms(2)] unfolding promise_wf_def s o by blast
  then show ?thesis
    using assms(2) c s o by (simp add: evolves_by_def settled_stay_def unowned_wait_def)
qed

interpretation evolving: object_keeping "evolves :: 'x promise_world_scheme \<Rightarrow> 'x promise_world_scheme \<Rightarrow> bool"
proof
  fix w w' w'' :: "'x promise_world_scheme" and a ob h
  show "evolves w w" by (rule evolves_by_refl)
  show "evolves w w' \<Longrightarrow> evolves w' w'' \<Longrightarrow> evolves w w''" using evolves_by_trans by force
  show "evolves w (w\<lparr>ow_objects := (ow_objects w)(a \<mapsto> ob)\<rparr>)" by (rule evolves_objects) auto
  show "evolves w (w\<lparr>ow_shapes := h\<rparr>)" by (rule evolves_objects) auto
qed

section \<open>Steps\<close>

text \<open>What is seen of a world that differs in the parts that the invariant does not read.\<close>

lemma closure_ok_same:
  "pw_resolvers w' = pw_resolvers w \<Longrightarrow> pw_capabilities w' = pw_capabilities w \<Longrightarrow> pw_flags w' = pw_flags w \<Longrightarrow>
   pw_values w' = pw_values w \<Longrightarrow> pw_counters w' = pw_counters w \<Longrightarrow> pw_keys w' = pw_keys w \<Longrightarrow> closure_ok w' c = closure_ok w c"
  by (cases c) simp_all

lemma owners_same: "pw_resolvers w' = pw_resolvers w \<Longrightarrow> pw_jobs w' = pw_jobs w \<Longrightarrow> owners w' = owners w"
  by (simp add: owners_def)

lemma pending_same: "pw_promises w' = pw_promises w \<Longrightarrow> pending w' = pending w"
  by (simp add: pending_def fun_eq_iff)

text \<open>A step that changes cells other than those of resolving functions, or the calls of the tracker.\<close>

lemma evolves_cells:
  assumes "pw_promises w' = pw_promises w" "pw_functions w' = pw_functions w" "pw_resolvers w' = pw_resolvers w"
    "pw_jobs w' = pw_jobs w" "ow_objects w' = ow_objects w" "pw_realm w' = pw_realm w" "cells_stay w w'"
  shows "evolves_by P w w'"
proof -
  have o: "owners w' = owners w" "pending w' = pending w"
    using assms by (simp_all add: owners_def pending_def fun_eq_iff)
  have "promise_wf w'" if "promise_wf w"
    using that closure_ok_stays [OF _ assms(7)] unfolding promise_wf_def o assms(1,2,5) by blast
  then show ?thesis
    using assms o by (simp add: evolves_by_def settled_stay_def unowned_wait_def)
qed

lemma evolves_tracker: "evolves_by P w (w\<lparr>pw_tracked := ts\<rparr>)"
  by (rule evolves_cells) (simp_all add: cells_stay_def)

lemma realm_same [simp]:
  "promise_wf (w\<lparr>pw_realm := r\<rparr>) = promise_wf w" "owners (w\<lparr>pw_realm := r\<rparr>) = owners w"
  "pending (w\<lparr>pw_realm := r\<rparr>) = pending w" "settled_stay (w\<lparr>pw_realm := r\<rparr>) w' = settled_stay w w'"
  "settled_stay w (w'\<lparr>pw_realm := r\<rparr>) = settled_stay w w'"
  "cells_stay (w\<lparr>pw_realm := r\<rparr>) w' = cells_stay w w'" "cells_stay w (w'\<lparr>pw_realm := r\<rparr>) = cells_stay w w'"
proof -
  show o: "owners (w\<lparr>pw_realm := r\<rparr>) = owners w" and p: "pending (w\<lparr>pw_realm := r\<rparr>) = pending w"
    by (simp_all add: owners_def pending_def fun_eq_iff)
  have "closure_ok (w\<lparr>pw_realm := r\<rparr>) c = closure_ok w c" for c
    by (rule closure_ok_same) simp_all
  then show "promise_wf (w\<lparr>pw_realm := r\<rparr>) = promise_wf w"
    by (simp add: promise_wf_def o p)
qed (simp_all add: settled_stay_def cells_stay_def)

lemma evolves_realm:
  "evolves_by P (w\<lparr>pw_realm := r\<rparr>) w' \<Longrightarrow> evolves_by P w (w'\<lparr>pw_realm := pw_realm w\<rparr>)"
  by (simp add: evolves_by_def unowned_wait_def)

text \<open>A new function at a free address.\<close>

lemma evolves_function:
  assumes "closure_ok w (nf_closure f)" "pw_functions w a = None" "ow_objects w a \<noteq> None"
  shows "evolves_by P w (w\<lparr>pw_functions := (pw_functions w)(a \<mapsto> f)\<rparr>)" (is "evolves_by P w ?w")
proof -
  have o: "owners ?w = owners w" "pending ?w = pending w" "closure_ok ?w c = closure_ok w c" for c
    by (rule owners_same pending_same closure_ok_same; simp)+
  have "promise_wf ?w" if "promise_wf w"
    using that assms unfolding promise_wf_def o by auto
  then show ?thesis
    using o assms(2)
    by (auto simp: evolves_by_def settled_stay_def unowned_wait_def cells_stay_def map_le_def)
qed

text \<open>A change of one promise that keeps its outcome, and the settling of an unowned one.\<close>

lemma evolves_promise:
  assumes p: "pw_promises w p = Some pr" and ok: "promise_ok pr \<Longrightarrow> promise_ok pr'"
    and s: "pr_state pr' = pr_state pr \<or> pr_state pr = Pending \<and> p \<in> P \<and> p \<notin> set (owners w)"
    and h: "pr_handled pr \<Longrightarrow> pr_handled pr'"
  shows "evolves_by P w (w\<lparr>pw_promises := (pw_promises w)(p \<mapsto> pr')\<rparr>)" (is "evolves_by P w ?w")
proof -
  have o: "owners ?w = owners w" "closure_ok ?w c = closure_ok w c" for c
    by (rule owners_same closure_ok_same; simp)+
  have pend: "pending ?w q = pending w q" if "q \<noteq> p \<or> pr_state pr' = pr_state pr" for q
    using that p by (auto simp: pending_def)
  have "promise_wf ?w" if wf: "promise_wf w"
  proof -
    have "promise_ok pr'" using wf p ok by (auto simp: promise_wf_def)
    moreover have "\<forall>q \<in> set (owners w). pending ?w q"
    proof
      fix q assume q: "q \<in> set (owners w)"
      then have "q \<noteq> p \<or> pr_state pr' = pr_state pr" using s by auto
      then show "pending ?w q" using pend q wf by (simp add: promise_wf_def)
    qed
    ultimately show ?thesis
      using wf p unfolding promise_wf_def o by auto
  qed
  moreover have "settled_stay w ?w"
    using p s h by (auto simp: settled_stay_def)
  moreover have "unowned_wait P w ?w"
    unfolding unowned_wait_def o
  proof (intro allI impI)
    fix q assume q: "pending w q" "q \<notin> set (owners w)" "q \<notin> P"
    then have "q \<noteq> p \<or> pr_state pr' = pr_state pr" using s by auto
    then show "pending ?w q \<and> q \<notin> set (owners w)" using pend q by simp
  qed
  ultimately show ?thesis
    by (simp add: evolves_by_def cells_stay_def)
qed

lemma evolves_new_promise:
  assumes "pw_promises w p = None" "ow_objects w p \<noteq> None"
  shows "evolves_by P w (w\<lparr>pw_promises := (pw_promises w)(p \<mapsto> promise_new)\<rparr>)" (is "evolves_by P w ?w")
proof -
  have o: "owners ?w = owners w" "closure_ok ?w c = closure_ok w c" for c
    by (rule owners_same closure_ok_same; simp)+
  have pend: "pending w q \<Longrightarrow> pending ?w q" for q
    by (auto simp: pending_def promise_new_def)
  have "promise_wf ?w" if wf: "promise_wf w"
    using wf pend assms(2) unfolding promise_wf_def o by (auto simp: promise_ok_def promise_new_def)
  moreover have "settled_stay w ?w"
    using assms(1) by (auto simp: settled_stay_def)
  ultimately show ?thesis
    using pend o by (simp add: evolves_by_def cells_stay_def unowned_wait_def)
qed

text \<open>Jobs: one that owns nothing, and one that gets a promise owned by the running code.\<close>

lemma evolves_job:
  assumes "case job_owns job of None \<Rightarrow> True | Some p \<Rightarrow> p \<in> P \<and> pending w p \<and> p \<notin> set (owners w)"
  shows "evolves_by P w (w\<lparr>pw_jobs := pw_jobs w @ [job]\<rparr>)" (is "evolves_by P w ?w")
proof -
  have o: "owners ?w = owners w @ (case job_owns job of None \<Rightarrow> [] | Some p \<Rightarrow> [p])"
    by (cases "job_owns job") (simp_all add: owners_def)
  have k: "pending ?w = pending w" "closure_ok ?w c = closure_ok w c" for c
    by (rule pending_same closure_ok_same; simp)+
  have "promise_wf ?w" if "promise_wf w"
    using that assms unfolding promise_wf_def o k by (auto split: option.splits)
  then show ?thesis
    using assms o k
    by (auto simp: evolves_by_def settled_stay_refl settled_stay_def cells_stay_def unowned_wait_def split: option.splits)
qed

text \<open>Cells of resolving functions: a new one for a promise of the running code, and taking the promise out.\<close>

lemma evolves_new_resolver:
  assumes "p \<in> P" "pending w p" "p \<notin> set (owners w)"
  shows "evolves_by P w (w\<lparr>pw_resolvers := pw_resolvers w @ [Some p]\<rparr>)" (is "evolves_by P w ?w")
proof -
  have o: "set (owners ?w) = insert p (set (owners w))" "distinct (owners w) \<Longrightarrow> distinct (owners ?w)"
    using assms(3) by (auto simp: owners_def)
  have k: "pending ?w = pending w" by (rule pending_same) simp
  have c: "cells_stay w ?w" by (simp add: cells_stay_def nth_append)
  have "promise_wf ?w" if "promise_wf w"
    using that assms(2) o closure_ok_stays [OF _ c] unfolding promise_wf_def k by auto
  then show ?thesis
    using assms o k c by (auto simp: evolves_by_def settled_stay_def unowned_wait_def)
qed

lemma somes_take:
  "i < length xs \<Longrightarrow> xs ! i = Some p \<Longrightarrow> \<exists>us vs. somes xs = us @ p # vs \<and> somes (xs[i := None]) = us @ vs"
proof (induction xs arbitrary: i rule: somes.induct)
  case (2 xs)
  then show ?case by (cases i) auto
next
  case (3 x xs)
  show ?case
  proof (cases i)
    case 0
    then have "somes (Some x # xs) = [] @ p # somes xs \<and> somes ((Some x # xs)[i := None]) = [] @ somes xs"
      using 3 by simp
    then show ?thesis by blast
  next
    case (Suc j)
    then obtain us vs where "somes xs = us @ p # vs" "somes (xs[j := None]) = us @ vs"
      using "3.IH" [of j] "3.prems" by auto
    then have "somes (Some x # xs) = (x # us) @ p # vs \<and> somes ((Some x # xs)[i := None]) = (x # us) @ vs"
      using Suc by simp
    then show ?thesis by blast
  qed
qed simp

lemma evolves_take:
  assumes i: "i < length (pw_resolvers w)" "pw_resolvers w ! i = Some p" and wf: "promise_wf w"
  defines "w' \<equiv> w\<lparr>pw_resolvers := (pw_resolvers w)[i := None]\<rparr>"
  shows "evolves w w'" "pending w' p" "p \<notin> set (owners w')" "p \<in> set (owners w)" "pw_promises w' = pw_promises w"
proof -
  obtain us vs where "somes (pw_resolvers w) = us @ p # vs" "somes ((pw_resolvers w)[i := None]) = us @ vs"
    using somes_take [OF i] by blast
  then have o: "owners w = us @ p # vs @ somes (map job_owns (pw_jobs w))"
    "owners w' = us @ vs @ somes (map job_owns (pw_jobs w))"
    by (simp_all add: owners_def w'_def)
  show k: "pw_promises w' = pw_promises w" by (simp add: w'_def)
  show own: "p \<in> set (owners w)" using o by simp
  have d: "distinct (owners w)" using wf by (simp add: promise_wf_def)
  then show "p \<notin> set (owners w')" using o by auto
  have pe: "pending w' = pending w" using k by (rule pending_same)
  show "pending w' p" using own wf pe by (simp add: promise_wf_def)
  have c: "cells_stay w w'" using i(1) by (auto simp: cells_stay_def w'_def nth_list_update)
  have "promise_wf w'"
    using wf d o closure_ok_stays [OF _ c] unfolding promise_wf_def pe by (auto simp: w'_def)
  then show "evolves w w'"
    using o pe c by (auto simp: evolves_by_def w'_def settled_stay_def unowned_wait_def)
qed

end
