(* ===== verification/PromiseFacts.thy ===== *)
theory PromiseFacts
  imports PromiseInvariant
begin

text \<open>
  The effect of the operations on promises, and that each keeps \<open>evolves\<close>. A computation is looked at
  from one world (\<open>keeps_at\<close>) where what it does depends on what came before.
\<close>

section \<open>The effect of settling and of \<open>then\<close>\<close>

definition reaction_job ::
  "('w, 'm, 'e) promise_engine_scheme \<Rightarrow> 'x promise_world_scheme \<Rightarrow> js_value \<Rightarrow> reaction_record \<Rightarrow> promise_job" where
  "reaction_job E w v r =
     ReactionJob r v (case rr_handler r of
       None \<Rightarrow> pw_realm w
     | Some h \<Rightarrow> (case function_realm E w h of Inr realm \<Rightarrow> realm | Inl _ \<Rightarrow> pw_realm w))"

lemma reaction_job_world [simp]:
  "reaction_job E (w\<lparr>pw_jobs := js\<rparr>) = reaction_job E w" "reaction_job E (w\<lparr>pw_promises := ps\<rparr>) = reaction_job E w"
  "reaction_job E (w\<lparr>pw_tracked := ts\<rparr>) = reaction_job E w" "reaction_job E (w\<lparr>pw_resolvers := rs\<rparr>) = reaction_job E w"
  by (simp_all add: reaction_job_def function_realm_def fun_eq_iff split: option.split sum.split)

lemma reaction_job_owns [simp]: "job_owns (reaction_job E w v r) = None"
  by (simp add: reaction_job_def)

lemma new_reaction_job_run: "new_promise_reaction_job E r v w = Some (Inr (reaction_job E w v r), w)"
  by (simp add: new_promise_reaction_job_def reaction_job_def run_gets_def)

lemma trigger_run:
  "trigger_promise_reactions E rs v w = Some (Inr (), w\<lparr>pw_jobs := pw_jobs w @ map (reaction_job E w v) rs\<rparr>)"
  by (induction rs arbitrary: w)
    (simp_all add: run_evaluate run_bind_cases(1) [OF new_reaction_job_run] enqueue_promise_job_def run_bind_pure)

lemma promise_modify_run:
  "pw_promises w p = Some pr \<Longrightarrow>
     promise_modify p f w = Some (Inr (), w\<lparr>pw_promises := (pw_promises w)(p \<mapsto> f pr)\<rparr>)"
  by (simp add: promise_modify_def promise_borrow_def run_bind_def run_modify_def)

lemma promise_modify_bind:
  "pw_promises w p = Some pr \<Longrightarrow>
     run_bind (promise_modify p f) g w = g () (w\<lparr>pw_promises := (pw_promises w)(p \<mapsto> f pr)\<rparr>)"
  by (simp add: run_bind_def promise_modify_run)

lemma promise_borrow_bind: "pw_promises w p = Some pr \<Longrightarrow> run_bind (promise_borrow p) g w = g pr w"
  by (simp add: run_bind_def promise_borrow_def)

text \<open>The outcome \<open>s\<close> of a promise, its reactions as jobs in their order, and the tracker for the unhandled.\<close>

fun outcome_value :: "promise_state \<Rightarrow> js_value" where
  "outcome_value Pending = VUndefined"
| "outcome_value (Fulfilled v) = v"
| "outcome_value (Rejected v) = v"

fun outcome_reactions :: "promise_state \<Rightarrow> promise \<Rightarrow> reaction_record list" where
  "outcome_reactions Pending pr = []"
| "outcome_reactions (Fulfilled v) pr = pr_fulfill_reactions pr"
| "outcome_reactions (Rejected v) pr = pr_reject_reactions pr"

fun unhandled_rejection :: "promise_state \<Rightarrow> promise \<Rightarrow> bool" where
  "unhandled_rejection (Rejected v) pr = (\<not> pr_handled pr)"
| "unhandled_rejection _ pr = False"

definition settle ::
  "('w, 'm, 'e) promise_engine_scheme \<Rightarrow> obj_addr \<Rightarrow> promise \<Rightarrow> promise_state \<Rightarrow> 'x promise_world_scheme \<Rightarrow>
     'x promise_world_scheme" where
  "settle E p pr s w =
     w\<lparr>pw_promises := (pw_promises w)(p \<mapsto>
           \<lparr>pr_state = s, pr_fulfill_reactions = [], pr_reject_reactions = [], pr_handled = pr_handled pr\<rparr>),
       pw_jobs := pw_jobs w @ map (reaction_job E w (outcome_value s)) (outcome_reactions s pr),
       pw_tracked := pw_tracked w @ (if unhandled_rejection s pr then [(p, OperationReject)] else [])\<rparr>"

lemma settle_run:
  assumes p: "pw_promises w p = Some pr" "pr_state pr = Pending"
  shows "fulfill_promise E p v w = Some (Inr (), settle E p pr (Fulfilled v) w)"
    "reject_promise E p v w = Some (Inr (), settle E p pr (Rejected v) w)"
proof -
  have e: "pr\<lparr>pr_fulfill_reactions := [], pr_reject_reactions := [], pr_state := s\<rparr> =
      \<lparr>pr_state = s, pr_fulfill_reactions = [], pr_reject_reactions = [], pr_handled = pr_handled pr\<rparr>"
    "pr\<lparr>pr_reject_reactions := [], pr_fulfill_reactions := [], pr_state := s\<rparr> =
      \<lparr>pr_state = s, pr_fulfill_reactions = [], pr_reject_reactions = [], pr_handled = pr_handled pr\<rparr>" for s
    by (cases pr; simp)+
  show "fulfill_promise E p v w = Some (Inr (), settle E p pr (Fulfilled v) w)"
    using p by (simp add: fulfill_promise_def promise_borrow_bind promise_modify_bind promise_modify_run
        run_bind_cases(1) [OF trigger_run] settle_def e)
  show "reject_promise E p v w = Some (Inr (), settle E p pr (Rejected v) w)"
    using p by (simp add: reject_promise_def promise_borrow_bind promise_modify_bind promise_modify_run
        run_bind_cases(1) [OF trigger_run] settle_def e promise_rejection_tracker_def run_evaluate)
qed

lemma evolves_jobs:
  "(\<And>j. j \<in> set js \<Longrightarrow> job_owns j = None) \<Longrightarrow> evolves_by P w (w\<lparr>pw_jobs := pw_jobs w @ js\<rparr>)"
proof (induction js rule: rev_induct)
  case Nil
  show ?case using evolves_by_refl by simp
next
  case (snoc j js)
  have "evolves_by P w (w\<lparr>pw_jobs := pw_jobs w @ js\<rparr>)" using snoc by simp
  moreover have "evolves_by P (w\<lparr>pw_jobs := pw_jobs w @ js\<rparr>)
      (w\<lparr>pw_jobs := pw_jobs w @ js\<rparr>\<lparr>pw_jobs := pw_jobs (w\<lparr>pw_jobs := pw_jobs w @ js\<rparr>) @ [j]\<rparr>)"
    using snoc.prems by (intro evolves_job) simp
  ultimately show ?case using evolves_by_step by fastforce
qed

lemma evolves_settle:
  assumes p: "pw_promises w p = Some pr" "pr_state pr = Pending" and o: "p \<notin> set (owners w)" "p \<in> P"
    and s: "s \<noteq> Pending"
  shows "evolves_by P w (settle E p pr s w)"
proof -
  define pr' where "pr' = \<lparr>pr_state = s, pr_fulfill_reactions = [], pr_reject_reactions = [], pr_handled = pr_handled pr\<rparr>"
  define w1 where "w1 = w\<lparr>pw_promises := (pw_promises w)(p \<mapsto> pr')\<rparr>"
  define w2 where "w2 = w1\<lparr>pw_jobs := pw_jobs w1 @ map (reaction_job E w (outcome_value s)) (outcome_reactions s pr)\<rparr>"
  have "evolves_by P w w1"
    unfolding w1_def using p o s by (intro evolves_promise) (auto simp: pr'_def promise_ok_def)
  moreover have "evolves_by P w1 w2"
    unfolding w2_def by (rule evolves_jobs) auto
  moreover have "evolves_by P w2 (settle E p pr s w)"
    using evolves_tracker [of P w2] by (simp add: settle_def w2_def w1_def pr'_def)
  ultimately show ?thesis
    by (blast intro: evolves_by_step)
qed

text \<open>\<open>then\<close>: reactions for a pending promise, a job for a settled one.\<close>

definition fulfill_reaction :: "promise_capability option \<Rightarrow> obj_addr option \<Rightarrow> reaction_record" where
  "fulfill_reaction cap f = \<lparr>rr_promise_capability = cap, rr_reaction_type = FulfillReaction, rr_handler = f\<rparr>"

definition reject_reaction :: "promise_capability option \<Rightarrow> obj_addr option \<Rightarrow> reaction_record" where
  "reject_reaction cap r = \<lparr>rr_promise_capability = cap, rr_reaction_type = RejectReaction, rr_handler = r\<rparr>"

definition register ::
  "('w, 'm, 'e) promise_engine_scheme \<Rightarrow> obj_addr \<Rightarrow> promise \<Rightarrow> obj_addr option \<Rightarrow> obj_addr option \<Rightarrow>
     promise_capability option \<Rightarrow> 'x promise_world_scheme \<Rightarrow> 'x promise_world_scheme" where
  "register E p pr f r cap w =
     (case pr_state pr of
        Pending \<Rightarrow>
          w\<lparr>pw_promises := (pw_promises w)(p \<mapsto> pr\<lparr>pr_fulfill_reactions := pr_fulfill_reactions pr @ [fulfill_reaction cap f],
              pr_reject_reactions := pr_reject_reactions pr @ [reject_reaction cap r], pr_handled := True\<rparr>)\<rparr>
      | Fulfilled v \<Rightarrow>
          w\<lparr>pw_promises := (pw_promises w)(p \<mapsto> pr\<lparr>pr_handled := True\<rparr>),
            pw_jobs := pw_jobs w @ [reaction_job E w v (fulfill_reaction cap f)]\<rparr>
      | Rejected v \<Rightarrow>
          w\<lparr>pw_promises := (pw_promises w)(p \<mapsto> pr\<lparr>pr_handled := True\<rparr>),
            pw_jobs := pw_jobs w @ [reaction_job E w v (reject_reaction cap r)],
            pw_tracked := pw_tracked w @ (if pr_handled pr then [] else [(p, OperationHandle)])\<rparr>)"

lemma then_run:
  assumes p: "pw_promises w p = Some pr"
  shows "perform_promise_then E p f r cap w = Some (Inr (), register E p pr f r cap w)"
proof (cases "pr_state pr")
  case Pending
  then show ?thesis
    using p by (simp add: perform_promise_then_def Let_def promise_borrow_bind run_bind_assoc promise_modify_bind
        promise_modify_run register_def fulfill_reaction_def reject_reaction_def)
next
  case (Fulfilled v)
  then show ?thesis
    using p by (simp add: perform_promise_then_def Let_def promise_borrow_bind run_bind_assoc promise_modify_run
        run_bind_cases(1) [OF new_reaction_job_run] enqueue_promise_job_def run_bind_pure register_def fulfill_reaction_def)
next
  case (Rejected v)
  then show ?thesis
    using p by (simp add: perform_promise_then_def Let_def promise_borrow_bind run_bind_assoc promise_modify_run
        run_bind_cases(1) [OF new_reaction_job_run] enqueue_promise_job_def promise_rejection_tracker_def
        run_bind_pure register_def reject_reaction_def)
qed

lemma evolves_register:
  assumes p: "pw_promises w p = Some pr"
  shows "evolves_by P w (register E p pr f r cap w)"
proof -
  have jobs: "evolves_by P w (w\<lparr>pw_promises := (pw_promises w)(p \<mapsto> pr\<lparr>pr_handled := True\<rparr>),
      pw_jobs := pw_jobs w @ [reaction_job E w v x], pw_tracked := ts\<rparr>)" for v x ts
  proof -
    define w1 where "w1 = w\<lparr>pw_promises := (pw_promises w)(p \<mapsto> pr\<lparr>pr_handled := True\<rparr>)\<rparr>"
    have "evolves_by P w w1"
      unfolding w1_def using p by (rule evolves_promise) (auto simp: promise_ok_def)
    moreover have "evolves_by P w1 (w1\<lparr>pw_jobs := pw_jobs w1 @ [reaction_job E w v x]\<rparr>)"
      by (rule evolves_jobs) auto
    ultimately show ?thesis
      using evolves_by_step [OF evolves_by_step evolves_tracker] unfolding w1_def by fastforce
  qed
  show ?thesis
  proof (cases "pr_state pr")
    case Pending
    then show ?thesis
      unfolding register_def using p
      by (simp, intro evolves_promise) (auto simp: promise_ok_def fulfill_reaction_def reject_reaction_def
          reaction_pair_def list_all2_appendI)
  next
    case (Fulfilled v)
    then show ?thesis using jobs [where ts = "pw_tracked w"] by (simp add: register_def)
  next
    case (Rejected v)
    then show ?thesis using jobs by (simp add: register_def)
  qed
qed

end
