(* ===== verification/PromiseKeeps.thy ===== *)
theory PromiseKeeps
  imports PromiseFacts
begin

text \<open>
  Every operation of promises keeps \<open>evolves\<close> when the engine it runs on does: its calls, constructors,
  exotic methods and the making of errors. By induction on the depth of calls, so does the engine whose
  native functions are those operations, for any user code that keeps \<open>evolves\<close> when its calls do.
\<close>

section \<open>Engines\<close>

definition promise_engine_keeps :: "('x promise_world_scheme, 'm, 'e) promise_engine_scheme \<Rightarrow> bool" where
  "promise_engine_keeps E \<longleftrightarrow>
     engine_keeps evolves E \<and>
     (\<forall>c args new_target. keeps evolves (pe_construct E c args new_target)) \<and>
     (\<forall>e. keeps evolves (pe_error_object E e)) \<and> (\<forall>vs. keeps evolves (pe_aggregate_error E vs)) \<and>
     keeps evolves (he_check_runtime_limits E) \<and> (\<forall>n. keeps evolves (he_consume_loop_iterations E n)) \<and>
     (\<forall>w. promise_wf w \<longrightarrow> ow_objects w (ve_allocate E w) = None)"

lemma promise_engine_keepsD:
  assumes "promise_engine_keeps E"
  shows "engine_keeps evolves E" "keeps evolves (pe_construct E c args new_target)" "keeps evolves (pe_error_object E e)"
    "keeps evolves (pe_aggregate_error E vs)" "keeps evolves (he_check_runtime_limits E)"
    "keeps evolves (he_consume_loop_iterations E n)"
    "promise_wf w \<Longrightarrow> ow_objects w (ve_allocate E w) = None"
  using assms by (auto simp: promise_engine_keeps_def)

lemma evolves_wf: "evolves_by P w w' \<Longrightarrow> promise_wf w \<Longrightarrow> promise_wf w'"
  by (simp add: evolves_by_def)

lemma evolves_cells_stay: "evolves_by P w w' \<Longrightarrow> promise_wf w \<Longrightarrow> cells_stay w w'"
  by (simp add: evolves_by_def)

lemma evolves_waits:
  "evolves w w' \<Longrightarrow> promise_wf w \<Longrightarrow> pending w p \<Longrightarrow> p \<notin> set (owners w) \<Longrightarrow> pending w' p \<and> p \<notin> set (owners w')"
  by (simp add: evolves_by_def unowned_wait_def)

lemma evolves_functions:
  assumes "evolves_by P w w'" "promise_wf w" "pw_functions w a = Some f"
  shows "pw_functions w' a = Some f"
proof -
  have "pw_functions w \<subseteq>\<^sub>m pw_functions w'" using assms(1,2) by (simp add: evolves_by_def)
  then show ?thesis using assms(3) by (force simp: map_le_def)
qed

lemma evolves_by_vacuous: "(promise_wf w \<Longrightarrow> evolves_by P w w') \<Longrightarrow> evolves_by P w w'"
  by (auto simp: evolves_by_def)

section \<open>Cells\<close>

lemma cells_keep [keeps_intros]:
  "keeps evolves (new_cell pw_capabilities pw_capabilities_update c)" "keeps evolves (new_cell pw_flags pw_flags_update b)"
  "keeps evolves (new_cell pw_values pw_values_update vs)" "keeps evolves (new_cell pw_counters pw_counters_update n)"
  "keeps evolves (new_cell pw_keys pw_keys_update ks)"
  by (auto simp: keeps_def new_cell_def cells_stay_def nth_append intro!: evolves_cells)

lemma read_cell_keeps [keeps_intros]: "keeps evolves (read_cell sel i)"
  by (auto simp: keeps_def read_cell_def evolves_by_refl split: if_splits)

lemma write_cell_keeps [keeps_intros]:
  "keeps evolves (write_cell pw_capabilities pw_capabilities_update i c)"
  "keeps evolves (write_cell pw_flags pw_flags_update i True)"
  "keeps evolves (write_cell pw_counters pw_counters_update i n)" "keeps evolves (write_cell pw_keys pw_keys_update i ks)"
  by (auto simp: keeps_def write_cell_def cells_stay_def nth_list_update split: if_splits intro!: evolves_cells)

lemma write_values_evolves:
  "write_cell pw_values pw_values_update i vs w = Some (r, w') \<Longrightarrow> length (pw_values w ! i) \<le> length vs \<Longrightarrow> evolves w w'"
  by (auto simp: write_cell_def cells_stay_def nth_list_update split: if_splits intro!: evolves_cells)

lemma set_value_keeps [keeps_intros]: "keeps evolves (set_value values i v)"
proof
  fix w :: "'a promise_world_scheme" and r w'
  assume "set_value values i v w = Some (r, w')"
  then show "evolves w w'"
    by (auto simp: set_value_def run_bind_def read_cell_def run_unwrap_def split: if_splits intro!: write_values_evolves)
qed

lemma push_value_keeps [keeps_intros]: "keeps evolves (push_value values v)"
proof
  fix w :: "'a promise_world_scheme" and r w'
  assume "push_value values v w = Some (r, w')"
  then show "evolves w w'"
    by (auto simp: push_value_def run_bind_def read_cell_def split: if_splits intro!: write_values_evolves)
qed

lemma push_key_keeps [keeps_intros]: "keeps evolves (push_key keys key)"
  unfolding push_key_def by (intro evolving.basic keeps_intros)

lemma add_remaining_keeps [keeps_intros]: "keeps evolves (add_remaining counter d)"
  unfolding add_remaining_def by (intro evolving.basic keeps_intros)

lemma element_once_keeps: "keeps evolves m \<Longrightarrow> keeps evolves (element_once already m)"
  unfolding element_once_def by (intro evolving.basic keeps_intros)

section \<open>Functions\<close>

lemma build_function_run:
  assumes E: "promise_engine_keeps E" and wf: "promise_wf w" and ok: "closure_ok w c"
  obtains a w' where "build_function E c n w = Some (Inr a, w')" "evolves_by P w w'"
    "pw_functions w' a = Some \<lparr>nf_closure = c, nf_constructor = False, nf_realm = Some (pw_realm w)\<rparr>"
    "pw_promises w' = pw_promises w" "owners w' = owners w" "pw_resolvers w' = pw_resolvers w"
    "pw_functions w a = None"
proof -
  define a where "a = ve_allocate E w"
  have a: "ow_objects w a = None"
    unfolding a_def by (rule promise_engine_keepsD(7) [OF E wf])
  then have f: "pw_functions w a = None"
    using wf by (auto simp: promise_wf_def domIff subset_iff)
  define f where "f = \<lparr>nf_closure = c, nf_constructor = False, nf_realm = Some (pw_realm w)\<rparr>"
  define ob where "ob = \<lparr>ob_properties = (property_map_new (pe_function_template E (pw_realm w)) indexed_default)
      \<lparr>pm_storage := [value_of_usize n, VString []]\<rparr>, ob_extensible = True, ob_private_elements = [],
      ob_data = pe_function_data E, ob_vtable = pe_function_methods E\<rparr>"
  define w1 where "w1 = w\<lparr>ow_objects := (ow_objects w)(a \<mapsto> ob)\<rparr>"
  define w' where "w' = w1\<lparr>pw_functions := (pw_functions w1)(a \<mapsto> f)\<rparr>"
  have run: "build_function E c n w = Some (Inr a, w')"
    by (simp add: build_function_def template_create_def Let_def run_bind_def run_gets_def object_write_def
        run_modify_def run_return_def w'_def w1_def ob_def f_def a_def)
  have "evolves_by P w w1"
    unfolding w1_def by (rule evolves_objects) auto
  moreover have "evolves_by P w1 w'"
    unfolding w'_def
  proof (rule evolves_function)
    show "closure_ok w1 (nf_closure f)"
      using ok closure_ok_same [of w1 w] by (simp add: w1_def f_def)
  qed (use f in \<open>simp_all add: w1_def\<close>)
  ultimately have "evolves_by P w w'" by (rule evolves_by_step)
  moreover have "owners w' = owners w"
    by (rule owners_same) (simp_all add: w'_def w1_def)
  ultimately show ?thesis
    using that run f by (simp add: w'_def w1_def f_def)
qed

lemma build_function_keeps:
  assumes "promise_engine_keeps E" "\<And>w :: 'x promise_world_scheme. closure_ok w c"
  shows "keeps (evolves :: 'x promise_world_scheme \<Rightarrow> _) (build_function E c n)"
proof
  fix w :: "'x promise_world_scheme" and r w' assume r: "build_function E c n w = Some (r, w')"
  show "evolves w w'"
  proof (rule evolves_by_vacuous)
    assume "promise_wf w"
    from build_function_run [OF assms(1) this assms(2), of n "{}"] show "evolves w w'"
      using r by (metis option.inject prod.inject)
  qed
qed

lemma create_resolving_functions_run:
  assumes E: "promise_engine_keeps E" and wf: "promise_wf w" and p: "pending w p" "p \<notin> set (owners w)"
  obtains rf w' i where "create_resolving_functions E p w = Some (Inr rf, w')" "evolves_by {p} w w'" "promise_wf w'"
    "pw_functions w' (rf_resolve rf) = Some \<lparr>nf_closure = ResolveFunction i, nf_constructor = False, nf_realm = Some (pw_realm w)\<rparr>"
    "pw_functions w' (rf_reject rf) = Some \<lparr>nf_closure = RejectFunction i, nf_constructor = False, nf_realm = Some (pw_realm w)\<rparr>"
    "i < length (pw_resolvers w')" "pw_resolvers w' ! i = Some p" "pw_promises w' = pw_promises w"
proof -
  define i where "i = length (pw_resolvers w)"
  define w1 where "w1 = w\<lparr>pw_resolvers := pw_resolvers w @ [Some p]\<rparr>"
  have r1: "new_cell pw_resolvers pw_resolvers_update (Some p) w = Some (Inr i, w1)"
    by (simp add: new_cell_def i_def w1_def)
  have e1: "evolves_by {p} w w1"
    unfolding w1_def using p by (intro evolves_new_resolver) auto
  then have wf1: "promise_wf w1" using wf by (rule evolves_wf)
  have "closure_ok w1 (ResolveFunction i)" by (simp add: w1_def i_def)
  from build_function_run [OF E wf1 this, of 1 "{p}"] obtain a w2 where
    r2: "build_function E (ResolveFunction i) 1 w1 = Some (Inr a, w2)" "evolves_by {p} w1 w2"
      "pw_functions w2 a = Some \<lparr>nf_closure = ResolveFunction i, nf_constructor = False, nf_realm = Some (pw_realm w1)\<rparr>"
      "pw_promises w2 = pw_promises w1" "owners w2 = owners w1" "pw_resolvers w2 = pw_resolvers w1" by blast
  have wf2: "promise_wf w2" using r2(2) wf1 by (rule evolves_wf)
  have "closure_ok w2 (RejectFunction i)" using r2(6) by (simp add: w1_def i_def)
  from build_function_run [OF E wf2 this, of 1 "{p}"] obtain b w3 where
    r3: "build_function E (RejectFunction i) 1 w2 = Some (Inr b, w3)" "evolves_by {p} w2 w3"
      "pw_functions w3 b = Some \<lparr>nf_closure = RejectFunction i, nf_constructor = False, nf_realm = Some (pw_realm w2)\<rparr>"
      "pw_promises w3 = pw_promises w2" "pw_resolvers w3 = pw_resolvers w2" by blast
  have e: "evolves_by {p} w w3" using e1 r2(2) r3(2) by (blast intro: evolves_by_step)
  have realm: "pw_realm w1 = pw_realm w" "pw_realm w2 = pw_realm w"
    using r2(2) wf1 by (simp_all add: evolves_by_def w1_def)
  have "pw_functions w3 a = pw_functions w2 a"
    using evolves_functions [OF r3(2) wf2 r2(3)] r2(3) by simp
  then show ?thesis
    using that [of "\<lparr>rf_resolve = a, rf_reject = b\<rparr>" w3 i] r1 r2 r3 e evolves_wf [OF e wf] realm
    by (simp add: create_resolving_functions_def run_bind_def run_return_def w1_def i_def)
qed

section \<open>The resolving functions\<close>

lemma into_opaque_keeps [keeps_intros]: "promise_engine_keeps E \<Longrightarrow> keeps evolves (error_into_opaque E e)"
  unfolding error_into_opaque_def
  by (cases e) (auto intro!: evolving.basic promise_engine_keepsD)

lemma take_run:
  assumes "promise_wf w" "i < length (pw_resolvers w)"
  obtains "pw_resolvers w ! i = None" "take_promise i w = Some (Inr None, w)"
  | p w1 where "pw_resolvers w ! i = Some p" "take_promise i w = Some (Inr (Some p), w1)" "evolves w w1" "promise_wf w1"
    "pending w1 p" "p \<notin> set (owners w1)" "p \<in> set (owners w)" "pw_promises w1 = pw_promises w"
    "w1 = w\<lparr>pw_resolvers := (pw_resolvers w)[i := None]\<rparr>"
proof (cases "pw_resolvers w ! i")
  case None
  then have "(pw_resolvers w)[i := None] = pw_resolvers w" by (metis list_update_id)
  then have "take_promise i w = Some (Inr None, w)"
    using assms None by (simp add: take_promise_def run_bind_def read_cell_def write_cell_def run_return_def)
  then show ?thesis using that(1) None by blast
next
  case (Some p)
  have r: "take_promise i w = Some (Inr (Some p), w\<lparr>pw_resolvers := (pw_resolvers w)[i := None]\<rparr>)"
    using assms Some by (simp add: take_promise_def run_bind_def read_cell_def write_cell_def run_return_def)
  show ?thesis
    using that(2) [OF Some r] evolves_take [OF assms(2) Some assms(1)] evolves_wf assms(1) by blast
qed

text \<open>Settling a promise that the running code owns: the assertion of the source holds.\<close>

lemma settle_owned:
  assumes p: "pending w p" "p \<notin> set (owners w)" and wf: "promise_wf w"
  obtains pr where "pw_promises w p = Some pr" "pr_state pr = Pending"
    "fulfill_promise E p v w = Some (Inr (), settle E p pr (Fulfilled v) w)"
    "reject_promise E p v w = Some (Inr (), settle E p pr (Rejected v) w)"
    "evolves_by {p} w (settle E p pr (Fulfilled v) w)" "evolves_by {p} w (settle E p pr (Rejected v) w)"
proof -
  obtain pr where pr: "pw_promises w p = Some pr" "pr_state pr = Pending"
    using p(1) by (auto simp: pending_def)
  show ?thesis
    by (rule that [OF pr settle_run(1) [OF pr] settle_run(2) [OF pr]]; rule evolves_settle [OF pr p(2)]) simp_all
qed

text \<open>
  Code that runs with a pending promise of its own, which nothing in the world owns: it may settle the
  promise or give it away, and anything else it does keeps \<open>evolves\<close>.
\<close>

definition keeps_owning :: "obj_addr \<Rightarrow> ('x promise_world_scheme, 'a) run \<Rightarrow> bool" where
  "keeps_owning p m \<longleftrightarrow>
     (\<forall>w r w'. promise_wf w \<longrightarrow> pending w p \<longrightarrow> p \<notin> set (owners w) \<longrightarrow> m w = Some (r, w') \<longrightarrow> evolves_by {p} w w')"

lemma owning_keeps: "keeps evolves m \<Longrightarrow> keeps_owning p m"
  by (auto simp: keeps_owning_def keeps_def intro: evolves_by_mono)

lemma owning_bind:
  assumes m: "keeps evolves m" and f: "\<And>a. keeps_owning p (f a)"
  shows "keeps_owning p (run_bind m f)"
  unfolding keeps_owning_def
proof (intro allI impI)
  fix w r w' assume w: "promise_wf w" "pending w p" "p \<notin> set (owners w)" and r: "run_bind m f w = Some (r, w')"
  show "evolves_by {p} w w'"
  proof (cases "\<exists>e. m w = Some (Inl e, w')")
    case True
    then show ?thesis using m by (auto simp: keeps_def intro: evolves_by_mono)
  next
    case False
    then obtain a w1 where a: "m w = Some (Inr a, w1)" "f a w1 = Some (r, w')"
      using r by (auto simp: run_bind_Some)
    then have e: "evolves w w1" using m by (auto simp: keeps_def)
    then have "evolves_by {p} w1 w'"
      using f a(2) evolves_waits [OF e w] evolves_wf [OF e w(1)] by (auto simp: keeps_owning_def)
    then show ?thesis using evolves_by_trans [OF e] by simp
  qed
qed

lemma owning_last:
  assumes m: "keeps_owning p m" and f: "\<And>a. keeps evolves (f a)"
  shows "keeps_owning p (run_bind m f)"
  unfolding keeps_owning_def
proof (intro allI impI)
  fix w r w' assume w: "promise_wf w" "pending w p" "p \<notin> set (owners w)" and r: "run_bind m f w = Some (r, w')"
  consider e where "m w = Some (Inl e, w')" | a w1 where "m w = Some (Inr a, w1)" "f a w1 = Some (r, w')"
    using r by (auto simp: run_bind_Some)
  then show "evolves_by {p} w w'"
  proof cases
    case 1
    then show ?thesis using m w by (auto simp: keeps_owning_def)
  next
    case 2
    then have "evolves_by {p} w w1" "evolves w1 w'"
      using m f w by (auto simp: keeps_owning_def keeps_def)
    then show ?thesis using evolves_by_trans by fastforce
  qed
qed

lemma owning_cases:
  "(b \<Longrightarrow> keeps_owning p m) \<Longrightarrow> (\<not> b \<Longrightarrow> keeps_owning p m') \<Longrightarrow> keeps_owning p (if b then m else m')"
  "(\<And>e. keeps_owning p (g e)) \<Longrightarrow> (\<And>a. keeps_owning p (h a)) \<Longrightarrow>
     keeps_owning p (case x of Inl e \<Rightarrow> g e | Inr a \<Rightarrow> h a)"
  "keeps_owning p m \<Longrightarrow> (\<And>a. keeps_owning p (k a)) \<Longrightarrow> keeps_owning p (case y of None \<Rightarrow> m | Some a \<Rightarrow> k a)"
  "(\<And>a. keeps_owning p (k a)) \<Longrightarrow> keeps_owning p m \<Longrightarrow>
     keeps_owning p (case v of VObject a \<Rightarrow> k a | _ \<Rightarrow> m)"
  by (cases b; simp; fail) (cases x; simp; fail | cases y; simp; fail | cases v; simp; fail)+

lemma owning_settle: "keeps_owning p (fulfill_promise E p v)" "keeps_owning p (reject_promise E p v)"
proof -
  have "evolves_by {p} w w'"
    if w: "promise_wf w" "pending w p" "p \<notin> set (owners w)"
      and r: "fulfill_promise E p v w = Some (r, w') \<or> reject_promise E p v w = Some (r, w')"
    for w w' r
  proof -
    obtain pr where "fulfill_promise E p v w = Some (Inr (), settle E p pr (Fulfilled v) w)"
      "reject_promise E p v w = Some (Inr (), settle E p pr (Rejected v) w)"
      "evolves_by {p} w (settle E p pr (Fulfilled v) w)" "evolves_by {p} w (settle E p pr (Rejected v) w)"
      using settle_owned [OF w(2,3,1)] by metis
    then show ?thesis using r by auto
  qed
  then show "keeps_owning p (fulfill_promise E p v)" "keeps_owning p (reject_promise E p v)"
    unfolding keeps_owning_def by blast+
qed

lemma owning_job:
  "keeps_owning p (run_bind (new_promise_resolve_thenable_job E p v f) (\<lambda>job. run_bind (enqueue_promise_job job) (\<lambda>_. run_return u)))"
  unfolding keeps_owning_def
proof (intro allI impI)
  fix w r w' assume w: "pending w p" "p \<notin> set (owners w)"
    and r: "run_bind (new_promise_resolve_thenable_job E p v f)
      (\<lambda>job. run_bind (enqueue_promise_job job) (\<lambda>_. run_return u)) w = Some (r, w')"
  obtain realm where "new_promise_resolve_thenable_job E p v f w = Some (Inr (ResolveThenableJob p v f realm), w)"
    by (simp add: new_promise_resolve_thenable_job_def run_gets_def)
  then have "w' = w\<lparr>pw_jobs := pw_jobs w @ [ResolveThenableJob p v f realm]\<rparr>"
    using r by (simp add: run_bind_def enqueue_promise_job_def run_modify_def run_return_def)
  then show "evolves_by {p} w w'"
    using w evolves_job [where job = "ResolveThenableJob p v f realm" and P = "{p}" and w = w] by simp
qed

lemma owning_resolving_functions:
  assumes "promise_engine_keeps E"
  shows "keeps_owning p (create_resolving_functions E p)"
  unfolding keeps_owning_def
proof (intro allI impI)
  fix w r w' assume w: "promise_wf w" "pending w p" "p \<notin> set (owners w)"
    and r: "create_resolving_functions E p w = Some (r, w')"
  show "evolves_by {p} w w'"
    by (rule create_resolving_functions_run [OF assms w]) (use r in auto)
qed

text \<open>A computation after which the cell of a pair of resolving functions is empty.\<close>

definition empties :: "nat \<Rightarrow> ('x promise_world_scheme, 'a) run \<Rightarrow> bool" where
  "empties i m \<longleftrightarrow>
     (\<forall>w r w'. promise_wf w \<longrightarrow> m w = Some (r, w') \<longrightarrow> i < length (pw_resolvers w') \<and> pw_resolvers w' ! i = None)"

lemma take_keeps:
  assumes none: "keeps evolves (f None)" and some: "\<And>p. keeps_owning p (f (Some p))"
  shows "keeps evolves (run_bind (take_promise i) f) \<and> empties i (run_bind (take_promise i) f)"
proof -
  have "evolves w w' \<and> i < length (pw_resolvers w') \<and> pw_resolvers w' ! i = None"
    if wf: "promise_wf w" and r: "run_bind (take_promise i) f w = Some (r, w')" for w r w'
  proof -
    have i: "i < length (pw_resolvers w)"
      using r by (auto simp: run_bind_def take_promise_def read_cell_def split: if_splits)
    from wf i show ?thesis
    proof (cases rule: take_run)
      case 1
      then have e: "evolves w w'" using r none by (simp add: run_bind_def keeps_def)
      then show ?thesis using 1(1) i wf by (auto simp: evolves_by_def cells_stay_def)
    next
      case (2 p w1)
      then have "f (Some p) w1 = Some (r, w')" using r by (simp add: run_bind_def)
      then have e: "evolves_by {p} w1 w'" using some 2 unfolding keeps_owning_def by blast
      then have "evolves_by {p} w w'" using evolves_by_trans [OF 2(3)] by simp
      then have "evolves w w'" by (rule evolves_by_owned) (use 2(7) in auto)
      moreover have "i < length (pw_resolvers w1) \<and> pw_resolvers w1 ! i = None" using 2(9) i by simp
      ultimately show ?thesis using e 2(4) by (auto simp: evolves_by_def cells_stay_def)
    qed
  qed
  note run = this
  show ?thesis
    unfolding keeps_def empties_def using run evolves_by_vacuous by metis
qed

lemma resolve_function_takes:
  assumes E: "promise_engine_keeps E"
  shows "keeps evolves (resolve_function E i args) \<and> empties i (resolve_function E i args)"
  unfolding resolve_function_def Let_def
proof (rule take_keeps)
  show "keeps evolves (case None of None \<Rightarrow> run_return VUndefined | Some promise \<Rightarrow> f promise)" for f
    by (simp add: evolving.return)
next
  note e = promise_engine_keepsD [OF E]
  have settle: "keeps_owning p (run_bind (fulfill_promise E p v) (\<lambda>_. run_return VUndefined))"
    "keeps_owning p (run_bind (reject_promise E p v) (\<lambda>_. run_return VUndefined))" for p v
    by (intro owning_last owning_settle evolving.return)+
  show "keeps_owning p (case Some p of
      None \<Rightarrow> run_return VUndefined
    | Some promise \<Rightarrow>
        if same_value (get_or_undefined args 0) (VObject promise) then
          run_bind (pe_error_object E TypeError) (\<lambda>self_resolution_error.
          run_bind (reject_promise E promise (VObject self_resolution_error)) (\<lambda>_. run_return VUndefined))
        else (case get_or_undefined args 0 of
            VObject thn \<Rightarrow>
              run_bind (run_try (object_get E thn (key_literal ''then''))) (\<lambda>then_action.
                case then_action of
                  Inl e \<Rightarrow>
                    run_bind (error_into_opaque E e) (\<lambda>e.
                    run_bind (reject_promise E promise e) (\<lambda>_. run_return VUndefined))
                | Inr then_action \<Rightarrow>
                    run_bind (as_function E then_action) (\<lambda>then_action.
                      case then_action of
                        None \<Rightarrow> run_bind (fulfill_promise E promise (get_or_undefined args 0)) (\<lambda>_. run_return VUndefined)
                      | Some then_action \<Rightarrow>
                          run_bind (new_promise_resolve_thenable_job E promise (get_or_undefined args 0) then_action) (\<lambda>job.
                          run_bind (enqueue_promise_job job) (\<lambda>_. run_return VUndefined))))
          | _ \<Rightarrow> run_bind (fulfill_promise E promise (get_or_undefined args 0)) (\<lambda>_. run_return VUndefined)))" for p
    unfolding option.case
    by (intro owning_cases settle owning_job
        owning_bind [OF e(3)] owning_bind [OF evolving.attempt [OF evolving.object_get [OF e(1)]]]
        owning_bind [OF into_opaque_keeps [OF E]] owning_bind [OF evolving.callable])
qed

lemma reject_function_takes: "keeps evolves (reject_function E i args) \<and> empties i (reject_function E i args)"
  unfolding reject_function_def
  by (rule take_keeps) (auto intro!: evolving.return owning_last owning_settle)

lemmas resolve_function_keeps = resolve_function_takes [THEN conjunct1]
lemmas reject_function_keeps = reject_function_takes [THEN conjunct1]

section \<open>Realms and jobs\<close>

lemma in_realm_keeps: "keeps evolves m \<Longrightarrow> keeps evolves (run_in_realm realm m)"
  by (auto simp: keeps_def run_in_realm_def intro: evolves_realm)

lemma in_realm_owning: "keeps_owning p m \<Longrightarrow> keeps_owning p (run_in_realm realm m)"
  unfolding keeps_owning_def
proof (intro allI impI)
  fix w r w' assume m: "\<forall>w r w'. promise_wf w \<longrightarrow> pending w p \<longrightarrow> p \<notin> set (owners w) \<longrightarrow> m w = Some (r, w') \<longrightarrow> evolves_by {p} w w'"
    and w: "promise_wf w" "pending w p" "p \<notin> set (owners w)" and r: "run_in_realm realm m w = Some (r, w')"
  obtain w1 where w1: "m (w\<lparr>pw_realm := realm\<rparr>) = Some (r, w1)" "w' = w1\<lparr>pw_realm := pw_realm w\<rparr>"
    using r by (auto simp: run_in_realm_def)
  then have "evolves_by {p} (w\<lparr>pw_realm := realm\<rparr>) w1"
    using m w by simp
  then show "evolves_by {p} w w'"
    unfolding w1 by (rule evolves_realm)
qed

lemma reaction_job_keeps: "promise_engine_keeps E \<Longrightarrow> keeps evolves (run_reaction_job E reaction v)"
  unfolding run_reaction_job_def
  by (auto split: option.split reaction_type.split sum.split
      intro!: evolving.basic evolving.call promise_engine_keepsD(1) into_opaque_keeps)

lemma thenable_job_owning: "promise_engine_keeps E \<Longrightarrow> keeps_owning p (run_resolve_thenable_job E p v f)"
  unfolding run_resolve_thenable_job_def
  by (intro owning_last owning_resolving_functions evolving.basic evolving.call promise_engine_keepsD(1) into_opaque_keeps)

lemma job_keeps: "promise_engine_keeps E \<Longrightarrow> job_owns job = None \<Longrightarrow> keeps evolves (run_promise_job E job)"
  unfolding run_promise_job_def by (cases job) (auto intro: in_realm_keeps reaction_job_keeps)

lemma job_owning: "promise_engine_keeps E \<Longrightarrow> job_owns job = Some p \<Longrightarrow> keeps_owning p (run_promise_job E job)"
  unfolding run_promise_job_def by (cases job) (auto intro: in_realm_owning thenable_job_owning)

section \<open>The constructor and capabilities\<close>

lemma keeps_promise_wf: "keeps_when evolves promise_wf m \<Longrightarrow> keeps evolves m"
  by (auto simp: keeps_def keeps_when_def intro: evolves_by_vacuous)

lemma prototype_keeps: "promise_engine_keeps E \<Longrightarrow> keeps evolves (prototype_from_constructor E v d)"
  unfolding prototype_from_constructor_def
  by (intro evolving.basic evolving.object_get promise_engine_keepsD(1))

lemma shared_object_keeps: "keeps evolves (from_proto_and_data_with_shared_shape E proto d)"
  unfolding from_proto_and_data_with_shared_shape_def keeps_def
  by (auto simp: Let_def object_write_def run_bind_def run_modify_def run_return_def split: option.splits prod.splits
      intro!: evolves_objects)

lemma new_promise_keeps:
  assumes E: "promise_engine_keeps E" and f: "\<And>p. keeps_owning p (f p)"
  shows "keeps evolves (run_bind (from_proto_and_data_with_shared_shape E proto d) (\<lambda>promise.
    run_bind (run_modify (\<lambda>w. w\<lparr>pw_promises := (pw_promises w)(promise \<mapsto> promise_new)\<rparr>)) (\<lambda>_. f promise)))"
    (is "keeps evolves ?m")
proof (rule keeps_promise_wf, unfold keeps_when_def, intro allI impI)
  fix w r w' assume wf: "promise_wf w" and r: "?m w = Some (r, w')"
  obtain pm h where p: "from_prototype_with_shared_shape (ow_shapes w) (pe_root_shape E) (Some proto) = Some (pm, h)"
    using r by (auto simp: run_bind_def from_proto_and_data_with_shared_shape_def split: option.splits)
  define w1 where "w1 = w\<lparr>ow_shapes := h\<rparr>"
  define a where "a = ve_allocate E w1"
  define ob where "ob = \<lparr>ob_properties = pm, ob_extensible = True, ob_private_elements = [], ob_data = d,
    ob_vtable = OrdinaryMethods\<rparr>"
  define w2 where "w2 = w1\<lparr>ow_objects := (ow_objects w1)(a \<mapsto> ob)\<rparr>"
  define w3 where "w3 = w2\<lparr>pw_promises := (pw_promises w2)(a \<mapsto> promise_new)\<rparr>"
  have run: "f a w3 = Some (r, w')"
    using r p by (simp add: run_bind_def from_proto_and_data_with_shared_shape_def object_write_def run_modify_def
        run_return_def Let_def w3_def w2_def w1_def a_def ob_def)
  have e1: "evolves w w1" unfolding w1_def by (rule evolves_objects) auto
  then have wf1: "promise_wf w1" using wf by (rule evolves_wf)
  then have "ow_objects w1 a = None" unfolding a_def by (rule promise_engine_keepsD(7) [OF E])
  then have new: "pw_promises w1 a = None" using wf1 by (auto simp: promise_wf_def domIff subset_iff)
  have e2: "evolves w1 w2" unfolding w2_def by (rule evolves_objects) auto
  have e3: "evolves w2 w3"
    unfolding w3_def using new by (intro evolves_new_promise) (simp_all add: w2_def)
  have wf3: "promise_wf w3" using evolves_wf [OF e3 evolves_wf [OF e2 wf1]] .
  have o: "owners w3 = owners w1" by (rule owners_same) (simp_all add: w3_def w2_def)
  have own: "a \<notin> set (owners w3)"
    using wf1 new unfolding o by (auto simp: promise_wf_def pending_def)
  have "pending w3 a" by (simp add: pending_def w3_def promise_new_def)
  then have "evolves_by {a} w3 w'"
    using f run wf3 own unfolding keeps_owning_def by blast
  then have "evolves_by {a} w w'"
    using evolves_by_trans [OF evolves_by_step [OF e1 evolves_by_step [OF e2 e3]]] by simp
  moreover have "\<not> pending w a" using new by (simp add: pending_def w1_def)
  ultimately show "evolves w w'" by (auto intro: evolves_by_owned)
qed

lemma call_function_keeps: "promise_engine_keeps E \<Longrightarrow> keeps evolves (call_function E f args)"
  unfolding call_function_def by (intro evolving.call promise_engine_keepsD(1))

lemma promise_constructor_keeps:
  assumes E: "promise_engine_keeps E"
  shows "keeps evolves (promise_constructor E new_target args)"
  unfolding promise_constructor_def
  by (intro evolving.basic evolving.callable prototype_keeps [OF E] new_promise_keeps [OF E]
      owning_last owning_resolving_functions [OF E] call_function_keeps [OF E] into_opaque_keeps [OF E])

lemma capability_executor_keeps: "keeps evolves (capability_executor cell args)"
  unfolding capability_executor_def by (intro evolving.basic keeps_intros)

lemma build_function_when:
  assumes E: "promise_engine_keeps E"
  shows "keeps_when evolves (\<lambda>w. promise_wf w \<and> closure_ok w c) (build_function E c n)"
  unfolding keeps_when_def
proof (intro allI impI)
  fix w r w' assume w: "promise_wf w \<and> closure_ok w c" and r: "build_function E c n w = Some (r, w')"
  show "evolves w w'"
    by (rule build_function_run [OF E, of w c n "{}"]) (use w r in auto)
qed

lemma promise_capability_new_keeps:
  assumes E: "promise_engine_keeps E"
  shows "keeps evolves (promise_capability_new E c)"
proof -
  have "keeps evolves (run_bind (new_cell pw_capabilities pw_capabilities_update v) (\<lambda>cell.
      run_bind (build_function E (CapabilityExecutor cell) 2) (f cell)))"
    if f: "\<And>cell a. keeps evolves (f cell a)" for v and f :: "nat \<Rightarrow> obj_addr \<Rightarrow> ('a promise_world_scheme, 'z) run"
  proof (rule keeps_promise_wf, rule evolving.bind_when [OF keeps_imp_when [OF cells_keep(1)]])
    show "keeps_when evolves (\<lambda>w. promise_wf w \<and> closure_ok w (CapabilityExecutor cell))
        (run_bind (build_function E (CapabilityExecutor cell) 2) (f cell))" for cell
      by (rule evolving.bind_when [where J = "\<lambda>_ _. True", OF build_function_when [OF E] keeps_imp_when [OF f]]) simp
    show "promise_wf w' \<and> closure_ok w' (CapabilityExecutor cell)"
      if "promise_wf w" "new_cell pw_capabilities pw_capabilities_update v w = Some (Inr cell, w')" for w cell w'
      using that keepsD [OF cells_keep(1) that(2)] evolves_wf by (auto simp: new_cell_def)
  qed
  note h = this
  show ?thesis
    unfolding promise_capability_new_def
    by (rule evolving.bind [OF evolving.gets], rule keeps_if, rule evolving.throw, rule h)
      (intro evolving.basic evolving.callable keeps_intros promise_engine_keepsD(2) [OF E])
qed

end
