(* ===== verification/PromiseEngine.thy ===== *)
theory PromiseEngine
  imports PromiseKeeps
begin

text \<open>
  The methods of promises, the closures that they make, and the native functions keep \<open>evolves\<close>. By
  induction on the depth of calls so does the whole engine.
\<close>

section \<open>Computations that lead to a condition\<close>

text \<open>\<open>keeps\<close> from worlds with \<open>I\<close>, and a result comes with the condition \<open>J\<close>.\<close>

definition leads :: "('x promise_world_scheme \<Rightarrow> bool) \<Rightarrow> ('x promise_world_scheme, 'a) run \<Rightarrow>
    ('a \<Rightarrow> 'x promise_world_scheme \<Rightarrow> bool) \<Rightarrow> bool" where
  "leads I m J \<longleftrightarrow> (\<forall>w r w'. promise_wf w \<longrightarrow> I w \<longrightarrow> m w = Some (r, w') \<longrightarrow> evolves w w' \<and> (\<forall>a. r = Inr a \<longrightarrow> J a w'))"

text \<open>Conditions that evolution keeps.\<close>

definition persists :: "('x promise_world_scheme \<Rightarrow> bool) \<Rightarrow> bool" where
  "persists I \<longleftrightarrow> (\<forall>w w'. promise_wf w \<longrightarrow> I w \<longrightarrow> evolves w w' \<longrightarrow> I w')"

lemma leads_bind:
  assumes m: "leads I m J" and f: "\<And>a. leads (J a) (f a) K"
  shows "leads I (run_bind m f) K"
  unfolding leads_def
proof (intro allI impI)
  fix w r w' assume w: "promise_wf w" "I w" and r: "run_bind m f w = Some (r, w')"
  consider e where "m w = Some (Inl e, w')" "r = Inl e" | a w1 where "m w = Some (Inr a, w1)" "f a w1 = Some (r, w')"
    using r by (auto simp: run_bind_Some)
  then show "evolves w w' \<and> (\<forall>a. r = Inr a \<longrightarrow> K a w')"
  proof cases
    case 1
    then show ?thesis using m w by (auto simp: leads_def)
  next
    case 2
    then have "evolves w w1" "J a w1" using m w by (auto simp: leads_def)
    moreover have "promise_wf w1" using evolves_wf [OF \<open>evolves w w1\<close> w(1)] .
    moreover have "evolves w1 w' \<and> (\<forall>a. r = Inr a \<longrightarrow> K a w')"
      using f [of a, unfolded leads_def, rule_format, OF calculation(3,2) 2(2)] by blast
    ultimately show ?thesis using evolving.trans by blast
  qed
qed

lemma leads_stable: "keeps evolves m \<Longrightarrow> persists I \<Longrightarrow> leads I m (\<lambda>_. I)"
  by (auto simp: leads_def persists_def keeps_def)

lemma leads_step: "keeps evolves m \<Longrightarrow> persists I \<Longrightarrow> (\<And>a. leads I (f a) K) \<Longrightarrow> leads I (run_bind m f) K"
  by (rule leads_bind [OF leads_stable])

lemma leads_mono:
  assumes "leads I m J" "\<And>w. I' w \<Longrightarrow> I w" "\<And>a w. J a w \<Longrightarrow> J' a w"
  shows "leads I' m J'"
  unfolding leads_def
proof (intro allI impI)
  fix w r w' assume w: "promise_wf w" "I' w" and r: "m w = Some (r, w')"
  have "evolves w w' \<and> (\<forall>a. r = Inr a \<longrightarrow> J a w')"
    using assms(1) [unfolded leads_def, rule_format, OF w(1) assms(2) [OF w(2)] r] .
  then show "evolves w w' \<and> (\<forall>a. r = Inr a \<longrightarrow> J' a w')"
    using assms(3) by blast
qed

lemma leads_keeps: "leads (\<lambda>_. True) m J \<Longrightarrow> keeps evolves m"
  unfolding keeps_def leads_def by (metis evolves_by_vacuous)

lemma stable_conj: "persists I \<Longrightarrow> persists J \<Longrightarrow> persists (\<lambda>w. I w \<and> J w)"
  by (auto simp: persists_def)

lemma leads_conj:
  assumes "leads I m J" "persists K"
  shows "leads (\<lambda>w. I w \<and> K w) m (\<lambda>a w. J a w \<and> K w)"
  using assms unfolding leads_def persists_def by blast

lemma stable_closure: "persists (\<lambda>w. closure_ok w c)"
  by (auto simp: persists_def intro: closure_ok_stays evolves_cells_stay)

section \<open>\<open>then\<close> and the static methods\<close>

lemma then_keeps: "keeps evolves (perform_promise_then E p f r cap)"
proof
  fix w x w' assume run: "perform_promise_then E p f r cap w = Some (x, w')"
  show "evolves w w'"
  proof (cases "pw_promises w p")
    case None
    then show ?thesis
      using run by (simp add: perform_promise_then_def Let_def run_bind_def promise_borrow_def)
  next
    case (Some pr)
    then show ?thesis using run then_run [OF Some, of E f r cap] evolves_register [OF Some, of "{}" E f r cap] by simp
  qed
qed

text \<open>What an engine keeps, for the operations on objects and the basic ones on promises.\<close>

lemma as_promise_keeps: "keeps evolves (as_promise_object v)"
  unfolding as_promise_object_def by (rule evolving.gets)

lemma static_receiver_keeps: "keeps evolves (static_receiver v)"
  unfolding static_receiver_def by (intro evolving.basic)

lemmas object_intros =
  evolving.object_get [OF promise_engine_keepsD(1)] evolving.call [OF promise_engine_keepsD(1)]
  evolving.invoke [OF promise_engine_keepsD(1)] evolving.iterator [OF promise_engine_keepsD(1)]
  evolving.close [OF promise_engine_keepsD(1)] evolving.template evolving.new_object evolving.callable
  as_promise_keeps static_receiver_keeps then_keeps call_function_keeps promise_capability_new_keeps
  into_opaque_keeps promise_engine_keepsD(2,3,4,5,6)

lemma species_constructor_keeps: "promise_engine_keeps E \<Longrightarrow> keeps evolves (species_constructor E p d)"
  unfolding species_constructor_def by (intro evolving.basic object_intros; assumption)

lemma promise_then_keeps: "promise_engine_keeps E \<Longrightarrow> keeps evolves (promise_then E this args)"
  unfolding promise_then_def inner_then_def
  by (intro evolving.basic object_intros species_constructor_keeps; assumption)

lemma promise_resolve_keeps: "promise_engine_keeps E \<Longrightarrow> keeps evolves (promise_resolve E c x)"
  unfolding promise_resolve_def Let_def by (intro evolving.basic object_intros; assumption)

lemma static_keeps:
  assumes "promise_engine_keeps E"
  shows "keeps evolves (promise_try E this args)" "keeps evolves (promise_with_resolvers E this args)"
    "keeps evolves (static_reject E this args)" "keeps evolves (static_resolve E this args)"
    "keeps evolves (get_species this)" "keeps evolves (promise_catch E this args)"
  unfolding promise_try_def promise_with_resolvers_def static_reject_def promise_reject_def static_resolve_def
    get_species_def promise_catch_def
  by (intro evolving.basic object_intros promise_resolve_keeps assms)+

section \<open>The closures of \<open>finally\<close>\<close>

lemma build_keeps [intro]:
  assumes "promise_engine_keeps (E :: ('x promise_world_scheme, 'm, 'e) promise_engine_scheme)"
    "\<And>w :: 'x promise_world_scheme. closure_ok w c"
  shows "keeps evolves (build_function E c n)"
  using assms by (rule build_function_keeps)

lemma finally_keeps:
  assumes E: "promise_engine_keeps E"
  shows "keeps evolves (promise_finally E this args)" "keeps evolves (then_finally_closure E f c args)"
    "keeps evolves (catch_finally_closure E f c args)"
  unfolding promise_finally_def then_finally_closure_def catch_finally_closure_def then_catch_finally_closures_def
  by (intro evolving.basic object_intros promise_resolve_keeps species_constructor_keeps E
      build_function_keeps [OF E] closure_ok.simps [THEN iffD2] TrueI)+

section \<open>The closures of elements\<close>

lemma array_from_list_keeps: "keeps evolves (array_from_list E vs)"
  unfolding array_from_list_def keeps_def
  by (auto simp: Let_def object_write_def run_bind_def run_modify_def run_return_def evolving.objects)

lemma resolve_with_values_keeps: "promise_engine_keeps E \<Longrightarrow> keeps evolves (resolve_with_values E vs f)"
  unfolding resolve_with_values_def
  by (intro evolving.basic object_intros keeps_intros array_from_list_keeps; assumption)

lemma create_data_property_keeps: "promise_engine_keeps E \<Longrightarrow> keeps evolves (create_data_property_or_throw E a k v)"
  unfolding create_data_property_or_throw_def create_data_property_with_slot_def
  by (intro evolving.basic evolving.lifted evolving.define_property promise_engine_keepsD(1))

lemma element_keeps:
  assumes "promise_engine_keeps E"
  shows "keeps evolves (all_resolve_element E already i vs f n args)"
    "keeps evolves (settled_resolve_element E already i vs f n args)"
    "keeps evolves (settled_reject_element E already i vs f n args)"
    "keeps evolves (any_reject_element E already i vs f n args)"
  unfolding all_resolve_element_def settled_resolve_element_def settled_reject_element_def any_reject_element_def
    settled_element_def settled_object_def
  by (intro element_once_keeps evolving.basic object_intros keeps_intros resolve_with_values_keeps
      create_data_property_keeps assms)+

section \<open>The combinators\<close>

text \<open>
  What the elements of one combinator share: the cell of values, which has one for each element so far, and
  the counter.
\<close>

definition shared_ok :: "nat \<Rightarrow> nat \<Rightarrow> nat \<Rightarrow> 'x promise_world_scheme \<Rightarrow> bool" where
  "shared_ok index values remaining w \<longleftrightarrow>
     values < length (pw_values w) \<and> index \<le> length (pw_values w ! values) \<and> remaining < length (pw_counters w)"

lemma shared_stable: "persists (shared_ok i v n)"
  unfolding persists_def shared_ok_def
  by (meson cells_stayD(4,5,8) evolves_cells_stay less_le_trans order_trans)

lemma push_leads: "leads (shared_ok i v n) (push_value v x) (\<lambda>_. shared_ok (Suc i) v n)"
  unfolding leads_def
proof (intro allI impI conjI)
  fix w :: "'a promise_world_scheme" and r w' a
  assume w: "shared_ok i v n w" and run: "push_value v x w = Some (r, w')"
  show "evolves w w'" using push_value_keeps run by (rule keepsD)
  show "shared_ok (Suc i) v n w'"
    using w run by (auto simp: push_value_def run_bind_def read_cell_def write_cell_def shared_ok_def split: if_splits)
qed

lemma flag_leads: "persists I \<Longrightarrow> leads I (new_cell pw_flags pw_flags_update b) (\<lambda>a w. I w \<and> a < length (pw_flags w))"
  unfolding leads_def persists_def
proof (intro allI impI conjI)
  fix w :: "'a promise_world_scheme" and r w' a
  assume I: "\<forall>w w'. promise_wf w \<longrightarrow> I w \<longrightarrow> evolves w w' \<longrightarrow> I w'" and w: "promise_wf w" "I w"
    and run: "new_cell pw_flags pw_flags_update b w = Some (r, w')"
  show e: "evolves w w'" using cells_keep(2) run by (rule keepsD)
  show "I w'" using I w e by blast
  show "r = Inr a \<Longrightarrow> a < length (pw_flags w')" using run by (auto simp: new_cell_def)
qed

lemma build_leads:
  assumes "promise_engine_keeps E" "persists I" "\<And>w. I w \<Longrightarrow> closure_ok w c"
  shows "leads I (build_function E c n) (\<lambda>_. I)"
  unfolding leads_def
proof (intro allI impI conjI)
  fix w r w' a assume w: "promise_wf w" "I w" and run: "build_function E c n w = Some (r, w')"
  show e: "evolves w w'"
    by (rule build_function_run [OF assms(1) w(1) assms(3) [OF w(2)], of n "{}"]) (use run in auto)
  then show "I w'" using assms(2) w by (auto simp: persists_def)
qed

lemma flag_stable: "persists (\<lambda>w. shared_ok i v n w \<and> a < length (pw_flags w))"
  by (intro stable_conj shared_stable)
    (auto simp: persists_def dest!: cells_stayD(3) [OF evolves_cells_stay])

lemma flag_closure:
  "shared_ok (Suc i) v n w \<and> a < length (pw_flags w) \<Longrightarrow> element_ok w a i v n"
  by (auto simp: shared_ok_def)

lemma iteration_leads:
  assumes E: "promise_engine_keeps (E :: ('x promise_world_scheme, 'm, 'e) promise_engine_scheme)"
  shows "leads (shared_ok i v n) (all_iteration E c capability f v n i x) (\<lambda>_. shared_ok (Suc i) v n)"
    "leads (shared_ok i v n) (settled_iteration E c capability f v n i x) (\<lambda>_. shared_ok (Suc i) v n)"
    "leads (shared_ok i v n) (any_iteration E c capability f v n i x) (\<lambda>_. shared_ok (Suc i) v n)"
proof -
  have last: "leads (\<lambda>w. shared_ok (Suc i) v n w \<and> a < length (pw_flags w)) m (\<lambda>_. shared_ok (Suc i) v n)"
    if "keeps evolves m" for a and m :: "('x promise_world_scheme, unit) run"
    using leads_stable [OF that flag_stable] by (rule leads_mono) auto
  have build: "leads (\<lambda>w. shared_ok (Suc i) v n w \<and> a < length (pw_flags w))
      (run_bind (build_function E d 1) m) (\<lambda>_. shared_ok (Suc i) v n)"
    if "\<And>w :: 'x promise_world_scheme. element_ok w a i v n \<Longrightarrow> closure_ok w d" "\<And>g. leads (\<lambda>w. shared_ok (Suc i) v n w \<and> a < length (pw_flags w)) (m g)
      (\<lambda>_. shared_ok (Suc i) v n)" for a d and m :: "obj_addr \<Rightarrow> ('x promise_world_scheme, unit) run"
    by (rule leads_bind, rule build_leads [OF E flag_stable], rule that(1), erule flag_closure, rule that(2))
  note steps = leads_bind [OF push_leads] leads_step [OF evolving.call(1) [OF promise_engine_keepsD(1) [OF E]] shared_stable]
    leads_bind [OF flag_leads [OF shared_stable]]
  show "leads (shared_ok i v n) (all_iteration E c capability f v n i x) (\<lambda>_. shared_ok (Suc i) v n)"
    unfolding all_iteration_def
    by (rule steps)+ (rule build, simp, rule last, intro evolving.basic object_intros keeps_intros E)
  show "leads (shared_ok i v n) (any_iteration E c capability f v n i x) (\<lambda>_. shared_ok (Suc i) v n)"
    unfolding any_iteration_def
    by (rule steps)+ (rule build, simp, rule last, intro evolving.basic object_intros keeps_intros E)
  show "leads (shared_ok i v n) (settled_iteration E c capability f v n i x) (\<lambda>_. shared_ok (Suc i) v n)"
    unfolding settled_iteration_def
    by (rule steps)+ (rule build, simp, rule build, simp, rule last, intro evolving.basic object_intros keeps_intros E)
qed

lemma race_keeps: "promise_engine_keeps E \<Longrightarrow> keeps evolves (race_iteration E c capability f i x)"
  unfolding race_iteration_def by (intro evolving.basic object_intros; assumption)

text \<open>The loop, with a condition for each index that the iteration leads on: one round, and all of them.\<close>

lemma loop_round:
  fixes E :: "('x promise_world_scheme, 'm, 'e) promise_engine_scheme"
  assumes E: "promise_engine_keeps E" and I: "persists I"
    and it: "\<And>x. leads I (iteration x) (\<lambda>_. I')"
    and loop: "\<And>c y. I' (fst c) \<Longrightarrow> loop c = Some y \<Longrightarrow> on_first evolves c (snd y)"
    and w: "I (fst c)"
    and run: "run_bind (step_value E) (\<lambda>next c.
       case next of
         None \<Rightarrow> run_return () c
       | Some v \<Rightarrow>
           run_bind (in_iterator (run_bind (he_consume_loop_iterations E 1) (\<lambda>_. iteration v))) (\<lambda>_ c. loop c) c) c = Some y"
  shows "on_first evolves c (snd y)"
  unfolding on_first_def
proof (rule evolves_by_vacuous)
  assume wf: "promise_wf (fst c)"
  obtain rs w1 i1 where s: "step_value E c = Some (rs, (w1, i1))"
    using run by (cases "step_value E c") (auto simp: run_bind_def)
  then have e1: "evolves (fst c) w1"
    using keepsD [OF evolving.step_value [OF promise_engine_keepsD(1) [OF E]]] unfolding on_first_def by fastforce
  have w1: "promise_wf w1" "I w1" using e1 w wf I evolves_wf [OF e1 wf] unfolding persists_def by blast+
  consider "snd y = (w1, i1)"
    | v where "run_bind (in_iterator (run_bind (he_consume_loop_iterations E 1) (\<lambda>_. iteration v))) (\<lambda>_ c. loop c) (w1, i1) = Some y"
    using run s by (auto simp: run_bind_def run_return_def split: sum.splits option.splits)
  then show "evolves (fst c) (fst (snd y))"
  proof cases
    case 1
    then show ?thesis using e1 by simp
  next
    case 2
    define m where "m = run_bind (he_consume_loop_iterations E 1) (\<lambda>_. iteration v)"
    have b: "run_bind (in_iterator m) (\<lambda>_ c. loop c) (w1, i1) = Some y" using 2 by (simp add: m_def)
    then obtain r2 w2 where r2: "m w1 = Some (r2, w2)"
      by (cases "m w1") (auto simp: run_bind_def in_iterator_def)
    have "leads I m (\<lambda>_. I')"
      unfolding m_def by (rule leads_step [OF promise_engine_keepsD(6) [OF E] I it])
    then have e2: "evolves w1 w2 \<and> (\<forall>a. r2 = Inr a \<longrightarrow> I' w2)"
      using w1 r2 unfolding leads_def by blast
    have "snd y = (w2, i1) \<or> I' w2 \<and> loop (w2, i1) = Some y"
      using b r2 e2 by (cases r2) (auto simp: run_bind_def in_iterator_def)
    then have "evolves w2 (fst (snd y))"
      using loop [of "(w2, i1)" y] evolving.refl unfolding on_first_def by auto
    then show ?thesis using e1 e2 by (blast intro: evolving.trans)
  qed
qed

lemma loop_keeps:
  fixes E :: "('x promise_world_scheme, 'm, 'e) promise_engine_scheme"
  assumes E: "promise_engine_keeps E" and I: "\<And>i. persists (I i)"
    and it: "\<And>i x. leads (I i) (iteration i x) (\<lambda>_. I (Suc i))"
    and w: "I i (fst c)" and run: "combinator_loop E iteration i c = Some (r, c')"
  shows "on_first evolves c c'"
proof -
  have "promise_engine_keeps E \<longrightarrow> (\<forall>i x. leads (I i) (iteration i x) (\<lambda>_. I (Suc i))) \<longrightarrow> I i (fst c) \<longrightarrow>
      on_first evolves c (snd y)"
    if "combinator_loop E iteration i c = Some y" for c y and E :: "('x promise_world_scheme, 'm, 'e) promise_engine_scheme"
      and iteration i
    using that
  proof (rule combinator_loop.raw_induct [rotated])
    fix loop :: "('x promise_world_scheme, 'm, 'e) promise_engine_scheme \<Rightarrow>
        (nat \<Rightarrow> js_value \<Rightarrow> ('x promise_world_scheme, unit) run) \<Rightarrow> nat \<Rightarrow> ('x promise_world_scheme, unit) iterator_run"
      and E :: "('x promise_world_scheme, 'm, 'e) promise_engine_scheme" and iteration i c y
    assume IH: "\<And>E iteration i c y. loop E iteration i c = Some y \<Longrightarrow> promise_engine_keeps E \<longrightarrow>
        (\<forall>i x. leads (I i) (iteration i x) (\<lambda>_. I (Suc i))) \<longrightarrow> I i (fst c) \<longrightarrow> on_first evolves c (snd y)"
      and body: "run_bind (step_value E) (\<lambda>next c.
       case next of
         None \<Rightarrow> run_return () c
       | Some v \<Rightarrow>
           run_bind (in_iterator (run_bind (he_consume_loop_iterations E 1) (\<lambda>_. iteration i v)))
             (\<lambda>_ c. loop E iteration (Suc i) c) c) c = Some y"
    show "promise_engine_keeps E \<longrightarrow> (\<forall>i x. leads (I i) (iteration i x) (\<lambda>_. I (Suc i))) \<longrightarrow> I i (fst c) \<longrightarrow>
        on_first evolves c (snd y)"
    proof (intro impI)
      assume E: "promise_engine_keeps E" and it: "\<forall>i x. leads (I i) (iteration i x) (\<lambda>_. I (Suc i))" and w: "I i (fst c)"
      show "on_first evolves c (snd y)"
      proof (rule loop_round [OF E I _ _ w body])
        show "leads (I i) (iteration i x) (\<lambda>_. I (Suc i))" for x using it by blast
        show "on_first evolves c (snd y)" if "I (Suc i) (fst c)" "loop E iteration (Suc i) c = Some y" for c y
          using IH that E it by blast
      qed
    qed
  qed
  then show ?thesis using E it w run by fastforce
qed

text \<open>The performing of a combinator: its cells, the loop, and what finishes it.\<close>

lemma cells_run:
  assumes "(run_bind (in_iterator (new_cell pw_values pw_values_update [])) (\<lambda>v.
    run_bind (in_iterator (new_cell pw_counters pw_counters_update 1)) (\<lambda>n. m v n))) c = Some (r, c')"
  obtains w1 v n where "evolves (fst c) w1" "shared_ok 0 v n w1" "m v n (w1, snd c) = Some (r, c')"
proof -
  let ?w = "fst c"
  define w1 where "w1 = ?w\<lparr>pw_values := pw_values ?w @ [[]]\<rparr>"
  define w2 where "w2 = w1\<lparr>pw_counters := pw_counters w1 @ [1]\<rparr>"
  have r1: "new_cell pw_values pw_values_update [] ?w = Some (Inr (length (pw_values ?w)), w1)"
    and r2: "new_cell pw_counters pw_counters_update 1 w1 = Some (Inr (length (pw_counters w1)), w2)"
    by (simp_all add: new_cell_def w1_def w2_def)
  then have "evolves ?w w2"
    using keepsD [OF cells_keep(3) r1] keepsD [OF cells_keep(4) r2] by (blast intro: evolving.trans)
  moreover have "m (length (pw_values ?w)) (length (pw_counters w1)) (w2, snd c) = Some (r, c')"
    using assms r1 r2 by (cases c) (simp add: run_bind_def in_iterator_def)
  ultimately show ?thesis
    by (intro that) (simp_all add: shared_ok_def w1_def w2_def)
qed

lemma combinator_keeps:
  assumes E: "promise_engine_keeps (E :: ('x promise_world_scheme, 'm, 'e) promise_engine_scheme)"
    and it: "\<And>v n i x. leads (shared_ok i v n) (it v n i x) (\<lambda>_. shared_ok (Suc i) v n)"
    and fin: "\<And>v n. keeps (on_first evolves) (fin v n)"
  shows "keeps (on_first evolves) (run_bind (in_iterator (new_cell pw_values pw_values_update [])) (\<lambda>v.
    run_bind (in_iterator (new_cell pw_counters pw_counters_update 1)) (\<lambda>n.
    run_bind (combinator_loop E (it v n) 0) (\<lambda>_. fin v n))))"
proof
  fix c r c'
  assume "run_bind (in_iterator (new_cell pw_values pw_values_update [])) (\<lambda>v.
    run_bind (in_iterator (new_cell pw_counters pw_counters_update 1)) (\<lambda>n.
    run_bind (combinator_loop E (it v n) 0) (\<lambda>_. fin v n))) c = Some (r, c')"
  then show "on_first evolves c c'"
  proof (rule cells_run)
    fix w1 v n assume e: "evolves (fst c) w1" and s: "shared_ok 0 v n w1"
      and run: "run_bind (combinator_loop E (it v n) 0) (\<lambda>_. fin v n) (w1, snd c) = Some (r, c')"
    obtain rs c1 where l: "combinator_loop E (it v n) 0 (w1, snd c) = Some (rs, c1)"
      using run by (cases "combinator_loop E (it v n) 0 (w1, snd c)") (auto simp: run_bind_def)
    have e1: "on_first evolves (w1, snd c) c1"
      by (rule loop_keeps [OF E shared_stable it _ l]) (simp add: s)
    have "c' = c1 \<or> (\<exists>r'. fin v n c1 = Some (r', c'))"
      using run l by (cases rs) (auto simp: run_bind_def)
    then have "on_first evolves c1 c'"
      using keepsD [OF fin] evolving.refl unfolding on_first_def by blast
    then show "on_first evolves c c'"
      using e e1 by (auto simp: on_first_def intro: evolving.trans)
  qed
qed

lemma finish_keeps: "promise_engine_keeps E \<Longrightarrow> keeps evolves (finish_all E capability v n)"
  unfolding finish_all_def by (intro evolving.basic keeps_intros resolve_with_values_keeps)

lemma in_iterator_evolves: "keeps evolves m \<Longrightarrow> keeps (on_first evolves) (in_iterator m)"
  by (rule in_iterator_keeps)

lemma perform_keeps:
  assumes E: "promise_engine_keeps E"
  shows "keeps (on_first evolves) (perform_promise_all E c capability f)"
    "keeps (on_first evolves) (perform_promise_all_settled E c capability f)"
    "keeps (on_first evolves) (perform_promise_any E c capability f)"
    "keeps (on_first evolves) (perform_promise_race E c capability f)"
proof -
  show "keeps (on_first evolves) (perform_promise_all E c capability f)"
    unfolding perform_promise_all_def
    by (rule combinator_keeps [OF E iteration_leads(1) [OF E]]) (intro in_iterator_keeps finish_keeps E)
  show "keeps (on_first evolves) (perform_promise_all_settled E c capability f)"
    unfolding perform_promise_all_settled_def
    by (rule combinator_keeps [OF E iteration_leads(2) [OF E]]) (intro in_iterator_keeps finish_keeps E)
  show "keeps (on_first evolves) (perform_promise_any E c capability f)"
    unfolding perform_promise_any_def
    by (rule combinator_keeps [OF E iteration_leads(3) [OF E]])
      (intro evolving.ctx in_iterator_keeps keeps_intros promise_engine_keepsD(4) [OF E])
  have loop: "keeps (on_first evolves) (combinator_loop E (race_iteration E c capability f) 0)"
    unfolding keeps_def
    by (auto intro!: loop_keeps [OF E, where I = "\<lambda>_ _. True"] leads_stable race_keeps [OF E] simp: persists_def)
  show "keeps (on_first evolves) (perform_promise_race E c capability f)"
    unfolding perform_promise_race_def by (intro evolving.ctx loop)
qed

lemma if_abrupt_keeps:
  "promise_engine_keeps E \<Longrightarrow> (\<And>v. keeps evolves (k v)) \<Longrightarrow> keeps evolves (if_abrupt_reject_promise E r capability k)"
  unfolding if_abrupt_reject_promise_def by (intro evolving.basic object_intros; simp)

lemma close_keeps:
  assumes m: "keeps (on_first evolves) m"
    and f: "\<And>v. keeps evolves (f v)" and g: "\<And>e i. keeps evolves (g e i)"
  shows "keeps evolves (\<lambda>w. case m (w, i) of
      None \<Rightarrow> None
    | Some (Inr v, (w, _)) \<Rightarrow> f v w
    | Some (Inl e, (w, i)) \<Rightarrow> g e i w)"
proof
  fix w r w'
  assume "(case m (w, i) of None \<Rightarrow> None | Some (Inr v, (w, _)) \<Rightarrow> f v w | Some (Inl e, (w, i)) \<Rightarrow> g e i w) = Some (r, w')"
  then obtain rs w1 i1 where 1: "m (w, i) = Some (rs, (w1, i1))"
    and 2: "(case rs of Inr v \<Rightarrow> f v w1 | Inl e \<Rightarrow> g e i1 w1) = Some (r, w')"
    by (cases "m (w, i)") (auto split: sum.splits)
  have "evolves w w1" using keepsD [OF m 1] by (simp add: on_first_def)
  moreover have "evolves w1 w'" using 2 keepsD [OF f] keepsD [OF g] by (cases rs) auto
  ultimately show "evolves w w'" by (rule evolving.trans)
qed

lemma promise_combinator_keeps:
  assumes E: "promise_engine_keeps E" and perform: "\<And>c capability f. keeps (on_first evolves) (perform c capability f)"
  shows "keeps evolves (promise_combinator E perform this args)"
  unfolding promise_combinator_def get_promise_resolve_def
  by (intro evolving.bind evolving.attempt evolving.throw evolving.return keeps_cases static_receiver_keeps
      if_abrupt_keeps close_keeps perform object_intros E)

section \<open>The keyed combinators\<close>

lemma must_keeps: "keeps evolves m \<Longrightarrow> keeps evolves (run_must m)"
  unfolding run_must_def by (intro evolving.basic)

lemma create_properties_keeps: "promise_engine_keeps E \<Longrightarrow> keeps evolves (create_properties E a entries)"
  by (induction entries rule: create_properties.induct [of _ E a])
    (simp_all add: evolving.return evolving.bind must_keeps create_data_property_keeps)

lemma keyed_object_keeps:
  assumes E: "promise_engine_keeps E"
  shows "keeps evolves (create_keyed_result_object E ks vs)" "keeps evolves (resolve_with_keyed E k v f)"
    "keeps evolves (settled_object E status field x)"
  unfolding create_keyed_result_object_def resolve_with_keyed_def settled_object_def
  by (intro evolving.basic object_intros keeps_intros create_properties_keeps create_data_property_keeps E)+

lemma keyed_element_keeps:
  assumes E: "promise_engine_keeps E"
  shows "keeps evolves (keyed_resolve_element E already i variant k v f n args)"
    "keeps evolves (keyed_reject_element E already i variant k v f n args)"
  unfolding keyed_resolve_element_def keyed_reject_element_def keyed_element_def
  by (intro element_once_keeps evolving.basic keeps_intros keyed_object_keeps E)+

definition keyed_ok :: "nat \<Rightarrow> nat \<Rightarrow> nat \<Rightarrow> nat \<Rightarrow> 'x promise_world_scheme \<Rightarrow> bool" where
  "keyed_ok keys index values remaining = (\<lambda>w. shared_ok index values remaining w \<and> keys < length (pw_keys w))"

lemma keys_stable: "persists (\<lambda>w. k < length (pw_keys w))"
  unfolding persists_def by (meson cells_stayD(9) evolves_cells_stay less_le_trans)

lemma keyed_stable: "persists (keyed_ok k i v n)"
  unfolding keyed_ok_def by (rule stable_conj [OF shared_stable keys_stable])

lemma keyed_push: "leads (keyed_ok k i v n) (push_value v x) (\<lambda>_. keyed_ok k (Suc i) v n)"
  unfolding keyed_ok_def by (rule leads_conj [OF push_leads keys_stable])

lemma keyed_iteration_leads:
  assumes E: "promise_engine_keeps (E :: ('x promise_world_scheme, 'm, 'e) promise_engine_scheme)"
  shows "leads (keyed_ok k i v n) (keyed_iteration E variant p c capability f k v n i x) (\<lambda>_. keyed_ok k (Suc i) v n)"
proof -
  define J :: "nat \<Rightarrow> 'x promise_world_scheme \<Rightarrow> bool" where
    "J = (\<lambda>a w. keyed_ok k (Suc i) v n w \<and> a < length (pw_flags w))"
  have J: "persists (J a)" for a
    unfolding J_def by (intro stable_conj keyed_stable) (auto simp: persists_def dest!: cells_stayD(3) [OF evolves_cells_stay])
  have flag: "leads (keyed_ok k (Suc i) v n) (new_cell pw_flags pw_flags_update False) J"
    unfolding J_def by (rule flag_leads [OF keyed_stable])
  have closures: "J a w \<Longrightarrow> closure_ok w (KeyedResolveElement a i variant k v g n)"
    "J a w \<Longrightarrow> closure_ok w (KeyedRejectElement a i variant k v g n)" for a w g
    by (simp_all add: J_def keyed_ok_def shared_ok_def)
  have resolve: "leads (J a) (build_function E (KeyedResolveElement a i variant k v g n) 1) (\<lambda>_. J a)" for a g
    by (rule build_leads [OF E J]) (rule closures)
  have reject: "leads (J a) (if variant = KeyedAll then run_return g
      else build_function E (KeyedRejectElement a i variant k v h n) 1) (\<lambda>_. J a)" for a g h
    by (cases "variant = KeyedAll") (simp_all add: leads_stable [OF evolving.return J] build_leads [OF E J closures(2)])
  have last: "leads (J a) m (\<lambda>_. keyed_ok k (Suc i) v n)" if "keeps evolves m" for a and m :: "('x promise_world_scheme, unit) run"
    using leads_stable [OF that J [of a]] by (rule leads_mono) (auto simp: J_def)
  note engine = promise_engine_keepsD(1) [OF E]
  show ?thesis
    unfolding keyed_iteration_def
    by (rule leads_step [OF evolving.object_get [OF engine] keyed_stable] leads_step [OF push_key_keeps keyed_stable]
        leads_bind [OF keyed_push] leads_step [OF evolving.call(1) [OF engine] keyed_stable] leads_bind [OF flag]
        leads_bind [OF resolve] leads_bind [OF reject])+
      (rule last, intro evolving.basic object_intros keeps_intros E)
qed

lemma keyed_loop_leads:
  assumes E: "promise_engine_keeps E" and I: "\<And>i. persists (I i)"
    and it: "\<And>i key. leads (I i) (iteration i key) (\<lambda>_. I (Suc i))"
  shows "leads (I i) (keyed_loop E p iteration i keys) (\<lambda>_ _. True)"
proof (induction keys arbitrary: i)
  case Nil
  have "leads (I i) (run_return ()) (\<lambda>_. I i)" by (rule leads_stable [OF evolving.return I])
  then show ?case by (simp add: leads_def)
next
  case (Cons key keys)
  have own: "keeps evolves (property_context_new (get_own_property E p key))"
    by (intro evolving.lifted evolving.own_property promise_engine_keepsD(1) [OF E])
  have some: "leads (I i) (run_bind (run_unwrap b) (\<lambda>enumerable.
      if enumerable then run_bind (iteration i key) (\<lambda>_. keyed_loop E p iteration (Suc i) keys)
      else keyed_loop E p iteration i keys)) (\<lambda>_ _. True)" for b
  proof (rule leads_step [OF evolving.unwrap I])
    fix enumerable
    show "leads (I i) (if enumerable then run_bind (iteration i key) (\<lambda>_. keyed_loop E p iteration (Suc i) keys)
      else keyed_loop E p iteration i keys) (\<lambda>_ _. True)"
      using leads_bind [OF it Cons.IH] Cons.IH by simp
  qed
  show ?case
    unfolding keyed_loop.simps
  proof (rule leads_step [OF own I])
    fix desc
    show "leads (I i) (case desc of None \<Rightarrow> keyed_loop E p iteration i keys
       | Some desc \<Rightarrow> run_bind (run_unwrap (pd_enumerable desc)) (\<lambda>enumerable.
             if enumerable then run_bind (iteration i key) (\<lambda>_. keyed_loop E p iteration (Suc i) keys)
             else keyed_loop E p iteration i keys)) (\<lambda>_ _. True)"
      using some Cons.IH by (cases desc) simp_all
  qed
qed

text \<open>The cells of a keyed combinator, and what runs after them.\<close>

lemma keyed_cells:
  fixes m :: "nat \<Rightarrow> nat \<Rightarrow> nat \<Rightarrow> ('x promise_world_scheme, 'a) run"
  assumes "\<And>k v n. leads (keyed_ok k 0 v n) (m k v n) (\<lambda>_ _. True)"
  shows "leads (\<lambda>_. True) (run_bind (new_cell pw_keys pw_keys_update []) (\<lambda>k.
    run_bind (new_cell pw_values pw_values_update []) (\<lambda>v.
    run_bind (new_cell pw_counters pw_counters_update 1) (\<lambda>n. m k v n)))) (\<lambda>_ _. True)"
  unfolding leads_def
proof (intro allI impI)
  fix w r and w' :: "'x promise_world_scheme"
  assume wf: "promise_wf w" and run: "run_bind (new_cell pw_keys pw_keys_update []) (\<lambda>k.
    run_bind (new_cell pw_values pw_values_update []) (\<lambda>v.
    run_bind (new_cell pw_counters pw_counters_update 1) (\<lambda>n. m k v n))) w = Some (r, w')"
  define w1 where "w1 = w\<lparr>pw_keys := pw_keys w @ [[]]\<rparr>"
  define w2 where "w2 = w1\<lparr>pw_values := pw_values w1 @ [[]]\<rparr>"
  define w3 where "w3 = w2\<lparr>pw_counters := pw_counters w2 @ [1]\<rparr>"
  have c: "new_cell pw_keys pw_keys_update [] w = Some (Inr (length (pw_keys w)), w1)"
    "new_cell pw_values pw_values_update [] w1 = Some (Inr (length (pw_values w)), w2)"
    "new_cell pw_counters pw_counters_update 1 w2 = Some (Inr (length (pw_counters w)), w3)"
    by (simp_all add: new_cell_def w1_def w2_def w3_def)
  then have e: "evolves w w3"
    using keepsD [OF cells_keep(5) c(1)] keepsD [OF cells_keep(3) c(2)] keepsD [OF cells_keep(4) c(3)]
    by (blast intro: evolving.trans)
  have "keyed_ok (length (pw_keys w)) 0 (length (pw_values w)) (length (pw_counters w)) w3"
    by (simp add: keyed_ok_def shared_ok_def w1_def w2_def w3_def)
  moreover have "m (length (pw_keys w)) (length (pw_values w)) (length (pw_counters w)) w3 = Some (r, w')"
    using run c by (simp add: run_bind_def)
  ultimately have "evolves w3 w'"
    using assms evolves_wf [OF e wf] unfolding leads_def by blast
  then show "evolves w w' \<and> (\<forall>a. r = Inr a \<longrightarrow> True)" using e by (blast intro: evolving.trans)
qed

lemma perform_keyed_keeps:
  assumes E: "promise_engine_keeps E"
  shows "keeps evolves (perform_promise_all_keyed E variant p c capability f)"
  unfolding perform_promise_all_keyed_def
proof (rule evolving.bind [OF evolving.own_keys [OF promise_engine_keepsD(1) [OF E]]], rule leads_keeps, rule keyed_cells)
  fix all_keys k v n
  let ?finish = "run_bind (add_remaining n (- 1)) (\<lambda>m.
     run_bind (if m = 0 then resolve_with_keyed E k v (rf_resolve (pc_functions capability)) else run_return VUndefined)
       (\<lambda>_. run_return (VObject (pc_promise capability))))"
  have "keeps evolves ?finish"
    by (intro evolving.basic keeps_intros keyed_object_keeps E)
  then have "leads (\<lambda>_. True) ?finish (\<lambda>_ _. True)"
    by (auto simp: leads_def keeps_def)
  then show "leads (keyed_ok k 0 v n) (run_bind (keyed_loop E p (keyed_iteration E variant p c capability f k v n) 0 all_keys)
      (\<lambda>_. ?finish)) (\<lambda>_ _. True)"
    by (rule leads_bind [OF keyed_loop_leads [where I = "\<lambda>i. keyed_ok k i v n", OF E keyed_stable keyed_iteration_leads [OF E]]])
qed

lemma keyed_common_keeps:
  assumes E: "promise_engine_keeps E"
  shows "keeps evolves (keyed_common E this args variant)"
  unfolding keyed_common_def get_promise_resolve_def
  by (intro evolving.basic if_abrupt_keeps object_intros perform_keyed_keeps E)

section \<open>The engine\<close>

lemma native_body_keeps:
  assumes E: "promise_engine_keeps E"
  shows "keeps evolves (native_body E c this args)"
proof (cases c)
qed (simp_all add: promise_all_def promise_all_settled_def promise_any_def promise_race_def
    promise_all_keyed_def promise_all_settled_keyed_def keyed_common_keeps keyed_element_keeps
    promise_combinator_keeps perform_keeps promise_constructor_keeps promise_then_keeps static_keeps
    finally_keeps get_species_def capability_executor_keeps resolve_function_keeps reject_function_keeps element_keeps
    evolving.return evolving.throw E)

lemma native_keeps:
  assumes E: "promise_engine_keeps E"
  shows "keeps evolves (native_function_call E f this args)" "keeps evolves (native_function_construct E f args c)"
  unfolding native_function_call_def native_function_construct_def
  by (intro evolving.basic in_realm_keeps native_body_keeps prototype_keeps shared_object_keeps
      promise_engine_keepsD(5) E)+

theorem with_natives_keeps:
  assumes U: "promise_engine_keeps U" and D: "promise_engine_keeps D"
  shows "promise_engine_keeps (with_natives U D)"
proof -
  have new: "keeps evolves (\<lambda>w. if nf_constructor nf then native_function_construct D nf args c w else run_throw TypeError w)"
    for nf args c
    by (cases "nf_constructor nf") (simp_all add: native_keeps(2) [OF D] evolving.throw)
  have "keeps evolves (\<lambda>w. case pw_functions w f of None \<Rightarrow> m w | Some nf \<Rightarrow> g nf w)"
    if "keeps evolves m" "\<And>nf. keeps evolves (g nf)" for f and m :: "('a promise_world_scheme, 'r) run" and g
    using that by (auto simp: keeps_def split: option.splits)
  note cases = this
  have "keeps evolves (en_call (with_natives U D) f this args)" for f this args
    unfolding with_natives_def
    by (simp, intro cases native_keeps(1) [OF D] evolving.call(1) [OF promise_engine_keepsD(1) [OF U]])
  moreover have "keeps evolves (pe_construct (with_natives U D) f args c)" for f args c
    unfolding with_natives_def
    by (simp, intro cases new promise_engine_keepsD(2) [OF U])
  ultimately show ?thesis
    using U unfolding promise_engine_keeps_def engine_keeps_def by (simp add: with_natives_def)
qed

theorem engine_at_keeps:
  assumes "promise_engine_keeps B" "\<And>D. promise_engine_keeps D \<Longrightarrow> promise_engine_keeps (U D)"
  shows "promise_engine_keeps (engine_at B U n)"
  by (induction n) (simp_all add: assms with_natives_keeps)

end
