(* ===== verification/JobFacts.thy ===== *)
theory JobFacts
  imports JobQueue PromiseEngine
begin

text \<open>
  Running the jobs: when it ends no job is left, and over it the promises of the engine stay well-formed
  and the settled ones as they are.
\<close>

lemma run_bind_gets: "run_bind (run_gets g) f w = f (g w) w"
  by (simp add: run_bind_def run_gets_def)

lemma run_bind_value: "run_bind (run_return a) f = f a"
  by (simp add: run_bind_def run_return_def fun_eq_iff)

lemma run_bind_throw: "run_bind (run_throw e) f w = Some (Inl e, w)"
  by (simp add: run_bind_def run_throw_def)

lemma run_bind_modify: "run_bind (run_modify h) f w = f () (h w)"
  by (simp add: run_bind_def run_modify_def)

lemmas run_bind_simple = run_bind_gets run_bind_value run_bind_throw run_bind_modify

section \<open>Clearing\<close>

lemma revoke_run: "token_revoke t w = Some (r, w') \<Longrightarrow> \<exists>ts. r = Inr () \<and> w' = w\<lparr>jw_tokens := ts\<rparr>"
  by (auto simp: token_revoke_def token_take_def run_bind_def run_return_def split: if_splits)

lemma drop_run: "drop_clock_jobs js w = Some (r, w') \<Longrightarrow> \<exists>ts. r = Inr () \<and> w' = w\<lparr>jw_tokens := ts\<rparr>"
proof (induction js arbitrary: w)
  case Nil
  then have "r = Inr () \<and> w' = w\<lparr>jw_tokens := jw_tokens w\<rparr>" by (simp add: run_evaluate)
  then show ?case by blast
next
  case (Cons j js)
  obtain r1 w1 where 1: "token_revoke (clock_job_token j) w = Some (r1, w1)"
    using Cons.prems by (cases "token_revoke (clock_job_token j) w") (auto simp: run_bind_def)
  then obtain ts where "r1 = Inr ()" "w1 = w\<lparr>jw_tokens := ts\<rparr>" using revoke_run by blast
  then show ?case
    using Cons.IH [of w1] Cons.prems 1 by (auto simp: run_bind_def)
qed

lemma clear_run:
  assumes "clear_jobs w = Some (r, w')"
  shows "r = Inr () \<and> queued_jobs_empty w' \<and>
    (\<exists>ts. w' = w\<lparr>pw_jobs := [], jw_clock_jobs := [], jw_generic_jobs := [], jw_tokens := ts\<rparr>)"
proof -
  have "drop_clock_jobs (concat (map snd (jw_clock_jobs w)))
      (w\<lparr>pw_jobs := [], jw_clock_jobs := [], jw_generic_jobs := []\<rparr>) = Some (r, w')"
    using assms by (simp add: clear_jobs_def run_bind_simple)
  then show ?thesis
    using drop_run by (fastforce simp: queued_jobs_empty_def immediate_jobs_empty_def)
qed

lemma bail_run:
  assumes "bail js e w = Some (r, w')"
  shows "r = Inl e \<and> queued_jobs_empty w' \<and>
    (\<exists>ts. w' = w\<lparr>pw_jobs := [], jw_clock_jobs := [], jw_generic_jobs := [], jw_tokens := ts\<rparr>)"
proof -
  obtain r1 w1 where 1: "clear_jobs w = Some (r1, w1)"
    using assms by (cases "clear_jobs w") (auto simp: bail_def run_bind_def)
  then obtain ts where c: "r1 = Inr ()" "w1 = w\<lparr>pw_jobs := [], jw_clock_jobs := [], jw_generic_jobs := [], jw_tokens := ts\<rparr>"
    using clear_run by blast
  obtain r2 w2 where 2: "drop_clock_jobs js w1 = Some (r2, w2)"
    using assms 1 c(1) by (cases "drop_clock_jobs js w1") (auto simp: bail_def run_bind_def)
  then obtain ts' where d: "r2 = Inr ()" "w2 = w1\<lparr>jw_tokens := ts'\<rparr>"
    using drop_run by blast
  have "r = Inl e" "w' = w2"
    using assms 1 2 c(1) d(1) by (auto simp: bail_def run_bind_def run_throw_def)
  then show ?thesis
    using c(2) d(2) by (auto simp: queued_jobs_empty_def immediate_jobs_empty_def)
qed

section \<open>Errors clear the queues\<close>

definition clears :: "(('j, 'x) jworld, 'a) run \<Rightarrow> bool" where
  "clears m \<longleftrightarrow> (\<forall>w e w'. m w = Some (Inl e, w') \<longrightarrow> queued_jobs_empty w')"

lemma clears_bind: "clears m \<Longrightarrow> (\<And>a. clears (f a)) \<Longrightarrow> clears (run_bind m f)"
  unfolding clears_def run_bind_Some by blast

lemma clears_basic:
  "clears (run_return a)" "clears (run_gets g)" "clears (run_modify h)" "clears (run_try m)" "clears (clock_now E)"
  "clears clear_jobs" "clears (bail js e)" "clears take_promise_jobs" "clears take_generic_jobs" "clears (take_due_jobs n)"
  "clears (push_clock_job n d j)"
  using clear_run bail_run
  by (fastforce simp: clears_def run_evaluate run_try_def clock_now_def take_promise_jobs_def take_generic_jobs_def
      take_due_jobs_def push_clock_job_def run_bind_def run_unwrap_def Let_def split: prod.splits option.splits)+

lemma clears_cases:
  "clears m \<Longrightarrow> clears m' \<Longrightarrow> clears (if b then m else m')"
  "(\<And>e. clears (f e)) \<Longrightarrow> (\<And>a. clears (g a)) \<Longrightarrow> clears (case x of Inl e \<Rightarrow> f e | Inr a \<Rightarrow> g a)"
  "(\<And>t. clears (k t)) \<Longrightarrow> (\<And>i. clears (l i)) \<Longrightarrow> clears (case j of Timeout t \<Rightarrow> k t | Interval i \<Rightarrow> l i)"
  by (auto split: sum.split clock_job.split)

lemma clears_due: "clears (run_due_jobs E js)"
  by (induction js) (auto intro!: clears_bind clears_basic clears_cases)

lemma clears_batch: "clears (run_batch call js)"
  by (induction js) (auto intro!: clears_bind clears_basic clears_cases)

lemma clears_pass: "clears (scheduler_pass E)"
  unfolding scheduler_pass_def dispatch_clock_jobs_def
  by (intro clears_bind clears_basic clears_cases clears_due clears_batch)

lemma pass_done:
  assumes "scheduler_pass E w = Some (Inr True, w')"
  shows "queued_jobs_empty w'"
proof (cases "jw_stop w")
  case True
  then show ?thesis
    using assms clear_run
    by (fastforce simp: scheduler_pass_def run_bind_simple run_bind_Some run_evaluate)
next
  case False
  then show ?thesis
    using assms by (auto simp: scheduler_pass_def run_bind_simple run_bind_Some run_evaluate split: if_splits)
qed

lemma run_jobs_end:
  assumes "run_jobs E w = Some (r, w')"
  shows "queued_jobs_empty w'"
proof -
  have "queued_jobs_empty (snd y)" if "run_jobs E w = Some y" for w y and E :: "(('a, 'b) jworld, 'c, 'a, 'd) job_engine_scheme"
    using that
  proof (rule run_jobs.raw_induct [rotated])
    fix run :: "(('a, 'b) jworld, 'c, 'a, 'd) job_engine_scheme \<Rightarrow> (('a, 'b) jworld, unit) run" and E w y
    assume IH: "\<And>E w y. run E w = Some y \<Longrightarrow> queued_jobs_empty (snd y)"
      and body: "run_bind (scheduler_pass E) (\<lambda>done w. if done then run_return () w else run E w) w = Some y"
    obtain r w' where y: "y = (r, w')" by (cases y)
    show "queued_jobs_empty (snd y)"
      using body clears_pass pass_done IH unfolding y run_bind_Some clears_def
      by (fastforce simp: run_evaluate split: if_splits)
  qed
  then show ?thesis using assms by fastforce
qed

lemma run_until_stalled_end:
  assumes "run_until_stalled E w = Some (r, w')"
  shows "immediate_jobs_empty w' \<and> ((\<exists>e. r = Inl e) \<longrightarrow> queued_jobs_empty w')"
proof -
  have "immediate_jobs_empty (snd y) \<and> ((\<exists>e. fst y = Inl e) \<longrightarrow> queued_jobs_empty (snd y))"
    if "run_until_stalled E w = Some y" for w y and E :: "(('a, 'b) jworld, 'c, 'a, 'd) job_engine_scheme"
    using that
  proof (rule run_until_stalled.raw_induct [rotated])
    fix run :: "(('a, 'b) jworld, 'c, 'a, 'd) job_engine_scheme \<Rightarrow> (('a, 'b) jworld, unit) run" and E w y
    assume IH: "\<And>E w y. run E w = Some y \<Longrightarrow>
        immediate_jobs_empty (snd y) \<and> ((\<exists>e. fst y = Inl e) \<longrightarrow> queued_jobs_empty (snd y))"
      and body: "run_bind (scheduler_pass E) (\<lambda>done w. if done then run_return () w
        else if immediate_jobs_empty w then run_return () w else run E w) w = Some y"
    obtain r w' where y: "y = (r, w')" by (cases y)
    have q: "queued_jobs_empty w \<Longrightarrow> immediate_jobs_empty w" for w :: "('a, 'b) jworld"
      by (simp add: queued_jobs_empty_def)
    show "immediate_jobs_empty (snd y) \<and> ((\<exists>e. fst y = Inl e) \<longrightarrow> queued_jobs_empty (snd y))"
      using body clears_pass pass_done IH q unfolding y run_bind_Some clears_def
      by (fastforce simp: run_evaluate split: if_splits)
  qed
  then show ?thesis using assms by fastforce
qed

lemma run_until_stalled_status:
  assumes "run_jobs_until_stalled E w = Some (r, w')"
  shows "immediate_jobs_empty w' \<and> (r = Inr PendingJobs \<longleftrightarrow> jw_clock_jobs w' \<noteq> [])"
proof -
  consider e where "run_until_stalled E w = Some (Inl e, w')" "r = Inl e"
    | "run_until_stalled E w = Some (Inr (), w')" "r = Inr (if queued_jobs_empty w' then Complete else PendingJobs)"
    using assms by (auto simp: run_jobs_until_stalled_def run_bind_Some run_evaluate)
  then show ?thesis
    using run_until_stalled_end by cases (fastforce simp: queued_jobs_empty_def)+
qed

section \<open>The promises over the jobs\<close>

text \<open>
  What running jobs keeps: the jobs leave the queue and the promises they own are settled or given away
  when they run, or stay pending when an error drops them.
\<close>

definition advances :: "'x promise_world_scheme \<Rightarrow> 'x promise_world_scheme \<Rightarrow> bool" where
  "advances w w' \<longleftrightarrow> (promise_wf w \<longrightarrow> promise_wf w' \<and> settled_stay w w' \<and> cells_stay w w')"

interpretation advancing: keeping advances
  by unfold_locales
    (auto simp: advances_def settled_stay_refl cells_stay_refl intro: settled_stay_trans cells_stay_trans)

lemma evolves_advances: "evolves_by P w w' \<Longrightarrow> advances w w'"
  by (simp add: evolves_by_def advances_def)

lemma keeps_advances: "keeps evolves m \<Longrightarrow> keeps advances m"
  by (auto simp: keeps_def intro: evolves_advances)

lemma fewer_jobs_advance:
  assumes "pw_promises w' = pw_promises w" "pw_functions w' = pw_functions w" "pw_resolvers w' = pw_resolvers w"
    "pw_capabilities w' = pw_capabilities w" "pw_flags w' = pw_flags w" "pw_values w' = pw_values w"
    "pw_counters w' = pw_counters w" "pw_keys w' = pw_keys w" "ow_objects w' = ow_objects w" "pw_jobs w' = [] \<or> pw_jobs w' = pw_jobs w"
  shows "advances w w'"
proof -
  have o: "set (owners w') \<subseteq> set (owners w)" "distinct (owners w) \<Longrightarrow> distinct (owners w')"
    using assms(3,10) by (auto simp: owners_def)
  have p: "pending w' = pending w" "closure_ok w' c = closure_ok w c" for c
    by (rule pending_same closure_ok_same; simp add: assms)+
  have "promise_wf w'" if "promise_wf w"
    using that o unfolding promise_wf_def p assms(1,2,9) by blast
  then show ?thesis
    using assms by (simp add: advances_def settled_stay_def cells_stay_def)
qed

lemma queues_advance:
  "advances w (w\<lparr>jw_tokens := ts\<rparr>)" "advances w (w\<lparr>jw_clock_jobs := cs\<rparr>)" "advances w (w\<lparr>jw_generic_jobs := gs\<rparr>)"
  "advances w (w\<lparr>jw_stop := b\<rparr>)" "advances w (w\<lparr>pw_jobs := []\<rparr>)"
  "advances w (w\<lparr>pw_jobs := [], jw_clock_jobs := cs, jw_generic_jobs := gs, jw_tokens := ts\<rparr>)"
  by (rule fewer_jobs_advance; simp)+

text \<open>What the engine of the jobs keeps.\<close>

definition job_engine_keeps :: "(('j, 'x) jworld, 'm, 'j, 'e) job_engine_scheme \<Rightarrow> bool" where
  "job_engine_keeps E \<longleftrightarrow>
     promise_engine_keeps E \<and> (\<forall>f. keeps evolves (je_native E f)) \<and> (\<forall>w. evolves w (snd (je_now E w)))"

lemma native_job_keeps: "job_engine_keeps E \<Longrightarrow> keeps evolves (native_job_call E job)"
  unfolding native_job_call_def job_engine_keeps_def
  by (auto split: option.split intro: in_realm_keeps)

lemma queue_steps_advance:
  "keeps advances clear_jobs" "keeps advances (bail js e)" "keeps advances (token_revoke t)"
  "keeps advances (push_clock_job n d j)" "keeps advances (take_due_jobs n)" "keeps advances take_generic_jobs"
  "keeps advances take_promise_jobs" "keeps advances (run_modify (\<lambda>w. w\<lparr>jw_stop := b\<rparr>))"
  using queues_advance
  by (auto simp: keeps_def push_clock_job_def run_bind_Some run_evaluate run_unwrap_def take_due_jobs_def Let_def
      take_generic_jobs_def take_promise_jobs_def advancing.refl split: option.splits
      dest!: clear_run bail_run revoke_run)

lemma clock_advances: "job_engine_keeps E \<Longrightarrow> keeps advances (clock_now E)"
  unfolding keeps_def clock_now_def job_engine_keeps_def
  by (auto split: prod.splits) (metis evolves_advances snd_conv)

lemma timeout_advances: "job_engine_keeps E \<Longrightarrow> keeps advances (timeout_job_call E t)"
  unfolding timeout_job_call_def
  by (intro advancing.basic queue_steps_advance keeps_advances [OF native_job_keeps])

lemma due_advances: "job_engine_keeps E \<Longrightarrow> keeps advances (run_due_jobs E js)"
proof (induction js)
  case (Cons j js)
  then show ?case
    by (cases j) (auto simp: interval_job_call_def intro!: advancing.basic queue_steps_advance timeout_advances clock_advances
        keeps_advances [OF native_job_keeps])
qed (simp add: advancing.return)

lemma generic_advances: "job_engine_keeps E \<Longrightarrow> keeps advances (run_batch (native_job_call E) js)"
  by (induction js) (auto intro!: advancing.basic queue_steps_advance keeps_advances [OF native_job_keeps])

text \<open>Jobs out of the queue: their promises wait for them.\<close>

definition waits :: "promise_job list \<Rightarrow> 'x promise_world_scheme \<Rightarrow> bool" where
  "waits js w \<longleftrightarrow>
     distinct (somes (map job_owns js)) \<and> (\<forall>p \<in> set (somes (map job_owns js)). pending w p \<and> p \<notin> set (owners w))"

lemma waits_step:
  assumes w: "promise_wf w" "waits (j # js) w" and e: "evolves_by (set_option (job_owns j)) w w'"
  shows "waits js w'"
  using assms by (cases "job_owns j") (auto simp: waits_def evolves_by_def unowned_wait_def)

lemma promise_job_evolves:
  assumes E: "promise_engine_keeps E" and w: "promise_wf w" "waits (j # js) w"
    and run: "run_promise_job E j w = Some (r, w')"
  shows "evolves_by (set_option (job_owns j)) w w'"
proof (cases "job_owns j")
  case None
  then show ?thesis using keepsD [OF job_keeps [OF E None] run] by simp
next
  case (Some p)
  then show ?thesis
    using job_owning [OF E Some] run w by (simp add: keeps_owning_def waits_def)
qed

lemma batch_advances:
  assumes E: "promise_engine_keeps E"
  shows "promise_wf w \<Longrightarrow> waits js w \<Longrightarrow> run_batch (run_promise_job E) js w = Some (r, w') \<Longrightarrow> advances w w'"
proof (induction js arbitrary: w)
  case Nil
  then show ?case by (simp add: run_evaluate advancing.refl)
next
  case (Cons j js)
  obtain r1 w1 where 1: "run_promise_job E j w = Some (r1, w1)"
    using Cons.prems(3) by (cases "run_promise_job E j w") (auto simp: run_bind_def run_try_def)
  have e: "evolves_by (set_option (job_owns j)) w w1"
    using promise_job_evolves [OF E Cons.prems(1,2) 1] .
  have w1: "promise_wf w1" "waits js w1"
    using evolves_wf [OF e] waits_step [OF _ _ e] Cons.prems(1,2) by blast+
  have "advances w1 w'"
  proof (cases r1)
    case (Inl e)
    then have "bail [] e w1 = Some (r, w')" using Cons.prems(3) 1 by (simp add: run_bind_def run_try_def)
    then show ?thesis by (rule keepsD [OF queue_steps_advance(2)])
  next
    case (Inr v)
    then show ?thesis using Cons.IH [OF w1] Cons.prems(3) 1 by (simp add: run_bind_def run_try_def)
  qed
  then show ?case using advancing.trans [OF evolves_advances [OF e]] by blast
qed

lemma promise_jobs_advance:
  assumes E: "promise_engine_keeps E"
  shows "keeps advances (run_bind take_promise_jobs (run_batch (run_promise_job E)))"
proof
  fix w r w'
  assume run: "run_bind take_promise_jobs (run_batch (run_promise_job E)) w = Some (r, w')"
  show "advances w w'"
  proof (cases "promise_wf w")
    case True
    have b: "run_batch (run_promise_job E) (pw_jobs w) (w\<lparr>pw_jobs := []\<rparr>) = Some (r, w')"
      using run by (simp add: run_bind_def take_promise_jobs_def)
    have o: "owners w = somes (pw_resolvers w) @ somes (map job_owns (pw_jobs w))"
      "owners (w\<lparr>pw_jobs := []\<rparr>) = somes (pw_resolvers w)" "pending (w\<lparr>pw_jobs := []\<rparr>) = pending w"
      by (simp_all add: owners_def pending_def fun_eq_iff)
    have "waits (pw_jobs w) (w\<lparr>pw_jobs := []\<rparr>)"
      using True unfolding promise_wf_def waits_def o by auto
    moreover have "promise_wf (w\<lparr>pw_jobs := []\<rparr>)"
      using queues_advance(5) True by (auto simp: advances_def)
    ultimately show ?thesis
      using batch_advances [OF E _ _ b] queues_advance(5) advancing.trans by blast
  qed (simp add: advances_def)
qed

lemma pass_advances:
  assumes E: "job_engine_keeps E"
  shows "keeps advances (scheduler_pass E)"
proof -
  have p: "promise_engine_keeps E" using E by (simp add: job_engine_keeps_def)
  have "keeps advances (run_bind take_promise_jobs (\<lambda>jobs. run_bind (run_batch (run_promise_job E) jobs) m))"
    if "\<And>u. keeps advances (m u)" for m :: "unit \<Rightarrow> (('a, 'b) jworld, bool) run"
    unfolding run_bind_assoc [symmetric] using promise_jobs_advance [OF p] that by (rule advancing.bind)
  note promise = this
  show ?thesis
    unfolding scheduler_pass_def dispatch_clock_jobs_def
    by (rule advancing.bind [OF advancing.gets], rule keeps_if, intro advancing.basic queue_steps_advance,
        rule advancing.bind, intro advancing.basic queue_steps_advance clock_advances E due_advances,
        rule advancing.bind [OF advancing.gets], rule keeps_if, rule advancing.return, rule promise,
        intro advancing.basic queue_steps_advance generic_advances E)
qed

lemma run_jobs_advances:
  fixes E :: "(('j, 'x) jworld, 'm, 'j, 'e) job_engine_scheme"
  assumes "job_engine_keeps E" "run_jobs E w = Some (r, w')"
  shows "advances w w'"
proof -
  have "job_engine_keeps E \<longrightarrow> advances w (snd y)" if "run_jobs E w = Some y"
    for E :: "(('j, 'x) jworld, 'm, 'j, 'e) job_engine_scheme" and w y
    using that
  proof (rule run_jobs.raw_induct [rotated])
    fix run :: "(('j, 'x) jworld, 'm, 'j, 'e) job_engine_scheme \<Rightarrow> (('j, 'x) jworld, unit) run" and E w y
    assume IH: "\<And>E w y. run E w = Some y \<Longrightarrow> job_engine_keeps E \<longrightarrow> advances w (snd y)"
      and body: "run_bind (scheduler_pass E) (\<lambda>done w. if done then run_return () w else run E w) w = Some y"
    show "job_engine_keeps E \<longrightarrow> advances w (snd y)"
    proof
      assume E: "job_engine_keeps E"
      have rec: "keeps advances (\<lambda>w. if d then run_return () w else run E w)" for d
        using IH E by (cases d) (fastforce simp: keeps_def run_evaluate advancing.refl)+
      have "run_bind (scheduler_pass E) (\<lambda>done w. if done then run_return () w else run E w) w = Some (fst y, snd y)"
        using body by simp
      then show "advances w (snd y)"
        by (rule keepsD [OF advancing.bind [OF pass_advances [OF E] rec]])
    qed
  qed
  then show ?thesis using assms by fastforce
qed

end
