(* ===== verification/PromiseProperties.thy ===== *)
theory PromiseProperties
  imports JobFacts ObjectProperties
begin

text \<open>
  Properties of promises. The witnesses are an engine whose user function calls its
  argument twice, and a world with the promise at address 1 and its resolving functions at 2 and 3.
\<close>

section \<open>An engine and a world\<close>

definition demo_base :: "((nat, unit) jworld, entries, nat) job_engine" where
  "demo_base =
     (let i = \<lparr>pi_prototype = 0, pi_template = Unique 0\<rparr> in
      \<lparr>en_index_map = list_index_map, en_call = (\<lambda>_ _ _. run_return VUndefined), en_callable = (\<lambda>_ _. True),
       en_exotic = en_exotic demo_engine, en_itoa = (\<lambda>_. []), en_conversions = en_conversions demo_engine,
       en_array_shape = Unique 0,
       ve_boolean = i, ve_number = i, ve_string = i, ve_symbol = i, ve_bigint = i, ve_data = (\<lambda>_. OtherData 0),
       ve_allocate = (\<lambda>w. Suc (Max (insert 0 (dom (ow_objects w))))), ve_number_to_string = (\<lambda>_. []),
       ve_bigint_to_string = (\<lambda>_. []),
       he_ordinary_data = OtherData 0, he_check_runtime_limits = run_return (),
       he_consume_loop_iterations = (\<lambda>_. run_return ()),
       pe_root_shape = 0, pe_function_template = (\<lambda>_. Unique 0), pe_function_data = OtherData 1,
       pe_function_methods = OrdinaryMethods, pe_promise_data = OtherData 2, pe_array_data = OtherData 3,
       pe_promise_prototype = (\<lambda>_. 0), pe_promise_constructor = (\<lambda>_. 0), pe_object_prototype = (\<lambda>_. 0),
       pe_resolvers_template = (\<lambda>_. Unique 0), pe_is_constructor = (\<lambda>_ _. False),
       pe_construct = (\<lambda>_ _ c. run_return c), pe_function_realm = (\<lambda>_ realm _. Inr realm),
       pe_error_object = (\<lambda>_. run_return 0), pe_aggregate_error = (\<lambda>_. run_return 0),
       je_native = (\<lambda>_. run_return VUndefined), je_callback = (\<lambda>_. Some), je_now = (\<lambda>w. (0, w))\<rparr>)"

text \<open>User code: every function that is not native calls its first argument with 5 and then with 6.\<close>

definition demo_user ::
  "((nat, unit) jworld, entries, nat) job_engine \<Rightarrow> ((nat, unit) jworld, entries, nat) job_engine" where
  "demo_user E = E\<lparr>en_call := \<lambda>f this args.
     (case args of
        VObject g # _ \<Rightarrow>
          run_bind (en_call E g VUndefined [VInteger32 5]) (\<lambda>_. en_call E g VUndefined [VInteger32 6])
      | _ \<Rightarrow> run_return VUndefined)\<rparr>"

lemma demo_base_keeps: "job_engine_keeps demo_base"
proof -
  have fresh: "ow_objects w (Suc (Max (insert 0 (dom (ow_objects w))))) = None"
    if "promise_wf w" for w :: "(nat, unit) jworld"
  proof (rule ccontr)
    assume "\<not> ?thesis"
    then have "Suc (Max (insert 0 (dom (ow_objects w)))) \<in> insert 0 (dom (ow_objects w))" by auto
    moreover have "finite (insert 0 (dom (ow_objects w)))" using that by (simp add: promise_wf_def)
    ultimately have "Suc (Max (insert 0 (dom (ow_objects w)))) \<le> Max (insert 0 (dom (ow_objects w)))"
      by (rule Max_ge [rotated])
    then show False by simp
  qed
  show ?thesis
    using fresh
    by (simp add: evolving.return evolving.refl job_engine_keeps_def promise_engine_keeps_def engine_keeps_def exotic_keeps_def demo_base_def Let_def
        demo_engine_def)
qed

lemma demo_user_keeps:
  shows "promise_engine_keeps E \<Longrightarrow> promise_engine_keeps (demo_user E)"
    and "job_engine_keeps E \<Longrightarrow> job_engine_keeps (demo_user E)"
proof -
  show p: "promise_engine_keeps (demo_user E)" if E: "promise_engine_keeps E"
  proof -
    have "keeps evolves (en_call (demo_user E) f this args)" for f this args
      by (auto simp: demo_user_def split: list.split js_value.split
          intro!: evolving.basic evolving.call promise_engine_keepsD(1) [OF E])
    then show ?thesis
      using E by (simp add: promise_engine_keeps_def engine_keeps_def demo_user_def)
  qed
  show "job_engine_keeps E \<Longrightarrow> job_engine_keeps (demo_user E)"
    using p by (simp add: job_engine_keeps_def demo_user_def)
qed

lemma demo_base_promise: "promise_engine_keeps demo_base"
  using demo_base_keeps by (simp add: job_engine_keeps_def)

definition demo_native :: "native_closure \<Rightarrow> native_function" where
  "demo_native c = \<lparr>nf_closure = c, nf_constructor = False, nf_realm = None\<rparr>"

definition demo_pending :: promise where
  "demo_pending = \<lparr>pr_state = Pending, pr_fulfill_reactions = [fulfill_reaction None (Some 4)],
     pr_reject_reactions = [reject_reaction None (Some 4)], pr_handled = True\<rparr>"

definition demo_jobs :: "promise \<Rightarrow> (nat, unit) jworld" where
  "demo_jobs pr =
     \<lparr>ow_objects = (\<lambda>a. if a < 6 then Some (demo_object (fst empty_map)) else None), ow_shapes = snd empty_map,
      pw_promises = [1 \<mapsto> pr],
      pw_functions = [2 \<mapsto> demo_native (ResolveFunction 0), 3 \<mapsto> demo_native (RejectFunction 0)],
      pw_resolvers = [if pr_state pr = Pending then Some 1 else None], pw_capabilities = [], pw_flags = [], pw_values = [],
      pw_keys = [], pw_counters = [], pw_jobs = [], pw_tracked = [], pw_realm = 0,
      jw_generic_jobs = [], jw_clock_jobs = [], jw_tokens = [], jw_stop = False\<rparr>"

lemma demo_jobs_wf: "promise_ok pr \<Longrightarrow> promise_wf (demo_jobs pr)"
proof -
  assume "promise_ok pr"
  moreover have "dom (ow_objects (demo_jobs pr)) = {..<6}"
    by (auto simp: demo_jobs_def dom_def)
  ultimately show ?thesis
    by (auto simp: promise_wf_def demo_jobs_def owners_def pending_def demo_native_def split: if_splits)
qed

lemma demo_pending_ok: "promise_ok demo_pending"
  by (simp add: promise_ok_def demo_pending_def reaction_pair_def fulfill_reaction_def reject_reaction_def)

section \<open>Promises over calls\<close>

lemma job_engine_at_keeps:
  assumes B: "job_engine_keeps B" and U: "\<And>D. job_engine_keeps D \<Longrightarrow> job_engine_keeps (U D)"
  shows "job_engine_keeps (engine_at B U n)"
proof (induction n)
  case (Suc n)
  have "promise_engine_keeps (with_natives (U (engine_at B U n)) (engine_at B U n))"
    using U [OF Suc] Suc by (auto simp: job_engine_keeps_def intro: with_natives_keeps)
  then show ?case
    using U [OF Suc] by (simp add: job_engine_keeps_def with_natives_def)
qed (simp add: B)

lemma demo_jobs_fields [simp]:
  "pw_promises (demo_jobs pr) = [1 \<mapsto> pr]" "pw_jobs (demo_jobs pr) = []" "pw_realm (demo_jobs pr) = 0"
  "pw_functions (demo_jobs pr) = [2 \<mapsto> demo_native (ResolveFunction 0), 3 \<mapsto> demo_native (RejectFunction 0)]"
  "pw_resolvers (demo_jobs pr) = [if pr_state pr = Pending then Some 1 else None]"
  by (simp_all add: demo_jobs_def)

lemma demo_base_fields [simp]:
  "en_call demo_base f this args w = Some (Inr VUndefined, w)" "he_check_runtime_limits demo_base w = Some (Inr (), w)"
  "pe_function_realm demo_base obs realm f = Inr realm"
  by (simp_all add: demo_base_def run_return_def Let_def)

text \<open>C4
  Whatever a call does, at any depth and through any user code that itself only acts through calls, the
  promises stay well-formed and a settled promise keeps its outcome. Well-formed means: a pending promise
  has at most one pair of resolving functions or one job that can settle it, settled promises have no
  reactions, and the reactions of pending ones come in pairs.
\<close>
theorem settled_promises_stay:
  assumes B: "promise_engine_keeps B" and U: "\<And>D. promise_engine_keeps D \<Longrightarrow> promise_engine_keeps (U D)"
    and wf: "promise_wf w" and run: "en_call (engine_at B U n) f this args w = Some (r, w')"
  shows "promise_wf w' \<and>
    (\<forall>p pr. pw_promises w p = Some pr \<and> pr_state pr \<noteq> Pending \<longrightarrow>
      (\<exists>pr'. pw_promises w' p = Some pr' \<and> pr_state pr' = pr_state pr))"
proof -
  have "keeps evolves (en_call (engine_at B U n) f this args)"
    using engine_at_keeps [OF B U] by (rule evolving.call(1) [OF promise_engine_keepsD(1)])
  then have "evolves w w'" using run by (rule keepsD)
  then show ?thesis using wf unfolding evolves_by_def settled_stay_def by blast
qed

lemma demo_native_call:
  assumes "pw_functions w f = Some (demo_native c)" "pw_realm w = 0"
    "native_body (engine_at demo_base demo_user n) c this args w = Some (r, w')"
    "pw_realm w' = 0" "he_check_runtime_limits (engine_at demo_base demo_user n) w = Some (Inr (), w)"
  shows "en_call (engine_at demo_base demo_user (Suc n)) f this args w = Some (r, w')"
proof -
  have same: "w\<lparr>pw_realm := 0\<rparr> = w" "w'\<lparr>pw_realm := 0\<rparr> = w'" using assms(2,4) by simp_all
  show ?thesis
    using assms same(2) by (simp add: same(1) with_natives_def native_function_call_def run_bind_def run_gets_def native_realm_def
        run_in_realm_def demo_native_def)
qed

lemma demo_user_call:
  assumes "pw_functions w f = None"
    "en_call (engine_at demo_base demo_user n) g VUndefined [VInteger32 5] w = Some (Inr v, w1)"
    "en_call (engine_at demo_base demo_user n) g VUndefined [VInteger32 6] w1 = Some (r, w2)"
  shows "en_call (engine_at demo_base demo_user (Suc n)) f this [VObject g] w = Some (r, w2)"
  using assms by (simp add: with_natives_def demo_user_def run_bind_def)

definition demo_settled :: promise where
  "demo_settled = \<lparr>pr_state = Fulfilled (VInteger32 7), pr_fulfill_reactions = [], pr_reject_reactions = [], pr_handled = True\<rparr>"

lemma demo_settled_calls:
  "en_call (engine_at demo_base demo_user (Suc (Suc 0))) 4 VUndefined [VObject 2] (demo_jobs demo_settled) =
     Some (Inr VUndefined, demo_jobs demo_settled)"
proof -
  have w: "demo_jobs demo_settled\<lparr>pw_resolvers := [None]\<rparr> = demo_jobs demo_settled"
    by (simp add: demo_jobs_def demo_settled_def)
  have body: "native_body (engine_at demo_base demo_user 0) (ResolveFunction 0) VUndefined [v] (demo_jobs demo_settled) =
      Some (Inr VUndefined, demo_jobs demo_settled)" for v
    by (simp add: resolve_function_def take_promise_def read_cell_def write_cell_def run_bind_def run_return_def w
        demo_settled_def [THEN arg_cong [where f = pr_state]])
  have call: "en_call (engine_at demo_base demo_user (Suc 0)) 2 VUndefined [v] (demo_jobs demo_settled) =
      Some (Inr VUndefined, demo_jobs demo_settled)" for v
    by (rule demo_native_call [OF _ _ body]) simp_all
  show ?thesis
    by (rule demo_user_call [OF _ call call]) simp
qed

lemma demo_settled_ok: "promise_ok demo_settled"
  by (simp add: promise_ok_def demo_settled_def)

theorem settled_promises_stay_witness:
  "promise_wf (demo_jobs demo_settled) \<and>
   (\<exists>pr. pw_promises (demo_jobs demo_settled) 1 = Some pr \<and> pr_state pr = Fulfilled (VInteger32 7))"
  using settled_promises_stay [OF demo_base_promise demo_user_keeps(1) demo_jobs_wf [OF demo_settled_ok] demo_settled_calls]
  by (auto simp: demo_settled_def)

section \<open>Resolving functions\<close>

text \<open>What resolving does with a value that is no object, with the promise itself, and with another object.\<close>

lemma take_owned:
  assumes wf: "promise_wf w" and i: "i < length (pw_resolvers w)" "pw_resolvers w ! i = Some p"
  defines "w1 \<equiv> w\<lparr>pw_resolvers := (pw_resolvers w)[i := None]\<rparr>"
  shows "take_promise i w = Some (Inr (Some p), w1)" "pending w1 p" "p \<notin> set (owners w1)" "promise_wf w1"
  by (rule take_run [OF wf i(1)]; use i(2) w1_def in simp)+

lemma resolve_value:
  assumes wf: "promise_wf w" and i: "i < length (pw_resolvers w)" "pw_resolvers w ! i = Some p"
    and p: "pw_promises w p = Some pr" and v: "get_type v \<noteq> TObject"
  shows "resolve_function E i (v # args) w =
    Some (Inr VUndefined, settle E p pr (Fulfilled v) (w\<lparr>pw_resolvers := (pw_resolvers w)[i := None]\<rparr>))"
proof -
  define w1 where "w1 = w\<lparr>pw_resolvers := (pw_resolvers w)[i := None]\<rparr>"
  have t: "take_promise i w = Some (Inr (Some p), w1)" "pending w1 p" "pw_promises w1 p = Some pr"
    using take_owned [OF wf i] p by (simp_all add: w1_def)
  then have s: "fulfill_promise E p u w1 = Some (Inr (), settle E p pr (Fulfilled u) w1)" for u
    by (intro settle_run) (auto simp: pending_def)
  show ?thesis
    unfolding w1_def [symmetric] using v
    by (cases v) (simp_all add: resolve_function_def Let_def get_or_undefined_def same_value_def run_bind_cases(1) t(1) s
        run_evaluate)
qed

text \<open>Where code in between made an evolved world, the promise is still there to be settled.\<close>

lemma resolve_waits:
  assumes "promise_wf w" "i < length (pw_resolvers w)" "pw_resolvers w ! i = Some p"
    "evolves (w\<lparr>pw_resolvers := (pw_resolvers w)[i := None]\<rparr>) w2"
  obtains pr where "pw_promises w2 p = Some pr" "pr_state pr = Pending" "p \<notin> set (owners w2)" "promise_wf w2"
  using take_owned [OF assms(1-3)] evolves_waits [OF assms(4)] evolves_wf [OF assms(4)] that
  unfolding pending_def by blast

lemma resolve_itself:
  assumes w: "promise_wf w" "i < length (pw_resolvers w)" "pw_resolvers w ! i = Some p"
    and e: "pe_error_object E TypeError (w\<lparr>pw_resolvers := (pw_resolvers w)[i := None]\<rparr>) = Some (Inr e, w2)"
    and p: "pw_promises w2 p = Some pr" "pr_state pr = Pending"
  shows "resolve_function E i (VObject p # args) w = Some (Inr VUndefined, settle E p pr (Rejected (VObject e)) w2)"
  by (simp add: resolve_function_def take_owned(1) [OF w] Let_def get_or_undefined_def same_value_def run_bind_cases(1) e
      settle_run(2) [OF p] run_evaluate)

lemma resolve_object:
  assumes w: "promise_wf w" "i < length (pw_resolvers w)" "pw_resolvers w ! i = Some p" and a: "a \<noteq> p"
    and g: "object_get E a (key_literal ''then'') (w\<lparr>pw_resolvers := (pw_resolvers w)[i := None]\<rparr>) = Some (t, w2)"
    and p: "pw_promises w2 p = Some pr" "pr_state pr = Pending"
  shows "resolve_function E i (VObject a # args) w =
    (case t of
       Inl (Thrown e) \<Rightarrow> Some (Inr VUndefined, settle E p pr (Rejected e) w2)
     | Inl EngineError \<Rightarrow> Some (Inl EngineError, w2)
     | Inl err \<Rightarrow> run_bind (pe_error_object E err) (\<lambda>e. run_bind (reject_promise E p (VObject e)) (\<lambda>_. run_return VUndefined)) w2
     | Inr thn \<Rightarrow>
         (case thn of
            VObject f \<Rightarrow>
              if en_callable E w2 f then
                Some (Inr VUndefined, w2\<lparr>pw_jobs := pw_jobs w2 @ [ResolveThenableJob p (VObject a) f
                  (case function_realm E w2 f of Inr realm \<Rightarrow> realm | Inl _ \<Rightarrow> pw_realm w2)]\<rparr>)
              else Some (Inr VUndefined, settle E p pr (Fulfilled (VObject a)) w2)
          | _ \<Rightarrow> Some (Inr VUndefined, settle E p pr (Fulfilled (VObject a)) w2)))"
proof -
  have t: "run_try (object_get E a (key_literal ''then'')) (w\<lparr>pw_resolvers := (pw_resolvers w)[i := None]\<rparr>) = Some (Inr t, w2)"
    using g by (simp add: run_try_def)
  note evaluate = resolve_function_def take_owned(1) [OF w] Let_def get_or_undefined_def same_value_def run_bind_cases(1) t
    settle_run [OF p] run_evaluate run_bind_simple run_bind_assoc as_function_def new_promise_resolve_thenable_job_def
    enqueue_promise_job_def error_into_opaque_def
  show ?thesis
  proof (cases t)
    case (Inl e)
    then show ?thesis using a by (cases e) (simp_all add: evaluate)
  next
    case (Inr v)
    then show ?thesis using a by (cases v) (simp_all add: evaluate)
  qed
qed

text \<open>C7
  The resolve and the reject function of a promise act at most once: when either was called, with whatever
  result, and any other calls were made, a call of either does nothing.
\<close>
theorem resolving_functions_act_once:
  assumes B: "promise_engine_keeps B" and U: "\<And>D. promise_engine_keeps D \<Longrightarrow> promise_engine_keeps (U D)"
    and wf: "promise_wf w" and c: "c \<in> {ResolveFunction i, RejectFunction i}" "c' \<in> {ResolveFunction i, RejectFunction i}"
    and first: "native_body (engine_at B U n) c this args w = Some (r, w1)"
    and other: "en_call (engine_at B U m) g this' args' w1 = Some (r', w2)"
  shows "native_body E c' this'' args'' w2 = Some (Inr VUndefined, w2)"
proof -
  have E: "promise_engine_keeps (engine_at B U k)" for k by (rule engine_at_keeps [OF B U])
  have k: "keeps evolves (native_body (engine_at B U n) c this args)"
    and e: "empties i (native_body (engine_at B U n) c this args)"
    using c(1) by (auto simp: resolve_function_takes [OF E] reject_function_takes)
  have w1: "promise_wf w1" "i < length (pw_resolvers w1)" "pw_resolvers w1 ! i = None"
    using keepsD [OF k first] e first wf unfolding empties_def evolves_by_def by blast+
  have "evolves w1 w2"
    using evolving.call(1) [OF promise_engine_keepsD(1) [OF E]] other by (rule keepsD)
  then have w2: "promise_wf w2" "i < length (pw_resolvers w2)" "pw_resolvers w2 ! i = None"
    using w1 unfolding evolves_by_def cells_stay_def by auto
  have "take_promise i w2 = Some (Inr None, w2)"
    using take_run [OF w2(1,2)] w2(3) by (metis option.distinct(1))
  then show ?thesis
    using c(2) by (auto simp: resolve_function_def reject_function_def run_bind_def run_return_def)
qed

text \<open>The world after the calls that resolve the pending promise at 1 with 5.\<close>

definition demo_fulfilled :: "(nat, unit) jworld" where
  "demo_fulfilled = settle demo_base 1 demo_pending (Fulfilled (VInteger32 5)) (demo_jobs demo_pending\<lparr>pw_resolvers := [None]\<rparr>)"

lemma demo_resolves:
  "native_body (engine_at demo_base demo_user 0) (ResolveFunction 0) VUndefined [VInteger32 5] (demo_jobs demo_pending) =
     Some (Inr VUndefined, demo_fulfilled)"
  using resolve_value [OF demo_jobs_wf [OF demo_pending_ok], of 0 1 demo_pending "VInteger32 5" demo_base "[]"]
  by (simp add: demo_fulfilled_def demo_pending_def)

theorem resolving_functions_act_once_witness:
  "native_body demo_base (RejectFunction 0) VUndefined [VInteger32 6] demo_fulfilled = Some (Inr VUndefined, demo_fulfilled)"
proof (rule resolving_functions_act_once [OF demo_base_promise demo_user_keeps(1) demo_jobs_wf [OF demo_pending_ok] _ _ demo_resolves])
  show "en_call (engine_at demo_base demo_user 0) 4 VUndefined [VObject 2] demo_fulfilled = Some (Inr VUndefined, demo_fulfilled)"
    by simp
qed simp_all

text \<open>C6
  Resolving a promise: a value that is no object fulfils it, the promise itself rejects it with a
  TypeError, and another object is asked for its \<open>then\<close>: a function is left to a job to call, anything else
  fulfils the promise with the object, an exception rejects it. Settling takes the reactions out, makes
  each of the kind a job, in their order, and reports an unhandled rejection. In none of the cases can the
  assertion that the promise is pending fail, whatever the code in between did.
\<close>
theorem resolve_function_spec:
  assumes E: "promise_engine_keeps E" and w: "promise_wf w" "i < length (pw_resolvers w)" "pw_resolvers w ! i = Some p"
    and w1: "w1 = w\<lparr>pw_resolvers := (pw_resolvers w)[i := None]\<rparr>"
  shows "(\<forall>v. get_type v \<noteq> TObject \<longrightarrow>
      (\<exists>pr. pw_promises w p = Some pr \<and> pr_state pr = Pending \<and>
        resolve_function E i (v # args) w = Some (Inr VUndefined, settle E p pr (Fulfilled v) w1))) \<and>
    (\<forall>e w2. pe_error_object E TypeError w1 = Some (Inr e, w2) \<longrightarrow>
      (\<exists>pr. pw_promises w2 p = Some pr \<and> pr_state pr = Pending \<and>
        resolve_function E i (VObject p # args) w = Some (Inr VUndefined, settle E p pr (Rejected (VObject e)) w2))) \<and>
    (\<forall>a t w2. a \<noteq> p \<and> object_get E a (key_literal ''then'') w1 = Some (t, w2) \<longrightarrow>
      (\<exists>pr. pw_promises w2 p = Some pr \<and> pr_state pr = Pending \<and>
        (\<forall>e. t = Inl (Thrown e) \<longrightarrow>
          resolve_function E i (VObject a # args) w = Some (Inr VUndefined, settle E p pr (Rejected e) w2)) \<and>
        (\<forall>thn. t = Inr thn \<longrightarrow> resolve_function E i (VObject a # args) w = Some (Inr VUndefined,
          case thn of
            VObject f \<Rightarrow>
              if en_callable E w2 f then
                w2\<lparr>pw_jobs := pw_jobs w2 @ [ResolveThenableJob p (VObject a) f
                  (case function_realm E w2 f of Inr realm \<Rightarrow> realm | Inl _ \<Rightarrow> pw_realm w2)]\<rparr>
              else settle E p pr (Fulfilled (VObject a)) w2
          | _ \<Rightarrow> settle E p pr (Fulfilled (VObject a)) w2))))"
proof (intro conjI allI impI)
  fix v assume v: "get_type v \<noteq> TObject"
  have "pending w1 p" using take_owned(2) [OF w] by (simp add: w1)
  then obtain pr where pr: "pw_promises w p = Some pr" "pr_state pr = Pending" by (auto simp: pending_def w1)
  then show "\<exists>pr. pw_promises w p = Some pr \<and> pr_state pr = Pending \<and>
      resolve_function E i (v # args) w = Some (Inr VUndefined, settle E p pr (Fulfilled v) w1)"
    using resolve_value [OF w pr(1) v] by (simp add: w1)
next
  fix e w2 assume e: "pe_error_object E TypeError w1 = Some (Inr e, w2)"
  have "evolves w1 w2" using promise_engine_keepsD(3) [OF E] e by (rule keepsD)
  then obtain pr where pr: "pw_promises w2 p = Some pr" "pr_state pr = Pending"
    using resolve_waits [OF w, of w2] by (auto simp: w1)
  then show "\<exists>pr. pw_promises w2 p = Some pr \<and> pr_state pr = Pending \<and>
      resolve_function E i (VObject p # args) w = Some (Inr VUndefined, settle E p pr (Rejected (VObject e)) w2)"
    using resolve_itself [OF w e [unfolded w1] pr] by blast
next
  fix a t w2 assume "a \<noteq> p \<and> object_get E a (key_literal ''then'') w1 = Some (t, w2)"
  then have a: "a \<noteq> p" and g: "object_get E a (key_literal ''then'') w1 = Some (t, w2)" by simp_all
  have "evolves w1 w2" using evolving.object_get [OF promise_engine_keepsD(1) [OF E]] g by (rule keepsD)
  then obtain pr where pr: "pw_promises w2 p = Some pr" "pr_state pr = Pending"
    using resolve_waits [OF w, of w2] by (auto simp: w1)
  note run = resolve_object [OF w a g [unfolded w1] pr]
  show "\<exists>pr. pw_promises w2 p = Some pr \<and> pr_state pr = Pending \<and>
        (\<forall>e. t = Inl (Thrown e) \<longrightarrow>
          resolve_function E i (VObject a # args) w = Some (Inr VUndefined, settle E p pr (Rejected e) w2)) \<and>
        (\<forall>thn. t = Inr thn \<longrightarrow> resolve_function E i (VObject a # args) w = Some (Inr VUndefined,
          case thn of
            VObject f \<Rightarrow>
              if en_callable E w2 f then
                w2\<lparr>pw_jobs := pw_jobs w2 @ [ResolveThenableJob p (VObject a) f
                  (case function_realm E w2 f of Inr realm \<Rightarrow> realm | Inl _ \<Rightarrow> pw_realm w2)]\<rparr>
              else settle E p pr (Fulfilled (VObject a)) w2
          | _ \<Rightarrow> settle E p pr (Fulfilled (VObject a)) w2))"
    using pr run by (auto split: js_value.split)
qed

theorem resolve_function_spec_witness:
  "resolve_function demo_base 0 [VInteger32 5] (demo_jobs demo_pending) = Some (Inr VUndefined, demo_fulfilled) \<and>
   pw_jobs demo_fulfilled = [ReactionJob (fulfill_reaction None (Some 4)) (VInteger32 5) 0]"
proof -
  have "\<exists>pr. pw_promises (demo_jobs demo_pending) 1 = Some pr \<and> pr_state pr = Pending \<and>
      resolve_function demo_base 0 [VInteger32 5] (demo_jobs demo_pending) =
        Some (Inr VUndefined, settle demo_base 1 pr (Fulfilled (VInteger32 5)) (demo_jobs demo_pending\<lparr>pw_resolvers := [None]\<rparr>))"
    using resolve_function_spec [OF demo_base_promise demo_jobs_wf [OF demo_pending_ok], of 0 1 _ "[]"]
    by (simp add: demo_pending_def)
  then show ?thesis
    by (auto simp: demo_fulfilled_def settle_def demo_pending_def reaction_job_def function_realm_def fulfill_reaction_def
        reject_reaction_def)
qed

section \<open>Reactions\<close>

text \<open>C9
  It makes no difference whether \<open>then\<close> comes before or after a promise is fulfilled: the same jobs in the
  same order. Neither does it for a rejection, but for what the tracker is told.
\<close>
theorem then_before_or_after:
  assumes p: "pw_promises w p = Some pr" "pr_state pr = Pending"
  shows "run_bind (perform_promise_then E p f r cap) (\<lambda>_. fulfill_promise E p v) w =
      run_bind (fulfill_promise E p v) (\<lambda>_. perform_promise_then E p f r cap) w \<and>
    (\<exists>w1 w2. run_bind (perform_promise_then E p f r cap) (\<lambda>_. reject_promise E p v) w = Some (Inr (), w1) \<and>
      run_bind (reject_promise E p v) (\<lambda>_. perform_promise_then E p f r cap) w = Some (Inr (), w2) \<and>
      pw_tracked w1 = pw_tracked w \<and>
      pw_tracked w2 = pw_tracked w @ (if pr_handled pr then [] else [(p, OperationReject), (p, OperationHandle)]) \<and>
      w1\<lparr>pw_tracked := []\<rparr> = w2\<lparr>pw_tracked := []\<rparr>)"
proof -
  define pr' where "pr' = pr\<lparr>pr_fulfill_reactions := pr_fulfill_reactions pr @ [fulfill_reaction cap f],
      pr_reject_reactions := pr_reject_reactions pr @ [reject_reaction cap r], pr_handled := True\<rparr>"
  define wr where "wr = w\<lparr>pw_promises := (pw_promises w)(p \<mapsto> pr')\<rparr>"
  have reg: "perform_promise_then E p f r cap w = Some (Inr (), wr)"
    using then_run [OF p(1), of E f r cap] p(2) by (simp add: register_def wr_def pr'_def)
  have p': "pw_promises wr p = Some pr'" "pr_state pr' = Pending"
    using p(2) by (simp_all add: wr_def pr'_def)
  have after: "pw_promises (settle E p pr s w) p = Some
      \<lparr>pr_state = s, pr_fulfill_reactions = [], pr_reject_reactions = [], pr_handled = pr_handled pr\<rparr>" for s
    by (simp add: settle_def)
  have "settle E p pr' (Fulfilled v) wr =
      register E p \<lparr>pr_state = Fulfilled v, pr_fulfill_reactions = [], pr_reject_reactions = [], pr_handled = pr_handled pr\<rparr>
        f r cap (settle E p pr (Fulfilled v) w)"
    by (simp add: settle_def register_def pr'_def wr_def)
  then have "run_bind (perform_promise_then E p f r cap) (\<lambda>_. fulfill_promise E p v) w =
      run_bind (fulfill_promise E p v) (\<lambda>_. perform_promise_then E p f r cap) w"
    by (simp add: run_bind_cases(1) reg settle_run [OF p] settle_run [OF p'] then_run [OF after])
  moreover have "run_bind (perform_promise_then E p f r cap) (\<lambda>_. reject_promise E p v) w =
      Some (Inr (), settle E p pr' (Rejected v) wr)"
    "run_bind (reject_promise E p v) (\<lambda>_. perform_promise_then E p f r cap) w =
      Some (Inr (), register E p \<lparr>pr_state = Rejected v, pr_fulfill_reactions = [], pr_reject_reactions = [],
        pr_handled = pr_handled pr\<rparr> f r cap (settle E p pr (Rejected v) w))"
    by (simp_all add: run_bind_cases(1) reg settle_run [OF p] settle_run [OF p'] then_run [OF after])
  ultimately show ?thesis
    by (simp add: settle_def register_def pr'_def wr_def)
qed

theorem then_before_or_after_witness:
  "run_bind (perform_promise_then demo_base 1 (Some 4) None None) (\<lambda>_. fulfill_promise demo_base 1 (VInteger32 5)) (demo_jobs demo_pending) =
   run_bind (fulfill_promise demo_base 1 (VInteger32 5)) (\<lambda>_. perform_promise_then demo_base 1 (Some 4) None None) (demo_jobs demo_pending)"
  by (rule then_before_or_after [where pr = demo_pending, THEN conjunct1]) (simp_all add: demo_pending_def)

text \<open>Calls of \<open>then\<close>, each with its handlers and capability.\<close>

fun perform_thens ::
  "('x promise_world_scheme, 'm, 'e) promise_engine_scheme \<Rightarrow> obj_addr \<Rightarrow>
     (obj_addr option \<times> obj_addr option \<times> promise_capability option) list \<Rightarrow> ('x promise_world_scheme, unit) run" where
  "perform_thens E p [] = run_return ()"
| "perform_thens E p ((f, r, cap) # ts) = run_bind (perform_promise_then E p f r cap) (\<lambda>_. perform_thens E p ts)"

lemma perform_thens_run:
  assumes "pw_promises w p = Some pr" "pr_state pr = Pending" "ts \<noteq> []"
  shows "perform_thens E p ts w = Some (Inr (), w\<lparr>pw_promises := (pw_promises w)(p \<mapsto>
    pr\<lparr>pr_fulfill_reactions := pr_fulfill_reactions pr @ map (\<lambda>(f, r, cap). fulfill_reaction cap f) ts,
      pr_reject_reactions := pr_reject_reactions pr @ map (\<lambda>(f, r, cap). reject_reaction cap r) ts,
      pr_handled := True\<rparr>)\<rparr>)"
  using assms
proof (induction ts arbitrary: w pr)
  case (Cons t ts)
  obtain f r cap where t: "t = (f, r, cap)" by (cases t)
  define pr' where "pr' = pr\<lparr>pr_fulfill_reactions := pr_fulfill_reactions pr @ [fulfill_reaction cap f],
      pr_reject_reactions := pr_reject_reactions pr @ [reject_reaction cap r], pr_handled := True\<rparr>"
  have reg: "perform_promise_then E p f r cap w = Some (Inr (), w\<lparr>pw_promises := (pw_promises w)(p \<mapsto> pr')\<rparr>)"
    using then_run [OF Cons.prems(1), of E f r cap] Cons.prems(2) by (simp add: register_def pr'_def)
  show ?case
  proof (cases "ts = []")
    case True
    then show ?thesis by (simp add: t run_bind_cases(1) reg run_evaluate pr'_def fun_upd_def)
  next
    case False
    have "pr_state pr' = Pending" using Cons.prems(2) by (simp add: pr'_def)
    then show ?thesis
      using Cons.IH [of "w\<lparr>pw_promises := (pw_promises w)(p \<mapsto> pr')\<rparr>" pr'] False
      by (simp add: t run_bind_cases(1) reg) (simp add: pr'_def fun_upd_def cong: if_cong)
  qed
qed simp

text \<open>C8
  The handlers given to a pending promise by any number of calls of \<open>then\<close> become jobs when it settles, each
  exactly once and in the order of the calls, the handlers for the other outcome none.
\<close>
theorem reactions_in_order:
  assumes p: "pw_promises w p = Some pr" "pr_state pr = Pending" and ts: "ts \<noteq> []"
  shows "(\<exists>w'. run_bind (perform_thens E p ts) (\<lambda>_. fulfill_promise E p v) w = Some (Inr (), w') \<and>
      pw_jobs w' = pw_jobs w @
        map (reaction_job E w v) (pr_fulfill_reactions pr @ map (\<lambda>(f, r, cap). fulfill_reaction cap f) ts)) \<and>
    (\<exists>w'. run_bind (perform_thens E p ts) (\<lambda>_. reject_promise E p v) w = Some (Inr (), w') \<and>
      pw_jobs w' = pw_jobs w @
        map (reaction_job E w v) (pr_reject_reactions pr @ map (\<lambda>(f, r, cap). reject_reaction cap r) ts))"
proof -
  define pr' where "pr' = pr\<lparr>pr_fulfill_reactions := pr_fulfill_reactions pr @ map (\<lambda>(f, r, cap). fulfill_reaction cap f) ts,
      pr_reject_reactions := pr_reject_reactions pr @ map (\<lambda>(f, r, cap). reject_reaction cap r) ts, pr_handled := True\<rparr>"
  define w1 where "w1 = w\<lparr>pw_promises := (pw_promises w)(p \<mapsto> pr')\<rparr>"
  have run: "perform_thens E p ts w = Some (Inr (), w1)"
    using perform_thens_run [OF p ts, of E] by (simp add: w1_def pr'_def)
  have p': "pw_promises w1 p = Some pr'" "pr_state pr' = Pending"
    using p(2) by (simp_all add: w1_def pr'_def)
  show ?thesis
    by (simp add: run_bind_cases(1) run settle_run [OF p'] settle_def) (simp add: w1_def pr'_def)
qed

theorem reactions_in_order_witness:
  "\<exists>w'. run_bind (perform_thens demo_base 1 [(Some 5, None, None), (None, Some 5, None)])
      (\<lambda>_. fulfill_promise demo_base 1 (VInteger32 5)) (demo_jobs demo_pending) = Some (Inr (), w') \<and>
    pw_jobs w' = [ReactionJob (fulfill_reaction None (Some 4)) (VInteger32 5) 0,
      ReactionJob (fulfill_reaction None (Some 5)) (VInteger32 5) 0, ReactionJob (fulfill_reaction None None) (VInteger32 5) 0]"
proof -
  have p: "pw_promises (demo_jobs demo_pending) 1 = Some demo_pending" "pr_state demo_pending = Pending"
    by (simp_all add: demo_pending_def)
  show ?thesis
    using reactions_in_order [OF p, of "[(Some 5, None, None), (None, Some 5, None)]" demo_base "VInteger32 5", THEN conjunct1]
    by (simp add: demo_pending_def reaction_job_def function_realm_def fulfill_reaction_def)
qed

end
