(* ===== verification/JobProperties.thy ===== *)
theory JobProperties
  imports PromiseProperties "HOL-Library.Multiset"
begin

text \<open>
  Properties of the executor of jobs: what is left when it returns, what running the jobs does to promises,
  and the order of clock jobs, which is that of a stable sort by their instants.
\<close>

section \<open>Jobs\<close>

lemma demo_world_fields [simp]:
  "jw_stop (demo_jobs pr) = False" "jw_clock_jobs (demo_jobs pr) = []" "jw_generic_jobs (demo_jobs pr) = []"
  "je_now demo_base w = (0, w)"
  by (simp_all add: demo_jobs_def demo_base_def Let_def)

lemma demo_fulfilled_fields [simp]:
  "jw_stop demo_fulfilled = False" "jw_clock_jobs demo_fulfilled = []" "jw_generic_jobs demo_fulfilled = []"
  "pw_jobs demo_fulfilled = [ReactionJob (fulfill_reaction None (Some 4)) (VInteger32 5) 0]" "pw_realm demo_fulfilled = 0"
  by (simp_all add: demo_fulfilled_def settle_def demo_pending_def reaction_job_def function_realm_def fulfill_reaction_def)

lemma clock_same [simp]: "jw_clock_jobs w = [] \<Longrightarrow> take_due_jobs n w = Some (Inr [], w)"
proof -
  assume c: "jw_clock_jobs w = []"
  then have "w\<lparr>jw_clock_jobs := []\<rparr> = w" by simp
  then show ?thesis using c by (simp add: take_due_jobs_def)
qed

lemma demo_pass:
  "scheduler_pass demo_base demo_fulfilled = Some (Inr False, demo_fulfilled\<lparr>pw_jobs := []\<rparr>)"
  "scheduler_pass demo_base (demo_fulfilled\<lparr>pw_jobs := []\<rparr>) = Some (Inr True, demo_fulfilled\<lparr>pw_jobs := []\<rparr>)"
proof -
  have same: "demo_fulfilled\<lparr>jw_generic_jobs := []\<rparr> = demo_fulfilled" "demo_fulfilled\<lparr>pw_realm := 0\<rparr> = demo_fulfilled"
    by simp_all
  have job: "run_promise_job demo_base (ReactionJob (fulfill_reaction None (Some 4)) (VInteger32 5) 0)
      (demo_fulfilled\<lparr>pw_jobs := []\<rparr>) = Some (Inr VUndefined, demo_fulfilled\<lparr>pw_jobs := []\<rparr>)"
    by (simp add: run_promise_job_def run_in_realm_def run_reaction_job_def fulfill_reaction_def run_bind_def run_try_def
        run_return_def same)
  show "scheduler_pass demo_base demo_fulfilled = Some (Inr False, demo_fulfilled\<lparr>pw_jobs := []\<rparr>)"
    by (simp add: scheduler_pass_def run_bind_simple dispatch_clock_jobs_def clock_now_def run_bind_def run_gets_def run_return_def
        queued_jobs_empty_def immediate_jobs_empty_def take_promise_jobs_def take_generic_jobs_def run_try_def job same)
  show "scheduler_pass demo_base (demo_fulfilled\<lparr>pw_jobs := []\<rparr>) = Some (Inr True, demo_fulfilled\<lparr>pw_jobs := []\<rparr>)"
    by (simp add: scheduler_pass_def dispatch_clock_jobs_def clock_now_def run_bind_def run_gets_def run_return_def
        queued_jobs_empty_def immediate_jobs_empty_def)
qed

lemma demo_runs: "run_jobs demo_base demo_fulfilled = Some (Inr (), demo_fulfilled\<lparr>pw_jobs := []\<rparr>)"
proof -
  note pass = demo_pass [THEN run_bind_cases(1) [where m = "scheduler_pass demo_base"]]
  have "run_jobs demo_base (demo_fulfilled\<lparr>pw_jobs := []\<rparr>) = Some (Inr (), demo_fulfilled\<lparr>pw_jobs := []\<rparr>)"
    by (subst run_jobs.simps) (simp add: pass run_evaluate)
  then show ?thesis
    by (subst run_jobs.simps) (simp add: pass)
qed

text \<open>C11
  For an executor whose only jobs are promise, generic and clock jobs (asynchronous and detached jobs and
  the cleanup of finalization registries are not modelled): when \<open>run_jobs\<close> returns, none of these
  is left, after an error because the others are dropped; when \<open>run_jobs_until_stalled\<close> returns, no
  promise or generic job is left, and its answer tells whether there are clock jobs.
\<close>
theorem jobs_run_out:
  "(run_jobs E w = Some (r, w') \<longrightarrow> pw_jobs w' = [] \<and> jw_generic_jobs w' = [] \<and> jw_clock_jobs w' = []) \<and>
   (run_jobs_until_stalled E w = Some (s, w') \<longrightarrow>
     pw_jobs w' = [] \<and> jw_generic_jobs w' = [] \<and> (s = Inr PendingJobs \<longleftrightarrow> jw_clock_jobs w' \<noteq> []))"
  using run_jobs_end [of E w r w'] run_until_stalled_status [of E w s w']
  by (simp add: queued_jobs_empty_def immediate_jobs_empty_def)

theorem jobs_run_out_witness:
  "\<exists>w'. run_jobs demo_base demo_fulfilled = Some (Inr (), w') \<and> pw_jobs demo_fulfilled \<noteq> [] \<and> pw_jobs w' = []"
  using jobs_run_out [THEN conjunct1, rule_format, OF demo_runs] demo_runs by simp

text \<open>C5
  Running the jobs, with any user code that acts through calls, keeps the promises well-formed, the settled
  ones as they are, and an error in a job does neither harm: the promises of dropped jobs stay pending.
\<close>
theorem promises_over_jobs:
  assumes B: "job_engine_keeps B" and U: "\<And>D. job_engine_keeps D \<Longrightarrow> job_engine_keeps (U D)"
    and wf: "promise_wf w" and run: "run_jobs (engine_at B U n) w = Some (r, w')"
  shows "promise_wf w' \<and>
    (\<forall>p pr. pw_promises w p = Some pr \<and> pr_state pr \<noteq> Pending \<longrightarrow>
      (\<exists>pr'. pw_promises w' p = Some pr' \<and> pr_state pr' = pr_state pr))"
proof -
  have "advances w w'" by (rule run_jobs_advances [OF job_engine_at_keeps [OF B U] run])
  then show ?thesis using wf unfolding advances_def settled_stay_def by blast
qed

lemma demo_fulfilled_wf: "promise_wf demo_fulfilled"
proof -
  have "keeps evolves (native_body (engine_at demo_base demo_user 0) (ResolveFunction 0) VUndefined [VInteger32 5])"
    by (rule native_body_keeps) (simp add: demo_base_promise)
  then have "evolves (demo_jobs demo_pending) demo_fulfilled"
    using demo_resolves by (rule keepsD)
  then show ?thesis using demo_jobs_wf [OF demo_pending_ok] by (rule evolves_wf)
qed

theorem promises_over_jobs_witness:
  "promise_wf (demo_fulfilled\<lparr>pw_jobs := []\<rparr>) \<and>
   (\<exists>pr. pw_promises (demo_fulfilled\<lparr>pw_jobs := []\<rparr>) 1 = Some pr \<and> pr_state pr = Fulfilled (VInteger32 5))"
proof -
  have "run_jobs (engine_at demo_base demo_user 0) demo_fulfilled = Some (Inr (), demo_fulfilled\<lparr>pw_jobs := []\<rparr>)"
    by (simp add: demo_runs)
  from promises_over_jobs [OF demo_base_keeps demo_user_keeps(2) demo_fulfilled_wf this]
  show ?thesis by (auto simp: demo_fulfilled_def settle_def)
qed

section \<open>Clock jobs\<close>

text \<open>
  A job that is due exactly now waits for the clock to move on. With a clock that stands still, as
  \<open>FixedClock\<close> does by itself, \<open>run_jobs\<close> does not return while there is one.
\<close>

lemma pass_waits:
  assumes "\<And>w. je_now E w = (now, w)" "jw_clock_jobs w = [(now, [job])]" "\<not> clock_job_cancelled w job"
    "\<not> jw_stop w" "pw_jobs w = []" "jw_generic_jobs w = []"
  shows "scheduler_pass E w = Some (Inr False, w)"
proof -
  have same: "w\<lparr>jw_clock_jobs := [(now, [job])]\<rparr> = w" "w\<lparr>pw_jobs := []\<rparr> = w" "w\<lparr>jw_generic_jobs := []\<rparr> = w"
    using assms by simp_all
  show ?thesis
    using assms
    by (simp add: scheduler_pass_def dispatch_clock_jobs_def clock_now_def take_due_jobs_def run_bind_def run_gets_def
        run_return_def queued_jobs_empty_def immediate_jobs_empty_def take_promise_jobs_def take_generic_jobs_def same)
qed

theorem due_now_never_runs:
  fixes E :: "(('j, 'x) jworld, 'm, 'j, 'e) job_engine_scheme"
  assumes "\<And>w. je_now E w = (now, w)" "jw_clock_jobs w = [(now, [job])]" "\<not> clock_job_cancelled w job"
    "\<not> jw_stop w" "pw_jobs w = []" "jw_generic_jobs w = []"
  shows "run_jobs E w = None"
proof -
  have "(\<forall>w. je_now E w = (now, w)) \<longrightarrow> jw_clock_jobs w = [(now, [job])] \<longrightarrow> \<not> clock_job_cancelled w job \<longrightarrow>
      \<not> jw_stop w \<longrightarrow> pw_jobs w = [] \<longrightarrow> jw_generic_jobs w = [] \<longrightarrow> False"
    if "run_jobs E w = Some y" for E :: "(('j, 'x) jworld, 'm, 'j, 'e) job_engine_scheme" and w y
    using that
  proof (rule run_jobs.raw_induct [rotated], intro impI)
    fix run :: "(('j, 'x) jworld, 'm, 'j, 'e) job_engine_scheme \<Rightarrow> (('j, 'x) jworld, unit) run" and E w y
    assume IH: "\<And>E w y. run E w = Some y \<Longrightarrow> (\<forall>w. je_now E w = (now, w)) \<longrightarrow> jw_clock_jobs w = [(now, [job])] \<longrightarrow>
        \<not> clock_job_cancelled w job \<longrightarrow> \<not> jw_stop w \<longrightarrow> pw_jobs w = [] \<longrightarrow> jw_generic_jobs w = [] \<longrightarrow> False"
      and body: "run_bind (scheduler_pass E) (\<lambda>done w. if done then run_return () w else run E w) w = Some y"
      and w: "\<forall>w. je_now E w = (now, w)" "jw_clock_jobs w = [(now, [job])]" "\<not> clock_job_cancelled w job"
        "\<not> jw_stop w" "pw_jobs w = []" "jw_generic_jobs w = []"
    have "run E w = Some y"
      using body by (simp add: run_bind_cases(1) [where m = "scheduler_pass E", OF pass_waits [OF w(1) [rule_format] w(2-6)]])
    then show False using IH w by blast
  qed
  then show ?thesis using assms by (cases "run_jobs E w") blast+
qed

text \<open>The map of clock jobs after pushing jobs at instants.\<close>

definition clock_pushes :: "(nat \<times> 'c) list \<Rightarrow> (nat \<times> 'c list) list" where
  "clock_pushes xs = fold (\<lambda>(at, job). clock_push at job) xs []"

lemma clock_push_keys: "set (map fst (clock_push at job m)) = insert at (set (map fst m))"
  by (induction at job m rule: clock_push.induct) auto

lemma clock_push_sorted: "sorted_wrt (<) (map fst m) \<Longrightarrow> sorted_wrt (<) (map fst (clock_push at job m))"
proof (induction at job m rule: clock_push.induct)
  case (2 at job t jobs m)
  then show ?case
    using clock_push_keys [of at job m] by auto
qed simp

lemma clock_push_jobs:
  "sorted_wrt (<) (map fst m) \<Longrightarrow>
   concat (map (\<lambda>(t, js). map (Pair t) js) (clock_push at job m)) =
     (let xs = concat (map (\<lambda>(t, js). map (Pair t) js) m) in
      filter (\<lambda>x. fst x \<le> at) xs @ (at, job) # filter (\<lambda>x. at < fst x) xs)"
proof (induction at job m rule: clock_push.induct)
  case (2 at job t jobs m)
  have later: "\<forall>x \<in> set (concat (map (\<lambda>(t, js). map (Pair t) js) m)). t < fst x"
    using "2.prems" by fastforce
  then have all: "at \<le> t \<Longrightarrow> filter (\<lambda>x. fst x \<le> at) (concat (map (\<lambda>(t, js). map (Pair t) js) m)) = []"
    "at \<le> t \<Longrightarrow> filter (\<lambda>x. at < fst x) (concat (map (\<lambda>(t, js). map (Pair t) js) m)) =
       concat (map (\<lambda>(t, js). map (Pair t) js) m)"
    by (fastforce simp: filter_empty_conv filter_id_conv)+
  show ?case
    using 2 all by (auto simp: Let_def filter_map o_def)
qed (simp add: Let_def)

lemma sort_key_snoc:
  "sort_key f (xs @ [x]) = filter (\<lambda>y. f y \<le> f x) (sort_key f xs) @ x # filter (\<lambda>y. f x < f y) (sort_key f xs)"
proof (rule properties_for_sort_key)
  have "mset (filter (\<lambda>y. f y \<le> f x) ys) + mset (filter (\<lambda>y. f x < f y) ys) = mset ys" for ys
    by (induction ys) auto
  then show "mset (filter (\<lambda>y. f y \<le> f x) (sort_key f xs) @ x # filter (\<lambda>y. f x < f y) (sort_key f xs)) = mset (xs @ [x])"
    by simp
next
  fix k
  have "filter (\<lambda>y. f k = f y) (sort_key f xs) = filter (\<lambda>y. f k = f y) xs"
    using sort_key_stable [of f "f k" xs] by (simp add: eq_commute)
  moreover have "filter (\<lambda>y. f k = f y) (filter (\<lambda>y. f y \<le> f x) ys) = (if f k \<le> f x then filter (\<lambda>y. f k = f y) ys else [])"
    "filter (\<lambda>y. f k = f y) (filter (\<lambda>y. f x < f y) ys) = (if f k \<le> f x then [] else filter (\<lambda>y. f k = f y) ys)" for ys
    by (auto simp: filter_empty_conv intro: filter_cong)
  ultimately show "filter (\<lambda>y. f k = f y) (filter (\<lambda>y. f y \<le> f x) (sort_key f xs) @ x # filter (\<lambda>y. f x < f y) (sort_key f xs)) =
      filter (\<lambda>y. f k = f y) (xs @ [x])"
    by auto
next
  have "sorted (map f (filter P (sort_key f xs)))" for P by (rule sorted_filter) simp
  then show "sorted (map f (filter (\<lambda>y. f y \<le> f x) (sort_key f xs) @ x # filter (\<lambda>y. f x < f y) (sort_key f xs)))"
    by (auto simp: sorted_append)
qed

lemma clock_pushes_sorted:
  "sorted_wrt (<) (map fst (clock_pushes xs)) \<and>
   concat (map (\<lambda>(t, js). map (Pair t) js) (clock_pushes xs)) = sort_key fst xs"
proof (induction xs rule: rev_induct)
  case (snoc x xs)
  obtain at job where x: "x = (at, job)" by (cases x)
  have "clock_pushes (xs @ [x]) = clock_push at job (clock_pushes xs)" by (simp add: clock_pushes_def x)
  then show ?case
    using snoc clock_push_jobs [of "clock_pushes xs" at job] by (simp add: clock_push_sorted sort_key_snoc x Let_def)
qed (simp add: clock_pushes_def)

text \<open>C12
  The clock jobs that are past due run in the order of their instants and, at the same instant, in the order
  in which they were enqueued; the others stay in that order, without the cancelled ones.
\<close>
theorem clock_jobs_in_order:
  assumes "jw_clock_jobs w = clock_pushes xs"
  shows "\<exists>w'. take_due_jobs now w = Some (Inr (map snd (sort_key fst (filter (\<lambda>(at, job). at < now) xs))), w') \<and>
    concat (map snd (jw_clock_jobs w')) =
      map snd (sort_key fst (filter (\<lambda>(at, job). \<not> at < now \<and> \<not> clock_job_cancelled w job) xs))"
proof -
  have flat: "concat (map snd (filter (\<lambda>(t, js). P t) m)) =
      map snd (filter (\<lambda>(t, j). P t) (concat (map (\<lambda>(t, js). map (Pair t) js) m)))" for P :: "nat \<Rightarrow> bool" and m :: "(nat \<times> 'c list) list"
    by (induction m) (auto simp: filter_map o_def)
  have keep: "concat (map snd (filter (\<lambda>(t, js). js \<noteq> []) (map (\<lambda>(t, js). (t, filter Q js)) (filter (\<lambda>(t, js). P t) m)))) =
      map snd (filter (\<lambda>(t, j). P t \<and> Q j) (concat (map (\<lambda>(t, js). map (Pair t) js) m)))"
    for P :: "nat \<Rightarrow> bool" and Q and m :: "(nat \<times> 'c list) list"
    by (induction m) (auto simp: filter_map o_def filter_empty_conv)
  show ?thesis
    using assms flat [of "\<lambda>t. t < now" "clock_pushes xs"]
      keep [of "\<lambda>job. \<not> clock_job_cancelled w job" "\<lambda>t. \<not> t < now" "clock_pushes xs"] clock_pushes_sorted [of xs]
    by (simp add: take_due_jobs_def Let_def filter_sort)
qed

definition demo_timer :: "nat \<Rightarrow> nat clock_job" where
  "demo_timer n = Timeout \<lparr>tj_timeout = n, tj_job = None, tj_token = 0\<rparr>"

definition demo_timers :: "(nat, unit) jworld" where
  "demo_timers = demo_jobs demo_settled\<lparr>jw_clock_jobs :=
     clock_pushes [(9, demo_timer 3), (4, demo_timer 1), (20, demo_timer 5), (9, demo_timer 2)]\<rparr>"

theorem clock_jobs_in_order_witness:
  "\<exists>w'. take_due_jobs 10 demo_timers = Some (Inr [demo_timer 1, demo_timer 3, demo_timer 2], w')"
proof -
  have "jw_clock_jobs demo_timers = clock_pushes [(9, demo_timer 3), (4, demo_timer 1), (20, demo_timer 5), (9, demo_timer 2)]"
    by (simp add: demo_timers_def)
  from clock_jobs_in_order [OF this, of 10] show ?thesis by auto
qed

end
