(* ===== verification/PromiseAll.thy ===== *)
theory PromiseAll
  imports PromiseProperties
begin

text \<open>
  The closures of the elements of \<open>Promise.all\<close> and \<open>Promise.allKeyed\<close>, run in any order over the cells that
  they share.
\<close>

text \<open>The closures of some elements, called one after the other.\<close>

fun run_elements :: "(nat \<Rightarrow> ('w, js_value) run) \<Rightarrow> nat list \<Rightarrow> ('w, js_value) run" where
  "run_elements element [] = run_return VUndefined"
| "run_elements element (i # is) =
     run_bind (element i) (\<lambda>v. if is = [] then run_return v else run_elements element is)"

definition element_world ::
  "(nat \<Rightarrow> nat) \<Rightarrow> nat \<Rightarrow> nat \<Rightarrow> (nat \<Rightarrow> js_value) \<Rightarrow> nat \<Rightarrow> 'x promise_world_scheme \<Rightarrow> 'x promise_world_scheme" where
  "element_world already values remaining x i w =
     w\<lparr>pw_flags := (pw_flags w)[already i := True],
       pw_values := (pw_values w)[values := (pw_values w ! values)[i := x i]],
       pw_counters := (pw_counters w)[remaining := pw_counters w ! remaining - 1]\<rparr>"

text \<open>
  What an element does to a world where it was not called yet: its value is stored, and the last one
  finishes the combinator.
\<close>

definition element_acts ::
  "(nat \<Rightarrow> nat) \<Rightarrow> nat \<Rightarrow> nat \<Rightarrow> (nat \<Rightarrow> js_value) \<Rightarrow> (nat \<Rightarrow> ('x promise_world_scheme, js_value) run) \<Rightarrow>
     ('x promise_world_scheme, js_value) run \<Rightarrow> bool" where
  "element_acts already values remaining x element finish \<longleftrightarrow>
     (\<forall>i w. already i < length (pw_flags w) \<and> \<not> pw_flags w ! already i \<and> values < length (pw_values w) \<and>
        i < length (pw_values w ! values) \<and> remaining < length (pw_counters w) \<longrightarrow>
        element i w =
          (let w' = element_world already values remaining x i w in
           if pw_counters w' ! remaining = 0 then finish w' else Some (Inr VUndefined, w')))"

lemma elements_act:
  "element_acts already values remaining x (\<lambda>i. all_resolve_element E (already i) i values f remaining [x i])
     (resolve_with_values E values f)"
  "element_acts already values remaining x (\<lambda>i. keyed_resolve_element E (already i) i KeyedAll keys values f remaining [x i])
     (resolve_with_keyed E keys values f)"
proof -
  have same: "pw_counters_update (\<lambda>as. as[remaining := c]) (pw_values_update (\<lambda>as. as[values := vs])
      (pw_flags_update (\<lambda>as. as[already i := True]) w)) =
      w\<lparr>pw_flags := (pw_flags w)[already i := True], pw_values := (pw_values w)[values := vs],
        pw_counters := (pw_counters w)[remaining := c]\<rparr>" for c vs i and w :: "'x promise_world_scheme"
    by (cases w) simp
  note defs = element_acts_def element_once_def set_value_def add_remaining_def read_cell_def write_cell_def run_bind_def
    run_return_def get_or_undefined_def element_world_def same Let_def
  show "element_acts already values remaining x (\<lambda>i. all_resolve_element E (already i) i values f remaining [x i])
      (resolve_with_values E values f)"
    by (simp add: all_resolve_element_def defs)
  show "element_acts already values remaining x (\<lambda>i. keyed_resolve_element E (already i) i KeyedAll keys values f remaining [x i])
      (resolve_with_keyed E keys values f)"
    by (simp add: keyed_resolve_element_def keyed_element_def defs)
qed

lemma set_flag: "j < length bs \<Longrightarrow> bs[i := True] ! j = (bs ! j \<or> j = i)"
  by (cases "i = j") auto

lemma run_elements_run:
  fixes x :: "nat \<Rightarrow> js_value"
  assumes act: "element_acts already values remaining x element finish"
    and "is \<noteq> []" "distinct is" "length is < 2 ^ 31" "inj_on already (set is)"
    "\<forall>i \<in> set is. already i < length (pw_flags w) \<and> \<not> pw_flags w ! already i \<and> i < length (pw_values w ! values)"
    "values < length (pw_values w)" "remaining < length (pw_counters w)" "pw_counters w ! remaining = of_nat (length is)"
  shows "run_elements element is w = finish (fold (element_world already values remaining x) is w)"
  using assms(2-)
proof (induction "is" arbitrary: w)
  case (Cons i js)
  let ?w = "element_world already values remaining x i w"
  have n: "pw_counters ?w ! remaining = of_nat (length js)"
    using Cons.prems(7,8) by (simp add: element_world_def)
  have run: "element i w = (if pw_counters ?w ! remaining = 0 then finish ?w else Some (Inr VUndefined, ?w))"
    using act [unfolded element_acts_def, rule_format, of i w] Cons.prems(5,6,7) by (simp add: Let_def)
  show ?case
  proof (cases "js = []")
    case True
    have "run_bind m (\<lambda>v. run_return v) w = m w" for m :: "('a promise_world_scheme, js_value) run" and w
      by (cases "m w") (auto simp: run_bind_def run_return_def split: sum.splits prod.splits)
    then show ?thesis using run n True by simp
  next
    case False
    have "of_nat (length js) \<noteq> (0 :: i32)"
      using False Cons.prems(3) by (auto simp: word_of_nat_eq_0_iff dest!: dvd_imp_le)
    then have 1: "element i w = Some (Inr VUndefined, ?w)"
      using run n by simp
    have "already j \<noteq> already i" if "j \<in> set js" for j
      using that Cons.prems(2,4) by (auto simp: inj_on_def)
    then have "run_elements element js ?w = finish (fold (element_world already values remaining x) js ?w)"
      using False Cons.prems n by (intro Cons.IH) (auto simp: element_world_def set_flag)
    then show ?thesis using False by (simp add: run_bind_cases(1) 1)
  qed
qed simp

lemma elements_world:
  assumes "values < length (pw_values w)"
  shows "pw_values (fold (element_world already values n x) is w) ! values =
      fold (\<lambda>i vs. vs[i := x i]) is (pw_values w ! values)"
    "pw_jobs (fold (element_world already values n x) is w) = pw_jobs w"
    "pw_keys (fold (element_world already values n x) is w) = pw_keys w"
    "pw_promises (fold (element_world already values n x) is w) = pw_promises w"
    "j < length (pw_flags w) \<Longrightarrow>
      pw_flags (fold (element_world already values n x) is w) ! j = (pw_flags w ! j \<or> j \<in> already ` set is)"
  using assms by (induction "is" arbitrary: w) (auto simp: element_world_def nth_list_update set_flag)

lemma fold_values: "length (fold (\<lambda>i vs. vs[i := x i]) is vs) = length vs"
  "j < length vs \<Longrightarrow> fold (\<lambda>i vs. vs[i := x i]) is vs ! j = (if j \<in> set is then x j else vs ! j)"
  by (induction "is" arbitrary: vs) (auto simp: nth_list_update)

text \<open>C10
  \<open>Promise.all\<close> and \<open>Promise.allKeyed\<close> with \<open>k\<close> elements: in whatever order the elements resolve, the result
  is resolved when the last one does, and not before, with an array of the values in the order of the
  elements, or an object of the keys and the values in this order; nothing else is settled or enqueued until
  then.
\<close>
theorem promise_all_in_order:
  assumes js: "distinct js" "set js = {..<k}" "0 < k" "k < 2 ^ 31"
    and flags: "inj_on already {..<k}" "\<forall>i < k. already i < length (pw_flags w) \<and> \<not> pw_flags w ! already i"
    and vs: "values < length (pw_values w)" "length (pw_values w ! values) = k"
    and count: "remaining < length (pw_counters w)" "pw_counters w ! remaining = of_nat k"
  shows "\<exists>w'. run_elements (\<lambda>i. all_resolve_element E (already i) i values f remaining [x i]) js w =
      run_bind (array_from_list E (map x [0..<k])) (\<lambda>a. call_function E f [VObject a]) w' \<and>
    (keys < length (pw_keys w) \<longrightarrow>
      run_elements (\<lambda>i. keyed_resolve_element E (already i) i KeyedAll keys values f remaining [x i]) js w =
      run_bind (create_keyed_result_object E (pw_keys w ! keys) (map x [0..<k])) (\<lambda>a. call_function E f [VObject a]) w') \<and>
    pw_values w' ! values = map x [0..<k] \<and> (\<forall>i < k. pw_flags w' ! already i) \<and>
    pw_promises w' = pw_promises w \<and> pw_jobs w' = pw_jobs w"
proof -
  let ?w = "fold (element_world already values remaining x) js w"
  have len: "length js = k" using js by (metis card_lessThan distinct_card)
  have vals: "pw_values ?w ! values = map x [0..<k]"
    using vs js(2) by (intro nth_equalityI) (auto simp: elements_world fold_values)
  have "length (pw_values ?w) = length (pw_values w)"
    by (induction js arbitrary: w) (simp_all add: element_world_def)
  then have cell: "values < length (pw_values ?w)" "pw_keys ?w = pw_keys w"
    using vs(1) by (simp_all add: elements_world)
  have run: "run_elements element js w = finish ?w" if "element_acts already values remaining x element finish" for element finish
    using js flags vs count len by (intro run_elements_run [OF that]) auto
  have "run_elements (\<lambda>i. all_resolve_element E (already i) i values f remaining [x i]) js w =
      run_bind (array_from_list E (map x [0..<k])) (\<lambda>a. call_function E f [VObject a]) ?w"
    unfolding run [OF elements_act(1)] resolve_with_values_def
    using cell vals by (simp add: run_bind_def read_cell_def)
  moreover have "keys < length (pw_keys w) \<longrightarrow>
      run_elements (\<lambda>i. keyed_resolve_element E (already i) i KeyedAll keys values f remaining [x i]) js w =
      run_bind (create_keyed_result_object E (pw_keys w ! keys) (map x [0..<k])) (\<lambda>a. call_function E f [VObject a]) ?w"
    unfolding run [OF elements_act(2)] resolve_with_keyed_def
    using cell vals by (simp add: run_bind_def read_cell_def)
  moreover have "\<forall>i < k. pw_flags ?w ! already i"
    using flags(2) vs(1) js(2) by (auto simp: elements_world)
  ultimately show ?thesis
    using vals vs(1) by (intro exI [of _ ?w]) (simp add: elements_world)
qed

definition demo_elements :: "(nat, unit) jworld" where
  "demo_elements =
     demo_jobs demo_settled\<lparr>pw_flags := [False, False], pw_values := [[VUndefined, VUndefined]], pw_keys := [[PKIndex 7, PKIndex 8]],
       pw_counters := [2]\<rparr>"

theorem promise_all_in_order_witness:
  "\<exists>w'. run_elements (\<lambda>i. all_resolve_element demo_base i i 0 4 0 [VInteger32 (of_nat i)]) [1, 0] demo_elements =
      run_bind (array_from_list demo_base [VInteger32 0, VInteger32 1]) (\<lambda>a. call_function demo_base 4 [VObject a]) w' \<and>
    run_elements (\<lambda>i. keyed_resolve_element demo_base i i KeyedAll 0 0 4 0 [VInteger32 (of_nat i)]) [1, 0] demo_elements =
      run_bind (create_keyed_result_object demo_base [PKIndex 7, PKIndex 8] [VInteger32 0, VInteger32 1])
        (\<lambda>a. call_function demo_base 4 [VObject a]) w' \<and>
    pw_jobs w' = []"
proof -
  have m: "map (\<lambda>i. VInteger32 (of_nat i)) [0..<2] = [VInteger32 0, VInteger32 1]"
    by (simp add: numeral_2_eq_2)
  have w: "pw_jobs demo_elements = []" "pw_keys demo_elements = [[PKIndex 7, PKIndex 8]]"
    by (simp_all add: demo_elements_def)
  have "\<exists>w'. run_elements (\<lambda>i. all_resolve_element demo_base i i 0 4 0 [VInteger32 (of_nat i)]) [1, 0] demo_elements =
      run_bind (array_from_list demo_base (map (\<lambda>i. VInteger32 (of_nat i)) [0..<2])) (\<lambda>a. call_function demo_base 4 [VObject a]) w' \<and>
    (0 < length (pw_keys demo_elements) \<longrightarrow>
      run_elements (\<lambda>i. keyed_resolve_element demo_base i i KeyedAll 0 0 4 0 [VInteger32 (of_nat i)]) [1, 0] demo_elements =
      run_bind (create_keyed_result_object demo_base (pw_keys demo_elements ! 0) (map (\<lambda>i. VInteger32 (of_nat i)) [0..<2]))
        (\<lambda>a. call_function demo_base 4 [VObject a]) w') \<and>
    pw_values w' ! 0 = map (\<lambda>i. VInteger32 (of_nat i)) [0..<2] \<and> (\<forall>i < 2. pw_flags w' ! i) \<and>
    pw_promises w' = pw_promises demo_elements \<and> pw_jobs w' = pw_jobs demo_elements"
    by (rule promise_all_in_order) (auto simp: demo_elements_def less_2_cases_iff)
  then show ?thesis unfolding m w by (auto simp del: run_elements.simps)
qed

end
