(* ===== verification/Strings.thy ===== *)
theory Strings
  imports Prelude
begin

text \<open>
  Rust's strings as the engine uses them: a \<open>str\<close> is a list of Unicode scalar values, which the standard
  library gives as UTF-8 bytes and as UTF-16 code units, and reads back from them.
\<close>

type_synonym rust_str = "nat list"

definition scalar_value :: "nat \<Rightarrow> bool" where
  "scalar_value c \<longleftrightarrow> c < 0xD800 \<or> 0xE000 \<le> c \<and> c < 0x110000"

definition str_ok :: "rust_str \<Rightarrow> bool" where
  "str_ok s \<longleftrightarrow> list_all scalar_value s"

lemma str_ok_simps [simp]:
  "str_ok []" "str_ok (c # s) \<longleftrightarrow> scalar_value c \<and> str_ok s"
  by (simp_all add: str_ok_def)

section \<open>UTF-8\<close>

definition byte :: "nat \<Rightarrow> u8" where
  "byte n = of_nat n"

definition utf8_char :: "nat \<Rightarrow> u8 list" where
  "utf8_char c =
     (if c < 0x80 then [byte c]
      else if c < 0x800 then [byte (0xC0 + c div 64), byte (0x80 + c mod 64)]
      else if c < 0x10000 then
        [byte (0xE0 + c div 4096), byte (0x80 + c div 64 mod 64), byte (0x80 + c mod 64)]
      else [byte (0xF0 + c div 262144), byte (0x80 + c div 4096 mod 64), byte (0x80 + c div 64 mod 64),
        byte (0x80 + c mod 64)])"

definition as_bytes :: "rust_str \<Rightarrow> u8 list" where
  "as_bytes s = concat (map utf8_char s)"

text \<open>\<open>str::from_utf8_unchecked\<close>, which trusts the bytes; what it does with others is undefined.\<close>

definition continuation :: "u8 \<Rightarrow> nat" where
  "continuation b = unat b - 0x80"

fun from_utf8 :: "u8 list \<Rightarrow> rust_str panics" where
  "from_utf8 [] = Some []"
| "from_utf8 (a # bs) =
     (if unat a < 0x80 then map_option ((#) (unat a)) (from_utf8 bs)
      else if unat a < 0xE0 then
        (case bs of
           b # bs \<Rightarrow> map_option ((#) ((unat a - 0xC0) * 64 + continuation b)) (from_utf8 bs)
         | _ \<Rightarrow> None)
      else if unat a < 0xF0 then
        (case bs of
           b # c # bs \<Rightarrow>
             map_option ((#) ((unat a - 0xE0) * 4096 + continuation b * 64 + continuation c)) (from_utf8 bs)
         | _ \<Rightarrow> None)
      else
        (case bs of
           b # c # d # bs \<Rightarrow>
             map_option ((#) ((unat a - 0xF0) * 262144 + continuation b * 4096 + continuation c * 64 + continuation d))
               (from_utf8 bs)
         | _ \<Rightarrow> None))"

lemma unat_byte [simp]: "n < 256 \<Longrightarrow> unat (byte n) = n"
  by (simp add: byte_def unat_of_nat take_bit_eq_mod)

lemma continuation_byte [simp]: "continuation (byte (128 + n mod 64)) = n mod 64"
  by (simp add: continuation_def)

lemma digits:
  "c div 4096 = c div 64 div 64" "c div 262144 = c div 64 div 64 div (64 :: nat)"
  by (simp_all add: div_mult2_eq [symmetric])

lemma from_utf8_char:
  assumes "scalar_value c"
  shows "from_utf8 (utf8_char c @ bs) = map_option ((#) c) (from_utf8 bs)"
proof -
  define d e f where "d = c div 64" "e = d div 64" "f = e div 64"
  have c: "c = d * 64 + c mod 64" "d = e * 64 + d mod 64" "e = f * 64 + e mod 64"
    by (simp_all add: d_e_f_def)
  have f: "f < 5" using assms by (auto simp: d_e_f_def scalar_value_def digits [symmetric])
  have eq: "c div 64 = d" "c div 4096 = e" "c div 262144 = f"
    by (simp_all add: d_e_f_def digits)
  consider "c < 0x80" | "0x80 \<le> c" "c < 0x800" | "0x800 \<le> c" "c < 0x10000" | "0x10000 \<le> c" by linarith
  then show ?thesis
  proof cases
    case 2
    then have "d < 32" by (simp add: d_e_f_def)
    then show ?thesis using 2 c(1) by (simp add: utf8_char_def eq)
  next
    case 3
    then have "e < 16" by (simp add: d_e_f_def digits [symmetric])
    moreover have "e * 4096 + d mod 64 * 64 + c mod 64 = c" using c(1,2) by linarith
    ultimately show ?thesis using 3 by (simp add: utf8_char_def eq)
  next
    case 4
    have "f * 262144 + e mod 64 * 4096 + d mod 64 * 64 + c mod 64 = c" using c by linarith
    then show ?thesis using 4 f by (simp add: utf8_char_def eq)
  qed (simp add: utf8_char_def)
qed

theorem from_utf8_as_bytes: "str_ok s \<Longrightarrow> from_utf8 (as_bytes s) = Some s"
  by (induction s) (simp_all add: as_bytes_def from_utf8_char)

lemma as_bytes_inj: "str_ok s \<Longrightarrow> str_ok t \<Longrightarrow> as_bytes s = as_bytes t \<longleftrightarrow> s = t"
  using from_utf8_as_bytes by (metis option.inject)

lemma as_bytes_Nil [simp]: "as_bytes s = [] \<longleftrightarrow> s = []"
  by (cases s) (auto simp: as_bytes_def utf8_char_def)

section \<open>UTF-16\<close>

definition code_unit :: "nat \<Rightarrow> u16" where
  "code_unit n = of_nat n"

definition utf16_char :: "nat \<Rightarrow> u16 list" where
  "utf16_char c =
     (if c < 0x10000 then [code_unit c]
      else [code_unit (0xD800 + (c - 0x10000) div 1024), code_unit (0xDC00 + (c - 0x10000) mod 1024)])"

definition encode_utf16 :: "rust_str \<Rightarrow> u16 list" where
  "encode_utf16 s = concat (map utf16_char s)"

text \<open>\<open>String::from_utf16\<close>, which fails on an unpaired surrogate.\<close>

fun from_utf16 :: "u16 list \<Rightarrow> rust_str option" where
  "from_utf16 [] = Some []"
| "from_utf16 (u # us) =
     (if unat u < 0xD800 \<or> 0xE000 \<le> unat u then map_option ((#) (unat u)) (from_utf16 us)
      else if 0xDC00 \<le> unat u then None
      else
        (case us of
           [] \<Rightarrow> None
         | v # us \<Rightarrow>
             if 0xDC00 \<le> unat v \<and> unat v < 0xE000 then
               map_option ((#) (0x10000 + (unat u - 0xD800) * 1024 + (unat v - 0xDC00))) (from_utf16 us)
             else None))"

lemma unat_code_unit [simp]: "n < 65536 \<Longrightarrow> unat (code_unit n) = n"
  by (simp add: code_unit_def unat_of_nat take_bit_eq_mod)

lemma code_unit_unat [simp]: "code_unit (unat u) = u"
  by (simp add: code_unit_def)

lemma u16_less: "unat (u :: u16) < 65536"
  using unsigned_less [of u] by simp

lemma from_utf16_char:
  assumes "scalar_value c"
  shows "from_utf16 (utf16_char c @ us) = map_option ((#) c) (from_utf16 us)"
proof (cases "c < 0x10000")
  case True
  then show ?thesis using assms by (auto simp: utf16_char_def scalar_value_def)
next
  case False
  define d where "d = c - 0x10000"
  have d: "d div 1024 < 1024" "c = 0x10000 + d" using False assms by (auto simp: d_def scalar_value_def)
  have e: "c - 0x10000 = d" by (simp add: d_def)
  have "d div 1024 * 1024 + d mod 1024 = d" by simp
  then have "0x10000 + d div 1024 * 1024 + d mod 1024 = c" using d(2) by simp
  then show ?thesis
    using False d(1) by (simp add: utf16_char_def e)
qed

theorem from_utf16_encode: "str_ok s \<Longrightarrow> from_utf16 (encode_utf16 s) = Some s"
  by (induction s) (simp_all add: encode_utf16_def from_utf16_char)

theorem encode_from_utf16: "from_utf16 us = Some s \<Longrightarrow> encode_utf16 s = us \<and> str_ok s"
proof (induction us arbitrary: s rule: from_utf16.induct)
  case (2 u us)
  consider "unat u < 0xD800 \<or> 0xE000 \<le> unat u"
    | v vs where "0xD800 \<le> unat u" "unat u < 0xDC00" "us = v # vs" "0xDC00 \<le> unat v" "unat v < 0xE000"
    using "2.prems" by (force split: if_splits list.splits)
  then show ?case
  proof cases
    case 1
    then obtain t where t: "from_utf16 us = Some t" "s = unat u # t" using "2.prems" by auto
    then have "encode_utf16 t = us \<and> str_ok t" using "2.IH"(1) 1 by blast
    then show ?thesis
      using t 1 u16_less [of u] by (auto simp: encode_utf16_def utf16_char_def scalar_value_def)
  next
    case 2
    define c where "c = 0x10000 + (unat u - 0xD800) * 1024 + (unat v - 0xDC00)"
    obtain t where t: "from_utf16 vs = Some t" "s = c # t" using "2.prems" 2 by (auto simp: c_def)
    have "encode_utf16 t = vs \<and> str_ok t" using "2.IH"(2) 2 t by auto
    moreover have "utf16_char c = [u, v]"
    proof -
      define i j where "i = unat u - 0xD800" "j = unat v - 0xDC00"
      have ij: "unat u = 0xD800 + i" "unat v = 0xDC00 + j" "j < 1024" using 2 by (simp_all add: i_j_def)
      have "c - 0x10000 = i * 1024 + j" by (simp add: c_def i_j_def)
      moreover have "(i * 1024 + j) div 1024 = i" "(i * 1024 + j) mod 1024 = j" using ij(3) by simp_all
      moreover have "code_unit (0xD800 + i) = u" "code_unit (0xDC00 + j) = v"
        using code_unit_unat [of u] code_unit_unat [of v] ij by simp_all
      moreover have "\<not> c < 0x10000" by (simp add: c_def)
      ultimately show ?thesis
        by (simp add: utf16_char_def)
    qed
    moreover have "scalar_value c" using 2 by (auto simp: c_def scalar_value_def)
    ultimately show ?thesis using t 2 by (simp add: encode_utf16_def)
  qed
qed (simp_all add: encode_utf16_def)

lemma encode_utf16_inj: "str_ok s \<Longrightarrow> str_ok t \<Longrightarrow> encode_utf16 s = encode_utf16 t \<longleftrightarrow> s = t"
  using from_utf16_encode by (metis option.inject)

lemma encode_utf16_Nil [simp]: "encode_utf16 s = [] \<longleftrightarrow> s = []"
  by (cases s) (auto simp: encode_utf16_def utf16_char_def)

text \<open>Literals.\<close>

definition str_literal :: "string \<Rightarrow> rust_str" where
  "str_literal s = map of_char s"

end
