(* ===== verification/Interner.thy ===== *)
theory Interner
  imports Strings
begin

text \<open>
  The string interner (\<open>core/interner\<close>). A \<open>FixedString\<close> is a vector that must never move, since pointers into
  its buffer are kept: the buffers are boxes of an explicit memory, a vector that grows past its capacity
  gets a new one, and reading through a pointer into a buffer that is gone is undefined, as \<open>None\<close>.
\<close>

section \<open>Memory\<close>

text \<open>The buffers by their address; \<open>None\<close> is one that was freed. A vector is its buffer and its capacity.\<close>

type_synonym 'c memory = "'c list option list"

record vec =
  vec_address :: nat
  vec_capacity :: nat

definition buffer :: "'c memory \<Rightarrow> nat \<Rightarrow> 'c list panics" where
  "buffer mem a = (if a < length mem then mem ! a else None)"

definition free :: "'c memory \<Rightarrow> nat \<Rightarrow> 'c memory" where
  "free mem a = mem[a := None]"

text \<open>
  \<open>Vec::with_capacity\<close>, which may reserve more than is asked for: \<open>slack\<close> says how much. A vector without
  capacity, which has no buffer, has an empty one here.
\<close>

definition with_capacity :: "(nat \<Rightarrow> nat) \<Rightarrow> 'c memory \<Rightarrow> nat \<Rightarrow> vec \<times> 'c memory" where
  "with_capacity slack mem capacity =
     (\<lparr>vec_address = length mem, vec_capacity = capacity + slack capacity\<rparr>, mem @ [Some []])"

text \<open>\<open>Vec::extend_from_slice\<close>: within the capacity in place, else into a new buffer.\<close>

definition extend_from_slice :: "(nat \<Rightarrow> nat) \<Rightarrow> 'c memory \<Rightarrow> vec \<Rightarrow> 'c list \<Rightarrow> (vec \<times> 'c memory) panics" where
  "extend_from_slice slack mem v string =
     (case buffer mem (vec_address v) of
        None \<Rightarrow> None
      | Some chars \<Rightarrow>
          let n = length chars + length string in
          if n \<le> vec_capacity v then Some (v, mem[vec_address v := Some (chars @ string)])
          else
            let capacity = max (2 * vec_capacity v) n in
            Some (\<lparr>vec_address = length mem, vec_capacity = capacity + slack capacity\<rparr>,
              free mem (vec_address v) @ [Some (chars @ string)]))"

section \<open>Pointers\<close>

text \<open>A \<open>NonNull\<close> to a static slice, or to a part of a buffer.\<close>

datatype 'c interned_str = StaticStr "'c list" | HeapStr nat nat nat

fun as_ref :: "'c memory \<Rightarrow> 'c interned_str \<Rightarrow> 'c list panics" where
  "as_ref mem (StaticStr s) = Some s"
| "as_ref mem (HeapStr a start len) =
     (if len = 0 then Some []
      else
        (case buffer mem a of
           None \<Rightarrow> None
         | Some chars \<Rightarrow> if start + len \<le> length chars then Some (take len (drop start chars)) else None))"

section \<open>\<open>FixedString\<close>\<close>

definition fixed_new :: "(nat \<Rightarrow> nat) \<Rightarrow> 'c memory \<Rightarrow> nat \<Rightarrow> vec \<times> 'c memory" where
  "fixed_new slack mem capacity = with_capacity slack mem capacity"

definition fixed_is_empty :: "'c memory \<Rightarrow> vec \<Rightarrow> bool panics" where
  "fixed_is_empty mem v = map_option (\<lambda>chars. chars = []) (buffer mem (vec_address v))"

definition push_unchecked ::
  "(nat \<Rightarrow> nat) \<Rightarrow> 'c memory \<Rightarrow> vec \<Rightarrow> 'c list \<Rightarrow> ('c interned_str \<times> vec \<times> 'c memory) panics" where
  "push_unchecked slack mem v string =
     (case buffer mem (vec_address v) of
        None \<Rightarrow> None
      | Some chars \<Rightarrow>
          map_option (\<lambda>(v, mem). (HeapStr (vec_address v) (length chars) (length string), v, mem))
            (extend_from_slice slack mem v string))"

text \<open>The inner \<open>None\<close> is the answer that the capacity is not enough.\<close>

definition fixed_push ::
  "(nat \<Rightarrow> nat) \<Rightarrow> 'c memory \<Rightarrow> vec \<Rightarrow> 'c list \<Rightarrow> ('c interned_str \<times> vec \<times> 'c memory) option panics" where
  "fixed_push slack mem v string =
     (case buffer mem (vec_address v) of
        None \<Rightarrow> None
      | Some chars \<Rightarrow>
          if length chars + length string \<le> vec_capacity v then map_option Some (push_unchecked slack mem v string)
          else Some None)"

section \<open>\<open>RawInterner\<close>\<close>

text \<open>The symbol cache is keyed by pointers, whose equality is that of the strings they point to.\<close>

record 'c raw_interner =
  ri_symbol_cache :: "('c interned_str \<times> nat) list"
  ri_spans :: "'c interned_str list"
  ri_head :: vec
  ri_full :: "vec list"
  ri_memory :: "'c memory"

definition raw_with_capacity :: "(nat \<Rightarrow> nat) \<Rightarrow> nat \<Rightarrow> 'c raw_interner" where
  "raw_with_capacity slack capacity =
     (let (head, mem) = fixed_new slack [] capacity in
      \<lparr>ri_symbol_cache = [], ri_spans = [], ri_head = head, ri_full = [], ri_memory = mem\<rparr>)"

definition raw_default :: "'c raw_interner" where
  "raw_default =
     \<lparr>ri_symbol_cache = [], ri_spans = [], ri_head = \<lparr>vec_address = 0, vec_capacity = 0\<rparr>, ri_full = [], ri_memory = [Some []]\<rparr>"

definition raw_len :: "'c raw_interner \<Rightarrow> nat" where
  "raw_len r = length (ri_spans r)"

text \<open>A lookup reads through the keys it is compared with; here through all, so all must be readable.\<close>

fun cache_get :: "'c memory \<Rightarrow> ('c interned_str \<times> nat) list \<Rightarrow> 'c list \<Rightarrow> nat option panics" where
  "cache_get mem [] string = Some None"
| "cache_get mem ((p, i) # cache) string =
     (case as_ref mem p of
        None \<Rightarrow> None
      | Some s \<Rightarrow> map_option (\<lambda>found. if s = string then Some i else found) (cache_get mem cache string))"

text \<open>\<open>HashMap::insert\<close> keeps the old key when there is one.\<close>

fun cache_insert ::
  "'c memory \<Rightarrow> ('c interned_str \<times> nat) list \<Rightarrow> 'c interned_str \<Rightarrow> nat \<Rightarrow> ('c interned_str \<times> nat) list panics" where
  "cache_insert mem [] p i = Some [(p, i)]"
| "cache_insert mem ((q, j) # cache) p i =
     (case (as_ref mem q, as_ref mem p) of
        (Some s, Some t) \<Rightarrow>
          if s = t then Some ((q, i) # cache) else map_option ((#) (q, j)) (cache_insert mem cache p i)
      | _ \<Rightarrow> None)"

definition raw_get :: "'c raw_interner \<Rightarrow> 'c list \<Rightarrow> nat option panics" where
  "raw_get r string = cache_get (ri_memory r) (ri_symbol_cache r) string"

definition next_index :: "'c raw_interner \<Rightarrow> 'c interned_str \<Rightarrow> (nat \<times> 'c raw_interner) panics" where
  "next_index r string =
     (let i = raw_len r in
      map_option (\<lambda>cache. (i, r\<lparr>ri_spans := ri_spans r @ [string], ri_symbol_cache := cache\<rparr>))
        (cache_insert (ri_memory r) (ri_symbol_cache r) string i))"

definition intern_static :: "'c raw_interner \<Rightarrow> 'c list \<Rightarrow> (nat \<times> 'c raw_interner) panics" where
  "intern_static r string = next_index r (StaticStr string)"

definition raw_index :: "'c raw_interner \<Rightarrow> nat \<Rightarrow> 'c list option panics" where
  "raw_index r i =
     (case vec_get (ri_spans r) i of None \<Rightarrow> Some None | Some p \<Rightarrow> map_option Some (as_ref (ri_memory r) p))"

text \<open>\<open>usize::next_power_of_two\<close>\<close>

function power_from :: "nat \<Rightarrow> nat \<Rightarrow> nat" where
  "power_from p n = (if n \<le> p \<or> p = 0 then p else power_from (2 * p) n)"
  by pat_completeness auto
termination by (relation "measure (\<lambda>(p, n). n - p)") auto

declare power_from.simps [simp del]

definition next_power_of_two :: "nat \<Rightarrow> nat" where
  "next_power_of_two n = power_from 1 n"

text \<open>A new head with room for the string; the old one is kept in \<open>full\<close>, or dropped when it is empty.\<close>

definition new_head :: "(nat \<Rightarrow> nat) \<Rightarrow> 'c raw_interner \<Rightarrow> 'c list \<Rightarrow> 'c raw_interner panics" where
  "new_head slack r string =
     (let new_cap = next_power_of_two (max (vec_capacity (ri_head r)) (length string) + 1);
          (head, mem) = fixed_new slack (ri_memory r) new_cap;
          old_head = ri_head r in
      map_option
        (\<lambda>is_empty.
           if \<not> is_empty then r\<lparr>ri_head := head, ri_memory := mem, ri_full := ri_full r @ [old_head]\<rparr>
           else r\<lparr>ri_head := head, ri_memory := free mem (vec_address old_head)\<rparr>)
        (fixed_is_empty mem old_head))"

definition raw_intern :: "(nat \<Rightarrow> nat) \<Rightarrow> 'c raw_interner \<Rightarrow> 'c list \<Rightarrow> (nat \<times> 'c raw_interner) panics" where
  "raw_intern slack r string =
     (case fixed_push slack (ri_memory r) (ri_head r) string of
        None \<Rightarrow> None
      | Some (Some (p, head, mem)) \<Rightarrow> next_index (r\<lparr>ri_head := head, ri_memory := mem\<rparr>) p
      | Some None \<Rightarrow>
          (case new_head slack r string of
             None \<Rightarrow> None
           | Some r \<Rightarrow>
               (case push_unchecked slack (ri_memory r) (ri_head r) string of
                  None \<Rightarrow> None
                | Some (p, head, mem) \<Rightarrow> next_index (r\<lparr>ri_head := head, ri_memory := mem\<rparr>) p)))"

section \<open>Symbols and the common strings\<close>

text \<open>A \<open>Sym\<close> is a \<open>usize\<close> other than zero.\<close>

definition sym_new :: "nat \<Rightarrow> nat option" where
  "sym_new n = (if n = 0 then None else Some n)"

definition usize_checked_add :: "nat \<Rightarrow> nat \<Rightarrow> nat option" where
  "usize_checked_add a b = (if a + b < 2 ^ 64 then Some (a + b) else None)"

definition static_syms :: "string list" where
  "static_syms =
     [''break'', ''case'', ''catch'', ''class'', ''const'', ''continue'', ''debugger'', ''default'', ''delete'', ''do'',
      ''else'', ''enum'', ''export'', ''extends'', ''false'', ''finally'', ''for'', ''function'', ''if'', ''import'', ''in'',
      ''instanceof'', ''new'', ''null'', ''return'', ''super'', ''switch'', ''this'', ''throw'', ''true'', ''try'',
      ''typeof'', ''var'', ''void'', ''while'', ''with'',
      ''implements'', ''interface'', ''let'', ''package'', ''private'', ''protected'', ''public'', ''static'', ''yield'',
      '''', ''prototype'', ''constructor'', ''arguments'', ''eval'', ''RegExp'', ''get'', ''set'', ''<main>'', ''raw'',
      ''anonymous'', ''async'', ''of'', ''target'', ''as'', ''from'', ''__proto__'', ''name'', ''await'', ''*default*'',
      ''meta'', ''defer'', ''source'', ''using'', ''dispose'', ''asyncDispose'']"

definition common_strings_utf8 :: "rust_str list" where
  "common_strings_utf8 = map str_literal static_syms"

definition common_strings_utf16 :: "u16 list list" where
  "common_strings_utf16 = map encode_utf16 common_strings_utf8"

text \<open>\<open>get_index\<close> of an ordered set\<close>

fun index_of :: "'a list \<Rightarrow> 'a \<Rightarrow> nat option" where
  "index_of [] x = None"
| "index_of (y # ys) x = (if y = x then Some 0 else map_option Suc (index_of ys x))"

text \<open>The constant that the macro makes for a literal.\<close>

definition sym_const :: "string \<Rightarrow> nat" where
  "sym_const s = (case index_of static_syms s of Some i \<Rightarrow> i + 1 | None \<Rightarrow> 0)"

definition is_reserved_identifier :: "nat \<Rightarrow> bool" where
  "is_reserved_identifier symbol \<longleftrightarrow> sym_const ''break'' \<le> symbol \<and> symbol \<le> sym_const ''with''"

definition is_strict_reserved_identifier :: "nat \<Rightarrow> bool" where
  "is_strict_reserved_identifier symbol \<longleftrightarrow> sym_const ''implements'' \<le> symbol \<and> symbol \<le> sym_const ''yield''"

section \<open>\<open>Interner\<close>\<close>

datatype jstr_ref = Utf8 rust_str | Utf16 "u16 list"

record js_interned_str_ref =
  ir_utf8 :: "rust_str option"
  ir_utf16 :: "u16 list"

definition join :: "js_interned_str_ref \<Rightarrow> (rust_str \<Rightarrow> 'a) \<Rightarrow> (u16 list \<Rightarrow> 'a) \<Rightarrow> bool \<Rightarrow> 'a" where
  "join r f g prioritize_utf8 =
     (if prioritize_utf8 then (case ir_utf8 r of Some str \<Rightarrow> f str | None \<Rightarrow> g (ir_utf16 r)) else g (ir_utf16 r))"

record interner =
  in_utf8 :: "u8 raw_interner"
  in_utf16 :: "u16 raw_interner"
  in_latin1_flags :: "bool list"

definition interner_default :: interner where
  "interner_default = \<lparr>in_utf8 = raw_default, in_utf16 = raw_default, in_latin1_flags = []\<rparr>"

definition interner_with_capacity :: "(nat \<Rightarrow> nat) \<Rightarrow> nat \<Rightarrow> interner" where
  "interner_with_capacity slack capacity =
     \<lparr>in_utf8 = raw_with_capacity slack capacity, in_utf16 = raw_with_capacity slack capacity, in_latin1_flags = []\<rparr>"

definition interner_len :: "interner \<Rightarrow> nat" where
  "interner_len I = length common_strings_utf8 + raw_len (in_utf16 I)"

fun get_common :: "jstr_ref \<Rightarrow> nat option" where
  "get_common (Utf8 s) = map_option (\<lambda>i. i + 1) (index_of common_strings_utf8 s)"
| "get_common (Utf16 s) = map_option (\<lambda>i. i + 1) (index_of common_strings_utf16 s)"

definition interner_get :: "interner \<Rightarrow> jstr_ref \<Rightarrow> nat option panics" where
  "interner_get I string =
     (case get_common string of
        Some symbol \<Rightarrow> Some (Some symbol)
      | None \<Rightarrow>
          map_option (map_option (\<lambda>i. i + 1 + length common_strings_utf8))
            (case string of Utf8 s \<Rightarrow> raw_get (in_utf8 I) (as_bytes s) | Utf16 s \<Rightarrow> raw_get (in_utf16 I) s))"

definition new_symbol :: "nat \<Rightarrow> nat panics" where
  "new_symbol i = Option.bind (usize_checked_add i (1 + length common_strings_utf8)) sym_new"

definition latin1 :: "u16 list \<Rightarrow> bool" where
  "latin1 us \<longleftrightarrow> list_all (\<lambda>c. c \<le> 0xFF) us"

definition encodings :: "jstr_ref \<Rightarrow> rust_str option \<times> u16 list" where
  "encodings string =
     (case string of Utf8 s \<Rightarrow> (Some s, encode_utf16 s) | Utf16 s \<Rightarrow> (from_utf16 s, s))"

definition get_or_intern :: "(nat \<Rightarrow> nat) \<Rightarrow> interner \<Rightarrow> jstr_ref \<Rightarrow> (nat \<times> interner) panics" where
  "get_or_intern slack I string =
     Option.bind (interner_get I string) (\<lambda>found.
       case found of
         Some symbol \<Rightarrow> Some (symbol, I)
       | None \<Rightarrow>
           (let (utf8, utf16) = encodings string in
            Option.bind
              (case utf8 of
                 Some utf8 \<Rightarrow> raw_intern slack (in_utf8 I) (as_bytes utf8)
               | None \<Rightarrow> intern_static (in_utf8 I) []) (\<lambda>(i, table8).
            Option.bind (raw_intern slack (in_utf16 I) utf16) (\<lambda>(j, table16).
              if i \<noteq> j then None
              else
                map_option
                  (\<lambda>symbol. (symbol, \<lparr>in_utf8 = table8, in_utf16 = table16,
                     in_latin1_flags = in_latin1_flags I @ [latin1 utf16]\<rparr>))
                  (new_symbol i)))))"

definition get_or_intern_static ::
  "(nat \<Rightarrow> nat) \<Rightarrow> interner \<Rightarrow> rust_str \<Rightarrow> u16 list \<Rightarrow> (nat \<times> interner) panics" where
  "get_or_intern_static slack I utf8 utf16 =
     Option.bind (interner_get I (Utf8 utf8)) (\<lambda>found.
       case found of
         Some symbol \<Rightarrow> Some (symbol, I)
       | None \<Rightarrow>
           Option.bind (raw_intern slack (in_utf8 I) (as_bytes utf8)) (\<lambda>(i, table8).
           Option.bind (raw_intern slack (in_utf16 I) utf16) (\<lambda>(j, table16).
             map_option
               (\<lambda>symbol. (symbol, \<lparr>in_utf8 = table8, in_utf16 = table16,
                  in_latin1_flags = in_latin1_flags I @ [latin1 utf16]\<rparr>))
               (new_symbol i))))"

text \<open>\<open>resolve\<close>; a subtraction below zero is a panic, and so is a missing entry of the other table.\<close>

definition usize_sub :: "nat \<Rightarrow> nat \<Rightarrow> nat panics" where
  "usize_sub a b = (if b \<le> a then Some (a - b) else None)"

definition resolve :: "interner \<Rightarrow> nat \<Rightarrow> js_interned_str_ref option panics" where
  "resolve I symbol =
     Option.bind (usize_sub symbol 1) (\<lambda>i.
       case vec_get common_strings_utf8 i of
         Some utf8 \<Rightarrow>
           map_option (\<lambda>utf16. Some \<lparr>ir_utf8 = Some utf8, ir_utf16 = utf16\<rparr>) (vec_get common_strings_utf16 i)
       | None \<Rightarrow>
           Option.bind (usize_sub i (length common_strings_utf8)) (\<lambda>i.
           Option.bind (raw_index (in_utf16 I) i) (\<lambda>utf16.
             case utf16 of
               None \<Rightarrow> Some None
             | Some utf16 \<Rightarrow>
                 Option.bind (usize_sub (raw_len (in_utf16 I)) (raw_len (in_utf8 I))) (\<lambda>d.
                 Option.bind (usize_sub i d) (\<lambda>i.
                 Option.bind (raw_index (in_utf8 I) i) (\<lambda>bytes.
                 Option.bind bytes (\<lambda>bytes.
                 Option.bind (from_utf8 bytes) (\<lambda>utf8.
                   Some (Some \<lparr>ir_utf8 = (if utf8 = [] then None else Some utf8), ir_utf16 = utf16\<rparr>)))))))))"

definition resolve_expect :: "interner \<Rightarrow> nat \<Rightarrow> js_interned_str_ref panics" where
  "resolve_expect I symbol = Option.bind (resolve I symbol) (\<lambda>r. r)"

definition is_latin1 :: "interner \<Rightarrow> nat \<Rightarrow> bool panics" where
  "is_latin1 I symbol =
     map_option
       (\<lambda>i. i < length common_strings_utf8 \<or>
          (case vec_get (in_latin1_flags I) (i - length common_strings_utf8) of Some flag \<Rightarrow> flag | None \<Rightarrow> False))
       (usize_sub symbol 1)"

end
