(* ===== verification/InternerFacts.thy ===== *)
theory InternerFacts
  imports Interner
begin

text \<open>
  The buffers of the interner never move, so its tables are lists of strings that only grow; with this the
  interner is a list of distinct strings, and a symbol a position in it.
\<close>

section \<open>Lists of strings\<close>

definition find_last :: "'a list \<Rightarrow> 'a \<Rightarrow> nat option" where
  "find_last xs x = fold (\<lambda>(i, y) found. if y = x then Some i else found) (List.enumerate 0 xs) None"

lemma find_last_simps [simp]:
  "find_last [] x = None" "find_last (xs @ [y]) x = (if y = x then Some (length xs) else find_last xs x)"
  by (simp_all add: find_last_def enumerate_append_eq)

lemma index_of_append:
  "index_of (xs @ ys) x = (case index_of xs x of Some i \<Rightarrow> Some i | None \<Rightarrow> map_option (\<lambda>i. i + length xs) (index_of ys x))"
  by (induction xs) (auto simp: option.map_comp comp_def option.map_ident split: option.splits)

lemma index_of_None [simp]: "index_of xs x = None \<longleftrightarrow> x \<notin> set xs"
  by (induction xs) auto

lemma index_of_notin [simp]: "x \<notin> set xs \<Longrightarrow> index_of xs x = None"
  by simp

lemma index_of_SomeD: "index_of xs x = Some i \<Longrightarrow> i < length xs \<and> xs ! i = x"
  by (induction xs arbitrary: i) (auto split: if_splits)

lemma index_of_nth: "distinct xs \<Longrightarrow> i < length xs \<Longrightarrow> index_of xs (xs ! i) = Some i"
proof (induction xs arbitrary: i)
  case (Cons x xs)
  then show ?case by (cases i) auto
qed simp

lemma find_last_distinct: "distinct xs \<Longrightarrow> find_last xs x = index_of xs x"
proof (induction xs rule: rev_induct)
  case (snoc y ys)
  then show ?case
    by (cases "x \<in> set ys") (auto simp: index_of_append split: option.split dest: index_of_SomeD)
qed simp

lemma find_last_map:
  "(\<And>z. z \<in> set xs \<Longrightarrow> f z = y \<longleftrightarrow> z = x) \<Longrightarrow> find_last (map f xs) y = find_last xs x"
  by (induction xs rule: rev_induct) auto

lemma index_of_map:
  "(\<And>z. z \<in> set xs \<Longrightarrow> f z = y \<longleftrightarrow> z = x) \<Longrightarrow> index_of (map f xs) y = index_of xs x"
  by (induction xs) auto

section \<open>Tables of strings\<close>

text \<open>What the interner needs of a table: it is a list to which strings are added, and found by their last position.\<close>

locale string_table =
  fixes ok :: "'r \<Rightarrow> bool" and contents :: "'r \<Rightarrow> 'c list list"
    and find_in :: "'r \<Rightarrow> 'c list \<Rightarrow> nat option panics" and at_index :: "'r \<Rightarrow> nat \<Rightarrow> 'c list option panics"
    and add :: "'r \<Rightarrow> 'c list \<Rightarrow> (nat \<times> 'r) panics"
  assumes found: "ok r \<Longrightarrow> find_in r s = Some (find_last (contents r) s)"
    and indexed: "ok r \<Longrightarrow> at_index r i = Some (vec_get (contents r) i)"
    and added: "ok r \<Longrightarrow> \<exists>r'. add r s = Some (length (contents r), r') \<and> ok r' \<and> contents r' = contents r @ [s]"
begin

lemma added_Some:
  assumes "ok r" "add r s = Some (i, r')"
  shows "ok r'" "contents r' = contents r @ [s]" "i = length (contents r)"
  using added [OF assms(1), of s] assms(2) by auto

lemma added_found:
  assumes "ok r" "add r s = Some (i, r')"
  shows "find_in r' s = Some (Some i)" "t \<noteq> s \<Longrightarrow> find_in r' t = find_in r t"
  using found [OF added_Some(1) [OF assms]] found [OF assms(1)] added_Some [OF assms] by auto

lemma added_indexed:
  assumes "ok r" "add r s = Some (i, r')"
  shows "at_index r' i = Some (Some s)" "at_index r j = Some (Some t) \<Longrightarrow> at_index r' j = Some (Some t)"
  using indexed [OF added_Some(1) [OF assms]] indexed [OF assms(1)] added_Some [OF assms]
  by (auto simp: vec_get_def nth_append split: if_splits)

end

section \<open>Buffers\<close>

text \<open>Memory grows when no buffer with something in it goes or loses anything.\<close>

definition grows :: "'c memory \<Rightarrow> 'c memory \<Rightarrow> bool" where
  "grows mem mem' \<longleftrightarrow>
     (\<forall>a chars. buffer mem a = Some chars \<and> chars \<noteq> [] \<longrightarrow> (\<exists>more. buffer mem' a = Some (chars @ more)))"

lemma grows_trans: "grows mem mem' \<Longrightarrow> grows mem' mem'' \<Longrightarrow> grows mem mem''"
  unfolding grows_def by (metis append.assoc append_is_Nil_conv)

lemma as_ref_grows:
  assumes "grows mem mem'" "as_ref mem p = Some s"
  shows "as_ref mem' p = Some s"
proof (cases p)
  case (HeapStr a start len)
  show ?thesis
  proof (cases "len = 0")
    case False
    then obtain chars where "buffer mem a = Some chars" "start + len \<le> length chars" "s = take len (drop start chars)"
      using assms(2) HeapStr by (auto split: option.splits if_splits)
    moreover from this obtain more where "buffer mem' a = Some (chars @ more)"
      using assms(1) False unfolding grows_def by force
    ultimately show ?thesis using HeapStr False by simp
  qed (use assms(2) HeapStr in simp)
qed (use assms(2) in simp)

lemma buffer_update:
  "buffer mem a = Some chars \<Longrightarrow> buffer (mem[a := Some cs]) b = (if b = a then Some cs else buffer mem b)"
  by (auto simp: buffer_def split: if_splits)

lemma buffer_append [simp]: "buffer (mem @ [x]) (length mem) = x"
  by (simp add: buffer_def)

lemma buffer_live: "buffer mem a = Some chars \<Longrightarrow> a < length mem"
  by (auto simp: buffer_def split: if_splits)

lemma buffer_old: "a < length mem \<Longrightarrow> buffer (mem @ xs) a = buffer mem a"
  by (simp add: buffer_def nth_append)

lemma grows_append: "grows mem (mem @ xs)"
  unfolding grows_def using buffer_live buffer_old by (metis append_Nil2)

lemma push_run:
  assumes "buffer mem (vec_address v) = Some chars" "length chars + length s \<le> vec_capacity v"
  defines "mem' \<equiv> mem[vec_address v := Some (chars @ s)]"
  shows "push_unchecked slack mem v s = Some (HeapStr (vec_address v) (length chars) (length s), v, mem')"
    "as_ref mem' (HeapStr (vec_address v) (length chars) (length s)) = Some s" "grows mem mem'"
  using assms(1,2) buffer_update [OF assms(1)]
  by (auto simp: push_unchecked_def extend_from_slice_def Let_def mem'_def grows_def)

section \<open>The symbol cache\<close>

definition readable :: "'c memory \<Rightarrow> 'c interned_str set \<Rightarrow> bool" where
  "readable mem ps \<longleftrightarrow> (\<forall>p \<in> ps. as_ref mem p \<noteq> None)"

lemma readable_grows: "grows mem mem' \<Longrightarrow> readable mem ps \<Longrightarrow> readable mem' ps"
  unfolding readable_def using as_ref_grows by fastforce

lemma cache_get_grows:
  "grows mem mem' \<Longrightarrow> readable mem (fst ` set cache) \<Longrightarrow> cache_get mem' cache s = cache_get mem cache s"
  by (induction cache) (auto simp: readable_def dest: as_ref_grows split: option.splits)

lemma cache_get_total: "readable mem (fst ` set cache) \<Longrightarrow> \<exists>found. cache_get mem cache s = Some found"
  by (induction cache) (auto simp: readable_def split: option.splits)

lemma cache_insert_run:
  assumes "readable mem (fst ` set cache)" "as_ref mem p = Some t"
  shows "\<exists>cache'. cache_insert mem cache p i = Some cache' \<and> fst ` set cache' \<subseteq> insert p (fst ` set cache) \<and>
    (\<forall>s. cache_get mem cache' s = (if s = t then Some (Some i) else cache_get mem cache s))"
  using assms(1)
proof (induction cache)
  case (Cons e cache)
  obtain q j where e: "e = (q, j)" by (cases e)
  obtain u where u: "as_ref mem q = Some u" using Cons.prems e by (auto simp: readable_def)
  have r: "readable mem (fst ` set cache)" using Cons.prems by (simp add: readable_def)
  obtain cache' where c: "cache_insert mem cache p i = Some cache'" "fst ` set cache' \<subseteq> insert p (fst ` set cache)"
    "\<And>s. cache_get mem cache' s = (if s = t then Some (Some i) else cache_get mem cache s)"
    using Cons.IH [OF r] by blast
  show ?case
  proof (cases "u = t")
    case True
    have "cache_get mem ((q, i) # cache) s = (if s = t then Some (Some i) else cache_get mem (e # cache) s)" for s
      using cache_get_total [OF r, of s] u True e by auto
    then show ?thesis using e u True assms(2) by (intro exI [of _ "(q, i) # cache"]) auto
  next
    case False
    have "cache_get mem ((q, j) # cache') s = (if s = t then Some (Some i) else cache_get mem (e # cache) s)" for s
      using u False e c(3) by auto
    then show ?thesis using e u False assms(2) c(1,2) by (intro exI [of _ "(q, j) # cache'"]) auto
  qed
qed (use assms(2) in simp)

section \<open>Raw interners\<close>

definition contents :: "'c raw_interner \<Rightarrow> 'c list list" where
  "contents r = map (\<lambda>p. the (as_ref (ri_memory r) p)) (ri_spans r)"

text \<open>
  The head has room for what is in it, all pointers are readable and point into the head or a full
  buffer, and the cache knows the last position of each string.
\<close>

fun owned :: "'c raw_interner \<Rightarrow> 'c interned_str \<Rightarrow> bool" where
  "owned r (StaticStr s) = True"
| "owned r (HeapStr a start len) = (len = 0 \<or> a = vec_address (ri_head r) \<or> a \<in> vec_address ` set (ri_full r))"

definition raw_ok :: "'c raw_interner \<Rightarrow> bool" where
  "raw_ok r \<longleftrightarrow>
     (\<exists>chars. buffer (ri_memory r) (vec_address (ri_head r)) = Some chars \<and> length chars \<le> vec_capacity (ri_head r)) \<and>
     readable (ri_memory r) (set (ri_spans r)) \<and> (\<forall>p \<in> set (ri_spans r). owned r p) \<and>
     fst ` set (ri_symbol_cache r) \<subseteq> set (ri_spans r) \<and>
     (\<forall>s. cache_get (ri_memory r) (ri_symbol_cache r) s = Some (find_last (contents r) s))"

lemma contents_length: "length (contents r) = raw_len r"
  by (simp add: contents_def raw_len_def)

lemma contents_grow:
  assumes "grows (ri_memory r) mem" "readable (ri_memory r) (set (ri_spans r))"
  shows "contents (r\<lparr>ri_head := h, ri_memory := mem, ri_full := f\<rparr>) = contents r"
  using assms as_ref_grows [OF assms(1)] unfolding contents_def readable_def by fastforce

text \<open>Growth of the memory, with another head and more full buffers.\<close>

lemma raw_ok_grow:
  assumes r: "raw_ok r" and g: "grows (ri_memory r) mem"
    and head: "buffer mem (vec_address h) = Some chars" "length chars \<le> vec_capacity h"
    and full: "set (ri_full r) \<subseteq> set f"
      "\<And>p. p \<in> set (ri_spans r) \<Longrightarrow> owned r p \<Longrightarrow> owned (r\<lparr>ri_head := h, ri_memory := mem, ri_full := f\<rparr>) p"
  defines "r' \<equiv> r\<lparr>ri_head := h, ri_memory := mem, ri_full := f\<rparr>"
  shows "raw_ok r' \<and> contents r' = contents r"
proof -
  have read: "readable (ri_memory r) (set (ri_spans r))" "fst ` set (ri_symbol_cache r) \<subseteq> set (ri_spans r)"
    using r by (auto simp: raw_ok_def)
  then have keys: "readable (ri_memory r) (fst ` set (ri_symbol_cache r))" by (auto simp: readable_def)
  have c: "contents r' = contents r"
    unfolding r'_def by (rule contents_grow [OF g read(1)])
  then show ?thesis
    using r head full(2) readable_grows [OF g read(1)] cache_get_grows [OF g keys]
    unfolding raw_ok_def by (auto simp: r'_def)
qed

lemma next_index_run:
  assumes r: "raw_ok r" and p: "as_ref (ri_memory r) p = Some s" "owned r p"
  shows "\<exists>r'. next_index r p = Some (length (contents r), r') \<and> raw_ok r' \<and> contents r' = contents r @ [s] \<and>
    ri_spans r' = ri_spans r @ [p] \<and> ri_memory r' = ri_memory r"
proof -
  have "readable (ri_memory r) (fst ` set (ri_symbol_cache r))"
    using r by (auto simp: raw_ok_def readable_def)
  then obtain cache where c: "cache_insert (ri_memory r) (ri_symbol_cache r) p (raw_len r) = Some cache"
    "fst ` set cache \<subseteq> insert p (fst ` set (ri_symbol_cache r))"
    "\<And>t. cache_get (ri_memory r) cache t =
      (if t = s then Some (Some (raw_len r)) else cache_get (ri_memory r) (ri_symbol_cache r) t)"
    using cache_insert_run [OF _ p(1)] by blast
  define r' where "r' = r\<lparr>ri_spans := ri_spans r @ [p], ri_symbol_cache := cache\<rparr>"
  have cs: "contents r' = contents r @ [s]" using p by (simp add: contents_def r'_def)
  have own: "owned r' q = owned r q" for q by (cases q) (simp_all add: r'_def)
  have f: "fst ` set cache \<subseteq> insert p (set (ri_spans r))"
    using c(2) r by (auto simp: raw_ok_def)
  have "cache_get (ri_memory r) cache t = Some (find_last (contents r') t)" for t
    using r c(3) by (auto simp: raw_ok_def cs contents_length)
  moreover have "\<forall>q \<in> set (ri_spans r @ [p]). owned r' q" "readable (ri_memory r) (set (ri_spans r @ [p]))"
    using r p own by (auto simp: raw_ok_def readable_def)
  ultimately have "raw_ok r'"
    using r f by (simp add: raw_ok_def r'_def)
  then show ?thesis
    using c(1) cs by (intro exI [of _ r']) (simp add: next_index_def Let_def r'_def contents_length)
qed

lemma next_power_ge: "n \<le> next_power_of_two n"
proof -
  have "0 < p \<Longrightarrow> n \<le> power_from p n" for p
    by (induction p n rule: power_from.induct) (subst power_from.simps, auto)
  then show ?thesis by (simp add: next_power_of_two_def)
qed

text \<open>A new head has room, and nothing that is pointed to is lost.\<close>

lemma new_head_run:
  assumes r: "raw_ok r"
  shows "\<exists>r'. new_head slack r s = Some r' \<and> raw_ok r' \<and> contents r' = contents r \<and> ri_spans r' = ri_spans r \<and>
    grows (ri_memory r) (ri_memory r') \<and> buffer (ri_memory r') (vec_address (ri_head r')) = Some [] \<and>
    length s \<le> vec_capacity (ri_head r')"
proof -
  define n where "n = next_power_of_two (max (vec_capacity (ri_head r)) (length s) + 1)"
  define head where "head = \<lparr>vec_address = length (ri_memory r), vec_capacity = n + slack n\<rparr>"
  have n: "length s \<le> n" using next_power_ge [of "max (vec_capacity (ri_head r)) (length s) + 1"] by (simp add: n_def)
  obtain chars where chars: "buffer (ri_memory r) (vec_address (ri_head r)) = Some chars"
    using r by (auto simp: raw_ok_def)
  note live = buffer_live [OF chars]
  have old: "buffer (ri_memory r @ [Some []]) (vec_address (ri_head r)) = Some chars"
    using chars live by (simp add: buffer_old)
  have g: "grows (ri_memory r) (ri_memory r @ [Some []])" by (rule grows_append)
  have run: "new_head slack r s = Some
      (if chars \<noteq> [] then r\<lparr>ri_head := head, ri_memory := ri_memory r @ [Some []], ri_full := ri_full r @ [ri_head r]\<rparr>
       else r\<lparr>ri_head := head, ri_memory := free (ri_memory r @ [Some []]) (vec_address (ri_head r))\<rparr>)"
    using old by (simp add: new_head_def Let_def fixed_new_def with_capacity_def fixed_is_empty_def n_def head_def)
  show ?thesis
  proof (cases "chars = []")
    case False
    define f where "f = ri_full r @ [ri_head r]"
    have own: "owned r p \<Longrightarrow> owned (r\<lparr>ri_head := head, ri_memory := m, ri_full := f\<rparr>) p" for p m
      by (cases p) (auto simp: f_def)
    have "raw_ok (r\<lparr>ri_head := head, ri_memory := ri_memory r @ [Some []], ri_full := f\<rparr>) \<and>
      contents (r\<lparr>ri_head := head, ri_memory := ri_memory r @ [Some []], ri_full := f\<rparr>) = contents r"
      by (rule raw_ok_grow [OF r g, where chars = "[]"]) (use own in \<open>auto simp: head_def f_def\<close>)
    then show ?thesis
      using run False n g by (simp add: head_def f_def)
  next
    case True
    define mem where "mem = free (ri_memory r @ [Some []]) (vec_address (ri_head r))"
    have lookup: "buffer mem a = (if a = vec_address (ri_head r) then None else buffer (ri_memory r @ [Some []]) a)" for a
      using live by (auto simp: mem_def free_def buffer_def)
    have g': "grows (ri_memory r) mem"
      using g chars True unfolding grows_def lookup by auto
    have new: "buffer mem (vec_address head) = Some []" using live by (simp add: lookup head_def)
    have own: "owned (r\<lparr>ri_head := head, ri_memory := mem, ri_full := ri_full r\<rparr>) p"
      if p: "p \<in> set (ri_spans r)" "owned r p" for p
    proof (cases p)
      case (HeapStr a start len)
      have "as_ref (ri_memory r) p \<noteq> None" using r p(1) by (auto simp: raw_ok_def readable_def)
      then have "len = 0 \<or> a \<noteq> vec_address (ri_head r)"
        using HeapStr chars True by (auto split: if_splits)
      then show ?thesis using HeapStr p(2) by auto
    qed simp
    have "raw_ok (r\<lparr>ri_head := head, ri_memory := mem, ri_full := ri_full r\<rparr>) \<and>
      contents (r\<lparr>ri_head := head, ri_memory := mem, ri_full := ri_full r\<rparr>) = contents r"
      by (rule raw_ok_grow [OF r g', where chars = "[]"]) (use own new in simp_all)
    then show ?thesis
      using run True n g' new by (simp add: head_def mem_def)
  qed
qed

lemma head_push_run:
  fixes r :: "'c raw_interner"
  assumes r: "raw_ok r" and chars: "buffer (ri_memory r) (vec_address (ri_head r)) = Some chars"
    and room: "length chars + length s \<le> vec_capacity (ri_head r)"
  shows "\<exists>p mem r'. push_unchecked slack (ri_memory r) (ri_head r) s = Some (p, ri_head r, mem) \<and>
    next_index (r\<lparr>ri_head := ri_head r, ri_memory := mem\<rparr>) p = Some (length (contents r), r') \<and> raw_ok r' \<and>
    contents r' = contents r @ [s] \<and> ri_spans r' = ri_spans r @ [p] \<and> grows (ri_memory r) (ri_memory r')"
proof -
  define p :: "'c interned_str" where "p = HeapStr (vec_address (ri_head r)) (length chars) (length s)"
  define mem where "mem = (ri_memory r)[vec_address (ri_head r) := Some (chars @ s)]"
  note push = push_run [OF chars room, folded p_def mem_def]
  define r1 where "r1 = r\<lparr>ri_head := ri_head r, ri_memory := mem, ri_full := ri_full r\<rparr>"
  have own: "owned r1 q = owned r q" for q by (cases q) (simp_all add: r1_def)
  have "buffer mem (vec_address (ri_head r)) = Some (chars @ s)"
    using buffer_update [OF chars] by (simp add: mem_def)
  then have "raw_ok r1 \<and> contents r1 = contents r"
    unfolding r1_def
    by (intro raw_ok_grow [OF r push(3), where chars = "chars @ s"]) (use own room in \<open>simp_all add: r1_def\<close>)
  then have r1: "raw_ok r1" "contents r1 = contents r" by simp_all
  have "as_ref (ri_memory r1) p = Some s" "owned r1 p" using push(2) by (simp_all add: r1_def p_def)
  then obtain r' where "next_index r1 p = Some (length (contents r1), r')" "raw_ok r'" "contents r' = contents r1 @ [s]"
    "ri_spans r' = ri_spans r1 @ [p]" "ri_memory r' = ri_memory r1"
    using next_index_run [OF r1(1)] by blast
  moreover have "r1 = r\<lparr>ri_head := ri_head r, ri_memory := mem\<rparr>" "ri_spans r1 = ri_spans r" "ri_memory r1 = mem"
    by (simp_all add: r1_def)
  ultimately show ?thesis using push(1,3) r1(2) by auto
qed

lemma raw_intern_run:
  assumes r: "raw_ok r"
  shows "\<exists>p r'. raw_intern slack r s = Some (length (contents r), r') \<and> raw_ok r' \<and> contents r' = contents r @ [s] \<and>
    ri_spans r' = ri_spans r @ [p] \<and> grows (ri_memory r) (ri_memory r')"
proof -
  obtain chars where chars: "buffer (ri_memory r) (vec_address (ri_head r)) = Some chars"
    using r by (auto simp: raw_ok_def)
  show ?thesis
  proof (cases "length chars + length s \<le> vec_capacity (ri_head r)")
    case True
    then show ?thesis
      using head_push_run [OF r chars True, of slack] chars by (force simp: raw_intern_def fixed_push_def)
  next
    case False
    obtain r1 where r1: "new_head slack r s = Some r1" "raw_ok r1" "contents r1 = contents r" "ri_spans r1 = ri_spans r"
      "grows (ri_memory r) (ri_memory r1)" "buffer (ri_memory r1) (vec_address (ri_head r1)) = Some []"
      "length s \<le> vec_capacity (ri_head r1)"
      using new_head_run [OF r] by blast
    then show ?thesis
      using head_push_run [OF r1(2,6), of s slack] False chars grows_trans [OF r1(5)]
      by (force simp: raw_intern_def fixed_push_def)
  qed
qed

lemma raw_get_run: "raw_ok r \<Longrightarrow> raw_get r s = Some (find_last (contents r) s)"
  by (simp add: raw_get_def raw_ok_def)

lemma raw_index_run:
  assumes "raw_ok r"
  shows "raw_index r i = Some (vec_get (contents r) i)"
proof (cases "i < length (ri_spans r)")
  case True
  then have "ri_spans r ! i \<in> set (ri_spans r)" by simp
  then have "as_ref (ri_memory r) (ri_spans r ! i) \<noteq> None"
    using assms by (simp add: raw_ok_def readable_def)
  then obtain s where "as_ref (ri_memory r) (ri_spans r ! i) = Some s" by blast
  then show ?thesis using True by (simp add: raw_index_def contents_def vec_get_def)
qed (simp add: raw_index_def contents_def vec_get_def)

interpretation interning: string_table raw_ok contents raw_get raw_index "raw_intern slack" for slack
proof
  fix r :: "'c raw_interner" and s
  assume "raw_ok r"
  then show "\<exists>r'. raw_intern slack r s = Some (length (contents r), r') \<and> raw_ok r' \<and> contents r' = contents r @ [s]"
    using raw_intern_run [of r slack s] by blast
qed (simp_all add: raw_get_run raw_index_run)

interpretation static_interning: string_table raw_ok contents raw_get raw_index intern_static
proof
  fix r :: "'a raw_interner" and s
  assume "raw_ok r"
  moreover have "as_ref (ri_memory r) (StaticStr s) = Some s" "owned r (StaticStr s)" by simp_all
  ultimately show "\<exists>r'. intern_static r s = Some (length (contents r), r') \<and> raw_ok r' \<and> contents r' = contents r @ [s]"
    unfolding intern_static_def using next_index_run by blast
qed (simp_all add: raw_get_run raw_index_run)

lemma raw_new_ok: "raw_ok raw_default" "contents raw_default = []"
  "raw_ok (raw_with_capacity slack n)" "contents (raw_with_capacity slack n) = []"
  by (simp_all add: raw_ok_def raw_default_def raw_with_capacity_def fixed_new_def with_capacity_def buffer_def readable_def
      contents_def Let_def)

end
