(* ===== verification/InternerProperties.thy ===== *)
theory InternerProperties
  imports InternerFacts
begin

text \<open>
  The interner as a list of distinct strings: the common ones and those interned, by their code units. A
  symbol is a position in it, counted from one.
\<close>

section \<open>Common strings\<close>

lemma common_strings_ok: "list_all str_ok common_strings_utf8"
  by (simp add: common_strings_utf8_def static_syms_def str_literal_def scalar_value_def)

lemma static_syms_distinct: "distinct static_syms"
  by (simp add: static_syms_def)

lemma str_literal_inj: "str_literal s = str_literal t \<longleftrightarrow> s = t"
  by (simp add: str_literal_def inj_map_eq_map inj_on_def)

lemma common_distinct: "distinct common_strings_utf8" "distinct common_strings_utf16"
proof -
  show d: "distinct common_strings_utf8"
    using static_syms_distinct str_literal_inj by (simp add: common_strings_utf8_def distinct_map inj_on_def)
  have "inj_on encode_utf16 (set common_strings_utf8)"
    using common_strings_ok encode_utf16_inj by (auto simp: inj_on_def list_all_iff)
  then show "distinct common_strings_utf16"
    using d by (simp add: common_strings_utf16_def distinct_map)
qed

lemma common_empty: "[] \<in> set common_strings_utf16"
  by (simp add: common_strings_utf16_def common_strings_utf8_def static_syms_def str_literal_def encode_utf16_def)

lemma common_latin1: "list_all latin1 common_strings_utf16"
  by (simp add: common_strings_utf16_def common_strings_utf8_def static_syms_def str_literal_def encode_utf16_def
      utf16_char_def latin1_def code_unit_def)

lemma common_length: "length common_strings_utf8 = 71" "length common_strings_utf16 = 71"
  by (simp_all add: common_strings_utf16_def common_strings_utf8_def static_syms_def)

lemma common_index: "i < 71 \<Longrightarrow> common_strings_utf16 ! i = encode_utf16 (common_strings_utf8 ! i)"
  "i < 71 \<Longrightarrow> from_utf16 (common_strings_utf16 ! i) = Some (common_strings_utf8 ! i)"
proof -
  show e: "common_strings_utf16 ! i = encode_utf16 (common_strings_utf8 ! i)" if "i < 71"
    using that common_length by (simp add: common_strings_utf16_def)
  show "from_utf16 (common_strings_utf16 ! i) = Some (common_strings_utf8 ! i)" if "i < 71"
    using that e common_strings_ok common_length(1) from_utf16_encode by (simp add: list_all_length)
qed

section \<open>The abstraction\<close>

fun jstr_ok :: "jstr_ref \<Rightarrow> bool" where
  "jstr_ok (Utf8 s) = str_ok s"
| "jstr_ok (Utf16 us) = True"

definition units :: "jstr_ref \<Rightarrow> u16 list" where
  "units string = snd (encodings string)"

definition narrow :: "u16 list \<Rightarrow> u8 list" where
  "narrow us = (case from_utf16 us of Some s \<Rightarrow> as_bytes s | None \<Rightarrow> [])"

definition strings :: "interner \<Rightarrow> u16 list list" where
  "strings I = common_strings_utf16 @ contents (in_utf16 I)"

definition interner_ok :: "interner \<Rightarrow> bool" where
  "interner_ok I \<longleftrightarrow>
     raw_ok (in_utf8 I) \<and> raw_ok (in_utf16 I) \<and> distinct (strings I) \<and>
     contents (in_utf8 I) = map narrow (contents (in_utf16 I)) \<and>
     in_latin1_flags I = map latin1 (contents (in_utf16 I))"

definition described :: "u16 list \<Rightarrow> js_interned_str_ref" where
  "described us = \<lparr>ir_utf8 = from_utf16 us, ir_utf16 = us\<rparr>"

lemma interner_okD:
  assumes "interner_ok I"
  shows "raw_ok (in_utf8 I)" "raw_ok (in_utf16 I)" "distinct (strings I)" "distinct (contents (in_utf16 I))"
    "contents (in_utf8 I) = map narrow (contents (in_utf16 I))"
    "in_latin1_flags I = map latin1 (contents (in_utf16 I))"
    "us \<in> set (contents (in_utf16 I)) \<Longrightarrow> us \<notin> set common_strings_utf16"
    "us \<in> set (contents (in_utf16 I)) \<Longrightarrow> us \<noteq> []"
    "raw_len (in_utf8 I) = raw_len (in_utf16 I)"
proof -
  show "us \<in> set (contents (in_utf16 I)) \<Longrightarrow> us \<noteq> []"
    using assms common_empty by (auto simp: interner_ok_def strings_def)
  have "length (contents (in_utf8 I)) = length (contents (in_utf16 I))"
    using assms by (simp add: interner_ok_def)
  then show "raw_len (in_utf8 I) = raw_len (in_utf16 I)" by (simp add: contents_length)
qed (use assms in \<open>auto simp: interner_ok_def strings_def\<close>)

lemma units_simps [simp]: "units (Utf8 s) = encode_utf16 s" "units (Utf16 us) = us"
  by (simp_all add: units_def encodings_def)

lemma encodings_units: "jstr_ok string \<Longrightarrow> encodings string = (from_utf16 (units string), units string)"
  by (cases string) (simp_all add: encodings_def from_utf16_encode)

lemma narrow_encode:
  assumes "str_ok s" "s \<noteq> []"
  shows "narrow us = as_bytes s \<longleftrightarrow> us = encode_utf16 s"
proof (cases "from_utf16 us")
  case None
  then have "us \<noteq> encode_utf16 s" using from_utf16_encode [OF assms(1)] by auto
  moreover have "narrow us = []" using None by (simp add: narrow_def)
  then have "narrow us \<noteq> as_bytes s" using assms(2) by (metis as_bytes_Nil)
  ultimately show ?thesis by simp
next
  case (Some t)
  then have "encode_utf16 t = us" "str_ok t" using encode_from_utf16 by blast+
  then show ?thesis
    using Some as_bytes_inj [OF _ assms(1), of t] encode_utf16_inj [OF _ assms(1), of t] by (simp add: narrow_def)
qed

lemma get_common_run: "jstr_ok string \<Longrightarrow> get_common string = map_option Suc (index_of common_strings_utf16 (units string))"
proof (cases string)
  case (Utf8 s)
  assume ok: "jstr_ok string"
  have "index_of common_strings_utf16 (encode_utf16 s) = index_of common_strings_utf8 s"
    unfolding common_strings_utf16_def
  proof (rule index_of_map)
    fix z assume "z \<in> set common_strings_utf8"
    then have "str_ok z" using common_strings_ok by (simp add: list_all_iff)
    then show "encode_utf16 z = encode_utf16 s \<longleftrightarrow> z = s"
      using encode_utf16_inj ok Utf8 by simp
  qed
  then show ?thesis using Utf8 by simp
qed simp

lemma table_find:
  assumes I: "interner_ok I" and s: "jstr_ok string" "units string \<notin> set common_strings_utf16"
  shows "(case string of Utf8 s \<Rightarrow> raw_get (in_utf8 I) (as_bytes s) | Utf16 s \<Rightarrow> raw_get (in_utf16 I) s) =
    Some (index_of (contents (in_utf16 I)) (units string))"
proof (cases string)
  case (Utf8 t)
  have "t \<noteq> []" using s(2) Utf8 common_empty by (auto simp: encode_utf16_def)
  then have "find_last (map narrow (contents (in_utf16 I))) (as_bytes t) = find_last (contents (in_utf16 I)) (encode_utf16 t)"
    using s Utf8 by (intro find_last_map narrow_encode) simp_all
  then show ?thesis
    using Utf8 interning.found [OF interner_okD(1) [OF I]] interner_okD(5) [OF I] find_last_distinct [OF interner_okD(4) [OF I]]
    by simp
next
  case (Utf16 us)
  then show ?thesis
    using interning.found [OF interner_okD(2) [OF I]] find_last_distinct [OF interner_okD(4) [OF I]] by simp
qed

text \<open>\<open>get\<close> finds the position of the string.\<close>

lemma interner_get_run:
  assumes I: "interner_ok I" and s: "jstr_ok string"
  shows "interner_get I string = Some (map_option Suc (index_of (strings I) (units string)))"
proof (cases "index_of common_strings_utf16 (units string)")
  case None
  have "map_option (map_option (\<lambda>i. i + 1 + length common_strings_utf8))
      (Some (index_of (contents (in_utf16 I)) (units string))) =
      Some (map_option Suc (index_of (strings I) (units string)))"
    using None by (simp add: strings_def index_of_append option.map_comp comp_def common_length)
  moreover have "units string \<notin> set common_strings_utf16" using None by simp
  ultimately show ?thesis
    using get_common_run [OF s] None table_find [OF I s] by (simp add: interner_get_def)
next
  case (Some i)
  then show ?thesis
    using get_common_run [OF s] by (simp add: interner_get_def strings_def index_of_append)
qed

section \<open>Interning\<close>

lemma intern_tables:
  assumes I: "interner_ok I" and new: "us \<notin> set (strings I)"
    and r8: "raw_ok r8" "contents r8 = contents (in_utf8 I) @ [narrow us]"
    and r16: "raw_ok r16" "contents r16 = contents (in_utf16 I) @ [us]"
  defines "I' \<equiv> \<lparr>in_utf8 = r8, in_utf16 = r16, in_latin1_flags = in_latin1_flags I @ [latin1 us]\<rparr>"
  shows "interner_ok I'" "strings I' = strings I @ [us]"
proof -
  show s: "strings I' = strings I @ [us]" using r16 by (simp add: strings_def I'_def)
  show "interner_ok I'"
    using r8 r16 new s interner_okD(3,5,6) [OF I] unfolding interner_ok_def by (simp add: I'_def)
qed

text \<open>An interner whose symbols are a \<open>usize\<close>: adding gives the next symbol, or the panic of the overflow.\<close>

lemma get_or_intern_run:
  assumes I: "interner_ok I" and s: "jstr_ok string"
  shows "case index_of (strings I) (units string) of
      Some i \<Rightarrow> get_or_intern slack I string = Some (Suc i, I)
    | None \<Rightarrow>
        if Suc (length (strings I)) < 2 ^ 64 then
          \<exists>I'. get_or_intern slack I string = Some (Suc (length (strings I)), I') \<and> interner_ok I' \<and>
            strings I' = strings I @ [units string]
        else get_or_intern slack I string = None"
proof (cases "index_of (strings I) (units string)")
  case None
  define n where "n = length (contents (in_utf16 I))"
  have len: "length (contents (in_utf8 I)) = n" using interner_okD(5) [OF I] by (simp add: n_def)
  have new: "units string \<notin> set (strings I)" using None by simp
  have "\<exists>r8. (case from_utf16 (units string) of
       Some utf8 \<Rightarrow> raw_intern slack (in_utf8 I) (as_bytes utf8)
     | None \<Rightarrow> intern_static (in_utf8 I) []) = Some (n, r8) \<and>
      raw_ok r8 \<and> contents r8 = contents (in_utf8 I) @ [narrow (units string)]"
    using interning.added [OF interner_okD(1) [OF I], of slack] static_interning.added [OF interner_okD(1) [OF I]]
    unfolding len by (cases "from_utf16 (units string)") (simp_all add: narrow_def)
  then obtain r8 where r8: "(case from_utf16 (units string) of
       Some utf8 \<Rightarrow> raw_intern slack (in_utf8 I) (as_bytes utf8)
     | None \<Rightarrow> intern_static (in_utf8 I) []) = Some (n, r8)"
    "raw_ok r8" "contents r8 = contents (in_utf8 I) @ [narrow (units string)]" by blast
  obtain r16 where r16: "raw_intern slack (in_utf16 I) (units string) = Some (n, r16)" "raw_ok r16"
    "contents r16 = contents (in_utf16 I) @ [units string]"
    using interning.added [OF interner_okD(2) [OF I], of slack] unfolding n_def by blast
  note tables = intern_tables [OF I new r8(2,3) r16(2,3)]
  have n: "length (strings I) = 71 + n" by (simp add: strings_def common_length n_def)
  have "new_symbol n = (if Suc (length (strings I)) < 2 ^ 64 then Some (Suc (length (strings I))) else None)"
    by (simp add: new_symbol_def usize_checked_add_def sym_new_def common_length n)
  then show ?thesis
    using None r8(1) r16(1) tables interner_get_run [OF I s] encodings_units [OF s]
    by (simp add: get_or_intern_def)
qed (use interner_get_run [OF I s] in \<open>simp add: get_or_intern_def\<close>)

lemma get_or_intern_Some:
  assumes I: "interner_ok I" and s: "jstr_ok string" and run: "get_or_intern slack I string = Some (symbol, I')"
  shows "interner_ok I'" "\<exists>more. strings I' = strings I @ more" "index_of (strings I') (units string) = Some (symbol - 1)"
    "0 < symbol"
proof -
  have "interner_ok I' \<and> (\<exists>more. strings I' = strings I @ more) \<and> index_of (strings I') (units string) = Some (symbol - 1) \<and>
      0 < symbol"
  proof (cases "index_of (strings I) (units string)")
    case None
    then show ?thesis
      using get_or_intern_run [OF I s, of slack] run by (auto simp: index_of_append split: if_splits)
  next
    case (Some i)
    then show ?thesis using get_or_intern_run [OF I s, of slack] run I by auto
  qed
  then show "interner_ok I'" "\<exists>more. strings I' = strings I @ more" "index_of (strings I') (units string) = Some (symbol - 1)"
    "0 < symbol" by simp_all
qed

section \<open>Resolving\<close>

lemma dynamic_utf8:
  assumes "us \<noteq> []"
  shows "\<exists>s. from_utf8 (narrow us) = Some s \<and> (if s = [] then None else Some s) = from_utf16 us"
proof (cases "from_utf16 us")
  case (Some s)
  then have "encode_utf16 s = us" "str_ok s" using encode_from_utf16 by blast+
  then show ?thesis using Some assms from_utf8_as_bytes by (auto simp: narrow_def encode_utf16_def)
qed (simp add: narrow_def)

lemma resolve_run:
  assumes I: "interner_ok I" and "0 < symbol"
  shows "resolve I symbol = Some (map_option described (vec_get (strings I) (symbol - 1)))"
proof (cases "symbol - 1 < 71")
  case True
  then show ?thesis
    using assms(2) common_index [OF True] common_length
    by (simp add: resolve_def usize_sub_def vec_get_def strings_def nth_append described_def)
next
  case False
  define i where "i = symbol - 1 - 71"
  have i: "vec_get common_strings_utf8 (symbol - 1) = None" "usize_sub symbol 1 = Some (symbol - 1)"
    "usize_sub (symbol - 1) 71 = Some i"
    "vec_get (strings I) (symbol - 1) = vec_get (contents (in_utf16 I)) i"
    using False assms(2) common_length by (auto simp: usize_sub_def i_def strings_def vec_get_def nth_append)
  show ?thesis
  proof (cases "i < length (contents (in_utf16 I))")
    case True
    define us where "us = contents (in_utf16 I) ! i"
    have at: "vec_get (contents (in_utf16 I)) i = Some us" "vec_get (contents (in_utf8 I)) i = Some (narrow us)"
      using True interner_okD(5) [OF I] by (simp_all add: us_def)
    have "us \<noteq> []" using interner_okD(8) [OF I] True by (simp add: us_def)
    then obtain s where "from_utf8 (narrow us) = Some s" "(if s = [] then None else Some s) = from_utf16 us"
      using dynamic_utf8 by blast
    then show ?thesis
      using i at interning.indexed [OF interner_okD(1) [OF I]] interning.indexed [OF interner_okD(2) [OF I]]
        interner_okD(9) [OF I]
      by (simp add: resolve_def common_length usize_sub_def described_def del: vec_get_Some vec_get_None)
  next
    case False
    then have "vec_get (contents (in_utf16 I)) i = None" by simp
    then show ?thesis
      using i interning.indexed [OF interner_okD(2) [OF I]]
      by (simp add: resolve_def common_length del: vec_get_Some vec_get_None)
  qed
qed

lemma is_latin1_run:
  assumes I: "interner_ok I" and "0 < symbol"
  shows "is_latin1 I symbol = Some (case vec_get (strings I) (symbol - 1) of Some us \<Rightarrow> latin1 us | None \<Rightarrow> False)"
proof -
  have "vec_get (strings I) (symbol - 1) = Some us \<Longrightarrow> latin1 us" if "symbol - 1 < 71" for us
    using that common_latin1 common_length by (auto simp: strings_def nth_append list_all_length)
  moreover have "vec_get (strings I) (symbol - 1) \<noteq> None" if "symbol - 1 < 71"
    using that common_length by (simp add: strings_def)
  moreover have "vec_get (in_latin1_flags I) (symbol - 1 - 71) = map_option latin1 (vec_get (strings I) (symbol - 1))"
    if "\<not> symbol - 1 < 71"
    using that interner_okD(6) [OF I] common_length by (auto simp: strings_def vec_get_def nth_append)
  ultimately show ?thesis
    using assms(2) by (cases "symbol - 1 < 71") (auto simp: is_latin1_def usize_sub_def common_length split: option.splits)
qed

lemma interner_new_ok: "interner_ok interner_default" "interner_ok (interner_with_capacity slack n)"
  using common_distinct by (simp_all add: interner_ok_def interner_default_def interner_with_capacity_def strings_def raw_new_ok)

text \<open>Interning a static string in both encodings is interning it.\<close>

theorem get_or_intern_static_run:
  assumes I: "interner_ok I" and s: "str_ok s"
  shows "get_or_intern_static slack I s (encode_utf16 s) = get_or_intern slack I (Utf8 s)"
proof -
  obtain r8 r16 where "raw_intern slack (in_utf8 I) (as_bytes s) = Some (length (contents (in_utf8 I)), r8)"
    "raw_intern slack (in_utf16 I) (encode_utf16 s) = Some (length (contents (in_utf16 I)), r16)"
    using interning.added [OF interner_okD(1) [OF I]] interning.added [OF interner_okD(2) [OF I]] by metis
  moreover have "length (contents (in_utf8 I)) = length (contents (in_utf16 I))"
    using interner_okD(5) [OF I] by simp
  ultimately show ?thesis
    using interner_get_run [OF I, of "Utf8 s"] s
    by (cases "index_of (strings I) (encode_utf16 s)") (simp_all add: get_or_intern_static_def get_or_intern_def encodings_def)
qed

section \<open>Properties\<close>

text \<open>C27
  Interning a string, with whatever encoding it is given: the symbol resolves to the string in both
  encodings, without UTF-8 exactly when the string has an unpaired surrogate, its flag says whether it is
  Latin-1, it is found again, and all older symbols resolve as before. The only panic is that of symbols
  that no longer fit a \<open>usize\<close>.
\<close>
theorem intern_roundtrip:
  assumes I: "interner_ok I" and s: "jstr_ok string"
  shows "case get_or_intern slack I string of
      None \<Rightarrow> interner_get I string = Some None \<and> 2 ^ 64 \<le> interner_len I + 1
    | Some (symbol, I') \<Rightarrow>
        interner_ok I' \<and> interner_get I' string = Some (Some symbol) \<and>
        resolve I' symbol = Some (Some \<lparr>ir_utf8 = from_utf16 (units string), ir_utf16 = units string\<rparr>) \<and>
        is_latin1 I' symbol = Some (latin1 (units string)) \<and>
        (\<forall>symbol' r. resolve I symbol' = Some (Some r) \<longrightarrow> resolve I' symbol' = Some (Some r))"
proof (cases "get_or_intern slack I string")
  case None
  have "interner_len I = length (strings I)"
    by (simp add: interner_len_def strings_def contents_length common_length)
  then show ?thesis
    using None get_or_intern_run [OF I s, of slack] interner_get_run [OF I s]
    by (simp split: option.splits if_splits)
next
  case (Some e)
  obtain symbol I' where e: "e = (symbol, I')" by (cases e)
  note run = get_or_intern_Some [OF I s Some [unfolded e]]
  have at: "vec_get (strings I') (symbol - 1) = Some (units string)"
    using index_of_SomeD [OF run(3)] by simp
  have "resolve I' symbol' = Some (Some r)" if r: "resolve I symbol' = Some (Some r)" for symbol' r
  proof -
    have pos: "0 < symbol'" using r by (cases symbol') (auto simp: resolve_def usize_sub_def)
    then obtain us where "vec_get (strings I) (symbol' - 1) = Some us" "r = described us"
      using r resolve_run [OF I pos] by (auto simp del: vec_get_Some)
    moreover from this have "vec_get (strings I') (symbol' - 1) = Some us"
      using run(2) by (auto simp: nth_append)
    ultimately show ?thesis
      using resolve_run [OF run(1) pos] by (simp del: vec_get_Some)
  qed
  then show ?thesis
    using Some e run at interner_get_run [OF run(1) s] resolve_run [OF run(1,4)] is_latin1_run [OF run(1,4)]
    by (simp add: described_def del: vec_get_Some)
qed

theorem intern_roundtrip_witness:
  "\<exists>symbol I'. get_or_intern (\<lambda>_. 0) interner_default (Utf16 [0xD800]) = Some (symbol, I') \<and>
    resolve I' symbol = Some (Some \<lparr>ir_utf8 = None, ir_utf16 = [0xD800]\<rparr>)"
proof -
  have n: "from_utf16 [0xD800] = None" by simp
  have "raw_len (in_utf16 interner_default) = 0" by (simp add: interner_default_def raw_default_def raw_len_def)
  then have "interner_len interner_default = 71" by (simp add: interner_len_def common_length)
  then show ?thesis
    using intern_roundtrip [OF interner_new_ok(1), of "Utf16 [0xD800]" "\<lambda>_. 0"] n
    by (auto split: option.splits simp del: from_utf16.simps)
qed

text \<open>C28
  Symbols stand for strings: two strings have the same symbol exactly when they have the same code units,
  however each was given, and interning a string again changes nothing.
\<close>
theorem symbols_identify_strings:
  assumes I: "interner_ok I" and s: "jstr_ok s" and t: "jstr_ok t"
    and run: "get_or_intern slack I s = Some (a, I1)" "get_or_intern slack I1 t = Some (b, I2)"
  shows "(a = b \<longleftrightarrow> units s = units t) \<and> (units s = units t \<longrightarrow> I2 = I1)"
proof -
  note 1 = get_or_intern_Some [OF I s run(1)]
  note 2 = get_or_intern_Some [OF 1(1) t run(2)]
  have at: "a - 1 < length (strings I1)" "strings I1 ! (a - 1) = units s" "strings I2 ! (b - 1) = units t"
    using index_of_SomeD [OF 1(3)] index_of_SomeD [OF 2(3)] by simp_all
  have same: "b = a \<and> I2 = I1" if "units s = units t"
    using get_or_intern_run [OF 1(1) t, of slack] 1(3,4) run(2) that by simp
  have "units s = units t" if "a = b"
    using at that 2(2) by (auto simp: nth_append)
  then show ?thesis using same by blast
qed

theorem symbols_identify_strings_witness:
  "\<exists>a I1 b I2. get_or_intern (\<lambda>_. 0) interner_default (Utf8 [0x1F600]) = Some (a, I1) \<and>
    get_or_intern (\<lambda>_. 0) I1 (Utf16 [0xD83D, 0xDE00]) = Some (b, I2) \<and> a = b \<and> I2 = I1"
proof -
  let ?s = "Utf8 [0x1F600]" and ?t = "Utf16 [0xD83D, 0xDE00]"
  have u: "units ?s = units ?t" by (simp add: encode_utf16_def utf16_char_def code_unit_def)
  have ok: "jstr_ok ?s" "jstr_ok ?t" by (simp_all add: scalar_value_def)
  have "length (strings interner_default) = 71"
    by (simp add: strings_def common_length interner_default_def raw_new_ok)
  then obtain a I1 where a: "get_or_intern (\<lambda>_. 0) interner_default ?s = Some (a, I1)"
    using get_or_intern_run [OF interner_new_ok(1) ok(1), of "\<lambda>_. 0"] by (auto split: option.splits)
  note 1 = get_or_intern_Some [OF interner_new_ok(1) ok(1) a]
  obtain b I2 where b: "get_or_intern (\<lambda>_. 0) I1 ?t = Some (b, I2)"
    using get_or_intern_run [OF 1(1) ok(2), of "\<lambda>_. 0"] 1(3) u by auto
  then show ?thesis
    using a symbols_identify_strings [OF interner_new_ok(1) ok a b] u by blast
qed

text \<open>C29
  The memory safety that the unsafe code of the interner relies on: interning never moves or frees a buffer
  that is pointed to. All older pointers stay readable with the same string, the new one reads the string,
  and each points into the head or one of the full buffers that the interner keeps.
\<close>
theorem interned_pointers_stay:
  assumes r: "raw_ok r"
  shows "\<exists>p r'. raw_intern slack r s = Some (raw_len r, r') \<and> raw_ok r' \<and> ri_spans r' = ri_spans r @ [p] \<and>
    as_ref (ri_memory r') p = Some s \<and>
    (\<forall>q \<in> set (ri_spans r). \<exists>t. as_ref (ri_memory r) q = Some t \<and> as_ref (ri_memory r') q = Some t) \<and>
    (\<forall>q \<in> set (ri_spans r'). owned r' q)"
proof -
  obtain p r' where run: "raw_intern slack r s = Some (length (contents r), r')" "raw_ok r'" "contents r' = contents r @ [s]"
    "ri_spans r' = ri_spans r @ [p]" "grows (ri_memory r) (ri_memory r')"
    using raw_intern_run [OF r] by blast
  have "as_ref (ri_memory r') p \<noteq> None" using run(2,4) by (simp add: raw_ok_def readable_def)
  moreover have "the (as_ref (ri_memory r') p) = s" using run(3,4) by (simp add: contents_def)
  moreover have "\<exists>t. as_ref (ri_memory r) q = Some t \<and> as_ref (ri_memory r') q = Some t" if "q \<in> set (ri_spans r)" for q
    using r that as_ref_grows [OF run(5)] by (auto simp: raw_ok_def readable_def)
  moreover have "\<forall>q \<in> set (ri_spans r'). owned r' q" using run(2) by (simp add: raw_ok_def)
  ultimately show ?thesis using run by (auto simp: contents_length)
qed

theorem interned_pointers_stay_witness:
  "\<exists>p r'. raw_intern (\<lambda>_. 0) raw_default [1 :: u8, 2] = Some (0, r') \<and> raw_ok r' \<and> ri_spans r' = [p] \<and>
    as_ref (ri_memory r') p = Some [1, 2]"
  using interned_pointers_stay [OF raw_new_ok(1), of "\<lambda>_. 0" "[1 :: u8, 2]"]
  by (auto simp: raw_default_def raw_len_def)

text \<open>
  The ranges of symbols that the parser asks for are the reserved words of the language, without \<open>await\<close> and
  \<open>yield\<close>, and the words reserved in strict code.
\<close>
theorem reserved_words:
  assumes I: "interner_ok I" and found: "interner_get I (Utf8 (str_literal s)) = Some (Some symbol)"
  shows "(is_reserved_identifier symbol \<longleftrightarrow>
      s \<in> {''break'', ''case'', ''catch'', ''class'', ''const'', ''continue'', ''debugger'', ''default'', ''delete'', ''do'',
        ''else'', ''enum'', ''export'', ''extends'', ''false'', ''finally'', ''for'', ''function'', ''if'', ''import'', ''in'',
        ''instanceof'', ''new'', ''null'', ''return'', ''super'', ''switch'', ''this'', ''throw'', ''true'', ''try'',
        ''typeof'', ''var'', ''void'', ''while'', ''with''}) \<and>
    (is_strict_reserved_identifier symbol \<longleftrightarrow>
      s \<in> {''implements'', ''interface'', ''let'', ''package'', ''private'', ''protected'', ''public'', ''static'', ''yield''})"
proof -
  have ok: "str_ok (str_literal t)" for t
  proof -
    have "of_char c < (256 :: nat)" for c :: char
      by (metis mod_less_divisor of_char_mod_256 zero_less_numeral)
    note less_le_trans [OF this, of "0xD800"]
    then have "scalar_value (of_char c)" for c :: char
      unfolding scalar_value_def by simp
    then show ?thesis by (simp add: str_ok_def str_literal_def list_all_iff)
  qed
  have i: "index_of (strings I) (encode_utf16 (str_literal s)) = Some (symbol - 1)" "0 < symbol"
    using found interner_get_run [OF I, of "Utf8 (str_literal s)"] ok by auto
  have range: "symbol \<in> {a <.. b} \<longleftrightarrow> s \<in> set (take (b - a) (drop a static_syms))" if "a \<le> b" "b \<le> 71" for a b
  proof -
    have syms: "length static_syms = 71" using common_length(1) by (simp add: common_strings_utf8_def)
    have at: "j < 71 \<Longrightarrow> index_of (strings I) (encode_utf16 (str_literal (static_syms ! j))) = Some j" for j
      using interner_okD(3) [OF I] index_of_nth [of "strings I" j] syms common_length(2)
      by (simp add: strings_def nth_append common_strings_utf16_def common_strings_utf8_def)
    have "s \<in> set (take (b - a) (drop a static_syms)) \<longleftrightarrow> (\<exists>j. a \<le> j \<and> j < b \<and> s = static_syms ! j)"
    proof
      assume "s \<in> set (take (b - a) (drop a static_syms))"
      then obtain k where "k < b - a" "s = static_syms ! (a + k)"
        using that syms by (auto simp: in_set_conv_nth)
      then show "\<exists>j. a \<le> j \<and> j < b \<and> s = static_syms ! j" by (intro exI [of _ "a + k"]) simp
    next
      assume "\<exists>j. a \<le> j \<and> j < b \<and> s = static_syms ! j"
      then obtain j where "a \<le> j" "j < b" "s = static_syms ! j" by blast
      then show "s \<in> set (take (b - a) (drop a static_syms))"
        using that syms by (auto simp: in_set_conv_nth intro!: exI [of _ "j - a"])
    qed
    also have "\<dots> \<longleftrightarrow> a \<le> symbol - 1 \<and> symbol - 1 < b"
    proof
      assume "\<exists>j. a \<le> j \<and> j < b \<and> s = static_syms ! j"
      then show "a \<le> symbol - 1 \<and> symbol - 1 < b" using at i(1) that by auto
    next
      assume b: "a \<le> symbol - 1 \<and> symbol - 1 < b"
      then have "encode_utf16 (str_literal (static_syms ! (symbol - 1))) = encode_utf16 (str_literal s)"
        using index_of_SomeD [OF i(1)] index_of_SomeD [OF at [of "symbol - 1"]] that by simp
      then have "static_syms ! (symbol - 1) = s"
        using encode_utf16_inj ok str_literal_inj by blast
      then show "\<exists>j. a \<le> j \<and> j < b \<and> s = static_syms ! j" using b by blast
    qed
    finally show ?thesis using i(2) by auto
  qed
  have sym_consts: "sym_const ''break'' = 1" "sym_const ''with'' = 36" "sym_const ''implements'' = 37" "sym_const ''yield'' = 45"
    by (simp_all add: sym_const_def static_syms_def)
  have "is_reserved_identifier symbol \<longleftrightarrow> symbol \<in> {0 <.. 36}" "is_strict_reserved_identifier symbol \<longleftrightarrow> symbol \<in> {36 <.. 45}"
    by (auto simp: is_reserved_identifier_def is_strict_reserved_identifier_def sym_consts)
  then have "is_reserved_identifier symbol \<longleftrightarrow> s \<in> set (take 36 static_syms)"
    "is_strict_reserved_identifier symbol \<longleftrightarrow> s \<in> set (take 9 (drop 36 static_syms))"
    using range [of 0 36] range [of 36 45] by simp_all
  then show ?thesis by (simp only:) (simp add: static_syms_def)
qed

theorem reserved_words_witness:
  "\<exists>symbol. interner_get interner_default (Utf8 (str_literal ''let'')) = Some (Some symbol) \<and>
    \<not> is_reserved_identifier symbol \<and> is_strict_reserved_identifier symbol"
proof -
  have "interner_get interner_default (Utf8 (str_literal ''let'')) = Some (Some 39)"
    by (simp add: interner_get_def common_strings_utf8_def static_syms_def str_literal_def)
  then show ?thesis
    using reserved_words [OF interner_new_ok(1), of "''let''" 39] by simp
qed

end
