(* ===== verification/Spec2Isabelle.thy ===== *)
theory Spec2Isabelle
  imports PropertyOpcodeProperties OrderedFacts SetFacts MapOperations ValueOperationFacts JobProperties PromiseAll InternerProperties
begin

text \<open>
  Verification library for the value and object core of the Boa engine
  (\<open>src/core/engine/src\<close>, below without that prefix). The engine runs JavaScript programs:
  values are NaN-boxed words, objects keep their properties in a storage that a shared or unique
  shape lays out, and everything a program does to an object goes through the internal methods of
  the object, which report slots to the inline caches of the bytecode. The library models these
  layers bottom up, each as the code has it, and proves what the next one relies on.

  Theories and sources.
  \<^item> \<open>Prelude\<close>: the machine integers as words, panics as \<open>None\<close>, the generic lemmas and the
    collections \<open>mask_simps\<close>, \<open>desc_simps\<close>, \<open>shape_simps\<close>. \<open>JsResult\<close>: computations that may throw, call
    user code or not return, with the collection \<open>run_simps\<close> that evaluates them.
  \<^item> \<open>Float64\<close>, \<open>F64Arith\<close>: IEEE doubles as their 64 bits with the operations of Rust's \<open>f64\<close>; integers
    add and multiply exactly.
  \<^item> \<open>NanBox\<close> (\<open>value/inner/nan_boxed.rs\<close>), \<open>JsValue\<close> (\<open>value/variant.rs\<close>, \<open>type.rs\<close>, \<open>equality.rs\<close>,
    \<open>hash.rs\<close>), \<open>Conversions\<close> and \<open>ConversionFacts\<close> (\<open>value/mod.rs\<close>, \<open>value/integer.rs\<close>,
    \<open>builtins/number/conversions.rs\<close>), \<open>ValueOperations\<close> and \<open>ValueOperationFacts\<close>
    (\<open>value/operations.rs\<close>): representation, equalities, conversions and operators of values.
  \<^item> \<open>Property\<close>, \<open>PropertyKey\<close>, \<open>Slot\<close> (\<open>property/\<close>, \<open>object/shape/slot.rs\<close>): descriptors, keys, slots.
  \<^item> \<open>PropertyTable\<close>, \<open>ShapeHeap\<close>, \<open>SharedShape\<close>, \<open>UniqueShape\<close>, \<open>Shape\<close>, \<open>ShapeInvariant\<close>,
    \<open>SharedShapeFacts\<close>, \<open>ShapeProperties\<close> (\<open>object/shape/\<close>): shapes in a store with weak transitions and
    an arbitrary collector; the invariant relates each shape to the one it was made from.
  \<^item> \<open>IndexedProperties\<close>, \<open>PropertyMap\<close>, \<open>PropertyMapFacts\<close> (\<open>object/property_map.rs\<close>): the values of an
    object; a property map is the association list of its named properties and a map of indices.
  \<^item> \<open>Objects\<close>, \<open>InternalMethods\<close>, \<open>InternalMethodFacts\<close>, \<open>PrototypeChain\<close>, \<open>ObjectInvariants\<close>,
    \<open>ObjectSteps\<close>, \<open>ObjectProperties\<close>, \<open>OrdinarySet\<close> (\<open>object/mod.rs\<close>, \<open>object/jsobject.rs\<close>,
    \<open>object/internal_methods/\<close>): the heap of objects and the internal methods, refined to a view of
    each property, with the invariants that the standard demands of any sequence of them, which is
    the relation \<open>object_step\<close>; assignment. The rollback of shared shapes can lose a change of attributes
    (\<open>removal_loses_configuration\<close>), so that attributes of other properties are kept only by the calls that do
    not run into this: \<open>faithful_insert\<close>, \<open>faithful_remove\<close> and the flag of \<open>object_step\<close>; presence of properties,
    extensibility and prototypes are kept by all.
  \<^item> \<open>SlotAccess\<close>, \<open>ArrayFacts\<close>, \<open>ArrayDefine\<close>, \<open>ArrayProperties\<close> (\<open>builtins/array/mod.rs\<close>, whose
    definitions are in \<open>InternalMethods\<close>): values by slot, and arrays; \<open>array_at w a n b\<close> says that the
    object is an array of length \<open>n\<close>, writable if \<open>b\<close>.
  \<^item> \<open>InlineCache\<close>, \<open>InlineCacheFacts\<close>, \<open>InlineCacheProperties\<close>, \<open>InlineCacheWrites\<close>
    (\<open>vm/inline_cache/mod.rs\<close>, \<open>vm/opcode/get/property.rs\<close>, \<open>vm/opcode/set/property.rs\<close>),
    \<open>PropertyOpcodes\<close>, \<open>PropertyOpcodeProperties\<close> (the opcodes for computed keys of the same files): what
    the bytecode does with slots. \<open>cache_sound\<close> says that each entry leads to the slot a lookup would
    find; hits, misses and the short ways are then the internal methods.
  \<^item> \<open>OrderedCollections\<close>, \<open>OrderedFacts\<close>, \<open>MapOperations\<close>, \<open>SetOperations\<close>, \<open>SetFacts\<close> (\<open>builtins/map/\<close>,
    \<open>builtins/set/\<close>): the collections behind \<open>Map\<close> and \<open>Set\<close> with their locks, the methods of maps on
    single keys, for keys as a program passes them, and the methods of sets.
  \<^item> \<open>Iterators\<close> (\<open>builtins/iterable/mod.rs\<close>): methods of values and the iteration protocol. \<open>Promises\<close>,
    \<open>PromiseMethods\<close> (\<open>builtins/promise/mod.rs\<close>, \<open>native_function/mod.rs\<close>): promises, their resolving
    functions, capabilities and jobs, the methods and combinators (the experimental keyed ones too), and native
    functions. \<open>JobQueue\<close>
    (\<open>job.rs\<close>): the default executor of jobs.
  \<^item> \<open>Strings\<close>, \<open>Interner\<close>, \<open>InternerFacts\<close>, \<open>InternerProperties\<close> (\<open>src/core/interner/src\<close>, with the macro \<open>static_syms\<close> of
    \<open>src/core/macros\<close>): Unicode strings and their encodings; the string interner with its unsafe buffers, which
    never move, so it is a list of distinct strings and a symbol a position in it. Its tables are interpretations
    of the locale \<open>string_table\<close>. The capacity that an allocator adds to what is asked for is the argument \<open>slack\<close>.
  \<^item> \<open>EngineKeeps\<close>, \<open>PromiseInvariant\<close>, \<open>PromiseFacts\<close>, \<open>PromiseKeeps\<close>, \<open>PromiseEngine\<close>, \<open>JobFacts\<close>: the
    relation \<open>evolves\<close> between worlds, which every operation of promises keeps, so every engine that nests
    their calls to any depth, and the jobs. \<open>PromiseProperties\<close>, \<open>PromiseAll\<close>, \<open>JobProperties\<close>: what follows
    for a program: outcomes are final, resolving functions act once, handlers run in their order.

  State and effects. Shapes, property tables and objects are boxes in explicit stores, addresses are
  numbers, and a pointer comparison is a comparison of addresses. A panic and a computation that does
  not return are \<open>None\<close>; an exception is \<open>Inl\<close>. A function that may not return is a
  \<open>partial_function (option)\<close> and its returning is part of what is proved of it. The only fuel is that of
  the walks along previous shapes; every shape is younger than its previous one, so the next free
  address bounds the walk, and the theorems state that it is enough.

  Closures of native functions are values of a datatype, what they share are cells of the world, and the
  data of promises and functions is beside the heap at the addresses of the objects. \<open>engine_at B U n\<close> is
  the engine in which calls nest \<open>n\<close> deep: \<open>U\<close> is the code of the user, given the engine one level down,
  \<open>B\<close> what is at the bottom; the theorems hold for every \<open>n\<close>. The host hooks are the default ones, and what
  the rejection tracker is told is recorded.

  Interfaces. \<open>keeping\<close> and its extension \<open>object_keeping\<close> are what a relation between worlds needs for the
  combinators of computations and for the object model to keep it; they are interpreted on \<open>evolves\<close> and
  \<open>advances\<close>. \<open>shape_store\<close> is what a user of shapes relies on, \<open>nan_tag\<close> what a tag of the boxed values
  gives, \<open>ordered_elements\<close> what the methods of sets rely on; each is interpreted on the definitions
  that model the code. Code outside the repository is an argument: the hash maps of \<open>indexmap\<close> with the
  laws \<open>indexmap_laws\<close> and \<open>index_map_laws\<close>, the formatting of \<open>itoa\<close>, the power function of doubles, the
  garbage collector, calls of functions (which the theorems on inline caches rely on to keep the number
  of caches and the existence of prototypes, \<open>calls_keep\<close>), the prototypes and templates of the realm
  and the addresses of new objects. Addresses are not reused in the model, so that of a shape stands for
  the shape and its weak reference. Opcodes take the contents of registers and give back what goes there.

  Not modelled: the lexer, parser and syntax tree, the bytecode compiler and the interpreter loop
  (tens of thousands of lines over the whole state of the engine), the optimising tiers, the garbage
  collector itself (unsafe pointers), the rest of the built-in objects, and modules. In the modelled
  files: asynchronous and detached jobs, whose futures are polled by another crate, the cleanup of
  finalization registries (what is shown of the executor is for runs without them), the realm that an error object is
  made in (an argument makes it), conversions to strings, exotic objects other than strings, arrays and immutable
  prototypes (arguments of the model), and the builders of constructors.
\<close>

end
